(* ===== verification/Prelude.thy ===== *)
theory Prelude
  imports Main "HOL-Library.Word"
begin

text \<open>
  Shared vocabulary of the development: the machine integer types of the C code, the faults a
  C operation can end in, sequencing of operations that can fault, and the generic facts on
  lists and words that several components use.

  A C function is a HOL function on explicit state. Where the source can leave defined
  behaviour (a failed \<open>os_assert\<close>, which spins forever; a null dereference; an access outside
  an array; a use after free; a wait nobody ends), the model returns \<open>Inl\<close> of a \<open>fault\<close>.
\<close>

unbundle bit_operations_syntax

type_synonym u8 = "8 word"
type_synonym u16 = "16 word"
type_synonym u32 = "32 word"
type_synonym u64 = "64 word"

datatype fault =
    Assert_Failed
  | Null_Deref
  | Out_Of_Bounds
  | Use_After_Free
  | Div_By_Zero
  | Overflow
  | Bad_Shift
  | Deadlock
  | Diverges

type_synonym 'a outcome = "fault + 'a"

named_theorems outcome_simps \<open>unfolding of sequenced operations\<close>

subsection \<open>Sequencing\<close>

fun and_then :: "'a outcome \<Rightarrow> ('a \<Rightarrow> 'b outcome) \<Rightarrow> 'b outcome" where
  "and_then (Inl e) f = Inl e"
| "and_then (Inr x) f = f x"

lemma and_then_split:
  "P (and_then m f) \<longleftrightarrow> (\<forall>e. m = Inl e \<longrightarrow> P (Inl e)) \<and> (\<forall>x. m = Inr x \<longrightarrow> P (f x))"
  by (cases m) auto

lemma and_then_split_asm:
  "P (and_then m f) \<longleftrightarrow>
     \<not> ((\<exists>e. m = Inl e \<and> \<not> P (Inl e)) \<or> (\<exists>x. m = Inr x \<and> \<not> P (f x)))"
  by (cases m) auto

lemmas and_then_splits = and_then_split and_then_split_asm

lemma and_then_Inr [outcome_simps]:
  "and_then m f = Inr y \<longleftrightarrow> (\<exists>x. m = Inr x \<and> f x = Inr y)"
  by (cases m) auto

lemma and_then_Inl [outcome_simps]:
  "and_then m f = Inl e \<longleftrightarrow> m = Inl e \<or> (\<exists>x. m = Inr x \<and> f x = Inl e)"
  by (cases m) auto

lemma and_then_cong:
  "m = m' \<Longrightarrow> (\<And>x. m' = Inr x \<Longrightarrow> f x = g x) \<Longrightarrow> and_then m f = and_then m' g"
  by (cases m') auto

lemma and_then_assoc: "and_then (and_then m f) g = and_then m (\<lambda>x. and_then (f x) g)"
  by (cases m) auto

text \<open>\<open>os_assert(cond, ...)\<close>: execution goes on only when the condition holds.\<close>

definition os_assert :: "bool \<Rightarrow> 'a outcome \<Rightarrow> 'a outcome" where
  "os_assert c k = (if c then k else Inl Assert_Failed)"

lemma os_assert_Inr [outcome_simps]: "os_assert c k = Inr x \<longleftrightarrow> c \<and> k = Inr x"
  by (simp add: os_assert_def)

lemma os_assert_True [simp]: "os_assert True k = k"
  by (simp add: os_assert_def)

lemma os_assert_False [simp]: "os_assert False k = Inl Assert_Failed"
  by (simp add: os_assert_def)

subsection \<open>Arrays\<close>

text \<open>Reading and writing an array element, with the fault C leaves undefined written out.\<close>

definition arr_get :: "'a list \<Rightarrow> nat \<Rightarrow> 'a outcome" where
  "arr_get xs i = (if i < length xs then Inr (xs ! i) else Inl Out_Of_Bounds)"

definition arr_set :: "'a list \<Rightarrow> nat \<Rightarrow> 'a \<Rightarrow> 'a list outcome" where
  "arr_set xs i x = (if i < length xs then Inr (xs[i := x]) else Inl Out_Of_Bounds)"

lemma arr_get_Inr [outcome_simps]: "arr_get xs i = Inr y \<longleftrightarrow> i < length xs \<and> y = xs ! i"
  by (auto simp: arr_get_def)

lemma arr_get_Inl [outcome_simps]:
  "arr_get xs i = Inl e \<longleftrightarrow> length xs \<le> i \<and> e = Out_Of_Bounds"
  by (auto simp: arr_get_def)

lemma arr_set_Inr [outcome_simps]:
  "arr_set xs i x = Inr ys \<longleftrightarrow> i < length xs \<and> ys = xs[i := x]"
  by (auto simp: arr_set_def)

lemma arr_get_ok [simp]: "i < length xs \<Longrightarrow> arr_get xs i = Inr (xs ! i)"
  by (simp add: arr_get_def)

lemma arr_get_bad [simp]: "length xs \<le> i \<Longrightarrow> arr_get xs i = Inl Out_Of_Bounds"
  by (simp add: arr_get_def)

lemma arr_set_ok [simp]: "i < length xs \<Longrightarrow> arr_set xs i x = Inr (xs[i := x])"
  by (simp add: arr_set_def)

lemma arr_set_bad [simp]: "length xs \<le> i \<Longrightarrow> arr_set xs i x = Inl Out_Of_Bounds"
  by (simp add: arr_set_def)

lemma list_update_append_length: "(xs @ y # ys)[length xs := z] = xs @ z # ys"
  by simp

lemma take_Suc_update: "i < length xs \<Longrightarrow> take (Suc i) (xs[i := x]) = take i xs @ [x]"
  by (simp add: take_Suc_conv_app_nth)

subsection \<open>Words\<close>

lemma unat_add_lt: "unat a + unat b < 2 ^ LENGTH('a) \<Longrightarrow> unat (a + b) = unat a + unat b"
  for a b :: "'a::len word"
  by (simp add: unat_word_ariths)

lemma unat_Suc_lt: "Suc (unat a) < 2 ^ LENGTH('a) \<Longrightarrow> unat (a + 1) = Suc (unat a)"
  for a :: "'a::len word"
proof -
  assume "Suc (unat a) < 2 ^ LENGTH('a)"
  then have "(unat a + 1) mod 2 ^ LENGTH('a) = Suc (unat a)" by simp
  then show ?thesis by (simp add: unat_word_ariths)
qed

lemma unat_word_mod: "unat (a mod b) = unat a mod unat b"
  for a b :: "'a::len word"
  by (rule unat_mod)

lemma unat_ucast_up: "LENGTH('a) \<le> LENGTH('b) \<Longrightarrow> unat (ucast x :: 'b::len word) = unat x"
  for x :: "'a::len word"
proof -
  assume le: "LENGTH('a) \<le> LENGTH('b)"
  have "unat x < 2 ^ LENGTH('a)" by (rule unsigned_less)
  also have "\<dots> \<le> 2 ^ LENGTH('b)" using le by simp
  finally show ?thesis by (simp add: unsigned_ucast_eq take_bit_nat_eq_self)
qed

lemma unat_ucast_16_64 [simp]: "unat (ucast (x :: u16) :: u64) = unat x"
  by (simp add: unat_ucast_up)

lemma unat_ucast_32_64 [simp]: "unat (ucast (x :: u32) :: u64) = unat x"
  by (simp add: unat_ucast_up)

lemma unat_ucast_16_32 [simp]: "unat (ucast (x :: u16) :: u32) = unat x"
  by (simp add: unat_ucast_up)

lemma u8_lt: "unat (x :: u8) < 256"
  using unsigned_less [of x, where ?'a = nat] by simp

lemma u16_lt: "unat (x :: u16) < 65536"
  using unsigned_less [of x, where ?'a = nat] by simp

lemma u32_lt: "unat (x :: u32) < 4294967296"
  using unsigned_less [of x, where ?'a = nat] by simp

lemma unat_of_nat_below [simp]: "n < 4294967296 \<Longrightarrow> unat (of_nat n :: u32) = n"
  by (simp add: unat_of_nat take_bit_nat_eq_self)

subsection \<open>Bytes of a word\<close>

text \<open>The bytes of a word in memory and the word of some bytes; \<open>n\<close> is the number of bytes.\<close>

fun le_bytes :: "nat \<Rightarrow> u64 \<Rightarrow> u8 list" where
  "le_bytes 0 w = []"
| "le_bytes (Suc n) w = ucast w # le_bytes n (drop_bit 8 w)"

fun of_le_bytes :: "u8 list \<Rightarrow> u64" where
  "of_le_bytes [] = 0"
| "of_le_bytes (b # bs) = ucast b OR push_bit 8 (of_le_bytes bs)"

lemma byte_bit [simp]: "\<not> bit (b :: u8) (n + 8)"
  by (rule impossible_bit) simp

lemma le_bytes_length [simp]: "length (le_bytes n w) = n"
  by (induction n arbitrary: w) auto

lemma le_bytes_split: "le_bytes (n + m) w = le_bytes n w @ le_bytes m (drop_bit (8 * n) w)"
  by (induction n arbitrary: w) (simp_all add: drop_bit_drop_bit add.commute)

lemma le_bytes_24:
  "le_bytes 2 w = [ucast w, ucast (drop_bit 8 w)]"
  "le_bytes 4 w = [ucast w, ucast (drop_bit 8 w), ucast (drop_bit 16 w), ucast (drop_bit 24 w)]"
proof -
  show 2: "le_bytes 2 w = [ucast w, ucast (drop_bit 8 w)]" for w by (simp add: numeral_2_eq_2)
  show "le_bytes 4 w = [ucast w, ucast (drop_bit 8 w), ucast (drop_bit 16 w), ucast (drop_bit 24 w)]"
    using le_bytes_split [of 2 2 w] by (simp add: 2 drop_bit_drop_bit)
qed

lemma of_le_bytes_le_bytes: "of_le_bytes (le_bytes n w) = take_bit (8 * n) w"
proof (induction n arbitrary: w)
  case (Suc n)
  have "ucast (ucast w :: u8) OR push_bit 8 (take_bit (8 * n) (drop_bit 8 w)) = take_bit (8 + 8 * n) w"
    by (rule bit_word_eqI) (auto simp: bit_simps)
  then show ?case using Suc by (simp add: add.commute)
qed simp

subsection \<open>Signed arithmetic\<close>

definition in_i32 :: "int \<Rightarrow> bool" where
  "in_i32 x \<longleftrightarrow> - (2 ^ 31) \<le> x \<and> x < 2 ^ 31"

definition in_i64 :: "int \<Rightarrow> bool" where
  "in_i64 x \<longleftrightarrow> - (2 ^ 63) \<le> x \<and> x < 2 ^ 63"

definition i64 :: "int \<Rightarrow> (int \<Rightarrow> 'a outcome) \<Rightarrow> 'a outcome" where
  "i64 x k = (if in_i64 x then k x else Inl Overflow)"

text \<open>Conversion to \<open>int32_t\<close>, and the division of C, which rounds towards zero.\<close>

definition to_i32 :: "int \<Rightarrow> int" where
  "to_i32 x = (x + 2 ^ 31) mod 2 ^ 32 - 2 ^ 31"

definition c_div :: "int \<Rightarrow> int \<Rightarrow> int" where
  "c_div x y = (if 0 \<le> x then x div y else - ((- x) div y))"

lemma i64_in [simp]: "in_i64 x \<Longrightarrow> i64 x k = k x"
  by (simp add: i64_def)

lemma i64_out [simp]: "\<not> in_i64 x \<Longrightarrow> i64 x k = Inl Overflow"
  by (simp add: i64_def)

lemma to_i32_id: "in_i32 x \<Longrightarrow> to_i32 x = x"
  by (simp add: in_i32_def to_i32_def)

end
