(* ===== verification/Virtio_Ring.thy ===== *)
theory Virtio_Ring
  imports Prelude
begin

text \<open>
  The split virtqueue: \<open>include/virtio/uapi/virtio_ring.h\<close> (layout and event index test),
  \<open>include/common/iovec.h\<close> and the queue operations of \<open>virtio/devices/core.c\<close>.

  The rings live in memory shared with the driver. The model keeps that memory typed: a
  \<open>shm\<close> maps an address to the descriptor, the available ring or the used ring stored there,
  and a \<open>vring\<close> holds addresses as the C struct does. Address 0 is the null pointer.
\<close>

subsection \<open>Data\<close>

record vring_desc =
  d_addr :: u64
  d_len :: u32
  d_flags :: u16
  d_next :: u16

record vring_avail =
  av_flags :: u16
  av_idx :: u16
  av_ring :: "nat \<Rightarrow> u16"

record vring_used_elem =
  ue_id :: u32
  ue_len :: u32

record vring_used =
  us_flags :: u16
  us_idx :: u16
  us_ring :: "nat \<Rightarrow> vring_used_elem"

record shm =
  sm_desc :: "u64 \<Rightarrow> vring_desc"
  sm_avail :: "u64 \<Rightarrow> vring_avail"
  sm_used :: "u64 \<Rightarrow> vring_used"

record vring =
  vr_num :: u32
  vr_desc :: u64
  vr_avail :: u64
  vr_used :: u64

record virtqueue =
  vq_vring :: vring
  vq_pfn :: u32
  vq_last_avail_idx :: u16
  vq_last_notified_idx :: u16
  vq_use_event_idx :: bool
  vq_enabled :: bool

record iovec =
  iov_addr :: u64
  iov_len :: u64

definition VRING_DESC_F_NEXT :: u16 where "VRING_DESC_F_NEXT = 1"
definition VRING_DESC_F_WRITE :: u16 where "VRING_DESC_F_WRITE = 2"
definition VRING_DESC_F_INDIRECT :: u16 where "VRING_DESC_F_INDIRECT = 4"
definition VRING_AVAIL_F_NO_INTERRUPT :: u16 where "VRING_AVAIL_F_NO_INTERRUPT = 1"
definition VIRTIO_RING_F_EVENT_IDX :: nat where "VIRTIO_RING_F_EVENT_IDX = 29"
definition VIRTIO_RING_F_INDIRECT_DESC :: nat where "VIRTIO_RING_F_INDIRECT_DESC = 28"

lemmas ring_flag_defs = VRING_DESC_F_NEXT_def VRING_DESC_F_WRITE_def VRING_DESC_F_INDIRECT_def
  VRING_AVAIL_F_NO_INTERRUPT_def

subsection \<open>Layout and event index (\<open>virtio_ring.h\<close>)\<close>

text \<open>\<open>sizeof(struct vring_desc)\<close> is 16; the available ring is two halfwords and the
  entries; the used ring starts at the next multiple of \<open>align\<close>.\<close>

definition vring_init :: "u32 \<Rightarrow> u64 \<Rightarrow> u64 \<Rightarrow> vring" where
  "vring_init num p align =
     (let avail = p + ucast num * 16
      in \<lparr>vr_num = num, vr_desc = p, vr_avail = avail,
          vr_used = ((avail + 4 + ucast num * 2) + 2 + align - 1) AND NOT (align - 1)\<rparr>)"

definition vring_need_event :: "u16 \<Rightarrow> u16 \<Rightarrow> u16 \<Rightarrow> bool" where
  "vring_need_event event_idx new_idx old \<longleftrightarrow> new_idx - event_idx - 1 < new_idx - old"

text \<open>\<open>vring_used_event\<close> is the halfword after the available entries; \<open>vring_avail_event\<close>
  is the low halfword of the used element after the last one (a union with its id).\<close>

definition vring_used_event :: "vring \<Rightarrow> shm \<Rightarrow> u16" where
  "vring_used_event vr m = av_ring (sm_avail m (vr_avail vr)) (unat (vr_num vr))"

definition set_avail_event :: "vring \<Rightarrow> u16 \<Rightarrow> shm \<Rightarrow> shm" where
  "set_avail_event vr ev m =
     (let us = sm_used m (vr_used vr); i = unat (vr_num vr); e = us_ring us i;
          e' = e\<lparr>ue_id := (ue_id e AND NOT 0xFFFF) OR ucast ev\<rparr>
      in m\<lparr>sm_used := (sm_used m)(vr_used vr := us\<lparr>us_ring := (us_ring us)(i := e')\<rparr>)\<rparr>)"

subsection \<open>Queue operations (\<open>core.c\<close>)\<close>

definition virtio_queue_update_used_idx :: "virtqueue \<Rightarrow> u16 \<Rightarrow> shm \<Rightarrow> shm outcome" where
  "virtio_queue_update_used_idx vq num m =
     (let a = vr_used (vq_vring vq)
      in if a = 0 then Inl Null_Deref
         else let us = sm_used m a
              in Inr (m\<lparr>sm_used := (sm_used m)(a := us\<lparr>us_idx := us_idx us + num\<rparr>)\<rparr>))"

definition virtio_queue_add_used_elem ::
    "virtqueue \<Rightarrow> u32 \<Rightarrow> u32 \<Rightarrow> u16 \<Rightarrow> shm \<Rightarrow> shm outcome" where
  "virtio_queue_add_used_elem vq elem_id len off m =
     (let a = vr_used (vq_vring vq); num = vr_num (vq_vring vq)
      in if a = 0 then Inl Null_Deref
         else if num = 0 then Inl Div_By_Zero
         else let us = sm_used m a;
                  idx = us_idx us + off;
                  slot = unat idx mod unat num
              in Inr (m\<lparr>sm_used := (sm_used m)(a :=
                   us\<lparr>us_ring := (us_ring us)(slot := \<lparr>ue_id = elem_id, ue_len = len\<rparr>)\<rparr>)\<rparr>))"

definition virtio_queue_update_used_elem ::
    "virtqueue \<Rightarrow> u32 \<Rightarrow> u32 \<Rightarrow> shm \<Rightarrow> shm outcome" where
  "virtio_queue_update_used_elem vq elem_id len m =
     and_then (virtio_queue_add_used_elem vq elem_id len 0 m)
       (virtio_queue_update_used_idx vq 1)"

text \<open>\<open>desc[i]\<close> of a table at address \<open>base\<close>.\<close>

definition desc_at :: "shm \<Rightarrow> u64 \<Rightarrow> u16 \<Rightarrow> vring_desc" where
  "desc_at m base i = sm_desc m (base + ucast i * 16)"

text \<open>The descriptor walk. The caller's array is \<open>iov\<close>; nothing in the C checks its size, so
  a write past it is a fault of the model. The fuel bounds the number of iterations.\<close>

fun get_iov_loop ::
    "nat \<Rightarrow> shm \<Rightarrow> u64 \<Rightarrow> u16 \<Rightarrow> iovec list \<Rightarrow> u16 \<Rightarrow> u16 \<Rightarrow> (iovec list \<times> u16 \<times> u16) outcome"
where
  "get_iov_loop 0 m desc cur_idx iov cnt_out cnt_in = Inl Diverges"
| "get_iov_loop (Suc fuel) m desc cur_idx iov cnt_out cnt_in =
     (let d = desc_at m desc cur_idx
      in and_then (arr_set iov (unat cnt_out + unat cnt_in)
                     \<lparr>iov_addr = d_addr d, iov_len = ucast (d_len d)\<rparr>) (\<lambda>iov'.
         let wr = (d_flags d AND VRING_DESC_F_WRITE \<noteq> 0);
             cnt_in' = (if wr then cnt_in + 1 else cnt_in);
             cnt_out' = (if wr then cnt_out else cnt_out + 1)
         in if d_flags d AND VRING_DESC_F_NEXT = 0 then Inr (iov', cnt_out', cnt_in')
            else get_iov_loop fuel m desc (d_next d) iov' cnt_out' cnt_in'))"

record get_iov_result =
  gi_ret :: int
  gi_vq :: virtqueue
  gi_mem :: shm
  gi_iov :: "iovec list"
  gi_out :: u16
  gi_in :: u16

definition virtio_queue_get_iov :: "virtqueue \<Rightarrow> iovec list \<Rightarrow> shm \<Rightarrow> get_iov_result outcome" where
  "virtio_queue_get_iov vq iov m =
     (let vr = vq_vring vq; last_avail_idx = vq_last_avail_idx vq
      in if vr_avail vr = 0 then Inl Null_Deref
         else let av = sm_avail m (vr_avail vr)
         in if av_idx av = last_avail_idx
            then Inr \<lparr>gi_ret = -1, gi_vq = vq, gi_mem = m, gi_iov = iov, gi_out = 0, gi_in = 0\<rparr>
            else if vr_num vr = 0 then Inl Div_By_Zero
            else
              let handle_idx = av_ring av (unat last_avail_idx mod unat (vr_num vr));
                  vq' = vq\<lparr>vq_last_avail_idx := last_avail_idx + 1\<rparr>;
                  d = desc_at m (vr_desc vr) handle_idx;
                  indirect = (d_flags d AND VRING_DESC_F_INDIRECT \<noteq> 0);
                  desc = (if indirect then d_addr d else vr_desc vr);
                  cur_idx = (if indirect then 0 else handle_idx)
              in and_then (get_iov_loop (Suc (length iov)) m desc cur_idx iov 0 0)
                   (\<lambda>(iov', cnt_out, cnt_in).
                      let m' = (if vq_use_event_idx vq'
                                then set_avail_event vr (vq_last_avail_idx vq') m else m)
                      in Inr \<lparr>gi_ret = int (unat handle_idx), gi_vq = vq', gi_mem = m',
                              gi_iov = iov', gi_out = cnt_out, gi_in = cnt_in\<rparr>))"

definition virtio_queue_must_notify :: "virtqueue \<Rightarrow> shm \<Rightarrow> (bool \<times> virtqueue) outcome" where
  "virtio_queue_must_notify vq m =
     (let vr = vq_vring vq
      in if vr_avail vr = 0 then Inl Null_Deref
         else if vq_use_event_idx vq then
           (let event_idx = vring_used_event vr m;
                new_idx = us_idx (sm_used m (vr_used vr));
                last_idx = vq_last_notified_idx vq
            in if \<not> vring_need_event event_idx new_idx last_idx then Inr (False, vq)
               else Inr (True, vq\<lparr>vq_last_notified_idx := new_idx\<rparr>))
         else Inr (av_flags (sm_avail m (vr_avail vr)) AND VRING_AVAIL_F_NO_INTERRUPT = 0, vq))"

subsection \<open>Scatter lists (\<open>iovec.h\<close>)\<close>

text \<open>Lengths are \<open>size_t\<close> (64 bits). \<open>iov_size\<close> sums the first \<open>n\<close> entries.\<close>

definition iov_size :: "iovec list \<Rightarrow> nat \<Rightarrow> u64 outcome" where
  "iov_size iov n = (if n \<le> length iov then Inr (sum_list (map iov_len (take n iov)))
                     else Inl Out_Of_Bounds)"

text \<open>Typed bytes of shared memory, for the copies in and out of scatter lists.\<close>

type_synonym bmem = "u64 \<Rightarrow> u8"

definition mem_read :: "bmem \<Rightarrow> u64 \<Rightarrow> nat \<Rightarrow> u8 list" where
  "mem_read m a n = map (\<lambda>i. m (a + of_nat i)) [0..<n]"

fun mem_write :: "bmem \<Rightarrow> u64 \<Rightarrow> u8 list \<Rightarrow> bmem" where
  "mem_write m a [] = m"
| "mem_write m a (b # bs) = mem_write (m(a := b)) (a + 1) bs"

definition memcpy :: "bmem \<Rightarrow> u64 \<Rightarrow> u64 \<Rightarrow> nat \<Rightarrow> bmem" where
  "memcpy m dst src n = mem_write m dst (mem_read m src n)"

text \<open>The two copy loops step through the scatter list and advance each entry by what it
  took, so a caller sees the entries used up. \<open>min_t(uint32_t, iov->len, len)\<close> truncates the
  entry's length to 32 bits.\<close>

definition iov_copy :: "iovec \<Rightarrow> nat \<Rightarrow> nat" where
  "iov_copy v len = min (unat (ucast (iov_len v) :: u32)) len"

definition iov_advance :: "iovec \<Rightarrow> nat \<Rightarrow> iovec" where
  "iov_advance v n = v\<lparr>iov_addr := iov_addr v + of_nat n, iov_len := iov_len v - of_nat n\<rparr>"

fun memcpy_toiovec :: "iovec list \<Rightarrow> u64 \<Rightarrow> nat \<Rightarrow> bmem \<Rightarrow> (iovec list \<times> bmem) outcome" where
  "memcpy_toiovec [] data len m = (if len = 0 then Inr ([], m) else Inl Out_Of_Bounds)"
| "memcpy_toiovec (v # vs) data len m =
     (if len = 0 then Inr (v # vs, m)
      else let copy = (if iov_len v = 0 then 0 else iov_copy v len)
           in and_then (memcpy_toiovec vs (data + of_nat copy) (len - copy)
                          (memcpy m (iov_addr v) data copy))
                (\<lambda>(vs', m'). Inr (iov_advance v copy # vs', m')))"

fun memcpy_fromiovec :: "u64 \<Rightarrow> iovec list \<Rightarrow> nat \<Rightarrow> bmem \<Rightarrow> (iovec list \<times> bmem) outcome" where
  "memcpy_fromiovec data [] len m = (if len = 0 then Inr ([], m) else Inl Out_Of_Bounds)"
| "memcpy_fromiovec data (v # vs) len m =
     (if len = 0 then Inr (v # vs, m)
      else let copy = (if iov_len v = 0 then 0 else iov_copy v len)
           in and_then (memcpy_fromiovec (data + of_nat copy) vs (len - copy)
                          (memcpy m data (iov_addr v) copy))
                (\<lambda>(vs', m'). Inr (iov_advance v copy # vs', m')))"

section \<open>The event index test\<close>

text \<open>\<open>vring_need_event\<close> decides in wrap-around arithmetic whether the driver's event index
  is one of the used indices published since the last notification.\<close>

lemma need_event_window:
  "vring_need_event ev new old \<longleftrightarrow> (\<exists>k < unat (new - old). ev = old + of_nat k)"
proof
  assume "vring_need_event ev new old"
  then have lt: "new - ev - 1 < new - old" by (simp add: vring_need_event_def)
  let ?k = "new - old - 1 - (new - ev - 1)"
  have "unat ?k = unat (new - old) - 1 - unat (new - ev - 1)"
  proof -
    have "0 < unat (new - old)" using lt by (simp add: word_less_nat_alt)
    then have "unat (new - old - 1) = unat (new - old) - 1"
      by (metis One_nat_def Suc_leI unat_1 unat_sub word_le_nat_alt)
    moreover have "new - ev - 1 \<le> new - old - 1"
      using lt calculation by (simp add: word_less_nat_alt word_le_nat_alt)
    ultimately show ?thesis using unat_sub [of "new - ev - 1" "new - old - 1"] by simp
  qed
  then have "unat ?k < unat (new - old)" using lt by (simp add: word_less_nat_alt)
  moreover have "ev = old + of_nat (unat ?k)" by simp
  ultimately show "\<exists>k < unat (new - old). ev = old + of_nat k" by blast
next
  assume "\<exists>k < unat (new - old). ev = old + of_nat k"
  then obtain k where k: "k < unat (new - old)" and ev: "ev = old + of_nat k" by blast
  have k16: "k < 65536" using k u16_lt [of "new - old"] by simp
  have uk: "unat (of_nat k + 1 :: u16) = Suc k"
  proof -
    have "Suc k < 65536" using k u16_lt [of "new - old"] by simp
    then show ?thesis using k16 by (simp add: unat_word_ariths unat_of_nat)
  qed
  have eq: "new - ev - 1 = (new - old) - (of_nat k + 1)" using ev by simp
  have "unat (new - ev - 1) = unat (new - old) - Suc k"
    unfolding eq using k uk by (simp add: unat_sub word_le_nat_alt)
  then show "vring_need_event ev new old"
    using k by (simp add: vring_need_event_def word_less_nat_alt)
qed

text \<open>C9: When the driver uses event indices, the device decides to notify exactly when the
  driver's event index is among the used indices published since the last notification, in
  16-bit wrap-around arithmetic, and remembers the current index as notified exactly when it
  decides so.\<close>

theorem virtio_queue_must_notify_window:
  assumes "vr_avail (vq_vring vq) \<noteq> 0" and "vq_use_event_idx vq"
    and "new = us_idx (sm_used m (vr_used (vq_vring vq)))" and "old = vq_last_notified_idx vq"
  shows "\<exists>b. virtio_queue_must_notify vq m =
       Inr (b, vq\<lparr>vq_last_notified_idx := (if b then new else old)\<rparr>) \<and>
     (b \<longleftrightarrow> (\<exists>k < unat (new - old). vring_used_event (vq_vring vq) m = old + of_nat k))"
proof (rule exI, rule conjI)
  let ?b = "vring_need_event (vring_used_event (vq_vring vq) m) new old"
  show "virtio_queue_must_notify vq m =
      Inr (?b, vq\<lparr>vq_last_notified_idx := (if ?b then new else old)\<rparr>)"
    using assms by (simp add: virtio_queue_must_notify_def Let_def)
  show "?b \<longleftrightarrow> (\<exists>k < unat (new - old). vring_used_event (vq_vring vq) m = old + of_nat k)"
    by (rule need_event_window)
qed

section \<open>Descriptor chains\<close>

text \<open>The abstract chain a head index stands for: the descriptors from index \<open>i\<close> of the table
  at \<open>b\<close> up to the first one without the NEXT flag, if that is within \<open>n\<close> steps.\<close>

fun desc_chain :: "nat \<Rightarrow> shm \<Rightarrow> u64 \<Rightarrow> u16 \<Rightarrow> vring_desc list option" where
  "desc_chain 0 m b i = None"
| "desc_chain (Suc n) m b i =
     (let d = desc_at m b i
      in if d_flags d AND VRING_DESC_F_NEXT = 0 then Some [d]
         else map_option ((#) d) (desc_chain n m b (d_next d)))"

definition desc_iov :: "vring_desc \<Rightarrow> iovec" where
  "desc_iov d = \<lparr>iov_addr = d_addr d, iov_len = ucast (d_len d)\<rparr>"

definition writable :: "vring_desc \<Rightarrow> bool" where
  "writable d \<longleftrightarrow> d_flags d AND VRING_DESC_F_WRITE \<noteq> 0"

lemma desc_chain_length: "desc_chain n m b i = Some ds \<Longrightarrow> 0 < length ds \<and> length ds \<le> n"
  by (induction n arbitrary: i ds) (auto simp: Let_def split: if_splits)

text \<open>A chain that fits is copied into the array from the current position on.\<close>

lemma get_iov_loop_chain:
  assumes "desc_chain n m b i = Some ds"
    and "unat co + unat ci + length ds \<le> length iov" and "length iov < 65536"
    and "length ds \<le> fuel"
  shows "get_iov_loop fuel m b i iov co ci =
    Inr (take (unat co + unat ci) iov @ map desc_iov ds @ drop (unat co + unat ci + length ds) iov,
         co + of_nat (length (filter (\<lambda>d. \<not> writable d) ds)),
         ci + of_nat (length (filter writable ds)))"
  using assms
proof (induction n arbitrary: i iov co ci ds fuel)
  case 0
  then show ?case by simp
next
  case (Suc n)
  let ?d = "desc_at m b i" and ?k = "unat co + unat ci"
  from Suc.prems(1,4) obtain f' where fuel: "fuel = Suc f'"
    using desc_chain_length [OF Suc.prems(1)] by (cases fuel) auto
  have k: "?k < length iov"
    using Suc.prems(2) desc_chain_length [OF Suc.prems(1)] by linarith
  let ?iov' = "iov[?k := desc_iov ?d]"
  define co' where "co' = (if writable ?d then co else co + 1)"
  define ci' where "ci' = (if writable ?d then ci + 1 else ci)"
  have lt: "unat co < 65535" "unat ci < 65535" using k Suc.prems(3) by linarith+
  have sum: "unat co' + unat ci' = Suc ?k"
    using lt by (auto simp: co'_def ci'_def unat_Suc_lt)
  have step: "get_iov_loop fuel m b i iov co ci =
      (if d_flags ?d AND VRING_DESC_F_NEXT = 0 then Inr (?iov', co', ci')
       else get_iov_loop f' m b (d_next ?d) ?iov' co' ci')"
    using k by (simp add: fuel Let_def desc_iov_def writable_def co'_def ci'_def)
  show ?case
  proof (cases "d_flags ?d AND VRING_DESC_F_NEXT = 0")
    case True
    then have "ds = [?d]" using Suc.prems(1) by simp
    then show ?thesis using step True k
      by (simp add: upd_conv_take_nth_drop co'_def ci'_def)
  next
    case False
    then obtain ds' where ds': "desc_chain n m b (d_next ?d) = Some ds'" and ds: "ds = ?d # ds'"
      using Suc.prems(1) by (auto simp: Let_def)
    have "get_iov_loop f' m b (d_next ?d) ?iov' co' ci' =
      Inr (take (Suc ?k) ?iov' @ map desc_iov ds' @ drop (Suc ?k + length ds') ?iov',
           co' + of_nat (length (filter (\<lambda>d. \<not> writable d) ds')),
           ci' + of_nat (length (filter writable ds')))"
      using Suc.IH [OF ds', of co' ci' ?iov' f'] Suc.prems(2-4) by (simp add: sum ds fuel)
    then show ?thesis
      using step False k
      by (simp add: ds take_Suc_update co'_def ci'_def add.assoc)
  qed
qed

text \<open>A chain that does not end within the array runs past it.\<close>

lemma get_iov_loop_overflow:
  assumes "desc_chain (length iov - (unat co + unat ci)) m b i = None"
    and "unat co + unat ci \<le> length iov" and "length iov < 65536"
    and "length iov - (unat co + unat ci) < fuel"
  shows "get_iov_loop fuel m b i iov co ci = Inl Out_Of_Bounds"
  using assms
proof (induction "length iov - (unat co + unat ci)" arbitrary: i iov co ci fuel)
  case 0
  then obtain f' where "fuel = Suc f'" by (cases fuel) auto
  with 0 show ?case by (simp add: Let_def)
next
  case (Suc n)
  let ?d = "desc_at m b i" and ?k = "unat co + unat ci"
  from Suc.prems obtain f' where fuel: "fuel = Suc f'" by (cases fuel) auto
  from Suc.hyps(2) have k: "?k < length iov" by simp
  define co' where "co' = (if writable ?d then co else co + 1)"
  define ci' where "ci' = (if writable ?d then ci + 1 else ci)"
  have lt: "unat co < 65535" "unat ci < 65535" using k Suc.prems(3) by linarith+
  have sum: "unat co' + unat ci' = Suc ?k"
    using lt by (auto simp: co'_def ci'_def unat_Suc_lt)
  have chain: "desc_chain (Suc n) m b i = None" using Suc.prems(1) Suc.hyps(2) by simp
  then have more: "d_flags ?d AND VRING_DESC_F_NEXT \<noteq> 0"
    and none: "desc_chain n m b (d_next ?d) = None"
    by (auto simp: Let_def split: if_splits)
  let ?iov' = "iov[?k := desc_iov ?d]"
  have n: "n = length ?iov' - (unat co' + unat ci')" using Suc.hyps(2) sum by simp
  then have "desc_chain (length ?iov' - (unat co' + unat ci')) m b (d_next ?d) = None"
    using none by simp
  then have "get_iov_loop f' m b (d_next ?d) ?iov' co' ci' = Inl Out_Of_Bounds"
    using Suc.hyps(1) [OF n, of "d_next ?d" f'] Suc.hyps(2) Suc.prems sum fuel by simp
  then show ?case using k more
    by (simp add: fuel Let_def desc_iov_def writable_def co'_def ci'_def split: if_splits)
qed

section \<open>Taking a buffer from the available ring\<close>

text \<open>Where the walk starts: at the head's own entry, or at entry 0 of the indirect table.\<close>

definition chain_start :: "vring \<Rightarrow> u16 \<Rightarrow> shm \<Rightarrow> u64 \<times> u16" where
  "chain_start vr h m =
     (let d = desc_at m (vr_desc vr) h
      in if d_flags d AND VRING_DESC_F_INDIRECT \<noteq> 0 then (d_addr d, 0) else (vr_desc vr, h))"

definition avail_head :: "virtqueue \<Rightarrow> shm \<Rightarrow> u16" where
  "avail_head vq m = av_ring (sm_avail m (vr_avail (vq_vring vq)))
     (unat (vq_last_avail_idx vq) mod unat (vr_num (vq_vring vq)))"

definition avail_pending :: "virtqueue \<Rightarrow> shm \<Rightarrow> bool" where
  "avail_pending vq m \<longleftrightarrow> vr_avail (vq_vring vq) \<noteq> 0 \<and> vr_num (vq_vring vq) \<noteq> 0 \<and>
     av_idx (sm_avail m (vr_avail (vq_vring vq))) \<noteq> vq_last_avail_idx vq"

lemma get_iov_unfold:
  assumes "avail_pending vq m" and "chain_start (vq_vring vq) (avail_head vq m) m = (b, i)"
  shows "virtio_queue_get_iov vq iov m =
    and_then (get_iov_loop (Suc (length iov)) m b i iov 0 0)
      (\<lambda>(iov', cnt_out, cnt_in). Inr \<lparr>gi_ret = int (unat (avail_head vq m)),
         gi_vq = vq\<lparr>vq_last_avail_idx := vq_last_avail_idx vq + 1\<rparr>,
         gi_mem = (if vq_use_event_idx vq
                   then set_avail_event (vq_vring vq) (vq_last_avail_idx vq + 1) m else m),
         gi_iov = iov', gi_out = cnt_out, gi_in = cnt_in\<rparr>)"
  using assms
  by (auto simp: virtio_queue_get_iov_def avail_pending_def chain_start_def avail_head_def Let_def
      split: if_splits)

lemma get_iov_chain:
  assumes "avail_pending vq m"
    and "chain_start (vq_vring vq) (avail_head vq m) m = (b, i)"
    and "desc_chain n m b i = Some ds"
    and "length ds \<le> length iov" and "length iov < 65536"
  shows "virtio_queue_get_iov vq iov m = Inr
    \<lparr>gi_ret = int (unat (avail_head vq m)),
     gi_vq = vq\<lparr>vq_last_avail_idx := vq_last_avail_idx vq + 1\<rparr>,
     gi_mem = (if vq_use_event_idx vq
               then set_avail_event (vq_vring vq) (vq_last_avail_idx vq + 1) m else m),
     gi_iov = map desc_iov ds @ drop (length ds) iov,
     gi_out = of_nat (length (filter (\<lambda>d. \<not> writable d) ds)),
     gi_in = of_nat (length (filter writable ds))\<rparr>"
  using get_iov_loop_chain [OF assms(3), of 0 0 iov "Suc (length iov)"] assms(4,5)
  by (simp add: get_iov_unfold [OF assms(1,2)])

lemma get_iov_overflow:
  assumes "avail_pending vq m"
    and "chain_start (vq_vring vq) (avail_head vq m) m = (b, i)"
    and "desc_chain (length iov) m b i = None" and "length iov < 65536"
  shows "virtio_queue_get_iov vq iov m = Inl Out_Of_Bounds"
  using get_iov_loop_overflow [of iov 0 0 m b i "Suc (length iov)"] assms(3,4)
  by (simp add: get_iov_unfold [OF assms(1,2)])

lemma get_iov_empty:
  assumes "vr_avail (vq_vring vq) \<noteq> 0"
    and "av_idx (sm_avail m (vr_avail (vq_vring vq))) = vq_last_avail_idx vq"
  shows "virtio_queue_get_iov vq iov m =
    Inr \<lparr>gi_ret = -1, gi_vq = vq, gi_mem = m, gi_iov = iov, gi_out = 0, gi_in = 0\<rparr>"
  using assms by (simp add: virtio_queue_get_iov_def Let_def)

text \<open>The walk of any table ends: it fills the array or leaves it, so no fuel is short.\<close>

lemma get_iov_no_divergence:
  assumes "length iov < 65536"
  shows "virtio_queue_get_iov vq iov m \<noteq> Inl Diverges"
proof (cases "avail_pending vq m")
  case True
  obtain b i where bi: "chain_start (vq_vring vq) (avail_head vq m) m = (b, i)" by force
  show ?thesis
  proof (cases "desc_chain (length iov) m b i")
    case None
    then show ?thesis using get_iov_overflow [OF True bi None assms] by simp
  next
    case (Some ds)
    then show ?thesis
      using get_iov_chain [OF True bi Some _ assms] desc_chain_length [OF Some] by simp
  qed
next
  case False
  then show ?thesis by (auto simp: virtio_queue_get_iov_def avail_pending_def Let_def)
qed

text \<open>C3: The complete behaviour of taking a buffer. With nothing available,
  \<open>virtio_queue_get_iov\<close> returns -1 and changes nothing. Otherwise it consumes exactly one
  available entry: if the chain of the entry's head (direct, or in the head's indirect table)
  ends within the caller's array, it returns the head index, writes the address and length of
  every descriptor of the chain in order at the front of the array and leaves the rest of the
  array alone, counts the device-writable descriptors in \<open>cnt_in\<close> and the others in \<open>cnt_out\<close>,
  and publishes the available event index when that feature is on. If the chain does not end
  within the array the C writes past it: the other side's chain is never compared with the
  size of the array.\<close>

theorem virtio_queue_get_iov_spec:
  assumes "vr_avail (vq_vring vq) \<noteq> 0" and "vr_num (vq_vring vq) \<noteq> 0"
    and "length iov < 65536"
  shows "virtio_queue_get_iov vq iov m =
    (if av_idx (sm_avail m (vr_avail (vq_vring vq))) = vq_last_avail_idx vq
     then Inr \<lparr>gi_ret = -1, gi_vq = vq, gi_mem = m, gi_iov = iov, gi_out = 0, gi_in = 0\<rparr>
     else let h = avail_head vq m; (b, i) = chain_start (vq_vring vq) h m
       in case desc_chain (length iov) m b i of
         None \<Rightarrow> Inl Out_Of_Bounds
       | Some ds \<Rightarrow> Inr
          \<lparr>gi_ret = int (unat h),
           gi_vq = vq\<lparr>vq_last_avail_idx := vq_last_avail_idx vq + 1\<rparr>,
           gi_mem = (if vq_use_event_idx vq
                     then set_avail_event (vq_vring vq) (vq_last_avail_idx vq + 1) m else m),
           gi_iov = map desc_iov ds @ drop (length ds) iov,
           gi_out = of_nat (length (filter (\<lambda>d. \<not> writable d) ds)),
           gi_in = of_nat (length (filter writable ds))\<rparr>)"
proof (cases "avail_pending vq m")
  case False
  then show ?thesis using assms by (simp add: avail_pending_def get_iov_empty)
next
  case True
  obtain b i where bi: "chain_start (vq_vring vq) (avail_head vq m) m = (b, i)" by force
  show ?thesis
  proof (cases "desc_chain (length iov) m b i")
    case None
    then show ?thesis using get_iov_overflow [OF True bi None assms(3)] True
      by (simp add: bi avail_pending_def)
  next
    case (Some ds)
    then show ?thesis
      using get_iov_chain [OF True bi Some _ assms(3)] desc_chain_length [OF Some] True
      by (simp add: bi avail_pending_def)
  qed
qed

section \<open>Returning buffers on the used ring\<close>

text \<open>What the driver reads: the elements published since its own used index \<open>from\<close>.\<close>

definition used_ring :: "virtqueue \<Rightarrow> shm \<Rightarrow> vring_used" where
  "used_ring vq m = sm_used m (vr_used (vq_vring vq))"

definition used_slot :: "virtqueue \<Rightarrow> u16 \<Rightarrow> nat" where
  "used_slot vq idx = unat idx mod unat (vr_num (vq_vring vq))"

definition queue_ready :: "virtqueue \<Rightarrow> bool" where
  "queue_ready vq \<longleftrightarrow> vr_used (vq_vring vq) \<noteq> 0 \<and> vr_num (vq_vring vq) \<noteq> 0"

definition put_used :: "virtqueue \<Rightarrow> vring_used \<Rightarrow> shm \<Rightarrow> shm" where
  "put_used vq us m = m\<lparr>sm_used := (sm_used m)(vr_used (vq_vring vq) := us)\<rparr>"

lemma used_ring_put [simp]: "used_ring vq (put_used vq us m) = us"
  by (simp add: used_ring_def put_used_def)

lemma put_used_twice [simp]: "put_used vq us (put_used vq us' m) = put_used vq us m"
  by (simp add: put_used_def)

lemma used_write_both:
  "us\<lparr>us_ring := r, us_idx := i\<rparr> = \<lparr>us_flags = us_flags us, us_idx = i, us_ring = r\<rparr>"
  by (cases us) simp

lemma used_eta: "\<lparr>us_flags = us_flags us, us_idx = us_idx us, us_ring = us_ring us\<rparr> = us"
  by (cases us) simp

lemma update_used_idx_eq:
  "queue_ready vq \<Longrightarrow> virtio_queue_update_used_idx vq n m =
     Inr (put_used vq ((used_ring vq m)\<lparr>us_idx := us_idx (used_ring vq m) + n\<rparr>) m)"
  by (simp add: virtio_queue_update_used_idx_def queue_ready_def used_ring_def put_used_def Let_def)

lemma add_used_elem_eq:
  "queue_ready vq \<Longrightarrow> virtio_queue_add_used_elem vq e len off m =
     Inr (put_used vq ((used_ring vq m)\<lparr>us_ring := (us_ring (used_ring vq m))
            (used_slot vq (us_idx (used_ring vq m) + off) := \<lparr>ue_id = e, ue_len = len\<rparr>)\<rparr>) m)"
  by (simp add: virtio_queue_add_used_elem_def queue_ready_def used_ring_def put_used_def
      used_slot_def Let_def)

text \<open>Returning one buffer writes its id and length into the slot of the used ring that the
  driver reads next, publishes it by moving the used index by one, and changes no other slot,
  no flag and no other ring in shared memory.\<close>

lemma update_used_elem_publishes:
  assumes "queue_ready vq"
  shows "virtio_queue_update_used_elem vq e len m = Inr (put_used vq
    \<lparr>us_flags = us_flags (used_ring vq m), us_idx = us_idx (used_ring vq m) + 1,
     us_ring = (us_ring (used_ring vq m))
       (used_slot vq (us_idx (used_ring vq m)) := \<lparr>ue_id = e, ue_len = len\<rparr>)\<rparr> m)"
  by (simp add: virtio_queue_update_used_elem_def add_used_elem_eq [OF assms]
      update_used_idx_eq [OF assms] used_write_both)

text \<open>Batches. \<open>add_all\<close> fills slots at increasing offsets without publishing them, as the
  receive path does; \<open>publish_all\<close> returns the same buffers one by one.\<close>

fun add_all :: "virtqueue \<Rightarrow> (u32 \<times> u32) list \<Rightarrow> u16 \<Rightarrow> shm \<Rightarrow> shm outcome" where
  "add_all vq [] off m = Inr m"
| "add_all vq ((i, l) # es) off m =
     and_then (virtio_queue_add_used_elem vq i l off m) (add_all vq es (off + 1))"

fun publish_all :: "virtqueue \<Rightarrow> (u32 \<times> u32) list \<Rightarrow> shm \<Rightarrow> shm outcome" where
  "publish_all vq [] m = Inr m"
| "publish_all vq ((i, l) # es) m =
     and_then (virtio_queue_update_used_elem vq i l m) (publish_all vq es)"

fun fill_slots :: "virtqueue \<Rightarrow> u16 \<Rightarrow> (u32 \<times> u32) list \<Rightarrow> (nat \<Rightarrow> vring_used_elem) \<Rightarrow>
    nat \<Rightarrow> vring_used_elem" where
  "fill_slots vq idx [] r = r"
| "fill_slots vq idx ((i, l) # es) r =
     fill_slots vq (idx + 1) es (r(used_slot vq idx := \<lparr>ue_id = i, ue_len = l\<rparr>))"

lemma put_used_same: "put_used vq (used_ring vq m) m = m"
  by (simp add: put_used_def used_ring_def)

lemma add_all_eq:
  "queue_ready vq \<Longrightarrow> add_all vq es off m = Inr (put_used vq ((used_ring vq m)
     \<lparr>us_ring := fill_slots vq (us_idx (used_ring vq m) + off) es (us_ring (used_ring vq m))\<rparr>) m)"
  by (induction vq es off m rule: add_all.induct)
    (simp_all add: add_used_elem_eq put_used_same add.assoc)

lemma publish_all_eq:
  "queue_ready vq \<Longrightarrow> publish_all vq es m = Inr (put_used vq
     \<lparr>us_flags = us_flags (used_ring vq m),
      us_idx = us_idx (used_ring vq m) + of_nat (length es),
      us_ring = fill_slots vq (us_idx (used_ring vq m)) es (us_ring (used_ring vq m))\<rparr> m)"
proof (induction vq es m rule: publish_all.induct)
  case (1 vq m)
  then show ?case by (simp add: used_eta put_used_same)
next
  case (2 vq i l es m)
  then show ?case
    by (simp add: update_used_elem_publishes add.assoc)
qed

text \<open>The two ways of returning buffers agree: writing a batch into the used ring at
  increasing offsets and moving the used index once by the batch size leaves shared memory
  exactly as returning the buffers one after the other does.\<close>

theorem used_batch_equals_sequence:
  assumes "queue_ready vq"
  shows "and_then (add_all vq es 0 m) (virtio_queue_update_used_idx vq (of_nat (length es)))
    = publish_all vq es m"
  using assms
  by (simp add: add_all_eq publish_all_eq update_used_idx_eq used_write_both)

text \<open>Slots of consecutive indices stay apart as long as fewer than the ring holds are taken,
  also across the wrap of the 16-bit index, because the ring size divides 65536.\<close>

lemma used_slot_add:
  assumes "unat (vr_num (vq_vring vq)) dvd 65536"
  shows "used_slot vq (idx + of_nat k) = (unat idx + k) mod unat (vr_num (vq_vring vq))"
proof -
  let ?n = "unat (vr_num (vq_vring vq))"
  have "unat (idx + of_nat k) = (unat idx + k) mod 65536"
    by (simp add: unat_word_ariths unat_of_nat mod_simps)
  then show ?thesis using assms by (simp add: used_slot_def mod_mod_cancel)
qed

lemma add_mod_inj_le:
  assumes "(a + j) mod n = (a + k) mod n" "j \<le> k" "k < n"
  shows "j = (k :: nat)"
proof -
  have "n dvd (a + k) - (a + j)"
    using assms(1,2) mod_eq_dvd_iff_nat [of "a + j" "a + k" n] by simp
  then have "n dvd k - j" by simp
  then show ?thesis using assms(2,3) by (metis diff_is_0_eq dvd_imp_le le_antisym
      less_imp_diff_less not_le zero_less_diff)
qed

lemma add_mod_inj:
  assumes "(a + j) mod n = (a + k) mod n" "j < n" "k < n"
  shows "j = (k :: nat)"
proof (cases "j \<le> k")
  case True
  then show ?thesis using add_mod_inj_le [of a j n k] assms by simp
next
  case False
  then show ?thesis using add_mod_inj_le [of a k n j] assms by simp
qed

lemma fill_slots_keeps:
  assumes "unat (vr_num (vq_vring vq)) dvd 65536"
    and "k + length es \<le> unat (vr_num (vq_vring vq))" and "j < k"
  shows "fill_slots vq (idx + of_nat k) es r (used_slot vq (idx + of_nat j)) =
    r (used_slot vq (idx + of_nat j))"
  using assms(2,3)
proof (induction es arbitrary: k r)
  case Nil
  then show ?case by simp
next
  case (Cons e es)
  obtain i l where e: "e = (i, l)" by force
  have "used_slot vq (idx + of_nat j) \<noteq> used_slot vq (idx + of_nat k)"
    using add_mod_inj [of "unat idx" j "unat (vr_num (vq_vring vq))" k] Cons.prems
    by (auto simp: used_slot_add [OF assms(1)])
  moreover have shift: "idx + of_nat k + 1 = idx + of_nat (Suc k)"
    by (simp add: add.assoc add.commute)
  ultimately show ?case
    using Cons.IH [of "Suc k" "r(used_slot vq (idx + of_nat k) := \<lparr>ue_id = i, ue_len = l\<rparr>)"]
      Cons.prems unfolding e fill_slots.simps shift by (simp del: of_nat_Suc fun_upd_apply) simp
qed

lemma fill_slots_nth:
  assumes "unat (vr_num (vq_vring vq)) dvd 65536"
    and "k + length es \<le> unat (vr_num (vq_vring vq))" and "j < length es"
  shows "fill_slots vq (idx + of_nat k) es r (used_slot vq (idx + of_nat (k + j))) =
    \<lparr>ue_id = fst (es ! j), ue_len = snd (es ! j)\<rparr>"
  using assms(2,3)
proof (induction es arbitrary: k r j)
  case Nil
  then show ?case by simp
next
  case (Cons e es)
  obtain i l where e: "e = (i, l)" by force
  let ?r = "r(used_slot vq (idx + of_nat k) := \<lparr>ue_id = i, ue_len = l\<rparr>)"
  have shift: "idx + of_nat k + 1 = idx + of_nat (Suc k)" by (simp add: add.assoc add.commute)
  show ?case
  proof (cases j)
    case 0
    then show ?thesis
      using fill_slots_keeps [OF assms(1), of "Suc k" es k idx ?r] Cons.prems
      by (simp add: e shift del: of_nat_Suc)
  next
    case (Suc j')
    then show ?thesis
      using Cons.IH [of "Suc k" j' ?r] Cons.prems
      by (simp add: e shift del: of_nat_Suc fun_upd_apply)
  qed
qed

text \<open>C8: What the driver reads is what the device returned. After a batch of at most
  ring-size buffers, the driver, walking the used ring from its own index to the published
  one, finds exactly the ids and lengths of the batch in order, also when the 16-bit index
  wraps, provided the ring size divides 65536 as every power of two up to it does.\<close>

theorem used_ring_reads_back:
  assumes "queue_ready vq" and "unat (vr_num (vq_vring vq)) dvd 65536"
    and "length es \<le> unat (vr_num (vq_vring vq))" and "publish_all vq es m = Inr m'"
  shows "us_idx (used_ring vq m') = us_idx (used_ring vq m) + of_nat (length es) \<and>
    map (\<lambda>j. us_ring (used_ring vq m') (used_slot vq (us_idx (used_ring vq m) + of_nat j)))
        [0..<length es] = map (\<lambda>(i, l). \<lparr>ue_id = i, ue_len = l\<rparr>) es"
  using assms fill_slots_nth [OF assms(2), of 0 es _ "us_idx (used_ring vq m)"]
  by (auto simp: publish_all_eq case_prod_beta intro!: nth_equalityI)

section \<open>Layout\<close>

lemma align_up:
  fixes x :: u64
  assumes "k < 64" and "unat x + 2 ^ k - 1 < 2 ^ 64"
  defines "y \<equiv> (x + 2 ^ k - 1) AND NOT (2 ^ k - 1)"
  shows "unat y mod 2 ^ k = 0" and "x \<le> y" and "unat y < unat x + 2 ^ k"
proof -
  have m: "(2 ^ k - 1 :: u64) = mask k" by (simp add: mask_eq_exp_minus_1)
  have "unat (mask k :: u64) = 2 ^ k - 1"
    using assms(1) by (simp add: unat_eq_nat_uint uint_mask_eq nat_mask_eq min_absorb2)
      (simp add: mask_eq_exp_minus_1)
  then have xs: "unat (x + mask k) = unat x + 2 ^ k - 1"
    using assms(2) by (subst unat_add_lt) simp_all
  have eq: "x + 2 ^ k - 1 = x + mask k" by (simp add: m [symmetric])
  have ypd: "y = push_bit k (drop_bit k (x + mask k))"
    unfolding y_def eq m by (rule bit_eqI) (auto simp: bit_simps)
  have "unat y = take_bit 64 ((unat x + 2 ^ k - 1) div 2 ^ k * 2 ^ k)"
    unfolding ypd unsigned_push_bit_eq unsigned_drop_bit_eq
    using assms(2) take_bit_nat_eq_self [of "unat x + 2 ^ k - 1" 64]
    by (simp add: xs push_bit_nat_def drop_bit_nat_def)
  moreover have "(unat x + 2 ^ k - 1) div 2 ^ k * 2 ^ k \<le> unat x + 2 ^ k - 1"
    by (rule div_times_less_eq_dividend)
  ultimately have y: "unat y = (unat x + 2 ^ k - 1) div 2 ^ k * 2 ^ k"
    using assms(2) by (metis order_le_less_trans take_bit_nat_eq_self)
  show "unat y mod 2 ^ k = 0" by (simp add: y)
  have "unat x + 2 ^ k - 1 < unat y + 2 ^ k"
    unfolding y by (metis add.commute dividend_less_div_times zero_less_numeral zero_less_power)
  then show "x \<le> y" by (simp add: word_le_nat_alt)
  show "unat y < unat x + 2 ^ k"
  proof -
    have "unat y \<le> unat x + 2 ^ k - 1" unfolding y by (rule div_times_less_eq_dividend)
    moreover have "(0::nat) < 2 ^ k" by simp
    ultimately show ?thesis by linarith
  qed
qed

text \<open>The layout computed by \<open>vring_init\<close> for a table of \<open>num\<close> descriptors at \<open>p\<close> with a
  power-of-two alignment: the available ring starts where the descriptor table ends, the used
  ring starts on an alignment boundary at or behind the end of the available ring with its
  event halfword, less than one alignment unit further, so the three areas never overlap.\<close>

theorem vring_init_layout:
  fixes p :: u64 and num :: u32
  assumes "k < 64" and "unat p + unat num * 18 + 6 + 2 ^ k < 2 ^ 64"
  defines "vr \<equiv> vring_init num p (2 ^ k)"
  shows "vr_desc vr = p \<and>
    unat (vr_avail vr) = unat p + unat num * 16 \<and>
    unat (vr_avail vr) + 4 + unat num * 2 + 2 \<le> unat (vr_used vr) \<and>
    unat (vr_used vr) < unat (vr_avail vr) + 4 + unat num * 2 + 2 + 2 ^ k \<and>
    unat (vr_used vr) mod 2 ^ k = 0"
proof -
  let ?x = "p + ucast num * 16 + 4 + ucast num * 2 + 2 :: u64"
  have n: "unat (ucast num :: u64) = unat num" by simp
  have m16: "unat (ucast num * 16 :: u64) = unat num * 16"
    using u32_lt [of num] by (simp add: unat_word_ariths n)
  have m2: "unat (ucast num * 2 :: u64) = unat num * 2"
    using u32_lt [of num] by (simp add: unat_word_ariths n)
  have av: "unat (p + ucast num * 16) = unat p + unat num * 16"
    using assms(2) by (simp add: unat_add_lt m16)
  have x: "unat ?x = unat p + unat num * 16 + 4 + unat num * 2 + 2"
  proof -
    have "unat (p + ucast num * 16 + 4) = unat p + unat num * 16 + 4"
      using unat_add_lt [of "p + ucast num * 16" 4] av assms(2) by simp
    then have "unat (p + ucast num * 16 + 4 + ucast num * 2) =
        unat p + unat num * 16 + 4 + unat num * 2"
      using unat_add_lt [of "p + ucast num * 16 + 4" "ucast num * 2"] m2 assms(2) by simp
    then show ?thesis
      using unat_add_lt [of "p + ucast num * 16 + 4 + ucast num * 2" 2] assms(2) by simp
  qed
  note up = align_up [OF assms(1), of ?x]
  have lim: "unat ?x + 2 ^ k - 1 < 2 ^ 64" using assms(2) x by simp
  show ?thesis
    using up(1)[OF lim] up(2)[OF lim] up(3)[OF lim] av x
    by (simp add: vr_def vring_init_def Let_def word_le_nat_alt algebra_simps)
qed

section \<open>Copies through scatter lists\<close>

lemma iov_copy_le: "iov_copy v n \<le> unat (iov_len v)" "iov_copy v n \<le> n"
proof -
  have "unat (ucast (iov_len v) :: u32) \<le> unat (iov_len v)"
    by (simp add: unsigned_ucast_eq take_bit_nat_less_eq_self)
  then show "iov_copy v n \<le> unat (iov_len v)" by (simp add: iov_copy_def)
  show "iov_copy v n \<le> n" by (simp add: iov_copy_def)
qed

definition iov_room :: "iovec list \<Rightarrow> nat" where
  "iov_room vs = sum_list (map (\<lambda>v. unat (iov_len v)) vs)"

lemma iov_advance_len: "unat (iov_len (iov_advance v (iov_copy v n))) + iov_copy v n = unat (iov_len v)"
proof -
  have "unat (of_nat (iov_copy v n) :: u64) = iov_copy v n"
    using iov_copy_le(1) [of v n] unsigned_less [of "iov_len v", where ?'a = nat]
    by (simp add: unat_of_nat)
  then show ?thesis
    using iov_copy_le(1) [of v n] by (simp add: iov_advance_def unat_sub word_le_nat_alt)
qed

lemma mem_write_at:
  "length bs < 2 ^ 64 \<Longrightarrow>
    mem_write m a bs x = (if unat (x - a) < length bs then bs ! unat (x - a) else m x)"
proof (induction bs arbitrary: m a)
  case Nil
  then show ?case by simp
next
  case (Cons b bs)
  show ?case
  proof (cases "x = a")
    case True
    have "unat (a - (a + 1)) = 2 ^ 64 - 1" by (simp add: unsigned_minus_1_eq_mask mask_eq_exp_minus_1)
    then show ?thesis using Cons True by simp
  next
    case False
    then have nz: "unat (x - a) \<noteq> 0" by (simp add: unat_eq_zero)
    moreover from False have "unat (x - (a + 1)) = unat (x - a) - 1"
      using unat_minus_one [of "x - a"] by (simp add: algebra_simps)
    ultimately show ?thesis using Cons False by (cases "unat (x - a)") auto
  qed
qed

lemma memcpy_at:
  "n < 2 ^ 64 \<Longrightarrow>
    memcpy m d s n x = (if unat (x - d) < n then m (s + (x - d)) else m x)"
  by (simp add: memcpy_def mem_write_at mem_read_def)

lemma must_notify_ring:
  assumes "vr_avail (vq_vring vq) \<noteq> 0"
  shows "\<exists>b vq'. virtio_queue_must_notify vq m = Inr (b, vq') \<and> vq_vring vq' = vq_vring vq \<and>
    vq_last_avail_idx vq' = vq_last_avail_idx vq"
  using assms by (cases "vq_use_event_idx vq";
      cases "vring_need_event (vring_used_event (vq_vring vq) m)
        (us_idx (sm_used m (vr_used (vq_vring vq)))) (vq_last_notified_idx vq)")
    (simp_all add: virtio_queue_must_notify_def Let_def ex_bool_eq)

text \<open>The copy loops account for every byte: when \<open>memcpy_toiovec\<close> returns, the entries of
  the scatter list have been advanced by exactly \<open>len\<close> bytes in total, entry by entry (each
  entry's address moved by what its length lost), and the list keeps its size. It fails by
  running off the list exactly when the entries hold fewer than \<open>len\<close> bytes (entries of less
  than 4 GiB).\<close>

theorem memcpy_toiovec_accounts:
  assumes "\<forall>v \<in> set vs. unat (iov_len v) < 2 ^ 32"
  shows "(case memcpy_toiovec vs data len m of
      Inl e \<Rightarrow> e = Out_Of_Bounds \<and> iov_room vs < len
    | Inr (vs', m') \<Rightarrow> len \<le> iov_room vs \<and> length vs' = length vs \<and>
        iov_room vs' + len = iov_room vs \<and>
        list_all2 (\<lambda>v v'. iov_addr v' - iov_addr v = iov_len v - iov_len v') vs vs')"
  using assms
proof (induction vs arbitrary: data len m)
  case Nil
  then show ?case by (simp add: iov_room_def)
next
  case (Cons v vs)
  let ?c = "if iov_len v = 0 then 0 else iov_copy v len"
  have full: "?c = min (unat (iov_len v)) len"
  proof -
    have "unat (ucast (iov_len v) :: u32) = unat (iov_len v)"
      using Cons.prems by (simp add: unsigned_ucast_eq take_bit_nat_eq_self)
    then show ?thesis by (simp add: iov_copy_def)
  qed
  have adv: "unat (iov_len (iov_advance v ?c)) + ?c = unat (iov_len v)"
    using iov_advance_len [of v len] by (simp add: iov_advance_def)
  have ad: "iov_addr (iov_advance v c) - iov_addr v = iov_len v - iov_len (iov_advance v c)" for c
    by (simp add: iov_advance_def)
  have refl: "list_all2 (\<lambda>v v'. iov_addr v' - iov_addr v = iov_len v - iov_len v') ws ws" for ws
    by (rule list_all2_refl) simp
  show ?case
  proof (cases "len = 0")
    case True
    then show ?thesis using refl [of "v # vs"] by simp
  next
    case False
    let ?r = "memcpy_toiovec vs (data + of_nat ?c) (len - ?c) (memcpy m (iov_addr v) data ?c)"
    have ih: "case ?r of
        Inl e \<Rightarrow> e = Out_Of_Bounds \<and> iov_room vs < len - ?c
      | Inr (vs', m') \<Rightarrow> len - ?c \<le> iov_room vs \<and> length vs' = length vs \<and>
          iov_room vs' + (len - ?c) = iov_room vs \<and>
          list_all2 (\<lambda>v v'. iov_addr v' - iov_addr v = iov_len v - iov_len v') vs vs'"
      using Cons.IH [of "len - ?c" "data + of_nat ?c"] Cons.prems by simp
    have eq: "memcpy_toiovec (v # vs) data len m =
        and_then ?r (\<lambda>(vs', m'). Inr (iov_advance v ?c # vs', m'))"
      using False by (simp add: Let_def)
    have room: "iov_room (w # ws) = unat (iov_len w) + iov_room ws" for w ws
      by (simp add: iov_room_def)
    show ?thesis
    proof (cases ?r)
      case (Inl e)
      then show ?thesis using ih full unfolding eq by (auto simp: room)
    next
      case (Inr p)
      obtain vs' m' where p: "p = (vs', m')" by force
      show ?thesis using Inr ih adv full ad [of ?c] unfolding eq
        by (auto simp: room p)
    qed
  qed
qed

section \<open>Concrete instances\<close>

text \<open>A queue of four entries whose driver has made one chain available: head 2 (read by the
  device) followed by descriptor 1 (written by it).\<close>

definition ex_vq :: virtqueue where
  "ex_vq = \<lparr>vq_vring = \<lparr>vr_num = 4, vr_desc = 0x1000, vr_avail = 0x1040, vr_used = 0x2000\<rparr>,
     vq_pfn = 1, vq_last_avail_idx = 0, vq_last_notified_idx = 0,
     vq_use_event_idx = False, vq_enabled = True\<rparr>"

definition ex_mem :: shm where
  "ex_mem = \<lparr>sm_desc = (\<lambda>a. if a = 0x1020 then \<lparr>d_addr = 0x9000, d_len = 12, d_flags = 1, d_next = 1\<rparr>
       else \<lparr>d_addr = 0xA000, d_len = 64, d_flags = 2, d_next = 0\<rparr>),
     sm_avail = (\<lambda>a. \<lparr>av_flags = 0, av_idx = 1, av_ring = (\<lambda>i. 2)\<rparr>),
     sm_used = (\<lambda>a. \<lparr>us_flags = 0, us_idx = 0xFFFF, us_ring = (\<lambda>i. \<lparr>ue_id = 0, ue_len = 0\<rparr>)\<rparr>)\<rparr>"

lemmas ex_ring_defs = ex_vq_def ex_mem_def queue_ready_def avail_head_def chain_start_def
  desc_at_def ring_flag_defs writable_def desc_iov_def

theorem virtio_queue_get_iov_spec_witness:
  "\<exists>r. virtio_queue_get_iov ex_vq [\<lparr>iov_addr = 0, iov_len = 0\<rparr>, \<lparr>iov_addr = 0, iov_len = 0\<rparr>] ex_mem
     = Inr r \<and> gi_ret r = 2 \<and> gi_out r = 1 \<and> gi_in r = 1 \<and>
     gi_iov r = [\<lparr>iov_addr = 0x9000, iov_len = 12\<rparr>, \<lparr>iov_addr = 0xA000, iov_len = 64\<rparr>]"
proof -
  have chain: "desc_chain (Suc (Suc 0)) ex_mem 0x1000 2 =
      Some [\<lparr>d_addr = 0x9000, d_len = 12, d_flags = 1, d_next = 1\<rparr>,
            \<lparr>d_addr = 0xA000, d_len = 64, d_flags = 2, d_next = 0\<rparr>]"
    by (simp add: ex_ring_defs)
  have head: "avail_head ex_vq ex_mem = 2" by (simp add: ex_ring_defs)
  have start: "chain_start (vq_vring ex_vq) 2 ex_mem = (0x1000, 2)" by (simp add: ex_ring_defs)
  have vr: "vr_avail (vq_vring ex_vq) \<noteq> 0" "vr_num (vq_vring ex_vq) \<noteq> 0"
    "av_idx (sm_avail ex_mem (vr_avail (vq_vring ex_vq))) \<noteq> vq_last_avail_idx ex_vq"
    by (simp_all add: ex_ring_defs)
  show ?thesis
    using virtio_queue_get_iov_spec [of ex_vq
        "[\<lparr>iov_addr = 0, iov_len = 0\<rparr>, \<lparr>iov_addr = 0, iov_len = 0\<rparr>]" ex_mem] vr
    by (simp add: head start chain desc_iov_def writable_def ring_flag_defs
          del: desc_chain.simps)
qed

theorem virtio_queue_must_notify_window_witness:
  "\<exists>vq'. virtio_queue_must_notify (ex_vq\<lparr>vq_use_event_idx := True\<rparr>) ex_mem = Inr (True, vq')"
  using virtio_queue_must_notify_window
    [of "ex_vq\<lparr>vq_use_event_idx := True\<rparr>" "0xFFFF" ex_mem 0]
  by (auto simp: ex_vq_def ex_mem_def vring_used_event_def intro!: exI [of _ 2])

theorem used_batch_equals_sequence_witness:
  "and_then (add_all ex_vq [(2, 76), (1, 5)] 0 ex_mem) (virtio_queue_update_used_idx ex_vq 2)
    = publish_all ex_vq [(2, 76), (1, 5)] ex_mem"
  using used_batch_equals_sequence [of ex_vq "[(2, 76), (1, 5)]" ex_mem]
  by (simp add: ex_vq_def queue_ready_def)

theorem used_ring_reads_back_witness:
  "\<exists>m'. publish_all ex_vq [(2, 76), (1, 5)] ex_mem = Inr m' \<and>
     us_idx (used_ring ex_vq m') = 1 \<and>
     map (\<lambda>j. us_ring (used_ring ex_vq m') (used_slot ex_vq (0xFFFF + of_nat j))) [0..<2]
       = [\<lparr>ue_id = 2, ue_len = 76\<rparr>, \<lparr>ue_id = 1, ue_len = 5\<rparr>]"
proof -
  have ready: "queue_ready ex_vq" by (simp add: ex_vq_def queue_ready_def)
  obtain m' where m': "publish_all ex_vq [(2, 76), (1, 5)] ex_mem = Inr m'"
    using publish_all_eq [OF ready] by blast
  have idx: "us_idx (used_ring ex_vq ex_mem) = 0xFFFF"
    by (simp add: ex_vq_def ex_mem_def used_ring_def)
  have num: "unat (vr_num (vq_vring ex_vq)) = 4" by (simp add: ex_vq_def)
  have "us_idx (used_ring ex_vq m') = 0xFFFF + 2 \<and>
    map (\<lambda>j. us_ring (used_ring ex_vq m') (used_slot ex_vq (0xFFFF + of_nat j))) [0..<2]
      = [\<lparr>ue_id = 2, ue_len = 76\<rparr>, \<lparr>ue_id = 1, ue_len = 5\<rparr>]"
    using used_ring_reads_back [OF ready _ _ m'] unfolding idx num by (simp add: numeral_2_eq_2)
  then show ?thesis using m' by simp
qed

theorem vring_init_layout_witness:
  "unat (vr_used (vring_init 1024 0x10000 4096)) mod 4096 = 0 \<and>
   unat (vr_avail (vring_init 1024 0x10000 4096)) = 0x14000"
  using vring_init_layout [of 12 "0x10000" 1024] by simp

theorem memcpy_toiovec_accounts_witness:
  "\<exists>vs' m'. memcpy_toiovec [\<lparr>iov_addr = 16, iov_len = 4\<rparr>, \<lparr>iov_addr = 64, iov_len = 8\<rparr>] 128 6
      (\<lambda>_. 0) = Inr (vs', m') \<and> iov_room vs' = 6"
  using memcpy_toiovec_accounts
    [of "[\<lparr>iov_addr = 16, iov_len = 4\<rparr>, \<lparr>iov_addr = 64, iov_len = 8\<rparr>]" 6 128 "\<lambda>_. 0"]
  by (auto simp: iov_room_def simp del: memcpy_toiovec.simps split: sum.splits)

end
