(* ===== verification/Virtio_Mmio.thy ===== *)
theory Virtio_Mmio
  imports Virtio_Ring
begin

text \<open>
  The virtio device core (\<open>virtio/devices/core.c\<close>: features, status, queue exit, transport
  selection) and the MMIO transport (\<open>virtio/devices/mmio.c\<close>). The register block lives in
  memory shared with the driver, which writes it directly and then sends a message; the
  device's state is that block, the \<open>virtio_dev\<close> and the device structure \<open>devp\<close> of the
  concrete device, on which the transport works through the function pointers of
  \<open>struct virtio_ops\<close>. Calls of the mailbox are recorded in order.
\<close>

section \<open>State\<close>

record virtio_mmio_hdr =
  h_magic :: "char list"
  h_version :: u32
  h_device_id :: u32
  h_vendor_id :: u32
  h_dev_features :: u32
  h_dev_features_sel :: u32
  h_drv_features :: u32
  h_drv_features_sel :: u32
  h_guest_page_size :: u32
  h_queue_sel :: u32
  h_queue_num_max :: u32
  h_queue_num :: u32
  h_queue_align :: u32
  h_queue_pfn :: u32
  h_queue_notify :: u32
  h_interrupt_status :: u32
  h_interrupt_ack :: u32
  h_status :: u32
  h_wd_status :: u32

record virtio_dev =
  vd_drv_features :: u64
  vd_dev_features :: "u32 list"
  vd_state :: u32
  vd_cfg_size :: u32
  vd_vqs :: u32

datatype mbox_call =
    Mbox_Interrupt_Disable u32
  | Mbox_Init bool
  | Mbox_Register u32
  | Mbox_Interrupt_Enable u32
  | Mbox_Kick_Front u32

record 'd vsys =
  vs_hdr :: virtio_mmio_hdr
  vs_mmio :: u32
  vs_vdev :: virtio_dev
  vs_dev :: 'd
  vs_calls :: "mbox_call list"

text \<open>The device's operations. \<open>get_vq\<close> returns a pointer into the device structure; reading
  through it is \<open>op_get_vq\<close> and writing through it \<open>op_put_vq\<close>. A null function pointer is
  \<open>None\<close>.\<close>

record 'd virtio_ops =
  op_init_vq :: "u32 \<Rightarrow> u32 \<Rightarrow> u32 \<Rightarrow> u32 \<Rightarrow> 'd vsys \<Rightarrow> (int \<times> 'd vsys) outcome"
  op_exit_vq :: "(u32 \<Rightarrow> 'd vsys \<Rightarrow> 'd vsys outcome) option"
  op_notify_vq :: "u32 \<Rightarrow> 'd vsys \<Rightarrow> (int \<times> 'd vsys) outcome"
  op_get_vq :: "u32 \<Rightarrow> 'd vsys \<Rightarrow> virtqueue outcome"
  op_put_vq :: "u32 \<Rightarrow> virtqueue \<Rightarrow> 'd vsys \<Rightarrow> 'd vsys outcome"
  op_get_vq_size :: "u32 \<Rightarrow> int"
  op_set_vq_size :: "u32 \<Rightarrow> int \<Rightarrow> int"
  op_handle_dev_status :: "(u32 \<Rightarrow> 'd vsys \<Rightarrow> 'd vsys outcome) option"
  op_dev_cfg_accessor :: "u64 \<Rightarrow> u32 \<Rightarrow> 'd vsys \<Rightarrow> 'd vsys outcome"

definition VIRTIO_STATE_LIVE :: u32 where "VIRTIO_STATE_LIVE = 1"
definition VIRTIO_CONFIG_S_DRIVER_OK :: u32 where "VIRTIO_CONFIG_S_DRIVER_OK = 4"
definition FEATURES_SIZE :: u32 where "FEATURES_SIZE = 2"
definition VIRTIO_MMIO_INT_VRING :: u32 where "VIRTIO_MMIO_INT_VRING = 1"
definition VIRTIO_MMIO_INT_CONFIG :: u32 where "VIRTIO_MMIO_INT_CONFIG = 2"
definition VIRTIO_MMIO_CONFIG :: u32 where "VIRTIO_MMIO_CONFIG = 0x100"

lemmas mmio_consts = VIRTIO_STATE_LIVE_def VIRTIO_CONFIG_S_DRIVER_OK_def FEATURES_SIZE_def
  VIRTIO_MMIO_INT_VRING_def VIRTIO_MMIO_INT_CONFIG_def VIRTIO_MMIO_CONFIG_def

abbreviation upd_hdr :: "(virtio_mmio_hdr \<Rightarrow> virtio_mmio_hdr) \<Rightarrow> 'd vsys \<Rightarrow> 'd vsys" where
  "upd_hdr f s \<equiv> s\<lparr>vs_hdr := f (vs_hdr s)\<rparr>"

abbreviation upd_vdev :: "(virtio_dev \<Rightarrow> virtio_dev) \<Rightarrow> 'd vsys \<Rightarrow> 'd vsys" where
  "upd_vdev f s \<equiv> s\<lparr>vs_vdev := f (vs_vdev s)\<rparr>"

abbreviation log_call :: "mbox_call \<Rightarrow> 'd vsys \<Rightarrow> 'd vsys" where
  "log_call c s \<equiv> s\<lparr>vs_calls := vs_calls s @ [c]\<rparr>"

section \<open>Core operations\<close>

text \<open>\<open>virtio_get_vq\<close> and \<open>virtio_init_device_vq\<close> of \<open>virtio.h\<close>; \<open>memset(vq, 0, ...)\<close>.\<close>

definition virtio_get_vq :: "u32 \<Rightarrow> u32 \<Rightarrow> u64" where
  "virtio_get_vq pfn page_size = ucast pfn * ucast page_size"

definition virtio_init_device_vq :: "virtio_dev \<Rightarrow> virtqueue \<Rightarrow> virtqueue" where
  "virtio_init_device_vq vdev vq =
     vq\<lparr>vq_use_event_idx := bit (vd_drv_features vdev) VIRTIO_RING_F_EVENT_IDX,
        vq_enabled := True\<rparr>"

definition zero_vq :: virtqueue where
  "zero_vq = \<lparr>vq_vring = \<lparr>vr_num = 0, vr_desc = 0, vr_avail = 0, vr_used = 0\<rparr>, vq_pfn = 0,
     vq_last_avail_idx = 0, vq_last_notified_idx = 0, vq_use_event_idx = False,
     vq_enabled = False\<rparr>"

definition virtio_exit_vq :: "'d virtio_ops \<Rightarrow> u32 \<Rightarrow> 'd vsys \<Rightarrow> 'd vsys outcome" where
  "virtio_exit_vq ops num s =
     and_then (op_get_vq ops num s) (\<lambda>vq.
     and_then (case op_exit_vq ops of
         None \<Rightarrow> Inr s
       | Some f \<Rightarrow> if vq_enabled vq then f num s else Inr s)
       (op_put_vq ops num zero_vq))"

definition virtio_set_drv_features :: "u64 \<Rightarrow> virtio_dev \<Rightarrow> virtio_dev" where
  "virtio_set_drv_features features vdev = vdev\<lparr>vd_drv_features := features\<rparr>"

section \<open>The MMIO transport\<close>

definition virtio_mmio_interrupt_front :: "bool \<Rightarrow> 'd vsys \<Rightarrow> 'd vsys" where
  "virtio_mmio_interrupt_front is_vring s =
     (let status = h_interrupt_status (vs_hdr s) AND NOT (h_interrupt_ack (vs_hdr s));
          status' = status OR (if is_vring then VIRTIO_MMIO_INT_VRING else VIRTIO_MMIO_INT_CONFIG)
      in log_call (Mbox_Kick_Front (vs_mmio s))
           (upd_hdr (\<lambda>h. h\<lparr>h_interrupt_status := status'\<rparr>) s))"

definition virtio_mmio_exit_vq :: "'d virtio_ops \<Rightarrow> u32 \<Rightarrow> 'd vsys \<Rightarrow> 'd vsys outcome" where
  "virtio_mmio_exit_vq ops vq s = virtio_exit_vq ops vq s"

fun exit_vqs :: "'d virtio_ops \<Rightarrow> nat list \<Rightarrow> 'd vsys \<Rightarrow> 'd vsys outcome" where
  "exit_vqs ops [] s = Inr s"
| "exit_vqs ops (q # qs) s = and_then (virtio_mmio_exit_vq ops (of_nat q) s) (exit_vqs ops qs)"

definition virtio_mmio_reset :: "'d virtio_ops \<Rightarrow> 'd vsys \<Rightarrow> 'd vsys outcome" where
  "virtio_mmio_reset ops s = exit_vqs ops [0..<unat (vd_vqs (vs_vdev s))] s"

definition virtio_mmio_exit :: "'d virtio_ops \<Rightarrow> 'd vsys \<Rightarrow> 'd vsys outcome" where
  "virtio_mmio_exit ops s = virtio_mmio_reset ops s"

text \<open>\<open>ops->reset\<close> is \<open>virtio_mmio_reset\<close>: \<open>virtio_init\<close> installs it.\<close>

definition virtio_handle_dev_status :: "'d virtio_ops \<Rightarrow> u32 \<Rightarrow> 'd vsys \<Rightarrow> 'd vsys outcome" where
  "virtio_handle_dev_status ops status s =
     and_then (case op_handle_dev_status ops of None \<Rightarrow> Inr s | Some f \<Rightarrow> f status s) (\<lambda>s.
       if vd_state (vs_vdev s) AND VIRTIO_STATE_LIVE = 0 then
         (if status AND VIRTIO_CONFIG_S_DRIVER_OK \<noteq> 0
          then Inr (upd_vdev (\<lambda>v. v\<lparr>vd_state := vd_state v OR VIRTIO_STATE_LIVE\<rparr>) s)
          else Inr s)
       else if status = 0 then
         virtio_mmio_reset ops
           (upd_vdev (\<lambda>v. v\<lparr>vd_state := vd_state v AND NOT VIRTIO_STATE_LIVE\<rparr>) s)
       else Inr s)"

definition virtio_mmio_device_specific ::
    "'d virtio_ops \<Rightarrow> u64 \<Rightarrow> u32 \<Rightarrow> 'd vsys \<Rightarrow> 'd vsys outcome" where
  "virtio_mmio_device_specific ops addr len s =
     (if addr + ucast len \<le> ucast (vd_cfg_size (vs_vdev s))
      then op_dev_cfg_accessor ops addr len s else Inr s)"

definition virtio_mmio_config_out ::
    "'d virtio_ops \<Rightarrow> u64 \<Rightarrow> u32 \<Rightarrow> 'd vsys \<Rightarrow> 'd vsys outcome" where
  "virtio_mmio_config_out ops addr len s =
     (let hdr = vs_hdr s; vq_count = vd_vqs (vs_vdev s)
      in if addr = 0x014 then \<comment> \<open>HOST_FEATURES_SEL\<close>
           (let val = h_dev_features_sel hdr
            in if val < FEATURES_SIZE
               then and_then (arr_get (vd_dev_features (vs_vdev s)) (unat val)) (\<lambda>f.
                 Inr (upd_hdr (\<lambda>h. h\<lparr>h_dev_features := f\<rparr>) s))
               else and_then (arr_get (vd_dev_features (vs_vdev s)) 0) (\<lambda>f.
                 Inr (upd_hdr (\<lambda>h. h\<lparr>h_dev_features_sel := 0, h_dev_features := f\<rparr>) s)))
         else if addr = 0x024 then Inr s \<comment> \<open>GUEST_FEATURES_SEL\<close>
         else if addr = 0x030 then \<comment> \<open>QUEUE_SEL\<close>
           (let bad = (vq_count \<le> h_queue_sel hdr);
                val = (if bad then 0 else h_queue_sel hdr);
                s1 = (if bad then upd_hdr (\<lambda>h. h\<lparr>h_queue_sel := 0\<rparr>) s else s)
            in and_then (op_get_vq ops val s1) (\<lambda>vq.
                 Inr (upd_hdr (\<lambda>h. h\<lparr>h_queue_pfn := vq_pfn vq,
                        h_queue_num_max := word_of_int (op_get_vq_size ops val)\<rparr>) s1)))
         else if addr = 0x070 then virtio_handle_dev_status ops (h_status hdr) s \<comment> \<open>STATUS\<close>
         else if addr = 0x020 then \<comment> \<open>GUEST_FEATURES\<close>
           (if h_drv_features_sel hdr = 0
            then Inr (upd_vdev (virtio_set_drv_features (ucast (h_drv_features hdr))) s)
            else Inr s)
         else if addr = 0x028 then Inr s \<comment> \<open>GUEST_PAGE_SIZE\<close>
         else if addr = 0x038 then \<comment> \<open>QUEUE_NUM: the result of \<open>set_vq_size\<close> is dropped\<close>
           (let r = op_set_vq_size ops (h_queue_sel hdr) (sint (h_queue_num hdr)) in Inr s)
         else if addr = 0x03c then Inr s \<comment> \<open>QUEUE_ALIGN\<close>
         else if addr = 0x040 then \<comment> \<open>QUEUE_PFN\<close>
           (let val = h_queue_pfn hdr
            in if val \<noteq> 0
               then and_then (op_init_vq ops (h_queue_sel hdr) (h_guest_page_size hdr)
                               (h_queue_align hdr) val s) (\<lambda>(r, s'). Inr s')
               else virtio_mmio_exit_vq ops (h_queue_sel hdr) s)
         else if addr = 0x050 then \<comment> \<open>QUEUE_NOTIFY\<close>
           (let val = h_queue_notify hdr
            in if vq_count \<le> val then Inr s
               else and_then (op_notify_vq ops val s) (\<lambda>(r, s'). Inr s'))
         else if addr = 0x064 then \<comment> \<open>INTERRUPT_ACK\<close>
           Inr (upd_hdr (\<lambda>h. h\<lparr>h_interrupt_status :=
                  h_interrupt_status h AND NOT (h_interrupt_ack h)\<rparr>) s)
         else Inr s)"

definition virtio_mmio_mmio_callback ::
    "'d virtio_ops \<Rightarrow> u64 \<Rightarrow> u32 \<Rightarrow> 'd vsys \<Rightarrow> 'd vsys outcome" where
  "virtio_mmio_mmio_callback ops addr len s =
     (let offset = ucast (addr - ucast (vs_mmio s)) :: u32
      in and_then
           (if VIRTIO_MMIO_CONFIG \<le> offset
            then virtio_mmio_device_specific ops (ucast (offset - VIRTIO_MMIO_CONFIG)) len s
            else virtio_mmio_config_out ops (ucast offset) len s)
           (\<lambda>s'. Inr (upd_hdr (\<lambda>h. h\<lparr>h_wd_status := 1\<rparr>) s')))"

definition virtio_mmio_init ::
    "'d virtio_ops \<Rightarrow> u64 \<Rightarrow> u32 \<Rightarrow> u32 \<Rightarrow> 'd vsys \<Rightarrow> (int \<times> 'd vsys) outcome" where
  "virtio_mmio_init ops mmio_base device_id subsys_id s =
     (let base = ucast mmio_base;
          s1 = s\<lparr>vs_mmio := base, vs_calls := vs_calls s @ [Mbox_Interrupt_Disable base,
                   Mbox_Init False, Mbox_Register base, Mbox_Interrupt_Enable base]\<rparr>
      in and_then (arr_get (vd_dev_features (vs_vdev s)) 0) (\<lambda>f.
           Inr (0, upd_hdr (\<lambda>h. h\<lparr>h_magic := ''virt'', h_version := 1, h_device_id := subsys_id,
             h_vendor_id := 0x1957, h_queue_num_max := word_of_int (op_get_vq_size ops 0),
             h_dev_features := f\<rparr>) s1)))"

text \<open>\<open>virtio_init\<close>: the transport structure is allocated and the transport's functions
  installed; only \<open>VIRTIO_MMIO\<close> exists, any other value is an error. \<open>alloc\<close> is whether
  \<open>os_malloc\<close> succeeds.\<close>

datatype virtio_trans = VIRTIO_MMIO | VIRTIO_TRANS_OTHER

definition virtio_init ::
    "bool \<Rightarrow> 'd virtio_ops \<Rightarrow> u64 \<Rightarrow> virtio_trans \<Rightarrow> u32 \<Rightarrow> u32 \<Rightarrow> 'd vsys \<Rightarrow>
     (int \<times> 'd vsys) outcome" where
  "virtio_init alloc ops mmio_base tr device_id subsys_id s =
     (case tr of
        VIRTIO_MMIO \<Rightarrow> if \<not> alloc then Inr (-1, s)
                        else virtio_mmio_init ops mmio_base device_id subsys_id s
      | _ \<Rightarrow> Inr (-1, s))"

section \<open>The interface between transport and device\<close>

text \<open>What the transport relies on of a device: \<open>get_vq\<close> returns queue \<open>q\<close> of the device
  structure for every index below the queue count, writing through the pointer changes that
  queue alone, and the optional exit hook leaves the queues as they are.\<close>

locale virtio_device =
  fixes ops :: "'d virtio_ops"
    and nq :: nat
    and queue :: "'d \<Rightarrow> nat \<Rightarrow> virtqueue"
    and set_queue :: "'d \<Rightarrow> nat \<Rightarrow> virtqueue \<Rightarrow> 'd"
    and dev_ok :: "'d \<Rightarrow> bool"
  assumes nq_bound: "nq < 2 ^ 32"
    and get_vq: "dev_ok (vs_dev s) \<Longrightarrow> q < nq \<Longrightarrow>
      op_get_vq ops (of_nat q) s = Inr (queue (vs_dev s) q)"
    and put_vq: "dev_ok (vs_dev s) \<Longrightarrow> q < nq \<Longrightarrow>
      op_put_vq ops (of_nat q) v s = Inr (s\<lparr>vs_dev := set_queue (vs_dev s) q v\<rparr>)"
    and set_ok: "dev_ok d \<Longrightarrow> q < nq \<Longrightarrow> dev_ok (set_queue d q v)"
    and queue_set: "dev_ok d \<Longrightarrow> q < nq \<Longrightarrow> q' < nq \<Longrightarrow>
      queue (set_queue d q v) q' = (if q' = q then v else queue d q')"
    and exit_hook: "op_exit_vq ops = Some f \<Longrightarrow> f vq s = Inr s"

context virtio_device
begin

lemma exit_vq_eq:
  assumes "dev_ok (vs_dev s)" "q < nq"
  shows "virtio_mmio_exit_vq ops (of_nat q) s =
    Inr (s\<lparr>vs_dev := set_queue (vs_dev s) q zero_vq\<rparr>)"
  using assms
  by (simp add: virtio_mmio_exit_vq_def virtio_exit_vq_def get_vq put_vq exit_hook
      split: option.split)

lemma exit_vqs_zero:
  assumes "dev_ok (vs_dev s)" "\<forall>q \<in> set qs. q < nq"
  shows "\<exists>d. exit_vqs ops qs s = Inr (s\<lparr>vs_dev := d\<rparr>) \<and> dev_ok d \<and>
    (\<forall>q < nq. queue d q = (if q \<in> set qs then zero_vq else queue (vs_dev s) q))"
  using assms
proof (induction qs arbitrary: s)
  case Nil
  then show ?case by (auto intro!: exI [of _ "vs_dev s"])
next
  case (Cons q qs)
  let ?s = "s\<lparr>vs_dev := set_queue (vs_dev s) q zero_vq\<rparr>"
  from Cons.prems have ok: "dev_ok (vs_dev ?s)" by (simp add: set_ok)
  obtain d where d: "exit_vqs ops qs ?s = Inr (?s\<lparr>vs_dev := d\<rparr>)" "dev_ok d"
    "\<forall>q' < nq. queue d q' = (if q' \<in> set qs then zero_vq else queue (vs_dev ?s) q')"
    using Cons.IH [OF ok] Cons.prems by auto
  then show ?case using Cons.prems
    by (intro exI [of _ d]) (auto simp: exit_vq_eq queue_set)
qed

lemma reset_zero:
  assumes "dev_ok (vs_dev s)" "unat (vd_vqs (vs_vdev s)) = nq"
  shows "\<exists>d. virtio_mmio_reset ops s = Inr (s\<lparr>vs_dev := d\<rparr>) \<and> dev_ok d \<and>
    (\<forall>q < nq. queue d q = zero_vq)"
  using exit_vqs_zero [OF assms(1), of "[0..<nq]"] assms(2)
  by (auto simp: virtio_mmio_reset_def)

text \<open>Writing 0 to the status register of a live device that has no status hook: it stops being
  live and every queue is forgotten.\<close>

lemma status_reset:
  assumes "dev_ok (vs_dev s)" "unat (vd_vqs (vs_vdev s)) = nq"
    and "op_handle_dev_status ops = None" and "vd_state (vs_vdev s) AND VIRTIO_STATE_LIVE \<noteq> 0"
  shows "\<exists>d. virtio_handle_dev_status ops 0 s =
      Inr (s\<lparr>vs_vdev := (vs_vdev s)\<lparr>vd_state := vd_state (vs_vdev s) AND NOT VIRTIO_STATE_LIVE\<rparr>,
             vs_dev := d\<rparr>) \<and> (\<forall>q < nq. queue d q = zero_vq)"
  using reset_zero [of "upd_vdev (\<lambda>v. v\<lparr>vd_state := vd_state v AND NOT VIRTIO_STATE_LIVE\<rparr>) s"]
    assms by (auto simp: virtio_handle_dev_status_def)

text \<open>The selector the driver wrote is brought into range before it is used.\<close>

lemma queue_sel_checked:
  assumes "dev_ok (vs_dev s)" "unat (vd_vqs (vs_vdev s)) = nq" "0 < nq"
  defines "q \<equiv> (if unat (h_queue_sel (vs_hdr s)) < nq then unat (h_queue_sel (vs_hdr s)) else 0)"
  shows "virtio_mmio_config_out ops 0x030 len s =
    Inr (upd_hdr (\<lambda>h. h\<lparr>h_queue_sel := of_nat q, h_queue_pfn := vq_pfn (queue (vs_dev s) q),
           h_queue_num_max := word_of_int (op_get_vq_size ops (of_nat q))\<rparr>) s)"
proof -
  have q: "q < nq" using assms(3) by (simp add: q_def)
  have bad: "vd_vqs (vs_vdev s) \<le> h_queue_sel (vs_hdr s) \<longleftrightarrow>
      \<not> unat (h_queue_sel (vs_hdr s)) < nq"
    using assms(2) by (auto simp: word_le_nat_alt)
  show ?thesis
  proof (cases "unat (h_queue_sel (vs_hdr s)) < nq")
    case True
    then have sel: "h_queue_sel (vs_hdr s) = of_nat q" by (simp add: q_def)
    have upd: "(vs_hdr s)\<lparr>h_queue_sel := h_queue_sel (vs_hdr s)\<rparr> = vs_hdr s"
      by (cases "vs_hdr s") simp
    show ?thesis
      using True get_vq [OF assms(1) q] bad upd
      by (simp add: virtio_mmio_config_out_def Let_def flip: sel)
  next
    case False
    then have "q = 0" by (simp add: q_def)
    then show ?thesis
      using False get_vq [of "upd_hdr (\<lambda>h. h\<lparr>h_queue_sel := 0\<rparr>) s" 0] assms(1) q bad
      by (simp add: virtio_mmio_config_out_def Let_def)
  qed
qed

end

section \<open>Interrupt status\<close>

text \<open>Raising an interrupt always leaves its bit pending, clears every bit the driver has
  acknowledged, keeps each other pending bit, and rings the front end exactly once.\<close>

theorem interrupt_front_pending:
  "let s' = virtio_mmio_interrupt_front is_vring s;
       b = (if is_vring then 0 else (1 :: nat));
       h = vs_hdr s; st = h_interrupt_status (vs_hdr s')
   in bit st b \<and>
     (\<forall>n. n \<noteq> b \<longrightarrow> (bit st n \<longleftrightarrow> bit (h_interrupt_status h) n \<and> \<not> bit (h_interrupt_ack h) n)) \<and>
     vs_hdr s' = h\<lparr>h_interrupt_status := st\<rparr> \<and>
     vs_calls s' = vs_calls s @ [Mbox_Kick_Front (vs_mmio s)]"
  by (auto simp: virtio_mmio_interrupt_front_def mmio_consts Let_def bit_simps
      dest: bit_imp_le_length)

text \<open>The acknowledge register is not cleared once it has been handled, so a later interrupt
  applies the old acknowledgement again: a queue interrupt raised after the driver's last
  acknowledgement of the queue bit and not yet seen by it is withdrawn when a configuration
  interrupt follows.\<close>

theorem stale_ack_loses_vring_interrupt:
  assumes "bit (h_interrupt_ack (vs_hdr s)) 0"
  shows "let s1 = virtio_mmio_interrupt_front True s; s2 = virtio_mmio_interrupt_front False s1
    in bit (h_interrupt_status (vs_hdr s1)) 0 \<and> \<not> bit (h_interrupt_status (vs_hdr s2)) 0"
  using assms
  by (simp add: virtio_mmio_interrupt_front_def mmio_consts Let_def bit_simps)

section \<open>Guards of the register callback\<close>

text \<open>A notification for a queue the device does not have is ignored: no operation of the
  device is called and the state is unchanged but for the handshake flag.\<close>

theorem notify_out_of_range_ignored:
  assumes "vd_vqs (vs_vdev s) \<le> h_queue_notify (vs_hdr s)"
    and "addr = ucast (vs_mmio s) + 0x050"
  shows "virtio_mmio_mmio_callback ops addr len s =
    Inr (upd_hdr (\<lambda>h. h\<lparr>h_wd_status := 1\<rparr>) s)"
  using assms
  by (simp add: virtio_mmio_mmio_callback_def virtio_mmio_config_out_def VIRTIO_MMIO_CONFIG_def
      Let_def)

text \<open>Every message that is handled without a fault ends with the handshake flag set, which
  the front end polls.\<close>

theorem callback_sets_handshake:
  assumes "virtio_mmio_mmio_callback ops addr len s = Inr s'"
  shows "h_wd_status (vs_hdr s') = 1"
  using assms by (auto simp: virtio_mmio_mmio_callback_def Let_def outcome_simps)

text \<open>The configuration accessor of a device runs only on accesses that lie within its
  configuration space; any other one changes nothing.\<close>

theorem config_access_in_bounds:
  assumes "\<not> unat addr + unat len \<le> unat (vd_cfg_size (vs_vdev s))" and "unat addr < 2 ^ 32"
  shows "virtio_mmio_device_specific ops addr len s = Inr s"
proof -
  have "unat (addr + ucast len) = unat addr + unat len"
    using assms(2) u32_lt [of len] by (simp add: unat_add_lt)
  then show ?thesis
    using assms(1) by (simp add: virtio_mmio_device_specific_def word_le_nat_alt)
qed

section \<open>Concrete instances\<close>

definition ex_hdr :: virtio_mmio_hdr where
  "ex_hdr = \<lparr>h_magic = ''virt'', h_version = 1, h_device_id = 1, h_vendor_id = 0x1957,
     h_dev_features = 0, h_dev_features_sel = 0, h_drv_features = 0, h_drv_features_sel = 0,
     h_guest_page_size = 4096, h_queue_sel = 0, h_queue_num_max = 1024, h_queue_num = 256,
     h_queue_align = 4096, h_queue_pfn = 7, h_queue_notify = 9, h_interrupt_status = 2,
     h_interrupt_ack = 1, h_status = 0, h_wd_status = 0\<rparr>"

definition ex_vdev :: virtio_dev where
  "ex_vdev = \<lparr>vd_drv_features = 0x20000000, vd_dev_features = [0x30000000, 2], vd_state = 1,
     vd_cfg_size = 28, vd_vqs = 2\<rparr>"

definition ex_sys :: "'d \<Rightarrow> 'd vsys" where
  "ex_sys d = \<lparr>vs_hdr = ex_hdr, vs_mmio = 0x1000, vs_vdev = ex_vdev, vs_dev = d, vs_calls = []\<rparr>"

lemmas ex_sys_defs = ex_sys_def ex_hdr_def ex_vdev_def

definition ex_ops :: "unit virtio_ops" where
  "ex_ops = \<lparr>op_init_vq = (\<lambda>vq page align pfn s. Inr (0, s)), op_exit_vq = None,
     op_notify_vq = (\<lambda>vq s. Inr (0, s)), op_get_vq = (\<lambda>vq s. Inr zero_vq),
     op_put_vq = (\<lambda>vq v s. Inr s), op_get_vq_size = (\<lambda>vq. 1024),
     op_set_vq_size = (\<lambda>vq size. size), op_handle_dev_status = None,
     op_dev_cfg_accessor = (\<lambda>addr len s. Inr s)\<rparr>"

theorem interrupt_front_pending_witness:
  "let s' = virtio_mmio_interrupt_front True (ex_sys ())
   in bit (h_interrupt_status (vs_hdr s')) 0 \<and>
     (bit (h_interrupt_status (vs_hdr s')) 1 \<longleftrightarrow>
        bit (h_interrupt_status (vs_hdr (ex_sys ()))) 1 \<and>
        \<not> bit (h_interrupt_ack (vs_hdr (ex_sys ()))) 1)"
  using interrupt_front_pending [of True "ex_sys ()"] by (simp add: Let_def)

theorem stale_ack_loses_vring_interrupt_witness:
  "let s1 = virtio_mmio_interrupt_front True (ex_sys ());
       s2 = virtio_mmio_interrupt_front False s1
   in bit (h_interrupt_status (vs_hdr s1)) 0 \<and> \<not> bit (h_interrupt_status (vs_hdr s2)) 0"
  by (rule stale_ack_loses_vring_interrupt) (simp add: ex_sys_defs)

theorem notify_out_of_range_ignored_witness:
  "virtio_mmio_mmio_callback ex_ops 0x1050 4 (ex_sys ()) =
     Inr (upd_hdr (\<lambda>h. h\<lparr>h_wd_status := 1\<rparr>) (ex_sys ()))"
  by (rule notify_out_of_range_ignored) (simp_all add: ex_sys_defs)

theorem callback_sets_handshake_witness:
  "h_wd_status (vs_hdr (upd_hdr (\<lambda>h. h\<lparr>h_wd_status := 1\<rparr>) (ex_sys ()))) = 1"
  by (rule callback_sets_handshake [where ops = ex_ops and addr = "0x1028" and len = "4"
        and s = "ex_sys ()"])
    (simp add: virtio_mmio_mmio_callback_def virtio_mmio_config_out_def VIRTIO_MMIO_CONFIG_def
      ex_sys_defs)

theorem config_access_in_bounds_witness:
  "virtio_mmio_device_specific ex_ops 0x1c 4 (ex_sys ()) = Inr (ex_sys ())"
  by (rule config_access_in_bounds) (simp_all add: ex_sys_defs)

end
