(* ===== verification/Virtio_Trans.thy ===== *)
theory Virtio_Trans
  imports Virtio_Mmio
begin

text \<open>
  The virtio transfer test device, \<open>virtio/devices/trans.c\<close>, on the MMIO transport. The state
  \<open>tdev\<close>, the static buffers and the two semaphores of the file are one record; the
  configuration structure, the rings and the data buffers are the memory shared with the driver.
  The two tasks are modelled by the steps between which another task can run: taking a chain,
  and working on it and returning it. Both tasks use the same static array \<open>iov\<close>.
\<close>

section \<open>State\<close>

record virtio_trans_config =
  vc_status :: u32
  vc_config :: u32
  vc_control :: u32
  vc_pkt_size :: u32
  vc_tx_count :: u32
  vc_rx_count :: u32
  vc_regression :: u32

record trans_dev =
  td_tasks :: "nat list" \<comment> \<open>pending notifications of each task\<close>
  td_vqs :: "virtqueue list"
  td_config :: virtio_trans_config
  td_features :: u64
  td_rx_running :: bool
  td_tx_running :: bool
  td_front_poll_mode :: bool
  td_back_poll_mode :: bool
  td_do_buf_copy :: bool
  td_send_packet_sig :: nat
  td_recv_packet_sig :: nat
  td_iov :: "iovec list"
  td_app_buf :: u64
  td_shm :: shm
  td_mem :: bmem

type_synonym trans_sys = "trans_dev vsys"

definition MAX_VT_BUF_SIZE :: nat where "MAX_VT_BUF_SIZE = 2048"
definition MAX_INDIRECT_NUM :: nat where "MAX_INDIRECT_NUM = 100"
definition VIRTIO_TRANS_QUEUE_SIZE :: u32 where "VIRTIO_TRANS_QUEUE_SIZE = 1024"
definition VIRTIO_TRANS_NUM_QUEUES :: nat where "VIRTIO_TRANS_NUM_QUEUES = 2"
definition VIRTIO_TRANS_RX_QUEUE :: nat where "VIRTIO_TRANS_RX_QUEUE = 0"
definition VIRTIO_TRANS_TX_QUEUE :: nat where "VIRTIO_TRANS_TX_QUEUE = 1"

definition VIRTIO_TRANS_FEATURES :: u64 where
  "VIRTIO_TRANS_FEATURES = push_bit 29 1 OR push_bit 28 1 OR push_bit 33 1"

text \<open>Bit numbers of the configuration and control words.\<close>

definition VT_CFG_TX :: nat where "VT_CFG_TX = 0"
definition VT_CFG_RX :: nat where "VT_CFG_RX = 1"
definition VT_CFG_COPY :: nat where "VT_CFG_COPY = 2"
definition VT_CFG_B_POLL :: nat where "VT_CFG_B_POLL = 3"
definition VT_CFG_F_POLL :: nat where "VT_CFG_F_POLL = 4"
definition VT_CTRL_START :: nat where "VT_CTRL_START = 0"

abbreviation upd_dev :: "(trans_dev \<Rightarrow> trans_dev) \<Rightarrow> trans_sys \<Rightarrow> trans_sys" where
  "upd_dev f s \<equiv> s\<lparr>vs_dev := f (vs_dev s)\<rparr>"

abbreviation upd_cfg :: "(virtio_trans_config \<Rightarrow> virtio_trans_config) \<Rightarrow> trans_dev \<Rightarrow> trans_dev" where
  "upd_cfg f d \<equiv> d\<lparr>td_config := f (td_config d)\<rparr>"

section \<open>Copying\<close>

fun copy_words :: "nat \<Rightarrow> u64 \<Rightarrow> u64 \<Rightarrow> bmem \<Rightarrow> bmem" where
  "copy_words 0 d s m = m"
| "copy_words (Suc n) d s m = copy_words n (d + 4) (s + 4) (mem_write m d (mem_read m s 4))"

text \<open>Pointers with the same offset in a word are copied by words, others by \<open>memcpy\<close>.\<close>

definition co_aligned :: "u64 \<Rightarrow> u64 \<Rightarrow> bool" where
  "co_aligned dts src \<longleftrightarrow> ((ucast dts :: u32) XOR ucast src) AND (4 - 1) = 0"

definition vt_memcpy :: "u64 \<Rightarrow> u64 \<Rightarrow> u32 \<Rightarrow> bmem \<Rightarrow> bmem" where
  "vt_memcpy dts src len m =
     (if len = 0 then m
      else if \<not> co_aligned dts src then memcpy m dts src (unat len)
      else copy_words (unat len div 4) dts src m)"

text \<open>How many bytes that is.\<close>

definition vt_copied :: "u64 \<Rightarrow> u64 \<Rightarrow> u32 \<Rightarrow> nat" where
  "vt_copied dts src len = (if co_aligned dts src then 4 * (unat len div 4) else unat len)"

section \<open>The tasks\<close>

text \<open>What a task does next: it has a chain in hand, it waits for the driver (nothing
  available, and in interrupt mode no notification pending), or it should look again.\<close>

datatype task_poll = Chain int u16 u16 | Blocked | Again

text \<open>One evaluation of the condition of the waiting loop, and its body: in interrupt mode
  \<open>ulTaskNotifyTake(pdTRUE, portMAX_DELAY)\<close> clears the pending notifications or blocks, in
  polling mode the task sleeps and looks again.\<close>

definition trans_take :: "nat \<Rightarrow> trans_sys \<Rightarrow> (task_poll \<times> trans_sys) outcome" where
  "trans_take q s =
     (let d = vs_dev s
      in and_then (arr_get (td_vqs d) q) (\<lambda>vq.
         and_then (virtio_queue_get_iov vq (td_iov d) (td_shm d)) (\<lambda>g.
           let s' = upd_dev (\<lambda>d. d\<lparr>td_vqs := (td_vqs d)[q := gi_vq g], td_iov := gi_iov g,
                        td_shm := gi_mem g\<rparr>) s
           in if 0 \<le> gi_ret g then Inr (Chain (gi_ret g) (gi_out g) (gi_in g), s')
              else if td_back_poll_mode d then Inr (Again, s')
              else and_then (arr_get (td_tasks d) q) (\<lambda>n.
                if n = 0 then Inr (Blocked, s')
                else Inr (Again, upd_dev (\<lambda>d. d\<lparr>td_tasks := (td_tasks d)[q := 0]\<rparr>) s')))))"

text \<open>The copies between \<open>app_buf\<close> and the first \<open>n\<close> entries of \<open>iov\<close>; the C does not
  compare an entry's length with the size of \<open>app_buf\<close>.\<close>

fun copy_out_bufs :: "iovec list \<Rightarrow> nat \<Rightarrow> u64 \<Rightarrow> bmem \<Rightarrow> bmem outcome" where
  "copy_out_bufs vs 0 app m = Inr m"
| "copy_out_bufs [] (Suc n) app m = Inl Out_Of_Bounds"
| "copy_out_bufs (v # vs) (Suc n) app m =
     (let len = ucast (iov_len v) :: u32
      in if MAX_VT_BUF_SIZE < vt_copied (iov_addr v) app len then Inl Out_Of_Bounds
         else copy_out_bufs vs n app (vt_memcpy (iov_addr v) app len m))"

fun copy_in_bufs :: "iovec list \<Rightarrow> nat \<Rightarrow> u64 \<Rightarrow> bmem \<Rightarrow> bmem outcome" where
  "copy_in_bufs vs 0 app m = Inr m"
| "copy_in_bufs [] (Suc n) app m = Inl Out_Of_Bounds"
| "copy_in_bufs (v # vs) (Suc n) app m =
     (let len = ucast (iov_len v) :: u32
      in if MAX_VT_BUF_SIZE < vt_copied app (iov_addr v) len then Inl Out_Of_Bounds
         else copy_in_bufs vs n app (vt_memcpy app (iov_addr v) len m))"

text \<open>The rest of the loop body: the chain goes back with \<open>iov[0].len\<close> times the number of
  buffers as its length, the count of packets left drops by the number of buffers, and the
  driver is notified when it does not poll and asks for it.\<close>

definition trans_return :: "nat \<Rightarrow> int \<Rightarrow> u32 \<Rightarrow> trans_sys \<Rightarrow> trans_sys outcome" where
  "trans_return q head len s =
     (let d = vs_dev s
      in and_then (arr_get (td_vqs d) q) (\<lambda>vq.
         and_then (virtio_queue_update_used_elem vq (ucast (word_of_int head :: u16)) len (td_shm d))
           (\<lambda>m. let s' = upd_dev (\<lambda>d. d\<lparr>td_shm := m\<rparr>) s
            in if td_front_poll_mode d then Inr s'
               else and_then (virtio_queue_must_notify vq m) (\<lambda>(notify, vq').
                 let s'' = upd_dev (\<lambda>d. d\<lparr>td_vqs := (td_vqs d)[q := vq']\<rparr>) s'
                 in Inr (if notify then virtio_mmio_interrupt_front True s'' else s'')))))"

definition tx_finish ::
    "nat \<Rightarrow> int \<Rightarrow> u16 \<Rightarrow> u32 \<Rightarrow> trans_sys \<Rightarrow> (u32 \<times> trans_sys) outcome" where
  "tx_finish q head cnt_in regression s =
     (let d = vs_dev s
      in and_then (if td_do_buf_copy d
                   then copy_out_bufs (td_iov d) (unat cnt_in) (td_app_buf d) (td_mem d)
                   else Inr (td_mem d)) (\<lambda>m.
         and_then (arr_get (td_iov d) 0) (\<lambda>v.
           let len = ucast (iov_len v * ucast cnt_in) :: u32
           in and_then (trans_return q head len (upd_dev (\<lambda>d. d\<lparr>td_mem := m\<rparr>) s)) (\<lambda>s'.
                Inr (regression - ucast cnt_in, s')))))"

definition rx_finish ::
    "nat \<Rightarrow> int \<Rightarrow> u16 \<Rightarrow> u32 \<Rightarrow> trans_sys \<Rightarrow> (u32 \<times> trans_sys) outcome" where
  "rx_finish q head cnt_out regression s =
     (let d = vs_dev s
      in and_then (if td_do_buf_copy d
                   then copy_in_bufs (td_iov d) (unat cnt_out) (td_app_buf d) (td_mem d)
                   else Inr (td_mem d)) (\<lambda>m.
         and_then (arr_get (td_iov d) 0) (\<lambda>v.
           let len = ucast (iov_len v * ucast cnt_out) :: u32
           in and_then (trans_return q head len (upd_dev (\<lambda>d. d\<lparr>td_mem := m\<rparr>) s)) (\<lambda>s'.
                Inr (regression - ucast cnt_out, s')))))"

text \<open>The loop \<open>while (regression)\<close>, run until it ends or has to wait. Each round takes a
  chain off the available ring, so \<open>fuel\<close> bounds what the driver has queued.\<close>

datatype loop_end = Loop_Done | Loop_Waits

fun tx_loop :: "nat \<Rightarrow> nat \<Rightarrow> u32 \<Rightarrow> trans_sys \<Rightarrow> (loop_end \<times> u32 \<times> trans_sys) outcome" where
  "tx_loop 0 q regression s = Inl Diverges"
| "tx_loop (Suc fuel) q regression s =
     (if regression = 0 then Inr (Loop_Done, 0, s)
      else and_then (trans_take q s) (\<lambda>(p, s').
        case p of
          Blocked \<Rightarrow> Inr (Loop_Waits, regression, s')
        | Again \<Rightarrow> tx_loop fuel q regression s'
        | Chain head cnt_out cnt_in \<Rightarrow>
            and_then (tx_finish q head cnt_in regression s') (\<lambda>(r, s''). tx_loop fuel q r s'')))"

fun rx_loop :: "nat \<Rightarrow> nat \<Rightarrow> u32 \<Rightarrow> trans_sys \<Rightarrow> (loop_end \<times> u32 \<times> trans_sys) outcome" where
  "rx_loop 0 q regression s = Inl Diverges"
| "rx_loop (Suc fuel) q regression s =
     (if regression = 0 then Inr (Loop_Done, 0, s)
      else and_then (trans_take q s) (\<lambda>(p, s').
        case p of
          Blocked \<Rightarrow> Inr (Loop_Waits, regression, s')
        | Again \<Rightarrow> rx_loop fuel q regression s'
        | Chain head cnt_out cnt_in \<Rightarrow>
            and_then (rx_finish q head cnt_out regression s') (\<lambda>(r, s''). rx_loop fuel q r s'')))"

text \<open>One round of the outer loop of each task: wait for the start signal, serve the packets,
  raise a last interrupt unless the driver polls, and publish the count. Without a signal the
  task stays blocked.\<close>

definition tx_task :: "nat \<Rightarrow> trans_sys \<Rightarrow> (loop_end \<times> trans_sys) outcome" where
  "tx_task fuel s =
     (if td_send_packet_sig (vs_dev s) = 0 then Inr (Loop_Waits, s)
      else let s1 = upd_dev (\<lambda>d. d\<lparr>td_send_packet_sig := td_send_packet_sig d - 1\<rparr>) s
      in and_then (tx_loop fuel VIRTIO_TRANS_TX_QUEUE (vc_regression (td_config (vs_dev s1))) s1)
        (\<lambda>(e, r, s2). case e of Loop_Waits \<Rightarrow> Inr (Loop_Waits, s2)
         | Loop_Done \<Rightarrow>
           let s3 = (if td_front_poll_mode (vs_dev s2) then s2
                     else virtio_mmio_interrupt_front True s2)
           in Inr (Loop_Done, upd_dev (upd_cfg (\<lambda>c. c\<lparr>vc_rx_count := vc_regression c\<rparr>)) s3)))"

definition rx_task :: "nat \<Rightarrow> trans_sys \<Rightarrow> (loop_end \<times> trans_sys) outcome" where
  "rx_task fuel s =
     (if td_recv_packet_sig (vs_dev s) = 0 then Inr (Loop_Waits, s)
      else let s1 = upd_dev (\<lambda>d. d\<lparr>td_recv_packet_sig := td_recv_packet_sig d - 1\<rparr>) s
      in and_then (rx_loop fuel VIRTIO_TRANS_RX_QUEUE (vc_regression (td_config (vs_dev s1))) s1)
        (\<lambda>(e, r, s2). case e of Loop_Waits \<Rightarrow> Inr (Loop_Waits, s2)
         | Loop_Done \<Rightarrow>
           let s3 = (if td_front_poll_mode (vs_dev s2) then s2
                     else virtio_mmio_interrupt_front True s2)
           in Inr (Loop_Done, upd_dev (upd_cfg (\<lambda>c. c\<lparr>vc_tx_count := vc_regression c\<rparr>)) s3)))"

section \<open>The operations of the device\<close>

definition trans_set_config :: "trans_dev \<Rightarrow> trans_dev" where
  "trans_set_config d = d\<lparr>td_config := \<lparr>vc_status = 0, vc_config = 0, vc_control = 0,
     vc_pkt_size = 64, vc_tx_count = 0, vc_rx_count = 0, vc_regression = 0\<rparr>\<rparr>"

definition trans_init_vq ::
    "u32 \<Rightarrow> u32 \<Rightarrow> u32 \<Rightarrow> u32 \<Rightarrow> trans_sys \<Rightarrow> (int \<times> trans_sys) outcome" where
  "trans_init_vq vq page_size align pfn s =
     (if VIRTIO_TRANS_NUM_QUEUES \<le> unat vq then Inr (-1, s)
      else and_then (arr_get (td_vqs (vs_dev s)) (unat vq)) (\<lambda>queue.
        let p = virtio_get_vq pfn page_size;
            queue' = virtio_init_device_vq (vs_vdev s)
              (queue\<lparr>vq_pfn := pfn,
                 vq_vring := vring_init VIRTIO_TRANS_QUEUE_SIZE p (ucast align)\<rparr>)
        in Inr (0, upd_dev (\<lambda>d. d\<lparr>td_vqs := (td_vqs d)[unat vq := queue']\<rparr>) s)))"

definition trans_exit_vq :: "u32 \<Rightarrow> trans_sys \<Rightarrow> trans_sys outcome" where
  "trans_exit_vq vq s = Inr s"

definition trans_notify_vq :: "u32 \<Rightarrow> trans_sys \<Rightarrow> (int \<times> trans_sys) outcome" where
  "trans_notify_vq vq s =
     (if td_back_poll_mode (vs_dev s) then Inr (0, s)
      else and_then (arr_get (td_tasks (vs_dev s)) (unat vq)) (\<lambda>n.
        Inr (0, upd_dev (\<lambda>d. d\<lparr>td_tasks := (td_tasks d)[unat vq := Suc n]\<rparr>) s)))"

definition trans_get_vq :: "u32 \<Rightarrow> trans_sys \<Rightarrow> virtqueue outcome" where
  "trans_get_vq vq s = arr_get (td_vqs (vs_dev s)) (unat vq)"

text \<open>Writing through the pointer \<open>get_vq\<close> returns.\<close>

definition trans_put_vq :: "u32 \<Rightarrow> virtqueue \<Rightarrow> trans_sys \<Rightarrow> trans_sys outcome" where
  "trans_put_vq vq v s =
     and_then (arr_set (td_vqs (vs_dev s)) (unat vq) v) (\<lambda>qs.
       Inr (upd_dev (\<lambda>d. d\<lparr>td_vqs := qs\<rparr>) s))"

definition trans_get_vq_size :: "u32 \<Rightarrow> int" where
  "trans_get_vq_size vq = 1024"

definition trans_set_vq_size :: "u32 \<Rightarrow> int \<Rightarrow> int" where
  "trans_set_vq_size vq sz = sz"

definition trans_control :: "trans_dev \<Rightarrow> trans_dev" where
  "trans_control d =
     (let c = td_config d; tx = bit (vc_config c) VT_CFG_TX; rx = bit (vc_config c) VT_CFG_RX
      in if bit (vc_control c) VT_CTRL_START then
           (let d1 = (if tx \<and> \<not> td_rx_running d
                      then d\<lparr>td_rx_running := True, td_config := c\<lparr>vc_tx_count := 0\<rparr>,
                             td_recv_packet_sig := td_recv_packet_sig d + 1\<rparr>
                      else d)
            in if rx \<and> \<not> td_tx_running d1
               then d1\<lparr>td_tx_running := True, td_config := (td_config d1)\<lparr>vc_rx_count := 0\<rparr>,
                       td_send_packet_sig := td_send_packet_sig d1 + 1\<rparr>
               else d1)
         else
           (let d1 = (if tx \<and> td_rx_running d then d\<lparr>td_rx_running := False\<rparr> else d)
            in if rx \<and> td_tx_running d1 then d1\<lparr>td_tx_running := False\<rparr> else d1))"

definition trans_dev_cfg_accessor :: "u64 \<Rightarrow> u32 \<Rightarrow> trans_sys \<Rightarrow> trans_sys outcome" where
  "trans_dev_cfg_accessor addr len s =
     (let c = vc_config (td_config (vs_dev s))
      in if addr = 0x4 then
           Inr (upd_dev (\<lambda>d. d\<lparr>td_do_buf_copy := bit c VT_CFG_COPY,
                  td_back_poll_mode := bit c VT_CFG_B_POLL,
                  td_front_poll_mode := bit c VT_CFG_F_POLL\<rparr>) s)
         else if addr = 0x8 then Inr (upd_dev trans_control s)
         else Inr s)"

definition trans_dev_virtio_ops :: "trans_dev virtio_ops" where
  "trans_dev_virtio_ops = \<lparr>op_init_vq = trans_init_vq, op_exit_vq = Some trans_exit_vq,
     op_notify_vq = trans_notify_vq, op_get_vq = trans_get_vq, op_put_vq = trans_put_vq,
     op_get_vq_size = trans_get_vq_size, op_set_vq_size = trans_set_vq_size,
     op_handle_dev_status = None, op_dev_cfg_accessor = trans_dev_cfg_accessor\<rparr>"

section \<open>Initialisation\<close>

text \<open>\<open>sem_init\<close> is whether each \<open>os_sem_init\<close> succeeds and \<open>task_create\<close> whether each
  \<open>xTaskCreate\<close> does, in the order of the calls.\<close>

definition virtio_trans_create_tasks ::
    "bool \<times> bool \<Rightarrow> bool \<times> bool \<Rightarrow> trans_dev \<Rightarrow> int \<times> trans_dev" where
  "virtio_trans_create_tasks sem_init task_create d =
     (if \<not> fst sem_init then (-1, d)
      else let d1 = d\<lparr>td_send_packet_sig := 0\<rparr>
      in if \<not> snd sem_init then (-1, d1)
      else let d2 = d1\<lparr>td_recv_packet_sig := 0\<rparr>
      in if \<not> fst task_create then (-1, d2)
      else let d3 = d2\<lparr>td_tasks := (td_tasks d2)[VIRTIO_TRANS_RX_QUEUE := 0]\<rparr>
      in if \<not> snd task_create then (-1, d3)
      else (0, d3\<lparr>td_tasks := (td_tasks d3)[VIRTIO_TRANS_TX_QUEUE := 0]\<rparr>))"

definition virtio_trans_dev_init ::
    "bool \<Rightarrow> u64 \<Rightarrow> trans_sys \<Rightarrow> (int \<times> trans_sys) outcome" where
  "virtio_trans_dev_init alloc mmio_base s =
     (let s1 = upd_dev trans_set_config s;
          f = td_features (vs_dev s1);
          s2 = upd_vdev (\<lambda>v. v\<lparr>vd_cfg_size := 28, vd_vqs := of_nat VIRTIO_TRANS_NUM_QUEUES,
                 vd_dev_features := [ucast f, ucast (drop_bit 32 f)]\<rparr>) s1
      in virtio_init alloc trans_dev_virtio_ops mmio_base VIRTIO_MMIO 1111 42 s2)"

definition virtio_trans_init ::
    "bool \<Rightarrow> bool \<times> bool \<Rightarrow> bool \<times> bool \<Rightarrow> u64 \<Rightarrow> trans_sys \<Rightarrow> (int \<times> trans_sys) outcome" where
  "virtio_trans_init alloc sem_init task_create mmio_base s =
     and_then (virtio_trans_dev_init alloc mmio_base s) (\<lambda>(r, s1).
       if r \<noteq> 0 then Inr (r, s1)
       else let (r2, d) = virtio_trans_create_tasks sem_init task_create (vs_dev s1)
            in if r2 \<noteq> 0 then Inr (r2, s1\<lparr>vs_dev := d\<rparr>) else Inr (0, s1\<lparr>vs_dev := d\<rparr>))"

definition virtio_trans_exit :: int where
  "virtio_trans_exit = 0"

section \<open>What the copies do\<close>

lemma apart_tail:
  assumes "\<forall>i < 4 * Suc n. \<forall>j < 4 * Suc n. d + of_nat i \<noteq> s + (of_nat j :: u64)"
    and "i < 4 * n" "j < 4 * n"
  shows "(d + 4) + of_nat i \<noteq> (s + 4) + (of_nat j :: u64)"
proof -
    have "i + 4 < 4 * Suc n" "j + 4 < 4 * Suc n" using assms(2,3) by simp_all
    then have "d + of_nat (i + 4) \<noteq> s + (of_nat (j + 4) :: u64)"
      using assms(1) by blast
    then show "(d + 4) + of_nat i \<noteq> (s + 4) + (of_nat j :: u64)" by (simp add: algebra_simps)
qed

lemma sub4_lt: "unat y < 4 \<Longrightarrow> 4 * n + 4 < 2 ^ 64 \<Longrightarrow> \<not> unat (y - 4 :: u64) < 4 * n"
  by (simp add: unat_sub_if' word_less_nat_alt)

lemma sub4_ge: "\<not> unat y < 4 \<Longrightarrow> unat (y - 4 :: u64) = unat y - 4"
  by (simp add: unat_sub_if' word_less_nat_alt word_le_nat_alt)

text \<open>The word loop reads what earlier rounds have not overwritten when the regions are apart.\<close>

lemma copy_words_at:
  assumes "4 * n < 2 ^ 64"
    and "\<forall>i < 4 * n. \<forall>j < 4 * n. d + of_nat i \<noteq> s + (of_nat j :: u64)"
  shows "copy_words n d s m x = (if unat (x - d) < 4 * n then m (s + (x - d)) else m x)"
  using assms
proof (induction n arbitrary: d s m)
  case 0
  then show ?case by simp
next
  case (Suc n)
  let ?m = "mem_write m d (mem_read m s 4)"
  have first: "?m y = (if unat (y - d) < 4 then m (s + (y - d)) else m y)" for y
    using memcpy_at [of 4 m d s y] by (simp add: memcpy_def)
  have apart: "\<forall>i < 4 * n. \<forall>j < 4 * n. (d + 4) + of_nat i \<noteq> (s + 4) + (of_nat j :: u64)"
    using apart_tail [OF Suc.prems(2)] by blast
  have bound: "4 * n + 4 < 2 ^ 64" "4 * n < 2 ^ 64" using Suc.prems(1) by simp_all
  have eqs: "x - (d + 4) = (x - d) - 4" "s + 4 + (x - d - 4) = s + (x - d)" by simp_all
  have ih: "copy_words (Suc n) d s m x =
      (if unat ((x - d) - 4) < 4 * n then ?m (s + (x - d)) else ?m x)"
    using Suc.IH [OF bound(2) apart, of ?m] by (simp only: copy_words.simps eqs)
  show ?case
  proof (cases "unat (x - d) < 4")
    case True
    then show ?thesis unfolding ih using sub4_lt [OF True bound(1)] by (simp add: first)
  next
    case False
    have "?m (s + (x - d)) = m (s + (x - d))" if "unat (x - d) < 4 * Suc n"
    proof -
      have "\<not> unat (s + (x - d) - d) < 4"
      proof
        assume "unat (s + (x - d) - d) < 4"
        then have "unat (s + (x - d) - d) < 4 * Suc n" by simp
        moreover have "d + of_nat (unat (s + (x - d) - d)) = s + of_nat (unat (x - d))" by simp
        ultimately show False using Suc.prems(2) that by blast
      qed
      then show ?thesis by (simp only: first if_False)
    qed
    moreover have "unat (x - d) - 4 < 4 * n \<longleftrightarrow> unat (x - d) < 4 * Suc n" using False by auto
    ultimately show ?thesis unfolding ih sub4_ge [OF False] using False
      by (simp add: first)
  qed
qed
text \<open>For regions that do not overlap, \<open>vt_memcpy\<close> copies exactly the first \<open>vt_copied\<close> bytes
  and touches nothing else. That is all of them when the pointers have different offsets in a
  word, but only the whole words when they have the same one: the last \<open>len mod 4\<close> bytes are then
  never copied.\<close>

theorem vt_memcpy_copies:
  assumes "\<forall>i < unat len. \<forall>j < unat len. dts + of_nat i \<noteq> src + (of_nat j :: u64)"
  shows "vt_memcpy dts src len m x =
      (if unat (x - dts) < vt_copied dts src len then m (src + (x - dts)) else m x) \<and>
    unat len - vt_copied dts src len = (if co_aligned dts src then unat len mod 4 else 0)"
proof -
  have "4 * (unat len div 4) < 2 ^ 64" "unat len < 2 ^ 64" using u32_lt [of len] by auto
  moreover have "\<forall>i < 4 * (unat len div 4). \<forall>j < 4 * (unat len div 4).
      dts + of_nat i \<noteq> src + (of_nat j :: u64)"
    using assms by (meson div_times_less_eq_dividend less_le_trans mult.commute
      times_div_less_eq_dividend)
  ultimately show ?thesis
    by (auto simp: vt_memcpy_def vt_copied_def copy_words_at memcpy_at
        minus_mult_div_eq_mod [symmetric])
qed

section \<open>The device as the transport sees it\<close>

abbreviation trans_queue :: "trans_dev \<Rightarrow> nat \<Rightarrow> virtqueue" where
  "trans_queue d q \<equiv> td_vqs d ! q"

abbreviation trans_set_queue :: "trans_dev \<Rightarrow> nat \<Rightarrow> virtqueue \<Rightarrow> trans_dev" where
  "trans_set_queue d q v \<equiv> d\<lparr>td_vqs := (td_vqs d)[q := v]\<rparr>"

interpretation trans: virtio_device trans_dev_virtio_ops VIRTIO_TRANS_NUM_QUEUES trans_queue
    trans_set_queue "\<lambda>d. length (td_vqs d) = VIRTIO_TRANS_NUM_QUEUES"
  by unfold_locales
    (auto simp: trans_dev_virtio_ops_def trans_get_vq_def trans_put_vq_def trans_exit_vq_def
      VIRTIO_TRANS_NUM_QUEUES_def)

text \<open>When the driver resets a live transfer device by writing 0 to the status register, the
  device stops being live and forgets both queues: their rings, indices and the event index
  setting are all cleared, and nothing else of the device changes but the handshake flag.\<close>

theorem trans_reset_forgets_queues:
  assumes "length (td_vqs (vs_dev s)) = VIRTIO_TRANS_NUM_QUEUES"
    and "vd_vqs (vs_vdev s) = of_nat VIRTIO_TRANS_NUM_QUEUES"
    and "vd_state (vs_vdev s) AND VIRTIO_STATE_LIVE \<noteq> 0" and "h_status (vs_hdr s) = 0"
  shows "virtio_mmio_config_out trans_dev_virtio_ops 0x070 len s = Inr (s
    \<lparr>vs_vdev := (vs_vdev s)\<lparr>vd_state := vd_state (vs_vdev s) AND NOT VIRTIO_STATE_LIVE\<rparr>,
     vs_dev := (vs_dev s)\<lparr>td_vqs := [zero_vq, zero_vq]\<rparr>\<rparr>)"
proof -
  let ?s = "upd_vdev (\<lambda>v. v\<lparr>vd_state := vd_state v AND NOT VIRTIO_STATE_LIVE\<rparr>) s"
  obtain q0 q1 where "td_vqs (vs_dev s) = [q0, q1]"
    using assms(1) by (auto simp: VIRTIO_TRANS_NUM_QUEUES_def length_Suc_conv numeral_2_eq_2)
  then have "virtio_mmio_reset trans_dev_virtio_ops ?s =
      Inr (?s\<lparr>vs_dev := (vs_dev s)\<lparr>td_vqs := [zero_vq, zero_vq]\<rparr>\<rparr>)"
    using assms(1,2) trans.exit_vq_eq [of ?s 0]
      trans.exit_vq_eq [of "?s\<lparr>vs_dev := (vs_dev s)\<lparr>td_vqs := [zero_vq, q1]\<rparr>\<rparr>" 1]
    by (simp add: virtio_mmio_reset_def VIRTIO_TRANS_NUM_QUEUES_def upt_rec)
  then show ?thesis using assms(3,4)
    by (simp add: virtio_mmio_config_out_def virtio_handle_dev_status_def
        trans_dev_virtio_ops_def Let_def)
qed

text \<open>Selecting a queue brings an index the device does not have back to 0, and answers with
  the selected queue's page frame and the fixed ring size of 1024.\<close>

theorem trans_queue_select:
  assumes "length (td_vqs (vs_dev s)) = VIRTIO_TRANS_NUM_QUEUES"
    and "vd_vqs (vs_vdev s) = of_nat VIRTIO_TRANS_NUM_QUEUES"
  shows "virtio_mmio_config_out trans_dev_virtio_ops 0x030 len s =
    (let q = (if unat (h_queue_sel (vs_hdr s)) < 2 then unat (h_queue_sel (vs_hdr s)) else 0)
     in Inr (upd_hdr (\<lambda>h. h\<lparr>h_queue_sel := of_nat q,
          h_queue_pfn := vq_pfn (td_vqs (vs_dev s) ! q), h_queue_num_max := 1024\<rparr>) s))"
  using trans.queue_sel_checked [of s len] assms
  by (simp add: VIRTIO_TRANS_NUM_QUEUES_def trans_dev_virtio_ops_def trans_get_vq_size_def Let_def)

text \<open>Releasing a queue does not check the queue selector, unlike setting one up: a driver
  that writes page frame 0 while the selector names a queue the device does not have makes the
  device clear memory behind its queue array, where the same message with another page frame is
  refused.\<close>

theorem trans_release_unchecked_selector:
  assumes "length (td_vqs (vs_dev s)) = VIRTIO_TRANS_NUM_QUEUES"
    and "VIRTIO_TRANS_NUM_QUEUES \<le> unat (h_queue_sel (vs_hdr s))"
  shows "virtio_mmio_config_out trans_dev_virtio_ops 0x040 len s =
    (if h_queue_pfn (vs_hdr s) = 0 then Inl Out_Of_Bounds else Inr s)"
  using assms
  by (simp add: virtio_mmio_config_out_def virtio_mmio_exit_vq_def virtio_exit_vq_def
      trans_dev_virtio_ops_def trans_get_vq_def trans_init_vq_def Let_def)

text \<open>What a write to the control word does. Starting raises the semaphore of a direction's
  task exactly when the direction is configured and was not running, and then clears that
  direction's counter and marks it running; stopping marks the configured directions as not
  running and raises nothing. A direction that is not configured is left alone.\<close>

theorem trans_control_transitions:
  "let c = td_config d; start = bit (vc_control c) VT_CTRL_START;
       tx = bit (vc_config c) VT_CFG_TX; rx = bit (vc_config c) VT_CFG_RX;
       go_rx = (start \<and> tx \<and> \<not> td_rx_running d); go_tx = (start \<and> rx \<and> \<not> td_tx_running d)
   in trans_control d = d
     \<lparr>td_rx_running := (if tx then start else td_rx_running d),
      td_tx_running := (if rx then start else td_tx_running d),
      td_recv_packet_sig := td_recv_packet_sig d + of_bool go_rx,
      td_send_packet_sig := td_send_packet_sig d + of_bool go_tx,
      td_config := c\<lparr>vc_tx_count := (if go_rx then 0 else vc_tx_count c),
                     vc_rx_count := (if go_tx then 0 else vc_rx_count c)\<rparr>\<rparr>"
  by (cases d; cases "td_config d") (auto simp: trans_control_def Let_def)

section \<open>Serving queued packets\<close>

text \<open>The chain the next available entry stands for, if it fits an array of \<open>cap\<close> entries.\<close>

definition next_chain :: "nat \<Rightarrow> vring \<Rightarrow> u16 \<Rightarrow> shm \<Rightarrow> vring_desc list option" where
  "next_chain cap vr la m =
     (let h = av_ring (sm_avail m (vr_avail vr)) (unat la mod unat (vr_num vr));
          (b, i) = chain_start vr h m
      in desc_chain cap m b i)"

text \<open>The driver has queued \<open>n\<close> chains, each with one buffer the device writes.\<close>

definition fillable :: "bool \<Rightarrow> vring_desc list \<Rightarrow> bool" where
  "fillable copy ds \<longleftrightarrow> length (filter writable ds) = 1
     \<and> (copy \<longrightarrow> unat (d_len (hd ds)) \<le> MAX_VT_BUF_SIZE)"

definition tx_supply :: "bool \<Rightarrow> nat \<Rightarrow> vring \<Rightarrow> u16 \<Rightarrow> shm \<Rightarrow> nat \<Rightarrow> bool" where
  "tx_supply copy cap vr la m n \<longleftrightarrow> vr_avail vr \<noteq> 0 \<and> vr_num vr \<noteq> 0 \<and> vr_used vr \<noteq> 0 \<and>
     n \<le> unat (av_idx (sm_avail m (vr_avail vr)) - la) \<and>
     (\<forall>j < n. \<exists>ds. next_chain cap vr (la + of_nat j) m = Some ds \<and> fillable copy ds)"

lemma desc_chain_cong:
  "sm_desc m = sm_desc m' \<Longrightarrow> desc_chain n m b i = desc_chain n m' b i"
  by (induction n arbitrary: i) (simp_all add: desc_at_def Let_def)

lemma next_chain_cong:
  "sm_desc m = sm_desc m' \<Longrightarrow> sm_avail m = sm_avail m' \<Longrightarrow>
    next_chain cap vr la m = next_chain cap vr la m'"
  using desc_chain_cong [of m m']
  by (simp add: next_chain_def chain_start_def desc_at_def Let_def split: prod.split)

lemma tx_supply_Suc:
  assumes "tx_supply copy cap vr la m (Suc n)"
    and "sm_desc m' = sm_desc m" "sm_avail m' = sm_avail m"
  shows "\<exists>ds. next_chain cap vr la m = Some ds \<and> fillable copy ds"
    and "av_idx (sm_avail m (vr_avail vr)) \<noteq> la" and "tx_supply copy cap vr (la + 1) m' n"
proof -
  show "\<exists>ds. next_chain cap vr la m = Some ds \<and> fillable copy ds"
    using assms(1) spec [of "\<lambda>j. j < Suc n \<longrightarrow> (\<exists>ds. next_chain cap vr (la + of_nat j) m = Some ds \<and>
      fillable copy ds)" 0] by (simp add: tx_supply_def)
  have le: "Suc n \<le> unat (av_idx (sm_avail m (vr_avail vr)) - la)"
    using assms(1) by (simp add: tx_supply_def)
  then show "av_idx (sm_avail m (vr_avail vr)) \<noteq> la" by auto
  have "av_idx (sm_avail m (vr_avail vr)) - (la + 1) = (av_idx (sm_avail m (vr_avail vr)) - la) - 1"
    by simp
  then have "n \<le> unat (av_idx (sm_avail m (vr_avail vr)) - (la + 1))"
    using le unat_minus_one [of "av_idx (sm_avail m (vr_avail vr)) - la"]
    by (cases "av_idx (sm_avail m (vr_avail vr)) - la = 0") (simp_all add: diff_diff_eq [symmetric])
  moreover have "\<exists>ds. next_chain cap vr (la + 1 + of_nat j) m' = Some ds \<and>
      fillable copy ds" if "j < n" for j
  proof -
    have "Suc j < Suc n" using that by simp
    then have "\<exists>ds. next_chain cap vr (la + of_nat (Suc j)) m = Some ds \<and>
        fillable copy ds"
      using assms(1) unfolding tx_supply_def by blast
    then show ?thesis using next_chain_cong [OF assms(2,3)] by (simp add: add.assoc)
  qed
  ultimately show "tx_supply copy cap vr (la + 1) m' n"
    using assms by (simp add: tx_supply_def)
qed

text \<open>What serving packets keeps and what it moves, seen from queue \<open>q\<close>.\<close>

definition served :: "nat \<Rightarrow> nat \<Rightarrow> trans_sys \<Rightarrow> trans_sys \<Rightarrow> bool" where
  "served q n s s' \<longleftrightarrow>
     (let d = vs_dev s; d' = vs_dev s'; vq = td_vqs d ! q; vq' = td_vqs d' ! q
      in length (td_vqs d') = length (td_vqs d) \<and> length (td_iov d') = length (td_iov d) \<and>
         td_do_buf_copy d' = td_do_buf_copy d \<and> td_config d' = td_config d \<and>
         vq_vring vq' = vq_vring vq \<and> vq_last_avail_idx vq' = vq_last_avail_idx vq + of_nat n \<and>
         sm_desc (td_shm d') = sm_desc (td_shm d) \<and> sm_avail (td_shm d') = sm_avail (td_shm d) \<and>
         us_idx (used_ring vq' (td_shm d')) = us_idx (used_ring vq (td_shm d)) + of_nat n)"

lemma served_0 [simp]: "served q 0 s s"
  by (simp add: served_def Let_def)

lemma served_Suc: "served q 1 s s' \<Longrightarrow> served q n s' s'' \<Longrightarrow> served q (Suc n) s s''"
  by (simp add: served_def Let_def algebra_simps)

lemma interrupt_front_dev [simp]: "vs_dev (virtio_mmio_interrupt_front b s) = vs_dev s"
  by (simp add: virtio_mmio_interrupt_front_def Let_def)

lemma trans_return_served:
  assumes "q < length (td_vqs (vs_dev s))" "queue_ready (td_vqs (vs_dev s) ! q)"
    and "vr_avail (vq_vring (td_vqs (vs_dev s) ! q)) \<noteq> 0"
  shows "\<exists>s'. trans_return q head len s = Inr s' \<and>
    length (td_vqs (vs_dev s')) = length (td_vqs (vs_dev s)) \<and> td_iov (vs_dev s') = td_iov (vs_dev s) \<and>
    td_do_buf_copy (vs_dev s') = td_do_buf_copy (vs_dev s) \<and>
    td_config (vs_dev s') = td_config (vs_dev s) \<and>
    vq_vring (td_vqs (vs_dev s') ! q) = vq_vring (td_vqs (vs_dev s) ! q) \<and>
    vq_last_avail_idx (td_vqs (vs_dev s') ! q) = vq_last_avail_idx (td_vqs (vs_dev s) ! q) \<and>
    virtio_queue_update_used_elem (td_vqs (vs_dev s) ! q) (ucast (word_of_int head :: u16)) len
      (td_shm (vs_dev s)) = Inr (td_shm (vs_dev s'))"
proof -
  let ?vq = "td_vqs (vs_dev s) ! q"
  obtain m where m: "virtio_queue_update_used_elem ?vq (ucast (word_of_int head :: u16)) len
      (td_shm (vs_dev s)) = Inr m"
    using update_used_elem_publishes [OF assms(2)] by blast
  obtain b vq' where n: "virtio_queue_must_notify ?vq m = Inr (b, vq')"
    "vq_vring vq' = vq_vring ?vq" "vq_last_avail_idx vq' = vq_last_avail_idx ?vq"
    using must_notify_ring [OF assms(3)] by blast
  show ?thesis using assms(1) m n by (simp add: trans_return_def Let_def)
qed

lemma take_chain:
  assumes "q < length (td_vqs (vs_dev s))" "length (td_iov (vs_dev s)) < 65536"
    and "vr_avail (vq_vring (td_vqs (vs_dev s) ! q)) \<noteq> 0"
    and "vr_num (vq_vring (td_vqs (vs_dev s) ! q)) \<noteq> 0"
    and "av_idx (sm_avail (td_shm (vs_dev s)) (vr_avail (vq_vring (td_vqs (vs_dev s) ! q)))) \<noteq>
      vq_last_avail_idx (td_vqs (vs_dev s) ! q)"
    and "next_chain (length (td_iov (vs_dev s))) (vq_vring (td_vqs (vs_dev s) ! q))
      (vq_last_avail_idx (td_vqs (vs_dev s) ! q)) (td_shm (vs_dev s)) = Some ds"
  defines "vq \<equiv> td_vqs (vs_dev s) ! q" and "m \<equiv> td_shm (vs_dev s)"
  shows "trans_take q s = Inr (Chain (int (unat (avail_head vq m)))
      (of_nat (length (filter (\<lambda>d. \<not> writable d) ds))) (of_nat (length (filter writable ds))),
    upd_dev (\<lambda>d. d\<lparr>td_vqs := (td_vqs d)[q := vq\<lparr>vq_last_avail_idx := vq_last_avail_idx vq + 1\<rparr>],
      td_iov := map desc_iov ds @ drop (length ds) (td_iov d),
      td_shm := (if vq_use_event_idx vq
                 then set_avail_event (vq_vring vq) (vq_last_avail_idx vq + 1) m else m)\<rparr>) s)"
proof -
  obtain b i where bi: "chain_start (vq_vring vq) (avail_head vq m) m = (b, i)" by force
  have ds: "desc_chain (length (td_iov (vs_dev s))) m b i = Some ds"
    using assms(6) bi by (simp add: next_chain_def avail_head_def vq_def m_def Let_def)
  have "avail_pending vq m" using assms(3-5) by (simp add: avail_pending_def vq_def m_def)
  from get_iov_chain [OF this bi ds _ assms(2)] desc_chain_length [OF ds] assms(1)
  show ?thesis by (simp add: trans_take_def Let_def flip: vq_def m_def)
qed

lemma set_avail_event_other:
  "sm_desc (set_avail_event vr e m) = sm_desc m" "sm_avail (set_avail_event vr e m) = sm_avail m"
  "us_idx (sm_used (set_avail_event vr e m) a) = us_idx (sm_used m a)"
  by (simp_all add: set_avail_event_def Let_def)

text \<open>Filling the first buffer of a chain does not read past the buffer of the application.\<close>

lemma copies_one:
  assumes "fillable copy ds" "ds \<noteq> []"
  shows "\<exists>m'. (if copy then copy_out_bufs (map desc_iov ds @ vs) 1 app m else Inr m) = Inr m'"
proof (cases ds)
  case (Cons d ds')
  have "(ucast (iov_len (desc_iov d)) :: u32) = d_len d"
    by (simp add: desc_iov_def) (metis of_nat_unat ucast_id unat_ucast_32_64)
  moreover have "vt_copied a app (d_len d) \<le> unat (d_len d)" for a by (simp add: vt_copied_def)
  then have "copy \<longrightarrow> \<not> MAX_VT_BUF_SIZE < vt_copied (iov_addr (desc_iov d)) app (d_len d)"
    using assms(1) Cons by (auto simp: fillable_def not_less intro: le_trans)
  ultimately show ?thesis
    using Cons by (auto simp: Let_def One_nat_def)
qed (use assms(2) in simp)

lemma tx_round:
  assumes "q < length (td_vqs (vs_dev s))" "0 < length (td_iov (vs_dev s))"
    and "length (td_iov (vs_dev s)) < 65536"
    and "tx_supply (td_do_buf_copy (vs_dev s)) (length (td_iov (vs_dev s))) (vq_vring (td_vqs (vs_dev s) ! q))
      (vq_last_avail_idx (td_vqs (vs_dev s) ! q)) (td_shm (vs_dev s)) (Suc n)"
  shows "\<exists>h co s1 s2. trans_take q s = Inr (Chain h co 1, s1) \<and>
    tx_finish q h 1 r s1 = Inr (r - 1, s2) \<and> served q 1 s s2"
proof -
  let ?vq = "td_vqs (vs_dev s) ! q" and ?m = "td_shm (vs_dev s)"
  obtain ds where ds: "next_chain (length (td_iov (vs_dev s))) (vq_vring ?vq)
      (vq_last_avail_idx ?vq) ?m = Some ds" "fillable (td_do_buf_copy (vs_dev s)) ds"
    using tx_supply_Suc(1) [OF assms(4) refl refl] by blast
  have one: "length (filter writable ds) = 1" using ds(2) by (simp add: fillable_def)
  have ring: "vr_avail (vq_vring ?vq) \<noteq> 0" "vr_num (vq_vring ?vq) \<noteq> 0" "vr_used (vq_vring ?vq) \<noteq> 0"
    using assms(4) by (simp_all add: tx_supply_def)
  let ?vq1 = "?vq\<lparr>vq_last_avail_idx := vq_last_avail_idx ?vq + 1\<rparr>"
  let ?m1 = "if vq_use_event_idx ?vq then set_avail_event (vq_vring ?vq) (vq_last_avail_idx ?vq + 1) ?m
    else ?m"
  let ?s1 = "upd_dev (\<lambda>d. d\<lparr>td_vqs := (td_vqs d)[q := ?vq1],
      td_iov := map desc_iov ds @ drop (length ds) (td_iov d), td_shm := ?m1\<rparr>) s"
  have len: "length ds \<le> length (td_iov (vs_dev s))" "0 < length ds"
    using ds(1) desc_chain_length by (auto simp: next_chain_def Let_def split: prod.splits)
  note take = take_chain [OF assms(1,3) ring(1,2) tx_supply_Suc(2) [OF assms(4) refl refl] ds(1)]
  let ?h = "int (unat (avail_head ?vq ?m))"
  have c: "ds \<noteq> []" "td_do_buf_copy (vs_dev ?s1) = td_do_buf_copy (vs_dev s)"
      "td_iov (vs_dev ?s1) = map desc_iov ds @ drop (length ds) (td_iov (vs_dev s))"
    using len(2) by simp_all
  have "\<exists>mem. (if td_do_buf_copy (vs_dev ?s1) then copy_out_bufs (td_iov (vs_dev ?s1)) 1 (td_app_buf (vs_dev ?s1))
      (td_mem (vs_dev ?s1)) else Inr (td_mem (vs_dev ?s1))) = Inr mem"
    unfolding c(2,3) by (rule copies_one [OF ds(2) c(1)])
  then obtain mem where mem: "(if td_do_buf_copy (vs_dev ?s1) then copy_out_bufs (td_iov (vs_dev ?s1)) 1
      (td_app_buf (vs_dev ?s1)) (td_mem (vs_dev ?s1)) else Inr (td_mem (vs_dev ?s1))) = Inr mem"
    by blast
  let ?s1' = "upd_dev (\<lambda>d. d\<lparr>td_mem := mem\<rparr>) ?s1"
  let ?len = "ucast (iov_len (td_iov (vs_dev ?s1) ! 0) * 1) :: u32"
  have q1: "td_vqs (vs_dev ?s1') ! q = ?vq1" using assms(1) by simp
  obtain s2 where s2: "trans_return q ?h ?len ?s1' = Inr s2"
    "length (td_vqs (vs_dev s2)) = length (td_vqs (vs_dev s))"
    "td_iov (vs_dev s2) = td_iov (vs_dev ?s1)" "td_do_buf_copy (vs_dev s2) = td_do_buf_copy (vs_dev s)"
    "td_config (vs_dev s2) = td_config (vs_dev s)"
    "vq_vring (td_vqs (vs_dev s2) ! q) = vq_vring ?vq"
    "vq_last_avail_idx (td_vqs (vs_dev s2) ! q) = vq_last_avail_idx ?vq + 1"
    "virtio_queue_update_used_elem ?vq1 (ucast (word_of_int ?h :: u16)) ?len ?m1
      = Inr (td_shm (vs_dev s2))"
    using trans_return_served [of q ?s1' ?h ?len] assms(1) ring unfolding q1
    by (auto simp: queue_ready_def)
  have ready: "queue_ready ?vq1" using ring by (simp add: queue_ready_def)
  have "served q 1 s s2"
    using s2 len update_used_elem_publishes [OF ready, of "ucast (word_of_int ?h :: u16)" ?len ?m1]
    by (auto simp: served_def Let_def put_used_def used_ring_def set_avail_event_other)
  moreover have "tx_finish q ?h 1 r ?s1 = Inr (r - 1, s2)"
    unfolding tx_finish_def Let_def unsigned_1 mem using s2(1) assms(2) len by (simp add: Let_def)
  ultimately show ?thesis using take one by auto
qed

lemma tx_loop_serves:
  assumes "q < length (td_vqs (vs_dev s))" "0 < length (td_iov (vs_dev s))"
    and "length (td_iov (vs_dev s)) < 65536"
    and "tx_supply (td_do_buf_copy (vs_dev s)) (length (td_iov (vs_dev s))) (vq_vring (td_vqs (vs_dev s) ! q))
      (vq_last_avail_idx (td_vqs (vs_dev s) ! q)) (td_shm (vs_dev s)) n"
    and "n < fuel" and "n < 65536"
  shows "\<exists>s'. tx_loop fuel q (of_nat n) s = Inr (Loop_Done, 0, s') \<and> served q n s s'"
  using assms
proof (induction n arbitrary: s fuel)
  case 0
  then show ?case by (cases fuel) auto
next
  case (Suc n)
  obtain f where f: "fuel = Suc f" using Suc.prems(5) by (cases fuel) auto
  have nz: "(of_nat (Suc n) :: u32) \<noteq> 0"
  proof
    assume "(of_nat (Suc n) :: u32) = 0"
    then have "unat (of_nat (Suc n) :: u32) = 0" by (simp only: unsigned_0)
    then show False using Suc.prems(6) unat_of_nat_below [of "Suc n"] by linarith
  qed
  obtain h co s1 s2 where round: "trans_take q s = Inr (Chain h co 1, s1)"
    "tx_finish q h 1 (of_nat (Suc n)) s1 = Inr (of_nat (Suc n) - 1, s2)" "served q 1 s s2"
    using tx_round [OF Suc.prems(1-4)] by blast
  from round(3) have sv: "length (td_vqs (vs_dev s2)) = length (td_vqs (vs_dev s))"
    "length (td_iov (vs_dev s2)) = length (td_iov (vs_dev s))"
    "td_do_buf_copy (vs_dev s2) = td_do_buf_copy (vs_dev s)"
    "vq_vring (td_vqs (vs_dev s2) ! q) = vq_vring (td_vqs (vs_dev s) ! q)"
    "vq_last_avail_idx (td_vqs (vs_dev s2) ! q) = vq_last_avail_idx (td_vqs (vs_dev s) ! q) + 1"
    "sm_desc (td_shm (vs_dev s2)) = sm_desc (td_shm (vs_dev s))"
    "sm_avail (td_shm (vs_dev s2)) = sm_avail (td_shm (vs_dev s))"
    by (simp_all add: served_def Let_def)
  obtain s' where s': "tx_loop f q (of_nat n) s2 = Inr (Loop_Done, 0, s')" "served q n s2 s'"
    using Suc.IH [of s2 f] Suc.prems tx_supply_Suc(3) [OF Suc.prems(4) sv(6,7)]
    by (auto simp: sv f)
  have "tx_loop fuel q (of_nat (Suc n)) s = Inr (Loop_Done, 0, s')"
    using nz round(1,2) s'(1) unfolding f tx_loop.simps(2) by (simp add: of_nat_Suc)
  then show ?case using served_Suc [OF round(3) s'(2)] by blast
qed

text \<open>
  C34: A started transmit test completes, with or without copying of the buffers: when the
  driver has started it, has asked for \<open>n\<close> packets, fewer than 2^16, and has queued
  at least \<open>n\<close> chains, each of at most 100 descriptors (the size of the scatter
  list, \<open>MAX_INDIRECT_NUM\<close>; a longer chain overruns it), with exactly one buffer
  for the device to fill, and, when buffers are copied, a first buffer of at most the 2048 bytes
  of the application's one (\<open>tx_supply\<close>), then the transmit task, without having to
  wait, takes exactly \<open>n\<close> chains, returns exactly \<open>n\<close> used elements
  and reports the number of packets in the configuration.
\<close>

theorem tx_task_completes:
  assumes "td_send_packet_sig (vs_dev s) \<noteq> 0"
    and "length (td_vqs (vs_dev s)) = VIRTIO_TRANS_NUM_QUEUES"
    and "length (td_iov (vs_dev s)) = MAX_INDIRECT_NUM"
    and "vc_regression (td_config (vs_dev s)) = of_nat n" and "n < 65536"
    and "tx_supply (td_do_buf_copy (vs_dev s)) MAX_INDIRECT_NUM (vq_vring (td_vqs (vs_dev s) ! 1))
      (vq_last_avail_idx (td_vqs (vs_dev s) ! 1)) (td_shm (vs_dev s)) n"
  shows "\<exists>s'. tx_task (Suc n) s = Inr (Loop_Done, s') \<and>
    vc_rx_count (td_config (vs_dev s')) = of_nat n \<and>
    vq_last_avail_idx (td_vqs (vs_dev s') ! 1) = vq_last_avail_idx (td_vqs (vs_dev s) ! 1) + of_nat n \<and>
    us_idx (used_ring (td_vqs (vs_dev s') ! 1) (td_shm (vs_dev s'))) =
      us_idx (used_ring (td_vqs (vs_dev s) ! 1) (td_shm (vs_dev s))) + of_nat n"
proof -
  let ?s = "upd_dev (\<lambda>d. d\<lparr>td_send_packet_sig := td_send_packet_sig d - 1\<rparr>) s"
  obtain s2 where s2: "tx_loop (Suc n) 1 (of_nat n) ?s = Inr (Loop_Done, 0, s2)" "served 1 n ?s s2"
    using tx_loop_serves [of 1 ?s n "Suc n"] assms
    by (auto simp: VIRTIO_TRANS_NUM_QUEUES_def MAX_INDIRECT_NUM_def)
  then show ?thesis using assms(1,4)
    by (auto simp: tx_task_def VIRTIO_TRANS_TX_QUEUE_def served_def Let_def simp del: tx_loop.simps)
qed

lemma trans_take_iov:
  assumes "trans_take q s = Inr (Chain h co ci, s')" and "length (td_iov (vs_dev s)) < 65536"
    and "next_chain (length (td_iov (vs_dev s))) (vq_vring (td_vqs (vs_dev s) ! q))
      (vq_last_avail_idx (td_vqs (vs_dev s) ! q)) (td_shm (vs_dev s)) = Some ds"
  shows "td_iov (vs_dev s') = map desc_iov ds @ drop (length ds) (td_iov (vs_dev s))"
proof -
  let ?vq = "td_vqs (vs_dev s) ! q"
  have q: "q < length (td_vqs (vs_dev s))"
    using assms(1) by (auto simp: trans_take_def Let_def outcome_simps)
  have "vr_avail (vq_vring ?vq) \<noteq> 0" "vr_num (vq_vring ?vq) \<noteq> 0"
    "av_idx (sm_avail (td_shm (vs_dev s)) (vr_avail (vq_vring ?vq))) \<noteq> vq_last_avail_idx ?vq"
    using assms(1)
    by (auto simp: trans_take_def virtio_queue_get_iov_def Let_def outcome_simps split: if_splits)
  from take_chain [OF q assms(2) this assms(3)] assms(1) show ?thesis by auto
qed

lemma trans_return_used:
  assumes "trans_return q head len s = Inr s'" and "queue_ready (td_vqs (vs_dev s) ! q)"
  shows "q < length (td_vqs (vs_dev s)) \<and>
    virtio_queue_update_used_elem (td_vqs (vs_dev s) ! q) (ucast (word_of_int head :: u16)) len
      (td_shm (vs_dev s)) = Inr (td_shm (vs_dev s'))"
  using assms by (auto simp: trans_return_def Let_def outcome_simps split: if_splits)

text \<open>The two tasks share the array \<open>iov\<close>, and the receive task may take a chain between the
  transmit task's taking of a chain and its return. The length the driver then reads for the
  transmit task's buffer is computed from the first descriptor of the receive task's chain.\<close>

theorem shared_iov_race:
  assumes "trans_take 1 s = Inr (Chain h co ci, s1)"
    and "trans_take 0 s1 = Inr (Chain h' co' ci', s2)"
    and "length (td_iov (vs_dev s1)) < 65536"
    and "next_chain (length (td_iov (vs_dev s1))) (vq_vring (td_vqs (vs_dev s1) ! 0))
      (vq_last_avail_idx (td_vqs (vs_dev s1) ! 0)) (td_shm (vs_dev s1)) = Some (d # ds)"
    and "tx_finish 1 h ci r s2 = Inr (r', s3)" and "\<not> td_do_buf_copy (vs_dev s2)"
    and "vq = td_vqs (vs_dev s2) ! 1" and "queue_ready vq"
  shows "us_ring (used_ring vq (td_shm (vs_dev s3)))
      (used_slot vq (us_idx (used_ring vq (td_shm (vs_dev s2))))) =
    \<lparr>ue_id = ucast (word_of_int h :: u16), ue_len = ucast (ucast (d_len d) * ucast ci :: u64)\<rparr>"
proof -
  have iov: "td_iov (vs_dev s2) ! 0 = desc_iov d"
    using trans_take_iov [OF assms(2-4)] by simp
  obtain s' where s': "trans_return 1 h (ucast (iov_len (td_iov (vs_dev s2) ! 0) * ucast ci)) s' = Inr s3"
    "s' = upd_dev (\<lambda>d. d\<lparr>td_mem := td_mem (vs_dev s2)\<rparr>) s2"
    using assms(5,6) by (auto simp: tx_finish_def Let_def outcome_simps)
  have "virtio_queue_update_used_elem vq (ucast (word_of_int h :: u16))
      (ucast (iov_len (desc_iov d) * ucast ci)) (td_shm (vs_dev s2)) = Inr (td_shm (vs_dev s3))"
    using trans_return_used [OF s'(1)] assms(7,8) by (simp add: s'(2) iov)
  then show ?thesis
    using update_used_elem_publishes [OF assms(8), of "ucast (word_of_int h :: u16)"
        "ucast (iov_len (desc_iov d) * ucast ci)" "td_shm (vs_dev s2)"]
    by (auto simp: desc_iov_def)
qed

section \<open>Concrete instances\<close>

definition ex_tshm :: shm where
  "ex_tshm = \<lparr>sm_desc = (\<lambda>a. if a < 0x5000 then \<lparr>d_addr = 0x9000, d_len = 12, d_flags = 0, d_next = 0\<rparr>
         else \<lparr>d_addr = 0xA000, d_len = 64, d_flags = 2, d_next = 0\<rparr>),
     sm_avail = (\<lambda>a. \<lparr>av_flags = 0, av_idx = 1, av_ring = (\<lambda>i. 2)\<rparr>),
     sm_used = (\<lambda>a. \<lparr>us_flags = 0, us_idx = 0, us_ring = (\<lambda>i. \<lparr>ue_id = 0, ue_len = 0\<rparr>)\<rparr>)\<rparr>"

definition ex_txq :: "u16 \<Rightarrow> virtqueue" where
  "ex_txq la = \<lparr>vq_vring = \<lparr>vr_num = 4, vr_desc = 0x5000, vr_avail = 0x5040, vr_used = 0x6000\<rparr>,
     vq_pfn = 1, vq_last_avail_idx = la, vq_last_notified_idx = 0, vq_use_event_idx = False,
     vq_enabled = True\<rparr>"

definition ex_rxq :: "u16 \<Rightarrow> virtqueue" where
  "ex_rxq la = \<lparr>vq_vring = \<lparr>vr_num = 4, vr_desc = 0x1000, vr_avail = 0x1040, vr_used = 0x2000\<rparr>,
     vq_pfn = 1, vq_last_avail_idx = la, vq_last_notified_idx = 0, vq_use_event_idx = False,
     vq_enabled = True\<rparr>"

definition ex_trans :: "nat \<Rightarrow> trans_dev" where
  "ex_trans cap = \<lparr>td_tasks = [0, 0],
     td_vqs = [ex_rxq 0, ex_txq 0],
     td_config = \<lparr>vc_status = 0, vc_config = 3, vc_control = 1, vc_pkt_size = 64, vc_tx_count = 0,
       vc_rx_count = 0, vc_regression = 1\<rparr>, td_features = VIRTIO_TRANS_FEATURES,
     td_rx_running = True, td_tx_running = True, td_front_poll_mode = True,
     td_back_poll_mode = False, td_do_buf_copy = False, td_send_packet_sig = 1,
     td_recv_packet_sig = 1, td_iov = replicate cap \<lparr>iov_addr = 0, iov_len = 0\<rparr>,
     td_app_buf = 0x100,
     td_shm = ex_tshm, td_mem = (\<lambda>_. 0)\<rparr>"

lemma ex_trans_chains [simp]:
  "0 < n \<Longrightarrow> next_chain n (vq_vring (ex_txq la)) la' ex_tshm =
    Some [\<lparr>d_addr = 0xA000, d_len = 64, d_flags = 2, d_next = 0\<rparr>]"
  "0 < n \<Longrightarrow> next_chain n (vq_vring (ex_rxq la)) la' ex_tshm =
    Some [\<lparr>d_addr = 0x9000, d_len = 12, d_flags = 0, d_next = 0\<rparr>]"
  by (cases n; simp add: ex_txq_def ex_rxq_def ex_tshm_def desc_at_def chain_start_def next_chain_def
    ring_flag_defs writable_def)+

lemma ex_queue_fields [simp]:
  "vr_avail (vq_vring (ex_txq la)) \<noteq> 0" "vr_num (vq_vring (ex_txq la)) \<noteq> 0"
  "vr_used (vq_vring (ex_txq la)) \<noteq> 0" "\<not> vq_use_event_idx (ex_txq la)"
  "vq_last_avail_idx (ex_txq la) = la" "vq_pfn (ex_txq la) = 1"
  "(ex_txq la)\<lparr>vq_last_avail_idx := la'\<rparr> = ex_txq la'"
  "vr_avail (vq_vring (ex_rxq la)) \<noteq> 0" "vr_num (vq_vring (ex_rxq la)) \<noteq> 0"
  "vr_used (vq_vring (ex_rxq la)) \<noteq> 0" "\<not> vq_use_event_idx (ex_rxq la)"
  "vq_last_avail_idx (ex_rxq la) = la" "vq_pfn (ex_rxq la) = 1"
  "(ex_rxq la)\<lparr>vq_last_avail_idx := la'\<rparr> = ex_rxq la'"
  by (simp_all add: ex_txq_def ex_rxq_def)

lemma ex_trans_rings [simp]:
  "avail_head (ex_txq la) ex_tshm = 2" "avail_head (ex_rxq la) ex_tshm = 2"
  "av_idx (sm_avail ex_tshm a) = 1" "us_idx (sm_used ex_tshm a) = 0"
  by (simp_all add: ex_tshm_def avail_head_def)

lemma ex_trans_writable [simp]:
  "writable \<lparr>d_addr = 0xA000, d_len = 64, d_flags = 2, d_next = 0\<rparr>"
  "\<not> writable \<lparr>d_addr = 0x9000, d_len = 12, d_flags = 0, d_next = 0\<rparr>"
  by (simp_all add: writable_def ring_flag_defs)

theorem vt_memcpy_copies_witness:
  "vt_memcpy 0x100 0x200 7 (\<lambda>_. 5) 0x106 = 5 \<and> vt_copied 0x100 0x200 7 = 4"
proof -
  have "\<forall>i < unat (7 :: u32). \<forall>j < unat (7 :: u32). 0x100 + of_nat i \<noteq> 0x200 + (of_nat j :: u64)"
  proof (intro allI impI notI)
    fix i j assume "i < unat (7 :: u32)" "j < unat (7 :: u32)"
      and "0x100 + of_nat i = 0x200 + (of_nat j :: u64)"
    then have "unat (0x100 + of_nat i :: u64) = unat (0x200 + of_nat j :: u64)"
      and "i < 7" "j < 7" by simp_all
    then show False by (simp add: unat_word_ariths unat_of_nat)
  qed
  from vt_memcpy_copies [OF this, where m = "\<lambda>_. 5" and x = "0x106"] show ?thesis
    by (simp add: vt_copied_def co_aligned_def)
qed

theorem trans_reset_forgets_queues_witness:
  "\<exists>s'. virtio_mmio_config_out trans_dev_virtio_ops 0x070 4 (ex_sys (ex_trans 2)) = Inr s' \<and>
     td_vqs (vs_dev s') = [zero_vq, zero_vq]"
  using trans_reset_forgets_queues [of "ex_sys (ex_trans 2)" 4]
  by (simp add: ex_sys_defs ex_trans_def VIRTIO_TRANS_NUM_QUEUES_def mmio_consts)

theorem trans_queue_select_witness:
  "virtio_mmio_config_out trans_dev_virtio_ops 0x030 4
     (upd_hdr (\<lambda>h. h\<lparr>h_queue_sel := 9\<rparr>) (ex_sys (ex_trans 2))) =
   Inr (upd_hdr (\<lambda>h. h\<lparr>h_queue_sel := 0, h_queue_pfn := 1, h_queue_num_max := 1024\<rparr>)
     (ex_sys (ex_trans 2)))"
  using trans_queue_select [of "upd_hdr (\<lambda>h. h\<lparr>h_queue_sel := 9\<rparr>) (ex_sys (ex_trans 2))" 4]
  by (simp add: ex_sys_defs ex_trans_def VIRTIO_TRANS_NUM_QUEUES_def)

theorem trans_release_unchecked_selector_witness:
  "virtio_mmio_config_out trans_dev_virtio_ops 0x040 4
     (upd_hdr (\<lambda>h. h\<lparr>h_queue_sel := 2, h_queue_pfn := 0\<rparr>) (ex_sys (ex_trans 2))) = Inl Out_Of_Bounds"
  using trans_release_unchecked_selector
    [of "upd_hdr (\<lambda>h. h\<lparr>h_queue_sel := 2, h_queue_pfn := 0\<rparr>) (ex_sys (ex_trans 2))" 4]
  by (simp add: ex_sys_defs ex_trans_def VIRTIO_TRANS_NUM_QUEUES_def)

theorem tx_task_completes_witness:
  "\<exists>s'. tx_task 2 (ex_sys (ex_trans 100)) = Inr (Loop_Done, s') \<and>
     vc_rx_count (td_config (vs_dev s')) = 1"
proof -
  have "tx_supply (td_do_buf_copy (vs_dev (ex_sys (ex_trans 100)))) MAX_INDIRECT_NUM (vq_vring (ex_txq 0)) 0 ex_tshm 1"
    by (simp add: tx_supply_def fillable_def MAX_INDIRECT_NUM_def MAX_VT_BUF_SIZE_def)
  then show ?thesis
    using tx_task_completes [of "ex_sys (ex_trans 100)" 1]
    by (simp add: ex_sys_defs ex_trans_def VIRTIO_TRANS_NUM_QUEUES_def MAX_INDIRECT_NUM_def
        numeral_2_eq_2 [symmetric] del: tx_loop.simps) blast
qed

theorem shared_iov_race_witness:
  "\<exists>s1 s2 s3. trans_take 1 (ex_sys (ex_trans 2)) = Inr (Chain 2 0 1, s1) \<and>
     trans_take 0 s1 = Inr (Chain 2 1 0, s2) \<and> tx_finish 1 2 1 1 s2 = Inr (0, s3) \<and>
     us_ring (used_ring (ex_txq 1) (td_shm (vs_dev s3))) 0 = \<lparr>ue_id = 2, ue_len = 12\<rparr>"
proof -
  let ?s = "ex_sys (ex_trans 2)"
  let ?s1 = "upd_dev (\<lambda>d. d\<lparr>td_vqs := [ex_rxq 0, ex_txq 1],
    td_iov := [\<lparr>iov_addr = 0xA000, iov_len = 64\<rparr>, \<lparr>iov_addr = 0, iov_len = 0\<rparr>]\<rparr>) ?s"
  let ?s2 = "upd_dev (\<lambda>d. d\<lparr>td_vqs := [ex_rxq 1, ex_txq 1],
    td_iov := [\<lparr>iov_addr = 0x9000, iov_len = 12\<rparr>, \<lparr>iov_addr = 0, iov_len = 0\<rparr>]\<rparr>) ?s"
  have rep: "replicate 2 x = [x, x]" for x :: iovec by (simp add: numeral_2_eq_2)
  have t1: "trans_take 1 ?s = Inr (Chain 2 0 1, ?s1)"
    using take_chain [of 1 ?s "[\<lparr>d_addr = 0xA000, d_len = 64, d_flags = 2, d_next = 0\<rparr>]"]
    by (simp add: ex_sys_def ex_trans_def desc_iov_def rep)
  moreover have t2: "trans_take 0 ?s1 = Inr (Chain 2 1 0, ?s2)"
    using take_chain [of 0 ?s1 "[\<lparr>d_addr = 0x9000, d_len = 12, d_flags = 0, d_next = 0\<rparr>]"]
    by (simp add: ex_sys_def ex_trans_def desc_iov_def)
  moreover obtain s3 where t3: "tx_finish 1 2 1 1 ?s2 = Inr (0, s3)"
    by (simp add: tx_finish_def trans_return_def ex_sys_def ex_trans_def ex_txq_def Let_def
        virtio_queue_update_used_elem_def virtio_queue_add_used_elem_def
        virtio_queue_update_used_idx_def)
  moreover have "us_ring (used_ring (ex_txq 1) (td_shm (vs_dev s3))) 0 =
      \<lparr>ue_id = 2, ue_len = 12\<rparr>"
  proof -
    have "queue_ready (ex_txq 1)" by (simp add: ex_txq_def queue_ready_def)
    then show ?thesis
      using shared_iov_race [OF t1 t2 _ _ t3 _ refl]
      by (simp add: ex_sys_def ex_trans_def) (simp add: used_ring_def used_slot_def)
  qed
  ultimately show ?thesis by blast
qed

end
