(* ===== verification/Data_Pkt.thy ===== *)
theory Data_Pkt
  imports Prelude
begin

text \<open>
  Network packets, \<open>net/data_pkt.c\<close>. A packet's descriptor lies in the head room of its own
  buffer, so one allocation holds both; the model keeps the fields as a record beside the
  buffer's bytes and the pointers as offsets into the buffer. The heap maps allocation numbers
  to packets; whether the \<open>n\<close>th \<open>os_malloc\<close> succeeds is the parameter \<open>ph_alloc\<close>.
\<close>

section \<open>Data\<close>

definition DATA_PKT_HEAD_ROOM :: nat where "DATA_PKT_HEAD_ROOM = 128"
definition DATA_PKT_TAIL_ROOM :: nat where "DATA_PKT_TAIL_ROOM = 0"

text \<open>Bit numbers of the flags.\<close>

definition DATA_PKT_FLAG_CAN_FREE :: nat where "DATA_PKT_FLAG_CAN_FREE = 0"
definition DATA_PKT_FLAG_STATIC_BUFF :: nat where "DATA_PKT_FLAG_STATIC_BUFF = 1"

lemmas pkt_consts = DATA_PKT_HEAD_ROOM_def DATA_PKT_TAIL_ROOM_def DATA_PKT_FLAG_CAN_FREE_def
  DATA_PKT_FLAG_STATIC_BUFF_def

record data_pkt =
  dp_buf :: "u8 list"
  dp_data :: nat
  dp_data_len :: u32
  dp_tail :: nat
  dp_end :: nat
  dp_flags :: u32
  dp_used :: bool

record pkt_heap =
  ph_pkts :: "nat \<Rightarrow> data_pkt option"
  ph_next :: nat
  ph_alloc :: "nat \<Rightarrow> bool"

definition pkt_at :: "pkt_heap \<Rightarrow> nat \<Rightarrow> data_pkt outcome" where
  "pkt_at h p = (case ph_pkts h p of None \<Rightarrow> Inl Use_After_Free | Some d \<Rightarrow> Inr d)"

text \<open>Copies from and to \<open>pkt->data\<close>.\<close>

definition pkt_read :: "data_pkt \<Rightarrow> nat \<Rightarrow> u8 list outcome" where
  "pkt_read d n = (if dp_data d + n \<le> length (dp_buf d)
                   then Inr (take n (drop (dp_data d) (dp_buf d))) else Inl Out_Of_Bounds)"

definition pkt_write :: "data_pkt \<Rightarrow> u8 list \<Rightarrow> data_pkt outcome" where
  "pkt_write d bs = (if dp_data d + length bs \<le> length (dp_buf d)
     then Inr (d\<lparr>dp_buf := take (dp_data d) (dp_buf d) @ bs @
                           drop (dp_data d + length bs) (dp_buf d)\<rparr>)
     else Inl Out_Of_Bounds)"

section \<open>Operations\<close>

text \<open>\<open>data_pkt_build\<close> leaves the \<open>used\<close> flag of the memory it is given.\<close>

definition data_pkt_build :: "u8 list \<Rightarrow> u32 \<Rightarrow> u32 \<Rightarrow> bool \<Rightarrow> data_pkt outcome" where
  "data_pkt_build buf buf_len flags used =
     os_assert (DATA_PKT_HEAD_ROOM + DATA_PKT_TAIL_ROOM < unat buf_len)
       (Inr \<lparr>dp_buf = buf, dp_data = DATA_PKT_HEAD_ROOM, dp_data_len = 0,
             dp_tail = unat buf_len - DATA_PKT_TAIL_ROOM, dp_end = unat buf_len,
             dp_flags = flags, dp_used = used\<rparr>)"

definition data_pkt_alloc :: "u32 \<Rightarrow> u32 \<Rightarrow> pkt_heap \<Rightarrow> (nat option \<times> pkt_heap) outcome" where
  "data_pkt_alloc data_room_size flags h =
     (let sz = data_room_size + of_nat DATA_PKT_HEAD_ROOM + of_nat DATA_PKT_TAIL_ROOM;
          n = ph_next h; h' = h\<lparr>ph_next := Suc n\<rparr>
      in if \<not> ph_alloc h n then Inr (None, h')
         else and_then (data_pkt_build (replicate (unat sz) 0) sz flags False) (\<lambda>d.
           Inr (Some n, h'\<lparr>ph_pkts := (ph_pkts h')(n \<mapsto> d)\<rparr>)))"

definition data_pkt_set_len :: "nat \<Rightarrow> u32 \<Rightarrow> pkt_heap \<Rightarrow> pkt_heap outcome" where
  "data_pkt_set_len p data_len h =
     and_then (pkt_at h p) (\<lambda>d.
       Inr (h\<lparr>ph_pkts := (ph_pkts h)(p \<mapsto> d\<lparr>dp_data_len := data_len\<rparr>)\<rparr>))"

definition data_pkt_fill :: "nat \<Rightarrow> u8 list \<Rightarrow> pkt_heap \<Rightarrow> pkt_heap outcome" where
  "data_pkt_fill p bs h =
     and_then (pkt_at h p) (\<lambda>d. and_then (pkt_write d bs) (\<lambda>d'.
       Inr (h\<lparr>ph_pkts := (ph_pkts h)(p \<mapsto> d')\<rparr>)))"

definition data_pkt_clone :: "nat \<Rightarrow> pkt_heap \<Rightarrow> (nat option \<times> pkt_heap) outcome" where
  "data_pkt_clone p h =
     and_then (pkt_at h p) (\<lambda>d.
     and_then (data_pkt_alloc (of_nat (dp_tail d - dp_data d)) (dp_flags d) h) (\<lambda>(r, h1).
       case r of
         None \<Rightarrow> Inr (None, h1)
       | Some n \<Rightarrow>
           and_then (pkt_read d (unat (dp_data_len d))) (\<lambda>bs.
           and_then (data_pkt_fill n bs h1) (\<lambda>h2.
           and_then (data_pkt_set_len n (dp_data_len d) h2) (\<lambda>h3. Inr (Some n, h3))))))"

definition data_pkt_free :: "nat \<Rightarrow> pkt_heap \<Rightarrow> pkt_heap outcome" where
  "data_pkt_free p h =
     and_then (pkt_at h p) (\<lambda>d.
       if bit (dp_flags d) DATA_PKT_FLAG_STATIC_BUFF
       then Inr (h\<lparr>ph_pkts := (ph_pkts h)(p \<mapsto> d\<lparr>dp_used := False\<rparr>)\<rparr>)
       else Inr (h\<lparr>ph_pkts := (ph_pkts h)(p := None)\<rparr>))"

section \<open>What the operations do\<close>

definition payload :: "data_pkt \<Rightarrow> u8 list" where
  "payload d = take (unat (dp_data_len d)) (drop (dp_data d) (dp_buf d))"

definition pkt_wf :: "data_pkt \<Rightarrow> bool" where
  "pkt_wf d \<longleftrightarrow> dp_data d \<le> DATA_PKT_HEAD_ROOM \<and> dp_data d < dp_tail d \<and>
     dp_tail d = dp_end d \<and> dp_end d = length (dp_buf d) \<and> dp_tail d - dp_data d + 128 < 2 ^ 32 \<and>
     dp_data d + unat (dp_data_len d) \<le> dp_tail d"

text \<open>A heap whose unused numbers are those from the counter on.\<close>

definition heap_ok :: "pkt_heap \<Rightarrow> bool" where
  "heap_ok h \<longleftrightarrow> (\<forall>p d. ph_pkts h p = Some d \<longrightarrow> p < ph_next h \<and> pkt_wf d)"

definition fresh_pkt :: "u32 \<Rightarrow> u32 \<Rightarrow> data_pkt" where
  "fresh_pkt room flags = \<lparr>dp_buf = replicate (128 + unat room) 0, dp_data = 128,
     dp_data_len = 0, dp_tail = 128 + unat room, dp_end = 128 + unat room, dp_flags = flags,
     dp_used = False\<rparr>"

lemma pkt_at_Some [simp]: "ph_pkts h p = Some d \<Longrightarrow> pkt_at h p = Inr d"
  by (simp add: pkt_at_def)

lemma pkt_at_None [simp]: "ph_pkts h p = None \<Longrightarrow> pkt_at h p = Inl Use_After_Free"
  by (simp add: pkt_at_def)

lemma pkt_at_Inr [outcome_simps]: "pkt_at h p = Inr d \<longleftrightarrow> ph_pkts h p = Some d"
  by (simp add: pkt_at_def split: option.split)

lemma alloc_fails [simp]:
  "\<not> ph_alloc h (ph_next h) \<Longrightarrow>
    data_pkt_alloc room flags h = Inr (None, h\<lparr>ph_next := Suc (ph_next h)\<rparr>)"
  by (simp add: data_pkt_alloc_def Let_def)

lemma alloc_fresh:
  assumes "ph_alloc h (ph_next h)" "0 < unat room" "unat room + 128 < 2 ^ 32"
  shows "data_pkt_alloc room flags h = Inr (Some (ph_next h),
    h\<lparr>ph_next := Suc (ph_next h), ph_pkts := (ph_pkts h)(ph_next h \<mapsto> fresh_pkt room flags)\<rparr>)"
proof -
  have "unat (room + 128) = unat room + 128" using assms(3) by (simp add: unat_add_lt)
  then show ?thesis using assms(1,2)
    by (simp add: data_pkt_alloc_def data_pkt_build_def fresh_pkt_def pkt_consts add.commute Let_def)
qed

text \<open>An empty data room, or one so large that the size wraps, fails the assertion.\<close>

lemma alloc_asserts:
  assumes "ph_alloc h (ph_next h)" "room = 0 \<or> 2 ^ 32 \<le> unat room + 128"
  shows "data_pkt_alloc room flags h = Inl Assert_Failed"
proof -
  have "\<not> 128 < unat (room + 128)"
    using assms(2) u32_lt [of room] by (auto simp: unat_word_ariths le_mod_geq)
  then show ?thesis using assms(1)
    by (simp add: data_pkt_alloc_def data_pkt_build_def pkt_consts)
qed

text \<open>A packet with its data room filled.\<close>

definition filled :: "u32 \<Rightarrow> u8 list \<Rightarrow> u32 \<Rightarrow> data_pkt" where
  "filled room bs flags = (fresh_pkt room flags)\<lparr>dp_buf := replicate 128 0 @ bs @
     replicate (unat room - length bs) 0, dp_data_len := of_nat (length bs)\<rparr>"

lemma fill_fresh:
  assumes "ph_pkts h p = Some (fresh_pkt room flags)" "length bs \<le> unat room"
  shows "and_then (data_pkt_fill p bs h) (data_pkt_set_len p (of_nat (length bs))) =
    Inr (h\<lparr>ph_pkts := (ph_pkts h)(p \<mapsto> filled room bs flags)\<rparr>)"
  using assms
  by (simp add: data_pkt_fill_def data_pkt_set_len_def pkt_write_def filled_def fresh_pkt_def)

lemma filled_facts:
  assumes "length bs \<le> unat room"
  shows "payload (filled room bs flags) = bs" "dp_flags (filled room bs flags) = flags"
    and "0 < unat room \<Longrightarrow> unat room + 128 < 2 ^ 32 \<Longrightarrow> pkt_wf (filled room bs flags)"
proof -
  have len: "unat (of_nat (length bs) :: u32) = length bs"
    using assms u32_lt [of room] by (simp add: unat_of_nat take_bit_nat_eq_self)
  then show "payload (filled room bs flags) = bs" "dp_flags (filled room bs flags) = flags"
    by (simp_all add: payload_def filled_def fresh_pkt_def)
  show "pkt_wf (filled room bs flags)" if "0 < unat room" "unat room + 128 < 2 ^ 32"
    using len assms that by (simp add: pkt_wf_def filled_def fresh_pkt_def pkt_consts)
qed

lemma free_returns: "p \<in> dom (ph_pkts h) \<Longrightarrow> \<exists>h'. data_pkt_free p h = Inr h'"
  by (auto simp: data_pkt_free_def)

lemma room_of:
  assumes "pkt_wf d"
  shows "unat (of_nat (dp_tail d - dp_data d) :: u32) = dp_tail d - dp_data d"
    and "0 < dp_tail d - dp_data d" and "dp_tail d - dp_data d + 128 < 2 ^ 32"
proof -
  have "dp_tail d - dp_data d < 4294967296" using assms by (auto simp: pkt_wf_def)
  then show "unat (of_nat (dp_tail d - dp_data d) :: u32) = dp_tail d - dp_data d"
    by (rule unat_of_nat_below)
  show "0 < dp_tail d - dp_data d" "dp_tail d - dp_data d + 128 < 2 ^ 32"
    using assms by (auto simp: pkt_wf_def pkt_consts)
qed

lemma clone_eq:
  assumes "ph_pkts h p = Some d" "pkt_wf d"
  defines "h1 \<equiv> h\<lparr>ph_next := Suc (ph_next h)\<rparr>"
  shows "data_pkt_clone p h =
    (if ph_alloc h (ph_next h)
     then Inr (Some (ph_next h), h1\<lparr>ph_pkts := (ph_pkts h)
            (ph_next h \<mapsto> filled (of_nat (dp_tail d - dp_data d)) (payload d) (dp_flags d))\<rparr>)
     else Inr (None, h1))"
proof (cases "ph_alloc h (ph_next h)")
  case False
  then show ?thesis using assms by (simp add: data_pkt_clone_def)
next
  case True
  let ?room = "of_nat (dp_tail d - dp_data d) :: u32"
  have room: "unat ?room = dp_tail d - dp_data d" "0 < unat ?room" "unat ?room + 128 < 2 ^ 32"
    using room_of [OF assms(2)] by simp_all
  have len: "length (payload d) = unat (dp_data_len d)"
    using assms(2) by (auto simp: payload_def pkt_wf_def)
  then have le: "length (payload d) \<le> unat ?room" and dl: "dp_data_len d = of_nat (length (payload d))"
    using assms(2) room(1) by (auto simp: pkt_wf_def)
  let ?h = "h1\<lparr>ph_pkts := (ph_pkts h)(ph_next h \<mapsto> fresh_pkt ?room (dp_flags d))\<rparr>"
  have rd: "pkt_read d (unat (dp_data_len d)) = Inr (payload d)"
    using assms(2) by (simp add: pkt_read_def payload_def pkt_wf_def)
  have "data_pkt_clone p h = and_then
      (and_then (data_pkt_fill (ph_next h) (payload d) ?h)
        (data_pkt_set_len (ph_next h) (of_nat (length (payload d))))) (\<lambda>h3. Inr (Some (ph_next h), h3))"
    using assms(1) alloc_fresh [OF True room(2,3), of "dp_flags d"] rd
    by (simp add: data_pkt_clone_def h1_def and_then_assoc flip: dl)
  then show ?thesis
    using fill_fresh [of ?h "ph_next h" ?room "dp_flags d" "payload d"] le True
    by (simp add: h1_def)
qed

text \<open>Cloning a well-formed packet either fails for lack of memory and leaves all packets as
  they are, or makes a new packet with the same payload, data room and flags that is itself
  well formed, and leaves every other packet as it is.\<close>

theorem data_pkt_clone_faithful:
  assumes "heap_ok h" and "ph_pkts h p = Some d"
  shows "\<exists>r h'. data_pkt_clone p h = Inr (r, h') \<and> heap_ok h' \<and>
    (case r of
       None \<Rightarrow> \<not> ph_alloc h (ph_next h) \<and> ph_pkts h' = ph_pkts h
     | Some n \<Rightarrow> n \<notin> dom (ph_pkts h) \<and> (\<exists>d'. ph_pkts h' = (ph_pkts h)(n \<mapsto> d') \<and>
         payload d' = payload d \<and> dp_flags d' = dp_flags d \<and>
         dp_tail d' - dp_data d' = dp_tail d - dp_data d))"
proof -
  have wf: "pkt_wf d" using assms by (simp add: heap_ok_def)
  let ?room = "of_nat (dp_tail d - dp_data d) :: u32"
  have room: "unat ?room = dp_tail d - dp_data d" "0 < unat ?room" "unat ?room + 128 < 2 ^ 32"
    using room_of [OF wf] by simp_all
  have le: "length (payload d) \<le> unat ?room"
    using wf room(1) by (auto simp: payload_def pkt_wf_def)
  have tl: "dp_tail (filled ?room (payload d) (dp_flags d))
      - dp_data (filled ?room (payload d) (dp_flags d)) = dp_tail d - dp_data d"
    using wf room(1) by (simp add: filled_def fresh_pkt_def pkt_wf_def pkt_consts)
  have fresh: "ph_next h \<notin> dom (ph_pkts h)" using assms(1) by (force simp: heap_ok_def)
  show ?thesis
  proof (cases "ph_alloc h (ph_next h)")
    case False
    then show ?thesis using assms wf by (auto simp: clone_eq heap_ok_def less_Suc_eq)
  next
    case True
    then show ?thesis using assms(1,2) wf filled_facts [OF le] room(2,3) tl fresh
      by (auto simp: clone_eq heap_ok_def less_Suc_eq)
  qed
qed

text \<open>The clone of a packet in a static buffer inherits the flag that says its memory is
  static although it was allocated, so freeing the clone does not release it: its memory is
  lost.\<close>

theorem static_clone_never_freed:
  assumes "heap_ok h" and "ph_pkts h p = Some d" and "bit (dp_flags d) DATA_PKT_FLAG_STATIC_BUFF"
    and "data_pkt_clone p h = Inr (Some n, h1)" and "data_pkt_free n h1 = Inr h2"
  shows "p \<noteq> n \<and> n \<in> dom (ph_pkts h2) \<and> dom (ph_pkts h2) = insert n (dom (ph_pkts h))"
proof -
  have wf: "pkt_wf d" using assms by (simp add: heap_ok_def)
  have alloc: "ph_alloc h (ph_next h)" and n: "n = ph_next h"
    using clone_eq [OF assms(2) wf] assms(4) by (auto split: if_splits)
  have h1: "ph_pkts h1 = (ph_pkts h)
      (n \<mapsto> filled (of_nat (dp_tail d - dp_data d)) (payload d) (dp_flags d))"
    using clone_eq [OF assms(2) wf] assms(4) alloc by auto
  have "p \<noteq> n" using assms(1,2) n by (auto simp: heap_ok_def)
  then show ?thesis using assms(3,5) h1
    by (auto simp: data_pkt_free_def filled_def fresh_pkt_def)
qed

section \<open>Concrete instances\<close>

definition ex_pkt :: "u32 \<Rightarrow> u8 list \<Rightarrow> data_pkt" where
  "ex_pkt flags bs = filled 64 bs flags"

definition ex_heap :: "u32 \<Rightarrow> u8 list \<Rightarrow> pkt_heap" where
  "ex_heap flags bs = \<lparr>ph_pkts = [0 \<mapsto> ex_pkt flags bs], ph_next = 1, ph_alloc = (\<lambda>_. True)\<rparr>"

lemma ex_heap_ok: "length bs \<le> 64 \<Longrightarrow> heap_ok (ex_heap flags bs)"
  using filled_facts(3) [of bs 64] by (simp add: heap_ok_def ex_heap_def ex_pkt_def)

theorem data_pkt_clone_faithful_witness:
  "\<exists>r h'. data_pkt_clone 0 (ex_heap 1 [1, 2, 3]) = Inr (r, h') \<and>
     (\<exists>n d'. r = Some n \<and> ph_pkts h' n = Some d' \<and> payload d' = payload (ex_pkt 1 [1, 2, 3]))"
  using data_pkt_clone_faithful [of "ex_heap 1 [1, 2, 3]" 0 "ex_pkt 1 [1, 2, 3]"]
    ex_heap_ok [of "[1, 2, 3]" 1]
  by (auto simp: ex_heap_def split: option.splits)

theorem static_clone_never_freed_witness:
  "\<exists>n h1 h2. data_pkt_clone 0 (ex_heap 3 [1, 2, 3]) = Inr (Some n, h1) \<and>
     data_pkt_free n h1 = Inr h2 \<and> n \<in> dom (ph_pkts h2)"
proof -
  have ok: "heap_ok (ex_heap 3 [1, 2, 3])" by (simp add: ex_heap_ok)
  have p: "ph_pkts (ex_heap 3 [1, 2, 3]) 0 = Some (ex_pkt 3 [1, 2, 3])" by (simp add: ex_heap_def)
  have wf: "pkt_wf (ex_pkt 3 [1, 2, 3])" using ok p by (simp add: heap_ok_def)
  obtain n h1 where c: "data_pkt_clone 0 (ex_heap 3 [1, 2, 3]) = Inr (Some n, h1)"
    using clone_eq [OF p wf] by (simp add: ex_heap_def)
  moreover obtain h2 where f: "data_pkt_free n h1 = Inr h2"
    using clone_eq [OF p wf] c free_returns [of n h1] by (auto simp: ex_heap_def)
  moreover have "bit (dp_flags (ex_pkt 3 [1, 2, 3])) DATA_PKT_FLAG_STATIC_BUFF"
    by (simp add: ex_pkt_def filled_def fresh_pkt_def pkt_consts bit_simps)
  ultimately show ?thesis using static_clone_never_freed [OF ok p _ c f] by blast
qed

end
