(* ===== verification/Net_Switch.thy ===== *)
theory Net_Switch
  imports Data_Pkt
begin

text \<open>
  The virtual Ethernet switch, \<open>net/net_switch.c\<close>. Ports and packets are named by numbers that
  stand for their addresses; the intrusive lists of the C (local ports, packets to send, FDB
  entries) are lists of these. A dereference of a port or packet that was freed is a fault, as
  is a wait for a semaphore nobody gives back. The pointer \<open>cable.sw_end_on\<close> always points to
  the port's own \<open>power_on\<close>; what \<open>cable.dev_end_on\<close> points to is the field \<open>sp_dev_end_on\<close>.
  Calls of a port's \<open>port_out_cb\<close> and of the remote port's \<open>setup_address_cb\<close> are recorded in
  order.
\<close>

section \<open>State\<close>

datatype p_event_type = PORT_SEND | PORT_STOP
datatype s_event_type = SWITCH_SEND | SWITCH_STOP
datatype addr_op = OPS_ADDR_ADD | OPS_ADDR_DEL | OPS_ADDR_UPDATE

type_synonym mac = "u8 list"

record switch_port =
  sp_in :: u64
  sp_in_dropped :: u64
  sp_out :: u64
  sp_is_local :: bool
  sp_name :: string
  sp_mac_addr :: mac
  sp_power_on :: bool
  sp_dev_end_on :: bool
  sp_data_out :: "nat list"
  sp_data_out_sem :: nat
  sp_mqueue :: "p_event_type list"
  sp_fdb_enabled :: bool
  sp_fdb_table :: "mac list"
  sp_need_notify :: bool

record switch_sys =
  ss_live :: bool
  ss_power_on :: bool
  ss_remote_port :: "nat option"
  ss_local_port_list :: "nat list"
  ss_sem :: nat
  ss_mqueue :: "s_event_type list"
  ss_ports :: "nat \<Rightarrow> switch_port option"
  ss_port_next :: nat
  ss_heap :: pkt_heap
  ss_fdb_nodes :: nat \<comment> \<open>FDB entries allocated and not freed\<close>
  ss_addr_calls :: "(addr_op \<times> mac option \<times> mac option) list"
  ss_out_calls :: "(nat \<times> u8 list) list"

record port_config =
  pc_is_local :: bool
  pc_name :: string
  pc_mac_addr :: mac
  pc_dev_end_on :: "bool option"
  pc_setup_address_cb :: bool

definition MAC_ADDR_LEN :: nat where "MAC_ADDR_LEN = 6"

definition port_at :: "switch_sys \<Rightarrow> nat \<Rightarrow> switch_port outcome" where
  "port_at s p = (case ss_ports s p of None \<Rightarrow> Inl Use_After_Free | Some x \<Rightarrow> Inr x)"

definition upd_port :: "nat \<Rightarrow> (switch_port \<Rightarrow> switch_port) \<Rightarrow> switch_sys \<Rightarrow> switch_sys" where
  "upd_port p f s = s\<lparr>ss_ports := (ss_ports s)(p := map_option f (ss_ports s p))\<rparr>"

definition on_heap :: "(pkt_heap \<Rightarrow> pkt_heap outcome) \<Rightarrow> switch_sys \<Rightarrow> switch_sys outcome" where
  "on_heap f s = and_then (f (ss_heap s)) (\<lambda>h. Inr (s\<lparr>ss_heap := h\<rparr>))"

text \<open>\<open>os_mq_send\<close> without waiting: a full queue of 100 events drops the event, and no caller
  looks at the result.\<close>

definition port_mq_send :: "p_event_type \<Rightarrow> switch_port \<Rightarrow> switch_port" where
  "port_mq_send e x = (if length (sp_mqueue x) < 100
                       then x\<lparr>sp_mqueue := sp_mqueue x @ [e]\<rparr> else x)"

definition cable_link_is_on :: "switch_port \<Rightarrow> bool" where
  "cable_link_is_on x \<longleftrightarrow> sp_power_on x \<and> sp_dev_end_on x"

section \<open>Addresses\<close>

text \<open>The byte loops stop at the first difference, so they read no further than that; \<open>n\<close> is
  the number of bytes left and \<open>i\<close> the position.\<close>

fun cmp_mac_addr :: "nat \<Rightarrow> nat \<Rightarrow> data_pkt \<Rightarrow> mac \<Rightarrow> bool outcome" where
  "cmp_mac_addr 0 i d m = Inr True"
| "cmp_mac_addr (Suc n) i d m =
     and_then (arr_get (dp_buf d) (dp_data d + i)) (\<lambda>a. and_then (arr_get m i) (\<lambda>b.
       if a \<noteq> b then Inr False else cmp_mac_addr n (Suc i) d m))"

fun is_broadcast_pkt :: "nat \<Rightarrow> nat \<Rightarrow> data_pkt \<Rightarrow> bool outcome" where
  "is_broadcast_pkt 0 i d = Inr True"
| "is_broadcast_pkt (Suc n) i d =
     and_then (arr_get (dp_buf d) (dp_data d + i)) (\<lambda>a.
       if a \<noteq> 0xff then Inr False else is_broadcast_pkt n (Suc i) d)"

definition is_multicast_pkt :: "data_pkt \<Rightarrow> bool outcome" where
  "is_multicast_pkt d = and_then (arr_get (dp_buf d) (dp_data d)) (\<lambda>a. Inr (a = 0x01))"

fun find_local_port :: "switch_sys \<Rightarrow> nat list \<Rightarrow> data_pkt \<Rightarrow> nat option outcome" where
  "find_local_port s [] d = Inr None"
| "find_local_port s (q # qs) d =
     and_then (port_at s q) (\<lambda>x.
       if \<not> sp_power_on x then find_local_port s qs d
       else and_then (cmp_mac_addr MAC_ADDR_LEN 0 d (sp_mac_addr x)) (\<lambda>eq.
         if eq then Inr (Some q) else find_local_port s qs d))"

definition find_dst_port :: "switch_sys \<Rightarrow> nat \<Rightarrow> data_pkt \<Rightarrow> nat option outcome" where
  "find_dst_port s src d =
     and_then (find_local_port s (ss_local_port_list s) d) (\<lambda>r.
       case r of
         Some q \<Rightarrow> Inr (Some q)
       | None \<Rightarrow> and_then (port_at s src) (\<lambda>x.
           Inr (if sp_is_local x then ss_remote_port s else None)))"

section \<open>Forwarding\<close>

definition notify_port :: "switch_port \<Rightarrow> switch_port" where
  "notify_port x = (if sp_need_notify x
     then port_mq_send PORT_SEND (x\<lparr>sp_need_notify := False\<rparr>) else x)"

fun notify_list :: "nat list \<Rightarrow> switch_sys \<Rightarrow> switch_sys outcome" where
  "notify_list [] s = Inr s"
| "notify_list (q # qs) s = and_then (port_at s q) (\<lambda>x. notify_list qs (upd_port q notify_port s))"

definition notify_ports :: "switch_sys \<Rightarrow> switch_sys outcome" where
  "notify_ports s =
     and_then (case ss_remote_port s of None \<Rightarrow> Inr s | Some r \<Rightarrow> notify_list [r] s)
       (notify_list (ss_local_port_list s))"

definition port_out_pkt :: "nat \<Rightarrow> nat \<Rightarrow> switch_sys \<Rightarrow> switch_sys outcome" where
  "port_out_pkt dst pkt s =
     and_then (port_at s dst) (\<lambda>x.
       if sp_data_out_sem x = 0 then Inl Deadlock
       else and_then (pkt_at (ss_heap s) pkt) (\<lambda>d.
         Inr (upd_port dst (\<lambda>x.
           let x' = x\<lparr>sp_data_out := sp_data_out x @ [pkt]\<rparr>
           in if 10 \<le> length (sp_data_out x') then port_mq_send PORT_SEND x'
              else x'\<lparr>sp_need_notify := True\<rparr>) s)))"

text \<open>A clone handed to a port, when there is memory for it.\<close>

definition clone_to :: "nat \<Rightarrow> nat \<Rightarrow> switch_sys \<Rightarrow> switch_sys outcome" where
  "clone_to q pkt s =
     and_then (data_pkt_clone pkt (ss_heap s)) (\<lambda>(r, h).
       case r of None \<Rightarrow> Inr (s\<lparr>ss_heap := h\<rparr>)
       | Some n \<Rightarrow> port_out_pkt q n (s\<lparr>ss_heap := h\<rparr>))"

fun broadcast_local :: "nat list \<Rightarrow> nat \<Rightarrow> nat \<Rightarrow> switch_sys \<Rightarrow> switch_sys outcome" where
  "broadcast_local [] src pkt s = Inr s"
| "broadcast_local (q # qs) src pkt s =
     and_then (port_at s q) (\<lambda>x.
       and_then (if q \<noteq> src \<and> cable_link_is_on x then clone_to q pkt s else Inr s)
         (broadcast_local qs src pkt))"

fun broadcast_remote :: "nat list \<Rightarrow> nat \<Rightarrow> bool \<Rightarrow> switch_sys \<Rightarrow> (bool \<times> switch_sys) outcome" where
  "broadcast_remote [] pkt need_free s = Inr (need_free, s)"
| "broadcast_remote (q # qs) pkt need_free s =
     and_then (port_at s q) (\<lambda>x.
       if \<not> cable_link_is_on x then broadcast_remote qs pkt need_free s
       else if qs = [] then and_then (port_out_pkt q pkt s) (broadcast_remote qs pkt False)
       else and_then (clone_to q pkt s) (broadcast_remote qs pkt need_free))"

text \<open>The end of the local case: the original goes to the remote port, if it is there.\<close>

definition out_to_remote :: "nat \<Rightarrow> switch_sys \<Rightarrow> (bool \<times> switch_sys) outcome" where
  "out_to_remote pkt s =
     (case ss_remote_port s of
        None \<Rightarrow> Inr (True, s)
      | Some r \<Rightarrow> and_then (port_at s r) (\<lambda>x.
          if cable_link_is_on x then and_then (port_out_pkt r pkt s) (\<lambda>s'. Inr (False, s'))
          else Inr (True, s)))"

definition free_if :: "nat \<Rightarrow> bool \<times> switch_sys \<Rightarrow> switch_sys outcome" where
  "free_if pkt r = (if fst r then on_heap (data_pkt_free pkt) (snd r) else Inr (snd r))"

definition broadcast_pkt :: "nat \<Rightarrow> nat \<Rightarrow> switch_sys \<Rightarrow> switch_sys outcome" where
  "broadcast_pkt src pkt s =
     and_then (port_at s src) (\<lambda>x.
     and_then (if sp_is_local x
               then and_then (broadcast_local (ss_local_port_list s) src pkt s) (out_to_remote pkt)
               else broadcast_remote (ss_local_port_list s) pkt True s)
       (free_if pkt))"

text \<open>The inner loop over the FDB table, as the test whether it finds the address.\<close>

fun in_fdb :: "mac list \<Rightarrow> data_pkt \<Rightarrow> bool outcome" where
  "in_fdb [] d = Inr False"
| "in_fdb (m # ms) d =
     and_then (cmp_mac_addr MAC_ADDR_LEN 0 d m) (\<lambda>eq. if eq then Inr True else in_fdb ms d)"

fun multicast_local :: "nat list \<Rightarrow> nat \<Rightarrow> nat \<Rightarrow> switch_sys \<Rightarrow> switch_sys outcome" where
  "multicast_local [] src pkt s = Inr s"
| "multicast_local (q # qs) src pkt s =
     and_then (port_at s q) (\<lambda>x.
       and_then
         (if q \<noteq> src \<and> cable_link_is_on x \<and> sp_fdb_enabled x
          then and_then (pkt_at (ss_heap s) pkt) (\<lambda>d. and_then (in_fdb (sp_fdb_table x) d) (\<lambda>hit.
            if hit then clone_to q pkt s else Inr s))
          else Inr s)
         (multicast_local qs src pkt))"

fun multicast_remote :: "nat list \<Rightarrow> nat \<Rightarrow> bool \<Rightarrow> switch_sys \<Rightarrow> (bool \<times> switch_sys) outcome" where
  "multicast_remote [] pkt need_free s = Inr (need_free, s)"
| "multicast_remote (q # qs) pkt need_free s =
     and_then (port_at s q) (\<lambda>x.
       if \<not> cable_link_is_on x then multicast_remote qs pkt need_free s
       else and_then (pkt_at (ss_heap s) pkt) (\<lambda>d. and_then (in_fdb (sp_fdb_table x) d) (\<lambda>hit.
         if \<not> hit then multicast_remote qs pkt need_free s
         else if qs = [] then and_then (port_out_pkt q pkt s) (multicast_remote qs pkt False)
         else and_then (clone_to q pkt s) (multicast_remote qs pkt need_free))))"

definition multicast_pkt :: "nat \<Rightarrow> nat \<Rightarrow> switch_sys \<Rightarrow> switch_sys outcome" where
  "multicast_pkt src pkt s =
     and_then (port_at s src) (\<lambda>x.
     and_then (if sp_is_local x
               then and_then (multicast_local (ss_local_port_list s) src pkt s) (out_to_remote pkt)
               else multicast_remote (ss_local_port_list s) pkt True s)
       (free_if pkt))"

definition unicast_pkt :: "nat \<Rightarrow> nat \<Rightarrow> data_pkt \<Rightarrow> switch_sys \<Rightarrow> switch_sys outcome" where
  "unicast_pkt src pkt d s =
     and_then (find_dst_port s src d) (\<lambda>r.
     and_then (case r of
         None \<Rightarrow> Inr False
       | Some q \<Rightarrow> and_then (port_at s q) (\<lambda>x. Inr (cable_link_is_on x))) (\<lambda>on.
       case r of
         Some q \<Rightarrow> if on then port_out_pkt q pkt s
           else and_then (on_heap (data_pkt_free pkt) s) (\<lambda>s'.
             Inr (upd_port src (\<lambda>x. x\<lparr>sp_in_dropped := sp_in_dropped x + 1\<rparr>) s'))
       | None \<Rightarrow> and_then (on_heap (data_pkt_free pkt) s) (\<lambda>s'.
             Inr (upd_port src (\<lambda>x. x\<lparr>sp_in_dropped := sp_in_dropped x + 1\<rparr>) s'))))"

definition switch_pkt :: "nat \<Rightarrow> nat \<Rightarrow> switch_sys \<Rightarrow> switch_sys outcome" where
  "switch_pkt src pkt s =
     and_then (pkt_at (ss_heap s) pkt) (\<lambda>d.
     and_then (is_broadcast_pkt MAC_ADDR_LEN 0 d) (\<lambda>b.
       if b then broadcast_pkt src pkt s
       else and_then (is_multicast_pkt d) (\<lambda>m.
         if m then multicast_pkt src pkt s else unicast_pkt src pkt d s)))"

section \<open>Entering and leaving packets\<close>

definition port_in_pkt_nocpy :: "nat \<Rightarrow> nat \<Rightarrow> bool \<Rightarrow> switch_sys \<Rightarrow> switch_sys outcome" where
  "port_in_pkt_nocpy p pkt notify s =
     and_then (port_at s p) (\<lambda>x.
     and_then (switch_pkt p pkt (upd_port p (\<lambda>x. x\<lparr>sp_in := sp_in x + 1\<rparr>) s)) (\<lambda>s'.
       if notify then notify_ports s' else Inr s'))"

text \<open>\<open>port_in_pkt\<close>: \<open>bytes\<close> are the \<open>data_len\<close> bytes at \<open>data\<close>.\<close>

definition port_in_pkt :: "nat \<Rightarrow> u8 list \<Rightarrow> bool \<Rightarrow> switch_sys \<Rightarrow> switch_sys outcome" where
  "port_in_pkt p bytes notify s =
     and_then (port_at s p) (\<lambda>x.
       if \<not> sp_power_on x then Inr s
       else let data_len = of_nat (length bytes) :: u32
       in and_then (data_pkt_alloc data_len (push_bit DATA_PKT_FLAG_CAN_FREE 1) (ss_heap s)) (\<lambda>(r, h).
         case r of
           None \<Rightarrow> Inr (s\<lparr>ss_heap := h\<rparr>)
         | Some n \<Rightarrow>
             and_then (and_then (data_pkt_fill n bytes h) (data_pkt_set_len n data_len)) (\<lambda>h'.
               port_in_pkt_nocpy p n notify (s\<lparr>ss_heap := h'\<rparr>))))"

datatype port_step = Port_Waits | Port_Served | Port_Stopped

definition take_out_sem :: "nat \<Rightarrow> switch_sys \<Rightarrow> switch_sys outcome" where
  "take_out_sem p s =
     and_then (port_at s p) (\<lambda>x. if sp_data_out_sem x = 0 then Inl Deadlock
       else Inr (upd_port p (\<lambda>x. x\<lparr>sp_data_out_sem := sp_data_out_sem x - 1\<rparr>) s))"

definition give_out_sem :: "nat \<Rightarrow> switch_sys \<Rightarrow> switch_sys outcome" where
  "give_out_sem p s =
     and_then (port_at s p) (\<lambda>x.
       Inr (upd_port p (\<lambda>x. x\<lparr>sp_data_out_sem := sp_data_out_sem x + 1\<rparr>) s))"

definition list_del_out :: "nat \<Rightarrow> nat \<Rightarrow> switch_sys \<Rightarrow> switch_sys" where
  "list_del_out p pkt s = upd_port p (\<lambda>x. x\<lparr>sp_data_out := remove1 pkt (sp_data_out x)\<rparr>) s"

text \<open>The loop over the packets queued at a port: each goes out; those that may be freed leave
  the list and are freed, the others stay on it.\<close>

fun send_queued :: "nat \<Rightarrow> nat list \<Rightarrow> switch_sys \<Rightarrow> switch_sys outcome" where
  "send_queued p [] s = Inr s"
| "send_queued p (k # ks) s =
     and_then (pkt_at (ss_heap s) k) (\<lambda>d.
     and_then (port_at s p) (\<lambda>x.
       let s1 = upd_port p (\<lambda>x. x\<lparr>sp_out := sp_out x + 1\<rparr>)
                  (s\<lparr>ss_out_calls := ss_out_calls s @ [(p, payload d)]\<rparr>)
       in and_then
            (if bit (dp_flags d) DATA_PKT_FLAG_CAN_FREE
             then and_then (take_out_sem p s1) (\<lambda>s2.
                  and_then (give_out_sem p (list_del_out p k s2)) (on_heap (data_pkt_free k)))
             else Inr s1)
            (send_queued p ks)))"

definition port_process_pkts :: "nat \<Rightarrow> switch_sys \<Rightarrow> (port_step \<times> switch_sys) outcome" where
  "port_process_pkts p s =
     and_then (port_at s p) (\<lambda>x.
       case sp_mqueue x of
         [] \<Rightarrow> Inr (Port_Waits, s)
       | e # es \<Rightarrow>
           let s1 = upd_port p (\<lambda>x. x\<lparr>sp_mqueue := es\<rparr>) s
           in if e = PORT_STOP then Inr (Port_Stopped, s1)
              else and_then (send_queued p (sp_data_out x) s1) (\<lambda>s2. Inr (Port_Served, s2)))"

section \<open>Ports and the switch\<close>

definition blank_port :: switch_port where
  "blank_port = \<lparr>sp_in = 0, sp_in_dropped = 0, sp_out = 0, sp_is_local = False, sp_name = [],
     sp_mac_addr = replicate 6 0, sp_power_on = False, sp_dev_end_on = False, sp_data_out = [],
     sp_data_out_sem = 0, sp_mqueue = [], sp_fdb_enabled = False, sp_fdb_table = [],
     sp_need_notify = False\<rparr>"

definition switch_init_port :: "bool \<Rightarrow> switch_sys \<Rightarrow> (nat \<times> switch_sys) outcome" where
  "switch_init_port alloc s =
     os_assert alloc (Inr (ss_port_next s, s\<lparr>ss_port_next := Suc (ss_port_next s),
       ss_ports := (ss_ports s)(ss_port_next s \<mapsto> blank_port)\<rparr>))"

definition call_setup_addr :: "addr_op \<Rightarrow> mac option \<Rightarrow> mac option \<Rightarrow> switch_sys \<Rightarrow> switch_sys" where
  "call_setup_addr ops new old s =
     (case ss_remote_port s of None \<Rightarrow> s
      | Some r \<Rightarrow> s\<lparr>ss_addr_calls := ss_addr_calls s @ [(ops, new, old)]\<rparr>)"

fun announce_locals :: "nat list \<Rightarrow> switch_sys \<Rightarrow> switch_sys outcome" where
  "announce_locals [] s = Inr s"
| "announce_locals (q # qs) s =
     and_then (port_at s q) (\<lambda>x.
       announce_locals qs (call_setup_addr OPS_ADDR_ADD (Some (sp_mac_addr x)) None s))"

text \<open>\<open>sem_ok\<close> and \<open>mq_ok\<close> are whether \<open>os_sem_init\<close> and \<open>os_mq_open\<close> succeed.\<close>

definition switch_add_port ::
    "bool \<Rightarrow> bool \<Rightarrow> nat \<Rightarrow> port_config \<Rightarrow> switch_sys \<Rightarrow> switch_sys outcome" where
  "switch_add_port sem_ok mq_ok p config s =
     and_then (port_at s p) (\<lambda>_.
       let s1 = (if pc_is_local config
                 then call_setup_addr OPS_ADDR_ADD (Some (pc_mac_addr config)) None s else s)
       in os_assert sem_ok (os_assert mq_ok
         (case pc_dev_end_on config of
            None \<Rightarrow> Inl Assert_Failed
          | Some link \<Rightarrow>
            let s2 = upd_port p (\<lambda>x. x\<lparr>sp_name := take 19 (pc_name config),
                       sp_mac_addr := pc_mac_addr config, sp_is_local := pc_is_local config,
                       sp_data_out := [], sp_fdb_enabled := False, sp_fdb_table := [],
                       sp_data_out_sem := 1, sp_mqueue := [], sp_dev_end_on := link,
                       sp_power_on := True\<rparr>) s1
            in if pc_is_local config
               then if ss_sem s2 = 0 then Inl Deadlock
                    else Inr (s2\<lparr>ss_local_port_list := ss_local_port_list s2 @ [p]\<rparr>)
               else os_assert (pc_setup_address_cb config)
                 (announce_locals (ss_local_port_list s2) (s2\<lparr>ss_remote_port := Some p\<rparr>)))))"

definition port_update_addr :: "nat \<Rightarrow> mac \<Rightarrow> switch_sys \<Rightarrow> switch_sys outcome" where
  "port_update_addr p m s =
     and_then (port_at s p) (\<lambda>x.
       Inr (upd_port p (\<lambda>x. x\<lparr>sp_mac_addr := m, sp_power_on := True\<rparr>)
         (call_setup_addr OPS_ADDR_UPDATE (Some m) (Some (sp_mac_addr x)) s)))"

text \<open>Adding and removing forwarding entries. \<open>alloc\<close> is whether \<open>os_malloc\<close> succeeds; the
  comparison of two stored addresses reads six bytes of each.\<close>

definition mac_eq :: "mac \<Rightarrow> mac \<Rightarrow> bool" where
  "mac_eq a b \<longleftrightarrow> take MAC_ADDR_LEN a = take MAC_ADDR_LEN b"

definition vs_port_add_fdb_entry :: "bool \<Rightarrow> nat \<Rightarrow> mac \<Rightarrow> switch_sys \<Rightarrow> (int \<times> switch_sys) outcome" where
  "vs_port_add_fdb_entry alloc p m s =
     and_then (port_at s p) (\<lambda>x.
       os_assert (sp_is_local x)
         (if list_ex (mac_eq m) (sp_fdb_table x) then Inr (-1, s)
          else os_assert alloc
            (Inr (0, call_setup_addr OPS_ADDR_ADD (Some m) None
               (upd_port p (\<lambda>x. x\<lparr>sp_fdb_table := sp_fdb_table x @ [m], sp_fdb_enabled := True,
                  sp_power_on := True\<rparr>) (s\<lparr>ss_fdb_nodes := Suc (ss_fdb_nodes s)\<rparr>))))))"

fun remove_first :: "('a \<Rightarrow> bool) \<Rightarrow> 'a list \<Rightarrow> 'a list" where
  "remove_first P [] = []"
| "remove_first P (x # xs) = (if P x then xs else x # remove_first P xs)"

definition vs_port_remove_fdb_entry :: "nat \<Rightarrow> mac \<Rightarrow> switch_sys \<Rightarrow> (int \<times> switch_sys) outcome" where
  "vs_port_remove_fdb_entry p m s =
     and_then (port_at s p) (\<lambda>x.
       os_assert (sp_is_local x)
         (if \<not> sp_fdb_enabled x \<or> \<not> list_ex (mac_eq m) (sp_fdb_table x) then Inr (-1, s)
          else let t = remove_first (mac_eq m) (sp_fdb_table x)
            in Inr (0, call_setup_addr OPS_ADDR_DEL (Some m) None
              (upd_port p (\<lambda>x. x\<lparr>sp_fdb_table := t,
                 sp_fdb_enabled := (if t = [] then False else sp_fdb_enabled x),
                 sp_power_on := True\<rparr>) s))))"

definition port_on :: "nat \<Rightarrow> bool \<Rightarrow> switch_sys \<Rightarrow> switch_sys outcome" where
  "port_on p on s = and_then (port_at s p) (\<lambda>x. Inr (upd_port p (\<lambda>x. x\<lparr>sp_power_on := on\<rparr>) s))"

fun discard_queued :: "nat \<Rightarrow> nat list \<Rightarrow> switch_sys \<Rightarrow> switch_sys outcome" where
  "discard_queued p [] s = Inr s"
| "discard_queued p (k # ks) s =
     and_then (pkt_at (ss_heap s) k) (\<lambda>d.
     and_then (if bit (dp_flags d) DATA_PKT_FLAG_CAN_FREE
               then on_heap (data_pkt_free k) (list_del_out p k s) else Inr s)
       (discard_queued p ks))"

definition switch_remove_port :: "nat \<Rightarrow> switch_sys \<Rightarrow> switch_sys outcome" where
  "switch_remove_port p s =
     and_then (port_at s p) (\<lambda>_.
     and_then (take_out_sem p (upd_port p (port_mq_send PORT_STOP) s)) (\<lambda>s1.
     let s2 = upd_port p (\<lambda>x. x\<lparr>sp_power_on := False\<rparr>) s1
     in and_then (port_at s2 p) (\<lambda>x.
     and_then (if sp_is_local x
               then if ss_sem s2 = 0 then Inl Deadlock
                    else Inr (call_setup_addr OPS_ADDR_DEL None (Some (sp_mac_addr x))
                      (s2\<lparr>ss_local_port_list := remove1 p (ss_local_port_list s2)\<rparr>))
               else Inr (s2\<lparr>ss_remote_port := None\<rparr>)) (\<lambda>s3.
     and_then (discard_queued p (sp_data_out x) s3) (\<lambda>s4.
       Inr (s4\<lparr>ss_ports := (ss_ports s4)(p := None)\<rparr>))))))"

text \<open>\<open>switch_init\<close>, on a blank state: allocation and OS objects may fail.\<close>

definition switch_init :: "bool \<Rightarrow> bool \<Rightarrow> bool \<Rightarrow> (nat \<Rightarrow> bool) \<Rightarrow> switch_sys outcome" where
  "switch_init alloc sem_ok mq_ok pkt_alloc =
     os_assert alloc (os_assert sem_ok (os_assert mq_ok
       (Inr \<lparr>ss_live = True, ss_power_on = True, ss_remote_port = None, ss_local_port_list = [],
             ss_sem = 1, ss_mqueue = [], ss_ports = (\<lambda>_. None), ss_port_next = 0,
             ss_heap = \<lparr>ph_pkts = (\<lambda>_. None), ph_next = 0, ph_alloc = pkt_alloc\<rparr>,
             ss_fdb_nodes = 0, ss_addr_calls = [], ss_out_calls = []\<rparr>)))"

fun remove_ports :: "nat list \<Rightarrow> switch_sys \<Rightarrow> switch_sys outcome" where
  "remove_ports [] s = Inr s"
| "remove_ports (q # qs) s = and_then (switch_remove_port q s) (remove_ports qs)"

definition switch_destroy :: "switch_sys \<Rightarrow> switch_sys outcome" where
  "switch_destroy s =
     (let s0 = (if length (ss_mqueue s) < 10 then s\<lparr>ss_mqueue := ss_mqueue s @ [SWITCH_STOP]\<rparr> else s)
      in case ss_remote_port s0 of
           None \<Rightarrow> Inl Null_Deref
         | Some r \<Rightarrow> and_then (switch_remove_port r s0) (\<lambda>s1.
             and_then (remove_ports (ss_local_port_list s1) s1) (\<lambda>s2.
               Inr (s2\<lparr>ss_power_on := False, ss_live := False\<rparr>))))"

end
