(* ===== verification/Switch_Spec.thy ===== *)
theory Switch_Spec
  imports Net_Switch "HOL-Library.Multiset"
begin

text \<open>
  What the virtual switch promises, and the proof that \<open>net/net_switch.c\<close> keeps it. The abstract
  switch is a list of frames per port and the set of ports a frame goes to (\<open>forward_set\<close>); the
  invariant says that every packet on the heap is on one queue or in the hands of the running
  operation. The file ends with the interface that clients of the switch use, its
  interpretation, and the switch's properties.
\<close>

section \<open>The abstract switch\<close>

text \<open>The abstract state of the switch is the list of frames each of its ports has still to send.\<close>

definition frame_of :: "pkt_heap \<Rightarrow> nat \<Rightarrow> u8 list" where
  "frame_of h k = (case ph_pkts h k of None \<Rightarrow> [] | Some d \<Rightarrow> payload d)"

definition out_queue :: "switch_sys \<Rightarrow> nat \<Rightarrow> nat list" where
  "out_queue s q = (case ss_ports s q of None \<Rightarrow> [] | Some x \<Rightarrow> sp_data_out x)"

definition all_ports :: "switch_sys \<Rightarrow> nat list" where
  "all_ports s = (case ss_remote_port s of None \<Rightarrow> [] | Some r \<Rightarrow> [r]) @ ss_local_port_list s"

definition frames :: "switch_sys \<Rightarrow> nat \<Rightarrow> u8 list list" where
  "frames s q = (if q \<in> set (all_ports s) then map (frame_of (ss_heap s)) (out_queue s q) else [])"

definition deliver :: "nat set \<Rightarrow> 'f \<Rightarrow> (nat \<Rightarrow> 'f list) \<Rightarrow> nat \<Rightarrow> 'f list" where
  "deliver T f fs q = (if q \<in> T then fs q @ [f] else fs q)"

definition link :: "switch_sys \<Rightarrow> nat \<Rightarrow> bool" where
  "link s q = (case ss_ports s q of None \<Rightarrow> False | Some x \<Rightarrow> cable_link_is_on x)"

definition the_port :: "switch_sys \<Rightarrow> nat \<Rightarrow> switch_port" where
  "the_port s q = (case ss_ports s q of None \<Rightarrow> blank_port | Some x \<Rightarrow> x)"

definition remote_on :: "switch_sys \<Rightarrow> nat set" where
  "remote_on s = {r. ss_remote_port s = Some r \<and> link s r}"

definition unicast_dst :: "switch_sys \<Rightarrow> nat \<Rightarrow> mac \<Rightarrow> nat option" where
  "unicast_dst s src m =
     (case find (\<lambda>q. sp_power_on (the_port s q) \<and> sp_mac_addr (the_port s q) = m)
             (ss_local_port_list s) of
        Some q \<Rightarrow> Some q
      | None \<Rightarrow> if sp_is_local (the_port s src) then ss_remote_port s else None)"

text \<open>The ports a frame from \<open>src\<close> goes to.\<close>

definition forward_set :: "switch_sys \<Rightarrow> nat \<Rightarrow> u8 list \<Rightarrow> nat set" where
  "forward_set s src f =
     (let dst = take 6 f; loc = sp_is_local (the_port s src); locals = set (ss_local_port_list s)
      in if dst = replicate 6 0xff then
           (if loc then {q \<in> locals. q \<noteq> src \<and> link s q} \<union> remote_on s
            else {q \<in> locals. link s q})
         else if hd f = 1 then
           (if loc then {q \<in> locals. q \<noteq> src \<and> link s q \<and> sp_fdb_enabled (the_port s q) \<and>
                           dst \<in> set (sp_fdb_table (the_port s q))} \<union> remote_on s
            else {q \<in> locals. link s q \<and> dst \<in> set (sp_fdb_table (the_port s q))})
         else {q. unicast_dst s src dst = Some q \<and> link s q})"

section \<open>Invariants\<close>

definition queued :: "switch_sys \<Rightarrow> nat list" where
  "queued s = concat (map (out_queue s) (all_ports s))"

definition port_ok :: "switch_port \<Rightarrow> bool" where
  "port_ok x \<longleftrightarrow> 0 < sp_data_out_sem x \<and> length (sp_mac_addr x) = 6 \<and>
     (\<forall>m \<in> set (sp_fdb_table x). length m = 6)"

definition switch_inv :: "switch_sys \<Rightarrow> bool" where
  "switch_inv s \<longleftrightarrow> distinct (all_ports s) \<and>
     (\<forall>q \<in> set (all_ports s). \<exists>x. ss_ports s q = Some x \<and> port_ok x)"

text \<open>Ownership: every packet on the heap is on exactly one queue, once, or in the hands of the
  operation (\<open>ps\<close>), and may be freed.\<close>

definition owned :: "switch_sys \<Rightarrow> nat set \<Rightarrow> bool" where
  "owned s ps \<longleftrightarrow> heap_ok (ss_heap s) \<and> finite (dom (ph_pkts (ss_heap s))) \<and> finite ps \<and>
     mset (queued s) + mset_set ps = mset_set (dom (ph_pkts (ss_heap s))) \<and>
     (\<forall>k d. ph_pkts (ss_heap s) k = Some d \<longrightarrow> bit (dp_flags d) DATA_PKT_FLAG_CAN_FREE \<and>
        \<not> bit (dp_flags d) DATA_PKT_FLAG_STATIC_BUFF)"

text \<open>What forwarding leaves alone: everything but the counters, the queues and the events of
  the ports, and the packets.\<close>

definition skel :: "switch_port \<Rightarrow> switch_port" where
  "skel x = x\<lparr>sp_in := 0, sp_in_dropped := 0, sp_out := 0, sp_data_out := [], sp_mqueue := [],
     sp_need_notify := False\<rparr>"

definition same_frame :: "switch_sys \<Rightarrow> switch_sys \<Rightarrow> bool" where
  "same_frame s s' \<longleftrightarrow> ss_remote_port s' = ss_remote_port s \<and>
     ss_local_port_list s' = ss_local_port_list s \<and> ss_sem s' = ss_sem s \<and>
     ss_port_next s' = ss_port_next s \<and>
     (\<forall>q. map_option skel (ss_ports s' q) = map_option skel (ss_ports s q)) \<and>
     ph_alloc (ss_heap s') = ph_alloc (ss_heap s)"

lemma same_frame_refl [simp]: "same_frame s s" by (simp add: same_frame_def)

lemma same_frame_trans: "same_frame s s' \<Longrightarrow> same_frame s' s'' \<Longrightarrow> same_frame s s''"
  by (simp add: same_frame_def)

lemma skel_eqD:
  assumes "skel x = skel y"
  shows "sp_power_on x = sp_power_on y" "sp_dev_end_on x = sp_dev_end_on y"
    "sp_is_local x = sp_is_local y" "sp_mac_addr x = sp_mac_addr y"
    "sp_fdb_enabled x = sp_fdb_enabled y" "sp_fdb_table x = sp_fdb_table y"
    "sp_data_out_sem x = sp_data_out_sem y"
  using assms by (cases x; cases y; simp add: skel_def)+

lemma frame_port:
  assumes "same_frame s s'"
  shows "ss_ports s' q = None \<longleftrightarrow> ss_ports s q = None"
    and "ss_ports s' q = Some y \<Longrightarrow> \<exists>x. ss_ports s q = Some x \<and> skel y = skel x"
    and "ss_ports s q = Some x \<Longrightarrow> \<exists>y. ss_ports s' q = Some y \<and> skel y = skel x"
proof -
  have "map_option skel (ss_ports s' q) = map_option skel (ss_ports s q)"
    using assms by (simp add: same_frame_def)
  then show "ss_ports s' q = None \<longleftrightarrow> ss_ports s q = None"
    and "ss_ports s' q = Some y \<Longrightarrow> \<exists>x. ss_ports s q = Some x \<and> skel y = skel x"
    and "ss_ports s q = Some x \<Longrightarrow> \<exists>y. ss_ports s' q = Some y \<and> skel y = skel x"
    by (cases "ss_ports s q"; cases "ss_ports s' q"; simp)+
qed

lemma frame_the_port:
  assumes "same_frame s s'"
  shows "skel (the_port s' q) = skel (the_port s q)"
  using frame_port [OF assms, of q]
  by (cases "ss_ports s q"; cases "ss_ports s' q") (auto simp: the_port_def)

lemmas frame_fields = skel_eqD [OF frame_the_port]

lemma frame_views:
  assumes "same_frame s s'"
  shows "all_ports s' = all_ports s" "link s' q = link s q" "remote_on s' = remote_on s"
    "ss_local_port_list s' = ss_local_port_list s" "ss_remote_port s' = ss_remote_port s"
proof -
  show "all_ports s' = all_ports s" "ss_local_port_list s' = ss_local_port_list s"
    "ss_remote_port s' = ss_remote_port s"
    using assms by (simp_all add: all_ports_def same_frame_def)
  show lk: "link s' q = link s q" for q
  proof (cases "ss_ports s q")
    case None
    then show ?thesis using frame_port(1) [OF assms, of q] by (simp add: link_def)
  next
    case (Some x)
    then obtain y where y: "ss_ports s' q = Some y" "skel y = skel x"
      using frame_port(3) [OF assms Some] by blast
    show ?thesis using Some y(1) skel_eqD(1,2) [OF y(2)]
      by (simp add: link_def cable_link_is_on_def)
  qed
  show "remote_on s' = remote_on s" using assms lk by (simp add: remote_on_def same_frame_def)
qed

lemma frame_inv:
  assumes "same_frame s s'" "switch_inv s"
  shows "switch_inv s'"
proof -
  have "\<exists>y. ss_ports s' q = Some y \<and> port_ok y" if "q \<in> set (all_ports s)" for q
  proof -
    obtain x where x: "ss_ports s q = Some x" "port_ok x"
      using assms(2) \<open>q \<in> _\<close> by (auto simp: switch_inv_def)
    obtain y where y: "ss_ports s' q = Some y" "skel y = skel x"
      using frame_port(3) [OF assms(1) x(1)] by blast
    show ?thesis using x(2) y(1) by (simp add: port_ok_def skel_eqD [OF y(2)])
  qed
  then show ?thesis
    using assms(2) by (simp add: switch_inv_def frame_views(1) [OF assms(1)])
qed

lemma forward_set_frame:
  assumes "same_frame s s'"
  shows "forward_set s' src f = forward_set s src f"
  using frame_views [OF assms] frame_fields [OF assms]
  by (simp add: forward_set_def unicast_dst_def Let_def cong: option.case_cong)

section \<open>Single steps\<close>

definition moved :: "switch_sys \<Rightarrow> switch_sys \<Rightarrow> bool" where
  "moved s s' \<longleftrightarrow> same_frame s s' \<and>
     (\<forall>k d. ph_pkts (ss_heap s) k = Some d \<longrightarrow> ph_pkts (ss_heap s') k = Some d)"

lemma moved_refl [simp]: "moved s s" by (simp add: moved_def)

lemma moved_trans: "moved s s' \<Longrightarrow> moved s' s'' \<Longrightarrow> moved s s''"
  by (auto simp: moved_def intro: same_frame_trans)

lemma movedD: "moved s s' \<Longrightarrow> same_frame s s'"
  "moved s s' \<Longrightarrow> ph_pkts (ss_heap s) k = Some d \<Longrightarrow> ph_pkts (ss_heap s') k = Some d"
  by (simp_all add: moved_def)

lemma same_frame_upd_port:
  assumes "\<And>x. skel (f x) = skel x"
  shows "same_frame s (upd_port q f s)"
  using assms by (auto simp: same_frame_def upd_port_def option.map_comp o_def)

lemma upd_port_heap [simp]: "ss_heap (upd_port q f s) = ss_heap s"
  by (simp add: upd_port_def)

lemma out_queue_heap [simp]: "out_queue (s\<lparr>ss_heap := h\<rparr>) = out_queue s"
  by (simp add: out_queue_def fun_eq_iff)

lemma queued_heap [simp]: "queued (s\<lparr>ss_heap := h\<rparr>) = queued s"
  by (simp add: queued_def all_ports_def)

lemma deliver_empty [simp]: "deliver {} f fs = fs" by (simp add: deliver_def fun_eq_iff)

lemma deliver_deliver: "A \<inter> B = {} \<Longrightarrow> deliver B f (deliver A f fs) = deliver (A \<union> B) f fs"
  by (auto simp: deliver_def fun_eq_iff)

lemma mset_concat_add:
  assumes "distinct ps" "q \<in> set ps" "\<And>p. p \<noteq> q \<Longrightarrow> g p = f p" "g q = f q @ [k]"
  shows "mset (concat (map g ps)) = add_mset k (mset (concat (map f ps)))"
  using assms(1,2)
proof (induction ps)
  case Nil
  then show ?case by simp
next
  case (Cons p ps)
  show ?case
  proof (cases "p = q")
    case True
    then have "\<forall>p' \<in> set ps. p' \<noteq> q" using Cons.prems(1) by auto
    then have "map g ps = map f ps" using assms(3) by simp
    then show ?thesis using True assms(4) by (simp del: map_eq_conv)
  next
    case False
    then show ?thesis using Cons assms(3) by simp
  qed
qed

lemma owned_dom: "owned s ps \<Longrightarrow> k \<in> ps \<Longrightarrow> \<exists>d. ph_pkts (ss_heap s) k = Some d \<and> pkt_wf d"
proof -
  assume a: "owned s ps" "k \<in> ps"
  then have "k \<in># mset_set (dom (ph_pkts (ss_heap s)))"
    unfolding owned_def by (metis UnI2 elem_mset_set set_mset_union)
  then obtain d where "ph_pkts (ss_heap s) k = Some d"
    using a(1) by (auto simp: owned_def)
  then show ?thesis using a(1) by (auto simp: owned_def heap_ok_def)
qed

lemma owned_queued:
  assumes "owned s ps" "k \<in> set (queued s)"
  shows "k \<in> dom (ph_pkts (ss_heap s))" "k \<notin> ps"
proof -
  have eq: "mset (queued s) + mset_set ps = mset_set (dom (ph_pkts (ss_heap s)))"
    and fin: "finite (dom (ph_pkts (ss_heap s)))" "finite ps"
    using assms(1) by (auto simp: owned_def)
  have cnt: "count (mset (queued s)) k + count (mset_set ps) k =
      count (mset_set (dom (ph_pkts (ss_heap s)))) k"
    using eq by (metis count_union)
  have one: "count (mset_set (dom (ph_pkts (ss_heap s)))) k \<le> 1"
    by (cases "k \<in> dom (ph_pkts (ss_heap s))") (simp_all add: fin)
  have pos: "0 < count (mset (queued s)) k" using assms(2) by simp
  show "k \<in> dom (ph_pkts (ss_heap s))"
  proof (rule ccontr)
    assume "k \<notin> dom (ph_pkts (ss_heap s))"
    then have "count (mset_set (dom (ph_pkts (ss_heap s)))) k = 0" by simp
    then show False using cnt pos by linarith
  qed
  show "k \<notin> ps"
  proof
    assume "k \<in> ps"
    then have "count (mset_set ps) k = 1" using fin by simp
    then show False using cnt pos one by linarith
  qed
qed

lemma out_queue_queued: "q \<in> set (all_ports s) \<Longrightarrow> k \<in> set (out_queue s q) \<Longrightarrow> k \<in> set (queued s)"
  by (auto simp: queued_def)

lemma port_mq_send_facts [simp]:
  "skel (port_mq_send e x) = skel x" "sp_data_out (port_mq_send e x) = sp_data_out x"
  by (simp_all add: port_mq_send_def skel_def)

lemma port_out_pkt_step:
  assumes "switch_inv s" "owned s ps" "k \<in> ps" "q \<in> set (all_ports s)"
  shows "\<exists>s'. port_out_pkt q k s = Inr s' \<and> moved s s' \<and> owned s' (ps - {k}) \<and>
    frames s' = deliver {q} (frame_of (ss_heap s) k) (frames s)"
proof -
  obtain x where x: "ss_ports s q = Some x" "0 < sp_data_out_sem x"
    using assms(1,4) by (auto simp: switch_inv_def port_ok_def)
  obtain d where d: "ph_pkts (ss_heap s) k = Some d" using owned_dom [OF assms(2,3)] by blast
  let ?f = "\<lambda>x. let x' = x\<lparr>sp_data_out := sp_data_out x @ [k]\<rparr>
     in if 10 \<le> length (sp_data_out x') then port_mq_send PORT_SEND x'
        else x'\<lparr>sp_need_notify := True\<rparr>"
  define s1 where "s1 = upd_port q ?f s"
  have sk: "skel (?f y) = skel y" for y by (simp add: Let_def) (simp add: skel_def)
  have run: "port_out_pkt q k s = Inr s1"
    using x d by (simp add: port_out_pkt_def port_at_def s1_def)
  have fr: "same_frame s s1" unfolding s1_def by (rule same_frame_upd_port) (rule sk)
  have hp: "ss_heap s1 = ss_heap s" by (simp add: s1_def)
  have mv: "moved s s1" using fr by (simp add: moved_def hp)
  have q: "out_queue s1 p = (if p = q then out_queue s p @ [k] else out_queue s p)" for p
    using x(1) by (simp add: out_queue_def upd_port_def Let_def s1_def)
  have "mset (queued s1) = add_mset k (mset (queued s))"
    unfolding queued_def frame_views(1) [OF fr]
    by (rule mset_concat_add [OF _ assms(4)]) (use assms(1) q in \<open>auto simp: switch_inv_def\<close>)
  moreover have "mset_set ps = add_mset k (mset_set (ps - {k}))"
    using assms(2,3) by (simp add: owned_def mset_set.remove)
  ultimately have own: "owned s1 (ps - {k})"
    using assms(2) by (simp add: owned_def hp)
  have "frames s1 = deliver {q} (frame_of (ss_heap s) k) (frames s)"
    by (rule ext) (use assms(4) in \<open>simp add: frames_def q hp deliver_def frame_views(1) [OF fr]\<close>)
  then show ?thesis using run mv own by blast
qed

lemma owned_insert:
  assumes "owned s ps" "\<not> n < ph_next (ss_heap s)" "pkt_wf d"
    and "bit (dp_flags d) DATA_PKT_FLAG_CAN_FREE" "\<not> bit (dp_flags d) DATA_PKT_FLAG_STATIC_BUFF"
    and "s' = s\<lparr>ss_heap := (ss_heap s)\<lparr>ph_next := Suc n, ph_pkts := (ph_pkts (ss_heap s))(n \<mapsto> d)\<rparr>\<rparr>"
  shows "owned s' (insert n ps)" "n \<notin> dom (ph_pkts (ss_heap s))" "n \<notin> ps"
proof -
  show new: "n \<notin> dom (ph_pkts (ss_heap s))"
    using assms(1,2) by (force simp: owned_def heap_ok_def)
  then show np: "n \<notin> ps" using owned_dom [OF assms(1)] by blast
  have hk: "heap_ok (ss_heap s')" using assms(1-3,6) by (fastforce simp: owned_def heap_ok_def)
  have "queued s' = queued s"
    by (simp add: assms(6))
  then show "owned s' (insert n ps)"
    using assms(1,4,5) new np hk unfolding owned_def by (auto simp: assms(6))
qed

lemma heap_frame [simp]: "ph_alloc h = ph_alloc (ss_heap s) \<Longrightarrow> same_frame s (s\<lparr>ss_heap := h\<rparr>)"
  by (simp add: same_frame_def)

lemma all_ports_heap [simp]: "all_ports (s\<lparr>ss_heap := h\<rparr>) = all_ports s"
  by (simp add: all_ports_def)

lemma frames_same_heap:
  assumes "owned s ps"
    and "\<And>k d. k \<notin> ps \<Longrightarrow> ph_pkts (ss_heap s) k = Some d \<Longrightarrow> ph_pkts h k = Some d"
  shows "frames (s\<lparr>ss_heap := h\<rparr>) = frames s"
proof
  fix q
  have "frame_of h k = frame_of (ss_heap s) k"
    if "q \<in> set (all_ports s)" "k \<in> set (out_queue s q)" for k
    using owned_queued [OF assms(1) out_queue_queued [OF that]] assms(2)
    by (force simp: frame_of_def)
  then show "frames (s\<lparr>ss_heap := h\<rparr>) q = frames s q" by (simp add: frames_def)
qed

lemma clone_to_step:
  assumes "switch_inv s" "owned s ps" "k \<in> ps" "q \<in> set (all_ports s)"
  shows "\<exists>s'. clone_to q k s = Inr s' \<and> moved s s' \<and> owned s' ps \<and>
    ((\<forall>n. ph_alloc (ss_heap s) n) \<longrightarrow>
       frames s' = deliver {q} (frame_of (ss_heap s) k) (frames s))"
proof -
  let ?h = "ss_heap s" and ?n = "ph_next (ss_heap s)"
  obtain d where d: "ph_pkts ?h k = Some d" "pkt_wf d" using owned_dom [OF assms(2,3)] by blast
  have fresh: "?n \<notin> dom (ph_pkts ?h)" using assms(2) by (force simp: owned_def heap_ok_def)
  show ?thesis
  proof (cases "ph_alloc ?h ?n")
    case False
    let ?s = "s\<lparr>ss_heap := ?h\<lparr>ph_next := Suc ?n\<rparr>\<rparr>"
    have "clone_to q k s = Inr ?s" using clone_eq [OF d] False by (simp add: clone_to_def)
    moreover have "moved s ?s" by (simp add: moved_def)
    moreover have "heap_ok (?h\<lparr>ph_next := Suc ?n\<rparr>)"
      using assms(2) by (auto simp: owned_def heap_ok_def less_Suc_eq)
    then have "owned ?s ps" using assms(2) by (simp add: owned_def)
    ultimately show ?thesis using False by blast
  next
    case True
    define d' where "d' = filled (of_nat (dp_tail d - dp_data d)) (payload d) (dp_flags d)"
    have len: "length (payload d) \<le> unat (of_nat (dp_tail d - dp_data d) :: u32)"
      using d(2) room_of(1) [OF d(2)] by (auto simp: payload_def pkt_wf_def)
    have d': "payload d' = payload d" "dp_flags d' = dp_flags d" "pkt_wf d'"
      using filled_facts [OF len] room_of [OF d(2)] by (simp_all add: d'_def)
    have fl: "bit (dp_flags d') DATA_PKT_FLAG_CAN_FREE" "\<not> bit (dp_flags d') DATA_PKT_FLAG_STATIC_BUFF"
      using assms(2) d(1) by (auto simp: owned_def d'(2))
    define s1 where "s1 = s\<lparr>ss_heap := ?h\<lparr>ph_next := Suc ?n, ph_pkts := (ph_pkts ?h)(?n \<mapsto> d')\<rparr>\<rparr>"
    have s1: "owned s1 (insert ?n ps)" "?n \<notin> ps"
      using owned_insert [OF assms(2) _ d'(3) fl, of ?n] by (simp_all add: s1_def)
    have mv: "moved s s1" using fresh by (auto simp: s1_def moved_def)
    have fr: "frames s1 = frames s"
      unfolding s1_def by (rule frames_same_heap [OF assms(2)]) (use fresh in auto)
    have q1: "q \<in> set (all_ports s1)" using assms(4) by (simp add: s1_def)
    obtain s2 where s2: "port_out_pkt q ?n s1 = Inr s2" "moved s1 s2"
      "owned s2 (insert ?n ps - {?n})" "frames s2 = deliver {q} (frame_of (ss_heap s1) ?n) (frames s1)"
      using port_out_pkt_step [OF frame_inv [OF movedD(1) [OF mv] assms(1)] s1(1) insertI1 q1]
      by blast
    have "clone_to q k s = Inr s2"
      using clone_eq [OF d] True s2(1) by (simp add: clone_to_def s1_def d'_def)
    moreover have "owned s2 ps" using s2(3) s1(2) by simp
    moreover have "frame_of (ss_heap s1) ?n = frame_of ?h k"
      using d d' by (simp add: frame_of_def s1_def)
    ultimately show ?thesis using moved_trans [OF mv s2(2)] s2(4) fr by auto
  qed
qed

lemma free_step:
  assumes "owned s ps" "k \<in> ps"
  shows "\<exists>s'. on_heap (data_pkt_free k) s = Inr s' \<and> same_frame s s' \<and> owned s' (ps - {k}) \<and>
    frames s' = frames s \<and> (\<forall>j. j \<noteq> k \<longrightarrow> ph_pkts (ss_heap s') j = ph_pkts (ss_heap s) j)"
proof -
  let ?h = "ss_heap s"
  obtain d where d: "ph_pkts ?h k = Some d" using owned_dom [OF assms] by blast
  define s1 where "s1 = s\<lparr>ss_heap := ?h\<lparr>ph_pkts := (ph_pkts ?h)(k := None)\<rparr>\<rparr>"
  have run: "on_heap (data_pkt_free k) s = Inr s1"
    using d assms(1) by (auto simp: on_heap_def data_pkt_free_def s1_def owned_def)
  have dom: "dom (ph_pkts (ss_heap s1)) = dom (ph_pkts ?h) - {k}" by (simp add: s1_def)
  have ms: "mset_set ps = add_mset k (mset_set (ps - {k}))"
    using assms by (auto simp: owned_def mset_set.remove)
  have md: "mset_set (dom (ph_pkts ?h)) = add_mset k (mset_set (dom (ph_pkts ?h) - {k}))"
    by (rule mset_set.remove) (use assms(1) d in \<open>auto simp: owned_def\<close>)
  have "mset (queued s1) + mset_set (ps - {k}) = mset_set (dom (ph_pkts (ss_heap s1)))"
    using assms(1) ms md unfolding dom by (simp add: owned_def s1_def)
  moreover have "heap_ok (ss_heap s1)" using assms(1) by (auto simp: owned_def heap_ok_def s1_def)
  ultimately have "owned s1 (ps - {k})"
    using assms(1) dom by (auto simp: owned_def s1_def)
  moreover have "frames s1 = frames s"
    unfolding s1_def by (rule frames_same_heap [OF assms(1)]) (use assms(2) in auto)
  moreover have "same_frame s s1" by (simp add: s1_def)
  ultimately show ?thesis using run by (auto simp: s1_def)
qed

section \<open>Loops\<close>

text \<open>The conclusion shared by the loops that hand out clones: the run succeeds, only queues and
  packets move, the packets in hand stay in hand and, given memory, the frame \<open>f\<close> is delivered
  to the ports in \<open>T\<close>.\<close>

definition clones_to :: "nat set \<Rightarrow> nat \<Rightarrow> nat set \<Rightarrow> switch_sys \<Rightarrow> switch_sys \<Rightarrow> bool" where
  "clones_to T k ps s s' \<longleftrightarrow> moved s s' \<and> owned s' ps \<and>
     ((\<forall>n. ph_alloc (ss_heap s) n) \<longrightarrow> frames s' = deliver T (frame_of (ss_heap s) k) (frames s))"

lemma clones_to_refl: "owned s ps \<Longrightarrow> clones_to {} k ps s s"
  by (simp add: clones_to_def)

lemma moved_frame_of:
  assumes "moved s s'" "owned s ps" "k \<in> ps"
  shows "frame_of (ss_heap s') k = frame_of (ss_heap s) k"
  using owned_dom [OF assms(2,3)] movedD(2) [OF assms(1)] by (auto simp: frame_of_def)

lemma moved_alloc: "moved s s' \<Longrightarrow> ph_alloc (ss_heap s') = ph_alloc (ss_heap s)"
  by (simp add: moved_def same_frame_def)

lemma moved_inv: "moved s s' \<Longrightarrow> switch_inv s \<Longrightarrow> switch_inv s'"
  using frame_inv movedD(1) by blast

lemma moved_port:
  assumes "moved s s'" "ss_ports s q = Some x"
  shows "\<exists>y. ss_ports s' q = Some y \<and> skel y = skel x"
  using frame_port(3) [OF movedD(1) [OF assms(1)] assms(2)] .

lemma clones_to_trans:
  assumes "clones_to A k ps s s'" "clones_to B k ps s' s''" "owned s ps" "k \<in> ps" "A \<inter> B = {}"
  shows "clones_to (A \<union> B) k ps s s''"
  using assms moved_trans [of s s' s''] moved_frame_of [of s s' ps k] moved_alloc [of s s']
  by (simp add: clones_to_def deliver_deliver)

lemma clone_to_clones:
  assumes "switch_inv s" "owned s ps" "k \<in> ps" "q \<in> set (all_ports s)"
  shows "\<exists>s'. clone_to q k s = Inr s' \<and> clones_to {q} k ps s s'"
  using clone_to_step [OF assms] by (simp add: clones_to_def)

lemma inv_port:
  "switch_inv s \<Longrightarrow> q \<in> set (all_ports s) \<Longrightarrow> \<exists>x. ss_ports s q = Some x \<and> port_ok x"
  by (simp add: switch_inv_def)

lemma port_at_Some [simp]: "ss_ports s p = Some x \<Longrightarrow> port_at s p = Inr x"
  by (simp add: port_at_def)

text \<open>One round of a loop that may hand a clone to port \<open>q\<close>.\<close>

lemma clones_Cons:
  assumes "switch_inv s" "owned s ps" "k \<in> ps" "distinct (q # qs)"
    and "set (q # qs) \<subseteq> set (all_ports s)"
    and "b \<longleftrightarrow> q \<in> T" and "\<And>s'. moved s s' \<Longrightarrow> switch_inv s' \<Longrightarrow> owned s' ps \<Longrightarrow>
      set qs \<subseteq> set (all_ports s') \<Longrightarrow> \<exists>s''. loop s' = Inr s'' \<and> clones_to (T \<inter> set qs) k ps s' s''"
  shows "\<exists>s''. and_then (if b then clone_to q k s else Inr s) loop = Inr s'' \<and>
    clones_to (T \<inter> set (q # qs)) k ps s s''"
proof -
  have q: "q \<in> set (all_ports s)" using assms(5) by simp
  obtain s1 where s1: "(if b then clone_to q k s else Inr s) = Inr s1"
    "clones_to (if q \<in> T then {q} else {}) k ps s s1"
    using clone_to_clones [OF assms(1-3) q] clones_to_refl [OF assms(2)] assms(6) by auto
  have mv: "moved s s1" and ow: "owned s1 ps" using s1(2) by (simp_all add: clones_to_def)
  have sub: "set qs \<subseteq> set (all_ports s1)"
    using assms(5) frame_views(1) [OF movedD(1) [OF mv]] by simp
  obtain s2 where s2: "loop s1 = Inr s2" "clones_to (T \<inter> set qs) k ps s1 s2"
    using assms(7) [OF mv moved_inv [OF mv assms(1)] ow sub] by blast
  have "(if q \<in> T then {q} else {}) \<inter> (T \<inter> set qs) = {}" using assms(4) by auto
  from clones_to_trans [OF s1(2) s2(2) assms(2,3) this]
  have "clones_to (T \<inter> set (q # qs)) k ps s s2" by (simp add: Int_insert_right split: if_splits)
  then show ?thesis using s1(1) s2(1) by simp
qed

lemma broadcast_local_step:
  assumes "switch_inv s" "owned s ps" "k \<in> ps" "distinct qs" "set qs \<subseteq> set (all_ports s)"
  shows "\<exists>s'. broadcast_local qs src k s = Inr s' \<and>
    clones_to ({q. q \<noteq> src \<and> link s q} \<inter> set qs) k ps s s'"
  using assms
proof (induction qs arbitrary: s)
  case Nil
  then show ?case using clones_to_refl by simp
next
  case (Cons q qs)
  obtain x where x: "ss_ports s q = Some x" using inv_port Cons.prems(1,5) by fastforce
  have lk: "cable_link_is_on x = link s q" by (simp add: link_def x)
  have "\<exists>s''. and_then (if q \<noteq> src \<and> cable_link_is_on x then clone_to q k s else Inr s)
      (broadcast_local qs src k) = Inr s'' \<and>
    clones_to ({q. q \<noteq> src \<and> link s q} \<inter> set (q # qs)) k ps s s''"
  proof (rule clones_Cons [OF Cons.prems])
    fix s' assume s': "moved s s'" "switch_inv s'" "owned s' ps" "set qs \<subseteq> set (all_ports s')"
    have "{q. q \<noteq> src \<and> link s' q} = {q. q \<noteq> src \<and> link s q}"
      using frame_views(2) [OF movedD(1) [OF s'(1)]] by simp
    then show "\<exists>s''. broadcast_local qs src k s' = Inr s'' \<and>
        clones_to ({q. q \<noteq> src \<and> link s q} \<inter> set qs) k ps s' s''"
      using Cons.IH [OF s'(2,3)] Cons.prems s'(4) by simp
  qed (simp add: lk)
  then show ?case by (simp add: x)
qed

text \<open>Reading the destination address.\<close>

definition dst_mac :: "switch_sys \<Rightarrow> nat \<Rightarrow> mac" where
  "dst_mac s k = take 6 (frame_of (ss_heap s) k)"

lemma payload_nth:
  assumes "pkt_wf d" "i < unat (dp_data_len d)"
  shows "arr_get (dp_buf d) (dp_data d + i) = Inr (payload d ! i)"
  using assms by (auto simp: pkt_wf_def payload_def)

lemma payload_length: "pkt_wf d \<Longrightarrow> length (payload d) = unat (dp_data_len d)"
  by (auto simp: pkt_wf_def payload_def)

lemma cmp_mac_addr_eq:
  assumes "pkt_wf d" "i + n \<le> length (payload d)" "i + n \<le> length m"
  shows "cmp_mac_addr n i d m = Inr (take n (drop i (payload d)) = take n (drop i m))"
  using assms
proof (induction n arbitrary: i)
  case 0
  then show ?case by simp
next
  case (Suc n)
  have split: "take (Suc n) (drop i xs) = xs ! i # take n (drop (Suc i) xs)"
    if "i < length xs" for xs :: "u8 list"
    using that by (simp add: Cons_nth_drop_Suc [symmetric])
  have "arr_get (dp_buf d) (dp_data d + i) = Inr (payload d ! i)"
    using Suc.prems payload_nth payload_length by simp
  then show ?case using Suc.IH [of "Suc i"] Suc.prems split by (simp)
qed

lemma is_broadcast_eq:
  assumes "pkt_wf d" "i + n \<le> length (payload d)"
  shows "is_broadcast_pkt n i d = Inr (take n (drop i (payload d)) = replicate n 0xff)"
  using assms
proof (induction n arbitrary: i)
  case 0
  then show ?case by simp
next
  case (Suc n)
  have split: "take (Suc n) (drop i (payload d)) = payload d ! i # take n (drop (Suc i) (payload d))"
    using Suc.prems by (simp add: Cons_nth_drop_Suc [symmetric])
  have "arr_get (dp_buf d) (dp_data d + i) = Inr (payload d ! i)"
    using Suc.prems payload_nth payload_length by simp
  then show ?case using Suc.IH [of "Suc i"] Suc.prems split by simp
qed

lemma is_multicast_eq:
  "pkt_wf d \<Longrightarrow> payload d \<noteq> [] \<Longrightarrow> is_multicast_pkt d = Inr (hd (payload d) = 1)"
  using payload_nth [of d 0] payload_length [of d]
  by (cases "unat (dp_data_len d)") (simp_all add: is_multicast_pkt_def hd_conv_nth)

lemma in_fdb_eq:
  assumes "pkt_wf d" "6 \<le> length (payload d)" "\<forall>m \<in> set ms. length m = 6"
  shows "in_fdb ms d = Inr (take 6 (payload d) \<in> set ms)"
  using assms(3)
proof (induction ms)
  case Nil
  then show ?case by simp
next
  case (Cons m ms)
  then show ?case using assms cmp_mac_addr_eq [of d 0 6 m] by (auto simp: MAC_ADDR_LEN_def)
qed

text \<open>The loops that may give the packet itself away, and say so with \<open>need_free\<close>.\<close>

definition hands_over :: "nat set \<Rightarrow> nat \<Rightarrow> nat set \<Rightarrow> switch_sys \<Rightarrow> bool \<times> switch_sys \<Rightarrow> bool" where
  "hands_over T k ps s r \<longleftrightarrow> moved s (snd r) \<and> owned (snd r) (if fst r then ps else ps - {k}) \<and>
     ((\<forall>n. ph_alloc (ss_heap s) n) \<longrightarrow>
       frames (snd r) = deliver T (frame_of (ss_heap s) k) (frames s))"

lemma hands_over_keep: "owned s ps \<Longrightarrow> hands_over {} k ps s (True, s)"
  by (simp add: hands_over_def)

lemma clones_hands_over:
  assumes "clones_to A k ps s s'" "hands_over B k ps s' r" "owned s ps" "k \<in> ps" "A \<inter> B = {}"
  shows "hands_over (A \<union> B) k ps s r"
  using assms moved_trans [of s s' "snd r"] moved_frame_of [of s s' ps k] moved_alloc [of s s']
  by (simp add: clones_to_def hands_over_def deliver_deliver)

lemma port_out_hands_over:
  assumes "switch_inv s" "owned s ps" "k \<in> ps" "q \<in> set (all_ports s)"
  shows "\<exists>s'. port_out_pkt q k s = Inr s' \<and> hands_over {q} k ps s (False, s')"
  using port_out_pkt_step [OF assms] by (auto simp: hands_over_def)

lemma out_to_remote_step:
  assumes "switch_inv s" "owned s ps" "k \<in> ps"
  shows "\<exists>r. out_to_remote k s = Inr r \<and> hands_over (remote_on s) k ps s r"
proof (cases "ss_remote_port s")
  case None
  then show ?thesis using hands_over_keep [OF assms(2)] by (simp add: out_to_remote_def remote_on_def)
next
  case (Some p)
  have p: "p \<in> set (all_ports s)" by (simp add: all_ports_def Some)
  obtain x where x: "ss_ports s p = Some x" using inv_port [OF assms(1) p] by blast
  show ?thesis
  proof (cases "cable_link_is_on x")
    case True
    then have "remote_on s = {p}" by (auto simp: remote_on_def Some link_def x)
    then show ?thesis using port_out_hands_over [OF assms p] True
      by (auto simp: out_to_remote_def Some x)
  next
    case False
    then have "remote_on s = {}" by (auto simp: remote_on_def Some link_def x)
    then show ?thesis using hands_over_keep [OF assms(2)] False
      by (simp add: out_to_remote_def Some x)
  qed
qed

lemma remote_round:
  assumes "switch_inv s" "owned s ps" "k \<in> ps" "q \<in> set (all_ports s)" "q \<notin> U"
    and "\<And>s'. clones_to {q} k ps s s' \<Longrightarrow> \<exists>r. loop s' = Inr r \<and> hands_over U k ps s' r"
  shows "\<exists>r. and_then (clone_to q k s) loop = Inr r \<and> hands_over (insert q U) k ps s r"
proof -
  obtain s1 where s1: "clone_to q k s = Inr s1" "clones_to {q} k ps s s1"
    using clone_to_clones [OF assms(1-4)] by blast
  obtain r where r: "loop s1 = Inr r" "hands_over U k ps s1 r" using assms(6) [OF s1(2)] by blast
  have "{q} \<inter> U = {}" using assms(5) by simp
  from clones_hands_over [OF s1(2) r(2) assms(2,3) this] show ?thesis using s1(1) r(1) by simp
qed

lemma clones_toD:
  assumes "clones_to A k ps s s'" "switch_inv s"
  shows "moved s s'" "owned s' ps" "switch_inv s'" "all_ports s' = all_ports s"
    "link s' q = link s q" "the_port s' q = y \<Longrightarrow> skel y = skel (the_port s q)"
proof -
  show m: "moved s s'" and "owned s' ps" using assms(1) by (simp_all add: clones_to_def)
  show "switch_inv s'" "all_ports s' = all_ports s" "link s' q = link s q"
    using moved_inv [OF m assms(2)] frame_views [OF movedD(1) [OF m]] by auto
  show "the_port s' q = y \<Longrightarrow> skel y = skel (the_port s q)"
    using frame_the_port [OF movedD(1) [OF m]] by auto
qed

lemma broadcast_remote_step:
  assumes "switch_inv s" "owned s ps" "k \<in> ps" "distinct qs" "set qs \<subseteq> set (all_ports s)"
  shows "\<exists>r. broadcast_remote qs k True s = Inr r \<and>
    hands_over ({q. link s q} \<inter> set qs) k ps s r"
  using assms
proof (induction qs arbitrary: s)
  case Nil
  then show ?case using hands_over_keep by simp
next
  case (Cons q qs)
  have q: "q \<in> set (all_ports s)" using Cons.prems(5) by simp
  obtain x where x: "ss_ports s q = Some x" using inv_port [OF Cons.prems(1) q] by blast
  have lk: "link s q = cable_link_is_on x" by (simp add: link_def x)
  show ?case
  proof (cases "cable_link_is_on x")
    case False
    then have "{q. link s q} \<inter> set (q # qs) = {q. link s q} \<inter> set qs" using lk by auto
    then show ?thesis using Cons False by (simp add: x)
  next
    case True
    then have eq: "{q. link s q} \<inter> set (q # qs) = insert q ({q. link s q} \<inter> set qs)"
      using lk by auto
    show ?thesis
    proof (cases "qs = []")
      case True
      then show ?thesis using port_out_hands_over [OF Cons.prems(1-3) q] \<open>cable_link_is_on x\<close> eq
        by (auto simp: x)
    next
      case False
      have "\<exists>r. and_then (clone_to q k s) (broadcast_remote qs k True) = Inr r \<and>
          hands_over (insert q ({q. link s q} \<inter> set qs)) k ps s r"
      proof (rule remote_round [OF Cons.prems(1-3) q])
        show "q \<notin> {q. link s q} \<inter> set qs" using Cons.prems(4) by simp
        fix s' assume "clones_to {q} k ps s s'"
        note cl = clones_toD [OF this Cons.prems(1)]
        show "\<exists>r. broadcast_remote qs k True s' = Inr r \<and>
            hands_over ({q. link s q} \<inter> set qs) k ps s' r"
          using Cons.IH [OF cl(3,2) Cons.prems(3)] Cons.prems(4,5) by (simp add: cl(4,5))
      qed
      then show ?thesis using True False eq by (simp add: x)
    qed
  qed
qed

text \<open>Multicast: the ports that have the address in their table.\<close>

definition fdb_hit :: "switch_sys \<Rightarrow> mac \<Rightarrow> nat \<Rightarrow> bool" where
  "fdb_hit s m q \<longleftrightarrow> m \<in> set (sp_fdb_table (the_port s q))"

lemma the_port_Some: "ss_ports s q = Some x \<Longrightarrow> the_port s q = x"
  by (simp add: the_port_def)

lemma fdb_test:
  assumes "switch_inv s" "q \<in> set (all_ports s)" "ss_ports s q = Some x"
    and "pkt_wf d" "6 \<le> length (payload d)"
  shows "in_fdb (sp_fdb_table x) d = Inr (fdb_hit s (take 6 (payload d)) q)"
proof -
  have "\<forall>m \<in> set (sp_fdb_table x). length m = 6"
    using inv_port [OF assms(1,2)] assms(3) by (auto simp: port_ok_def)
  then show ?thesis using in_fdb_eq [OF assms(4,5)] assms(3)
    by (simp add: fdb_hit_def the_port_Some)
qed

lemma moved_views:
  assumes "moved s s'"
  shows "link s' q = link s q" "fdb_hit s' m q = fdb_hit s m q"
    "sp_fdb_enabled (the_port s' q) = sp_fdb_enabled (the_port s q)"
    "all_ports s' = all_ports s" "remote_on s' = remote_on s"
  using frame_views [OF movedD(1) [OF assms]] frame_fields [OF movedD(1) [OF assms]]
  by (simp_all add: fdb_hit_def)

lemma multicast_local_step:
  assumes "switch_inv s" "owned s ps" "k \<in> ps" "distinct qs" "set qs \<subseteq> set (all_ports s)"
    and "ph_pkts (ss_heap s) k = Some d" "pkt_wf d" "6 \<le> length (payload d)"
  defines "m \<equiv> take 6 (payload d)"
  shows "\<exists>s'. multicast_local qs src k s = Inr s' \<and>
    clones_to ({q. q \<noteq> src \<and> link s q \<and> sp_fdb_enabled (the_port s q) \<and> fdb_hit s m q} \<inter> set qs)
      k ps s s'"
  using assms(1-6)
proof (induction qs arbitrary: s)
  case Nil
  then show ?case using clones_to_refl by simp
next
  case (Cons q qs)
  let ?T = "{q. q \<noteq> src \<and> link s q \<and> sp_fdb_enabled (the_port s q) \<and> fdb_hit s m q}"
  have q: "q \<in> set (all_ports s)" using Cons.prems(5) by simp
  obtain x where x: "ss_ports s q = Some x" using inv_port [OF Cons.prems(1) q] by blast
  have b: "link s q = cable_link_is_on x" "the_port s q = x"
    by (simp_all add: link_def x the_port_Some)
  have "\<exists>s''. and_then (if q \<in> ?T then clone_to q k s else Inr s) (multicast_local qs src k)
      = Inr s'' \<and> clones_to (?T \<inter> set (q # qs)) k ps s s''"
  proof (rule clones_Cons [OF Cons.prems(1-5) refl])
    fix s' assume s': "moved s s'" "switch_inv s'" "owned s' ps" "set qs \<subseteq> set (all_ports s')"
    show "\<exists>s''. multicast_local qs src k s' = Inr s'' \<and> clones_to (?T \<inter> set qs) k ps s' s''"
      using Cons.IH [OF s'(2,3)] Cons.prems s'(4) movedD(2) [OF s'(1)]
      by (simp add: moved_views [OF s'(1)])
  qed
  moreover have "in_fdb (sp_fdb_table x) d = Inr (fdb_hit s m q)"
    unfolding m_def by (rule fdb_test [OF Cons.prems(1) q x assms(7,8)])
  ultimately show ?case using Cons.prems(6)
    by (auto simp: x b split: if_splits)
qed

lemma multicast_remote_step:
  assumes "switch_inv s" "owned s ps" "k \<in> ps" "distinct qs" "set qs \<subseteq> set (all_ports s)"
    and "ph_pkts (ss_heap s) k = Some d" "pkt_wf d" "6 \<le> length (payload d)"
  defines "m \<equiv> take 6 (payload d)"
  shows "\<exists>r. multicast_remote qs k True s = Inr r \<and>
    hands_over ({q. link s q \<and> fdb_hit s m q} \<inter> set qs) k ps s r"
  using assms(1-6)
proof (induction qs arbitrary: s)
  case Nil
  then show ?case using hands_over_keep by simp
next
  case (Cons q qs)
  let ?T = "{q. link s q \<and> fdb_hit s m q}"
  have q: "q \<in> set (all_ports s)" using Cons.prems(5) by simp
  obtain x where x: "ss_ports s q = Some x" using inv_port [OF Cons.prems(1) q] by blast
  have lk: "link s q = cable_link_is_on x" by (simp add: link_def x)
  have hit: "in_fdb (sp_fdb_table x) d = Inr (fdb_hit s m q)"
    unfolding m_def by (rule fdb_test [OF Cons.prems(1) q x assms(7,8)])
  show ?case
  proof (cases "q \<in> ?T")
    case False
    then have "?T \<inter> set (q # qs) = ?T \<inter> set qs" by auto
    then show ?thesis using Cons False lk by (auto simp: x hit)
  next
    case True
    then have eq: "?T \<inter> set (q # qs) = insert q (?T \<inter> set qs)" by auto
    show ?thesis
    proof (cases "qs = []")
      case True
      then show ?thesis using port_out_hands_over [OF Cons.prems(1-3) q] \<open>q \<in> ?T\<close> eq lk Cons.prems(6)
        by (auto simp: x hit)
    next
      case False
      have "\<exists>r. and_then (clone_to q k s) (multicast_remote qs k True) = Inr r \<and>
          hands_over (insert q (?T \<inter> set qs)) k ps s r"
      proof (rule remote_round [OF Cons.prems(1-3) q])
        show "q \<notin> ?T \<inter> set qs" using Cons.prems(4) by simp
        fix s' assume "clones_to {q} k ps s s'"
        note cl = clones_toD [OF this Cons.prems(1)]
        show "\<exists>r. multicast_remote qs k True s' = Inr r \<and> hands_over (?T \<inter> set qs) k ps s' r"
          using Cons.IH [OF cl(3,2) Cons.prems(3)] Cons.prems(4-6) movedD(2) [OF cl(1)]
          by (simp add: moved_views [OF cl(1)])
      qed
      then show ?thesis using True False eq lk Cons.prems(6) by (simp add: x hit)
    qed
  qed
qed

section \<open>Forwarding a packet\<close>

text \<open>The end of an operation: no packet in hand, the structure kept, the frame delivered.\<close>

definition forwarded :: "nat set \<Rightarrow> u8 list \<Rightarrow> switch_sys \<Rightarrow> switch_sys \<Rightarrow> bool" where
  "forwarded T f s s' \<longleftrightarrow> same_frame s s' \<and> owned s' {} \<and>
     ((\<forall>n. ph_alloc (ss_heap s) n) \<longrightarrow> frames s' = deliver T f (frames s))"

lemma free_if_step:
  assumes "hands_over T k {k} s r"
  shows "\<exists>s'. free_if k r = Inr s' \<and> forwarded T (frame_of (ss_heap s) k) s s'"
proof (cases "fst r")
  case True
  then have own: "owned (snd r) {k}" using assms by (simp add: hands_over_def)
  obtain s' where s': "on_heap (data_pkt_free k) (snd r) = Inr s'" "same_frame (snd r) s'"
    "owned s' {}" "frames s' = frames (snd r)"
    using free_step [OF own, of k] by auto
  then show ?thesis using assms True same_frame_trans [OF _ s'(2), of s]
    by (auto simp: free_if_def hands_over_def forwarded_def moved_def)
next
  case False
  then show ?thesis using assms by (auto simp: free_if_def hands_over_def forwarded_def moved_def)
qed

lemma clones_then:
  assumes "clones_to A k ps s s'" "\<exists>r. out_to_remote k s' = Inr r \<and> hands_over B k ps s' r"
    and "owned s ps" "k \<in> ps" "A \<inter> B = {}"
  shows "\<exists>r. out_to_remote k s' = Inr r \<and> hands_over (A \<union> B) k ps s r"
  using assms clones_hands_over [OF assms(1) _ assms(3-5)] by blast

lemma locals_sub: "set (ss_local_port_list s) \<subseteq> set (all_ports s)"
  "distinct (all_ports s) \<Longrightarrow> distinct (ss_local_port_list s)"
  "distinct (all_ports s) \<Longrightarrow> remote_on s \<inter> set (ss_local_port_list s) = {}"
  by (auto simp: all_ports_def remote_on_def split: option.splits)

lemma the_port_local:
  "ss_ports s src = Some x \<Longrightarrow> sp_is_local (the_port s src) = sp_is_local x"
  by (simp add: the_port_def)

lemma broadcast_pkt_step:
  assumes "switch_inv s" "owned s {k}" "ss_ports s src = Some x"
    and "frame_of (ss_heap s) k = f" "take 6 f = replicate 6 0xff"
  shows "\<exists>s'. broadcast_pkt src k s = Inr s' \<and> forwarded (forward_set s src f) f s s'"
proof -
  let ?L = "ss_local_port_list s"
  have di: "distinct (all_ports s)" using assms(1) by (simp add: switch_inv_def)
  have "\<exists>r. (if sp_is_local x then and_then (broadcast_local ?L src k s) (out_to_remote k)
        else broadcast_remote ?L k True s) = Inr r \<and> hands_over (forward_set s src f) k {k} s r"
  proof (cases "sp_is_local x")
    case True
    obtain s1 where s1: "broadcast_local ?L src k s = Inr s1"
      "clones_to ({q. q \<noteq> src \<and> link s q} \<inter> set ?L) k {k} s s1"
      using broadcast_local_step [OF assms(1,2) _ locals_sub(2) [OF di] locals_sub(1)] by blast
    note cl = clones_toD [OF s1(2) assms(1)]
    have "\<exists>r. out_to_remote k s1 = Inr r \<and> hands_over (remote_on s) k {k} s1 r"
      using out_to_remote_step [OF cl(3,2)] moved_views(5) [OF cl(1)] by simp
    from clones_then [OF s1(2) this assms(2)] locals_sub(3) [OF di]
    have "\<exists>r. out_to_remote k s1 = Inr r \<and>
        hands_over (({q. q \<noteq> src \<and> link s q} \<inter> set ?L) \<union> remote_on s) k {k} s r" by blast
    moreover have "forward_set s src f = ({q. q \<noteq> src \<and> link s q} \<inter> set ?L) \<union> remote_on s"
      using True assms(5) by (auto simp: forward_set_def the_port_local [OF assms(3)])
    ultimately show ?thesis using True s1(1) by simp
  next
    case False
    have "forward_set s src f = {q. link s q} \<inter> set ?L"
      using False assms(5) by (auto simp: forward_set_def the_port_local [OF assms(3)])
    then show ?thesis
      using False broadcast_remote_step [OF assms(1,2) _ locals_sub(2) [OF di] locals_sub(1)] by simp
  qed
  then obtain r where r: "(if sp_is_local x then and_then (broadcast_local ?L src k s) (out_to_remote k)
        else broadcast_remote ?L k True s) = Inr r" "hands_over (forward_set s src f) k {k} s r"
    by blast
  show ?thesis using free_if_step [OF r(2)] r(1) assms(3,4) by (simp add: broadcast_pkt_def)
qed

lemma multicast_pkt_step:
  assumes "switch_inv s" "owned s {k}" "ss_ports s src = Some x"
    and "ph_pkts (ss_heap s) k = Some d" "pkt_wf d" "6 \<le> length (payload d)" "payload d = f"
    and "take 6 f \<noteq> replicate 6 0xff" "hd f = 1"
  shows "\<exists>s'. multicast_pkt src k s = Inr s' \<and> forwarded (forward_set s src f) f s s'"
proof -
  let ?L = "ss_local_port_list s" and ?m = "take 6 (payload d)"
  have di: "distinct (all_ports s)" using assms(1) by (simp add: switch_inv_def)
  have fr: "frame_of (ss_heap s) k = f" using assms(4,7) by (simp add: frame_of_def)
  have "\<exists>r. (if sp_is_local x then and_then (multicast_local ?L src k s) (out_to_remote k)
        else multicast_remote ?L k True s) = Inr r \<and> hands_over (forward_set s src f) k {k} s r"
  proof (cases "sp_is_local x")
    case True
    let ?T = "{q. q \<noteq> src \<and> link s q \<and> sp_fdb_enabled (the_port s q) \<and> fdb_hit s ?m q} \<inter> set ?L"
    obtain s1 where s1: "multicast_local ?L src k s = Inr s1" "clones_to ?T k {k} s s1"
      using multicast_local_step [OF assms(1,2) _ locals_sub(2) [OF di] locals_sub(1) assms(4-6)]
      by blast
    note cl = clones_toD [OF s1(2) assms(1)]
    have "\<exists>r. out_to_remote k s1 = Inr r \<and> hands_over (remote_on s) k {k} s1 r"
      using out_to_remote_step [OF cl(3,2)] moved_views(5) [OF cl(1)] by simp
    from clones_then [OF s1(2) this assms(2)] locals_sub(3) [OF di]
    have "\<exists>r. out_to_remote k s1 = Inr r \<and> hands_over (?T \<union> remote_on s) k {k} s r" by blast
    moreover have "forward_set s src f = ?T \<union> remote_on s"
      using True assms(7-9) by (auto simp: forward_set_def the_port_local [OF assms(3)] fdb_hit_def)
    ultimately show ?thesis using True s1(1) by simp
  next
    case False
    have "forward_set s src f = {q. link s q \<and> fdb_hit s ?m q} \<inter> set ?L"
      using False assms(7-9) by (auto simp: forward_set_def the_port_local [OF assms(3)] fdb_hit_def)
    then show ?thesis using False
        multicast_remote_step [OF assms(1,2) _ locals_sub(2) [OF di] locals_sub(1) assms(4-6)] by simp
  qed
  then obtain r where r: "(if sp_is_local x then and_then (multicast_local ?L src k s) (out_to_remote k)
        else multicast_remote ?L k True s) = Inr r" "hands_over (forward_set s src f) k {k} s r"
    by blast
  show ?thesis using free_if_step [OF r(2)] r(1) assms(3) fr by (simp add: multicast_pkt_def)
qed

lemma find_mem: "find P xs = Some x \<Longrightarrow> x \<in> set xs"
  by (induction xs) (auto split: if_splits)

lemma find_local_port_eq:
  assumes "switch_inv s" "set qs \<subseteq> set (all_ports s)" "pkt_wf d" "6 \<le> length (payload d)"
  shows "find_local_port s qs d = Inr (find (\<lambda>q. sp_power_on (the_port s q) \<and>
    sp_mac_addr (the_port s q) = take 6 (payload d)) qs)"
  using assms(2)
proof (induction qs)
  case Nil
  then show ?case by simp
next
  case (Cons q qs)
  then obtain x where x: "ss_ports s q = Some x" "port_ok x"
    using inv_port [OF assms(1), of q] by auto
  have "cmp_mac_addr MAC_ADDR_LEN 0 d (sp_mac_addr x) = Inr (take 6 (payload d) = sp_mac_addr x)"
    using cmp_mac_addr_eq [OF assms(3), of 0 6 "sp_mac_addr x"] assms(4) x(2)
    by (simp add: MAC_ADDR_LEN_def port_ok_def)
  then show ?case using Cons by (auto simp: x(1) the_port_Some [OF x(1)])
qed

lemma drop_counted:
  assumes "owned s {k}"
  shows "\<exists>s'. and_then (on_heap (data_pkt_free k) s) (\<lambda>s'.
      Inr (upd_port src (\<lambda>x. x\<lparr>sp_in_dropped := sp_in_dropped x + 1\<rparr>) s')) = Inr s' \<and>
    forwarded {} f s s'"
proof -
  obtain s1 where s1: "on_heap (data_pkt_free k) s = Inr s1" "same_frame s s1" "owned s1 {}"
    "frames s1 = frames s" using free_step [OF assms, of k] by auto
  let ?s = "upd_port src (\<lambda>x. x\<lparr>sp_in_dropped := sp_in_dropped x + 1\<rparr>) s1"
  have fr: "same_frame s1 ?s" by (rule same_frame_upd_port) (simp add: skel_def)
  have oq: "out_queue ?s = out_queue s1"
    by (auto simp: fun_eq_iff out_queue_def upd_port_def split: option.splits)
  have "owned ?s {}" using s1(3) by (simp add: owned_def queued_def oq frame_views(1) [OF fr])
  moreover have "frames ?s = frames s1"
    by (simp add: fun_eq_iff frames_def oq frame_views(1) [OF fr])
  ultimately show ?thesis using s1 same_frame_trans [OF s1(2) fr] by (simp add: forwarded_def)
qed

lemma unicast_pkt_step:
  assumes "switch_inv s" "owned s {k}" "ss_ports s src = Some x"
    and "ph_pkts (ss_heap s) k = Some d" "pkt_wf d" "6 \<le> length (payload d)" "payload d = f"
    and "take 6 f \<noteq> replicate 6 0xff" "hd f \<noteq> 1"
  shows "\<exists>s'. unicast_pkt src k d s = Inr s' \<and> forwarded (forward_set s src f) f s s'"
proof -
  have fr: "frame_of (ss_heap s) k = f" using assms(4,7) by (simp add: frame_of_def)
  have dst: "find_dst_port s src d = Inr (unicast_dst s src (take 6 f))"
    using find_local_port_eq [OF assms(1) locals_sub(1) assms(5,6)] assms(3,7)
    by (simp add: find_dst_port_def unicast_dst_def the_port_local split: option.split)
  have fs: "forward_set s src f = {q. unicast_dst s src (take 6 f) = Some q \<and> link s q}"
    using assms(8,9) by (simp add: forward_set_def Let_def)
  show ?thesis
  proof (cases "unicast_dst s src (take 6 f)")
    case None
    then show ?thesis using drop_counted [OF assms(2)] fs by (simp add: unicast_pkt_def dst)
  next
    case (Some q)
    have q: "q \<in> set (all_ports s)"
      using Some by (auto simp: unicast_dst_def all_ports_def dest: find_mem split: option.splits if_splits)
    obtain y where y: "ss_ports s q = Some y" using inv_port [OF assms(1) q] by blast
    show ?thesis
    proof (cases "cable_link_is_on y")
      case True
      then have "link s q" by (simp add: link_def y)
      then have "forward_set s src f = {q}" unfolding fs Some by auto
      moreover obtain s' where s': "port_out_pkt q k s = Inr s'" "moved s s'" "owned s' ({k} - {k})"
        "frames s' = deliver {q} (frame_of (ss_heap s) k) (frames s)"
        using port_out_pkt_step [OF assms(1,2) singletonI q] by blast
      ultimately show ?thesis using \<open>cable_link_is_on y\<close> fr movedD(1) [OF s'(2)]
        by (simp add: unicast_pkt_def dst Some y forwarded_def)
    next
      case False
      then have "\<not> link s q" by (simp add: link_def y)
      then have "forward_set s src f = {}" unfolding fs Some by auto
      then show ?thesis using drop_counted [OF assms(2)] False
        by (simp add: unicast_pkt_def dst Some y)
    qed
  qed
qed

lemma switch_pkt_step:
  assumes "switch_inv s" "owned s {k}" "src \<in> set (all_ports s)"
    and "ph_pkts (ss_heap s) k = Some d" "6 \<le> length (payload d)"
  shows "\<exists>s'. switch_pkt src k s = Inr s' \<and>
    forwarded (forward_set s src (payload d)) (payload d) s s'"
proof -
  have wf: "pkt_wf d" using assms(2,4) by (simp add: owned_def heap_ok_def)
  obtain x where x: "ss_ports s src = Some x" using inv_port [OF assms(1,3)] by blast
  have "is_broadcast_pkt MAC_ADDR_LEN 0 d = Inr (take 6 (payload d) = replicate 6 0xff)"
    using is_broadcast_eq [OF wf, of 0 6] assms(5) by (simp add: MAC_ADDR_LEN_def)
  moreover have "is_multicast_pkt d = Inr (hd (payload d) = 1)"
    using is_multicast_eq [OF wf] assms(5) by fastforce
  moreover have "frame_of (ss_heap s) k = payload d" using assms(4) by (simp add: frame_of_def)
  ultimately show ?thesis
    using broadcast_pkt_step [OF assms(1,2) x, of "payload d"]
      multicast_pkt_step [OF assms(1,2) x assms(4) wf assms(5) refl]
      unicast_pkt_step [OF assms(1,2) x assms(4) wf assms(5) refl] assms(4)
    by (simp add: switch_pkt_def)
qed

section \<open>Events and whole operations\<close>

lemma upd_port_quiet:
  assumes "\<And>x. skel (f x) = skel x" "\<And>x. sp_data_out (f x) = sp_data_out x"
  shows "same_frame s (upd_port p f s)" "frames (upd_port p f s) = frames s"
    "owned (upd_port p f s) ps = owned s ps"
proof -
  show fr: "same_frame s (upd_port p f s)" by (rule same_frame_upd_port) (rule assms(1))
  have oq: "out_queue (upd_port p f s) = out_queue s"
    using assms(2) by (auto simp: fun_eq_iff out_queue_def upd_port_def split: option.splits)
  show "frames (upd_port p f s) = frames s"
    by (simp add: fun_eq_iff frames_def oq frame_views(1) [OF fr])
  show "owned (upd_port p f s) ps = owned s ps"
    by (simp add: owned_def queued_def oq frame_views(1) [OF fr])
qed

text \<open>What operations that move no packet leave alone.\<close>

definition quiet :: "switch_sys \<Rightarrow> switch_sys \<Rightarrow> bool" where
  "quiet s s' \<longleftrightarrow> same_frame s s' \<and> frames s' = frames s \<and> ss_heap s' = ss_heap s \<and>
     (\<forall>ps. owned s' ps = owned s ps)"

lemma quiet_upd_port:
  "(\<And>x. skel (f x) = skel x) \<Longrightarrow> (\<And>x. sp_data_out (f x) = sp_data_out x) \<Longrightarrow>
    quiet s (upd_port p f s)"
  using upd_port_quiet [of f] by (simp add: quiet_def)

lemma quiet_trans: "quiet s s' \<Longrightarrow> quiet s' s'' \<Longrightarrow> quiet s s''"
  by (auto simp: quiet_def intro: same_frame_trans)

lemma notify_port_facts: "skel (notify_port x) = skel x" "sp_data_out (notify_port x) = sp_data_out x"
  by (simp_all add: notify_port_def) (simp add: skel_def)

lemma notify_list_quiet:
  assumes "switch_inv s" "set qs \<subseteq> set (all_ports s)"
  shows "\<exists>s'. notify_list qs s = Inr s' \<and> quiet s s'"
  using assms
proof (induction qs arbitrary: s)
  case Nil
  then show ?case by (simp add: quiet_def)
next
  case (Cons q qs)
  obtain x where x: "ss_ports s q = Some x" using inv_port [OF Cons.prems(1), of q] Cons.prems(2) by auto
  let ?s = "upd_port q notify_port s"
  have qt: "quiet s ?s" by (rule quiet_upd_port) (rule notify_port_facts)+
  then have fr: "same_frame s ?s" by (simp add: quiet_def)
  obtain s' where "notify_list qs ?s = Inr s'" "quiet ?s s'"
    using Cons.IH [of ?s] frame_inv [OF fr Cons.prems(1)] Cons.prems(2) frame_views(1) [OF fr] by auto
  then show ?case using quiet_trans [OF qt] by (auto simp: x)
qed

lemma notify_ports_quiet:
  assumes "switch_inv s"
  shows "\<exists>s'. notify_ports s = Inr s' \<and> quiet s s'"
proof -
  have "\<exists>s'. (case ss_remote_port s of None \<Rightarrow> Inr s | Some r \<Rightarrow> notify_list [r] s) = Inr s' \<and> quiet s s'"
  proof (cases "ss_remote_port s")
    case None
    then show ?thesis by (simp add: quiet_def)
  next
    case (Some r)
    then have "set [r] \<subseteq> set (all_ports s)" by (simp add: all_ports_def)
    from notify_list_quiet [OF assms this] show ?thesis using Some by simp
  qed
  then obtain s1 where s1: "(case ss_remote_port s of None \<Rightarrow> Inr s | Some r \<Rightarrow> notify_list [r] s) = Inr s1"
    "quiet s s1" by blast
  have fr: "same_frame s s1" using s1(2) by (simp add: quiet_def)
  obtain s2 where "notify_list (ss_local_port_list s1) s1 = Inr s2" "quiet s1 s2"
    using notify_list_quiet [OF frame_inv [OF fr assms] locals_sub(1)] by blast
  then show ?thesis using s1 quiet_trans [OF s1(2)] frame_views(4) [OF fr]
    by (auto simp: notify_ports_def)
qed

lemma quiet_forwarded:
  assumes "quiet s s1" "forwarded T f s1 s2" "quiet s2 s3"
  shows "forwarded T f s s3"
  using assms same_frame_trans [of s s1 s2] same_frame_trans [of s s2 s3]
  by (auto simp: quiet_def forwarded_def)

lemma in_nocpy_step:
  assumes "switch_inv s" "owned s {k}" "src \<in> set (all_ports s)"
    and "ph_pkts (ss_heap s) k = Some d" "6 \<le> length (payload d)"
  shows "\<exists>s'. port_in_pkt_nocpy src k notify s = Inr s' \<and>
    forwarded (forward_set s src (payload d)) (payload d) s s'"
proof -
  let ?s = "upd_port src (\<lambda>x. x\<lparr>sp_in := sp_in x + 1\<rparr>) s"
  obtain x where x: "ss_ports s src = Some x" using inv_port [OF assms(1,3)] by blast
  have q1: "quiet s ?s" by (rule quiet_upd_port) (simp_all add: skel_def)
  then have fr: "same_frame s ?s" by (simp add: quiet_def)
  have k: "ph_pkts (ss_heap ?s) k = Some d" using assms(4) by simp
  have own: "owned ?s {k}" using q1 assms(2) by (simp add: quiet_def)
  have src: "src \<in> set (all_ports ?s)" using assms(3) frame_views(1) [OF fr] by simp
  obtain s2 where s2: "switch_pkt src k ?s = Inr s2"
    "forwarded (forward_set ?s src (payload d)) (payload d) ?s s2"
    using switch_pkt_step [OF frame_inv [OF fr assms(1)] own src k assms(5)] by blast
  have inv2: "switch_inv s2"
    using s2(2) frame_inv [OF _ frame_inv [OF fr assms(1)]] by (auto simp: forwarded_def)
  have "\<exists>s3. (if notify then notify_ports s2 else Inr s2) = Inr s3 \<and> quiet s2 s3"
    using notify_ports_quiet [OF inv2] by (simp add: quiet_def)
  then obtain s3 where s3: "(if notify then notify_ports s2 else Inr s2) = Inr s3" "quiet s2 s3"
    by blast
  have "forwarded (forward_set s src (payload d)) (payload d) s s3"
    using quiet_forwarded [OF q1 s2(2) s3(2)] forward_set_frame [OF fr] by simp
  then show ?thesis using s2(1) s3(1) by (auto simp: port_in_pkt_nocpy_def x)
qed

lemma in_pkt_step:
  assumes "switch_inv s" "owned s {}" "src \<in> set (all_ports s)" "sp_power_on (the_port s src)"
    and "6 \<le> length f" "length f + 128 < 2 ^ 32" "ph_alloc (ss_heap s) (ph_next (ss_heap s))"
  shows "\<exists>s'. port_in_pkt src f notify s = Inr s' \<and> forwarded (forward_set s src f) f s s'"
proof -
  let ?h = "ss_heap s" and ?n = "ph_next (ss_heap s)" and ?l = "of_nat (length f) :: u32"
    and ?c = "push_bit DATA_PKT_FLAG_CAN_FREE 1 :: u32"
  obtain x where x: "ss_ports s src = Some x" using inv_port [OF assms(1,3)] by blast
  have l: "unat ?l = length f" using assms(6) by simp
  define d where "d = filled ?l f ?c"
  have le: "length f \<le> unat ?l" using l by simp
  have pos: "0 < unat ?l" "unat ?l + 128 < 2 ^ 32" using assms(5,6) l by auto
  have d: "payload d = f" "dp_flags d = ?c" "pkt_wf d"
    using filled_facts [OF le, of ?c] pos by (simp_all add: d_def)
  have fl: "bit (dp_flags d) DATA_PKT_FLAG_CAN_FREE" "\<not> bit (dp_flags d) DATA_PKT_FLAG_STATIC_BUFF"
    by (simp_all add: d(2) pkt_consts)
  define s1 where "s1 = s\<lparr>ss_heap := ?h\<lparr>ph_next := Suc ?n, ph_pkts := (ph_pkts ?h)(?n \<mapsto> d)\<rparr>\<rparr>"
  have own: "owned s1 {?n}" and new: "?n \<notin> dom (ph_pkts ?h)"
    using owned_insert [OF assms(2) _ d(3) fl, of ?n] by (simp_all add: s1_def)
  have fr: "same_frame s s1" by (simp add: s1_def)
  have frm: "frames s1 = frames s"
    unfolding s1_def by (rule frames_same_heap [OF assms(2)]) (use new in auto)
  have k: "ph_pkts (ss_heap s1) ?n = Some d" by (simp add: s1_def)
  have src: "src \<in> set (all_ports s1)" using assms(3) frame_views(1) [OF fr] by simp
  obtain s2 where s2: "port_in_pkt_nocpy src ?n notify s1 = Inr s2"
    "forwarded (forward_set s1 src (payload d)) (payload d) s1 s2"
    using in_nocpy_step [OF frame_inv [OF fr assms(1)] own src k] assms(5) d(1) by auto
  let ?h1 = "?h\<lparr>ph_next := Suc ?n, ph_pkts := (ph_pkts ?h)(?n \<mapsto> fresh_pkt ?l ?c)\<rparr>"
  have "and_then (data_pkt_fill ?n f ?h1) (data_pkt_set_len ?n ?l) = Inr (ss_heap s1)"
    using fill_fresh [of ?h1 ?n ?l ?c f] le by (simp add: s1_def d_def)
  then have fill: "and_then (data_pkt_fill ?n f ?h1) (\<lambda>h. and_then (data_pkt_set_len ?n ?l h) g) =
      g (ss_heap s1)" for g :: "pkt_heap \<Rightarrow> switch_sys outcome"
    by (simp flip: and_then_assoc)
  have s1': "s\<lparr>ss_heap := ss_heap s1\<rparr> = s1" by (simp add: s1_def)
  have on: "sp_power_on x" using assms(4) by (simp add: the_port_Some [OF x])
  have "port_in_pkt src f notify s = Inr s2"
    unfolding port_in_pkt_def port_at_Some [OF x] and_then.simps Let_def
    by (simp only: on alloc_fresh [OF assms(7) pos, of ?c] and_then.simps prod.case option.case
        not_True_eq_False if_False and_then_assoc fill s1' s2(1))
  moreover have "forwarded (forward_set s src f) f s s2"
  proof -
    have al: "ph_alloc (ss_heap s1) = ph_alloc ?h" by (simp add: s1_def)
    have "same_frame s1 s2" "owned s2 {}" using s2(2) by (simp_all add: forwarded_def)
    moreover have "(\<forall>n. ph_alloc ?h n) \<longrightarrow> frames s2 = deliver (forward_set s src f) f (frames s)"
      using s2(2) unfolding forwarded_def d(1) forward_set_frame [OF fr] frm al by blast
    ultimately show ?thesis using same_frame_trans [OF fr] by (simp add: forwarded_def)
  qed
  ultimately show ?thesis by blast
qed

section \<open>Sending queued packets\<close>

lemma owned_pop:
  assumes "switch_inv s" "owned s {}" "p \<in> set (all_ports s)" "ss_ports s p = Some x"
    and "sp_data_out x = k # ks" "skel y = skel x" "sp_data_out y = ks"
    and "t = s\<lparr>ss_out_calls := c, ss_ports := (ss_ports s)(p \<mapsto> y)\<rparr>"
  shows "same_frame s t" "owned t {k}" "frames t = (frames s)(p := map (frame_of (ss_heap s)) ks)"
proof -
  show fr: "same_frame s t" using assms(4,6) by (simp add: same_frame_def assms(8))
  have oq: "out_queue t q = (if q = p then ks else out_queue s q)" for q
    by (simp add: assms(7,8) out_queue_def)
  have qp: "out_queue s p = k # ks" by (simp add: out_queue_def assms(4,5))
  have "mset (queued s) = add_mset k (mset (queued t))"
  proof -
    have "mset (concat (map (rev \<circ> out_queue s) (all_ports s))) =
        add_mset k (mset (concat (map (rev \<circ> out_queue t) (all_ports s))))"
      by (rule mset_concat_add [OF _ assms(3)]) (use assms(1) oq qp in \<open>auto simp: switch_inv_def\<close>)
    moreover have "mset (concat (map (rev \<circ> g) ps)) = mset (concat (map g ps))" for g :: "nat \<Rightarrow> nat list" and ps
      by (induction ps) auto
    ultimately show ?thesis by (simp add: queued_def frame_views(1) [OF fr])
  qed
  moreover have hp: "ss_heap t = ss_heap s" by (simp add: assms(8))
  ultimately show "owned t {k}" using assms(2) by (simp add: owned_def)
  show "frames t = (frames s)(p := map (frame_of (ss_heap s)) ks)"
    using assms(3) by (auto simp: fun_eq_iff frames_def oq frame_views(1) [OF fr] hp)
qed

lemma send_queued_step:
  assumes "switch_inv s" "owned s {}" "p \<in> set (all_ports s)" "out_queue s p = ks"
  shows "\<exists>s'. send_queued p ks s = Inr s' \<and> same_frame s s' \<and> owned s' {} \<and>
    frames s' = (frames s)(p := []) \<and>
    ss_out_calls s' = ss_out_calls s @ map (Pair p) (frames s p)"
  using assms
proof (induction ks arbitrary: s)
  case Nil
  then have "frames s p = []" by (simp add: frames_def)
  then show ?case using Nil by (auto simp: fun_eq_iff)
next
  case (Cons k ks)
  obtain x where x: "ss_ports s p = Some x" "0 < sp_data_out_sem x"
    using inv_port [OF Cons.prems(1,3)] by (auto simp: port_ok_def)
  have dq: "sp_data_out x = k # ks" using Cons.prems(4) x(1) by (simp add: out_queue_def)
  have kq: "k \<in> set (queued s)" using out_queue_queued [OF Cons.prems(3)] Cons.prems(4) by simp
  obtain d where d: "ph_pkts (ss_heap s) k = Some d"
    using owned_queued(1) [OF Cons.prems(2) kq] by auto
  have cf: "bit (dp_flags d) DATA_PKT_FLAG_CAN_FREE" using Cons.prems(2) d by (simp add: owned_def)
  define y where "y = x\<lparr>sp_out := sp_out x + 1, sp_data_out := ks\<rparr>"
  define t where "t = s\<lparr>ss_out_calls := ss_out_calls s @ [(p, payload d)],
    ss_ports := (ss_ports s)(p \<mapsto> y)\<rparr>"
  have ysk: "skel y = skel x" "sp_data_out y = ks" by (simp_all add: y_def skel_def)
  note pop = owned_pop [OF Cons.prems(1-3) x(1) dq ysk t_def]
  obtain s1 where s1: "on_heap (data_pkt_free k) t = Inr s1" "same_frame t s1" "owned s1 ({k} - {k})"
    "frames s1 = frames t" "\<forall>j. j \<noteq> k \<longrightarrow> ph_pkts (ss_heap s1) j = ph_pkts (ss_heap t) j"
    using free_step [OF pop(2) singletonI] by blast
  have pp: "ss_ports s1 = ss_ports t" "ss_out_calls s1 = ss_out_calls t"
    using s1(1) by (auto simp: on_heap_def outcome_simps)
  have frs1: "same_frame s s1" using same_frame_trans [OF pop(1) s1(2)] .
  have run: "send_queued p (k # ks) s = send_queued p ks s1"
  proof -
    have "x\<lparr>sp_out := sp_out x + 1, sp_data_out_sem := Suc (sp_data_out_sem x - 1),
        sp_data_out := ks\<rparr> = y"
      using x(2) by (simp add: y_def)
    then show ?thesis using s1(1) d cf x dq
      by (simp add: take_out_sem_def give_out_sem_def list_del_out_def upd_port_def t_def y_def)
  qed
  have p1: "p \<in> set (all_ports s1)" using Cons.prems(3) frame_views(1) [OF frs1] by simp
  have oq1: "out_queue s1 p = ks" by (simp add: out_queue_def pp t_def y_def)
  have own1: "owned s1 {}" using s1(3) by simp
  have fp: "frames s p = payload d # map (frame_of (ss_heap s)) ks"
    using Cons.prems(3,4) d by (simp add: frames_def frame_of_def)
  obtain s' where s': "send_queued p ks s1 = Inr s'" "same_frame s1 s'" "owned s' {}"
    "frames s' = (frames s1)(p := [])" "ss_out_calls s' = ss_out_calls s1 @ map (Pair p) (frames s1 p)"
    using Cons.IH [OF frame_inv [OF frs1 Cons.prems(1)] _ p1 oq1] own1 by blast
  have "frames s' = (frames s)(p := [])" using s'(4) s1(4) pop(3) by (simp add: fun_eq_iff)
  moreover have "ss_out_calls s' = ss_out_calls s @ map (Pair p) (frames s p)"
    using s'(5) s1(4) pop(3) fp pp(2) by (simp add: t_def)
  ultimately show ?case using run s'(1,3) same_frame_trans [OF frs1 s'(2)] by auto
qed

section \<open>The switch as its clients see it\<close>

text \<open>Handing frames to a port one after the other.\<close>

fun in_all :: "('f \<Rightarrow> 's \<Rightarrow> 's outcome) \<Rightarrow> 'f list \<Rightarrow> 's \<Rightarrow> 's outcome" where
  "in_all put [] s = Inr s"
| "in_all put (f # fs) s = and_then (put f s) (in_all put fs)"

text \<open>
  A switch under any circumstances takes a frame of a port and stays usable; it delivers the frame
  when the port is open. Whether a port is open does not depend on the frames.
\<close>

locale frame_switch =
  fixes put :: "nat \<Rightarrow> 'f \<Rightarrow> 's \<Rightarrow> 's outcome"
    and queues :: "'s \<Rightarrow> nat \<Rightarrow> 'f list"
    and targets :: "'s \<Rightarrow> nat \<Rightarrow> 'f \<Rightarrow> nat set"
    and usable :: "'s \<Rightarrow> nat \<Rightarrow> bool"
    and open_to :: "'s \<Rightarrow> nat \<Rightarrow> bool"
    and frame_ok :: "'f \<Rightarrow> bool"
  assumes put: "usable s p \<Longrightarrow> frame_ok f \<Longrightarrow> \<exists>s'. put p f s = Inr s' \<and> usable s' p \<and>
      targets s' p = targets s p \<and> open_to s' p = open_to s p \<and>
      (open_to s p \<longrightarrow> queues s' = deliver (targets s p f) f (queues s))"

context frame_switch
begin

lemma in_all_delivers:
  assumes "usable s p" "\<forall>f \<in> set fs. frame_ok f"
  shows "\<exists>s'. in_all (put p) fs s = Inr s' \<and> usable s' p \<and> targets s' p = targets s p \<and>
    open_to s' p = open_to s p \<and>
    (open_to s p \<longrightarrow> (\<forall>q. queues s' q = queues s q @ filter (\<lambda>f. q \<in> targets s p f) fs))"
  using assms
proof (induction fs arbitrary: s)
  case Nil
  then show ?case by simp
next
  case (Cons f fs)
  obtain s1 where s1: "put p f s = Inr s1" "usable s1 p" "targets s1 p = targets s p"
    "open_to s1 p = open_to s p" "open_to s p \<longrightarrow> queues s1 = deliver (targets s p f) f (queues s)"
    using put [OF Cons.prems(1)] Cons.prems(2) by fastforce
  then show ?case using Cons.IH [OF s1(2)] Cons.prems(2) by (auto simp: deliver_def)
qed

end

text \<open>A port of a switch in order; it is open when it is on and there is always memory.\<close>

definition port_there :: "switch_sys \<Rightarrow> nat \<Rightarrow> bool" where
  "port_there s p \<longleftrightarrow> switch_inv s \<and> owned s {} \<and> p \<in> set (all_ports s)"

definition port_open :: "switch_sys \<Rightarrow> nat \<Rightarrow> bool" where
  "port_open s p \<longleftrightarrow> sp_power_on (the_port s p) \<and> (\<forall>n. ph_alloc (ss_heap s) n)"

definition port_usable :: "switch_sys \<Rightarrow> nat \<Rightarrow> bool" where
  "port_usable s p \<longleftrightarrow> switch_inv s \<and> owned s {} \<and> p \<in> set (all_ports s) \<and>
     sp_power_on (the_port s p) \<and> (\<forall>n. ph_alloc (ss_heap s) n)"

definition frame_fits :: "u8 list \<Rightarrow> bool" where
  "frame_fits f \<longleftrightarrow> 6 \<le> length f \<and> length f + 128 < 2 ^ 32"

lemma port_usable_eq: "port_usable s p \<longleftrightarrow> port_there s p \<and> port_open s p"
  by (auto simp: port_usable_def port_there_def port_open_def)

lemma same_frame_port:
  assumes "same_frame s s'" "port_there s p" "owned s' {}"
  shows "port_there s' p" "port_open s' p = port_open s p" "forward_set s' p = forward_set s p"
proof -
  show "port_there s' p" "port_open s' p = port_open s p"
    using assms frame_inv [OF assms(1)] frame_views(1) [OF assms(1)] frame_fields(1) [OF assms(1)]
    by (simp_all add: port_there_def port_open_def same_frame_def)
  show "forward_set s' p = forward_set s p" using forward_set_frame [OF assms(1)] by (simp add: fun_eq_iff)
qed

text \<open>An allocation that fails, or whose packet is freed at once, changes nothing that is seen.\<close>

lemma alloc_nothing:
  assumes "owned s ps" "s' = s\<lparr>ss_heap := (ss_heap s)\<lparr>ph_next := Suc (ph_next (ss_heap s))\<rparr>\<rparr>"
  shows "same_frame s s'" "owned s' ps" "frames s' = frames s"
proof -
  have "heap_ok (ss_heap s)" using assms(1) by (simp add: owned_def)
  then have "heap_ok (ss_heap s')" by (auto simp: assms(2) heap_ok_def less_Suc_eq)
  then show "same_frame s s'" "owned s' ps" using assms by (simp_all add: owned_def)
  show "frames s' = frames s" by (simp add: assms(2) frames_def fun_eq_iff frame_of_def)
qed

lemma port_in_pkt_any:
  assumes "port_there s p" "frame_fits f"
  shows "\<exists>s'. port_in_pkt p f notify s = Inr s' \<and> same_frame s s' \<and> owned s' {} \<and>
    (port_open s p \<longrightarrow> frames s' = deliver (forward_set s p f) f (frames s))"
proof -
  note there = assms(1) [unfolded port_there_def]
  obtain x where x: "ss_ports s p = Some x" using inv_port [of s p] there by blast
  have on: "sp_power_on (the_port s p) = sp_power_on x" by (simp add: the_port_Some [OF x])
  have l: "unat (of_nat (length f) :: u32) = length f" using assms(2) by (simp add: frame_fits_def)
  consider "\<not> sp_power_on x" | "sp_power_on x" "\<not> ph_alloc (ss_heap s) (ph_next (ss_heap s))"
    | "sp_power_on x" "ph_alloc (ss_heap s) (ph_next (ss_heap s))" by blast
  then show ?thesis
  proof cases
    case 1
    then show ?thesis using there x on by (simp add: port_in_pkt_def port_at_Some port_open_def)
  next
    case 2
    then have "port_in_pkt p f notify s =
        Inr (s\<lparr>ss_heap := (ss_heap s)\<lparr>ph_next := Suc (ph_next (ss_heap s))\<rparr>\<rparr>)"
      using x by (simp add: port_in_pkt_def port_at_Some data_pkt_alloc_def Let_def)
    then show ?thesis using alloc_nothing [OF _ refl, of s "{}"] there 2 by (auto simp: port_open_def)
  next
    case 3
    then show ?thesis
      using in_pkt_step [of s p f notify] there on assms(2)
      by (auto simp: frame_fits_def forwarded_def port_open_def)
  qed
qed

interpretation vswitch: frame_switch "\<lambda>p f. port_in_pkt p f False" frames forward_set port_there
    port_open frame_fits
proof
  fix s p f assume a: "port_there s p" "frame_fits f"
  obtain s' where s': "port_in_pkt p f False s = Inr s'" "same_frame s s'" "owned s' {}"
      "port_open s p \<longrightarrow> frames s' = deliver (forward_set s p f) f (frames s)"
    using port_in_pkt_any [OF a] by blast
  show "\<exists>s'. port_in_pkt p f False s = Inr s' \<and> port_there s' p \<and> forward_set s' p = forward_set s p
      \<and> port_open s' p = port_open s p
      \<and> (port_open s p \<longrightarrow> frames s' = deliver (forward_set s p f) f (frames s))"
    using s' same_frame_port [OF s'(2) a(1) s'(3)] by (intro exI [of _ s']) simp
qed

section \<open>Properties of the switch\<close>

text \<open>C1: Forwarding is what the abstract switch does. A frame entering a port is delivered,
  unchanged and once, at the end of the queue of every port the destination address and the
  links select (broadcast to every other linked port, multicast to the ports that registered
  the group and the remote port, unicast to the first local port with the address or else from
  a local port to the remote one), given memory for the copies; no other queue changes, and
  afterwards every packet on the heap is on exactly one queue: none is lost and none is shared,
  also when memory runs out.\<close>

theorem switch_forwards_frame:
  assumes "switch_inv s" "owned s {k}" "src \<in> set (all_ports s)"
    and "ph_pkts (ss_heap s) k = Some d" "6 \<le> length (payload d)"
  shows "\<exists>s'. port_in_pkt_nocpy src k notify s = Inr s' \<and> switch_inv s' \<and> owned s' {} \<and>
    ((\<forall>n. ph_alloc (ss_heap s) n) \<longrightarrow>
       frames s' = deliver (forward_set s src (payload d)) (payload d) (frames s))"
  using in_nocpy_step [OF assms, of notify] frame_inv [OF _ assms(1)]
  by (auto simp: forwarded_def)

text \<open>
  C26: A sequence of frames handed to a port of the switch reaches every queue in the order it
  was handed over. Given the port is on and memory for every copy, each queue grows by exactly
  those frames of the sequence that are for it, unchanged, and by nothing else. Also when the
  port is off or memory runs out, the switch takes the whole sequence without a fault, and
  afterwards every packet on its heap is on exactly one queue. Each frame is at least six bytes
  long and, with its room, shorter than 2^32 (\<open>frame_fits\<close>): an empty frame stops
  the switch (\<open>empty_frame_stops_switch\<close>).
\<close>

theorem switch_keeps_order:
  assumes "switch_inv s" "owned s {}" "p \<in> set (all_ports s)" "\<forall>f \<in> set fs. frame_fits f"
  shows "\<exists>s'. in_all (\<lambda>f. port_in_pkt p f False) fs s = Inr s' \<and> switch_inv s' \<and> owned s' {} \<and>
    (sp_power_on (the_port s p) \<and> (\<forall>n. ph_alloc (ss_heap s) n) \<longrightarrow>
      (\<forall>q. frames s' q = frames s q @ filter (\<lambda>f. q \<in> forward_set s p f) fs))"
  using vswitch.in_all_delivers [of s p fs] assms by (auto simp: port_there_def port_open_def)

text \<open>An empty frame stops the switch: the packet that is allocated for it has no data room
  and fails the assertion of \<open>data_pkt_build\<close>, which never returns.\<close>

theorem empty_frame_stops_switch:
  assumes "ss_ports s p = Some x" "sp_power_on x" "ph_alloc (ss_heap s) (ph_next (ss_heap s))"
  shows "port_in_pkt p [] notify s = Inl Assert_Failed"
  using alloc_asserts [OF assms(3), of 0] assms(1,2) by (simp add: port_in_pkt_def)

text \<open>A port thread that receives a send event hands every frame queued at its port to the
  port's output in the order of the queue, leaves the queue empty and frees exactly the packets
  it sent; the other ports' queues are untouched.\<close>

theorem port_process_sends_all:
  assumes "switch_inv s" "owned s {}" "p \<in> set (all_ports s)"
    and "ss_ports s p = Some x" "sp_mqueue x = PORT_SEND # es"
  shows "\<exists>s'. port_process_pkts p s = Inr (Port_Served, s') \<and> switch_inv s' \<and> owned s' {} \<and>
    frames s' = (frames s)(p := []) \<and>
    ss_out_calls s' = ss_out_calls s @ map (Pair p) (frames s p)"
proof -
  let ?s = "upd_port p (\<lambda>x. x\<lparr>sp_mqueue := es\<rparr>) s"
  have q: "quiet s ?s" by (rule quiet_upd_port) (simp_all add: skel_def)
  then have fr: "same_frame s ?s" by (simp add: quiet_def)
  have p: "p \<in> set (all_ports ?s)" using assms(3) frame_views(1) [OF fr] by simp
  have oq: "out_queue ?s p = sp_data_out x" by (simp add: out_queue_def upd_port_def assms(4))
  have own: "owned ?s {}" using q assms(2) by (simp add: quiet_def)
  obtain s' where s': "send_queued p (sp_data_out x) ?s = Inr s'" "same_frame ?s s'" "owned s' {}"
    "frames s' = (frames ?s)(p := [])" "ss_out_calls s' = ss_out_calls ?s @ map (Pair p) (frames ?s p)"
    using send_queued_step [OF frame_inv [OF fr assms(1)] own p oq] by blast
  have fs: "frames ?s = frames s" and oc: "ss_out_calls ?s = ss_out_calls s"
    using q by (simp_all add: quiet_def upd_port_def)
  have "port_process_pkts p s = Inr (Port_Served, s')"
    using assms(4,5) s'(1) by (simp add: port_process_pkts_def)
  moreover have "switch_inv s'" using frame_inv [OF s'(2) frame_inv [OF fr assms(1)]] .
  ultimately show ?thesis using s'(3-5) unfolding fs oc by blast
qed

lemma remove_first_append:
  "\<not> list_ex P xs \<Longrightarrow> P x \<Longrightarrow> remove_first P (xs @ [x]) = xs"
  by (induction xs) auto

text \<open>Removing a forwarding entry restores the table and the filter state from before its
  addition, but not the memory: the entry stays allocated after it left the list.\<close>

theorem fdb_remove_leaks_entry:
  assumes "ss_ports s p = Some x" "sp_is_local x" "\<not> list_ex (mac_eq m) (sp_fdb_table x)"
    and "sp_fdb_enabled x \<longleftrightarrow> sp_fdb_table x \<noteq> []"
    and "vs_port_add_fdb_entry True p m s = Inr (0, s1)"
    and "vs_port_remove_fdb_entry p m s1 = Inr (r, s2)"
  shows "r = 0 \<and> sp_fdb_table (the_port s2 p) = sp_fdb_table x \<and>
    sp_fdb_enabled (the_port s2 p) = sp_fdb_enabled x \<and> ss_fdb_nodes s2 = Suc (ss_fdb_nodes s)"
proof -
  let ?y = "x\<lparr>sp_fdb_table := sp_fdb_table x @ [m], sp_fdb_enabled := True, sp_power_on := True\<rparr>"
  have s1: "ss_ports s1 p = Some ?y" "ss_fdb_nodes s1 = Suc (ss_fdb_nodes s)"
    using assms(1-3,5)
    by (auto simp: vs_port_add_fdb_entry_def call_setup_addr_def upd_port_def split: option.splits)
  have "remove_first (mac_eq m) (sp_fdb_table x @ [m]) = sp_fdb_table x"
    using assms(3) by (intro remove_first_append) (simp_all add: mac_eq_def)
  moreover have "list_ex (mac_eq m) (sp_fdb_table x @ [m])" by (simp add: mac_eq_def)
  ultimately show ?thesis using assms(2,4,6) s1
    by (auto simp: vs_port_remove_fdb_entry_def call_setup_addr_def upd_port_def the_port_def Let_def
        split: option.splits)
qed

text \<open>A switch that has no remote port cannot be destroyed: \<open>switch_destroy\<close> removes the
  remote port without looking whether there is one.\<close>

theorem destroy_without_remote_faults:
  assumes "ss_remote_port s = None"
  shows "switch_destroy s = Inl Null_Deref"
  using assms by (simp add: switch_destroy_def)

text \<open>\<open>switch_remove_port\<close> frees the port, whose queue holds the event that should stop the
  port's thread: the next step of a thread that has not run in between is a use after free.\<close>

theorem removed_port_thread_faults:
  assumes "switch_remove_port p s = Inr s'"
  shows "port_process_pkts p s' = Inl Use_After_Free"
proof -
  have "ss_ports s' p = None"
    using assms by (auto simp: switch_remove_port_def outcome_simps Let_def)
  then show ?thesis by (simp add: port_process_pkts_def port_at_def)
qed

section \<open>Concrete instances\<close>

definition ex_port :: "bool \<Rightarrow> mac \<Rightarrow> switch_port" where
  "ex_port loc m = blank_port\<lparr>sp_is_local := loc, sp_mac_addr := m, sp_power_on := True,
     sp_dev_end_on := True, sp_data_out_sem := 1, sp_mqueue := [PORT_SEND]\<rparr>"

definition ex_mac :: "u8 \<Rightarrow> mac" where "ex_mac b = [0, 4, 0x9f, 0, 1, b]"

text \<open>Two local ports and a remote one; one packet, a broadcast, in hand.\<close>

definition ex_bcast :: "u8 list" where "ex_bcast = replicate 6 0xff @ [1, 2, 3]"

definition ex_switch :: "(nat \<Rightarrow> data_pkt option) \<Rightarrow> switch_sys" where
  "ex_switch pkts = \<lparr>ss_live = True, ss_power_on = True, ss_remote_port = Some 2,
     ss_local_port_list = [0, 1], ss_sem = 1, ss_mqueue = [],
     ss_ports = [0 \<mapsto> ex_port True (ex_mac 1), 1 \<mapsto> ex_port True (ex_mac 2),
       2 \<mapsto> ex_port False (ex_mac 3)], ss_port_next = 3,
     ss_heap = \<lparr>ph_pkts = pkts, ph_next = 1, ph_alloc = (\<lambda>_. True)\<rparr>, ss_fdb_nodes = 0,
     ss_addr_calls = [], ss_out_calls = []\<rparr>"

definition ex_in_hand :: switch_sys where
  "ex_in_hand = ex_switch [0 \<mapsto> filled 64 ex_bcast 1]"

lemma ex_switch_facts [simp]:
  "all_ports (ex_switch pkts) = [2, 0, 1]" "ss_heap (ex_switch pkts) =
     \<lparr>ph_pkts = pkts, ph_next = 1, ph_alloc = (\<lambda>_. True)\<rparr>"
  "ss_ports (ex_switch pkts) = [0 \<mapsto> ex_port True (ex_mac 1), 1 \<mapsto> ex_port True (ex_mac 2),
       2 \<mapsto> ex_port False (ex_mac 3)]" "queued (ex_switch pkts) = []"
  "sp_power_on (the_port (ex_switch pkts) 0)" "ss_local_port_list (ex_switch pkts) = [0, 1]"
  "ss_remote_port (ex_switch pkts) = Some 2" "ss_fdb_nodes (ex_switch pkts) = 0"
  "ss_out_calls (ex_switch pkts) = []" "ss_sem (ex_switch pkts) = 1"
  by (simp_all add: ex_switch_def all_ports_def queued_def out_queue_def ex_port_def blank_port_def
      the_port_def)

lemma ex_switch_inv: "switch_inv (ex_switch pkts)"
  by (simp add: switch_inv_def) (simp add: port_ok_def ex_port_def blank_port_def ex_mac_def)

lemma ex_bcast_pkt:
  "payload (filled 64 ex_bcast 1) = ex_bcast" "dp_flags (filled 64 ex_bcast 1) = 1"
  "pkt_wf (filled 64 ex_bcast 1)" "length ex_bcast = 9"
  using filled_facts [of ex_bcast 64 1] by (simp_all add: ex_bcast_def)

lemma ex_in_hand_owned: "owned ex_in_hand {0}"
  by (simp add: ex_in_hand_def owned_def heap_ok_def ex_bcast_pkt pkt_consts)

lemma ex_switch_usable: "port_usable (ex_switch (\<lambda>_. None)) 0"
  by (simp add: port_usable_def ex_switch_inv) (simp add: owned_def heap_ok_def)

lemma ex_port_local: "sp_is_local (the_port (ex_switch pkts) 0)"
  by (simp add: the_port_def ex_port_def)

lemma ex_links: "link (ex_switch pkts) q \<longleftrightarrow> q < 3"
  by (auto simp: link_def ex_port_def blank_port_def cable_link_is_on_def numeral_3_eq_3 less_Suc_eq)

lemma ex_bcast_targets: "forward_set (ex_switch pkts) 0 ex_bcast = {1, 2}"
proof -
  have "take 6 ex_bcast = replicate 6 0xff" by (simp add: ex_bcast_def)
  then show ?thesis
    by (auto simp: forward_set_def ex_port_local ex_links remote_on_def Let_def)
qed

theorem switch_forwards_frame_witness:
  "\<exists>s'. port_in_pkt_nocpy 0 0 True ex_in_hand = Inr s' \<and> owned s' {} \<and>
     frames s' 1 = [ex_bcast] \<and> frames s' 2 = [ex_bcast] \<and> frames s' 0 = []"
proof -
  have fr: "frames ex_in_hand q = []" for q
    by (simp add: ex_in_hand_def frames_def out_queue_def ex_port_def blank_port_def)
  show ?thesis
    using switch_forwards_frame [OF _ ex_in_hand_owned, of 0 "filled 64 ex_bcast 1" True]
      ex_switch_inv ex_bcast_targets fr
    by (auto simp: ex_in_hand_def ex_bcast_pkt deliver_def)
qed

theorem switch_keeps_order_witness:
  "\<exists>s'. in_all (\<lambda>f. port_in_pkt 0 f False) [ex_bcast, ex_mac 2, ex_bcast] (ex_switch (\<lambda>_. None))
     = Inr s' \<and> frames s' 2 = [ex_bcast, ex_bcast]"
proof -
  have fr: "frames (ex_switch (\<lambda>_. None)) q = []" for q
    by (simp add: frames_def out_queue_def ex_port_def blank_port_def)
  have rep: "replicate 6 b = b # replicate 5 b" for b :: u8 using replicate_Suc [of 5 b] by simp
  have uni: "2 \<notin> forward_set (ex_switch (\<lambda>_. None)) 0 (ex_mac 2)"
    by (simp add: forward_set_def ex_mac_def unicast_dst_def the_port_def ex_port_def blank_port_def
        Let_def rep)
  have fits: "\<forall>f \<in> set [ex_bcast, ex_mac 2, ex_bcast]. frame_fits f"
    by (simp add: frame_fits_def ex_bcast_pkt(4)) (simp add: ex_mac_def)
  show ?thesis
    using switch_keeps_order [of "ex_switch (\<lambda>_. None)" 0, OF _ _ _ fits] ex_switch_usable fr uni
      ex_bcast_targets
    by (auto simp: port_usable_def)
qed

theorem empty_frame_stops_switch_witness:
  "port_in_pkt 0 [] True (ex_switch (\<lambda>_. None)) = Inl Assert_Failed"
  by (rule empty_frame_stops_switch [of _ _ "ex_port True (ex_mac 1)"])
    (simp_all add: ex_port_def blank_port_def)

theorem port_process_sends_all_witness:
  "\<exists>s'. port_process_pkts 1 (ex_switch (\<lambda>_. None)) = Inr (Port_Served, s') \<and> ss_out_calls s' = []"
proof -
  have fr: "frames (ex_switch (\<lambda>_. None)) q = []" for q
    by (simp add: frames_def out_queue_def ex_port_def blank_port_def)
  show ?thesis
    using port_process_sends_all [of "ex_switch (\<lambda>_. None)" 1 "ex_port True (ex_mac 2)" "[]"]
      ex_switch_usable fr
    by (auto simp: port_usable_def ex_port_def)
qed

theorem fdb_remove_leaks_entry_witness:
  "\<exists>s1 s2. vs_port_add_fdb_entry True 0 [1, 0, 0x5e, 0, 0, 1] (ex_switch (\<lambda>_. None)) = Inr (0, s1) \<and>
     vs_port_remove_fdb_entry 0 [1, 0, 0x5e, 0, 0, 1] s1 = Inr (0, s2) \<and> ss_fdb_nodes s2 = 1"
proof -
  let ?s = "ex_switch (\<lambda>_. None)" and ?m = "[1, 0, 0x5e, 0, 0, 1] :: mac"
  obtain s1 where s1: "vs_port_add_fdb_entry True 0 ?m ?s = Inr (0, s1)"
    by (simp add: vs_port_add_fdb_entry_def ex_port_def blank_port_def)
  then have "\<exists>r s2. vs_port_remove_fdb_entry 0 ?m s1 = Inr (r, s2)"
    by (auto simp: vs_port_add_fdb_entry_def vs_port_remove_fdb_entry_def ex_port_def blank_port_def
        call_setup_addr_def upd_port_def Let_def port_at_def split: option.splits)
  then obtain r s2 where s2: "vs_port_remove_fdb_entry 0 ?m s1 = Inr (r, s2)" by blast
  have "r = 0 \<and> ss_fdb_nodes s2 = 1"
    using fdb_remove_leaks_entry [of ?s 0 "ex_port True (ex_mac 1)", OF _ _ _ _ s1 s2]
    by (simp add: ex_port_def blank_port_def)
  then show ?thesis using s1 s2 by blast
qed

theorem destroy_without_remote_faults_witness:
  "switch_destroy ((ex_switch (\<lambda>_. None))\<lparr>ss_remote_port := None\<rparr>) = Inl Null_Deref"
  by (rule destroy_without_remote_faults) simp

theorem removed_port_thread_faults_witness:
  "\<exists>s'. switch_remove_port 1 (ex_switch (\<lambda>_. None)) = Inr s' \<and>
     port_process_pkts 1 s' = Inl Use_After_Free"
proof -
  obtain s' where s': "switch_remove_port 1 (ex_switch (\<lambda>_. None)) = Inr s'"
    by (auto simp: switch_remove_port_def take_out_sem_def port_mq_send_def upd_port_def ex_port_def
        blank_port_def port_at_def call_setup_addr_def Let_def)
  then show ?thesis using removed_port_thread_faults [OF s'] by blast
qed

end
