(* ===== verification/Virtio_Net.thy ===== *)
theory Virtio_Net
  imports Virtio_Mmio Switch_Spec
begin

text \<open>
  The virtio network device, \<open>virtio/devices/network.c\<close>, between the driver's queues and a local
  port of the virtual switch. The device structure, the switch and the memory shared with the
  driver are one state; the link flag that the port's cable points to is kept in the device and
  copied to the port whenever it is written. One step of a task is one round of its loop.
\<close>

section \<open>State\<close>

datatype net_dev_status = VNET_RUN | VNET_STOP

record net_dev_queue =
  nq_id :: nat
  nq_vq :: virtqueue
  nq_task :: "nat option" \<comment> \<open>pending notifications, once the task exists\<close>
  nq_sig :: nat

record virtio_net_config =
  nc_mac :: mac
  nc_status :: u16
  nc_max_virtqueue_pairs :: u16

record net_dev =
  nd_config :: virtio_net_config
  nd_features :: u64
  nd_status :: net_dev_status
  nd_link_on :: bool
  nd_queues :: "net_dev_queue list"
  nd_queue_pairs :: u32
  nd_port :: nat
  nd_hdr_len :: nat
  nd_kick_timer_active :: bool
  nd_coal_ticks :: nat \<comment> \<open>\<open>pdMS_TO_TICKS(VNET_COAL_TIME)\<close>\<close>
  nd_rx_pkts :: u64
  nd_tx_pkts :: u64
  nd_rx_cnt :: u64
  nd_switch :: switch_sys
  nd_shm :: shm
  nd_mem :: bmem
  nd_ctrl_var :: u64 \<comment> \<open>addresses of the control task's locals \<open>ctrl\<close>, \<open>mac\<close> and \<open>ack\<close>\<close>
  nd_mac_var :: u64
  nd_ack_var :: u64

type_synonym net_sys = "net_dev vsys"

abbreviation upd_net :: "(net_dev \<Rightarrow> net_dev) \<Rightarrow> net_sys \<Rightarrow> net_sys" where
  "upd_net f s \<equiv> s\<lparr>vs_dev := f (vs_dev s)\<rparr>"

definition VIRTIO_NET_QUEUE_SIZE :: nat where "VIRTIO_NET_QUEUE_SIZE = 1024"
definition VNET_COAL_CNT :: u64 where "VNET_COAL_CNT = 100"
definition VIRTIO_NET_S_LINK_UP :: u16 where "VIRTIO_NET_S_LINK_UP = 1"
definition VIRTIO_NET_OK :: u8 where "VIRTIO_NET_OK = 0"
definition VIRTIO_NET_ERR :: u8 where "VIRTIO_NET_ERR = 1"
definition VIRTIO_NET_CTRL_MAC :: u8 where "VIRTIO_NET_CTRL_MAC = 1"
definition VIRTIO_NET_CTRL_MAC_ADDR_SET :: u8 where "VIRTIO_NET_CTRL_MAC_ADDR_SET = 1"
definition VIRTIO_NET_CTRL_MQ :: u8 where "VIRTIO_NET_CTRL_MQ = 4"
definition VIRTIO_NET_F_MAC :: nat where "VIRTIO_NET_F_MAC = 5"
definition VIRTIO_NET_F_MRG_RXBUF :: nat where "VIRTIO_NET_F_MRG_RXBUF = 15"
definition VIRTIO_NET_F_CTRL_VQ :: nat where "VIRTIO_NET_F_CTRL_VQ = 17"
definition VIRTIO_NET_F_MQ :: nat where "VIRTIO_NET_F_MQ = 22"
definition VIRTIO_NET_F_CTRL_MAC_ADDR :: nat where "VIRTIO_NET_F_CTRL_MAC_ADDR = 23"
definition VIRTIO_F_ACCESS_PLATFORM :: nat where "VIRTIO_F_ACCESS_PLATFORM = 33"

lemmas net_consts = VIRTIO_NET_QUEUE_SIZE_def VNET_COAL_CNT_def VIRTIO_NET_S_LINK_UP_def
  VIRTIO_NET_OK_def VIRTIO_NET_ERR_def VIRTIO_NET_CTRL_MAC_def VIRTIO_NET_CTRL_MAC_ADDR_SET_def
  VIRTIO_NET_CTRL_MQ_def

lemmas net_features = VIRTIO_NET_F_MAC_def VIRTIO_NET_F_MRG_RXBUF_def VIRTIO_NET_F_CTRL_VQ_def
  VIRTIO_NET_F_MQ_def VIRTIO_NET_F_CTRL_MAC_ADDR_def VIRTIO_F_ACCESS_PLATFORM_def
  VIRTIO_RING_F_EVENT_IDX_def VIRTIO_RING_F_INDIRECT_DESC_def

definition default_mac :: mac where "default_mac = [0x00, 0x04, 0x9f, 0x00, 0x01, 0x02]"

section \<open>Features and status\<close>

definition has_virtio_feature :: "net_dev \<Rightarrow> nat \<Rightarrow> bool" where
  "has_virtio_feature d f = bit (nd_features d) f"

definition virtio_net_hdr_len :: "net_dev \<Rightarrow> nat" where
  "virtio_net_hdr_len d = (if has_virtio_feature d VIRTIO_NET_F_MRG_RXBUF then 12 else 10)"

definition get_host_features :: "net_dev \<Rightarrow> u64" where
  "get_host_features d =
     (let features = push_bit VIRTIO_NET_F_MAC 1 OR push_bit VIRTIO_RING_F_EVENT_IDX 1
            OR push_bit VIRTIO_RING_F_INDIRECT_DESC 1 OR push_bit VIRTIO_NET_F_CTRL_VQ 1
            OR push_bit VIRTIO_NET_F_CTRL_MAC_ADDR 1 OR push_bit VIRTIO_F_ACCESS_PLATFORM 1
      in if 1 < nd_queue_pairs d then features OR push_bit VIRTIO_NET_F_MQ 1 else features)"

text \<open>A write to \<open>link_on\<close>, which the port sees through its cable.\<close>

definition set_link_on :: "bool \<Rightarrow> net_dev \<Rightarrow> net_dev" where
  "set_link_on b d = d\<lparr>nd_link_on := b,
     nd_switch := upd_port (nd_port d) (\<lambda>x. x\<lparr>sp_dev_end_on := b\<rparr>) (nd_switch d)\<rparr>"

definition virtio_net_update_status :: "net_dev \<Rightarrow> net_dev" where
  "virtio_net_update_status d =
     (let d1 = d\<lparr>nd_config := (nd_config d)\<lparr>nc_status := VIRTIO_NET_S_LINK_UP\<rparr>\<rparr>
      in if nd_status d1 = VNET_RUN then set_link_on True d1 else d1)"

definition virtio_net_start :: "net_dev \<Rightarrow> net_dev" where
  "virtio_net_start d =
     (let d1 = d\<lparr>nd_status := VNET_RUN\<rparr>
      in if nc_status (nd_config d1) = VIRTIO_NET_S_LINK_UP then set_link_on True d1 else d1)"

definition virtio_net_stop :: "net_dev \<Rightarrow> net_dev" where
  "virtio_net_stop d = set_link_on False (d\<lparr>nd_status := VNET_STOP\<rparr>)"

definition handle_dev_status :: "u32 \<Rightarrow> net_sys \<Rightarrow> net_sys outcome" where
  "handle_dev_status status s =
     (let s1 = (if status = 0 then upd_net virtio_net_update_status s else s);
          live = (vd_state (vs_vdev s1) AND VIRTIO_STATE_LIVE \<noteq> 0)
      in Inr (if status AND VIRTIO_CONFIG_S_DRIVER_OK \<noteq> 0 \<and> \<not> live then upd_net virtio_net_start s1
              else if status = 0 \<and> live then upd_net virtio_net_stop s1 else s1))"

section \<open>Queues\<close>

definition put_net_vq :: "nat \<Rightarrow> virtqueue \<Rightarrow> net_dev \<Rightarrow> net_dev" where
  "put_net_vq q v d = d\<lparr>nd_queues := (nd_queues d)[q := (nd_queues d ! q)\<lparr>nq_vq := v\<rparr>]\<rparr>"

definition no_task_queue :: "net_dev \<Rightarrow> u32 \<Rightarrow> bool" where
  "no_task_queue d vq \<longleftrightarrow> vq AND 1 = 0 \<and> vq \<noteq> 2 * nd_queue_pairs d"

definition net_init_vq :: "u32 \<Rightarrow> u32 \<Rightarrow> u32 \<Rightarrow> u32 \<Rightarrow> net_sys \<Rightarrow> (int \<times> net_sys) outcome" where
  "net_init_vq vq page_size align pfn s =
     and_then (arr_get (nd_queues (vs_dev s)) (unat vq)) (\<lambda>nq.
       let p = virtio_get_vq pfn page_size;
           queue = virtio_init_device_vq (vs_vdev s) ((nq_vq nq)\<lparr>vq_pfn := pfn,
             vq_vring := vring_init (of_nat VIRTIO_NET_QUEUE_SIZE) p (ucast align)\<rparr>);
           s1 = upd_net (put_net_vq (unat vq) queue) s
       in if no_task_queue (vs_dev s1) vq then Inr (0, s1)
          else Inr (0, upd_net (\<lambda>d. d\<lparr>nd_queues := (nd_queues d)[unat vq :=
                 (nd_queues d ! unat vq)\<lparr>nq_sig := Suc (nq_sig (nd_queues d ! unat vq))\<rparr>]\<rparr>) s1))"

definition net_exit_vq :: "u32 \<Rightarrow> net_sys \<Rightarrow> net_sys outcome" where
  "net_exit_vq vq s = Inr s"

definition net_notify_vq :: "u32 \<Rightarrow> net_sys \<Rightarrow> (int \<times> net_sys) outcome" where
  "net_notify_vq vq s =
     (if no_task_queue (vs_dev s) vq then Inr (0, s)
      else and_then (arr_get (nd_queues (vs_dev s)) (unat vq)) (\<lambda>nq.
        case nq_task nq of
          None \<Rightarrow> Inl Null_Deref
        | Some n \<Rightarrow> Inr (0, upd_net (\<lambda>d. d\<lparr>nd_queues :=
            (nd_queues d)[unat vq := nq\<lparr>nq_task := Some (Suc n)\<rparr>]\<rparr>) s)))"

definition net_get_vq :: "u32 \<Rightarrow> net_sys \<Rightarrow> virtqueue outcome" where
  "net_get_vq vq s = and_then (arr_get (nd_queues (vs_dev s)) (unat vq)) (\<lambda>nq. Inr (nq_vq nq))"

definition net_put_vq :: "u32 \<Rightarrow> virtqueue \<Rightarrow> net_sys \<Rightarrow> net_sys outcome" where
  "net_put_vq vq v s = and_then (arr_get (nd_queues (vs_dev s)) (unat vq)) (\<lambda>nq.
     Inr (upd_net (put_net_vq (unat vq) v) s))"

definition net_get_vq_size :: "u32 \<Rightarrow> int" where
  "net_get_vq_size vq = int VIRTIO_NET_QUEUE_SIZE"

definition net_set_vq_size :: "u32 \<Rightarrow> int \<Rightarrow> int" where
  "net_set_vq_size vq sz = sz"

definition net_dev_cfg_accessor :: "u64 \<Rightarrow> u32 \<Rightarrow> net_sys \<Rightarrow> net_sys outcome" where
  "net_dev_cfg_accessor addr len s = Inr s"

definition net_dev_virtio_ops :: "net_dev virtio_ops" where
  "net_dev_virtio_ops = \<lparr>op_init_vq = net_init_vq, op_exit_vq = Some net_exit_vq,
     op_notify_vq = net_notify_vq, op_get_vq = net_get_vq, op_put_vq = net_put_vq,
     op_get_vq_size = net_get_vq_size, op_set_vq_size = net_set_vq_size,
     op_handle_dev_status = Some handle_dev_status, op_dev_cfg_accessor = net_dev_cfg_accessor\<rparr>"

section \<open>Tasks\<close>

text \<open>The tasks' local arrays of descriptors have no content before the first chain.\<close>

definition iov_array :: "nat \<Rightarrow> iovec list" where
  "iov_array n = replicate n \<lparr>iov_addr = 0, iov_len = 0\<rparr>"

definition net_take :: "nat \<Rightarrow> nat \<Rightarrow> net_sys \<Rightarrow> (get_iov_result \<times> net_sys) outcome" where
  "net_take q cap s =
     and_then (arr_get (nd_queues (vs_dev s)) q) (\<lambda>nq.
     and_then (virtio_queue_get_iov (nq_vq nq) (iov_array cap) (nd_shm (vs_dev s))) (\<lambda>g.
       Inr (g, upd_net (\<lambda>d. (put_net_vq q (gi_vq g) d)\<lparr>nd_shm := gi_mem g\<rparr>) s)))"

definition net_vq :: "nat \<Rightarrow> net_sys \<Rightarrow> virtqueue" where
  "net_vq q s = nq_vq (nd_queues (vs_dev s) ! q)"

definition net_on_shm :: "(shm \<Rightarrow> shm outcome) \<Rightarrow> net_sys \<Rightarrow> net_sys outcome" where
  "net_on_shm f s = and_then (f (nd_shm (vs_dev s))) (\<lambda>m. Inr (upd_net (\<lambda>d. d\<lparr>nd_shm := m\<rparr>) s))"

text \<open>Notify the driver now, or let the timer do it.\<close>

definition net_must_notify :: "nat \<Rightarrow> net_sys \<Rightarrow> (bool \<times> net_sys) outcome" where
  "net_must_notify q s =
     and_then (virtio_queue_must_notify (net_vq q s) (nd_shm (vs_dev s))) (\<lambda>(n, vq).
       Inr (n, upd_net (put_net_vq q vq) s))"

definition net_coalesce :: "u64 \<Rightarrow> net_sys \<Rightarrow> u64 \<times> net_sys" where
  "net_coalesce cnt s =
     (if nd_coal_ticks (vs_dev s) = 0 \<or> VNET_COAL_CNT \<le> cnt
      then (0, virtio_mmio_interrupt_front True s)
      else if \<not> nd_kick_timer_active (vs_dev s)
      then (cnt, upd_net (\<lambda>d. d\<lparr>nd_kick_timer_active := True\<rparr>) s)
      else (cnt, s))"

definition kick_timer_callback :: "net_sys \<Rightarrow> net_sys" where
  "kick_timer_callback s =
     virtio_mmio_interrupt_front True (upd_net (\<lambda>d. d\<lparr>nd_kick_timer_active := False\<rparr>) s)"

text \<open>The segments of a chain as the frames they hold: \<open>iov[1]\<close> to \<open>iov[out - 1]\<close>.\<close>

definition segments :: "iovec list \<Rightarrow> nat \<Rightarrow> bmem \<Rightarrow> u8 list list" where
  "segments iov n m = map (\<lambda>v. mem_read m (iov_addr v) (unat (ucast (iov_len v) :: u32)))
     (drop 1 (take n iov))"

definition on_switch :: "(switch_sys \<Rightarrow> switch_sys outcome) \<Rightarrow> net_sys \<Rightarrow> net_sys outcome" where
  "on_switch f s = and_then (f (nd_switch (vs_dev s))) (\<lambda>w.
     Inr (upd_net (\<lambda>d. d\<lparr>nd_switch := w\<rparr>) s))"

datatype net_step = Net_Waits | Net_Served

text \<open>One round of the transmit task, which serves queue 1; \<open>tx_cnt\<close> is its local counter.\<close>

definition virtio_net_tx_task :: "u64 \<Rightarrow> net_sys \<Rightarrow> (net_step \<times> u64 \<times> net_sys) outcome" where
  "virtio_net_tx_task tx_cnt s =
     and_then (net_take 1 VIRTIO_NET_QUEUE_SIZE s) (\<lambda>(g, s1).
       if gi_ret g < 0 then Inr (Net_Waits, tx_cnt, s1)
       else and_then (iov_size (gi_iov g) (unat (gi_out g))) (\<lambda>len.
         let p = nd_port (vs_dev s1) in
         and_then (port_at (nd_switch (vs_dev s1)) p) (\<lambda>x.
         and_then
           (if \<not> cable_link_is_on x then Inr (tx_cnt, s1)
            else and_then (on_switch (in_all (\<lambda>f. port_in_pkt p f False)
                     (segments (gi_iov g) (unat (gi_out g)) (nd_mem (vs_dev s1)))) s1) (\<lambda>s2.
                 and_then (on_switch notify_ports s2) (\<lambda>s3.
                   Inr (tx_cnt + 1, upd_net (\<lambda>d. d\<lparr>nd_tx_pkts := nd_tx_pkts d + 1\<rparr>) s3))))
           (\<lambda>(cnt, s4).
         and_then (net_on_shm (virtio_queue_update_used_elem (net_vq 1 s4)
                     (ucast (word_of_int (gi_ret g) :: u16)) (ucast len)) s4) (\<lambda>s5.
         and_then (net_must_notify 1 s5) (\<lambda>(n, s6).
           let (cnt', s7) = (if n then net_coalesce cnt s6 else (cnt, s6))
           in Inr (Net_Served, cnt', s7)))))))"

text \<open>One round of the control task on queue 2.\<close>

definition net_on_mem :: "(bmem \<Rightarrow> (iovec list \<times> bmem) outcome) \<Rightarrow> net_sys \<Rightarrow> net_sys outcome" where
  "net_on_mem f s = and_then (f (nd_mem (vs_dev s))) (\<lambda>(v, m).
     Inr (upd_net (\<lambda>d. d\<lparr>nd_mem := m\<rparr>) s))"

definition virtio_net_ctrl_task :: "net_sys \<Rightarrow> (net_step \<times> net_sys) outcome" where
  "virtio_net_ctrl_task s =
     and_then (net_take 2 VIRTIO_NET_QUEUE_SIZE s) (\<lambda>(g, s1).
       if gi_ret g < 0 then Inr (Net_Waits, s1)
       else and_then (iov_size (gi_iov g) 1) (\<lambda>sz.
         let len = min (unat sz) 2; d1 = vs_dev s1 in
         and_then (net_on_mem (memcpy_fromiovec (nd_ctrl_var d1) (gi_iov g) len) s1) (\<lambda>s2.
           let m = nd_mem (vs_dev s2); cls = m (nd_ctrl_var d1); cmd = m (nd_ctrl_var d1 + 1) in
         and_then
           (if cls = VIRTIO_NET_CTRL_MAC then
              (if cmd = VIRTIO_NET_CTRL_MAC_ADDR_SET then
                 and_then (net_on_mem (memcpy_fromiovec (nd_mac_var d1) (drop 1 (gi_iov g)) 6) s2) (\<lambda>s3.
                 and_then (on_switch (port_update_addr (nd_port d1)
                     (mem_read (nd_mem (vs_dev s3)) (nd_mac_var d1) 6)) s3) (\<lambda>s4.
                   Inr (VIRTIO_NET_OK, s4)))
               else Inr (VIRTIO_NET_ERR, s2))
            else if cls = VIRTIO_NET_CTRL_MQ then Inr (VIRTIO_NET_OK, s2)
            else Inr (VIRTIO_NET_ERR, s2)) (\<lambda>(ack, s5).
         let s6 = upd_net (\<lambda>d. d\<lparr>nd_mem := (nd_mem d)(nd_ack_var d := ack)\<rparr>) s5 in
         and_then (net_on_mem (memcpy_toiovec (drop (unat (gi_out g)) (gi_iov g)) (nd_ack_var d1) 1) s6) (\<lambda>s7.
         and_then (net_on_shm (virtio_queue_update_used_elem (net_vq 2 s7)
                     (ucast (word_of_int (gi_ret g) :: u16)) 1) s7) (\<lambda>s8.
         and_then (net_must_notify 2 s8) (\<lambda>(n, s9).
           Inr (Net_Served, if n then virtio_mmio_interrupt_front True s9 else s9))))))))"

section \<open>Receiving from the switch\<close>

text \<open>\<open>memcpy_toiovec\<close> from the packet's bytes, which lie outside the driver's memory.\<close>

fun bytes_toiovec :: "iovec list \<Rightarrow> u8 list \<Rightarrow> bmem \<Rightarrow> bmem outcome" where
  "bytes_toiovec [] bs m = (if bs = [] then Inr m else Inl Out_Of_Bounds)"
| "bytes_toiovec (v # vs) bs m =
     (if bs = [] then Inr m
      else let copy = (if iov_len v = 0 then 0 else iov_copy v (length bs))
           in bytes_toiovec vs (drop copy bs) (mem_write m (iov_addr v) (take copy bs)))"

text \<open>The loop fills buffers of one descriptor each: \<open>iov\<close> has one entry. \<open>bs\<close> is what is left
  to copy. When the driver has no buffer left the task sleeps and looks again; the model stops
  there, with the buffers taken so far.\<close>

fun rx_fill :: "nat \<Rightarrow> u8 list \<Rightarrow> u16 \<Rightarrow> net_sys \<Rightarrow> (net_step \<times> u16 \<times> net_sys) outcome" where
  "rx_fill 0 bs num s = Inl Diverges"
| "rx_fill (Suc fuel) bs num s =
     and_then (net_take 0 1 s) (\<lambda>(g, s1).
       if gi_ret g < 0 then Inr (Net_Waits, num, s1)
       else and_then (iov_size (gi_iov g) (unat (gi_in g))) (\<lambda>sz.
         let iovsize = min (length bs) (unat sz) in
         and_then (bytes_toiovec (gi_iov g) (take iovsize bs) (nd_mem (vs_dev s1))) (\<lambda>m.
         and_then (net_on_shm (virtio_queue_add_used_elem (net_vq 0 s1)
                     (word_of_int (gi_ret g)) (of_nat iovsize) num)
                   (upd_net (\<lambda>d. d\<lparr>nd_mem := m\<rparr>) s1)) (\<lambda>s2.
           if drop iovsize bs = [] then Inr (Net_Served, num + 1, s2)
           else rx_fill fuel (drop iovsize bs) (num + 1) s2))))"

definition virtio_net_rx_callback ::
    "nat \<Rightarrow> data_pkt \<Rightarrow> net_sys \<Rightarrow> (net_step \<times> int \<times> net_sys) outcome" where
  "virtio_net_rx_callback fuel pkt s =
     (if nd_status (vs_dev s) \<noteq> VNET_RUN then Inr (Net_Served, 0, s)
      else if dp_data pkt < nd_hdr_len (vs_dev s) then Inr (Net_Served, -1, s)
      else let bs = take (unat (dp_data_len pkt) + nd_hdr_len (vs_dev s))
                      (drop (dp_data pkt - nd_hdr_len (vs_dev s)) (dp_buf pkt))
      in and_then (rx_fill fuel bs 0 s) (\<lambda>(st, num, s1).
        case st of Net_Waits \<Rightarrow> Inr (Net_Waits, 0, s1)
        | Net_Served \<Rightarrow>
          let s2 = upd_net (\<lambda>d. d\<lparr>nd_rx_pkts := nd_rx_pkts d + 1, nd_rx_cnt := nd_rx_cnt d + 1\<rparr>) s1 in
          and_then (net_on_shm (virtio_queue_update_used_idx (net_vq 0 s2) num) s2) (\<lambda>s3.
          and_then (net_must_notify 0 s3) (\<lambda>(n, s4).
            if n then let (c, s5) = net_coalesce (nd_rx_cnt (vs_dev s4)) s4
                      in Inr (Net_Served, 0, upd_net (\<lambda>d. d\<lparr>nd_rx_cnt := c\<rparr>) s5)
            else Inr (Net_Served, 0, s4)))))"

section \<open>Initialisation\<close>

definition net_set_config :: "net_dev \<Rightarrow> net_dev" where
  "net_set_config d = d\<lparr>nd_config := (nd_config d)\<lparr>nc_max_virtqueue_pairs := ucast (nd_queue_pairs d),
     nc_mac := default_mac\<rparr>\<rparr>"

text \<open>\<open>sems\<close> is whether each \<open>os_sem_init\<close> succeeds, in order.\<close>

fun queue_pre_init :: "nat list \<Rightarrow> bool list \<Rightarrow> net_dev \<Rightarrow> (int \<times> net_dev) outcome" where
  "queue_pre_init [] sems d = Inr (0, d)"
| "queue_pre_init (q # qs) sems d =
     and_then (arr_get (nd_queues d) q) (\<lambda>nq.
       let d1 = d\<lparr>nd_queues := (nd_queues d)[q := nq\<lparr>nq_id := q\<rparr>]\<rparr>
       in case sems of
            [] \<Rightarrow> Inr (-1, d1)
          | ok # oks \<Rightarrow> if \<not> ok then Inr (-1, d1)
              else queue_pre_init qs oks (d1\<lparr>nd_queues := (nd_queues d1)[q := nq\<lparr>nq_id := q, nq_sig := 0\<rparr>]\<rparr>))"

definition virtio_net_queue_pre_init :: "bool list \<Rightarrow> net_sys \<Rightarrow> (int \<times> net_sys) outcome" where
  "virtio_net_queue_pre_init sems s =
     and_then (queue_pre_init [0..<unat (vd_vqs (vs_vdev s))] sems (vs_dev s)) (\<lambda>(r, d).
       Inr (r, s\<lparr>vs_dev := d\<rparr>))"

definition virtio_net_dev_init ::
    "bool \<Rightarrow> bool list \<Rightarrow> bool \<Rightarrow> u64 \<Rightarrow> net_sys \<Rightarrow> (int \<times> net_sys) outcome" where
  "virtio_net_dev_init timer sems alloc mmio_base s =
     (let f = nd_features (vs_dev s);
          s1 = upd_vdev (\<lambda>v. v\<lparr>vd_cfg_size := 24, vd_vqs := nd_queue_pairs (vs_dev s) * 2 + 1,
                 vd_dev_features := [ucast f, ucast (drop_bit 32 f)]\<rparr>) s
      in if \<not> timer then Inr (-1, s1)
         else and_then (virtio_net_queue_pre_init sems s1) (\<lambda>(r, s2).
           if r < 0 then Inr (r, s2)
           else and_then (virtio_init alloc net_dev_virtio_ops mmio_base VIRTIO_MMIO 0 1 s2) (\<lambda>(r, s3).
             if r < 0 then Inr (r, s3) else Inr (0, s3))))"

text \<open>The transmit tasks of each queue pair and the control task; \<open>tasks\<close> is whether each
  \<open>xTaskCreate\<close> succeeds.\<close>

fun create_tasks :: "nat list \<Rightarrow> bool list \<Rightarrow> net_dev \<Rightarrow> (int \<times> net_dev) outcome" where
  "create_tasks [] tasks d = Inr (0, d)"
| "create_tasks (q # qs) tasks d =
     (case tasks of
        [] \<Rightarrow> Inr (-1, d)
      | ok # oks \<Rightarrow> if \<not> ok then Inr (-1, d)
          else and_then (arr_get (nd_queues d) q) (\<lambda>nq.
            create_tasks qs oks (d\<lparr>nd_queues := (nd_queues d)[q := nq\<lparr>nq_task := Some 0\<rparr>]\<rparr>)))"

definition virtio_net_create_tasks :: "bool list \<Rightarrow> net_dev \<Rightarrow> (int \<times> net_dev) outcome" where
  "virtio_net_create_tasks tasks d =
     (let n = unat (nd_queue_pairs d)
      in create_tasks (map (\<lambda>i. 2 * i + 1) [0..<n] @ [2 * n]) tasks d)"

definition virtio_net_port_add :: "bool \<Rightarrow> bool \<Rightarrow> net_dev \<Rightarrow> net_dev outcome" where
  "virtio_net_port_add sem_ok mq_ok d =
     and_then (switch_add_port sem_ok mq_ok (nd_port d)
       \<lparr>pc_is_local = True, pc_name = ''VirtIO_Switch_Port'', pc_mac_addr = nc_mac (nd_config d),
        pc_dev_end_on = Some (nd_link_on d), pc_setup_address_cb = False\<rparr> (nd_switch d)) (\<lambda>w.
       Inr (d\<lparr>nd_switch := w\<rparr>))"

definition virtio_net_port_init :: "bool \<Rightarrow> bool \<Rightarrow> bool \<Rightarrow> net_dev \<Rightarrow> (int \<times> net_dev) outcome" where
  "virtio_net_port_init alloc sem_ok mq_ok d =
     and_then (switch_init_port alloc (nd_switch d)) (\<lambda>(p, w).
     and_then (virtio_net_port_add sem_ok mq_ok (d\<lparr>nd_switch := w, nd_port := p\<rparr>)) (\<lambda>d'.
       Inr (0, d')))"

text \<open>The device structure after \<open>memset\<close>; the memory and the switch are there already.\<close>

definition blank_net_dev :: "net_dev \<Rightarrow> net_dev" where
  "blank_net_dev d = d\<lparr>nd_status := VNET_STOP, nd_link_on := False, nd_queue_pairs := 1,
     nd_queues := replicate 3 \<lparr>nq_id = 0, nq_vq = zero_vq, nq_task = None, nq_sig = 0\<rparr>,
     nd_kick_timer_active := False\<rparr>"

text \<open>\<open>virtio_net_init\<close> returns its result, the state and whether it freed the device.\<close>

definition virtio_net_init ::
    "bool \<Rightarrow> bool \<Rightarrow> bool \<Rightarrow> bool \<Rightarrow> bool \<Rightarrow> bool list \<Rightarrow> bool \<Rightarrow> bool list \<Rightarrow> u64 \<Rightarrow> net_sys \<Rightarrow>
      (int \<times> net_sys \<times> bool) outcome" where
  "virtio_net_init dev_alloc port_alloc sem_ok mq_ok timer sems mmio_alloc tasks mmio_base s =
     (if \<not> dev_alloc then Inr (-1, s, False)
      else let d0 = blank_net_dev (vs_dev s);
               d1 = d0\<lparr>nd_features := get_host_features d0\<rparr>;
               d2 = net_set_config (d1\<lparr>nd_hdr_len := virtio_net_hdr_len d1\<rparr>)
      in and_then (virtio_net_port_init port_alloc sem_ok mq_ok d2) (\<lambda>(r, d3).
           if r < 0 then Inr (r, s\<lparr>vs_dev := d3\<rparr>, True)
           else and_then (virtio_net_dev_init timer sems mmio_alloc mmio_base (s\<lparr>vs_dev := d3\<rparr>)) (\<lambda>(r, s4).
             if r < 0 then Inr (r, s4, True)
             else and_then (virtio_net_create_tasks tasks (vs_dev s4)) (\<lambda>(r, d5).
               if r < 0 then Inr (r, s4\<lparr>vs_dev := d5\<rparr>, True)
               else Inr (0, s4\<lparr>vs_dev := d5\<rparr>, False)))))"

definition virtio_net_exit :: int where
  "virtio_net_exit = 0"

section \<open>The device as the transport sees it\<close>

interpretation vnet: virtio_device net_dev_virtio_ops 3 "\<lambda>d q. nq_vq (nd_queues d ! q)"
    "\<lambda>d q v. put_net_vq q v d" "\<lambda>d. length (nd_queues d) = 3"
  by unfold_locales (auto simp: net_dev_virtio_ops_def net_get_vq_def net_put_vq_def net_exit_vq_def
    put_net_vq_def)

lemma reset_status_hook:
  assumes "vd_state (vs_vdev s) AND VIRTIO_STATE_LIVE \<noteq> 0"
  shows "handle_dev_status 0 s = Inr (upd_net (virtio_net_stop \<circ> virtio_net_update_status) s)"
  using assms by (simp add: handle_dev_status_def Let_def)

lemma stopped_device:
  "nd_status (virtio_net_stop d) = VNET_STOP" "\<not> nd_link_on (virtio_net_stop d)"
  "nd_queues (virtio_net_stop d) = nd_queues d"
  "nd_queues (virtio_net_update_status d) = nd_queues d"
  by (simp_all add: virtio_net_stop_def virtio_net_update_status_def set_link_on_def Let_def)

lemma exit_vqs_stopped:
  "exit_vqs net_dev_virtio_ops qs s = Inr s' \<Longrightarrow>
    nd_status (vs_dev s') = nd_status (vs_dev s) \<and> nd_link_on (vs_dev s') = nd_link_on (vs_dev s)"
proof (induction qs arbitrary: s)
  case Nil
  then show ?case by simp
next
  case (Cons q qs)
  then obtain s1 where s1: "virtio_mmio_exit_vq net_dev_virtio_ops (of_nat q) s = Inr s1"
    "exit_vqs net_dev_virtio_ops qs s1 = Inr s'" by (auto simp: outcome_simps)
  have "nd_status (vs_dev s1) = nd_status (vs_dev s) \<and> nd_link_on (vs_dev s1) = nd_link_on (vs_dev s)"
    using s1(1) by (auto simp: virtio_mmio_exit_vq_def virtio_exit_vq_def net_dev_virtio_ops_def
        net_exit_vq_def net_put_vq_def put_net_vq_def outcome_simps split: if_splits)
  then show ?case using Cons.IH [OF s1(2)] by simp
qed

lemma zero_vq_faults: "virtio_queue_get_iov zero_vq iov m = Inl Null_Deref"
  by (simp add: virtio_queue_get_iov_def zero_vq_def)

text \<open>Resetting a live network device takes the link down, stops the device and clears its
  three queues. From then on frames from the switch are dropped without touching the driver's
  memory, but the transmit task, if it is woken before the driver has set the queue up again,
  reads through the cleared ring pointer.\<close>

theorem net_reset_stops_device:
  assumes "length (nd_queues (vs_dev s)) = 3" and "vd_vqs (vs_vdev s) = 3"
    and "vd_state (vs_vdev s) AND VIRTIO_STATE_LIVE \<noteq> 0" and "h_status (vs_hdr s) = 0"
  shows "\<exists>s'. virtio_mmio_config_out net_dev_virtio_ops 0x070 len s = Inr s' \<and>
    nd_status (vs_dev s') = VNET_STOP \<and> \<not> nd_link_on (vs_dev s') \<and>
    (\<forall>q < 3. net_vq q s' = zero_vq) \<and>
    virtio_net_rx_callback fuel pkt s' = Inr (Net_Served, 0, s') \<and>
    virtio_net_tx_task cnt s' = Inl Null_Deref"
proof -
  let ?s1 = "upd_net (virtio_net_stop \<circ> virtio_net_update_status) s"
  let ?s2 = "upd_vdev (\<lambda>v. v\<lparr>vd_state := vd_state v AND NOT VIRTIO_STATE_LIVE\<rparr>) ?s1"
  have len: "length (nd_queues (vs_dev ?s2)) = 3" using assms(1) by (simp add: stopped_device)
  obtain d where d: "virtio_mmio_reset net_dev_virtio_ops ?s2 = Inr (?s2\<lparr>vs_dev := d\<rparr>)"
    "length (nd_queues d) = 3" "\<forall>q < 3. nq_vq (nd_queues d ! q) = zero_vq"
    using vnet.reset_zero [OF len] assms(2) by auto
  have st: "nd_status d = VNET_STOP" "\<not> nd_link_on d"
    using exit_vqs_stopped [OF d(1) [unfolded virtio_mmio_reset_def]]
    by (simp_all add: stopped_device)
  let ?s' = "?s2\<lparr>vs_dev := d\<rparr>"
  have "virtio_mmio_config_out net_dev_virtio_ops 0x070 len s = Inr ?s'"
    using reset_status_hook [OF assms(3)] d(1) assms(3,4)
    by (simp add: virtio_mmio_config_out_def virtio_handle_dev_status_def Let_def
        net_dev_virtio_ops_def)
  moreover have "virtio_net_tx_task cnt ?s' = Inl Null_Deref"
    using d(2,3) by (simp add: virtio_net_tx_task_def net_take_def zero_vq_faults)
  moreover have "virtio_net_rx_callback fuel pkt ?s' = Inr (Net_Served, 0, ?s')"
    using st by (simp add: virtio_net_rx_callback_def)
  ultimately show ?thesis using st d(3) by (auto simp: net_vq_def)
qed

text \<open>Setting up a queue does not check the queue selector: with a selector the device does
  not have, a write of the page frame makes the device write behind its queue array, whatever the
  page frame is.\<close>

theorem net_setup_unchecked_selector:
  assumes "length (nd_queues (vs_dev s)) \<le> unat (h_queue_sel (vs_hdr s))"
  shows "virtio_mmio_config_out net_dev_virtio_ops 0x040 len s = Inl Out_Of_Bounds"
  using assms
  by (simp add: virtio_mmio_config_out_def virtio_mmio_exit_vq_def virtio_exit_vq_def
      net_dev_virtio_ops_def net_get_vq_def net_init_vq_def Let_def)

section \<open>Transmit\<close>

lemma queues_put [simp]: "length (nd_queues (put_net_vq q v d)) = length (nd_queues d)"
  "nd_switch (put_net_vq q v d) = nd_switch d" "nd_shm (put_net_vq q v d) = nd_shm d"
  "nd_port (put_net_vq q v d) = nd_port d" "nd_mem (put_net_vq q v d) = nd_mem d"
  by (simp_all add: put_net_vq_def)

lemma coalesce_dev:
  "nd_switch (vs_dev (snd (net_coalesce c s))) = nd_switch (vs_dev s)"
  "nd_shm (vs_dev (snd (net_coalesce c s))) = nd_shm (vs_dev s)"
  "nd_mem (vs_dev (snd (net_coalesce c s))) = nd_mem (vs_dev s)"
  by (simp_all add: net_coalesce_def virtio_mmio_interrupt_front_def Let_def)

text \<open>Returning the chain and notifying, the end of a round of the transmit task.\<close>

lemma tx_end:
  assumes "queue_ready (net_vq 1 s)" "vr_avail (vq_vring (net_vq 1 s)) \<noteq> 0"
  shows "\<exists>c s'. and_then (net_on_shm (virtio_queue_update_used_elem (net_vq 1 s) e l) s) (\<lambda>s5.
      and_then (net_must_notify 1 s5) (\<lambda>(n, s6).
        let (cnt', s7) = (if n then net_coalesce cnt s6 else (cnt, s6))
        in Inr (Net_Served, cnt', s7))) = Inr (Net_Served, c, s') \<and>
    nd_switch (vs_dev s') = nd_switch (vs_dev s) \<and>
    virtio_queue_update_used_elem (net_vq 1 s) e l (nd_shm (vs_dev s)) = Inr (nd_shm (vs_dev s'))"
proof -
  obtain m where m: "virtio_queue_update_used_elem (net_vq 1 s) e l (nd_shm (vs_dev s)) = Inr m"
    using update_used_elem_publishes [OF assms(1)] by blast
  let ?s5 = "upd_net (\<lambda>d. d\<lparr>nd_shm := m\<rparr>) s"
  have v: "net_vq 1 ?s5 = net_vq 1 s" by (simp add: net_vq_def)
  obtain b vq' where n: "virtio_queue_must_notify (net_vq 1 s) m = Inr (b, vq')"
    using must_notify_ring [OF assms(2)] by blast
  let ?s6 = "upd_net (put_net_vq 1 vq') ?s5"
  obtain c0 s7 where c: "net_coalesce cnt ?s6 = (c0, s7)" by force
  have dev: "nd_switch (vs_dev s7) = nd_switch (vs_dev s)" "nd_shm (vs_dev s7) = m"
    using coalesce_dev [of cnt ?s6] unfolding c by simp_all
  have run: "and_then (net_on_shm (virtio_queue_update_used_elem (net_vq 1 s) e l) s) (\<lambda>s5.
      and_then (net_must_notify 1 s5) (\<lambda>(n, s6).
        let (cnt', s7) = (if n then net_coalesce cnt s6 else (cnt, s6))
        in Inr (Net_Served, cnt', s7))) =
      Inr (Net_Served, if b then (c0, s7) else (cnt, ?s6))"
    using m n v c by (simp add: net_on_shm_def net_must_notify_def)
  show ?thesis
  proof (cases b)
    case True
    then show ?thesis using run m dev by auto
  next
    case False
    then show ?thesis using run m by auto
  qed
qed

lemma net_vq_upd [simp]:
  "net_vq q (upd_net (\<lambda>d. d\<lparr>nd_switch := w\<rparr>) s) = net_vq q s"
  "net_vq q (upd_net (\<lambda>d. d\<lparr>nd_tx_pkts := n\<rparr>) s) = net_vq q s"
  by (simp_all add: net_vq_def)

text \<open>
  C15: The transmit task moves the driver's segments to the switch. A round that takes a chain
  returns it with its total length in the next slot of the used ring, whatever happens to its
  frames, and leaves a switch in order: every packet on exactly one queue. When the link is down
  the switch sees nothing. When it is up, then given the port is on and memory for every copy,
  every segment after the header is handed, in order, to the device's switch port, so that each
  port's queue grows by exactly the segments that are for it. The chain must have been taken
  (descriptors fit the array), its lengths must not add up past what \<open>iov_size\<close>
  holds, each segment after the header must be at least six bytes and fit a packet
  (\<open>frame_fits\<close>), and the queue must be set up.
\<close>

theorem net_tx_moves_segments:
  assumes "net_take 1 VIRTIO_NET_QUEUE_SIZE s = Inr (g, s1)" and "0 \<le> gi_ret g"
    and "iov_size (gi_iov g) (unat (gi_out g)) = Inr len"
    and "p = nd_port (vs_dev s1)" and "sw = nd_switch (vs_dev s1)"
    and "segs = segments (gi_iov g) (unat (gi_out g)) (nd_mem (vs_dev s1))"
    and "switch_inv sw" and "owned sw {}" and "p \<in> set (all_ports sw)" and "\<forall>f \<in> set segs. frame_fits f"
    and "vq = net_vq 1 s1" and "queue_ready vq" and "vr_avail (vq_vring vq) \<noteq> 0"
  shows "\<exists>c s'. virtio_net_tx_task cnt s = Inr (Net_Served, c, s') \<and>
    switch_inv (nd_switch (vs_dev s')) \<and> owned (nd_switch (vs_dev s')) {} \<and>
    (\<not> link sw p \<longrightarrow> nd_switch (vs_dev s') = sw) \<and>
    (link sw p \<and> sp_power_on (the_port sw p) \<and> (\<forall>n. ph_alloc (ss_heap sw) n) \<longrightarrow>
      (\<forall>q. frames (nd_switch (vs_dev s')) q = frames sw q @ filter (\<lambda>f. q \<in> forward_set sw p f) segs)) \<and>
    used_ring vq (nd_shm (vs_dev s')) = (let us = used_ring vq (nd_shm (vs_dev s1)) in
      \<lparr>us_flags = us_flags us, us_idx = us_idx us + 1, us_ring = (us_ring us)
        (used_slot vq (us_idx us) :=
           \<lparr>ue_id = ucast (word_of_int (gi_ret g) :: u16), ue_len = ucast len\<rparr>)\<rparr>)"
proof -
  obtain x where x: "ss_ports sw p = Some x"
    using inv_port [OF assms(7,9)] by blast
  have there: "port_there sw p" using assms(7-9) by (simp add: port_there_def)
  have lk: "link sw p = cable_link_is_on x" by (simp add: link_def x)
  let ?e = "ucast (word_of_int (gi_ret g) :: u16) :: u32"
  obtain n4 s4 where s4: "(if \<not> cable_link_is_on x then Inr (cnt, s1)
      else and_then (on_switch (in_all (\<lambda>f. port_in_pkt p f False) segs) s1) (\<lambda>s2.
           and_then (on_switch notify_ports s2) (\<lambda>s3.
             Inr (cnt + 1, upd_net (\<lambda>d. d\<lparr>nd_tx_pkts := nd_tx_pkts d + 1\<rparr>) s3)))) = Inr (n4, s4)"
    "net_vq 1 s4 = vq" "nd_shm (vs_dev s4) = nd_shm (vs_dev s1)"
    "port_there (nd_switch (vs_dev s4)) p" "\<not> link sw p \<longrightarrow> nd_switch (vs_dev s4) = sw"
    "link sw p \<and> port_open sw p \<longrightarrow> (\<forall>q. frames (nd_switch (vs_dev s4)) q = frames sw q @
       filter (\<lambda>f. q \<in> forward_set sw p f) segs)"
  proof (cases "cable_link_is_on x")
    case False
    then show ?thesis using that [of cnt s1] assms(5,11) lk there by simp
  next
    case True
    obtain w where w: "in_all (\<lambda>f. port_in_pkt p f False) segs sw = Inr w" "port_there w p"
      "port_open sw p \<longrightarrow> (\<forall>q. frames w q = frames sw q @ filter (\<lambda>f. q \<in> forward_set sw p f) segs)"
      using vswitch.in_all_delivers [OF there assms(10)] by blast
    obtain w' where w': "notify_ports w = Inr w'" "quiet w w'"
      using notify_ports_quiet [of w] w(2) by (auto simp: port_there_def)
    have q: "frames w' = frames w" "port_there w' p"
      using w'(2) same_frame_port(1) [of w w' p] w(2) by (simp_all add: quiet_def port_there_def)
    let ?s4 = "upd_net (\<lambda>d. d\<lparr>nd_tx_pkts := nd_tx_pkts d + 1\<rparr>) (upd_net (\<lambda>d. d\<lparr>nd_switch := w'\<rparr>) s1)"
    have "(if \<not> cable_link_is_on x then Inr (cnt, s1)
      else and_then (on_switch (in_all (\<lambda>f. port_in_pkt p f False) segs) s1) (\<lambda>s2.
           and_then (on_switch notify_ports s2) (\<lambda>s3.
             Inr (cnt + 1, upd_net (\<lambda>d. d\<lparr>nd_tx_pkts := nd_tx_pkts d + 1\<rparr>) s3)))) = Inr (cnt + 1, ?s4)"
      using True w(1) w'(1) assms(5) by (simp add: on_switch_def)
    moreover have "net_vq 1 ?s4 = vq" using assms(11) by (simp add: net_vq_def)
    ultimately show ?thesis using that [of "cnt + 1" ?s4] w(3) q lk True by simp
  qed
  have q4: "queue_ready (net_vq 1 s4)" "vr_avail (vq_vring (net_vq 1 s4)) \<noteq> 0"
    using assms(12,13) s4(2) by simp_all
  obtain c s' where s': "and_then (net_on_shm (virtio_queue_update_used_elem (net_vq 1 s4) ?e (ucast len)) s4)
      (\<lambda>s5. and_then (net_must_notify 1 s5) (\<lambda>(n, s6).
        let (cnt', s7) = (if n then net_coalesce n4 s6 else (n4, s6))
        in Inr (Net_Served, cnt', s7))) = Inr (Net_Served, c, s')"
    "nd_switch (vs_dev s') = nd_switch (vs_dev s4)"
    "virtio_queue_update_used_elem vq ?e (ucast len) (nd_shm (vs_dev s1)) = Inr (nd_shm (vs_dev s'))"
    using tx_end [OF q4, of ?e "ucast len" n4] s4(2,3) by auto
  have "virtio_net_tx_task cnt s = Inr (Net_Served, c, s')"
  proof -
    have ng: "(gi_ret g < 0) = False" using assms(2) by simp
    show ?thesis
      unfolding virtio_net_tx_task_def
      by (simp only: assms(1) and_then.simps prod.case ng if_False assms(3) Let_def
          assms(4-6) [symmetric] port_at_Some [OF x] s4(1) s'(1) [unfolded Let_def])
  qed
  moreover have "used_ring vq (nd_shm (vs_dev s')) = (let us = used_ring vq (nd_shm (vs_dev s1)) in
      \<lparr>us_flags = us_flags us, us_idx = us_idx us + 1, us_ring = (us_ring us)
        (used_slot vq (us_idx us) := \<lparr>ue_id = ?e, ue_len = ucast len\<rparr>)\<rparr>)"
    using update_used_elem_publishes [OF assms(12), of ?e "ucast len" "nd_shm (vs_dev s1)"] s'(3)
    by (auto simp: Let_def)
  ultimately show ?thesis using s4(4-6) s'(2) by (auto simp: port_there_def port_open_def)
qed


section \<open>Receive\<close>

lemma take_single:
  assumes "0 < length (nd_queues (vs_dev s))" "vq = net_vq 0 s" "m = nd_shm (vs_dev s)"
    and "avail_pending vq m" and "chain_start (vq_vring vq) (avail_head vq m) m = (b, i)"
    and "desc_chain 1 m b i = Some [d]" and "writable d"
  shows "net_take 0 1 s = Inr (\<lparr>gi_ret = int (unat (avail_head vq m)),
      gi_vq = vq\<lparr>vq_last_avail_idx := vq_last_avail_idx vq + 1\<rparr>,
      gi_mem = (if vq_use_event_idx vq
                then set_avail_event (vq_vring vq) (vq_last_avail_idx vq + 1) m else m),
      gi_iov = [desc_iov d], gi_out = 0, gi_in = 1\<rparr>,
    upd_net (\<lambda>d. (put_net_vq 0 (vq\<lparr>vq_last_avail_idx := vq_last_avail_idx vq + 1\<rparr>) d)
      \<lparr>nd_shm := (if vq_use_event_idx vq
                  then set_avail_event (vq_vring vq) (vq_last_avail_idx vq + 1) m else m)\<rparr>) s)"
proof -
  have "virtio_queue_get_iov vq (iov_array 1) m = Inr \<lparr>gi_ret = int (unat (avail_head vq m)),
      gi_vq = vq\<lparr>vq_last_avail_idx := vq_last_avail_idx vq + 1\<rparr>,
      gi_mem = (if vq_use_event_idx vq
                then set_avail_event (vq_vring vq) (vq_last_avail_idx vq + 1) m else m),
      gi_iov = [desc_iov d], gi_out = 0, gi_in = 1\<rparr>"
    using get_iov_chain [OF assms(4-6), of "iov_array 1"] assms(7) by (simp add: iov_array_def)
  then show ?thesis using assms(1-3) by (simp add: net_take_def net_vq_def)
qed

text \<open>The receive callback declares an array of one descriptor. A buffer of the driver made
  of two or more descriptors, which the driver is free to post, overruns it.\<close>

theorem net_rx_chain_overruns:
  assumes "nd_status (vs_dev s) = VNET_RUN" and "nd_hdr_len (vs_dev s) \<le> dp_data pkt"
    and "0 < length (nd_queues (vs_dev s))" and "vq = net_vq 0 s" and "m = nd_shm (vs_dev s)"
    and "avail_pending vq m" and "chain_start (vq_vring vq) (avail_head vq m) m = (b, i)"
    and "desc_chain 1 m b i = None"
  shows "virtio_net_rx_callback (Suc fuel) pkt s = Inl Out_Of_Bounds"
proof -
  have "virtio_queue_get_iov vq (iov_array 1) m = Inl Out_Of_Bounds"
    using get_iov_overflow [OF assms(6,7), of "iov_array 1"] assms(8) by (simp add: iov_array_def)
  then have "net_take 0 1 s = Inl Out_Of_Bounds"
    using assms(3-5) by (simp add: net_take_def net_vq_def)
  then show ?thesis using assms(1,2) by (simp add: virtio_net_rx_callback_def Let_def)
qed

text \<open>The bytes the driver gets for a packet: the header room before the data, and the data.\<close>

definition rx_bytes :: "nat \<Rightarrow> data_pkt \<Rightarrow> u8 list" where
  "rx_bytes hdr pkt = take (unat (dp_data_len pkt) + hdr) (drop (dp_data pkt - hdr) (dp_buf pkt))"

lemma mem_read_write:
  assumes "length bs < 2 ^ 64"
  shows "mem_read (mem_write m a bs) a (length bs) = bs"
proof (rule nth_equalityI)
  show "length (mem_read (mem_write m a bs) a (length bs)) = length bs" by (simp add: mem_read_def)
  fix i assume "i < length (mem_read (mem_write m a bs) a (length bs))"
  then have i: "i < length bs" by (simp add: mem_read_def)
  have "unat (of_nat i :: u64) = i" using i assms by (simp add: unat_of_nat take_bit_nat_eq_self)
  then show "mem_read (mem_write m a bs) a (length bs) ! i = bs ! i"
    using i mem_write_at [OF assms, of m a "a + of_nat i"] by (simp add: mem_read_def)
qed

lemma iov_copy_desc: "n \<le> unat (d_len d) \<Longrightarrow> iov_copy (desc_iov d) n = n"
proof -
  have "ucast (ucast (d_len d) :: u64) = d_len d"
    by (rule bit_word_eqI) (simp add: bit_simps)
  then show "n \<le> unat (d_len d) \<Longrightarrow> iov_copy (desc_iov d) n = n"
    by (simp add: iov_copy_def desc_iov_def)
qed

lemma single_fill:
  assumes "net_take 0 1 s = Inr (g, s1)" "0 \<le> gi_ret g" "gi_iov g = [desc_iov d]" "gi_in g = 1"
    and "length bs \<le> unat (d_len d)" "bs \<noteq> []" "queue_ready (net_vq 0 s1)"
  shows "\<exists>s2. rx_fill (Suc fuel) bs 0 s = Inr (Net_Served, 1, s2) \<and>
    net_vq 0 s2 = net_vq 0 s1 \<and> nd_mem (vs_dev s2) = mem_write (nd_mem (vs_dev s1)) (d_addr d) bs \<and>
    virtio_queue_add_used_elem (net_vq 0 s1) (word_of_int (gi_ret g)) (of_nat (length bs)) 0
      (nd_shm (vs_dev s1)) = Inr (nd_shm (vs_dev s2))"
proof -
  obtain m' where m': "virtio_queue_add_used_elem (net_vq 0 s1) (word_of_int (gi_ret g))
      (of_nat (length bs)) 0 (nd_shm (vs_dev s1)) = Inr m'"
    using add_used_elem_eq [OF assms(7)] by blast
  have len: "unat (iov_len (desc_iov d)) = unat (d_len d)" by (simp add: desc_iov_def)
  have sz: "iov_size [desc_iov d] 1 = Inr (iov_len (desc_iov d))" by (simp add: iov_size_def)
  have nz: "iov_len (desc_iov d) \<noteq> 0" using assms(5,6) len by auto
  have cp: "bytes_toiovec [desc_iov d] bs m = Inr (mem_write m (d_addr d) bs)" for m
    using nz assms(6) iov_copy_desc [OF assms(5)] by (simp add: desc_iov_def)
  let ?s2 = "upd_net (\<lambda>e. e\<lparr>nd_mem := mem_write (nd_mem e) (d_addr d) bs, nd_shm := m'\<rparr>) s1"
  have "rx_fill (Suc fuel) bs 0 s = Inr (Net_Served, 1, ?s2)"
    using assms(1-5) m' sz cp len by (simp add: net_on_shm_def Let_def del: bytes_toiovec.simps)
  moreover have "net_vq 0 ?s2 = net_vq 0 s1" by (simp add: net_vq_def)
  ultimately show ?thesis using m' by auto
qed

text \<open>C16: A frame that fits the driver's next buffer of one writable descriptor is delivered
  into it: the buffer gets the virtio header room and the frame, byte for byte, and the used ring
  shows that buffer with the frame's length, published by one step of the used index.\<close>

theorem net_rx_delivers:
  assumes "nd_status (vs_dev s) = VNET_RUN" and "nd_hdr_len (vs_dev s) \<le> dp_data pkt"
    and "0 < length (nd_queues (vs_dev s))" and "vq = net_vq 0 s" and "m = nd_shm (vs_dev s)"
    and "avail_pending vq m" and "chain_start (vq_vring vq) (avail_head vq m) m = (b, i)"
    and "desc_chain 1 m b i = Some [d]" and "writable d" and "queue_ready vq"
    and "bs = rx_bytes (nd_hdr_len (vs_dev s)) pkt" and "bs \<noteq> []" and "length bs \<le> unat (d_len d)"
  shows "\<exists>s'. virtio_net_rx_callback (Suc fuel) pkt s = Inr (Net_Served, 0, s') \<and>
    mem_read (nd_mem (vs_dev s')) (d_addr d) (length bs) = bs \<and>
    us_idx (used_ring vq (nd_shm (vs_dev s'))) = us_idx (used_ring vq m) + 1 \<and>
    us_ring (used_ring vq (nd_shm (vs_dev s'))) (used_slot vq (us_idx (used_ring vq m))) =
      \<lparr>ue_id = word_of_int (int (unat (avail_head vq m))), ue_len = of_nat (length bs)\<rparr>"
proof -
  define vq1 where "vq1 = vq\<lparr>vq_last_avail_idx := vq_last_avail_idx vq + 1\<rparr>"
  obtain g s1 where g: "net_take 0 1 s = Inr (g, s1)" "gi_ret g = int (unat (avail_head vq m))"
    "gi_iov g = [desc_iov d]" "gi_in g = 1" "net_vq 0 s1 = vq1" "nd_mem (vs_dev s1) = nd_mem (vs_dev s)"
    "used_ring vq (nd_shm (vs_dev s1)) = used_ring vq (if vq_use_event_idx vq
        then set_avail_event (vq_vring vq) (vq_last_avail_idx vq + 1) m else m)"
    using take_single [OF assms(3-9)] assms(3)
    by (auto simp: net_vq_def put_net_vq_def vq1_def)
  have idx: "us_idx (used_ring vq (nd_shm (vs_dev s1))) = us_idx (used_ring vq m)"
    unfolding g(7) by (simp add: used_ring_def set_avail_event_def Let_def)
  have ready: "queue_ready vq1" using assms(10) by (simp add: vq1_def queue_ready_def)
  have same: "used_ring vq1 = used_ring vq" "used_slot vq1 = used_slot vq" "put_used vq1 = put_used vq"
    by (simp_all add: fun_eq_iff used_ring_def used_slot_def put_used_def vq1_def)
  obtain s2 where s2: "rx_fill (Suc fuel) bs 0 s = Inr (Net_Served, 1, s2)" "net_vq 0 s2 = vq1"
    "nd_mem (vs_dev s2) = mem_write (nd_mem (vs_dev s)) (d_addr d) bs"
    "virtio_queue_add_used_elem vq1 (word_of_int (gi_ret g)) (of_nat (length bs)) 0
      (nd_shm (vs_dev s1)) = Inr (nd_shm (vs_dev s2))"
    using single_fill [OF g(1) _ g(3,4) assms(13,12), of fuel] g(2,5,6) ready by auto
  let ?s3 = "upd_net (\<lambda>d. d\<lparr>nd_rx_pkts := nd_rx_pkts d + 1, nd_rx_cnt := nd_rx_cnt d + 1\<rparr>) s2"
  obtain m4 where m4: "virtio_queue_update_used_idx vq1 1 (nd_shm (vs_dev s2)) = Inr m4"
    using update_used_idx_eq [OF ready] by blast
  let ?s4 = "upd_net (\<lambda>d. d\<lparr>nd_shm := m4\<rparr>) ?s3"
  have v: "net_vq 0 ?s3 = vq1" "net_vq 0 ?s4 = vq1" using s2(2) by (simp_all add: net_vq_def)
  have av: "vr_avail (vq_vring vq1) \<noteq> 0" using assms(6) by (simp add: avail_pending_def vq1_def)
  obtain nb vq' where n: "virtio_queue_must_notify vq1 m4 = Inr (nb, vq')"
    using must_notify_ring [OF av] by blast
  let ?s5 = "upd_net (put_net_vq 0 vq') ?s4"
  obtain c s6 where c: "net_coalesce (nd_rx_cnt (vs_dev ?s5)) ?s5 = (c, s6)" by force
  have dev: "nd_mem (vs_dev s6) = nd_mem (vs_dev s2)" "nd_shm (vs_dev s6) = m4"
    using coalesce_dev [of "nd_rx_cnt (vs_dev ?s5)" ?s5] unfolding c by simp_all
  have "\<exists>s'. virtio_net_rx_callback (Suc fuel) pkt s = Inr (Net_Served, 0, s') \<and>
      nd_mem (vs_dev s') = nd_mem (vs_dev s2) \<and> nd_shm (vs_dev s') = m4"
  proof (cases nb)
    case True
    then show ?thesis using assms(1,2) s2(1) m4 n v c dev
      by (simp add: virtio_net_rx_callback_def rx_bytes_def assms(11) [symmetric, unfolded rx_bytes_def]
          net_on_shm_def net_must_notify_def del: rx_fill.simps)
  next
    case False
    then show ?thesis using assms(1,2) s2(1) m4 n v
      by (simp add: virtio_net_rx_callback_def rx_bytes_def assms(11) [symmetric, unfolded rx_bytes_def]
          net_on_shm_def net_must_notify_def del: rx_fill.simps)
  qed
  moreover have "length bs < 2 ^ 64" using assms(13) u32_lt [of "d_len d"] by simp
  moreover have "m4 = put_used vq \<lparr>us_flags = us_flags (used_ring vq (nd_shm (vs_dev s1))),
      us_idx = us_idx (used_ring vq m) + 1, us_ring = (us_ring (used_ring vq (nd_shm (vs_dev s1))))
        (used_slot vq (us_idx (used_ring vq m)) :=
          \<lparr>ue_id = word_of_int (gi_ret g), ue_len = of_nat (length bs)\<rparr>)\<rparr> (nd_shm (vs_dev s1))"
    using update_used_elem_publishes [OF ready, of "word_of_int (gi_ret g)" "of_nat (length bs)"
        "nd_shm (vs_dev s1)"] s2(4) m4
    by (simp add: virtio_queue_update_used_elem_def same idx)
  ultimately show ?thesis using s2(3) g(2) mem_read_write by auto
qed

section \<open>Initialisation\<close>

definition port_of :: "net_sys \<Rightarrow> switch_sys \<times> nat" where
  "port_of s = (nd_switch (vs_dev s), nd_port (vs_dev s))"

lemma queue_pre_init_port:
  "queue_pre_init qs sems d = Inr (r, d') \<Longrightarrow> nd_switch d' = nd_switch d \<and> nd_port d' = nd_port d"
proof (induction qs arbitrary: sems d)
  case Nil
  then show ?case by simp
next
  case (Cons q qs)
  show ?case using Cons.prems
    by (auto simp: outcome_simps Let_def split: list.splits if_splits dest!: Cons.IH)
qed

lemma create_tasks_port:
  "create_tasks qs ts d = Inr (r, d') \<Longrightarrow> nd_switch d' = nd_switch d \<and> nd_port d' = nd_port d"
proof (induction qs arbitrary: ts d)
  case Nil
  then show ?case by simp
next
  case (Cons q qs)
  show ?case using Cons.prems
    by (auto simp: outcome_simps Let_def split: list.splits if_splits dest!: Cons.IH)
qed

lemma virtio_init_port:
  "virtio_init alloc ops base tr dev subsys s = Inr (r, s') \<Longrightarrow> vs_dev s' = vs_dev s"
  by (auto simp: virtio_init_def virtio_mmio_init_def outcome_simps Let_def
      split: virtio_trans.splits if_splits)

lemma pre_init_port:
  "virtio_net_queue_pre_init sems s = Inr (r, s') \<Longrightarrow> port_of s' = port_of s"
  by (auto simp: virtio_net_queue_pre_init_def port_of_def outcome_simps dest: queue_pre_init_port)

lemma dev_init_port:
  assumes "virtio_net_dev_init timer sems alloc base s = Inr (r, s')"
  shows "port_of s' = port_of s"
  using assms
  by (auto simp: virtio_net_dev_init_def port_of_def outcome_simps Let_def split: if_splits
      dest!: pre_init_port virtio_init_port)

lemma port_init_adds:
  assumes "virtio_net_port_init alloc sem mq d = Inr (r, d')"
  shows "r = 0 \<and> nd_port d' \<in> set (ss_local_port_list (nd_switch d'))"
  using assms
  by (auto simp: virtio_net_port_init_def virtio_net_port_add_def switch_init_port_def
      switch_add_port_def os_assert_def outcome_simps Let_def upd_port_def call_setup_addr_def
      split: if_splits option.splits)

text \<open>When initialisation fails after the switch port was made, the device structure is freed
  while the port stays in the switch's list of local ports: its output callback, its private
  pointer and its link flag all still refer to the freed structure.\<close>

theorem failed_init_leaves_port:
  assumes "virtio_net_init dev_alloc port_alloc sem_ok mq_ok timer sems mmio_alloc tasks base s
    = Inr (r, s', True)"
  shows "r < 0 \<and> nd_port (vs_dev s') \<in> set (ss_local_port_list (nd_switch (vs_dev s')))"
proof -
  let ?d0 = "blank_net_dev (vs_dev s)"
  let ?d1 = "?d0\<lparr>nd_features := get_host_features ?d0\<rparr>"
  let ?d2 = "net_set_config (?d1\<lparr>nd_hdr_len := virtio_net_hdr_len ?d1\<rparr>)"
  obtain r3 d3 where d3: "virtio_net_port_init port_alloc sem_ok mq_ok ?d2 = Inr (r3, d3)"
    using assms by (auto simp: virtio_net_init_def Let_def outcome_simps split: if_splits)
  have p3: "r3 = 0" "nd_port d3 \<in> set (ss_local_port_list (nd_switch d3))"
    using port_init_adds [OF d3] by simp_all
  obtain r4 s4 where s4: "virtio_net_dev_init timer sems mmio_alloc base (s\<lparr>vs_dev := d3\<rparr>) = Inr (r4, s4)"
    using assms d3 p3(1) by (auto simp: virtio_net_init_def Let_def outcome_simps split: if_splits)
  have p4: "nd_switch (vs_dev s4) = nd_switch d3" "nd_port (vs_dev s4) = nd_port d3"
    using dev_init_port [OF s4] by (simp_all add: port_of_def)
  show ?thesis
  proof (cases "r4 < 0")
    case True
    then show ?thesis using assms d3 s4 p3 p4
      by (auto simp: virtio_net_init_def Let_def split: if_splits)
  next
    case False
    then obtain r5 d5 where d5: "virtio_net_create_tasks tasks (vs_dev s4) = Inr (r5, d5)"
      using assms d3 s4 p3(1) by (auto simp: virtio_net_init_def Let_def outcome_simps split: if_splits)
    have "nd_switch d5 = nd_switch d3" "nd_port d5 = nd_port d3"
      using create_tasks_port d5 p4 by (auto simp: virtio_net_create_tasks_def Let_def)
    then show ?thesis using assms d3 s4 p3 False d5
      by (auto simp: virtio_net_init_def Let_def split: if_splits)
  qed
qed

section \<open>Concrete instances\<close>

definition ex_net_shm :: shm where
  "ex_net_shm = \<lparr>sm_desc = (\<lambda>a.
       if a = 0x1020 then \<lparr>d_addr = 0x9000, d_len = 10, d_flags = 1, d_next = 1\<rparr>
       else if a = 0x5020 then \<lparr>d_addr = 0xB000, d_len = 64, d_flags = 2, d_next = 0\<rparr>
       else if a = 0x7020 then \<lparr>d_addr = 0xC000, d_len = 10, d_flags = 3, d_next = 1\<rparr>
       else \<lparr>d_addr = 0xA000, d_len = 9, d_flags = 0, d_next = 0\<rparr>),
     sm_avail = (\<lambda>a. \<lparr>av_flags = 0, av_idx = 1, av_ring = (\<lambda>i. 2)\<rparr>),
     sm_used = (\<lambda>a. \<lparr>us_flags = 0, us_idx = 0, us_ring = (\<lambda>i. \<lparr>ue_id = 0, ue_len = 0\<rparr>)\<rparr>)\<rparr>"

definition ex_nq :: "u64 \<Rightarrow> virtqueue" where
  "ex_nq base = \<lparr>vq_vring = \<lparr>vr_num = 4, vr_desc = base, vr_avail = 0x40, vr_used = 0x80\<rparr>,
     vq_pfn = 1, vq_last_avail_idx = 0, vq_last_notified_idx = 0, vq_use_event_idx = False,
     vq_enabled = True\<rparr>"

definition ex_queue :: "u64 \<Rightarrow> net_dev_queue" where
  "ex_queue base = \<lparr>nq_id = 0, nq_vq = ex_nq base, nq_task = Some 0, nq_sig = 1\<rparr>"

definition ex_net :: "u64 \<Rightarrow> net_dev" where
  "ex_net rx = \<lparr>nd_config = \<lparr>nc_mac = default_mac, nc_status = 1, nc_max_virtqueue_pairs = 1\<rparr>,
     nd_features = 0, nd_status = VNET_RUN, nd_link_on = True,
     nd_queues = [ex_queue rx, ex_queue 0x1000, ex_queue 0x1000], nd_queue_pairs = 1, nd_port = 0,
     nd_hdr_len = 10, nd_kick_timer_active = False, nd_coal_ticks = 1, nd_rx_pkts = 0,
     nd_tx_pkts = 0, nd_rx_cnt = 0, nd_switch = ex_switch (\<lambda>_. None), nd_shm = ex_net_shm,
     nd_mem = (\<lambda>_. 0xff), nd_ctrl_var = 0x10, nd_mac_var = 0x18, nd_ack_var = 0x20\<rparr>"

lemma ex_net_facts [simp]:
  "nd_queues (ex_net rx) = [ex_queue rx, ex_queue 0x1000, ex_queue 0x1000]"
  "nq_vq (ex_queue rx) = ex_nq rx" "nd_status (ex_net rx) = VNET_RUN" "nd_hdr_len (ex_net rx) = 10"
  "nd_shm (ex_net rx) = ex_net_shm" "nd_port (ex_net rx) = 0"
  "nd_switch (ex_net rx) = ex_switch (\<lambda>_. None)" "nd_mem (ex_net rx) = (\<lambda>_. 0xff)"
  by (simp_all add: ex_net_def ex_queue_def)

lemma ex_nq_facts:
  "avail_pending (ex_nq b) ex_net_shm" "queue_ready (ex_nq b)"
  "vr_avail (vq_vring (ex_nq b)) \<noteq> 0" "avail_head (ex_nq b) ex_net_shm = 2"
  "\<not> vq_use_event_idx (ex_nq b)" "vq_last_avail_idx (ex_nq b) = 0"
  "vr_desc (vq_vring (ex_nq b)) = b" "vr_num (vq_vring (ex_nq b)) = 4"
  by (simp_all add: avail_pending_def queue_ready_def avail_head_def ex_nq_def ex_net_shm_def)

lemma ex_net_chains:
  "chain_start (vq_vring (ex_nq 0x1000)) 2 ex_net_shm = (0x1000, 2)"
  "chain_start (vq_vring (ex_nq 0x5000)) 2 ex_net_shm = (0x5000, 2)"
  "chain_start (vq_vring (ex_nq 0x7000)) 2 ex_net_shm = (0x7000, 2)"
  "desc_chain (Suc (Suc n)) ex_net_shm 0x1000 2 =
     Some [\<lparr>d_addr = 0x9000, d_len = 10, d_flags = 1, d_next = 1\<rparr>,
           \<lparr>d_addr = 0xA000, d_len = 9, d_flags = 0, d_next = 0\<rparr>]"
  "desc_chain (Suc 0) ex_net_shm 0x5000 2 = Some [\<lparr>d_addr = 0xB000, d_len = 64, d_flags = 2, d_next = 0\<rparr>]"
  "desc_chain (Suc 0) ex_net_shm 0x7000 2 = None"
  by (simp_all add: chain_start_def ex_nq_facts desc_at_def ex_net_shm_def ring_flag_defs)

theorem net_reset_stops_device_witness:
  "\<exists>s'. virtio_mmio_config_out net_dev_virtio_ops 0x070 4
       ((ex_sys (ex_net 0x5000))\<lparr>vs_vdev := ex_vdev\<lparr>vd_vqs := 3\<rparr>\<rparr>) = Inr s' \<and>
     virtio_net_tx_task 0 s' = Inl Null_Deref"
  using net_reset_stops_device [where s = "(ex_sys (ex_net 0x5000))\<lparr>vs_vdev := ex_vdev\<lparr>vd_vqs := 3\<rparr>\<rparr>"
      and len = "4" and cnt = "0"]
  by (simp add: ex_sys_defs mmio_consts) blast

theorem net_setup_unchecked_selector_witness:
  "virtio_mmio_config_out net_dev_virtio_ops 0x040 4
     (upd_hdr (\<lambda>h. h\<lparr>h_queue_sel := 3\<rparr>) (ex_sys (ex_net 0x5000))) = Inl Out_Of_Bounds"
  by (rule net_setup_unchecked_selector) (simp add: ex_sys_defs)

theorem net_rx_chain_overruns_witness:
  "virtio_net_rx_callback 1 (filled 64 ex_bcast 1) (ex_sys (ex_net 0x7000)) = Inl Out_Of_Bounds"
  using net_rx_chain_overruns [of "ex_sys (ex_net 0x7000)" "filled 64 ex_bcast 1" "ex_nq 0x7000"
      ex_net_shm "0x7000" 2 0]
  by (simp add: ex_sys_def net_vq_def ex_nq_facts ex_net_chains filled_def fresh_pkt_def
      del: desc_chain.simps)

theorem net_rx_delivers_witness:
  "\<exists>s'. virtio_net_rx_callback 1 (filled 64 ex_bcast 1) (ex_sys (ex_net 0x5000)) =
       Inr (Net_Served, 0, s') \<and>
     mem_read (nd_mem (vs_dev s')) 0xB000 19 = replicate 10 0 @ ex_bcast"
proof -
  have bs: "rx_bytes 10 (filled 64 ex_bcast 1) = replicate 10 0 @ ex_bcast"
    by (simp add: rx_bytes_def filled_def fresh_pkt_def ex_bcast_pkt(4))
  have "length (replicate 10 0 @ ex_bcast) = 19" by (simp add: ex_bcast_pkt(4))
  then show ?thesis
    using net_rx_delivers [of "ex_sys (ex_net 0x5000)" "filled 64 ex_bcast 1" "ex_nq 0x5000" ex_net_shm
        "0x5000" 2 "\<lparr>d_addr = 0xB000, d_len = 64, d_flags = 2, d_next = 0\<rparr>"
        "replicate 10 0 @ ex_bcast" 0] bs
    by (auto simp: ex_sys_def net_vq_def ex_nq_facts ex_net_chains filled_def fresh_pkt_def
        ring_flag_defs writable_def simp del: desc_chain.simps)
qed

theorem net_tx_moves_segments_witness:
  "\<exists>c s'. virtio_net_tx_task 0 (ex_sys (ex_net 0x5000)) = Inr (Net_Served, c, s') \<and>
     frames (nd_switch (vs_dev s')) 1 = [replicate 9 0xff]"
proof -
  let ?s = "ex_sys (ex_net 0x5000)" and ?w = "ex_switch (\<lambda>_. None)"
  let ?ds = "[\<lparr>d_addr = 0x9000, d_len = 10, d_flags = 1, d_next = 1\<rparr>,
           \<lparr>d_addr = 0xA000, d_len = 9, d_flags = 0, d_next = 0\<rparr>]"
  let ?vq1 = "(ex_nq 0x1000)\<lparr>vq_last_avail_idx := 1\<rparr>"
  have wr: "filter writable ?ds = []" "filter (\<lambda>d. \<not> writable d) ?ds = ?ds"
    by (simp_all add: writable_def ring_flag_defs)
  have ch: "desc_chain 1024 ex_net_shm 0x1000 2 = Some ?ds"
    using ex_net_chains(4) [of 1022] by simp
  obtain g where g: "virtio_queue_get_iov (ex_nq 0x1000) (iov_array 1024) ex_net_shm = Inr g"
    "gi_ret g = 2" "gi_vq g = ?vq1" "gi_mem g = ex_net_shm" "gi_out g = 2"
    "gi_iov g = map desc_iov ?ds @ replicate 1022 \<lparr>iov_addr = 0, iov_len = 0\<rparr>"
    using get_iov_chain [OF ex_nq_facts(1) _ ch, where iov = "iov_array 1024"] wr
    by (auto simp: ex_nq_facts ex_net_chains(1) iov_array_def)
  define s1 where "s1 = upd_net (\<lambda>d. (put_net_vq 1 ?vq1 d)\<lparr>nd_shm := ex_net_shm\<rparr>) ?s"
  have take: "net_take 1 VIRTIO_NET_QUEUE_SIZE ?s = Inr (g, s1)"
    using g by (simp add: net_take_def ex_sys_def s1_def net_consts)
  have sz: "iov_size (gi_iov g) (unat (gi_out g)) = Inr 19"
    using g(5,6) by (simp add: iov_size_def desc_iov_def)
  have s1: "nd_port (vs_dev s1) = 0" "nd_switch (vs_dev s1) = ex_switch (\<lambda>_. None)"
    "nd_mem (vs_dev s1) = (\<lambda>_. 0xff)" "net_vq 1 s1 = ?vq1"
    by (simp_all add: s1_def ex_sys_def net_vq_def put_net_vq_def)
  have segs: "segments (gi_iov g) (unat (gi_out g)) (nd_mem (vs_dev s1)) = [replicate 9 0xff]"
    using g(5,6) s1(3) by (simp add: segments_def desc_iov_def mem_read_def map_replicate_const)
  have ready: "queue_ready ?vq1" "vr_avail (vq_vring ?vq1) \<noteq> 0"
    using ex_nq_facts(2,3) by (simp_all add: queue_ready_def)
  have fr: "frames (ex_switch (\<lambda>_. None)) q = []" for q
    by (simp add: frames_def out_queue_def ex_port_def blank_port_def)
  have "1 \<in> forward_set (ex_switch (\<lambda>_. None)) 0 (replicate 9 0xff)"
    by (simp add: forward_set_def ex_port_local ex_links)
  then have tgt: "filter (\<lambda>f. 1 \<in> forward_set (ex_switch (\<lambda>_. None)) 0 f) [replicate 9 0xff] =
      [replicate 9 0xff]" by simp
  have fits: "\<forall>f \<in> set [replicate 9 0xff]. frame_fits f" by (simp add: frame_fits_def)
  have pos: "0 \<le> gi_ret g" using g(2) by simp
  have us: "switch_inv ?w" "owned ?w {}" "0 \<in> set (all_ports ?w)"
    and op: "link ?w 0 \<and> sp_power_on (the_port ?w 0) \<and> (\<forall>n. ph_alloc (ss_heap ?w) n)"
    using ex_switch_usable ex_links [of _ 0] by (simp_all only: port_usable_def) simp
  obtain c s' where "virtio_net_tx_task 0 ?s = Inr (Net_Served, c, s')"
    "\<forall>q. frames (nd_switch (vs_dev s')) q = frames (ex_switch (\<lambda>_. None)) q @
        filter (\<lambda>f. q \<in> forward_set (ex_switch (\<lambda>_. None)) 0 f) [replicate 9 0xff]"
    using net_tx_moves_segments [OF take pos sz s1(1) [symmetric] s1(2) [symmetric] segs [symmetric]
        us fits s1(4) [symmetric] ready, where cnt = "0"] op by blast
  then show ?thesis using tgt fr [of 1] by (intro exI conjI) (assumption, simp)
qed

theorem failed_init_leaves_port_witness:
  "\<exists>s'. virtio_net_init True True True True False [] True [] 0x1000 (ex_sys (ex_net 0x5000)) =
       Inr (-1, s', True) \<and> nd_port (vs_dev s') \<in> set (ss_local_port_list (nd_switch (vs_dev s')))"
proof -
  have "\<exists>s'. virtio_net_init True True True True False [] True [] 0x1000 (ex_sys (ex_net 0x5000)) =
       Inr (-1, s', True)"
    by (simp add: virtio_net_init_def blank_net_dev_def net_set_config_def virtio_net_port_init_def
        virtio_net_port_add_def switch_init_port_def switch_add_port_def virtio_net_dev_init_def
        port_at_def upd_port_def call_setup_addr_def ex_sys_def ex_net_def ex_switch_def Let_def)
  then obtain s' where s': "virtio_net_init True True True True False [] True [] 0x1000
      (ex_sys (ex_net 0x5000)) = Inr (-1, s', True)" by blast
  then show ?thesis using failed_init_leaves_port [OF s'] by blast
qed

end
