(* ===== verification/Dsa_Tag.thy ===== *)
theory Dsa_Tag
  imports Data_Pkt
begin


text \<open>
  The tags between a switch of physical ports and the host, the first part of
  \<open>src/net/ptp_stack/ptp_multisoc_stack.c\<close>: a VLAN tag, or a DSA tag with two time stamps, is put between
  the addresses and the type of a frame, and a tag is taken out again; with the byte order macros of
  \<open>src/include/net/net_types.h\<close> and the layouts of \<open>dsa_net_protocol.h\<close>. The processor stores words
  with the lowest byte first.
\<close>

subsection \<open>Tags\<close>

definition VLAN_8021Q_TPID :: u16 where "VLAN_8021Q_TPID = 0x8100"
definition DSA_8021Q_TPID :: u16 where "DSA_8021Q_TPID = 0xDADC"
definition DEFAULT_CUSTOM_8021Q_VID :: u16 where "DEFAULT_CUSTOM_8021Q_VID = 0x0C00"
definition DSA_TO_HOST_RX_TS_DEFAULT_DSA :: u16 where "DSA_TO_HOST_RX_TS_DEFAULT_DSA = 0x1000"
definition DSA_TO_HOST_TX_TS_DEFAULT_DSA :: u16 where "DSA_TO_HOST_TX_TS_DEFAULT_DSA = 0x0800"
definition VLAN_VID_PORT_MASK :: u16 where "VLAN_VID_PORT_MASK = 0xF"
definition DSA_TO_HOST_PORT_MASK :: u16 where "DSA_TO_HOST_PORT_MASK = 0xF"
definition DSA_TO_SW_PORT_MASK :: u16 where "DSA_TO_SW_PORT_MASK = 0xF"
definition VLAN_TAG_LENGTH :: u8 where "VLAN_TAG_LENGTH = 4"
definition DSA_TAG_LENGTH :: u8 where "DSA_TAG_LENGTH = 4"
definition TIMESTAMP_LENGTH :: u8 where "TIMESTAMP_LENGTH = 8"
definition DS_TO_SW_NONTS_TAG_LEN :: u8 where "DS_TO_SW_NONTS_TAG_LEN = 4"
definition DS_TO_SW_TS_TAG_LEN :: u8 where "DS_TO_SW_TS_TAG_LEN = 8"
definition DSA_TO_HOST_TX_TS_TAG_LEN :: u32 where "DSA_TO_HOST_TX_TS_TAG_LEN = 24"
definition MAC_ADDR_TOTAL_LENGTH :: nat where "MAC_ADDR_TOTAL_LENGTH = 12"
definition DSA_TO_SW_META_OFFSET :: nat where "DSA_TO_SW_META_OFFSET = 14"
definition DSA_TO_SW_TAKE_TS_OFFSET :: nat where "DSA_TO_SW_TAKE_TS_OFFSET = 11"

lemmas tag_consts = VLAN_8021Q_TPID_def DSA_8021Q_TPID_def DEFAULT_CUSTOM_8021Q_VID_def
  DSA_TO_HOST_RX_TS_DEFAULT_DSA_def DSA_TO_HOST_TX_TS_DEFAULT_DSA_def VLAN_VID_PORT_MASK_def
  DSA_TO_HOST_PORT_MASK_def DSA_TO_SW_PORT_MASK_def VLAN_TAG_LENGTH_def DSA_TAG_LENGTH_def
  TIMESTAMP_LENGTH_def DS_TO_SW_NONTS_TAG_LEN_def DS_TO_SW_TS_TAG_LEN_def
  DSA_TO_HOST_TX_TS_TAG_LEN_def MAC_ADDR_TOTAL_LENGTH_def DSA_TO_SW_META_OFFSET_def
  DSA_TO_SW_TAKE_TS_OFFSET_def

text \<open>The conversions between host and network order.\<close>

definition htons :: "u16 \<Rightarrow> u16" where
  "htons x = drop_bit 8 (x AND 0xFF00) OR push_bit 8 (x AND 0xFF)"

definition htonl :: "u32 \<Rightarrow> u32" where
  "htonl x = drop_bit 24 (x AND 0xFF000000) OR push_bit 24 (x AND 0xFF)
     OR drop_bit 8 (x AND 0xFF0000) OR push_bit 8 (x AND 0xFF00)"

definition htonll :: "u64 \<Rightarrow> u64" where
  "htonll x = push_bit 32 (ucast (htonl (ucast x))) OR ucast (htonl (ucast (drop_bit 32 x)))"

definition VLAN_TAG :: "u8 \<Rightarrow> u32" where
  "VLAN_TAG port =
     push_bit 16 (ucast (htons (DEFAULT_CUSTOM_8021Q_VID OR (ucast port AND VLAN_VID_PORT_MASK))))
     OR ucast (htons VLAN_8021Q_TPID)"

definition DSA_TO_HOST_RX_TS_TAG :: "u8 \<Rightarrow> u32" where
  "DSA_TO_HOST_RX_TS_TAG port =
     push_bit 16 (ucast (htons (DSA_TO_HOST_RX_TS_DEFAULT_DSA OR (ucast port AND DSA_TO_HOST_PORT_MASK))))
     OR ucast (htons DSA_8021Q_TPID)"

text \<open>Writing a byte \<open>k\<close> bytes before position \<open>i\<close> of a buffer.\<close>

definition put_before :: "nat \<Rightarrow> nat \<Rightarrow> u8 \<Rightarrow> u8 list \<Rightarrow> u8 list outcome" where
  "put_before k i b buf = (if k \<le> i then arr_set buf (i - k) b else Inl Out_Of_Bounds)"

text \<open>The loop that moves \<open>n\<close> bytes from position \<open>i\<close> on forward by \<open>k\<close>, and the one that writes
  bytes there.\<close>

fun move_before :: "nat \<Rightarrow> nat \<Rightarrow> nat \<Rightarrow> u8 list \<Rightarrow> u8 list outcome" where
  "move_before k 0 i buf = Inr buf"
| "move_before k (Suc n) i buf =
     and_then (arr_get buf i) (\<lambda>b. and_then (put_before k i b buf) (move_before k n (Suc i)))"

fun write_before :: "nat \<Rightarrow> u8 list \<Rightarrow> nat \<Rightarrow> u8 list \<Rightarrow> u8 list outcome" where
  "write_before k [] i buf = Inr buf"
| "write_before k (b # bs) i buf = and_then (put_before k i b buf) (write_before k bs (Suc i))"

text \<open>Putting \<open>bs\<close> between the addresses and the rest of the frame.\<close>

definition insert_bytes :: "u8 \<Rightarrow> u8 list \<Rightarrow> data_pkt \<Rightarrow> data_pkt outcome" where
  "insert_bytes sz bs d =
     (let k = unat sz in
      and_then (move_before k MAC_ADDR_TOTAL_LENGTH (dp_data d) (dp_buf d)) (\<lambda>buf.
      and_then (write_before k bs (dp_data d + MAC_ADDR_TOTAL_LENGTH) buf) (\<lambda>buf.
        Inr (d\<lparr>dp_buf := buf, dp_data_len := dp_data_len d + ucast sz, dp_data := dp_data d - k\<rparr>))))"

definition insert_vlan_tag :: "u8 \<Rightarrow> data_pkt \<Rightarrow> data_pkt outcome" where
  "insert_vlan_tag src_port d =
     insert_bytes VLAN_TAG_LENGTH (le_bytes (unat VLAN_TAG_LENGTH) (ucast (VLAN_TAG src_port))) d"

definition insert_dsa_tag_ts :: "u8 \<Rightarrow> u64 \<Rightarrow> u64 \<Rightarrow> data_pkt \<Rightarrow> data_pkt outcome" where
  "insert_dsa_tag_ts src_port ns cycles d =
     insert_bytes (DSA_TAG_LENGTH + TIMESTAMP_LENGTH + TIMESTAMP_LENGTH)
       (le_bytes (unat DSA_TAG_LENGTH) (ucast (DSA_TO_HOST_RX_TS_TAG src_port))
        @ le_bytes (unat TIMESTAMP_LENGTH) (htonll ns)
        @ le_bytes (unat TIMESTAMP_LENGTH) (htonll cycles)) d"

text \<open>
  The loop of \<open>remove_tag\<close> that moves the addresses back, from the last byte down: \<open>n\<close> bytes are left,
  the next one is at \<open>dp_data + n - 1\<close>.
\<close>

fun move_after :: "nat \<Rightarrow> nat \<Rightarrow> nat \<Rightarrow> u8 list \<Rightarrow> u8 list outcome" where
  "move_after k 0 i buf = Inr buf"
| "move_after k (Suc n) i buf =
     and_then (arr_get buf (i + n)) (\<lambda>b. and_then (arr_set buf (i + n + k) b) (move_after k n i))"

definition remove_tag :: "u8 \<Rightarrow> data_pkt \<Rightarrow> (int \<times> data_pkt) outcome" where
  "remove_tag tag_len d =
     (if unat (dp_data_len d) \<le> MAC_ADDR_TOTAL_LENGTH + unat tag_len then Inr (-1, d)
      else and_then (move_after (unat tag_len) MAC_ADDR_TOTAL_LENGTH (dp_data d) (dp_buf d)) (\<lambda>buf.
        Inr (0, d\<lparr>dp_buf := buf, dp_data_len := dp_data_len d - ucast tag_len,
                   dp_data := dp_data d + unat tag_len\<rparr>)))"

subsection \<open>What the tags do to a frame\<close>

lemma move_before_eq:
  assumes "k \<le> i" "i + n \<le> length buf"
  shows "\<exists>buf'. move_before k n i buf = Inr buf' \<and> length buf' = length buf \<and>
    (\<forall>j < length buf. buf' ! j = (if i - k \<le> j \<and> j < i - k + n then buf ! (j + k) else buf ! j))"
  using assms
proof (induction n arbitrary: i buf)
  case (Suc n)
  let ?b = "buf[i - k := buf ! i]"
  have "move_before k (Suc n) i buf = move_before k n (Suc i) ?b"
    using Suc.prems by (simp add: put_before_def)
  moreover obtain buf' where b: "move_before k n (Suc i) ?b = Inr buf'" "length buf' = length buf"
      "\<forall>j < length buf. buf' ! j = (if Suc i - k \<le> j \<and> j < Suc i - k + n then ?b ! (j + k) else ?b ! j)"
    using Suc.IH [of "Suc i" ?b] Suc.prems by auto
  have "buf' ! j = (if i - k \<le> j \<and> j < i - k + Suc n then buf ! (j + k) else buf ! j)"
    if "j < length buf" for j
    using b(3) that Suc.prems by (auto simp: nth_list_update Suc_diff_le)
  ultimately show ?case using b by auto
qed auto

lemma write_before_eq:
  assumes "k \<le> i" "i + length bs \<le> length buf + k"
  shows "\<exists>buf'. write_before k bs i buf = Inr buf' \<and> length buf' = length buf \<and>
    (\<forall>j < length buf. buf' ! j = (if i - k \<le> j \<and> j < i - k + length bs then bs ! (j - (i - k)) else buf ! j))"
  using assms
proof (induction bs arbitrary: i buf)
  case (Cons b bs)
  let ?b = "buf[i - k := b]"
  have "write_before k (b # bs) i buf = write_before k bs (Suc i) ?b"
    using Cons.prems by (simp add: put_before_def)
  moreover obtain buf' where b: "write_before k bs (Suc i) ?b = Inr buf'" "length buf' = length buf"
      "\<forall>j < length buf. buf' ! j = (if Suc i - k \<le> j \<and> j < Suc i - k + length bs
         then bs ! (j - (Suc i - k)) else ?b ! j)"
    using Cons.IH [of "Suc i" ?b] Cons.prems by auto
  have "buf' ! j = (if i - k \<le> j \<and> j < i - k + length (b # bs) then (b # bs) ! (j - (i - k)) else buf ! j)"
    if "j < length buf" for j
  proof (cases "j = i - k")
    case False
    have "(b # bs) ! (j - (i - k)) = bs ! (j - (Suc i - k))" if "i - k < j"
    proof -
      have "j - (i - k) = Suc (j - (Suc i - k))" using that Cons.prems(1) by linarith
      then show ?thesis by simp
    qed
    then show ?thesis using b(3) \<open>j < length buf\<close> False Cons.prems(1) by (auto simp: nth_list_update Suc_diff_le)
  qed (use b(3) that Cons.prems(1) in \<open>auto simp: Suc_diff_le\<close>)
  ultimately show ?case using b by auto
qed auto

lemma move_after_eq:
  assumes "i + n + k \<le> length buf"
  shows "\<exists>buf'. move_after k n i buf = Inr buf' \<and> length buf' = length buf \<and>
    (\<forall>j < length buf. i + k \<le> j \<longrightarrow> buf' ! j = (if j < i + k + n then buf ! (j - k) else buf ! j))"
  using assms
proof (induction n arbitrary: buf)
  case (Suc n)
  let ?b = "buf[i + n + k := buf ! (i + n)]"
  have "move_after k (Suc n) i buf = move_after k n i ?b"
    using Suc.prems by simp
  moreover obtain buf' where b: "move_after k n i ?b = Inr buf'" "length buf' = length buf"
      "\<forall>j < length buf. i + k \<le> j \<longrightarrow> buf' ! j = (if j < i + k + n then ?b ! (j - k) else ?b ! j)"
    using Suc.IH [of ?b] Suc.prems by auto
  have "buf' ! j = (if j < i + k + Suc n then buf ! (j - k) else buf ! j)"
    if "j < length buf" "i + k \<le> j" for j
  proof (cases "j = i + n + k")
    case True
    then show ?thesis using b(3) that by simp
  next
    case False
    then have "j < i + k + n \<Longrightarrow> j - k \<noteq> i + n + k" using that by linarith
    then show ?thesis using b(3) that False by (auto simp: nth_list_update)
  qed
  ultimately show ?case using b by auto
qed auto

lemma take_inserted:
  assumes "12 \<le> n" "n \<le> length xs"
  shows "take (n + length bs) (take 12 xs @ bs @ drop 12 xs) = take 12 (take n xs) @ bs @ drop 12 (take n xs)"
proof -
  obtain m where n: "n = 12 + m" using assms(1) le_Suc_ex by blast
  have "length (take 12 xs) = 12" using assms n by simp
  then have "take (n + length bs) (take 12 xs @ bs @ drop 12 xs) = take 12 xs @ bs @ take m (drop 12 xs)"
    by (simp add: n)
  then show ?thesis by (simp add: n drop_take)
qed

lemma insert_bytes_eq:
  assumes "length bs = unat sz" "unat sz \<le> dp_data d" "dp_data d + 12 \<le> length (dp_buf d)"
  shows "insert_bytes sz bs d = Inr (d\<lparr>dp_buf := take (dp_data d - unat sz) (dp_buf d)
      @ take 12 (drop (dp_data d) (dp_buf d)) @ bs @ drop (dp_data d + 12) (dp_buf d),
    dp_data_len := dp_data_len d + ucast sz, dp_data := dp_data d - unat sz\<rparr>)"
proof -
  let ?k = "unat sz" and ?i = "dp_data d" and ?b = "dp_buf d"
  obtain b1 where b1: "move_before ?k 12 ?i ?b = Inr b1" "length b1 = length ?b"
      "\<forall>j < length ?b. b1 ! j = (if ?i - ?k \<le> j \<and> j < ?i - ?k + 12 then ?b ! (j + ?k) else ?b ! j)"
    using move_before_eq [OF assms(2,3)] by blast
  obtain b2 where b2: "write_before ?k bs (?i + 12) b1 = Inr b2" "length b2 = length ?b"
      "\<forall>j < length ?b. b2 ! j =
        (if ?i + 12 - ?k \<le> j \<and> j < ?i + 12 - ?k + ?k then bs ! (j - (?i + 12 - ?k)) else b1 ! j)"
    using write_before_eq [of ?k "?i + 12" bs b1] assms b1(2) by auto
  have "b2 = take (?i - ?k) ?b @ take 12 (drop ?i ?b) @ bs @ drop (?i + 12) ?b"
  proof (rule nth_equalityI)
    show "length b2 = length (take (?i - ?k) ?b @ take 12 (drop ?i ?b) @ bs @ drop (?i + 12) ?b)"
      using assms b2(2) by simp
    obtain p where p: "?i = p + ?k" using assms(2) by (metis add.commute le_Suc_ex)
    show "b2 ! j = (take (?i - ?k) ?b @ take 12 (drop ?i ?b) @ bs @ drop (?i + 12) ?b) ! j"
      if "j < length b2" for j
    proof -
      have j: "j < length ?b" using that b2(2) by simp
      have b2j: "b2 ! j = (if p + 12 \<le> j \<and> j < p + 12 + ?k then bs ! (j - (p + 12)) else b1 ! j)"
        using b2(3) [rule_format, OF j] p by simp
      have b1j: "b1 ! j = (if p \<le> j \<and> j < p + 12 then ?b ! (p + ?k + (j - p)) else ?b ! j)"
        using b1(3) [rule_format, OF j] p by (auto simp: add.commute)
      have l: "length (take p ?b) = p" "length (take 12 (drop ?i ?b)) = 12"
        using assms(3) p by simp_all
      consider "j < p" | m where "j = p + m" "m < 12" | m where "j = p + 12 + m" "m < ?k"
        | m where "j = p + ?k + 12 + m"
      proof -
        assume a: "j < p \<Longrightarrow> thesis" "\<And>m. j = p + m \<Longrightarrow> m < 12 \<Longrightarrow> thesis"
          "\<And>m. j = p + 12 + m \<Longrightarrow> m < ?k \<Longrightarrow> thesis" "\<And>m. j = p + ?k + 12 + m \<Longrightarrow> thesis"
        show thesis
          using a(1) a(2) [of "j - p"] a(3) [of "j - (p + 12)"] a(4) [of "j - (p + ?k + 12)"] by linarith
      qed
      then show ?thesis
        by cases (use j assms(1,3) b2j b1j p l in \<open>auto simp: nth_append\<close>)
    qed
  qed
  then show ?thesis
    using b1(1) b2(1) by (simp add: insert_bytes_def Let_def tag_consts)
qed

lemma insert_bytes_payload:
  assumes "pkt_wf d" "length bs = unat sz" "unat sz \<le> dp_data d" "12 \<le> length (payload d)"
    and "dp_tail d - dp_data d + 128 + 255 < 2 ^ 32"
  shows "\<exists>d'. insert_bytes sz bs d = Inr d' \<and> pkt_wf d' \<and> dp_flags d' = dp_flags d \<and>
    dp_data d' = dp_data d - unat sz \<and> dp_tail d' = dp_tail d \<and>
    payload d' = take 12 (payload d) @ bs @ drop 12 (payload d)"
proof -
  let ?k = "unat sz" and ?i = "dp_data d" and ?b = "dp_buf d" and ?n = "unat (dp_data_len d)"
  have n: "12 \<le> ?n" "?i + ?n \<le> length ?b" using assms(1,4) by (auto simp: pkt_wf_def payload_def)
  have k: "?k < 256" by (rule u8_lt)
  have ds: "?n + ?k < 2 ^ 32" using assms(1,5) n k by (auto simp: pkt_wf_def)
  let ?d = "d\<lparr>dp_buf := take (?i - ?k) ?b @ take 12 (drop ?i ?b) @ bs @ drop (?i + 12) ?b,
    dp_data_len := dp_data_len d + ucast sz, dp_data := ?i - ?k\<rparr>"
  have e: "insert_bytes sz bs d = Inr ?d" by (rule insert_bytes_eq [OF assms(2,3)]) (use n in simp)
  have us: "unat (ucast sz :: u32) = ?k" by (simp add: unat_ucast_up)
  have l: "unat (dp_data_len ?d) = ?n + ?k" using ds by (simp add: unat_add_lt us)
  have wf: "pkt_wf ?d"
    using assms(1,2,3,5) n k l by (auto simp: pkt_wf_def)
  have p: "payload ?d = take (?n + ?k) (take 12 (drop ?i ?b) @ bs @ drop (?i + 12) ?b)"
    using l assms(3) n by (simp add: payload_def)
  also have "\<dots> = take 12 (payload d) @ bs @ drop 12 (payload d)"
    using take_inserted [of ?n "drop ?i ?b" bs] n assms(2) by (simp add: payload_def add.commute)
  finally show ?thesis using e wf by auto
qed

lemma remove_tag_payload:
  assumes "pkt_wf d"
  shows "unat k + 12 < length (payload d) \<Longrightarrow> \<exists>d'. remove_tag k d = Inr (0, d') \<and>
      pkt_read d' (unat (dp_data_len d')) = Inr (payload d') \<and> dp_flags d' = dp_flags d \<and> dp_data d' = dp_data d + unat k \<and>
      payload d' = take 12 (payload d) @ drop (12 + unat k) (payload d)"
    and "length (payload d) \<le> unat k + 12 \<Longrightarrow> remove_tag k d = Inr (-1, d)"
proof -
  let ?k = "unat k" and ?i = "dp_data d" and ?b = "dp_buf d" and ?n = "unat (dp_data_len d)"
  have n: "length (payload d) = ?n" "?i + ?n \<le> length ?b"
    using assms(1) by (auto simp: pkt_wf_def payload_def)
  show "remove_tag k d = Inr (-1, d)" if "length (payload d) \<le> ?k + 12"
    using that n by (simp add: remove_tag_def tag_consts)
  assume a: "?k + 12 < length (payload d)"
  obtain b where b: "move_after ?k 12 ?i ?b = Inr b" "length b = length ?b"
      "\<forall>j < length ?b. ?i + ?k \<le> j \<longrightarrow> b ! j = (if j < ?i + ?k + 12 then ?b ! (j - ?k) else ?b ! j)"
    using move_after_eq [of ?i 12 ?k ?b] a n by auto
  let ?d = "d\<lparr>dp_buf := b, dp_data_len := dp_data_len d - ucast k, dp_data := ?i + ?k\<rparr>"
  have us: "unat (ucast k :: u32) = ?k" by (simp add: unat_ucast_up)
  have "ucast k \<le> dp_data_len d" using a n us by (simp add: word_le_nat_alt)
  then have l: "unat (dp_data_len ?d) = ?n - ?k" by (simp add: unat_sub us)
  have rd: "pkt_read ?d (unat (dp_data_len ?d)) = Inr (payload ?d)"
    using a n l b(2) by (simp add: pkt_read_def payload_def)
  have pl: "length (payload ?d) = ?n - ?k" using l a n b(2) by (simp add: payload_def)
  have "payload ?d = take 12 (payload d) @ drop (12 + ?k) (payload d)"
  proof (rule nth_equalityI)
    show "length (payload ?d) = length (take 12 (payload d) @ drop (12 + ?k) (payload d))"
      using pl a n by simp
    show "payload ?d ! j = (take 12 (payload d) @ drop (12 + ?k) (payload d)) ! j"
      if "j < length (payload ?d)" for j
    proof -
      have j: "j < ?n - ?k" using that pl by simp
      then have "payload ?d ! j = b ! (?i + ?k + j)"
        using l b(2) n by (simp add: payload_def)
      also have "\<dots> = (if j < 12 then ?b ! (?i + j) else ?b ! (?i + ?k + j))"
        using b(3) j n a by auto
      also have "\<dots> = (take 12 (payload d) @ drop (12 + ?k) (payload d)) ! j"
        using j n a by (auto simp: nth_append payload_def add.commute add.left_commute)
      finally show ?thesis .
    qed
  qed
  then show "\<exists>d'. remove_tag k d = Inr (0, d') \<and> pkt_read d' (unat (dp_data_len d')) = Inr (payload d') \<and> dp_flags d' = dp_flags d \<and>
      dp_data d' = dp_data d + unat k \<and>
      payload d' = take 12 (payload d) @ drop (12 + unat k) (payload d)"
    using a n b(1) rd by (auto simp: remove_tag_def tag_consts)
qed

lemma byte_masks:
  "(0xFF :: 'a::len word) = mask 8" "(0xFF00 :: 'a word) = push_bit 8 (mask 8)"
  "(0xFF0000 :: 'a word) = push_bit 16 (mask 8)" "(0xFF000000 :: 'a word) = push_bit 24 (mask 8)"
  "(0xF :: 'a word) = mask 4"
  by (simp_all add: mask_eq_exp_minus_1 push_bit_eq_mult)

lemma htons_bytes: "le_bytes 2 (ucast (htons x)) = rev (le_bytes 2 (ucast x))"
  by (auto simp: le_bytes_24 htons_def byte_masks bit_simps intro!: bit_word_eqI)

lemma htonl_bytes: "le_bytes 4 (ucast (htonl x)) = rev (le_bytes 4 (ucast x))"
  by (auto simp: le_bytes_24 htonl_def byte_masks bit_simps intro!: bit_word_eqI)

lemma u32_bit: "bit (w :: u32) n \<Longrightarrow> n < 32"
  using impossible_bit [of n w] by force

lemma htonll_bytes: "le_bytes 8 (htonll x) = rev (le_bytes 8 x)"
proof -
  have 1: "le_bytes 4 (htonll x) = le_bytes 4 (ucast (htonl (ucast (drop_bit 32 x))))"
    by (auto simp: le_bytes_24 htonll_def bit_simps intro!: bit_word_eqI)
  have 2: "drop_bit 32 (htonll x) = ucast (htonl (ucast x))"
    by (auto simp: htonll_def bit_simps intro!: bit_word_eqI dest: u32_bit)
  have 3: "le_bytes 4 (ucast (ucast w :: u32)) = le_bytes 4 w" for w
    by (auto simp: le_bytes_24 bit_simps intro!: bit_word_eqI)
  show ?thesis
    using le_bytes_split [of 4 4 "htonll x"] le_bytes_split [of 4 4 x] by (simp add: 1 2 3 htonl_bytes)
qed

text \<open>The bytes of the tags as the host sees them.\<close>

lemma tag_bytes:
  fixes a b :: u16
  shows "le_bytes 4 (ucast (push_bit 16 (ucast a) OR ucast b :: u32))
    = le_bytes 2 (ucast b) @ le_bytes 2 (ucast a)"
proof -
  have lt: "\<not> bit w (16 + n)" for w :: u16 and n by (rule impossible_bit) simp
  have "\<not> bit w (24 + n)" for w :: u16 and n by (rule impossible_bit) simp
  with lt show ?thesis by (auto simp: le_bytes_24 bit_simps intro!: bit_word_eqI)
qed

lemma ucast_8_16_8 [simp]: "ucast (ucast p :: u16) = (p :: u8)"
  by (auto simp: bit_simps intro!: bit_word_eqI)

lemma tag_overflow: "(0x0C00 :: u8) = 0" "(0x1000 :: u8) = 0"
  by simp_all

lemma tag_low:
  "ucast (0x0C00 OR (ucast p AND 0xF) :: u16) = p AND (0xF :: u8)"
  "ucast (0x1000 OR (ucast p AND 0xF) :: u16) = p AND (0xF :: u8)"
  by (simp_all add: unsigned_or_eq unsigned_and_eq tag_overflow)

lemma tag_high:
  "drop_bit 8 (0x0C00 OR (ucast (p :: u8) AND 0xF) :: u16) = 0x0C"
  "drop_bit 8 (0x1000 OR (ucast (p :: u8) AND 0xF) :: u16) = 0x10"
  by simp_all

lemma u16_bytes: "le_bytes 2 (ucast w) = [ucast w, ucast (drop_bit 8 w)]" for w :: u16
  by (auto simp: le_bytes_24 bit_simps intro!: bit_word_eqI)

lemma vlan_tag_bytes: "le_bytes 4 (ucast (VLAN_TAG p)) = [0x81, 0, 0x0C, p AND 0xF]"
  unfolding VLAN_TAG_def tag_bytes htons_bytes tag_consts
  unfolding u16_bytes tag_low tag_high by simp

lemma dsa_tag_bytes: "le_bytes 4 (ucast (DSA_TO_HOST_RX_TS_TAG p)) = [0xDA, 0xDC, 0x10, p AND 0xF]"
  unfolding DSA_TO_HOST_RX_TS_TAG_def tag_bytes htons_bytes tag_consts
  unfolding u16_bytes tag_low tag_high by simp

section \<open>The shape of packets\<close>

text \<open>
  The fields of a packet fit together: the data lies within the buffer, whose bounds the tail and the
  end repeat. \<open>pkt_wf\<close> also limits the head room, which taking tags out of a frame enlarges.
\<close>

definition pkt_shape :: "data_pkt \<Rightarrow> bool" where
  "pkt_shape d \<longleftrightarrow> dp_data d < dp_tail d \<and> dp_tail d = dp_end d \<and> dp_end d = length (dp_buf d)
     \<and> dp_end d < 2 ^ 32 \<and> dp_data d + unat (dp_data_len d) \<le> dp_tail d"

definition heap_shape :: "pkt_heap \<Rightarrow> bool" where
  "heap_shape h \<longleftrightarrow> (\<forall>p d. ph_pkts h p = Some d \<longrightarrow> pkt_shape d)"

lemma heap_shapeD: "heap_shape h \<Longrightarrow> ph_pkts h p = Some d \<Longrightarrow> pkt_shape d"
  by (simp add: heap_shape_def)

definition set_pkt :: "nat \<Rightarrow> data_pkt \<Rightarrow> pkt_heap \<Rightarrow> pkt_heap" where
  "set_pkt p d h = h\<lparr>ph_pkts := (ph_pkts h)(p \<mapsto> d)\<rparr>"

text \<open>
  The operations on packets. Only \<open>data_pkt_set_len\<close> trusts its caller: the new length is within the room.
\<close>

inductive pkt_step :: "pkt_heap \<Rightarrow> pkt_heap \<Rightarrow> bool" where
  alloc: "data_pkt_alloc room flags h = Inr (r, h') \<Longrightarrow> pkt_step h h'"
| build: "length buf = unat buf_len \<Longrightarrow> data_pkt_build buf buf_len flags used = Inr d \<Longrightarrow> pkt_step h (set_pkt p d h)"
| clone: "data_pkt_clone p h = Inr (r, h') \<Longrightarrow> pkt_step h h'"
| free: "data_pkt_free p h = Inr h' \<Longrightarrow> pkt_step h h'"
| fill: "data_pkt_fill p bs h = Inr h' \<Longrightarrow> pkt_step h h'"
| set_len: "ph_pkts h p = Some d \<Longrightarrow> dp_data d + unat len \<le> dp_tail d \<Longrightarrow> data_pkt_set_len p len h = Inr h' \<Longrightarrow> pkt_step h h'"
| vlan: "ph_pkts h p = Some d \<Longrightarrow> insert_vlan_tag port d = Inr d' \<Longrightarrow> pkt_step h (set_pkt p d' h)"
| dsa: "ph_pkts h p = Some d \<Longrightarrow> insert_dsa_tag_ts port ns cycles d = Inr d' \<Longrightarrow> pkt_step h (set_pkt p d' h)"
| untag: "ph_pkts h p = Some d \<Longrightarrow> remove_tag k d = Inr (r, d') \<Longrightarrow> pkt_step h (set_pkt p d' h)"

lemma put_before_length: "put_before k i b buf = Inr buf' \<Longrightarrow> k \<le> i \<and> length buf' = length buf"
  by (auto simp: put_before_def outcome_simps split: if_splits)

lemma move_before_length:
  "move_before k n i buf = Inr buf' \<Longrightarrow> length buf' = length buf \<and> (0 < n \<longrightarrow> k \<le> i)"
proof (induction n arbitrary: i buf)
  case (Suc n)
  then obtain b b1 where "put_before k i b buf = Inr b1" "move_before k n (Suc i) b1 = Inr buf'"
    by (auto simp: outcome_simps)
  then show ?case using Suc.IH [of "Suc i" b1] put_before_length [of k i b buf b1] by simp
qed simp

lemma write_before_length: "write_before k bs i buf = Inr buf' \<Longrightarrow> length buf' = length buf"
proof (induction bs arbitrary: i buf)
  case (Cons b bs)
  then obtain b1 where "put_before k i b buf = Inr b1" "write_before k bs (Suc i) b1 = Inr buf'"
    by (auto simp: outcome_simps)
  then show ?case using Cons.IH [of "Suc i" b1] put_before_length [of k i b buf b1] by simp
qed simp

lemma move_after_length: "move_after k n i buf = Inr buf' \<Longrightarrow> length buf' = length buf"
proof (induction n arbitrary: buf)
  case (Suc n)
  then obtain b where "move_after k n i (buf[i + n + k := b]) = Inr buf'" by (auto simp: outcome_simps)
  then show ?case using Suc.IH [of "buf[i + n + k := b]"] by simp
qed simp

lemma build_shape:
  assumes "data_pkt_build buf buf_len flags used = Inr d" "length buf = unat buf_len"
  shows "pkt_shape d"
  using assms unsigned_less [of buf_len] by (auto simp: data_pkt_build_def outcome_simps pkt_shape_def pkt_consts)

lemma insert_shape:
  assumes "insert_bytes sz bs d = Inr d'" "pkt_shape d"
  shows "pkt_shape d'"
proof -
  obtain b1 b2 where b: "move_before (unat sz) 12 (dp_data d) (dp_buf d) = Inr b1"
      "write_before (unat sz) bs (dp_data d + 12) b1 = Inr b2"
      "d' = d\<lparr>dp_buf := b2, dp_data_len := dp_data_len d + ucast sz, dp_data := dp_data d - unat sz\<rparr>"
    using assms(1) by (auto simp: insert_bytes_def outcome_simps tag_consts Let_def)
  have l: "length b2 = length (dp_buf d)" "unat sz \<le> dp_data d"
    using move_before_length [OF b(1)] write_before_length [OF b(2)] by auto
  have s: "dp_data d + unat (dp_data_len d) \<le> length (dp_buf d)" "length (dp_buf d) < 2 ^ 32"
    using assms(2) by (auto simp: pkt_shape_def)
  have u: "unat (ucast sz :: u32) = unat sz" by (simp add: unat_ucast_up)
  have "unat (dp_data_len d + ucast sz) = unat (dp_data_len d) + unat sz"
    using s l(2) by (simp add: unat_add_lt u)
  then show ?thesis using assms(2) l by (auto simp: pkt_shape_def b(3))
qed

lemma remove_shape:
  assumes "remove_tag k d = Inr (r, d')" "pkt_shape d"
  shows "pkt_shape d'"
proof (cases "unat (dp_data_len d) \<le> 12 + unat k")
  case False
  then obtain b where b: "move_after (unat k) 12 (dp_data d) (dp_buf d) = Inr b"
      "d' = d\<lparr>dp_buf := b, dp_data_len := dp_data_len d - ucast k, dp_data := dp_data d + unat k\<rparr>"
    using assms(1) by (auto simp: remove_tag_def outcome_simps tag_consts)
  have u: "unat (ucast k :: u32) = unat k" by (simp add: unat_ucast_up)
  have "unat (dp_data_len d - ucast k) = unat (dp_data_len d) - unat k"
    using False u by (subst unat_sub) (simp_all add: word_le_nat_alt)
  then show ?thesis using assms(2) False move_after_length [OF b(1)] by (auto simp: pkt_shape_def b(2))
qed (use assms in \<open>simp add: remove_tag_def tag_consts\<close>)

lemma alloc_shape:
  assumes "data_pkt_alloc room flags h = Inr (r, h')" "heap_shape h"
  shows "heap_shape h' \<and> (\<forall>n. r = Some n \<longrightarrow> (\<exists>d. ph_pkts h' n = Some d \<and> dp_data d = 128 \<and> dp_tail d = 128 + unat room))"
proof (cases "ph_alloc h (ph_next h)")
  case True
  let ?sz = "room + 128 :: u32" and ?h = "h\<lparr>ph_next := Suc (ph_next h)\<rparr>"
  obtain d where d: "data_pkt_build (replicate (unat ?sz) 0) ?sz flags False = Inr d" "r = Some (ph_next h)"
      "h' = ?h\<lparr>ph_pkts := (ph_pkts ?h)(ph_next h \<mapsto> d)\<rparr>"
    using True assms(1) by (auto simp: data_pkt_alloc_def outcome_simps pkt_consts Let_def)
  have sz: "128 < unat ?sz" using d(1) by (auto simp: data_pkt_build_def outcome_simps pkt_consts)
  have "unat ?sz = 128 + unat room"
  proof (cases "unat room + 128 < 2 ^ 32")
    case True
    then show ?thesis by (simp add: unat_add_lt)
  next
    case False
    then have "unat ?sz = unat room + 128 - 2 ^ 32" using u32_lt [of room] by (simp add: unat_word_ariths(1) mod_if)
    then show ?thesis using sz u32_lt [of room] by simp
  qed
  then show ?thesis using assms(2) build_shape [OF d(1)] d by (auto simp: heap_shape_def data_pkt_build_def outcome_simps pkt_consts)
qed (use assms in \<open>auto simp: heap_shape_def\<close>)


lemma heap_shape_set: "heap_shape h \<Longrightarrow> pkt_shape d \<Longrightarrow> heap_shape (set_pkt p d h)"
  by (simp add: heap_shape_def set_pkt_def)

lemma fill_shape:
  assumes "data_pkt_fill p bs h = Inr h'" "heap_shape h"
  shows "heap_shape h' \<and> (\<forall>d. ph_pkts h p = Some d \<longrightarrow> (\<exists>d'. ph_pkts h' p = Some d' \<and> dp_data d' = dp_data d
    \<and> dp_tail d' = dp_tail d \<and> dp_data d + length bs \<le> dp_tail d))"
proof -
  obtain d where d: "ph_pkts h p = Some d" "dp_data d + length bs \<le> length (dp_buf d)"
      "h' = set_pkt p (d\<lparr>dp_buf := take (dp_data d) (dp_buf d) @ bs @ drop (dp_data d + length bs) (dp_buf d)\<rparr>) h"
    using assms(1) by (auto simp: data_pkt_fill_def outcome_simps pkt_write_def set_pkt_def split: if_splits)
  then have sh: "pkt_shape d" using assms(2) by (simp add: heap_shape_def)
  let ?d = "d\<lparr>dp_buf := take (dp_data d) (dp_buf d) @ bs @ drop (dp_data d + length bs) (dp_buf d)\<rparr>"
  have "pkt_shape ?d" using sh d(2) by (simp add: pkt_shape_def)
  then have "heap_shape h'" unfolding d(3) by (rule heap_shape_set [OF assms(2)])
  then show ?thesis using d sh by (auto simp: set_pkt_def pkt_shape_def)
qed

lemma set_len_shape:
  assumes "ph_pkts h p = Some d" "dp_data d + unat len \<le> dp_tail d" "data_pkt_set_len p len h = Inr h'" "heap_shape h"
  shows "heap_shape h'"
proof -
  have "pkt_shape (d\<lparr>dp_data_len := len\<rparr>)" using heap_shapeD [OF assms(4,1)] assms(2) by (simp add: pkt_shape_def)
  moreover have "h' = set_pkt p (d\<lparr>dp_data_len := len\<rparr>) h"
    using assms(1,3) by (simp add: data_pkt_set_len_def set_pkt_def)
  ultimately show ?thesis using heap_shape_set [OF assms(4)] by simp
qed

lemma clone_shape:
  assumes "data_pkt_clone p h = Inr (r, h')" "heap_shape h"
  shows "heap_shape h'"
proof -
  obtain d a h1 where d: "ph_pkts h p = Some d"
      "data_pkt_alloc (of_nat (dp_tail d - dp_data d)) (dp_flags d) h = Inr (a, h1)"
    using assms(1) by (auto simp: data_pkt_clone_def outcome_simps)
  note a = alloc_shape [OF d(2) assms(2)]
  show ?thesis
  proof (cases a)
    case None
    then show ?thesis using a assms(1) d by (simp add: data_pkt_clone_def)
  next
    case (Some n)
    obtain bs h2 where h2: "pkt_read d (unat (dp_data_len d)) = Inr bs" "data_pkt_fill n bs h1 = Inr h2"
        "data_pkt_set_len n (dp_data_len d) h2 = Inr h'"
      using assms(1) d Some by (auto simp: data_pkt_clone_def outcome_simps)
    have l: "length bs = unat (dp_data_len d)" using h2(1) by (auto simp: pkt_read_def split: if_splits)
    obtain d1 where "ph_pkts h1 n = Some d1" using a Some by blast
    then obtain d2 where "ph_pkts h2 n = Some d2" "dp_data d2 + length bs \<le> dp_tail d2"
      using fill_shape [OF h2(2)] a by force
    then show ?thesis using set_len_shape [of h2 n d2 "dp_data_len d" h'] fill_shape [OF h2(2)] a h2 l by simp
  qed
qed

lemma pkt_step_shape:
  "pkt_step h h' \<Longrightarrow> heap_shape h \<Longrightarrow> heap_shape h'"
proof (induction rule: pkt_step.induct)
  case (free p h h')
  obtain d where d: "ph_pkts h p = Some d" using free.hyps by (auto simp: data_pkt_free_def outcome_simps)
  have "h' = set_pkt p (d\<lparr>dp_used := False\<rparr>) h \<or> h' = h\<lparr>ph_pkts := (ph_pkts h)(p := None)\<rparr>"
    using free.hyps d by (auto simp: data_pkt_free_def set_pkt_def split: if_splits)
  moreover have "pkt_shape (d\<lparr>dp_used := False\<rparr>)" using heap_shapeD [OF free.prems d] by (simp add: pkt_shape_def)
  moreover have "heap_shape (h\<lparr>ph_pkts := (ph_pkts h)(p := None)\<rparr>)" using free.prems by (simp add: heap_shape_def)
  ultimately show ?case using heap_shape_set [OF free.prems] by blast
next
  case (vlan h p d port d')
  then show ?case using insert_shape heap_shape_set heap_shapeD unfolding insert_vlan_tag_def by blast
next
  case (dsa h p d port ns cycles d')
  then show ?case using insert_shape heap_shape_set heap_shapeD unfolding insert_dsa_tag_ts_def by blast
next
  case (untag h p d k r d')
  then show ?case using remove_shape heap_shape_set heap_shapeD by blast
qed (auto dest: alloc_shape fill_shape clone_shape intro: set_len_shape heap_shape_set build_shape)

text \<open>C37: Packets are well typed: starting with no packets, whatever allocation, construction, cloning,
  freeing, filling, tagging and untagging happen (with lengths set within the room), the fields of every packet fit its buffer, and
  so its frame can be read in full.\<close>

theorem packets_keep_shape:
  assumes "pkt_step\<^sup>*\<^sup>* \<lparr>ph_pkts = Map.empty, ph_next = n, ph_alloc = al\<rparr> h" "ph_pkts h p = Some d"
  shows "dp_data d < dp_tail d \<and> dp_tail d = dp_end d \<and> dp_end d = length (dp_buf d) \<and> dp_end d < 2 ^ 32
    \<and> (\<exists>bs. pkt_read d (unat (dp_data_len d)) = Inr bs \<and> length bs = unat (dp_data_len d))"
proof -
  have "heap_shape h" using assms(1) 
    by (rule rtranclp_induct) (use pkt_step_shape in \<open>simp_all add: heap_shape_def\<close>)
  then have "pkt_shape d" by (rule heap_shapeD [OF _ assms(2)])
  then show ?thesis by (auto simp: pkt_shape_def pkt_read_def)
qed

text \<open>A frame is put into a packet and tagged.\<close>

theorem packets_keep_shape_witness:
  "\<exists>h d. pkt_step\<^sup>*\<^sup>* \<lparr>ph_pkts = Map.empty, ph_next = 0, ph_alloc = (\<lambda>_. True)\<rparr> h \<and> ph_pkts h 0 = Some d
     \<and> (\<exists>bs. pkt_read d (unat (dp_data_len d)) = Inr bs)"
proof -
  let ?h0 = "\<lparr>ph_pkts = Map.empty, ph_next = 0, ph_alloc = (\<lambda>_. True)\<rparr> :: pkt_heap"
  obtain h1 d where h1: "data_pkt_alloc 64 1 ?h0 = Inr (Some 0, h1)" "ph_pkts h1 0 = Some d"
    by (simp add: data_pkt_alloc_def data_pkt_build_def pkt_consts Let_def)
  have "pkt_step\<^sup>*\<^sup>* ?h0 h1" using pkt_step.alloc [OF h1(1)] by (rule r_into_rtranclp)
  then show ?thesis using packets_keep_shape [of 0 "\<lambda>_. True" h1 0 d] h1(2) by blast
qed

end
