(* ===== verification/Soft_Vport.thy ===== *)
theory Soft_Vport
  imports Switch_Spec
begin


text \<open>
  The software virtual port, \<open>src/net/port_software.c\<close>: a port of the virtual switch whose frames come
  from and go to functions of an application. The port counts the frames it hands to the switch and
  wakes the other ports only once in a while; the application wakes them itself at the end of a burst.
\<close>

subsection \<open>The port\<close>

record soft_vport_dev =
  vp_in_count :: u8
  vp_in_threshhold :: u8
  vp_port :: nat

record soft_vport_cfg =
  vc_name :: string
  vc_mac_addr :: mac
  vc_link_up :: "bool option"
  vc_in_threshhold :: u8
  vc_flags :: u32
  vc_port_out_cb :: bool
  vc_print_priv_stats :: bool

definition SW_VPORT_FLAGS_LOCAL_PORT :: u32 where "SW_VPORT_FLAGS_LOCAL_PORT = 1"

text \<open>The counting part of \<open>soft_vport_in_nocpy\<close>: whether to wake the ports.\<close>

definition count_frame :: "soft_vport_dev \<Rightarrow> bool \<times> soft_vport_dev" where
  "count_frame v =
     (let old = vp_in_count v; v1 = v\<lparr>vp_in_count := old + 1\<rparr>
      in if vp_in_threshhold v < old then (True, v1\<lparr>vp_in_count := 0\<rparr>) else (False, v1))"

definition soft_vport_in_nocpy ::
    "nat \<Rightarrow> soft_vport_dev \<times> switch_sys \<Rightarrow> (soft_vport_dev \<times> switch_sys) outcome" where
  "soft_vport_in_nocpy pkt x =
     (let (v, s) = x; (notify, v1) = count_frame v
      in and_then (port_in_pkt_nocpy (vp_port v) pkt notify s) (\<lambda>s1. Inr (v1, s1)))"

definition soft_vport_in_kick ::
    "soft_vport_dev \<times> switch_sys \<Rightarrow> (soft_vport_dev \<times> switch_sys) outcome" where
  "soft_vport_in_kick x =
     (let (v, s) = x
      in if 0 < vp_in_count v
         then and_then (port_at s (vp_port v)) (\<lambda>_.
              and_then (notify_ports s) (\<lambda>s1. Inr (v\<lparr>vp_in_count := 0\<rparr>, s1)))
         else Inr (v, s))"

definition soft_vport_update_addr :: "mac \<Rightarrow> soft_vport_dev \<times> switch_sys \<Rightarrow> switch_sys outcome" where
  "soft_vport_update_addr m x = port_update_addr (vp_port (fst x)) m (snd x)"

definition soft_vport_add_fdb_entry ::
    "bool \<Rightarrow> mac \<Rightarrow> soft_vport_dev \<times> switch_sys \<Rightarrow> (int \<times> switch_sys) outcome" where
  "soft_vport_add_fdb_entry alloc m x = vs_port_add_fdb_entry alloc (vp_port (fst x)) m (snd x)"

definition soft_vport_remove_fdb_entry ::
    "mac \<Rightarrow> soft_vport_dev \<times> switch_sys \<Rightarrow> (int \<times> switch_sys) outcome" where
  "soft_vport_remove_fdb_entry m x = vs_port_remove_fdb_entry (vp_port (fst x)) m (snd x)"

definition soft_vport_init ::
    "bool \<Rightarrow> bool \<Rightarrow> bool \<Rightarrow> bool \<Rightarrow> soft_vport_cfg \<Rightarrow> switch_sys \<Rightarrow>
       (soft_vport_dev \<times> switch_sys) outcome" where
  "soft_vport_init alloc port_alloc sem_ok mq_ok cfg s =
     os_assert alloc
      (and_then (switch_init_port port_alloc s) (\<lambda>(p, s1).
       os_assert (vc_port_out_cb cfg) (os_assert (vc_print_priv_stats cfg)
        (and_then
          (switch_add_port sem_ok mq_ok p
             \<lparr>pc_is_local = (vc_flags cfg AND SW_VPORT_FLAGS_LOCAL_PORT \<noteq> 0),
              pc_name = take 19 (vc_name cfg), pc_mac_addr = take MAC_ADDR_LEN (vc_mac_addr cfg),
              pc_dev_end_on = vc_link_up cfg, pc_setup_address_cb = True\<rparr> s1) (\<lambda>s2.
         Inr (\<lparr>vp_in_count = 0, vp_in_threshhold = vc_in_threshhold cfg, vp_port = p\<rparr>, s2))))))"

subsection \<open>Frames and wake-ups\<close>

text \<open>The wake-up decisions for \<open>n\<close> frames in a row.\<close>

fun wake_ups :: "nat \<Rightarrow> soft_vport_dev \<Rightarrow> bool list \<times> soft_vport_dev" where
  "wake_ups 0 v = ([], v)"
| "wake_ups (Suc n) v =
     (let (b, v1) = count_frame v; (bs, v2) = wake_ups n v1 in (b # bs, v2))"

definition asleep :: "switch_sys \<Rightarrow> bool" where
  "asleep s \<longleftrightarrow> (\<exists>q \<in> set (all_ports s). sp_need_notify (the_port s q))"

lemma count_next:
  assumes "unat (vp_in_count v) \<le> unat (vp_in_threshhold v) + 1" "unat (vp_in_threshhold v) < 255"
  shows "count_frame v =
    (if unat (vp_in_count v) = unat (vp_in_threshhold v) + 1
     then (True, v\<lparr>vp_in_count := 0\<rparr>) else (False, v\<lparr>vp_in_count := vp_in_count v + 1\<rparr>))"
    and "unat (vp_in_count (snd (count_frame v))) =
      (if unat (vp_in_count v) = unat (vp_in_threshhold v) + 1 then 0 else unat (vp_in_count v) + 1)"
proof -
  show 1: "count_frame v =
    (if unat (vp_in_count v) = unat (vp_in_threshhold v) + 1
     then (True, v\<lparr>vp_in_count := 0\<rparr>) else (False, v\<lparr>vp_in_count := vp_in_count v + 1\<rparr>))"
    using assms(1) by (auto simp: count_frame_def Let_def word_less_nat_alt)
  have "Suc (unat (vp_in_count v)) < 2 ^ LENGTH(8)" if "unat (vp_in_count v) \<noteq> unat (vp_in_threshhold v) + 1"
    using assms that by simp
  then show "unat (vp_in_count (snd (count_frame v))) =
      (if unat (vp_in_count v) = unat (vp_in_threshhold v) + 1 then 0 else unat (vp_in_count v) + 1)"
    using unat_Suc_lt [of "vp_in_count v"] by (simp add: 1)
qed

lemma count_keeps:
  "vp_in_threshhold (snd (count_frame v)) = vp_in_threshhold v" "vp_port (snd (count_frame v)) = vp_port v"
  by (simp_all add: count_frame_def Let_def)

text \<open>
  The port wakes the switch in equal batches: with a threshold t below 255, of the frames handed in
  from a count of zero exactly every (t+2)-nd one wakes the other ports.
\<close>

theorem vport_wakes_in_batches:
  assumes "unat (vp_in_threshhold v) < 255" "vp_in_count v = 0" "k < n"
  shows "fst (wake_ups n v) ! k \<longleftrightarrow> (k + 1) mod (unat (vp_in_threshhold v) + 2) = 0"
proof -
  let ?t = "unat (vp_in_threshhold v)"
  have gen: "fst (wake_ups n w) ! k \<longleftrightarrow> (unat (vp_in_count w) + k + 1) mod (?t + 2) = 0"
    if "vp_in_threshhold w = vp_in_threshhold v" "unat (vp_in_count w) \<le> ?t + 1" "k < n" for w k n
    using that
  proof (induction n arbitrary: w k)
    case (Suc n)
    obtain b w1 where c: "count_frame w = (b, w1)" by (cases "count_frame w")
    have w1: "vp_in_threshhold w1 = vp_in_threshhold v" "b \<longleftrightarrow> unat (vp_in_count w) = ?t + 1"
      "unat (vp_in_count w1) = (if unat (vp_in_count w) = ?t + 1 then 0 else unat (vp_in_count w) + 1)"
      using count_next [of w] count_keeps [of w] Suc.prems(1,2) assms(1) c by (auto split: if_splits)
    have step: "fst (wake_ups (Suc n) w) = b # fst (wake_ups n w1)"
      by (simp add: c split: prod.splits)
    show ?case
    proof (cases k)
      case 0
      have "(unat (vp_in_count w) + 1) mod (?t + 2) = 0 \<longleftrightarrow> unat (vp_in_count w) = ?t + 1"
        using Suc.prems(2) by (cases "unat (vp_in_count w) = ?t + 1") simp_all
      then show ?thesis using step w1(2) 0 by simp
    next
      case (Suc j)
      have "fst (wake_ups n w1) ! j \<longleftrightarrow> (unat (vp_in_count w1) + j + 1) mod (?t + 2) = 0"
        using Suc.IH [of w1 j] Suc.prems w1 Suc by (auto split: if_splits)
      moreover have "(unat (vp_in_count w) + k + 1) mod (?t + 2) = (unat (vp_in_count w1) + j + 1) mod (?t + 2)"
      proof (cases "unat (vp_in_count w) = ?t + 1")
        case True
        then have "unat (vp_in_count w) + k + 1 = (j + 1) + (?t + 2)" using Suc by simp
        then show ?thesis using True w1(3) by (simp only: mod_add_self2) simp
      next
        case False
        then show ?thesis using Suc w1(3) by simp
      qed
      ultimately show ?thesis using step Suc by simp
    qed
  qed simp
  show ?thesis using gen [of v k n] assms by simp
qed

lemma upd_notify:
  "the_port (upd_port q notify_port s) r =
     (if r = q \<and> ss_ports s q \<noteq> None then notify_port (the_port s r) else the_port s r)"
  by (auto simp: the_port_def upd_port_def split: option.splits)

lemma not_need_notify [simp]: "\<not> sp_need_notify (notify_port x)"
  by (simp add: notify_port_def port_mq_send_def)

lemma notify_list_wakes:
  assumes "notify_list qs s = Inr s'"
  shows "ss_remote_port s' = ss_remote_port s \<and> ss_local_port_list s' = ss_local_port_list s
    \<and> (\<forall>q. q \<in> set qs \<or> \<not> sp_need_notify (the_port s q) \<longrightarrow> \<not> sp_need_notify (the_port s' q))"
  using assms
proof (induction qs arbitrary: s)
  case (Cons q qs)
  then obtain x where x: "ss_ports s q = Some x" by (auto simp: port_at_def split: option.splits)
  then have "ss_ports s q \<noteq> None" by simp
  then have "\<not> sp_need_notify (the_port (upd_port q notify_port s) q)"
    "\<not> sp_need_notify (the_port s r) \<Longrightarrow> \<not> sp_need_notify (the_port (upd_port q notify_port s) r)" for r
    by (auto simp: upd_notify)
  then show ?case using Cons.IH [of "upd_port q notify_port s"] Cons.prems x
    by (auto simp: upd_port_def)
qed simp

lemma notify_ports_wakes:
  assumes "notify_ports s = Inr s'"
  shows "\<not> asleep s'"
proof -
  obtain s1 where s1: "(case ss_remote_port s of None \<Rightarrow> Inr s | Some r \<Rightarrow> notify_list [r] s) = Inr s1"
      "notify_list (ss_local_port_list s) s1 = Inr s'"
    using assms by (auto simp: notify_ports_def outcome_simps)
  have 1: "ss_remote_port s1 = ss_remote_port s \<and> ss_local_port_list s1 = ss_local_port_list s
      \<and> (\<forall>r. ss_remote_port s = Some r \<longrightarrow> \<not> sp_need_notify (the_port s1 r))"
    using s1(1) notify_list_wakes [of _ s s1]
    by (cases "ss_remote_port s") (simp, fastforce simp del: notify_list.simps)
  then show ?thesis
    using notify_list_wakes [OF s1(2)]
    by (auto simp: asleep_def all_ports_def split: option.splits)
qed

text \<open>
  A burst: frames handed in one after the other. \<open>rested\<close> is the state between bursts: when the count
  is zero no port is asleep with frames to send.
\<close>

fun burst :: "nat list \<Rightarrow> soft_vport_dev \<times> switch_sys \<Rightarrow> (soft_vport_dev \<times> switch_sys) outcome" where
  "burst [] x = Inr x"
| "burst (k # ks) x = and_then (soft_vport_in_nocpy k x) (burst ks)"

definition rested :: "soft_vport_dev \<times> switch_sys \<Rightarrow> bool" where
  "rested x \<longleftrightarrow> unat (vp_in_threshhold (fst x)) < 255
     \<and> unat (vp_in_count (fst x)) \<le> unat (vp_in_threshhold (fst x)) + 1
     \<and> (vp_in_count (fst x) = 0 \<longrightarrow> \<not> asleep (snd x))"

lemma nocpy_rested:
  assumes "rested x" "soft_vport_in_nocpy k x = Inr x'"
  shows "rested x'"
proof -
  obtain v s where x: "x = (v, s)" by (cases x)
  obtain b v1 where c: "count_frame v = (b, v1)" by (cases "count_frame v")
  obtain s1 where s1: "port_in_pkt_nocpy (vp_port v) k b s = Inr s1" "x' = (v1, s1)"
    using assms(2) by (auto simp: soft_vport_in_nocpy_def x c outcome_simps)
  have v: "unat (vp_in_threshhold v) < 255" "unat (vp_in_count v) \<le> unat (vp_in_threshhold v) + 1"
    using assms(1) by (simp_all add: rested_def x)
  have n: "unat (vp_in_count v1) = (if b then 0 else unat (vp_in_count v) + 1)"
    "b \<longleftrightarrow> unat (vp_in_count v) = unat (vp_in_threshhold v) + 1"
    using count_next [OF v(2,1)] c by (auto split: if_splits)
  have "\<not> asleep s1" if b
    using s1(1) that notify_ports_wakes by (auto simp: port_in_pkt_nocpy_def outcome_simps)
  moreover have "vp_in_count v1 = 0 \<longleftrightarrow> b"
    using n(1) by (metis Zero_not_Suc add.commute plus_1_eq_Suc unat_0 unsigned_word_eqI)
  moreover have "vp_in_threshhold v1 = vp_in_threshhold v" using count_keeps(1) [of v] c by simp
  ultimately show ?thesis using v n by (auto simp: rested_def s1(2) split: if_splits)
qed

lemma kick_wakes:
  assumes "rested x1" "soft_vport_in_kick x1 = Inr x2"
  shows "\<not> asleep (snd x2) \<and> vp_in_count (fst x2) = 0 \<and> rested x2"
proof -
  obtain v s where x1: "x1 = (v, s)" by (cases x1)
  show ?thesis
  proof (cases "0 < vp_in_count v")
    case True
    then obtain s1 where "notify_ports s = Inr s1" "x2 = (v\<lparr>vp_in_count := 0\<rparr>, s1)"
      using assms(2) by (auto simp: soft_vport_in_kick_def x1 outcome_simps)
    then show ?thesis using notify_ports_wakes assms(1) by (simp add: rested_def x1)
  next
    case False
    then have "vp_in_count v = 0" by (simp add: word_gt_0)
    then show ?thesis using assms by (auto simp: rested_def x1 soft_vport_in_kick_def)
  qed
qed

text \<open>
  No frame is left asleep after a kick: with a threshold below 255, whatever burst of frames the
  application hands in, once it kicks the port no port of the switch is left with frames it was not
  woken for, and the port counts from zero again.
\<close>

theorem vport_kick_wakes_all:
  assumes "rested x" "burst ks x = Inr x1" "soft_vport_in_kick x1 = Inr x2"
  shows "\<not> asleep (snd x2) \<and> vp_in_count (fst x2) = 0 \<and> rested x2"
proof -
  have r: "rested x1"
    using assms(1,2)
  proof (induction ks arbitrary: x)
    case (Cons k ks)
    obtain x' where x': "soft_vport_in_nocpy k x = Inr x'" "burst ks x' = Inr x1"
      using Cons.prems(2) by (cases "soft_vport_in_nocpy k x") simp_all
    show ?case by (rule Cons.IH [OF nocpy_rested [OF Cons.prems(1) x'(1)] x'(2)])
  qed simp
  then show ?thesis by (rule kick_wakes [OF _ assms(3)])
qed

text \<open>
  With the largest threshold the counter wraps before it can pass it: no frame wakes the switch, and
  after 256 of them the count is zero, so that the kick does nothing either.
\<close>

theorem vport_threshold_255_never_wakes:
  assumes "vp_in_threshhold v = 255"
  shows "fst (count_frame v) = False" "vp_in_count v = 255 \<Longrightarrow> vp_in_count (snd (count_frame v)) = 0"
proof -
  have "\<not> 255 < vp_in_count v"
    using u8_lt [of "vp_in_count v"] by (simp add: word_less_nat_alt)
  then show "fst (count_frame v) = False" "vp_in_count v = 255 \<Longrightarrow> vp_in_count (snd (count_frame v)) = 0"
    using assms by (simp_all add: count_frame_def Let_def)
qed

lemma announce_keeps:
  assumes "announce_locals qs s = Inr s'"
  shows "ss_ports s' = ss_ports s \<and> ss_remote_port s' = ss_remote_port s
    \<and> ss_local_port_list s' = ss_local_port_list s"
  using assms
proof (induction qs arbitrary: s)
  case (Cons q qs)
  obtain x :: switch_port where "announce_locals qs (call_setup_addr OPS_ADDR_ADD (Some (sp_mac_addr x)) None s) = Inr s'"
    using Cons.prems that by (cases "port_at s q") auto
  from Cons.IH [OF this] show ?case by (auto simp: call_setup_addr_def split: option.splits)
qed simp

text \<open>
  A new software port is on the switch: when memory and the objects of the OS can be had and the
  callbacks are given, the port is one of the switch's ports, with the address, the link and the kind
  of the configuration, its counter is at zero and no other port has changed.
\<close>

theorem vport_init_adds_port:
  assumes "soft_vport_init alloc palloc sem mq cfg s = Inr (v, s')" "vc_link_up cfg = Some l"
    and "length (vc_mac_addr cfg) = 6" "ss_port_next s \<notin> set (all_ports s)"
  shows "vp_port v = ss_port_next s \<and> vp_in_count v = 0 \<and> vp_in_threshhold v = vc_in_threshhold cfg
     \<and> vp_port v \<in> set (all_ports s') \<and> link s' (vp_port v) = l
     \<and> sp_mac_addr (the_port s' (vp_port v)) = vc_mac_addr cfg
     \<and> sp_is_local (the_port s' (vp_port v)) = (vc_flags cfg AND 1 \<noteq> 0)
     \<and> (\<forall>q. q \<noteq> vp_port v \<longrightarrow> the_port s' q = the_port s q)"
proof -
  let ?p = "ss_port_next s"
  let ?c = "\<lparr>pc_is_local = (vc_flags cfg AND SW_VPORT_FLAGS_LOCAL_PORT \<noteq> 0),
              pc_name = take 19 (vc_name cfg), pc_mac_addr = take MAC_ADDR_LEN (vc_mac_addr cfg),
              pc_dev_end_on = vc_link_up cfg, pc_setup_address_cb = True\<rparr>"
  let ?s1 = "s\<lparr>ss_port_next := Suc ?p, ss_ports := (ss_ports s)(?p \<mapsto> blank_port)\<rparr>"
  have v: "v = \<lparr>vp_in_count = 0, vp_in_threshhold = vc_in_threshhold cfg, vp_port = ?p\<rparr>"
    and a: "switch_add_port sem mq ?p ?c ?s1 = Inr s'"
    using assms(1) by (auto simp: soft_vport_init_def switch_init_port_def outcome_simps)
  have l: "pc_is_local ?c \<longleftrightarrow> vc_flags cfg AND 1 \<noteq> 0" by (simp add: SW_VPORT_FLAGS_LOCAL_PORT_def)
  have m: "pc_mac_addr ?c = vc_mac_addr cfg" using assms(3) by (simp add: MAC_ADDR_LEN_def)
  obtain x where x: "ss_ports s' = (ss_ports s)(?p \<mapsto> x)" "sp_mac_addr x = vc_mac_addr cfg"
      "sp_dev_end_on x = l" "sp_power_on x" "sp_is_local x = pc_is_local ?c" "?p \<in> set (all_ports s')"
  proof (cases "pc_is_local ?c")
    case True
    then show ?thesis
      using a assms(2) m
      by (intro that [of "the (ss_ports s' ?p)"])
        (auto simp: switch_add_port_def outcome_simps Let_def port_at_def call_setup_addr_def
          upd_port_def all_ports_def split: option.splits if_splits)
  next
    case False
    let ?s2 = "s\<lparr>ss_port_next := Suc ?p, ss_ports := (ss_ports s)(?p \<mapsto>
        (blank_port\<lparr>sp_name := take 19 (vc_name cfg), sp_mac_addr := vc_mac_addr cfg,
          sp_is_local := False, sp_data_out := [], sp_fdb_enabled := False, sp_fdb_table := [],
          sp_data_out_sem := 1, sp_mqueue := [], sp_dev_end_on := l, sp_power_on := True\<rparr>)),
        ss_remote_port := Some ?p\<rparr>"
    have s2: "announce_locals (ss_local_port_list s) ?s2 = Inr s'"
      using False a assms(2) m
      by (simp add: switch_add_port_def os_assert_def Let_def port_at_def upd_port_def split: if_splits)
    show ?thesis using announce_keeps [OF s2] False m
      by (intro that [of "the (ss_ports s' ?p)"]) (auto simp: all_ports_def)
  qed
  then show ?thesis using l by (auto simp: v link_def the_port_def cable_link_is_on_def)
qed

definition ex_vport :: soft_vport_dev where
  "ex_vport = \<lparr>vp_in_count = 1, vp_in_threshhold = 1, vp_port = 0\<rparr>"

definition ex_vport_cfg :: soft_vport_cfg where
  "ex_vport_cfg = \<lparr>vc_name = ''soft0'', vc_mac_addr = ex_mac 7, vc_link_up = Some True,
     vc_in_threshhold = 4, vc_flags = 1, vc_port_out_cb = True, vc_print_priv_stats = True\<rparr>"

lemma vport_kick_wakes_all_witness:
  "\<exists>x2. soft_vport_in_kick (ex_vport, ex_in_hand) = Inr x2 \<and> \<not> asleep (snd x2)"
proof -
  have "rested (ex_vport, ex_in_hand)" by (simp add: rested_def ex_vport_def)
  moreover obtain x2 where "soft_vport_in_kick (ex_vport, ex_in_hand) = Inr x2"
    by (simp add: soft_vport_in_kick_def ex_vport_def port_at_def notify_ports_def ex_in_hand_def
        upd_port_def)
  ultimately show ?thesis
    using vport_kick_wakes_all [of "(ex_vport, ex_in_hand)" "[]"] by simp
qed

lemma vport_init_adds_port_witness:
  "\<exists>v s'. soft_vport_init True True True True ex_vport_cfg (ex_switch (\<lambda>_. None)) = Inr (v, s')
     \<and> vp_port v \<in> set (all_ports s')"
proof -
  have n: "ss_port_next (ex_switch (\<lambda>_. None)) = 3" by (simp add: ex_switch_def)
  obtain v s' where "soft_vport_init True True True True ex_vport_cfg (ex_switch (\<lambda>_. None)) = Inr (v, s')"
    by (simp add: soft_vport_init_def ex_vport_cfg_def switch_init_port_def switch_add_port_def
        os_assert_def port_at_def Let_def SW_VPORT_FLAGS_LOCAL_PORT_def call_setup_addr_def
        upd_port_def)
  then show ?thesis
    using vport_init_adds_port [of True True True True ex_vport_cfg "ex_switch (\<lambda>_. None)" v s' True] n
    by - (rule exI [of _ v], rule exI [of _ s'], auto simp: ex_vport_cfg_def ex_mac_def)
qed

lemma vport_wakes_in_batches_witness:
  "fst (wake_ups 6 \<lparr>vp_in_count = 0, vp_in_threshhold = 1, vp_port = 0\<rparr>) ! 2
   \<and> \<not> fst (wake_ups 6 \<lparr>vp_in_count = 0, vp_in_threshhold = 1, vp_port = 0\<rparr>) ! 3"
  using vport_wakes_in_batches [of "\<lparr>vp_in_count = 0, vp_in_threshhold = 1, vp_port = 0\<rparr>" 2 6]
    vport_wakes_in_batches [of "\<lparr>vp_in_count = 0, vp_in_threshhold = 1, vp_port = 0\<rparr>" 3 6]
  by simp

end
