(* ===== verification/Ptp_Stack.thy ===== *)
theory Ptp_Stack
  imports Dsa_Tag Soft_Vport
begin


text \<open>
  The port of the virtual switch over the sockets of the GenAVB stack,
  \<open>src/net/ptp_stack/ptp_multisoc_stack.c\<close>: frames of the physical ports go to the host with a VLAN or a
  DSA tag in front of their type, frames of the host lose their tag and go to the port it names, and
  the time stamps of transmitted frames go back to the host in frames of their own. Of the GenAVB
  library, which is not part of the repository, the model keeps the calls made and what they answered.
\<close>


subsection \<open>The device\<close>

text \<open>
  The ports are the elements of the two arrays of the device, so that a port is named by whether it is a
  bridge port and its index; \<open>ap_open\<close> holds the four flags of its sockets that are open.
\<close>

datatype avb_socket = Sock_Tx | Sock_Rx | Sock_Tx_Ptp | Sock_Rx_Ptp

record avb_port =
  ap_logical_port_id :: u16
  ap_hardware_id :: u16
  ap_is_bridge_port :: bool
  ap_bridge_port_index :: u16
  ap_open :: "avb_socket \<Rightarrow> bool"

record avb_stats =
  st_rx_pkts :: u64
  st_rx_err_pkts :: u64
  st_tx_pkts :: u64
  st_tx_err_pkts :: u64
  st_meta_rx_pkts :: u64
  st_invalid_host_pkts :: u64
  st_tx_ts_pkts :: u64

record gen_avb_device =
  av_link_up :: bool
  av_is_hostport :: bool
  av_flags :: u32
  av_ep_port_num :: u8
  av_endpoint_port :: "avb_port list"
  av_bridge_port_num :: u8
  av_bridge_port :: "avb_port list"
  av_gptp_clock_id :: u16
  av_host_mac :: mac
  av_priv_stats :: avb_stats

type_synonym port_ref = "bool \<times> nat"

datatype avb_call =
    Socket_Tx port_ref "u8 list"
  | Socket_Tx_Send port_ref "u8 list" u32
  | Rx_Enable_Callback port_ref avb_socket
  | Tx_Enable_Callback port_ref avb_socket

text \<open>
  \<open>as_tx_ok\<close> is whether the call of that number succeeds. The two message queues hold the sockets,
  with whether they are PTP sockets, and the ports of the events.
\<close>

record avb_sys =
  as_dev :: gen_avb_device
  as_vport :: soft_vport_dev
  as_switch :: switch_sys
  as_mqueue :: "(port_ref \<times> bool) list"
  as_ptp_ts_mqueue :: "port_ref list"
  as_calls :: "avb_call list"
  as_tx_ok :: "nat \<Rightarrow> bool"

text \<open>Bit numbers of the flags.\<close>

definition GENAVB_PORT_FLAGS_LOCAL_PORT :: nat where "GENAVB_PORT_FLAGS_LOCAL_PORT = 0"
definition GENAVB_PORT_FLAGS_RX_INSERT_VLAN :: nat where "GENAVB_PORT_FLAGS_RX_INSERT_VLAN = 1"
definition GENAVB_PORT_FLAGS_PTP_SOCKET :: nat where "GENAVB_PORT_FLAGS_PTP_SOCKET = 2"
definition GENAVB_PORT_FLAGS_RX_INSERT_DSA :: nat where "GENAVB_PORT_FLAGS_RX_INSERT_DSA = 3"
definition GENAVB_PORT_FLAGS_TX_REMOVE_VLAN :: nat where "GENAVB_PORT_FLAGS_TX_REMOVE_VLAN = 4"
definition GENAVB_PORT_FLAGS_TX_REMOVE_DSA :: nat where "GENAVB_PORT_FLAGS_TX_REMOVE_DSA = 5"
definition ETHERTYPE_VLAN :: u16 where "ETHERTYPE_VLAN = 0x8100"
definition MAX_FRAME_LEN :: u32 where "MAX_FRAME_LEN = 1518"
definition CFG_EP_NUM :: nat where "CFG_EP_NUM = 2"
definition CFG_BRIDGE_NUM :: nat where "CFG_BRIDGE_NUM = 4"
definition ptp_multicast_addr :: mac where "ptp_multicast_addr = [0x01, 0x80, 0xc2, 0x00, 0x00, 0x0e]"

text \<open>The memory of a device after \<open>memset\<close>.\<close>

definition zero_port :: avb_port where
  "zero_port = \<lparr>ap_logical_port_id = 0, ap_hardware_id = 0, ap_is_bridge_port = False,
     ap_bridge_port_index = 0, ap_open = (\<lambda>_. False)\<rparr>"

definition zero_dev :: gen_avb_device where
  "zero_dev = \<lparr>av_link_up = False, av_is_hostport = False, av_flags = 0, av_ep_port_num = 0,
     av_endpoint_port = replicate CFG_EP_NUM zero_port, av_bridge_port_num = 0,
     av_bridge_port = replicate CFG_BRIDGE_NUM zero_port, av_gptp_clock_id = 0,
     av_host_mac = replicate 6 0, av_priv_stats = \<lparr>st_rx_pkts = 0, st_rx_err_pkts = 0, st_tx_pkts = 0,
       st_tx_err_pkts = 0, st_meta_rx_pkts = 0, st_invalid_host_pkts = 0, st_tx_ts_pkts = 0\<rparr>\<rparr>"

definition on_stats :: "(avb_stats \<Rightarrow> avb_stats) \<Rightarrow> avb_sys \<Rightarrow> avb_sys" where
  "on_stats f s = s\<lparr>as_dev := (as_dev s)\<lparr>av_priv_stats := f (av_priv_stats (as_dev s))\<rparr>\<rparr>"

fun find_idx :: "avb_port list \<Rightarrow> u16 \<Rightarrow> nat \<Rightarrow> nat \<Rightarrow> int outcome" where
  "find_idx ports i 0 k = Inr (-1)"
| "find_idx ports i (Suc n) k =
     and_then (arr_get ports k) (\<lambda>p. if i = ap_hardware_id p then Inr (int k) else find_idx ports i n (Suc k))"

definition find_switch_port_idx :: "gen_avb_device \<Rightarrow> u16 \<Rightarrow> int outcome" where
  "find_switch_port_idx dev logical_id =
     find_idx (av_bridge_port dev) logical_id (unat (av_bridge_port_num dev)) 0"

subsection \<open>From the host to the ports\<close>

text \<open>The \<open>n\<close> bytes at offset \<open>i\<close> of the frame as a word.\<close>

fun load_bytes :: "nat \<Rightarrow> nat \<Rightarrow> data_pkt \<Rightarrow> u8 list outcome" where
  "load_bytes 0 i d = Inr []"
| "load_bytes (Suc n) i d =
     and_then (arr_get (dp_buf d) (dp_data d + i)) (\<lambda>b.
     and_then (load_bytes n (Suc i) d) (\<lambda>bs. Inr (b # bs)))"

definition load16 :: "nat \<Rightarrow> data_pkt \<Rightarrow> u16 outcome" where
  "load16 i d = and_then (load_bytes 2 i d) (\<lambda>bs. Inr (ucast (of_le_bytes bs)))"

definition load32 :: "nat \<Rightarrow> data_pkt \<Rightarrow> u32 outcome" where
  "load32 i d = and_then (load_bytes 4 i d) (\<lambda>bs. Inr (ucast (of_le_bytes bs)))"

text \<open>What the headers of a frame of the host say, and the frame without its tag.\<close>

datatype host_frame =
    Meta
  | Format_Error
  | Plain data_pkt
  | To_Port u8 bool u32 data_pkt  \<comment> \<open>the port, whether its time stamp is wanted and under which identifier\<close>

definition untag :: "u8 \<Rightarrow> u8 \<Rightarrow> bool \<Rightarrow> u32 \<Rightarrow> data_pkt \<Rightarrow> host_frame outcome" where
  "untag len dst take_ts ts_priv d =
     and_then (remove_tag len d) (\<lambda>(rc, d').
       Inr (if rc \<noteq> 0 then Format_Error else To_Port dst take_ts ts_priv d'))"

definition parse_host_frame :: "gen_avb_device \<Rightarrow> data_pkt \<Rightarrow> host_frame outcome" where
  "parse_host_frame dev d =
     and_then (load16 12 d) (\<lambda>ty. and_then (load16 14 d) (\<lambda>cu.
       let ethertype = htons ty; dsa_custom = htons cu in
       if ethertype = ETHERTYPE_VLAN \<and> bit (av_flags dev) GENAVB_PORT_FLAGS_TX_REMOVE_VLAN
       then untag VLAN_TAG_LENGTH (ucast (dsa_custom AND VLAN_VID_PORT_MASK)) False 0 d
       else if ethertype = DSA_8021Q_TPID \<and> bit (av_flags dev) GENAVB_PORT_FLAGS_TX_REMOVE_DSA
       then if bit dsa_custom DSA_TO_SW_META_OFFSET then Inr Meta
            else let dst = ucast (dsa_custom AND DSA_TO_SW_PORT_MASK) in
              if bit dsa_custom DSA_TO_SW_TAKE_TS_OFFSET
              then and_then (load32 16 d) (\<lambda>t. untag DS_TO_SW_TS_TAG_LEN dst True (htonl t) d)
              else untag DS_TO_SW_NONTS_TAG_LEN dst False 0 d
       else Inr (Plain d)))"

text \<open>\<open>pkt->data_len\<close> bytes handed to the library, and what it answers.\<close>

definition avb_call :: "avb_call \<Rightarrow> avb_sys \<Rightarrow> bool \<times> avb_sys" where
  "avb_call c s = (as_tx_ok s (length (as_calls s)), s\<lparr>as_calls := as_calls s @ [c]\<rparr>)"

definition sent :: "bool \<times> avb_sys \<Rightarrow> int \<times> avb_sys" where
  "sent r = (if fst r then (0, on_stats (\<lambda>t. t\<lparr>st_tx_pkts := st_tx_pkts t + 1\<rparr>) (snd r))
             else (-1, on_stats (\<lambda>t. t\<lparr>st_tx_err_pkts := st_tx_err_pkts t + 1\<rparr>) (snd r)))"

definition genavb_socket_tx :: "port_ref \<Rightarrow> data_pkt \<Rightarrow> avb_sys \<Rightarrow> (bool \<times> avb_sys) outcome" where
  "genavb_socket_tx r d s =
     and_then (pkt_read d (unat (dp_data_len d))) (\<lambda>bs. Inr (avb_call (Socket_Tx r bs) s))"

definition genavb_socket_tx_send :: "port_ref \<Rightarrow> data_pkt \<Rightarrow> u32 \<Rightarrow> avb_sys \<Rightarrow> (bool \<times> avb_sys) outcome" where
  "genavb_socket_tx_send r d priv s =
     and_then (pkt_read d (unat (dp_data_len d))) (\<lambda>bs. Inr (avb_call (Socket_Tx_Send r bs priv) s))"

definition meta_rx :: "avb_sys \<Rightarrow> avb_sys" where
  "meta_rx s = on_stats (\<lambda>t. t\<lparr>st_meta_rx_pkts := st_meta_rx_pkts t + 1\<rparr>) s"

definition fmt_err :: "avb_sys \<Rightarrow> int \<times> avb_sys" where
  "fmt_err s = (-1, on_stats (\<lambda>t. t\<lparr>st_invalid_host_pkts := st_invalid_host_pkts t + 1\<rparr>) s)"

text \<open>The callback of the host's port; the packet is freed by its caller afterwards.\<close>

definition genavb_host_to_sw_stack :: "data_pkt \<Rightarrow> avb_sys \<Rightarrow> (int \<times> avb_sys) outcome" where
  "genavb_host_to_sw_stack d s =
     and_then (parse_host_frame (as_dev s) d) (\<lambda>r. case r of
       Meta \<Rightarrow> Inr (0, meta_rx s)
     | Format_Error \<Rightarrow> Inr (fmt_err s)
     | To_Port dst take_ts ts_priv d' \<Rightarrow>
         and_then (find_switch_port_idx (as_dev s) (ucast dst)) (\<lambda>i.
           if i < 0 then Inr (fmt_err s)
           else if take_ts \<and> bit (av_flags (as_dev s)) GENAVB_PORT_FLAGS_PTP_SOCKET
           then and_then (genavb_socket_tx_send (True, nat i) d' ts_priv s) (\<lambda>x. Inr (sent x))
           else and_then (genavb_socket_tx (True, nat i) d' s) (\<lambda>x. Inr (sent x)))
     | Plain d' \<Rightarrow>
         if 0 < av_ep_port_num (as_dev s)
         then and_then (genavb_socket_tx (False, 0) d' s) (\<lambda>x. Inr (sent x))
         else Inr (sent (True, s)))"

text \<open>The callback of a local port.\<close>

definition genavb_socket_output :: "data_pkt \<Rightarrow> avb_sys \<Rightarrow> (int \<times> avb_sys) outcome" where
  "genavb_socket_output d s =
     (if av_bridge_port_num (as_dev s) = 1
      then and_then (genavb_socket_tx (True, 0) d s) (\<lambda>x. Inr (sent x))
      else if av_ep_port_num (as_dev s) = 1
      then and_then (genavb_socket_tx (False, 0) d s) (\<lambda>x. Inr (sent x))
      else Inr (-1, s))"

lemma load_bytes_payload:
  assumes "pkt_wf d" "i + n \<le> length (payload d)"
  shows "load_bytes n i d = Inr (take n (drop i (payload d)))"
  using assms(2)
proof (induction n arbitrary: i)
  case (Suc n)
  have "arr_get (dp_buf d) (dp_data d + i) = Inr (payload d ! i)"
    using Suc.prems assms(1) by (auto simp: pkt_wf_def payload_def)
  moreover have "take (Suc n) (drop i (payload d)) = payload d ! i # take n (drop (Suc i) (payload d))"
    using Suc.prems Cons_nth_drop_Suc [of i "payload d"] by (simp flip: Cons_nth_drop_Suc)
  ultimately show ?case using Suc.IH [of "Suc i"] Suc.prems by simp
qed simp

lemma be16:
  fixes a b :: u8
  shows "htons (ucast (of_le_bytes [a, b])) = push_bit 8 (ucast a) OR ucast b"
proof (rule bit_word_eqI)
  fix n
  have u: "\<not> bit w (8 + m)" for w :: u8 and m by (rule impossible_bit) simp
  assume n: "n < LENGTH(16)"
  show "bit (htons (ucast (of_le_bytes [a, b]))) n = bit (push_bit 8 (ucast a) OR ucast b :: u16) n"
  proof (cases "n < 8")
    case False
    then obtain m where "n = 8 + m" using le_Suc_ex not_less by blast
    then show ?thesis using n u by (auto simp: htons_def byte_masks bit_simps)
  qed (use u in \<open>auto simp: htons_def byte_masks bit_simps\<close>)
qed

lemma be16_bits:
  fixes a b :: u8
  shows "bit (push_bit 8 (ucast a) OR ucast b :: u16) 14 = bit a 6"
    and "bit (push_bit 8 (ucast a) OR ucast b :: u16) 11 = bit a 3"
    and "ucast ((push_bit 8 (ucast a) OR ucast b :: u16) AND 0xF) = b AND 0xF"
proof -
  have n: "\<not> bit w 14" "\<not> bit w 11" for w :: u8
    by (rule impossible_bit, simp)+
  show "bit (push_bit 8 (ucast a) OR ucast b :: u16) 14 = bit a 6"
    "bit (push_bit 8 (ucast a) OR ucast b :: u16) 11 = bit a 3"
    by (simp_all add: bit_simps n)
  show "ucast ((push_bit 8 (ucast a) OR ucast b :: u16) AND 0xF) = b AND 0xF"
    by (auto simp: byte_masks bit_simps intro!: bit_word_eqI)
qed

text \<open>The first bridge port of that number.\<close>

definition port_index :: "gen_avb_device \<Rightarrow> u16 \<Rightarrow> nat option" where
  "port_index dev hw = List.find (\<lambda>k. ap_hardware_id (av_bridge_port dev ! k) = hw)
     [0..<unat (av_bridge_port_num dev)]"

definition dev_ok :: "gen_avb_device \<Rightarrow> bool" where
  "dev_ok dev \<longleftrightarrow> length (av_bridge_port dev) = CFG_BRIDGE_NUM
     \<and> length (av_endpoint_port dev) = CFG_EP_NUM
     \<and> unat (av_bridge_port_num dev) \<le> CFG_BRIDGE_NUM \<and> unat (av_ep_port_num dev) \<le> CFG_EP_NUM"

lemma find_idx_eq:
  "k + n \<le> length ports \<Longrightarrow> find_idx ports i n k =
     Inr (case List.find (\<lambda>k. ap_hardware_id (ports ! k) = i) [k..<k + n] of None \<Rightarrow> -1 | Some j \<Rightarrow> int j)"
proof (induction n arbitrary: k)
  case (Suc n)
  have "[k..<k + Suc n] = k # [Suc k..<Suc k + n]" by (simp add: upt_conv_Cons)
  then show ?case using Suc.IH [of "Suc k"] Suc.prems by auto
qed simp

lemma find_switch_port_idx_eq:
  "dev_ok dev \<Longrightarrow> find_switch_port_idx dev hw =
     Inr (case port_index dev hw of None \<Rightarrow> -1 | Some j \<Rightarrow> int j)"
  using find_idx_eq [of 0 "unat (av_bridge_port_num dev)" "av_bridge_port dev" hw]
  by (simp add: find_switch_port_idx_def port_index_def dev_ok_def)

lemma pkt_read_payload: "pkt_wf d \<Longrightarrow> pkt_read d (unat (dp_data_len d)) = Inr (payload d)"
  by (simp add: pkt_read_def payload_def pkt_wf_def)

text \<open>
  The frames of the host: addresses, the tag with its two bytes, the identifier of the time stamp when
  one is wanted (bit 3 of the first byte), and the rest.
\<close>

definition host_dsa_frame :: "u8 list \<Rightarrow> u8 \<Rightarrow> u8 \<Rightarrow> u32 \<Rightarrow> u8 list \<Rightarrow> u8 list" where
  "host_dsa_frame addrs hi lo ts_id rest = addrs @ [0xDA, 0xDC, hi, lo]
     @ (if bit hi 3 then rev (le_bytes 4 (ucast ts_id)) else []) @ rest"

lemma untag_eq:
  assumes "pkt_wf d" "length a = 12" "length t = unat k" "r \<noteq> []"
    and "payload d = a @ t @ r"
  shows "\<exists>d'. untag k dst ts priv d = Inr (To_Port dst ts priv d')
    \<and> pkt_read d' (unat (dp_data_len d')) = Inr (a @ r)"
proof -
  have "unat k + 12 < length (payload d)" using assms(2-5) by simp
  from remove_tag_payload(1) [OF assms(1) this] show ?thesis
    using assms(2,3,5) by (auto simp: untag_def)
qed

lemma parse_dsa:
  assumes "pkt_wf d" "length a = 12" "r \<noteq> []"
    and "payload d = host_dsa_frame a hi lo ts_id r"
    and "bit (av_flags dev) GENAVB_PORT_FLAGS_TX_REMOVE_DSA" "\<not> bit hi 6"
  shows "\<exists>d'. parse_host_frame dev d = Inr (To_Port (lo AND 0xF) (bit hi 3) (if bit hi 3 then ts_id else 0) d')
    \<and> pkt_read d' (unat (dp_data_len d')) = Inr (a @ r)"
proof -
  let ?f = "payload d"
  have l: "16 < length ?f" using assms(2-4) by (cases r) (auto simp: host_dsa_frame_def)
  have at: "take 2 (drop 12 ?f) = [0xDA, 0xDC]" "take 2 (drop 14 ?f) = [hi, lo]"
    using assms(2,4) by (simp_all add: host_dsa_frame_def)
  obtain ty where ty: "load16 12 d = Inr ty" "htons ty = 0xDADC"
  proof -
    have "htons (ucast (of_le_bytes [0xDA, 0xDC])) = 0xDADC" unfolding be16 by simp
    then show thesis
      using load_bytes_payload [OF assms(1), of 12 2] l at(1)
      by (intro that [of "ucast (of_le_bytes [0xDA, 0xDC])"]) (simp_all add: load16_def)
  qed
  obtain cu where cu: "load16 14 d = Inr cu" "htons cu = push_bit 8 (ucast hi) OR ucast lo"
    using load_bytes_payload [OF assms(1), of 14 2] l at(2)
    by (intro that [of "ucast (of_le_bytes [hi, lo])", OF _ be16]) (simp add: load16_def)
  show ?thesis
  proof (cases "bit hi 3")
    case True
    have f: "?f = a @ ([0xDA, 0xDC, hi, lo] @ rev (le_bytes 4 (ucast ts_id))) @ r"
      using assms(4) True by (simp add: host_dsa_frame_def)
    have "take 4 (drop 16 ?f) = rev (le_bytes 4 (ucast ts_id))" using assms(2) by (simp add: f)
    moreover have "20 \<le> length ?f" using assms(2) by (simp add: f)
    ultimately have t0: "load32 16 d = Inr (ucast (of_le_bytes (rev (le_bytes 4 (ucast ts_id)))))"
      using load_bytes_payload [OF assms(1), of 16 4] by (simp add: load32_def)
    have lw: "ucast (of_le_bytes (le_bytes 4 (ucast w))) = w" for w :: u32
    proof (rule bit_word_eqI)
      fix n assume "n < LENGTH(32)"
      then show "bit (ucast (of_le_bytes (le_bytes 4 (ucast w))) :: u32) n = bit w n"
        by (auto simp: le_bytes_24 bit_simps)
    qed
    have "ucast (of_le_bytes (rev (le_bytes 4 (ucast ts_id)))) = htonl ts_id"
      unfolding htonl_bytes [symmetric] by (rule lw)
    moreover have "htonl (htonl ts_id) = ts_id"
      using lw [of "htonl (htonl ts_id)"] lw [of ts_id] by (simp add: htonl_bytes)
    ultimately obtain t where t: "load32 16 d = Inr t" "htonl t = ts_id" using t0 by simp
    obtain d' where "untag 8 (lo AND 0xF) True ts_id d = Inr (To_Port (lo AND 0xF) True ts_id d')"
        "pkt_read d' (unat (dp_data_len d')) = Inr (a @ r)"
      using untag_eq [OF assms(1) assms(2) _ assms(3) f, of 8 "lo AND 0xF" True ts_id] by auto
    then show ?thesis
      using True assms(5,6) by (simp add: parse_host_frame_def ty cu be16_bits t tag_consts Let_def
          ETHERTYPE_VLAN_def)
  next
    case False
    have f: "?f = a @ [0xDA, 0xDC, hi, lo] @ r"
      using assms(4) False by (simp add: host_dsa_frame_def)
    obtain d' where "untag 4 (lo AND 0xF) False 0 d = Inr (To_Port (lo AND 0xF) False 0 d')"
        "pkt_read d' (unat (dp_data_len d')) = Inr (a @ r)"
      using untag_eq [OF assms(1) assms(2) _ assms(3) f, of 4 "lo AND 0xF" False 0] by auto
    then show ?thesis
      using False assms(5,6) by (simp add: parse_host_frame_def ty cu be16_bits tag_consts Let_def
          ETHERTYPE_VLAN_def)
  qed
qed

text \<open>
  C19: A frame of the host reaches the port it names. On a device that removes DSA tags (flag
  \<open>TX_REMOVE_DSA\<close>), a frame with a DSA tag whose meta bit (bit 6 of its first byte)
  is clear, and with at least one byte after the tag, is handed, without the tag, to exactly one
  socket of the first bridge port whose hardware number is the tag's port number: to the PTP
  socket, under the identifier in the tag, when the tag asks for the time stamp and the device
  has PTP sockets (flag \<open>PTP_SOCKET\<close>), and to the ordinary socket otherwise. It is
  counted as sent or as failed by what the library answers, and a tag that names no port is
  counted as invalid and sent nowhere.
\<close>

theorem host_frame_reaches_its_port:
  assumes "dev_ok (as_dev s)" "pkt_wf d" "length addrs = 12" "rest \<noteq> []"
    and "payload d = host_dsa_frame addrs hi lo ts_id rest" "\<not> bit hi 6"
    and "bit (av_flags (as_dev s)) GENAVB_PORT_FLAGS_TX_REMOVE_DSA"
  shows "genavb_host_to_sw_stack d s = Inr
    (case port_index (as_dev s) (ucast (lo AND 0xF)) of
       None \<Rightarrow> fmt_err s
     | Some i \<Rightarrow> sent (avb_call
         (if bit hi 3 \<and> bit (av_flags (as_dev s)) GENAVB_PORT_FLAGS_PTP_SOCKET
          then Socket_Tx_Send (True, i) (addrs @ rest) ts_id
          else Socket_Tx (True, i) (addrs @ rest)) s))"
proof -
  obtain d' where d': "parse_host_frame (as_dev s) d =
        Inr (To_Port (lo AND 0xF) (bit hi 3) (if bit hi 3 then ts_id else 0) d')"
      "pkt_read d' (unat (dp_data_len d')) = Inr (addrs @ rest)"
    using parse_dsa [OF assms(2-5,7,6)] by blast
  show ?thesis
    by (cases "port_index (as_dev s) (ucast (lo AND 0xF))")
      (simp_all add: genavb_host_to_sw_stack_def d' find_switch_port_idx_eq [OF assms(1)]
        genavb_socket_tx_send_def genavb_socket_tx_def)
qed

text \<open>
  The type and the tag are read before the length of the frame is looked at: a frame of 14 bytes in a
  buffer of its size is read past its end.
\<close>

theorem short_host_frame_overread:
  assumes "pkt_wf d" "length (payload d) < 16" "dp_tail d = dp_data d + length (payload d)"
  shows "genavb_host_to_sw_stack d s = Inl Out_Of_Bounds"
proof -
  have len: "length (dp_buf d) = dp_data d + length (payload d)" "length (payload d) = unat (dp_data_len d)"
    using assms payload_length [OF assms(1)] by (auto simp: pkt_wf_def)
  have load: "load16 i d = (if i + 2 \<le> length (payload d)
      then Inr (ucast (of_le_bytes (take 2 (drop i (payload d))))) else Inl Out_Of_Bounds)" for i
    using load_bytes_payload [OF assms(1), of i 2] len(1)
    by (cases "i < length (payload d)") (auto simp: load16_def numeral_2_eq_2 arr_get_def)
  show ?thesis
    using assms(2) by (simp add: genavb_host_to_sw_stack_def parse_host_frame_def load)
qed

subsection \<open>From the ports to the host\<close>

text \<open>
  What \<open>genavb_socket_rx\<close> answers: a frame of at least one byte with its time stamp, that there is none,
  or an error. \<open>conv\<close> is \<open>genavb_clock_convert\<close> to the clock of the device.
\<close>

datatype rx_answer = Rx_Frame "u8 list" u64 | Rx_Again | Rx_Error

definition ref_port :: "port_ref \<Rightarrow> gen_avb_device \<Rightarrow> avb_port outcome" where
  "ref_port r dev = arr_get (if fst r then av_bridge_port dev else av_endpoint_port dev) (snd r)"

text \<open>The tagging of a received packet.\<close>

definition tag_received ::
    "(u64 \<Rightarrow> u64) \<Rightarrow> gen_avb_device \<Rightarrow> avb_port \<Rightarrow> bool \<Rightarrow> u64 \<Rightarrow> data_pkt \<Rightarrow> data_pkt outcome" where
  "tag_received conv dev port is_ptp ts d =
     (if \<not> ap_is_bridge_port port then Inr d
      else let src_port = ucast (ap_bridge_port_index port) in
        and_then (if bit (av_flags dev) GENAVB_PORT_FLAGS_RX_INSERT_VLAN \<and> \<not> is_ptp
                  then insert_vlan_tag src_port d else Inr d) (\<lambda>d1.
        if bit (av_flags dev) GENAVB_PORT_FLAGS_RX_INSERT_DSA \<and> is_ptp
        then insert_dsa_tag_ts src_port (conv ts) ts d1 else Inr d1))"

text \<open>Changing the packet \<open>n\<close> of the heap.\<close>

definition on_pkt :: "nat \<Rightarrow> (data_pkt \<Rightarrow> data_pkt outcome) \<Rightarrow> pkt_heap \<Rightarrow> pkt_heap outcome" where
  "on_pkt n f h = and_then (pkt_at h n) (\<lambda>d. and_then (f d) (\<lambda>d'.
     Inr (h\<lparr>ph_pkts := (ph_pkts h)(n \<mapsto> d')\<rparr>)))"

text \<open>The two calls that hand a packet to the switch and wake the other ports.\<close>

definition hand_to_switch :: "nat \<Rightarrow> avb_sys \<Rightarrow> avb_sys outcome" where
  "hand_to_switch n s =
     and_then (soft_vport_in_nocpy n (as_vport s, as_switch s)) (\<lambda>x.
     and_then (soft_vport_in_kick x) (\<lambda>(v, w). Inr (s\<lparr>as_vport := v, as_switch := w\<rparr>)))"

definition count_rx :: "avb_sys \<Rightarrow> avb_sys" where
  "count_rx s = on_stats (\<lambda>t. t\<lparr>st_rx_pkts := st_rx_pkts t + 1\<rparr>) s"

text \<open>One round of the inner loop of \<open>genavb_receive_pkts\<close>: whether it goes on, and the state.\<close>

definition receive_one ::
    "(u64 \<Rightarrow> u64) \<Rightarrow> avb_port \<Rightarrow> bool \<Rightarrow> rx_answer \<Rightarrow> avb_sys \<Rightarrow> (bool \<times> avb_sys) outcome" where
  "receive_one conv port is_ptp ans s =
     and_then (data_pkt_alloc MAX_FRAME_LEN (push_bit DATA_PKT_FLAG_CAN_FREE 1) (ss_heap (as_switch s)))
      (\<lambda>(r, h). let put = (\<lambda>h. s\<lparr>as_switch := (as_switch s)\<lparr>ss_heap := h\<rparr>\<rparr>) in
       case r of
         None \<Rightarrow> Inr (False, put h)
       | Some n \<Rightarrow> (case ans of
           Rx_Frame bs ts \<Rightarrow>
             and_then (data_pkt_fill n bs h) (\<lambda>h.
             and_then (data_pkt_set_len n (of_nat (length bs)) h) (\<lambda>h.
             and_then (on_pkt n (tag_received conv (as_dev s) port is_ptp ts) h) (\<lambda>h.
             and_then (hand_to_switch n (put h)) (\<lambda>s. Inr (True, count_rx s)))))
         | Rx_Again \<Rightarrow> and_then (data_pkt_free n h) (\<lambda>h. Inr (False, put h))
         | Rx_Error \<Rightarrow> and_then (data_pkt_free n h) (\<lambda>h.
             Inr (False, on_stats (\<lambda>t. t\<lparr>st_rx_err_pkts := st_rx_err_pkts t + 1\<rparr>) (put h)))))"

text \<open>The inner loop over the answers of the library; after the last one there is no frame.\<close>

fun receive_rounds ::
    "(u64 \<Rightarrow> u64) \<Rightarrow> avb_port \<Rightarrow> bool \<Rightarrow> rx_answer list \<Rightarrow> avb_sys \<Rightarrow> avb_sys outcome" where
  "receive_rounds conv port is_ptp [] s =
     and_then (receive_one conv port is_ptp Rx_Again s) (\<lambda>(ok, s1). Inr s1)"
| "receive_rounds conv port is_ptp (a # as) s =
     and_then (receive_one conv port is_ptp a s) (\<lambda>(ok, s1).
       if ok then receive_rounds conv port is_ptp as s1 else Inr s1)"

text \<open>
  The callback of a receive socket posts an event, which is lost when the queue is full; the task
  \<open>genavb_receive_pkts\<close> takes one event, empties the socket named in it and enables its callback again.
\<close>

definition net_callback :: "port_ref \<Rightarrow> bool \<Rightarrow> avb_sys \<Rightarrow> avb_sys" where
  "net_callback r is_ptp s =
     (if length (as_mqueue s) < 100 then s\<lparr>as_mqueue := as_mqueue s @ [(r, is_ptp)]\<rparr> else s)"

definition genavb_receive_pkts :: "(u64 \<Rightarrow> u64) \<Rightarrow> rx_answer list \<Rightarrow> avb_sys \<Rightarrow> avb_sys outcome" where
  "genavb_receive_pkts conv answers s =
     (case as_mqueue s of
        [] \<Rightarrow> Inr s
      | (r, is_ptp) # es \<Rightarrow>
         and_then (ref_port r (as_dev s)) (\<lambda>port.
         and_then (receive_rounds conv port is_ptp answers (s\<lparr>as_mqueue := es\<rparr>)) (\<lambda>s1.
           Inr (snd (avb_call (Rx_Enable_Callback r (if is_ptp then Sock_Rx_Ptp else Sock_Rx)) s1)))))"

subsection \<open>Time stamps of transmitted frames\<close>

text \<open>Storing bytes at an offset of the frame.\<close>

definition store_bytes :: "nat \<Rightarrow> u8 list \<Rightarrow> data_pkt \<Rightarrow> data_pkt outcome" where
  "store_bytes off bs d = (let i = dp_data d + off in
     if i + length bs \<le> length (dp_buf d)
     then Inr (d\<lparr>dp_buf := take i (dp_buf d) @ bs @ drop (i + length bs) (dp_buf d)\<rparr>)
     else Inl Out_Of_Bounds)"

fun store_all :: "(nat \<times> u8 list) list \<Rightarrow> data_pkt \<Rightarrow> data_pkt outcome" where
  "store_all [] d = Inr d"
| "store_all ((off, bs) # ws) d = and_then (store_bytes off bs d) (store_all ws)"

text \<open>The header of the frame; \<open>hwaddr\<close> is \<open>genavb_socket_get_hwaddr\<close>.\<close>

definition tx_ts_header ::
    "(u64 \<Rightarrow> u64) \<Rightarrow> (u16 \<Rightarrow> u8 list) \<Rightarrow> u64 \<Rightarrow> u32 \<Rightarrow> u16 \<Rightarrow> u16 \<Rightarrow> (nat \<times> u8 list) list" where
  "tx_ts_header conv hwaddr ts ts_priv hardware_id logical_id =
     [(0, ptp_multicast_addr), (6, hwaddr logical_id),
      (12, le_bytes 2 (ucast (htons DSA_8021Q_TPID))),
      (14, le_bytes 2 (ucast (htons
         (DSA_TO_HOST_TX_TS_DEFAULT_DSA OR (hardware_id AND DSA_TO_HOST_PORT_MASK))))),
      (16, le_bytes 8 (htonll (conv ts))), (24, le_bytes 8 (htonll ts)),
      (32, le_bytes 4 (ucast (htonl ts_priv)))]"

definition handle_tx_ts ::
    "(u64 \<Rightarrow> u64) \<Rightarrow> (u16 \<Rightarrow> u8 list) \<Rightarrow> u64 \<Rightarrow> u32 \<Rightarrow> u16 \<Rightarrow> u16 \<Rightarrow> avb_sys \<Rightarrow> avb_sys outcome" where
  "handle_tx_ts conv hwaddr ts ts_priv hardware_id logical_id s =
     (let frame_len = of_nat MAC_ADDR_TOTAL_LENGTH + DSA_TO_HOST_TX_TS_TAG_LEN in
      and_then (data_pkt_alloc frame_len (push_bit DATA_PKT_FLAG_CAN_FREE 1) (ss_heap (as_switch s)))
       (\<lambda>(r, h). let put = (\<lambda>h. s\<lparr>as_switch := (as_switch s)\<lparr>ss_heap := h\<rparr>\<rparr>) in
        case r of
          None \<Rightarrow> Inr (put h)
        | Some n \<Rightarrow>
            and_then (data_pkt_set_len n frame_len h) (\<lambda>h.
            and_then (on_pkt n (store_all (tx_ts_header conv hwaddr ts ts_priv hardware_id logical_id)) h) (\<lambda>h.
            and_then (hand_to_switch n (put h)) (\<lambda>s.
              Inr (on_stats (\<lambda>t. t\<lparr>st_tx_ts_pkts := st_tx_ts_pkts t + 1\<rparr>) s))))))"

text \<open>The stamps the library has for a port, in the order it gives them out.\<close>

fun handle_stamps ::
    "(u64 \<Rightarrow> u64) \<Rightarrow> (u16 \<Rightarrow> u8 list) \<Rightarrow> avb_port \<Rightarrow> (u64 \<times> u32) list \<Rightarrow> avb_sys \<Rightarrow> avb_sys outcome" where
  "handle_stamps conv hwaddr port [] s = Inr s"
| "handle_stamps conv hwaddr port ((ts, ts_priv) # ws) s =
     and_then (handle_tx_ts conv hwaddr ts ts_priv (ap_hardware_id port) (ap_logical_port_id port) s)
       (handle_stamps conv hwaddr port ws)"

definition ptp_ts_callback :: "port_ref \<Rightarrow> avb_sys \<Rightarrow> avb_sys" where
  "ptp_ts_callback r s =
     (if length (as_ptp_ts_mqueue s) < 100 then s\<lparr>as_ptp_ts_mqueue := as_ptp_ts_mqueue s @ [r]\<rparr> else s)"

definition genavb_retrieve_ptp_ts ::
    "(u64 \<Rightarrow> u64) \<Rightarrow> (u16 \<Rightarrow> u8 list) \<Rightarrow> (u64 \<times> u32) list \<Rightarrow> avb_sys \<Rightarrow> avb_sys outcome" where
  "genavb_retrieve_ptp_ts conv hwaddr stamps s =
     (case as_ptp_ts_mqueue s of
        [] \<Rightarrow> Inr s
      | r # es \<Rightarrow>
         and_then (ref_port r (as_dev s)) (\<lambda>port.
         and_then (handle_stamps conv hwaddr port stamps (s\<lparr>as_ptp_ts_mqueue := es\<rparr>)) (\<lambda>s1.
           Inr (snd (avb_call (Tx_Enable_Callback r Sock_Tx_Ptp) s1)))))"

text \<open>A received frame as the host gets it.\<close>

definition host_view ::
    "(u64 \<Rightarrow> u64) \<Rightarrow> gen_avb_device \<Rightarrow> avb_port \<Rightarrow> bool \<Rightarrow> u64 \<Rightarrow> u8 list \<Rightarrow> u8 list" where
  "host_view conv dev port is_ptp ts f =
     (let p = ucast (ap_bridge_port_index port) AND 0xF in
      if \<not> ap_is_bridge_port port then f
      else if bit (av_flags dev) GENAVB_PORT_FLAGS_RX_INSERT_VLAN \<and> \<not> is_ptp
      then take 12 f @ [0x81, 0, 0x0C, p] @ drop 12 f
      else if bit (av_flags dev) GENAVB_PORT_FLAGS_RX_INSERT_DSA \<and> is_ptp
      then take 12 f @ [0xDA, 0xDC, 0x10, p] @ rev (le_bytes 8 (conv ts)) @ rev (le_bytes 8 ts) @ drop 12 f
      else f)"

lemma tag_received_eq:
  assumes "pkt_wf d" "dp_data d = 128" "dp_tail d - dp_data d \<le> 2000" "12 \<le> length (payload d)"
  shows "\<exists>d'. tag_received conv dev port is_ptp ts d = Inr d' \<and> pkt_wf d' \<and> dp_flags d' = dp_flags d
    \<and> payload d' = host_view conv dev port is_ptp ts (payload d)"
proof -
  have ins: "\<exists>d'. insert_bytes sz bs d = Inr d' \<and> pkt_wf d' \<and> dp_flags d' = dp_flags d
      \<and> payload d' = take 12 (payload d) @ bs @ drop 12 (payload d)"
    if "length bs = unat sz" "unat sz \<le> 128" for sz bs
    using insert_bytes_payload [OF assms(1) that(1) _ assms(4)] that(2) assms(2,3) by auto
  note views = host_view_def Let_def tag_received_def
  consider (plain) "\<not> ap_is_bridge_port port \<or> \<not> (bit (av_flags dev) GENAVB_PORT_FLAGS_RX_INSERT_VLAN \<and> \<not> is_ptp)
      \<and> \<not> (bit (av_flags dev) GENAVB_PORT_FLAGS_RX_INSERT_DSA \<and> is_ptp)"
    | (vlan) "ap_is_bridge_port port" "bit (av_flags dev) GENAVB_PORT_FLAGS_RX_INSERT_VLAN" "\<not> is_ptp"
    | (dsa) "ap_is_bridge_port port" "bit (av_flags dev) GENAVB_PORT_FLAGS_RX_INSERT_DSA" "is_ptp"
    by blast
  then show ?thesis
  proof cases
    case plain
    then show ?thesis using assms(1) by (auto simp: views)
  next
    case vlan
    then show ?thesis
      using ins [of "[0x81, 0, 0x0C, ucast (ap_bridge_port_index port) AND 0xF]" 4]
      by (auto simp: views insert_vlan_tag_def VLAN_TAG_LENGTH_def vlan_tag_bytes)
  next
    case dsa
    then show ?thesis
      using ins [of "[0xDA, 0xDC, 0x10, ucast (ap_bridge_port_index port) AND 0xF]
          @ rev (le_bytes 8 (conv ts)) @ rev (le_bytes 8 ts)" 20]
      by (simp add: views insert_dsa_tag_ts_def DSA_TAG_LENGTH_def TIMESTAMP_LENGTH_def dsa_tag_bytes
          htonll_bytes)
  qed
qed

lemma host_view_length: "12 \<le> length f \<Longrightarrow> length f \<le> length (host_view conv dev port is_ptp ts f)"
  by (auto simp: host_view_def Let_def)

text \<open>The device between rounds: its port is one of the switch, whose packets are in order, and no port
  is asleep with frames to send. Whether there is memory for every packet does not change.\<close>

definition avb_ok :: "avb_sys \<Rightarrow> bool" where
  "avb_ok s \<longleftrightarrow> port_there (as_switch s) (vp_port (as_vport s)) \<and> rested (as_vport s, as_switch s)
     \<and> \<not> asleep (as_switch s)"

definition avb_memory :: "avb_sys \<Rightarrow> bool" where
  "avb_memory s \<longleftrightarrow> (\<forall>n. ph_alloc (ss_heap (as_switch s)) n)"

definition targets :: "avb_sys \<Rightarrow> u8 list \<Rightarrow> nat set" where
  "targets s f = forward_set (as_switch s) (vp_port (as_vport s)) f"

lemma kick_returns:
  assumes "port_there w (vp_port v)"
  shows "\<exists>w'. soft_vport_in_kick (v, w) = Inr (if 0 < vp_in_count v then v\<lparr>vp_in_count := 0\<rparr> else v, w')
    \<and> quiet w w'"
proof (cases "0 < vp_in_count v")
  case True
  obtain x where "ss_ports w (vp_port v) = Some x"
    using assms inv_port [of w "vp_port v"] by (auto simp: port_there_def)
  then show ?thesis using True notify_ports_quiet [of w] assms
    by (auto simp: soft_vport_in_kick_def port_there_def)
next
  case False
  then show ?thesis by (simp add: soft_vport_in_kick_def quiet_def)
qed

lemma quiet_there:
  assumes "quiet w w'" "port_there w p"
  shows "port_there w' p" "frames w' = frames w" "forward_set w' p = forward_set w p"
    "ph_alloc (ss_heap w') = ph_alloc (ss_heap w)"
  using assms same_frame_port [of w w' p] by (simp_all add: quiet_def port_there_def)

text \<open>Handing over a packet that is in hand.\<close>

lemma hand_to_switch_step:
  assumes "switch_inv (as_switch s)" "owned (as_switch s) {n}" "vp_port (as_vport s) \<in> set (all_ports (as_switch s))"
    and "ph_pkts (ss_heap (as_switch s)) n = Some d" "6 \<le> length (payload d)"
    and "rested (as_vport s, as_switch s)"
  shows "\<exists>v w. hand_to_switch n s = Inr (s\<lparr>as_vport := v, as_switch := w\<rparr>) \<and> vp_port v = vp_port (as_vport s)
    \<and> port_there w (vp_port v) \<and> rested (v, w) \<and> \<not> asleep w
    \<and> ph_alloc (ss_heap w) = ph_alloc (ss_heap (as_switch s))
    \<and> (avb_memory s \<longrightarrow> frames w = deliver (targets s (payload d)) (payload d) (frames (as_switch s)))
    \<and> forward_set w (vp_port v) = targets s"
proof -
  let ?p = "vp_port (as_vport s)" and ?w = "as_switch s"
  obtain b v1 where c: "count_frame (as_vport s) = (b, v1)" by (cases "count_frame (as_vport s)")
  have p1: "vp_port v1 = ?p" using count_keeps(2) [of "as_vport s"] c by simp
  obtain w1 where w1: "port_in_pkt_nocpy ?p n b ?w = Inr w1"
      "forwarded (forward_set ?w ?p (payload d)) (payload d) ?w w1"
    using in_nocpy_step [OF assms(1-5)] by blast
  have n1: "soft_vport_in_nocpy n (as_vport s, ?w) = Inr (v1, w1)"
    using w1(1) c by (simp add: soft_vport_in_nocpy_def)
  have fr: "same_frame ?w w1" "owned w1 {}" using w1(2) by (simp_all add: forwarded_def)
  have t1: "port_there w1 ?p" "forward_set w1 ?p = targets s" "ph_alloc (ss_heap w1) = ph_alloc (ss_heap ?w)"
    using fr frame_inv [OF fr(1) assms(1)] frame_views(1) [OF fr(1)] assms(3) forward_set_frame [OF fr(1)]
    by (simp_all add: port_there_def targets_def same_frame_def fun_eq_iff)
  have r1: "rested (v1, w1)" by (rule nocpy_rested [OF assms(6) n1])
  obtain v w where k: "soft_vport_in_kick (v1, w1) = Inr (v, w)" "quiet w1 w" "vp_port v = ?p"
    using kick_returns [of w1 v1] t1(1) p1 by (auto split: if_splits)
  have "\<not> asleep w" "rested (v, w)" using kick_wakes [OF r1 k(1)] by simp_all
  moreover have "hand_to_switch n s = Inr (s\<lparr>as_vport := v, as_switch := w\<rparr>)"
    using n1 k(1) by (simp add: hand_to_switch_def)
  moreover have "avb_memory s \<longrightarrow> frames w1 = deliver (targets s (payload d)) (payload d) (frames ?w)"
    using w1(2) by (simp add: forwarded_def avb_memory_def targets_def)
  ultimately show ?thesis
    using quiet_there [OF k(2) t1(1)] t1(2,3) k(3) by (intro exI [of _ v] exI [of _ w]) simp
qed

text \<open>A new packet on the heap that goes to the switch.\<close>

lemma hand_new_packet:
  assumes "avb_ok s" "pkt_wf d" "dp_flags d = push_bit DATA_PKT_FLAG_CAN_FREE 1" "6 \<le> length (payload d)"
    and "n = ph_next (ss_heap (as_switch s))"
    and w1_def: "w1 = (as_switch s)\<lparr>ss_heap := (ss_heap (as_switch s))\<lparr>ph_next := Suc n,
        ph_pkts := (ph_pkts (ss_heap (as_switch s)))(n \<mapsto> d)\<rparr>\<rparr>"
  shows "\<exists>v w. hand_to_switch n (s\<lparr>as_switch := w1\<rparr>) = Inr (s\<lparr>as_vport := v, as_switch := w\<rparr>)
    \<and> avb_ok (s\<lparr>as_vport := v, as_switch := w\<rparr>)
    \<and> avb_memory (s\<lparr>as_vport := v, as_switch := w\<rparr>) = avb_memory s
    \<and> (avb_memory s \<longrightarrow> frames w = deliver (targets s (payload d)) (payload d) (frames (as_switch s)))
    \<and> targets (s\<lparr>as_vport := v, as_switch := w\<rparr>) = targets s"
proof -
  let ?w = "as_switch s" and ?p = "vp_port (as_vport s)"
  let ?h = "ss_heap ?w"
  have us: "switch_inv ?w" "owned ?w {}" "?p \<in> set (all_ports ?w)" "rested (as_vport s, ?w)"
    using assms(1) by (simp_all add: avb_ok_def port_there_def)
  have fl: "bit (dp_flags d) DATA_PKT_FLAG_CAN_FREE" "\<not> bit (dp_flags d) DATA_PKT_FLAG_STATIC_BUFF"
    by (simp_all add: assms(3) pkt_consts)
  have own: "owned w1 {n}" and new: "n \<notin> dom (ph_pkts ?h)"
    using owned_insert [OF us(2) _ assms(2) fl, of n] by (simp_all add: w1_def assms(5))
  have fr: "same_frame ?w w1" by (simp add: w1_def)
  have frm: "frames w1 = frames ?w"
    unfolding w1_def by (rule frames_same_heap [OF us(2)]) (use new in auto)
  let ?s1 = "s\<lparr>as_switch := w1\<rparr>"
  have r1: "rested (as_vport s, w1)"
    using us(4) frame_views(1) [OF fr] by (simp add: rested_def asleep_def the_port_def w1_def all_ports_def)
  obtain v w where vw: "hand_to_switch n ?s1 = Inr (?s1\<lparr>as_vport := v, as_switch := w\<rparr>)"
      "vp_port v = ?p" "port_there w ?p" "rested (v, w)" "\<not> asleep w"
      "ph_alloc (ss_heap w) = ph_alloc (ss_heap w1)"
      "avb_memory ?s1 \<longrightarrow> frames w = deliver (targets ?s1 (payload d)) (payload d) (frames w1)"
      "forward_set w ?p = targets ?s1"
    using hand_to_switch_step [of ?s1 n d] frame_inv [OF fr us(1)] own us(3) frame_views(1) [OF fr]
      assms(4) r1 by (auto simp: w1_def)
  have tgt: "targets ?s1 = targets s"
    using forward_set_frame [OF fr] by (simp add: targets_def fun_eq_iff)
  have mem: "ph_alloc (ss_heap w1) = ph_alloc ?h" by (simp add: w1_def)
  have "targets (s\<lparr>as_vport := v, as_switch := w\<rparr>) = targets s"
    using vw(2,8) tgt by (simp add: targets_def fun_eq_iff)
  then show ?thesis using vw tgt frm mem
    by (intro exI [of _ v] exI [of _ w]) (simp add: avb_ok_def avb_memory_def)
qed

text \<open>A failed allocation, or a packet given back at once.\<close>

lemma avb_bump:
  assumes "avb_ok s"
    and "s' = s\<lparr>as_switch := (as_switch s)\<lparr>ss_heap := (ss_heap (as_switch s))
      \<lparr>ph_next := Suc (ph_next (ss_heap (as_switch s)))\<rparr>\<rparr>\<rparr>"
  shows "avb_ok s'" "avb_memory s' = avb_memory s" "targets s' = targets s"
    "frames (as_switch s') = frames (as_switch s)"
proof -
  let ?w = "as_switch s" and ?p = "vp_port (as_vport s)"
  have own: "owned ?w {}" using assms(1) by (simp add: avb_ok_def port_there_def)
  have w: "as_switch s' = ?w\<lparr>ss_heap := (ss_heap ?w)\<lparr>ph_next := Suc (ph_next (ss_heap ?w))\<rparr>\<rparr>"
    by (simp add: assms(2))
  note n = alloc_nothing [OF own w]
  have th: "port_there ?w ?p" using assms(1) by (simp add: avb_ok_def)
  have "asleep (as_switch s') = asleep ?w" by (simp add: w asleep_def the_port_def)
  moreover have "as_vport s' = as_vport s" by (simp add: assms(2))
  ultimately show "avb_ok s'" "targets s' = targets s"
    using assms(1) same_frame_port [OF n(1) th n(2)] by (simp_all add: avb_ok_def rested_def targets_def fun_eq_iff)
  show "avb_memory s' = avb_memory s" by (simp add: avb_memory_def w)
  show "frames (as_switch s') = frames ?w" by (rule n(3))
qed

lemma count_rx_keeps:
  "avb_ok (count_rx s) = avb_ok s" "avb_memory (count_rx s) = avb_memory s" "targets (count_rx s) = targets s"
  by (simp_all add: count_rx_def on_stats_def avb_ok_def avb_memory_def targets_def fun_eq_iff)

lemma receive_frame_step:
  assumes "avb_ok s" "12 \<le> length bs" "length bs \<le> 1518"
    and al: "ph_alloc (ss_heap (as_switch s)) (ph_next (ss_heap (as_switch s)))"
    and f_def: "f = host_view conv (as_dev s) port is_ptp ts bs"
  shows "\<exists>s'. receive_one conv port is_ptp (Rx_Frame bs ts) s = Inr (True, s') \<and> avb_ok s'
    \<and> avb_memory s' = avb_memory s
    \<and> (avb_memory s \<longrightarrow> frames (as_switch s') = deliver (targets s f) f (frames (as_switch s)))
    \<and> targets s' = targets s \<and> as_calls s' = as_calls s \<and> as_mqueue s' = as_mqueue s
    \<and> as_dev s' = as_dev (count_rx s)"
proof -
  let ?w = "as_switch s" and ?c = "push_bit DATA_PKT_FLAG_CAN_FREE 1 :: u32"
  let ?h = "ss_heap ?w"
  let ?n = "ph_next ?h"
  define d where "d = filled 1518 bs ?c"
  have le: "length bs \<le> unat (1518 :: u32)" using assms(3) by simp
  have d: "payload d = bs" "dp_flags d = ?c" "pkt_wf d" "dp_data d = 128" "dp_tail d - dp_data d \<le> 2000"
    using filled_facts [OF le, of ?c] by (simp_all add: d_def) (simp_all add: filled_def fresh_pkt_def)
  obtain d' where d': "tag_received conv (as_dev s) port is_ptp ts d = Inr d'" "pkt_wf d'" "dp_flags d' = ?c"
      "payload d' = f"
    using tag_received_eq [OF d(3-5), of conv "as_dev s" port is_ptp ts] assms(2) d(1,2) by (auto simp: f_def)
  define w1 where "w1 = ?w\<lparr>ss_heap := ?h\<lparr>ph_next := Suc ?n, ph_pkts := (ph_pkts ?h)(?n \<mapsto> d')\<rparr>\<rparr>"
  let ?h1 = "?h\<lparr>ph_next := Suc ?n, ph_pkts := (ph_pkts ?h)(?n \<mapsto> fresh_pkt 1518 ?c)\<rparr>"
  have alloc: "data_pkt_alloc MAX_FRAME_LEN ?c ?h = Inr (Some ?n, ?h1)"
    using alloc_fresh [of ?h 1518 ?c] al by (simp add: MAX_FRAME_LEN_def)
  have "and_then (data_pkt_fill ?n bs ?h1) (data_pkt_set_len ?n (of_nat (length bs)))
      = Inr (?h1\<lparr>ph_pkts := (ph_pkts ?h1)(?n \<mapsto> d)\<rparr>)"
    using fill_fresh [of ?h1 ?n 1518 ?c bs] le by (simp add: d_def)
  then have fill: "and_then (data_pkt_fill ?n bs ?h1) (\<lambda>h. and_then (data_pkt_set_len ?n (of_nat (length bs)) h) g)
      = g (?h1\<lparr>ph_pkts := (ph_pkts ?h1)(?n \<mapsto> d)\<rparr>)" for g :: "pkt_heap \<Rightarrow> (bool \<times> avb_sys) outcome"
    by (simp flip: and_then_assoc)
  have tg: "on_pkt ?n (tag_received conv (as_dev s) port is_ptp ts) (?h1\<lparr>ph_pkts := (ph_pkts ?h1)(?n \<mapsto> d)\<rparr>)
      = Inr (ss_heap w1)"
    using d'(1) by (simp add: on_pkt_def w1_def)
  have w1s: "?w\<lparr>ss_heap := ss_heap w1\<rparr> = w1" by (simp add: w1_def)
  have "length bs \<le> length (payload d')" using host_view_length [OF assms(2)] by (simp add: d'(4) f_def)
  then have "6 \<le> length (payload d')" using assms(2) by linarith
  then obtain v w where vw: "hand_to_switch ?n (s\<lparr>as_switch := w1\<rparr>) = Inr (s\<lparr>as_vport := v, as_switch := w\<rparr>)"
      "avb_ok (s\<lparr>as_vport := v, as_switch := w\<rparr>)"
      "avb_memory (s\<lparr>as_vport := v, as_switch := w\<rparr>) = avb_memory s"
      "avb_memory s \<longrightarrow> frames w = deliver (targets s f) f (frames ?w)"
      "targets (s\<lparr>as_vport := v, as_switch := w\<rparr>) = targets s"
    using hand_new_packet [OF assms(1) d'(2,3) _ refl w1_def] d'(4) by auto
  have "receive_one conv port is_ptp (Rx_Frame bs ts) s = Inr (True, count_rx (s\<lparr>as_vport := v, as_switch := w\<rparr>))"
    unfolding receive_one_def alloc Let_def
    by (simp only: and_then.simps prod.case option.case rx_answer.case fill tg w1s vw(1))
  then show ?thesis
    using vw(2-5) count_rx_keeps [of "s\<lparr>as_vport := v, as_switch := w\<rparr>"]
    by (simp add: count_rx_def on_stats_def)
qed

text \<open>When no packet can be allocated the frame stays with the socket.\<close>

lemma receive_no_packet:
  assumes "avb_ok s" "\<not> ph_alloc (ss_heap (as_switch s)) (ph_next (ss_heap (as_switch s)))"
  shows "\<exists>s'. receive_one conv port is_ptp a s = Inr (False, s') \<and> avb_ok s'
    \<and> as_calls s' = as_calls s \<and> as_dev s' = as_dev s \<and> as_mqueue s' = as_mqueue s"
  using avb_bump(1) [OF assms(1) refl] assms(2) by (simp add: receive_one_def data_pkt_alloc_def Let_def)

lemma fresh_freed:
  assumes "heap_ok h" "ph_alloc h (ph_next h)" "0 < unat room" "unat room + 128 < 2 ^ 32"
    and "\<not> bit flags DATA_PKT_FLAG_STATIC_BUFF"
  shows "\<exists>h1. data_pkt_alloc room flags h = Inr (Some (ph_next h), h1) \<and>
    data_pkt_free (ph_next h) h1 = Inr (h\<lparr>ph_next := Suc (ph_next h)\<rparr>)"
proof -
  have "ph_pkts h (ph_next h) = None" using assms(1) by (cases "ph_pkts h (ph_next h)") (auto simp: heap_ok_def)
  then have "(ph_pkts h)(ph_next h := None) = ph_pkts h" by auto
  then show ?thesis
    using assms(5) by (simp add: alloc_fresh [OF assms(2-4)] data_pkt_free_def fresh_pkt_def)
qed

lemma receive_again_step:
  assumes "avb_ok s"
  shows "\<exists>s'. receive_one conv port is_ptp Rx_Again s = Inr (False, s') \<and> avb_ok s'
    \<and> frames (as_switch s') = frames (as_switch s)
    \<and> as_calls s' = as_calls s \<and> as_dev s' = as_dev s \<and> as_mqueue s' = as_mqueue s"
proof -
  let ?h = "ss_heap (as_switch s)"
  let ?s1 = "s\<lparr>as_switch := (as_switch s)\<lparr>ss_heap := ?h\<lparr>ph_next := Suc (ph_next ?h)\<rparr>\<rparr>\<rparr>"
  have hk: "heap_ok ?h" using assms by (simp add: avb_ok_def port_there_def owned_def)
  have "receive_one conv port is_ptp Rx_Again s = Inr (False, ?s1)"
  proof (cases "ph_alloc ?h (ph_next ?h)")
    case True
    then show ?thesis
      using fresh_freed [OF hk, of MAX_FRAME_LEN "push_bit DATA_PKT_FLAG_CAN_FREE 1"]
      by (auto simp: receive_one_def MAX_FRAME_LEN_def Let_def pkt_consts)
  next
    case False
    then show ?thesis by (simp add: receive_one_def data_pkt_alloc_def Let_def)
  qed
  then show ?thesis using avb_bump(1,4) [OF assms refl] by simp
qed

lemma host_view_dev: "av_flags dev' = av_flags dev \<Longrightarrow> host_view conv dev' = host_view conv dev"
  by (intro ext) (simp add: host_view_def Let_def)

lemma receive_rounds_deliver:
  assumes "avb_ok s" "\<forall>(f, t) \<in> set fs. 12 \<le> length f \<and> length f \<le> 1518"
  shows "\<exists>s'. receive_rounds conv port is_ptp (map (\<lambda>(f, t). Rx_Frame f t) fs) s = Inr s' \<and> avb_ok s'
    \<and> (avb_memory s \<longrightarrow> (\<forall>q. frames (as_switch s') q = frames (as_switch s) q @ filter (\<lambda>g. q \<in> targets s g)
         (map (\<lambda>(f, t). host_view conv (as_dev s) port is_ptp t f) fs))
       \<and> st_rx_pkts (av_priv_stats (as_dev s')) = st_rx_pkts (av_priv_stats (as_dev s)) + of_nat (length fs))
    \<and> as_mqueue s' = as_mqueue s"
  using assms
proof (induction fs arbitrary: s)
  case Nil
  obtain s' where "receive_one conv port is_ptp Rx_Again s = Inr (False, s')" "avb_ok s'"
      "frames (as_switch s') = frames (as_switch s)" "as_dev s' = as_dev s" "as_mqueue s' = as_mqueue s"
    using receive_again_step [OF Nil.prems(1)] by blast
  then show ?case by simp
next
  case (Cons x fs)
  obtain f t where x: "x = (f, t)" by (cases x)
  let ?g = "host_view conv (as_dev s) port is_ptp t f"
  show ?case
  proof (cases "ph_alloc (ss_heap (as_switch s)) (ph_next (ss_heap (as_switch s)))")
    case True
    obtain s1 where s1: "receive_one conv port is_ptp (Rx_Frame f t) s = Inr (True, s1)" "avb_ok s1"
        "avb_memory s1 = avb_memory s"
        "avb_memory s \<longrightarrow> frames (as_switch s1) = deliver (targets s ?g) ?g (frames (as_switch s))"
        "targets s1 = targets s" "as_dev s1 = as_dev (count_rx s)" "as_mqueue s1 = as_mqueue s"
      using receive_frame_step [of s f _ conv port is_ptp t] Cons.prems x True by auto
    have v: "host_view conv (as_dev s1) = host_view conv (as_dev s)"
      by (rule host_view_dev) (simp add: s1(6) count_rx_def on_stats_def)
    have r: "st_rx_pkts (av_priv_stats (as_dev s1)) = st_rx_pkts (av_priv_stats (as_dev s)) + 1"
      by (simp add: s1(6) count_rx_def on_stats_def)
    have fs: "\<forall>(f, t) \<in> set fs. 12 \<le> length f \<and> length f \<le> 1518" using Cons.prems(2) by simp
    show ?thesis using Cons.IH [OF s1(2) fs] s1(1,3-5,7) r v by (auto simp: x deliver_def add.assoc)
  next
    case False
    then have "\<not> avb_memory s" by (auto simp: avb_memory_def)
    then show ?thesis using receive_no_packet [OF Cons.prems(1) False, of conv port is_ptp "Rx_Frame f t"]
      by (auto simp: x)
  qed
qed

text \<open>
  C4: When the receive task serves an event, it hands the frames the socket holds to the switch:
  each with the tag of its port (a VLAN tag, or for PTP frames a DSA tag with both time stamps),
  in the order of arrival, so that each queue grows by exactly the frames forwarded to it, and
  counts them. This is given memory for every packet and copy; it holds for frames of 12 to 1518
  bytes (1518 is the size the task asks the library for), on a switch in order whose virtual
  port belongs to it, with no port asleep with frames to send (\<open>avb_ok\<close>). Also when
  memory runs out, the task ends without a fault, every packet is on exactly one queue, no port
  is left asleep, the event is consumed and the callback of the socket is enabled again.
\<close>

theorem avb_receive_delivers:
  assumes "avb_ok s" "as_mqueue s = (r, is_ptp) # es" "ref_port r (as_dev s) = Inr port"
    and "\<forall>(f, t) \<in> set fs. 12 \<le> length f \<and> length f \<le> 1518"
  shows "\<exists>s'. genavb_receive_pkts conv (map (\<lambda>(f, t). Rx_Frame f t) fs) s = Inr s' \<and> avb_ok s'
    \<and> ((\<forall>n. ph_alloc (ss_heap (as_switch s)) n) \<longrightarrow>
         (\<forall>q. frames (as_switch s') q = frames (as_switch s) q @ filter (\<lambda>g. q \<in> targets s g)
           (map (\<lambda>(f, t). host_view conv (as_dev s) port is_ptp t f) fs))
         \<and> st_rx_pkts (av_priv_stats (as_dev s')) = st_rx_pkts (av_priv_stats (as_dev s)) + of_nat (length fs))
    \<and> as_mqueue s' = es
    \<and> last (as_calls s') = Rx_Enable_Callback r (if is_ptp then Sock_Rx_Ptp else Sock_Rx)"
proof -
  let ?s = "s\<lparr>as_mqueue := es\<rparr>"
  have u: "avb_ok ?s" "targets ?s = targets s" "avb_memory ?s = (\<forall>n. ph_alloc (ss_heap (as_switch s)) n)"
    using assms(1) by (simp_all add: avb_ok_def targets_def fun_eq_iff avb_memory_def)
  obtain s' where s': "receive_rounds conv port is_ptp (map (\<lambda>(f, t). Rx_Frame f t) fs) ?s = Inr s'" "avb_ok s'"
      "avb_memory ?s \<longrightarrow> (\<forall>q. frames (as_switch s') q = frames (as_switch s) q @ filter (\<lambda>g. q \<in> targets s g)
         (map (\<lambda>(f, t). host_view conv (as_dev s) port is_ptp t f) fs))
         \<and> st_rx_pkts (av_priv_stats (as_dev s')) = st_rx_pkts (av_priv_stats (as_dev s)) + of_nat (length fs)"
      "as_mqueue s' = es"
    using receive_rounds_deliver [OF u(1) assms(4), of conv port is_ptp] u(2) by auto
  show ?thesis using s' u(3) by (auto simp: genavb_receive_pkts_def assms(2,3) avb_call_def avb_ok_def)
qed

fun consecutive :: "nat \<Rightarrow> (nat \<times> u8 list) list \<Rightarrow> bool" where
  "consecutive i [] \<longleftrightarrow> True"
| "consecutive i ((off, bs) # ws) \<longleftrightarrow> off = i \<and> consecutive (i + length bs) ws"

lemma store_all_eq:
  "consecutive i ws \<Longrightarrow> dp_data d + i + length (concat (map snd ws)) \<le> length (dp_buf d) \<Longrightarrow>
    store_all ws d = Inr (d\<lparr>dp_buf := take (dp_data d + i) (dp_buf d) @ concat (map snd ws)
      @ drop (dp_data d + i + length (concat (map snd ws))) (dp_buf d)\<rparr>)"
proof (induction ws arbitrary: i d)
  case (Cons w ws)
  obtain off bs where w: "w = (off, bs)" by (cases w)
  let ?i = "dp_data d + i"
  let ?d = "d\<lparr>dp_buf := take ?i (dp_buf d) @ bs @ drop (?i + length bs) (dp_buf d)\<rparr>"
  have st: "store_bytes off bs d = Inr ?d"
    using Cons.prems by (simp add: store_bytes_def w Let_def)
  have c: "consecutive (i + length bs) ws" using Cons.prems(1) by (simp add: w)
  have len: "length (dp_buf ?d) = length (dp_buf d)" using Cons.prems(2) by (simp add: w)
  have l: "dp_data ?d + (i + length bs) + length (concat (map snd ws)) \<le> length (dp_buf ?d)"
    using Cons.prems(2) by (simp add: w)
  have tk: "take (?i + length bs) (dp_buf ?d) = take ?i (dp_buf d) @ bs"
    using Cons.prems(2) by (simp add: w)
  have dr: "drop (?i + length bs + m) (dp_buf ?d) = drop (?i + length bs + m) (dp_buf d)" for m
    using Cons.prems(2) by (simp add: w add.commute)
  have "store_all ws ?d = Inr (?d\<lparr>dp_buf := take (dp_data ?d + (i + length bs)) (dp_buf ?d)
      @ concat (map snd ws) @ drop (dp_data ?d + (i + length bs) + length (concat (map snd ws))) (dp_buf ?d)\<rparr>)"
    by (rule Cons.IH [OF c l])
  then show ?case using st tk dr by (simp add: w add.assoc)
qed simp

text \<open>The frame with the time stamp, as the host reads it.\<close>

definition tx_ts_frame ::
    "(u64 \<Rightarrow> u64) \<Rightarrow> (u16 \<Rightarrow> u8 list) \<Rightarrow> avb_port \<Rightarrow> u64 \<Rightarrow> u32 \<Rightarrow> u8 list" where
  "tx_ts_frame conv hwaddr port ts ts_priv =
     [0x01, 0x80, 0xC2, 0, 0, 0x0E] @ hwaddr (ap_logical_port_id port)
     @ [0xDA, 0xDC, 0x08, ucast (ap_hardware_id port) AND 0xF]
     @ rev (le_bytes 8 (conv ts)) @ rev (le_bytes 8 ts) @ rev (le_bytes 4 (ucast ts_priv))"

lemma tx_ts_bytes:
  "le_bytes 2 (ucast (htons (DSA_TO_HOST_TX_TS_DEFAULT_DSA OR (hw AND DSA_TO_HOST_PORT_MASK))))
    = [0x08, ucast hw AND 0xF]"
proof -
  have z: "(0x0800 :: u8) = 0" by simp
  have "ucast (0x0800 OR (hw AND 0xF)) = (ucast hw AND 0xF :: u8)"
    by (simp add: unsigned_or_eq unsigned_and_eq z)
  moreover have "drop_bit 8 (0x0800 OR (hw AND 0xF)) = (0x08 :: u16)" by simp
  ultimately show ?thesis unfolding htons_bytes tag_consts unfolding u16_bytes by simp
qed

lemma tx_ts_header_facts:
  assumes "length (hwaddr (ap_logical_port_id port)) = 6"
    and ws_def: "ws = tx_ts_header conv hwaddr ts ts_priv (ap_hardware_id port) (ap_logical_port_id port)"
  shows "consecutive 0 ws" "concat (map snd ws) = tx_ts_frame conv hwaddr port ts ts_priv"
proof -
  have t: "le_bytes 2 (ucast (htons DSA_8021Q_TPID)) = [0xDA, 0xDC]"
    unfolding htons_bytes tag_consts unfolding u16_bytes by simp
  show "consecutive 0 ws" using assms(1) by (simp add: ws_def tx_ts_header_def ptp_multicast_addr_def)
  show "concat (map snd ws) = tx_ts_frame conv hwaddr port ts ts_priv"
    by (simp add: ws_def tx_ts_header_def tx_ts_frame_def ptp_multicast_addr_def t tx_ts_bytes
        htonll_bytes htonl_bytes)
qed

lemma handle_tx_ts_step:
  assumes "avb_ok s" "length (hwaddr (ap_logical_port_id port)) = 6"
    and f_def: "f = tx_ts_frame conv hwaddr port ts ts_priv"
  shows "\<exists>s'. handle_tx_ts conv hwaddr ts ts_priv (ap_hardware_id port) (ap_logical_port_id port) s = Inr s'
    \<and> avb_ok s' \<and> avb_memory s' = avb_memory s
    \<and> (avb_memory s \<longrightarrow> frames (as_switch s') = deliver (targets s f) f (frames (as_switch s))
       \<and> st_tx_ts_pkts (av_priv_stats (as_dev s')) = st_tx_ts_pkts (av_priv_stats (as_dev s)) + 1)
    \<and> targets s' = targets s \<and> as_ptp_ts_mqueue s' = as_ptp_ts_mqueue s"
proof (cases "ph_alloc (ss_heap (as_switch s)) (ph_next (ss_heap (as_switch s)))")
  case False
  then have "\<not> avb_memory s" by (auto simp: avb_memory_def)
  then show ?thesis using False avb_bump [OF assms(1) refl]
    by (simp add: handle_tx_ts_def data_pkt_alloc_def Let_def)
next
  case al: True
  let ?w = "as_switch s" and ?c = "push_bit DATA_PKT_FLAG_CAN_FREE 1 :: u32"
  let ?h = "ss_heap ?w" and ?ws = "tx_ts_header conv hwaddr ts ts_priv (ap_hardware_id port) (ap_logical_port_id port)"
  let ?n = "ph_next ?h"
  have fl: "length f = 36" using assms(2) by (simp add: f_def tx_ts_frame_def)
  let ?d = "(fresh_pkt 36 ?c)\<lparr>dp_data_len := 36\<rparr>"
  define d where "d = ?d\<lparr>dp_buf := replicate 128 0 @ f\<rparr>"
  let ?h1 = "?h\<lparr>ph_next := Suc ?n, ph_pkts := (ph_pkts ?h)(?n \<mapsto> fresh_pkt 36 ?c)\<rparr>"
  let ?h2 = "?h\<lparr>ph_next := Suc ?n, ph_pkts := (ph_pkts ?h)(?n \<mapsto> ?d)\<rparr>"
  define w1 where "w1 = ?w\<lparr>ss_heap := ?h\<lparr>ph_next := Suc ?n, ph_pkts := (ph_pkts ?h)(?n \<mapsto> d)\<rparr>\<rparr>"
  have alloc: "data_pkt_alloc (of_nat MAC_ADDR_TOTAL_LENGTH + DSA_TO_HOST_TX_TS_TAG_LEN) ?c ?h = Inr (Some ?n, ?h1)"
    using alloc_fresh [of ?h 36 ?c] al by (simp add: tag_consts)
  have "data_pkt_set_len ?n (of_nat MAC_ADDR_TOTAL_LENGTH + DSA_TO_HOST_TX_TS_TAG_LEN) ?h1 = Inr ?h2"
    by (simp add: data_pkt_set_len_def tag_consts)
  moreover have "store_all ?ws ?d = Inr d"
    using store_all_eq [OF tx_ts_header_facts(1) [of hwaddr port ?ws conv ts ts_priv], of ?d] assms(2) fl
      tx_ts_header_facts(2) [of hwaddr port ?ws conv ts ts_priv]
    by (simp add: fresh_pkt_def d_def f_def)
  then have "on_pkt ?n (store_all ?ws) ?h2 = Inr (ss_heap w1)"
    by (simp add: on_pkt_def w1_def)
  moreover have w1s: "?w\<lparr>ss_heap := ss_heap w1\<rparr> = w1" by (simp add: w1_def)
  moreover have d: "pkt_wf d" "dp_flags d = ?c" "payload d = f"
    using fl by (simp_all add: d_def fresh_pkt_def pkt_wf_def payload_def pkt_consts)
  moreover obtain v w where vw: "hand_to_switch ?n (s\<lparr>as_switch := w1\<rparr>) = Inr (s\<lparr>as_vport := v, as_switch := w\<rparr>)"
      "avb_ok (s\<lparr>as_vport := v, as_switch := w\<rparr>)"
      "avb_memory (s\<lparr>as_vport := v, as_switch := w\<rparr>) = avb_memory s"
      "avb_memory s \<longrightarrow> frames w = deliver (targets s f) f (frames ?w)"
      "targets (s\<lparr>as_vport := v, as_switch := w\<rparr>) = targets s"
    using hand_new_packet [OF assms(1) d(1,2) _ refl w1_def] d(3) fl by auto
  ultimately have "handle_tx_ts conv hwaddr ts ts_priv (ap_hardware_id port) (ap_logical_port_id port) s
      = Inr (on_stats (\<lambda>t. t\<lparr>st_tx_ts_pkts := st_tx_ts_pkts t + 1\<rparr>) (s\<lparr>as_vport := v, as_switch := w\<rparr>))"
    unfolding handle_tx_ts_def alloc Let_def
    by (simp only: and_then.simps prod.case option.case)
  moreover have "avb_ok (on_stats g (s\<lparr>as_vport := v, as_switch := w\<rparr>))
      \<and> avb_memory (on_stats g (s\<lparr>as_vport := v, as_switch := w\<rparr>)) = avb_memory s
      \<and> targets (on_stats g (s\<lparr>as_vport := v, as_switch := w\<rparr>)) = targets s" for g
    using vw(2,3,5) by (simp add: avb_ok_def avb_memory_def targets_def fun_eq_iff on_stats_def)
  ultimately show ?thesis
    using vw(4) by (auto simp: on_stats_def)
qed

lemma handle_stamps_deliver:
  assumes "avb_ok s" "length (hwaddr (ap_logical_port_id port)) = 6"
  shows "\<exists>s'. handle_stamps conv hwaddr port ws s = Inr s' \<and> avb_ok s'
    \<and> (avb_memory s \<longrightarrow> (\<forall>q. frames (as_switch s') q = frames (as_switch s) q @ filter (\<lambda>g. q \<in> targets s g)
         (map (\<lambda>(ts, i). tx_ts_frame conv hwaddr port ts i) ws))
       \<and> st_tx_ts_pkts (av_priv_stats (as_dev s')) = st_tx_ts_pkts (av_priv_stats (as_dev s)) + of_nat (length ws))
    \<and> as_ptp_ts_mqueue s' = as_ptp_ts_mqueue s"
  using assms(1)
proof (induction ws arbitrary: s)
  case (Cons x ws)
  obtain ts i where x: "x = (ts, i)" by (cases x)
  let ?f = "tx_ts_frame conv hwaddr port ts i"
  obtain s1 where s1: "handle_tx_ts conv hwaddr ts i (ap_hardware_id port) (ap_logical_port_id port) s = Inr s1"
      "avb_ok s1" "avb_memory s1 = avb_memory s" "targets s1 = targets s"
      "avb_memory s \<longrightarrow> frames (as_switch s1) = deliver (targets s ?f) ?f (frames (as_switch s))
         \<and> st_tx_ts_pkts (av_priv_stats (as_dev s1)) = st_tx_ts_pkts (av_priv_stats (as_dev s)) + 1"
      "as_ptp_ts_mqueue s1 = as_ptp_ts_mqueue s"
    using handle_tx_ts_step [of s hwaddr port ?f conv ts i] Cons.prems assms(2) by blast
  show ?case using Cons.IH [OF s1(2)] s1(1,3-6) by (auto simp: x deliver_def add.assoc)
qed simp

text \<open>
  C20: Time stamps go back to the host: given memory for every packet and copy, the stamps the
  library has for a port go to the host side in their order, each in a frame from which the host
  reads, at fixed offsets and in network order, the port's number, the converted and the raw
  time and the identifier under which it asked; each queue grows by exactly the frames forwarded
  to it and the stamps are counted. The switch is in order and no port is asleep with frames
  (\<open>avb_ok\<close>); the library's hardware address of the port has six bytes. Also when
  memory runs out, where the stamp of a failed allocation is lost, the task ends without a
  fault, every packet is on exactly one queue, no port is left asleep, the event is consumed and
  the callback is enabled again.
\<close>

theorem tx_stamps_reach_host:
  assumes "avb_ok s" "as_ptp_ts_mqueue s = r # es" "ref_port r (as_dev s) = Inr port"
    and "length (hwaddr (ap_logical_port_id port)) = 6"
  shows "\<exists>s'. genavb_retrieve_ptp_ts conv hwaddr ws s = Inr s' \<and> avb_ok s' \<and> as_ptp_ts_mqueue s' = es
    \<and> ((\<forall>n. ph_alloc (ss_heap (as_switch s)) n) \<longrightarrow>
         (\<forall>q. frames (as_switch s') q = frames (as_switch s) q @ filter (\<lambda>g. q \<in> targets s g)
           (map (\<lambda>(ts, i). tx_ts_frame conv hwaddr port ts i) ws))
         \<and> st_tx_ts_pkts (av_priv_stats (as_dev s')) = st_tx_ts_pkts (av_priv_stats (as_dev s)) + of_nat (length ws))
    \<and> last (as_calls s') = Tx_Enable_Callback r Sock_Tx_Ptp"
proof -
  let ?s = "s\<lparr>as_ptp_ts_mqueue := es\<rparr>"
  have u: "avb_ok ?s" "targets ?s = targets s" "avb_memory ?s = (\<forall>n. ph_alloc (ss_heap (as_switch s)) n)"
    using assms(1) by (simp_all add: avb_ok_def targets_def fun_eq_iff avb_memory_def)
  then show ?thesis
    using handle_stamps_deliver [of ?s hwaddr port conv ws] assms(4)
    by (auto simp: genavb_retrieve_ptp_ts_def assms(2,3) avb_call_def avb_ok_def)
qed

subsection \<open>Concrete instances\<close>

definition ex_avb_dev :: gen_avb_device where
  "ex_avb_dev = zero_dev\<lparr>av_flags := 0x2C, av_bridge_port_num := 2,
     av_bridge_port := [zero_port\<lparr>ap_is_bridge_port := True, ap_hardware_id := 5\<rparr>,
       zero_port\<lparr>ap_is_bridge_port := True, ap_bridge_port_index := 1, ap_hardware_id := 6\<rparr>, zero_port, zero_port]\<rparr>"

definition ex_avb :: avb_sys where
  "ex_avb = \<lparr>as_dev = ex_avb_dev, as_vport = \<lparr>vp_in_count = 0, vp_in_threshhold = 1, vp_port = 0\<rparr>,
     as_switch = ex_switch (\<lambda>_. None), as_mqueue = [((True, 1), True)], as_ptp_ts_mqueue = [(True, 0)],
     as_calls = [], as_tx_ok = (\<lambda>_. True)\<rparr>"

lemma ex_avb_ok: "avb_ok ex_avb" "ph_alloc (ss_heap (as_switch ex_avb)) n"
proof -
  have "\<not> asleep (ex_switch (\<lambda>_. None))"
    by (auto simp: asleep_def the_port_def ex_port_def blank_port_def)
  then show "avb_ok ex_avb" "ph_alloc (ss_heap (as_switch ex_avb)) n"
    using ex_switch_usable by (simp_all add: avb_ok_def ex_avb_def rested_def port_usable_eq port_open_def)
qed

lemma host_frame_reaches_its_port_witness:
  "genavb_host_to_sw_stack (filled 64 (host_dsa_frame (ex_mac 1 @ ex_mac 2) 0x88 6 7 [1, 2, 3]) 1) ex_avb
    = Inr (sent (avb_call (Socket_Tx_Send (True, 1) (ex_mac 1 @ ex_mac 2 @ [1, 2, 3]) 7) ex_avb))"
proof -
  let ?f = "host_dsa_frame (ex_mac 1 @ ex_mac 2) 0x88 6 7 [1, 2, 3]" and ?d = "filled 64 (host_dsa_frame (ex_mac 1 @ ex_mac 2) 0x88 6 7 [1, 2, 3]) 1"
  have l: "length ?f \<le> unat (64 :: u32)" by (simp add: host_dsa_frame_def ex_mac_def)
  have d: "pkt_wf ?d" "payload ?d = ?f" using filled_facts [OF l, of 1] by simp_all
  have b: "bit (0x88 :: u8) 3" "\<not> bit (0x88 :: u8) 6" by (simp_all add: bit_simps)
  have fl: "bit (av_flags (as_dev ex_avb)) GENAVB_PORT_FLAGS_TX_REMOVE_DSA"
      "bit (av_flags (as_dev ex_avb)) GENAVB_PORT_FLAGS_PTP_SOCKET"
    by (simp_all add: ex_avb_def ex_avb_dev_def GENAVB_PORT_FLAGS_TX_REMOVE_DSA_def
        GENAVB_PORT_FLAGS_PTP_SOCKET_def bit_simps)
  have ok: "dev_ok (as_dev ex_avb)"
    by (simp add: dev_ok_def ex_avb_def ex_avb_dev_def zero_dev_def CFG_EP_NUM_def CFG_BRIDGE_NUM_def)
  have idx: "port_index (as_dev ex_avb) (ucast ((6 :: u8) AND 0xF)) = Some 1"
  proof -
    have "[0..<unat (2 :: u8)] = [0, 1]" by (simp add: upt_rec)
    moreover have "ucast ((6 :: u8) AND 0xF) = (6 :: u16)" by simp
    ultimately show ?thesis by (simp add: port_index_def ex_avb_def ex_avb_dev_def)
  qed
  have a: "length (ex_mac 1 @ ex_mac 2) = 12" "[1, 2, 3 :: u8] \<noteq> []" by (simp_all add: ex_mac_def)
  show ?thesis
    using host_frame_reaches_its_port [OF ok d(1) a d(2) b(2) fl(1)]
    by (simp only: idx option.case b(1) fl(2) simp_thms if_True append_assoc)
qed

lemma avb_receive_delivers_witness:
  "\<exists>s'. genavb_receive_pkts (\<lambda>t. t + 1) [Rx_Frame (ex_bcast @ ex_mac 9) 4] ex_avb = Inr s'
    \<and> avb_ok s' \<and> as_mqueue s' = [] \<and> st_rx_pkts (av_priv_stats (as_dev s')) = 1"
  using avb_receive_delivers [OF ex_avb_ok(1), of "(True, 1)" True "[]" "av_bridge_port ex_avb_dev ! 1"
      "[(ex_bcast @ ex_mac 9, 4)]" "\<lambda>t. t + 1"]
  using ex_avb_ok(2)
  by (auto simp: ex_avb_def ref_port_def ex_avb_dev_def zero_dev_def ex_bcast_def ex_mac_def)

lemma tx_stamps_reach_host_witness:
  "\<exists>s'. genavb_retrieve_ptp_ts (\<lambda>t. t + 1) (\<lambda>_. ex_mac 3) [(10, 1), (20, 2)] ex_avb = Inr s'
    \<and> avb_ok s' \<and> as_ptp_ts_mqueue s' = [] \<and> st_tx_ts_pkts (av_priv_stats (as_dev s')) = 2"
  using tx_stamps_reach_host [OF ex_avb_ok(1), of "(True, 0)" "[]" "av_bridge_port ex_avb_dev ! 0"
      "\<lambda>_. ex_mac 3" "\<lambda>t. t + 1" "[(10, 1), (20, 2)]"]
  using ex_avb_ok(2)
  by (auto simp: ex_avb_def ref_port_def ex_avb_dev_def zero_dev_def ex_mac_def)

end
