(* ===== verification/Ptp_Init.thy ===== *)
theory Ptp_Init
  imports Ptp_Stack
begin


text \<open>
  Set-up of the sockets of the GenAVB ports and initialisation of the device, the last part of
  \<open>src/net/ptp_stack/ptp_multisoc_stack.c\<close>, with the error paths that take everything back.
\<close>


subsection \<open>Sockets and initialisation\<close>

text \<open>
  The library's side of the set-up: the sockets it has open, the calls made and what they answered, and
  whether the call of each number succeeds.
\<close>

datatype setup_call = Sock_Open | Sock_Set_Callback | Sock_Close

record avb_lib =
  al_sockets :: "(port_ref \<times> avb_socket) set"
  al_log :: "((setup_call \<times> port_ref \<times> avb_socket) \<times> bool) list"
  al_ok :: "nat \<Rightarrow> bool"

definition lib_call :: "setup_call \<Rightarrow> port_ref \<Rightarrow> avb_socket \<Rightarrow> avb_lib \<Rightarrow> bool \<times> avb_lib" where
  "lib_call c r k l =
     (let ok = al_ok l (length (al_log l)); l1 = l\<lparr>al_log := al_log l @ [((c, r, k), ok)]\<rparr>
      in case c of
           Sock_Open \<Rightarrow> (ok, if ok then l1\<lparr>al_sockets := insert (r, k) (al_sockets l1)\<rparr> else l1)
         | Sock_Set_Callback \<Rightarrow> (ok, l1)
         | Sock_Close \<Rightarrow> (ok, l1\<lparr>al_sockets := al_sockets l1 - {(r, k)}\<rparr>))"

definition set_open :: "avb_socket \<Rightarrow> bool \<Rightarrow> avb_port \<Rightarrow> avb_port" where
  "set_open k b p = p\<lparr>ap_open := (ap_open p)(k := b)\<rparr>"

text \<open>
  One socket of \<open>port_genavb_setup_sockets\<close>: it is opened, its callback is set when it has one, and only
  then its flag.
\<close>

definition setup_one :: "port_ref \<Rightarrow> avb_socket \<times> bool \<Rightarrow> avb_port \<times> avb_lib \<Rightarrow> bool \<times> avb_port \<times> avb_lib" where
  "setup_one r c x =
     (let (k, has_cb) = c; (p, l) = x; (ok, l1) = lib_call Sock_Open r k l
      in if \<not> ok then (False, p, l1)
         else if \<not> has_cb then (True, set_open k True p, l1)
         else let (ok, l2) = lib_call Sock_Set_Callback r k l1
          in if \<not> ok then (False, p, l2) else (True, set_open k True p, l2))"

fun setup_list ::
    "port_ref \<Rightarrow> (avb_socket \<times> bool) list \<Rightarrow> avb_port \<times> avb_lib \<Rightarrow> bool \<times> avb_port \<times> avb_lib" where
  "setup_list r [] x = (True, x)"
| "setup_list r (c # cs) x = (let (ok, x1) = setup_one r c x in if ok then setup_list r cs x1 else (False, x1))"

fun close_flagged :: "port_ref \<Rightarrow> avb_socket list \<Rightarrow> avb_port \<times> avb_lib \<Rightarrow> avb_port \<times> avb_lib" where
  "close_flagged r [] x = x"
| "close_flagged r (k # ks) x =
     (let (p, l) = x
      in if ap_open p k then close_flagged r ks (set_open k False p, snd (lib_call Sock_Close r k l))
         else close_flagged r ks x)"

definition port_genavb_setup_sockets ::
    "port_ref \<Rightarrow> bool \<Rightarrow> avb_port \<times> avb_lib \<Rightarrow> int \<times> avb_port \<times> avb_lib" where
  "port_genavb_setup_sockets r enable_ptp x =
     (let (ok, x1) = setup_list r ([(Sock_Tx, False), (Sock_Rx, True)]
            @ (if enable_ptp then [(Sock_Tx_Ptp, True), (Sock_Rx_Ptp, True)] else [])) x
      in if ok then (0, x1) else (-1, close_flagged r [Sock_Tx, Sock_Rx, Sock_Tx_Ptp, Sock_Rx_Ptp] x1))"

text \<open>The sockets of one port that are open.\<close>

definition open_of :: "port_ref \<Rightarrow> avb_lib \<Rightarrow> avb_socket set" where
  "open_of r l = {k. (r, k) \<in> al_sockets l}"

definition cb_failed :: "port_ref \<Rightarrow> avb_lib \<Rightarrow> avb_socket set" where
  "cb_failed r l = {k. ((Sock_Set_Callback, r, k), False) \<in> set (al_log l)}"

definition flagged :: "avb_port \<Rightarrow> avb_socket set" where
  "flagged p = {k. ap_open p k}"

definition others_kept :: "port_ref \<Rightarrow> avb_lib \<Rightarrow> avb_lib \<Rightarrow> bool" where
  "others_kept r l l' \<longleftrightarrow> (\<forall>r'. r' \<noteq> r \<longrightarrow>
     open_of r' l' = open_of r' l \<and> cb_failed r' l' = cb_failed r' l)"

lemma setup_one_facts:
  assumes "setup_one r (k, cb) (p, l) = (ok, p', l')"
  shows "others_kept r l l' \<and> cb_failed r l \<subseteq> cb_failed r l' \<and>
    (if ok then flagged p' = insert k (flagged p) \<and> open_of r l' = insert k (open_of r l)
        \<and> cb_failed r l' = cb_failed r l
     else flagged p' = flagged p \<and>
       (open_of r l' = open_of r l \<and> cb_failed r l' = cb_failed r l
        \<or> open_of r l' = insert k (open_of r l) \<and> cb_failed r l' = insert k (cb_failed r l)))"
  using assms
  by (auto simp: setup_one_def lib_call_def Let_def others_kept_def open_of_def cb_failed_def flagged_def
      set_open_def split: if_splits)

lemma setup_list_facts:
  assumes "setup_list r cs (p, l) = (ok, p', l')" "flagged p = open_of r l" "cb_failed r l = {}"
    and "distinct (map fst cs)" "flagged p \<inter> fst ` set cs = {}"
  shows "others_kept r l l' \<and> flagged p' \<inter> cb_failed r l' = {} \<and>
    (if ok then flagged p' = flagged p \<union> fst ` set cs \<and> open_of r l' = flagged p' \<and> cb_failed r l' = {}
     else flagged p' \<subseteq> flagged p \<union> fst ` set cs \<and> open_of r l' = flagged p' \<union> cb_failed r l')"
  using assms
proof (induction cs arbitrary: p l)
  case Nil
  then show ?case by (auto simp: others_kept_def)
next
  case (Cons c cs)
  obtain k cb where c: "c = (k, cb)" by (cases c)
  obtain ok1 p1 l1 where one: "setup_one r (k, cb) (p, l) = (ok1, p1, l1)" by (metis prod_cases3)
  note f = setup_one_facts [OF one]
  show ?case
  proof (cases ok1)
    case True
    have "setup_list r cs (p1, l1) = (ok, p', l')" using Cons.prems(1) one True by (simp add: c)
    from Cons.IH [OF this] show ?thesis
      using f True Cons.prems(2-5) by (auto simp: c others_kept_def split: if_splits)
  next
    case False
    then have "ok = False" "p' = p1" "l' = l1" using Cons.prems(1) one by (simp_all add: c)
    then show ?thesis using f False Cons.prems(2-5) by (auto simp: c)
  qed
qed

lemma close_flagged_facts:
  assumes "close_flagged r ks (p, l) = (p', l')"
  shows "flagged p' = flagged p - set ks \<and> open_of r l' = open_of r l - (flagged p \<inter> set ks)
    \<and> cb_failed r l' = cb_failed r l \<and> others_kept r l l'"
  using assms
proof (induction ks arbitrary: p l)
  case Nil
  then show ?case by (auto simp: others_kept_def)
next
  case (Cons k ks)
  show ?case
  proof (cases "ap_open p k")
    case True
    let ?p = "set_open k False p" and ?l = "snd (lib_call Sock_Close r k l)"
    have "close_flagged r ks (?p, ?l) = (p', l')" using Cons.prems True by simp
    note ih = Cons.IH [OF this]
    have fl: "flagged ?p = flagged p - {k}" "k \<in> flagged p" using True by (auto simp: flagged_def set_open_def)
    have op: "open_of r ?l = open_of r l - {k}" "cb_failed r ?l = cb_failed r l" "others_kept r l ?l"
      by (auto simp: open_of_def lib_call_def Let_def cb_failed_def others_kept_def)
    show ?thesis using ih fl op by (auto simp: others_kept_def)
  next
    case False
    then have "close_flagged r ks (p, l) = (p', l')" "k \<notin> flagged p"
      using Cons.prems by (simp_all add: flagged_def)
    then show ?thesis using Cons.IH [of p l] by auto
  qed
qed

text \<open>
  Setting up the sockets of a port is all or nothing, but for one leak: on success exactly the
  sockets asked for are open and flagged; on failure no flag is left, and a socket stays open only when
  the registration of its own callback failed.
\<close>

lemma socket_setup_unwinds:
  assumes "port_genavb_setup_sockets r enable_ptp (p, l) = (rc, p', l')"
    and "flagged p = {}" "open_of r l = {}" "cb_failed r l = {}"
  shows "(rc = 0 \<and> flagged p' = (if enable_ptp then UNIV else {Sock_Tx, Sock_Rx}) \<and> open_of r l' = flagged p'
        \<and> cb_failed r l' = {}
      \<or> rc = -1 \<and> flagged p' = {} \<and> open_of r l' = cb_failed r l')
    \<and> others_kept r l l'"
proof -
  let ?cs = "[(Sock_Tx, False), (Sock_Rx, True)]
    @ (if enable_ptp then [(Sock_Tx_Ptp, True), (Sock_Rx_Ptp, True)] else [])"
  have univ: "(UNIV :: avb_socket set) = {Sock_Tx, Sock_Rx, Sock_Tx_Ptp, Sock_Rx_Ptp}"
    using avb_socket.exhaust by blast
  obtain ok p1 l1 where s: "setup_list r ?cs (p, l) = (ok, p1, l1)" by (metis prod_cases3)
  have img: "fst ` set ?cs = (if enable_ptp then UNIV else {Sock_Tx, Sock_Rx})" "distinct (map fst ?cs)"
    by (cases enable_ptp; simp add: univ insert_commute)+
  note f = setup_list_facts [OF s _ assms(4) img(2)]
  show ?thesis
  proof (cases ok)
    case True
    then have "rc = 0" "p' = p1" "l' = l1"
      using assms(1) s by (simp_all add: port_genavb_setup_sockets_def Let_def)
    then show ?thesis using f True assms(2-4) unfolding img by (auto simp: others_kept_def)
  next
    case False
    then have rc: "rc = -1" and c: "close_flagged r [Sock_Tx, Sock_Rx, Sock_Tx_Ptp, Sock_Rx_Ptp] (p1, l1) = (p', l')"
      using assms(1) s unfolding port_genavb_setup_sockets_def by (simp_all add: Let_def)
    have "flagged p1 - {Sock_Tx, Sock_Rx, Sock_Tx_Ptp, Sock_Rx_Ptp} = {}" using univ by blast
    moreover have "flagged p1 \<inter> {Sock_Tx, Sock_Rx, Sock_Tx_Ptp, Sock_Rx_Ptp} = flagged p1" using univ by blast
    moreover have "flagged p1 \<inter> cb_failed r l1 = {}" "open_of r l1 = flagged p1 \<union> cb_failed r l1"
        "others_kept r l l1"
      using f False assms(2,3) by auto
    ultimately show ?thesis
      using rc close_flagged_facts [OF c] by (auto simp: others_kept_def)
  qed
qed

text \<open>
  The configuration of a device, and the operations that pass a call on. The switch reads the link of the
  device through the pointer it got at initialisation, so that both change together.
\<close>

record genavb_port_cfg =
  gc_name :: string
  gc_is_hostport :: bool
  gc_mac_addr :: mac
  gc_host_mac :: mac
  gc_ep_port_num :: u8
  gc_ep_port_id :: "u16 list"
  gc_bridge_port_num :: u8
  gc_bridge_port_id :: "(u16 \<times> u16) list"
  gc_gptp_clock_id :: u16
  gc_flags :: u32

definition port_genavb_link_up :: "bool \<Rightarrow> avb_sys \<Rightarrow> avb_sys" where
  "port_genavb_link_up up s = s\<lparr>as_dev := (as_dev s)\<lparr>av_link_up := up\<rparr>,
     as_switch := upd_port (vp_port (as_vport s)) (\<lambda>x. x\<lparr>sp_dev_end_on := up\<rparr>) (as_switch s)\<rparr>"

definition port_genavb_setup_host_mac :: "mac \<Rightarrow> avb_sys \<Rightarrow> avb_sys" where
  "port_genavb_setup_host_mac m s = s\<lparr>as_dev := (as_dev s)\<lparr>av_host_mac := take MAC_ADDR_LEN m\<rparr>\<rparr>"

definition port_genavb_update_addr :: "mac \<Rightarrow> avb_sys \<Rightarrow> avb_sys outcome" where
  "port_genavb_update_addr m s =
     and_then (soft_vport_update_addr m (as_vport s, as_switch s)) (\<lambda>w. Inr (s\<lparr>as_switch := w\<rparr>))"

definition port_genavb_add_fdb_entry :: "bool \<Rightarrow> mac \<Rightarrow> avb_sys \<Rightarrow> (int \<times> avb_sys) outcome" where
  "port_genavb_add_fdb_entry alloc m s =
     and_then (soft_vport_add_fdb_entry alloc m (as_vport s, as_switch s)) (\<lambda>(r, w). Inr (r, s\<lparr>as_switch := w\<rparr>))"

definition port_genavb_remove_fdb_entry :: "mac \<Rightarrow> avb_sys \<Rightarrow> (int \<times> avb_sys) outcome" where
  "port_genavb_remove_fdb_entry m s =
     and_then (soft_vport_remove_fdb_entry m (as_vport s, as_switch s)) (\<lambda>(r, w). Inr (r, s\<lparr>as_switch := w\<rparr>))"

text \<open>The first loop over the endpoint ports: \<open>n\<close> are left, \<open>i\<close> is the next.\<close>

fun init_endpoints :: "u16 list \<Rightarrow> nat \<Rightarrow> nat \<Rightarrow> avb_port list \<Rightarrow> avb_port list outcome" where
  "init_endpoints ids 0 i ps = Inr ps"
| "init_endpoints ids (Suc n) i ps =
     and_then (arr_get ids i) (\<lambda>x. and_then (arr_get ps i) (\<lambda>p.
     and_then (arr_set ps i (p\<lparr>ap_logical_port_id := x, ap_is_bridge_port := False\<rparr>))
       (init_endpoints ids n (Suc i))))"

text \<open>The loops that set up the sockets; \<open>conf\<close> is what a loop does to the port before.\<close>

fun socket_loop :: "bool \<Rightarrow> bool \<Rightarrow> (nat \<Rightarrow> avb_port \<Rightarrow> avb_port outcome) \<Rightarrow> nat \<Rightarrow> nat \<Rightarrow>
    avb_port list \<times> avb_lib \<Rightarrow> (bool \<times> avb_port list \<times> avb_lib) outcome" where
  "socket_loop br ptp conf 0 i x = Inr (True, x)"
| "socket_loop br ptp conf (Suc n) i x =
     (let (ps, l) = x in
      and_then (arr_get ps i) (\<lambda>p. and_then (conf i p) (\<lambda>p1.
        let (rc, p2, l2) = port_genavb_setup_sockets (br, i) ptp (p1, l)
        in if rc \<noteq> 0 then Inr (False, ps[i := p2], l2)
           else socket_loop br ptp conf n (Suc i) (ps[i := p2], l2))))"

definition conf_bridge :: "(u16 \<times> u16) list \<Rightarrow> nat \<Rightarrow> avb_port \<Rightarrow> avb_port outcome" where
  "conf_bridge ids i p =
     and_then (arr_get ids i) (\<lambda>(logical, hw).
       Inr (p\<lparr>ap_bridge_port_index := of_nat i, ap_is_bridge_port := True, ap_logical_port_id := logical,
              ap_hardware_id := hw\<rparr>))"

text \<open>The error path: sockets whose flag is set are closed; the device is freed afterwards.\<close>

fun close_open :: "port_ref \<Rightarrow> avb_port \<Rightarrow> avb_socket list \<Rightarrow> avb_lib \<Rightarrow> avb_lib" where
  "close_open r p [] l = l"
| "close_open r p (k # ks) l = close_open r p ks (if ap_open p k then snd (lib_call Sock_Close r k l) else l)"

fun close_loop ::
    "bool \<Rightarrow> avb_socket list \<Rightarrow> avb_port list \<Rightarrow> nat \<Rightarrow> nat \<Rightarrow> avb_lib \<Rightarrow> avb_lib outcome" where
  "close_loop br ks ps 0 i l = Inr l"
| "close_loop br ks ps (Suc n) i l =
     and_then (arr_get ps i) (\<lambda>p. close_loop br ks ps n (Suc i) (close_open (br, i) p ks l))"

definition init_err :: "genavb_port_cfg \<Rightarrow> gen_avb_device \<Rightarrow> avb_lib \<Rightarrow> avb_lib outcome" where
  "init_err cfg dev l =
     and_then (close_loop False [Sock_Tx, Sock_Rx] (av_endpoint_port dev) (unat (gc_ep_port_num cfg)) 0 l)
       (close_loop True [Sock_Tx, Sock_Rx, Sock_Tx_Ptp, Sock_Rx_Ptp] (av_bridge_port dev)
          (unat (gc_bridge_port_num cfg)) 0)"

definition vport_cfg_of :: "genavb_port_cfg \<Rightarrow> bool \<Rightarrow> soft_vport_cfg" where
  "vport_cfg_of cfg up = \<lparr>vc_name = take 19 (gc_name cfg), vc_mac_addr = take MAC_ADDR_LEN (gc_mac_addr cfg),
     vc_link_up = Some up, vc_in_threshhold = 1,
     vc_flags = (if bit (gc_flags cfg) GENAVB_PORT_FLAGS_LOCAL_PORT then SW_VPORT_FLAGS_LOCAL_PORT else 0),
     vc_port_out_cb = True, vc_print_priv_stats = True\<rparr>"

text \<open>
  \<open>mq_ok\<close> and \<open>ts_mq_ok\<close> are whether the queues of the device can be had, \<open>thread_ok\<close> whether its tasks;
  the other conditions are those of \<open>soft_vport_init\<close>. The result is \<open>None\<close> for the null pointer.
\<close>

definition port_genavb_init ::
    "bool \<Rightarrow> bool \<Rightarrow> bool \<Rightarrow> bool \<Rightarrow> bool \<times> bool \<times> bool \<times> bool \<Rightarrow> (nat \<Rightarrow> bool) \<Rightarrow> genavb_port_cfg \<Rightarrow>
       switch_sys \<times> avb_lib \<Rightarrow> (avb_sys option \<times> avb_lib) outcome" where
  "port_genavb_init alloc mq_ok ts_mq_ok thread_ok vp_ok tx_ok cfg x =
     (let (w, l) = x; fail = (\<lambda>dev l. and_then (init_err cfg dev l) (\<lambda>l. Inr (None, l))) in
      os_assert alloc (
      if \<not> mq_ok then fail zero_dev l
      else and_then (init_endpoints (gc_ep_port_id cfg) (unat (gc_ep_port_num cfg)) 0 (av_endpoint_port zero_dev))
      (\<lambda>eps. let ptp = bit (gc_flags cfg) GENAVB_PORT_FLAGS_PTP_SOCKET;
         dev = zero_dev\<lparr>av_is_hostport := gc_is_hostport cfg, av_ep_port_num := gc_ep_port_num cfg,
                 av_endpoint_port := eps, av_flags := gc_flags cfg\<rparr>
       in if ptp \<and> \<not> ts_mq_ok then fail dev l
          else let dev = dev\<lparr>av_gptp_clock_id := gc_gptp_clock_id cfg,
                  av_host_mac := (if bit (gc_flags cfg) GENAVB_PORT_FLAGS_LOCAL_PORT then av_host_mac dev
                                  else take MAC_ADDR_LEN (gc_host_mac cfg))\<rparr>
          in and_then (socket_loop False ptp (\<lambda>i p. Inr p) (unat (gc_ep_port_num cfg)) 0 (eps, l))
          (\<lambda>(ok, eps, l). let dev = dev\<lparr>av_endpoint_port := eps\<rparr> in
           if \<not> ok then fail dev l
           else os_assert (unat (gc_bridge_port_num cfg) \<le> CFG_BRIDGE_NUM)
           (let dev = dev\<lparr>av_bridge_port_num := gc_bridge_port_num cfg\<rparr>
            in and_then (socket_loop True ptp (conf_bridge (gc_bridge_port_id cfg)) (unat (gc_bridge_port_num cfg)) 0
                 (av_bridge_port dev, l))
            (\<lambda>(ok, brs, l). let dev = dev\<lparr>av_bridge_port := brs\<rparr> in
             if \<not> ok then fail dev l
             else let (a, b, c, d) = vp_ok in
               and_then (soft_vport_init a b c d (vport_cfg_of cfg (av_link_up dev)) w) (\<lambda>(v, w).
               os_assert thread_ok (Inr (Some \<lparr>as_dev = dev, as_vport = v, as_switch = w, as_mqueue = [],
                 as_ptp_ts_mqueue = [], as_calls = [], as_tx_ok = tx_ok\<rparr>, l)))))))))"

subsection \<open>A failing initialisation\<close>

lemma close_open_facts:
  "open_of r (close_open r p ks l) = open_of r l - (flagged p \<inter> set ks)
   \<and> others_kept r l (close_open r p ks l) \<and> (\<forall>r'. cb_failed r' (close_open r p ks l) = cb_failed r' l)"
proof (induction ks arbitrary: l)
  case (Cons k ks)
  let ?l = "snd (lib_call Sock_Close r k l)"
  have "open_of r ?l = open_of r l - {k}" "others_kept r l ?l" "cb_failed r' ?l = cb_failed r' l" for r'
    by (auto simp: open_of_def lib_call_def Let_def cb_failed_def others_kept_def)
  then show ?case using Cons [of ?l] Cons [of l] by (auto simp: others_kept_def flagged_def)
qed (simp add: others_kept_def)

lemma close_loop_facts:
  assumes "close_loop br ks ps n i l = Inr l'"
  shows "(\<forall>b j. cb_failed (b, j) l' = cb_failed (b, j) l) \<and>
    (\<forall>b j. open_of (b, j) l' = (if b = br \<and> i \<le> j \<and> j < i + n then open_of (b, j) l - (flagged (ps ! j) \<inter> set ks)
       else open_of (b, j) l)) \<and> (0 < n \<longrightarrow> i + n \<le> length ps)"
  using assms
proof (induction n arbitrary: i l)
  case (Suc n)
  let ?l = "close_open (br, i) (ps ! i) ks l"
  have i: "i < length ps" "close_loop br ks ps n (Suc i) ?l = Inr l'"
    using Suc.prems by (auto simp: outcome_simps)
  note c = close_open_facts [of "(br, i)" "ps ! i" ks l]
  note ih = Suc.IH [OF i(2)]
  have "open_of (b, j) l' = (if b = br \<and> i \<le> j \<and> j < i + Suc n
      then open_of (b, j) l - (flagged (ps ! j) \<inter> set ks) else open_of (b, j) l)" for b j
    using ih c by (cases "(b, j) = (br, i)") (auto simp: others_kept_def)
  then show ?case using ih c i(1) by (cases n) auto
qed auto

text \<open>The ports with the numbers from \<open>i\<close> up to \<open>i + n\<close> have no socket yet.\<close>

definition untouched :: "bool \<Rightarrow> nat \<Rightarrow> nat \<Rightarrow> avb_port list \<Rightarrow> avb_lib \<Rightarrow> bool" where
  "untouched br i n ps l \<longleftrightarrow> (\<forall>j. i \<le> j \<and> j < i + n \<longrightarrow>
     open_of (br, j) l = {} \<and> cb_failed (br, j) l = {} \<and> (j < length ps \<longrightarrow> flagged (ps ! j) = {}))"

definition accounted :: "bool \<Rightarrow> nat \<Rightarrow> nat \<Rightarrow> avb_port list \<Rightarrow> avb_lib \<Rightarrow> bool" where
  "accounted br i n ps l \<longleftrightarrow> (\<forall>j. i \<le> j \<and> j < i + n \<longrightarrow>
     open_of (br, j) l = (if j < length ps then flagged (ps ! j) else {}) \<union> cb_failed (br, j) l)"

lemma socket_loop_facts:
  assumes "socket_loop br ptp conf n i (ps, l) = Inr (ok, ps', l')" "untouched br i n ps l"
    and conf: "\<And>i p p'. conf i p = Inr p' \<Longrightarrow> ap_open p' = ap_open p"
  shows "accounted br i n ps' l' \<and> length ps' = length ps
    \<and> (\<forall>j. \<not> (i \<le> j \<and> j < i + n) \<longrightarrow> ps' ! j = ps ! j)
    \<and> (\<forall>b j. \<not> (b = br \<and> i \<le> j \<and> j < i + n) \<longrightarrow>
         open_of (b, j) l' = open_of (b, j) l \<and> cb_failed (b, j) l' = cb_failed (b, j) l)"
  using assms(1,2)
proof (induction n arbitrary: i ps l)
  case 0
  then show ?case by (auto simp: accounted_def)
next
  case (Suc n)
  obtain p1 where i: "i < length ps" and p1: "conf i (ps ! i) = Inr p1"
    using Suc.prems(1) by (auto simp: outcome_simps)
  obtain rc p2 l2 where s: "port_genavb_setup_sockets (br, i) ptp (p1, l) = (rc, p2, l2)" by (metis prod_cases3)
  have fl: "flagged p1 = {}" "open_of (br, i) l = {}" "cb_failed (br, i) l = {}"
    using Suc.prems(2) i conf [OF p1] by (auto simp: untouched_def flagged_def)
  note u = socket_setup_unwinds [OF s fl]
  have o: "open_of (br, i) l2 = flagged p2 \<union> cb_failed (br, i) l2" "rc = 0 \<or> rc = -1"
    using u by auto
  have ot: "open_of (b, j) l2 = open_of (b, j) l \<and> cb_failed (b, j) l2 = cb_failed (b, j) l"
    if "(b, j) \<noteq> (br, i)" for b j
    using u that unfolding others_kept_def by blast
  have un: "untouched br (Suc i) n (ps[i := p2]) l2"
    using Suc.prems(2) ot by (auto simp: untouched_def)
  show ?case
  proof (cases "rc = 0")
    case True
    then have "socket_loop br ptp conf n (Suc i) (ps[i := p2], l2) = Inr (ok, ps', l')"
      using Suc.prems(1) i p1 s by simp
    note ih = Suc.IH [OF this un]
    have "ps' ! i = p2" "open_of (br, i) l' = open_of (br, i) l2" "cb_failed (br, i) l' = cb_failed (br, i) l2"
      "length ps' = length ps"
      using ih i by auto
    note at_i = this
    have "accounted br i (Suc n) ps' l'"
      unfolding accounted_def
    proof (intro allI impI)
      fix j assume j: "i \<le> j \<and> j < i + Suc n"
      show "open_of (br, j) l' = (if j < length ps' then flagged (ps' ! j) else {}) \<union> cb_failed (br, j) l'"
      proof (cases "j = i")
        case True
        then show ?thesis using at_i o(1) i by simp
      next
        case False
        then have "Suc i \<le> j \<and> j < Suc i + n" using j by simp
        then show ?thesis using ih unfolding accounted_def by blast
      qed
    qed
    moreover have "\<forall>j. \<not> (i \<le> j \<and> j < i + Suc n) \<longrightarrow> ps' ! j = ps ! j" using ih i by auto
    moreover have "\<forall>b j. \<not> (b = br \<and> i \<le> j \<and> j < i + Suc n) \<longrightarrow>
         open_of (b, j) l' = open_of (b, j) l \<and> cb_failed (b, j) l' = cb_failed (b, j) l"
      using ih ot by auto
    ultimately show ?thesis using ih by simp
  next
    case False
    then have e: "ps' = ps[i := p2]" "l' = l2" using Suc.prems(1) i p1 s by simp_all
    have "accounted br i (Suc n) (ps[i := p2]) l2"
      unfolding accounted_def
    proof (intro allI impI)
      fix j assume j: "i \<le> j \<and> j < i + Suc n"
      show "open_of (br, j) l2 = (if j < length (ps[i := p2]) then flagged (ps[i := p2] ! j) else {}) \<union> cb_failed (br, j) l2"
        using j un o(1) i by (cases "j = i") (auto simp: untouched_def)
    qed
    then show ?thesis using e ot i by auto
  qed
qed

lemma init_endpoints_flags:
  assumes "init_endpoints ids n i ps = Inr ps'"
  shows "length ps' = length ps \<and> (\<forall>j. flagged (ps' ! j) = flagged (ps ! j)) \<and> (0 < n \<longrightarrow> i + n \<le> length ps)"
  using assms
proof (induction n arbitrary: i ps)
  case (Suc n)
  obtain x where i: "i < length ps" and r: "init_endpoints ids n (Suc i)
      (ps[i := (ps ! i)\<lparr>ap_logical_port_id := x, ap_is_bridge_port := False\<rparr>]) = Inr ps'"
    using Suc.prems by (auto simp: outcome_simps)
  have "flagged (ps[i := (ps ! i)\<lparr>ap_logical_port_id := x, ap_is_bridge_port := False\<rparr>] ! j) = flagged (ps ! j)" for j
    using i by (cases "j = i") (simp_all add: flagged_def)
  then show ?case using Suc.IH [OF r] i by auto
qed simp

definition fresh_lib :: "avb_lib \<Rightarrow> bool" where
  "fresh_lib l \<longleftrightarrow> al_sockets l = {} \<and> al_log l = []"

lemma fresh_untouched:
  assumes "\<forall>j. open_of (br, j) l = {} \<and> cb_failed (br, j) l = {}" "\<forall>j. j < length ps \<longrightarrow> flagged (ps ! j) = {}"
  shows "untouched br i n ps l"
  using assms by (auto simp: untouched_def)

text \<open>The error path from a state in which the sockets of the first ports are accounted for.\<close>

lemma init_err_facts:
  assumes "init_err cfg dev l = Inr l'"
    and "\<forall>j. open_of (False, j) l = (if j < length (av_endpoint_port dev) then flagged (av_endpoint_port dev ! j) else {})
        \<union> cb_failed (False, j) l \<and> (\<not> j < unat (gc_ep_port_num cfg) \<longrightarrow> open_of (False, j) l = {})"
    and "\<forall>j. open_of (True, j) l = (if j < length (av_bridge_port dev) then flagged (av_bridge_port dev ! j) else {})
        \<union> cb_failed (True, j) l \<and> (\<not> j < unat (gc_bridge_port_num cfg) \<longrightarrow> open_of (True, j) l = {})"
  shows "open_of (False, j) l' \<subseteq> {Sock_Tx_Ptp, Sock_Rx_Ptp} \<union> cb_failed (False, j) l'"
    and "open_of (True, j) l' \<subseteq> cb_failed (True, j) l'"
proof -
  obtain l1 where c: "close_loop False [Sock_Tx, Sock_Rx] (av_endpoint_port dev) (unat (gc_ep_port_num cfg)) 0 l = Inr l1"
      "close_loop True [Sock_Tx, Sock_Rx, Sock_Tx_Ptp, Sock_Rx_Ptp] (av_bridge_port dev)
          (unat (gc_bridge_port_num cfg)) 0 l1 = Inr l'"
    using assms(1) by (auto simp: init_err_def outcome_simps)
  note f1 = close_loop_facts [OF c(1)] and f2 = close_loop_facts [OF c(2)]
  have all: "k = Sock_Tx \<or> k = Sock_Rx \<or> k = Sock_Tx_Ptp \<or> k = Sock_Rx_Ptp" for k by (cases k) auto
  have cb: "cb_failed (b, j) l' = cb_failed (b, j) l" for b using f1 f2 by simp
  have oF: "open_of (False, j) l' = (if j < unat (gc_ep_port_num cfg)
      then open_of (False, j) l - (flagged (av_endpoint_port dev ! j) \<inter> {Sock_Tx, Sock_Rx}) else open_of (False, j) l)"
    using f1 f2 by simp
  have oT: "open_of (True, j) l' = (if j < unat (gc_bridge_port_num cfg)
      then open_of (True, j) l - (flagged (av_bridge_port dev ! j) \<inter> {Sock_Tx, Sock_Rx, Sock_Tx_Ptp, Sock_Rx_Ptp})
      else open_of (True, j) l)"
    using f1 f2 by simp
  show "open_of (False, j) l' \<subseteq> {Sock_Tx_Ptp, Sock_Rx_Ptp} \<union> cb_failed (False, j) l'"
    using assms(2) oF cb [of False] all by (auto split: if_splits)
  show "open_of (True, j) l' \<subseteq> cb_failed (True, j) l'"
    using assms(3) oT cb [of True] all by (auto split: if_splits)
qed

lemma init_fails:
  assumes "port_genavb_init alloc mq_ok ts_mq_ok thread_ok vp_ok tx_ok cfg (w, l) = Inr (None, l')"
  shows "\<exists>dev eps ok1 ok2 l1 l2. init_err cfg dev l2 = Inr l'
    \<and> (eps = replicate CFG_EP_NUM zero_port \<or>
        init_endpoints (gc_ep_port_id cfg) (unat (gc_ep_port_num cfg)) 0 (replicate CFG_EP_NUM zero_port) = Inr eps)
    \<and> (av_endpoint_port dev = eps \<and> l1 = l \<or>
        socket_loop False (bit (gc_flags cfg) GENAVB_PORT_FLAGS_PTP_SOCKET) (\<lambda>i p. Inr p)
          (unat (gc_ep_port_num cfg)) 0 (eps, l) = Inr (ok1, av_endpoint_port dev, l1))
    \<and> (av_bridge_port dev = replicate CFG_BRIDGE_NUM zero_port \<and> l2 = l1 \<or>
        socket_loop True (bit (gc_flags cfg) GENAVB_PORT_FLAGS_PTP_SOCKET) (conf_bridge (gc_bridge_port_id cfg))
          (unat (gc_bridge_port_num cfg)) 0 (replicate CFG_BRIDGE_NUM zero_port, l1) = Inr (ok2, av_bridge_port dev, l2))"
proof -
  let ?ptp = "bit (gc_flags cfg) GENAVB_PORT_FLAGS_PTP_SOCKET"
  have z: "av_endpoint_port zero_dev = replicate CFG_EP_NUM zero_port"
    "av_bridge_port zero_dev = replicate CFG_BRIDGE_NUM zero_port" by (simp_all add: zero_dev_def)
  show ?thesis
  proof (cases mq_ok)
    case False
    then have "init_err cfg zero_dev l = Inr l'"
      using assms by (auto simp: port_genavb_init_def Let_def outcome_simps)
    then show ?thesis using z by blast
  next
    case True
    then obtain eps where eps: "init_endpoints (gc_ep_port_id cfg) (unat (gc_ep_port_num cfg)) 0
        (replicate CFG_EP_NUM zero_port) = Inr eps"
      using assms by (auto simp: port_genavb_init_def Let_def outcome_simps z)
    show ?thesis
    proof (cases "?ptp \<and> \<not> ts_mq_ok")
      case True
      then obtain dev where "init_err cfg dev l = Inr l'" "av_endpoint_port dev = eps"
          "av_bridge_port dev = replicate CFG_BRIDGE_NUM zero_port"
        using assms \<open>mq_ok\<close> eps by (auto simp: port_genavb_init_def Let_def outcome_simps z)
      then show ?thesis using eps by blast
    next
      case ts: False
      then obtain ok1 eps1 l1 where l1: "socket_loop False ?ptp (\<lambda>i p. Inr p) (unat (gc_ep_port_num cfg)) 0 (eps, l)
          = Inr (ok1, eps1, l1)"
        using assms \<open>mq_ok\<close> eps by (auto simp: port_genavb_init_def Let_def outcome_simps z split: if_splits)
      show ?thesis
      proof (cases ok1)
        case False
        then obtain dev where "init_err cfg dev l1 = Inr l'" "av_endpoint_port dev = eps1"
            "av_bridge_port dev = replicate CFG_BRIDGE_NUM zero_port"
          using assms \<open>mq_ok\<close> eps ts l1
          by (auto simp: port_genavb_init_def Let_def outcome_simps z split: if_splits)
        then show ?thesis using eps l1 by blast
      next
        case True
        obtain dev ok2 l2 where "init_err cfg dev l2 = Inr l'" "av_endpoint_port dev = eps1"
            "socket_loop True ?ptp (conf_bridge (gc_bridge_port_id cfg)) (unat (gc_bridge_port_num cfg)) 0
               (replicate CFG_BRIDGE_NUM zero_port, l1) = Inr (ok2, av_bridge_port dev, l2)"
          using assms \<open>mq_ok\<close> eps ts l1 True
          by (auto simp: port_genavb_init_def Let_def outcome_simps z split: if_splits prod.splits)
        then show ?thesis using eps l1 by blast
      qed
    qed
  qed
qed

text \<open>
  C36: A failing initialisation takes its sockets back, with two leaks: when it returns the null pointer,
  a bridge port keeps no socket open but those whose own callback could not be set, and an endpoint port
  none but those and its PTP sockets, which the error path forgets.
\<close>

theorem failed_init_closes_sockets:
  assumes "port_genavb_init alloc mq_ok ts_mq_ok thread_ok vp_ok tx_ok cfg (w, l) = Inr (None, l')"
    and "fresh_lib l"
  shows "open_of (False, j) l' \<subseteq> {Sock_Tx_Ptp, Sock_Rx_Ptp} \<union> cb_failed (False, j) l'
    \<and> open_of (True, j) l' \<subseteq> cb_failed (True, j) l'"
proof -
  obtain dev eps ok1 ok2 l1 l2 where e: "init_err cfg dev l2 = Inr l'"
    "eps = replicate CFG_EP_NUM zero_port \<or>
        init_endpoints (gc_ep_port_id cfg) (unat (gc_ep_port_num cfg)) 0 (replicate CFG_EP_NUM zero_port) = Inr eps"
    "av_endpoint_port dev = eps \<and> l1 = l \<or>
        socket_loop False (bit (gc_flags cfg) GENAVB_PORT_FLAGS_PTP_SOCKET) (\<lambda>i p. Inr p)
          (unat (gc_ep_port_num cfg)) 0 (eps, l) = Inr (ok1, av_endpoint_port dev, l1)"
    "av_bridge_port dev = replicate CFG_BRIDGE_NUM zero_port \<and> l2 = l1 \<or>
        socket_loop True (bit (gc_flags cfg) GENAVB_PORT_FLAGS_PTP_SOCKET) (conf_bridge (gc_bridge_port_id cfg))
          (unat (gc_bridge_port_num cfg)) 0 (replicate CFG_BRIDGE_NUM zero_port, l1) = Inr (ok2, av_bridge_port dev, l2)"
    using init_fails [OF assms(1)] by blast
  have l: "open_of r l = {}" "cb_failed r l = {}" for r
    using assms(2) by (simp_all add: fresh_lib_def open_of_def cb_failed_def)
  have zp: "flagged zero_port = {}" by (simp add: flagged_def zero_port_def)
  have fe: "j < length eps \<Longrightarrow> flagged (eps ! j) = {}" for j
    using e(2) init_endpoints_flags [of "gc_ep_port_id cfg" "unat (gc_ep_port_num cfg)" 0 "replicate CFG_EP_NUM zero_port" eps] zp
    by auto
  have eps: "(\<forall>j. open_of (False, j) l1 = (if j < length (av_endpoint_port dev) then flagged (av_endpoint_port dev ! j) else {})
        \<union> cb_failed (False, j) l1 \<and> (\<not> j < unat (gc_ep_port_num cfg) \<longrightarrow> open_of (False, j) l1 = {}))
      \<and> (\<forall>j. open_of (True, j) l1 = {} \<and> cb_failed (True, j) l1 = {})"
    using e(3)
  proof
    assume "av_endpoint_port dev = eps \<and> l1 = l"
    then show ?thesis using l fe by simp
  next
    assume s: "socket_loop False (bit (gc_flags cfg) GENAVB_PORT_FLAGS_PTP_SOCKET) (\<lambda>i p. Inr p)
          (unat (gc_ep_port_num cfg)) 0 (eps, l) = Inr (ok1, av_endpoint_port dev, l1)"
    have u: "untouched False 0 (unat (gc_ep_port_num cfg)) eps l" using l fe by (simp add: untouched_def)
    note f = socket_loop_facts [OF s u]
    show ?thesis
    proof (intro conjI allI)
      fix j
      show "open_of (False, j) l1 = (if j < length (av_endpoint_port dev) then flagged (av_endpoint_port dev ! j) else {})
        \<union> cb_failed (False, j) l1"
        using f l fe by (cases "j < unat (gc_ep_port_num cfg)") (auto simp: accounted_def)
    qed (use f l in auto)
  qed
  have "(\<forall>j. open_of (True, j) l2 = (if j < length (av_bridge_port dev) then flagged (av_bridge_port dev ! j) else {})
        \<union> cb_failed (True, j) l2 \<and> (\<not> j < unat (gc_bridge_port_num cfg) \<longrightarrow> open_of (True, j) l2 = {}))
      \<and> (\<forall>j. open_of (False, j) l2 = open_of (False, j) l1 \<and> cb_failed (False, j) l2 = cb_failed (False, j) l1)"
    using e(4)
  proof
    assume "av_bridge_port dev = replicate CFG_BRIDGE_NUM zero_port \<and> l2 = l1"
    then show ?thesis using eps zp by simp
  next
    assume s: "socket_loop True (bit (gc_flags cfg) GENAVB_PORT_FLAGS_PTP_SOCKET) (conf_bridge (gc_bridge_port_id cfg))
          (unat (gc_bridge_port_num cfg)) 0 (replicate CFG_BRIDGE_NUM zero_port, l1) = Inr (ok2, av_bridge_port dev, l2)"
    have u: "untouched True 0 (unat (gc_bridge_port_num cfg)) (replicate CFG_BRIDGE_NUM zero_port) l1"
      using eps zp by (simp add: untouched_def)
    have cf: "conf_bridge ids i p = Inr p' \<Longrightarrow> ap_open p' = ap_open p" for ids i p p'
      by (auto simp: conf_bridge_def outcome_simps split: prod.splits)
    note f = socket_loop_facts [OF s u cf]
    show ?thesis
    proof (intro conjI allI)
      fix j
      show "open_of (True, j) l2 = (if j < length (av_bridge_port dev) then flagged (av_bridge_port dev ! j) else {})
        \<union> cb_failed (True, j) l2"
        using f eps zp by (cases "j < unat (gc_bridge_port_num cfg)") (auto simp: accounted_def)
    qed (use f eps in auto)
  qed
  note br = this
  have "\<forall>j. open_of (False, j) l2 = (if j < length (av_endpoint_port dev) then flagged (av_endpoint_port dev ! j) else {})
        \<union> cb_failed (False, j) l2 \<and> (\<not> j < unat (gc_ep_port_num cfg) \<longrightarrow> open_of (False, j) l2 = {})"
    using br [THEN conjunct2] eps [THEN conjunct1] by (simp only: simp_thms) metis
  from init_err_facts [OF e(1) this br [THEN conjunct1]] show ?thesis by simp
qed

subsection \<open>Concrete instances\<close>

definition ex_avb_cfg :: genavb_port_cfg where
  "ex_avb_cfg = \<lparr>gc_name = ''avb0'', gc_is_hostport = False, gc_mac_addr = ex_mac 8, gc_host_mac = ex_mac 9,
     gc_ep_port_num = 1, gc_ep_port_id = [0, 0], gc_bridge_port_num = 1,
     gc_bridge_port_id = [(2, 3), (0, 0), (0, 0), (0, 0)], gc_gptp_clock_id = 1, gc_flags = 4\<rparr>"

definition ex_avb_lib :: avb_lib where
  "ex_avb_lib = \<lparr>al_sockets = {}, al_log = [], al_ok = (\<lambda>n. n \<noteq> 7)\<rparr>"

text \<open>The first socket of the bridge port cannot be opened: the two PTP sockets of the endpoint stay open.\<close>

theorem failed_init_leaks_ptp_sockets:
  "\<exists>l'. port_genavb_init True True True True vp tx ex_avb_cfg (w, ex_avb_lib) = Inr (None, l')
     \<and> al_sockets l' = {((False, 0), Sock_Tx_Ptp), ((False, 0), Sock_Rx_Ptp)}"
  by (auto simp: port_genavb_init_def ex_avb_cfg_def ex_avb_lib_def zero_dev_def zero_port_def Let_def
      CFG_EP_NUM_def CFG_BRIDGE_NUM_def numeral_2_eq_2 GENAVB_PORT_FLAGS_PTP_SOCKET_def
      GENAVB_PORT_FLAGS_LOCAL_PORT_def conf_bridge_def port_genavb_setup_sockets_def setup_one_def
      lib_call_def set_open_def init_err_def bit_simps)

lemma failed_init_closes_sockets_witness:
  "\<exists>l'. port_genavb_init True False True True (True, True, True, True) (\<lambda>_. True) ex_avb_cfg
      (ex_switch (\<lambda>_. None), ex_avb_lib) = Inr (None, l') \<and> open_of (True, 0) l' \<subseteq> cb_failed (True, 0) l'"
proof -
  obtain l' where "port_genavb_init True False True True (True, True, True, True) (\<lambda>_. True) ex_avb_cfg
      (ex_switch (\<lambda>_. None), ex_avb_lib) = Inr (None, l')"
    by (simp add: port_genavb_init_def ex_avb_cfg_def zero_dev_def Let_def CFG_EP_NUM_def CFG_BRIDGE_NUM_def
        init_err_def)
  then show ?thesis
    using failed_init_closes_sockets [of True False True True "(True, True, True, True)" "\<lambda>_. True" ex_avb_cfg
        "ex_switch (\<lambda>_. None)" ex_avb_lib l' 0]
    by (auto simp: fresh_lib_def ex_avb_lib_def)
qed

end
