(* ===== verification/Static_Pkt.thy ===== *)
theory Static_Pkt
  imports Switch_Spec
begin


text \<open>
  Packets in static buffers on the switch. A static packet is never taken off the heap: freeing it
  clears its \<open>used\<close> mark (\<open>data_pkt_free\<close>), and the owner of the buffer may use it again. The
  invariants of the switch are about packets that can be freed; here they are carried over by a
  simulation. The shadow of a switch is the same switch on a heap in which every packet is dynamic
  and a freed packet is gone; whatever the shadow does the switch does too.
\<close>

subsection \<open>Simulation up to the results\<close>

definition rel_out :: "('a \<Rightarrow> 'b \<Rightarrow> bool) \<Rightarrow> 'a outcome \<Rightarrow> 'b outcome \<Rightarrow> bool" where
  "rel_out R x y \<longleftrightarrow> (\<forall>b. y = Inr b \<longrightarrow> (\<exists>a. x = Inr a \<and> R a b))"

named_theorems sim_intros

lemma rel_out_Inr [sim_intros]: "R a b \<Longrightarrow> rel_out R (Inr a) (Inr b)"
  by (simp add: rel_out_def)

lemma rel_out_Inl [sim_intros]: "rel_out R x (Inl e)"
  by (simp add: rel_out_def)

lemma rel_out_bind:
  assumes "rel_out R x y" "\<And>a b. x = Inr a \<Longrightarrow> y = Inr b \<Longrightarrow> R a b \<Longrightarrow> rel_out S (f a) (g b)"
  shows "rel_out S (and_then x f) (and_then y g)"
  using assms by (cases x; cases y) (auto simp: rel_out_def)

lemma rel_out_eq: "rel_out S (f a) (g a) \<Longrightarrow> x = Inr a \<Longrightarrow> rel_out S (and_then x f) (and_then x g)"
  by simp

lemma rel_out_bind_same:
  assumes "\<And>a. x = Inr a \<Longrightarrow> rel_out S (f a) (g a)"
  shows "rel_out S (and_then x f) (and_then x g)"
  using assms by (cases x) (auto simp: rel_out_def)

lemma rel_out_if [sim_intros]:
  "(b \<Longrightarrow> rel_out R x y) \<Longrightarrow> (\<not> b \<Longrightarrow> rel_out R x' y') \<Longrightarrow>
    rel_out R (if b then x else x') (if b then y else y')"
  by simp

lemma rel_outD: "rel_out R x y \<Longrightarrow> y = Inr b \<Longrightarrow> \<exists>a. x = Inr a \<and> R a b"
  by (simp add: rel_out_def)

subsection \<open>The shadow heap\<close>

definition dyn :: "data_pkt \<Rightarrow> data_pkt" where
  "dyn d = d\<lparr>dp_flags := unset_bit DATA_PKT_FLAG_STATIC_BUFF (dp_flags d)\<rparr>"

definition is_static :: "data_pkt \<Rightarrow> bool" where
  "is_static d \<longleftrightarrow> bit (dp_flags d) DATA_PKT_FLAG_STATIC_BUFF"

lemma dyn_facts [simp]:
  "dp_buf (dyn d) = dp_buf d" "dp_data (dyn d) = dp_data d" "dp_data_len (dyn d) = dp_data_len d"
  "dp_tail (dyn d) = dp_tail d" "dp_end (dyn d) = dp_end d" "dp_used (dyn d) = dp_used d"
  "payload (dyn d) = payload d" "pkt_wf (dyn d) = pkt_wf d" "\<not> is_static (dyn d)"
  "bit (dp_flags (dyn d)) DATA_PKT_FLAG_CAN_FREE = bit (dp_flags d) DATA_PKT_FLAG_CAN_FREE"
  "\<not> bit (dp_flags (dyn d)) DATA_PKT_FLAG_STATIC_BUFF"
  by (simp_all add: dyn_def payload_def pkt_wf_def is_static_def bit_unset_bit_iff pkt_consts)

lemma dyn_id: "\<not> is_static d \<Longrightarrow> dyn d = d"
proof -
  assume "\<not> is_static d"
  then have "unset_bit DATA_PKT_FLAG_STATIC_BUFF (dp_flags d) = dp_flags d"
    by (intro bit_eqI) (auto simp: is_static_def bit_unset_bit_iff)
  then show ?thesis by (simp add: dyn_def)
qed

text \<open>A static buffer as it is built: with room for the largest Ethernet frame behind the head room.\<close>

definition buffer_ok :: "data_pkt \<Rightarrow> bool" where
  "buffer_ok d \<longleftrightarrow> is_static d \<and> pkt_wf d \<and> dp_data d = DATA_PKT_HEAD_ROOM
     \<and> bit (dp_flags d) DATA_PKT_FLAG_CAN_FREE \<and> 1518 \<le> dp_tail d - dp_data d"

lemma buffer_ok_used [simp]: "buffer_ok (d\<lparr>dp_used := u\<rparr>) = buffer_ok d"
  by (simp add: buffer_ok_def is_static_def pkt_wf_def)

text \<open>
  \<open>P\<close> are the numbers of the static buffers that the switch may have, \<open>F\<close> those in the hands of
  others, with their contents: the switch does not touch them.
\<close>

definition heap_sim :: "nat set \<Rightarrow> (nat \<Rightarrow> data_pkt option) \<Rightarrow> pkt_heap \<Rightarrow> pkt_heap \<Rightarrow> bool" where
  "heap_sim P F h g \<longleftrightarrow> ph_next g = ph_next h \<and> ph_alloc g = ph_alloc h \<and> P \<subseteq> {..<ph_next h}
     \<and> (\<forall>k d'. ph_pkts g k = Some d' \<longrightarrow> (\<exists>d. ph_pkts h k = Some d \<and> d' = dyn d))
     \<and> (\<forall>k d. ph_pkts h k = Some d \<longrightarrow> k < ph_next h)
     \<and> (\<forall>k d. F k = Some d \<longrightarrow> ph_pkts h k = Some d \<and> ph_pkts g k = None)
     \<and> (\<forall>k \<in> P. \<exists>d. ph_pkts h k = Some d \<and> buffer_ok d \<and> (dp_used d \<longleftrightarrow> ph_pkts g k \<noteq> None))"

lemma heap_simD:
  assumes "heap_sim P F h g"
  shows "ph_pkts g k = Some d' \<Longrightarrow> \<exists>d. ph_pkts h k = Some d \<and> d' = dyn d"
    and "ph_pkts h k = Some d \<Longrightarrow> k < ph_next h"
    and "ph_pkts g k = Some d' \<Longrightarrow> F k = None" "F (ph_next h) = None" "ph_next h \<notin> P"
proof -
  show "ph_pkts h k = Some d \<Longrightarrow> k < ph_next h"
    and "ph_pkts g k = Some d' \<Longrightarrow> \<exists>d. ph_pkts h k = Some d \<and> d' = dyn d"
    using assms by (auto simp: heap_sim_def)
  have F: "F j = Some e \<Longrightarrow> ph_pkts h j = Some e \<and> ph_pkts g j = None \<and> j < ph_next h" for j e
    using assms by (auto simp: heap_sim_def)
  show "ph_pkts g k = Some d' \<Longrightarrow> F k = None" using F [of k] by (cases "F k") auto
  show "F (ph_next h) = None" using F [of "ph_next h"] by (cases "F (ph_next h)") auto
  show "ph_next h \<notin> P" using assms by (auto simp: heap_sim_def)
qed

definition sim :: "nat set \<Rightarrow> (nat \<Rightarrow> data_pkt option) \<Rightarrow> switch_sys \<Rightarrow> switch_sys \<Rightarrow> bool" where
  "sim P F s t \<longleftrightarrow> (\<exists>g. t = s\<lparr>ss_heap := g\<rparr> \<and> heap_sim P F (ss_heap s) g)"

lemma simD:
  assumes "sim P F s t"
  shows "heap_sim P F (ss_heap s) (ss_heap t)" "t = s\<lparr>ss_heap := ss_heap t\<rparr>" "ss_ports t = ss_ports s"
    "ss_remote_port t = ss_remote_port s" "ss_local_port_list t = ss_local_port_list s"
    "port_at t = port_at s" "ss_out_calls t = ss_out_calls s"
  using assms by (auto simp: sim_def port_at_def fun_eq_iff)

lemma sim_views:
  assumes "sim P F s t"
  shows "all_ports t = all_ports s" "out_queue t = out_queue s" "queued t = queued s"
    "link t = link s" "the_port t = the_port s" "forward_set t = forward_set s"
    "switch_inv t = switch_inv s"
proof -
  obtain g where t: "t = s\<lparr>ss_heap := g\<rparr>" "ph_alloc g = ph_alloc (ss_heap s)"
    using assms by (auto simp: sim_def heap_sim_def)
  have fr: "same_frame s t" using t by simp
  show "all_ports t = all_ports s" "out_queue t = out_queue s" "queued t = queued s" using t by simp_all
  show "the_port t = the_port s" "link t = link s" "switch_inv t = switch_inv s"
    using t by (auto simp: the_port_def link_def switch_inv_def fun_eq_iff)
  show "forward_set t = forward_set s" using forward_set_frame [OF fr] by (simp add: fun_eq_iff)
qed

lemma sim_upd:
  assumes "sim P F s t"
  shows "sim P F (upd_port q f s) (upd_port q f t)"
proof -
  obtain g where "t = s\<lparr>ss_heap := g\<rparr>" "heap_sim P F (ss_heap s) g" using assms by (auto simp: sim_def)
  then show ?thesis unfolding sim_def by (intro exI [of _ g]) (simp add: upd_port_def)
qed

lemma sim_pkt_at: "sim P F s t \<Longrightarrow> rel_out (\<lambda>d d'. d' = dyn d) (pkt_at (ss_heap s) k) (pkt_at (ss_heap t) k)"
  using simD(1) [of P F s t] by (force simp: rel_out_def heap_sim_def outcome_simps)

lemma sim_port_at: "sim P F s t \<Longrightarrow> port_at t q = port_at s q"
  by (simp add: simD(6))

subsection \<open>The operations on the heap\<close>

lemma free_sim:
  assumes "heap_sim P F h g"
  shows "rel_out (heap_sim P F) (data_pkt_free k h) (data_pkt_free k g)"
proof (cases "ph_pkts g k")
  case None
  then show ?thesis by (simp add: data_pkt_free_def rel_out_def)
next
  case (Some d')
  then obtain d where d: "ph_pkts h k = Some d" "d' = dyn d" using heap_simD(1) [OF assms] by blast
  have Fk: "F k = None" by (rule heap_simD(3) [OF assms Some])
  have g: "data_pkt_free k g = Inr (g\<lparr>ph_pkts := (ph_pkts g)(k := None)\<rparr>)"
    using Some d(2) by (simp add: data_pkt_free_def)
  show ?thesis
  proof (cases "is_static d")
    case True
    then have "data_pkt_free k h = Inr (h\<lparr>ph_pkts := (ph_pkts h)(k \<mapsto> d\<lparr>dp_used := False\<rparr>)\<rparr>)"
      using d(1) by (simp add: data_pkt_free_def is_static_def)
    then show ?thesis using assms True d g Fk
      by (auto simp: rel_out_def heap_sim_def is_static_def)
  next
    case False
    then have "data_pkt_free k h = Inr (h\<lparr>ph_pkts := (ph_pkts h)(k := None)\<rparr>)"
      using d(1) by (simp add: data_pkt_free_def is_static_def)
    moreover have "k \<notin> P" using False d(1) assms by (auto simp: heap_sim_def buffer_ok_def)
    ultimately show ?thesis using assms d g Fk
      by (auto simp: rel_out_def heap_sim_def)
  qed
qed

lemma alloc_sim:
  assumes "heap_sim P F h g" "fl' = unset_bit DATA_PKT_FLAG_STATIC_BUFF fl"
  shows "rel_out (\<lambda>(r, h1) (r', g1). r' = r \<and> heap_sim P F h1 g1)
    (data_pkt_alloc room fl h) (data_pkt_alloc room fl' g)"
proof -
  have n: "ph_next g = ph_next h" "ph_alloc g = ph_alloc h" using assms(1) by (auto simp: heap_sim_def)
  then show ?thesis using assms(1) heap_simD(4,5) [OF assms(1)] unfolding assms(2)
    by (auto simp: rel_out_def data_pkt_alloc_def data_pkt_build_def Let_def os_assert_def outcome_simps
        heap_sim_def dyn_def less_Suc_eq)
qed

lemma set_len_sim:
  assumes "heap_sim P F h g" "k \<notin> P"
  shows "rel_out (heap_sim P F) (data_pkt_set_len k n h) (data_pkt_set_len k n g)"
proof (cases "ph_pkts g k")
  case (Some d')
  then obtain d where d: "ph_pkts h k = Some d" "d' = dyn d" using heap_simD(1) [OF assms(1)] by blast
  moreover have "F k = None" by (rule heap_simD(3) [OF assms(1) Some])
  ultimately show ?thesis using assms Some
    by (auto simp: rel_out_def data_pkt_set_len_def heap_sim_def dyn_def)
qed (simp add: data_pkt_set_len_def rel_out_def)

lemma fill_sim:
  assumes "heap_sim P F h g" "k \<notin> P"
  shows "rel_out (heap_sim P F) (data_pkt_fill k bs h) (data_pkt_fill k bs g)"
proof (cases "ph_pkts g k")
  case (Some d')
  then obtain d where d: "ph_pkts h k = Some d" "d' = dyn d" using heap_simD(1) [OF assms(1)] by blast
  moreover have "F k = None" by (rule heap_simD(3) [OF assms(1) Some])
  ultimately show ?thesis using assms Some
    by (auto simp: rel_out_def data_pkt_fill_def pkt_write_def heap_sim_def dyn_def)
qed (simp add: data_pkt_fill_def rel_out_def)

lemma clone_sim:
  assumes "heap_sim P F h g"
  shows "rel_out (\<lambda>(r, h1) (r', g1). r' = r \<and> heap_sim P F h1 g1) (data_pkt_clone k h) (data_pkt_clone k g)"
proof (cases "ph_pkts g k")
  case (Some d')
  then obtain d where d: "ph_pkts h k = Some d" "d' = dyn d" using heap_simD(1) [OF assms] by blast
  have Fk: "F k = None" by (rule heap_simD(3) [OF assms Some])
  let ?room = "of_nat (dp_tail d - dp_data d)"
  have al: "rel_out (\<lambda>(r, h1) (r', g1). r' = r \<and> heap_sim P F h1 g1)
      (data_pkt_alloc ?room (dp_flags d) h) (data_pkt_alloc ?room (dp_flags d') g)"
    by (rule alloc_sim [OF assms]) (simp add: d(2) dyn_def)
  have np: "n \<notin> P" if "data_pkt_alloc ?room (dp_flags d) h = Inr (Some n, h1)" for n h1
    using that assms by (auto simp: data_pkt_alloc_def Let_def heap_sim_def outcome_simps split: if_splits)
  have rd: "pkt_read d' n = pkt_read d n" for n by (simp add: pkt_read_def d(2))
  have body: "rel_out (\<lambda>(r, h1) (r', g1). r' = r \<and> heap_sim P F h1 g1)
      (case x of (None, h1) \<Rightarrow> Inr (None, h1) | (Some n, h1) \<Rightarrow>
         and_then (pkt_read d l) (\<lambda>bs. and_then (data_pkt_fill n bs h1) (\<lambda>h2.
         and_then (data_pkt_set_len n len h2) (\<lambda>h3. Inr (Some n, h3)))))
      (case y of (None, h1) \<Rightarrow> Inr (None, h1) | (Some n, h1) \<Rightarrow>
         and_then (pkt_read d' l) (\<lambda>bs. and_then (data_pkt_fill n bs h1) (\<lambda>h2.
         and_then (data_pkt_set_len n len h2) (\<lambda>h3. Inr (Some n, h3)))))"
    if xy: "data_pkt_alloc ?room (dp_flags d) h = Inr x" "case x of (r, h1) \<Rightarrow> case y of (r', g1) \<Rightarrow> r' = r \<and> heap_sim P F h1 g1"
    for x y l len
  proof -
    obtain r h1 g1 where e: "x = (r, h1)" "y = (r, g1)" "heap_sim P F h1 g1" using xy(2) by (cases x, cases y) auto
    show ?thesis
    proof (cases r)
      case None
      then show ?thesis using e by (simp add: rel_out_def)
    next
      case (Some n)
      then have n: "n \<notin> P" using np xy(1) e(1) by auto
      have "rel_out (\<lambda>(r, h1) (r', g1). r' = r \<and> heap_sim P F h1 g1)
          (and_then (data_pkt_fill n bs h1) (\<lambda>h2. and_then (data_pkt_set_len n len h2) (\<lambda>h3. Inr (Some n, h3))))
          (and_then (data_pkt_fill n bs g1) (\<lambda>h2. and_then (data_pkt_set_len n len h2) (\<lambda>h3. Inr (Some n, h3))))" for bs
        by (rule rel_out_bind [OF fill_sim [OF e(3) n]], rule rel_out_bind [OF set_len_sim [OF _ n]], assumption)
          (simp add: rel_out_def)
      then show ?thesis unfolding e Some rd prod.case option.case by (intro rel_out_bind_same)
    qed
  qed
  have eq: "data_pkt_clone k c = and_then (data_pkt_alloc (of_nat (dp_tail e - dp_data e)) (dp_flags e) c)
      (\<lambda>x. case x of (None, h1) \<Rightarrow> Inr (None, h1) | (Some n, h1) \<Rightarrow>
         and_then (pkt_read e (unat (dp_data_len e))) (\<lambda>bs. and_then (data_pkt_fill n bs h1) (\<lambda>h2.
         and_then (data_pkt_set_len n (dp_data_len e) h2) (\<lambda>h3. Inr (Some n, h3)))))"
    if "ph_pkts c k = Some e" for c e
    using that unfolding data_pkt_clone_def pkt_at_Some [OF that] and_then.simps
    by (intro arg_cong2 [where f = and_then] ext refl)
  have l: "dp_tail d' = dp_tail d" "dp_data d' = dp_data d" "dp_data_len d' = dp_data_len d"
    by (simp_all add: d(2))
  show ?thesis
    unfolding eq [OF d(1)] eq [OF Some] l
    by (rule rel_out_bind [OF al]) (rule body, auto split: prod.splits)
qed (simp add: data_pkt_clone_def rel_out_def)

subsection \<open>The operations of the switch\<close>

lemma on_heap_sim:
  assumes "sim P F s t" "\<And>h g. heap_sim P F h g \<Longrightarrow> rel_out (heap_sim P F) (f h) (f g)"
  shows "rel_out (sim P F) (on_heap f s) (on_heap f t)"
proof -
  obtain g where t: "t = s\<lparr>ss_heap := g\<rparr>" "heap_sim P F (ss_heap s) g" using assms(1) by (auto simp: sim_def)
  show ?thesis using assms(2) [OF t(2)] t(1)
    by (cases "f g") (auto simp: rel_out_def on_heap_def sim_def)
qed

lemma on_free_sim: "sim P F s t \<Longrightarrow> rel_out (sim P F) (on_heap (data_pkt_free k) s) (on_heap (data_pkt_free k) t)"
  by (auto intro: on_heap_sim free_sim)

lemma port_at_bind:
  assumes "sim P F s t" "\<And>x. rel_out R (f x) (g x)"
  shows "rel_out R (and_then (port_at s q) f) (and_then (port_at t q) g)"
  unfolding sim_port_at [OF assms(1)] using assms(2) by (intro rel_out_bind_same)

lemma pkt_at_bind:
  assumes "sim P F s t" "\<And>d. rel_out R (f d) (g (dyn d))"
  shows "rel_out R (and_then (pkt_at (ss_heap s) k) f) (and_then (pkt_at (ss_heap t) k) g)"
  by (rule rel_out_bind [OF sim_pkt_at [OF assms(1)]]) (simp add: assms(2))

lemma port_out_sim: "sim P F s t \<Longrightarrow> rel_out (sim P F) (port_out_pkt q k s) (port_out_pkt q k t)"
  unfolding port_out_pkt_def
  by (rule port_at_bind, assumption)
    (auto intro!: rel_out_if rel_out_Inl pkt_at_bind rel_out_Inr sim_upd)

lemma clone_to_sim:
  assumes "sim P F s t"
  shows "rel_out (sim P F) (clone_to q k s) (clone_to q k t)"
proof -
  obtain g where t: "t = s\<lparr>ss_heap := g\<rparr>" "heap_sim P F (ss_heap s) g" using assms by (auto simp: sim_def)
  have s': "sim P F (s\<lparr>ss_heap := h\<rparr>) (t\<lparr>ss_heap := g'\<rparr>)" if "heap_sim P F h g'" for h g'
    using that t by (auto simp: sim_def)
  show ?thesis
    unfolding clone_to_def
    by (rule rel_out_bind [OF clone_sim [OF simD(1) [OF assms]]])
      (auto intro!: s' rel_out_Inr port_out_sim split: option.splits)
qed

lemma broadcast_local_sim: "sim P F s t \<Longrightarrow> rel_out (sim P F) (broadcast_local qs src k s) (broadcast_local qs src k t)"
proof (induction qs arbitrary: s t)
  case (Cons q qs)
  show ?case unfolding broadcast_local.simps
    by (rule port_at_bind [OF Cons.prems], rule rel_out_bind [where R = "sim P F"])
      (auto intro!: clone_to_sim Cons.prems rel_out_Inr intro: Cons.IH)
qed (simp add: rel_out_def)

text \<open>The same result beside the state.\<close>

definition sim2 :: "nat set \<Rightarrow> (nat \<Rightarrow> data_pkt option) \<Rightarrow> 'r \<times> switch_sys \<Rightarrow> 'r \<times> switch_sys \<Rightarrow> bool" where
  "sim2 P F x y \<longleftrightarrow> fst x = fst y \<and> sim P F (snd x) (snd y)"

lemma broadcast_remote_sim:
  "sim P F s t \<Longrightarrow> rel_out (sim2 P F) (broadcast_remote qs k nf s) (broadcast_remote qs k nf t)"
proof (induction qs arbitrary: s t nf)
  case (Cons q qs)
  show ?case unfolding broadcast_remote.simps
    by (rule port_at_bind [OF Cons.prems])
      (auto intro!: rel_out_if Cons.IH [OF Cons.prems] rel_out_bind [OF port_out_sim [OF Cons.prems]]
        rel_out_bind [OF clone_to_sim [OF Cons.prems]] rel_out_Inr simp: sim2_def Cons.prems intro: Cons.IH [unfolded sim2_def])
qed (simp add: rel_out_def sim2_def)

lemma out_to_remote_sim: "sim P F s t \<Longrightarrow> rel_out (sim2 P F) (out_to_remote k s) (out_to_remote k t)"
  unfolding out_to_remote_def simD(4)
  by (auto simp: sim2_def split: option.split
      intro!: rel_out_Inr port_at_bind rel_out_if rel_out_bind [OF port_out_sim])

lemma free_if_sim: "sim2 P F x y \<Longrightarrow> rel_out (sim P F) (free_if k x) (free_if k y)"
  by (auto simp: free_if_def sim2_def intro!: on_free_sim rel_out_Inr)

lemma broadcast_sim: "sim P F s t \<Longrightarrow> rel_out (sim P F) (broadcast_pkt src k s) (broadcast_pkt src k t)"
  unfolding broadcast_pkt_def simD(5)
  by (rule port_at_bind, assumption, rule rel_out_bind [where R = "sim2 P F"])
    (auto intro!: rel_out_bind [OF broadcast_local_sim] out_to_remote_sim broadcast_remote_sim free_if_sim)

lemma cmp_dyn [simp]: "cmp_mac_addr n i (dyn d) m = cmp_mac_addr n i d m"
  by (induction n arbitrary: i) (simp_all cong: and_then_cong if_cong)

lemma is_broadcast_dyn [simp]: "is_broadcast_pkt n i (dyn d) = is_broadcast_pkt n i d"
  by (induction n arbitrary: i) (simp_all cong: and_then_cong if_cong)

lemma is_multicast_dyn [simp]: "is_multicast_pkt (dyn d) = is_multicast_pkt d"
  by (simp add: is_multicast_pkt_def)

lemma in_fdb_dyn [simp]: "in_fdb ms (dyn d) = in_fdb ms d"
  by (induction ms) (simp_all cong: and_then_cong if_cong)

lemma multicast_local_sim: "sim P F s t \<Longrightarrow> rel_out (sim P F) (multicast_local qs src k s) (multicast_local qs src k t)"
proof (induction qs arbitrary: s t)
  case (Cons q qs)
  have c: "rel_out (sim P F) (and_then (pkt_at (ss_heap s) k) (\<lambda>d. and_then (in_fdb ms d) (\<lambda>hit.
            if hit then clone_to q k s else Inr s)))
      (and_then (pkt_at (ss_heap t) k) (\<lambda>d. and_then (in_fdb ms d) (\<lambda>hit.
            if hit then clone_to q k t else Inr t)))" for ms
    by (rule pkt_at_bind [OF Cons.prems]) (auto intro!: rel_out_bind_same clone_to_sim Cons.prems rel_out_Inr)
  show ?case unfolding multicast_local.simps
    by (rule port_at_bind [OF Cons.prems], rule rel_out_bind [where R = "sim P F"])
      (auto intro!: c rel_out_Inr Cons.prems intro: Cons.IH)
qed (simp add: rel_out_def)

lemma multicast_remote_sim:
  "sim P F s t \<Longrightarrow> rel_out (sim2 P F) (multicast_remote qs k nf s) (multicast_remote qs k nf t)"
proof (induction qs arbitrary: s t nf)
  case (Cons q qs)
  show ?case unfolding multicast_remote.simps
    by (rule port_at_bind [OF Cons.prems], rule rel_out_if, rule Cons.IH [OF Cons.prems],
        rule pkt_at_bind [OF Cons.prems])
      (auto intro!: rel_out_bind_same rel_out_if Cons.IH [OF Cons.prems] rel_out_bind [OF port_out_sim [OF Cons.prems]]
        rel_out_bind [OF clone_to_sim [OF Cons.prems]] rel_out_Inr simp: sim2_def Cons.prems intro: Cons.IH [unfolded sim2_def])
qed (simp add: rel_out_def sim2_def)

lemma multicast_sim: "sim P F s t \<Longrightarrow> rel_out (sim P F) (multicast_pkt src k s) (multicast_pkt src k t)"
  unfolding multicast_pkt_def simD(5)
  by (rule port_at_bind, assumption, rule rel_out_bind [where R = "sim2 P F"])
    (auto intro!: rel_out_bind [OF multicast_local_sim] out_to_remote_sim multicast_remote_sim free_if_sim)

lemma find_local_port_sim: "sim P F s t \<Longrightarrow> find_local_port t qs (dyn d) = find_local_port s qs d"
  by (induction qs) (simp_all add: sim_port_at cong: and_then_cong if_cong)

lemma find_dst_port_sim:
  assumes "sim P F s t"
  shows "find_dst_port t src (dyn d) = find_dst_port s src d"
  unfolding find_dst_port_def simD(4-6) [OF assms] find_local_port_sim [OF assms] ..

lemma drop_sim:
  "sim P F s t \<Longrightarrow> rel_out (sim P F) (and_then (on_heap (data_pkt_free k) s) (\<lambda>s'. Inr (upd_port src f s')))
    (and_then (on_heap (data_pkt_free k) t) (\<lambda>s'. Inr (upd_port src f s')))"
  by (rule rel_out_bind [OF on_free_sim]) (auto intro!: rel_out_Inr sim_upd)

lemma unicast_sim: "sim P F s t \<Longrightarrow> rel_out (sim P F) (unicast_pkt src k d s) (unicast_pkt src k (dyn d) t)"
  unfolding unicast_pkt_def
  by (simp only: find_dst_port_sim simD(6))
    (auto intro!: rel_out_bind_same port_out_sim drop_sim rel_out_if split: option.split)

lemma switch_pkt_sim: "sim P F s t \<Longrightarrow> rel_out (sim P F) (switch_pkt src k s) (switch_pkt src k t)"
  unfolding switch_pkt_def
  by (rule pkt_at_bind, assumption)
    (auto intro!: rel_out_bind_same broadcast_sim multicast_sim unicast_sim)

lemma notify_list_sim: "sim P F s t \<Longrightarrow> rel_out (sim P F) (notify_list qs s) (notify_list qs t)"
  by (induction qs arbitrary: s t) (auto intro!: port_at_bind sim_upd rel_out_Inr)

lemma notify_ports_sim: "sim P F s t \<Longrightarrow> rel_out (sim P F) (notify_ports s) (notify_ports t)"
  unfolding notify_ports_def simD(4,5)
  by (rule rel_out_bind [where R = "sim P F"])
    (auto split: option.split intro!: rel_out_Inr notify_list_sim port_at_bind sim_upd)

lemma in_nocpy_sim:
  "sim P F s t \<Longrightarrow> rel_out (sim P F) (port_in_pkt_nocpy src k notify s) (port_in_pkt_nocpy src k notify t)"
  unfolding port_in_pkt_nocpy_def
  by (rule port_at_bind, assumption, rule rel_out_bind, rule switch_pkt_sim, erule sim_upd)
    (auto intro!: rel_out_Inr notify_ports_sim)

lemma send_queued_sim: "sim P F s t \<Longrightarrow> rel_out (sim P F) (send_queued p ks s) (send_queued p ks t)"
proof (induction ks arbitrary: s t)
  case (Cons k ks)
  have call: "sim P F (upd_port p f (s\<lparr>ss_out_calls := c\<rparr>)) (upd_port p f (t\<lparr>ss_out_calls := c\<rparr>))" for f c
  proof -
    obtain g where "t = s\<lparr>ss_heap := g\<rparr>" "heap_sim P F (ss_heap s) g" using Cons.prems by (auto simp: sim_def)
    then have "sim P F (s\<lparr>ss_out_calls := c\<rparr>) (t\<lparr>ss_out_calls := c\<rparr>)"
      unfolding sim_def by (intro exI [of _ g]) simp
    then show ?thesis by (rule sim_upd)
  qed
  have take: "rel_out (sim P F) (take_out_sem p a) (take_out_sem p b)"
    and give: "rel_out (sim P F) (give_out_sem p a) (give_out_sem p b)" if "sim P F a b" for a b
    unfolding take_out_sem_def give_out_sem_def
    by (rule port_at_bind [OF that]; auto intro!: rel_out_Inr rel_out_Inl sim_upd that)+
  have free: "rel_out (sim P F)
      (and_then (take_out_sem p a) (\<lambda>s2. and_then (give_out_sem p (list_del_out p k s2)) (on_heap (data_pkt_free k))))
      (and_then (take_out_sem p b) (\<lambda>s2. and_then (give_out_sem p (list_del_out p k s2)) (on_heap (data_pkt_free k))))"
    if "sim P F a b" for a b
    by (rule rel_out_bind [OF take [OF that]], rule rel_out_bind [OF give])
      (auto simp: list_del_out_def intro: sim_upd on_free_sim)
  show ?case unfolding send_queued.simps Let_def simD(7) [OF Cons.prems]
    by (rule pkt_at_bind [OF Cons.prems], rule port_at_bind [OF Cons.prems], rule rel_out_bind [where R = "sim P F"])
      (auto intro!: free call rel_out_Inr intro: Cons.IH)
qed (simp add: rel_out_def)

lemma process_sim: "sim P F s t \<Longrightarrow> rel_out (sim2 P F) (port_process_pkts p s) (port_process_pkts p t)"
  unfolding port_process_pkts_def
  by (rule port_at_bind, assumption)
    (auto simp: Let_def sim2_def intro!: rel_out_Inr sim_upd rel_out_bind [OF send_queued_sim] split: list.split)

subsection \<open>Static buffers in hand and queued\<close>

text \<open>
  The static buffers \<open>P\<close> of an owner outside the switch that has those in \<open>R\<close> in hand: a buffer is in
  use iff it is in hand or queued, and the queues hold every packet at most once.
\<close>

definition accounts :: "nat set \<Rightarrow> nat set \<Rightarrow> switch_sys \<Rightarrow> bool" where
  "accounts P R s \<longleftrightarrow> R \<subseteq> P \<and> (\<exists>t F. dom F = R \<and> (\<forall>k d. F k = Some d \<longrightarrow> buffer_ok d \<and> dp_used d)
     \<and> sim (P - R) F s t \<and> owned t {})"

lemma accountsE:
  assumes "accounts P R s"
  obtains g F where "R \<subseteq> P" "dom F = R" "\<And>k d. F k = Some d \<Longrightarrow> buffer_ok d \<and> dp_used d"
    "heap_sim (P - R) F (ss_heap s) g" "owned (s\<lparr>ss_heap := g\<rparr>) {}"
  using assms by (auto simp: accounts_def sim_def)

lemma accountsI:
  assumes "R \<subseteq> P" "dom F = R" "\<And>k d. F k = Some d \<Longrightarrow> buffer_ok d \<and> dp_used d"
    "heap_sim (P - R) F (ss_heap s) g" "owned (s\<lparr>ss_heap := g\<rparr>) {}"
  shows "accounts P R s"
  using assms unfolding accounts_def sim_def by blast

lemma owned_split:
  assumes "owned t {}"
  shows "set (queued t) = dom (ph_pkts (ss_heap t))" "distinct (queued t)"
proof -
  have m: "mset (queued t) = mset_set (dom (ph_pkts (ss_heap t)))" "finite (dom (ph_pkts (ss_heap t)))"
    using assms by (simp_all add: owned_def)
  then show s: "set (queued t) = dom (ph_pkts (ss_heap t))" by (metis finite_set_mset_mset_set set_mset_mset)
  show "distinct (queued t)"
    unfolding distinct_count_atmost_1 s using m by (simp add: count_mset_set')
qed

lemma accounts_used:
  assumes "accounts P R s"
  shows "k \<in> P \<Longrightarrow> \<exists>d. ph_pkts (ss_heap s) k = Some d \<and> buffer_ok d \<and> (dp_used d \<longleftrightarrow> k \<in> R \<union> set (queued s))"
    and "R \<inter> set (queued s) = {}" "distinct (queued s)" "R \<subseteq> P"
proof -
  obtain g F where a: "R \<subseteq> P" "dom F = R" "\<And>k d. F k = Some d \<Longrightarrow> buffer_ok d \<and> dp_used d"
    "heap_sim (P - R) F (ss_heap s) g" "owned (s\<lparr>ss_heap := g\<rparr>) {}" by (rule accountsE [OF assms]) blast
  show "R \<subseteq> P" by (rule a(1))
  have q: "set (queued s) = dom (ph_pkts g)" "distinct (queued s)" using owned_split [OF a(5)] by simp_all
  show "distinct (queued s)" by (rule q(2))
  have F: "F k = Some d \<Longrightarrow> ph_pkts (ss_heap s) k = Some d \<and> ph_pkts g k = None" for k d
    using a(4) by (auto simp: heap_sim_def)
  then show "R \<inter> set (queued s) = {}" using a(2) q(1) by fastforce
  assume k: "k \<in> P"
  show "\<exists>d. ph_pkts (ss_heap s) k = Some d \<and> buffer_ok d \<and> (dp_used d \<longleftrightarrow> k \<in> R \<union> set (queued s))"
  proof (cases "k \<in> R")
    case True
    then obtain d where "F k = Some d" using a(2) by blast
    then show ?thesis using F a(3) True by blast
  next
    case False
    then have "k \<in> P - R" using k by simp
    then obtain d where "ph_pkts (ss_heap s) k = Some d" "buffer_ok d" "dp_used d \<longleftrightarrow> ph_pkts g k \<noteq> None"
      using a(4) unfolding heap_sim_def by blast
    then show ?thesis using False q(1) by auto
  qed
qed

lemma accounts_take:
  assumes "accounts P R s" "k \<in> P" "ph_pkts (ss_heap s) k = Some d" "\<not> dp_used d"
    and "s' = s\<lparr>ss_heap := (ss_heap s)\<lparr>ph_pkts := (ph_pkts (ss_heap s))(k \<mapsto> d\<lparr>dp_used := True\<rparr>)\<rparr>\<rparr>"
  shows "accounts P (insert k R) s'"
proof -
  obtain g F where a: "R \<subseteq> P" "dom F = R" "\<And>k d. F k = Some d \<Longrightarrow> buffer_ok d \<and> dp_used d"
    "heap_sim (P - R) F (ss_heap s) g" "owned (s\<lparr>ss_heap := g\<rparr>) {}" by (rule accountsE [OF assms(1)]) blast
  have d: "buffer_ok d" "k \<notin> R" "ph_pkts g k = None"
    using accounts_used(1) [OF assms(1,2)] assms(3,4) owned_split(1) [OF a(5)] by auto
  show ?thesis
  proof (rule accountsI [where g = g and F = "F(k \<mapsto> d\<lparr>dp_used := True\<rparr>)"])
    show "insert k R \<subseteq> P" "dom (F(k \<mapsto> d\<lparr>dp_used := True\<rparr>)) = insert k R" using a(1,2) assms(2) by auto
    show "\<And>j e. (F(k \<mapsto> d\<lparr>dp_used := True\<rparr>)) j = Some e \<Longrightarrow> buffer_ok e \<and> dp_used e"
      using a(3) d(1) by (auto split: if_splits)
    show "heap_sim (P - insert k R) (F(k \<mapsto> d\<lparr>dp_used := True\<rparr>)) (ss_heap s') g"
      using a(4) d(3) heap_simD(2) [OF a(4) assms(3)] by (auto simp: heap_sim_def assms(5))
    show "owned (s'\<lparr>ss_heap := g\<rparr>) {}" using a(5) by (simp add: assms(5))
  qed
qed

lemma accounts_give:
  assumes "accounts P R s" "k \<in> R" "ph_pkts (ss_heap s) k = Some d"
    and "s' = s\<lparr>ss_heap := (ss_heap s)\<lparr>ph_pkts := (ph_pkts (ss_heap s))(k \<mapsto> d\<lparr>dp_used := False\<rparr>)\<rparr>\<rparr>"
  shows "accounts P (R - {k}) s'"
proof -
  obtain g F where a: "R \<subseteq> P" "dom F = R" "\<And>k d. F k = Some d \<Longrightarrow> buffer_ok d \<and> dp_used d"
    "heap_sim (P - R) F (ss_heap s) g" "owned (s\<lparr>ss_heap := g\<rparr>) {}" by (rule accountsE [OF assms(1)]) blast
  have k: "k \<in> P" using a(1) assms(2) by blast
  have d: "buffer_ok d" "ph_pkts g k = None"
    using accounts_used(1) [OF assms(1) k] accounts_used(2) [OF assms(1)] assms(2,3) owned_split(1) [OF a(5)] by auto
  show ?thesis
  proof (rule accountsI [where g = g and F = "F(k := None)"])
    show "R - {k} \<subseteq> P" "dom (F(k := None)) = R - {k}" using a(1,2) by auto
    show "\<And>j e. (F(k := None)) j = Some e \<Longrightarrow> buffer_ok e \<and> dp_used e"
      using a(3) by (auto split: if_splits)
    show "heap_sim (P - (R - {k})) (F(k := None)) (ss_heap s') g"
      using a(4) d k heap_simD(2) [OF a(4) assms(3)] by (auto simp: heap_sim_def assms(4))
    show "owned (s'\<lparr>ss_heap := g\<rparr>) {}" using a(5) by (simp add: assms(4))
  qed
qed

lemma sim_same_frame:
  assumes "sim P F s t" "sim P' F' s' t'" "same_frame t t'"
  shows "same_frame s s'"
proof -
  obtain g g' where "t = s\<lparr>ss_heap := g\<rparr>" "t' = s'\<lparr>ss_heap := g'\<rparr>" "ph_alloc g = ph_alloc (ss_heap s)"
      "ph_alloc g' = ph_alloc (ss_heap s')"
    using assms(1,2) by (auto simp: sim_def heap_sim_def)
  then show ?thesis using assms(3) by (simp add: same_frame_def)
qed

lemma sim_frames:
  assumes "sim P F s t" "owned t ps"
  shows "frames s = frames t"
proof
  fix q
  have "frame_of (ss_heap t) k = frame_of (ss_heap s) k" if "k \<in> dom (ph_pkts (ss_heap t))" for k
    using that heap_simD(1) [OF simD(1) [OF assms(1)], of k] by (auto simp: frame_of_def)
  then show "frames s q = frames t q"
    using owned_queued(1) [OF assms(2)] out_queue_queued [of q t] sim_views(1,2) [OF assms(1)]
    by (auto simp: frames_def)
qed

text \<open>A buffer in hand is filled and goes to the switch.\<close>

lemma filled_buffer:
  assumes "accounts P R s" "k \<in> R" "length bs \<le> 1518" "ph_pkts (ss_heap s) k = Some d"
  shows "\<exists>d'. and_then (data_pkt_fill k bs (ss_heap s)) (data_pkt_set_len k (of_nat (length bs)))
      = Inr ((ss_heap s)\<lparr>ph_pkts := (ph_pkts (ss_heap s))(k \<mapsto> d')\<rparr>)
    \<and> buffer_ok d' \<and> dp_used d' \<and> payload d' = bs"
proof -
  have k: "k \<in> P" using accounts_used(4) [OF assms(1)] assms(2) by blast
  have d: "buffer_ok d" "dp_used d" using accounts_used(1) [OF assms(1) k] assms(2,4) by auto
  have b: "dp_data d + length bs \<le> length (dp_buf d)"
    using d(1) assms(3) by (auto simp: buffer_ok_def pkt_wf_def)
  have u: "unat (of_nat (length bs) :: u32) = length bs" using assms(3) by (intro unat_of_nat_below) simp
  let ?d = "d\<lparr>dp_buf := take (dp_data d) (dp_buf d) @ bs @ drop (dp_data d + length bs) (dp_buf d),
    dp_data_len := of_nat (length bs)\<rparr>"
  have "buffer_ok ?d" "dp_used ?d" "payload ?d = bs"
    using d b u assms(3) by (auto simp: buffer_ok_def is_static_def pkt_wf_def payload_def)
  then show ?thesis using assms(4) b
    by (intro exI [of _ ?d]) (simp add: data_pkt_fill_def data_pkt_set_len_def pkt_write_def)
qed

lemma accounts_hand:
  assumes "accounts P R s" "k \<in> R" "buffer_ok d" "dp_used d"
    and "s' = s\<lparr>ss_heap := (ss_heap s)\<lparr>ph_pkts := (ph_pkts (ss_heap s))(k \<mapsto> d)\<rparr>\<rparr>"
  obtains F t where "sim (P - (R - {k})) F s' t" "owned t {k}" "frames t = frames s"
    "dom F = R - {k}" "\<And>j e. F j = Some e \<Longrightarrow> buffer_ok e \<and> dp_used e"
    "ph_pkts (ss_heap t) k = Some (dyn d)"
proof -
  obtain g F where a: "R \<subseteq> P" "dom F = R" "\<And>k d. F k = Some d \<Longrightarrow> buffer_ok d \<and> dp_used d"
    "heap_sim (P - R) F (ss_heap s) g" "owned (s\<lparr>ss_heap := g\<rparr>) {}" by (rule accountsE [OF assms(1)]) blast
  have k: "k \<in> P" using a(1) assms(2) by blast
  obtain d0 where d0: "ph_pkts (ss_heap s) k = Some d0" using accounts_used(1) [OF assms(1) k] by blast
  have gk: "ph_pkts g k = None"
    using accounts_used(2) [OF assms(1)] assms(2) owned_split(1) [OF a(5)] by auto
  let ?g = "g\<lparr>ph_pkts := (ph_pkts g)(k \<mapsto> dyn d)\<rparr>" and ?F = "F(k := None)"
  let ?t = "s\<lparr>ss_heap := ?g\<rparr>"
  have kn: "k < ph_next (ss_heap s)" by (rule heap_simD(2) [OF a(4) d0])
  have hs: "heap_sim (P - (R - {k})) ?F (ss_heap s') ?g"
    using a(4) assms(3,4) k kn unfolding heap_sim_def assms(5) by auto
  have sm: "sim (P - (R - {k})) ?F s' ?t"
    using hs unfolding sim_def by (intro exI [of _ ?g]) (simp add: assms(5))
  have nx: "ph_next g = ph_next (ss_heap s)" using a(4) by (simp add: heap_sim_def)
  have "k \<notin> dom (ph_pkts g)" "finite (dom (ph_pkts g))" using gk a(5) by (auto simp: owned_def)
  then have "mset_set (insert k (dom (ph_pkts g))) = add_mset k (mset_set (dom (ph_pkts g)))" by simp
  then have own: "owned ?t {k}"
    using a(5) gk kn nx assms(3) by (auto simp: owned_def heap_ok_def buffer_ok_def)
  have "frames ((s\<lparr>ss_heap := g\<rparr>)\<lparr>ss_heap := ?g\<rparr>) = frames (s\<lparr>ss_heap := g\<rparr>)"
    by (rule frames_same_heap [OF a(5)]) (use gk in auto)
  then have "frames ?t = frames (s\<lparr>ss_heap := g\<rparr>)" by simp
  also have "\<dots> = frames s" using sim_frames [OF _ a(5)] a(4) by (metis sim_def)
  finally have "frames ?t = frames s" .
  moreover have "dom ?F = R - {k}" using a(2) by auto
  moreover have "\<And>j e. ?F j = Some e \<Longrightarrow> buffer_ok e \<and> dp_used e" using a(3) by (auto split: if_splits)
  ultimately show thesis using that [OF sm own] by simp
qed

lemma accounts_back:
  assumes "accounts P R s" "R' \<subseteq> R" "sim (P - R') F s' t'" "owned t' {}" "dom F = R'"
    and "\<And>j e. F j = Some e \<Longrightarrow> buffer_ok e \<and> dp_used e"
  shows "accounts P R' s'"
  using assms accounts_used(4) [OF assms(1)] unfolding accounts_def by blast

lemma accounts_in_nocpy:
  assumes "accounts P R s" "switch_inv s" "src \<in> set (all_ports s)" "k \<in> R"
    and "6 \<le> length bs" "length bs \<le> 1518"
  shows "\<exists>h' s'. and_then (data_pkt_fill k bs (ss_heap s)) (data_pkt_set_len k (of_nat (length bs))) = Inr h'
    \<and> port_in_pkt_nocpy src k notify (s\<lparr>ss_heap := h'\<rparr>) = Inr s' \<and> accounts P (R - {k}) s' \<and> same_frame s s'
    \<and> switch_inv s' \<and> ((\<forall>n. ph_alloc (ss_heap s) n) \<longrightarrow> frames s' = deliver (forward_set s src bs) bs (frames s))"
proof -
  have "k \<in> P" using accounts_used(4) [OF assms(1)] assms(4) by blast
  then obtain d where d: "ph_pkts (ss_heap s) k = Some d" using accounts_used(1) [OF assms(1)] by blast
  obtain d' where d': "and_then (data_pkt_fill k bs (ss_heap s)) (data_pkt_set_len k (of_nat (length bs)))
      = Inr ((ss_heap s)\<lparr>ph_pkts := (ph_pkts (ss_heap s))(k \<mapsto> d')\<rparr>)"
      "buffer_ok d'" "dp_used d'" "payload d' = bs"
    using filled_buffer [OF assms(1,4,6) d] by blast
  define s1 where "s1 = s\<lparr>ss_heap := (ss_heap s)\<lparr>ph_pkts := (ph_pkts (ss_heap s))(k \<mapsto> d')\<rparr>\<rparr>"
  obtain F t where t: "sim (P - (R - {k})) F s1 t" "owned t {k}" "frames t = frames s" "dom F = R - {k}"
      "\<And>j e. F j = Some e \<Longrightarrow> buffer_ok e \<and> dp_used e" "ph_pkts (ss_heap t) k = Some (dyn d')"
    using accounts_hand [OF assms(1,4) d'(2,3) s1_def] by metis
  have v: "switch_inv t" "src \<in> set (all_ports t)" "6 \<le> length (payload (dyn d'))"
    using sim_views [OF t(1)] assms(2,3,5) d'(4) by (simp_all add: s1_def switch_inv_def)
  obtain t' where t': "port_in_pkt_nocpy src k notify t = Inr t'" "forwarded (forward_set t src bs) bs t t'"
    using in_nocpy_step [OF v(1) t(2) v(2) t(6) v(3), of notify] d'(4) by auto
  obtain s' where s': "port_in_pkt_nocpy src k notify s1 = Inr s'" "sim (P - (R - {k})) F s' t'"
    using rel_outD [OF in_nocpy_sim [OF t(1)] t'(1)] by blast
  have own: "owned t' {}" and fr: "same_frame t t'" using t'(2) by (simp_all add: forwarded_def)
  have acc: "accounts P (R - {k}) s'" by (rule accounts_back [OF assms(1) _ s'(2) own t(4,5)]) auto
  have fr1: "same_frame s1 s'" by (rule sim_same_frame [OF t(1) s'(2) fr])
  have fr0: "same_frame s s1" by (simp add: s1_def)
  have al: "ph_alloc (ss_heap t) = ph_alloc (ss_heap s)"
    using simD(1) [OF t(1)] by (simp add: heap_sim_def s1_def)
  have fs: "forward_set t src bs = forward_set s src bs"
    using sim_views(6) [OF t(1)] forward_set_frame [OF fr0] by simp
  have "frames s' = deliver (forward_set s src bs) bs (frames s)" if "\<forall>n. ph_alloc (ss_heap s) n"
    using t'(2) that t(3) al fs sim_frames [OF s'(2) own] by (simp add: forwarded_def)
  then show ?thesis
    using d'(1) s'(1) acc same_frame_trans [OF fr0 fr1] frame_inv [OF same_frame_trans [OF fr0 fr1] assms(2)]
    by (auto simp: s1_def)
qed

lemma accounts_notify:
  assumes "accounts P R s" "switch_inv s"
  shows "\<exists>s'. notify_ports s = Inr s' \<and> quiet s s' \<and> accounts P R s'"
proof -
  obtain s' where s': "notify_ports s = Inr s'" "quiet s s'" using notify_ports_quiet [OF assms(2)] by blast
  obtain t F where t: "R \<subseteq> P" "dom F = R" "\<forall>k d. F k = Some d \<longrightarrow> buffer_ok d \<and> dp_used d" "sim (P - R) F s t" "owned t {}"
    using assms(1) by (auto simp: accounts_def)
  have "switch_inv t" using sim_views(7) [OF t(4)] assms(2) by simp
  then obtain t' where t': "notify_ports t = Inr t'" "quiet t t'" using notify_ports_quiet by blast
  obtain s2 where "notify_ports s = Inr s2" "sim (P - R) F s2 t'"
    using rel_outD [OF notify_ports_sim [OF t(4)] t'(1)] by blast
  then have "sim (P - R) F s' t'" using s'(1) by simp
  moreover have "owned t' {}" using t'(2) t(5) by (simp add: quiet_def)
  ultimately show ?thesis using s' t(1-3) unfolding accounts_def by blast
qed

text \<open>The thread of a port takes an event and sends what is queued.\<close>

lemma accounts_process:
  assumes "accounts P R s" "switch_inv s" "q \<in> set (all_ports s)"
  shows "\<exists>r s'. port_process_pkts q s = Inr (r, s') \<and> accounts P R s' \<and> same_frame s s' \<and> switch_inv s'"
proof -
  obtain t F where t: "R \<subseteq> P" "dom F = R" "\<forall>k d. F k = Some d \<longrightarrow> buffer_ok d \<and> dp_used d" "sim (P - R) F s t" "owned t {}"
    using assms(1) by (auto simp: accounts_def)
  have v: "switch_inv t" "q \<in> set (all_ports t)" using sim_views [OF t(4)] assms(2,3) by simp_all
  obtain x where x: "ss_ports t q = Some x" using inv_port [OF v] by blast
  have "\<exists>r t'. port_process_pkts q t = Inr (r, t') \<and> same_frame t t' \<and> owned t' {}"
  proof (cases "sp_mqueue x")
    case Nil
    then show ?thesis using x t(5) by (simp add: port_process_pkts_def)
  next
    case (Cons e es)
    let ?t = "upd_port q (\<lambda>x. x\<lparr>sp_mqueue := es\<rparr>) t"
    have qt: "quiet t ?t" by (rule quiet_upd_port) (simp_all add: skel_def)
    then have fr: "same_frame t ?t" and own: "owned ?t {}" using t(5) by (simp_all add: quiet_def)
    have oq: "out_queue ?t q = sp_data_out x" by (simp add: out_queue_def upd_port_def x)
    have qp: "q \<in> set (all_ports ?t)" using v(2) frame_views(1) [OF fr] by simp
    obtain t' where "send_queued q (sp_data_out x) ?t = Inr t'" "same_frame ?t t'" "owned t' {}"
      using send_queued_step [OF frame_inv [OF fr v(1)] own qp oq] by blast
    then show ?thesis using x Cons own fr same_frame_trans [OF fr]
      by (cases "e = PORT_STOP") (auto simp: port_process_pkts_def)
  qed
  then obtain r t' where t': "port_process_pkts q t = Inr (r, t')" "same_frame t t'" "owned t' {}" by blast
  obtain s' where s': "port_process_pkts q s = Inr (r, s')" "sim (P - R) F s' t'"
    using rel_outD [OF process_sim [OF t(4)] t'(1)] by (auto simp: sim2_def)
  have "same_frame s s'" by (rule sim_same_frame [OF t(4) s'(2) t'(2)])
  moreover have "accounts P R s'" using s'(2) t(1-3) t'(3) unfolding accounts_def by blast
  ultimately show ?thesis using s'(1) frame_inv [OF _ assms(2)] by blast
qed

end
