(* ===== verification/Port_Enet.thy ===== *)
theory Port_Enet
  imports Static_Pkt
begin


text \<open>
  The port of a physical Ethernet controller, \<open>src/net/port_enet.c\<close>, over the controller and PHY
  drivers of the SDK, which are not in the repository: what they answer is an argument. The receive
  buffers are static packets, number \<open>i\<close> of the heap for \<open>enet_rx_buffer[i]\<close>; the controller gets
  them from \<open>rx_buff_alloc\<close>, fills them and hands them over with each frame. An address in a buffer is
  its number and an offset. Speed and duplex are the numbers of their enumerations.
\<close>

subsection \<open>The state\<close>

record enet_err_stats =
  ee_truncate_err :: u64
  ee_crc_err :: u64
  ee_over_run_err :: u64
  ee_align_err :: u64
  ee_rx_len_greater_err :: u64

record enet_priv_stats =
  ep_rx_pkts :: u64
  ep_rx_dropped :: u64
  ep_err_stats :: enet_err_stats
  ep_tx_pkts :: u64
  ep_tx_err_pkts :: u64

text \<open>
  The device with the switch it is a port of. \<open>en_mqueue\<close> counts the events in its queue, which has
  room for ten; \<open>en_mii\<close> is what the media interface of the controller was last set to, \<open>en_rx_ic\<close> its interrupt coalescing time, \<open>en_sent\<close> the
  frames given to the controller.
\<close>

record enet_device =
  en_switch :: switch_sys
  en_port_dev :: nat
  en_mqueue :: nat
  en_link_up :: bool
  en_speed :: nat
  en_duplex :: nat
  en_stats :: enet_priv_stats
  en_mii :: "nat \<times> nat"
  en_rx_ic :: u32
  en_sent :: "u8 list list"

type_synonym buff_addr = "nat \<times> nat"

definition ENET_RXBD_NUM :: nat where "ENET_RXBD_NUM = 256"
definition STATIC_BUFF_COUNT :: nat where "STATIC_BUFF_COUNT = ENET_RXBD_NUM * 3"
definition ENET_RX_ICS_TIMEOUT_US :: u32 where "ENET_RX_ICS_TIMEOUT_US = 1000"

definition enet_upd :: "(enet_priv_stats \<Rightarrow> enet_priv_stats) \<Rightarrow> enet_device \<Rightarrow> enet_device" where
  "enet_upd f e = e\<lparr>en_stats := f (en_stats e)\<rparr>"

definition put_heap :: "pkt_heap \<Rightarrow> switch_sys \<Rightarrow> switch_sys" where
  "put_heap h s = s\<lparr>ss_heap := h\<rparr>"

subsection \<open>The receive buffers\<close>

text \<open>\<open>data_pkt_get\<close> steps back from the address over the head room to the packet.\<close>

definition data_pkt_get :: "buff_addr \<Rightarrow> nat outcome" where
  "data_pkt_get a = (if snd a = DATA_PKT_HEAD_ROOM then Inr (fst a) else Inl Out_Of_Bounds)"

text \<open>Building the packets in the buffers of \<open>size\<close> bytes.\<close>

fun static_buff_init :: "u32 \<Rightarrow> nat list \<Rightarrow> pkt_heap \<Rightarrow> pkt_heap outcome" where
  "static_buff_init sz [] h = Inr h"
| "static_buff_init sz (i # is) h =
     and_then (data_pkt_build (replicate (unat sz) 0) sz
         (push_bit DATA_PKT_FLAG_CAN_FREE 1 OR push_bit DATA_PKT_FLAG_STATIC_BUFF 1) False) (\<lambda>d.
       static_buff_init sz is (h\<lparr>ph_pkts := (ph_pkts h)(i \<mapsto> d\<lparr>dp_used := False\<rparr>)\<rparr>))"

fun find_unused :: "nat list \<Rightarrow> pkt_heap \<Rightarrow> (buff_addr option \<times> pkt_heap) outcome" where
  "find_unused [] h = Inr (None, h)"
| "find_unused (i # is) h =
     and_then (pkt_at h i) (\<lambda>d.
       if \<not> dp_used d
       then Inr (Some (i, dp_data d), h\<lparr>ph_pkts := (ph_pkts h)(i \<mapsto> d\<lparr>dp_used := True\<rparr>)\<rparr>)
       else find_unused is h)"

definition rx_buff_alloc :: "pkt_heap \<Rightarrow> (buff_addr option \<times> pkt_heap) outcome" where
  "rx_buff_alloc h = find_unused [0..<STATIC_BUFF_COUNT] h"

definition rx_buff_free :: "buff_addr \<Rightarrow> pkt_heap \<Rightarrow> pkt_heap outcome" where
  "rx_buff_free a h =
     and_then (data_pkt_get a) (\<lambda>k. and_then (pkt_at h k) (\<lambda>d.
       Inr (h\<lparr>ph_pkts := (ph_pkts h)(k \<mapsto> d\<lparr>dp_used := False\<rparr>)\<rparr>)))"

subsection \<open>Receiving\<close>

text \<open>
  What \<open>ENET_GetRxFrame\<close> answers: a frame in a buffer, a frame that was dropped for want of a buffer, or
  an error with its flags (truncated, overrun, checksum, alignment, too long). The loop ends when there
  is no frame, which is the end of the list of answers. The bytes of a frame were written into
  the buffer by the controller.
\<close>

datatype rx_status =
    RxFrame buff_addr "u8 list"
  | RxFrameDrop
  | RxFrameError bool bool bool bool bool

definition bump :: "bool \<Rightarrow> u64 \<Rightarrow> u64" where
  "bump b n = (if b then n + 1 else n)"

fun enet_get_frame :: "rx_status \<Rightarrow> enet_device \<Rightarrow> (bool \<times> enet_device) outcome" where
  "enet_get_frame (RxFrame addr bs) e =
     (let e1 = enet_upd (\<lambda>t. t\<lparr>ep_rx_pkts := ep_rx_pkts t + 1\<rparr>) e in
      and_then (data_pkt_get addr) (\<lambda>pkt.
      and_then (and_then (data_pkt_fill pkt bs (ss_heap (en_switch e1))) (data_pkt_set_len pkt (of_nat (length bs)))) (\<lambda>h.
      and_then (port_in_pkt_nocpy (en_port_dev e1) pkt False (put_heap h (en_switch e1))) (\<lambda>w.
        Inr (True, e1\<lparr>en_switch := w\<rparr>)))))"
| "enet_get_frame RxFrameDrop e = Inr (False, enet_upd (\<lambda>t. t\<lparr>ep_rx_dropped := ep_rx_dropped t + 1\<rparr>) e)"
| "enet_get_frame (RxFrameError trunc over fcs align long) e =
     Inr (False, enet_upd (\<lambda>t. t\<lparr>ep_err_stats := (ep_err_stats t)
        \<lparr>ee_truncate_err := bump trunc (ee_truncate_err (ep_err_stats t)),
         ee_over_run_err := bump over (ee_over_run_err (ep_err_stats t)),
         ee_crc_err := bump fcs (ee_crc_err (ep_err_stats t)),
         ee_align_err := bump align (ee_align_err (ep_err_stats t)),
         ee_rx_len_greater_err := bump long (ee_rx_len_greater_err (ep_err_stats t))\<rparr>\<rparr>) e)"

fun enet_drain :: "bool \<Rightarrow> rx_status list \<Rightarrow> enet_device \<Rightarrow> (bool \<times> enet_device) outcome" where
  "enet_drain need_notify [] e = Inr (need_notify, e)"
| "enet_drain need_notify (r # rs) e =
     and_then (enet_get_frame r e) (\<lambda>(got, e1). enet_drain (need_notify \<or> got) rs e1)"

text \<open>One round of the task: it waits while there is no event.\<close>

definition enet_process_pkts :: "rx_status list \<Rightarrow> enet_device \<Rightarrow> enet_device outcome" where
  "enet_process_pkts rs e =
     (if en_mqueue e = 0 then Inr e
      else and_then (enet_drain False rs (e\<lparr>en_mqueue := en_mqueue e - 1\<rparr>)) (\<lambda>(need_notify, e1).
        if need_notify then and_then (notify_ports (en_switch e1)) (\<lambda>w. Inr (e1\<lparr>en_switch := w\<rparr>))
        else Inr e1))"

text \<open>The interrupt callback of the controller: only receive events are passed on, and lost when ten wait.\<close>

datatype enet_event = RxEvent | OtherEvent

definition enet_callback :: "enet_event \<Rightarrow> enet_device \<Rightarrow> enet_device" where
  "enet_callback ev e =
     (case ev of RxEvent \<Rightarrow> if en_mqueue e < 10 then e\<lparr>en_mqueue := en_mqueue e + 1\<rparr> else e
      | OtherEvent \<Rightarrow> e)"

subsection \<open>Transmitting and the link\<close>

text \<open>\<open>max_framelen\<close> is \<open>ENET_FRAME_MAX_FRAMELEN\<close> of the driver, \<open>sent_ok\<close> whether \<open>ENET_SendFrame\<close> succeeds.\<close>

definition enet_output :: "u32 \<Rightarrow> bool \<Rightarrow> data_pkt \<Rightarrow> enet_device \<Rightarrow> (int \<times> enet_device) outcome" where
  "enet_output max_framelen sent_ok pkt e =
     (let err = (-1, enet_upd (\<lambda>t. t\<lparr>ep_tx_err_pkts := ep_tx_err_pkts t + 1\<rparr>) e) in
      if max_framelen \<le> dp_data_len pkt then Inr err
      else and_then (pkt_read pkt (unat (dp_data_len pkt))) (\<lambda>bs.
        if \<not> sent_ok then Inr err
        else Inr (0, enet_upd (\<lambda>t. t\<lparr>ep_tx_pkts := ep_tx_pkts t + 1\<rparr>) (e\<lparr>en_sent := en_sent e @ [bs]\<rparr>))))"

text \<open>The link flag is the end of the cable at the device, which the switch reads through a pointer.\<close>

definition set_link_up :: "bool \<Rightarrow> enet_device \<Rightarrow> enet_device" where
  "set_link_up up e = e\<lparr>en_link_up := up,
     en_switch := upd_port (en_port_dev e) (\<lambda>x. x\<lparr>sp_dev_end_on := up\<rparr>) (en_switch e)\<rparr>"

text \<open>A round of the PHY task: the link, whether negotiation is complete, speed and duplex.\<close>

definition enet_phy_status :: "bool \<times> bool \<times> nat \<times> nat \<Rightarrow> enet_device \<Rightarrow> enet_device" where
  "enet_phy_status p e =
     (case p of (link_on, autonego, speed, duplex) \<Rightarrow>
       if link_on = en_link_up e then e
       else if link_on then
         if \<not> autonego then e
         else set_link_up True
           (if speed \<noteq> en_speed e \<or> duplex \<noteq> en_duplex e
            then e\<lparr>en_mii := (speed, duplex), en_speed := speed, en_duplex := duplex\<rparr> else e)
       else set_link_up False e)"

subsection \<open>Set-up\<close>

text \<open>
  \<open>align\<close> is \<open>ENET_BUFF_ALIGNMENT\<close>, \<open>sz\<close> the size of a receive buffer, \<open>freq\<close> the
  clock of the controller, \<open>phy_ok\<close> whether the PHY can be
  initialised, \<open>dflt\<close> the SDK's numbers for 1000 Mbit/s and full duplex. The configuration handed to
  \<open>ENET_Init\<close> is the interface setting and the interrupt coalescing time.
\<close>

definition coalescing_time :: "u32 \<Rightarrow> u32" where
  "coalescing_time enet_ipg_freq = ENET_RX_ICS_TIMEOUT_US * (enet_ipg_freq div 64000) div 1000"

definition enet_setup ::
    "nat \<Rightarrow> u32 \<Rightarrow> u32 \<Rightarrow> bool \<Rightarrow> nat \<times> nat \<Rightarrow> bool \<times> bool \<times> nat \<times> nat \<Rightarrow> enet_device \<Rightarrow> (int \<times> enet_device) outcome" where
  "enet_setup align sz freq phy_ok dflt p e =
     os_assert (DATA_PKT_HEAD_ROOM mod align = 0)
      (and_then (static_buff_init sz [0..<STATIC_BUFF_COUNT] (ss_heap (en_switch e))) (\<lambda>h.
        let e1 = e\<lparr>en_switch := put_heap h (en_switch e)\<rparr> in
        if \<not> phy_ok then Inr (-1, e1)
        else case p of (link_on, autonego, speed, duplex) \<Rightarrow>
          let (sd, up) = (if link_on \<and> autonego then ((speed, duplex), True) else (dflt, False))
          in Inr (0, e1\<lparr>en_link_up := up, en_speed := fst sd, en_duplex := snd sd, en_mii := sd,
               en_rx_ic := coalescing_time freq\<rparr>)))"

definition enet_config :: "bool \<Rightarrow> port_config" where
  "enet_config up = \<lparr>pc_is_local = False, pc_name = take 19 ''ENET_Switch_Port'',
     pc_mac_addr = replicate 6 0, pc_dev_end_on = Some up, pc_setup_address_cb = True\<rparr>"

definition zero_enet :: "switch_sys \<Rightarrow> nat \<Rightarrow> enet_device" where
  "zero_enet w p = \<lparr>en_switch = w, en_port_dev = p, en_mqueue = 0, en_link_up = False, en_speed = 0, en_duplex = 0,
     en_stats = \<lparr>ep_rx_pkts = 0, ep_rx_dropped = 0, ep_err_stats = \<lparr>ee_truncate_err = 0, ee_crc_err = 0,
       ee_over_run_err = 0, ee_align_err = 0, ee_rx_len_greater_err = 0\<rparr>, ep_tx_pkts = 0, ep_tx_err_pkts = 0\<rparr>,
     en_mii = (0, 0), en_rx_ic = 0, en_sent = []\<rparr>"

text \<open>The conditions: memory for the device, its queue, the port, and the port's semaphore and queue, tasks.\<close>

definition enet_port_init ::
    "bool \<Rightarrow> bool \<Rightarrow> bool \<Rightarrow> bool \<times> bool \<Rightarrow> bool \<Rightarrow> nat \<Rightarrow> u32 \<Rightarrow> u32 \<Rightarrow> bool \<Rightarrow> nat \<times> nat \<Rightarrow>
       bool \<times> bool \<times> nat \<times> nat \<Rightarrow> switch_sys \<Rightarrow> (int \<times> enet_device) outcome" where
  "enet_port_init alloc mq_ok palloc pt_ok thread_ok align sz freq phy_ok dflt p w =
     os_assert alloc (os_assert mq_ok
      (and_then (switch_init_port palloc w) (\<lambda>(q, w1).
       and_then (enet_setup align sz freq phy_ok dflt p (zero_enet w1 q)) (\<lambda>(ret, e).
         if ret \<noteq> 0 then Inr (-1, e)
         else and_then (switch_add_port (fst pt_ok) (snd pt_ok) q (enet_config (en_link_up e)) (en_switch e)) (\<lambda>w2.
           os_assert thread_ok (Inr (0, e\<lparr>en_switch := w2\<rparr>)))))))"

subsection \<open>The buffers\<close>

definition pool :: "nat set" where "pool = {..<768}"

definition enet_inv :: "nat set \<Rightarrow> enet_device \<Rightarrow> bool" where
  "enet_inv R e \<longleftrightarrow> accounts pool R (en_switch e) \<and> switch_inv (en_switch e)
     \<and> en_port_dev e \<in> set (all_ports (en_switch e))"

text \<open>The buffers that are neither in the hands of the controller nor queued.\<close>

definition idle_buffers :: "nat set \<Rightarrow> switch_sys \<Rightarrow> nat set" where
  "idle_buffers R s = pool - R - set (queued s)"

lemma find_unused_spec:
  assumes "\<And>i. i \<in> set is \<Longrightarrow> \<exists>d. ph_pkts h i = Some d \<and> dp_data d = DATA_PKT_HEAD_ROOM \<and> (dp_used d \<longleftrightarrow> i \<notin> I)"
  shows "find_unused is h = Inr (case find (\<lambda>i. i \<in> I) is of None \<Rightarrow> (None, h)
    | Some i \<Rightarrow> (Some (i, DATA_PKT_HEAD_ROOM), h\<lparr>ph_pkts := (ph_pkts h)(i \<mapsto> (the (ph_pkts h i))\<lparr>dp_used := True\<rparr>)\<rparr>))"
  using assms
proof (induction "is")
  case (Cons i "is")
  obtain d where "ph_pkts h i = Some d" "dp_data d = DATA_PKT_HEAD_ROOM" "dp_used d \<longleftrightarrow> i \<notin> I" using Cons.prems by force
  then show ?case using Cons by simp
qed simp

lemma rx_buff_alloc_spec:
  assumes "accounts pool R s"
  shows "idle_buffers R s = {} \<Longrightarrow> rx_buff_alloc (ss_heap s) = Inr (None, ss_heap s)"
    and "idle_buffers R s \<noteq> {} \<Longrightarrow> \<exists>k d. k \<in> idle_buffers R s \<and> (\<forall>j \<in> idle_buffers R s. k \<le> j)
      \<and> ph_pkts (ss_heap s) k = Some d \<and> \<not> dp_used d
      \<and> rx_buff_alloc (ss_heap s) = Inr (Some (k, DATA_PKT_HEAD_ROOM),
          (ss_heap s)\<lparr>ph_pkts := (ph_pkts (ss_heap s))(k \<mapsto> d\<lparr>dp_used := True\<rparr>)\<rparr>)"
proof -
  let ?I = "idle_buffers R s"
  have p: "set [0..<STATIC_BUFF_COUNT] = pool" by (auto simp: pool_def STATIC_BUFF_COUNT_def ENET_RXBD_NUM_def)
  have b: "\<exists>d. ph_pkts (ss_heap s) i = Some d \<and> dp_data d = DATA_PKT_HEAD_ROOM \<and> (dp_used d \<longleftrightarrow> i \<notin> ?I)"
    if "i \<in> set [0..<STATIC_BUFF_COUNT]" for i
  proof -
    have "i \<in> pool" using that p by blast
    then show ?thesis using accounts_used(1) [OF assms, of i] by (auto simp: idle_buffers_def buffer_ok_def)
  qed
  note spec = find_unused_spec [of "[0..<STATIC_BUFF_COUNT]" "ss_heap s" ?I, OF b]
  show "rx_buff_alloc (ss_heap s) = Inr (None, ss_heap s)" if "?I = {}"
  proof -
    have "find (\<lambda>i. i \<in> ?I) [0..<STATIC_BUFF_COUNT] = None" by (simp add: find_None_iff that)
    then show ?thesis using spec by (simp add: rx_buff_alloc_def)
  qed
  assume ne: "?I \<noteq> {}"
  have "find (\<lambda>i. i \<in> ?I) [0..<STATIC_BUFF_COUNT] \<noteq> None"
    using ne p by (auto simp: find_None_iff idle_buffers_def)
  then obtain k where k: "find (\<lambda>i. i \<in> ?I) [0..<STATIC_BUFF_COUNT] = Some k" by blast
  then obtain m where m: "m < STATIC_BUFF_COUNT" "k = m" "m \<in> ?I" "\<forall>j < m. j \<notin> ?I"
    by (auto simp: find_Some_iff)
  obtain d where d: "ph_pkts (ss_heap s) k = Some d" "\<not> dp_used d" using b [of k] m by auto
  then show "\<exists>k d. k \<in> ?I \<and> (\<forall>j \<in> ?I. k \<le> j) \<and> ph_pkts (ss_heap s) k = Some d \<and> \<not> dp_used d
      \<and> rx_buff_alloc (ss_heap s) = Inr (Some (k, DATA_PKT_HEAD_ROOM),
          (ss_heap s)\<lparr>ph_pkts := (ph_pkts (ss_heap s))(k \<mapsto> d\<lparr>dp_used := True\<rparr>)\<rparr>)"
    using spec k m by (intro exI [of _ k] exI [of _ d]) (auto simp: rx_buff_alloc_def not_less [symmetric])
qed

subsection \<open>Frames\<close>

fun buffers :: "rx_status list \<Rightarrow> nat list" where
  "buffers [] = []"
| "buffers (RxFrame a bs # rs) = fst a # buffers rs"
| "buffers (RxFrameDrop # rs) = buffers rs"
| "buffers (RxFrameError a b c d l # rs) = buffers rs"

fun frames_in :: "rx_status list \<Rightarrow> u8 list list" where
  "frames_in [] = []"
| "frames_in (RxFrame a bs # rs) = bs # frames_in rs"
| "frames_in (RxFrameDrop # rs) = frames_in rs"
| "frames_in (RxFrameError a b c d l # rs) = frames_in rs"

text \<open>
  What the controller driver may answer: frames in buffers it has in hand, each handed over
  once, of at least the two addresses and the type and at most the largest Ethernet frame.
\<close>

definition driver_ok :: "nat set \<Rightarrow> rx_status list \<Rightarrow> bool" where
  "driver_ok R rs \<longleftrightarrow> distinct (buffers rs) \<and> set (buffers rs) \<subseteq> R
     \<and> (\<forall>a bs. RxFrame a bs \<in> set rs \<longrightarrow> snd a = DATA_PKT_HEAD_ROOM \<and> 14 \<le> length bs \<and> length bs \<le> 1518)"

lemma drain_step:
  assumes "accounts pool R (en_switch e)" "switch_inv (en_switch e)" "en_port_dev e \<in> set (all_ports (en_switch e))"
    and "driver_ok R rs"
  shows "\<exists>e'. enet_drain n0 rs e = Inr (n0 \<or> frames_in rs \<noteq> [], e') \<and> accounts pool (R - set (buffers rs)) (en_switch e')
    \<and> same_frame (en_switch e) (en_switch e') \<and> switch_inv (en_switch e') \<and> en_port_dev e' = en_port_dev e
    \<and> en_mqueue e' = en_mqueue e
    \<and> ep_rx_pkts (en_stats e') = ep_rx_pkts (en_stats e) + of_nat (length (frames_in rs))
    \<and> ep_rx_dropped (en_stats e') = ep_rx_dropped (en_stats e) + of_nat (count_list rs RxFrameDrop)
    \<and> ((\<forall>n. ph_alloc (ss_heap (en_switch e)) n) \<longrightarrow> (\<forall>q. frames (en_switch e') q = frames (en_switch e) q
         @ filter (\<lambda>f. q \<in> forward_set (en_switch e) (en_port_dev e) f) (frames_in rs)))"
  using assms
proof (induction rs arbitrary: n0 e R)
  case (Cons r rs)
  show ?case
  proof (cases r)
    case RxFrameDrop
    then have ok: "driver_ok R rs" using Cons.prems(4) by (auto simp: driver_ok_def)
    let ?e = "enet_upd (\<lambda>t. t\<lparr>ep_rx_dropped := ep_rx_dropped t + 1\<rparr>) e"
    show ?thesis using Cons.IH [of R ?e n0] Cons.prems(1-3) ok RxFrameDrop
      by (auto simp: enet_upd_def)
  next
    case (RxFrameError t v f a l)
    then have ok: "driver_ok R rs" using Cons.prems(4) by (auto simp: driver_ok_def)
    obtain e1 where e1: "enet_get_frame r e = Inr (False, e1)" "en_switch e1 = en_switch e" "en_port_dev e1 = en_port_dev e"
        "en_mqueue e1 = en_mqueue e" "ep_rx_pkts (en_stats e1) = ep_rx_pkts (en_stats e)"
        "ep_rx_dropped (en_stats e1) = ep_rx_dropped (en_stats e)"
      by (simp add: RxFrameError enet_upd_def)
    show ?thesis using Cons.IH [of R e1 n0] Cons.prems(1-3) ok e1 RxFrameError by simp
  next
    case (RxFrame a bs)
    then have a: "snd a = DATA_PKT_HEAD_ROOM" "14 \<le> length bs" "length bs \<le> 1518" "fst a \<in> R"
      and ok: "driver_ok (R - {fst a}) rs"
      using Cons.prems(4) by (cases a, auto simp: driver_ok_def RxFrame)+
    obtain h' w where w: "and_then (data_pkt_fill (fst a) bs (ss_heap (en_switch e))) (data_pkt_set_len (fst a) (of_nat (length bs))) = Inr h'"
        "port_in_pkt_nocpy (en_port_dev e) (fst a) False (en_switch e\<lparr>ss_heap := h'\<rparr>) = Inr w"
        "accounts pool (R - {fst a}) w" "same_frame (en_switch e) w" "switch_inv w"
        "(\<forall>n. ph_alloc (ss_heap (en_switch e)) n) \<longrightarrow>
          frames w = deliver (forward_set (en_switch e) (en_port_dev e) bs) bs (frames (en_switch e))"
      using accounts_in_nocpy [OF Cons.prems(1-3) a(4) _ a(3), of False] a(2) by auto
    let ?e = "(enet_upd (\<lambda>t. t\<lparr>ep_rx_pkts := ep_rx_pkts t + 1\<rparr>) e)\<lparr>en_switch := w\<rparr>"
    have run: "enet_get_frame r e = Inr (True, ?e)"
      using w(1,2) by (simp add: RxFrame data_pkt_get_def a(1) enet_upd_def put_heap_def)
    have pt: "en_port_dev ?e \<in> set (all_ports (en_switch ?e))"
      using Cons.prems(3) frame_views(1) [OF w(4)] by (simp add: enet_upd_def)
    obtain e' where IH: "enet_drain True rs ?e = Inr (True, e')" "accounts pool (R - {fst a} - set (buffers rs)) (en_switch e')"
        "same_frame w (en_switch e')" "switch_inv (en_switch e')" "en_port_dev e' = en_port_dev e"
        "en_mqueue e' = en_mqueue e"
        "ep_rx_pkts (en_stats e') = ep_rx_pkts (en_stats e) + 1 + of_nat (length (frames_in rs))"
        "ep_rx_dropped (en_stats e') = ep_rx_dropped (en_stats e) + of_nat (count_list rs RxFrameDrop)"
        "(\<forall>n. ph_alloc (ss_heap w) n) \<longrightarrow> (\<forall>q. frames (en_switch e') q = frames w q
           @ filter (\<lambda>f. q \<in> forward_set w (en_port_dev e) f) (frames_in rs))"
      using Cons.IH [of "R - {fst a}" ?e True] w(3,5) pt ok by (simp add: enet_upd_def) blast
    have al: "ph_alloc (ss_heap w) = ph_alloc (ss_heap (en_switch e))" using w(4) by (simp add: same_frame_def)
    have fr: "(\<forall>n. ph_alloc (ss_heap (en_switch e)) n) \<longrightarrow> (\<forall>q. frames (en_switch e') q = frames (en_switch e) q
         @ filter (\<lambda>f. q \<in> forward_set (en_switch e) (en_port_dev e) f) (frames_in (r # rs)))"
      using IH(9) w(6) al forward_set_frame [OF w(4)] by (auto simp: RxFrame deliver_def)
    have "R - {fst a} - set (buffers rs) = R - set (buffers (r # rs))" by (auto simp: RxFrame)
    then show ?thesis
      using run IH(1-8) fr same_frame_trans [OF w(4) IH(3)] by (auto simp: RxFrame add.assoc)
  qed
qed simp

text \<open>
  C5: Received Ethernet frames reach the ports of the switch. When the task serves an event,
  whatever the memory, every buffer the controller hands over leaves its hands for the switch
  without being shared or lost, and frames and drops are counted. Given memory for the copies,
  every frame joins, unchanged and in order, the queues of exactly the ports it is forwarded to.
  The driver hands over each buffer it has in hand at most once, with a frame of 14 to 1518
  bytes (\<open>driver_ok\<close>). Memory for copies does run out in use: the copy of a frame
  in a static buffer is never freed (\<open>static_clone_never_freed\<close>), and once no copy
  can be made the copies of a frame for several ports are missing, which is why delivery is
  stated under that condition.
\<close>

theorem enet_frames_delivered:
  assumes "enet_inv R e" "0 < en_mqueue e" "driver_ok R rs"
  shows "\<exists>e'. enet_process_pkts rs e = Inr e' \<and> enet_inv (R - set (buffers rs)) e'
    \<and> en_mqueue e' = en_mqueue e - 1
    \<and> ep_rx_pkts (en_stats e') = ep_rx_pkts (en_stats e) + of_nat (length (frames_in rs))
    \<and> ep_rx_dropped (en_stats e') = ep_rx_dropped (en_stats e) + of_nat (count_list rs RxFrameDrop)
    \<and> ((\<forall>n. ph_alloc (ss_heap (en_switch e)) n) \<longrightarrow> (\<forall>q. frames (en_switch e') q = frames (en_switch e) q
         @ filter (\<lambda>f. q \<in> forward_set (en_switch e) (en_port_dev e) f) (frames_in rs)))"
proof -
  let ?e = "e\<lparr>en_mqueue := en_mqueue e - 1\<rparr>"
  obtain e1 where d: "enet_drain False rs ?e = Inr (frames_in rs \<noteq> [], e1)" "accounts pool (R - set (buffers rs)) (en_switch e1)"
      "same_frame (en_switch e) (en_switch e1)" "switch_inv (en_switch e1)" "en_port_dev e1 = en_port_dev e"
      "en_mqueue e1 = en_mqueue e - 1"
      "ep_rx_pkts (en_stats e1) = ep_rx_pkts (en_stats e) + of_nat (length (frames_in rs))"
      "ep_rx_dropped (en_stats e1) = ep_rx_dropped (en_stats e) + of_nat (count_list rs RxFrameDrop)"
      "(\<forall>n. ph_alloc (ss_heap (en_switch e)) n) \<longrightarrow> (\<forall>q. frames (en_switch e1) q = frames (en_switch e) q
         @ filter (\<lambda>f. q \<in> forward_set (en_switch e) (en_port_dev e) f) (frames_in rs))"
    using drain_step [of R ?e rs False] assms by (auto simp: enet_inv_def)
  have p1: "en_port_dev e1 \<in> set (all_ports (en_switch e1))"
    using assms(1) frame_views(1) [OF d(3)] d(5) by (simp add: enet_inv_def)
  obtain w where w: "notify_ports (en_switch e1) = Inr w" "quiet (en_switch e1) w" "accounts pool (R - set (buffers rs)) w"
    using accounts_notify [OF d(2,4)] by blast
  have fr: "same_frame (en_switch e1) w" "frames w = frames (en_switch e1)" using w(2) by (simp_all add: quiet_def)
  have "enet_inv (R - set (buffers rs)) e1" "enet_inv (R - set (buffers rs)) (e1\<lparr>en_switch := w\<rparr>)"
    using d(2,4) p1 w(3) frame_views(1) [OF fr(1)] frame_inv [OF fr(1) d(4)] by (simp_all add: enet_inv_def)
  then show ?thesis
    using d w(1) fr(2) assms(2) by (cases "frames_in rs = []") (simp_all add: enet_process_pkts_def)
qed

subsection \<open>The port after its initialisation\<close>

definition static_pkt :: "u32 \<Rightarrow> data_pkt" where
  "static_pkt sz = \<lparr>dp_buf = replicate (unat sz) 0, dp_data = 128, dp_data_len = 0, dp_tail = unat sz,
     dp_end = unat sz, dp_flags = 3, dp_used = False\<rparr>"

lemma static_pkt_ok: "1646 \<le> unat sz \<Longrightarrow> buffer_ok (static_pkt sz)"
  using u32_lt [of sz] by (auto simp: buffer_ok_def is_static_def static_pkt_def pkt_wf_def pkt_consts bit_simps)

lemma static_buff_init_eq:
  "static_buff_init sz is h = Inr h' \<Longrightarrow> ph_next h' = ph_next h \<and> ph_alloc h' = ph_alloc h
     \<and> ph_pkts h' = (\<lambda>k. if k \<in> set is then Some (static_pkt sz) else ph_pkts h k)"
proof (induction "is" arbitrary: h)
  case (Cons i "is")
  have f: "push_bit DATA_PKT_FLAG_CAN_FREE 1 OR push_bit DATA_PKT_FLAG_STATIC_BUFF 1 = (3 :: u32)"
    by (simp add: pkt_consts)
  have "static_buff_init sz is (h\<lparr>ph_pkts := (ph_pkts h)(i \<mapsto> static_pkt sz)\<rparr>) = Inr h'"
    using Cons.prems unfolding static_buff_init.simps f
    by (auto simp: data_pkt_build_def outcome_simps static_pkt_def pkt_consts)
  then show ?case using Cons.IH by fastforce
qed auto

lemma announce_locals_frame:
  "announce_locals qs s = Inr s' \<Longrightarrow> \<exists>c. s' = s\<lparr>ss_addr_calls := c\<rparr>"
proof (induction qs arbitrary: s)
  case Nil
  then show ?case by (intro exI [of _ "ss_addr_calls s"]) simp
next
  case (Cons q qs)
  then obtain x :: switch_port where "announce_locals qs (call_setup_addr OPS_ADDR_ADD (Some (sp_mac_addr x)) None s) = Inr s'"
    unfolding announce_locals.simps and_then_Inr by blast
  then obtain c where "s' = (call_setup_addr OPS_ADDR_ADD (Some (sp_mac_addr x)) None s)\<lparr>ss_addr_calls := c\<rparr>"
    using Cons.IH by blast
  then show ?case by (intro exI [of _ c]) (simp add: call_setup_addr_def split: option.splits)
qed

text \<open>Adding the remote port of a switch that has none.\<close>

lemma add_remote_facts:
  assumes "switch_add_port sem mq p (enet_config up) s = Inr s'" "ss_ports s p = Some x"
    and "switch_inv s" "ss_remote_port s = None" "p \<notin> set (ss_local_port_list s)"
  shows "switch_inv s'" "p \<in> set (all_ports s')" "queued s' = queued s" "ss_heap s' = ss_heap s"
    "link s' p = up" "sp_power_on (the_port s' p)"
proof -
  define y where "y = x\<lparr>sp_name := take 19 (take 19 ''ENET_Switch_Port''), sp_mac_addr := replicate 6 0,
    sp_is_local := False, sp_data_out := [], sp_fdb_enabled := False, sp_fdb_table := [], sp_data_out_sem := 1,
    sp_mqueue := [], sp_dev_end_on := up, sp_power_on := True\<rparr>"
  obtain c where s': "s' = s\<lparr>ss_ports := (ss_ports s)(p \<mapsto> y), ss_remote_port := Some p, ss_addr_calls := c\<rparr>"
    using assms(1,2) announce_locals_frame [of "ss_local_port_list s" "s\<lparr>ss_ports := (ss_ports s)(p \<mapsto> y), ss_remote_port := Some p\<rparr>" s']
    by (auto simp: switch_add_port_def enet_config_def outcome_simps upd_port_def port_at_def Let_def y_def)
  have y: "port_ok y" by (simp add: y_def port_ok_def)
  show "switch_inv s'" using assms(3-5) y by (auto simp: switch_inv_def all_ports_def s')
  show "p \<in> set (all_ports s')" by (simp add: all_ports_def s')
  have "out_queue s' q = (if q = p then [] else out_queue s q)" for q
    by (simp add: out_queue_def s' y_def)
  then have eq: "concat (map (out_queue s') (ss_local_port_list s)) = concat (map (out_queue s) (ss_local_port_list s))"
      and p: "out_queue s' p = []"
    using assms(5) by (auto intro!: arg_cong [where f = concat] map_cong)
  have ap: "all_ports s' = p # ss_local_port_list s" "all_ports s = ss_local_port_list s"
    using assms(4) by (simp_all add: all_ports_def s')
  show "queued s' = queued s" by (simp add: queued_def ap eq p)
  show "ss_heap s' = ss_heap s" by (simp add: s')
  show "link s' p = up" "sp_power_on (the_port s' p)"
    by (simp_all add: link_def the_port_def s' y_def cable_link_is_on_def)
qed

lemma enet_initialised:
  assumes "enet_port_init al mq pal pt th align sz freq phy dflt p w = Inr (0, e)"
    and "switch_inv w" "owned w {}" "ss_remote_port w = None" "ss_port_next w \<notin> set (ss_local_port_list w)"
    and "768 \<le> ph_next (ss_heap w)" "\<forall>k < 768. ph_pkts (ss_heap w) k = None" "1646 \<le> unat sz"
  shows "enet_inv {} e" "queued (en_switch e) = queued w" "link (en_switch e) (en_port_dev e) = en_link_up e"
    "en_mii e = (en_speed e, en_duplex e)" "en_mqueue e = 0" "sp_power_on (the_port (en_switch e) (en_port_dev e))"
    "ph_alloc (ss_heap (en_switch e)) = ph_alloc (ss_heap w)"
proof -
  define q w1 where "q = ss_port_next w" and "w1 = w\<lparr>ss_port_next := Suc q, ss_ports := (ss_ports w)(q \<mapsto> blank_port)\<rparr>"
  obtain e1 w2 where e1: "enet_setup align sz freq phy dflt p (zero_enet w1 q) = Inr (0, e1)"
      and w2: "switch_add_port (fst pt) (snd pt) q (enet_config (en_link_up e1)) (en_switch e1) = Inr w2"
      and e: "e = e1\<lparr>en_switch := w2\<rparr>"
    using assms(1) by (auto simp: enet_port_init_def switch_init_port_def outcome_simps q_def w1_def split: if_splits)
  obtain h where h: "static_buff_init sz [0..<STATIC_BUFF_COUNT] (ss_heap w) = Inr h"
      and e1': "en_switch e1 = w1\<lparr>ss_heap := h\<rparr>" "en_port_dev e1 = q" "en_mii e1 = (en_speed e1, en_duplex e1)"
        "en_mqueue e1 = 0"
    using e1 by (auto simp: enet_setup_def outcome_simps put_heap_def zero_enet_def w1_def Let_def split: if_splits prod.splits)
  have hp: "ph_next h = ph_next (ss_heap w)" "ph_alloc h = ph_alloc (ss_heap w)"
      "ph_pkts h = (\<lambda>k. if k < 768 then Some (static_pkt sz) else ph_pkts (ss_heap w) k)"
    using static_buff_init_eq [OF h] by (auto simp: STATIC_BUFF_COUNT_def ENET_RXBD_NUM_def)
  have inv1: "switch_inv (w1\<lparr>ss_heap := h\<rparr>)"
    using assms(2,4,5) by (auto simp: switch_inv_def all_ports_def w1_def q_def)
  have q1: "queued (w1\<lparr>ss_heap := h\<rparr>) = queued w"
  proof -
    have "out_queue w1 j = out_queue w j" if "j \<in> set (ss_local_port_list w)" for j
    proof -
      have "j \<noteq> q" using that assms(5) by (auto simp: q_def)
      then show ?thesis by (simp add: out_queue_def w1_def)
    qed
    then have "concat (map (out_queue w1) (ss_local_port_list w)) = concat (map (out_queue w) (ss_local_port_list w))"
      by (intro arg_cong [where f = concat] map_cong) auto
    moreover have "all_ports w1 = ss_local_port_list w" "all_ports w = ss_local_port_list w"
      using assms(4) by (simp_all add: all_ports_def w1_def)
    ultimately show ?thesis by (simp add: queued_def)
  qed
  note add = add_remote_facts [OF w2 [unfolded e1'(1)] _ inv1, of blank_port]
  have add: "switch_inv w2" "q \<in> set (all_ports w2)" "queued w2 = queued w" "ss_heap w2 = h" "link w2 q = en_link_up e1"
    "sp_power_on (the_port w2 q)"
    using add assms(4,5) q1 by (simp_all add: w1_def q_def)
  have "heap_sim (pool - {}) (\<lambda>_. None) h (ss_heap w)"
  proof -
    have "dyn d = d" if "ph_pkts (ss_heap w) k = Some d" for k d
      using assms(3) that by (intro dyn_id) (auto simp: owned_def is_static_def)
    moreover have "k < ph_next (ss_heap w)" if "ph_pkts (ss_heap w) k = Some d" for k d
      using assms(3) that by (auto simp: owned_def heap_ok_def)
    ultimately show ?thesis
      using assms(6,7) static_pkt_ok [OF assms(8)] unfolding heap_sim_def hp
      by (auto simp: pool_def static_pkt_def)
  qed
  moreover have "owned (w2\<lparr>ss_heap := ss_heap w\<rparr>) {}" using assms(3) add(3) by (simp add: owned_def)
  ultimately have "accounts pool {} w2"
    by (intro accountsI [where F = "\<lambda>_. None" and g = "ss_heap w"]) (simp_all add: add(4))
  then show "enet_inv {} e" "queued (en_switch e) = queued w" "link (en_switch e) (en_port_dev e) = en_link_up e"
      "en_mii e = (en_speed e, en_duplex e)" "en_mqueue e = 0" "sp_power_on (the_port (en_switch e) (en_port_dev e))"
      "ph_alloc (ss_heap (en_switch e)) = ph_alloc (ss_heap w)"
    using add e1'(2-4) hp(2) by (simp_all add: enet_inv_def e)
qed

subsection \<open>Frames of the other ports\<close>

lemma in_pkt_sim:
  assumes "sim P F s t"
  shows "rel_out (sim P F) (port_in_pkt src bs notify s) (port_in_pkt src bs notify t)"
proof -
  obtain g where t: "t = s\<lparr>ss_heap := g\<rparr>" "heap_sim P F (ss_heap s) g" using assms by (auto simp: sim_def)
  have s': "sim P F (s\<lparr>ss_heap := h\<rparr>) (t\<lparr>ss_heap := g'\<rparr>)" if "heap_sim P F h g'" for h g'
    using that t by (auto simp: sim_def)
  let ?c = "push_bit DATA_PKT_FLAG_CAN_FREE 1 :: u32" and ?l = "of_nat (length bs) :: u32"
  have c: "?c = unset_bit DATA_PKT_FLAG_STATIC_BUFF ?c"
    by (rule bit_eqI) (auto simp: bit_unset_bit_iff pkt_consts bit_simps)
  have al: "rel_out (\<lambda>(r, h1) (r', g1). r' = r \<and> heap_sim P F h1 g1)
      (data_pkt_alloc ?l ?c (ss_heap s)) (data_pkt_alloc ?l ?c (ss_heap t))"
    using alloc_sim [OF simD(1) [OF assms] c, of ?l] .
  have step: "rel_out (sim P F)
      (case x of (r, h) \<Rightarrow> case r of None \<Rightarrow> Inr (s\<lparr>ss_heap := h\<rparr>) | Some n \<Rightarrow>
         and_then (and_then (data_pkt_fill n bs h) (data_pkt_set_len n ?l)) (\<lambda>h'. port_in_pkt_nocpy src n notify (s\<lparr>ss_heap := h'\<rparr>)))
      (case y of (r, h) \<Rightarrow> case r of None \<Rightarrow> Inr (t\<lparr>ss_heap := h\<rparr>) | Some n \<Rightarrow>
         and_then (and_then (data_pkt_fill n bs h) (data_pkt_set_len n ?l)) (\<lambda>h'. port_in_pkt_nocpy src n notify (t\<lparr>ss_heap := h'\<rparr>)))"
    if xy: "data_pkt_alloc ?l ?c (ss_heap s) = Inr x" "case x of (r, h1) \<Rightarrow> case y of (r', g1) \<Rightarrow> r' = r \<and> heap_sim P F h1 g1"
    for x y
  proof -
    obtain r h1 g1 where e: "x = (r, h1)" "y = (r, g1)" "heap_sim P F h1 g1" using xy(2) by (cases x, cases y) auto
    show ?thesis
    proof (cases r)
      case None
      then show ?thesis using e s' by (simp add: rel_out_def)
    next
      case (Some n)
      then have n: "n \<notin> P" using xy(1) e(1) simD(1) [OF assms] heap_simD(5) [OF simD(1) [OF assms]]
        by (auto simp: data_pkt_alloc_def Let_def outcome_simps split: if_splits)
      show ?thesis unfolding e Some prod.case option.case
        by (rule rel_out_bind, rule rel_out_bind [OF fill_sim [OF e(3) n]], rule set_len_sim [OF _ n], assumption)
          (rule in_nocpy_sim, rule s')
    qed
  qed
  show ?thesis unfolding port_in_pkt_def Let_def
    by (rule port_at_bind [OF assms], rule rel_out_if, rule rel_out_Inr, rule assms, rule rel_out_bind [OF al])
      (rule step, auto split: prod.splits)
qed

lemma accounts_in_pkt:
  assumes "accounts P R s" "switch_inv s" "q \<in> set (all_ports s)" "sp_power_on (the_port s q)" "frame_fits f"
    and "ph_alloc (ss_heap s) (ph_next (ss_heap s))"
  shows "\<exists>s'. port_in_pkt q f notify s = Inr s' \<and> accounts P R s' \<and> same_frame s s' \<and> switch_inv s'"
proof -
  obtain t F where t: "R \<subseteq> P" "dom F = R" "\<forall>k d. F k = Some d \<longrightarrow> buffer_ok d \<and> dp_used d" "sim (P - R) F s t" "owned t {}"
    using assms(1) by (auto simp: accounts_def)
  have v: "switch_inv t" "q \<in> set (all_ports t)" "sp_power_on (the_port t q)" "ph_alloc (ss_heap t) (ph_next (ss_heap t))"
    using sim_views [OF t(4)] assms(2-4,6) simD(1) [OF t(4)] by (simp_all add: heap_sim_def)
  obtain t' where t': "port_in_pkt q f notify t = Inr t'" "forwarded (forward_set t q f) f t t'"
    using in_pkt_step [OF v(1) t(5) v(2,3) _ _ v(4), of f notify] assms(5) by (auto simp: frame_fits_def)
  obtain s' where s': "port_in_pkt q f notify s = Inr s'" "sim (P - R) F s' t'"
    using rel_outD [OF in_pkt_sim [OF t(4)] t'(1)] by blast
  have "same_frame s s'" using sim_same_frame [OF t(4) s'(2)] t'(2) by (simp add: forwarded_def)
  moreover have "accounts P R s'" using s'(2) t(1-3) t'(2) unfolding accounts_def forwarded_def by blast
  ultimately show ?thesis using s'(1) frame_inv [OF _ assms(2)] by blast
qed

text \<open>A port that is off, or no memory for the packet: the frame is dropped.\<close>

lemma accounts_in_pkt_dropped:
  assumes "accounts P R s" "port_in_pkt q f notify s = Inr w"
    and "\<not> sp_power_on (the_port s q) \<or> \<not> ph_alloc (ss_heap s) (ph_next (ss_heap s))"
  shows "accounts P R w \<and> same_frame s w"
proof -
  obtain x where x: "ss_ports s q = Some x" using assms(2) by (auto simp: port_in_pkt_def port_at_def outcome_simps split: option.splits)
  show ?thesis
  proof (cases "sp_power_on x")
    case False
    then show ?thesis using assms(1,2) x by (simp add: port_in_pkt_def port_at_def)
  next
    case True
    let ?h = "(ss_heap s)\<lparr>ph_next := Suc (ph_next (ss_heap s))\<rparr>"
    have w: "w = s\<lparr>ss_heap := ?h\<rparr>"
      using assms(2,3) x True by (simp add: port_in_pkt_def port_at_def data_pkt_alloc_def Let_def the_port_def)
    obtain g F where a: "R \<subseteq> P" "dom F = R" "\<And>k d. F k = Some d \<Longrightarrow> buffer_ok d \<and> dp_used d"
      "heap_sim (P - R) F (ss_heap s) g" "owned (s\<lparr>ss_heap := g\<rparr>) {}" by (rule accountsE [OF assms(1)]) blast
    let ?g = "g\<lparr>ph_next := Suc (ph_next g)\<rparr>"
    have "heap_sim (P - R) F ?h ?g" using a(4) unfolding heap_sim_def by (auto intro: less_SucI)
    moreover have "owned (s\<lparr>ss_heap := ?g\<rparr>) {}" using a(5) by (auto simp: owned_def heap_ok_def queued_def out_queue_def all_ports_def cong: option.case_cong intro: less_SucI)
    ultimately have "accounts P R w" using accountsI [OF a(1-3), where s = w and g = ?g] by (simp add: w)
    then show ?thesis by (simp add: w same_frame_def)
  qed
qed

subsection \<open>Runs\<close>

text \<open>
  What happens to the buffers, beside \<open>R\<close>, the buffers in the hands of the controller: the
  controller takes and gives back buffers and hands over frames; the threads of the ports send what
  is queued; other ports hand in frames; events are posted and the link is polled.
\<close>

inductive buff_step :: "enet_device \<times> nat set \<Rightarrow> enet_device \<times> nat set \<Rightarrow> bool" where
  take: "rx_buff_alloc (ss_heap (en_switch e)) = Inr (Some a, h) \<Longrightarrow>
     buff_step (e, R) (e\<lparr>en_switch := put_heap h (en_switch e)\<rparr>, insert (fst a) R)"
| give: "k \<in> R \<Longrightarrow> rx_buff_free (k, DATA_PKT_HEAD_ROOM) (ss_heap (en_switch e)) = Inr h \<Longrightarrow>
     buff_step (e, R) (e\<lparr>en_switch := put_heap h (en_switch e)\<rparr>, R - {k})"
| receive: "driver_ok R rs \<Longrightarrow> 0 < en_mqueue e \<Longrightarrow> enet_process_pkts rs e = Inr e' \<Longrightarrow>
     buff_step (e, R) (e', R - set (buffers rs))"
| send: "q \<in> set (all_ports (en_switch e)) \<Longrightarrow> port_process_pkts q (en_switch e) = Inr (r, w) \<Longrightarrow>
     buff_step (e, R) (e\<lparr>en_switch := w\<rparr>, R)"
| other: "q \<in> set (all_ports (en_switch e)) \<Longrightarrow> frame_fits f \<Longrightarrow>
     port_in_pkt q f notify (en_switch e) = Inr w \<Longrightarrow> buff_step (e, R) (e\<lparr>en_switch := w\<rparr>, R)"
| event: "buff_step (e, R) (enet_callback ev e, R)"
| poll: "buff_step (e, R) (enet_phy_status p e, R)"

inductive_cases buff_stepE: "buff_step (e, R) (e', R')"

lemma enet_inv_frame:
  assumes "enet_inv R e" "accounts pool R' w" "same_frame (en_switch e) w" "en_port_dev e' = en_port_dev e" "en_switch e' = w"
  shows "enet_inv R' e'"
  using assms frame_inv [OF assms(3)] frame_views(1) [OF assms(3)] by (simp add: enet_inv_def)

lemma upd_link_accounts:
  assumes "accounts P R s" "switch_inv s"
  shows "accounts P R (upd_port p (\<lambda>x. x\<lparr>sp_dev_end_on := up\<rparr>) s)" "switch_inv (upd_port p (\<lambda>x. x\<lparr>sp_dev_end_on := up\<rparr>) s)"
    "all_ports (upd_port p (\<lambda>x. x\<lparr>sp_dev_end_on := up\<rparr>) s) = all_ports s"
proof -
  let ?f = "\<lambda>x. x\<lparr>sp_dev_end_on := up\<rparr>"
  obtain g F where a: "R \<subseteq> P" "dom F = R" "\<And>k d. F k = Some d \<Longrightarrow> buffer_ok d \<and> dp_used d"
    "heap_sim (P - R) F (ss_heap s) g" "owned (s\<lparr>ss_heap := g\<rparr>) {}" by (rule accountsE [OF assms(1)]) blast
  have oq: "out_queue (upd_port p ?f u) = out_queue u" "all_ports (upd_port p ?f u) = all_ports u" for u
    by (auto simp: out_queue_def upd_port_def all_ports_def fun_eq_iff split: option.split)
  then show "all_ports (upd_port p ?f s) = all_ports s" by simp
  have "owned ((upd_port p ?f s)\<lparr>ss_heap := g\<rparr>) {}" using a(5) by (simp add: owned_def queued_def oq)
  then show "accounts P R (upd_port p ?f s)" using accountsI [OF a(1-3)] a(4) by simp
  have st: "ss_ports (upd_port p ?f s) = (\<lambda>q. map_option (if q = p then ?f else (\<lambda>x. x)) (ss_ports s q))"
    by (auto simp: upd_port_def fun_eq_iff option.map_ident split: option.split)
  have po: "port_ok (?f x) = port_ok x" for x by (simp add: port_ok_def)
  show "switch_inv (upd_port p ?f s)" using assms(2) unfolding switch_inv_def oq by (auto simp: st po split: if_splits)
qed

lemma receive_accounts:
  assumes "enet_inv R e" "0 < en_mqueue e" "driver_ok R rs" "enet_process_pkts rs e = Inr e'"
  shows "enet_inv (R - set (buffers rs)) e'" "same_frame (en_switch e) (en_switch e')"
proof -
  let ?e = "e\<lparr>en_mqueue := en_mqueue e - 1\<rparr>"
  obtain e1 where d: "enet_drain False rs ?e = Inr (frames_in rs \<noteq> [], e1)" "accounts pool (R - set (buffers rs)) (en_switch e1)"
      "same_frame (en_switch e) (en_switch e1)" "switch_inv (en_switch e1)" "en_port_dev e1 = en_port_dev e"
    using drain_step [of R ?e rs False] assms by (auto simp: enet_inv_def)
  have i1: "enet_inv (R - set (buffers rs)) e1" by (rule enet_inv_frame [OF assms(1) d(2,3,5) refl])
  obtain w where w: "notify_ports (en_switch e1) = Inr w" "quiet (en_switch e1) w" "accounts pool (R - set (buffers rs)) w"
    using accounts_notify [OF d(2,4)] by blast
  have "enet_inv (R - set (buffers rs)) (e1\<lparr>en_switch := w\<rparr>)"
    by (rule enet_inv_frame [OF i1 w(3)]) (use w(2) in \<open>simp_all add: quiet_def\<close>)
  moreover have "same_frame (en_switch e) w" using same_frame_trans [OF d(3)] w(2) by (simp add: quiet_def)
  ultimately show "enet_inv (R - set (buffers rs)) e'" "same_frame (en_switch e) (en_switch e')"
    using d(1,3) w(1) i1 assms(2,4) by (auto simp: enet_process_pkts_def split: if_splits)
qed

lemma buff_step_inv:
  assumes "buff_step x y" "enet_inv (snd x) (fst x)"
  shows "enet_inv (snd y) (fst y)"
  using assms
proof (induction rule: buff_step.induct)
  case (take e a h R)
  then have acc: "accounts pool R (en_switch e)" by (simp add: enet_inv_def)
  show ?case
  proof (cases "idle_buffers R (en_switch e) = {}")
    case True
    then show ?thesis using take rx_buff_alloc_spec(1) [OF acc] by simp
  next
    case False
    obtain k d where k: "k \<in> idle_buffers R (en_switch e)" "ph_pkts (ss_heap (en_switch e)) k = Some d" "\<not> dp_used d"
        "a = (k, DATA_PKT_HEAD_ROOM)" "h = (ss_heap (en_switch e))\<lparr>ph_pkts := (ph_pkts (ss_heap (en_switch e)))(k \<mapsto> d\<lparr>dp_used := True\<rparr>)\<rparr>"
      using take.hyps rx_buff_alloc_spec(2) [OF acc False] by auto
    have "accounts pool (insert k R) (put_heap h (en_switch e))"
      by (rule accounts_take [OF acc _ k(2,3)]) (use k(1) in \<open>auto simp: idle_buffers_def put_heap_def k(5)\<close>)
    then show ?thesis
      using enet_inv_frame [of R e "insert k R" "put_heap h (en_switch e)"] take.prems k(4,5) by (simp add: put_heap_def)
  qed
next
  case (give k R e h)
  then have acc: "accounts pool R (en_switch e)" by (simp add: enet_inv_def)
  obtain d where d: "ph_pkts (ss_heap (en_switch e)) k = Some d"
      "h = (ss_heap (en_switch e))\<lparr>ph_pkts := (ph_pkts (ss_heap (en_switch e)))(k \<mapsto> d\<lparr>dp_used := False\<rparr>)\<rparr>"
    using give.hyps(2) by (auto simp: rx_buff_free_def data_pkt_get_def outcome_simps)
  have "accounts pool (R - {k}) (put_heap h (en_switch e))"
    by (rule accounts_give [OF acc give.hyps(1) d(1)]) (simp add: put_heap_def d(2))
  then show ?case
    using enet_inv_frame [of R e "R - {k}" "put_heap h (en_switch e)"] give.prems d(2) by (simp add: put_heap_def)
next
  case (receive R rs e e')
  then show ?case using receive_accounts(1) by simp
next
  case (send q e r w R)
  then have "accounts pool R w \<and> same_frame (en_switch e) w"
    using accounts_process [of pool R "en_switch e" q] by (auto simp: enet_inv_def)
  then show ?case using send.prems enet_inv_frame [of R e R w "e\<lparr>en_switch := w\<rparr>"] by simp
next
  case (other q e f notify w R)
  then have "accounts pool R w \<and> same_frame (en_switch e) w"
    using accounts_in_pkt [of pool R "en_switch e" q f notify] accounts_in_pkt_dropped [of pool R "en_switch e" q f notify w]
    by (auto simp: enet_inv_def)
  then show ?case using other.prems enet_inv_frame [of R e R w "e\<lparr>en_switch := w\<rparr>"] by simp
next
  case (event e R ev)
  then show ?case by (simp add: enet_inv_def enet_callback_def split: enet_event.split)
next
  case (poll e R p)
  then show ?case using upd_link_accounts [of pool R "en_switch e"]
    by (auto simp: enet_inv_def enet_phy_status_def set_link_up_def split: prod.split)
qed

lemma buff_run_inv:
  assumes "buff_step\<^sup>*\<^sup>* (e, R) (e', R')" "enet_inv R e"
  shows "enet_inv R' e'"
proof -
  have "enet_inv (snd (e', R')) (fst (e', R'))"
    using assms(1) by (rule rtranclp_induct) (use assms(2) buff_step_inv in auto)
  then show ?thesis by simp
qed

text \<open>C6: A receive buffer is never in two places: from the initialisation of the port on, whatever the
  controller, the threads of the ports and the other ports do, no buffer is both in the hands of the
  controller and queued in the switch, none is queued twice, a buffer is marked in use exactly when it is
  in one of the two places, and the allocator answers the lowest buffer that is in neither, or none when
  there is none.\<close>

theorem buffers_never_shared:
  assumes "enet_port_init al mq pal pt th align sz freq phy dflt p w = Inr (0, e0)"
    and "switch_inv w" "owned w {}" "ss_remote_port w = None" "ss_port_next w \<notin> set (ss_local_port_list w)"
    and "768 \<le> ph_next (ss_heap w)" "\<forall>k < 768. ph_pkts (ss_heap w) k = None" "1646 \<le> unat sz"
    and "buff_step\<^sup>*\<^sup>* (e0, {}) (e, R)"
  shows "R \<subseteq> {..<768} \<and> R \<inter> set (queued (en_switch e)) = {} \<and> distinct (queued (en_switch e))
    \<and> (\<forall>k < 768. \<exists>d. ph_pkts (ss_heap (en_switch e)) k = Some d \<and> (dp_used d \<longleftrightarrow> k \<in> R \<union> set (queued (en_switch e))))
    \<and> (\<exists>r h. rx_buff_alloc (ss_heap (en_switch e)) = Inr (r, h)
        \<and> (case r of None \<Rightarrow> {..<768} \<subseteq> R \<union> set (queued (en_switch e))
           | Some (k, off) \<Rightarrow> k < 768 \<and> off = DATA_PKT_HEAD_ROOM \<and> k \<notin> R \<union> set (queued (en_switch e))
               \<and> {..<k} \<subseteq> R \<union> set (queued (en_switch e))))"
proof -
  have i: "enet_inv R e" by (rule buff_run_inv [OF assms(9) enet_initialised(1) [OF assms(1-8)]])
  then have acc: "accounts pool R (en_switch e)" by (simp add: enet_inv_def)
  have al: "\<exists>r h. rx_buff_alloc (ss_heap (en_switch e)) = Inr (r, h)
        \<and> (case r of None \<Rightarrow> {..<768} \<subseteq> R \<union> set (queued (en_switch e))
           | Some (k, off) \<Rightarrow> k < 768 \<and> off = DATA_PKT_HEAD_ROOM \<and> k \<notin> R \<union> set (queued (en_switch e))
               \<and> {..<k} \<subseteq> R \<union> set (queued (en_switch e)))"
  proof (cases "idle_buffers R (en_switch e) = {}")
    case True
    then show ?thesis using rx_buff_alloc_spec(1) [OF acc True] by (auto simp: idle_buffers_def pool_def)
  next
    case False
    obtain k h where k: "k \<in> idle_buffers R (en_switch e)" "\<And>j. j \<in> idle_buffers R (en_switch e) \<Longrightarrow> k \<le> j"
        "rx_buff_alloc (ss_heap (en_switch e)) = Inr (Some (k, DATA_PKT_HEAD_ROOM), h)"
      using rx_buff_alloc_spec(2) [OF acc False] by blast
    have "j \<in> R \<union> set (queued (en_switch e))" if "j < k" for j
      using k(1) k(2) [of j] that by (auto simp: idle_buffers_def pool_def)
    then show ?thesis using k(1,3) by (auto simp: idle_buffers_def pool_def)
  qed
  have used: "\<exists>d. ph_pkts (ss_heap (en_switch e)) k = Some d \<and> (dp_used d \<longleftrightarrow> k \<in> R \<union> set (queued (en_switch e)))"
    if "k < 768" for k using accounts_used(1) [OF acc, of k] that by (auto simp: pool_def)
  show ?thesis using accounts_used(2-4) [OF acc] al used by (simp add: pool_def)
qed

subsection \<open>The link\<close>

text \<open>The flag of the device is what the switch sees, and the controller is set to the speed and duplex
  of the device.\<close>

definition link_synced :: "enet_device \<Rightarrow> bool" where
  "link_synced e \<longleftrightarrow> sp_power_on (the_port (en_switch e) (en_port_dev e))
     \<and> link (en_switch e) (en_port_dev e) = en_link_up e \<and> en_mii e = (en_speed e, en_duplex e)"

lemma link_synced_frame:
  "same_frame (en_switch e) w \<Longrightarrow> link_synced (e\<lparr>en_switch := w\<rparr>) = link_synced e"
proof -
  assume f: "same_frame (en_switch e) w"
  have "sp_power_on (the_port w q) = sp_power_on (the_port (en_switch e) q)" for q
  proof (cases "ss_ports (en_switch e) q")
    case None
    then show ?thesis using frame_port(1) [OF f, of q] by (simp add: the_port_def)
  next
    case (Some x)
    then obtain y where y: "ss_ports w q = Some y" "skel y = skel x" using frame_port(3) [OF f] by blast
    show ?thesis using Some y(1) skel_eqD(1) [OF y(2)] by (simp add: the_port_def)
  qed
  then show ?thesis using frame_views(2) [OF f] by (simp add: link_synced_def)
qed

lemma poll_synced:
  assumes "link_synced e"
  shows "link_synced (enet_phy_status p e)"
proof -
  obtain x where x: "ss_ports (en_switch e) (en_port_dev e) = Some x" "sp_power_on x"
    using assms by (auto simp: link_synced_def the_port_def blank_port_def split: option.splits)
  then show ?thesis using assms
    by (auto simp: link_synced_def enet_phy_status_def set_link_up_def link_def the_port_def upd_port_def cable_link_is_on_def
        split: prod.split)
qed


definition mac_view :: "enet_device \<Rightarrow> (nat \<times> nat) \<times> nat \<times> nat \<times> bool \<times> nat" where
  "mac_view e = (en_mii e, en_speed e, en_duplex e, en_link_up e, en_port_dev e)"

lemma drain_fields:
  "enet_drain n rs e = Inr (n', e') \<Longrightarrow> mac_view e' = mac_view e"
proof (induction rs arbitrary: n e)
  case (Cons r rs)
  then obtain g e1 where g: "enet_get_frame r e = Inr (g, e1)" "enet_drain (n \<or> g) rs e1 = Inr (n', e')"
    by (auto simp: outcome_simps)
  have "mac_view e1 = mac_view e" using g(1) by (cases r) (auto simp: outcome_simps enet_upd_def mac_view_def Let_def)
  then show ?case using Cons.IH [OF g(2)] by simp
qed simp

lemma process_fields:
  assumes "enet_process_pkts rs e = Inr e'"
  shows "mac_view e' = mac_view e"
proof (cases "en_mqueue e = 0")
  case False
  let ?e = "e\<lparr>en_mqueue := en_mqueue e - 1\<rparr>"
  obtain n e1 where d: "enet_drain False rs ?e = Inr (n, e1)" "mac_view e' = mac_view e1"
    using assms False by (auto simp: enet_process_pkts_def outcome_simps mac_view_def split: if_splits)
  then show ?thesis using drain_fields [OF d(1)] by (simp add: mac_view_def)
qed (use assms in \<open>simp add: enet_process_pkts_def\<close>)

lemma link_step:
  assumes "buff_step x y" "enet_inv (snd x) (fst x)" "link_synced (fst x)"
  shows "link_synced (fst y)"
  using assms
proof (induction rule: buff_step.induct)
  case (take e a h R)
  have "same_frame (en_switch e) (put_heap h (en_switch e))"
    using take rx_buff_alloc_spec [of R "en_switch e"] by (cases "idle_buffers R (en_switch e) = {}") (auto simp: enet_inv_def same_frame_def put_heap_def)
  then show ?case using take.prems link_synced_frame by simp
next
  case (give k R e h)
  then have "same_frame (en_switch e) (put_heap h (en_switch e))"
    by (auto simp: rx_buff_free_def data_pkt_get_def outcome_simps same_frame_def put_heap_def)
  then show ?case using give.prems link_synced_frame by simp
next
  case (receive R rs e e')
  have "same_frame (en_switch e) (en_switch e')" using receive_accounts(2) [of R e rs e'] receive by simp
  then have "link_synced (e\<lparr>en_switch := en_switch e'\<rparr>)" using receive.prems link_synced_frame [of e "en_switch e'"] by simp
  then show ?case using process_fields [OF receive.hyps(3)] by (simp add: link_synced_def mac_view_def)
next
  case (send q e r w R)
  then have "same_frame (en_switch e) w"
    using accounts_process [of pool R "en_switch e" q] by (auto simp: enet_inv_def)
  then show ?case using send.prems link_synced_frame by simp
next
  case (other q e f notify w R)
  then have "same_frame (en_switch e) w"
    using accounts_in_pkt [of pool R "en_switch e" q f notify] accounts_in_pkt_dropped [of pool R "en_switch e" q f notify w]
    by (auto simp: enet_inv_def)
  then show ?case using other.prems link_synced_frame by simp
next
  case (event e R ev)
  then show ?case by (simp add: link_synced_def enet_callback_def split: enet_event.split)
next
  case (poll e R p)
  then show ?case using poll_synced by simp
qed


text \<open>The link the switch sees is the link of the PHY: from the initialisation on, whatever happens in
  between, a poll that finds the link down, or up with negotiation complete, leaves the port of the switch in
  that state, and the controller is always set to the speed and duplex of the device, so no frame is forwarded to the
  port while its link is down.\<close>

theorem link_follows_phy:
  assumes "enet_port_init al mq pal pt th align sz freq phy dflt p w = Inr (0, e0)"
    and "switch_inv w" "owned w {}" "ss_remote_port w = None" "ss_port_next w \<notin> set (ss_local_port_list w)"
    and "768 \<le> ph_next (ss_heap w)" "\<forall>k < 768. ph_pkts (ss_heap w) k = None" "1646 \<le> unat sz"
    and "buff_step\<^sup>*\<^sup>* (e0, {}) (e, R)" "up \<longrightarrow> autonego"
  shows "link (en_switch (enet_phy_status (up, autonego, speed, duplex) e)) (en_port_dev e) = up
    \<and> en_mii e = (en_speed e, en_duplex e)"
proof -
  have i: "enet_inv {} e0" "link_synced e0"
    using enet_initialised [OF assms(1-8)] by (simp_all add: link_synced_def)
  have "enet_inv (snd (e, R)) (fst (e, R)) \<and> link_synced (fst (e, R))"
    using assms(9) by (rule rtranclp_induct) (use i buff_step_inv link_step in auto)
  then have s: "link_synced e" by simp
  then have "link_synced (enet_phy_status (up, autonego, speed, duplex) e)" by (rule poll_synced)
  moreover have "en_port_dev (enet_phy_status (up, autonego, speed, duplex) e) = en_port_dev e"
      "en_link_up (enet_phy_status (up, autonego, speed, duplex) e) = up"
    using assms(10) by (auto simp: enet_phy_status_def set_link_up_def)
  ultimately show ?thesis using s by (simp add: link_synced_def)
qed

subsection \<open>The initialisation succeeds\<close>

lemma static_buff_init_ok: "128 < unat sz \<Longrightarrow> \<exists>h'. static_buff_init sz is h = Inr h'"
  by (induction "is" arbitrary: h) (simp_all add: data_pkt_build_def pkt_consts)

lemma announce_locals_ok:
  assumes "\<And>q. q \<in> set qs \<Longrightarrow> ss_ports s q \<noteq> None"
  shows "\<exists>s'. announce_locals qs s = Inr s'"
  using assms
proof (induction qs arbitrary: s)
  case (Cons q qs)
  obtain x where x: "ss_ports s q = Some x" using Cons.prems [of q] by auto
  let ?s = "call_setup_addr OPS_ADDR_ADD (Some (sp_mac_addr x)) None s"
  have "ss_ports ?s = ss_ports s" by (simp add: call_setup_addr_def split: option.split)
  then have "\<exists>s'. announce_locals qs ?s = Inr s'" using Cons by simp
  then show ?case using x by (simp add: port_at_def)
qed simp

lemma enet_port_init_ok:
  assumes "128 mod align = 0" "128 < unat sz" "\<And>q. q \<in> set (ss_local_port_list w) \<Longrightarrow> ss_ports w q \<noteq> None"
  shows "\<exists>e. enet_port_init True True True (True, True) True align sz freq True dflt p w = Inr (0, e)"
proof -
  obtain h where h: "static_buff_init sz [0..<STATIC_BUFF_COUNT] (ss_heap w) = Inr h"
    using static_buff_init_ok [OF assms(2)] by blast
  have ann: "\<exists>s'. announce_locals (ss_local_port_list w) s = Inr s'"
    if "ss_ports s = (ss_ports w)(q \<mapsto> y)" for s q y
    by (rule announce_locals_ok) (use assms(3) that in auto)
  have add: "\<exists>s'. switch_add_port True True q (enet_config up) s = Inr s'"
    if "ss_ports s = (ss_ports w)(q \<mapsto> y)" "ss_local_port_list s = ss_local_port_list w" for s q y up
    unfolding switch_add_port_def enet_config_def Let_def
    using that by (auto simp: port_at_def upd_port_def intro!: ann)
  let ?w1 = "w\<lparr>ss_port_next := Suc (ss_port_next w), ss_ports := (ss_ports w)(ss_port_next w \<mapsto> blank_port)\<rparr>"
  have "\<exists>e1. enet_setup align sz freq True dflt p (zero_enet ?w1 (ss_port_next w)) = Inr (0, e1) \<and> en_switch e1 = ?w1\<lparr>ss_heap := h\<rparr>"
    using h assms(1) by (simp add: enet_setup_def zero_enet_def put_heap_def Let_def pkt_consts split: prod.split)
  then obtain e1 where e1: "enet_setup align sz freq True dflt p (zero_enet ?w1 (ss_port_next w)) = Inr (0, e1)"
      "en_switch e1 = ?w1\<lparr>ss_heap := h\<rparr>" by blast
  obtain w2 where "switch_add_port True True (ss_port_next w) (enet_config (en_link_up e1)) (en_switch e1) = Inr w2"
    using add [of "en_switch e1" "ss_port_next w" blank_port "en_link_up e1"] e1(2) by auto
  then show ?thesis using e1(1) by (simp add: enet_port_init_def switch_init_port_def)
qed

definition ex_clean_switch :: switch_sys where
  "ex_clean_switch = (ex_switch (\<lambda>_. None))\<lparr>ss_remote_port := None,
     ss_heap := \<lparr>ph_pkts = \<lambda>_. None, ph_next = 768, ph_alloc = \<lambda>_. True\<rparr>\<rparr>"

lemma ex_clean_switch_facts:
  "switch_inv ex_clean_switch" "owned ex_clean_switch {}" "ss_remote_port ex_clean_switch = None"
  "ss_port_next ex_clean_switch \<notin> set (ss_local_port_list ex_clean_switch)" "768 \<le> ph_next (ss_heap ex_clean_switch)"
  "\<forall>k < 768. ph_pkts (ss_heap ex_clean_switch) k = None" "ph_alloc (ss_heap ex_clean_switch) n"
  "q \<in> set (ss_local_port_list ex_clean_switch) \<Longrightarrow> ss_ports ex_clean_switch q \<noteq> None"
  by (auto simp: ex_clean_switch_def ex_switch_def switch_inv_def all_ports_def owned_def heap_ok_def queued_def
      out_queue_def ex_port_def blank_port_def port_ok_def ex_mac_def)

text \<open>After the initialisation the controller takes a buffer and announces a frame.\<close>

lemma ex_enet_run:
  "\<exists>e0 e. enet_port_init True True True (True, True) True 64 2048 64000000 True (1, 1) (True, True, 2, 1) ex_clean_switch = Inr (0, e0)
     \<and> buff_step\<^sup>*\<^sup>* (e0, {}) (e, {0}) \<and> enet_inv {0} e \<and> en_mqueue e = 1 \<and> (\<forall>n. ph_alloc (ss_heap (en_switch e)) n)"
proof -
  obtain e0 where e0: "enet_port_init True True True (True, True) True 64 2048 64000000 True (1, 1) (True, True, 2, 1) ex_clean_switch = Inr (0, e0)"
    using enet_port_init_ok [OF _ _ ex_clean_switch_facts(8), of 64 2048 64000000 "(1, 1)" "(True, True, 2, 1)"] by fastforce
  note i = enet_initialised [OF e0 ex_clean_switch_facts(1-6)]
  have i: "enet_inv {} e0" "queued (en_switch e0) = []" "en_mqueue e0 = 0" "\<And>n. ph_alloc (ss_heap (en_switch e0)) n"
    using i ex_clean_switch_facts(7) by (simp_all add: ex_clean_switch_def queued_def all_ports_def out_queue_def ex_switch_def ex_port_def blank_port_def)
  have idle: "idle_buffers {} (en_switch e0) = {..<768}" by (simp add: idle_buffers_def i(2) pool_def)
  have acc: "accounts pool {} (en_switch e0)" using i(1) by (simp add: enet_inv_def)
  have ne: "idle_buffers {} (en_switch e0) \<noteq> {}" unfolding idle using lessThan_iff [of 0 "768 :: nat"] by force
  obtain k d where k: "\<And>j :: nat. j < 768 \<Longrightarrow> k \<le> j" "rx_buff_alloc (ss_heap (en_switch e0)) = Inr (Some (k, DATA_PKT_HEAD_ROOM),
        (ss_heap (en_switch e0))\<lparr>ph_pkts := (ph_pkts (ss_heap (en_switch e0)))(k \<mapsto> d\<lparr>dp_used := True\<rparr>)\<rparr>)"
    using rx_buff_alloc_spec(2) [OF acc ne] unfolding idle by auto
  have "k = 0" using k(1) [of 0] by simp
  then obtain h where h: "rx_buff_alloc (ss_heap (en_switch e0)) = Inr (Some (0, DATA_PKT_HEAD_ROOM), h)"
      "ph_alloc h = ph_alloc (ss_heap (en_switch e0))"
    using k(2) by auto
  let ?e1 = "e0\<lparr>en_switch := put_heap h (en_switch e0)\<rparr>"
  have "buff_step (e0, {}) (?e1, {0})" using buff_step.take [OF h(1), of "{}"] by simp
  moreover have "buff_step (?e1, {0}) (enet_callback RxEvent ?e1, {0})" by (rule buff_step.event)
  ultimately have run: "buff_step\<^sup>*\<^sup>* (e0, {}) (enet_callback RxEvent ?e1, {0})" by (rule converse_rtranclp_into_rtranclp [OF _ r_into_rtranclp])
  moreover have "en_mqueue (enet_callback RxEvent ?e1) = 1" "ph_alloc (ss_heap (en_switch (enet_callback RxEvent ?e1))) n" for n
    using i(3,4) h(2) by (simp_all add: enet_callback_def put_heap_def)
  ultimately show ?thesis using e0 buff_run_inv [OF run i(1)] by blast
qed

theorem enet_frames_delivered_witness:
  "\<exists>e e'. enet_inv {0} e \<and> enet_process_pkts [RxFrame (0, 128) (replicate 60 7), RxFrameDrop] e = Inr e'
     \<and> ep_rx_pkts (en_stats e') = ep_rx_pkts (en_stats e) + 1 \<and> ep_rx_dropped (en_stats e') = ep_rx_dropped (en_stats e) + 1
     \<and> enet_inv {} e' \<and> (\<forall>q. frames (en_switch e') q = frames (en_switch e) q
         @ filter (\<lambda>f. q \<in> forward_set (en_switch e) (en_port_dev e) f) [replicate 60 7])"
proof -
  obtain e where e: "enet_inv {0} e" "en_mqueue e = 1" "\<forall>n. ph_alloc (ss_heap (en_switch e)) n" using ex_enet_run by blast
  have "driver_ok {0} [RxFrame (0, 128) (replicate 60 7), RxFrameDrop]" by (simp add: driver_ok_def pkt_consts)
  then obtain e' where "enet_process_pkts [RxFrame (0, 128) (replicate 60 7), RxFrameDrop] e = Inr e'" "enet_inv {} e'"
      "ep_rx_pkts (en_stats e') = ep_rx_pkts (en_stats e) + 1" "ep_rx_dropped (en_stats e') = ep_rx_dropped (en_stats e) + 1"
      "\<forall>q. frames (en_switch e') q = frames (en_switch e) q
         @ filter (\<lambda>f. q \<in> forward_set (en_switch e) (en_port_dev e) f) [replicate 60 7]"
    using enet_frames_delivered [OF e(1), of "[RxFrame (0, 128) (replicate 60 7), RxFrameDrop]"] e(2,3)
    by (simp del: filter.simps) blast
  then show ?thesis using e(1) by blast
qed

theorem buffers_never_shared_witness:
  "\<exists>e. enet_inv {0} e \<and> 0 \<notin> set (queued (en_switch e))
     \<and> (\<exists>d. ph_pkts (ss_heap (en_switch e)) 0 = Some d \<and> dp_used d)"
proof -
  obtain e0 e where e: "enet_port_init True True True (True, True) True 64 2048 64000000 True (1, 1) (True, True, 2, 1) ex_clean_switch = Inr (0, e0)"
      "buff_step\<^sup>*\<^sup>* (e0, {}) (e, {0})" "enet_inv {0} e" using ex_enet_run by blast
  show ?thesis using buffers_never_shared [OF e(1) ex_clean_switch_facts(1-6) _ e(2)] e(3) by fastforce
qed

theorem link_follows_phy_witness:
  "\<exists>e. enet_inv {0} e \<and> \<not> link (en_switch (enet_phy_status (False, False, 0, 0) e)) (en_port_dev e)"
proof -
  obtain e0 e where e: "enet_port_init True True True (True, True) True 64 2048 64000000 True (1, 1) (True, True, 2, 1) ex_clean_switch = Inr (0, e0)"
      "buff_step\<^sup>*\<^sup>* (e0, {}) (e, {0})" "enet_inv {0} e" using ex_enet_run by blast
  show ?thesis using link_follows_phy [OF e(1) ex_clean_switch_facts(1-6) _ e(2), of False False 0 0] e(3) by auto
qed

end
