(* ===== verification/Irq.thy ===== *)
theory Irq
  imports Complex_Main Prelude
begin


text \<open>
  Interrupts of the Cortex-A ports, \<open>src/os/freertos/Core_AArch64/irq.c\<close>, and the processor load they
  account for, \<open>src/os/freertos/Core_AArch64/cpu_load.c\<close>. A handler is the number of a function
  (\<open>None\<close> is the null pointer) and its argument. The calls of the interrupt controller are the
  last priority written for each interrupt; \<open>shift\<close> is \<open>portPRIORITY_SHIFT\<close>, a constant of the FreeRTOS
  port. The flag \<open>iq_enabled\<close> is whether the processor takes interrupts. The build has the option
  \<open>CONFIG_CPU_LOAD_STATS\<close> on.
\<close>

subsection \<open>The handler table\<close>

record irq_handler =
  ih_func :: "nat option"
  ih_data :: nat

record irq_sys =
  iq_handler :: "irq_handler list"
  iq_prio :: "nat \<Rightarrow> u32 option"
  iq_enabled :: bool
  iq_work_begin :: u64
  iq_work_end :: u64
  iq_idle :: u64
  iq_busy :: u64

definition NR_IRQS :: nat where "NR_IRQS = 0x3FF"

text \<open>The static variables before the first instruction.\<close>

definition irq_boot :: irq_sys where
  "irq_boot = \<lparr>iq_handler = replicate NR_IRQS \<lparr>ih_func = None, ih_data = 0\<rparr>, iq_prio = (\<lambda>_. None),
     iq_enabled = True, iq_work_begin = 0, iq_work_end = 0, iq_idle = 0, iq_busy = 0\<rparr>"

definition GIC_SetPriority :: "nat \<Rightarrow> u32 \<Rightarrow> irq_sys \<Rightarrow> irq_sys" where
  "GIC_SetPriority nr prio s = s\<lparr>iq_prio := (iq_prio s)(nr \<mapsto> prio)\<rparr>"

definition irq_register ::
    "nat \<Rightarrow> int \<Rightarrow> nat option \<Rightarrow> nat \<Rightarrow> u32 \<Rightarrow> irq_sys \<Rightarrow> (int \<times> irq_sys) outcome" where
  "irq_register shift nr func data prio s =
     (if nr < 0 \<or> int NR_IRQS \<le> nr then Inr (-1, s)
      else let s1 = s\<lparr>iq_enabled := False\<rparr>
       in and_then (arr_set (iq_handler s1) (nat nr) \<lparr>ih_func = func, ih_data = data\<rparr>) (\<lambda>hs.
          let s2 = s1\<lparr>iq_handler := hs\<rparr>;
              s3 = (if prio \<noteq> 0 then GIC_SetPriority (nat nr) (push_bit shift prio) s2 else s2)
          in Inr (0, s3\<lparr>iq_enabled := True\<rparr>)))"

definition irq_unregister :: "int \<Rightarrow> irq_sys \<Rightarrow> (int \<times> irq_sys) outcome" where
  "irq_unregister nr s =
     (if nr < 0 \<or> int NR_IRQS \<le> nr then Inr (-1, s)
      else let s1 = s\<lparr>iq_enabled := False\<rparr>
       in and_then (arr_set (iq_handler s1) (nat nr) \<lparr>ih_func = None, ih_data = 0\<rparr>) (\<lambda>hs.
          Inr (0, s1\<lparr>iq_handler := hs, iq_enabled := True\<rparr>)))"

text \<open>\<open>src/os/freertos/os/irq.h\<close>: the same for the numbers of an unsigned type.\<close>

definition os_irq_register ::
    "nat \<Rightarrow> u32 \<Rightarrow> nat option \<Rightarrow> nat \<Rightarrow> u32 \<Rightarrow> irq_sys \<Rightarrow> (int \<times> irq_sys) outcome" where
  "os_irq_register shift irq func data prio s =
     (if NR_IRQS \<le> unat irq then Inr (-1, s) else irq_register shift (sint irq) func data prio s)"

definition os_irq_unregister :: "u32 \<Rightarrow> irq_sys \<Rightarrow> (int \<times> irq_sys) outcome" where
  "os_irq_unregister irq s =
     (if NR_IRQS \<le> unat irq then Inr (-1, s) else irq_unregister (sint irq) s)"

definition os_irq_set_priority :: "nat \<Rightarrow> u32 \<Rightarrow> u32 \<Rightarrow> irq_sys \<Rightarrow> irq_sys" where
  "os_irq_set_priority shift irq prio s =
     (if NR_IRQS \<le> unat irq then s
      else if prio \<noteq> 0 then GIC_SetPriority (unat irq) (push_bit shift prio) s else s)"

text \<open>
  The interrupt entry: the acknowledge register's value and the time of the counter, to the handler
  called, if any.
\<close>

definition vApplicationIRQHandler ::
    "u32 \<Rightarrow> u64 \<Rightarrow> irq_sys \<Rightarrow> ((nat \<times> nat) option \<times> irq_sys) outcome" where
  "vApplicationIRQHandler ulICCIAR now s =
     (let s1 = (if iq_work_begin s = 0 then s\<lparr>iq_work_begin := now\<rparr> else s);
          nr = unat (ulICCIAR AND of_nat NR_IRQS)
      in if nr < NR_IRQS
         then and_then (arr_get (iq_handler s1) nr) (\<lambda>h.
                Inr (map_option (\<lambda>f. (f, ih_data h)) (ih_func h), s1))
         else Inr (None, s1))"

subsection \<open>Processor load\<close>

text \<open>The idle hook just before it waits, at time \<open>now\<close>.\<close>

definition cpu_load_stats_hook :: "u64 \<Rightarrow> irq_sys \<Rightarrow> irq_sys" where
  "cpu_load_stats_hook now s =
     (let s1 = s\<lparr>iq_enabled := False, iq_idle := iq_idle s + (iq_work_begin s - iq_work_end s)\<rparr>;
          s2 = s1\<lparr>iq_work_end := now\<rparr>;
          s3 = s2\<lparr>iq_busy := iq_busy s2 + (iq_work_end s2 - iq_work_begin s2)\<rparr>
      in s3\<lparr>iq_work_begin := 0, iq_enabled := True\<rparr>)"

text \<open>
  The report: whether the line of full load is printed, and the load in per cent when it is computed.
  The rounding of the floating-point numbers is left out.
\<close>

definition cpu_load_stats :: "irq_sys \<Rightarrow> (bool \<times> rat option) \<times> irq_sys" where
  "cpu_load_stats s =
     ((iq_idle s = 0,
       if iq_idle s + iq_busy s > 0
       then Some (100 * of_nat (unat (iq_busy s)) / of_nat (unat (iq_idle s + iq_busy s))) else None),
      s\<lparr>iq_idle := 0, iq_busy := 0\<rparr>)"

subsection \<open>The table as a map\<close>

datatype irq_op = Register int nat nat u32 | Unregister int

fun irq_step :: "nat \<Rightarrow> irq_op \<Rightarrow> irq_sys \<Rightarrow> (int \<times> irq_sys) outcome" where
  "irq_step shift (Register nr f d prio) s = irq_register shift nr (Some f) d prio s"
| "irq_step shift (Unregister nr) s = irq_unregister nr s"

fun irq_run :: "nat \<Rightarrow> irq_op list \<Rightarrow> irq_sys \<Rightarrow> irq_sys outcome" where
  "irq_run shift [] s = Inr s"
| "irq_run shift (x # xs) s = and_then (irq_step shift x s) (\<lambda>(r, s1). irq_run shift xs s1)"

text \<open>The specification: a map from the interrupts that exist to handlers.\<close>

fun spec_step :: "irq_op \<Rightarrow> (int \<Rightarrow> (nat \<times> nat) option) \<Rightarrow> int \<Rightarrow> (nat \<times> nat) option" where
  "spec_step (Register nr f d prio) m = (if 0 \<le> nr \<and> nr < 1023 then m(nr \<mapsto> (f, d)) else m)"
| "spec_step (Unregister nr) m = (if 0 \<le> nr \<and> nr < 1023 then m(nr := None) else m)"

definition table_of :: "irq_sys \<Rightarrow> int \<Rightarrow> (nat \<times> nat) option" where
  "table_of s n = (if 0 \<le> n \<and> n < 1023
     then map_option (\<lambda>f. (f, ih_data (iq_handler s ! nat n))) (ih_func (iq_handler s ! nat n)) else None)"

lemma irq_step_refines:
  assumes "length (iq_handler s) = NR_IRQS"
  shows "\<exists>r s'. irq_step shift x s = Inr (r, s') \<and> length (iq_handler s') = NR_IRQS
    \<and> table_of s' = spec_step x (table_of s) \<and> iq_work_begin s' = iq_work_begin s
    \<and> iq_work_end s' = iq_work_end s \<and> iq_idle s' = iq_idle s \<and> iq_busy s' = iq_busy s"
  using assms
  by (cases x)
    (auto simp: irq_register_def irq_unregister_def Let_def table_of_def NR_IRQS_def GIC_SetPriority_def
      fun_eq_iff nth_list_update nat_eq_iff)

lemma irq_run_refines:
  assumes "length (iq_handler s) = NR_IRQS"
  shows "\<exists>s'. irq_run shift xs s = Inr s' \<and> length (iq_handler s') = NR_IRQS
    \<and> table_of s' = fold spec_step xs (table_of s)"
  using assms
proof (induction xs arbitrary: s)
  case (Cons x xs)
  obtain r s1 where s1: "irq_step shift x s = Inr (r, s1)" "length (iq_handler s1) = NR_IRQS"
      "table_of s1 = spec_step x (table_of s)"
    using irq_step_refines [OF Cons.prems] by blast
  show ?case using Cons.IH [OF s1(2)] by (simp add: s1)
qed simp

lemma irq_entry:
  assumes "length (iq_handler s) = NR_IRQS"
  shows "vApplicationIRQHandler iar now s =
    Inr (table_of s (int (unat (iar AND 0x3FF))),
         if iq_work_begin s = 0 then s\<lparr>iq_work_begin := now\<rparr> else s)"
proof -
  have t: "table_of s (int n) = (if n < 1023
      then map_option (\<lambda>f. (f, ih_data (iq_handler s ! n))) (ih_func (iq_handler s ! n)) else None)" for n
    by (simp add: table_of_def)
  show ?thesis using assms unfolding t
    by (simp add: vApplicationIRQHandler_def Let_def NR_IRQS_def)
qed

text \<open>
  C22: The interrupt table behaves as a map: after any sequence of registrations and removals an
  interrupt calls the handler that was last registered for its number and not removed since, whatever
  the upper bits of the acknowledge register are; the number 1023 of a spurious interrupt calls none.
\<close>

theorem irq_dispatch_refines_map:
  "\<exists>s. irq_run shift xs irq_boot = Inr s \<and>
     (\<forall>iar now. \<exists>s'. vApplicationIRQHandler iar now s =
        Inr (fold spec_step xs (\<lambda>_. None) (int (unat (iar AND 0x3FF))), s'))
   \<and> fold spec_step xs (\<lambda>_. None) 1023 = None"
proof -
  have "length (iq_handler irq_boot) = NR_IRQS" by (simp add: irq_boot_def)
  moreover have t: "table_of irq_boot = (\<lambda>_. None)"
    by (auto simp: table_of_def irq_boot_def NR_IRQS_def fun_eq_iff)
  ultimately obtain s where s: "irq_run shift xs irq_boot = Inr s" "length (iq_handler s) = NR_IRQS"
      "table_of s = fold spec_step xs (\<lambda>_. None)"
    using irq_run_refines [of irq_boot shift xs] by auto
  have "table_of s 1023 = None" by (simp add: table_of_def)
  then show ?thesis using s irq_entry [OF s(2)] by auto
qed

text \<open>The OS layer's numbers are those of the table.\<close>

lemma os_irq_register_eq:
  "os_irq_register shift irq func data prio s = irq_register shift (int (unat irq)) func data prio s"
proof (cases "NR_IRQS \<le> unat irq")
  case True
  then have "int NR_IRQS \<le> int (unat irq)" by (simp only: of_nat_le_iff)
  then show ?thesis unfolding os_irq_register_def irq_register_def using True by (simp only: if_True simp_thms)
next
  case False
  then have "int (unat irq) < 1023" unfolding NR_IRQS_def by linarith
  then have "uint irq < 2 ^ 31" by simp
  moreover have "- (2 ^ 31) \<le> uint irq" by (rule order_trans [OF _ uint_ge_0]) simp
  ultimately have "signed_take_bit 31 (uint irq) = uint irq" by (intro signed_take_bit_int_eq_self)
  then have "sint irq = int (unat irq)" using sint_uint [of irq] by simp
  then show ?thesis using False by (simp add: os_irq_register_def)
qed

text \<open>
  A handler that registers or removes an interrupt ends with interrupts enabled, although the entry
  runs with them disabled.
\<close>

theorem irq_unregister_enables:
  "irq_unregister 5 (irq_boot\<lparr>iq_enabled := False\<rparr>) = Inr (0, s') \<Longrightarrow> iq_enabled s'"
  by (auto simp: irq_unregister_def outcome_simps Let_def NR_IRQS_def)

subsection \<open>What the load accounts for\<close>

text \<open>
  The processor's time as rounds: the interrupts since the last wait with their acknowledge values and
  times, then the time of the idle hook before the next wait.
\<close>

type_synonym load_round = "(u32 \<times> nat) list \<times> nat"

fun entries :: "(u32 \<times> nat) list \<Rightarrow> irq_sys \<Rightarrow> irq_sys outcome" where
  "entries [] s = Inr s"
| "entries ((iar, t) # xs) s =
     and_then (vApplicationIRQHandler iar (of_nat t) s) (\<lambda>(_, s1). entries xs s1)"

fun load_rounds :: "load_round list \<Rightarrow> irq_sys \<Rightarrow> irq_sys outcome" where
  "load_rounds [] s = Inr s"
| "load_rounds ((es, h) # rs) s =
     and_then (entries es s) (\<lambda>s1. load_rounds rs (cpu_load_stats_hook (of_nat h) s1))"

text \<open>From a wait at time \<open>e\<close>: at least one interrupt ends each wait, and time does not run backwards.\<close>

fun rounds_ok :: "nat \<Rightarrow> load_round list \<Rightarrow> bool" where
  "rounds_ok e [] \<longleftrightarrow> e < 2 ^ 64"
| "rounds_ok e ((es, h) # rs) \<longleftrightarrow>
     es \<noteq> [] \<and> 0 < snd (hd es) \<and> e \<le> snd (hd es) \<and> snd (hd es) \<le> h \<and> rounds_ok h rs"

fun busy_time :: "load_round list \<Rightarrow> nat" where
  "busy_time [] = 0"
| "busy_time ((es, h) # rs) = (h - snd (hd es)) + busy_time rs"

fun idle_time :: "nat \<Rightarrow> load_round list \<Rightarrow> nat" where
  "idle_time e [] = 0"
| "idle_time e ((es, h) # rs) = (snd (hd es) - e) + idle_time h rs"

fun last_wait :: "nat \<Rightarrow> load_round list \<Rightarrow> nat" where
  "last_wait e [] = e"
| "last_wait e ((es, h) # rs) = last_wait h rs"

lemma rounds_ok_last: "rounds_ok e rs \<Longrightarrow> e \<le> last_wait e rs \<and> last_wait e rs < 2 ^ 64"
proof (induction rs arbitrary: e)
  case (Cons r rs)
  obtain es h where r: "r = (es, h)" by (cases r)
  show ?case using Cons.IH [of h] Cons.prems by (simp add: r)
qed simp

lemma times_add_up: "rounds_ok e rs \<Longrightarrow> idle_time e rs + busy_time rs = last_wait e rs - e"
proof (induction rs arbitrary: e)
  case (Cons r rs)
  obtain es h where r: "r = (es, h)" by (cases r)
  show ?case using Cons.IH [of h] Cons.prems rounds_ok_last [of h rs] by (auto simp: r)
qed simp

lemma entries_begun:
  assumes "length (iq_handler s) = NR_IRQS" "iq_work_begin s \<noteq> 0"
  shows "entries es s = Inr s"
  using assms by (induction es) (auto simp: irq_entry)

lemma entries_first:
  assumes "length (iq_handler s) = NR_IRQS" "iq_work_begin s = 0" "es \<noteq> []"
    and "0 < snd (hd es)" "snd (hd es) < 2 ^ 64"
  shows "entries es s = Inr (s\<lparr>iq_work_begin := of_nat (snd (hd es))\<rparr>)"
proof -
  obtain iar t xs where es: "es = (iar, t) # xs" using assms(3) by (cases es) auto
  have "unat (of_nat t :: u64) = t"
    using assms(4,5) by (simp add: es unat_of_nat take_bit_nat_eq_self)
  then have "(of_nat t :: u64) \<noteq> 0" using assms(4) by (metis es list.sel(1) snd_conv unat_0 less_numeral_extra(3))
  then show ?thesis using assms(1,2)
    by (simp add: es irq_entry entries_begun)
qed

lemma load_rounds_sums:
  assumes "length (iq_handler s) = NR_IRQS" "iq_work_begin s = 0" "iq_work_end s = of_nat e"
    and "rounds_ok e rs"
  shows "\<exists>s'. load_rounds rs s = Inr s' \<and> iq_idle s' = iq_idle s + of_nat (idle_time e rs)
    \<and> iq_busy s' = iq_busy s + of_nat (busy_time rs)"
  using assms
proof (induction rs arbitrary: s e)
  case (Cons r rs)
  obtain es h where r: "r = (es, h)" by (cases r)
  let ?b = "snd (hd es)"
  let ?s = "cpu_load_stats_hook (of_nat h) (s\<lparr>iq_work_begin := of_nat ?b\<rparr>)"
  have ok: "es \<noteq> []" "0 < ?b" "e \<le> ?b" "?b \<le> h" "rounds_ok h rs" "?b < 2 ^ 64"
    using Cons.prems(4) rounds_ok_last [of h rs] by (auto simp: r)
  have en: "entries es s = Inr (s\<lparr>iq_work_begin := of_nat ?b\<rparr>)"
    using entries_first [OF Cons.prems(1,2) ok(1,2,6)] .
  have s: "length (iq_handler ?s) = NR_IRQS" "iq_work_begin ?s = 0" "iq_work_end ?s = of_nat h"
    "iq_idle ?s = iq_idle s + of_nat (?b - e)" "iq_busy ?s = iq_busy s + of_nat (h - ?b)"
    using Cons.prems ok by (simp_all add: cpu_load_stats_hook_def Let_def of_nat_diff)
  show ?case using Cons.IH [OF s(1-3) ok(5)] s(4,5) ok(1) en
    by (simp add: r add.assoc)
qed simp

text \<open>
  C33: The processor load is exact: over a period of waits, each ended by an interrupt, the idle counter
  is the time between the waits and the first interrupt after them, the busy counter the rest of the
  period, and the load reported is the busy share of the period in per cent.
\<close>

theorem cpu_load_accounts:
  assumes "length (iq_handler s) = NR_IRQS" "iq_work_begin s = 0" "iq_work_end s = of_nat e"
    and "iq_idle s = 0" "iq_busy s = 0" "rounds_ok e rs" "e < last_wait e rs"
  shows "\<exists>s'. load_rounds rs s = Inr s' \<and> unat (iq_idle s') = idle_time e rs
    \<and> unat (iq_busy s') = busy_time rs
    \<and> snd (fst (cpu_load_stats s')) = Some (100 * of_nat (busy_time rs) / of_nat (last_wait e rs - e))"
proof -
  obtain s' where s': "load_rounds rs s = Inr s'" "iq_idle s' = of_nat (idle_time e rs)"
      "iq_busy s' = of_nat (busy_time rs)"
    using load_rounds_sums [OF assms(1-3,6)] assms(4,5) by auto
  have sum: "idle_time e rs + busy_time rs = last_wait e rs - e" by (rule times_add_up [OF assms(6)])
  moreover have "last_wait e rs - e < 2 ^ 64" using rounds_ok_last [OF assms(6)] by auto
  ultimately have lt: "idle_time e rs < 2 ^ 64" "busy_time rs < 2 ^ 64" by auto
  have n: "unat (iq_idle s') = idle_time e rs" "unat (iq_busy s') = busy_time rs"
    using lt by (simp_all add: s'(2,3) unat_of_nat take_bit_nat_eq_self)
  then have t: "unat (iq_idle s' + iq_busy s') = last_wait e rs - e"
    using sum \<open>last_wait e rs - e < 2 ^ 64\<close> by (simp add: unat_add_lt)
  have "0 < unat (iq_idle s' + iq_busy s')" using t assms(7) by simp
  then have "0 < iq_idle s' + iq_busy s'" by (metis unat_0 word_gt_0 less_irrefl)
  then show ?thesis using s'(1) n t by (simp add: cpu_load_stats_def)
qed

text \<open>
  A hook that runs without an interrupt since the last one (the wait instruction may end without one)
  takes the whole time of the counter off the idle time, which wraps around; the sum stays right.
\<close>

theorem idle_hook_without_interrupt:
  assumes "iq_work_begin s = 0"
  shows "iq_idle (cpu_load_stats_hook now s) = iq_idle s - iq_work_end s
    \<and> iq_busy (cpu_load_stats_hook now s) = iq_busy s + now"
  using assms by (simp add: cpu_load_stats_hook_def Let_def)

definition ex_rounds :: "load_round list" where
  "ex_rounds = [([(30, 150), (31, 160)], 180), ([(30, 300)], 320)]"

lemma cpu_load_accounts_witness:
  "\<exists>s'. load_rounds ex_rounds (irq_boot\<lparr>iq_work_end := 100\<rparr>) = Inr s' \<and> unat (iq_idle s') = 170
    \<and> unat (iq_busy s') = 50"
  using cpu_load_accounts [of "irq_boot\<lparr>iq_work_end := 100\<rparr>" 100 ex_rounds]
  by (auto simp: irq_boot_def ex_rounds_def)

end
