(* ===== verification/Gen_Sw_Mbox.thy ===== *)
theory Gen_Sw_Mbox
  imports Prelude
begin


text \<open>
  The generic software mailbox, \<open>src/libs/gen_sw_mbox/gen_sw_mbox.c\<close>: a doorbell between two
  cores made of a page of shared registers and one software interrupt in each direction.

  The registers of a page are kept under its physical base address, in the layout the core
  under verification sees. The two layouts the source selects with \<open>GEN_SW_MBOX_MASTER\<close> differ
  by exchanging the two status arrays and the two data arrays: \<open>peer_view\<close> is that exchange, so
  that a page can be read from either side. Mailbox objects live in a heap, as they are
  allocated and freed. A semaphore is its count, and taking one whose count is zero, which no
  other step of the model can raise, is the fault \<open>Deadlock\<close>.

  Receive callbacks are a parameter \<open>run\<close>, a function on the mailbox state, as a callback may
  itself send a message; the clients keep their own state in an extension of the record. The loop that waits for a busy channel reads registers that the peer
  changes: the peer is a list of steps on the register page, one between two reads, and a wait
  that outlives the list is \<open>Diverges\<close>.
\<close>

subsection \<open>State\<close>

definition MBOX_MAX_INST :: nat where "MBOX_MAX_INST = 4"
definition MAX_CH :: nat where "MAX_CH = 4"

definition S_READY :: u32 where "S_READY = 0"
definition S_BUSY :: u32 where "S_BUSY = 1"
definition S_DONE :: u32 where "S_DONE = 2"

lemmas mbox_consts = MBOX_MAX_INST_def MAX_CH_def
lemmas mbox_status = S_READY_def S_BUSY_def S_DONE_def

record gen_sw_mbox_mmio =
  rx_status :: "u32 list"
  tx_status :: "u32 list"
  rx_ch :: "u32 list"
  tx_ch :: "u32 list"
  ch_ack_flags :: u32

definition peer_view :: "gen_sw_mbox_mmio \<Rightarrow> gen_sw_mbox_mmio" where
  "peer_view r =
     \<lparr>rx_status = tx_status r, tx_status = rx_status r, rx_ch = tx_ch r, tx_ch = rx_ch r,
      ch_ack_flags = ch_ack_flags r\<rparr>"

record gen_sw_mbox_chan =
  ch_id :: u32
  recv_cb :: "nat option"
  cb_data :: nat

record gen_sw_mbox =
  mmio_pa :: nat
  mbox_irq :: int
  remote_irq :: int
  chan :: "gen_sw_mbox_chan list"
  ref_cnt :: int
  lock :: nat

record mbox_sys =
  objs :: "nat \<Rightarrow> gen_sw_mbox option"
  mbox_inst :: "nat option list"
  regs :: "nat \<Rightarrow> gen_sw_mbox_mmio"
  gsem :: nat
  is_inited :: bool
  pended :: "int list"
  handlers :: "(int \<times> nat) list"
  mapped :: "nat list"

type_synonym 'a mbox_run = "nat \<Rightarrow> nat \<Rightarrow> u32 \<Rightarrow> 'a mbox_sys_scheme \<Rightarrow> 'a mbox_sys_scheme outcome"

definition sem_take :: "nat \<Rightarrow> nat outcome" where
  "sem_take n = (if n = 0 then Inl Deadlock else Inr (n - 1))"

definition pend :: "int \<Rightarrow> 'a mbox_sys_scheme \<Rightarrow> 'a mbox_sys_scheme" where
  "pend irq s = s\<lparr>pended := pended s @ [irq]\<rparr>"

definition set_regs :: "nat \<Rightarrow> gen_sw_mbox_mmio \<Rightarrow> 'a mbox_sys_scheme \<Rightarrow> 'a mbox_sys_scheme" where
  "set_regs base r s = s\<lparr>regs := (regs s)(base := r)\<rparr>"

definition set_obj :: "nat \<Rightarrow> gen_sw_mbox \<Rightarrow> 'a mbox_sys_scheme \<Rightarrow> 'a mbox_sys_scheme" where
  "set_obj p m s = s\<lparr>objs := (objs s)(p \<mapsto> m)\<rparr>"

definition obj :: "nat \<Rightarrow> 'a mbox_sys_scheme \<Rightarrow> gen_sw_mbox outcome" where
  "obj p s = (case objs s p of None \<Rightarrow> Inl Use_After_Free | Some m \<Rightarrow> Inr m)"

subsection \<open>Instances and their reference counts\<close>

fun find_inst :: "(nat \<Rightarrow> gen_sw_mbox option) \<Rightarrow> nat \<Rightarrow> nat option list \<Rightarrow> nat option outcome" where
  "find_inst h base [] = Inr None"
| "find_inst h base (None # ps) = find_inst h base ps"
| "find_inst h base (Some p # ps) =
     (case h p of
        None \<Rightarrow> Inl Use_After_Free
      | Some m \<Rightarrow> if mmio_pa m = base then Inr (Some p) else find_inst h base ps)"

definition gen_sw_mbox_get_instance :: "nat \<Rightarrow> 'a mbox_sys_scheme \<Rightarrow> nat option outcome" where
  "gen_sw_mbox_get_instance base s = find_inst (objs s) base (mbox_inst s)"

definition add_ref :: "int \<Rightarrow> nat option \<Rightarrow> 'a mbox_sys_scheme \<Rightarrow> 'a mbox_sys_scheme outcome" where
  "add_ref k mbox s =
     (case mbox of
        None \<Rightarrow> Inl Assert_Failed
      | Some p \<Rightarrow>
          and_then (obj p s) (\<lambda>m.
          and_then (sem_take (lock m)) (\<lambda>l.
          Inr (set_obj p (m\<lparr>ref_cnt := ref_cnt m + k, lock := l + 1\<rparr>) s))))"

definition gen_sw_mbox_get :: "nat option \<Rightarrow> 'a mbox_sys_scheme \<Rightarrow> 'a mbox_sys_scheme outcome" where
  "gen_sw_mbox_get = add_ref 1"

definition gen_sw_mbox_put :: "nat option \<Rightarrow> 'a mbox_sys_scheme \<Rightarrow> 'a mbox_sys_scheme outcome" where
  "gen_sw_mbox_put = add_ref (- 1)"

fun replace_first :: "'a \<Rightarrow> 'a \<Rightarrow> 'a list \<Rightarrow> 'a list option" where
  "replace_first x y [] = None"
| "replace_first x y (z # zs) =
     (if z = x then Some (y # zs) else map_option ((#) z) (replace_first x y zs))"

definition gen_sw_mbox_add_mbox :: "nat \<Rightarrow> 'a mbox_sys_scheme \<Rightarrow> int \<times> 'a mbox_sys_scheme" where
  "gen_sw_mbox_add_mbox p s =
     (case replace_first None (Some p) (mbox_inst s) of
        None \<Rightarrow> (- 1, s)
      | Some ps \<Rightarrow> (0, s\<lparr>mbox_inst := ps\<rparr>))"

definition gen_sw_mbox_del_mbox :: "nat \<Rightarrow> 'a mbox_sys_scheme \<Rightarrow> int \<times> 'a mbox_sys_scheme" where
  "gen_sw_mbox_del_mbox p s =
     (case replace_first (Some p) None (mbox_inst s) of
        None \<Rightarrow> (- 1, s)
      | Some ps \<Rightarrow> (0, s\<lparr>mbox_inst := ps\<rparr>))"

subsection \<open>The interrupt handler\<close>

definition set_rx_status :: "nat \<Rightarrow> nat \<Rightarrow> u32 \<Rightarrow> 'a mbox_sys_scheme \<Rightarrow> 'a mbox_sys_scheme" where
  "set_rx_status base i v s =
     set_regs base ((regs s base)\<lparr>rx_status := (rx_status (regs s base))[i := v]\<rparr>) s"

definition set_tx_status :: "nat \<Rightarrow> nat \<Rightarrow> u32 \<Rightarrow> 'a mbox_sys_scheme \<Rightarrow> 'a mbox_sys_scheme" where
  "set_tx_status base i v s =
     set_regs base ((regs s base)\<lparr>tx_status := (tx_status (regs s base))[i := v]\<rparr>) s"

definition ack_tx_done :: "nat \<Rightarrow> nat \<Rightarrow> 'a mbox_sys_scheme \<Rightarrow> 'a mbox_sys_scheme" where
  "ack_tx_done base i s =
     (if tx_status (regs s base) ! i = S_DONE then set_tx_status base i S_READY s else s)"

definition handle_channel :: "'a mbox_run \<Rightarrow> nat \<Rightarrow> nat \<Rightarrow> 'a mbox_sys_scheme \<Rightarrow> 'a mbox_sys_scheme outcome" where
  "handle_channel run p i s =
     and_then (obj p s) (\<lambda>m.
     (let base = mmio_pa m;
          s1 = ack_tx_done base i s
      in if rx_status (regs s1 base) ! i \<noteq> S_BUSY then Inr s1
         else
           (let msg = rx_ch (regs s1 base) ! i;
                s2 = pend (remote_irq m) (set_rx_status base i S_DONE s1)
            in and_then
                 (case recv_cb (chan m ! i) of
                    None \<Rightarrow> Inr s2
                  | Some cb \<Rightarrow> run cb (cb_data (chan m ! i)) msg s2) (\<lambda>s3.
               if bit (ch_ack_flags (regs s3 base)) i
               then and_then (obj p s3) (\<lambda>m'.
                      Inr (pend (remote_irq m') (set_rx_status base i S_DONE s3)))
               else Inr (set_rx_status base i S_READY s3)))))"

fun handle_channels :: "'a mbox_run \<Rightarrow> nat \<Rightarrow> nat list \<Rightarrow> 'a mbox_sys_scheme \<Rightarrow> 'a mbox_sys_scheme outcome" where
  "handle_channels run p [] s = Inr s"
| "handle_channels run p (i # is) s =
     and_then (handle_channel run p i s) (handle_channels run p is)"

definition gen_sw_mbox_handler :: "'a mbox_run \<Rightarrow> nat \<Rightarrow> 'a mbox_sys_scheme \<Rightarrow> 'a mbox_sys_scheme outcome" where
  "gen_sw_mbox_handler run p = handle_channels run p [0..<MAX_CH]"

subsection \<open>Sending\<close>

text \<open>
  \<open>wait_ready\<close> is the loop \<open>while (mmio->tx_status[ch] != S_READY)\<close>: \<open>None\<close> is the return with
  \<open>-2\<close> from inside it.
\<close>

type_synonym peer_step = "gen_sw_mbox_mmio \<Rightarrow> gen_sw_mbox_mmio"

fun wait_ready ::
    "peer_step list \<Rightarrow> nat \<Rightarrow> nat \<Rightarrow> bool \<Rightarrow> 'a mbox_sys_scheme \<Rightarrow> ('a mbox_sys_scheme option) outcome" where
  "wait_ready [] base ch block s =
     (if tx_status (regs s base) ! ch = S_READY then Inr (Some s)
      else if \<not> block then Inr None
      else Inl Diverges)"
| "wait_ready (f # fs) base ch block s =
     (if tx_status (regs s base) ! ch = S_READY then Inr (Some s)
      else if \<not> block then Inr None
      else wait_ready fs base ch block (set_regs base (f (regs s base)) s))"

definition post_msg :: "nat \<Rightarrow> nat \<Rightarrow> u32 \<Rightarrow> gen_sw_mbox_mmio \<Rightarrow> gen_sw_mbox_mmio" where
  "post_msg base ch msg r =
     r\<lparr>tx_ch := (tx_ch r)[ch := msg], tx_status := (tx_status r)[ch := S_BUSY]\<rparr>"

text \<open>
  Looking an instance up under the global semaphore and taking a reference, the opening of
  \<open>gen_sw_mbox_sendmsg\<close> and \<open>gen_sw_mbox_register_chan_callback\<close>.
\<close>

definition grab :: "nat \<Rightarrow> 'a mbox_sys_scheme \<Rightarrow> (nat option \<times> 'a mbox_sys_scheme) outcome" where
  "grab base s =
     and_then (sem_take (gsem s)) (\<lambda>g.
     (let s1 = s\<lparr>gsem := g\<rparr>
      in and_then (gen_sw_mbox_get_instance base s1) (\<lambda>mbox.
         (case mbox of
            None \<Rightarrow> Inr (None, s1\<lparr>gsem := gsem s1 + 1\<rparr>)
          | Some p \<Rightarrow>
              and_then (gen_sw_mbox_get mbox s1) (\<lambda>s2.
              Inr (Some p, s2\<lparr>gsem := gsem s2 + 1\<rparr>))))))"

definition gen_sw_mbox_sendmsg ::
    "peer_step list \<Rightarrow> nat \<Rightarrow> u32 \<Rightarrow> u32 \<Rightarrow> bool \<Rightarrow> 'a mbox_sys_scheme \<Rightarrow> (int \<times> 'a mbox_sys_scheme) outcome" where
  "gen_sw_mbox_sendmsg fs base ch msg block s =
     os_assert (unat ch < MAX_CH)
      (and_then (grab base s) (\<lambda>(mbox, s1).
       (case mbox of
          None \<Rightarrow> Inr (- 1, s1)
        | Some p \<Rightarrow>
            and_then (obj p s1) (\<lambda>m.
            and_then (wait_ready fs (mmio_pa m) (unat ch) block s1) (\<lambda>w.
            (case w of
               None \<Rightarrow> Inr (- 2, s1)
             | Some s2 \<Rightarrow>
                 (let s3 = set_regs (mmio_pa m)
                             (post_msg (mmio_pa m) (unat ch) msg (regs s2 (mmio_pa m))) s2
                  in and_then (gen_sw_mbox_put mbox (pend (remote_irq m) s3)) (\<lambda>s4.
                     Inr (0, s4)))))))))"

subsection \<open>Channel callbacks\<close>

definition set_chan_cb :: "nat \<Rightarrow> nat option \<Rightarrow> nat \<Rightarrow> gen_sw_mbox \<Rightarrow> gen_sw_mbox" where
  "set_chan_cb ch cb d m =
     m\<lparr>chan := (chan m)[ch := (chan m ! ch)\<lparr>recv_cb := cb, cb_data := d\<rparr>]\<rparr>"

definition gen_sw_mbox_register_chan_callback ::
    "nat \<Rightarrow> u32 \<Rightarrow> nat option \<Rightarrow> nat \<Rightarrow> 'a mbox_sys_scheme \<Rightarrow> (int \<times> 'a mbox_sys_scheme) outcome" where
  "gen_sw_mbox_register_chan_callback base ch cb d s =
     os_assert (unat ch < MAX_CH) (os_assert (cb \<noteq> None)
      (and_then (grab base s) (\<lambda>(mbox, s1).
       (case mbox of
          None \<Rightarrow> Inr (- 1, s1)
        | Some p \<Rightarrow>
            and_then (obj p s1) (\<lambda>m.
            Inr (0, set_obj p (set_chan_cb (unat ch) cb d m) s1))))))"

definition gen_sw_mbox_unregister_chan_callback ::
    "nat \<Rightarrow> u32 \<Rightarrow> 'a mbox_sys_scheme \<Rightarrow> (int \<times> 'a mbox_sys_scheme) outcome" where
  "gen_sw_mbox_unregister_chan_callback base ch s =
     os_assert (unat ch < MAX_CH)
      (and_then (sem_take (gsem s)) (\<lambda>g.
       (let s1 = s\<lparr>gsem := g\<rparr>
        in and_then (gen_sw_mbox_get_instance base s1) (\<lambda>mbox.
           (case mbox of
              None \<Rightarrow> Inr (- 1, s1\<lparr>gsem := gsem s1 + 1\<rparr>)
            | Some p \<Rightarrow>
                and_then (obj p s1) (\<lambda>m.
                and_then (gen_sw_mbox_put mbox
                            (set_obj p (set_chan_cb (unat ch) None 0 m) s1)) (\<lambda>s2.
                Inr (0, s2\<lparr>gsem := gsem s2 + 1\<rparr>))))))))"

subsection \<open>Initialisation and registration\<close>

definition gen_sw_mbox_init :: "int \<Rightarrow> 'a mbox_sys_scheme \<Rightarrow> 'a mbox_sys_scheme outcome" where
  "gen_sw_mbox_init sem_rc s =
     (if is_inited s then Inr s
      else os_assert (sem_rc = 0) (Inr (s\<lparr>gsem := 1, is_inited := True\<rparr>)))"

definition gen_sw_mbox_deinit :: "'a mbox_sys_scheme \<Rightarrow> 'a mbox_sys_scheme" where
  "gen_sw_mbox_deinit s = (if is_inited s then s\<lparr>gsem := 0, is_inited := False\<rparr> else s)"

definition clear_status :: "gen_sw_mbox_mmio \<Rightarrow> gen_sw_mbox_mmio" where
  "clear_status r =
     r\<lparr>rx_status := replicate MAX_CH S_READY, tx_status := replicate MAX_CH S_READY\<rparr>"

definition clear_chans :: "gen_sw_mbox_chan list \<Rightarrow> gen_sw_mbox_chan list" where
  "clear_chans cs = map (\<lambda>i. (cs ! i)\<lparr>ch_id := of_nat i, recv_cb := None\<rparr>) [0..<MAX_CH]"

text \<open>
  Registration. \<open>alloc\<close> is what the allocator answers (an unused address and the contents of the
  memory found there), \<open>map_rc\<close> and \<open>sem_rc\<close> the results of mapping the page and of creating the
  lock.
\<close>

definition gen_sw_mbox_register ::
    "(nat \<times> gen_sw_mbox) option \<Rightarrow> int \<Rightarrow> int \<Rightarrow> nat \<Rightarrow> int \<Rightarrow> int \<Rightarrow> 'a mbox_sys_scheme \<Rightarrow>
       (int \<times> 'a mbox_sys_scheme) outcome" where
  "gen_sw_mbox_register alloc map_rc sem_rc base irq remote s =
     os_assert (base \<noteq> 0)
      (and_then (sem_take (gsem s)) (\<lambda>g.
       (let s1 = s\<lparr>gsem := g\<rparr>
        in and_then (gen_sw_mbox_get_instance base s1) (\<lambda>mbox.
           (case mbox of
              Some p \<Rightarrow> Inr (0, s1\<lparr>gsem := gsem s1 + 1\<rparr>)
            | None \<Rightarrow>
                (case alloc of
                   None \<Rightarrow> Inr (- 1, s1\<lparr>gsem := gsem s1 + 1\<rparr>)
                 | Some (p, m0) \<Rightarrow>
                     if map_rc \<noteq> 0 then Inr (- 2, s1\<lparr>gsem := gsem s1 + 1\<rparr>)
                     else if sem_rc \<noteq> 0 then Inr (sem_rc, s1\<lparr>gsem := gsem s1 + 1\<rparr>)
                     else
                       (let m = m0\<lparr>mbox_irq := irq, remote_irq := remote, mmio_pa := base,
                                   lock := 1, chan := clear_chans (chan m0), ref_cnt := 0\<rparr>;
                            s2 = set_regs base (clear_status (regs s1 base)) (set_obj p m s1);
                            s3 = s2\<lparr>handlers := handlers s2 @ [(irq, p)],
                                    mapped := mapped s2 @ [base]\<rparr>;
                            s4 = snd (gen_sw_mbox_add_mbox p s3)
                        in Inr (0, s4\<lparr>gsem := gsem s4 + 1\<rparr>))))))))"

definition gen_sw_mbox_unregister :: "nat \<Rightarrow> 'a mbox_sys_scheme \<Rightarrow> (int \<times> 'a mbox_sys_scheme) outcome" where
  "gen_sw_mbox_unregister base s =
     os_assert (base \<noteq> 0)
      (and_then (sem_take (gsem s)) (\<lambda>g.
       (let s1 = s\<lparr>gsem := g\<rparr>
        in and_then (gen_sw_mbox_get_instance base s1) (\<lambda>mbox.
           (case mbox of
              None \<Rightarrow> Inr (0, s1\<lparr>gsem := gsem s1 + 1\<rparr>)
            | Some p \<Rightarrow>
                and_then (obj p s1) (\<lambda>m.
                and_then (sem_take (lock m)) (\<lambda>l.
                if ref_cnt m > 0 then Inr (- 1, set_obj p (m\<lparr>lock := l + 1\<rparr>) s1)
                else
                  (let s2 = snd (gen_sw_mbox_del_mbox p s1)
                   in Inr (0, s2\<lparr>gsem := gsem s2 + 1,
                                 handlers := filter (\<lambda>(i, q). i \<noteq> mbox_irq m) (handlers s2),
                                 mapped := remove1 (mmio_pa m) (mapped s2),
                                 objs := (objs s2)(p := None)\<rparr>))))))))) "

subsection \<open>What one interrupt does\<close>

named_theorems mbox_simps

lemma pend_simps [simp, mbox_simps]:
  "regs (pend i s) = regs s" "objs (pend i s) = objs s" "pended (pend i s) = pended s @ [i]"
  "mbox_inst (pend i s) = mbox_inst s" "gsem (pend i s) = gsem s"
  "is_inited (pend i s) = is_inited s" "handlers (pend i s) = handlers s"
  "mapped (pend i s) = mapped s"
  "mbox_sys.more (pend i s) = mbox_sys.more s"
  by (simp_all add: pend_def)

lemma set_regs_simps [simp, mbox_simps]:
  "regs (set_regs b r s) = (regs s)(b := r)" "objs (set_regs b r s) = objs s"
  "pended (set_regs b r s) = pended s" "mbox_inst (set_regs b r s) = mbox_inst s"
  "gsem (set_regs b r s) = gsem s"
  "is_inited (set_regs b r s) = is_inited s" "handlers (set_regs b r s) = handlers s"
  "mapped (set_regs b r s) = mapped s" "mbox_sys.more (set_regs b r s) = mbox_sys.more s"
  by (simp_all add: set_regs_def)

lemma set_obj_simps [simp, mbox_simps]:
  "objs (set_obj p m s) = (objs s)(p \<mapsto> m)" "regs (set_obj p m s) = regs s"
  "pended (set_obj p m s) = pended s" "mbox_inst (set_obj p m s) = mbox_inst s"
  "gsem (set_obj p m s) = gsem s"
  "is_inited (set_obj p m s) = is_inited s" "handlers (set_obj p m s) = handlers s"
  "mapped (set_obj p m s) = mapped s" "mbox_sys.more (set_obj p m s) = mbox_sys.more s"
  by (simp_all add: set_obj_def)

text \<open>
  The effect of serving one channel, part by part: on the register page, on the remote interrupt,
  and on the client.
\<close>

definition page_ok :: "gen_sw_mbox_mmio \<Rightarrow> bool" where
  "page_ok r \<longleftrightarrow> length (rx_status r) = MAX_CH \<and> length (tx_status r) = MAX_CH
     \<and> length (rx_ch r) = MAX_CH \<and> length (tx_ch r) = MAX_CH"

definition busy :: "gen_sw_mbox_mmio \<Rightarrow> nat \<Rightarrow> bool" where
  "busy r i \<longleftrightarrow> rx_status r ! i = S_BUSY"

definition served_rx :: "gen_sw_mbox_mmio \<Rightarrow> nat \<Rightarrow> u32" where
  "served_rx r i =
     (if busy r i then if bit (ch_ack_flags r) i then S_DONE else S_READY
      else rx_status r ! i)"

definition served_tx :: "gen_sw_mbox_mmio \<Rightarrow> nat \<Rightarrow> u32" where
  "served_tx r i = (if tx_status r ! i = S_DONE then S_READY else tx_status r ! i)"

definition served_page :: "nat \<Rightarrow> gen_sw_mbox_mmio \<Rightarrow> gen_sw_mbox_mmio" where
  "served_page n r =
     r\<lparr>rx_status := map (\<lambda>i. if i < n then served_rx r i else rx_status r ! i) [0..<MAX_CH],
       tx_status := map (\<lambda>i. if i < n then served_tx r i else tx_status r ! i) [0..<MAX_CH]\<rparr>"

definition served_irqs :: "gen_sw_mbox \<Rightarrow> gen_sw_mbox_mmio \<Rightarrow> nat \<Rightarrow> int list" where
  "served_irqs m r i =
     (if busy r i
      then if bit (ch_ack_flags r) i then [remote_irq m, remote_irq m] else [remote_irq m]
      else [])"

definition deliveries ::
    "gen_sw_mbox \<Rightarrow> gen_sw_mbox_mmio \<Rightarrow> nat list \<Rightarrow> (nat \<times> nat \<times> u32) list" where
  "deliveries m r is =
     concat (map (\<lambda>i. if busy r i
       then case recv_cb (chan m ! i) of
              None \<Rightarrow> []
            | Some cb \<Rightarrow> [(cb, cb_data (chan m ! i), rx_ch r ! i)]
       else []) is)"

definition set_more :: "'a \<Rightarrow> 'a mbox_sys_scheme \<Rightarrow> 'a mbox_sys_scheme" where
  "set_more x s = s\<lparr>mbox_sys.more := x\<rparr>"

lemma set_more_self [simp]: "set_more (mbox_sys.more s) s = s"
  by (simp add: set_more_def)

lemma set_more_simps [simp, mbox_simps]:
  "regs (set_more x s) = regs s" "objs (set_more x s) = objs s"
  "pended (set_more x s) = pended s" "mbox_inst (set_more x s) = mbox_inst s"
  "gsem (set_more x s) = gsem s"
  "is_inited (set_more x s) = is_inited s" "handlers (set_more x s) = handlers s"
  "mapped (set_more x s) = mapped s" "mbox_sys.more (set_more x s) = x"
  by (simp_all add: set_more_def)

lemma map_if_less_Suc: "map (\<lambda>i. if i < Suc n then f i else g i) [0..<k] =
    (map (\<lambda>i. if i < n then f i else g i) [0..<k])[n := f n]"
  by (rule nth_equalityI) (simp_all add: nth_list_update less_Suc_eq)

definition page_tx :: "nat \<Rightarrow> gen_sw_mbox_mmio \<Rightarrow> gen_sw_mbox_mmio" where
  "page_tx i r = r\<lparr>tx_status := (tx_status r)[i := served_tx r i]\<rparr>"

lemma ack_tx_done_page: "ack_tx_done b i s = set_regs b (page_tx i (regs s b)) s"
  by (simp add: ack_tx_done_def set_tx_status_def page_tx_def served_tx_def set_regs_def)

lemma served_page_0: "page_ok r \<Longrightarrow> served_page 0 r = r"
  using map_nth [of "rx_status r"] map_nth [of "tx_status r"]
  by (simp add: served_page_def page_ok_def)

lemma served_page_Suc:
  assumes "n < MAX_CH"
  shows "served_page (Suc n) r =
    (page_tx n (served_page n r))\<lparr>rx_status := (rx_status (served_page n r))[n := served_rx r n]\<rparr>"
  using assms by (simp add: served_page_def page_tx_def map_if_less_Suc served_tx_def)

lemma served_page_idle:
  assumes "n < MAX_CH" "\<not> busy r n"
  shows "served_page (Suc n) r = page_tx n (served_page n r)"
proof -
  have "(rx_status (served_page n r))[n := served_rx r n] = rx_status (served_page n r)"
    using assms by (intro nth_equalityI) (auto simp: served_rx_def served_page_def nth_list_update)
  then show ?thesis
    using assms by (simp add: served_page_Suc page_tx_def)
qed

text \<open>
  The contract of a receive callback: it works on its client's own state and returns. The lemmas
  below hold for every client that keeps it.
\<close>

locale mbox_client =
  fixes run :: "'a mbox_run"
    and eff :: "nat \<Rightarrow> nat \<Rightarrow> u32 \<Rightarrow> 'a \<Rightarrow> 'a"
    and ok :: "nat \<Rightarrow> nat \<Rightarrow> u32 \<Rightarrow> 'a \<Rightarrow> bool"
  assumes run_eff: "ok cb d msg (mbox_sys.more s) \<Longrightarrow>
      run cb d msg s = Inr (set_more (eff cb d msg (mbox_sys.more s)) s)"
begin

fun deliver_all :: "(nat \<times> nat \<times> u32) list \<Rightarrow> 'a \<Rightarrow> 'a" where
  "deliver_all [] x = x"
| "deliver_all ((cb, d, msg) # ds) x = deliver_all ds (eff cb d msg x)"

fun all_ok :: "(nat \<times> nat \<times> u32) list \<Rightarrow> 'a \<Rightarrow> bool" where
  "all_ok [] x = True"
| "all_ok ((cb, d, msg) # ds) x \<longleftrightarrow> ok cb d msg x \<and> all_ok ds (eff cb d msg x)"

lemma all_ok_append:
  "all_ok (ds @ es) x \<longleftrightarrow> all_ok ds x \<and> all_ok es (deliver_all ds x)"
  by (induction ds x rule: all_ok.induct) simp_all

lemma deliver_all_append: "deliver_all (ds @ es) x = deliver_all es (deliver_all ds x)"
  by (induction ds x rule: deliver_all.induct) simp_all

definition served :: "nat \<Rightarrow> gen_sw_mbox \<Rightarrow> 'a mbox_sys_scheme \<Rightarrow> 'a mbox_sys_scheme" where
  "served n m s =
     (let r = regs s (mmio_pa m)
      in set_more (deliver_all (deliveries m r [0..<n]) (mbox_sys.more s))
           (s\<lparr>regs := (regs s)(mmio_pa m := served_page n r),
              pended := pended s @ concat (map (served_irqs m r) [0..<n])\<rparr>))"


lemma handle_channels_append:
  "handle_channels run p (is @ js) s = and_then (handle_channels run p is s)
     (handle_channels run p js)"
proof (induction "is" arbitrary: s)
  case (Cons i "is")
  then show ?case by (cases "handle_channel run p i s") simp_all
qed simp

lemma served_fields:
  "regs (served n m s) = (regs s)(mmio_pa m := served_page n (regs s (mmio_pa m)))"
  "objs (served n m s) = objs s"
  "pended (served n m s) =
     pended s @ concat (map (served_irqs m (regs s (mmio_pa m))) [0..<n])"
  "mbox_sys.more (served n m s) =
     deliver_all (deliveries m (regs s (mmio_pa m)) [0..<n]) (mbox_sys.more s)"
  "mbox_inst (served n m s) = mbox_inst s" "gsem (served n m s) = gsem s"
  "is_inited (served n m s) = is_inited s" "handlers (served n m s) = handlers s"
  "mapped (served n m s) = mapped s"
  by (simp_all add: served_def Let_def set_more_def)

lemma served_none: "page_ok (regs s (mmio_pa m)) \<Longrightarrow> served 0 m s = s"
  by (rule mbox_sys.equality)
     (simp_all add: served_fields served_page_0 deliveries_def)

lemma handle_channel_served:
  assumes m: "objs s p = Some m" and pg: "page_ok (regs s (mmio_pa m))" and n: "n < MAX_CH"
    and ok: "all_ok (deliveries m (regs s (mmio_pa m)) [0..<Suc n]) (mbox_sys.more s)"
  shows "handle_channel run p n (served n m s) = Inr (served (Suc n) m s)"
proof -
  define r where "r = regs s (mmio_pa m)"
  define s0 where "s0 = served n m s"
  define s1 where "s1 = set_regs (mmio_pa m) (page_tx n (served_page n r)) s0"
  have s0: "regs s0 (mmio_pa m) = served_page n r" "objs s0 p = Some m"
    by (simp_all add: s0_def r_def served_fields m)
  have at: "tx_status (served_page n r) ! n = tx_status r ! n"
    "rx_status (page_tx n (served_page n r)) ! n = rx_status r ! n"
    "rx_ch (page_tx n (served_page n r)) = rx_ch r"
    "ch_ack_flags (page_tx n (served_page n r)) = ch_ack_flags r"
    using n by (simp_all add: served_page_def page_tx_def)
  have s1: "ack_tx_done (mmio_pa m) n s0 = s1"
    using n by (simp add: s1_def ack_tx_done_page s0)
  have at1: "rx_status (regs s1 (mmio_pa m)) ! n = rx_status r ! n"
    "rx_ch (regs s1 (mmio_pa m)) = rx_ch r"
    by (simp_all add: s1_def at)
  have more: "mbox_sys.more s1 = deliver_all (deliveries m r [0..<n]) (mbox_sys.more s)"
    by (simp add: s1_def s0_def served_fields r_def)
  show ?thesis
  proof (cases "busy r n")
    case False
    then have "handle_channel run p n s0 = Inr s1"
      by (simp add: handle_channel_def obj_def s0 s1 Let_def s1_def at busy_def)
    moreover have "s1 = served (Suc n) m s"
      by (rule mbox_sys.equality)
         (use False n pg in \<open>simp_all add: s1_def s0_def served_fields flip: r_def,
          simp_all add: served_page_idle r_def [symmetric] served_irqs_def deliveries_def\<close>)
    ultimately show ?thesis by (simp add: s0_def)
  next
    case True
    define s2 where "s2 = pend (remote_irq m) (set_rx_status (mmio_pa m) n S_DONE s1)"
    define x where "x = deliver_all (deliveries m r [0..<Suc n]) (mbox_sys.more s)"
    have more2: "mbox_sys.more s2 = deliver_all (deliveries m r [0..<n]) (mbox_sys.more s)"
      by (simp add: s2_def set_rx_status_def more)
    have regs2: "regs s2 (mmio_pa m) =
        (page_tx n (served_page n r))\<lparr>rx_status := (rx_status (served_page n r))[n := S_DONE]\<rparr>"
      by (simp add: s2_def set_rx_status_def s1_def page_tx_def)
    have obj2: "objs s2 p = Some m"
      by (simp add: s2_def set_rx_status_def s1_def s0)
    have cb: "(case recv_cb (chan m ! n) of None \<Rightarrow> Inr s2
        | Some cb \<Rightarrow> run cb (cb_data (chan m ! n)) (rx_ch r ! n) s2) = Inr (set_more x s2)"
    proof (cases "recv_cb (chan m ! n)")
      case None
      then have "x = mbox_sys.more s2"
        by (simp add: x_def more2 deliveries_def)
      then show ?thesis using None by simp
    next
      case (Some cb)
      then have "deliveries m r [0..<Suc n] =
          deliveries m r [0..<n] @ [(cb, cb_data (chan m ! n), rx_ch r ! n)]"
        using True by (simp add: deliveries_def)
      then show ?thesis
        using Some ok run_eff [of cb "cb_data (chan m ! n)" "rx_ch r ! n" s2]
        by (simp add: x_def more2 deliver_all_append all_ok_append r_def)
    qed
    have "handle_channel run p n s0 =
        (if bit (ch_ack_flags r) n
         then Inr (pend (remote_irq m) (set_rx_status (mmio_pa m) n S_DONE (set_more x s2)))
         else Inr (set_rx_status (mmio_pa m) n S_READY (set_more x s2)))"
      using True cb
      by (simp add: handle_channel_def obj_def s0 s1 Let_def at1 at(4) busy_def regs2 obj2
            s2_def [symmetric])
    also have "\<dots> = Inr (served (Suc n) m s)"
    proof -
      have "served_irqs m r n = (if bit (ch_ack_flags r) n then [remote_irq m, remote_irq m]
          else [remote_irq m])"
        and "served_rx r n = (if bit (ch_ack_flags r) n then S_DONE else S_READY)"
        using True by (simp_all add: served_irqs_def served_rx_def)
      then have "bit (ch_ack_flags r) n \<Longrightarrow>
            pend (remote_irq m) (set_rx_status (mmio_pa m) n S_DONE (set_more x s2)) =
            served (Suc n) m s"
        and "\<not> bit (ch_ack_flags r) n \<Longrightarrow>
            set_rx_status (mmio_pa m) n S_READY (set_more x s2) = served (Suc n) m s"
        using n
        by (auto intro!: mbox_sys.equality simp: served_fields r_def [symmetric] x_def
              s2_def s1_def s0_def set_rx_status_def page_tx_def served_page_Suc)
      then show ?thesis by simp
    qed
    finally show ?thesis by (simp add: s0_def)
  qed
qed

lemma handle_channels_served:
  assumes "objs s p = Some m" "page_ok (regs s (mmio_pa m))" "n \<le> MAX_CH"
    and "all_ok (deliveries m (regs s (mmio_pa m)) [0..<n]) (mbox_sys.more s)"
  shows "handle_channels run p [0..<n] s = Inr (served n m s)"
  using assms(3,4)
proof (induction n)
  case 0
  then show ?case by (simp add: served_none assms(2))
next
  case (Suc n)
  have "all_ok (deliveries m (regs s (mmio_pa m)) [0..<n]) (mbox_sys.more s)"
    using Suc.prems(2) by (simp add: deliveries_def all_ok_append)
  then show ?case
    using Suc handle_channel_served [OF assms(1,2), of n]
    by (auto simp: handle_channels_append split: if_splits)
qed

lemma handler_served:
  assumes "objs s p = Some m" "page_ok (regs s (mmio_pa m))"
    and "all_ok (deliveries m (regs s (mmio_pa m)) [0..<MAX_CH]) (mbox_sys.more s)"
  shows "gen_sw_mbox_handler run p s = Inr (served MAX_CH m s)"
  using handle_channels_served [OF assms(1,2) _ assms(3)] by (simp add: gen_sw_mbox_handler_def)

end

subsection \<open>The instance table\<close>

text \<open>
  The table is well formed when every slot points to a live, unlocked mailbox with its four
  channels and a page of registers, and no two mailboxes have one base address.
\<close>

definition mbox_obj_ok :: "'a mbox_sys_scheme \<Rightarrow> nat \<Rightarrow> bool" where
  "mbox_obj_ok s p \<longleftrightarrow>
     (\<exists>m. objs s p = Some m \<and> length (chan m) = MAX_CH \<and> lock m = 1
        \<and> page_ok (regs s (mmio_pa m)))"

definition base_of :: "'a mbox_sys_scheme \<Rightarrow> nat \<Rightarrow> nat" where
  "base_of s p = (case objs s p of None \<Rightarrow> 0 | Some m \<Rightarrow> mmio_pa m)"

definition mbox_wf :: "'a mbox_sys_scheme \<Rightarrow> bool" where
  "mbox_wf s \<longleftrightarrow> length (mbox_inst s) = MBOX_MAX_INST
     \<and> (\<forall>p. Some p \<in> set (mbox_inst s) \<longrightarrow> mbox_obj_ok s p)
     \<and> distinct (map (map_option (base_of s)) (filter (\<lambda>x. x \<noteq> None) (mbox_inst s)))"

lemma find_inst_none:
  assumes "\<forall>p. Some p \<in> set ps \<longrightarrow> (\<exists>m. h p = Some m \<and> mmio_pa m \<noteq> base)"
  shows "find_inst h base ps = Inr None"
  using assms by (induction h base ps rule: find_inst.induct) (auto split: option.splits)

lemma find_inst_cases:
  assumes "\<forall>p. Some p \<in> set ps \<longrightarrow> h p \<noteq> None"
  shows "(\<exists>p m. find_inst h base ps = Inr (Some p) \<and> Some p \<in> set ps \<and> h p = Some m
            \<and> mmio_pa m = base)
       \<or> find_inst h base ps = Inr None
            \<and> (\<forall>p m. Some p \<in> set ps \<longrightarrow> h p = Some m \<longrightarrow> mmio_pa m \<noteq> base)"
  using assms by (induction h base ps rule: find_inst.induct) (auto split: option.splits)

lemma find_inst_found:
  assumes "Some p \<in> set ps" "h p = Some m"
    and "\<forall>q. Some q \<in> set ps \<longrightarrow> (\<exists>n. h q = Some n \<and> (mmio_pa n = mmio_pa m \<longrightarrow> q = p))"
  shows "find_inst h (mmio_pa m) ps = Inr (Some p)"
  using assms by (induction h "mmio_pa m" ps rule: find_inst.induct) (auto split: option.splits)

lemma replace_first_None: "replace_first x y zs = None \<longleftrightarrow> x \<notin> set zs"
  by (induction zs) auto

lemma replace_first_Some:
  "replace_first x y zs = Some ys \<Longrightarrow> \<exists>us vs. zs = us @ x # vs \<and> ys = us @ y # vs \<and> x \<notin> set us"
proof (induction zs arbitrary: ys)
  case (Cons z zs)
  show ?case
  proof (cases "z = x")
    case True
    then show ?thesis using Cons.prems by (auto intro: exI [of _ "[]"])
  next
    case False
    then obtain ws where "replace_first x y zs = Some ws" and ys: "ys = z # ws"
      using Cons.prems by auto
    then obtain us vs where "zs = us @ x # vs" "ws = us @ y # vs" "x \<notin> set us"
      using Cons.IH by blast
    then show ?thesis
      using False ys by (intro exI [of _ "z # us"] exI [of _ vs]) simp
  qed
qed simp

lemma distinct_split_instances:
  "distinct (map f (filter P (us @ x # vs))) \<longleftrightarrow>
     distinct (map f (filter P (us @ vs)))
     \<and> (P x \<longrightarrow> f x \<notin> f ` {u \<in> set (us @ vs). P u})"
  by auto

lemma wf_instance:
  assumes "mbox_wf s" "Some p \<in> set (mbox_inst s)"
  obtains m where "objs s p = Some m" "length (chan m) = MAX_CH" "lock m = 1"
    "page_ok (regs s (mmio_pa m))" "base_of s p = mmio_pa m"
  using assms by (auto simp: mbox_wf_def mbox_obj_ok_def base_of_def)

lemma wf_base_inj:
  assumes wf: "mbox_wf s" and "Some p \<in> set (mbox_inst s)" "Some q \<in> set (mbox_inst s)"
    and "base_of s p = base_of s q"
  shows "p = q"
proof -
  have "inj_on (map_option (base_of s)) (set (filter (\<lambda>x. x \<noteq> None) (mbox_inst s)))"
    using wf by (auto simp: mbox_wf_def distinct_map)
  then show ?thesis
    using assms by (auto dest: inj_onD [of _ _ "Some p" "Some q"])
qed

lemma get_instance_found:
  assumes "mbox_wf s" "Some p \<in> set (mbox_inst s)" "objs s p = Some m"
  shows "gen_sw_mbox_get_instance (mmio_pa m) s = Inr (Some p)"
  unfolding gen_sw_mbox_get_instance_def
proof (rule find_inst_found [where h = "objs s", OF assms(2,3)], intro allI impI)
  fix q assume q: "Some q \<in> set (mbox_inst s)"
  obtain n where "objs s q = Some n" "base_of s q = mmio_pa n"
    using wf_instance [OF assms(1) q] by metis
  moreover have "base_of s p = mmio_pa m" by (simp add: base_of_def assms(3))
  ultimately show "\<exists>n. objs s q = Some n \<and> (mmio_pa n = mmio_pa m \<longrightarrow> q = p)"
    using wf_base_inj [OF assms(1) q assms(2)] by auto
qed

lemma get_instance_cases:
  assumes "mbox_wf s"
  obtains (found) p m where "gen_sw_mbox_get_instance base s = Inr (Some p)"
      "Some p \<in> set (mbox_inst s)" "objs s p = Some m" "mmio_pa m = base"
  | (absent) "gen_sw_mbox_get_instance base s = Inr None"
      "\<forall>p m. Some p \<in> set (mbox_inst s) \<longrightarrow> objs s p = Some m \<longrightarrow> mmio_pa m \<noteq> base"
proof -
  have "\<forall>p. Some p \<in> set (mbox_inst s) \<longrightarrow> objs s p \<noteq> None"
    using assms by (auto simp: mbox_wf_def mbox_obj_ok_def)
  from find_inst_cases [OF this, of base] show ?thesis
    using found absent by (auto simp: gen_sw_mbox_get_instance_def)
qed

subsection \<open>Well-formedness is kept\<close>

lemma wf_set_obj:
  assumes "mbox_wf s" "objs s p = Some m" "mmio_pa m' = mmio_pa m"
    "length (chan m') = MAX_CH" "lock m' = 1"
  shows "mbox_wf (set_obj p m' s)"
proof -
  have "base_of (set_obj p m' s) = base_of s"
    using assms(2,3) by (auto simp: base_of_def)
  moreover have "mbox_obj_ok (set_obj p m' s) q" if "mbox_obj_ok s q" for q
    using that assms by (auto simp: mbox_obj_ok_def)
  ultimately show ?thesis using assms(1) by (auto simp: mbox_wf_def)
qed

lemma wf_pend: "mbox_wf s \<Longrightarrow> mbox_wf (pend i s)"
  by (simp add: mbox_wf_def mbox_obj_ok_def base_of_def [abs_def])

lemma wf_gsem: "mbox_wf (s\<lparr>gsem := g\<rparr>) \<longleftrightarrow> mbox_wf s"
  by (simp add: mbox_wf_def mbox_obj_ok_def base_of_def [abs_def])

lemma wf_set_regs: "mbox_wf s \<Longrightarrow> page_ok r \<Longrightarrow> mbox_wf (set_regs b r s)"
  by (auto simp: mbox_wf_def mbox_obj_ok_def base_of_def [abs_def])

lemma page_ok_post: "page_ok r \<Longrightarrow> page_ok (post_msg b ch msg r)"
  by (simp add: page_ok_def post_msg_def)

text \<open>Looking up a registered instance and taking a reference to it.\<close>

lemma ref_update:
  assumes "lock m = 1"
  shows "add_ref k (Some p) (set_obj p m s) = Inr (set_obj p (m\<lparr>ref_cnt := ref_cnt m + k\<rparr>) s)"
proof -
  have "m\<lparr>ref_cnt := ref_cnt m + k, lock := 1\<rparr> = m\<lparr>ref_cnt := ref_cnt m + k\<rparr>"
    using assms by (intro gen_sw_mbox.equality) simp_all
  moreover have "add_ref k (Some p) (set_obj p m s) =
      Inr (set_obj p (m\<lparr>ref_cnt := ref_cnt m + k, lock := 1\<rparr>) s)"
    using assms by (simp add: add_ref_def obj_def sem_take_def set_obj_def)
  ultimately show ?thesis by (simp only:)
qed

lemma set_obj_self: "objs s p = Some m \<Longrightarrow> set_obj p m s = s"
  by (simp add: set_obj_def fun_upd_idem)

lemma gsem_self: "gsem s = g \<Longrightarrow> s\<lparr>gsem := g\<rparr> = s"
  by (intro mbox_sys.equality) simp_all

lemma set_obj_gsem: "(set_obj p m (s\<lparr>gsem := g\<rparr>))\<lparr>gsem := h\<rparr> = set_obj p m (s\<lparr>gsem := h\<rparr>)"
  by (intro mbox_sys.equality) simp_all

lemma grab_found:
  assumes "mbox_wf s" "Some p \<in> set (mbox_inst s)" "objs s p = Some m" "gsem s = 1"
  shows "grab (mmio_pa m) s = Inr (Some p, set_obj p (m\<lparr>ref_cnt := ref_cnt m + 1\<rparr>) s)"
proof -
  let ?s = "s\<lparr>gsem := 0\<rparr>"
  have l: "lock m = 1" using wf_instance [OF assms(1,2)] assms(3) by auto
  have "gen_sw_mbox_get_instance (mmio_pa m) ?s = Inr (Some p)"
    using get_instance_found [OF assms(1-3)] by (simp add: gen_sw_mbox_get_instance_def)
  moreover have "gen_sw_mbox_get (Some p) ?s =
      Inr (set_obj p (m\<lparr>ref_cnt := ref_cnt m + 1\<rparr>) ?s)"
    using ref_update [OF l, of 1 p ?s] set_obj_self [of ?s p m] assms(3)
    by (simp add: gen_sw_mbox_get_def)
  ultimately show ?thesis
    using assms(4)
    by (simp add: grab_def sem_take_def Let_def set_obj_gsem gsem_self)
qed

lemma grab_absent:
  assumes "gen_sw_mbox_get_instance base s = Inr None" "gsem s = 1"
  shows "grab base s = Inr (None, s)"
  using assms by (simp add: grab_def sem_take_def gen_sw_mbox_get_instance_def)


subsection \<open>The table as a map\<close>

text \<open>
  What the table promises: a finite map from base addresses to mailboxes. \<open>ready\<close> is the state
  between two calls: the table well formed, the global semaphore free.
\<close>

definition registry :: "'a mbox_sys_scheme \<Rightarrow> nat \<Rightarrow> nat option" where
  "registry s b = (case gen_sw_mbox_get_instance b s of Inl e \<Rightarrow> None | Inr x \<Rightarrow> x)"

definition mbox_ready :: "'a mbox_sys_scheme \<Rightarrow> bool" where
  "mbox_ready s \<longleftrightarrow> mbox_wf s \<and> gsem s = 1"

lemma registry_Some:
  assumes "mbox_wf s"
  shows "registry s b = Some p \<longleftrightarrow>
    Some p \<in> set (mbox_inst s) \<and> (\<exists>m. objs s p = Some m \<and> mmio_pa m = b)"
proof -
  have "registry s b = Some p" if "Some p \<in> set (mbox_inst s)" "objs s p = Some m" "mmio_pa m = b" for m
    using get_instance_found [OF assms that(1,2)] that(3) by (simp add: registry_def)
  moreover have "Some p \<in> set (mbox_inst s) \<and> (\<exists>m. objs s p = Some m \<and> mmio_pa m = b)"
    if "registry s b = Some p"
    using assms that by (cases rule: get_instance_cases [of s b]) (auto simp: registry_def)
  ultimately show ?thesis by blast
qed

lemma get_instance_registry:
  "mbox_wf s \<Longrightarrow> gen_sw_mbox_get_instance b s = Inr (registry s b)"
  by (cases rule: get_instance_cases [of s b]) (auto simp: registry_def)

lemma registry_eqI:
  assumes "mbox_wf s" "mbox_wf s'"
    and "\<And>p. registry s b = Some p \<longleftrightarrow> registry s' b = Some p"
  shows "registry s b = registry s' b"
  using assms(3) by (metis option.exhaust)

lemma wf_insert:
  assumes wf: "mbox_wf s" and inst: "mbox_inst s = us @ None # vs" and fresh: "objs s p = None"
    and new: "registry s base = None"
    and m: "mmio_pa m = base" "length (chan m) = MAX_CH" "lock m = 1" and pg: "page_ok r"
    and s': "objs s' = (objs s)(p \<mapsto> m)" "mbox_inst s' = us @ Some p # vs"
      "regs s' = (regs s)(base := r)"
  shows "mbox_wf s'" and "registry s' = (registry s)(base \<mapsto> p)"
proof -
  have notin: "Some p \<notin> set (mbox_inst s)"
    using wf fresh by (auto simp: mbox_wf_def mbox_obj_ok_def)
  have ok: "mbox_obj_ok s' q" if "Some q \<in> set (mbox_inst s')" for q
  proof (cases "q = p")
    case True
    then show ?thesis using m pg s' by (simp add: mbox_obj_ok_def)
  next
    case False
    then have "mbox_obj_ok s q" using that wf inst s' by (auto simp: mbox_wf_def)
    then show ?thesis using False pg s' by (auto simp: mbox_obj_ok_def)
  qed
  have same: "base_of s' q = base_of s q" if "Some q \<in> set (us @ vs)" for q
    using that notin inst by (auto simp: base_of_def s')
  have pb: "base_of s' p = base" by (simp add: base_of_def s' m)
  have other: "base_of s q \<noteq> base" if "Some q \<in> set (us @ vs)" for q
  proof
    assume "base_of s q = base"
    moreover have q: "Some q \<in> set (mbox_inst s)" using that inst by auto
    moreover obtain n where "objs s q = Some n" "base_of s q = mmio_pa n"
      using wf_instance [OF wf q] by metis
    ultimately have "registry s base = Some q"
      by (simp add: registry_Some [OF wf])
    then show False using new by simp
  qed
  have eq: "map (map_option (base_of s')) (filter (\<lambda>x. x \<noteq> None) (us @ vs)) =
      map (map_option (base_of s)) (filter (\<lambda>x. x \<noteq> None) (us @ vs))"
    using same by (intro map_cong) auto
  have d: "distinct (map (map_option (base_of s)) (filter (\<lambda>x. x \<noteq> None) (us @ vs)))"
    using wf by (simp add: mbox_wf_def inst)
  have ne: "\<forall>u. Some u \<in> set (us @ vs) \<longrightarrow> base_of s' u \<noteq> base_of s' p"
    using same other pb by simp
  have "map_option (base_of s') (Some p) \<notin>
      map_option (base_of s') ` {u \<in> set (us @ vs). u \<noteq> None}"
    using ne by auto
  then have "distinct (map (map_option (base_of s')) (filter (\<lambda>x. x \<noteq> None) (mbox_inst s')))"
    unfolding s'(2) distinct_split_instances eq using d by blast
  then show wf': "mbox_wf s'"
    using ok wf by (auto simp: mbox_wf_def s' inst)
  show "registry s' = (registry s)(base \<mapsto> p)"
  proof
    fix b
    have "registry s' b = Some q \<longleftrightarrow> ((registry s)(base \<mapsto> p)) b = Some q" for q
      using notin inst other [of q] m(1)
      by (auto simp: registry_Some [OF wf] registry_Some [OF wf'] s' base_of_def)
    then show "registry s' b = ((registry s)(base \<mapsto> p)) b" by (metis option.exhaust)
  qed
qed

lemma wf_delete:
  assumes wf: "mbox_wf s" and inst: "mbox_inst s = us @ Some p # vs"
    and m: "objs s p = Some m"
    and s': "objs s' = (objs s)(p := None)" "mbox_inst s' = us @ None # vs"
      "regs s' = regs s"
  shows "mbox_wf s'" and "registry s' = (registry s)(mmio_pa m := None)"
proof -
  have d: "distinct (map (map_option (base_of s)) (filter (\<lambda>x. x \<noteq> None) (us @ vs)))"
    and n: "map_option (base_of s) (Some p) \<notin>
      map_option (base_of s) ` {u \<in> set (us @ vs). u \<noteq> None}"
    using wf unfolding mbox_wf_def inst distinct_split_instances by simp_all
  have p: "Some p \<notin> set (us @ vs)"
    using n by (metis (mono_tags, lifting) imageI mem_Collect_eq option.distinct(1))
  have ok: "mbox_obj_ok s' q" if "Some q \<in> set (mbox_inst s')" for q
    using that wf p by (auto simp: mbox_wf_def mbox_obj_ok_def inst s')
  have eq: "map (map_option (base_of s')) (filter (\<lambda>x. x \<noteq> None) (us @ vs)) =
      map (map_option (base_of s)) (filter (\<lambda>x. x \<noteq> None) (us @ vs))"
    using p by (intro map_cong) (auto simp: base_of_def s')
  have "filter (\<lambda>x. x \<noteq> None) (mbox_inst s') = filter (\<lambda>x. x \<noteq> None) (us @ vs)"
    by (simp add: s')
  then have "distinct (map (map_option (base_of s')) (filter (\<lambda>x. x \<noteq> None) (mbox_inst s')))"
    by (simp only: eq d)
  with ok wf show wf': "mbox_wf s'"
    by (auto simp: mbox_wf_def s' inst)
  show "registry s' = (registry s)(mmio_pa m := None)"
  proof
    fix b
    have "registry s' b = Some q \<longleftrightarrow> ((registry s)(mmio_pa m := None)) b = Some q" for q
    proof (cases "q = p")
      case True
      then show ?thesis using p m by (auto simp: registry_Some [OF wf] registry_Some [OF wf'] s')
    next
      case False
      have "Some q \<in> set (mbox_inst s) \<Longrightarrow> base_of s q \<noteq> mmio_pa m"
        using wf_base_inj [OF wf, of q p] False m by (auto simp: inst base_of_def)
      then show ?thesis using False
        by (auto simp: registry_Some [OF wf] registry_Some [OF wf'] s' inst base_of_def)
    qed
    then show "registry s' b = ((registry s)(mmio_pa m := None)) b" by (metis option.exhaust)
  qed
qed

lemma find_inst_self:
  "registry s b = registry s' b" if "objs s = objs s'" "mbox_inst s = mbox_inst s'"
  using that by (simp add: registry_def gen_sw_mbox_get_instance_def)

lemma registry_gsem [simp]: "registry (s\<lparr>gsem := g\<rparr>) = registry s"
  by (rule ext, rule find_inst_self) simp_all

lemma get_instance_gsem [simp]:
  "gen_sw_mbox_get_instance b (s\<lparr>gsem := g\<rparr>) = gen_sw_mbox_get_instance b s"
  by (simp add: gen_sw_mbox_get_instance_def)

definition new_mbox :: "gen_sw_mbox \<Rightarrow> nat \<Rightarrow> int \<Rightarrow> int \<Rightarrow> gen_sw_mbox" where
  "new_mbox m0 base irq remote =
     m0\<lparr>mbox_irq := irq, remote_irq := remote, mmio_pa := base, lock := 1,
        chan := clear_chans (chan m0), ref_cnt := 0\<rparr>"

lemma register_steps:
  assumes rdy: "mbox_ready s" and base: "base \<noteq> 0" and new: "registry s base = None"
    and slot: "None \<in> set (mbox_inst s)" and fresh: "objs s p = None"
    and pg: "page_ok (regs s base)"
  shows "\<exists>s'. gen_sw_mbox_register (Some (p, m0)) 0 0 base irq remote s = Inr (0, s')
     \<and> mbox_ready s' \<and> registry s' = (registry s)(base \<mapsto> p)
     \<and> objs s' p = Some (new_mbox m0 base irq remote)
     \<and> regs s' base = clear_status (regs s base)
     \<and> handlers s' = handlers s @ [(irq, p)]"
proof -
  have wf: "mbox_wf s" and g: "gsem s = 1" using rdy by (auto simp: mbox_ready_def)
  obtain us vs where inst: "mbox_inst s = us @ None # vs"
    and rep: "replace_first None (Some p) (mbox_inst s) = Some (us @ Some p # vs)"
    using slot replace_first_None [of None "Some p" "mbox_inst s"] replace_first_Some
    by (metis option.exhaust)
  have get: "gen_sw_mbox_get_instance base s = Inr None"
    using get_instance_registry [OF wf] new by simp
  define m where "m = new_mbox m0 base irq remote"
  define r where "r = clear_status (regs s base)"
  define s' where "s' = s\<lparr>objs := (objs s)(p \<mapsto> m), mbox_inst := us @ Some p # vs,
     regs := (regs s)(base := r), handlers := handlers s @ [(irq, p)], mapped := mapped s @ [base]\<rparr>"
  have reg: "gen_sw_mbox_register (Some (p, m0)) 0 0 base irq remote s = Inr (0, s')"
    using base g get rep
    by (simp add: gen_sw_mbox_register_def sem_take_def Let_def gen_sw_mbox_add_mbox_def
          set_obj_def set_regs_def s'_def m_def new_mbox_def r_def)
  have "length (chan m) = MAX_CH" "mmio_pa m = base" "lock m = 1" "page_ok r"
    using pg by (simp_all add: m_def new_mbox_def clear_chans_def r_def clear_status_def page_ok_def)
  then have "mbox_wf s'" "registry s' = (registry s)(base \<mapsto> p)"
    using wf_insert [OF wf inst fresh new, of m r s'] by (simp_all add: s'_def)
  then show ?thesis
    using reg g by (intro exI [of _ s']) (simp add: mbox_ready_def, simp add: s'_def m_def r_def)
qed

lemma no_mbox_none: "None \<notin> set xs \<Longrightarrow> replace_first None y xs = None"
proof (induction xs)
  case (Cons a xs)
  then show ?case by (cases a) auto
qed simp

text \<open>A table without a free entry: the call succeeds all the same, and the mailbox is in no entry.\<close>

lemma register_no_entry:
  assumes rdy: "mbox_ready s" and base: "base \<noteq> 0" and new: "registry s base = None"
    and slot: "None \<notin> set (mbox_inst s)" and fresh: "objs s p = None"
    and pg: "page_ok (regs s base)"
  shows "\<exists>s'. gen_sw_mbox_register (Some (p, m0)) 0 0 base irq remote s = Inr (0, s')
     \<and> mbox_ready s' \<and> registry s' = registry s \<and> objs s' p = Some (new_mbox m0 base irq remote)
     \<and> regs s' base = clear_status (regs s base) \<and> handlers s' = handlers s @ [(irq, p)]"
proof -
  have wf: "mbox_wf s" and g: "gsem s = 1" using rdy by (auto simp: mbox_ready_def)
  have get: "gen_sw_mbox_get_instance base s = Inr None"
    using get_instance_registry [OF wf] new by simp
  define s' where "s' = s\<lparr>objs := (objs s)(p \<mapsto> new_mbox m0 base irq remote),
     regs := (regs s)(base := clear_status (regs s base)),
     handlers := handlers s @ [(irq, p)], mapped := mapped s @ [base]\<rparr>"
  have reg: "gen_sw_mbox_register (Some (p, m0)) 0 0 base irq remote s = Inr (0, s')"
    using base g get no_mbox_none [OF slot, of "Some p"]
    by (simp add: gen_sw_mbox_register_def sem_take_def Let_def gen_sw_mbox_add_mbox_def
          set_obj_def set_regs_def s'_def new_mbox_def)
  have np: "q \<noteq> p" if q: "Some q \<in> set (mbox_inst s)" for q
  proof -
    obtain m where "objs s q = Some m" using wf_instance [OF wf q] by blast
    then show ?thesis using fresh by auto
  qed
  have pg': "page_ok (clear_status (regs s base))" using pg by (simp add: clear_status_def page_ok_def)
  have ok: "mbox_obj_ok s' q" if "Some q \<in> set (mbox_inst s')" for q
  proof -
    have q: "Some q \<in> set (mbox_inst s)" using that by (simp add: s'_def)
    obtain m where "objs s q = Some m" "length (chan m) = MAX_CH" "lock m = 1" "page_ok (regs s (mmio_pa m))"
      using wf_instance [OF wf q] by blast
    then show ?thesis using np [OF q] pg' by (simp add: mbox_obj_ok_def s'_def)
  qed
  have inst: "mbox_inst s' = mbox_inst s" by (simp add: s'_def)
  have eq: "map (map_option (base_of s')) (filter (\<lambda>x. x \<noteq> None) (mbox_inst s)) =
      map (map_option (base_of s)) (filter (\<lambda>x. x \<noteq> None) (mbox_inst s))"
    using np by (intro map_cong) (auto simp: base_of_def s'_def)
  have wf': "mbox_wf s'" using ok wf unfolding mbox_wf_def inst eq by blast
  have "registry s' b = registry s b" for b
  proof (rule registry_eqI [OF wf' wf])
    fix q
    have "objs s' q = objs s q" if "Some q \<in> set (mbox_inst s)" using np [OF that] by (simp add: s'_def)
    then show "registry s' b = Some q \<longleftrightarrow> registry s b = Some q"
      unfolding registry_Some [OF wf] registry_Some [OF wf'] inst by (cases "Some q \<in> set (mbox_inst s)") simp_all
  qed
  then show ?thesis
    using reg g wf' by (intro exI [of _ s']) (simp add: mbox_ready_def fun_eq_iff, simp add: s'_def)
qed

lemma unregister_held:
  assumes rdy: "mbox_ready s" and base: "base \<noteq> 0" and p: "registry s base = Some p"
    and m: "objs s p = Some m" and ref: "0 < ref_cnt m"
  shows "gen_sw_mbox_unregister base s = Inr (- 1, s\<lparr>gsem := 0\<rparr>)"
proof -
  have wf: "mbox_wf s" and g: "gsem s = 1" using rdy by (auto simp: mbox_ready_def)
  have mem: "Some p \<in> set (mbox_inst s)" using p by (auto simp: registry_Some [OF wf])
  have l: "lock m = 1" using wf_instance [OF wf mem] m by auto
  have get: "gen_sw_mbox_get_instance base s = Inr (Some p)"
    using get_instance_registry [OF wf] p by simp
  have same: "m\<lparr>lock := Suc 0\<rparr> = m" using l by (intro gen_sw_mbox.equality) simp_all
  have "set_obj p (m\<lparr>lock := Suc 0\<rparr>) (s\<lparr>gsem := 0\<rparr>) = s\<lparr>gsem := 0\<rparr>"
    unfolding same using m by (simp add: set_obj_def fun_upd_idem)
  then show ?thesis
    using base g get m l ref
    by (simp add: gen_sw_mbox_unregister_def sem_take_def Let_def obj_def)
qed

lemma unregister_steps:
  assumes rdy: "mbox_ready s" and base: "base \<noteq> 0" and p: "registry s base = Some p"
    and m: "objs s p = Some m" and ref: "ref_cnt m \<le> 0"
  shows "\<exists>s'. gen_sw_mbox_unregister base s = Inr (0, s')
     \<and> mbox_ready s' \<and> registry s' = (registry s)(base := None) \<and> objs s' p = None
     \<and> None \<in> set (mbox_inst s')"
proof -
  have wf: "mbox_wf s" and g: "gsem s = 1" using rdy by (auto simp: mbox_ready_def)
  have mem: "Some p \<in> set (mbox_inst s)" and b: "mmio_pa m = base"
    using p m by (auto simp: registry_Some [OF wf])
  have l: "lock m = 1" using wf_instance [OF wf mem] m by auto
  obtain us vs where inst: "mbox_inst s = us @ Some p # vs"
    and rep: "replace_first (Some p) None (mbox_inst s) = Some (us @ None # vs)"
    using mem replace_first_None [of "Some p" None "mbox_inst s"] replace_first_Some
    by (metis option.exhaust)
  have get: "gen_sw_mbox_get_instance base s = Inr (Some p)"
    using get_instance_registry [OF wf] p by simp
  define s' where "s' = s\<lparr>objs := (objs s)(p := None), mbox_inst := us @ None # vs,
     handlers := filter (\<lambda>(i, q). i \<noteq> mbox_irq m) (handlers s), mapped := remove1 base (mapped s)\<rparr>"
  have un: "gen_sw_mbox_unregister base s = Inr (0, s')"
    using base g get rep m l ref b
    by (simp add: gen_sw_mbox_unregister_def sem_take_def Let_def gen_sw_mbox_del_mbox_def
          obj_def s'_def)
  have "mbox_wf s'" "registry s' = (registry s)(mmio_pa m := None)"
    using wf_delete [OF wf inst m, of s'] by (simp_all add: s'_def)
  then show ?thesis
    using un g b by (intro exI [of _ s']) (simp add: mbox_ready_def, simp add: s'_def)
qed

text \<open>Sending without blocking, seen from the page.\<close>

lemma sendmsg_steps:
  assumes rdy: "mbox_ready s" and p: "registry s base = Some p" and m: "objs s p = Some m"
    and ch: "unat ch < MAX_CH"
  shows "tx_status (regs s base) ! unat ch = S_READY \<Longrightarrow>
      gen_sw_mbox_sendmsg fs base ch msg block s =
        Inr (0, pend (remote_irq m)
                  (set_regs base (post_msg base (unat ch) msg (regs s base)) s))"
    and "tx_status (regs s base) ! unat ch \<noteq> S_READY \<Longrightarrow>
      gen_sw_mbox_sendmsg fs base ch msg False s =
        Inr (- 2, set_obj p (m\<lparr>ref_cnt := ref_cnt m + 1\<rparr>) s)"
proof -
  have wf: "mbox_wf s" and g: "gsem s = 1" using rdy by (auto simp: mbox_ready_def)
  have mem: "Some p \<in> set (mbox_inst s)" and b: "mmio_pa m = base"
    using p m by (auto simp: registry_Some [OF wf])
  have l: "lock m = 1" using wf_instance [OF wf mem] m by auto
  let ?m1 = "m\<lparr>ref_cnt := ref_cnt m + 1\<rparr>"
  let ?s1 = "set_obj p ?m1 s"
  have grab: "grab base s = Inr (Some p, ?s1)"
    using grab_found [OF wf mem m g] b by simp
  let ?r = "post_msg base (unat ch) msg (regs s base)"
  have put: "gen_sw_mbox_put (Some p) (pend (remote_irq m) (set_regs base ?r ?s1)) =
      Inr (pend (remote_irq m) (set_regs base ?r s))"
  proof -
    have 1: "pend (remote_irq m) (set_regs base ?r ?s1) =
        set_obj p ?m1 (pend (remote_irq m) (set_regs base ?r s))"
      by (intro mbox_sys.equality) simp_all
    have 2: "?m1\<lparr>ref_cnt := ref_cnt ?m1 + - 1\<rparr> = m"
      by (intro gen_sw_mbox.equality) simp_all
    have "lock ?m1 = 1" using l by simp
    from ref_update [OF this, of "- 1" p "pend (remote_irq m) (set_regs base ?r s)"]
    show ?thesis
      unfolding 1 gen_sw_mbox_put_def 2
      using set_obj_self [of "pend (remote_irq m) (set_regs base ?r s)" p m] m by simp
  qed
  show "gen_sw_mbox_sendmsg fs base ch msg block s =
      Inr (0, pend (remote_irq m) (set_regs base ?r s))"
    if "tx_status (regs s base) ! unat ch = S_READY"
  proof -
    have "wait_ready fs base (unat ch) block ?s1 = Inr (Some ?s1)"
      using that by (cases fs) simp_all
    then show ?thesis
      using ch put by (simp add: gen_sw_mbox_sendmsg_def grab obj_def b Let_def)
  qed
  show "gen_sw_mbox_sendmsg fs base ch msg False s = Inr (- 2, ?s1)"
    if "tx_status (regs s base) ! unat ch \<noteq> S_READY"
  proof -
    have "wait_ready fs base (unat ch) False ?s1 = Inr None"
      using that by (cases fs) simp_all
    then show ?thesis
      using ch by (simp add: gen_sw_mbox_sendmsg_def grab obj_def b Let_def)
  qed
qed

text \<open>All cases of the two calls.\<close>

lemma register_refused:
  assumes "mbox_ready s" "base \<noteq> 0" "registry s base \<noteq> None \<or> alloc = None \<or> map_rc \<noteq> 0 \<or> sem_rc \<noteq> 0"
  shows "gen_sw_mbox_register alloc map_rc sem_rc base irq remote s = Inr
    (if registry s base \<noteq> None then 0 else if alloc = None then - 1 else if map_rc \<noteq> 0 then - 2 else sem_rc, s)"
proof -
  have wf: "mbox_wf s" and g: "gsem s = 1" using assms(1) by (auto simp: mbox_ready_def)
  have get: "gen_sw_mbox_get_instance base s = Inr (registry s base)" by (rule get_instance_registry [OF wf])
  have self: "s\<lparr>gsem := Suc 0\<rparr> = s" by (rule gsem_self) (simp add: g)
  show ?thesis
    using assms(2,3) g get self
    by (cases "registry s base"; cases alloc)
      (auto simp: gen_sw_mbox_register_def sem_take_def Let_def)
qed

lemma unregister_cases:
  assumes "mbox_ready s" "base \<noteq> 0"
  shows "case registry s base of
        None \<Rightarrow> gen_sw_mbox_unregister base s = Inr (0, s)
      | Some q \<Rightarrow> (if 0 < ref_cnt (the (objs s q))
          then gen_sw_mbox_unregister base s = Inr (- 1, s\<lparr>gsem := 0\<rparr>)
          else \<exists>s2. gen_sw_mbox_unregister base s = Inr (0, s2) \<and> mbox_ready s2
                 \<and> registry s2 = (registry s)(base := None) \<and> objs s2 q = None)"
proof (cases "registry s base")
  case None
  have wf: "mbox_wf s" and g: "gsem s = 1" using assms(1) by (auto simp: mbox_ready_def)
  have self: "s\<lparr>gsem := Suc 0\<rparr> = s" by (rule gsem_self) (simp add: g)
  show ?thesis using None assms(2) g self get_instance_registry [OF wf, of base]
    by (simp add: gen_sw_mbox_unregister_def sem_take_def Let_def)
next
  case (Some q)
  have wf: "mbox_wf s" using assms(1) by (simp add: mbox_ready_def)
  obtain m where m: "objs s q = Some m" using Some by (auto simp: registry_Some [OF wf])
  show ?thesis
    using unregister_held [OF assms Some m] unregister_steps [OF assms Some m] by (simp add: Some m) auto
qed

lemma register_new:
  assumes "mbox_ready s" "base \<noteq> 0" "registry s base = None" "objs s p = None" "page_ok (regs s base)"
  shows "\<exists>s1. gen_sw_mbox_register (Some (p, m0)) 0 0 base irq remote s = Inr (0, s1) \<and> mbox_ready s1
    \<and> regs s1 base = clear_status (regs s base) \<and> (irq, p) \<in> set (handlers s1)
    \<and> (if None \<in> set (mbox_inst s)
       then registry s1 = (registry s)(base \<mapsto> p)
         \<and> (\<exists>s2. gen_sw_mbox_unregister base s1 = Inr (0, s2)
              \<and> mbox_ready s2 \<and> registry s2 = registry s \<and> objs s2 p = None)
       else registry s1 = registry s)"
proof (cases "None \<in> set (mbox_inst s)")
  case True
  obtain s1 where s1: "gen_sw_mbox_register (Some (p, m0)) 0 0 base irq remote s = Inr (0, s1)"
      "mbox_ready s1" "registry s1 = (registry s)(base \<mapsto> p)"
      "objs s1 p = Some (new_mbox m0 base irq remote)" "regs s1 base = clear_status (regs s base)"
      "handlers s1 = handlers s @ [(irq, p)]"
    using register_steps [OF assms(1-3) True assms(4,5), of m0 irq remote] by blast
  obtain s2 where s2: "gen_sw_mbox_unregister base s1 = Inr (0, s2)" "mbox_ready s2"
      "registry s2 = (registry s1)(base := None)" "objs s2 p = None"
    using unregister_steps [OF s1(2) assms(2) _ s1(4)] s1(3) by (auto simp: new_mbox_def)
  have "registry s2 = registry s" using s1(3) s2(3) assms(3) by auto
  then show ?thesis using s1 s2 True by (intro exI [of _ s1]) simp
next
  case False
  then show ?thesis using register_no_entry [OF assms(1-3) False assms(4,5), of m0 irq remote] by auto
qed

subsection \<open>Concrete mailboxes\<close>

definition ex_page :: gen_sw_mbox_mmio where
  "ex_page = \<lparr>rx_status = [0, 0, 0, 0], tx_status = [1, 0, 0, 0], rx_ch = [0, 0, 0, 0],
     tx_ch = [0, 0, 0, 0], ch_ack_flags = 0\<rparr>"

definition ex_mbox :: gen_sw_mbox where
  "ex_mbox = \<lparr>mmio_pa = 4096, mbox_irq = 81, remote_irq = 82,
     chan = replicate 4 \<lparr>ch_id = 0, recv_cb = None, cb_data = 0\<rparr>, ref_cnt = 0, lock = 1\<rparr>"

definition ex_mbox_none :: mbox_sys where
  "ex_mbox_none = \<lparr>objs = Map.empty, mbox_inst = [None, None, None, None], regs = (\<lambda>_. ex_page),
     gsem = 1, is_inited = True, pended = [], handlers = [], mapped = []\<rparr>"

definition ex_mbox_one :: mbox_sys where
  "ex_mbox_one = \<lparr>objs = [7 \<mapsto> ex_mbox], mbox_inst = [None, Some 7, None, None],
     regs = (\<lambda>_. ex_page), gsem = 1, is_inited = True, pended = [], handlers = [(81, 7)],
     mapped = [4096]\<rparr>"

lemma ex_page_ok: "page_ok ex_page"
  by (simp add: page_ok_def ex_page_def MAX_CH_def)

lemma ex_none_ready: "mbox_ready ex_mbox_none"
  by (simp add: mbox_ready_def mbox_wf_def ex_mbox_none_def MBOX_MAX_INST_def)

lemma ex_one_ready: "mbox_ready ex_mbox_one"
  by (simp add: mbox_ready_def mbox_wf_def ex_mbox_one_def MBOX_MAX_INST_def mbox_obj_ok_def
        ex_mbox_def ex_page_ok MAX_CH_def)

lemma ex_one_registry: "registry ex_mbox_one 4096 = Some 7"
  by (simp add: registry_def gen_sw_mbox_get_instance_def ex_mbox_one_def ex_mbox_def)

lemma ex_none_registry: "registry ex_mbox_none b = None"
  by (simp add: registry_def gen_sw_mbox_get_instance_def ex_mbox_none_def)

subsection \<open>Properties\<close>

text \<open>
  C14: The table of mailbox instances implements a map from base addresses to mailboxes, in
  every case of the two calls, on a well-formed table with the global semaphore free: a known
  base leaves everything as it is and returns 0; a failed allocation, mapping or semaphore
  returns its error and leaves everything as it is; otherwise the channels of the page are idle,
  the interrupt handler is installed, and exactly the new entry is added if an entry is free
  (unregistering it restores the map), and none, still with 0, if none is. In all of these the
  semaphore is free again. Unregistering removes exactly the entry of a mailbox nobody holds,
  does nothing for an unknown base, and for a mailbox that is held returns -1 with the map
  unchanged and the semaphore still taken, which locks every later call out
  (\<open>busy_send_locks_out_everyone\<close>).
\<close>

theorem registry_refines_map:
  assumes "mbox_ready s" "base \<noteq> 0" "page_ok (regs s base)" "objs s p = None" "alloc \<in> {None, Some (p, m0)}"
  shows "(\<exists>rc s1. gen_sw_mbox_register alloc map_rc sem_rc base irq remote s = Inr (rc, s1) \<and> mbox_ready s1
      \<and> (if registry s base = None \<and> alloc \<noteq> None \<and> map_rc = 0 \<and> sem_rc = 0
         then rc = 0 \<and> (irq, p) \<in> set (handlers s1)
           \<and> rx_status (regs s1 base) = [S_READY, S_READY, S_READY, S_READY]
           \<and> tx_status (regs s1 base) = [S_READY, S_READY, S_READY, S_READY]
           \<and> (if None \<in> set (mbox_inst s)
              then registry s1 = (registry s)(base \<mapsto> p)
                \<and> (\<exists>s2. gen_sw_mbox_unregister base s1 = Inr (0, s2)
                     \<and> mbox_ready s2 \<and> registry s2 = registry s \<and> objs s2 p = None)
              else registry s1 = registry s)
         else s1 = s \<and> rc = (if registry s base \<noteq> None then 0 else if alloc = None then - 1
                              else if map_rc \<noteq> 0 then - 2 else sem_rc)))
    \<and> (case registry s base of
        None \<Rightarrow> gen_sw_mbox_unregister base s = Inr (0, s)
      | Some q \<Rightarrow> (if 0 < ref_cnt (the (objs s q))
          then gen_sw_mbox_unregister base s = Inr (- 1, s\<lparr>gsem := 0\<rparr>)
          else \<exists>s2. gen_sw_mbox_unregister base s = Inr (0, s2) \<and> mbox_ready s2
                 \<and> registry s2 = (registry s)(base := None) \<and> objs s2 q = None))"
proof -
  have r: "replicate MAX_CH S_READY = [S_READY, S_READY, S_READY, S_READY]"
    by (simp add: MAX_CH_def numeral_eq_Suc)
  note un = unregister_cases [OF assms(1,2)]
  show ?thesis
  proof (cases "registry s base = None \<and> alloc \<noteq> None \<and> map_rc = 0 \<and> sem_rc = 0")
    case True
    then have reg: "registry s base = None" and a: "alloc = Some (p, m0)" "map_rc = 0" "sem_rc = 0"
      using assms(5) by auto
    obtain s1 where s1: "gen_sw_mbox_register alloc map_rc sem_rc base irq remote s = Inr (0, s1)" "mbox_ready s1"
        "regs s1 base = clear_status (regs s base)" "(irq, p) \<in> set (handlers s1)"
        "if None \<in> set (mbox_inst s)
         then registry s1 = (registry s)(base \<mapsto> p)
           \<and> (\<exists>s2. gen_sw_mbox_unregister base s1 = Inr (0, s2)
                \<and> mbox_ready s2 \<and> registry s2 = registry s \<and> objs s2 p = None)
         else registry s1 = registry s"
      using register_new [OF assms(1,2) reg assms(4,3), of m0 irq remote] unfolding a by blast
    show ?thesis using s1 un True r by (simp add: clear_status_def)
  next
    case False
    then have "registry s base \<noteq> None \<or> alloc = None \<or> map_rc \<noteq> 0 \<or> sem_rc \<noteq> 0" by auto
    from register_refused [OF assms(1,2) this, of irq remote] show ?thesis
      unfolding if_not_P [OF False] using un assms(1) by blast
  qed
qed

lemma registry_refines_map_witness:
  "\<exists>s1 s2. gen_sw_mbox_register (Some (9, ex_mbox)) 0 0 8192 81 82 ex_mbox_none = Inr (0, s1)
      \<and> registry s1 8192 = Some 9 \<and> gen_sw_mbox_unregister 8192 s1 = Inr (0, s2)
      \<and> registry s2 8192 = None"
  using registry_refines_map [of ex_mbox_none 8192 9 "Some (9, ex_mbox)" ex_mbox 0 0 81 82]
    ex_none_ready ex_page_ok ex_none_registry
  by (auto simp: ex_mbox_none_def)

text \<open>
  A non-blocking send on a channel the peer has not emptied returns -2 and keeps the reference
  it took: the next unregistration of the mailbox fails with -1 and returns with the global
  semaphore taken, so that every later send, on any mailbox, waits forever.
\<close>

theorem busy_send_locks_out_everyone:
  assumes "mbox_ready s" "registry s base = Some p" "objs s p = Some m" "base \<noteq> 0"
    and "unat ch < MAX_CH" "unat ch' < MAX_CH"
    and "tx_status (regs s base) ! unat ch \<noteq> S_READY" "0 \<le> ref_cnt m"
  shows "\<exists>s1 s2. gen_sw_mbox_sendmsg fs base ch msg False s = Inr (- 2, s1)
      \<and> gen_sw_mbox_unregister base s1 = Inr (- 1, s2)
      \<and> gen_sw_mbox_sendmsg fs' base' ch' msg' block s2 = Inl Deadlock"
proof -
  define m1 where "m1 = m\<lparr>ref_cnt := ref_cnt m + 1\<rparr>"
  define s1 where "s1 = set_obj p m1 s"
  have wf: "mbox_wf s" and g: "gsem s = 1" using assms(1) by (auto simp: mbox_ready_def)
  have mem: "Some p \<in> set (mbox_inst s)" and b: "mmio_pa m = base"
    using assms(2,3) by (auto simp: registry_Some [OF wf])
  obtain lm: "lock m = 1" "length (chan m) = MAX_CH"
    using wf_instance [OF wf mem] assms(3) by auto
  have send: "gen_sw_mbox_sendmsg fs base ch msg False s = Inr (- 2, s1)"
    using sendmsg_steps(2) [OF assms(1-3,5,7)] by (simp add: s1_def m1_def)
  have wf1: "mbox_wf s1"
    using wf_set_obj [OF wf assms(3)] lm by (simp add: s1_def m1_def)
  have "registry s1 base = Some p"
    unfolding registry_Some [OF wf1] using mem b by (simp add: s1_def m1_def)
  then have get: "gen_sw_mbox_get_instance base s1 = Inr (Some p)"
    using get_instance_registry [OF wf1] by simp
  have o1: "objs s1 p = Some m1" "gsem s1 = 1" by (simp_all add: s1_def g)
  have "\<exists>s2. gen_sw_mbox_unregister base s1 = Inr (- 1, s2) \<and> gsem s2 = 0"
    using assms(4,8) get o1 lm
    by (simp add: gen_sw_mbox_unregister_def sem_take_def Let_def obj_def m1_def)
  then obtain s2 where s2: "gen_sw_mbox_unregister base s1 = Inr (- 1, s2)" "gsem s2 = 0" by blast
  have "gen_sw_mbox_sendmsg fs' base' ch' msg' block s2 = Inl Deadlock"
    using assms(6) s2(2) by (simp add: gen_sw_mbox_sendmsg_def grab_def sem_take_def)
  then show ?thesis using send s2(1) by blast
qed

lemma busy_send_locks_out_everyone_witness:
  "\<exists>s1 s2. gen_sw_mbox_sendmsg [] 4096 0 5 False ex_mbox_one = Inr (- 2, s1)
      \<and> gen_sw_mbox_unregister 4096 s1 = Inr (- 1, s2)
      \<and> gen_sw_mbox_sendmsg [] 8192 1 6 False s2 = Inl Deadlock"
proof (rule busy_send_locks_out_everyone [OF ex_one_ready ex_one_registry])
  show "objs ex_mbox_one 7 = Some ex_mbox" by (simp add: ex_mbox_one_def)
  show "tx_status (regs ex_mbox_one 4096) ! unat 0 \<noteq> S_READY"
    by (simp add: ex_mbox_one_def ex_page_def S_READY_def)
qed (simp_all add: ex_mbox_def MAX_CH_def)

end
