(* ===== verification/Virtio_Mailbox.thy ===== *)
theory Virtio_Mailbox
  imports Gen_Sw_Mbox
begin


text \<open>
  The mailbox interface of the virtio devices (\<open>src/include/mailbox/mailbox.h\<close>) and its two
  implementations: on the generic software mailbox
  (\<open>src/virtio/mailbox/generic_software_mailbox.c\<close>, 64-bit cores) and on the messaging unit
  (\<open>src/virtio/mailbox/mu_mailbox.c\<close>, 32-bit cores).

  Both keep a table of 32 handlers, indexed by the event number a device registers; event 0 marks a
  free entry. A message carries the address of a write request of the front end, and the handler
  of the device at the request's base address is called. Calls of the handlers, which are device
  code, are recorded in \<open>ran\<close>; the memory of the write requests is \<open>wr_mem\<close>.
\<close>

subsection \<open>The handler table\<close>

record 'e isr_info =
  event :: 'e
  write_cb :: "nat option"
  isr_data :: nat

record virtio_mmio_wr_ops =
  mmio_base :: u64
  wr_off :: u32
  wr_val :: u32
  wr_len :: u8

definition ISR_COUNT :: nat where "ISR_COUNT = 32"

definition find_isr_entry :: "('e::zero) isr_info list \<Rightarrow> 'e \<Rightarrow> nat option" where
  "find_isr_entry t ev = find (\<lambda>i. event (t ! i) = ev) [0..<ISR_COUNT]"

definition find_empty_isr_entry :: "('e::zero) isr_info list \<Rightarrow> nat option" where
  "find_empty_isr_entry t = find_isr_entry t 0"

definition register_isr ::
    "'e \<Rightarrow> nat option \<Rightarrow> nat \<Rightarrow> ('e::zero) isr_info list \<Rightarrow> 'e isr_info list" where
  "register_isr ev fn d t =
     (case find_empty_isr_entry t of
        None \<Rightarrow> t
      | Some i \<Rightarrow> t[i := \<lparr>event = ev, write_cb = fn, isr_data = d\<rparr>])"

definition unregister_isr :: "'e \<Rightarrow> ('e::zero) isr_info list \<Rightarrow> 'e isr_info list" where
  "unregister_isr ev t =
     (case find_isr_entry t ev of
        None \<Rightarrow> t
      | Some i \<Rightarrow> t[i := \<lparr>event = 0, write_cb = None, isr_data = 0\<rparr>])"

subsection \<open>The generic software mailbox\<close>

record vmbox =
  isr_table :: "u64 isr_info list"
  mbox_lock :: nat
  disable_counter :: int
  irq_enabled :: bool
  wr_mem :: "u64 \<Rightarrow> virtio_mmio_wr_ops"
  ran :: "(nat \<times> u64 \<times> u32 \<times> nat) list"

type_synonym vmbox_sys = "vmbox mbox_sys_scheme"

record mbox_cfg =
  GEN_SW_MBOX_BASE :: nat
  GEN_SW_MBOX_IRQ :: int
  GEN_SW_MBOX_REMOTE_IRQ :: int
  VIRTIO_GEN_SW_MBOX_CHANNEL :: u32

definition call_isr :: "u64 \<Rightarrow> vmbox \<Rightarrow> vmbox" where
  "call_isr vector v =
     (let w = wr_mem v vector
      in case find_isr_entry (isr_table v) (mmio_base w) of
           None \<Rightarrow> v
         | Some i \<Rightarrow>
             (let info = isr_table v ! i
              in case write_cb info of
                   None \<Rightarrow> v
                 | Some cb \<Rightarrow>
                     v\<lparr>ran := ran v @ [(cb, mmio_base w + ucast (wr_off w), ucast (wr_len w),
                                         isr_data info)]\<rparr>))"

definition mbox_recv_cb :: "nat \<Rightarrow> u32 \<Rightarrow> vmbox \<Rightarrow> vmbox" where
  "mbox_recv_cb d msg v = call_isr (ucast msg) v"

text \<open>
  \<open>os_sem_take\<close> with the timeout \<open>OS_SEM_FLAGS_ISR_CONTEXT\<close>, one millisecond, its result ignored:
  when nobody gives the lock in that time the caller goes on without it. \<open>os_sem_give\<close> adds one
  to a counting semaphore in any case.
\<close>

definition lock_take_1ms :: "vmbox \<Rightarrow> vmbox" where
  "lock_take_1ms v = v\<lparr>mbox_lock := mbox_lock v - 1\<rparr>"

definition lock_give :: "vmbox \<Rightarrow> vmbox" where
  "lock_give v = v\<lparr>mbox_lock := mbox_lock v + 1\<rparr>"

definition mbox_register_callback :: "u64 \<Rightarrow> nat option \<Rightarrow> nat \<Rightarrow> vmbox \<Rightarrow> int \<times> vmbox" where
  "mbox_register_callback ev fn d v =
     (let v1 = lock_take_1ms v
      in (0, lock_give (v1\<lparr>isr_table := register_isr ev fn d (isr_table v1)\<rparr>)))"

definition mbox_unregister_callback :: "u64 \<Rightarrow> vmbox \<Rightarrow> int \<times> vmbox" where
  "mbox_unregister_callback ev v =
     (let v1 = lock_take_1ms v
      in (0, lock_give (v1\<lparr>isr_table := unregister_isr ev (isr_table v1)\<rparr>)))"

definition on_client :: "('a \<Rightarrow> 'a) \<Rightarrow> 'a mbox_sys_scheme \<Rightarrow> 'a mbox_sys_scheme" where
  "on_client f s = set_more (f (mbox_sys.more s)) s"

definition mbox_kick_front :: "mbox_cfg \<Rightarrow> u64 \<Rightarrow> vmbox_sys \<Rightarrow> vmbox_sys outcome" where
  "mbox_kick_front c ev s =
     and_then (gen_sw_mbox_sendmsg [] (GEN_SW_MBOX_BASE c) (VIRTIO_GEN_SW_MBOX_CHANNEL c)
                 (ucast ev) False (on_client lock_take_1ms s)) (\<lambda>(r, s1).
     Inr (on_client lock_give s1))"

definition mbox_interrupt_enable :: "u64 \<Rightarrow> vmbox \<Rightarrow> (u32 \<times> vmbox) outcome" where
  "mbox_interrupt_enable ev v =
     os_assert (0 < disable_counter v)
      (let v1 = v\<lparr>disable_counter := disable_counter v - 1\<rparr>;
           v2 = (if disable_counter v1 = 0 then v1\<lparr>irq_enabled := True\<rparr> else v1)
       in Inr (ucast ev, v2))"

definition mbox_interrupt_disable :: "u64 \<Rightarrow> vmbox \<Rightarrow> (u32 \<times> vmbox) outcome" where
  "mbox_interrupt_disable ev v =
     os_assert (0 \<le> disable_counter v)
      (let v1 = (if disable_counter v = 0 then v\<lparr>irq_enabled := False\<rparr> else v)
       in Inr (ucast ev, v1\<lparr>disable_counter := disable_counter v1 + 1\<rparr>))"

definition MBOX_RECV_CB :: nat where "MBOX_RECV_CB = 1"

definition mbox_init ::
    "mbox_cfg \<Rightarrow> int \<Rightarrow> int \<Rightarrow> (nat \<times> gen_sw_mbox) option \<Rightarrow> int \<Rightarrow> int \<Rightarrow> vmbox_sys \<Rightarrow>
       (int \<times> vmbox_sys) outcome" where
  "mbox_init c sem_rc gsem_rc alloc map_rc lock_rc s =
     (if sem_rc \<noteq> 0 then Inr (- 1, s)
      else
        and_then (gen_sw_mbox_init gsem_rc (on_client (\<lambda>v. v\<lparr>mbox_lock := 1\<rparr>) s)) (\<lambda>s1.
        and_then (gen_sw_mbox_register alloc map_rc lock_rc (GEN_SW_MBOX_BASE c)
                    (GEN_SW_MBOX_IRQ c) (GEN_SW_MBOX_REMOTE_IRQ c) s1) (\<lambda>(r, s2).
        and_then (gen_sw_mbox_register_chan_callback (GEN_SW_MBOX_BASE c)
                    (VIRTIO_GEN_SW_MBOX_CHANNEL c) (Some MBOX_RECV_CB) 0 s2) (\<lambda>(r', s3).
        Inr (0, s3)))))"

definition mbox_deinit :: "mbox_cfg \<Rightarrow> vmbox_sys \<Rightarrow> (int \<times> vmbox_sys) outcome" where
  "mbox_deinit c s =
     and_then (gen_sw_mbox_unregister_chan_callback (GEN_SW_MBOX_BASE c)
                 (VIRTIO_GEN_SW_MBOX_CHANNEL c) s) (\<lambda>(r, s1).
     and_then (gen_sw_mbox_unregister (GEN_SW_MBOX_BASE c) s1) (\<lambda>(r', s2).
     Inr (0, on_client (\<lambda>v. v\<lparr>mbox_lock := 0\<rparr>) (gen_sw_mbox_deinit s2))))"

definition mbox_dispatch :: "vmbox mbox_run" where
  "mbox_dispatch cb d msg s =
     (if cb = MBOX_RECV_CB then Inr (on_client (mbox_recv_cb d msg) s) else Inl Null_Deref)"

subsection \<open>The messaging unit\<close>

record mu_mbox =
  mu_isr_table :: "u32 isr_info list"
  platform_lock :: nat
  isr_counter :: int
  mu_disable_counter :: int
  mu_rx_int :: bool
  mu_irq_enabled :: bool
  mu_rx :: "u32 option"
  mu_tx :: "u32 list"
  mu_wr_mem :: "u32 \<Rightarrow> virtio_mmio_wr_ops"
  mu_ran :: "(nat \<times> u32 \<times> u32 \<times> nat) list"

definition mu_find_isr_entry :: "u32 isr_info list \<Rightarrow> u32 \<Rightarrow> nat option" where
  "mu_find_isr_entry t ev = find (\<lambda>i. event (t ! i) = ev) [0..<ISR_COUNT]"

definition mu_find_empty_isr_entry :: "u32 isr_info list \<Rightarrow> nat option" where
  "mu_find_empty_isr_entry t = mu_find_isr_entry t 0"

definition mu_register_isr ::
    "u32 \<Rightarrow> nat option \<Rightarrow> nat \<Rightarrow> u32 isr_info list \<Rightarrow> u32 isr_info list" where
  "mu_register_isr ev fn d t =
     (case mu_find_empty_isr_entry t of
        None \<Rightarrow> t
      | Some i \<Rightarrow> t[i := \<lparr>event = ev, write_cb = fn, isr_data = d\<rparr>])"

definition mu_unregister_isr :: "u32 \<Rightarrow> u32 isr_info list \<Rightarrow> u32 isr_info list" where
  "mu_unregister_isr ev t =
     (case mu_find_isr_entry t ev of
        None \<Rightarrow> t
      | Some i \<Rightarrow> t[i := \<lparr>event = 0, write_cb = None, isr_data = 0\<rparr>])"

definition mu_call_isr :: "u32 \<Rightarrow> mu_mbox \<Rightarrow> mu_mbox" where
  "mu_call_isr vector v =
     (let w = mu_wr_mem v vector
      in case mu_find_isr_entry (mu_isr_table v) (ucast (mmio_base w)) of
           None \<Rightarrow> v
         | Some i \<Rightarrow>
             (let info = mu_isr_table v ! i
              in case write_cb info of
                   None \<Rightarrow> v
                 | Some cb \<Rightarrow>
                     v\<lparr>mu_ran := mu_ran v @ [(cb, ucast (mmio_base w) + wr_off w,
                                               ucast (wr_len w), isr_data info)]\<rparr>))"

definition mu_register_callback :: "u32 \<Rightarrow> nat option \<Rightarrow> nat \<Rightarrow> mu_mbox \<Rightarrow> (int \<times> mu_mbox) outcome" where
  "mu_register_callback ev fn d v =
     (let v1 = v\<lparr>mu_isr_table := mu_register_isr ev fn d (mu_isr_table v)\<rparr>
      in and_then (sem_take (platform_lock v1)) (\<lambda>l.
         os_assert (0 \<le> isr_counter v1)
          (Inr (0, v1\<lparr>mu_rx_int := (if isr_counter v1 = 0 then True else mu_rx_int v1),
                      isr_counter := isr_counter v1 + 1, platform_lock := l + 1\<rparr>))))"

definition mu_unregister_callback :: "u32 \<Rightarrow> mu_mbox \<Rightarrow> (int \<times> mu_mbox) outcome" where
  "mu_unregister_callback ev v =
     and_then (sem_take (platform_lock v)) (\<lambda>l.
     os_assert (0 < isr_counter v)
      (let n = isr_counter v - 1
       in Inr (0, v\<lparr>isr_counter := n, mu_rx_int := (if n = 0 then False else mu_rx_int v),
                    mu_isr_table := mu_unregister_isr ev (mu_isr_table v),
                    platform_lock := l + 1\<rparr>)))"

definition mu_kick_front :: "u32 \<Rightarrow> mu_mbox \<Rightarrow> mu_mbox outcome" where
  "mu_kick_front ev v =
     and_then (sem_take (platform_lock v)) (\<lambda>l.
     (let v1 = v\<lparr>mu_tx := mu_tx v @ [ev], platform_lock := l\<rparr>
      in Inr (v1\<lparr>platform_lock := platform_lock v1 + 1\<rparr>)))"

definition mu_irq_handler :: "mu_mbox \<Rightarrow> int \<times> mu_mbox" where
  "mu_irq_handler v =
     (case mu_rx v of
        None \<Rightarrow> (0, v)
      | Some wr_ops \<Rightarrow> (0, mu_call_isr wr_ops (v\<lparr>mu_rx := None\<rparr>)))"

definition mu_interrupt_enable :: "u32 \<Rightarrow> mu_mbox \<Rightarrow> (u32 \<times> mu_mbox) outcome" where
  "mu_interrupt_enable ev v =
     os_assert (0 < mu_disable_counter v)
      (let v1 = v\<lparr>mu_disable_counter := mu_disable_counter v - 1\<rparr>;
           v2 = (if mu_disable_counter v1 = 0 then v1\<lparr>mu_irq_enabled := True\<rparr> else v1)
       in Inr (ev, v2))"

definition mu_interrupt_disable :: "u32 \<Rightarrow> mu_mbox \<Rightarrow> (u32 \<times> mu_mbox) outcome" where
  "mu_interrupt_disable ev v =
     os_assert (0 \<le> mu_disable_counter v)
      (let v1 = (if mu_disable_counter v = 0 then v\<lparr>mu_irq_enabled := False\<rparr> else v)
       in Inr (ev, v1\<lparr>mu_disable_counter := mu_disable_counter v1 + 1\<rparr>))"

definition mu_mbox_init :: "bool \<Rightarrow> int \<Rightarrow> mu_mbox \<Rightarrow> int \<times> mu_mbox" where
  "mu_mbox_init enable_irq sem_rc v =
     (let v1 = (if enable_irq then v\<lparr>mu_irq_enabled := True\<rparr> else v)
      in if sem_rc \<noteq> 0 then (- 1, v1) else (0, v1\<lparr>platform_lock := 1\<rparr>))"

definition mu_mbox_deinit :: "mu_mbox \<Rightarrow> int \<times> mu_mbox" where
  "mu_mbox_deinit v = (0, v\<lparr>platform_lock := 0\<rparr>)"

subsection \<open>The contract of a handler table\<close>

text \<open>
  What the devices rely on: the table is a map from events to handlers with room for a bounded
  number of entries; a handler registered when there is no room is lost.
\<close>

locale isr_store =
  fixes ok :: "'s \<Rightarrow> bool"
    and lookup :: "'s \<Rightarrow> ('e::zero) \<Rightarrow> (nat option \<times> nat) option"
    and room :: "'s \<Rightarrow> nat"
    and register :: "'e \<Rightarrow> nat option \<Rightarrow> nat \<Rightarrow> 's \<Rightarrow> 's"
    and unregister :: "'e \<Rightarrow> 's \<Rightarrow> 's"
  assumes register_ok: "ok s \<Longrightarrow> ev \<noteq> 0 \<Longrightarrow> lookup s ev = None \<Longrightarrow> 0 < room s \<Longrightarrow>
      ok (register ev fn d s) \<and> lookup (register ev fn d s) = (lookup s)(ev \<mapsto> (fn, d))
      \<and> room (register ev fn d s) = room s - 1"
    and register_full: "ok s \<Longrightarrow> room s = 0 \<Longrightarrow> register ev fn d s = s"
    and unregister_ok: "ok s \<Longrightarrow> lookup s ev \<noteq> None \<Longrightarrow>
      ok (unregister ev s) \<and> lookup (unregister ev s) = (lookup s)(ev := None)
      \<and> room (unregister ev s) = room s + 1"
begin

fun register_all :: "('e \<times> nat option \<times> nat) list \<Rightarrow> 's \<Rightarrow> 's" where
  "register_all [] s = s"
| "register_all ((ev, fn, d) # hs) s = register_all hs (register ev fn d s)"

lemma register_all_full: "ok s \<Longrightarrow> room s = 0 \<Longrightarrow> register_all hs s = s"
  by (induction hs s rule: register_all.induct) (simp_all add: register_full)

lemma register_all_lookup:
  assumes "ok s" "distinct (map fst hs)" "0 \<notin> fst ` set hs" "\<forall>ev \<in> fst ` set hs. lookup s ev = None"
  shows "ok (register_all hs s)"
    and "lookup (register_all hs s) = lookup s ++ map_of (take (room s) hs)"
    and "room (register_all hs s) = room s - length hs"
proof -
  have "ok (register_all hs s) \<and> lookup (register_all hs s) = lookup s ++ map_of (take (room s) hs)
      \<and> room (register_all hs s) = room s - length hs"
    using assms
  proof (induction hs s rule: register_all.induct)
    case (2 ev fn d hs s)
    show ?case
    proof (cases "room s")
      case 0
      then show ?thesis using 2 by (simp add: register_full register_all_full)
    next
      case (Suc n)
      have new: "ev \<notin> fst ` set hs" using 2 by auto
      have r: "ok (register ev fn d s)" "lookup (register ev fn d s) = (lookup s)(ev \<mapsto> (fn, d))"
        "room (register ev fn d s) = n"
        using register_ok [of s ev fn d] 2 Suc by auto
      have "\<forall>e \<in> fst ` set hs. lookup (register ev fn d s) e = None"
        using 2 r(2) new by auto
      then have ih: "ok (register_all hs (register ev fn d s))"
        "lookup (register_all hs (register ev fn d s)) =
           (lookup s)(ev \<mapsto> (fn, d)) ++ map_of (take n hs)"
        "room (register_all hs (register ev fn d s)) = n - length hs"
        using 2(1) 2(3) 2(4) r by (simp_all add: fun_upd_def)
      have "ev \<notin> dom (map_of (take n hs))"
        using new by (auto simp: dom_map_of_conv_image_fst dest: in_set_takeD)
      then have "lookup s ++ map_of (take (room s) ((ev, fn, d) # hs)) =
          (lookup s)(ev \<mapsto> (fn, d)) ++ map_of (take n hs)"
        using Suc by (auto simp: fun_eq_iff map_add_def split: option.splits)
      then show ?thesis unfolding register_all.simps using ih Suc by (simp only: length_Cons) simp
    qed
  qed simp
  then show "ok (register_all hs s)"
    and "lookup (register_all hs s) = lookup s ++ map_of (take (room s) hs)"
    and "room (register_all hs s) = room s - length hs" by auto
qed

lemma unregister_register:
  assumes "ok s" "ev \<noteq> 0" "lookup s ev = None" "0 < room s"
  shows "lookup (unregister ev (register ev fn d s)) = lookup s"
    and "room (unregister ev (register ev fn d s)) = room s"
  using register_ok [OF assms, of fn d] unregister_ok [of "register ev fn d s" ev] assms by auto

end

subsection \<open>Both tables keep it\<close>

definition isr_table_ok :: "('e::zero) isr_info list \<Rightarrow> bool" where
  "isr_table_ok t \<longleftrightarrow> length t = ISR_COUNT
     \<and> (\<forall>i < ISR_COUNT. \<forall>j < ISR_COUNT. event (t ! i) = event (t ! j) \<longrightarrow> event (t ! i) \<noteq> 0 \<longrightarrow> i = j)"

definition isr_lookup :: "('e::zero) isr_info list \<Rightarrow> 'e \<Rightarrow> (nat option \<times> nat) option" where
  "isr_lookup t ev =
     (if ev = 0 then None
      else map_option (\<lambda>i. (write_cb (t ! i), isr_data (t ! i))) (find_isr_entry t ev))"

definition isr_room :: "('e::zero) isr_info list \<Rightarrow> nat" where
  "isr_room t = length (filter (\<lambda>x. event x = 0) t)"

lemma find_isr_Some:
  "find_isr_entry t ev = Some i \<longleftrightarrow>
     i < ISR_COUNT \<and> event (t ! i) = ev \<and> (\<forall>j < i. event (t ! j) \<noteq> ev)"
  by (auto simp: find_isr_entry_def find_Some_iff)

lemma find_isr_None: "find_isr_entry t ev = None \<longleftrightarrow> (\<forall>i < ISR_COUNT. event (t ! i) \<noteq> ev)"
  by (auto simp: find_isr_entry_def find_None_iff)

lemma isr_lookup_Some:
  assumes "isr_table_ok t"
  shows "isr_lookup t ev = Some h \<longleftrightarrow>
    ev \<noteq> 0 \<and> (\<exists>i < ISR_COUNT. event (t ! i) = ev \<and> h = (write_cb (t ! i), isr_data (t ! i)))"
proof (cases "find_isr_entry t ev")
  case None
  then show ?thesis by (simp add: isr_lookup_def) (auto simp: find_isr_None)
next
  case (Some i)
  then have i: "i < ISR_COUNT" "event (t ! i) = ev" by (simp_all add: find_isr_Some)
  have uniq: "\<forall>j < ISR_COUNT. event (t ! j) = ev \<longrightarrow> ev \<noteq> 0 \<longrightarrow> j = i"
    using i assms unfolding isr_table_ok_def by metis
  have "isr_lookup t ev = (if ev = 0 then None else Some (write_cb (t ! i), isr_data (t ! i)))"
    using Some by (simp add: isr_lookup_def)
  then show ?thesis using i uniq by (metis option.distinct(1) option.inject)
qed

lemma isr_lookup_None:
  assumes "isr_table_ok t"
  shows "isr_lookup t ev = None \<longleftrightarrow> ev = 0 \<or> (\<forall>i < ISR_COUNT. event (t ! i) \<noteq> ev)"
  by (auto simp: isr_lookup_def find_isr_None)

lemma isr_room_update:
  "i < length t \<Longrightarrow>
   isr_room (t[i := x]) + (if event (t ! i) = 0 then 1 else 0) =
     isr_room t + (if event x = 0 then 1 else 0)"
proof (induction t arbitrary: i)
  case (Cons y t)
  then show ?case by (cases i) (auto simp: isr_room_def)
qed simp

lemma isr_room_pos: "length t = ISR_COUNT \<Longrightarrow> 0 < isr_room t \<longleftrightarrow> find_empty_isr_entry t \<noteq> None"
  by (auto simp: isr_room_def find_empty_isr_entry_def find_isr_None filter_empty_conv
        in_set_conv_nth) (metis nth_mem)

lemma isr_table_update:
  assumes ok: "isr_table_ok t" and i: "i < ISR_COUNT"
    and new: "event x = 0 \<or> (\<forall>j < ISR_COUNT. event (t ! j) \<noteq> event x)"
  shows "isr_table_ok (t[i := x])"
    and "isr_lookup (t[i := x]) ev =
      (if ev = 0 then None else if event x = ev then Some (write_cb x, isr_data x)
       else if event (t ! i) = ev then None else isr_lookup t ev)"
proof -
  show ok': "isr_table_ok (t[i := x])"
    using ok i new by (auto simp: isr_table_ok_def nth_list_update)
  have len: "length t = ISR_COUNT" using ok by (simp add: isr_table_ok_def)
  have "isr_lookup (t[i := x]) ev = Some h \<longleftrightarrow>
      (if ev = 0 then None else if event x = ev then Some (write_cb x, isr_data x)
       else if event (t ! i) = ev then None else isr_lookup t ev) = Some h" for h
    unfolding isr_lookup_Some [OF ok']
    using ok i new len
    by (auto simp: isr_lookup_Some [OF ok] nth_list_update isr_table_ok_def)
  then show "isr_lookup (t[i := x]) ev =
      (if ev = 0 then None else if event x = ev then Some (write_cb x, isr_data x)
       else if event (t ! i) = ev then None else isr_lookup t ev)"
    by (metis option.exhaust)
qed

lemma register_isr_ok:
  assumes ok: "isr_table_ok t" and ev: "ev \<noteq> 0" "isr_lookup t ev = None" and room: "0 < isr_room t"
  shows "isr_table_ok (register_isr ev fn d t) \<and>
    isr_lookup (register_isr ev fn d t) = (isr_lookup t)(ev \<mapsto> (fn, d)) \<and>
    isr_room (register_isr ev fn d t) = isr_room t - 1"
proof -
  have len: "length t = ISR_COUNT" using ok by (simp add: isr_table_ok_def)
  obtain i where i: "find_empty_isr_entry t = Some i" "i < ISR_COUNT" "event (t ! i) = 0"
    using room isr_room_pos [OF len]
    by (metis find_empty_isr_entry_def find_isr_Some option.exhaust)
  have fresh: "\<forall>j < ISR_COUNT. event (t ! j) \<noteq> ev"
    using ev isr_lookup_None [OF ok] by simp
  show ?thesis
    using isr_table_update [OF ok i(2), of "\<lparr>event = ev, write_cb = fn, isr_data = d\<rparr>"]
      isr_room_update [of i t "\<lparr>event = ev, write_cb = fn, isr_data = d\<rparr>"] fresh ev i len
    by (auto simp: register_isr_def fun_eq_iff isr_lookup_def)
qed

lemma register_isr_full: "isr_table_ok t \<Longrightarrow> isr_room t = 0 \<Longrightarrow> register_isr ev fn d t = t"
  using isr_room_pos [of t] by (simp add: register_isr_def isr_table_ok_def)

lemma unregister_isr_ok:
  assumes ok: "isr_table_ok t" and ev: "isr_lookup t ev \<noteq> None"
  shows "isr_table_ok (unregister_isr ev t) \<and>
    isr_lookup (unregister_isr ev t) = (isr_lookup t)(ev := None) \<and>
    isr_room (unregister_isr ev t) = isr_room t + 1"
proof -
  have len: "length t = ISR_COUNT" using ok by (simp add: isr_table_ok_def)
  obtain i where i: "find_isr_entry t ev = Some i" "i < ISR_COUNT" "event (t ! i) = ev" "ev \<noteq> 0"
    using ev by (auto simp: isr_lookup_def find_isr_Some split: if_splits)
  show ?thesis
    using isr_table_update [OF ok i(2), of "\<lparr>event = 0, write_cb = None, isr_data = 0\<rparr>"]
      isr_room_update [of i t "\<lparr>event = 0, write_cb = None, isr_data = 0\<rparr>"] i len
    by (auto simp: unregister_isr_def fun_eq_iff isr_lookup_def)
qed

interpretation gen_isr: isr_store isr_table_ok isr_lookup isr_room register_isr unregister_isr
  by unfold_locales (rule register_isr_ok register_isr_full unregister_isr_ok; assumption)+

lemma mu_isr_same [simp]:
  "mu_find_isr_entry = find_isr_entry" "mu_find_empty_isr_entry = find_empty_isr_entry"
  "mu_register_isr = register_isr" "mu_unregister_isr = unregister_isr"
  by (simp_all add: fun_eq_iff mu_find_isr_entry_def find_isr_entry_def
        mu_find_empty_isr_entry_def find_empty_isr_entry_def mu_register_isr_def register_isr_def
        mu_unregister_isr_def unregister_isr_def)

interpretation mu_isr: isr_store isr_table_ok isr_lookup isr_room mu_register_isr mu_unregister_isr
  unfolding mu_isr_same
  by unfold_locales (rule register_isr_ok register_isr_full unregister_isr_ok; assumption)+

subsection \<open>The virtio mailbox as a client of the software mailbox\<close>

interpretation vmb: mbox_client mbox_dispatch "\<lambda>cb. mbox_recv_cb" "\<lambda>cb d msg v. cb = MBOX_RECV_CB"
  by unfold_locales (simp add: mbox_dispatch_def on_client_def)

lemma concat_map_single:
  assumes "k < n" "\<forall>i < n. i \<noteq> k \<longrightarrow> f i = []"
  shows "concat (map f [0..<n]) = f k"
  using assms
proof (induction n)
  case (Suc n)
  show ?case
  proof (cases "k = n")
    case True
    then have "concat (map f [0..<n]) = []" using Suc.prems by auto
    then show ?thesis using True by simp
  next
    case False
    then show ?thesis using Suc by auto
  qed
qed simp

lemma on_client_simps [simp]:
  "objs (on_client f s) = objs s" "mbox_inst (on_client f s) = mbox_inst s"
  "regs (on_client f s) = regs s" "gsem (on_client f s) = gsem s"
  "mbox_sys.more (on_client f s) = f (mbox_sys.more s)" "pended (on_client f s) = pended s"
  by (simp_all add: on_client_def)

lemma ready_cong:
  assumes "objs s' = objs s" "mbox_inst s' = mbox_inst s" "regs s' = regs s" "gsem s' = gsem s"
  shows "mbox_ready s' \<longleftrightarrow> mbox_ready s" and "registry s' b = registry s b"
proof -
  have "mbox_obj_ok s' = mbox_obj_ok s" "base_of s' = base_of s"
    by (simp_all add: fun_eq_iff mbox_obj_ok_def base_of_def assms)
  then show "mbox_ready s' \<longleftrightarrow> mbox_ready s"
    by (simp add: mbox_ready_def mbox_wf_def assms)
  show "registry s' b = registry s b" by (rule find_inst_self) (simp_all add: assms)
qed

lemma kick_steps:
  assumes "mbox_ready s" "registry s (GEN_SW_MBOX_BASE c) = Some p" "objs s p = Some m"
    and "unat (VIRTIO_GEN_SW_MBOX_CHANNEL c) < MAX_CH"
    and "tx_status (regs s (GEN_SW_MBOX_BASE c)) ! unat (VIRTIO_GEN_SW_MBOX_CHANNEL c) = S_READY"
  shows "\<exists>s'. mbox_kick_front c ev s = Inr s'
     \<and> regs s' (GEN_SW_MBOX_BASE c) = post_msg (GEN_SW_MBOX_BASE c)
         (unat (VIRTIO_GEN_SW_MBOX_CHANNEL c)) (ucast ev) (regs s (GEN_SW_MBOX_BASE c))
     \<and> objs s' p = Some m \<and> pended s' = pended s @ [remote_irq m]
     \<and> mbox_lock (mbox_sys.more s') = Suc (mbox_lock (mbox_sys.more s) - 1)"
proof -
  let ?s0 = "on_client lock_take_1ms s"
  have "mbox_ready ?s0" "registry ?s0 (GEN_SW_MBOX_BASE c) = Some p" "objs ?s0 p = Some m"
    using assms(1-3) ready_cong [of ?s0 s] by simp_all
  from sendmsg_steps(1) [OF this assms(4), of "[]" "ucast ev" False] assms(3,5)
  show ?thesis
    by (simp add: mbox_kick_front_def lock_give_def lock_take_1ms_def)
qed

lemma call_isr_found:
  assumes "isr_table_ok (isr_table v)"
    and "isr_lookup (isr_table v) (mmio_base (wr_mem v a)) = Some (Some cb, d)"
  shows "ran (call_isr a v) = ran v @ [(cb, mmio_base (wr_mem v a) + ucast (wr_off (wr_mem v a)),
           ucast (wr_len (wr_mem v a)), d)]"
  using assms by (auto simp: call_isr_def isr_lookup_def Let_def split: option.splits if_splits)

text \<open>
  C7: A kick crosses the mailbox exactly once: when the channel of the sending core is free,
  \<open>mbox_kick_front\<close> posts the event and raises the peer's interrupt; the peer's interrupt handler
  calls, once, the device handler registered for the base address of the write request the event
  points to, with the request's address and length; and the interrupt that the peer raises
  back leaves the channel free for the next kick, whether or not the channel uses acknowledgements.
\<close>

theorem kick_reaches_isr:
  fixes sA sB :: vmbox_sys
  assumes "mbox_ready sA" "registry sA (GEN_SW_MBOX_BASE c) = Some pA" "objs sA pA = Some mA"
    and "ch = unat (VIRTIO_GEN_SW_MBOX_CHANNEL c)" "ch < MAX_CH"
    and "r = regs sA (GEN_SW_MBOX_BASE c)" "page_ok r" "tx_status r ! ch = S_READY"
    and "\<forall>i < MAX_CH. i \<noteq> ch \<longrightarrow> tx_status r ! i \<noteq> S_BUSY" "\<forall>i < MAX_CH. rx_status r ! i \<noteq> S_BUSY"
    and "objs sB pB = Some mB" "mmio_pa mB = GEN_SW_MBOX_BASE c"
    and "recv_cb (chan mB ! ch) = Some MBOX_RECV_CB"
    and "w = wr_mem (mbox_sys.more sB) (ucast (ucast ev :: u32))"
    and "isr_table_ok (isr_table (mbox_sys.more sB))"
    and "isr_lookup (isr_table (mbox_sys.more sB)) (mmio_base w) = Some (Some cb, d)"
  shows "\<exists>sA' sB' sA''. mbox_kick_front c ev sA = Inr sA'
     \<and> pended sA' = pended sA @ [remote_irq mA]
     \<and> gen_sw_mbox_handler mbox_dispatch pB
          (set_regs (GEN_SW_MBOX_BASE c) (peer_view (regs sA' (GEN_SW_MBOX_BASE c))) sB) = Inr sB'
     \<and> ran (mbox_sys.more sB') = ran (mbox_sys.more sB)
          @ [(cb, mmio_base w + ucast (wr_off w), ucast (wr_len w), d)]
     \<and> gen_sw_mbox_handler mbox_dispatch pA
          (set_regs (GEN_SW_MBOX_BASE c) (peer_view (regs sB' (GEN_SW_MBOX_BASE c))) sA') = Inr sA''
     \<and> tx_status (regs sA'' (GEN_SW_MBOX_BASE c)) ! ch = S_READY"
proof -
  define base where "base = GEN_SW_MBOX_BASE c"
  define r1 where "r1 = peer_view (post_msg base ch (ucast ev) r)"
  obtain sA' where k: "mbox_kick_front c ev sA = Inr sA'"
      "regs sA' base = post_msg base ch (ucast ev) r" "objs sA' pA = Some mA"
      "pended sA' = pended sA @ [remote_irq mA]"
    using kick_steps [OF assms(1-3), of ev] assms(4-8) by (auto simp: base_def)
  have ok1: "page_ok r1"
    using assms(7) by (simp add: r1_def page_ok_def peer_view_def post_msg_def)
  have busy1: "busy r1 i \<longleftrightarrow> i = ch" if "i < MAX_CH" for i
    using that assms(5,7,9) by (auto simp: r1_def busy_def peer_view_def post_msg_def page_ok_def nth_list_update
          split: if_splits)
  have del: "deliveries mB r1 [0..<MAX_CH] = [(MBOX_RECV_CB, cb_data (chan mB ! ch), ucast ev)]"
    unfolding deliveries_def
    by (subst concat_map_single [OF assms(5)])
       (use busy1 assms(5,7,13) in
         \<open>simp_all add: r1_def peer_view_def post_msg_def page_ok_def\<close>)
  define sB0 where "sB0 = set_regs base r1 sB"
  define sB' where "sB' = vmb.served MAX_CH mB sB0"
  have hB: "gen_sw_mbox_handler mbox_dispatch pB sB0 = Inr sB'"
    unfolding sB'_def
    by (rule vmb.handler_served) (use assms(11,12) ok1 del in \<open>simp_all add: sB0_def base_def\<close>)
  have ran: "ran (mbox_sys.more sB') = ran (mbox_sys.more sB)
      @ [(cb, mmio_base w + ucast (wr_off w), ucast (wr_len w), d)]"
    using assms(12,14) call_isr_found [OF assms(15), of "ucast (ucast ev :: u32)"] assms(16) del
    by (simp add: sB'_def vmb.served_fields sB0_def base_def [symmetric] mbox_recv_cb_def)
  define r2 where "r2 = peer_view (regs sB' base)"
  have r2: "r2 = peer_view (served_page MAX_CH r1)"
    using assms(12) by (simp add: r2_def sB'_def vmb.served_fields sB0_def base_def [symmetric])
  have ok2: "page_ok r2"
    using ok1 by (simp add: r2 page_ok_def peer_view_def served_page_def)
  have idle2: "\<not> busy r2 i" if "i < MAX_CH" for i
    using that assms(7,10)
    by (auto simp: r2 r1_def busy_def peer_view_def served_page_def served_tx_def post_msg_def
          mbox_status page_ok_def)
  have tx2: "tx_status r2 ! ch \<in> {S_DONE, S_READY}"
    using assms(5) busy1 by (simp add: r2 peer_view_def served_page_def served_rx_def)
  have del2: "deliveries mA r2 [0..<MAX_CH] = []"
    using idle2 by (auto simp: deliveries_def)
  have bA: "mmio_pa mA = base"
    using assms(1-3) by (auto simp: base_def mbox_ready_def registry_Some)
  define sA0 where "sA0 = set_regs base r2 sA'"
  have hA: "gen_sw_mbox_handler mbox_dispatch pA sA0 = Inr (vmb.served MAX_CH mA sA0)"
    by (rule vmb.handler_served) (use k(3) bA ok2 del2 in \<open>simp_all add: sA0_def\<close>)
  have "tx_status (regs (vmb.served MAX_CH mA sA0) base) ! ch = S_READY"
    using tx2 assms(5) bA
    by (auto simp: vmb.served_fields sA0_def served_page_def served_tx_def)
  then show ?thesis
    using k hB ran hA
    by (intro exI [of _ sA'] exI [of _ sB'] exI [of _ "vmb.served MAX_CH mA sA0"])
       (simp add: base_def [symmetric] sB0_def sA0_def r1_def r2_def)
qed

definition ex_idle_page :: gen_sw_mbox_mmio where
  "ex_idle_page = \<lparr>rx_status = [0, 0, 0, 0], tx_status = [0, 0, 0, 0], rx_ch = [0, 0, 0, 0],
     tx_ch = [0, 0, 0, 0], ch_ack_flags = 2\<rparr>"

definition ex_isr_table :: "u64 isr_info list" where
  "ex_isr_table = \<lparr>event = 40960, write_cb = Some 3, isr_data = 9\<rparr>
     # replicate 31 \<lparr>event = 0, write_cb = None, isr_data = 0\<rparr>"

definition ex_vmbox :: vmbox where
  "ex_vmbox = \<lparr>isr_table = ex_isr_table, mbox_lock = 1, disable_counter = 0, irq_enabled = True,
     wr_mem = (\<lambda>_. \<lparr>mmio_base = 40960, wr_off = 80, wr_val = 1, wr_len = 4\<rparr>), ran = []\<rparr>"

definition ex_chan_mbox :: gen_sw_mbox where
  "ex_chan_mbox = \<lparr>mmio_pa = 4096, mbox_irq = 81, remote_irq = 82,
     chan = replicate 4 \<lparr>ch_id = 0, recv_cb = Some MBOX_RECV_CB, cb_data = 0\<rparr>, ref_cnt = 1,
     lock = 1\<rparr>"

definition ex_vmbox_sys :: vmbox_sys where
  "ex_vmbox_sys = \<lparr>objs = [7 \<mapsto> ex_chan_mbox], mbox_inst = [Some 7, None, None, None],
     regs = (\<lambda>_. ex_idle_page), gsem = 1, is_inited = True, pended = [], handlers = [(81, 7)],
     mapped = [4096], \<dots> = ex_vmbox\<rparr>"

definition ex_cfg :: mbox_cfg where
  "ex_cfg = \<lparr>GEN_SW_MBOX_BASE = 4096, GEN_SW_MBOX_IRQ = 81, GEN_SW_MBOX_REMOTE_IRQ = 82,
     VIRTIO_GEN_SW_MBOX_CHANNEL = 1\<rparr>"

lemma ex_idle_page_ok: "page_ok ex_idle_page"
  by (simp add: page_ok_def ex_idle_page_def MAX_CH_def)

lemma ex_vmbox_ready: "mbox_ready ex_vmbox_sys"
  by (simp add: mbox_ready_def mbox_wf_def ex_vmbox_sys_def MBOX_MAX_INST_def mbox_obj_ok_def
        ex_chan_mbox_def ex_idle_page_ok MAX_CH_def)

lemma ex_vmbox_registry: "registry ex_vmbox_sys 4096 = Some 7"
  by (simp add: registry_def gen_sw_mbox_get_instance_def ex_vmbox_sys_def ex_chan_mbox_def)

lemma ex_isr_ok: "isr_table_ok ex_isr_table"
  by (simp add: isr_table_ok_def ex_isr_table_def ISR_COUNT_def nth_Cons')

lemma ex_isr_lookup: "isr_lookup ex_isr_table 40960 = Some (Some 3, 9)"
  by (simp add: isr_lookup_Some [OF ex_isr_ok])
     (simp add: ex_isr_table_def ISR_COUNT_def exI [of _ 0])

lemma kick_reaches_isr_witness:
  "\<exists>sA' sB' sA''. mbox_kick_front ex_cfg 7 ex_vmbox_sys = Inr sA'
     \<and> gen_sw_mbox_handler mbox_dispatch 7
          (set_regs 4096 (peer_view (regs sA' 4096)) ex_vmbox_sys) = Inr sB'
     \<and> ran (mbox_sys.more sB') = [(3, 41040, 4, 9)]
     \<and> gen_sw_mbox_handler mbox_dispatch 7
          (set_regs 4096 (peer_view (regs sB' 4096)) sA') = Inr sA''
     \<and> tx_status (regs sA'' 4096) ! 1 = S_READY"
proof -
  have base: "GEN_SW_MBOX_BASE ex_cfg = 4096" by (simp add: ex_cfg_def)
  have m: "mbox_sys.more ex_vmbox_sys = ex_vmbox" "objs ex_vmbox_sys 7 = Some ex_chan_mbox"
    "regs ex_vmbox_sys 4096 = ex_idle_page"
    by (simp_all add: ex_vmbox_sys_def)
  have reg: "registry ex_vmbox_sys (GEN_SW_MBOX_BASE ex_cfg) = Some 7"
    "mmio_pa ex_chan_mbox = GEN_SW_MBOX_BASE ex_cfg"
    "ex_idle_page = regs ex_vmbox_sys (GEN_SW_MBOX_BASE ex_cfg)"
    by (simp_all add: base ex_vmbox_registry ex_chan_mbox_def m)
  have ch: "1 = unat (VIRTIO_GEN_SW_MBOX_CHANNEL ex_cfg)" "1 < MAX_CH"
    "tx_status ex_idle_page ! 1 = S_READY" "recv_cb (chan ex_chan_mbox ! 1) = Some MBOX_RECV_CB"
    by (simp_all add: ex_cfg_def MAX_CH_def ex_idle_page_def S_READY_def ex_chan_mbox_def)
  have idle: "\<forall>i < MAX_CH. i \<noteq> 1 \<longrightarrow> tx_status ex_idle_page ! i \<noteq> S_BUSY"
    "\<forall>i < MAX_CH. rx_status ex_idle_page ! i \<noteq> S_BUSY"
    by (auto simp: MAX_CH_def ex_idle_page_def S_BUSY_def less_Suc_eq numeral_eq_Suc)
  define w :: virtio_mmio_wr_ops where "w = \<lparr>mmio_base = 40960, wr_off = 80, wr_val = 1, wr_len = 4\<rparr>"
  have w: "w = wr_mem (mbox_sys.more ex_vmbox_sys) (ucast (ucast (7 :: u64) :: u32))"
    "isr_table_ok (isr_table (mbox_sys.more ex_vmbox_sys))"
    "isr_lookup (isr_table (mbox_sys.more ex_vmbox_sys)) (mmio_base w) = Some (Some 3, 9)"
    using ex_isr_ok ex_isr_lookup by (simp_all add: m ex_vmbox_def w_def)
  have out: "ran (mbox_sys.more ex_vmbox_sys) = []" "mmio_base w + ucast (wr_off w) = 41040"
    "(ucast (wr_len w) :: u32) = 4"
    by (simp_all add: m ex_vmbox_def w_def)
  show ?thesis
    using kick_reaches_isr [OF ex_vmbox_ready reg(1) m(2) ch(1,2) reg(3) ex_idle_page_ok ch(3)
        idle m(2) reg(2) ch(4) w]
    unfolding base out by auto
qed

definition empty_isr_table :: "u64 isr_info list" where
  "empty_isr_table = replicate ISR_COUNT \<lparr>event = 0, write_cb = None, isr_data = 0\<rparr>"

fun register_callbacks :: "(u64 \<times> nat option \<times> nat) list \<Rightarrow> vmbox \<Rightarrow> int list \<times> vmbox" where
  "register_callbacks [] v = ([], v)"
| "register_callbacks ((ev, fn, d) # hs) v =
     (let (r, v1) = mbox_register_callback ev fn d v;
          (rs, v2) = register_callbacks hs v1
      in (r # rs, v2))"

lemma empty_isr_table_ok:
  "isr_table_ok empty_isr_table" "isr_room empty_isr_table = ISR_COUNT"
  "isr_lookup empty_isr_table = Map.empty"
proof -
  show ok: "isr_table_ok empty_isr_table"
    by (simp add: isr_table_ok_def empty_isr_table_def)
  show "isr_room empty_isr_table = ISR_COUNT"
    by (simp add: isr_room_def empty_isr_table_def)
  show "isr_lookup empty_isr_table = Map.empty"
    by (rule ext) (simp add: isr_lookup_None [OF ok], simp add: empty_isr_table_def)
qed

lemma register_callbacks_table:
  "isr_table (snd (register_callbacks hs v)) = gen_isr.register_all hs (isr_table v)"
  "fst (register_callbacks hs v) = replicate (length hs) 0"
  by (induction hs v rule: register_callbacks.induct)
     (auto simp: mbox_register_callback_def lock_take_1ms_def lock_give_def Let_def
        split: prod.splits)

text \<open>
  Handlers registered one after the other, under different events, in an empty table of the
  virtio mailbox: exactly the first 32 are found again, each under its own event with its own
  data; every later one is lost, although each registration returns 0.
\<close>

theorem first_32_handlers_found:
  assumes "isr_table v = empty_isr_table" "distinct (map fst hs)" "0 \<notin> set (map fst hs)"
    and "i < length hs" "hs ! i = (ev, fn, d)"
  shows "fst (register_callbacks hs v) = replicate (length hs) 0
    \<and> isr_lookup (isr_table (snd (register_callbacks hs v))) ev =
      (if i < 32 then Some (fn, d) else None)"
proof -
  have "isr_lookup (isr_table (snd (register_callbacks hs v))) = map_of (take ISR_COUNT hs)"
    using gen_isr.register_all_lookup(2) [of empty_isr_table hs] assms(1-3) empty_isr_table_ok
    by (simp add: register_callbacks_table)
  moreover have "map_of (take ISR_COUNT hs) ev = (if i < 32 then Some (fn, d) else None)"
  proof (cases "i < 32")
    case True
    have "distinct (map fst (take ISR_COUNT hs))"
      using assms(2) by (simp add: take_map [symmetric] distinct_take)
    moreover have "(ev, fn, d) \<in> set (take ISR_COUNT hs)"
      using True assms(4,5) by (auto simp: in_set_conv_nth ISR_COUNT_def intro!: exI [of _ i])
    ultimately show ?thesis using True by (simp add: map_of_eq_Some_iff)
  next
    case False
    have other: "\<forall>j < 32. j < length hs \<longrightarrow> ev \<noteq> fst (hs ! j)"
    proof (intro allI impI)
      fix j :: nat assume "j < 32" "j < length hs"
      then show "ev \<noteq> fst (hs ! j)"
        using assms(2,4,5) False nth_eq_iff_index_eq [of "map fst hs" i j] by auto
    qed
    have "ev \<notin> fst ` set (take ISR_COUNT hs)"
    proof
      assume "ev \<in> fst ` set (take ISR_COUNT hs)"
      then obtain j where "j < 32" "j < length hs" "ev = fst (hs ! j)"
        by (auto simp: in_set_conv_nth ISR_COUNT_def simp del: fst_conv)
      then show False using other by blast
    qed
    then show ?thesis using False by (simp add: map_of_eq_None_iff)
  qed
  ultimately show ?thesis by (simp add: register_callbacks_table(2))
qed

lemma first_32_handlers_found_witness:
  "isr_lookup (isr_table (snd (register_callbacks [(4096, Some 1, 5), (8192, Some 2, 6)]
     (ex_vmbox\<lparr>isr_table := empty_isr_table\<rparr>)))) 8192 = Some (Some 2, 6)"
  using first_32_handlers_found [of "ex_vmbox\<lparr>isr_table := empty_isr_table\<rparr>"
      "[(4096, Some 1, 5), (8192, Some 2, 6)]" 1 8192 "Some 2" 6] by simp

fun nest :: "bool list \<Rightarrow> vmbox \<Rightarrow> vmbox outcome" where
  "nest [] v = Inr v"
| "nest (dis # ops) v =
     and_then (if dis then mbox_interrupt_disable 0 v else mbox_interrupt_enable 0 v)
       (\<lambda>(r, v'). nest ops v')"

definition irq_consistent :: "vmbox \<Rightarrow> bool" where
  "irq_consistent v \<longleftrightarrow> 0 \<le> disable_counter v \<and> (irq_enabled v \<longleftrightarrow> disable_counter v = 0)"

text \<open>
  The mailbox interrupt is a nesting lock: as long as the counter started consistent, after any
  sequence of disable and enable calls that does not fail the interrupt is on exactly when there
  were as many enables as disables, and an enable fails its assertion exactly when nothing is left
  to enable.
\<close>

theorem interrupt_disable_nests:
  assumes "irq_consistent v" "nest ops v = Inr v'"
  shows "irq_consistent v'
    \<and> disable_counter v' = disable_counter v
        + int (length (filter id ops)) - int (length (filter Not ops))
    \<and> (mbox_interrupt_enable ev v' = Inl Assert_Failed \<longleftrightarrow> irq_enabled v')"
proof -
  have main: "irq_consistent v' \<and> disable_counter v' = disable_counter v
      + int (length (filter id ops)) - int (length (filter Not ops))"
    using assms
  proof (induction ops v arbitrary: v' rule: nest.induct)
    case (2 dis ops v)
    obtain r w where w: "(if dis then mbox_interrupt_disable 0 v else mbox_interrupt_enable 0 v) = Inr (r, w)"
        "nest ops w = Inr v'"
      using 2(3) by (auto simp: outcome_simps)
    have c: "irq_consistent w"
      "disable_counter w = disable_counter v + (if dis then 1 else - 1)"
      using w(1) 2(2)
      by (auto simp: irq_consistent_def mbox_interrupt_disable_def mbox_interrupt_enable_def
            Let_def outcome_simps split: if_splits)
    show ?case using 2(1) [OF c(1) w(2)] c(2) by auto
  qed simp
  then show ?thesis
    by (auto simp: mbox_interrupt_enable_def irq_consistent_def os_assert_def Let_def)
qed

lemma interrupt_disable_nests_witness:
  "\<exists>v'. nest [True, True, False] ex_vmbox = Inr v' \<and> disable_counter v' = 1 \<and> irq_consistent v'"
proof -
  have c: "irq_consistent ex_vmbox" by (simp add: irq_consistent_def ex_vmbox_def)
  obtain v' where "nest [True, True, False] ex_vmbox = Inr v'"
    by (simp add: mbox_interrupt_disable_def mbox_interrupt_enable_def Let_def ex_vmbox_def)
  then show ?thesis
    using interrupt_disable_nests [OF c, of "[True, True, False]" v' 0] by (simp add: ex_vmbox_def)
qed

text \<open>
  The lock of the virtio mailbox does not exclude: a caller that times out while another holds
  it goes on, and its release raises the count, so that after the holder's release the count is 2
  and two later callers are inside together.
\<close>

theorem timed_out_kick_breaks_lock:
  assumes "mbox_ready s" "registry s (GEN_SW_MBOX_BASE c) = Some p" "objs s p = Some m"
    and "unat (VIRTIO_GEN_SW_MBOX_CHANNEL c) < MAX_CH"
    and "tx_status (regs s (GEN_SW_MBOX_BASE c)) ! unat (VIRTIO_GEN_SW_MBOX_CHANNEL c) = S_READY"
    and held: "mbox_lock (mbox_sys.more s) = 0"
  shows "\<exists>s'. mbox_kick_front c ev s = Inr s' \<and> mbox_lock (lock_give (mbox_sys.more s')) = 2"
  using kick_steps [OF assms(1-5), of ev] held by (auto simp: lock_give_def)

lemma timed_out_kick_breaks_lock_witness:
  "\<exists>s'. mbox_kick_front ex_cfg 7 (on_client (\<lambda>v. v\<lparr>mbox_lock := 0\<rparr>) ex_vmbox_sys) = Inr s'
     \<and> mbox_lock (lock_give (mbox_sys.more s')) = 2"
proof (rule timed_out_kick_breaks_lock)
  let ?s = "on_client (\<lambda>v. v\<lparr>mbox_lock := 0\<rparr>) ex_vmbox_sys"
  show "mbox_ready ?s" using ex_vmbox_ready ready_cong(1) [of ?s ex_vmbox_sys] by simp
  show "registry ?s (GEN_SW_MBOX_BASE ex_cfg) = Some 7"
    using ex_vmbox_registry ready_cong(2) [of ?s ex_vmbox_sys] by (simp add: ex_cfg_def)
qed (simp_all add: ex_vmbox_sys_def ex_idle_page_def ex_cfg_def MAX_CH_def S_READY_def)

end
