(* ===== verification/Stats.thy ===== *)
theory Stats
  imports Prelude
begin


text \<open>
  The sample statistics and histograms of the latency benchmarks, \<open>src/libs/stats/stats.c\<close>.

  Signed fields are integers, and every signed operation that the C standard leaves undefined on
  overflow is checked against its type; unsigned fields are words. The callback and the printing
  functions only write to the log: a call of the callback is recorded as the snapshot it sees.
\<close>

subsection \<open>Sample statistics\<close>

record snapshot =
  sn_min :: int
  sn_max :: int
  sn_mean :: int
  sn_ms :: u64
  sn_variance :: u64

record stats =
  log2_size :: u32
  current_count :: u32
  current_min :: int
  current_max :: int
  current_mean :: int
  current_ms :: u64
  snap :: snapshot
  abs_min :: int
  abs_max :: int
  has_func :: bool
  reported :: "snapshot list"

definition INT_MIN_INIT :: int where "INT_MIN_INIT = 0x7fffffff"
definition INT_MAX_INIT :: int where "INT_MAX_INIT = - 0x7fffffff"

definition stats_reset :: "stats \<Rightarrow> stats" where
  "stats_reset s =
     s\<lparr>current_count := 0, current_min := INT_MIN_INIT, current_max := INT_MAX_INIT,
       current_mean := 0, current_ms := 0\<rparr>"

definition stats_init :: "u32 \<Rightarrow> bool \<Rightarrow> stats \<Rightarrow> stats" where
  "stats_init n func s =
     stats_reset (s\<lparr>log2_size := n, has_func := func, abs_min := INT_MIN_INIT,
                    abs_max := INT_MAX_INIT\<rparr>)"

definition note_min :: "int \<Rightarrow> stats \<Rightarrow> stats" where
  "note_min v s =
     (if v < current_min s
      then s\<lparr>current_min := v, abs_min := (if v < abs_min s then v else abs_min s)\<rparr>
      else s)"

definition note_max :: "int \<Rightarrow> stats \<Rightarrow> stats" where
  "note_max v s =
     (if current_max s < v
      then s\<lparr>current_max := v, abs_max := (if abs_max s < v then v else abs_max s)\<rparr>
      else s)"

text \<open>The computation of the indicators at the end of a set.\<close>

definition take_snapshot :: "stats \<Rightarrow> stats outcome" where
  "take_snapshot s =
     (let n = unat (log2_size s); ms = drop_bit n (current_ms s)
      in i64 (current_mean s * current_mean s) (\<lambda>sq.
         (let s1 = s\<lparr>snap := \<lparr>sn_min = current_min s, sn_max = current_max s,
                       sn_mean = to_i32 (current_mean s div 2 ^ n), sn_ms = ms,
                       sn_variance = ms - of_int (sq div 2 ^ (2 * n))\<rparr>\<rparr>
          in Inr (stats_reset
               (if has_func s1 then s1\<lparr>reported := reported s1 @ [snap s1]\<rparr> else s1)))))"

definition stats_update :: "int \<Rightarrow> stats \<Rightarrow> stats outcome" where
  "stats_update v s =
     i64 (current_mean s + v) (\<lambda>mean.
     i64 (v * v) (\<lambda>sq.
     (let s1 = s\<lparr>current_count := current_count s + 1, current_mean := mean,
                 current_ms := current_ms s + of_int sq\<rparr>;
          s2 = note_max v (note_min v s1)
      in if unat (log2_size s2) < 32
         then if current_count s2 = push_bit (unat (log2_size s2)) 1
              then take_snapshot s2 else Inr s2
         else Inl Bad_Shift)))"

definition stats_compute :: "stats \<Rightarrow> stats outcome" where
  "stats_compute s =
     (if current_count s \<noteq> 0 then
        (let n = int (unat (current_count s)); ms = current_ms s div ucast (current_count s)
         in i64 (current_mean s * current_mean s) (\<lambda>sq.
            i64 (n * n) (\<lambda>nn.
            Inr (s\<lparr>snap := \<lparr>sn_min = current_min s, sn_max = current_max s,
                      sn_mean = to_i32 (c_div (current_mean s) n), sn_ms = ms,
                      sn_variance = ms - of_int (c_div sq nn)\<rparr>\<rparr>))))
      else Inr (s\<lparr>snap := \<lparr>sn_min = current_min s, sn_max = current_max s, sn_mean = 0,
                      sn_ms = 0, sn_variance = 0\<rparr>\<rparr>))"

fun update_all :: "int list \<Rightarrow> stats \<Rightarrow> stats outcome" where
  "update_all [] s = Inr s"
| "update_all (v # vs) s = and_then (stats_update v s) (update_all vs)"

subsection \<open>Histograms\<close>

text \<open>
  The fields \<open>n_slots\<close> and \<open>slot_size\<close> are \<open>int\<close>; \<open>hist_update\<close> compares and divides them as
  unsigned numbers, \<open>hist_reset\<close> and \<open>hist_print\<close> count up to \<open>n_slots\<close> inclusive.
\<close>

definition MAX_SLOTS :: nat where "MAX_SLOTS = 256"

record hist =
  slots :: "u32 list"
  n_slots :: u32
  slot_size :: u32

definition hist_init :: "u32 \<Rightarrow> u32 \<Rightarrow> hist \<Rightarrow> int \<times> hist" where
  "hist_init n sz h =
     (if of_nat MAX_SLOTS < n + 1 then (- 1, h)
      else (0, h\<lparr>n_slots := n + 1, slot_size := sz\<rparr>))"

definition hist_slot :: "u32 \<Rightarrow> hist \<Rightarrow> u32" where
  "hist_slot v h =
     (let slot = v div slot_size h in if n_slots h \<le> slot then n_slots h - 1 else slot)"

definition hist_update :: "u32 \<Rightarrow> hist \<Rightarrow> hist outcome" where
  "hist_update v h =
     (if slot_size h = 0 then Inl Div_By_Zero
      else
        (let i = unat (hist_slot v h)
         in and_then (arr_get (slots h) i) (\<lambda>x.
            and_then (arr_set (slots h) i (x + 1)) (\<lambda>xs. Inr (h\<lparr>slots := xs\<rparr>)))))"

fun clear_slots :: "nat \<Rightarrow> u32 list \<Rightarrow> u32 list outcome" where
  "clear_slots 0 xs = Inr xs"
| "clear_slots (Suc n) xs = and_then (clear_slots n xs) (\<lambda>ys. arr_set ys n 0)"

definition hist_reset :: "hist \<Rightarrow> hist outcome" where
  "hist_reset h =
     and_then (clear_slots (unat (n_slots h) + 1) (slots h)) (\<lambda>xs. Inr (h\<lparr>slots := xs\<rparr>))"

fun read_slots :: "nat \<Rightarrow> u32 list \<Rightarrow> u32 list outcome" where
  "read_slots 0 xs = Inr []"
| "read_slots (Suc n) xs =
     and_then (read_slots n xs) (\<lambda>ys. and_then (arr_get xs n) (\<lambda>y. Inr (ys @ [y])))"

definition hist_print :: "hist \<Rightarrow> u32 list outcome" where
  "hist_print h = read_slots (unat (n_slots h) + 1) (slots h)"

fun hist_all :: "u32 list \<Rightarrow> hist \<Rightarrow> hist outcome" where
  "hist_all [] h = Inr h"
| "hist_all (v # vs) h = and_then (hist_update v h) (hist_all vs)"

subsection \<open>A full set of samples\<close>

definition sq_sum :: "int list \<Rightarrow> int" where
  "sq_sum vs = sum_list (map (\<lambda>v. v * v) vs)"

lemma sq_sum_simps [simp]:
  "sq_sum [] = 0" "sq_sum (vs @ [v]) = sq_sum vs + v * v" "0 \<le> sq_sum vs"
proof -
  show "0 \<le> sq_sum vs" by (induction vs) (simp_all add: sq_sum_def)
qed (simp_all add: sq_sum_def)

text \<open>The square of the sum is at most the count times the sum of the squares.\<close>

lemma sum_sq_le: "sum_list vs * sum_list vs \<le> int (length vs) * sq_sum vs"
proof (induction vs rule: rev_induct)
  case (snoc v vs)
  define S Q n where "S = sum_list vs" and "Q = sq_sum vs" and "n = int (length vs)"
  have ih: "S * S \<le> n * Q" using snoc by (simp add: S_def Q_def n_def)
  have "0 \<le> n * (v * v) + Q - 2 * S * v"
  proof (cases "n = 0")
    case True
    then have "S = 0" "Q = 0" by (simp_all add: n_def S_def Q_def sq_sum_def)
    then show ?thesis by (simp add: True)
  next
    case False
    then have n: "0 < n" by (simp add: n_def)
    have "n * (n * (v * v) + Q - 2 * S * v) = (n * v - S) * (n * v - S) + (n * Q - S * S)"
      by (simp add: algebra_simps)
    moreover have "0 \<le> (n * v - S) * (n * v - S)" by simp
    ultimately have "0 \<le> n * (n * (v * v) + Q - 2 * S * v)" using ih by simp
    then show ?thesis using n by (simp add: zero_le_mult_iff)
  qed
  then have "(S + v) * (S + v) \<le> (n + 1) * (Q + v * v)"
    using ih by (simp add: algebra_simps)
  then show ?case by (simp add: S_def Q_def n_def add.commute)
qed simp

definition samples :: "int list \<Rightarrow> bool" where
  "samples vs \<longleftrightarrow> (\<forall>v \<in> set vs. - (2 ^ 31) \<le> v \<and> v < 2 ^ 31)"

lemma samples_sum: "samples vs \<Longrightarrow> \<bar>sum_list vs\<bar> \<le> int (length vs) * 2 ^ 31"
  by (induction vs) (auto simp: samples_def algebra_simps)

definition accumulate :: "int list \<Rightarrow> stats \<Rightarrow> stats" where
  "accumulate vs s =
     s\<lparr>current_count := of_nat (length vs), current_mean := sum_list vs,
       current_ms := of_int (sq_sum vs),
       current_min := fold min vs INT_MIN_INIT, current_max := fold max vs INT_MAX_INIT,
       abs_min := fold min vs (abs_min s), abs_max := fold max vs (abs_max s)\<rparr>"

definition abs_ok :: "stats \<Rightarrow> bool" where
  "abs_ok s \<longleftrightarrow> abs_min s \<le> INT_MIN_INIT \<and> INT_MAX_INIT \<le> abs_max s"

lemma accumulate_Nil: "accumulate [] s = stats_reset s"
  by (simp add: accumulate_def stats_reset_def)

lemma fold_min_mono: "a \<le> b \<Longrightarrow> fold min vs a \<le> fold min vs (b :: int)"
  by (induction vs arbitrary: a b) (simp_all add: min.mono)

lemma fold_max_mono: "a \<le> b \<Longrightarrow> fold max vs a \<le> fold max vs (b :: int)"
  by (induction vs arbitrary: a b) (simp_all add: max.mono)

text \<open>One more sample, up to the test for the end of the set.\<close>

lemma note_accumulate:
  assumes "abs_ok s"
  shows "note_max v (note_min v ((accumulate vs s)
       \<lparr>current_count := of_nat (length vs) + 1, current_mean := sum_list vs + v,
        current_ms := of_int (sq_sum vs) + of_int (v * v)\<rparr>)) = accumulate (vs @ [v]) s"
proof -
  have "fold min vs (abs_min s) \<le> fold min vs INT_MIN_INIT"
    "fold max vs INT_MAX_INIT \<le> fold max vs (abs_max s)"
    using assms by (auto simp: abs_ok_def intro: fold_min_mono fold_max_mono)
  then show ?thesis
    by (intro stats.equality)
       (auto simp: note_min_def note_max_def accumulate_def min_def max_def)
qed

lemma update_accumulate:
  assumes s: "abs_ok s" "unat (log2_size s) < 32" and vs: "samples (vs @ [v])"
    and len: "length vs < 2 ^ unat (log2_size s)"
  shows "stats_update v (accumulate vs s) =
    (if Suc (length vs) = 2 ^ unat (log2_size s) then take_snapshot (accumulate (vs @ [v]) s)
     else Inr (accumulate (vs @ [v]) s))"
proof -
  let ?k = "unat (log2_size s)"
  have k: "(2 :: nat) ^ ?k \<le> 2 ^ 31" using power_increasing [of ?k 31 "2 :: nat"] s(2) by simp
  have "Suc (length vs) \<le> 2147483648" using len k by simp
  then have "int (Suc (length vs)) * 2 ^ 31 \<le> 2 ^ 31 * 2 ^ 31"
    by (intro mult_right_mono) simp_all
  then have "\<bar>sum_list (vs @ [v])\<bar> \<le> 2 ^ 31 * 2 ^ 31"
    using samples_sum [OF vs] by simp
  then have sum: "in_i64 (sum_list vs + v)" by (auto simp: in_i64_def abs_le_iff)
  have "v * v \<le> 2 ^ 31 * 2 ^ 31"
    using vs abs_le_square_iff [of v "2 ^ 31"] by (auto simp: samples_def power2_eq_square abs_le_iff)
  then have sq: "in_i64 (v * v)" by (simp add: in_i64_def order_trans [OF _ zero_le_square])
  have "unat (of_nat (Suc (length vs)) :: u32) = Suc (length vs)"
    using len k by (intro unat_of_nat_below) simp
  moreover have "unat (push_bit ?k (1 :: u32)) = 2 ^ ?k"
    using unat_of_nat_below [of "2 ^ ?k"] k by (simp add: push_bit_eq_mult)
  ultimately have "(of_nat (Suc (length vs)) :: u32) = push_bit ?k 1 \<longleftrightarrow> Suc (length vs) = 2 ^ ?k"
    by (metis unsigned_word_eqI)
  moreover have "log2_size (accumulate (vs @ [v]) s) = log2_size s"
    "current_count (accumulate (vs @ [v]) s) = of_nat (Suc (length vs))"
    by (simp_all add: accumulate_def)
  moreover have "current_count (accumulate vs s) = of_nat (length vs)"
    "current_mean (accumulate vs s) = sum_list vs"
    "current_ms (accumulate vs s) = of_int (sq_sum vs)"
    by (simp_all add: accumulate_def)
  ultimately show ?thesis
    using sum sq s(2) note_accumulate [OF s(1), of v vs]
    by (simp add: stats_update_def Let_def add.commute)
qed

lemma update_all_append: "update_all (vs @ ws) s = and_then (update_all vs s) (update_all ws)"
proof (induction vs arbitrary: s)
  case (Cons v vs)
  then show ?case by (cases "stats_update v s") simp_all
qed simp

lemma update_all_accumulate:
  assumes "abs_ok s" "unat (log2_size s) < 32" "samples vs" "length vs < 2 ^ unat (log2_size s)"
  shows "update_all vs (stats_reset s) = Inr (accumulate vs s)"
  using assms(3,4)
proof (induction vs rule: rev_induct)
  case (snoc v vs)
  then have "update_all vs (stats_reset s) = Inr (accumulate vs s)"
    by (simp add: samples_def)
  then show ?case
    using snoc.prems update_accumulate [OF assms(1,2) snoc.prems(1)]
    by (simp add: update_all_append)
qed (simp add: accumulate_Nil)

lemma update_all_full:
  assumes "abs_ok s" "unat (log2_size s) < 32" "samples vs" "length vs = 2 ^ unat (log2_size s)"
  shows "update_all vs (stats_reset s) = take_snapshot (accumulate vs s)"
proof -
  obtain ws v where vs: "vs = ws @ [v]" using assms(4) by (cases vs rule: rev_cases) simp_all
  have "update_all ws (stats_reset s) = Inr (accumulate ws s)"
    using assms vs by (intro update_all_accumulate) (simp_all add: samples_def)
  then show ?thesis
    using update_accumulate [OF assms(1,2), of ws v] assms(3,4)
    by (cases "take_snapshot (accumulate (ws @ [v]) s)") (simp_all add: vs update_all_append)
qed

lemma fold_min_Min:
  assumes "vs \<noteq> []" "\<forall>v \<in> set vs. v \<le> a"
  shows "fold min vs a = Min (set vs :: int set)"
proof -
  have "Min (set vs) \<le> a"
    using assms Min_in [of "set vs"] by auto
  then show ?thesis
    using assms(1) Min.set_eq_fold [of a vs] by (simp add: min_absorb2)
qed

lemma fold_max_Max:
  assumes "vs \<noteq> []" "\<forall>v \<in> set vs. a \<le> v"
  shows "fold max vs a = Max (set vs :: int set)"
proof -
  have "a \<le> Max (set vs)"
    using assms Max_in [of "set vs"] by auto
  then show ?thesis
    using assms(1) Max.set_eq_fold [of a vs] by (simp add: max_absorb2)
qed

text \<open>The maximum starts at -2^31 + 1, which is above the smallest sample.\<close>

lemma fold_max_samples:
  assumes "vs \<noteq> []" "samples vs"
  shows "fold max vs INT_MAX_INIT = (if \<forall>v \<in> set vs. v = - (2 ^ 31) then - (2 ^ 31) + 1 else Max (set vs))"
proof (cases "\<forall>v \<in> set vs. v = - (2 ^ 31)")
  case True
  then have "fold max vs INT_MAX_INIT = INT_MAX_INIT" by (induction vs) (simp_all add: INT_MAX_INIT_def)
  then show ?thesis using True by (simp add: INT_MAX_INIT_def)
next
  case False
  then obtain v where v: "v \<in> set vs" "v \<noteq> - (2 ^ 31)" by blast
  then have "INT_MAX_INIT \<le> v" using assms(2) by (force simp: samples_def INT_MAX_INIT_def)
  moreover have "v \<le> Max (set vs)" using v(1) by simp
  ultimately have "INT_MAX_INIT \<le> Max (set vs)" by linarith
  then show ?thesis
    unfolding if_not_P [OF False] using assms(1) Max.set_eq_fold [of INT_MAX_INIT vs] by (simp add: max_absorb2)
qed

lemma sum_samples:
  assumes "samples vs"
  shows "sum_list vs \<le> int (length vs) * (2 ^ 31 - 1)" "- (int (length vs) * 2 ^ 31) \<le> sum_list vs"
  using assms by (induction vs) (auto simp: samples_def algebra_simps)

lemma div_pow_i32:
  assumes "samples vs" "length vs = 2 ^ k"
  shows "in_i32 (sum_list vs div 2 ^ k)"
proof -
  have "sum_list vs div 2 ^ k \<le> (2 ^ k * (2 ^ 31 - 1)) div 2 ^ k"
    using sum_samples(1) [OF assms(1)] assms(2) by (intro zdiv_mono1) simp_all
  moreover have "(2 ^ k * - (2 ^ 31)) div 2 ^ k \<le> sum_list vs div (2 ^ k :: int)"
    using sum_samples(2) [OF assms(1)] assms(2) by (intro zdiv_mono1) simp_all
  moreover have "(2 ^ k * - (2 ^ 31)) div 2 ^ k = - (2 ^ 31 :: int)"
    by (rule nonzero_mult_div_cancel_left) simp
  ultimately show ?thesis by (simp only: in_i32_def) simp
qed

lemma take_snapshot_full:
  assumes "unat (log2_size s) = k" "in_i64 (sum_list vs * sum_list vs)" "sq_sum vs < 2 ^ 64"
    and "samples vs" "length vs = 2 ^ k"
  shows "\<exists>s'. take_snapshot (accumulate vs s) = Inr s'
     \<and> sn_min (snap s') = fold min vs INT_MIN_INIT \<and> sn_max (snap s') = fold max vs INT_MAX_INIT
     \<and> sn_mean (snap s') = sum_list vs div 2 ^ k
     \<and> uint (sn_ms (snap s')) = sq_sum vs div 2 ^ k
     \<and> uint (sn_variance (snap s')) =
         sq_sum vs div 2 ^ k - (sum_list vs * sum_list vs) div 2 ^ (2 * k)
     \<and> stats_reset s' = s' \<and> abs_min s' = fold min vs (abs_min s)
     \<and> abs_max s' = fold max vs (abs_max s)"
proof -
  let ?sq = "sum_list vs * sum_list vs"
  let ?ms = "drop_bit k (of_int (sq_sum vs) :: u64)"
  have "uint (of_int (sq_sum vs) :: u64) = sq_sum vs"
    using assms(3) by (simp add: uint_word_of_int_eq take_bit_int_eq_self)
  then have ms: "uint ?ms = sq_sum vs div 2 ^ k"
    by (simp only: drop_bit_eq_div [symmetric] unsigned_drop_bit_eq) 
       (use assms(3) in \<open>simp add: drop_bit_eq_div take_bit_int_eq_self\<close>)
  have "?sq div 2 ^ (2 * k) \<le> (2 ^ k * sq_sum vs) div 2 ^ (2 * k)"
    using sum_sq_le [of vs] assms(5) by (intro zdiv_mono1) simp_all
  also have "\<dots> = sq_sum vs div 2 ^ k"
    by (simp add: power_mult power2_eq_square div_mult_mult1 mult_2 power_add)
  finally have le: "?sq div 2 ^ (2 * k) \<le> sq_sum vs div 2 ^ k" .
  have pos: "0 \<le> ?sq div 2 ^ (2 * k)" by (simp add: pos_imp_zdiv_nonneg_iff)
  have "uint (?ms - of_int (?sq div 2 ^ (2 * k))) = (uint ?ms - ?sq div 2 ^ (2 * k)) mod 2 ^ 64"
    by (simp add: uint_word_arith_bintrs take_bit_eq_mod mod_simps uint_word_of_int_eq)
  also have "\<dots> = uint ?ms - ?sq div 2 ^ (2 * k)"
  proof (rule mod_pos_pos_trivial)
    show "0 \<le> uint ?ms - ?sq div 2 ^ (2 * k)" using ms le by simp
    show "uint ?ms - ?sq div 2 ^ (2 * k) < 2 ^ 64"
      using pos unsigned_less [of ?ms, where ?'a = int] by simp
  qed
  finally have var: "uint (?ms - of_int (?sq div 2 ^ (2 * k))) =
      sq_sum vs div 2 ^ k - ?sq div 2 ^ (2 * k)" using ms by simp
  show ?thesis
    using assms(1,2) ms var to_i32_id [OF div_pow_i32 [OF assms(4,5)]]
    by (simp add: take_snapshot_def accumulate_def Let_def stats_reset_def)
qed

text \<open>
  C21: A full set of samples yields its exact statistics. After 2^k samples of 32 bits, the
  smallest one included (k below 32, the square of their sum within 63 bits, the sum of their
  squares within 64), no intermediate operation overflows and the published snapshot holds their
  minimum, their maximum (but -2^31 + 1 for a set of samples that are all -2^31, see
  \<open>smallest_sample_maximum\<close>), the floor of their mean, the floor of their mean
  square, and a variance that is the mean square less the square of the mean, never negative;
  the accumulators are reset for the next set and the absolute extrema, which start as
  \<open>stats_init\<close> sets them or beyond, take the new samples in.
\<close>

theorem stats_full_set:
  assumes "abs_ok s" "unat (log2_size s) = k" "k < 32" "samples vs" "length vs = 2 ^ k"
    and "sum_list vs * sum_list vs < 2 ^ 63" "sq_sum vs < 2 ^ 64"
  shows "\<exists>s'. update_all vs (stats_reset s) = Inr s'
     \<and> sn_min (snap s') = Min (set vs)
     \<and> sn_max (snap s') = (if \<forall>v \<in> set vs. v = - (2 ^ 31) then - (2 ^ 31) + 1 else Max (set vs))
     \<and> sn_mean (snap s') = sum_list vs div 2 ^ k
     \<and> uint (sn_ms (snap s')) = sq_sum vs div 2 ^ k
     \<and> uint (sn_variance (snap s')) =
         sq_sum vs div 2 ^ k - (sum_list vs * sum_list vs) div 2 ^ (2 * k)
     \<and> stats_reset s' = s'
     \<and> abs_min s' = Min (insert (abs_min s) (set vs)) \<and> abs_max s' = Max (insert (abs_max s) (set vs))"
proof -
  have ne: "vs \<noteq> []" using assms(5) by auto
  have "fold min vs INT_MIN_INIT = Min (set vs)"
    using assms(4) ne by (auto simp: samples_def INT_MIN_INIT_def intro!: fold_min_Min)
  moreover note fold_max_samples [OF ne assms(4)]
  moreover have "in_i64 (sum_list vs * sum_list vs)"
    using assms(6) by (simp add: in_i64_def order_trans [OF _ zero_le_square])
  ultimately show ?thesis
    using take_snapshot_full [OF assms(2) _ assms(7,4,5)] update_all_full [OF assms(1) _ assms(4)]
      assms(2,3,5) Min.set_eq_fold [of "abs_min s" vs] Max.set_eq_fold [of "abs_max s" vs]
    by simp
qed

definition ex_stats :: stats where
  "ex_stats = \<lparr>log2_size = 2, current_count = 0, current_min = 0, current_max = 0,
     current_mean = 0, current_ms = 0,
     snap = \<lparr>sn_min = 0, sn_max = 0, sn_mean = 0, sn_ms = 0, sn_variance = 0\<rparr>,
     abs_min = INT_MIN_INIT, abs_max = INT_MAX_INIT, has_func = False, reported = []\<rparr>"

text \<open>The smallest sample alone: the published maximum is one too large.\<close>

lemma smallest_sample_maximum:
  "\<exists>s'. update_all [- (2 ^ 31)] (stats_reset (ex_stats\<lparr>log2_size := 0\<rparr>)) = Inr s' \<and> sn_max (snap s') = - (2 ^ 31) + 1"
proof -
  let ?s = "ex_stats\<lparr>log2_size := 0\<rparr>"
  have "abs_ok ?s" "samples [- (2 ^ 31)]" by (simp_all add: ex_stats_def abs_ok_def samples_def)
  moreover have "in_i64 ((- (2 ^ 31)) * (- (2 ^ 31)))" by (simp add: in_i64_def)
  ultimately show ?thesis
    using update_all_full [of ?s "[- (2 ^ 31)]"] take_snapshot_full [of ?s 0 "[- (2 ^ 31)]"]
    by (auto simp: ex_stats_def sq_sum_def INT_MAX_INIT_def)
qed

lemma stats_full_set_witness:
  "\<exists>s'. update_all [3, -5, 8, 2] (stats_reset ex_stats) = Inr s'
     \<and> sn_min (snap s') = - 5 \<and> sn_max (snap s') = 8 \<and> sn_mean (snap s') = 2
     \<and> uint (sn_variance (snap s')) = 21"
  using stats_full_set [of ex_stats 2 "[3, -5, 8, 2]"]
  by (auto simp: ex_stats_def abs_ok_def samples_def sq_sum_def)

text \<open>
  The variance needs the square of the sum of a set in 63 bits: once the sum of a full set
  reaches about 3.04 * 10^9 in absolute value, its squaring overflows a signed 64-bit
  multiplication, although every accumulator still fits its type.
\<close>

theorem stats_variance_overflows:
  assumes "abs_ok s" "unat (log2_size s) = k" "k < 32" "samples vs" "length vs = 2 ^ k"
    and "2 ^ 63 \<le> sum_list vs * sum_list vs"
  shows "update_all vs (stats_reset s) = Inl Overflow"
proof -
  have "\<not> in_i64 (sum_list vs * sum_list vs)"
    using assms(6) by (simp add: in_i64_def)
  then have "take_snapshot (accumulate vs s) = Inl Overflow"
    by (simp add: take_snapshot_def accumulate_def Let_def)
  then show ?thesis
    using update_all_full [OF assms(1) _ assms(4)] assms(2,3,5) by simp
qed

lemma stats_variance_overflows_witness:
  "update_all [2000000000, 2000000000] (stats_reset (ex_stats\<lparr>log2_size := 1\<rparr>)) = Inl Overflow"
  by (rule stats_variance_overflows [where k = 1])
     (simp_all add: ex_stats_def abs_ok_def samples_def)

text \<open>
  Computing the statistics of an unfinished set agrees with the full set's on the extrema and the
  mean square; the means differ in rounding, towards zero here and down there.
\<close>

lemma compute_partial:
  assumes "abs_ok s" "unat (log2_size s) < 32" "samples vs" "0 < length vs"
    and "length vs < 2 ^ unat (log2_size s)"
    and "sum_list vs * sum_list vs < 2 ^ 63" "sq_sum vs < 2 ^ 64"
  shows "\<exists>s'. and_then (update_all vs (stats_reset s)) stats_compute = Inr s'
     \<and> sn_min (snap s') = fold min vs INT_MIN_INIT \<and> sn_max (snap s') = fold max vs INT_MAX_INIT
     \<and> sn_mean (snap s') = to_i32 (c_div (sum_list vs) (int (length vs)))
     \<and> uint (sn_ms (snap s')) = sq_sum vs div int (length vs)"
proof -
  have k: "(2 :: nat) ^ unat (log2_size s) \<le> 2 ^ 31"
    using power_increasing [of "unat (log2_size s)" 31 "2 :: nat"] assms(2) by simp
  then have n: "unat (of_nat (length vs) :: u32) = length vs" "length vs < 2147483648"
    using assms(5) by simp_all
  then have nz: "(of_nat (length vs) :: u32) \<noteq> 0" using assms(4) by (metis less_numeral_extra(3) unat_0)
  have "int (length vs) * int (length vs) \<le> 2 ^ 31 * 2 ^ 31"
    using n by (intro mult_mono) simp_all
  then have nn: "in_i64 (int (length vs) * int (length vs))"
    by (simp add: in_i64_def order_trans [OF _ zero_le_square])
  have sq: "in_i64 (sum_list vs * sum_list vs)"
    using assms(6) by (simp add: in_i64_def order_trans [OF _ zero_le_square])
  have "uint (of_int (sq_sum vs) :: u64) = sq_sum vs"
    using assms(7) by (simp add: uint_word_of_int_eq take_bit_int_eq_self)
  moreover have "uint (ucast (of_nat (length vs) :: u32) :: u64) = int (length vs)"
    unfolding uint_nat unat_ucast_32_64 n(1) ..
  ultimately have "uint (of_int (sq_sum vs) div ucast (of_nat (length vs) :: u32) :: u64) =
      sq_sum vs div int (length vs)"
    by (simp only: uint_div)
  then show ?thesis
    using update_all_accumulate [OF assms(1-3,5)] n nz nn sq
    by (simp add: stats_compute_def accumulate_def Let_def)
qed

subsection \<open>Histograms\<close>

lemma arr_update_nth:
  "i < length xs \<Longrightarrow> and_then (arr_get xs i) (\<lambda>x. arr_set xs i (x + 1)) = Inr (xs[i := xs ! i + 1])"
  by simp

definition bucket :: "u32 \<Rightarrow> hist \<Rightarrow> nat" where
  "bucket v h = min (unat v div unat (slot_size h)) (unat (n_slots h) - 1)"

lemma hist_slot_bucket:
  assumes "n_slots h \<noteq> 0"
  shows "unat (hist_slot v h) = bucket v h"
proof -
  have "unat (n_slots h - 1) = unat (n_slots h) - 1"
    using assms by (simp add: unat_minus_one)
  moreover have "unat (v div slot_size h) = unat v div unat (slot_size h)"
    by (rule unat_div)
  moreover have "0 < unat (n_slots h)" using assms unat_gt_0 by blast
  ultimately show ?thesis
    by (simp add: hist_slot_def bucket_def Let_def word_le_nat_alt min_def)
qed

definition hist_ok :: "hist \<Rightarrow> bool" where
  "hist_ok h \<longleftrightarrow> length (slots h) = MAX_SLOTS \<and> n_slots h \<noteq> 0 \<and> unat (n_slots h) \<le> MAX_SLOTS
     \<and> slot_size h \<noteq> 0"

lemma bucket_lt: "hist_ok h \<Longrightarrow> bucket v h < unat (n_slots h)"
  using unat_gt_0 [of "n_slots h"] by (auto simp: bucket_def hist_ok_def)

lemma hist_update_ok:
  assumes "hist_ok h"
  shows "hist_update v h =
    Inr (h\<lparr>slots := (slots h)[bucket v h := slots h ! bucket v h + 1]\<rparr>)"
  using assms bucket_lt [OF assms, of v]
  by (simp add: hist_update_def hist_ok_def hist_slot_bucket Let_def)

lemma hist_all_counts:
  assumes "hist_ok h"
  shows "\<exists>h'. hist_all vs h = Inr h' \<and> hist_ok h' \<and> n_slots h' = n_slots h \<and> slot_size h' = slot_size h
     \<and> (\<forall>j < MAX_SLOTS. slots h' ! j =
          slots h ! j + of_nat (length (filter (\<lambda>v. bucket v h = j) vs)))"
  using assms
proof (induction vs arbitrary: h)
  case (Cons v vs)
  define h1 where "h1 = h\<lparr>slots := (slots h)[bucket v h := slots h ! bucket v h + 1]\<rparr>"
  have ok1: "hist_ok h1" using Cons.prems by (simp add: hist_ok_def h1_def)
  have b: "bucket w h1 = bucket w h" for w by (simp add: bucket_def h1_def)
  obtain h' where h': "hist_all vs h1 = Inr h'" "hist_ok h'" "n_slots h' = n_slots h1"
      "slot_size h' = slot_size h1"
      "\<forall>j < MAX_SLOTS. slots h' ! j = slots h1 ! j + of_nat (length (filter (\<lambda>v. bucket v h1 = j) vs))"
    using Cons.IH [OF ok1] by blast
  have "slots h1 ! j = slots h ! j + (if bucket v h = j then 1 else 0)" if "j < MAX_SLOTS" for j
    using that Cons.prems by (simp add: h1_def hist_ok_def nth_list_update)
  then show ?case
    using h' hist_update_ok [OF Cons.prems, of v]
    by (intro exI [of _ h']) (simp add: h1_def [symmetric] b, simp add: h1_def)
qed simp

text \<open>
  A histogram of n ordinary slots counts every value once: after \<open>hist_init\<close> and any sequence
  of updates, slot j has grown, modulo 2^32, by the number of values in its interval, and the extra
  slot n by the number of all larger values; no update leaves the array.
\<close>

theorem histogram_counts:
  assumes "unat n < MAX_SLOTS" "sz \<noteq> 0" "length (slots h) = MAX_SLOTS"
    and "hist_init n sz h = (r, h0)"
  shows "r = 0 \<and> (\<exists>h'. hist_all vs h0 = Inr h' \<and> length (slots h') = MAX_SLOTS
     \<and> (\<forall>j < unat n. slots h' ! j = slots h ! j
          + of_nat (length (filter (\<lambda>v. unat v div unat sz = j) vs)))
     \<and> slots h' ! unat n = slots h ! unat n
          + of_nat (length (filter (\<lambda>v. unat n \<le> unat v div unat sz) vs)))"
proof -
  have n1: "unat (n + 1) = Suc (unat n)"
    using assms(1) by (intro unat_Suc_lt) (simp add: MAX_SLOTS_def)
  then have "\<not> of_nat MAX_SLOTS < n + 1"
    using assms(1) by (simp add: word_less_nat_alt MAX_SLOTS_def)
  then have init: "r = 0" "h0 = h\<lparr>n_slots := n + 1, slot_size := sz\<rparr>"
    using assms(4) by (simp_all add: hist_init_def)
  have "n + 1 \<noteq> 0" using n1 by (metis nat.distinct(1) unat_0)
  then have ok: "hist_ok h0" using n1 assms(1-3) by (simp add: hist_ok_def init(2))
  have b: "bucket v h0 = min (unat v div unat sz) (unat n)" for v
    by (simp add: bucket_def init(2) n1)
  obtain h' where "hist_all vs h0 = Inr h'" "hist_ok h'"
      "\<forall>j < MAX_SLOTS. slots h' ! j = slots h ! j + of_nat (length (filter (\<lambda>v. bucket v h0 = j) vs))"
    using hist_all_counts [OF ok, of vs] by (auto simp: init(2))
  moreover have "bucket v h0 = j \<longleftrightarrow> unat v div unat sz = j" if "j < unat n" for v j
    using that by (auto simp: b min_def)
  moreover have "bucket v h0 = unat n \<longleftrightarrow> unat n \<le> unat v div unat sz" for v
    by (auto simp: b min_def)
  ultimately show ?thesis using init(1) assms(1) by (auto simp: hist_ok_def)
qed

definition ex_hist :: hist where
  "ex_hist = \<lparr>slots = replicate MAX_SLOTS 0, n_slots = 0, slot_size = 0\<rparr>"

lemma histogram_counts_witness:
  "\<exists>h'. hist_all [5, 1500, 999, 70000] (snd (hist_init 2 1000 ex_hist)) = Inr h'
     \<and> slots h' ! 0 = 2 \<and> slots h' ! 1 = 1 \<and> slots h' ! 2 = 1"
  using histogram_counts [of 2 1000 ex_hist "fst (hist_init 2 1000 ex_hist)"
      "snd (hist_init 2 1000 ex_hist)" "[5, 1500, 999, 70000]"]
  by (auto simp: ex_hist_def MAX_SLOTS_def)

text \<open>
  With the largest number of slots that \<open>hist_init\<close> accepts, resetting or printing the
  histogram runs one element past its array.
\<close>

theorem hist_reset_overruns:
  assumes "length (slots h) = MAX_SLOTS" "hist_init 255 sz h = (r, h0)"
  shows "r = 0 \<and> hist_reset h0 = Inl Out_Of_Bounds \<and> hist_print h0 = Inl Out_Of_Bounds"
proof -
  have init: "r = 0" "h0 = h\<lparr>n_slots := 256, slot_size := sz\<rparr>"
    using assms(2) by (simp_all add: hist_init_def MAX_SLOTS_def)
  have clear: "\<exists>ys. clear_slots n xs = Inr ys \<and> length ys = length xs" if "n \<le> length xs"
    for n and xs :: "u32 list"
    using that by (induction n) auto
  have read: "\<exists>ys. read_slots n xs = Inr ys" if "n \<le> length xs" for n and xs :: "u32 list"
    using that by (induction n) auto
  obtain ys where "clear_slots 256 (slots h) = Inr ys" "length ys = 256"
    using clear [of 256 "slots h"] assms(1) by (auto simp: MAX_SLOTS_def)
  moreover obtain zs where "read_slots 256 (slots h) = Inr zs"
    using read [of 256 "slots h"] assms(1) by (auto simp: MAX_SLOTS_def)
  ultimately show ?thesis
    using assms(1) init clear_slots.simps(2) [of 256 "slots h"] read_slots.simps(2) [of 256 "slots h"]
    by (simp add: hist_reset_def hist_print_def MAX_SLOTS_def del: clear_slots.simps read_slots.simps)
qed

lemma hist_reset_overruns_witness:
  "hist_reset (snd (hist_init 255 1000 ex_hist)) = Inl Out_Of_Bounds"
  using hist_reset_overruns [of ex_hist 1000 "fst (hist_init 255 1000 ex_hist)"
      "snd (hist_init 255 1000 ex_hist)"]
  by (simp add: ex_hist_def)

end
