(* ===== verification/Os_Counter.thy ===== *)
theory Os_Counter
  imports Prelude
begin


text \<open>
  The counter interface of the operating system layer (\<open>src/os/freertos/os/counter.c\<close>,
  \<open>src/os/freertos/os/counter.h\<close>) and its two drivers, for the general purpose timer
  (\<open>counter_gpt.c\<close>) and the timer/PWM module (\<open>counter_tpm.c\<close>).

  A device is its software state and the registers the drivers program: the running flag, the
  compare value, the interrupt enable and the count that the next read returns. An alarm callback
  is client code, a parameter \<open>run\<close> on the device; calls are also recorded in \<open>fired\<close>. Channel
  numbers are those of the registers: the only supported channel is 0.
\<close>

subsection \<open>Devices and alarms\<close>

record os_counter_alarm_cfg =
  al_callback :: "nat option"
  al_ticks :: u32
  al_last_ticks :: u32
  al_user_data :: nat
  al_flags :: u32

definition OS_COUNTER_ALARM_CFG_ABSOLUTE :: u32 where "OS_COUNTER_ALARM_CFG_ABSOLUTE = 1"
definition OS_COUNTER_ALARM_CFG_LOOP :: u32 where "OS_COUNTER_ALARM_CFG_LOOP = 2"
definition NB_CHANNELS :: u8 where "NB_CHANNELS = 1"

lemmas alarm_flags = OS_COUNTER_ALARM_CFG_ABSOLUTE_def OS_COUNTER_ALARM_CFG_LOOP_def

record os_counter =
  initialized :: bool
  irq_registered :: bool
  alarms :: "os_counter_alarm_cfg list"
  hw_running :: bool
  hw_count :: u32
  hw_compare :: u32
  hw_irq :: bool
  hw_top :: u32
  fired :: "(nat \<times> u32 \<times> nat) list"

definition is_loop :: "u32 \<Rightarrow> bool" where
  "is_loop f \<longleftrightarrow> f AND OS_COUNTER_ALARM_CFG_LOOP \<noteq> 0"

definition is_absolute :: "u32 \<Rightarrow> bool" where
  "is_absolute f \<longleftrightarrow> f AND OS_COUNTER_ALARM_CFG_ABSOLUTE \<noteq> 0"

type_synonym alarm_run = "nat \<Rightarrow> u32 \<Rightarrow> nat \<Rightarrow> os_counter \<Rightarrow> os_counter outcome"

definition put_alarm :: "nat \<Rightarrow> os_counter_alarm_cfg \<Rightarrow> os_counter \<Rightarrow> os_counter" where
  "put_alarm ch a d = d\<lparr>alarms := (alarms d)[ch := a]\<rparr>"

subsection \<open>The general purpose timer\<close>

definition SOURCE_CLOCK_FREQ_HZ :: u32 where "SOURCE_CLOCK_FREQ_HZ = 24000000"

definition gpt_set_alarm ::
    "u8 \<Rightarrow> os_counter_alarm_cfg \<Rightarrow> os_counter \<Rightarrow> (int \<times> os_counter) outcome" where
  "gpt_set_alarm ch cfg d =
     and_then (arr_get (alarms d) (unat ch)) (\<lambda>a.
     os_assert (initialized d)
      (if al_callback a \<noteq> None then Inr (- 1, d)
       else Inr (0, put_alarm (unat ch)
              (a\<lparr>al_callback := al_callback cfg, al_user_data := al_user_data cfg\<rparr>) d)))"

definition gpt_reset_alarm :: "u8 \<Rightarrow> os_counter \<Rightarrow> os_counter outcome" where
  "gpt_reset_alarm ch d =
     and_then (arr_get (alarms d) (unat ch)) (\<lambda>a.
     Inr (put_alarm (unat ch) (a\<lparr>al_callback := None\<rparr>) d))"

definition gpt_irq_ack :: "u8 \<Rightarrow> bool \<Rightarrow> os_counter \<Rightarrow> os_counter" where
  "gpt_irq_ack ch disable d =
     (if ch \<noteq> 0 then d else if disable then d\<lparr>hw_irq := False\<rparr> else d)"

definition gpt_get_value :: "os_counter \<Rightarrow> int \<times> u32" where
  "gpt_get_value d = (0, hw_count d)"

definition gpt_irq_handler :: "alarm_run \<Rightarrow> os_counter \<Rightarrow> os_counter outcome" where
  "gpt_irq_handler run d =
     (let now = snd (gpt_get_value d)
      in and_then (arr_get (alarms d) 0) (\<lambda>a.
         (let d1 =
                (if is_loop (al_flags a)
                 then (let next = al_last_ticks a + al_ticks a
                       in (put_alarm 0 (a\<lparr>al_last_ticks := next\<rparr>) (gpt_irq_ack 0 False d))
                            \<lparr>hw_compare := next\<rparr>)
                 else gpt_irq_ack 0 True d)
          in and_then
               (case al_callback a of
                  None \<Rightarrow> Inr d1
                | Some cb \<Rightarrow>
                    run cb now (al_user_data a)
                      (d1\<lparr>fired := fired d1 @ [(cb, now, al_user_data a)]\<rparr>)) (\<lambda>d2.
             and_then (arr_get (alarms d2) 0) (\<lambda>a2.
             if is_loop (al_flags a2) then Inr d2 else gpt_reset_alarm 0 d2)))))"

definition gpt_counter_init :: "int \<Rightarrow> os_counter \<Rightarrow> os_counter outcome" where
  "gpt_counter_init irq_rc d =
     os_assert (irq_rc = 0) (Inr (d\<lparr>irq_registered := True, initialized := True\<rparr>))"

definition gpt_start :: "int \<Rightarrow> os_counter \<Rightarrow> (int \<times> os_counter) outcome" where
  "gpt_start irq_rc d =
     and_then (if initialized d then Inr d else gpt_counter_init irq_rc d) (\<lambda>d1.
     Inr (0, d1\<lparr>hw_running := True\<rparr>))"

definition gpt_stop :: "os_counter \<Rightarrow> int \<times> os_counter" where
  "gpt_stop d = (0, d\<lparr>hw_running := False\<rparr>)"

definition gpt_is_counting_up :: "os_counter \<Rightarrow> bool" where
  "gpt_is_counting_up d = True"

definition gpt_get_frequency :: "os_counter \<Rightarrow> u32" where
  "gpt_get_frequency d = SOURCE_CLOCK_FREQ_HZ"

definition gpt_get_top_value :: "os_counter \<Rightarrow> u32" where
  "gpt_get_top_value d = - 1"

definition gpt_get_num_of_channels :: "os_counter \<Rightarrow> u8" where
  "gpt_get_num_of_channels d = NB_CHANNELS"

definition gpt_set_channel_alarm ::
    "u8 \<Rightarrow> os_counter_alarm_cfg option \<Rightarrow> os_counter \<Rightarrow> (int \<times> os_counter) outcome" where
  "gpt_set_channel_alarm ch cfg d =
     (case cfg of
        None \<Rightarrow> Inr (- 1, d)
      | Some c \<Rightarrow>
          os_assert (\<not> (is_absolute (al_flags c) \<and> is_loop (al_flags c)))
           (if ch \<noteq> 0 then Inr (- 1, d)
            else
              and_then (gpt_set_alarm ch c d) (\<lambda>(ret, d1).
              if ret \<noteq> 0 then Inr (ret, d1)
              else
                and_then (arr_get (alarms d1) (unat ch)) (\<lambda>a.
                (let a1 = a\<lparr>al_flags := al_flags c\<rparr>;
                     next = (if is_absolute (al_flags c) then al_ticks c
                             else al_ticks c + snd (gpt_get_value d1));
                     a2 = (if is_loop (al_flags c)
                           then a1\<lparr>al_last_ticks := next, al_ticks := al_ticks c\<rparr> else a1)
                 in Inr (0, (put_alarm (unat ch) a2 d1)\<lparr>hw_irq := True, hw_compare := next\<rparr>))))))"

definition gpt_cancel_channel_alarm :: "u8 \<Rightarrow> os_counter \<Rightarrow> (int \<times> os_counter) outcome" where
  "gpt_cancel_channel_alarm ch d =
     (if ch \<noteq> 0 then Inr (- 1, d)
      else and_then (gpt_reset_alarm ch (d\<lparr>hw_irq := False\<rparr>)) (\<lambda>d1. Inr (0, d1)))"

subsection \<open>The timer/PWM module\<close>

definition TPM_SOURCE_CLOCK :: u32 where "TPM_SOURCE_CLOCK = 24000000"

definition tpm_set_alarm ::
    "u8 \<Rightarrow> os_counter_alarm_cfg \<Rightarrow> os_counter \<Rightarrow> (int \<times> os_counter) outcome" where
  "tpm_set_alarm ch cfg d =
     and_then (arr_get (alarms d) (unat ch)) (\<lambda>a.
     os_assert (initialized d)
      (if al_callback a \<noteq> None then Inr (- 1, d)
       else Inr (0, put_alarm (unat ch)
              (a\<lparr>al_callback := al_callback cfg, al_user_data := al_user_data cfg\<rparr>) d)))"

definition tpm_reset_alarm :: "u8 \<Rightarrow> os_counter \<Rightarrow> os_counter outcome" where
  "tpm_reset_alarm ch d =
     and_then (arr_get (alarms d) (unat ch)) (\<lambda>a.
     Inr (put_alarm (unat ch) (a\<lparr>al_callback := None\<rparr>) d))"

definition tpm_irq_ack :: "u8 \<Rightarrow> bool \<Rightarrow> os_counter \<Rightarrow> os_counter" where
  "tpm_irq_ack ch disable d =
     (if ch \<noteq> 0 then d else if disable then d\<lparr>hw_irq := False\<rparr> else d)"

definition tpm_get_value :: "os_counter \<Rightarrow> int \<times> u32" where
  "tpm_get_value d = (0, hw_count d)"

definition tpm_irq_handler :: "alarm_run \<Rightarrow> os_counter \<Rightarrow> os_counter outcome" where
  "tpm_irq_handler run d =
     (let now = snd (tpm_get_value d)
      in and_then (arr_get (alarms d) 0) (\<lambda>a.
         (let d1 =
                (if is_loop (al_flags a)
                 then (let next = al_last_ticks a + al_ticks a
                       in (put_alarm 0 (a\<lparr>al_last_ticks := next\<rparr>) (tpm_irq_ack 0 False d))
                            \<lparr>hw_compare := next\<rparr>)
                 else tpm_irq_ack 0 True d)
          in and_then
               (case al_callback a of
                  None \<Rightarrow> Inr d1
                | Some cb \<Rightarrow>
                    run cb now (al_user_data a)
                      (d1\<lparr>fired := fired d1 @ [(cb, now, al_user_data a)]\<rparr>)) (\<lambda>d2.
             and_then (arr_get (alarms d2) 0) (\<lambda>a2.
             if is_loop (al_flags a2) then Inr d2 else tpm_reset_alarm 0 d2)))))"

definition tpm_counter_init :: "int \<Rightarrow> os_counter \<Rightarrow> os_counter outcome" where
  "tpm_counter_init irq_rc d =
     os_assert (irq_rc = 0) (Inr (d\<lparr>irq_registered := True, initialized := True\<rparr>))"

definition tpm_start :: "int \<Rightarrow> os_counter \<Rightarrow> (int \<times> os_counter) outcome" where
  "tpm_start irq_rc d =
     and_then (if initialized d then Inr d else tpm_counter_init irq_rc d) (\<lambda>d1.
     Inr (0, d1\<lparr>hw_running := True\<rparr>))"

definition tpm_stop :: "os_counter \<Rightarrow> int \<times> os_counter" where
  "tpm_stop d = (0, d\<lparr>hw_running := False\<rparr>)"

definition tpm_is_counting_up :: "os_counter \<Rightarrow> bool" where
  "tpm_is_counting_up d = True"

definition tpm_get_frequency :: "os_counter \<Rightarrow> u32" where
  "tpm_get_frequency d = TPM_SOURCE_CLOCK"

definition tpm_get_top_value :: "os_counter \<Rightarrow> u32" where
  "tpm_get_top_value d = hw_top d"

definition tpm_get_num_of_channels :: "os_counter \<Rightarrow> u8" where
  "tpm_get_num_of_channels d = NB_CHANNELS"

definition tpm_set_channel_alarm ::
    "u8 \<Rightarrow> os_counter_alarm_cfg option \<Rightarrow> os_counter \<Rightarrow> (int \<times> os_counter) outcome" where
  "tpm_set_channel_alarm ch cfg d =
     (case cfg of
        None \<Rightarrow> Inr (- 1, d)
      | Some c \<Rightarrow>
          os_assert (\<not> (is_absolute (al_flags c) \<and> is_loop (al_flags c)))
           (if ch \<noteq> 0 then Inr (- 1, d)
            else
              and_then (tpm_set_alarm ch c d) (\<lambda>(ret, d1).
              if ret \<noteq> 0 then Inr (ret, d1)
              else
                and_then (arr_get (alarms d1) (unat ch)) (\<lambda>a.
                (let a1 = a\<lparr>al_flags := al_flags c\<rparr>;
                     next = (if is_absolute (al_flags c) then al_ticks c
                             else al_ticks c + snd (tpm_get_value d1));
                     a2 = (if is_loop (al_flags c)
                           then a1\<lparr>al_last_ticks := next, al_ticks := al_ticks c\<rparr> else a1)
                 in Inr (0, (put_alarm (unat ch) a2 d1)\<lparr>hw_irq := True, hw_compare := next\<rparr>))))))"

definition tpm_cancel_channel_alarm :: "u8 \<Rightarrow> os_counter \<Rightarrow> (int \<times> os_counter) outcome" where
  "tpm_cancel_channel_alarm ch d =
     (if ch \<noteq> 0 then Inr (- 1, d)
      else and_then (tpm_reset_alarm ch (d\<lparr>hw_irq := False\<rparr>)) (\<lambda>d1. Inr (0, d1)))"

subsection \<open>The driver table and the generic calls\<close>

record os_counter_ops =
  op_start :: "int \<Rightarrow> os_counter \<Rightarrow> (int \<times> os_counter) outcome"
  op_stop :: "os_counter \<Rightarrow> int \<times> os_counter"
  op_num_of_channels :: "os_counter \<Rightarrow> u8"
  op_get_value :: "os_counter \<Rightarrow> int \<times> u32"
  op_is_counting_up :: "os_counter \<Rightarrow> bool"
  op_get_frequency :: "os_counter \<Rightarrow> u32"
  op_get_top_value :: "os_counter \<Rightarrow> u32"
  op_set_channel_alarm ::
    "u8 \<Rightarrow> os_counter_alarm_cfg option \<Rightarrow> os_counter \<Rightarrow> (int \<times> os_counter) outcome"
  op_cancel_channel_alarm :: "u8 \<Rightarrow> os_counter \<Rightarrow> (int \<times> os_counter) outcome"

definition gpt_counter_ops :: os_counter_ops where
  "gpt_counter_ops =
     \<lparr>op_start = gpt_start, op_stop = gpt_stop, op_num_of_channels = gpt_get_num_of_channels,
      op_get_value = gpt_get_value, op_is_counting_up = gpt_is_counting_up,
      op_get_frequency = gpt_get_frequency, op_get_top_value = gpt_get_top_value,
      op_set_channel_alarm = gpt_set_channel_alarm,
      op_cancel_channel_alarm = gpt_cancel_channel_alarm\<rparr>"

definition tpm_counter_ops :: os_counter_ops where
  "tpm_counter_ops =
     \<lparr>op_start = tpm_start, op_stop = tpm_stop, op_num_of_channels = tpm_get_num_of_channels,
      op_get_value = tpm_get_value, op_is_counting_up = tpm_is_counting_up,
      op_get_frequency = tpm_get_frequency, op_get_top_value = tpm_get_top_value,
      op_set_channel_alarm = tpm_set_channel_alarm,
      op_cancel_channel_alarm = tpm_cancel_channel_alarm\<rparr>"

definition USEC_PER_SEC :: u64 where "USEC_PER_SEC = 1000000"
definition NSEC_PER_SEC :: u64 where "NSEC_PER_SEC = 1000000000"

definition os_counter_us_to_ticks :: "os_counter_ops \<Rightarrow> os_counter \<Rightarrow> u64 \<Rightarrow> u32" where
  "os_counter_us_to_ticks ops d us = ucast ((us * ucast (op_get_frequency ops d)) div USEC_PER_SEC)"

definition os_counter_ticks_to_ns :: "os_counter_ops \<Rightarrow> os_counter \<Rightarrow> u32 \<Rightarrow> u64 outcome" where
  "os_counter_ticks_to_ns ops d ticks =
     (if op_get_frequency ops d = 0 then Inl Div_By_Zero
      else Inr ((NSEC_PER_SEC * ucast ticks) div ucast (op_get_frequency ops d)))"

subsection \<open>The contract of an alarm device\<close>

text \<open>
  \<open>dev_ok\<close>: the device is initialised and has its one channel. A callback that leaves the device
  alone is \<open>quiet\<close>.
\<close>

definition dev_ok :: "os_counter \<Rightarrow> bool" where
  "dev_ok d \<longleftrightarrow> initialized d \<and> length (alarms d) = 1"

definition armed :: "os_counter \<Rightarrow> (nat \<times> nat) option" where
  "armed d = map_option (\<lambda>cb. (cb, al_user_data (alarms d ! 0))) (al_callback (alarms d ! 0))"

definition quiet :: alarm_run where
  "quiet cb now u d = Inr d"

definition alarm_due :: "os_counter_alarm_cfg \<Rightarrow> os_counter \<Rightarrow> u32" where
  "alarm_due c d =
     (if is_absolute (al_flags c) then al_ticks c else al_ticks c + hw_count d)"

definition looping :: "os_counter \<Rightarrow> bool" where
  "looping d \<longleftrightarrow> is_loop (al_flags (alarms d ! 0))"

text \<open>A run of interrupts, taken when the timer reads the given counts.\<close>

fun irq_train :: "(os_counter \<Rightarrow> os_counter outcome) \<Rightarrow> u32 list \<Rightarrow> os_counter \<Rightarrow> os_counter outcome" where
  "irq_train handler [] d = Inr d"
| "irq_train handler (c # cs) d =
     and_then (handler (d\<lparr>hw_count := c\<rparr>)) (irq_train handler cs)"

locale alarm_device =
  fixes set_alarm :: "u8 \<Rightarrow> os_counter_alarm_cfg option \<Rightarrow> os_counter \<Rightarrow> (int \<times> os_counter) outcome"
    and cancel :: "u8 \<Rightarrow> os_counter \<Rightarrow> (int \<times> os_counter) outcome"
    and irq :: "alarm_run \<Rightarrow> os_counter \<Rightarrow> os_counter outcome"
  assumes set_idle: "dev_ok d \<Longrightarrow> al_callback (alarms d ! 0) = None \<Longrightarrow>
      \<not> (is_absolute (al_flags c) \<and> is_loop (al_flags c)) \<Longrightarrow>
      \<exists>d'. set_alarm 0 (Some c) d = Inr (0, d') \<and> dev_ok d' \<and> hw_irq d'
        \<and> armed d' = map_option (\<lambda>cb. (cb, al_user_data c)) (al_callback c)
        \<and> hw_compare d' = alarm_due c d \<and> looping d' = is_loop (al_flags c)
        \<and> fired d' = fired d \<and> hw_count d' = hw_count d
        \<and> (looping d' \<longrightarrow> al_last_ticks (alarms d' ! 0) = alarm_due c d
             \<and> al_ticks (alarms d' ! 0) = al_ticks c)"
    and set_busy: "dev_ok d \<Longrightarrow> al_callback (alarms d ! 0) \<noteq> None \<Longrightarrow>
      \<not> (is_absolute (al_flags c) \<and> is_loop (al_flags c)) \<Longrightarrow>
      set_alarm 0 (Some c) d = Inr (- 1, d)"
    and cancel_idle: "dev_ok d \<Longrightarrow>
      \<exists>d'. cancel 0 d = Inr (0, d') \<and> dev_ok d' \<and> armed d' = None \<and> \<not> hw_irq d'
        \<and> fired d' = fired d \<and> hw_count d' = hw_count d"
    and irq_once: "dev_ok d \<Longrightarrow> \<not> looping d \<Longrightarrow> armed d = Some (cb, u) \<Longrightarrow>
      \<exists>d'. irq quiet d = Inr d' \<and> dev_ok d' \<and> armed d' = None \<and> \<not> hw_irq d'
        \<and> fired d' = fired d @ [(cb, hw_count d, u)] \<and> hw_count d' = hw_count d"
    and irq_loop: "dev_ok d \<Longrightarrow> looping d \<Longrightarrow> armed d = Some (cb, u) \<Longrightarrow>
      \<exists>d'. irq quiet d = Inr d' \<and> dev_ok d' \<and> looping d' \<and> armed d' = Some (cb, u)
        \<and> hw_irq d' = hw_irq d \<and> fired d' = fired d @ [(cb, hw_count d, u)]
        \<and> al_last_ticks (alarms d' ! 0) = al_last_ticks (alarms d ! 0) + al_ticks (alarms d ! 0)
        \<and> al_ticks (alarms d' ! 0) = al_ticks (alarms d ! 0)
        \<and> hw_compare d' = al_last_ticks (alarms d' ! 0) \<and> hw_count d' = hw_count d"
begin

lemma loop_train:
  assumes "dev_ok d" "looping d" "armed d = Some (cb, u)"
    and "hw_compare d = al_last_ticks (alarms d ! 0)"
  shows "\<exists>d'. irq_train (irq quiet) cs d = Inr d' \<and> dev_ok d' \<and> looping d' \<and> armed d' = Some (cb, u)
     \<and> fired d' = fired d @ map (\<lambda>c. (cb, c, u)) cs
     \<and> hw_compare d' = hw_compare d + of_nat (length cs) * al_ticks (alarms d ! 0)
     \<and> hw_irq d' = hw_irq d"
  using assms
proof (induction cs arbitrary: d)
  case (Cons c cs)
  let ?d = "d\<lparr>hw_count := c\<rparr>"
  have "dev_ok ?d" "looping ?d" "armed ?d = Some (cb, u)"
    using Cons.prems by (simp_all add: dev_ok_def looping_def armed_def)
  from irq_loop [OF this] obtain d1 where d1: "irq quiet ?d = Inr d1" "dev_ok d1" "looping d1"
      "armed d1 = Some (cb, u)" "hw_irq d1 = hw_irq d" "fired d1 = fired d @ [(cb, c, u)]"
      "al_last_ticks (alarms d1 ! 0) = al_last_ticks (alarms d ! 0) + al_ticks (alarms d ! 0)"
      "al_ticks (alarms d1 ! 0) = al_ticks (alarms d ! 0)"
      "hw_compare d1 = al_last_ticks (alarms d1 ! 0)"
    by auto
  from Cons.IH [OF d1(2-4) d1(9)] obtain d' where d': "irq_train (irq quiet) cs d1 = Inr d'" "dev_ok d'"
      "looping d'" "armed d' = Some (cb, u)" "fired d' = fired d1 @ map (\<lambda>c. (cb, c, u)) cs"
      "hw_compare d' = hw_compare d1 + of_nat (length cs) * al_ticks (alarms d1 ! 0)"
      "hw_irq d' = hw_irq d1"
    by blast
  have "hw_compare d' = hw_compare d + of_nat (length (c # cs)) * al_ticks (alarms d ! 0)"
    using d'(6) d1(7-9) Cons.prems(4) by (simp add: algebra_simps)
  then show ?case using d1(1,5,6) d' by simp
qed simp

lemma set_loop_train:
  assumes "dev_ok d" "al_callback (alarms d ! 0) = None" "al_callback c = Some cb"
    and "is_loop (al_flags c)" "\<not> is_absolute (al_flags c)"
  shows "\<exists>d1 d2. set_alarm 0 (Some c) d = Inr (0, d1) \<and> irq_train (irq quiet) cs d1 = Inr d2
     \<and> fired d2 = fired d @ map (\<lambda>t. (cb, t, al_user_data c)) cs
     \<and> hw_compare d2 = hw_count d + of_nat (Suc (length cs)) * al_ticks c \<and> hw_irq d2"
proof -
  obtain d1 where d1: "set_alarm 0 (Some c) d = Inr (0, d1)" "dev_ok d1" "hw_irq d1"
      "armed d1 = Some (cb, al_user_data c)" "hw_compare d1 = alarm_due c d" "looping d1"
      "fired d1 = fired d" "al_last_ticks (alarms d1 ! 0) = alarm_due c d"
      "al_ticks (alarms d1 ! 0) = al_ticks c"
    using set_idle [OF assms(1,2), of c] assms(3-5) by auto
  from loop_train [OF d1(2,6,4), of cs] d1(5,8) obtain d2 where d2: "irq_train (irq quiet) cs d1 = Inr d2"
      "fired d2 = fired d1 @ map (\<lambda>t. (cb, t, al_user_data c)) cs"
      "hw_compare d2 = hw_compare d1 + of_nat (length cs) * al_ticks (alarms d1 ! 0)"
      "hw_irq d2 = hw_irq d1"
    by auto
  have "hw_compare d2 = hw_count d + of_nat (Suc (length cs)) * al_ticks c"
    using d2(3) d1(5,9) assms(5) by (simp add: alarm_due_def algebra_simps)
  then show ?thesis using d1 d2 by auto
qed

lemma one_shot_cycle:
  assumes "dev_ok d" "al_callback (alarms d ! 0) = None" "al_callback c = Some cb"
    and "\<not> is_loop (al_flags c)"
  shows "\<exists>d1 d2. set_alarm 0 (Some c) d = Inr (0, d1) \<and> set_alarm 0 (Some c) d1 = Inr (- 1, d1)
     \<and> irq quiet (d1\<lparr>hw_count := t\<rparr>) = Inr d2
     \<and> fired d2 = fired d @ [(cb, t, al_user_data c)] \<and> dev_ok d2
     \<and> al_callback (alarms d2 ! 0) = None \<and> \<not> hw_irq d2"
proof -
  obtain d1 where d1: "set_alarm 0 (Some c) d = Inr (0, d1)" "dev_ok d1"
      "armed d1 = Some (cb, al_user_data c)" "\<not> looping d1" "fired d1 = fired d"
    using set_idle [OF assms(1,2), of c] assms(3,4) by auto
  have "set_alarm 0 (Some c) d1 = Inr (- 1, d1)"
    using d1(3) assms(4) by (intro set_busy [OF d1(2)]) (auto simp: armed_def)
  moreover have "dev_ok (d1\<lparr>hw_count := t\<rparr>)" "\<not> looping (d1\<lparr>hw_count := t\<rparr>)"
    "armed (d1\<lparr>hw_count := t\<rparr>) = Some (cb, al_user_data c)"
    using d1 by (simp_all add: dev_ok_def looping_def armed_def)
  from irq_once [OF this] obtain d2 where "irq quiet (d1\<lparr>hw_count := t\<rparr>) = Inr d2" "dev_ok d2"
      "armed d2 = None" "\<not> hw_irq d2" "fired d2 = fired d1 @ [(cb, t, al_user_data c)]"
    by auto
  ultimately show ?thesis using d1 by (auto simp: armed_def)
qed

end

subsection \<open>Both drivers keep it\<close>

lemma gpt_set_idle:
  assumes "dev_ok d" "al_callback (alarms d ! 0) = None"
    and "\<not> (is_absolute (al_flags c) \<and> is_loop (al_flags c))"
  shows "\<exists>d'. gpt_set_channel_alarm 0 (Some c) d = Inr (0, d') \<and> dev_ok d' \<and> hw_irq d'
        \<and> armed d' = map_option (\<lambda>cb. (cb, al_user_data c)) (al_callback c)
        \<and> hw_compare d' = alarm_due c d \<and> looping d' = is_loop (al_flags c)
        \<and> fired d' = fired d \<and> hw_count d' = hw_count d
        \<and> (looping d' \<longrightarrow> al_last_ticks (alarms d' ! 0) = alarm_due c d
             \<and> al_ticks (alarms d' ! 0) = al_ticks c)"
  using assms
  by (auto simp: gpt_set_channel_alarm_def gpt_set_alarm_def dev_ok_def put_alarm_def Let_def
        gpt_get_value_def armed_def looping_def alarm_due_def)

lemma gpt_set_busy:
  assumes "dev_ok d" "al_callback (alarms d ! 0) \<noteq> None"
    and "\<not> (is_absolute (al_flags c) \<and> is_loop (al_flags c))"
  shows "gpt_set_channel_alarm 0 (Some c) d = Inr (- 1, d)"
  using assms by (simp add: gpt_set_channel_alarm_def gpt_set_alarm_def dev_ok_def)

lemma gpt_cancel_idle:
  assumes "dev_ok d"
  shows "\<exists>d'. gpt_cancel_channel_alarm 0 d = Inr (0, d') \<and> dev_ok d' \<and> armed d' = None \<and> \<not> hw_irq d'
        \<and> fired d' = fired d \<and> hw_count d' = hw_count d"
  using assms
  by (simp add: gpt_cancel_channel_alarm_def gpt_reset_alarm_def dev_ok_def put_alarm_def armed_def)

lemma gpt_irq_once:
  assumes "dev_ok d" "\<not> looping d" "armed d = Some (cb, u)"
  shows "\<exists>d'. gpt_irq_handler quiet d = Inr d' \<and> dev_ok d' \<and> armed d' = None \<and> \<not> hw_irq d'
        \<and> fired d' = fired d @ [(cb, hw_count d, u)] \<and> hw_count d' = hw_count d"
  using assms
  by (auto simp: gpt_irq_handler_def gpt_get_value_def gpt_irq_ack_def gpt_reset_alarm_def Let_def
        dev_ok_def put_alarm_def armed_def looping_def quiet_def)

lemma gpt_irq_loop:
  assumes "dev_ok d" "looping d" "armed d = Some (cb, u)"
  shows "\<exists>d'. gpt_irq_handler quiet d = Inr d' \<and> dev_ok d' \<and> looping d' \<and> armed d' = Some (cb, u)
        \<and> hw_irq d' = hw_irq d \<and> fired d' = fired d @ [(cb, hw_count d, u)]
        \<and> al_last_ticks (alarms d' ! 0) = al_last_ticks (alarms d ! 0) + al_ticks (alarms d ! 0)
        \<and> al_ticks (alarms d' ! 0) = al_ticks (alarms d ! 0)
        \<and> hw_compare d' = al_last_ticks (alarms d' ! 0) \<and> hw_count d' = hw_count d"
  using assms
  by (auto simp: gpt_irq_handler_def gpt_get_value_def gpt_irq_ack_def gpt_reset_alarm_def Let_def
        dev_ok_def put_alarm_def armed_def looping_def quiet_def)

interpretation gpt: alarm_device gpt_set_channel_alarm gpt_cancel_channel_alarm gpt_irq_handler
  by unfold_locales
     (rule gpt_set_idle gpt_set_busy gpt_cancel_idle gpt_irq_once gpt_irq_loop; assumption)+

lemma tpm_same:
  "tpm_set_channel_alarm = gpt_set_channel_alarm"
  "tpm_cancel_channel_alarm = gpt_cancel_channel_alarm" "tpm_irq_handler = gpt_irq_handler"
proof -
  have 1: "tpm_set_alarm = gpt_set_alarm" "tpm_reset_alarm = gpt_reset_alarm"
    "tpm_irq_ack = gpt_irq_ack" "tpm_get_value = gpt_get_value"
    by (simp_all add: fun_eq_iff tpm_set_alarm_def gpt_set_alarm_def tpm_reset_alarm_def
          gpt_reset_alarm_def tpm_irq_ack_def gpt_irq_ack_def tpm_get_value_def gpt_get_value_def)
  show "tpm_set_channel_alarm = gpt_set_channel_alarm"
    by (simp only: fun_eq_iff tpm_set_channel_alarm_def gpt_set_channel_alarm_def 1 simp_thms)
  show "tpm_cancel_channel_alarm = gpt_cancel_channel_alarm"
    by (simp only: fun_eq_iff tpm_cancel_channel_alarm_def gpt_cancel_channel_alarm_def 1 simp_thms)
  show "tpm_irq_handler = gpt_irq_handler"
    by (simp only: fun_eq_iff tpm_irq_handler_def gpt_irq_handler_def 1 simp_thms)
qed

interpretation tpm: alarm_device tpm_set_channel_alarm tpm_cancel_channel_alarm tpm_irq_handler
  unfolding tpm_same by (rule gpt.alarm_device_axioms)

subsection \<open>Properties\<close>

text \<open>
  C27: A periodic alarm does not drift, on both timers: once a loop alarm of period T is set when
  the counter reads c, n interrupts, however late each is served, call the callback n times and
  leave the compare register at c + (n+1)*T modulo 2^32, with the interrupt enabled.
\<close>

theorem periodic_alarm_no_drift:
  assumes "(set_alarm, handler) = (gpt_set_channel_alarm, gpt_irq_handler quiet)
      \<or> (set_alarm, handler) = (tpm_set_channel_alarm, tpm_irq_handler quiet)"
    and "dev_ok d" "al_callback (alarms d ! 0) = None" "al_callback c = Some cb"
    and "is_loop (al_flags c)" "\<not> is_absolute (al_flags c)"
  shows "\<exists>d1 d2. set_alarm 0 (Some c) d = Inr (0, d1) \<and> irq_train handler ts d1 = Inr d2
     \<and> fired d2 = fired d @ map (\<lambda>t. (cb, t, al_user_data c)) ts
     \<and> hw_compare d2 = hw_count d + of_nat (Suc (length ts)) * al_ticks c \<and> hw_irq d2"
  using assms(1) gpt.set_loop_train [OF assms(2-6), of ts] tpm.set_loop_train [OF assms(2-6), of ts]
  by auto

definition ex_counter :: os_counter where
  "ex_counter = \<lparr>initialized = True, irq_registered = True,
     alarms = [\<lparr>al_callback = None, al_ticks = 0, al_last_ticks = 0, al_user_data = 0,
                al_flags = 0\<rparr>],
     hw_running = True, hw_count = 1000, hw_compare = 0, hw_irq = False, hw_top = - 1, fired = []\<rparr>"

definition ex_loop :: os_counter_alarm_cfg where
  "ex_loop = \<lparr>al_callback = Some 4, al_ticks = 2400, al_last_ticks = 0, al_user_data = 9,
     al_flags = OS_COUNTER_ALARM_CFG_LOOP\<rparr>"

lemma periodic_alarm_no_drift_witness:
  "\<exists>d1 d2. gpt_set_channel_alarm 0 (Some ex_loop) ex_counter = Inr (0, d1)
     \<and> irq_train (gpt_irq_handler quiet) [3500, 5900] d1 = Inr d2
     \<and> fired d2 = [(4, 3500, 9), (4, 5900, 9)] \<and> hw_compare d2 = 8200"
proof -
  have "dev_ok ex_counter" "al_callback (alarms ex_counter ! 0) = None" "al_callback ex_loop = Some 4"
    "is_loop (al_flags ex_loop)" "\<not> is_absolute (al_flags ex_loop)"
    by (simp_all add: dev_ok_def ex_counter_def ex_loop_def is_loop_def is_absolute_def alarm_flags)
  from periodic_alarm_no_drift [OF disjI1 [OF refl] this, of "[3500, 5900]"] show ?thesis
    by (simp add: ex_counter_def ex_loop_def) blast
qed

text \<open>
  A one-shot alarm fires once, on both timers: while it is pending a second one is refused and
  changes nothing; its interrupt calls the callback with the counter value and the user data, and
  leaves the channel free and its interrupt disabled, so that it can be set again.
\<close>

theorem one_shot_alarm_fires_once:
  assumes "(set_alarm, handler) = (gpt_set_channel_alarm, gpt_irq_handler quiet)
      \<or> (set_alarm, handler) = (tpm_set_channel_alarm, tpm_irq_handler quiet)"
    and "dev_ok d" "al_callback (alarms d ! 0) = None" "al_callback c = Some cb"
    and "\<not> is_loop (al_flags c)"
  shows "\<exists>d1 d2. set_alarm 0 (Some c) d = Inr (0, d1) \<and> set_alarm 0 (Some c) d1 = Inr (- 1, d1)
     \<and> handler (d1\<lparr>hw_count := t\<rparr>) = Inr d2 \<and> fired d2 = fired d @ [(cb, t, al_user_data c)]
     \<and> dev_ok d2 \<and> al_callback (alarms d2 ! 0) = None \<and> \<not> hw_irq d2"
  using assms(1) gpt.one_shot_cycle [OF assms(2-5), of t] tpm.one_shot_cycle [OF assms(2-5), of t]
  by auto

lemma one_shot_alarm_fires_once_witness:
  "\<exists>d1 d2. tpm_set_channel_alarm 0 (Some (ex_loop\<lparr>al_flags := 0\<rparr>)) ex_counter = Inr (0, d1)
     \<and> tpm_irq_handler quiet (d1\<lparr>hw_count := 3500\<rparr>) = Inr d2 \<and> fired d2 = [(4, 3500, 9)]"
proof -
  have "dev_ok ex_counter" "al_callback (alarms ex_counter ! 0) = None"
    "al_callback (ex_loop\<lparr>al_flags := 0\<rparr>) = Some 4" "\<not> is_loop (al_flags (ex_loop\<lparr>al_flags := 0\<rparr>))"
    by (simp_all add: dev_ok_def ex_counter_def ex_loop_def is_loop_def alarm_flags)
  from one_shot_alarm_fires_once [OF disjI2 [OF refl] this, of 3500] show ?thesis
    by (simp add: ex_counter_def ex_loop_def) blast
qed

text \<open>
  A callback that sets the alarm again: \<open>rearm\<close> does only that, \<open>cancel_rearm\<close> cancels first. Both
  keep the result of the call in the model's log as a call of callback 0.
\<close>

definition rearm :: "os_counter_alarm_cfg \<Rightarrow> alarm_run" where
  "rearm c cb now u d =
     and_then (gpt_set_channel_alarm 0 (Some c) d) (\<lambda>(r, d').
     Inr (d'\<lparr>fired := fired d' @ [(0, 0, if r = 0 then 1 else 0)]\<rparr>))"

definition cancel_rearm :: "os_counter_alarm_cfg \<Rightarrow> alarm_run" where
  "cancel_rearm c cb now u d =
     and_then (gpt_cancel_channel_alarm 0 d) (\<lambda>(r, d1). rearm c cb now u d1)"

text \<open>
  The comment of \<open>os_counter_set_channel_alarm\<close> says that an alarm can be set again in the
  context of its expiration handler. It cannot: the call is refused, and when the handler cancels
  the channel first the call succeeds but the alarm is dropped as soon as the handler returns,
  leaving the interrupt enabled with nobody to call.
\<close>

theorem rearming_in_handler_fails:
  assumes "dev_ok d" "armed d = Some (cb, u)" "\<not> looping d"
    and "al_callback c = Some cb'" "\<not> is_loop (al_flags c)"
  shows "\<exists>d1 d2. gpt_irq_handler (rearm c) d = Inr d1 \<and> last (fired d1) = (0, 0, 0)
     \<and> armed d1 = None
     \<and> gpt_irq_handler (cancel_rearm c) d = Inr d2 \<and> last (fired d2) = (0, 0, 1)
     \<and> armed d2 = None \<and> hw_irq d2"
  using assms
  by (auto simp: gpt_irq_handler_def rearm_def cancel_rearm_def gpt_set_channel_alarm_def
        gpt_set_alarm_def gpt_cancel_channel_alarm_def gpt_reset_alarm_def gpt_irq_ack_def
        gpt_get_value_def dev_ok_def armed_def looping_def put_alarm_def Let_def)

lemma rearming_in_handler_fails_witness:
  "\<exists>d1. gpt_irq_handler (rearm (ex_loop\<lparr>al_flags := 0\<rparr>)) (ex_counter\<lparr>alarms :=
       [\<lparr>al_callback = Some 4, al_ticks = 0, al_last_ticks = 0, al_user_data = 9, al_flags = 0\<rparr>]\<rparr>)
     = Inr d1 \<and> last (fired d1) = (0, 0, 0) \<and> armed d1 = None"
proof -
  let ?d = "ex_counter\<lparr>alarms :=
       [\<lparr>al_callback = Some 4, al_ticks = 0, al_last_ticks = 0, al_user_data = 9, al_flags = 0\<rparr>]\<rparr>"
  have "dev_ok ?d" "armed ?d = Some (4, 9)" "\<not> looping ?d"
    "al_callback (ex_loop\<lparr>al_flags := 0\<rparr>) = Some 4" "\<not> is_loop (al_flags (ex_loop\<lparr>al_flags := 0\<rparr>))"
    by (simp_all add: dev_ok_def ex_counter_def ex_loop_def is_loop_def armed_def looping_def)
  from rearming_in_handler_fails [OF this] show ?thesis by blast
qed

text \<open>
  Microseconds survive the conversion to timer ticks and back: at the clock rate of both drivers
  (24 MHz) every duration below 178956970 us becomes 24 ticks per microsecond and exactly as many
  nanoseconds.
\<close>

theorem ticks_roundtrip:
  assumes "ops = gpt_counter_ops \<or> ops = tpm_counter_ops" "unat us < 178956970"
  shows "unat (os_counter_us_to_ticks ops d us) = 24 * unat us
     \<and> os_counter_ticks_to_ns ops d (os_counter_us_to_ticks ops d us) = Inr (of_nat (1000 * unat us))"
proof -
  have f: "op_get_frequency ops d = 24000000"
    using assms(1) by (auto simp: gpt_counter_ops_def tpm_counter_ops_def gpt_get_frequency_def
        tpm_get_frequency_def SOURCE_CLOCK_FREQ_HZ_def TPM_SOURCE_CLOCK_def)
  have "unat (us * 24000000) = unat us * 24000000"
    using assms(2) by (simp add: unat_word_ariths)
  then have "unat ((us * 24000000) div USEC_PER_SEC) = 24 * unat us"
    by (simp add: unat_div USEC_PER_SEC_def)
  then have t: "unat (os_counter_us_to_ticks ops d us) = 24 * unat us"
    using assms(2)
    by (simp add: os_counter_us_to_ticks_def f unsigned_ucast_eq take_bit_nat_eq_self)
  let ?t = "os_counter_us_to_ticks ops d us"
  have "unat (NSEC_PER_SEC * ucast ?t) = 1000000000 * (24 * unat us)"
    using t assms(2) by (simp add: unat_word_ariths NSEC_PER_SEC_def)
  then have "unat ((NSEC_PER_SEC * ucast ?t) div 24000000) = 1000 * unat us"
    by (simp add: unat_div)
  then have "(NSEC_PER_SEC * ucast ?t) div 24000000 = of_nat (1000 * unat us)"
    by (metis of_nat_unat ucast_id word_unat_eq_iff)
  then show ?thesis using t by (simp add: os_counter_ticks_to_ns_def f)
qed

lemma ticks_roundtrip_witness:
  "unat (os_counter_us_to_ticks gpt_counter_ops ex_counter 100) = 2400"
  using ticks_roundtrip [of gpt_counter_ops 100 ex_counter] by simp

end
