(* ===== verification/Servo.thy ===== *)
theory Servo
  imports Complex_Main Os_Counter
begin


text \<open>
  The EtherCAT servo application (\<open>src/apps/soem_servo/freertos\<close>): the drive state machine and
  the mapping of process data (\<open>cia402.c\<close>), the trapezoidal trajectory of an axis (\<open>axis_nc.c\<close>),
  the checks of the drives found on the bus (\<open>servo.c\<close>) and the cyclic control task with its clock
  (\<open>main.c\<close>).

  The EtherCAT master library is not part of the repository: the bus is a record of what its
  variables show, the result of an SDO write is a parameter, and the process image is a record of the
  mapped objects. The planner computes in \<open>double\<close>; the model computes in real numbers, and stops with
  a fault where a division by zero or a conversion out of range would leave them.
\<close>

subsection \<open>Drives on the bus\<close>

record ec_bus =
  ec_slavecount :: int
  eep_man :: "int \<Rightarrow> u32"
  eep_id :: "int \<Rightarrow> u32"

record servo_t =
  VendorId :: u32
  ProductID :: u32
  slave_id :: int
  slave :: "int option"
  synced :: bool
  axis_num :: nat

text \<open>The loop of \<open>servo_slave_check\<close> from servo \<open>i\<close> on; \<open>ret\<close> is the value of the last round.\<close>

fun slave_check_from :: "ec_bus \<Rightarrow> int \<Rightarrow> int \<Rightarrow> servo_t list \<Rightarrow> int \<times> servo_t list" where
  "slave_check_from b i ret [] = (ret, [])"
| "slave_check_from b i ret (s # ss) =
     (let index = slave_id s + 1;
          r = (if ec_slavecount b < index then - i
               else if eep_man b index \<noteq> VendorId s \<or> eep_id b index \<noteq> ProductID s then - i
               else 1)
      in if r < 0 then (r, s # ss)
         else (let (r', ss') = slave_check_from b (i + 1) r ss
               in (r', s\<lparr>slave := Some index\<rparr> # ss')))"

definition servo_slave_check :: "ec_bus \<Rightarrow> servo_t list \<Rightarrow> int \<times> servo_t list" where
  "servo_slave_check b ss = slave_check_from b 0 (- 1) ss"

text \<open>
  \<open>fprd\<close> is the reading of the clock difference of servo \<open>i\<close>: the work counter and the value.
  \<open>abs\<close> of the smallest \<open>int\<close> overflows.
\<close>

fun synced_check_from ::
    "(int \<Rightarrow> int \<times> int) \<Rightarrow> int \<Rightarrow> servo_t list \<Rightarrow> (int \<times> servo_t list) outcome" where
  "synced_check_from fprd i [] = Inr (1, [])"
| "synced_check_from fprd i (s # ss) =
     (if synced s then
        and_then (synced_check_from fprd (i + 1) ss) (\<lambda>(r, ss'). Inr (r, s # ss'))
      else
        (let (wkc, diff) = fprd i
         in if wkc = 1 \<and> diff = - (2 ^ 31) then Inl Overflow
            else if wkc = 1 \<and> \<bar>diff\<bar> < 100000
            then and_then (synced_check_from fprd (i + 1) ss)
                   (\<lambda>(r, ss'). Inr (r, s\<lparr>synced := True\<rparr> # ss'))
            else Inr (- i, s # ss)))"

definition servo_synced_check ::
    "(int \<Rightarrow> int \<times> int) \<Rightarrow> servo_t list \<Rightarrow> (int \<times> servo_t list) outcome" where
  "servo_synced_check fprd ss = synced_check_from fprd 0 ss"

subsection \<open>Mapping the process data\<close>

text \<open>An SDO write: object, subindex and the value written.\<close>

type_synonym sdo = "nat \<times> nat \<times> u32"

definition tx_pdo_entry :: "u32 list list" where
  "tx_pdo_entry = [[0x60410010, 0x60640020, 0x60610008, 0x606C0020]]"

definition rx_pdo_entry :: "u32 list list" where
  "rx_pdo_entry = [[0x60400010, 0x60600008, 0x607A0020]]"

fun map_axes :: "nat \<Rightarrow> nat \<Rightarrow> u32 list list \<Rightarrow> nat \<Rightarrow> nat \<Rightarrow> sdo list outcome" where
  "map_axes obj_idx n entries i 0 = Inr []"
| "map_axes obj_idx n entries i (Suc k) =
     and_then (arr_get entries i) (\<lambda>e.
     and_then (map_axes obj_idx n entries (i + 1) k) (\<lambda>rest.
     Inr (map (\<lambda>j. (obj_idx, i * n + j + 1, e ! j)) [0..<n] @ rest)))"

definition remap_writes :: "nat \<Rightarrow> sdo list outcome" where
  "remap_writes axes =
     and_then (map_axes 0x1600 3 rx_pdo_entry 0 axes) (\<lambda>rx.
     and_then (map_axes 0x1a00 4 tx_pdo_entry 0 axes) (\<lambda>tx.
     Inr ([(0x1c12, 0, 0), (0x1c13, 0, 0), (0x1600, 0, 0)] @ rx
          @ [(0x1600, 0, of_nat (3 * axes)), (0x1a00, 0, 0)] @ tx
          @ [(0x1a00, 0, of_nat (4 * axes)), (0x1c12, 1, 0x1600), (0x1c12, 0, 1),
             (0x1c13, 1, 0x1a00), (0x1c13, 0, 1)])))"

definition servo_pdo_remap :: "(sdo \<Rightarrow> int) \<Rightarrow> servo_t \<Rightarrow> int outcome" where
  "servo_pdo_remap wr s =
     and_then (remap_writes (axis_num s)) (\<lambda>ws.
     Inr (if int (10 + 3 * axis_num s + 4 * axis_num s) \<le> sum_list (map wr ws) then 1 else 0))"

text \<open>
  Up to \<open>chk\<close> attempts; attempt \<open>k\<close> gets its results from \<open>wr k\<close>. The value of the last attempt.
\<close>

fun remap_retry :: "(nat \<Rightarrow> sdo \<Rightarrow> int) \<Rightarrow> servo_t \<Rightarrow> nat \<Rightarrow> nat \<Rightarrow> int outcome" where
  "remap_retry wr s k 0 = Inr 0"
| "remap_retry wr s k (Suc n) =
     and_then (servo_pdo_remap (wr k) s) (\<lambda>ret.
     if ret \<noteq> 0 then Inr ret else if n = 0 then Inr ret else remap_retry wr s (k + 1) n)"

definition EtherCAT_servo_setup ::
    "(nat \<Rightarrow> sdo \<Rightarrow> int) \<Rightarrow> servo_t list \<Rightarrow> int \<Rightarrow> int outcome" where
  "EtherCAT_servo_setup wr servos sl =
     (case find (\<lambda>s. slave_id s + 1 = sl) servos of
        None \<Rightarrow> Inr 0
      | Some s \<Rightarrow>
          and_then (remap_retry wr s 0 10) (\<lambda>ret. Inr (if ret = 0 then 0 else - 1)))"

subsection \<open>The drive state machine\<close>

datatype axle_state =
    no_ready_to_switch_on
  | switch_on_disable
  | ready_to_switch_on
  | switched_on
  | operation_enable
  | quick_stop_active
  | fault_reaction_active
  | drive_fault

definition get_axle_state :: "u16 \<Rightarrow> axle_state" where
  "get_axle_state w =
     (if w AND 0x4F = 0x40 then switch_on_disable
      else if w AND 0x6F = 0x21 then ready_to_switch_on
      else if w AND 0x6F = 0x23 then switched_on
      else if w AND 0x6F = 0x27 then operation_enable
      else if w AND 0x6F = 0x07 then quick_stop_active
      else if w AND 0x4F = 0xF then fault_reaction_active
      else if w AND 0x4F = 0x08 then drive_fault
      else no_ready_to_switch_on)"

definition contrlword_shutdown :: "u16 \<Rightarrow> u16" where
  "contrlword_shutdown c = (c OR 0x6) AND NOT 0x81"

definition contrlword_switch_on :: "u16 \<Rightarrow> u16" where
  "contrlword_switch_on c = (c OR 0x7) AND NOT 0x88"

definition contrlword_enable_operation :: "u16 \<Rightarrow> u16" where
  "contrlword_enable_operation c = (c OR 0xF) AND NOT 0x80"

record pdo_image =
  status_word :: u16
  actual_position :: u32
  actual_velocity :: u32
  control_word :: u16
  op_mode :: u8
  target_position :: u32

definition op_mode_csp :: u8 where "op_mode_csp = 8"

definition axis_start :: "u8 \<Rightarrow> pdo_image \<Rightarrow> int \<times> pdo_image" where
  "axis_start mode p =
     (let s = status_word p
      in if s AND 0x8 \<noteq> 0 then (0, p\<lparr>control_word := 0x80\<rparr>)
         else
           (case get_axle_state s of
              no_ready_to_switch_on \<Rightarrow> (0, p\<lparr>control_word := contrlword_shutdown 0\<rparr>)
            | switch_on_disable \<Rightarrow> (0, p\<lparr>control_word := contrlword_shutdown 0\<rparr>)
            | ready_to_switch_on \<Rightarrow> (0, p\<lparr>control_word := contrlword_switch_on 0\<rparr>)
            | switched_on \<Rightarrow>
                (0, p\<lparr>control_word := contrlword_enable_operation 0, op_mode := mode\<rparr>)
            | operation_enable \<Rightarrow> (1, p)
            | _ \<Rightarrow> (- 1, p)))"

subsection \<open>The trajectory of an axis\<close>

definition TRAJECTORY_PLANNER_MAX :: nat where "TRAJECTORY_PLANNER_MAX = 9"

record trajectory_planner_t =
  points_num :: u32
  current_point :: u32
  origin_pos :: real
  target_pos :: real
  uniform_speed :: real
  accel_pos :: real
  decel_pos :: real
  point_accel_end :: u32
  point_decel_start :: u32
  direction :: int

datatype csp_status_t = csp_status_stop | csp_status_ready | csp_status_running | csp_status_pre_stop

record axis_t =
  current_position :: u32
  current_velocity :: u32
  scale :: u32
  tp_num :: u32
  is_cyclic :: bool
  current_tp :: u32
  acceleration :: real
  deceleration :: real
  max_speed :: real
  csp_status :: csp_status_t
  tps :: "trajectory_planner_t list"

text \<open>The distance from the origin of the move after \<open>index\<close> periods, as the code computes it.\<close>

definition profile :: "real \<Rightarrow> real \<Rightarrow> trajectory_planner_t \<Rightarrow> nat \<Rightarrow> real" where
  "profile a d t index =
     (if index < unat (point_accel_end t) then 0.5 * a * real index * real index
      else if unat (point_decel_start t) < index
      then decel_pos t + 0.5 * d * (real (index - unat (point_decel_start t)))\<^sup>2
      else accel_pos t + uniform_speed t * real (index - unat (point_accel_end t)))"

text \<open>\<open>(int64_t)value & 0xFFFFFFFF\<close>: truncation towards zero, of which the low 32 bits remain.\<close>

definition trunc :: "real \<Rightarrow> int" where
  "trunc x = (if 0 \<le> x then \<lfloor>x\<rfloor> else - \<lfloor>- x\<rfloor>)"

definition to_position :: "real \<Rightarrow> u32 outcome" where
  "to_position x = (if in_i64 (trunc x) then Inr (of_int (trunc x)) else Inl Overflow)"

definition planned_position :: "axis_t \<Rightarrow> trajectory_planner_t \<Rightarrow> real" where
  "planned_position ax t =
     (profile (acceleration ax) (deceleration ax) t (unat (current_point t))
        * real_of_int (direction t) + origin_pos t) * real (unat (scale ax))"

text \<open>The move to the next point, the next trajectory, and the end of the round.\<close>

definition next_point :: "trajectory_planner_t \<Rightarrow> axis_t \<Rightarrow> axis_t" where
  "next_point t ax =
     (let k = unat (current_tp ax); cp = current_point t + 1
      in if cp < points_num t then ax\<lparr>tps := (tps ax)[k := t\<lparr>current_point := cp\<rparr>]\<rparr>
         else
           (let ax1 = ax\<lparr>tps := (tps ax)[k := t\<lparr>current_point := 0\<rparr>],
                         current_tp := current_tp ax + 1\<rparr>
            in if current_tp ax1 < tp_num ax1 then ax1
               else if is_cyclic ax1 \<and> csp_status ax1 \<noteq> csp_status_pre_stop
               then ax1\<lparr>current_tp := 1\<rparr>
               else ax1\<lparr>csp_status := csp_status_stop, current_tp := 0\<rparr>))"

definition axis_nc_get_next_pos :: "axis_t \<Rightarrow> (u32 \<times> axis_t) outcome" where
  "axis_nc_get_next_pos ax =
     and_then (arr_get (tps ax) (unat (current_tp ax))) (\<lambda>t.
     and_then (to_position (planned_position ax t)) (\<lambda>ret.
     Inr (ret, next_point t ax)))"

definition axis_nc_start :: "axis_t \<Rightarrow> axis_t" where
  "axis_nc_start ax = ax\<lparr>csp_status := csp_status_running\<rparr>"

definition axis_nc_stop :: "axis_t \<Rightarrow> axis_t" where
  "axis_nc_stop ax = ax\<lparr>csp_status := csp_status_pre_stop\<rparr>"

definition to_u32 :: "real \<Rightarrow> (u32 \<Rightarrow> 'a outcome) \<Rightarrow> 'a outcome" where
  "to_u32 x k =
     (if 0 \<le> trunc x \<and> trunc x < 2 ^ 32 then k (of_int (trunc x)) else Inl Overflow)"

definition trajectory_planner ::
    "axis_t \<Rightarrow> trajectory_planner_t \<Rightarrow> (int \<times> trajectory_planner_t) outcome" where
  "trajectory_planner ax t =
     (let delta0 = target_pos t - origin_pos t; accel = acceleration ax; decel = deceleration ax;
          n = real (unat (points_num t));
          dir = (if delta0 < 0 then - 1 else 1);
          t1 = t\<lparr>direction := dir\<rparr>;
          delta_pos = delta0 * real_of_int dir
      in if decel = 0 then Inl Div_By_Zero
         else
           (let a0 = 0.5 * (accel + accel * accel / decel); b0 = - accel * n;
                delta = b0 * b0 - 4 * a0 * delta_pos
            in if delta < 0 then Inr (- 1, t1)
               else if a0 = 0 then Inl Div_By_Zero
               else
                 (let x0 = (- 1 * b0 - sqrt delta) / 2 / a0; x1 = n - accel * x0 / decel
                  in if max_speed ax < x0 * accel then Inr (- 2, t1)
                     else
                       to_u32 (x0 + 0.5) (\<lambda>accel_end.
                       to_u32 (x1 + 0.5) (\<lambda>decel_start.
                       Inr (0, t1\<lparr>accel_pos := 0.5 * accel * x0 * x0,
                                   decel_pos := 0.5 * accel * x0 * x0 + accel * x0 * (x1 - x0),
                                   point_accel_end := accel_end, point_decel_start := decel_start,
                                   uniform_speed := accel * x0\<rparr>))))))"

subsection \<open>The clock of the application\<close>

record servo_clock =
  system_ticks :: u64
  ticks_last :: u32
  ticks_per_period :: u32
  notified :: nat

definition rt_task_wakeup_alarm_handler :: "bool \<Rightarrow> u32 \<Rightarrow> servo_clock \<Rightarrow> servo_clock" where
  "rt_task_wakeup_alarm_handler has_task count c =
     (let c1 = c\<lparr>ticks_last := count, system_ticks := system_ticks c + ucast (ticks_per_period c)\<rparr>
      in if has_task then c1\<lparr>notified := notified c1 + 1\<rparr> else c1)"

text \<open>
  \<open>osal_gettime\<close> reads the clock and the counter; \<open>irq\<close> is the interrupt that may come between
  these reads and the check, and \<open>count2\<close> the counter at the second reading.
\<close>

definition gettime_ticks ::
    "(servo_clock \<Rightarrow> servo_clock) \<Rightarrow> u32 \<Rightarrow> u32 \<Rightarrow> servo_clock \<Rightarrow> u64" where
  "gettime_ticks irq count1 count2 c =
     (let c' = irq c;
          changed = (system_ticks c \<noteq> system_ticks c' \<or> ticks_last c \<noteq> ticks_last c');
          sys = (if changed then system_ticks c' else system_ticks c);
          last = (if changed then ticks_last c' else ticks_last c);
          ticks = (if changed then count2 else count1)
      in sys + ucast (if last < ticks then ticks - last else 0xFFFFFFFF - last + ticks))"

definition osal_gettime ::
    "os_counter_ops \<Rightarrow> os_counter \<Rightarrow> (servo_clock \<Rightarrow> servo_clock) \<Rightarrow> u32 \<Rightarrow> u32 \<Rightarrow> servo_clock \<Rightarrow>
       (u64 \<times> u64) outcome" where
  "osal_gettime ops d irq count1 count2 c =
     and_then (os_counter_ticks_to_ns ops d (ucast (gettime_ticks irq count1 count2 c))) (\<lambda>ns.
     Inr (ns div 1000000000, (ns mod 1000000000) div 1000))"

subsection \<open>One period of the control task\<close>

text \<open>
  One round of the cyclic loop of \<open>control_task\<close>, for the one configured axis: the work counter
  and the process image received, and what the round leaves: the image to send and whether the loop
  goes on.
\<close>

record control_state =
  ct_axis :: axis_t
  ct_pdo :: pdo_image
  wkc_lost :: nat
  cyc_time :: nat

datatype loop_round = Round_On | Round_Break

definition control_round :: "int \<Rightarrow> int \<Rightarrow> control_state \<Rightarrow> (loop_round \<times> control_state) outcome" where
  "control_round expected wkc s =
     (let s1 = s\<lparr>cyc_time := cyc_time s + 1\<rparr>;
          (ret, p) = axis_start op_mode_csp (ct_pdo s1);
          s2 = s1\<lparr>ct_pdo := p\<rparr>
      in if ret \<noteq> 1 then Inr (Round_On, s2)
         else if expected \<le> wkc then
           (let ax = (ct_axis s2)\<lparr>current_velocity := actual_velocity p,
                                   current_position := actual_position p\<rparr>
            in and_then
                 (if csp_status ax = csp_status_running \<or> csp_status ax = csp_status_pre_stop
                  then and_then (axis_nc_get_next_pos ax) (\<lambda>(pos, ax').
                       Inr (s2\<lparr>ct_axis := ax', ct_pdo := p\<lparr>target_position := pos\<rparr>\<rparr>))
                  else Inr (s2\<lparr>ct_axis := ax\<rparr>)) (\<lambda>s3.
               Inr (if csp_status (ct_axis s3) = csp_status_stop then Round_Break else Round_On, s3)))
         else
           (let s3 = s2\<lparr>wkc_lost := wkc_lost s2 + 1\<rparr>
            in Inr (if 10 < wkc_lost s3 then Round_Break else Round_On, s3)))"

subsection \<open>Bringing a drive to operation\<close>

text \<open>
  A drive is its state \<open>'d\<close>, its status word, and its reaction to a control word received while
  the previous one was \<open>c\<close>. \<open>cia402\<close> is what the CiA 402 profile prescribes for the transitions that
  \<open>axis_start\<close> relies on: under the command for it a transition is made, after at most \<open>T\<close> cycles in
  which the drive stays where it is, \<open>lag\<close> being how many of them are left; no fault comes in between.
  A fault (state fault, not fault reaction active) is reset by a rising edge of bit 7, at once or
  after a time in which the drive is \<open>resetting\<close>.
\<close>

definition axle_of :: "('d \<Rightarrow> u16) \<Rightarrow> 'd \<Rightarrow> axle_state" where
  "axle_of status d = get_axle_state (status d)"

definition in_phase :: "('d \<Rightarrow> u16) \<Rightarrow> axle_state \<Rightarrow> 'd \<Rightarrow> bool" where
  "in_phase status a d \<longleftrightarrow> axle_of status d = a \<and> status d AND 0x8 = 0"

definition proceeds ::
    "('d \<Rightarrow> u16) \<Rightarrow> ('d \<Rightarrow> nat) \<Rightarrow> axle_state \<Rightarrow> axle_state \<Rightarrow> 'd \<Rightarrow> 'd \<Rightarrow> bool" where
  "proceeds status lag a b d d' \<longleftrightarrow>
     in_phase status b d' \<or> in_phase status a d' \<and> lag d' < lag d"

definition cia402 ::
    "('d \<Rightarrow> u16) \<Rightarrow> (u16 \<Rightarrow> u16 \<Rightarrow> 'd \<Rightarrow> 'd) \<Rightarrow> ('d \<Rightarrow> nat) \<Rightarrow> nat \<Rightarrow> bool" where
  "cia402 status react lag T \<longleftrightarrow>
     (\<forall>d. lag d \<le> T)
   \<and> (\<forall>c d. (in_phase status no_ready_to_switch_on d \<longrightarrow>
            proceeds status lag no_ready_to_switch_on switch_on_disable d (react c 0x6 d))
        \<and> (in_phase status switch_on_disable d \<longrightarrow>
            proceeds status lag switch_on_disable ready_to_switch_on d (react c 0x6 d))
        \<and> (in_phase status ready_to_switch_on d \<longrightarrow>
            proceeds status lag ready_to_switch_on switched_on d (react c 0x7 d))
        \<and> (in_phase status switched_on d \<longrightarrow>
            proceeds status lag switched_on operation_enable d (react c 0xF d))
        \<and> (in_phase status operation_enable d \<longrightarrow> in_phase status operation_enable (react c 0xF d)))"

definition resets_fault ::
    "('d \<Rightarrow> u16) \<Rightarrow> (u16 \<Rightarrow> u16 \<Rightarrow> 'd \<Rightarrow> 'd) \<Rightarrow> ('d \<Rightarrow> nat) \<Rightarrow> ('d \<Rightarrow> bool) \<Rightarrow> bool" where
  "resets_fault status react lag resetting \<longleftrightarrow>
     (\<forall>c d. axle_of status d = drive_fault \<and> (c AND 0x80 = 0 \<or> resetting d) \<longrightarrow>
        in_phase status switch_on_disable (react c 0x80 d)
        \<or> axle_of status (react c 0x80 d) = drive_fault \<and> resetting (react c 0x80 d)
          \<and> lag (react c 0x80 d) < lag d)"

text \<open>One cycle of the bus: the task reads the status, writes its control word, the drive reacts.\<close>

definition drive_cycle ::
    "('d \<Rightarrow> u16) \<Rightarrow> (u16 \<Rightarrow> u16 \<Rightarrow> 'd \<Rightarrow> 'd) \<Rightarrow> u8 \<Rightarrow> 'd \<times> pdo_image \<Rightarrow> 'd \<times> pdo_image" where
  "drive_cycle status react mode x =
     (let (d, p) = x;
          p1 = snd (axis_start mode (p\<lparr>status_word := status d\<rparr>))
      in (react (control_word p) (control_word p1) d, p1))"

lemma controlwords:
  "contrlword_shutdown 0 = 0x6" "contrlword_switch_on 0 = 0x7" "contrlword_enable_operation 0 = 0xF"
  by (simp_all add: contrlword_shutdown_def contrlword_switch_on_def contrlword_enable_operation_def)

definition operating :: "('d \<Rightarrow> u16) \<Rightarrow> u8 \<Rightarrow> 'd \<times> pdo_image \<Rightarrow> bool" where
  "operating status mode x \<longleftrightarrow>
     (case x of (d, p) \<Rightarrow> axle_of status d = operation_enable \<and> status d AND 0x8 = 0
        \<and> control_word p = 0xF \<and> op_mode p = mode)"

lemma fault_bit: "get_axle_state w = drive_fault \<Longrightarrow> w AND 0x8 \<noteq> 0"
  "get_axle_state w = fault_reaction_active \<Longrightarrow> w AND 0x8 \<noteq> 0"
proof -
  have b: "(w AND 0x4F) AND 0x8 = w AND 0x8" by (simp add: and.assoc)
  show "get_axle_state w = drive_fault \<Longrightarrow> w AND 0x8 \<noteq> 0"
    "get_axle_state w = fault_reaction_active \<Longrightarrow> w AND 0x8 \<noteq> 0"
    unfolding b [symmetric] by (auto simp: get_axle_state_def split: if_splits)
qed

text \<open>The cycles a drive is at most away from operation.\<close>

definition distance :: "('d \<Rightarrow> u16) \<Rightarrow> ('d \<Rightarrow> nat) \<Rightarrow> nat \<Rightarrow> 'd \<Rightarrow> nat" where
  "distance status lag T d =
     (case axle_of status d of
        switched_on \<Rightarrow> 0
      | ready_to_switch_on \<Rightarrow> T + 1
      | switch_on_disable \<Rightarrow> 2 * (T + 1)
      | _ \<Rightarrow> 3 * (T + 1)) + lag d + 1"

definition starting ::
    "('d \<Rightarrow> u16) \<Rightarrow> ('d \<Rightarrow> bool) \<Rightarrow> 'd \<times> pdo_image \<Rightarrow> bool" where
  "starting status resetting x \<longleftrightarrow>
     (case x of (d, p) \<Rightarrow>
        (\<exists>a \<in> {no_ready_to_switch_on, switch_on_disable, ready_to_switch_on, switched_on}. in_phase status a d)
      \<or> axle_of status d = drive_fault \<and> (control_word p AND 0x80 = 0 \<or> resetting d))"

text \<open>Every cycle brings the drive nearer.\<close>

lemma cycle_starting:
  assumes "cia402 status react lag T" "resets_fault status react lag resetting" "starting status resetting x"
  shows "operating status mode (drive_cycle status react mode x)
    \<or> starting status resetting (drive_cycle status react mode x)
      \<and> distance status lag T (fst (drive_cycle status react mode x)) < distance status lag T (fst x)"
proof -
  obtain d p where x: "x = (d, p)" by (cases x)
  let ?c = "control_word p"
  have T: "lag e \<le> T" for e using assms(1) by (simp add: cia402_def)
  note unf = x drive_cycle_def axis_start_def Let_def controlwords axle_of_def [symmetric]
  have ph: "axle_of status d = a \<and> status d AND 0x8 = 0" if "in_phase status a d" for a d
    using that by (simp add: in_phase_def)
  consider (no) "in_phase status no_ready_to_switch_on d" | (dis) "in_phase status switch_on_disable d"
    | (ready) "in_phase status ready_to_switch_on d" | (on) "in_phase status switched_on d"
    | (flt) "axle_of status d = drive_fault" "?c AND 0x80 = 0 \<or> resetting d"
    using assms(3) by (auto simp: starting_def x)
  then show ?thesis
  proof cases
    case no
    have "proceeds status lag no_ready_to_switch_on switch_on_disable d (react ?c 0x6 d)"
      using assms(1) no by (simp add: cia402_def)
    then show ?thesis using ph [OF no] T [of "react ?c 0x6 d"]
      by (auto simp: unf proceeds_def starting_def distance_def in_phase_def)
  next
    case dis
    have "proceeds status lag switch_on_disable ready_to_switch_on d (react ?c 0x6 d)"
      using assms(1) dis by (simp add: cia402_def)
    then show ?thesis using ph [OF dis] T [of "react ?c 0x6 d"]
      by (auto simp: unf proceeds_def starting_def distance_def in_phase_def)
  next
    case ready
    have "proceeds status lag ready_to_switch_on switched_on d (react ?c 0x7 d)"
      using assms(1) ready by (simp add: cia402_def)
    then show ?thesis using ph [OF ready] T [of "react ?c 0x7 d"]
      by (auto simp: unf proceeds_def starting_def distance_def in_phase_def)
  next
    case on
    have "proceeds status lag switched_on operation_enable d (react ?c 0xF d)"
      using assms(1) on by (simp add: cia402_def)
    then show ?thesis using ph [OF on]
      by (auto simp: unf proceeds_def starting_def distance_def in_phase_def operating_def)
  next
    case flt
    have "status d AND 0x8 \<noteq> 0" using flt(1) fault_bit(1) by (simp add: axle_of_def)
    moreover have "in_phase status switch_on_disable (react ?c 0x80 d)
        \<or> axle_of status (react ?c 0x80 d) = drive_fault \<and> resetting (react ?c 0x80 d) \<and> lag (react ?c 0x80 d) < lag d"
      using assms(2) flt by (simp add: resets_fault_def)
    ultimately show ?thesis using flt(1) T [of "react ?c 0x80 d"]
      by (auto simp: unf starting_def distance_def in_phase_def)
  qed
qed

lemma cycle_operating:
  assumes "cia402 status react lag T" "operating status mode x"
  shows "operating status mode (drive_cycle status react mode x)"
  using assms
  by (cases x) (simp add: drive_cycle_def axis_start_def Let_def cia402_def axle_of_def operating_def in_phase_def)

lemma operating_stays:
  assumes "cia402 status react lag T" "operating status mode x"
  shows "operating status mode ((drive_cycle status react mode ^^ n) x)"
  using assms by (induction n) (simp_all add: cycle_operating)

lemma starting_operates:
  assumes "cia402 status react lag T" "resets_fault status react lag resetting"
    and "starting status resetting x" "distance status lag T (fst x) \<le> n"
  shows "operating status mode ((drive_cycle status react mode ^^ n) x)"
  using assms(3,4)
proof (induction n arbitrary: x)
  case 0
  then show ?case by (simp add: distance_def)
next
  case (Suc n)
  show ?case
    using cycle_starting [OF assms(1,2) Suc.prems(1), of mode]
  proof
    assume "operating status mode (drive_cycle status react mode x)"
    from operating_stays [OF assms(1) this, of n] show ?thesis by (simp add: funpow_swap1)
  next
    assume "starting status resetting (drive_cycle status react mode x)
      \<and> distance status lag T (fst (drive_cycle status react mode x)) < distance status lag T (fst x)"
    then show ?thesis using Suc.IH [of "drive_cycle status react mode x"] Suc.prems(2) by (simp add: funpow_swap1)
  qed
qed

text \<open>
  C28: The control task brings a conforming drive to operation and keeps it there. The
  assumption on the drive is a model of CiA 402: under the command for it, each transition is
  made after at most \<open>T\<close> cycles in which the drive stays where it is, no fault
  comes in between (\<open>cia402\<close>), and a fault is reset by a rising edge of bit 7,
  within the same time (\<open>resets_fault\<close>). Then the drive is in operation from the
  disabled state after 3 (T + 1) cycles, and from not ready, or from the state fault when the
  control word did not ask for a reset before, after 4 (T + 1) cycles, three and four for a
  drive that reacts at once; and from then on every cycle finds it enabled, so that
  \<open>axis_start\<close> returns 1, in the operating mode the task asked for. The state fault
  reaction active is not included: there the edge is lost (\<open>reset_edge_lost\<close>).
\<close>

theorem drive_reaches_operation:
  assumes "cia402 status react lag T" "resets_fault status react lag resetting"
    and "in_phase status switch_on_disable d \<and> 3 * (T + 1) \<le> n
      \<or> in_phase status no_ready_to_switch_on d \<and> 4 * (T + 1) \<le> n
      \<or> axle_of status d = drive_fault \<and> control_word p AND 0x80 = 0 \<and> 4 * (T + 1) \<le> n"
    and "(d', p') = (drive_cycle status react mode ^^ n) (d, p)"
  shows "axis_start mode (p'\<lparr>status_word := status d'\<rparr>) = (1, p'\<lparr>status_word := status d'\<rparr>)
     \<and> op_mode p' = mode \<and> control_word p' = 0xF"
proof -
  have "lag d \<le> T" using assms(1) by (simp add: cia402_def)
  then have "starting status resetting (d, p)" "distance status lag T (fst (d, p)) \<le> n"
    using assms(3) by (auto simp: starting_def distance_def in_phase_def)
  then have "operating status mode (d', p')"
    using starting_operates [OF assms(1,2)] assms(4) by simp
  then show ?thesis by (simp add: operating_def axis_start_def axle_of_def Let_def)
qed

text \<open>A drive that takes two cycles for every transition, and whose fault is reset at once.\<close>

definition ex_next :: "u16 \<Rightarrow> u16 \<Rightarrow> u16 \<Rightarrow> u16" where
  "ex_next c c' d =
     (if get_axle_state d = drive_fault then (if c' AND 0x80 \<noteq> 0 \<and> c AND 0x80 = 0 then 0x40 else d)
      else if get_axle_state d = fault_reaction_active then 0x08
      else if get_axle_state d = no_ready_to_switch_on then 0x40
      else if get_axle_state d = switch_on_disable \<and> c' = 0x6 then 0x21
      else if get_axle_state d = ready_to_switch_on \<and> c' = 0x7 then 0x23
      else if get_axle_state d = switched_on \<and> c' = 0xF then 0x27
      else d)"

definition ex_react :: "u16 \<Rightarrow> u16 \<Rightarrow> u16 \<times> bool \<Rightarrow> u16 \<times> bool" where
  "ex_react c c' x =
     (case x of (d, slow) \<Rightarrow>
        if slow \<and> get_axle_state d \<noteq> drive_fault then (d, False) else (ex_next c c' d, True))"

definition ex_lag :: "u16 \<times> bool \<Rightarrow> nat" where "ex_lag x = (if snd x then 1 else 0)"

definition ex_image :: pdo_image where
  "ex_image = \<lparr>status_word = 0, actual_position = 0, actual_velocity = 0, control_word = 0,
     op_mode = 0, target_position = 0\<rparr>"

lemma ex_react_ok: "cia402 fst ex_react ex_lag 1" "resets_fault fst ex_react ex_lag (\<lambda>_. False)"
  by (auto simp: cia402_def resets_fault_def axle_of_def in_phase_def proceeds_def ex_lag_def ex_react_def
      ex_next_def get_axle_state_def dest: fault_bit(1))

lemma drive_reaches_operation_witness:
  "\<exists>d' p'. (drive_cycle fst ex_react 8 ^^ 8) ((0x08, True), ex_image) = (d', p')
     \<and> fst (axis_start 8 (p'\<lparr>status_word := fst d'\<rparr>)) = 1 \<and> op_mode p' = 8"
proof -
  obtain d' p' where e: "(d', p') = (drive_cycle fst ex_react 8 ^^ 8) ((0x08, True), ex_image)"
    by (metis surj_pair)
  have "axle_of fst (0x08 :: u16, True) = drive_fault" by (simp add: axle_of_def get_axle_state_def)
  then have "fst (axis_start 8 (p'\<lparr>status_word := fst d'\<rparr>)) = 1 \<and> op_mode p' = 8"
    using drive_reaches_operation [OF ex_react_ok, of "(0x08, True)" 8 ex_image d' p' 8] e
    by (simp add: ex_image_def)
  then show ?thesis using e by (intro exI [of _ d'] exI [of _ p']) simp
qed

text \<open>
  The reset is asked for in every state with bit 3, also while the drive still reacts to its fault, and
  then never withdrawn: a drive that takes the edge only in the state fault never sees one.
\<close>

lemma reset_edge_lost:
  assumes edge: "\<And>c d. status d AND 0x8 \<noteq> 0 \<Longrightarrow> axle_of status d = fault_reaction_active \<or> c AND 0x80 \<noteq> 0
      \<Longrightarrow> status (react c 0x80 d) AND 0x8 \<noteq> 0"
    and "axle_of status d = fault_reaction_active" "(d', p') = (drive_cycle status react mode ^^ n) (d, p)"
  shows "fst (axis_start mode (p'\<lparr>status_word := status d'\<rparr>)) = 0"
proof -
  have "status d' AND 0x8 \<noteq> 0 \<and> (n = 0 \<or> control_word p' AND 0x80 \<noteq> 0)"
    using assms(3)
  proof (induction n arbitrary: d' p')
    case 0
    then show ?case using assms(2) fault_bit(2) by (simp add: axle_of_def)
  next
    case (Suc n)
    obtain e q where e: "(drive_cycle status react mode ^^ n) (d, p) = (e, q)" by (cases "(drive_cycle status react mode ^^ n) (d, p)")
    have IH: "status e AND 0x8 \<noteq> 0" "n = 0 \<or> control_word q AND 0x80 \<noteq> 0" using Suc.IH e by simp_all
    have "n = 0 \<Longrightarrow> e = d" using e by simp
    then have "axle_of status e = fault_reaction_active \<or> control_word q AND 0x80 \<noteq> 0" using IH(2) assms(2) by auto
    note fault = edge [OF IH(1) this]
    have "(d', p') = drive_cycle status react mode (e, q)" using Suc.prems e by simp
    then show ?case using fault IH(1) by (simp add: drive_cycle_def axis_start_def Let_def)
  qed
  then show ?thesis by (simp add: axis_start_def Let_def)
qed

subsection \<open>A sequence of moves\<close>

fun run_moves :: "nat \<Rightarrow> axis_t \<Rightarrow> (u32 list \<times> axis_t) outcome" where
  "run_moves 0 ax = Inr ([], ax)"
| "run_moves (Suc n) ax =
     and_then (axis_nc_get_next_pos ax) (\<lambda>(p, ax1).
     and_then (run_moves n ax1) (\<lambda>(ps, ax2). Inr (p # ps, ax2)))"

lemma run_moves_add:
  "run_moves (m + n) ax =
     and_then (run_moves m ax) (\<lambda>(ps, ax1).
     and_then (run_moves n ax1) (\<lambda>(qs, ax2). Inr (ps @ qs, ax2)))"
proof (induction m arbitrary: ax)
  case 0
  show ?case by (cases "run_moves n ax") auto
next
  case (Suc m)
  show ?case
  proof (cases "axis_nc_get_next_pos ax")
    case (Inr r)
    obtain p ax1 where r: "r = (p, ax1)" by (cases r)
    show ?thesis
    proof (cases "run_moves m ax1")
      case (Inr q)
      obtain ps ax2 where q: "q = (ps, ax2)" by (cases q)
      show ?thesis
        using \<open>axis_nc_get_next_pos ax = Inr r\<close> Inr r q
        by (cases "run_moves n ax2") (auto simp: Suc.IH)
    qed (use \<open>axis_nc_get_next_pos ax = Inr r\<close> r in \<open>simp add: Suc.IH\<close>)
  qed simp
qed

text \<open>
  The number of periods a move takes, the positions it commands, and the state of an axis that has
  commanded the first \<open>i\<close> points of move \<open>k\<close>; \<open>ax\<close> is the axis with every move at its start.
\<close>

definition periods :: "trajectory_planner_t \<Rightarrow> nat" where
  "periods t = max 1 (unat (points_num t))"

definition point_pos :: "axis_t \<Rightarrow> trajectory_planner_t \<Rightarrow> nat \<Rightarrow> real" where
  "point_pos ax t i = planned_position ax (t\<lparr>current_point := of_nat i\<rparr>)"

definition commanded :: "axis_t \<Rightarrow> trajectory_planner_t \<Rightarrow> nat \<Rightarrow> u32" where
  "commanded ax t i = of_int (trunc (point_pos ax t i))"

definition at_point :: "axis_t \<Rightarrow> nat \<Rightarrow> nat \<Rightarrow> axis_t" where
  "at_point ax k i =
     ax\<lparr>current_tp := of_nat k, tps := (tps ax)[k := (tps ax ! k)\<lparr>current_point := of_nat i\<rparr>]\<rparr>"

definition goes_on :: "axis_t \<Rightarrow> bool" where
  "goes_on ax \<longleftrightarrow> is_cyclic ax \<and> csp_status ax \<noteq> csp_status_pre_stop"

definition round_end :: "axis_t \<Rightarrow> axis_t" where
  "round_end ax =
     (if goes_on ax then at_point ax 1 0 else ax\<lparr>csp_status := csp_status_stop, current_tp := 0\<rparr>)"

definition moves_ok :: "axis_t \<Rightarrow> bool" where
  "moves_ok ax \<longleftrightarrow> unat (tp_num ax) \<le> length (tps ax)
     \<and> (goes_on ax \<longrightarrow> 1 < unat (tp_num ax))
     \<and> (\<forall>t \<in> set (tps ax). current_point t = 0 \<and> (\<forall>i < periods t. in_i64 (trunc (point_pos ax t i))))"

lemma planned_position_cong:
  "acceleration ax' = acceleration ax \<Longrightarrow> deceleration ax' = deceleration ax \<Longrightarrow>
   scale ax' = scale ax \<Longrightarrow> planned_position ax' t = planned_position ax t"
  by (simp add: planned_position_def)

lemma at_point_start:
  assumes "moves_ok ax" "k < length (tps ax)"
  shows "at_point ax k 0 = ax\<lparr>current_tp := of_nat k\<rparr>"
proof -
  have "current_point (tps ax ! k) = 0" using assms by (auto simp: moves_ok_def)
  then have "(tps ax ! k)\<lparr>current_point := 0\<rparr> = tps ax ! k" by simp
  then show ?thesis by (simp add: at_point_def)
qed

lemma periods_lt: "periods t < 2 ^ 32"
  using unsigned_less [of "points_num t", where ?'a = nat] by (simp add: periods_def)

lemma next_at_point:
  assumes ok: "moves_ok ax" and k: "k < unat (tp_num ax)" and i: "i < periods (tps ax ! k)"
  shows "axis_nc_get_next_pos (at_point ax k i) =
    Inr (commanded ax (tps ax ! k) i,
      if Suc i < periods (tps ax ! k) then at_point ax k (Suc i)
      else if Suc k < unat (tp_num ax) then at_point ax (Suc k) 0
      else round_end ax)"
proof -
  define t where "t = tps ax ! k"
  have len: "k < length (tps ax)" and k32: "unat (of_nat k :: u32) = k"
    using ok k unsigned_less [of "tp_num ax", where ?'a = nat] by (auto simp: moves_ok_def)
  have t: "t \<in> set (tps ax)" "current_point t = 0" using ok len by (auto simp: t_def moves_ok_def)
  have i32: "unat (of_nat i :: u32) = i" "unat (of_nat (Suc i) :: u32) = Suc i"
    using i periods_lt [of t] unfolding t_def by (rule_tac [!] unat_of_nat_below) simp_all
  have get: "arr_get (tps (at_point ax k i)) (unat (current_tp (at_point ax k i))) =
      Inr (t\<lparr>current_point := of_nat i\<rparr>)"
    using len k32 by (simp add: at_point_def t_def)
  have "planned_position (at_point ax k i) (t\<lparr>current_point := of_nat i\<rparr>) = point_pos ax t i"
    unfolding point_pos_def by (rule planned_position_cong) (simp_all add: at_point_def)
  moreover have "in_i64 (trunc (point_pos ax t i))"
    using ok t(1) i by (simp add: moves_ok_def t_def)
  ultimately have pos: "to_position (planned_position (at_point ax k i) (t\<lparr>current_point := of_nat i\<rparr>)) =
      Inr (commanded ax t i)"
    by (simp add: to_position_def commanded_def)
  have "next_point (t\<lparr>current_point := of_nat i\<rparr>) (at_point ax k i) =
      (if Suc i < periods t then at_point ax k (Suc i)
       else if Suc k < unat (tp_num ax) then at_point ax (Suc k) 0 else round_end ax)"
  proof (cases "Suc i < periods t")
    case True
    then have "(of_nat i :: u32) + 1 < points_num t"
      using i32 by (auto simp: word_less_nat_alt periods_def add.commute)
    then show ?thesis
      using True k32 by (simp add: next_point_def at_point_def Let_def add.commute t_def)
  next
    case False
    then have last: "Suc i = periods t" using i by (simp add: t_def)
    have "\<not> (of_nat i :: u32) + 1 < points_num t"
    proof (cases "unat (points_num t) = 0")
      case True
      then show ?thesis by (simp add: word_less_nat_alt)
    next
      case nz: False
      then have "Suc i = unat (points_num t)" using last by (simp add: periods_def)
      then have "(of_nat i :: u32) + 1 = points_num t"
        by (metis Suc_eq_plus1 of_nat_1 of_nat_add of_nat_unat ucast_id)
      then show ?thesis by simp
    qed
    moreover have "(tps ax)[k := t\<lparr>current_point := 0\<rparr>] = tps ax"
    proof -
      have "t\<lparr>current_point := 0\<rparr> = tps ax ! k" using t(2) by (simp add: t_def)
      then show ?thesis by simp
    qed
    moreover have "unat (of_nat k + 1 :: u32) = Suc k"
    proof -
      have "unat (of_nat (Suc k) :: u32) = Suc k"
        using k unsigned_less [of "tp_num ax", where ?'a = nat] by (intro unat_of_nat_below) simp
      then show ?thesis by (simp add: add.commute)
    qed
    ultimately have "next_point (t\<lparr>current_point := of_nat i\<rparr>) (at_point ax k i) =
        (if Suc k < unat (tp_num ax) then ax\<lparr>current_tp := of_nat (Suc k)\<rparr>
         else if goes_on ax then ax\<lparr>current_tp := 1\<rparr>
         else ax\<lparr>csp_status := csp_status_stop, current_tp := 0\<rparr>)"
      using k32 by (simp add: next_point_def at_point_def Let_def word_less_nat_alt goes_on_def add.commute)
    moreover have "at_point ax (Suc k) 0 = ax\<lparr>current_tp := of_nat (Suc k)\<rparr>"
      if "Suc k < unat (tp_num ax)"
      using that ok by (intro at_point_start) (auto simp: moves_ok_def)
    moreover have "at_point ax 1 0 = ax\<lparr>current_tp := 1\<rparr>" if "goes_on ax"
      using that ok at_point_start [of ax 1] by (auto simp: moves_ok_def)
    ultimately show ?thesis using False by (auto simp: round_end_def)
  qed
  then show ?thesis
    using get pos by (simp add: axis_nc_get_next_pos_def t_def)
qed

lemma run_rest_of_move:
  assumes "moves_ok ax" "k < unat (tp_num ax)" "i \<le> periods (tps ax ! k)" "i < periods (tps ax ! k)"
  shows "run_moves (periods (tps ax ! k) - i) (at_point ax k i) =
    Inr (map (commanded ax (tps ax ! k)) [i..<periods (tps ax ! k)],
      if Suc k < unat (tp_num ax) then at_point ax (Suc k) 0 else round_end ax)"
  using assms(4)
proof (induction "periods (tps ax ! k) - i" arbitrary: i)
  case (Suc n)
  define N where "N = periods (tps ax ! k)"
  have i: "i < N" using Suc.prems by (simp add: N_def)
  have n: "N - i = Suc n" "n = N - Suc i" using Suc.hyps(2) by (simp_all add: N_def)
  have step: "axis_nc_get_next_pos (at_point ax k i) =
      Inr (commanded ax (tps ax ! k) i,
        if Suc i < N then at_point ax k (Suc i)
        else if Suc k < unat (tp_num ax) then at_point ax (Suc k) 0 else round_end ax)"
    using next_at_point [OF assms(1,2)] i by (simp add: N_def)
  show ?case
  proof (cases "Suc i < N")
    case True
    have "run_moves n (at_point ax k (Suc i)) =
        Inr (map (commanded ax (tps ax ! k)) [Suc i..<N],
          if Suc k < unat (tp_num ax) then at_point ax (Suc k) 0 else round_end ax)"
      using Suc.hyps(1) [of "Suc i"] n True by (simp add: N_def)
    then show ?thesis
      using step True n i by (simp add: N_def [symmetric] upt_conv_Cons)
  next
    case False
    then have "Suc i = N" using i by simp
    then have "n = 0" "[i..<N] = [i]" using n by (auto simp: upt_conv_Cons)
    then show ?thesis using step False n by (simp add: N_def [symmetric])
  qed
qed simp

definition round_positions :: "axis_t \<Rightarrow> nat \<Rightarrow> u32 list" where
  "round_positions ax k =
     concat (map (\<lambda>j. map (commanded ax (tps ax ! j)) [0..<periods (tps ax ! j)])
       [k..<unat (tp_num ax)])"

lemma run_round:
  assumes "moves_ok ax" "k < unat (tp_num ax)"
  shows "run_moves (length (round_positions ax k)) (at_point ax k 0) =
    Inr (round_positions ax k, round_end ax)"
  using assms(2)
proof (induction "unat (tp_num ax) - Suc k" arbitrary: k)
  case 0
  then have k: "Suc k = unat (tp_num ax)" by simp
  have "0 < periods (tps ax ! k)" by (simp add: periods_def)
  moreover have "round_positions ax k =
      map (commanded ax (tps ax ! k)) [0..<periods (tps ax ! k)]"
    by (simp add: round_positions_def k [symmetric])
  ultimately show ?case
    using run_rest_of_move [OF assms(1) 0(2), of 0] k by simp
next
  case (Suc n)
  let ?p = "periods (tps ax ! k)"
  have k: "Suc k < unat (tp_num ax)" using Suc.hyps(2) by simp
  have rp: "round_positions ax k = map (commanded ax (tps ax ! k)) [0..<?p] @ round_positions ax (Suc k)"
    using Suc.prems by (simp add: round_positions_def upt_conv_Cons)
  have "0 < ?p" by (simp add: periods_def)
  then have "run_moves ?p (at_point ax k 0) =
      Inr (map (commanded ax (tps ax ! k)) [0..<?p], at_point ax (Suc k) 0)"
    using run_rest_of_move [OF assms(1) Suc.prems, of 0] k by simp
  moreover have "run_moves (length (round_positions ax (Suc k))) (at_point ax (Suc k) 0) =
      Inr (round_positions ax (Suc k), round_end ax)"
    using Suc.hyps k by (intro Suc.hyps(1)) simp_all
  ultimately show ?case
    unfolding rp length_append by (simp add: run_moves_add)
qed

text \<open>
  C23: The moves of an axis run to their end and in order. Starting at move k, the cyclic task
  commands, one per period, exactly the points of moves k, k+1, ... of the table, each move taking its
  number of periods (at least one); after the last point the axis is stopped at move 0, or, when the
  table is cyclic and no stop was requested, it is at the start of move 1 again with every move
  restored, so that it repeats the round for ever.
\<close>

theorem moves_run_to_their_end:
  assumes "moves_ok ax" "k < unat (tp_num ax)" "current_tp ax = of_nat k"
  shows "run_moves (length (round_positions ax k)) ax =
      Inr (round_positions ax k,
        if is_cyclic ax \<and> csp_status ax \<noteq> csp_status_pre_stop
        then ax\<lparr>current_tp := 1\<rparr> else ax\<lparr>csp_status := csp_status_stop, current_tp := 0\<rparr>)
    \<and> unat (tp_num ax) - k \<le> length (round_positions ax k)"
proof -
  have len: "k < length (tps ax)" using assms(1,2) by (simp add: moves_ok_def)
  have "at_point ax k 0 = ax"
    using at_point_start [OF assms(1) len] assms(3) by simp
  moreover have "round_end ax = (if is_cyclic ax \<and> csp_status ax \<noteq> csp_status_pre_stop
      then ax\<lparr>current_tp := 1\<rparr> else ax\<lparr>csp_status := csp_status_stop, current_tp := 0\<rparr>)"
    using at_point_start [OF assms(1), of 1] assms(1)
    by (auto simp: round_end_def goes_on_def moves_ok_def)
  moreover have "length [k..<n] \<le> length (concat (map (\<lambda>j. map (f j) [0..<periods (g j)]) [k..<n]))"
    for n and f :: "nat \<Rightarrow> nat \<Rightarrow> u32" and g
    by (induction n) (auto simp: periods_def)
  ultimately show ?thesis
    using run_round [OF assms(1,2)] by (simp add: round_positions_def)
qed

definition ex_move :: "real \<Rightarrow> trajectory_planner_t" where
  "ex_move x = \<lparr>points_num = 2, current_point = 0, origin_pos = x, target_pos = x, uniform_speed = 0,
     accel_pos = 0, decel_pos = 0, point_accel_end = 0, point_decel_start = 2, direction = 1\<rparr>"

definition ex_axis :: axis_t where
  "ex_axis = \<lparr>current_position = 0, current_velocity = 0, scale = 10, tp_num = 2, is_cyclic = False,
     current_tp = 0, acceleration = 8, deceleration = 8, max_speed = 100,
     csp_status = csp_status_running, tps = [ex_move 5, ex_move 7]\<rparr>"

lemma ex_profile:
  "point_accel_end t = 0 \<Longrightarrow> index \<le> unat (point_decel_start t) \<Longrightarrow>
   accel_pos t = 0 \<Longrightarrow> uniform_speed t = 0 \<Longrightarrow> profile a d t index = 0"
  by (simp add: profile_def)

lemma ex_point_pos: "i < 2 \<Longrightarrow> point_pos ex_axis (ex_move x) i = x * 10"
  unfolding point_pos_def planned_position_def
  by (subst ex_profile) (simp_all add: ex_axis_def ex_move_def unat_of_nat_below)

lemma ex_periods: "periods (ex_move x) = 2"
  by (simp add: periods_def ex_move_def)

lemma ex_tps: "tps ex_axis = [ex_move 5, ex_move 7]" "tp_num ex_axis = 2" "\<not> is_cyclic ex_axis"
    "current_tp ex_axis = 0"
  by (simp_all add: ex_axis_def)

lemma ex_axis_ok: "moves_ok ex_axis"
proof -
  have "current_point (ex_move x) = 0" for x by (simp add: ex_move_def)
  then show ?thesis
    by (simp add: moves_ok_def goes_on_def ex_tps ex_periods ex_point_pos trunc_def in_i64_def)
qed

lemma ex_round: "round_positions ex_axis 0 = [50, 50, 70, 70]"
proof -
  have two: "[0..<2] = [0, 1]" by (simp add: upt_rec)
  show ?thesis
    by (simp add: round_positions_def ex_tps ex_periods commanded_def ex_point_pos trunc_def two)
qed

lemma moves_run_to_their_end_witness:
  "\<exists>ax'. run_moves 4 ex_axis = Inr ([50, 50, 70, 70], ax') \<and> csp_status ax' = csp_status_stop"
proof -
  have "run_moves (length (round_positions ex_axis 0)) ex_axis =
      Inr (round_positions ex_axis 0, ex_axis\<lparr>csp_status := csp_status_stop, current_tp := 0\<rparr>)"
    using moves_run_to_their_end [OF ex_axis_ok, of 0] by (simp add: ex_tps)
  moreover have "length (round_positions ex_axis 0) = 4" by (simp add: ex_round)
  ultimately show ?thesis by (simp only: ex_round) simp
qed

subsection \<open>The trapezoidal profile\<close>

text \<open>The speed of the profile, in units per period, after point \<open>k\<close>.\<close>

definition profile_step :: "real \<Rightarrow> real \<Rightarrow> trajectory_planner_t \<Rightarrow> nat \<Rightarrow> real" where
  "profile_step a d t k = profile a d t (Suc k) - profile a d t k"

lemma lower_root:
  fixes a d n c :: real
  assumes "0 < a" "0 < d" "0 \<le> c" "0 \<le> n"
    and "a0 = 0.5 * (a + a * a / d)" "delta = a * n * (a * n) - 4 * a0 * c" "0 \<le> delta"
    and x: "x = (a * n - sqrt delta) / 2 / a0"
  shows "a0 * x * x - a * n * x + c = 0" "0 \<le> x" "x + a * x / d \<le> n"
proof -
  have "0 < a * a / d" using assms(1,2) by simp
  then have a0: "0 < a0" using assms(1) unfolding assms(5) by simp
  have "2 * a0 * x = a * n - sqrt delta" using a0 x by simp
  then have "(a * n - 2 * a0 * x)\<^sup>2 = delta" using assms(7) by simp
  then have "4 * a0 * (a0 * x * x - a * n * x + c) = 0"
    using assms(6) by (simp add: power2_eq_square algebra_simps)
  then show "a0 * x * x - a * n * x + c = 0" using a0 by simp
  have "delta \<le> (a * n)\<^sup>2"
    using a0 assms(3,6) by (simp add: power2_eq_square)
  then have "sqrt delta \<le> a * n"
    using assms(1,4) real_le_lsqrt [of "a * n" delta] by simp
  then show "0 \<le> x" using a0 x by simp
  have "2 * a0 * x \<le> a * n" using \<open>2 * a0 * x = a * n - sqrt delta\<close> assms(7) by simp
  moreover have "2 * a0 * x = a * (x + a * x / d)" using assms(5) by (simp add: algebra_simps)
  ultimately show "x + a * x / d \<le> n" using assms(1) by simp
qed

text \<open>
  C32: What the planner records for a move it accepts solves the equations of a trapezoid from
  the origin to the target, with positive acceleration and deceleration and computed in real
  numbers, where the code has doubles and so meets them up to rounding. There are two times of
  corners, in order, between 0 and the number of periods of the move, such that the recorded
  uniform speed is at most the maximum of the axis and is what the acceleration reaches at the
  first time and the deceleration takes away after the second; the recorded positions are the
  ways covered at the two corners; the way braked after the second one is the rest of the way to
  the target, in the recorded direction; the recorded corner points are the times rounded to the
  nearest period. This is the plan, not the points commanded from it, which speed up where they
  should brake (\<open>braking_points_speed_up\<close>).
\<close>

theorem planner_reaches_target:
  assumes "trajectory_planner ax t = Inr (0, t')" "0 < acceleration ax" "0 < deceleration ax"
  shows "\<exists>t0 t1. let v = uniform_speed t'; n = real (unat (points_num t)) in
    v \<le> max_speed ax \<and> v = acceleration ax * t0 \<and> v = deceleration ax * (n - t1)
    \<and> 0 \<le> t0 \<and> t0 \<le> t1 \<and> t1 \<le> n
    \<and> accel_pos t' = 0.5 * acceleration ax * t0\<^sup>2
    \<and> decel_pos t' = accel_pos t' + v * (t1 - t0)
    \<and> origin_pos t + real_of_int (direction t')
        * (decel_pos t' + 0.5 * deceleration ax * (n - t1)\<^sup>2) = target_pos t
    \<and> int (unat (point_accel_end t')) = \<lfloor>t0 + 0.5\<rfloor> \<and> int (unat (point_decel_start t')) = \<lfloor>t1 + 0.5\<rfloor>"
proof -
  define a d n where "a = acceleration ax" and "d = deceleration ax"
    and "n = real (unat (points_num t))"
  define dir :: int where "dir = (if target_pos t - origin_pos t < 0 then - 1 else 1)"
  define c where "c = (target_pos t - origin_pos t) * real_of_int dir"
  define a0 where "a0 = 0.5 * (a + a * a / d)"
  define b0 where "b0 = - a * n"
  define delta where "delta = b0 * b0 - 4 * a0 * c"
  define t0 where "t0 = (- 1 * b0 - sqrt delta) / 2 / a0"
  define t1 where "t1 = n - a * t0 / d"
  have delta: "delta = a * n * (a * n) - 4 * a0 * c" and t0: "t0 = (a * n - sqrt delta) / 2 / a0"
    by (simp_all add: delta_def t0_def b0_def)
  have ad: "0 < a" "0 < d" "0 \<le> c" "0 \<le> n"
    unfolding n_def using assms(2,3) by (simp_all add: a_def d_def c_def dir_def of_nat_0_le_iff del: of_nat_unat)
  have "0 < a * a / d" using ad by simp
  then have a0: "0 < a0" using ad(1) unfolding a0_def by simp
  have eqs: "d \<noteq> 0" "a0 \<noteq> 0" using ad a0 by simp_all
  have plan: "trajectory_planner ax t =
     (if delta < 0 then Inr (- 1, t\<lparr>direction := dir\<rparr>)
      else if max_speed ax < t0 * a then Inr (- 2, t\<lparr>direction := dir\<rparr>)
      else to_u32 (t0 + 0.5) (\<lambda>ae. to_u32 (t1 + 0.5) (\<lambda>ds.
         Inr (0, t\<lparr>direction := dir, accel_pos := 0.5 * a * t0 * t0,
           decel_pos := 0.5 * a * t0 * t0 + a * t0 * (t1 - t0),
           point_accel_end := ae, point_decel_start := ds, uniform_speed := a * t0\<rparr>))))"
    unfolding trajectory_planner_def Let_def
    unfolding a_def [symmetric] d_def [symmetric] n_def [symmetric] dir_def [symmetric]
    unfolding c_def [symmetric] a0_def [symmetric] b0_def [symmetric]
    unfolding delta_def [symmetric] t0_def [symmetric] t1_def [symmetric]
    by (simp only: eqs if_False)
  have pos: "0 \<le> delta" using plan assms(1) by (auto split: if_splits)
  note root = lower_root [OF ad a0_def delta pos t0]
  have order: "0 \<le> t0" "t0 \<le> t1" "t1 \<le> n"
    using root ad by (simp_all add: t1_def)
  have sp: "t0 * a \<le> max_speed ax" using plan assms(1) pos by (auto split: if_splits)
  have tr: "trunc (t0 + 0.5) = \<lfloor>t0 + 0.5\<rfloor>" "trunc (t1 + 0.5) = \<lfloor>t1 + 0.5\<rfloor>"
    using order by (simp_all add: trunc_def)
  have bounds: "0 \<le> \<lfloor>t0 + 0.5\<rfloor>" "\<lfloor>t0 + 0.5\<rfloor> < 2 ^ 32" "0 \<le> \<lfloor>t1 + 0.5\<rfloor>" "\<lfloor>t1 + 0.5\<rfloor> < 2 ^ 32"
    and t': "t' = t\<lparr>direction := dir, accel_pos := 0.5 * a * t0 * t0,
           decel_pos := 0.5 * a * t0 * t0 + a * t0 * (t1 - t0),
           point_accel_end := of_int \<lfloor>t0 + 0.5\<rfloor>, point_decel_start := of_int \<lfloor>t1 + 0.5\<rfloor>,
           uniform_speed := a * t0\<rparr>"
    using plan assms(1) pos sp unfolding to_u32_def tr by (auto split: if_splits)
  have words: "int (unat (of_int z :: u32)) = z" if "0 \<le> z" "z < 2 ^ 32" for z
    using that by (simp add: unsigned_of_int take_bit_int_eq_self nat_less_iff)
  have brake: "0.5 * d * (n - t1)\<^sup>2 = 0.5 * (a * a / d) * t0 * t0"
    using ad by (simp add: t1_def power2_eq_square field_simps)
  have "0.5 * a * t0 * t0 + a * t0 * (t1 - t0) + 0.5 * (a * a / d) * t0 * t0
      = a * n * t0 - a0 * t0 * t0"
    using ad by (simp add: t1_def a0_def field_simps)
  also have "\<dots> = c" using root(1) by simp
  finally have total: "0.5 * a * t0 * t0 + a * t0 * (t1 - t0) + 0.5 * d * (n - t1)\<^sup>2 = c"
    by (simp only: brake)
  have "real_of_int dir * c = target_pos t - origin_pos t"
    by (simp add: c_def dir_def)
  then have goal: "origin_pos t + real_of_int dir
      * (0.5 * a * t0 * t0 + a * t0 * (t1 - t0) + 0.5 * d * (n - t1)\<^sup>2) = target_pos t"
    unfolding total by simp
  have vd: "a * t0 = d * (n - t1)" using ad by (simp add: t1_def)
  show ?thesis
    unfolding Let_def t' n_def [symmetric] a_def [symmetric] d_def [symmetric]
  proof (rule exI [of _ t0], rule exI [of _ t1], intro conjI, goal_cases)
    case 1
    show ?case using sp by (simp add: mult.commute)
  next
    case 3
    show ?case using vd by simp
  next
    case 9
    show ?case using goal by simp
  qed (use order words bounds in \<open>simp_all add: power2_eq_square\<close>)
qed

text \<open>
  The points commanded while braking. The position is \<open>decel_pos\<close> plus half the deceleration times
  the square of the time since the corner: the speed starts near zero and grows by \<open>d\<close> each
  period, where a braking profile starts at the uniform speed and falls. The end point is right, the
  shape is mirrored.
\<close>

theorem braking_points_speed_up:
  assumes "point_accel_end t \<le> point_decel_start t" "unat (point_decel_start t) < k"
  shows "profile_step a d t (Suc k) = profile_step a d t k + d"
    and "profile_step a d t k = d * (real (k - unat (point_decel_start t)) + 0.5)"
proof -
  define s where "s = unat (point_decel_start t)"
  have ae: "unat (point_accel_end t) \<le> s" using assms(1) by (simp add: s_def word_le_nat_alt)
  have P: "profile a d t j = decel_pos t + 0.5 * d * (real (j - s))\<^sup>2" if "s < j" for j
    using that ae by (simp add: profile_def s_def)
  obtain m where "k = s + m" "0 < m" using assms(2) by (metis less_imp_add_positive s_def)
  then have "profile_step a d t k = d * (real m + 0.5)"
      "profile_step a d t (Suc k) = d * (real m + 1.5)"
    using P [of k] P [of "Suc k"] P [of "Suc (Suc k)"]
    by (simp_all add: profile_step_def power2_eq_square algebra_simps Suc_diff_le)
  then show "profile_step a d t (Suc k) = profile_step a d t k + d"
    and "profile_step a d t k = d * (real (k - unat (point_decel_start t)) + 0.5)"
    using \<open>k = s + m\<close> by (simp_all add: s_def [symmetric] algebra_simps)
qed

definition ex_plan :: trajectory_planner_t where
  "ex_plan = \<lparr>points_num = 4, current_point = 0, origin_pos = 10, target_pos = 6, uniform_speed = 0,
     accel_pos = 0, decel_pos = 0, point_accel_end = 0, point_decel_start = 0, direction = 1\<rparr>"

lemma ex_planned:
  "trajectory_planner (ex_axis\<lparr>acceleration := 1, deceleration := 1\<rparr>) ex_plan =
     Inr (0, ex_plan\<lparr>direction := - 1, accel_pos := 2, decel_pos := 2, point_accel_end := 2,
       point_decel_start := 2, uniform_speed := 2\<rparr>)"
proof -
  have "trunc (5 / 2) = 2" by (simp add: trunc_def floor_eq_iff)
  then show ?thesis
    by (simp add: trajectory_planner_def Let_def ex_plan_def ex_axis_def to_u32_def)
qed

lemma planner_reaches_target_witness:
  "\<exists>t0 t1::real. (2::real) = t0 \<and> (2::real) = 4 - t1 \<and> t0 \<le> t1
     \<and> 10 - (2 + 0.5 * (4 - t1)\<^sup>2) = 6"
  using planner_reaches_target [OF ex_planned] unfolding Let_def
  by (simp add: ex_plan_def ex_axis_def)

subsection \<open>The bus set-up\<close>

lemma two_axes: "map_axes obj n [e] 0 (Suc (Suc k)) = Inl Out_Of_Bounds"
  by simp

text \<open>
  The process data of the one supported axis is mapped completely or not at all: with
  acknowledgements of 0 or 1, \<open>servo_pdo_remap\<close> succeeds iff each of its seventeen SDO writes was
  acknowledged, and a drive with more axes than the tables hold is a fault.
\<close>

theorem remap_needs_every_write:
  assumes "\<And>x. wr x = 0 \<or> wr x = 1"
  shows "(axis_num s = 1 \<longrightarrow>
      (\<exists>ws. remap_writes 1 = Inr ws \<and> length ws = 17
         \<and> servo_pdo_remap wr s = Inr (if \<forall>x \<in> set ws. wr x = 1 then 1 else 0)))
    \<and> (1 < axis_num s \<longrightarrow> servo_pdo_remap wr s = Inl Out_Of_Bounds)"
proof -
  have sum: "sum_list (map wr ws) \<le> int (length ws) \<and>
      (int (length ws) \<le> sum_list (map wr ws) \<longleftrightarrow> (\<forall>x \<in> set ws. wr x = 1))" for ws
  proof (induction ws)
    case (Cons x ws)
    then show ?case using assms [of x] by auto
  qed simp
  have "\<exists>ws. remap_writes 1 = Inr ws \<and> length ws = 17"
    unfolding remap_writes_def One_nat_def map_axes.simps rx_pdo_entry_def tx_pdo_entry_def
    by simp
  then obtain ws where ws: "remap_writes 1 = Inr ws" "length ws = 17" by blast
  have "servo_pdo_remap wr s = Inr (if \<forall>x \<in> set ws. wr x = 1 then 1 else 0)" if "axis_num s = 1"
    using sum [of ws] ws that by (simp add: servo_pdo_remap_def)
  moreover have "servo_pdo_remap wr s = Inl Out_Of_Bounds" if many: "1 < axis_num s"
  proof -
    define k where "k = axis_num s - 2"
    have "axis_num s = Suc (Suc k)" using many by (simp add: k_def)
    then show ?thesis
      by (simp add: servo_pdo_remap_def remap_writes_def rx_pdo_entry_def two_axes)
  qed
  ultimately show ?thesis using ws by blast
qed

definition ex_servo :: servo_t where
  "ex_servo = \<lparr>VendorId = 1, ProductID = 2, slave_id = 0, slave = None, synced = False, axis_num = 1\<rparr>"

lemma remap_needs_every_write_witness:
  "(\<exists>ws. remap_writes 1 = Inr ws \<and> length ws = 17
     \<and> servo_pdo_remap (\<lambda>x. if fst x = 0x1c12 then 0 else 1) ex_servo
       = Inr (if \<forall>x \<in> set ws. (if fst x = 0x1c12 then 0 else 1) = (1::int) then 1 else 0))
   \<and> servo_pdo_remap (\<lambda>x. 1) (ex_servo\<lparr>axis_num := 2\<rparr>) = Inl Out_Of_Bounds"
  using remap_needs_every_write [of "\<lambda>x. if fst x = 0x1c12 then 0 else 1" ex_servo]
    remap_needs_every_write [of "\<lambda>x. 1" "ex_servo\<lparr>axis_num := 2\<rparr>"]
  by (simp add: ex_servo_def)

text \<open>
  The bus set-up callback returns -1 when the mapping succeeded within ten attempts, and zero when all
  of them failed.
\<close>

lemma remap_retry_result:
  "remap_retry wr s k n = Inr r \<Longrightarrow> r = 0 \<or> r = 1"
  by (induction wr s k n rule: remap_retry.induct)
    (auto simp: servo_pdo_remap_def outcome_simps split: if_splits)

theorem servo_setup_inverted:
  assumes "find (\<lambda>s. slave_id s + 1 = sl) servos = Some s" "remap_retry wr s 0 10 = Inr r"
  shows "EtherCAT_servo_setup wr servos sl = Inr (- r)"
  using assms remap_retry_result [OF assms(2)] by (auto simp: EtherCAT_servo_setup_def)

text \<open>A wrong drive in the first position goes unnoticed: the error value of servo 0 is \<open>-0\<close>.\<close>

theorem first_servo_mismatch_unnoticed:
  assumes "eep_man b (slave_id s + 1) \<noteq> VendorId s"
  shows "servo_slave_check b [s] = (0, [s\<lparr>slave := Some (slave_id s + 1)\<rparr>])"
  using assms by (simp add: servo_slave_check_def Let_def)

text \<open>Two readings of the clock that differ by 2^32 ticks give the same time.\<close>

theorem gettime_forgets_high_ticks:
  assumes "ticks_last c' = ticks_last c" "system_ticks c' = system_ticks c + 2 ^ 32"
  shows "osal_gettime ops d (\<lambda>x. x) n n c' = osal_gettime ops d (\<lambda>x. x) n n c"
proof -
  have low: "(ucast (x + 2 ^ 32 + y) :: u32) = ucast (x + y)" for x y :: u64
  proof (rule unsigned_word_eqI)
    have "unat (z + 2 ^ 32) mod 2 ^ 32 = unat z mod 2 ^ 32" for z :: u64
      by (simp add: unat_word_ariths(1) mod_mod_cancel)
    from this [of "x + y"] have "unat (x + 2 ^ 32 + y) mod 2 ^ 32 = unat (x + y) mod 2 ^ 32"
      by (simp only: ac_simps)
    then show "unat (ucast (x + 2 ^ 32 + y) :: u32) = unat (ucast (x + y) :: u32)"
      by (simp only: unsigned_ucast_eq take_bit_eq_mod len_bit0 len_num1) simp
  qed
  have "(ucast (gettime_ticks (\<lambda>x. x) n n c') :: u32) = ucast (gettime_ticks (\<lambda>x. x) n n c)"
    using assms low by (simp add: gettime_ticks_def Let_def)
  then show ?thesis by (simp only: osal_gettime_def)
qed

end
