(* ===== verification/Decimal_Text.thy ===== *)
theory Decimal_Text
  imports Prelude
begin

text \<open>
  Characters and decimal numbers, shared by the applications that read numbers from text: the digits,
  the value of a digit, the decimal notation of a number and what a scan over it finds.
\<close>

definition ascii :: "char \<Rightarrow> nat" where
  "ascii c = of_char c"

definition is_digit :: "char \<Rightarrow> bool" where
  "is_digit c \<longleftrightarrow> 48 \<le> ascii c \<and> ascii c \<le> 57"

definition digit_value :: "char \<Rightarrow> int" where
  "digit_value c = int (ascii c) - 48"

text \<open>The decimal notation of a number.\<close>

fun decimal :: "nat \<Rightarrow> char list" where
  "decimal n = (if n < 10 then [char_of (48 + n)] else decimal (n div 10) @ [char_of (48 + n mod 10)])"

declare decimal.simps [simp del]

lemma digit_char:
  assumes "n < 10"
  shows "is_digit (char_of (48 + n))" "digit_value (char_of (48 + n)) = int n"
  using assms by (simp_all add: is_digit_def digit_value_def ascii_def)

lemma decimal_digits: "c \<in> set (decimal n) \<Longrightarrow> \<exists>k < 10. c = char_of (48 + k :: nat)"
proof (induction n rule: decimal.induct)
  case (1 n)
  then show ?case
    by (cases "n < 10") (auto simp: decimal.simps [of n] intro: exI [of _ "n mod 10"] exI [of _ n])
qed

lemma decimal_nonempty: "decimal n \<noteq> []"
  by (simp add: decimal.simps [of n])

lemma decimal_length: "n < 10 ^ k \<Longrightarrow> 0 < k \<Longrightarrow> length (decimal n) \<le> k"
proof (induction k arbitrary: n)
  case (Suc k)
  show ?case
  proof (cases "n < 10")
    case False
    then have "0 < k" using Suc.prems by (cases k) auto
    moreover have "n div 10 < 10 ^ k" using Suc.prems by (simp add: less_mult_imp_div_less)
    ultimately show ?thesis using Suc.IH [of "n div 10"] False by (simp add: decimal.simps [of n])
  qed (simp add: decimal.simps [of n])
qed simp

lemma decimal_value:
  "foldl (\<lambda>v c. 10 * v + digit_value c) 0 (decimal n) = int n"
proof (induction n rule: decimal.induct)
  case (1 n)
  show ?case
  proof (cases "n < 10")
    case False
    have "10 * int (n div 10) + int (n mod 10) = int n"
      by (metis mult.commute div_mult_mod_eq of_nat_add of_nat_mult of_nat_numeral)
    then show ?thesis using 1 False by (simp add: decimal.simps [of n] digit_char)
  qed (simp add: decimal.simps [of n] digit_char)
qed

text \<open>A scan over a decimal number stops at the character after it.\<close>

lemma scan_decimal:
  assumes "r = [] \<or> \<not> is_digit (hd r)"
  shows "takeWhile is_digit (decimal n @ r) = decimal n" "dropWhile is_digit (decimal n @ r) = r"
proof -
  have d: "\<forall>c \<in> set (decimal n). is_digit c" using decimal_digits digit_char(1) by blast
  show "takeWhile is_digit (decimal n @ r) = decimal n"
    using d assms by (cases r) (auto simp: takeWhile_append takeWhile_eq_all_conv [THEN iffD2])
  show "dropWhile is_digit (decimal n @ r) = r"
    using d assms by (cases r) (auto simp: dropWhile_append)
qed

end
