(* ===== verification/Traj_Text.thy ===== *)
theory Traj_Text
  imports Servo Decimal_Text "HOL-Library.Sublist"
begin


text \<open>
  The text that describes the moves of an axis, \<open>Tp_arrays_parser\<close> of
  \<open>src/apps/soem_servo/freertos/axis_nc.c\<close>, and the start of the application around it
  (\<open>main.c\<close>). A C string is the list of its characters before the terminating zero; a pointer into it is
  the list of the characters from there on.
\<close>

section \<open>Scanning\<close>

definition is_space :: "char \<Rightarrow> bool" where
  "is_space c \<longleftrightarrow> ascii c = 32 \<or> 9 \<le> ascii c \<and> ascii c \<le> 13"

definition skip_blank :: "string \<Rightarrow> string" where
  "skip_blank p = dropWhile (\<lambda>c. c = CHR 0x20) p"

definition strchr :: "string \<Rightarrow> char \<Rightarrow> string option" where
  "strchr p c = (let q = dropWhile (\<lambda>x. x \<noteq> c) p in if q = [] then None else Some q)"

text \<open>\<open>strncmp\<close> with the length of the name, and the rest.\<close>

definition after :: "string \<Rightarrow> string \<Rightarrow> string option" where
  "after name s = (if take (length name) s = name then Some (drop (length name) s) else None)"

text \<open>
  The conversion \<open>%d\<close> of \<open>sscanf\<close>: blanks, a sign, digits. A value that does not fit \<open>int\<close> is
  undefined in C, which is a fault here.
\<close>

definition scan_d :: "string \<Rightarrow> (int \<times> string) option outcome" where
  "scan_d s =
     (let s1 = dropWhile is_space s;
          (neg, s2) = (case s1 of [] \<Rightarrow> (False, []) | c # r \<Rightarrow>
             if c = CHR ''-'' then (True, r) else if c = CHR ''+'' then (False, r) else (False, s1));
          ds = takeWhile is_digit s2;
          v = foldl (\<lambda>v c. 10 * v + digit_value c) 0 ds;
          w = (if neg then - v else v)
      in if ds = [] then Inr None
         else if in_i32 w then Inr (Some (w, dropWhile is_digit s2)) else Inl Overflow)"

text \<open>\<open>sscanf\<close> with \<open>=%d\<close> and with \<open>(%d:%d)\<close>; the closing parenthesis does not count.\<close>

definition scan_value :: "string \<Rightarrow> int option outcome" where
  "scan_value s =
     (case s of [] \<Rightarrow> Inr None
      | c # r \<Rightarrow> if c \<noteq> CHR ''='' then Inr None else and_then (scan_d r) (\<lambda>x. Inr (map_option fst x)))"

definition scan_move :: "string \<Rightarrow> (int \<times> int) option outcome" where
  "scan_move s =
     (case s of [] \<Rightarrow> Inr None
      | c # r \<Rightarrow> if c \<noteq> CHR ''('' then Inr None
        else and_then (scan_d r) (\<lambda>x. case x of None \<Rightarrow> Inr None | Some (v, q) \<Rightarrow>
          case q of [] \<Rightarrow> Inr None
          | d # q' \<Rightarrow> if d \<noteq> CHR '':'' then Inr None
            else and_then (scan_d q') (\<lambda>y. Inr (map_option (\<lambda>(w, _). (v, w)) y))))"

definition skip_semicolon :: "string \<Rightarrow> string option" where
  "skip_semicolon str = map_option tl (strchr str CHR '';'')"

text \<open>The results 0, -1 and 1 of \<open>parameter_parser\<close>, the last with the new position and the value.\<close>

datatype param_result = No_Param | Param_Error | Param string int

definition parameter_parser :: "string \<Rightarrow> string \<Rightarrow> param_result outcome" where
  "parameter_parser str name =
     (case after name str of None \<Rightarrow> Inr No_Param
      | Some s \<Rightarrow> and_then (scan_value s) (\<lambda>x. case x of None \<Rightarrow> Inr Param_Error
        | Some v \<Rightarrow> (case skip_semicolon str of None \<Rightarrow> Inr Param_Error | Some p \<Rightarrow> Inr (Param p v))))"

section \<open>The parser\<close>

text \<open>The axis with the fields that only the parser uses.\<close>

record axis_cfg =
  cf_axis :: axis_t
  cf_mode :: u8
  cf_bias :: int

definition upd_axis :: "(axis_t \<Rightarrow> axis_t) \<Rightarrow> axis_cfg \<Rightarrow> axis_cfg" where
  "upd_axis f c = c\<lparr>cf_axis := f (cf_axis c)\<rparr>"

text \<open>The parameters in the order in which they are tried, with the result of an error.\<close>

definition param_table :: "(string \<times> int \<times> (int \<Rightarrow> axis_cfg \<Rightarrow> axis_cfg)) list" where
  "param_table =
     [(''Cyclic'', - 5, \<lambda>v. upd_axis (\<lambda>a. a\<lparr>is_cyclic := 0 < v\<rparr>)),
      (''Scale'', - 5, \<lambda>v. upd_axis (\<lambda>a. a\<lparr>scale := word_of_int v\<rparr>)),
      (''Bias'', - 1, \<lambda>v c. c\<lparr>cf_bias := v\<rparr>),
      (''Accel'', - 1, \<lambda>v. upd_axis (\<lambda>a. a\<lparr>acceleration := real_of_int v\<rparr>)),
      (''Decel'', - 1, \<lambda>v. upd_axis (\<lambda>a. a\<lparr>deceleration := real_of_int v\<rparr>)),
      (''Max_speed'', - 1, \<lambda>v. upd_axis (\<lambda>a. a\<lparr>max_speed := real_of_int v\<rparr>))]"

datatype parse_step = Stop int | Go string

fun try_params ::
    "(string \<times> int \<times> (int \<Rightarrow> axis_cfg \<Rightarrow> axis_cfg)) list \<Rightarrow> string \<Rightarrow> axis_cfg \<Rightarrow>
       (parse_step \<times> axis_cfg) option outcome" where
  "try_params [] p c = Inr None"
| "try_params ((name, err, put) # ps) p c =
     and_then (parameter_parser p name) (\<lambda>r. case r of
       No_Param \<Rightarrow> try_params ps p c
     | Param_Error \<Rightarrow> Inr (Some (Stop err, c))
     | Param q v \<Rightarrow> Inr (Some (Go q, put v c)))"

text \<open>The array of moves: where it begins and where the parser goes on.\<close>

definition array_bounds :: "string \<Rightarrow> (string \<times> string) option" where
  "array_bounds p =
     (case strchr p CHR ''['' of None \<Rightarrow> None
      | Some a \<Rightarrow> (case strchr p CHR '']'' of None \<Rightarrow> None
        | Some b \<Rightarrow> (case strchr (tl b) CHR '';'' of None \<Rightarrow> None | Some e \<Rightarrow> Some (tl a, tl e))))"

text \<open>
  One instruction at \<open>p\<close>. A character that begins none is skipped; past the terminating zero there is
  none.
\<close>

definition parse_one ::
    "string \<Rightarrow> string option \<Rightarrow> axis_cfg \<Rightarrow> (parse_step \<times> string option \<times> axis_cfg) outcome" where
  "parse_one p tp c =
     and_then (try_params param_table p c) (\<lambda>r. case r of
       Some (st, c') \<Rightarrow> Inr (st, tp, c')
     | None \<Rightarrow> (case after ''TpArrays'' p of
         Some q \<Rightarrow> (case array_bounds q of None \<Rightarrow> Inr (Stop (- 5), tp, c) | Some (a, e) \<Rightarrow> Inr (Go e, Some a, c))
       | None \<Rightarrow> if p = [] then Inl Out_Of_Bounds else Inr (Go (tl p), tp, c)))"

lemma strchr_suffix: "strchr p c = Some q \<Longrightarrow> q \<noteq> [] \<and> suffix q p"
  by (auto simp: strchr_def Let_def suffix_dropWhile split: if_splits)

lemma strchr_tl: "strchr p c = Some q \<Longrightarrow> strict_suffix (tl q) p"
  using strchr_suffix [of p c q] by (cases q) (auto simp: strict_suffix_def suffix_def)

lemma skip_semicolon_suffix: "skip_semicolon p = Some q \<Longrightarrow> strict_suffix q p"
  by (auto simp: skip_semicolon_def strchr_tl)

lemma try_params_suffix: "try_params tab p c = Inr (Some (Go q, c')) \<Longrightarrow> strict_suffix q p"
proof (induction tab p c rule: try_params.induct)
  case (2 name err put ps p c)
  obtain r where r: "parameter_parser p name = Inr r" using "2.prems" by (auto simp: outcome_simps)
  show ?case
  proof (cases r)
    case (Param q1 v)
    then have "skip_semicolon p = Some q1"
      using r by (auto simp: parameter_parser_def outcome_simps split: option.splits)
    then show ?thesis using "2.prems" r Param skip_semicolon_suffix by simp
  qed (use 2 r in simp_all)
qed simp

lemma array_bounds_suffix:
  assumes "array_bounds p = Some (a, e)"
  shows "strict_suffix e p"
proof -
  obtain b1 e1 where e: "strchr p CHR '']'' = Some b1" "strchr (tl b1) CHR '';'' = Some e1" "e = tl e1"
    using assms by (auto simp: array_bounds_def split: option.splits)
  show ?thesis using strchr_tl [OF e(1)] strchr_tl [OF e(2)] e(3) suffix_order.less_trans by blast
qed

lemma parse_one_suffix:
  assumes "parse_one p tp c = Inr (Go q, tp', c')"
  shows "strict_suffix q p"
proof -
  obtain r where r: "try_params param_table p c = Inr r" using assms by (auto simp: parse_one_def outcome_simps)
  show ?thesis
  proof (cases r)
    case (Some s)
    then show ?thesis using assms r try_params_suffix by (cases s) (auto simp: parse_one_def)
  next
    case None
    show ?thesis
    proof (cases "after ''TpArrays'' p")
      case None
      then have "p \<noteq> []" "q = tl p" using assms r \<open>r = None\<close> by (auto simp: parse_one_def split: if_splits)
      then show ?thesis by (cases p) (auto simp: strict_suffix_def suffix_def)
    next
      case (Some q1)
      then have b: "\<exists>a. array_bounds q1 = Some (a, q)"
        using assms r None by (auto simp: parse_one_def split: option.splits)
      have "suffix q1 p" using Some by (auto simp: after_def suffix_drop split: if_splits)
      then show ?thesis using b array_bounds_suffix suffix_order.less_le_trans by blast
    qed
  qed
qed

declare and_then_cong [fundef_cong]

function parse_loop :: "string \<Rightarrow> string option \<Rightarrow> axis_cfg \<Rightarrow> (int \<times> string option \<times> axis_cfg) outcome" where
  "parse_loop p tp c =
     (if p = [] then Inr (0, tp, c)
      else and_then (parse_one (skip_blank p) tp c) (\<lambda>(st, tp', c').
        case st of Stop r \<Rightarrow> Inr (r, tp', c') | Go q \<Rightarrow> parse_loop q tp' c'))"
  by auto

termination
proof (relation "measure (\<lambda>(p, _). length p)", simp)
  fix p tp c x st y tp' c' q
  assume "p \<noteq> []" "parse_one (skip_blank p) tp c = Inr x" "(st, y) = x" "(tp', c') = y" "st = Go q"
  then have "strict_suffix q (skip_blank p)" using parse_one_suffix by blast
  then have "length q < length (skip_blank p)" by (rule suffix_length_less)
  also have "\<dots> \<le> length p" unfolding skip_blank_def by (rule length_dropWhile_le)
  finally show "((q, tp', c'), p, tp, c) \<in> measure (\<lambda>(p, _). length p)" by simp
qed

declare parse_loop.simps [simp del]

section \<open>The moves\<close>

text \<open>
  Filling in trajectory \<open>i\<close>: \<open>time\<close> is in milliseconds, a period in nanoseconds. The result of
  \<open>trajectory_planner\<close> is ignored.
\<close>

definition put_move :: "u32 \<Rightarrow> real \<Rightarrow> real \<Rightarrow> nat \<Rightarrow> u32 \<Rightarrow> axis_t \<Rightarrow> axis_t outcome" where
  "put_move period_ns origin target i time ax =
     (if period_ns = 0 then Inl Div_By_Zero
      else and_then (arr_get (tps ax) i) (\<lambda>t.
        and_then (trajectory_planner ax (t\<lparr>points_num := ucast (ucast time * 1000000 div ucast period_ns :: u64),
             current_point := 0, origin_pos := origin, target_pos := target\<rparr>)) (\<lambda>(_, t').
        and_then (arr_set (tps ax) i t') (\<lambda>ts. Inr (ax\<lparr>tps := ts\<rparr>)))))"

lemma skip_blank_le: "length (skip_blank p) \<le> length p"
  unfolding skip_blank_def by (rule length_dropWhile_le)

text \<open>The loop over the moves from \<open>p\<close> on, which returns the end of the last move and their number.\<close>

function parse_moves ::
    "u32 \<Rightarrow> real \<Rightarrow> real \<Rightarrow> nat \<Rightarrow> string \<Rightarrow> axis_t \<Rightarrow> (int \<times> real \<times> nat \<times> axis_t) outcome" where
  "parse_moves period_ns bias origin i p ax =
     and_then (scan_move (skip_blank p)) (\<lambda>r. case r of
       None \<Rightarrow> Inr (- 5, origin, i, ax)
     | Some (v, time) \<Rightarrow>
         and_then (put_move period_ns origin (bias + real_of_int v) i (word_of_int time) ax) (\<lambda>ax'.
         case strchr (skip_blank (skip_blank p)) CHR '','' of
           None \<Rightarrow> Inr (0, bias + real_of_int v, i + 1, ax')
         | Some q \<Rightarrow> parse_moves period_ns bias (bias + real_of_int v) (i + 1) (tl q) ax'))"
  by auto

termination
proof (relation "measure (\<lambda>(_, _, _, _, p, _). length p)", simp)
  fix period_ns bias origin i p ax r y v time ax' q
  assume "strchr (skip_blank (skip_blank p)) CHR '','' = Some q"
  then have "q \<noteq> []" "length q \<le> length p"
    using strchr_suffix suffix_length_le skip_blank_le [of p] skip_blank_le [of "skip_blank p"] by fastforce+
  then show "((period_ns, bias, bias + real_of_int v, i + 1, tl q, ax'), period_ns, bias, origin, i, p, ax)
      \<in> measure (\<lambda>(_, _, _, _, p, _). length p)"
    by (cases q) auto
qed

declare parse_moves.simps [simp del]

text \<open>The second half of the parser: the array \<open>a\<close>, and the first move again when the axis is cyclic.\<close>

definition plan_array :: "u32 \<Rightarrow> string \<Rightarrow> axis_cfg \<Rightarrow> (int \<times> axis_cfg) outcome" where
  "plan_array period_ns a c =
     (let ax = cf_axis c;
          bias = real_of_int (cf_bias c) + real_of_int (sint (current_position ax)) / real (unat (scale ax))
      in if scale ax = 0 then Inl Div_By_Zero
      else and_then (parse_moves period_ns bias bias 0 a ax) (\<lambda>(ret, origin, i, ax).
        if ret < 0 then Inr (ret, c\<lparr>cf_axis := ax\<rparr>)
        else if is_cyclic ax
        then and_then (scan_move a) (\<lambda>r. case r of
            None \<Rightarrow> Inr (- 5, c\<lparr>cf_axis := ax\<rparr>)
          | Some (v, time) \<Rightarrow>
              and_then (put_move period_ns origin (bias + real_of_int v) i (word_of_int time) ax) (\<lambda>ax.
              Inr (0, c\<lparr>cf_axis := ax\<lparr>csp_status := csp_status_ready\<rparr>\<rparr>)))
        else Inr (0, c\<lparr>cf_axis := ax\<lparr>csp_status := csp_status_ready\<rparr>\<rparr>)))"

definition Tp_arrays_parser :: "string \<Rightarrow> u32 \<Rightarrow> axis_cfg \<Rightarrow> (int \<times> axis_cfg) outcome" where
  "Tp_arrays_parser tp_str period_ns c =
     (if cf_mode c \<noteq> op_mode_csp then Inr (- 1, c)
      else if csp_status (cf_axis c) = csp_status_running then Inr (- 2, c)
      else and_then (parse_loop tp_str None c) (\<lambda>(ret, tp_arrays, c).
        if ret < 0 then Inr (ret, c)
        else (let n = (case tp_arrays of None \<Rightarrow> 0 | Some a \<Rightarrow> count_list a CHR ''('') in
          if n = 0 then Inr (- 3, c)
          else if TRAJECTORY_PLANNER_MAX \<le> n then Inr (- 4, c)
          else plan_array period_ns (the tp_arrays)
            (upd_axis (\<lambda>ax. ax\<lparr>tp_num := of_nat (if is_cyclic ax then n + 1 else n)\<rparr>) c))))"

text \<open>\<open>pos\<close> is what \<open>ec_SDOread\<close> stores, if it does.\<close>

definition axis_nc_init :: "u32 option \<Rightarrow> string \<Rightarrow> u32 \<Rightarrow> axis_cfg \<Rightarrow> (int \<times> axis_cfg) outcome" where
  "axis_nc_init pos tp period_ns c =
     (let c1 = upd_axis (\<lambda>a. a\<lparr>csp_status := csp_status_stop, scale := 1,
                 current_position := (case pos of None \<Rightarrow> current_position a | Some x \<Rightarrow> x)\<rparr>)
               (c\<lparr>cf_mode := op_mode_csp\<rparr>)
      in and_then (Tp_arrays_parser tp period_ns c1) (\<lambda>(ret, c2).
        if ret < 0 then Inr (ret, c2)
        else Inr (0, upd_axis (\<lambda>a. a\<lparr>csp_status := csp_status_ready\<rparr>) c2)))"

section \<open>The array of trajectories is never overrun\<close>

text \<open>
  The number of moves is bounded by the number of opening parentheses, which the parser counts first.
\<close>

lemma put_move_length: "put_move period o1 tg i time ax = Inr ax' \<Longrightarrow> length (tps ax') = length (tps ax)"
  by (auto simp: put_move_def outcome_simps split: if_splits)

lemma put_move_fields:
  "put_move period o1 tg i time ax = Inr ax' \<Longrightarrow> is_cyclic ax' = is_cyclic ax \<and> tp_num ax' = tp_num ax
    \<and> current_position ax' = current_position ax"
  by (auto simp: put_move_def outcome_simps split: if_splits)

lemma put_move_in_bounds: "i < length (tps ax) \<Longrightarrow> put_move period o1 tg i time ax \<noteq> Inl Out_Of_Bounds"
  by (auto simp: put_move_def outcome_simps trajectory_planner_def Let_def to_u32_def split: if_splits)

lemma scan_d_fault: "scan_d s \<noteq> Inl Out_Of_Bounds" by (simp add: scan_d_def Let_def split: prod.split)

lemma scan_move_fault: "scan_move s \<noteq> Inl Out_Of_Bounds"
  by (auto simp: scan_move_def outcome_simps scan_d_fault split: list.splits option.splits if_splits)

lemma scan_move_paren: "scan_move s = Inr (Some x) \<Longrightarrow> \<exists>r. s = CHR ''('' # r"
  by (auto simp: scan_move_def split: list.splits if_splits)

lemma count_skip_blank: "count_list (skip_blank p) CHR ''('' = count_list p CHR ''(''"
  by (induction p) (auto simp: skip_blank_def)

lemma count_strchr:
  assumes "strchr p c = Some q"
  shows "count_list (tl q) x \<le> count_list p x"
proof -
  have t: "count_list (tl l) x \<le> count_list l x" for l :: string by (cases l) auto
  have q: "q = dropWhile (\<lambda>x. x \<noteq> c) p" using assms by (auto simp: strchr_def Let_def split: if_splits)
  have "count_list p x = count_list (takeWhile (\<lambda>x. x \<noteq> c) p @ q) x" by (simp add: q)
  then show ?thesis using t [of q] by (simp only: count_list_append)
qed

lemma parse_moves_bounds:
  assumes "i + count_list p CHR ''('' \<le> length (tps ax)"
  shows "parse_moves period bias orig i p ax \<noteq> Inl Out_Of_Bounds"
    and "parse_moves period bias orig i p ax = Inr (ret, orig', i', ax') \<Longrightarrow>
      length (tps ax') = length (tps ax) \<and> is_cyclic ax' = is_cyclic ax \<and> tp_num ax' = tp_num ax \<and> i' \<le> i + count_list p CHR ''(''"
proof -
  have "parse_moves period bias orig i p ax \<noteq> Inl Out_Of_Bounds \<and>
    (\<forall>ret orig' i' ax'. parse_moves period bias orig i p ax = Inr (ret, orig', i', ax') \<longrightarrow>
      length (tps ax') = length (tps ax) \<and> is_cyclic ax' = is_cyclic ax \<and> tp_num ax' = tp_num ax \<and> i' \<le> i + count_list p CHR ''('')"
    using assms
  proof (induction period bias orig i p ax rule: parse_moves.induct)
    case (1 period bias orig i p ax)
    let ?q = "skip_blank p"
    consider (fault) e where "scan_move ?q = Inl e" | (none) "scan_move ?q = Inr None"
      | (some) v t where "scan_move ?q = Inr (Some (v, t))" by (cases "scan_move ?q") (simp, metis option.exhaust surj_pair)
    then show ?case
    proof cases
      case fault
      then show ?thesis using scan_move_fault [of ?q] by (auto simp: parse_moves.simps [of period bias orig i p])
    next
      case none
      then show ?thesis by (auto simp: parse_moves.simps [of period bias orig i p])
    next
      case (some v t)
      obtain r where r: "?q = CHR ''('' # r" using scan_move_paren [OF some] by blast
      have c: "count_list p CHR ''('' = Suc (count_list r CHR ''('')" using count_skip_blank [of p] r by simp
      have i: "i < length (tps ax)" using "1.prems" c by simp
      let ?m = "put_move period orig (bias + real_of_int v) i (word_of_int t) ax"
      show ?thesis
      proof (cases ?m)
        case (Inl e)
        then show ?thesis using some put_move_in_bounds [OF i] by (auto simp: parse_moves.simps [of period bias orig i p])
      next
        case (Inr ax1)
        note l = put_move_length [OF Inr] put_move_fields [OF Inr]
        show ?thesis
        proof (cases "strchr (skip_blank ?q) CHR '',''")
          case None
          then show ?thesis using some Inr l c by (auto simp: parse_moves.simps [of period bias orig i p])
        next
          case (Some q)
          have "skip_blank ?q = ?q" by (simp add: r skip_blank_def)
          then have "strchr r CHR '','' = Some q" using Some by (simp add: r strchr_def)
          then have "count_list (tl q) CHR ''('' \<le> count_list r CHR ''(''" by (rule count_strchr)
          then show ?thesis
            using "1.IH" [OF some refl refl Inr Some] "1.prems" some Inr Some l c
            by (auto simp: parse_moves.simps [of period bias orig i p])
        qed
      qed
    qed
  qed
  then show "parse_moves period bias orig i p ax \<noteq> Inl Out_Of_Bounds"
    and "parse_moves period bias orig i p ax = Inr (ret, orig', i', ax') \<Longrightarrow>
      length (tps ax') = length (tps ax) \<and> is_cyclic ax' = is_cyclic ax \<and> tp_num ax' = tp_num ax \<and> i' \<le> i + count_list p CHR ''(''" by blast+
qed

lemma plan_array_bounds:
  assumes "count_list a CHR ''('' \<le> 8" "length (tps (cf_axis c)) = 9"
  shows "plan_array period a c \<noteq> Inl Out_Of_Bounds"
    and "plan_array period a c = Inr (ret, c') \<Longrightarrow>
      length (tps (cf_axis c')) = 9 \<and> tp_num (cf_axis c') = tp_num (cf_axis c)"
proof -
  let ?ax = "cf_axis c"
  let ?b = "real_of_int (cf_bias c) + real_of_int (sint (current_position ?ax)) / real (unat (scale ?ax))"
  note pm = parse_moves_bounds [of 0 a ?ax period ?b ?b]
  have no: "parse_moves period ?b ?b 0 a ?ax \<noteq> Inl Out_Of_Bounds" using pm(1) assms by simp
  have ok: "length (tps ax) = 9 \<and> tp_num ax = tp_num ?ax \<and> i \<le> 8"
    if "parse_moves period ?b ?b 0 a ?ax = Inr (r, o1, i, ax)" for r o1 i ax
    using pm(2) [OF _ that] assms by simp
  show "plan_array period a c \<noteq> Inl Out_Of_Bounds"
  proof
    assume "plan_array period a c = Inl Out_Of_Bounds"
    then obtain r o1 i ax v t where "parse_moves period ?b ?b 0 a ?ax = Inr (r, o1, i, ax)"
        "put_move period o1 (?b + real_of_int v) i (word_of_int t) ax = Inl Out_Of_Bounds"
      using no scan_move_fault by (auto simp: plan_array_def Let_def outcome_simps split: if_splits option.split_asm)
    then show False using ok put_move_in_bounds by fastforce
  qed
  show "length (tps (cf_axis c')) = 9 \<and> tp_num (cf_axis c') = tp_num (cf_axis c)"
    if run: "plan_array period a c = Inr (ret, c')"
  proof -
    obtain r o1 i ax where p: "parse_moves period ?b ?b 0 a ?ax = Inr (r, o1, i, ax)"
      using run by (auto simp: plan_array_def Let_def outcome_simps split: if_splits)
    show ?thesis
      using run p ok [OF p] put_move_length put_move_fields
      by (fastforce simp: plan_array_def Let_def outcome_simps split: if_splits option.split_asm)
  qed
qed

lemma after_suffix: "suffix (skip_blank p) p"
  unfolding skip_blank_def by (rule suffix_dropWhile)

lemma suffix_last: "suffix q p \<Longrightarrow> q \<noteq> [] \<Longrightarrow> last q = last p"
  by (auto simp: suffix_def)

lemma try_params_fault: "try_params tab p c \<noteq> Inl Out_Of_Bounds"
proof (induction tab p c rule: try_params.induct)
  case (2 name err put ps p c)
  have "parameter_parser p name \<noteq> Inl Out_Of_Bounds"
    by (auto simp: parameter_parser_def scan_value_def outcome_simps scan_d_fault split: option.splits list.splits)
  then show ?case using 2 by (auto simp: outcome_simps split: param_result.splits)
qed simp

text \<open>The parser reads past the end only behind blanks at the end.\<close>

lemma parse_loop_fault:
  "parse_loop p tp c = Inl Out_Of_Bounds \<Longrightarrow> p \<noteq> [] \<and> last p = CHR 0x20"
proof (induction p tp c rule: parse_loop.induct)
  case (1 p tp c)
  have p: "p \<noteq> []" using "1.prems" by (auto simp: parse_loop.simps [of p])
  consider "parse_one (skip_blank p) tp c = Inl Out_Of_Bounds"
    | q tp' c' where "parse_one (skip_blank p) tp c = Inr (Go q, tp', c')" "parse_loop q tp' c' = Inl Out_Of_Bounds"
  proof -
    have "parse_one (skip_blank p) tp c = Inl Out_Of_Bounds \<or> (\<exists>st tp' c'. parse_one (skip_blank p) tp c = Inr (st, tp', c')
        \<and> (case st of Stop r \<Rightarrow> Inr (r, tp', c') | Go q \<Rightarrow> parse_loop q tp' c') = Inl Out_Of_Bounds)"
      using "1.prems" p by (simp add: parse_loop.simps [of p] outcome_simps)
    then consider "parse_one (skip_blank p) tp c = Inl Out_Of_Bounds"
      | st tp' c' where "parse_one (skip_blank p) tp c = Inr (st, tp', c')"
          "(case st of Stop r \<Rightarrow> Inr (r, tp', c') | Go q \<Rightarrow> parse_loop q tp' c') = Inl Out_Of_Bounds" by blast
    then show thesis
    proof cases
      case 1
      then show ?thesis by (rule that(1))
    next
      case (2 st tp' c')
      then obtain q where "st = Go q" by (cases st) auto
      then show ?thesis using that(2) 2 by simp
    qed
  qed
  then show ?case
  proof cases
    case 1
    then have "skip_blank p = []"
      by (auto simp: parse_one_def outcome_simps try_params_fault split: option.splits if_splits)
    then have "last p = CHR 0x20" using p by (auto simp: skip_blank_def dropWhile_eq_Nil_conv)
    then show ?thesis using p by simp
  next
    case (2 q tp' c')
    have "suffix q p" using parse_one_suffix [OF 2(1)] after_suffix [of p]
      by (metis suffix_order.order_trans suffix_order.less_imp_le)
    moreover have "q \<noteq> [] \<and> last q = CHR 0x20" using "1.IH" p 2 by blast
    ultimately show ?thesis using p suffix_last by fastforce
  qed
qed

text \<open>The parameters leave the trajectories and the state of the axis alone.\<close>

definition same_tps :: "axis_cfg \<Rightarrow> axis_cfg \<Rightarrow> bool" where
  "same_tps c c' \<longleftrightarrow> tps (cf_axis c') = tps (cf_axis c) \<and> csp_status (cf_axis c') = csp_status (cf_axis c)
     \<and> current_position (cf_axis c') = current_position (cf_axis c)"

lemma put_same_tps: "(n, e, put) \<in> set param_table \<Longrightarrow> same_tps c (put v c)"
  by (auto simp: param_table_def same_tps_def upd_axis_def)

lemma try_params_same:
  "try_params tab p c = Inr (Some (st, c')) \<Longrightarrow> set tab \<subseteq> set param_table \<Longrightarrow> same_tps c c'"
proof (induction tab p c rule: try_params.induct)
  case (2 name err put ps p c)
  obtain r where r: "parameter_parser p name = Inr r" using "2.prems" by (auto simp: outcome_simps)
  show ?case using 2 r put_same_tps [of name err put c] by (cases r) (auto simp: same_tps_def)
qed simp

lemma parse_loop_same: "parse_loop p tp c = Inr (ret, tp', c') \<Longrightarrow> same_tps c c'"
proof (induction p tp c rule: parse_loop.induct)
  case (1 p tp c)
  show ?case
  proof (cases "p = []")
    case True
    then show ?thesis using "1.prems" by (simp add: parse_loop.simps [of "[]"] same_tps_def)
  next
    case False
    obtain st t1 c1 where o: "parse_one (skip_blank p) tp c = Inr (st, t1, c1)"
        "(case st of Stop r \<Rightarrow> Inr (r, t1, c1) | Go q \<Rightarrow> parse_loop q t1 c1) = Inr (ret, tp', c')"
      using "1.prems" False by (auto simp: parse_loop.simps [of p] outcome_simps)
    have s: "same_tps c c1"
      using o(1) try_params_same [of param_table "skip_blank p" c]
      by (auto simp: parse_one_def outcome_simps same_tps_def split: option.splits if_splits prod.splits)
    show ?thesis
    proof (cases st)
      case (Stop r)
      then show ?thesis using s o(2) by simp
    next
      case (Go q)
      then show ?thesis using "1.IH" [OF False o(1) refl refl Go] o(2) s by (simp add: same_tps_def)
    qed
  qed
qed

text \<open>
  C31: The parser stays within its arrays: whatever the text is, unless it ends in a blank, parsing
  it neither reads past the end of the text nor writes past the nine trajectories of the axis, and
  after success the number of moves to run is at most nine.
\<close>

theorem trajectories_never_overrun:
  assumes "length (tps (cf_axis c)) = TRAJECTORY_PLANNER_MAX" "s = [] \<or> last s \<noteq> CHR 0x20"
  shows "Tp_arrays_parser s period_ns c \<noteq> Inl Out_Of_Bounds
    \<and> (\<forall>ret c'. Tp_arrays_parser s period_ns c = Inr (ret, c') \<longrightarrow>
        length (tps (cf_axis c')) = TRAJECTORY_PLANNER_MAX
        \<and> (ret = 0 \<longrightarrow> tp_num (cf_axis c') \<le> of_nat TRAJECTORY_PLANNER_MAX))"
proof (cases "cf_mode c \<noteq> op_mode_csp \<or> csp_status (cf_axis c) = csp_status_running")
  case True
  then show ?thesis using assms(1) by (auto simp: Tp_arrays_parser_def)
next
  case False
  note pre = False
  show ?thesis
  proof (cases "parse_loop s None c")
    case (Inl e)
    then show ?thesis using pre parse_loop_fault [of s None c] assms(2) by (auto simp: Tp_arrays_parser_def)
  next
    case (Inr x)
    obtain ret tp c1 where x: "parse_loop s None c = Inr (ret, tp, c1)" using Inr by (cases x) auto
    have l1: "length (tps (cf_axis c1)) = 9"
      using parse_loop_same [OF x] assms(1) by (simp add: same_tps_def TRAJECTORY_PLANNER_MAX_def)
    let ?n = "case tp of None \<Rightarrow> 0 | Some a \<Rightarrow> count_list a CHR ''(''"
    show ?thesis
    proof (cases "ret < 0 \<or> ?n = 0 \<or> TRAJECTORY_PLANNER_MAX \<le> ?n")
      case True
      then show ?thesis using pre x l1 by (auto simp: Tp_arrays_parser_def Let_def TRAJECTORY_PLANNER_MAX_def)
    next
      case False
      then obtain a where a: "tp = Some a" "count_list a CHR ''('' \<le> 8" by (cases tp) (auto simp: TRAJECTORY_PLANNER_MAX_def)
      let ?m = "if is_cyclic (cf_axis c1) then ?n + 1 else ?n"
      let ?c = "upd_axis (\<lambda>ax. ax\<lparr>tp_num := of_nat (if is_cyclic ax then ?n + 1 else ?n)\<rparr>) c1"
      have run: "Tp_arrays_parser s period_ns c = plan_array period_ns a ?c"
        using pre x False unfolding a(1) by (simp add: Tp_arrays_parser_def Let_def)
      have c: "length (tps (cf_axis ?c)) = 9" "tp_num (cf_axis ?c) = of_nat ?m" by (simp_all add: upd_axis_def l1)
      have "(of_nat m :: u32) \<le> of_nat 9" if "m \<le> 9" for m using that by (simp add: word_le_nat_alt unat_of_nat)
      moreover have "?m \<le> 9" using a by simp
      ultimately have "(of_nat ?m :: u32) \<le> of_nat 9" by blast
      then show ?thesis using plan_array_bounds [OF a(2) c(1)] run c by (simp add: TRAJECTORY_PLANNER_MAX_def)
    qed
  qed
qed

section \<open>Writing the text\<close>

definition int_text :: "int \<Rightarrow> string" where
  "int_text v = (if v < 0 then CHR ''-'' # decimal (nat (- v)) else decimal (nat v))"

definition setting_text :: "string \<times> int \<Rightarrow> string" where
  "setting_text s = fst s @ ''='' @ int_text (snd s) @ ''; ''"

definition move_text :: "int \<times> int \<Rightarrow> string" where
  "move_text m = ''('' @ int_text (fst m) @ '':'' @ int_text (snd m) @ '')''"

fun moves_text :: "(int \<times> int) list \<Rightarrow> string" where
  "moves_text [] = []"
| "moves_text [m] = move_text m"
| "moves_text (m # ms) = move_text m @ '','' @ moves_text ms"

definition axis_text :: "(string \<times> int) list \<Rightarrow> (int \<times> int) list \<Rightarrow> string" where
  "axis_text ss ms = concat (map setting_text ss) @ ''TpArrays=['' @ moves_text ms @ ''];''"

text \<open>What the text means: the settings in order, and the moves one after the other.\<close>

definition apply_setting :: "string \<times> int \<Rightarrow> axis_cfg \<Rightarrow> axis_cfg" where
  "apply_setting s c = (case map_of param_table (fst s) of None \<Rightarrow> c | Some (_, put) \<Rightarrow> put (snd s) c)"

fun plan_moves :: "u32 \<Rightarrow> real \<Rightarrow> real \<Rightarrow> nat \<Rightarrow> (int \<times> int) list \<Rightarrow> axis_t \<Rightarrow> (real \<times> nat \<times> axis_t) outcome" where
  "plan_moves period bias orig i [] ax = Inr (orig, i, ax)"
| "plan_moves period bias orig i (m # ms) ax =
     and_then (put_move period orig (bias + real_of_int (fst m)) i (word_of_int (snd m)) ax)
       (plan_moves period bias (bias + real_of_int (fst m)) (i + 1) ms)"

subsection \<open>Scanning what was written\<close>

lemma special_chars:
  "\<not> is_digit CHR ''-''" "\<not> is_digit CHR '';''" "\<not> is_digit CHR '':''" "\<not> is_digit CHR '')''" "\<not> is_digit CHR ''(''"
  "\<not> is_digit CHR '',''" "\<not> is_digit CHR ''['' " "\<not> is_digit CHR '']''" "\<not> is_space CHR ''-''" "\<not> is_digit CHR 0x20"
  by (simp_all add: is_digit_def is_space_def ascii_def)

lemma int_text_chars: "c \<in> set (int_text v) \<Longrightarrow> is_digit c \<or> c = CHR ''-''"
  using decimal_digits digit_char(1) by (fastforce simp: int_text_def split: if_splits)

lemma decimal_hd: "\<exists>c cs. decimal n = c # cs \<and> is_digit c"
proof -
  obtain c cs where "decimal n = c # cs" using decimal_nonempty [of n] by (cases "decimal n") auto
  moreover have "is_digit c" using decimal_digits [of c n] digit_char(1) calculation by auto
  ultimately show ?thesis by blast
qed

lemma digit_hd: "is_digit c \<Longrightarrow> \<not> is_space c \<and> c \<noteq> CHR ''-'' \<and> c \<noteq> CHR ''+''"
  by (auto simp: is_digit_def is_space_def ascii_def)

lemma scan_int_text:
  assumes "in_i32 v" "r = [] \<or> \<not> is_digit (hd r)"
  shows "scan_d (int_text v @ r) = Inr (Some (v, r))"
proof (cases "v < 0")
  case True
  note d = scan_decimal [OF assms(2), of "nat (- v)"]
  show ?thesis using True assms(1) d decimal_nonempty [of "nat (- v)"]
    by (simp add: scan_d_def int_text_def special_chars decimal_value)
next
  case False
  note d = scan_decimal [OF assms(2), of "nat v"]
  obtain c cs where c: "decimal (nat v) = c # cs" "is_digit c" using decimal_hd by blast
  have "dropWhile is_space (decimal (nat v) @ r) = decimal (nat v) @ r" using c digit_hd by simp
  moreover have "(case decimal (nat v) @ r of [] \<Rightarrow> (False, []) | x # xs \<Rightarrow> if x = CHR ''-'' then (True, xs)
      else if x = CHR ''+'' then (False, xs) else (False, decimal (nat v) @ r)) = (False, decimal (nat v) @ r)"
    using c digit_hd by simp
  ultimately show ?thesis using False assms(1) d decimal_nonempty [of "nat v"]
    by (simp add: scan_d_def int_text_def decimal_value)
qed

lemma strchr_append: "c \<notin> set xs \<Longrightarrow> strchr (xs @ ys) c = strchr ys c"
  by (induction xs) (auto simp: strchr_def)

lemma strchr_hd: "strchr (c # ys) c = Some (c # ys)"
  by (simp add: strchr_def)

lemma int_text_no: "\<not> is_digit c \<Longrightarrow> c \<noteq> CHR ''-'' \<Longrightarrow> c \<notin> set (int_text v)"
  using int_text_chars by blast

lemma move_text_no:
  "\<not> is_digit c \<Longrightarrow> c \<notin> {CHR ''-'', CHR ''('', CHR '':'', CHR '')''} \<Longrightarrow> c \<notin> set (move_text m)"
  using int_text_no [of c] by (simp add: move_text_def)

lemma moves_text_no:
  "\<not> is_digit c \<Longrightarrow> c \<notin> {CHR ''-'', CHR ''('', CHR '':'', CHR '')'', CHR '',''} \<Longrightarrow> c \<notin> set (moves_text ms)"
  using move_text_no [of c] by (induction ms rule: moves_text.induct) auto

lemma scan_move_text:
  assumes "in_i32 (fst m)" "in_i32 (snd m)"
  shows "scan_move (move_text m @ r) = Inr (Some m)"
proof -
  have "scan_d (int_text (fst m) @ CHR '':'' # int_text (snd m) @ CHR '')'' # r)
      = Inr (Some (fst m, CHR '':'' # int_text (snd m) @ CHR '')'' # r))"
    by (rule scan_int_text [OF assms(1)]) (simp add: special_chars)
  moreover have "scan_d (int_text (snd m) @ CHR '')'' # r) = Inr (Some (snd m, CHR '')'' # r))"
    by (rule scan_int_text [OF assms(2)]) (simp add: special_chars)
  ultimately show ?thesis by (simp add: scan_move_def move_text_def)
qed

lemma skip_move_text: "skip_blank (move_text m @ r) = move_text m @ r"
  by (simp add: skip_blank_def move_text_def)

lemma parse_moves_text:
  assumes "ms \<noteq> []" "\<forall>m \<in> set ms. in_i32 (fst m) \<and> in_i32 (snd m)" "CHR '','' \<notin> set r"
  shows "parse_moves period bias orig i (moves_text ms @ r) ax
    = and_then (plan_moves period bias orig i ms ax) (\<lambda>(orig, i, ax). Inr (0, orig, i, ax))"
  using assms
proof (induction ms arbitrary: orig i ax rule: moves_text.induct)
  case (2 m)
  have "strchr (move_text m @ r) CHR '','' = None"
    using 2 move_text_no [of "CHR '',''" m] by (auto simp: strchr_def special_chars dropWhile_eq_Nil_conv)
  then show ?case using 2 scan_move_text [of m r]
    unfolding moves_text.simps parse_moves.simps [of period bias orig i "move_text m @ r"] skip_move_text
    by (simp add: and_then_assoc split: prod.split)
next
  case (3 m m2 ms)
  let ?q = "moves_text (m2 # ms) @ r"
  have "strchr (move_text m @ CHR '','' # ?q) CHR '','' = Some (CHR '','' # ?q)"
    using move_text_no [of "CHR '',''" m] by (simp add: special_chars strchr_append strchr_hd)
  moreover have "moves_text (m # m2 # ms) @ r = move_text m @ CHR '','' # ?q" by simp
  moreover have "scan_move (move_text m @ CHR '','' # ?q) = Inr (Some m)" using 3(3) by (simp add: scan_move_text)
  ultimately show ?case using "3.IH" 3(3,4)
    by (simp add: parse_moves.simps [of period bias orig i "move_text m @ CHR '','' # ?q"] skip_move_text and_then_assoc
        del: moves_text.simps split: prod.split)
qed simp

lemma count_moves_text: "count_list (moves_text ms) CHR ''('' = length ms"
proof -
  have i: "count_list (int_text v) CHR ''('' = 0" for v
    using int_text_no [of "CHR ''(''"] by (simp add: count_list_0_iff special_chars)
  have "count_list (move_text m) CHR ''('' = 1" for m by (simp add: move_text_def i)
  then show ?thesis by (induction ms rule: moves_text.induct) auto
qed

subsection \<open>Parsing what was written\<close>

lemma parse_loop_blank: "r \<noteq> [] \<Longrightarrow> parse_loop (CHR 0x20 # r) tp c = parse_loop r tp c"
  by (simp add: parse_loop.simps [of "CHR 0x20 # r"] parse_loop.simps [of r] skip_blank_def)

lemma parameter_text:
  assumes "in_i32 v" "CHR '';'' \<notin> set name"
  shows "parameter_parser (setting_text (name, v) @ r) name = Inr (Param (CHR 0x20 # r) v)"
proof -
  have "scan_d (int_text v @ CHR '';'' # CHR 0x20 # r) = Inr (Some (v, CHR '';'' # CHR 0x20 # r))"
    by (rule scan_int_text [OF assms(1)]) (simp add: special_chars)
  moreover have "CHR '';'' \<notin> set (name @ ''='' @ int_text v)"
    using assms(2) int_text_no [of "CHR '';''" v] by (simp add: special_chars)
  then have "strchr ((name @ ''='' @ int_text v) @ CHR '';'' # CHR 0x20 # r) CHR '';'' = Some (CHR '';'' # CHR 0x20 # r)"
    by (subst strchr_append) (simp_all only: strchr_hd not_False_eq_True)
  ultimately show ?thesis by (simp add: parameter_parser_def setting_text_def after_def scan_value_def skip_semicolon_def)
qed

text \<open>Names that begin with different letters are not taken for each other.\<close>

lemma other_name:
  assumes "n \<noteq> []" "name \<noteq> []" "hd n \<noteq> hd name"
  shows "parameter_parser (setting_text (name, v) @ r) n = Inr No_Param"
  using assms by (cases n; cases name) (auto simp: parameter_parser_def after_def setting_text_def)

lemma setting_tried:
  assumes "map_of param_table name = Some (e, put)" "in_i32 v"
  shows "try_params param_table (setting_text (name, v) @ r) c = Inr (Some (Go (CHR 0x20 # r), put v c))"
proof -
  consider "name = ''Cyclic''" | "name = ''Scale''" | "name = ''Bias''" | "name = ''Accel''" | "name = ''Decel''" | "name = ''Max_speed''"
    using assms(1) by (auto simp: param_table_def split: if_splits)
  then show ?thesis
    by cases (use assms in \<open>auto simp: param_table_def parameter_text other_name\<close>)
qed


lemma setting_loop:
  assumes "map_of param_table (fst s) = Some (e, put)" "in_i32 (snd s)" "r \<noteq> []"
  shows "parse_loop (setting_text s @ r) tp c = parse_loop r tp (apply_setting s c)"
proof -
  have n: "fst s \<in> {''Cyclic'', ''Scale'', ''Bias'', ''Accel'', ''Decel'', ''Max_speed''}"
    using assms(1) by (auto simp: param_table_def split: if_splits)
  then have b: "skip_blank (setting_text s @ r) = setting_text s @ r" by (auto simp: skip_blank_def setting_text_def)
  have "setting_text s @ r \<noteq> []" using n by (auto simp: setting_text_def)
  moreover have "parse_one (setting_text s @ r) tp c = Inr (Go (CHR 0x20 # r), tp, put (snd s) c)"
    using setting_tried [of "fst s" e put "snd s" r c] assms(1,2) by (simp add: parse_one_def)
  ultimately show ?thesis
    using assms(1,3) b by (simp add: parse_loop.simps [of "setting_text s @ r"] parse_loop_blank apply_setting_def)
qed

lemma settings_loop:
  assumes "\<forall>s \<in> set ss. fst s \<in> fst ` set param_table \<and> in_i32 (snd s)" "r \<noteq> []"
  shows "parse_loop (concat (map setting_text ss) @ r) tp c = parse_loop r tp (fold apply_setting ss c)"
  using assms(1)
proof (induction ss arbitrary: c)
  case (Cons s ss)
  obtain e put where m: "map_of param_table (fst s) = Some (e, put)"
    using Cons.prems by (metis list.set_intros(1) map_of_eq_None_iff not_Some_eq surj_pair)
  have "parse_loop (setting_text s @ concat (map setting_text ss) @ r) tp c
      = parse_loop (concat (map setting_text ss) @ r) tp (apply_setting s c)"
    by (rule setting_loop [OF m]) (use Cons.prems assms(2) in auto)
  then show ?case using Cons by simp
qed simp

lemma array_loop:
  assumes "CHR '']'' \<notin> set m"
  shows "parse_loop (''TpArrays=['' @ m @ ''];'') tp c = Inr (0, Some (m @ ''];''), c)"
proof -
  let ?t = "''TpArrays=['' @ m @ ''];''"
  have b: "skip_blank ?t = ?t" by (simp add: skip_blank_def)
  have t: "try_params param_table ?t c = Inr None" by (simp add: param_table_def parameter_parser_def after_def)
  have "strchr (''=['' @ m @ ''];'') CHR ''['' = Some (''['' @ m @ ''];'')" by (simp add: strchr_def)
  moreover have "strchr (''=['' @ m @ ''];'') CHR '']'' = Some ''];''"
    using strchr_append [of "CHR '']''" "''=['' @ m" "''];''"] assms by (simp add: strchr_hd)
  ultimately have a: "array_bounds (''=['' @ m @ ''];'') = Some (m @ ''];'', [])"
    by (simp add: array_bounds_def strchr_hd)
  have "after ''TpArrays'' ?t = Some (''=['' @ m @ ''];'')" by (simp add: after_def)
  then have "parse_one ?t tp c = Inr (Go [], Some (m @ ''];''), c)" using t a by (simp add: parse_one_def)
  then show ?thesis unfolding parse_loop.simps [of ?t] b by (simp add: parse_loop.simps [of "[]"])
qed

lemma plan_moves_append:
  "plan_moves period bias orig i (ms @ ms') ax
    = and_then (plan_moves period bias orig i ms ax) (\<lambda>(orig, i, ax). plan_moves period bias orig i ms' ax)"
  by (induction ms arbitrary: orig i ax) (simp_all add: and_then_assoc cong: and_then_cong)

lemma plan_moves_fields:
  "plan_moves period bias orig i ms ax = Inr (orig', i', ax') \<Longrightarrow> is_cyclic ax' = is_cyclic ax"
  by (induction ms arbitrary: orig i ax) (auto simp: outcome_simps dest!: put_move_fields)

lemma plan_array_text:
  assumes "ms \<noteq> []" "\<forall>m \<in> set ms. in_i32 (fst m) \<and> in_i32 (snd m)" "scale (cf_axis c) \<noteq> 0"
    and "bias = real_of_int (cf_bias c) + real_of_int (sint (current_position (cf_axis c))) / real (unat (scale (cf_axis c)))"
  shows "plan_array period (moves_text ms @ ''];'') c
    = and_then (plan_moves period bias bias 0 (ms @ (if is_cyclic (cf_axis c) then [hd ms] else [])) (cf_axis c)) (\<lambda>(_, _, ax).
        Inr (0, c\<lparr>cf_axis := ax\<lparr>csp_status := csp_status_ready\<rparr>\<rparr>))"
proof -
  let ?P = "plan_moves period bias bias 0 ms (cf_axis c)"
  have pm: "parse_moves period bias bias 0 (moves_text ms @ ''];'') (cf_axis c)
      = and_then ?P (\<lambda>(orig, i, ax). Inr (0, orig, i, ax))"
    by (rule parse_moves_text [OF assms(1,2)]) simp
  obtain r where r: "moves_text ms = move_text (hd ms) @ r" using assms(1) by (cases ms rule: moves_text.cases) auto
  have sm: "scan_move (moves_text ms @ ''];'') = Inr (Some (hd ms))"
    unfolding r append.assoc using assms(1,2) by (intro scan_move_text) auto
  show ?thesis
  proof (cases ?P)
    case (Inl e)
    then show ?thesis using assms(3,4) pm by (simp add: plan_array_def plan_moves_append Let_def)
  next
    case (Inr x)
    obtain orig' i' ax' where x: "?P = Inr (orig', i', ax')" using Inr by (cases x) auto
    then show ?thesis using assms(3,4) pm sm plan_moves_fields [OF x]
      by (cases "hd ms") (simp add: plan_array_def plan_moves_append Let_def and_then_assoc)
  qed
qed

lemma fold_settings_same: "\<forall>s \<in> set ss. fst s \<in> fst ` set param_table \<Longrightarrow> same_tps c (fold apply_setting ss c)
    \<and> cf_mode (fold apply_setting ss c) = cf_mode c"
proof (induction ss arbitrary: c)
  case (Cons s ss)
  have "same_tps c (apply_setting s c) \<and> cf_mode (apply_setting s c) = cf_mode c"
    by (auto simp: apply_setting_def param_table_def same_tps_def upd_axis_def)
  moreover have "same_tps (apply_setting s c) (fold apply_setting ss (apply_setting s c))
      \<and> cf_mode (fold apply_setting ss (apply_setting s c)) = cf_mode (apply_setting s c)"
    using Cons by simp
  ultimately show ?case by (simp add: same_tps_def)
qed (simp add: same_tps_def)

text \<open>
  C30: Moves are read as they are written: on an axis in position mode (CSP) that is not
  running, the text of any settings, in any order, followed by the text of one to eight moves,
  each number within \<open>int\<close>, gives the axis with these settings and the trajectories
  planned for the moves one after the other, the first one again at the end when the axis is
  cyclic. The settings must leave a Scale other than 0, by which the position is divided (a
  Scale of 0 is read like any other and gives infinite or undefined positions in C, a fault
  here); positions are real numbers where the code has doubles. A fault in planning, a period of
  0 or a time that overflows, is the fault of the whole.
\<close>

theorem trajectory_text_parses:
  assumes "cf_mode c = op_mode_csp" "csp_status (cf_axis c) \<noteq> csp_status_running"
    and "\<forall>s \<in> set ss. fst s \<in> fst ` set param_table \<and> in_i32 (snd s)"
    and "ms \<noteq> []" "length ms \<le> 8" "\<forall>m \<in> set ms. in_i32 (fst m) \<and> in_i32 (snd m)"
    and "c' = fold apply_setting ss c" "scale (cf_axis c') \<noteq> 0"
    and "bias = real_of_int (cf_bias c') + real_of_int (sint (current_position (cf_axis c'))) / real (unat (scale (cf_axis c')))"
    and "ms' = ms @ (if is_cyclic (cf_axis c') then [hd ms] else [])"
  shows "Tp_arrays_parser (axis_text ss ms) period_ns c
    = and_then (plan_moves period_ns bias bias 0 ms' ((cf_axis c')\<lparr>tp_num := of_nat (length ms')\<rparr>)) (\<lambda>(_, _, ax).
        Inr (0, c'\<lparr>cf_axis := ax\<lparr>csp_status := csp_status_ready\<rparr>\<rparr>))"
proof -
  let ?a = "moves_text ms @ ''];''"
  have "CHR '']'' \<notin> set (moves_text ms)" by (rule moves_text_no) (auto simp: special_chars)
  then have loop: "parse_loop (axis_text ss ms) None c = Inr (0, Some ?a, c')"
    using settings_loop [OF assms(3), of "''TpArrays=['' @ moves_text ms @ ''];''"] array_loop [of "moves_text ms"] assms(7)
    by (simp add: axis_text_def)
  have n: "count_list ?a CHR ''('' = length ms" by (simp add: count_moves_text)
  let ?c = "upd_axis (\<lambda>ax. ax\<lparr>tp_num := of_nat (if is_cyclic ax then length ms + 1 else length ms)\<rparr>) c'"
  have "Tp_arrays_parser (axis_text ss ms) period_ns c = plan_array period_ns ?a ?c"
    using loop n assms(1,2,4,5) by (simp add: Tp_arrays_parser_def TRAJECTORY_PLANNER_MAX_def Let_def upd_axis_def)
  moreover have "cf_axis ?c = (cf_axis c')\<lparr>tp_num := of_nat (length ms')\<rparr>" by (simp add: upd_axis_def assms(10))
  ultimately show ?thesis
    using plan_array_text [OF assms(4,6), of ?c bias period_ns] assms(8-10) by (simp add: upd_axis_def add.commute)
qed

text \<open>The text of the application.\<close>


definition zero_axis :: axis_t where
  "zero_axis = \<lparr>current_position = 0, current_velocity = 0, scale = 0, tp_num = 0, is_cyclic = False, current_tp = 0,
     acceleration = 0, deceleration = 0, max_speed = 0, csp_status = csp_status_stop,
     tps = replicate TRAJECTORY_PLANNER_MAX \<lparr>points_num = 0, current_point = 0, origin_pos = 0, target_pos = 0,
       uniform_speed = 0, accel_pos = 0, decel_pos = 0, point_accel_end = 0, point_decel_start = 0, direction = 0\<rparr>\<rparr>"

definition zero_cfg :: axis_cfg where
  "zero_cfg = \<lparr>cf_axis = zero_axis, cf_mode = 0, cf_bias = 0\<rparr>"

text \<open>The text that the application is built with.\<close>

definition app_text :: string where
  "app_text = ''Cyclic=1; Scale=186413; Bias=0; Accel=8; Decel=8; Max_speed=3600; TpArrays=[(0:2000),(360:1000),(720:2000),(0:1000),(-720:2000),(-360:1000),(0:2000),(0:1000)];''"

definition app_settings :: "(string \<times> int) list" where
  "app_settings = [(''Cyclic'', 1), (''Scale'', 186413), (''Bias'', 0), (''Accel'', 8), (''Decel'', 8), (''Max_speed'', 3600)]"

definition app_moves :: "(int \<times> int) list" where
  "app_moves = [(0, 2000), (360, 1000), (720, 2000), (0, 1000), (-720, 2000), (-360, 1000), (0, 2000), (0, 1000)]"

lemma app_text_eq: "axis_text app_settings app_moves = app_text"
  by (simp add: axis_text_def app_settings_def app_moves_def app_text_def setting_text_def move_text_def int_text_def
      decimal.simps char_of_def bit_Suc_0_iff)

theorem trajectory_text_parses_witness:
  "Tp_arrays_parser app_text 1000000 (zero_cfg\<lparr>cf_mode := op_mode_csp\<rparr>)
    = and_then (plan_moves 1000000 0 0 0 (app_moves @ [(0, 2000)])
        (zero_axis\<lparr>tp_num := 9, is_cyclic := True, scale := 186413, acceleration := 8, deceleration := 8, max_speed := 3600\<rparr>))
        (\<lambda>(_, _, ax). Inr (0, \<lparr>cf_axis = ax\<lparr>csp_status := csp_status_ready\<rparr>, cf_mode = op_mode_csp, cf_bias = 0\<rparr>))"
proof -
  let ?c = "zero_cfg\<lparr>cf_mode := op_mode_csp\<rparr>"
  have s: "fold apply_setting app_settings ?c = \<lparr>cf_axis = zero_axis\<lparr>is_cyclic := True, scale := 186413, acceleration := 8,
      deceleration := 8, max_speed := 3600\<rparr>, cf_mode = op_mode_csp, cf_bias = 0\<rparr>"
    by (simp add: app_settings_def apply_setting_def param_table_def upd_axis_def zero_cfg_def zero_axis_def)
  have v: "\<forall>s \<in> set app_settings. fst s \<in> fst ` set param_table \<and> in_i32 (snd s)"
      "\<forall>m \<in> set app_moves. in_i32 (fst m) \<and> in_i32 (snd m)" "app_moves \<noteq> []" "length app_moves \<le> 8"
    by (simp_all add: app_settings_def app_moves_def param_table_def in_i32_def)
  have h: "hd app_moves = (0, 2000)" by (simp add: app_moves_def)
  show ?thesis
    using trajectory_text_parses [of ?c app_settings app_moves _ 0 "app_moves @ [(0, 2000)]" 1000000, OF _ _ v(1,3,4,2) s [symmetric]]
    by (simp add: app_text_eq zero_cfg_def zero_axis_def h) (simp add: app_moves_def)
qed

section \<open>The start of the application\<close>

text \<open>
  \<open>main.c\<close>: the timer, the tables, and \<open>control_task\<close> up to its cyclic loop. The EtherCAT library is
  what it answers: whether it starts, the number of drives configured, the bus, the clock differences
  read at each attempt, which drives have a distributed clock, the position of the axis, and after which
  attempts the drives are operational. The calls that change the bus are recorded.
\<close>

definition osal_timer_init ::
    "os_counter_ops \<Rightarrow> int \<Rightarrow> u8 \<Rightarrow> nat \<Rightarrow> u32 \<Rightarrow> os_counter \<Rightarrow> servo_clock \<Rightarrow> (os_counter \<times> servo_clock) outcome" where
  "osal_timer_init ops irq_rc chan cb usec d clk =
     (let t = os_counter_us_to_ticks ops d (ucast usec)
      in and_then (op_start ops irq_rc d) (\<lambda>(_, d1).
         let tick = snd (op_get_value ops d1) in
         and_then (op_set_channel_alarm ops chan (Some \<lparr>al_callback = Some cb, al_ticks = t, al_last_ticks = 0,
              al_user_data = 0, al_flags = OS_COUNTER_ALARM_CFG_LOOP\<rparr>) d1) (\<lambda>(_, d2).
         Inr (d2, clk\<lparr>ticks_per_period := t, system_ticks := ucast tick\<rparr>))))"

definition EtherCAT_servo_init :: "servo_t \<times> axis_cfg" where
  "EtherCAT_servo_init =
     (\<lparr>VendorId = 0x00100000, ProductID = 0x000c0116, slave_id = 0, slave = None, synced = False, axis_num = 1\<rparr>, zero_cfg)"

datatype ec_call =
    Ec_Configdc
  | Ec_Dcsync0 int
  | Ec_Hook int
  | Ec_Config_Map
  | Ec_Statecheck
  | Ec_Exchange
  | Ec_Request_Op

record ec_answers =
  ea_init :: bool
  ea_config :: int
  ea_bus :: ec_bus
  ea_diff :: "nat \<Rightarrow> int \<Rightarrow> int \<times> int"
  ea_hasdc :: "int \<Rightarrow> bool"
  ea_position :: "u32 option"
  ea_operational :: "nat \<Rightarrow> bool"

text \<open>\<open>servo_setup\<close> hooks the mapping of process data of a drive that is the expected one.\<close>

definition servo_setup :: "ec_bus \<Rightarrow> servo_t \<Rightarrow> ec_call list" where
  "servo_setup b s =
     (let si = slave_id s + 1 in if eep_man b si = VendorId s \<and> eep_id b si = ProductID s then [Ec_Hook si] else [])"

text \<open>At most \<open>n\<close> attempts, the first one numbered \<open>k\<close>.\<close>

fun wait_synced :: "(nat \<Rightarrow> int \<Rightarrow> int \<times> int) \<Rightarrow> nat \<Rightarrow> nat \<Rightarrow> servo_t list \<Rightarrow> servo_t list outcome" where
  "wait_synced diff k 0 ss = Inr ss"
| "wait_synced diff k (Suc n) ss =
     and_then (servo_synced_check (diff k) ss) (\<lambda>(r, ss'). if r = 1 then Inr ss' else wait_synced diff (k + 1) n ss')"

text \<open>The loop ends with its condition, so it runs once more than \<open>n\<close> times.\<close>

fun wait_operational :: "(nat \<Rightarrow> bool) \<Rightarrow> nat \<Rightarrow> nat \<Rightarrow> bool \<times> ec_call list" where
  "wait_operational op k 0 = (op k, [Ec_Exchange, Ec_Statecheck])"
| "wait_operational op k (Suc n) =
     (if op k then (True, [Ec_Exchange, Ec_Statecheck])
      else (let (r, cs) = wait_operational op (k + 1) n in (r, [Ec_Exchange, Ec_Statecheck] @ cs)))"

datatype start_result = Start_Err | Start_Not_Operational | Start_Operational

record start_state =
  st_servos :: "servo_t list"
  st_axis :: axis_cfg
  st_pdo :: pdo_image
  st_calls :: "ec_call list"

fun dcsync_calls :: "(int \<Rightarrow> bool) \<Rightarrow> servo_t list \<Rightarrow> ec_call list outcome" where
  "dcsync_calls hasdc [] = Inr []"
| "dcsync_calls hasdc (s # ss) =
     (case slave s of None \<Rightarrow> Inl Null_Deref
      | Some i \<Rightarrow> and_then (dcsync_calls hasdc ss) (\<lambda>cs.
          Inr ((if hasdc i then [Ec_Dcsync0 (slave_id s + 1)] else []) @ cs)))"

text \<open>
  \<open>control_task\<close> up to the cyclic loop, with the text of the trajectories and the process image that
  the outputs of the drive are part of.
\<close>

definition CYCLE_PERIOD_NS :: u32 where "CYCLE_PERIOD_NS = 1000000"

definition control_start :: "ec_answers \<Rightarrow> string \<Rightarrow> pdo_image \<Rightarrow> (start_result \<times> start_state) outcome" where
  "control_start ea tp p =
     (let (servo, ax) = EtherCAT_servo_init;
          st = \<lparr>st_servos = [servo], st_axis = ax, st_pdo = p, st_calls = []\<rparr>
      in if \<not> ea_init ea \<or> ea_config ea \<le> 0 \<or> ec_slavecount (ea_bus ea) < 1 then Inr (Start_Err, st)
      else let (r, ss) = servo_slave_check (ea_bus ea) [servo]
      in if r < 0 then Inr (Start_Err, st\<lparr>st_servos := ss\<rparr>)
      else and_then (wait_synced (ea_diff ea) 0 100 ss) (\<lambda>ss.
        and_then (dcsync_calls (ea_hasdc ea) ss) (\<lambda>sync.
        and_then (axis_nc_init (ea_position ea) tp CYCLE_PERIOD_NS ax) (\<lambda>(_, ax1).
        let p1 = p\<lparr>target_position := current_position (cf_axis ax1)\<rparr>;
            ax2 = upd_axis axis_nc_start ax1;
            (op, polls) = wait_operational (ea_operational ea) 0 500;
            calls = [Ec_Configdc] @ sync @ concat (map (servo_setup (ea_bus ea)) ss)
              @ [Ec_Config_Map, Ec_Statecheck, Ec_Exchange, Ec_Request_Op] @ polls
        in Inr (if op then Start_Operational else Start_Not_Operational,
                \<lparr>st_servos = ss, st_axis = ax2, st_pdo = p1, st_calls = calls\<rparr>)))))"

text \<open>
  The cyclic loop: each round brings the work counter and the inputs of the drive. The result says
  whether the loop has ended.
\<close>

fun control_loop :: "int \<Rightarrow> (int \<times> u16 \<times> u32 \<times> u32) list \<Rightarrow> control_state \<Rightarrow> (bool \<times> control_state) outcome" where
  "control_loop expected [] s = Inr (False, s)"
| "control_loop expected ((wkc, sw, pos, vel) # ins) s =
     and_then (control_round expected wkc
        (s\<lparr>ct_pdo := (ct_pdo s)\<lparr>status_word := sw, actual_position := pos, actual_velocity := vel\<rparr>\<rparr>)) (\<lambda>(r, s').
       case r of Round_Break \<Rightarrow> Inr (True, s') | Round_On \<Rightarrow> control_loop expected ins s')"

subsection \<open>What the start does\<close>

lemma parse_moves_position:
  "parse_moves period bias orig i p ax = Inr (ret, orig', i', ax') \<Longrightarrow> current_position ax' = current_position ax"
proof (induction period bias orig i p ax rule: parse_moves.induct)
  case (1 period bias orig i p ax)
  obtain r where r: "scan_move (skip_blank p) = Inr r"
    using "1.prems" by (auto simp: parse_moves.simps [of period bias orig i p] outcome_simps)
  show ?case
  proof (cases r)
    case None
    then show ?thesis using "1.prems" r by (simp add: parse_moves.simps [of period bias orig i p])
  next
    case (Some m)
    obtain v t where m: "m = (v, t)" by (cases m)
    obtain ax1 where a: "put_move period orig (bias + real_of_int v) i (word_of_int t) ax = Inr ax1"
      using "1.prems" r Some m by (auto simp: parse_moves.simps [of period bias orig i p] outcome_simps)
    show ?thesis
    proof (cases "strchr (skip_blank (skip_blank p)) CHR '',''")
      case None
      then show ?thesis using "1.prems" r Some m a put_move_fields [OF a] by (simp add: parse_moves.simps [of period bias orig i p])
    next
      case q: (Some q)
      then show ?thesis using "1.IH" [OF r Some m [symmetric] a q] "1.prems" r Some m a put_move_fields [OF a]
        by (simp add: parse_moves.simps [of period bias orig i p])
    qed
  qed
qed

lemma init_position:
  assumes "axis_nc_init (Some pos) tp period c = Inr (ret, ax)"
  shows "current_position (cf_axis ax) = pos"
proof -
  have plan: "current_position (cf_axis c') = current_position (cf_axis c)"
    if "plan_array period a c = Inr (r, c')" for a c r c'
    using that parse_moves_position put_move_fields
    by (fastforce simp: plan_array_def Let_def outcome_simps split: if_splits option.split_asm)
  let ?c = "upd_axis (\<lambda>a. a\<lparr>csp_status := csp_status_stop, scale := 1, current_position := pos\<rparr>) (c\<lparr>cf_mode := op_mode_csp\<rparr>)"
  obtain r c2 where r: "Tp_arrays_parser tp period ?c = Inr (r, c2)" "current_position (cf_axis ax) = current_position (cf_axis c2)"
    using assms by (auto simp: axis_nc_init_def outcome_simps upd_axis_def Let_def split: if_splits)
  have m: "cf_mode ?c = op_mode_csp" "csp_status (cf_axis ?c) \<noteq> csp_status_running" "current_position (cf_axis ?c) = pos"
    by (simp_all add: upd_axis_def)
  obtain r1 ta c1 where l: "parse_loop tp None ?c = Inr (r1, ta, c1)"
    using r(1) m by (auto simp: Tp_arrays_parser_def outcome_simps)
  have "current_position (cf_axis c1) = pos" using parse_loop_same [OF l] m(3) by (simp add: same_tps_def)
  then show ?thesis
    using r m l plan by (auto simp: Tp_arrays_parser_def Let_def upd_axis_def split: if_splits dest!: plan)
qed

lemma wait_operational_iff: "fst (wait_operational op k n) \<longleftrightarrow> (\<exists>j \<le> n. op (k + j))"
proof (induction n arbitrary: k)
  case (Suc n)
  have "(\<exists>j \<le> Suc n. op (k + j)) \<longleftrightarrow> op k \<or> (\<exists>j \<le> n. op (Suc k + j))"
    by (metis Suc_le_mono add_0_right add_Suc_shift not0_implies_Suc zero_le)
  then show ?case using Suc [of "Suc k"] by (simp add: split_beta Let_def)
qed simp

lemma wait_synced_one:
  assumes "\<forall>k. snd (d k 0) \<noteq> - (2 ^ 31)"
  shows "\<exists>b. wait_synced d k n [s] = Inr [s\<lparr>synced := b\<rparr>]"
proof (induction n arbitrary: k)
  case 0
  have "s\<lparr>synced := synced s\<rparr> = s" by simp
  then show ?case by (metis wait_synced.simps(1))
next
  case (Suc n)
  have same: "s\<lparr>synced := synced s\<rparr> = s" by simp
  show ?case
  proof (cases "synced s \<or> fst (d k 0) = 1 \<and> \<bar>snd (d k 0)\<bar> < 100000")
    case True
    then have "wait_synced d k (Suc n) [s] = Inr [s\<lparr>synced := True\<rparr>]"
      using assms same by (auto simp: servo_synced_check_def split_beta Let_def)
    then show ?thesis by blast
  next
    case False
    then have "wait_synced d k (Suc n) [s] = wait_synced d (Suc k) n [s]"
      using assms by (auto simp: servo_synced_check_def split_beta Let_def)
    then show ?thesis using Suc by simp
  qed
qed

lemma start_checks:
  assumes "ea_init ea" "0 < ea_config ea" "1 \<le> ec_slavecount (ea_bus ea)" "\<forall>k. snd (ea_diff ea k 0) \<noteq> - (2 ^ 31)"
    and "axis_nc_init (ea_position ea) tp CYCLE_PERIOD_NS zero_cfg = Inr (ret, ax)"
  obtains st where "control_start ea tp p = Inr (if \<exists>k \<le> 500. ea_operational ea k then Start_Operational else Start_Not_Operational, st)"
    "st_axis st = upd_axis axis_nc_start ax" "st_pdo st = p\<lparr>target_position := current_position (cf_axis ax)\<rparr>"
    "Ec_Hook 1 \<in> set (st_calls st) \<longleftrightarrow> eep_man (ea_bus ea) 1 = 0x00100000 \<and> eep_id (ea_bus ea) 1 = 0x000c0116"
proof -
  let ?s = "\<lparr>VendorId = 0x00100000, ProductID = 0x000c0116, slave_id = 0, slave = None, synced = False, axis_num = 1\<rparr> :: servo_t"
  have chk: "\<exists>r. servo_slave_check (ea_bus ea) [?s] = (r, [?s\<lparr>slave := Some 1\<rparr>]) \<and> 0 \<le> r"
    by (simp add: servo_slave_check_def Let_def)
  then obtain r where r: "servo_slave_check (ea_bus ea) [?s] = (r, [?s\<lparr>slave := Some 1\<rparr>])" "0 \<le> r" by blast
  obtain b where b: "wait_synced (ea_diff ea) 0 100 [?s\<lparr>slave := Some 1\<rparr>] = Inr [?s\<lparr>slave := Some 1, synced := b\<rparr>]"
    using wait_synced_one [of "ea_diff ea" 0 100 "?s\<lparr>slave := Some 1\<rparr>"] assms(4) by auto
  obtain op cs where w: "wait_operational (ea_operational ea) 0 500 = (op, cs)" by (cases "wait_operational (ea_operational ea) 0 500")
  have op: "op \<longleftrightarrow> (\<exists>k \<le> 500. ea_operational ea k)" using wait_operational_iff [of "ea_operational ea" 0 500] w by simp
  have hooks: "Ec_Hook i \<notin> set (snd (wait_operational f k n))" for i f k n
    by (induction n arbitrary: k) (simp_all add: split_beta Let_def)
  have "Ec_Hook 1 \<notin> set cs" using hooks [of 1 "ea_operational ea" 0 500] w by simp
  moreover have "control_start ea tp p = Inr (if op then Start_Operational else Start_Not_Operational,
      \<lparr>st_servos = [?s\<lparr>slave := Some 1, synced := b\<rparr>], st_axis = upd_axis axis_nc_start ax,
       st_pdo = p\<lparr>target_position := current_position (cf_axis ax)\<rparr>,
       st_calls = [Ec_Configdc] @ ((if ea_hasdc ea 1 then [Ec_Dcsync0 1] else []) @ [])
         @ concat (map (servo_setup (ea_bus ea)) [?s\<lparr>slave := Some 1, synced := b\<rparr>])
         @ [Ec_Config_Map, Ec_Statecheck, Ec_Exchange, Ec_Request_Op] @ cs\<rparr>)"
    using assms(1-3,5) r b w by (simp add: control_start_def EtherCAT_servo_init_def)
  ultimately show ?thesis by (intro that) (auto simp: op servo_setup_def Let_def)
qed

text \<open>
  The drive starts where it stands: when the bus comes up and no clock difference overflows, the
  start never stops with a fault once the text of the moves is read, the position first asked of the drive is the one read
  from it, its axis is running, the process data of the drive are remapped exactly when it is the expected drive, and the cyclic loop is
  entered exactly when the drive is operational within 501 polls.
\<close>

theorem control_starts_in_place:
  assumes "ea_init ea" "0 < ea_config ea" "1 \<le> ec_slavecount (ea_bus ea)" "\<forall>k. snd (ea_diff ea k 0) \<noteq> - (2 ^ 31)"
    and "axis_nc_init (Some pos) tp CYCLE_PERIOD_NS zero_cfg = Inr (ret, ax)" "ea_position ea = Some pos"
  shows "\<exists>st. control_start ea tp p = Inr (if \<exists>k \<le> 500. ea_operational ea k then Start_Operational else Start_Not_Operational, st)
    \<and> target_position (st_pdo st) = pos \<and> csp_status (cf_axis (st_axis st)) = csp_status_running
    \<and> (Ec_Hook 1 \<in> set (st_calls st) \<longleftrightarrow> eep_man (ea_bus ea) 1 = 0x00100000 \<and> eep_id (ea_bus ea) 1 = 0x000c0116)"
proof -
  obtain st where st: "control_start ea tp p = Inr (if \<exists>k \<le> 500. ea_operational ea k then Start_Operational else Start_Not_Operational, st)"
    "st_axis st = upd_axis axis_nc_start ax" "st_pdo st = p\<lparr>target_position := current_position (cf_axis ax)\<rparr>"
    "Ec_Hook 1 \<in> set (st_calls st) \<longleftrightarrow> eep_man (ea_bus ea) 1 = 0x00100000 \<and> eep_id (ea_bus ea) 1 = 0x000c0116"
    by (rule start_checks [OF assms(1-4), of tp ret ax p]) (use assms(5,6) in auto)
  have "current_position (cf_axis ax) = pos" by (rule init_position [OF assms(5)])
  then show ?thesis using st by (auto simp: upd_axis_def axis_nc_start_def)
qed

text \<open>A text that is rejected does not stop the start: the axis runs on empty trajectories, and the first
  position it asks of the drive is 0, wherever the drive stands.\<close>

theorem rejected_text_starts_axis:
  assumes "ea_init ea" "0 < ea_config ea" "1 \<le> ec_slavecount (ea_bus ea)" "\<forall>k. snd (ea_diff ea k 0) \<noteq> - (2 ^ 31)"
  shows "axis_nc_init (ea_position ea) [] CYCLE_PERIOD_NS zero_cfg \<in> {Inr (- 3, c) | c. True}
    \<and> (\<exists>r st ax'. control_start ea [] p = Inr (r, st) \<and> axis_nc_get_next_pos (cf_axis (st_axis st)) = Inr (0, ax'))"
proof -
  let ?a = "zero_axis\<lparr>scale := 1, current_position := (case ea_position ea of None \<Rightarrow> 0 | Some x \<Rightarrow> x)\<rparr>"
  let ?c = "zero_cfg\<lparr>cf_mode := op_mode_csp, cf_axis := ?a\<rparr>"
  have init: "axis_nc_init (ea_position ea) [] CYCLE_PERIOD_NS zero_cfg = Inr (- 3, ?c)"
    by (simp add: axis_nc_init_def Tp_arrays_parser_def parse_loop.simps [of "[]"] upd_axis_def zero_cfg_def zero_axis_def split: option.split)
  obtain r st where st: "control_start ea [] p = Inr (r, st)" "st_axis st = upd_axis axis_nc_start ?c"
    by (rule start_checks [OF assms init, of p]) blast
  have "axis_nc_get_next_pos (cf_axis (st_axis st)) = Inr (0, next_point (tps zero_axis ! 0) (cf_axis (st_axis st)))"
    by (simp add: st(2) upd_axis_def axis_nc_start_def axis_nc_get_next_pos_def zero_axis_def TRAJECTORY_PLANNER_MAX_def
        planned_position_def profile_def to_position_def trunc_def in_i64_def)
  then show ?thesis using init st(1) by auto
qed


text \<open>A blank at the end of the text makes the parser read past it.\<close>

theorem blank_at_end_overread:
  "Tp_arrays_parser '' '' period (zero_cfg\<lparr>cf_mode := op_mode_csp\<rparr>) = Inl Out_Of_Bounds"
  by (simp add: Tp_arrays_parser_def parse_loop.simps [of "'' ''"] skip_blank_def zero_cfg_def zero_axis_def
      parse_one_def param_table_def parameter_parser_def after_def)

text \<open>A move that cannot be made in its time is accepted: the axis would stand still and then jump.\<close>

theorem impossible_move_accepted:
  "\<exists>ax. put_move 1000000 0 1000 0 1 (zero_axis\<lparr>acceleration := 1, deceleration := 1, max_speed := 100\<rparr>) = Inr ax
    \<and> target_pos (tps ax ! 0) = 1000 \<and> uniform_speed (tps ax ! 0) = 0 \<and> accel_pos (tps ax ! 0) = 0"
proof -
  let ?ax = "zero_axis\<lparr>acceleration := 1, deceleration := 1, max_speed := 100\<rparr>"
  let ?t = "(tps zero_axis ! 0)\<lparr>points_num := 1, current_point := 0, origin_pos := 0, target_pos := 1000\<rparr>"
  have plan: "trajectory_planner ?ax ?t = Inr (- 1, ?t\<lparr>direction := 1\<rparr>)"
    by (simp add: trajectory_planner_def zero_axis_def TRAJECTORY_PLANNER_MAX_def Let_def)
  have get: "arr_get (tps ?ax) 0 = Inr (tps zero_axis ! 0)" by (simp add: zero_axis_def TRAJECTORY_PLANNER_MAX_def)
  have "put_move 1000000 0 1000 0 1 ?ax = Inr (?ax\<lparr>tps := (tps ?ax)[0 := ?t\<lparr>direction := 1\<rparr>]\<rparr>)"
    using plan get by (simp add: put_move_def) (simp add: zero_axis_def TRAJECTORY_PLANNER_MAX_def)
  then show ?thesis by (simp add: zero_axis_def TRAJECTORY_PLANNER_MAX_def)
qed

theorem trajectories_never_overrun_witness:
  "Tp_arrays_parser app_text 1000000 (zero_cfg\<lparr>cf_mode := op_mode_csp\<rparr>) \<noteq> Inl Out_Of_Bounds"
  using trajectories_never_overrun [of "zero_cfg\<lparr>cf_mode := op_mode_csp\<rparr>" app_text 1000000]
  by (simp add: zero_cfg_def zero_axis_def app_text_def)

end
