(* ===== verification/Rt_Latency.thy ===== *)
theory Rt_Latency
  imports Stats Os_Counter
begin


text \<open>
  The real-time latency benchmark: the measurement of \<open>src/apps/rt_latency/common/rt_latency.c\<close> over
  the counter drivers and the statistics.

  The interrupts that arrive while a function waits, and the counts it reads, are a script given to
  it. Semaphores of the OS layer (\<open>semaphore.h\<close>) are their count, \<open>None\<close> when not created. The
  static variables of the file are fields of the state.
\<close>

subsection \<open>State\<close>

record rt_latency_stats =
  irq_delay :: stats
  irq_delay_hist :: hist
  irq_to_sched :: stats
  irq_to_sched_hist :: hist
  late_alarm_sched :: u32
  pending :: bool

record rt_latency_ctx =
  dev_set :: bool
  tc_load :: int
  sema :: "nat option"
  cpu_load_sem :: "nat option"
  irq_load_sem :: "nat option"
  time_irq :: u64
  time_prog :: u32
  lat_stats :: rt_latency_stats
  stats_snapshot :: rt_latency_stats

record bench =
  ctx :: rt_latency_ctx
  lat_dev :: os_counter
  load_dev :: os_counter
  st_ticks :: u32
  stats_cnt :: u64
  st_top :: u32
  counting_up :: "bool option"
  printed :: "rt_latency_stats list"

definition RT_LATENCY_WITH_IRQ_LOAD :: int where "RT_LATENCY_WITH_IRQ_LOAD = 2"
definition RT_LATENCY_WITH_CPU_LOAD :: int where "RT_LATENCY_WITH_CPU_LOAD = 4"
definition RT_LATENCY_WITH_CPU_LOAD_SEM :: int where "RT_LATENCY_WITH_CPU_LOAD_SEM = 8"
definition RT_LATENCY_WITH_INVD_CACHE :: int where "RT_LATENCY_WITH_INVD_CACHE = 16"
definition RT_LATENCY_WITH_LINUX_LOAD :: int where "RT_LATENCY_WITH_LINUX_LOAD = 32"

lemmas load_masks = RT_LATENCY_WITH_IRQ_LOAD_def RT_LATENCY_WITH_CPU_LOAD_def
  RT_LATENCY_WITH_CPU_LOAD_SEM_def RT_LATENCY_WITH_INVD_CACHE_def RT_LATENCY_WITH_LINUX_LOAD_def

definition rt_latency_get_tc_load :: "int \<Rightarrow> int" where
  "rt_latency_get_tc_load i =
     (if i = 1 then 0
      else if i = 2 then RT_LATENCY_WITH_CPU_LOAD
      else if i = 3 then RT_LATENCY_WITH_IRQ_LOAD
      else if i = 4 then RT_LATENCY_WITH_CPU_LOAD OR RT_LATENCY_WITH_CPU_LOAD_SEM
      else if i = 5 then RT_LATENCY_WITH_CPU_LOAD OR RT_LATENCY_WITH_LINUX_LOAD
      else if i = 6 then RT_LATENCY_WITH_CPU_LOAD OR RT_LATENCY_WITH_INVD_CACHE
      else - 1)"

definition has_load :: "int \<Rightarrow> bench \<Rightarrow> bool" where
  "has_load m b \<longleftrightarrow> tc_load (ctx b) AND m \<noteq> 0"

subsection \<open>Semaphores\<close>

definition os_sem_give :: "nat option \<Rightarrow> (int \<times> nat option) outcome" where
  "os_sem_give s =
     (case s of None \<Rightarrow> Inl Null_Deref
      | Some n \<Rightarrow> if n < 2 ^ 32 - 1 then Inr (0, Some (Suc n)) else Inr (- 1, Some n))"

text \<open>A wait that is not served in its time returns -1; one without time limit never returns.\<close>

definition os_sem_take :: "bool \<Rightarrow> nat option \<Rightarrow> (int \<times> nat option) outcome" where
  "os_sem_take forever s =
     (case s of None \<Rightarrow> Inl Null_Deref
      | Some 0 \<Rightarrow> if forever then Inl Deadlock else Inr (- 1, Some 0)
      | Some (Suc n) \<Rightarrow> Inr (0, Some n))"

subsection \<open>Interrupts\<close>

definition calc_diff_ns ::
    "os_counter_ops \<Rightarrow> os_counter \<Rightarrow> u32 \<Rightarrow> u32 \<Rightarrow> bench \<Rightarrow> (u32 \<times> bench) outcome" where
  "calc_diff_ns ops d cnt_1 cnt_2 b =
     (let top = (if st_top b = 0 then op_get_top_value ops d else st_top b);
          up = (case counting_up b of None \<Rightarrow> op_is_counting_up ops d | Some u \<Rightarrow> u);
          diff = (if up then (if cnt_2 < cnt_1 then cnt_2 + top - cnt_1 else cnt_2 - cnt_1)
                  else (if cnt_1 < cnt_2 then cnt_1 + top - cnt_2 else cnt_1 - cnt_2))
      in and_then (os_counter_ticks_to_ns ops d diff) (\<lambda>ns.
         Inr (ucast ns, b\<lparr>st_top := top, counting_up := Some up\<rparr>)))"

definition latency_alarm_handler :: "u32 \<Rightarrow> bench \<Rightarrow> bench outcome" where
  "latency_alarm_handler irq_counter b =
     and_then (os_sem_give (sema (ctx b))) (\<lambda>(_, s).
     Inr (b\<lparr>ctx := (ctx b)\<lparr>time_irq := ucast irq_counter, sema := s\<rparr>\<rparr>))"

definition IRQ_LOAD_ISR_DURATION_US :: u32 where "IRQ_LOAD_ISR_DURATION_US = 10"

text \<open>The busy loop of the load interrupt, over the counts it reads.\<close>

fun load_spin :: "os_counter_ops \<Rightarrow> u32 \<Rightarrow> u32 list \<Rightarrow> bench \<Rightarrow> bench outcome" where
  "load_spin ops start [] b = Inl Diverges"
| "load_spin ops start (cur # cs) b =
     and_then (calc_diff_ns ops (load_dev b) start cur b) (\<lambda>(ns, b1).
     if ns < IRQ_LOAD_ISR_DURATION_US * 1000 then load_spin ops start cs b1 else Inr b1)"

definition load_alarm_handler ::
    "os_counter_ops \<Rightarrow> u32 \<Rightarrow> u32 list \<Rightarrow> bench \<Rightarrow> bench outcome" where
  "load_alarm_handler ops start cs b =
     and_then (load_spin ops start cs b) (\<lambda>b1.
     and_then (os_sem_give (irq_load_sem (ctx b1))) (\<lambda>(_, s).
     Inr (b1\<lparr>load_dev := snd (op_stop ops (load_dev b1)),
             ctx := (ctx b1)\<lparr>irq_load_sem := s\<rparr>\<rparr>)))"

text \<open>
  An alarm interrupt of the measured counter at count \<open>c\<close>: the interrupt handler of the driver, and
  the callback when it was called. No interrupt comes from a counter whose interrupt is disabled or
  that stands still. The load counter likewise.
\<close>

definition latency_irq ::
    "(alarm_run \<Rightarrow> os_counter \<Rightarrow> os_counter outcome) \<Rightarrow> u32 \<Rightarrow> bench \<Rightarrow> bench outcome" where
  "latency_irq irq c b =
     (if hw_irq (lat_dev b) \<and> hw_running (lat_dev b) then
        and_then (irq quiet ((lat_dev b)\<lparr>hw_count := c\<rparr>)) (\<lambda>d.
        (let b1 = b\<lparr>lat_dev := d\<rparr>
         in if length (fired (lat_dev b)) < length (fired d)
            then latency_alarm_handler (fst (snd (last (fired d)))) b1 else Inr b1))
      else Inr b)"

definition load_irq ::
    "os_counter_ops \<Rightarrow> (alarm_run \<Rightarrow> os_counter \<Rightarrow> os_counter outcome) \<Rightarrow> u32 list \<Rightarrow> bench \<Rightarrow>
       bench outcome" where
  "load_irq ops irq cs b =
     (case cs of
        [] \<Rightarrow> Inr b
      | start # readings \<Rightarrow>
          if hw_irq (load_dev b) \<and> hw_running (load_dev b) then
            and_then (irq quiet ((load_dev b)\<lparr>hw_count := start\<rparr>)) (\<lambda>d.
            (let b1 = b\<lparr>load_dev := d\<rparr>
             in if length (fired (load_dev b)) < length (fired d)
                then load_alarm_handler ops start readings b1 else Inr b1))
          else Inr b)"

subsection \<open>One measurement\<close>

definition rt_latency_stats_dump :: "bench \<Rightarrow> bench" where
  "rt_latency_stats_dump b =
     (let c = ctx b
      in if pending (stats_snapshot c) then b
         else b\<lparr>ctx := c\<lparr>stats_snapshot := (lat_stats c)\<lparr>pending := True\<rparr>,
                lat_stats := (lat_stats c)\<lparr>irq_delay := stats_reset (irq_delay (lat_stats c)),
                  irq_to_sched := stats_reset (irq_to_sched (lat_stats c))\<rparr>\<rparr>\<rparr>)"

definition COUNTER_PERIOD_US_VAL :: u64 where "COUNTER_PERIOD_US_VAL = 100"
definition LATENCY_STATS_PERIOD :: u64 where "LATENCY_STATS_PERIOD = 10 * 1000000 div 100"

text \<open>
  One wait for the alarm: the count read when it is programmed, the alarm interrupt that ends the
  wait, if one does, the one that comes between the timeout and the cancellation of the alarm, and
  the count read by the woken task.
\<close>

record attempt =
  at_count :: u32
  at_fire :: "u32 option"
  at_late :: "u32 option"
  at_now :: u32

definition opt_irq :: "(u32 \<Rightarrow> bench \<Rightarrow> bench outcome) \<Rightarrow> u32 option \<Rightarrow> bench \<Rightarrow> bench outcome" where
  "opt_irq irq c b = (case c of None \<Rightarrow> Inr b | Some n \<Rightarrow> irq n b)"

definition latency_alarm_cfg :: "u32 \<Rightarrow> os_counter_alarm_cfg" where
  "latency_alarm_cfg t =
     \<lparr>al_callback = Some 0, al_ticks = t, al_last_ticks = 0, al_user_data = 0,
      al_flags = OS_COUNTER_ALARM_CFG_ABSOLUTE\<rparr>"

definition load_alarm_cfg :: "u32 \<Rightarrow> os_counter_alarm_cfg" where
  "load_alarm_cfg t =
     \<lparr>al_callback = Some 1, al_ticks = t, al_last_ticks = 0, al_user_data = 0, al_flags = 0\<rparr>"

text \<open>The code from the label \<open>retry\<close> to the wake-up; the reading of the woken task is returned.\<close>

fun wait_alarm ::
    "os_counter_ops \<Rightarrow> (alarm_run \<Rightarrow> os_counter \<Rightarrow> os_counter outcome) \<Rightarrow> attempt list \<Rightarrow> bench \<Rightarrow>
       (u32 \<times> bench) outcome" where
  "wait_alarm ops irq [] b = Inl Diverges"
| "wait_alarm ops irq (a # as) b =
     (let d = (lat_dev b)\<lparr>hw_count := at_count a\<rparr>;
          due = snd (op_get_value ops d) + st_ticks b
      in and_then (op_set_channel_alarm ops 0 (Some (latency_alarm_cfg due)) d) (\<lambda>(err, d1).
         os_assert (err = 0)
          (and_then (opt_irq (latency_irq irq) (at_fire a)
             (b\<lparr>lat_dev := d1, ctx := (ctx b)\<lparr>time_prog := due\<rparr>\<rparr>)) (\<lambda>b1.
           and_then (os_sem_take False (sema (ctx b1))) (\<lambda>(err, s).
           (let b2 = b1\<lparr>ctx := (ctx b1)\<lparr>sema := s\<rparr>\<rparr>
            in if err < 0 then
                 and_then (opt_irq (latency_irq irq) (at_late a) b2) (\<lambda>b3.
                 and_then (op_cancel_channel_alarm ops 0 (lat_dev b3)) (\<lambda>(err, d3).
                 os_assert (err = 0)
                   (wait_alarm ops irq as
                      (let c = ctx b3; st = lat_stats c
                       in b3\<lparr>lat_dev := d3,
                          ctx := c\<lparr>lat_stats := st\<lparr>late_alarm_sched := late_alarm_sched st + 1\<rparr>\<rparr>\<rparr>))))
               else Inr (at_now a, b2)))))))"

definition record_irq_delay :: "u32 \<Rightarrow> bench \<Rightarrow> bench outcome" where
  "record_irq_delay v b =
     (let c = ctx b; st = lat_stats c
      in and_then (stats_update (to_i32 (uint v)) (irq_delay st)) (\<lambda>s.
         and_then (hist_update v (irq_delay_hist st)) (\<lambda>h.
         Inr (b\<lparr>ctx := c\<lparr>lat_stats := st\<lparr>irq_delay := s, irq_delay_hist := h\<rparr>\<rparr>\<rparr>))))"

definition record_irq_to_sched :: "u32 \<Rightarrow> bench \<Rightarrow> bench outcome" where
  "record_irq_to_sched v b =
     (let c = ctx b; st = lat_stats c
      in and_then (stats_update (to_i32 (uint v)) (irq_to_sched st)) (\<lambda>s.
         and_then (hist_update v (irq_to_sched_hist st)) (\<lambda>h.
         Inr (b\<lparr>ctx := c\<lparr>lat_stats := st\<lparr>irq_to_sched := s, irq_to_sched_hist := h\<rparr>\<rparr>\<rparr>))))"

definition start_irq_load :: "os_counter_ops \<Rightarrow> int \<Rightarrow> bench \<Rightarrow> bench outcome" where
  "start_irq_load lops irq_rc b =
     (if has_load RT_LATENCY_WITH_IRQ_LOAD b then
        and_then (op_start lops irq_rc (load_dev b)) (\<lambda>(_, d).
        and_then (op_set_channel_alarm lops 0
          (Some (load_alarm_cfg (os_counter_us_to_ticks lops d (COUNTER_PERIOD_US_VAL - 1)))) d) (\<lambda>(err, d1).
        os_assert (err = 0) (Inr (b\<lparr>load_dev := d1, ctx := (ctx b)\<lparr>irq_load_sem := Some 0\<rparr>\<rparr>))))
      else Inr b)"

text \<open>
  \<open>irq_rc\<close> is the result of registering the interrupt, \<open>as\<close> the attempts, \<open>load\<close> the counts read by
  the load interrupt, which comes while the task waits (empty when it does not come).
\<close>

definition rt_latency_test ::
    "os_counter_ops \<Rightarrow> os_counter_ops \<Rightarrow> (alarm_run \<Rightarrow> os_counter \<Rightarrow> os_counter outcome) \<Rightarrow> int \<Rightarrow>
       attempt list \<Rightarrow> u32 list \<Rightarrow> bench \<Rightarrow> (int \<times> bench) outcome" where
  "rt_latency_test ops lops irq irq_rc as load b =
     (let b1 = (if st_ticks b = 0
                then b\<lparr>st_ticks := os_counter_us_to_ticks ops (lat_dev b) COUNTER_PERIOD_US_VAL\<rparr> else b)
      in and_then (op_start ops irq_rc (lat_dev b1)) (\<lambda>(_, d).
         and_then (start_irq_load lops irq_rc (b1\<lparr>lat_dev := d\<rparr>)) (\<lambda>b2.
         and_then (wait_alarm ops irq as b2) (\<lambda>(now, b3).
         and_then (load_irq lops irq load (b3\<lparr>lat_dev := snd (op_stop ops (lat_dev b3))\<rparr>)) (\<lambda>b4.
         and_then (calc_diff_ns ops (lat_dev b4) (time_prog (ctx b4)) (ucast (time_irq (ctx b4))) b4)
          (\<lambda>(delay, b5).
         and_then (record_irq_delay delay b5) (\<lambda>b6.
         and_then (calc_diff_ns ops (lat_dev b6) (time_prog (ctx b6)) now b6) (\<lambda>(sched, b7).
         and_then (record_irq_to_sched sched b7) (\<lambda>b8.
         (let b9 = b8\<lparr>stats_cnt := stats_cnt b8 + 1\<rparr>;
              b10 = (if stats_cnt b9 mod LATENCY_STATS_PERIOD = 0
                     then rt_latency_stats_dump b9 else b9)
          in if has_load RT_LATENCY_WITH_IRQ_LOAD b10 then
               and_then (os_sem_take True (irq_load_sem (ctx b10))) (\<lambda>(err, s).
               os_assert (err = 0) (Inr (err, b10\<lparr>ctx := (ctx b10)\<lparr>irq_load_sem := s\<rparr>\<rparr>)))
             else Inr (0, b10)))))))))))"

subsection \<open>Loads, printing, life cycle\<close>

definition cpu_load :: "bench \<Rightarrow> bench outcome" where
  "cpu_load b =
     (if has_load RT_LATENCY_WITH_CPU_LOAD_SEM b then
        and_then (os_sem_take True (cpu_load_sem (ctx b))) (\<lambda>(err, s).
        os_assert (err = 0)
          (and_then (os_sem_give s) (\<lambda>(err, s').
           os_assert (err = 0) (Inr (b\<lparr>ctx := (ctx b)\<lparr>cpu_load_sem := s'\<rparr>\<rparr>)))))
      else Inr b)"

definition print_stats :: "bench \<Rightarrow> bench outcome" where
  "print_stats b =
     (let c = ctx b; sn = stats_snapshot c
      in if pending sn then
           and_then (stats_compute (irq_delay sn)) (\<lambda>s1.
           and_then (hist_print (irq_delay_hist sn)) (\<lambda>_.
           and_then (stats_compute (irq_to_sched sn)) (\<lambda>s2.
           and_then (hist_print (irq_to_sched_hist sn)) (\<lambda>_.
           (let sn' = sn\<lparr>irq_delay := s1, irq_to_sched := s2\<rparr>
            in Inr (b\<lparr>printed := printed b @ [sn'],
                      ctx := c\<lparr>stats_snapshot := sn'\<lparr>pending := False\<rparr>\<rparr>\<rparr>))))))
         else Inr b)"

definition cancel_ok :: "os_counter_ops \<Rightarrow> os_counter \<Rightarrow> os_counter outcome" where
  "cancel_ok ops d =
     (let (e1, d1) = op_stop ops d
      in os_assert (e1 = 0)
          (and_then (op_cancel_channel_alarm ops 0 d1) (\<lambda>(e2, d2). os_assert (e2 = 0) (Inr d2))))"

definition rt_latency_destroy :: "os_counter_ops \<Rightarrow> os_counter_ops \<Rightarrow> bench \<Rightarrow> bench outcome" where
  "rt_latency_destroy ops lops b =
     (let b1 = (if has_load RT_LATENCY_WITH_CPU_LOAD b
                then b\<lparr>ctx := (ctx b)\<lparr>cpu_load_sem := None\<rparr>\<rparr> else b)
      in and_then
           (if has_load RT_LATENCY_WITH_IRQ_LOAD b1
            then and_then (cancel_ok lops (load_dev b1)) (\<lambda>d.
                 Inr (b1\<lparr>load_dev := d, ctx := (ctx b1)\<lparr>irq_load_sem := None\<rparr>\<rparr>))
            else Inr b1) (\<lambda>b2.
         and_then (cancel_ok ops (lat_dev b2)) (\<lambda>d.
         and_then (print_stats (rt_latency_stats_dump
           (b2\<lparr>lat_dev := d, ctx := (ctx b2)\<lparr>sema := None\<rparr>\<rparr>))) (\<lambda>b3.
         (let c = ctx b3; st = lat_stats c
          in and_then (hist_reset (irq_delay_hist st)) (\<lambda>h1.
             and_then (hist_reset (irq_to_sched_hist st)) (\<lambda>h2.
             Inr (b3\<lparr>ctx := c\<lparr>dev_set := False,
                lat_stats := st\<lparr>irq_delay := stats_reset (irq_delay st), irq_delay_hist := h1,
                  irq_to_sched := stats_reset (irq_to_sched st), irq_to_sched_hist := h2,
                  late_alarm_sched := 0\<rparr>\<rparr>\<rparr>))))))))"

definition rt_latency_init :: "bench \<Rightarrow> int \<times> bench" where
  "rt_latency_init b =
     (let c = ctx b; st = lat_stats c;
          st1 = st\<lparr>irq_delay := stats_init 31 False (irq_delay st),
                   irq_delay_hist := snd (hist_init 20 1000 (irq_delay_hist st)),
                   irq_to_sched := stats_init 31 False (irq_to_sched st),
                   irq_to_sched_hist := snd (hist_init 20 1000 (irq_to_sched_hist st)),
                   late_alarm_sched := 0\<rparr>;
          c1 = c\<lparr>dev_set := True, lat_stats := st1,
                 stats_snapshot := (stats_snapshot c)\<lparr>pending := False\<rparr>, sema := Some 0\<rparr>;
          b1 = b\<lparr>ctx := c1\<rparr>
      in (0, if has_load RT_LATENCY_WITH_CPU_LOAD b1
             then b1\<lparr>ctx := c1\<lparr>cpu_load_sem := Some 0\<rparr>\<rparr> else b1))"

subsection \<open>The contract of a free-running counter\<close>

text \<open>
  What the benchmark needs of a counter beyond its alarm: it counts up at 24 MHz, over the whole
  32-bit range when its top register says so, its operations leave that register, and the running
  flag to \<open>start\<close> and \<open>stop\<close>, and these two touch nothing else.
\<close>

locale latency_timer =
  alarm_device "op_set_channel_alarm ops" "op_cancel_channel_alarm ops" irq
  for ops :: os_counter_ops and irq :: "alarm_run \<Rightarrow> os_counter \<Rightarrow> os_counter outcome" +
  assumes start_up: "dev_ok d \<Longrightarrow> op_start ops rc d = Inr (0, d\<lparr>hw_running := True\<rparr>)"
    and stop_down: "op_stop ops d = (0, d\<lparr>hw_running := False\<rparr>)"
    and reads: "op_get_value ops d = (0, hw_count d)"
    and counts_up: "op_is_counting_up ops d"
    and frequency: "op_get_frequency ops d = 24000000"
    and full_range: "hw_top d = - 1 \<Longrightarrow> op_get_top_value ops d = - 1"
    and set_running: "op_set_channel_alarm ops 0 c d = Inr (r, d') \<Longrightarrow>
      hw_running d' = hw_running d \<and> hw_top d' = hw_top d"
    and cancel_running: "op_cancel_channel_alarm ops 0 d = Inr (r, d') \<Longrightarrow>
      hw_running d' = hw_running d \<and> hw_top d' = hw_top d"
    and irq_running: "irq quiet d = Inr d' \<Longrightarrow> hw_running d' = hw_running d \<and> hw_top d' = hw_top d"

text \<open>An idle counter has no alarm; \<open>quiet_bench\<close> is a benchmark between two measurements.\<close>

definition idle :: "os_counter \<Rightarrow> bool" where
  "idle d \<longleftrightarrow> dev_ok d \<and> al_callback (alarms d ! 0) = None"

text \<open>
  The script of a measurement: alarms that time out, programmed at the counts \<open>ls\<close>, and the one
  that is served, programmed at \<open>c\<close>, whose interrupt is taken at \<open>f\<close> and whose task reads \<open>n\<close>.
\<close>

record measurement =
  ms_late :: "u32 list"
  ms_count :: u32
  ms_fire :: u32
  ms_now :: u32

definition late_attempt :: "u32 \<Rightarrow> attempt" where
  "late_attempt c = \<lparr>at_count = c, at_fire = None, at_late = None, at_now = 0\<rparr>"

definition script :: "measurement \<Rightarrow> attempt list" where
  "script m = map late_attempt (ms_late m)
     @ [\<lparr>at_count = ms_count m, at_fire = Some (ms_fire m), at_late = None, at_now = ms_now m\<rparr>]"

definition add_late :: "nat \<Rightarrow> rt_latency_ctx \<Rightarrow> rt_latency_ctx" where
  "add_late n c =
     c\<lparr>lat_stats := (lat_stats c)\<lparr>late_alarm_sched := late_alarm_sched (lat_stats c) + of_nat n\<rparr>\<rparr>"

lemma same_sema:
  "sema c = Some 0 \<Longrightarrow> c\<lparr>time_prog := p, sema := Some 0, lat_stats := st\<rparr> = c\<lparr>lat_stats := st, time_prog := p\<rparr>"
  by (intro rt_latency_ctx.equality) simp_all

context latency_timer
begin

lemma set_alarm_idle:
  assumes "idle d"
  shows "\<exists>d'. op_set_channel_alarm ops 0 (Some (latency_alarm_cfg t)) d = Inr (0, d') \<and> dev_ok d'
     \<and> hw_irq d' \<and> armed d' = Some (0, 0) \<and> \<not> looping d' \<and> fired d' = fired d
     \<and> hw_running d' = hw_running d \<and> hw_top d' = hw_top d"
proof -
  have "\<not> (is_absolute (al_flags (latency_alarm_cfg t)) \<and> is_loop (al_flags (latency_alarm_cfg t)))"
    "\<not> is_loop (al_flags (latency_alarm_cfg t))"
    by (simp_all add: latency_alarm_cfg_def is_loop_def is_absolute_def alarm_flags)
  then show ?thesis
    using set_idle [of d "latency_alarm_cfg t"] assms set_running
    by (fastforce simp: idle_def latency_alarm_cfg_def)
qed

lemma wait_late:
  assumes "idle (lat_dev b)" "sema (ctx b) = Some 0"
  shows "\<exists>d. wait_alarm ops irq (late_attempt c # as) b =
      wait_alarm ops irq as (b\<lparr>lat_dev := d,
        ctx := (add_late 1 (ctx b))\<lparr>time_prog := c + st_ticks b\<rparr>\<rparr>)
    \<and> idle d \<and> hw_running d = hw_running (lat_dev b) \<and> hw_top d = hw_top (lat_dev b)
    \<and> fired d = fired (lat_dev b)"
proof -
  have "idle ((lat_dev b)\<lparr>hw_count := c\<rparr>)" using assms(1) by (simp add: idle_def dev_ok_def)
  from set_alarm_idle [OF this] obtain d1 where d1:
      "op_set_channel_alarm ops 0 (Some (latency_alarm_cfg (c + st_ticks b)))
         ((lat_dev b)\<lparr>hw_count := c\<rparr>) = Inr (0, d1)"
      "dev_ok d1" "fired d1 = fired (lat_dev b)" "hw_running d1 = hw_running (lat_dev b)"
      "hw_top d1 = hw_top (lat_dev b)"
    by auto
  obtain d where d: "op_cancel_channel_alarm ops 0 d1 = Inr (0, d)" "dev_ok d" "armed d = None"
      "fired d = fired d1"
    using cancel_idle [OF d1(2)] by auto
  have "hw_running d = hw_running (lat_dev b)" "hw_top d = hw_top (lat_dev b)"
    using cancel_running [OF d(1)] d1(4,5) by simp_all
  moreover have "idle d" using d(2,3) by (auto simp: idle_def armed_def)
  moreover have "wait_alarm ops irq (late_attempt c # as) b =
      wait_alarm ops irq as (b\<lparr>lat_dev := d,
        ctx := (add_late 1 (ctx b))\<lparr>time_prog := c + st_ticks b\<rparr>\<rparr>)"
    using d1(1) d(1) assms(2)
    by (simp add: late_attempt_def reads opt_irq_def os_sem_take_def Let_def add_late_def
        same_sema)
  ultimately show ?thesis using d(4) d1(3) by auto
qed

lemma wait_fires:
  assumes "idle (lat_dev b)" "sema (ctx b) = Some 0" "hw_running (lat_dev b)"
  shows "\<exists>d. wait_alarm ops irq [\<lparr>at_count = c, at_fire = Some f, at_late = None, at_now = n\<rparr>] b =
      Inr (n, b\<lparr>lat_dev := d, ctx := (ctx b)\<lparr>time_prog := c + st_ticks b, time_irq := ucast f\<rparr>\<rparr>)
    \<and> idle d \<and> hw_running d \<and> hw_top d = hw_top (lat_dev b) \<and> fired d = fired (lat_dev b) @ [(0, f, 0)]"
proof -
  have "idle ((lat_dev b)\<lparr>hw_count := c\<rparr>)" using assms(1) by (simp add: idle_def dev_ok_def)
  from set_alarm_idle [OF this] obtain d1 where d1:
      "op_set_channel_alarm ops 0 (Some (latency_alarm_cfg (c + st_ticks b)))
         ((lat_dev b)\<lparr>hw_count := c\<rparr>) = Inr (0, d1)"
      "dev_ok d1" "hw_irq d1" "armed d1 = Some (0, 0)" "\<not> looping d1" "fired d1 = fired (lat_dev b)"
      "hw_running d1 = hw_running (lat_dev b)" "hw_top d1 = hw_top (lat_dev b)"
    by auto
  have "dev_ok (d1\<lparr>hw_count := f\<rparr>)" "\<not> looping (d1\<lparr>hw_count := f\<rparr>)"
      "armed (d1\<lparr>hw_count := f\<rparr>) = Some (0, 0)"
    using d1 by (simp_all add: dev_ok_def looping_def armed_def)
  from irq_once [OF this] obtain d where d: "irq quiet (d1\<lparr>hw_count := f\<rparr>) = Inr d" "dev_ok d"
      "armed d = None" "fired d = fired d1 @ [(0, f, 0)]"
    by auto
  have "hw_running d" "hw_top d = hw_top (lat_dev b)" using irq_running [OF d(1)] d1(7,8) assms(3) by simp_all
  moreover have "idle d" using d(2,3) by (auto simp: idle_def armed_def)
  moreover have "wait_alarm ops irq [\<lparr>at_count = c, at_fire = Some f, at_late = None, at_now = n\<rparr>] b =
      Inr (n, b\<lparr>lat_dev := d, ctx := (ctx b)\<lparr>time_prog := c + st_ticks b, time_irq := ucast f\<rparr>\<rparr>)"
    using d1 d assms(2,3)
    by (simp add: reads opt_irq_def latency_irq_def latency_alarm_handler_def os_sem_give_def
        os_sem_take_def Let_def)
  ultimately show ?thesis using d(4) d1(6) by auto
qed

lemma wait_script:
  assumes "idle (lat_dev b)" "sema (ctx b) = Some 0" "hw_running (lat_dev b)"
  shows "\<exists>d. wait_alarm ops irq (script m) b =
      Inr (ms_now m, b\<lparr>lat_dev := d, ctx := (add_late (length (ms_late m)) (ctx b))
        \<lparr>time_prog := ms_count m + st_ticks b, time_irq := ucast (ms_fire m)\<rparr>\<rparr>)
    \<and> idle d \<and> hw_running d \<and> hw_top d = hw_top (lat_dev b)
    \<and> fired d = fired (lat_dev b) @ [(0, ms_fire m, 0)]"
  using assms
proof (induction "ms_late m" arbitrary: m b)
  case Nil
  have "add_late 0 c = c" for c by (simp add: add_late_def)
  then show ?case
    using wait_fires [OF Nil.prems, of "ms_count m" "ms_fire m" "ms_now m"] Nil.hyps
    by (simp add: script_def)
next
  case (Cons l ls)
  define m' where "m' = m\<lparr>ms_late := ls\<rparr>"
  obtain d where d: "wait_alarm ops irq (late_attempt l # script m') b =
      wait_alarm ops irq (script m') (b\<lparr>lat_dev := d,
        ctx := (add_late 1 (ctx b))\<lparr>time_prog := l + st_ticks b\<rparr>\<rparr>)"
      "idle d" "hw_running d = hw_running (lat_dev b)" "fired d = fired (lat_dev b)"
      "hw_top d = hw_top (lat_dev b)"
    using wait_late [OF Cons.prems(1,2), of l "script m'"] by blast
  define b1 where "b1 = b\<lparr>lat_dev := d, ctx := (add_late 1 (ctx b))\<lparr>time_prog := l + st_ticks b\<rparr>\<rparr>"
  have "ls = ms_late m'" by (simp add: m'_def)
  moreover have "idle (lat_dev b1)" "sema (ctx b1) = Some 0" "hw_running (lat_dev b1)"
    using d Cons.prems by (simp_all add: b1_def add_late_def)
  ultimately obtain d' where d': "wait_alarm ops irq (script m') b1 =
      Inr (ms_now m', b1\<lparr>lat_dev := d', ctx := (add_late (length (ms_late m')) (ctx b1))
        \<lparr>time_prog := ms_count m' + st_ticks b1, time_irq := ucast (ms_fire m')\<rparr>\<rparr>)"
      "idle d'" "hw_running d'" "fired d' = fired (lat_dev b1) @ [(0, ms_fire m', 0)]"
      "hw_top d' = hw_top (lat_dev b1)"
    using Cons.hyps(1) by blast
  have s: "script m = late_attempt l # script m'"
    using Cons.hyps(2) [symmetric] by (simp add: script_def m'_def)
  have "b1\<lparr>lat_dev := d', ctx := (add_late (length (ms_late m')) (ctx b1))
        \<lparr>time_prog := ms_count m' + st_ticks b1, time_irq := ucast (ms_fire m')\<rparr>\<rparr> =
      b\<lparr>lat_dev := d', ctx := (add_late (length (ms_late m)) (ctx b))
        \<lparr>time_prog := ms_count m + st_ticks b, time_irq := ucast (ms_fire m)\<rparr>\<rparr>"
    using Cons.hyps(2) [symmetric] by (simp add: b1_def m'_def add_late_def algebra_simps)
  then show ?case
    unfolding s d(1) b1_def [symmetric]
    using d' d(4,5) by (intro exI [of _ d']) (simp add: b1_def, simp add: m'_def)
qed

end

subsection \<open>What the benchmark computes\<close>

text \<open>
  The abstract benchmark: the pairs of latencies, in nanoseconds, of the current period and of the
  whole test, the number of late alarms, the period waiting to be printed, and the periods printed.
\<close>

record sampler =
  cur :: "(nat \<times> nat) list"
  every :: "(nat \<times> nat) list"
  lates :: nat
  cnt :: u64
  waiting :: "(nat \<times> nat) list option"
  reports :: "(nat \<times> nat) list list"

definition elapsed :: "u32 \<Rightarrow> u32 \<Rightarrow> nat" where
  "elapsed p c = (if p \<le> c then unat c - unat p else unat c + (2 ^ 32 - 1) - unat p)"

definition delay :: "u32 \<Rightarrow> u32 \<Rightarrow> nat" where
  "delay p c = elapsed p c * 1000 div 24"

definition sample :: "measurement \<Rightarrow> nat \<times> nat" where
  "sample m = (let p = ms_count m + 2400 in (delay p (ms_fire m), delay p (ms_now m)))"

definition sampler_measure :: "measurement \<Rightarrow> sampler \<Rightarrow> sampler" where
  "sampler_measure m s =
     (let s1 = s\<lparr>cur := cur s @ [sample m], every := every s @ [sample m],
                 lates := lates s + length (ms_late m), cnt := cnt s + 1\<rparr>
      in if cnt s1 mod LATENCY_STATS_PERIOD = 0 \<and> waiting s1 = None
         then s1\<lparr>cur := [], waiting := Some (cur s1)\<rparr> else s1)"

definition sampler_print :: "sampler \<Rightarrow> sampler" where
  "sampler_print s =
     (case waiting s of None \<Rightarrow> s
      | Some xs \<Rightarrow> s\<lparr>waiting := None, reports := reports s @ [xs]\<rparr>)"

text \<open>
  A measurement in range: the interrupt is taken, and the task reads the counter, less than 2^31 ns
  after the programmed count, whether the counter wraps in between or not.
\<close>

definition in_range :: "measurement \<Rightarrow> bool" where
  "in_range m \<longleftrightarrow> delay (ms_count m + 2400) (ms_fire m) < 2 ^ 31
     \<and> delay (ms_count m + 2400) (ms_now m) < 2 ^ 31"

definition ints :: "nat list \<Rightarrow> int list" where
  "ints vs = map int vs"

definition small :: "nat list \<Rightarrow> bool" where
  "small vs \<longleftrightarrow> (\<forall>v \<in> set vs. v < 2 ^ 31) \<and> length vs < 2 ^ 31 - 1"

definition totals_of :: "nat list \<Rightarrow> stats \<Rightarrow> bool" where
  "totals_of vs st \<longleftrightarrow>
     (\<exists>s0. abs_ok s0 \<and> log2_size s0 = 31 \<and> st = accumulate (ints vs) s0)"

definition printed_as :: "nat list \<Rightarrow> stats \<Rightarrow> bool" where
  "printed_as vs st \<longleftrightarrow> vs \<noteq> [] \<and> sn_min (snap st) = int (Min (set vs))
     \<and> sn_max (snap st) = int (Max (set vs)) \<and> sn_mean (snap st) = int (sum_list vs div length vs)"

definition report_of :: "(nat \<times> nat) list \<Rightarrow> rt_latency_stats \<Rightarrow> bool" where
  "report_of xs st \<longleftrightarrow> printed_as (map fst xs) (irq_delay st) \<and> printed_as (map snd xs) (irq_to_sched st)"

definition hist_fits :: "hist \<Rightarrow> bool" where
  "hist_fits h \<longleftrightarrow> hist_ok h \<and> unat (n_slots h) < MAX_SLOTS"

definition between_tests :: "bench \<Rightarrow> bool" where
  "between_tests b \<longleftrightarrow> idle (lat_dev b) \<and> sema (ctx b) = Some 0 \<and> counting_up b \<noteq> Some False
     \<and> \<not> has_load RT_LATENCY_WITH_IRQ_LOAD b \<and> (st_ticks b = 0 \<or> st_ticks b = 2400)
     \<and> (st_top b = 0 \<or> st_top b = - 1) \<and> hw_top (lat_dev b) = - 1"

definition tracks :: "hist \<times> hist \<Rightarrow> sampler \<Rightarrow> bench \<Rightarrow> bool" where
  "tracks hs s b \<longleftrightarrow> between_tests b
     \<and> (let st = lat_stats (ctx b); sn = stats_snapshot (ctx b) in
          totals_of (map fst (cur s)) (irq_delay st) \<and> totals_of (map snd (cur s)) (irq_to_sched st)
        \<and> hist_all (map (of_nat \<circ> fst) (every s)) (fst hs) = Inr (irq_delay_hist st)
        \<and> hist_all (map (of_nat \<circ> snd) (every s)) (snd hs) = Inr (irq_to_sched_hist st)
        \<and> late_alarm_sched st = of_nat (lates s) \<and> stats_cnt b = cnt s
        \<and> (waiting s \<noteq> None \<longleftrightarrow> pending sn)
        \<and> (case waiting s of None \<Rightarrow> True
           | Some xs \<Rightarrow> totals_of (map fst xs) (irq_delay sn) \<and> totals_of (map snd xs) (irq_to_sched sn)
               \<and> hist_fits (irq_delay_hist sn) \<and> hist_fits (irq_to_sched_hist sn))
        \<and> list_all2 report_of (reports s) (printed b))"

lemma totals_update:
  assumes "totals_of vs st" "small vs" "v < 2 ^ 31"
  shows "\<exists>st'. stats_update (int v) st = Inr st' \<and> totals_of (vs @ [v]) st'"
proof -
  obtain s0 where s0: "abs_ok s0" "log2_size s0 = 31" "st = accumulate (ints vs) s0"
    using assms(1) by (auto simp: totals_of_def)
  have "samples (ints vs @ [int v])"
    using assms(2,3) by (auto simp: samples_def ints_def small_def)
  moreover have "length (ints vs) < 2 ^ unat (log2_size s0)" "Suc (length (ints vs)) < 2 ^ unat (log2_size s0)"
    using assms(2) s0(2) by (simp_all add: small_def ints_def)
  ultimately have "stats_update (int v) st = Inr (accumulate (ints vs @ [int v]) s0)"
    using update_accumulate [OF s0(1), of "ints vs" "int v"] s0(2,3) by simp
  then show ?thesis using s0(1,2) by (auto simp: totals_of_def ints_def)
qed

lemma totals_reset:
  assumes "totals_of vs st"
  shows "totals_of [] (stats_reset st)"
proof -
  obtain s0 where s0: "abs_ok s0" "log2_size s0 = 31" "st = accumulate (ints vs) s0"
    using assms by (auto simp: totals_of_def)
  have "fold min xs a \<le> a" "a \<le> fold max xs a" for xs :: "int list" and a
  proof (induction xs arbitrary: a)
    case (Cons x xs)
    { case 1 show ?case using Cons(1) [of "min x a"] by simp }
    { case 2 show ?case using Cons(2) [of "max x a"] by simp }
  qed simp_all
  then have "abs_ok st" using s0(1,3) order_trans by (fastforce simp: abs_ok_def accumulate_def)
  then show ?thesis
    using s0(2,3) accumulate_Nil [of st]
    by (intro totals_of_def [THEN iffD2] exI [of _ st]) (simp add: ints_def, simp add: accumulate_def)
qed

lemma hist_all_append: "hist_all (vs @ ws) h = and_then (hist_all vs h) (hist_all ws)"
proof (induction vs arbitrary: h)
  case (Cons v vs)
  then show ?case by (cases "hist_update v h") simp_all
qed simp

lemma hist_next:
  assumes "hist_all vs h0 = Inr h" "hist_ok h0"
  shows "\<exists>h'. hist_update v h = Inr h' \<and> hist_all (vs @ [v]) h0 = Inr h'"
proof -
  have "hist_ok h" using hist_all_counts [OF assms(2), of vs] assms(1) by auto
  then show ?thesis using hist_update_ok [of h v] assms(1) by (simp add: hist_all_append)
qed

lemma hist_all_fits:
  assumes "hist_all vs h0 = Inr h" "hist_fits h0"
  shows "hist_fits h"
  using hist_all_counts [of h0 vs] assms by (auto simp: hist_fits_def)

lemma hist_print_ok:
  assumes "hist_fits h"
  shows "\<exists>xs. hist_print h = Inr xs"
proof -
  have "n \<le> length xs \<Longrightarrow> \<exists>ys. read_slots n xs = Inr ys" for n and xs :: "u32 list"
    by (induction n) auto
  from this [of "unat (n_slots h) + 1" "slots h"] show ?thesis
    using assms unfolding hist_print_def by (simp add: hist_fits_def hist_ok_def del: read_slots.simps)
qed

lemma sum_list_le: "(\<And>v. v \<in> set vs \<Longrightarrow> v \<le> m) \<Longrightarrow> sum_list vs \<le> length vs * (m::nat)"
  by (induction vs) (simp_all add: add_mono)

lemma compute_totals:
  assumes t: "totals_of vs st" and s: "small vs" "vs \<noteq> []" "sum_list vs * sum_list vs < 2 ^ 63"
  shows "\<exists>st'. stats_compute st = Inr st' \<and> printed_as vs st'"
proof -
  obtain s0 where s0: "abs_ok s0" "log2_size s0 = 31" "st = accumulate (ints vs) s0"
    using t by (auto simp: totals_of_def)
  let ?vs = "ints vs"
  define n where "n = length vs"
  have n: "0 < n" "n < 2147483647" using s(1,2) by (simp_all add: n_def small_def)
  have cnt: "unat (of_nat n :: u32) = n" using n by simp
  then have nz: "(of_nat n :: u32) \<noteq> 0" using n by (metis less_numeral_extra(3) unat_0)
  have sum: "sum_list ?vs = int (sum_list vs)" by (simp add: ints_def sum_list_of_nat)
  have "int (sum_list vs * sum_list vs) < int (2 ^ 63)" using s(3) by (simp only: of_nat_less_iff)
  then have sq: "in_i64 (sum_list ?vs * sum_list ?vs)"
    by (simp add: sum in_i64_def order_trans [OF _ zero_le_square])
  have "int n * int n \<le> 2147483647 * 2147483647"
    using n by (intro mult_mono) simp_all
  then have nn: "in_i64 (int n * int n)"
    by (simp add: in_i64_def order_trans [OF _ zero_le_square])
  have rng: "\<forall>v \<in> set ?vs. v \<le> INT_MIN_INIT" "\<forall>v \<in> set ?vs. INT_MAX_INIT \<le> v"
    using s(1) by (auto simp: ints_def small_def INT_MIN_INIT_def INT_MAX_INIT_def)
  have img: "set ?vs = int ` set vs" "?vs \<noteq> []" using s(2) by (simp_all add: ints_def)
  have mm: "Min (set ?vs) = int (Min (set vs))" "Max (set ?vs) = int (Max (set vs))"
    using s(2) mono_Min_commute [of int "set vs"] mono_Max_commute [of int "set vs"]
    by (simp_all add: img(1) mono_def)
  have "sum_list vs \<le> n * 2147483647"
    unfolding n_def using s(1) by (intro sum_list_le) (auto simp: small_def)
  then have "sum_list vs div n \<le> 2147483647"
    using n(1) by (metis div_le_mono nonzero_mult_div_cancel_left less_numeral_extra(3))
  then have mean: "in_i32 (int (sum_list vs div n))"
    unfolding in_i32_def by simp
  show ?thesis
    using sq nn nz cnt s0(3) mm mean
      fold_min_Min [OF img(2) rng(1)] fold_max_Max [OF img(2) rng(2)] s(2)
    by (simp add: stats_compute_def Let_def accumulate_def printed_as_def sum to_i32_id c_div_def
        n_def [symmetric] zdiv_int ints_def sum [unfolded ints_def])
qed

definition one_more :: "nat \<times> nat \<Rightarrow> nat \<Rightarrow> stats \<Rightarrow> hist \<Rightarrow> stats \<Rightarrow> hist \<Rightarrow> rt_latency_stats \<Rightarrow> rt_latency_stats" where
  "one_more x n s1 h1 s2 h2 st =
     st\<lparr>late_alarm_sched := late_alarm_sched st + of_nat n, irq_delay := s1, irq_delay_hist := h1,
        irq_to_sched := s2, irq_to_sched_hist := h2\<rparr>"

lemma delay_word: "unat (of_nat (delay p c) :: u32) = delay p c" if "delay p c < 2 ^ 31"
  using that by simp

lemma elapsed_word:
  "unat (if c < p then c + - 1 - p else c - p) = elapsed p c" for p c :: u32
proof (cases "c < p")
  case True
  then have le: "unat c < unat p" "unat p \<le> unat c + 4294967295"
    using u32_lt [of p] by (simp_all add: word_less_nat_alt)
  have "of_nat (unat c + 4294967295 - unat p) = c + 4294967295 - p"
    using le(2) by simp
  moreover have "(4294967295 :: u32) = - 1" by simp
  ultimately have "c + - 1 - p = of_nat (unat c + 4294967295 - unat p)" by simp
  moreover have "unat c + 4294967295 - unat p < 4294967296" using le(1) by simp
  ultimately show ?thesis using True by (simp add: elapsed_def leD del: of_nat_diff)
next
  case False
  then show ?thesis by (simp add: elapsed_def unat_sub)
qed

lemma to_i32_word: "v < 2 ^ 31 \<Longrightarrow> to_i32 (uint (of_nat v :: u32)) = int v"
proof -
  assume v: "v < 2 ^ 31"
  then have "unat (of_nat v :: u32) = v" by simp
  then have "uint (of_nat v :: u32) = int v" by (metis uint_nat)
  then show ?thesis using v by (simp add: to_i32_id in_i32_def)
qed

lemma record_keeps:
  "record_irq_delay v b = Inr b' \<Longrightarrow>
     b' = b\<lparr>ctx := (ctx b)\<lparr>lat_stats := lat_stats (ctx b')\<rparr>\<rparr>"
  "record_irq_to_sched v b = Inr b' \<Longrightarrow>
     b' = b\<lparr>ctx := (ctx b)\<lparr>lat_stats := lat_stats (ctx b')\<rparr>\<rparr>"
  by (auto simp: record_irq_delay_def record_irq_to_sched_def Let_def outcome_simps)

text \<open>Once both latencies are known: what the rest of the measurement leaves.\<close>

lemma records_ok:
  assumes "totals_of vs st1" "small vs" "v < 2 ^ 31" "hist_all (map of_nat us) h0 = Inr h" "hist_ok h0"
  shows "\<exists>s' h'. stats_update (to_i32 (uint (of_nat v :: u32))) st1 = Inr s' \<and> totals_of (vs @ [v]) s'
     \<and> hist_update (of_nat v) h = Inr h' \<and> hist_all (map of_nat (us @ [v])) h0 = Inr h'"
  using totals_update [OF assms(1-3)] hist_next [OF assms(4,5), of "of_nat v"]
  by (auto simp: to_i32_word [OF assms(3)])

context latency_timer
begin

lemma calc_diff:
  assumes "counting_up b \<noteq> Some False" "st_top b = 0 \<or> st_top b = - 1" "hw_top d = - 1"
  shows "calc_diff_ns ops d p c b = Inr (of_nat (delay p c),
    b\<lparr>st_top := - 1, counting_up := Some True\<rparr>)"
proof -
  have up: "(case counting_up b of None \<Rightarrow> op_is_counting_up ops d | Some u \<Rightarrow> u)"
    using assms(1) counts_up by (cases "counting_up b") auto
  have top: "(if st_top b = 0 then op_get_top_value ops d else st_top b) = - 1"
    using assms(2) full_range [OF assms(3)] by auto
  define k where "k = (if c < p then c + - 1 - p else c - p)"
  have diff: "unat k = elapsed p c" unfolding k_def by (rule elapsed_word)
  have le: "unat k < 4294967296" by (rule u32_lt)
  have N: "unat (NSEC_PER_SEC * ucast k) = 1000000000 * unat k"
    using le by (simp add: unat_mult_lem [THEN iffD1] NSEC_PER_SEC_def)
  have F: "unat (ucast (24000000 :: u32) :: u64) = 24000000" by simp
  have "unat ((NSEC_PER_SEC * ucast k) div ucast (24000000 :: u32)) = delay p c"
    unfolding unat_div N F diff delay_def using div_mult2_eq [of "_ * 1000000" 1000000 24] by simp
  then have "(ucast ((NSEC_PER_SEC * ucast k) div ucast (24000000 :: u32)) :: u32) = of_nat (delay p c)"
    by (metis of_nat_unat)
  then show ?thesis
    unfolding calc_diff_ns_def top Let_def os_counter_ticks_to_ns_def frequency
    using up by (simp add: k_def [symmetric])
qed

lemma starts: "idle d \<Longrightarrow> op_start ops rc d = Inr (0, d\<lparr>hw_running := True\<rparr>)"
  by (rule start_up) (simp add: idle_def)

lemma ticks_100us: "os_counter_us_to_ticks ops d COUNTER_PERIOD_US_VAL = 2400"
  by (simp add: os_counter_us_to_ticks_def frequency COUNTER_PERIOD_US_VAL_def USEC_PER_SEC_def)

lemma test_measures:
  assumes bt: "between_tests b"
  shows "\<exists>d. rt_latency_test ops lops irq rc (script m) [] b =
      (let b3 = b\<lparr>lat_dev := d, st_ticks := 2400, st_top := - 1, counting_up := Some True,
             ctx := (add_late (length (ms_late m)) (ctx b))
               \<lparr>time_prog := ms_count m + 2400, time_irq := ucast (ms_fire m)\<rparr>\<rparr>
       in and_then (record_irq_delay (of_nat (fst (sample m))) b3) (\<lambda>b4.
          and_then (record_irq_to_sched (of_nat (snd (sample m))) b4) (\<lambda>b5.
          let b6 = b5\<lparr>stats_cnt := stats_cnt b5 + 1\<rparr>
          in Inr (0, if stats_cnt b6 mod LATENCY_STATS_PERIOD = 0
                     then rt_latency_stats_dump b6 else b6))))
    \<and> idle d \<and> \<not> hw_running d \<and> hw_top d = - 1 \<and> fired d = fired (lat_dev b) @ [(0, ms_fire m, 0)]"
proof -
  let ?p = "ms_count m + 2400" and ?k = "length (ms_late m)"
  have idle: "idle (lat_dev b)" and sema: "sema (ctx b) = Some 0" and up: "counting_up b \<noteq> Some False"
    and load: "\<not> has_load RT_LATENCY_WITH_IRQ_LOAD b" and ticks: "st_ticks b = 0 \<or> st_ticks b = 2400"
    and tops: "st_top b = 0 \<or> st_top b = - 1" "hw_top (lat_dev b) = - 1"
    using bt by (simp_all add: between_tests_def)
  define b0 where "b0 = b\<lparr>st_ticks := 2400, lat_dev := (lat_dev b)\<lparr>hw_running := True\<rparr>\<rparr>"
  have "idle (lat_dev b0)" "sema (ctx b0) = Some 0" "hw_running (lat_dev b0)"
    using idle sema by (simp_all add: b0_def idle_def dev_ok_def)
  from wait_script [OF this, of m] obtain d0 where d0: "wait_alarm ops irq (script m) b0 =
      Inr (ms_now m, b0\<lparr>lat_dev := d0, ctx := (add_late ?k (ctx b0))
        \<lparr>time_prog := ms_count m + st_ticks b0, time_irq := ucast (ms_fire m)\<rparr>\<rparr>)"
      "idle d0" "fired d0 = fired (lat_dev b) @ [(0, ms_fire m, 0)]" "hw_top d0 = - 1"
    using tops(2) by (auto simp: b0_def)
  define d where "d = d0\<lparr>hw_running := False\<rparr>"
  have d: "idle d" "\<not> hw_running d" "fired d = fired (lat_dev b) @ [(0, ms_fire m, 0)]" "hw_top d = - 1"
    using d0 by (simp_all add: d_def idle_def dev_ok_def)
  define c where "c = (add_late ?k (ctx b))\<lparr>time_prog := ?p, time_irq := ucast (ms_fire m)\<rparr>"
  define b2 where "b2 = b\<lparr>st_ticks := 2400, lat_dev := d, ctx := c\<rparr>"
  define b3 where "b3 = b2\<lparr>st_top := - 1, counting_up := Some True\<rparr>"
  have waited: "wait_alarm ops irq (script m) b0 = Inr (ms_now m, b2\<lparr>lat_dev := d0\<rparr>)"
    unfolding d0(1) by (simp add: b0_def b2_def c_def)
  have begin1: "(if st_ticks b = 0 then b\<lparr>st_ticks := os_counter_us_to_ticks ops (lat_dev b) COUNTER_PERIOD_US_VAL\<rparr> else b)
      = b\<lparr>st_ticks := 2400\<rparr>"
    using ticks by (auto simp: ticks_100us)
  have noload: "start_irq_load ops' rc b0 = Inr b0" for ops'
    using load by (simp add: start_irq_load_def has_load_def b0_def)
  have fire: "(ucast (ucast (ms_fire m) :: u64) :: u32) = ms_fire m"
    by (metis of_nat_unat ucast_id unat_ucast_32_64)
  have "fst (sample m) = delay ?p (ms_fire m)" "snd (sample m) = delay ?p (ms_now m)"
    by (simp_all add: sample_def Let_def)
  then have diff1: "calc_diff_ns ops (lat_dev b2) (time_prog (ctx b2)) (ucast (time_irq (ctx b2))) b2 =
      Inr (of_nat (fst (sample m)), b3)"
    using calc_diff [of b2 d] up tops(1) d(4)
    by (simp add: b2_def b3_def c_def fire)
  have stopped: "b2\<lparr>lat_dev := d0\<lparr>hw_running := False\<rparr>\<rparr> = b2" "lat_dev b2 = d0\<lparr>hw_running := False\<rparr>"
    by (simp_all add: b2_def d_def)
  have diff2: "calc_diff_ns ops (lat_dev b4) (time_prog (ctx b4)) (ms_now m) b4 =
      Inr (of_nat (snd (sample m)), b4)"
    if "record_irq_delay v b3 = Inr b4" for v b4
  proof -
    have b4: "b4 = b3\<lparr>ctx := (ctx b3)\<lparr>lat_stats := lat_stats (ctx b4)\<rparr>\<rparr>"
      using record_keeps(1) [OF that] .
    have k: "lat_dev b4 = d" "time_prog (ctx b4) = ?p" "st_top b4 = - 1" "counting_up b4 = Some True"
      by (subst b4, simp add: b3_def b2_def c_def)+
    then have "b4\<lparr>st_top := - 1, counting_up := Some True\<rparr> = b4"
      by (intro bench.equality) simp_all
    then show ?thesis
      using calc_diff [of b4 d] k d(4) by (simp add: sample_def Let_def)
  qed
  have stay: "has_load RT_LATENCY_WITH_IRQ_LOAD b5 = False"
    if "record_irq_delay v b3 = Inr b4" "record_irq_to_sched w b4 = Inr b5" for v w b4 b5
  proof -
    have "tc_load (ctx b5) = tc_load (ctx b4)" "tc_load (ctx b4) = tc_load (ctx b3)"
      by (subst record_keeps(2) [OF that(2)], simp) (subst record_keeps(1) [OF that(1)], simp)
    then show ?thesis using load by (simp add: has_load_def b3_def b2_def c_def add_late_def)
  qed
  have b3: "b\<lparr>lat_dev := d, st_ticks := 2400, st_top := - 1, counting_up := Some True,
      ctx := (add_late ?k (ctx b))\<lparr>time_prog := ?p, time_irq := ucast (ms_fire m)\<rparr>\<rparr> = b3"
    by (intro bench.equality) (simp_all add: b3_def b2_def c_def)
  have "rt_latency_test ops lops irq rc (script m) [] b =
      and_then (record_irq_delay (of_nat (fst (sample m))) b3) (\<lambda>b4.
          and_then (record_irq_to_sched (of_nat (snd (sample m))) b4) (\<lambda>b5.
          let b6 = b5\<lparr>stats_cnt := stats_cnt b5 + 1\<rparr>
          in Inr (0, if stats_cnt b6 mod LATENCY_STATS_PERIOD = 0
                     then rt_latency_stats_dump b6 else b6)))"
  proof (cases "record_irq_delay (of_nat (fst (sample m))) b3")
    case (Inl e)
    then show ?thesis
      using starts [OF idle] noload waited diff1 Inl unfolding rt_latency_test_def begin1 Let_def
      by (simp add: b0_def load_irq_def stop_down stopped)
  next
    case r1: (Inr b4)
    show ?thesis
    proof (cases "record_irq_to_sched (of_nat (snd (sample m))) b4")
      case (Inl e)
      then show ?thesis
        using starts [OF idle] noload waited diff1 r1 diff2 [OF r1] unfolding rt_latency_test_def begin1 Let_def
        by (simp add: b0_def load_irq_def stop_down stopped)
    next
      case r2: (Inr b5)
      then show ?thesis
        using starts [OF idle] noload waited diff1 r1 diff2 [OF r1] stay [OF r1 r2]
        unfolding rt_latency_test_def begin1 Let_def
        by (simp add: b0_def load_irq_def stop_down stopped has_load_def rt_latency_stats_dump_def Let_def)
    qed
  qed
  then show ?thesis
    using d b3 by (intro exI [of _ d]) (simp add: Let_def)
qed

end

datatype bench_op = Measure measurement | Print

definition bench_step ::
    "os_counter_ops \<Rightarrow> (alarm_run \<Rightarrow> os_counter \<Rightarrow> os_counter outcome) \<Rightarrow> bench_op \<Rightarrow> bench \<Rightarrow> bench outcome" where
  "bench_step ops irq e b =
     (case e of
        Measure m \<Rightarrow> and_then (rt_latency_test ops ops irq 0 (script m) [] b) (\<lambda>(r, b'). Inr b')
      | Print \<Rightarrow> print_stats b)"

fun bench_run ::
    "os_counter_ops \<Rightarrow> (alarm_run \<Rightarrow> os_counter \<Rightarrow> os_counter outcome) \<Rightarrow> bench_op list \<Rightarrow> bench \<Rightarrow>
       bench outcome" where
  "bench_run ops irq [] b = Inr b"
| "bench_run ops irq (e # es) b = and_then (bench_step ops irq e b) (bench_run ops irq es)"

definition sampler_step :: "bench_op \<Rightarrow> sampler \<Rightarrow> sampler" where
  "sampler_step e s = (case e of Measure m \<Rightarrow> sampler_measure m s | Print \<Rightarrow> sampler_print s)"

text \<open>
  What a run must respect for the statistics not to overflow: measurements in range, fewer than
  2^31 - 1 of them in a period, and sums whose square stays below 2^63 in a period that is printed.
\<close>

definition computable :: "nat list \<Rightarrow> bool" where
  "computable vs \<longleftrightarrow> small vs \<and> vs \<noteq> [] \<and> sum_list vs * sum_list vs < 2 ^ 63"

definition step_ok :: "bench_op \<Rightarrow> sampler \<Rightarrow> bool" where
  "step_ok e s =
     (case e of
        Measure m \<Rightarrow> in_range m \<and> small (map fst (cur s)) \<and> small (map snd (cur s))
      | Print \<Rightarrow> (case waiting s of None \<Rightarrow> True
                 | Some xs \<Rightarrow> computable (map fst xs) \<and> computable (map snd xs)))"

fun run_ok :: "bench_op list \<Rightarrow> sampler \<Rightarrow> bool" where
  "run_ok [] s = True"
| "run_ok (e # es) s = (step_ok e s \<and> run_ok es (sampler_step e s))"

lemma print_snapshot:
  assumes "pending (stats_snapshot (ctx b))"
    and "totals_of (map fst xs) (irq_delay (stats_snapshot (ctx b)))"
    and "totals_of (map snd xs) (irq_to_sched (stats_snapshot (ctx b)))"
    and "hist_fits (irq_delay_hist (stats_snapshot (ctx b)))"
    and "hist_fits (irq_to_sched_hist (stats_snapshot (ctx b)))"
    and "computable (map fst xs)" "computable (map snd xs)"
  shows "\<exists>r. print_stats b = Inr (b\<lparr>printed := printed b @ [r],
      ctx := (ctx b)\<lparr>stats_snapshot := r\<lparr>pending := False\<rparr>\<rparr>\<rparr>) \<and> report_of xs r"
proof -
  let ?sn = "stats_snapshot (ctx b)"
  obtain s1 where s1: "stats_compute (irq_delay ?sn) = Inr s1" "printed_as (map fst xs) s1"
    using compute_totals [OF assms(2)] assms(6) by (auto simp: computable_def)
  obtain s2 where s2: "stats_compute (irq_to_sched ?sn) = Inr s2" "printed_as (map snd xs) s2"
    using compute_totals [OF assms(3)] assms(7) by (auto simp: computable_def)
  obtain h1 h2 where "hist_print (irq_delay_hist ?sn) = Inr h1" "hist_print (irq_to_sched_hist ?sn) = Inr h2"
    using hist_print_ok assms(4,5) by blast
  then show ?thesis
    using assms(1) s1 s2
    by (intro exI [of _ "?sn\<lparr>irq_delay := s1, irq_to_sched := s2\<rparr>"])
       (simp add: print_stats_def Let_def report_of_def)
qed

lemma print_step:
  assumes t: "tracks hs s b" and ok: "step_ok Print s"
  shows "\<exists>b'. print_stats b = Inr b' \<and> tracks hs (sampler_print s) b' \<and> fired (lat_dev b') = fired (lat_dev b)"
proof (cases "waiting s")
  case None
  then show ?thesis using t by (simp add: print_stats_def tracks_def Let_def sampler_print_def)
next
  case (Some xs)
  obtain r where "print_stats b = Inr (b\<lparr>printed := printed b @ [r],
      ctx := (ctx b)\<lparr>stats_snapshot := r\<lparr>pending := False\<rparr>\<rparr>\<rparr>)" "report_of xs r"
    using print_snapshot [of b xs] t ok Some by (auto simp: tracks_def Let_def step_ok_def)
  then show ?thesis
    using t Some
    by (simp add: sampler_print_def tracks_def Let_def between_tests_def has_load_def list_all2_appendI)
qed

definition measured :: "measurement \<Rightarrow> sampler \<Rightarrow> sampler" where
  "measured m s = s\<lparr>cur := cur s @ [sample m], every := every s @ [sample m],
                 lates := lates s + length (ms_late m), cnt := cnt s + 1\<rparr>"

lemma tracks_dump:
  assumes t: "tracks hs s b" and h: "hist_fits (fst hs)" "hist_fits (snd hs)"
  shows "tracks hs (if waiting s = None then s\<lparr>cur := [], waiting := Some (cur s)\<rparr> else s)
    (rt_latency_stats_dump b)"
proof -
  have "hist_fits (irq_delay_hist (lat_stats (ctx b)))" "hist_fits (irq_to_sched_hist (lat_stats (ctx b)))"
    using t h hist_all_fits by (auto simp: tracks_def Let_def)
  then show ?thesis
    using t
    by (auto simp: rt_latency_stats_dump_def tracks_def Let_def between_tests_def has_load_def
        intro: totals_reset)
qed

context latency_timer
begin

lemma measure_step:
  assumes t: "tracks hs s b" and ok: "step_ok (Measure m) s"
    and h: "hist_fits (fst hs)" "hist_fits (snd hs)"
  shows "\<exists>b'. rt_latency_test ops lops irq rc (script m) [] b = Inr (0, b')
     \<and> tracks hs (sampler_measure m s) b' \<and> fired (lat_dev b') = fired (lat_dev b) @ [(0, ms_fire m, 0)]"
proof -
  have r: "in_range m" "small (map fst (cur s))" "small (map snd (cur s))"
    using ok by (simp_all add: step_ok_def)
  have bt: "between_tests b" using t by (simp add: tracks_def)
  obtain d where test: "rt_latency_test ops lops irq rc (script m) [] b =
      (let b3 = b\<lparr>lat_dev := d, st_ticks := 2400, st_top := - 1, counting_up := Some True,
             ctx := (add_late (length (ms_late m)) (ctx b))
               \<lparr>time_prog := ms_count m + 2400, time_irq := ucast (ms_fire m)\<rparr>\<rparr>
       in and_then (record_irq_delay (of_nat (fst (sample m))) b3) (\<lambda>b4.
          and_then (record_irq_to_sched (of_nat (snd (sample m))) b4) (\<lambda>b5.
          let b6 = b5\<lparr>stats_cnt := stats_cnt b5 + 1\<rparr>
          in Inr (0, if stats_cnt b6 mod LATENCY_STATS_PERIOD = 0
                     then rt_latency_stats_dump b6 else b6))))"
      "idle d" "fired d = fired (lat_dev b) @ [(0, ms_fire m, 0)]" "hw_top d = - 1"
    using test_measures [OF bt] by blast
  let ?st = "lat_stats (ctx b)"
  have st: "totals_of (map fst (cur s)) (irq_delay ?st)" "totals_of (map snd (cur s)) (irq_to_sched ?st)"
    "hist_all (map of_nat (map fst (every s))) (fst hs) = Inr (irq_delay_hist ?st)"
    "hist_all (map of_nat (map snd (every s))) (snd hs) = Inr (irq_to_sched_hist ?st)"
    using t by (simp_all add: tracks_def Let_def)
  have v: "fst (sample m) < 2 ^ 31" "snd (sample m) < 2 ^ 31"
    using r(1) by (simp_all add: in_range_def sample_def Let_def)
  obtain s1 h1 where 1: "stats_update (to_i32 (uint (of_nat (fst (sample m)) :: u32))) (irq_delay ?st) = Inr s1"
      "totals_of (map fst (cur s) @ [fst (sample m)]) s1"
      "hist_update (of_nat (fst (sample m))) (irq_delay_hist ?st) = Inr h1"
      "hist_all (map of_nat (map fst (every s) @ [fst (sample m)])) (fst hs) = Inr h1"
    using records_ok [OF st(1) r(2) v(1) st(3)] h(1) by (auto simp: hist_fits_def)
  obtain s2 h2 where 2: "stats_update (to_i32 (uint (of_nat (snd (sample m)) :: u32))) (irq_to_sched ?st) = Inr s2"
      "totals_of (map snd (cur s) @ [snd (sample m)]) s2"
      "hist_update (of_nat (snd (sample m))) (irq_to_sched_hist ?st) = Inr h2"
      "hist_all (map of_nat (map snd (every s) @ [snd (sample m)])) (snd hs) = Inr h2"
    using records_ok [OF st(2) r(3) v(2) st(4)] h(2) by (auto simp: hist_fits_def)
  define b6 where "b6 = b\<lparr>lat_dev := d, st_ticks := 2400, st_top := - 1, counting_up := Some True,
      ctx := (ctx b)\<lparr>time_prog := ms_count m + 2400, time_irq := ucast (ms_fire m),
        lat_stats := one_more (sample m) (length (ms_late m)) s1 h1 s2 h2 ?st\<rparr>,
      stats_cnt := stats_cnt b + 1\<rparr>"
  have run: "rt_latency_test ops lops irq rc (script m) [] b =
      Inr (0, if stats_cnt b6 mod LATENCY_STATS_PERIOD = 0 then rt_latency_stats_dump b6 else b6)"
    unfolding test(1) Let_def record_irq_delay_def record_irq_to_sched_def
    using 1(1,3) 2(1,3) by (simp add: add_late_def b6_def one_more_def)
  have "tracks hs (measured m s) b6"
    using t 1(2,4) 2(2,4) test(2,4)
    by (auto simp: tracks_def Let_def measured_def b6_def one_more_def between_tests_def has_load_def)
  moreover have "cnt s + 1 = stats_cnt b6" using t by (simp add: tracks_def b6_def Let_def)
  moreover have "fired (lat_dev b6) = fired (lat_dev b) @ [(0, ms_fire m, 0)]"
    "lat_dev (rt_latency_stats_dump x) = lat_dev x" for x
    using test(3) by (simp_all add: b6_def rt_latency_stats_dump_def Let_def)
  ultimately show ?thesis
    using run tracks_dump [of hs "measured m s" b6] h
    by (auto simp: sampler_measure_def Let_def measured_def)
qed

lemma run_refines:
  assumes "tracks hs s b" "run_ok es s" "hist_fits (fst hs)" "hist_fits (snd hs)"
  shows "\<exists>b'. bench_run ops irq es b = Inr b' \<and> tracks hs (fold sampler_step es s) b'"
  using assms(1,2)
proof (induction es arbitrary: s b)
  case (Cons e es)
  have "\<exists>b1. bench_step ops irq e b = Inr b1 \<and> tracks hs (sampler_step e s) b1"
  proof (cases e)
    case (Measure m)
    then show ?thesis
      using measure_step [OF Cons.prems(1), of m ops 0] Cons.prems(2) assms(3,4)
      by (auto simp: bench_step_def sampler_step_def)
  next
    case Print
    then show ?thesis
      using print_step [OF Cons.prems(1)] Cons.prems(2)
      by (auto simp: bench_step_def sampler_step_def)
  qed
  then show ?case using Cons.IH Cons.prems(2) by fastforce
qed simp

end

subsection \<open>Both timers keep the contract\<close>

lemma gpt_fields:
  "op_set_channel_alarm gpt_counter_ops = gpt_set_channel_alarm"
  "op_cancel_channel_alarm gpt_counter_ops = gpt_cancel_channel_alarm"
  "op_start gpt_counter_ops = gpt_start" "op_stop gpt_counter_ops = gpt_stop"
  "op_get_value gpt_counter_ops = gpt_get_value"
  "op_is_counting_up gpt_counter_ops = gpt_is_counting_up"
  "op_get_frequency gpt_counter_ops = gpt_get_frequency"
  "op_get_top_value gpt_counter_ops = gpt_get_top_value"
  by (simp_all add: gpt_counter_ops_def)

lemma tpm_fields:
  "op_set_channel_alarm tpm_counter_ops = tpm_set_channel_alarm"
  "op_cancel_channel_alarm tpm_counter_ops = tpm_cancel_channel_alarm"
  "op_start tpm_counter_ops = tpm_start" "op_stop tpm_counter_ops = tpm_stop"
  "op_get_value tpm_counter_ops = tpm_get_value"
  "op_is_counting_up tpm_counter_ops = tpm_is_counting_up"
  "op_get_frequency tpm_counter_ops = tpm_get_frequency"
  "op_get_top_value tpm_counter_ops = tpm_get_top_value"
  by (simp_all add: tpm_counter_ops_def)

lemma gpt_set_running:
  "gpt_set_channel_alarm 0 c d = Inr (r, d') \<Longrightarrow>
     hw_running d' = hw_running d \<and> hw_top d' = hw_top d"
  by (auto simp: gpt_set_channel_alarm_def gpt_set_alarm_def put_alarm_def Let_def outcome_simps
      split: option.splits if_splits)

lemma gpt_cancel_running:
  "gpt_cancel_channel_alarm 0 d = Inr (r, d') \<Longrightarrow>
     hw_running d' = hw_running d \<and> hw_top d' = hw_top d"
  by (auto simp: gpt_cancel_channel_alarm_def gpt_reset_alarm_def put_alarm_def outcome_simps)

lemma gpt_irq_running:
  "gpt_irq_handler quiet d = Inr d' \<Longrightarrow> hw_running d' = hw_running d \<and> hw_top d' = hw_top d"
  by (auto simp: gpt_irq_handler_def gpt_irq_ack_def gpt_reset_alarm_def put_alarm_def quiet_def Let_def
      outcome_simps split: option.splits if_splits)

interpretation gpt_lat: latency_timer gpt_counter_ops gpt_irq_handler
proof (intro latency_timer.intro latency_timer_axioms.intro, unfold gpt_fields)
  show "alarm_device gpt_set_channel_alarm gpt_cancel_channel_alarm gpt_irq_handler"
    by (rule gpt.alarm_device_axioms)
qed (simp_all add: gpt_start_def gpt_stop_def gpt_get_value_def gpt_is_counting_up_def
    gpt_get_frequency_def gpt_get_top_value_def SOURCE_CLOCK_FREQ_HZ_def dev_ok_def gpt_set_running gpt_cancel_running
    gpt_irq_running)

interpretation tpm_lat: latency_timer tpm_counter_ops tpm_irq_handler
proof (intro latency_timer.intro latency_timer_axioms.intro, unfold tpm_fields tpm_same)
  show "alarm_device gpt_set_channel_alarm gpt_cancel_channel_alarm gpt_irq_handler"
    by (rule gpt.alarm_device_axioms)
qed (simp_all add: tpm_start_def tpm_stop_def tpm_get_value_def tpm_is_counting_up_def
    tpm_get_frequency_def tpm_get_top_value_def TPM_SOURCE_CLOCK_def dev_ok_def gpt_set_running gpt_cancel_running
    gpt_irq_running)

subsection \<open>Properties\<close>

definition new_sampler :: "u64 \<Rightarrow> sampler" where
  "new_sampler n = \<lparr>cur = [], every = [], lates = 0, cnt = n, waiting = None, reports = []\<rparr>"

definition hists :: "bench \<Rightarrow> hist \<times> hist" where
  "hists b = (irq_delay_hist (lat_stats (ctx b)), irq_to_sched_hist (lat_stats (ctx b)))"

definition startable :: "bench \<Rightarrow> bool" where
  "startable b \<longleftrightarrow> idle (lat_dev b) \<and> counting_up b \<noteq> Some False
     \<and> \<not> has_load RT_LATENCY_WITH_IRQ_LOAD b \<and> (st_ticks b = 0 \<or> st_ticks b = 2400)
     \<and> (st_top b = 0 \<or> st_top b = - 1) \<and> hw_top (lat_dev b) = - 1
     \<and> length (slots (fst (hists b))) = MAX_SLOTS \<and> length (slots (snd (hists b))) = MAX_SLOTS
     \<and> printed b = []"

lemma init_tracks:
  assumes "startable b" "rt_latency_init b = (r, b0)"
  shows "r = 0 \<and> tracks (hists b0) (new_sampler (stats_cnt b)) b0
     \<and> hist_fits (fst (hists b0)) \<and> hist_fits (snd (hists b0))"
proof -
  have h: "hist_fits (snd (hist_init 20 1000 h))" if "length (slots h) = MAX_SLOTS" for h
    using that by (simp add: hist_fits_def hist_ok_def hist_init_def MAX_SLOTS_def)
  have t: "totals_of [] (stats_init 31 False st)" for st
    unfolding totals_of_def ints_def stats_init_def accumulate_Nil [symmetric]
    by (intro exI conjI) (auto simp: abs_ok_def INT_MIN_INIT_def INT_MAX_INIT_def)
  let ?st = "lat_stats (ctx b)" and ?new = "lat_stats (ctx b0)"
  have f: "r = 0" "lat_dev b0 = lat_dev b" "sema (ctx b0) = Some 0" "counting_up b0 = counting_up b"
    "tc_load (ctx b0) = tc_load (ctx b)" "st_ticks b0 = st_ticks b" "stats_cnt b0 = stats_cnt b"
    "printed b0 = printed b" "st_top b0 = st_top b" "\<not> pending (stats_snapshot (ctx b0))" "late_alarm_sched ?new = 0"
    "irq_delay ?new = stats_init 31 False (irq_delay ?st)"
    "irq_to_sched ?new = stats_init 31 False (irq_to_sched ?st)"
    "irq_delay_hist ?new = snd (hist_init 20 1000 (irq_delay_hist ?st))"
    "irq_to_sched_hist ?new = snd (hist_init 20 1000 (irq_to_sched_hist ?st))"
    using assms(2) by (auto simp: rt_latency_init_def Let_def split: if_splits)
  have "between_tests b0"
    using assms(1) f by (simp add: between_tests_def startable_def has_load_def)
  then show ?thesis
    using assms(1) h t f by (simp add: tracks_def new_sampler_def hists_def startable_def Let_def)
qed

text \<open>
  C2: The benchmark measures what it says, on both timers, given the following. It starts on an
  idle counter that counts to 2^32 - 1, without the interrupt load. Each measurement, after any
  number of alarms that came too late, ends less than 2^31 ns after the programmed count
  (\<open>in_range\<close>); a period has fewer than 2^31 - 1 of them, and the square of the sum
  of a printed period's latencies is below 2^63 (\<open>computable\<close>). Then measurements
  and rounds of the printing task, in any order, run without a fault and refine the abstract
  benchmark: current statistics and histograms are those of the latencies of the period and of
  the test, a latency being the time from the programmed count to the interrupt, or to the woken
  task, one tick less when the counter wraps in between; late alarms are counted; every 100000
  measurements the period goes to the printing task unless the last one was not printed yet;
  each report holds minimum, maximum and mean of its period.
\<close>

theorem benchmark_refines_sampler:
  assumes "(ops, irq) = (gpt_counter_ops, gpt_irq_handler) \<or> (ops, irq) = (tpm_counter_ops, tpm_irq_handler)"
    and "startable b" "rt_latency_init b = (r, b0)" "run_ok es (new_sampler (stats_cnt b))"
  shows "\<exists>b'. bench_run ops irq es b0 = Inr b'
     \<and> tracks (hists b0) (fold sampler_step es (new_sampler (stats_cnt b))) b'
     \<and> list_all2 report_of (reports (fold sampler_step es (new_sampler (stats_cnt b)))) (printed b')"
proof -
  have i: "tracks (hists b0) (new_sampler (stats_cnt b)) b0" "hist_fits (fst (hists b0))"
      "hist_fits (snd (hists b0))"
    using init_tracks [OF assms(2,3)] by blast+
  have "\<exists>b'. bench_run ops irq es b0 = Inr b'
     \<and> tracks (hists b0) (fold sampler_step es (new_sampler (stats_cnt b))) b'"
    using assms(1) gpt_lat.run_refines [OF i(1) assms(4) i(2,3)] tpm_lat.run_refines [OF i(1) assms(4) i(2,3)]
    by auto
  then show ?thesis by (auto simp: tracks_def Let_def)
qed

definition ex_sample_stats :: stats where
  "ex_sample_stats = \<lparr>log2_size = 0, current_count = 0, current_min = 0, current_max = 0, current_mean = 0,
     current_ms = 0, snap = \<lparr>sn_min = 0, sn_max = 0, sn_mean = 0, sn_ms = 0, sn_variance = 0\<rparr>,
     abs_min = 0, abs_max = 0, has_func = False, reported = []\<rparr>"

definition ex_lat_stats :: rt_latency_stats where
  "ex_lat_stats = \<lparr>irq_delay = ex_sample_stats, irq_delay_hist = ex_hist, irq_to_sched = ex_sample_stats,
     irq_to_sched_hist = ex_hist, late_alarm_sched = 0, pending = False\<rparr>"

definition ex_ctx :: "int \<Rightarrow> rt_latency_ctx" where
  "ex_ctx load = \<lparr>dev_set = False, tc_load = load, sema = None, cpu_load_sem = None, irq_load_sem = None,
     time_irq = 0, time_prog = 0, lat_stats = ex_lat_stats, stats_snapshot = ex_lat_stats\<rparr>"

definition ex_bench :: "int \<Rightarrow> bench" where
  "ex_bench load = \<lparr>ctx = ex_ctx load, lat_dev = ex_counter, load_dev = ex_counter, st_ticks = 0,
     stats_cnt = 99999, st_top = 0, counting_up = None, printed = []\<rparr>"

definition ex_measure :: measurement where
  "ex_measure = \<lparr>ms_late = [7], ms_count = 1000, ms_fire = 3424, ms_now = 3448\<rparr>"

lemma ex_startable: "startable (ex_bench 0)"
  by (simp add: startable_def ex_bench_def ex_ctx_def idle_def dev_ok_def ex_counter_def has_load_def
      hists_def ex_lat_stats_def ex_hist_def)

lemma ex_sampled: "sample ex_measure = (1000, 2000)" "in_range ex_measure"
  by (simp_all add: sample_def in_range_def ex_measure_def delay_def elapsed_def)

lemma benchmark_refines_sampler_witness:
  "\<exists>b' rep. bench_run gpt_counter_ops gpt_irq_handler [Measure ex_measure, Print]
       (snd (rt_latency_init (ex_bench 0))) = Inr b'
     \<and> printed b' = [rep] \<and> sn_mean (snap (irq_delay rep)) = 1000 \<and> sn_max (snap (irq_to_sched rep)) = 2000"
proof -
  have step: "sampler_step (Measure ex_measure) (new_sampler 99999) =
      \<lparr>cur = [], every = [(1000, 2000)], lates = 1, cnt = 100000, waiting = Some [(1000, 2000)], reports = []\<rparr>"
    by (simp add: sampler_step_def sampler_measure_def new_sampler_def Let_def ex_sampled
        LATENCY_STATS_PERIOD_def) (simp add: ex_measure_def)
  have "run_ok [Measure ex_measure, Print] (new_sampler 99999)"
    by (simp add: step) (simp add: step_ok_def ex_sampled small_def computable_def new_sampler_def)
  moreover have "stats_cnt (ex_bench 0) = 99999" by (simp add: ex_bench_def)
  moreover have "reports (fold sampler_step [Measure ex_measure, Print] (new_sampler 99999)) = [[(1000, 2000)]]"
    by (simp add: step) (simp add: sampler_step_def sampler_print_def)
  ultimately obtain b' where "bench_run gpt_counter_ops gpt_irq_handler [Measure ex_measure, Print]
       (snd (rt_latency_init (ex_bench 0))) = Inr b'" "list_all2 report_of [[(1000, 2000)]] (printed b')"
    using benchmark_refines_sampler [of gpt_counter_ops gpt_irq_handler "ex_bench 0" 0
        "snd (rt_latency_init (ex_bench 0))" "[Measure ex_measure, Print]"] ex_startable
    by (auto simp: rt_latency_init_def Let_def simp del: bench_run.simps fold.simps)
  then show ?thesis
    by (auto simp: list_all2_Cons1 report_of_def printed_as_def)
qed

lemma clear_slots_ok: "n \<le> length xs \<Longrightarrow> \<exists>ys. clear_slots n xs = Inr ys \<and> length ys = length xs"
  by (induction n) auto

lemma hist_reset_ok: "hist_fits h \<Longrightarrow> \<exists>h'. hist_reset h = Inr h'"
  using clear_slots_ok [of "unat (n_slots h) + 1" "slots h"]
  by (auto simp: hist_reset_def hist_fits_def hist_ok_def simp del: clear_slots.simps)

lemma dump_keeps:
  "lat_dev (rt_latency_stats_dump b) = lat_dev b" "sema (ctx (rt_latency_stats_dump b)) = sema (ctx b)"
  "irq_delay_hist (lat_stats (ctx (rt_latency_stats_dump b))) = irq_delay_hist (lat_stats (ctx b))"
  "irq_to_sched_hist (lat_stats (ctx (rt_latency_stats_dump b))) = irq_to_sched_hist (lat_stats (ctx b))"
  "printed (rt_latency_stats_dump b) = printed b"
  by (simp_all add: rt_latency_stats_dump_def Let_def)

context latency_timer
begin

lemma cancel_stops:
  assumes "idle d"
  shows "\<exists>d'. cancel_ok ops d = Inr d' \<and> idle d' \<and> \<not> hw_running d' \<and> \<not> hw_irq d'"
proof -
  have "dev_ok (d\<lparr>hw_running := False\<rparr>)" using assms by (simp add: idle_def dev_ok_def)
  from cancel_idle [OF this] obtain d' where d': "op_cancel_channel_alarm ops 0 (d\<lparr>hw_running := False\<rparr>) = Inr (0, d')"
      "dev_ok d'" "armed d' = None" "\<not> hw_irq d'"
    by auto
  then have "\<not> hw_running d'" using cancel_running [OF d'(1)] by simp
  then show ?thesis using d' by (simp add: cancel_ok_def stop_down idle_def armed_def)
qed

lemma destroy_reports:
  assumes t: "tracks hs s b" and h: "hist_fits (fst hs)" "hist_fits (snd hs)"
    and xs: "xs = (case waiting s of None \<Rightarrow> cur s | Some ys \<Rightarrow> ys)"
    and c: "computable (map fst xs)" "computable (map snd xs)"
  shows "\<exists>b' r. rt_latency_destroy ops lops b = Inr b' \<and> printed b' = printed b @ [r] \<and> report_of xs r
     \<and> sema (ctx b') = None \<and> idle (lat_dev b') \<and> \<not> hw_running (lat_dev b') \<and> \<not> hw_irq (lat_dev b')"
proof -
  define b1 where "b1 = (if has_load RT_LATENCY_WITH_CPU_LOAD b
      then b\<lparr>ctx := (ctx b)\<lparr>cpu_load_sem := None\<rparr>\<rparr> else b)"
  have b1: "tc_load (ctx b1) = tc_load (ctx b)" "lat_dev b1 = lat_dev b" "printed b1 = printed b"
    "lat_stats (ctx b1) = lat_stats (ctx b)" "stats_snapshot (ctx b1) = stats_snapshot (ctx b)"
    by (simp_all add: b1_def)
  have noload: "has_load RT_LATENCY_WITH_IRQ_LOAD b1 = False"
    using t b1(1) by (simp add: tracks_def between_tests_def has_load_def)
  have "idle (lat_dev b)" using t by (simp add: tracks_def between_tests_def)
  from cancel_stops [OF this] obtain d where d: "cancel_ok ops (lat_dev b) = Inr d" "idle d"
      "\<not> hw_running d" "\<not> hw_irq d"
    by blast
  define b2 where "b2 = b1\<lparr>lat_dev := d, ctx := (ctx b1)\<lparr>sema := None\<rparr>\<rparr>"
  define b3 where "b3 = rt_latency_stats_dump b2"
  have hf: "hist_fits (irq_delay_hist (lat_stats (ctx b)))" "hist_fits (irq_to_sched_hist (lat_stats (ctx b)))"
    using t h hist_all_fits by (auto simp: tracks_def Let_def)
  have "tracks hs (if waiting s = None then s\<lparr>cur := [], waiting := Some (cur s)\<rparr> else s)
      (rt_latency_stats_dump b)"
    by (rule tracks_dump [OF t h])
  moreover have "stats_snapshot (ctx b3) = stats_snapshot (ctx (rt_latency_stats_dump b))"
    using b1 by (simp add: b3_def b2_def rt_latency_stats_dump_def Let_def)
  ultimately have sn: "pending (stats_snapshot (ctx b3))"
      "totals_of (map fst xs) (irq_delay (stats_snapshot (ctx b3)))"
      "totals_of (map snd xs) (irq_to_sched (stats_snapshot (ctx b3)))"
      "hist_fits (irq_delay_hist (stats_snapshot (ctx b3)))"
      "hist_fits (irq_to_sched_hist (stats_snapshot (ctx b3)))"
    using xs by (auto simp: tracks_def Let_def split: option.splits if_splits)
  obtain r where r: "print_stats b3 = Inr (b3\<lparr>printed := printed b3 @ [r],
      ctx := (ctx b3)\<lparr>stats_snapshot := r\<lparr>pending := False\<rparr>\<rparr>\<rparr>)" "report_of xs r"
    using print_snapshot [OF sn c] by blast
  obtain h1 h2 where "hist_reset (irq_delay_hist (lat_stats (ctx b3))) = Inr h1"
      "hist_reset (irq_to_sched_hist (lat_stats (ctx b3))) = Inr h2"
    using hist_reset_ok [OF hf(1)] hist_reset_ok [OF hf(2)] b1
    by (auto simp: b3_def b2_def dump_keeps)
  then have "\<exists>b'. rt_latency_destroy ops lops b = Inr b' \<and> printed b' = printed b3 @ [r]
     \<and> sema (ctx b') = sema (ctx b3) \<and> lat_dev b' = lat_dev b3"
    using noload d(1) r(1) b1(2)
    by (simp add: rt_latency_destroy_def Let_def b1_def [symmetric] b2_def [symmetric]
        b3_def [symmetric])
  then show ?thesis
    using d(2-4) r(2) b1(3) by (auto simp: b3_def b2_def dump_keeps)
qed

end

text \<open>
  Destroying a test stops and prints: on both timers, after any test the alarm is cancelled, the
  counter stopped and the semaphore deleted, and one more report is printed, that of the period
  waiting to be printed if there is one and of the current period otherwise.
\<close>

theorem destroy_prints_once:
  assumes "ops = gpt_counter_ops \<or> ops = tpm_counter_ops"
    and "tracks hs s b" "hist_fits (fst hs)" "hist_fits (snd hs)"
    and "computable (map fst (case waiting s of None \<Rightarrow> cur s | Some ys \<Rightarrow> ys))"
    and "computable (map snd (case waiting s of None \<Rightarrow> cur s | Some ys \<Rightarrow> ys))"
  shows "\<exists>b' r. rt_latency_destroy ops lops b = Inr b' \<and> printed b' = printed b @ [r]
     \<and> report_of (case waiting s of None \<Rightarrow> cur s | Some ys \<Rightarrow> ys) r
     \<and> sema (ctx b') = None \<and> idle (lat_dev b') \<and> \<not> hw_running (lat_dev b') \<and> \<not> hw_irq (lat_dev b')"
  using assms(1) gpt_lat.destroy_reports [OF assms(2-4) refl assms(5,6)]
    tpm_lat.destroy_reports [OF assms(2-4) refl assms(5,6)]
  by blast

text \<open>
  A period that is current when another one waits to be printed is lost: the snapshot is not taken,
  and the statistics are reset.
\<close>

theorem destroy_drops_current_period:
  assumes "pending (stats_snapshot (ctx b))"
  shows "rt_latency_stats_dump b = b"
  using assms by (simp add: rt_latency_stats_dump_def Let_def)

text \<open>The processor load with semaphores waits for ever at its first step: nobody gives first.\<close>

theorem semaphore_load_deadlocks:
  assumes "tc_load (ctx b) = rt_latency_get_tc_load 4"
  shows "cpu_load (snd (rt_latency_init b)) = Inl Deadlock"
  using assms
  by (simp add: rt_latency_init_def Let_def has_load_def rt_latency_get_tc_load_def load_masks cpu_load_def
      os_sem_take_def)

text \<open>
  Across a wrap of the counter the computed difference is one tick short; and the top value of the
  first counter measured is used for every counter.
\<close>

theorem wrapped_difference_short:
  assumes "c < p" "st_top b = 0 \<or> st_top b = - 1" "counting_up b \<noteq> Some False"
  shows "\<exists>b'. calc_diff_ns gpt_counter_ops d p c b =
    and_then (os_counter_ticks_to_ns gpt_counter_ops d (c - p - 1)) (\<lambda>ns. Inr (ucast ns, b'))"
proof -
  have "(case counting_up b of None \<Rightarrow> op_is_counting_up gpt_counter_ops d | Some u \<Rightarrow> u)"
    using assms(3) by (cases "counting_up b") (auto simp: gpt_counter_ops_def gpt_is_counting_up_def)
  then show ?thesis
    using assms(1,2)
    by (auto simp: calc_diff_ns_def Let_def gpt_fields gpt_get_top_value_def algebra_simps)
qed

lemma destroy_prints_once_witness:
  "\<exists>b1 b2 rep. bench_run tpm_counter_ops tpm_irq_handler [Measure ex_measure, Measure ex_measure]
       (snd (rt_latency_init (ex_bench 0))) = Inr b1
     \<and> rt_latency_destroy tpm_counter_ops tpm_counter_ops b1 = Inr b2 \<and> printed b2 = printed b1 @ [rep]
     \<and> sn_max (snap (irq_to_sched rep)) = 2000 \<and> \<not> hw_running (lat_dev b2)"
proof -
  let ?b0 = "snd (rt_latency_init (ex_bench 0))" and ?es = "[Measure ex_measure, Measure ex_measure]"
  let ?s = "\<lparr>cur = [(1000, 2000)], every = [(1000, 2000), (1000, 2000)], lates = 2, cnt = 100001,
        waiting = Some [(1000, 2000)], reports = []\<rparr>"
  have s1: "sampler_step (Measure ex_measure) (new_sampler 99999) =
      \<lparr>cur = [], every = [(1000, 2000)], lates = 1, cnt = 100000, waiting = Some [(1000, 2000)], reports = []\<rparr>"
    by (simp add: sampler_step_def sampler_measure_def new_sampler_def Let_def ex_sampled
        LATENCY_STATS_PERIOD_def) (simp add: ex_measure_def)
  then have run: "run_ok ?es (new_sampler 99999)"
    by (simp add: step_ok_def ex_sampled small_def new_sampler_def)
  have s2: "fold sampler_step ?es (new_sampler 99999) = ?s"
    by (simp add: s1) (simp add: sampler_step_def sampler_measure_def Let_def ex_sampled
        LATENCY_STATS_PERIOD_def, simp add: ex_measure_def)
  have init: "tracks (hists ?b0) (new_sampler 99999) ?b0" "hist_fits (fst (hists ?b0))" "hist_fits (snd (hists ?b0))"
    using init_tracks [OF ex_startable, of "fst (rt_latency_init (ex_bench 0))" ?b0]
    by (simp_all add: ex_bench_def)
  obtain b1 where b1: "bench_run tpm_counter_ops tpm_irq_handler ?es ?b0 = Inr b1" "tracks (hists ?b0) ?s b1"
    using tpm_lat.run_refines [OF init(1) run init(2,3)] unfolding s2 by blast
  obtain b2 rep where "rt_latency_destroy tpm_counter_ops tpm_counter_ops b1 = Inr b2" "printed b2 = printed b1 @ [rep]"
      "report_of [(1000, 2000)] rep" "\<not> hw_running (lat_dev b2)"
    using destroy_prints_once [OF _ b1(2) init(2,3), of tpm_counter_ops tpm_counter_ops]
    by (auto simp: computable_def small_def)
  then show ?thesis
    using b1(1) by (intro exI [of _ b1] exI [of _ b2] exI [of _ rep]) (simp add: report_of_def printed_as_def)
qed

end
