(* ===== verification/Latency_App.thy ===== *)
theory Latency_App
  imports Rt_Latency Decimal_Text
begin


text \<open>
  The application of the latency benchmark, \<open>src/apps/rt_latency/freertos/main.c\<close>: the life cycle of
  a test case, its tasks and their removal, and the duration typed on the console.
\<close>

subsection \<open>The life cycle of a test case\<close>

text \<open>
  Tasks are numbered as they are created; \<open>live\<close> is those that exist. \<open>oks\<close> is the results of the
  calls of \<open>xTaskCreate\<close>. A handle is written only by a successful creation.
\<close>

record main_ctx =
  started :: bool
  rt_ctx :: bench
  tc_taskHandles :: "nat option list"
  tasks_count :: nat
  next_task :: nat
  live :: "nat list"

definition tc_create_task :: "bool \<Rightarrow> main_ctx \<Rightarrow> main_ctx outcome" where
  "tc_create_task ok m =
     (let i = tasks_count m; m1 = m\<lparr>tasks_count := i + 1\<rparr>
      in if ok then
           and_then (arr_set (tc_taskHandles m) i (Some (next_task m))) (\<lambda>hs.
           Inr (m1\<lparr>tc_taskHandles := hs, next_task := next_task m + 1, live := live m @ [next_task m]\<rparr>))
         else Inr m1)"

text \<open>Creations in order until one fails; whether all succeeded.\<close>

fun tc_create_tasks :: "bool list \<Rightarrow> main_ctx \<Rightarrow> (bool \<times> main_ctx) outcome" where
  "tc_create_tasks [] m = Inr (True, m)"
| "tc_create_tasks (ok # oks) m =
     and_then (tc_create_task ok m) (\<lambda>m1. if ok then tc_create_tasks oks m1 else Inr (False, m1))"

definition tasks_of :: "bench \<Rightarrow> nat" where
  "tasks_of b = 1 + (if has_load RT_LATENCY_WITH_CPU_LOAD b then 1 else 0)
     + (if has_load RT_LATENCY_WITH_INVD_CACHE b then 1 else 0) + 1"

text \<open>
  The loop over the handles. A null handle stands for the calling task, which is deleted and does not
  go on.
\<close>

fun delete_tasks :: "nat \<Rightarrow> main_ctx \<Rightarrow> main_ctx outcome" where
  "delete_tasks 0 m = Inr m"
| "delete_tasks (Suc n) m =
     and_then (delete_tasks n m) (\<lambda>m1.
     and_then (arr_get (tc_taskHandles m1) n) (\<lambda>h.
     (case h of None \<Rightarrow> Inl Diverges
      | Some t \<Rightarrow> Inr (m1\<lparr>tc_taskHandles := (tc_taskHandles m1)[n := None],
                          live := removeAll t (live m1)\<rparr>))))"

definition destroy_test_case ::
    "os_counter_ops \<Rightarrow> os_counter_ops \<Rightarrow> main_ctx \<Rightarrow> main_ctx outcome" where
  "destroy_test_case ops lops m =
     (if \<not> started m then Inr m
      else and_then (delete_tasks (tasks_count m) m) (\<lambda>m1.
           and_then (rt_latency_destroy ops lops (rt_ctx m1)) (\<lambda>b.
           Inr (m1\<lparr>tasks_count := 0, rt_ctx := b, started := False\<rparr>))))"

definition start_test_case ::
    "os_counter_ops \<Rightarrow> os_counter_ops \<Rightarrow> bool list \<Rightarrow> int \<Rightarrow> main_ctx \<Rightarrow> (int \<times> main_ctx) outcome" where
  "start_test_case ops lops oks test_case_id m =
     (if started m then Inr (- 1, m)
      else
        (let b = rt_ctx m;
             b1 = b\<lparr>ctx := (ctx b)\<lparr>tc_load := rt_latency_get_tc_load test_case_id\<rparr>\<rparr>;
             m1 = m\<lparr>rt_ctx := b1\<rparr>
         in if tc_load (ctx b1) < 0 then Inr (- 1, m1)
            else
              (let (r, b2) = rt_latency_init b1; m2 = m1\<lparr>rt_ctx := b2\<rparr>
               in if r \<noteq> 0 then Inr (- 1, m2)
                  else and_then (tc_create_tasks (take (tasks_of b2) oks) m2) (\<lambda>(all, m3).
                       if all then Inr (0, m3\<lparr>started := True\<rparr>)
                       else and_then (destroy_test_case ops lops m3) (\<lambda>m4. Inr (- 1, m4))))))"

definition fresh_main :: "main_ctx \<Rightarrow> bool" where
  "fresh_main m \<longleftrightarrow> \<not> started m \<and> tasks_count m = 0 \<and> length (tc_taskHandles m) = 8
     \<and> (\<forall>t \<in> set (live m). t < next_task m)"

lemma create_all:
  "tasks_count m + n \<le> length (tc_taskHandles m) \<Longrightarrow>
   \<exists>hs. tc_create_tasks (replicate n True) m = Inr (True, m\<lparr>tasks_count := tasks_count m + n,
      tc_taskHandles := hs, next_task := next_task m + n,
      live := live m @ [next_task m..<next_task m + n]\<rparr>)
    \<and> length hs = length (tc_taskHandles m) \<and> take (tasks_count m) hs = take (tasks_count m) (tc_taskHandles m)
    \<and> (\<forall>i < n. hs ! (tasks_count m + i) = Some (next_task m + i))"
proof (induction n arbitrary: m)
  case (Suc n)
  define m1 where "m1 = m\<lparr>tasks_count := tasks_count m + 1,
      tc_taskHandles := (tc_taskHandles m)[tasks_count m := Some (next_task m)],
      next_task := next_task m + 1, live := live m @ [next_task m]\<rparr>"
  have c: "tc_create_task True m = Inr m1"
    using Suc.prems by (simp add: tc_create_task_def m1_def Let_def)
  obtain hs where hs: "tc_create_tasks (replicate n True) m1 = Inr (True, m1\<lparr>tasks_count := tasks_count m1 + n,
      tc_taskHandles := hs, next_task := next_task m1 + n,
      live := live m1 @ [next_task m1..<next_task m1 + n]\<rparr>)"
      "length hs = length (tc_taskHandles m1)" "take (tasks_count m1) hs = take (tasks_count m1) (tc_taskHandles m1)"
      "\<forall>i < n. hs ! (tasks_count m1 + i) = Some (next_task m1 + i)"
    using Suc.IH [of m1] Suc.prems by (auto simp: m1_def)
  have "hs ! (tasks_count m + i) = Some (next_task m + i)" if "i < Suc n" for i
  proof (cases i)
    case 0
    have "hs ! tasks_count m = take (tasks_count m1) hs ! tasks_count m" by (simp add: m1_def)
    also have "\<dots> = Some (next_task m)" using Suc.prems by (simp add: hs(3)) (simp add: m1_def)
    finally show ?thesis using 0 by simp
  next
    case (Suc j)
    then show ?thesis using hs(4) that by (simp add: m1_def)
  qed
  moreover have "take (tasks_count m) hs = take (tasks_count m) (tc_taskHandles m)"
    using arg_cong [OF hs(3), of "take (tasks_count m)"] by (simp add: m1_def min_def)
  moreover have "[next_task m..<next_task m + Suc n] = next_task m # [next_task m + 1..<next_task m + 1 + n]"
    by (simp add: upt_conv_Cons del: upt_Suc)
  ultimately show ?case
    using c hs(1,2) by (intro exI [of _ hs]) (simp add: m1_def del: upt_Suc)
next
  case 0
  show ?case by (intro exI [of _ "tc_taskHandles m"]) simp
qed

lemma delete_all:
  assumes "n \<le> length (tc_taskHandles m)" "\<forall>i < n. tc_taskHandles m ! i = Some (k + i)"
  shows "\<exists>hs. delete_tasks n m = Inr (m\<lparr>tc_taskHandles := hs,
      live := filter (\<lambda>t. t \<notin> {k..<k + n}) (live m)\<rparr>) \<and> length hs = length (tc_taskHandles m)
      \<and> drop n hs = drop n (tc_taskHandles m)"
  using assms
proof (induction n)
  case (Suc n)
  then obtain hs where hs: "delete_tasks n m = Inr (m\<lparr>tc_taskHandles := hs,
      live := filter (\<lambda>t. t \<notin> {k..<k + n}) (live m)\<rparr>)" "length hs = length (tc_taskHandles m)"
      "drop n hs = drop n (tc_taskHandles m)"
    by auto
  have "hs ! n = tc_taskHandles m ! n"
    using arg_cong [OF hs(3), of "\<lambda>xs. xs ! 0"] Suc.prems(1) hs(2) by simp
  then have "hs ! n = Some (k + n)" using Suc.prems(2) by simp
  moreover have "removeAll (k + n) (filter (\<lambda>t. t \<notin> {k..<k + n}) (live m)) =
      filter (\<lambda>t. t \<notin> {k..<k + Suc n}) (live m)"
    unfolding removeAll_filter_not_eq filter_filter by (rule filter_cong) auto
  moreover have "drop (Suc n) (hs[n := None]) = drop (Suc n) (tc_taskHandles m)"
    using arg_cong [OF hs(3), of "drop 1"] by simp
  ultimately show ?case
    using hs(1,2) Suc.prems(1) by (intro exI [of _ "hs[n := None]"]) simp
next
  case 0
  show ?case by (intro exI [of _ "tc_taskHandles m"]) simp
qed


lemma tasks_of_le: "tasks_of b \<le> 4" "1 \<le> tasks_of b"
  by (simp_all add: tasks_of_def)

definition set_load :: "int \<Rightarrow> bench \<Rightarrow> bench" where
  "set_load i b = b\<lparr>ctx := (ctx b)\<lparr>tc_load := rt_latency_get_tc_load i\<rparr>\<rparr>"

lemma start_ready:
  assumes "\<not> started m" "1 \<le> i" "i \<le> 6"
  shows "\<exists>b. snd (rt_latency_init (set_load i (rt_ctx m))) = b \<and>
    start_test_case ops lops oks i m =
      and_then (tc_create_tasks (take (tasks_of b) oks) (m\<lparr>rt_ctx := b\<rparr>)) (\<lambda>(all, m3).
         if all then Inr (0, m3\<lparr>started := True\<rparr>)
         else and_then (destroy_test_case ops lops m3) (\<lambda>m4. Inr (- 1, m4)))"
proof -
  have "i = 1 \<or> i = 2 \<or> i = 3 \<or> i = 4 \<or> i = 5 \<or> i = 6" using assms(2,3) by auto
  then have "0 \<le> rt_latency_get_tc_load i"
    by (auto simp: rt_latency_get_tc_load_def load_masks)
  moreover have "fst (rt_latency_init x) = 0" for x by (simp add: rt_latency_init_def Let_def)
  moreover obtain r b where rb: "rt_latency_init (set_load i (rt_ctx m)) = (r, b)"
    by (cases "rt_latency_init (set_load i (rt_ctx m))")
  ultimately have "r = 0" by (metis fst_conv)
  then show ?thesis
    using assms(1) rb \<open>0 \<le> rt_latency_get_tc_load i\<close>
    by (simp add: start_test_case_def set_load_def Let_def)
qed

text \<open>
  A test case starts all its tasks and removes exactly them: when every task can be created,
  starting test 1 to 6 from the initial state creates two to four tasks, a second start is refused,
  and destroying the test deletes these tasks, no other, and leaves the initial state again.
\<close>

theorem test_case_lifecycle:
  assumes "fresh_main m" "1 \<le> i" "i \<le> 6"
    and "start_test_case ops lops (replicate 4 True) i m = Inr (r, m1)"
    and "destroy_test_case ops lops m1 = Inr m2"
  shows "r = 0 \<and> started m1 \<and> (\<exists>n. 2 \<le> n \<and> n \<le> 4 \<and> live m1 = live m @ [next_task m..<next_task m + n])
     \<and> (\<forall>j oks. start_test_case ops lops oks j m1 = Inr (- 1, m1))
     \<and> fresh_main m2 \<and> live m2 = live m"
proof -
  have f: "\<not> started m" "tasks_count m = 0" "length (tc_taskHandles m) = 8" "\<forall>t \<in> set (live m). t < next_task m"
    using assms(1) by (simp_all add: fresh_main_def)
  obtain b where b: "snd (rt_latency_init (set_load i (rt_ctx m))) = b"
    "start_test_case ops lops (replicate 4 True) i m =
      and_then (tc_create_tasks (take (tasks_of b) (replicate 4 True)) (m\<lparr>rt_ctx := b\<rparr>)) (\<lambda>(all, m3).
         if all then Inr (0, m3\<lparr>started := True\<rparr>)
         else and_then (destroy_test_case ops lops m3) (\<lambda>m4. Inr (- 1, m4)))"
    using start_ready [OF f(1) assms(2,3)] by blast
  define n where "n = tasks_of b"
  have n: "2 \<le> n" "n \<le> 4" by (simp_all add: n_def tasks_of_def)
  have "take n (replicate 4 True) = replicate n True" using n(2) by (simp add: min_def)
  moreover obtain hs where hs: "tc_create_tasks (replicate n True) (m\<lparr>rt_ctx := b\<rparr>) =
      Inr (True, m\<lparr>rt_ctx := b, tasks_count := n, tc_taskHandles := hs, next_task := next_task m + n,
        live := live m @ [next_task m..<next_task m + n]\<rparr>)"
      "length hs = 8" "\<forall>i < n. hs ! i = Some (next_task m + i)"
    using create_all [of "m\<lparr>rt_ctx := b\<rparr>" n] f n by auto
  ultimately have m1: "r = 0" "m1 = m\<lparr>rt_ctx := b, tasks_count := n, tc_taskHandles := hs,
      next_task := next_task m + n, live := live m @ [next_task m..<next_task m + n], started := True\<rparr>"
    using b(2) assms(4) by (simp_all add: n_def)
  have "n \<le> length (tc_taskHandles m1)" "\<forall>i < n. tc_taskHandles m1 ! i = Some (next_task m + i)"
    using hs n by (simp_all add: m1)
  from delete_all [OF this] obtain hs' where hs': "delete_tasks n m1 = Inr (m1\<lparr>tc_taskHandles := hs',
      live := filter (\<lambda>t. t \<notin> {next_task m..<next_task m + n}) (live m1)\<rparr>)" "length hs' = 8"
    using hs(2) m1(2) by auto
  have "filter (\<lambda>t. t \<notin> {next_task m..<next_task m + n}) (live m) = live m"
    using f(4) by (intro filter_True) auto
  moreover have "filter (\<lambda>t. t \<notin> {next_task m..<next_task m + n}) [next_task m..<next_task m + n] = []"
    by (simp add: filter_empty_conv)
  moreover have bound: "\<forall>t \<in> set (live m). t < next_task m + n" using f(4) by auto
  ultimately have "live m2 = live m" "fresh_main m2"
    using assms(5) hs' bound unfolding destroy_test_case_def
    by (auto simp: m1 outcome_simps fresh_main_def)
  moreover have "start_test_case ops lops oks j m1 = Inr (- 1, m1)" for j oks
    by (simp add: start_test_case_def m1)
  ultimately show ?thesis using m1 n by auto
qed

lemma compute_empty: "totals_of [] st \<Longrightarrow> \<exists>st'. stats_compute st = Inr st'"
  by (auto simp: totals_of_def ints_def stats_compute_def accumulate_def)

lemma destroy_unused:
  assumes "startable b" "rt_latency_init b = (r, b0)"
  shows "\<exists>b'. rt_latency_destroy gpt_counter_ops lops b0 = Inr b'"
proof -
  define b1 where "b1 = (if has_load RT_LATENCY_WITH_CPU_LOAD b0
      then b0\<lparr>ctx := (ctx b0)\<lparr>cpu_load_sem := None\<rparr>\<rparr> else b0)"
  have t: "tracks (hists b0) (new_sampler (stats_cnt b)) b0" "hist_fits (fst (hists b0))"
      "hist_fits (snd (hists b0))"
    using init_tracks [OF assms] by blast+
  have b1: "tc_load (ctx b1) = tc_load (ctx b0)" "lat_dev b1 = lat_dev b0"
    "lat_stats (ctx b1) = lat_stats (ctx b0)" "stats_snapshot (ctx b1) = stats_snapshot (ctx b0)"
    by (simp_all add: b1_def)
  have noload: "has_load RT_LATENCY_WITH_IRQ_LOAD b1 = False"
    using t(1) b1(1) by (simp add: tracks_def between_tests_def has_load_def)
  have "idle (lat_dev b0)" using t(1) by (simp add: tracks_def between_tests_def)
  from gpt_lat.cancel_stops [OF this] obtain d where d: "cancel_ok gpt_counter_ops (lat_dev b0) = Inr d"
    by blast
  define b3 where "b3 = rt_latency_stats_dump (b1\<lparr>lat_dev := d, ctx := (ctx b1)\<lparr>sema := None\<rparr>\<rparr>)"
  let ?st = "lat_stats (ctx b0)"
  have st: "totals_of [] (irq_delay ?st)" "totals_of [] (irq_to_sched ?st)" "\<not> pending (stats_snapshot (ctx b0))"
    "hist_fits (irq_delay_hist ?st)" "hist_fits (irq_to_sched_hist ?st)"
    using t by (simp_all add: tracks_def new_sampler_def Let_def hists_def)
  have sn: "stats_snapshot (ctx b3) = ?st\<lparr>pending := True\<rparr>"
    using b1 st(3) by (simp add: b3_def rt_latency_stats_dump_def Let_def)
  obtain s1 s2 where "stats_compute (irq_delay ?st) = Inr s1" "stats_compute (irq_to_sched ?st) = Inr s2"
    using compute_empty st(1,2) by blast
  moreover obtain h1 h2 where "hist_print (irq_delay_hist ?st) = Inr h1" "hist_print (irq_to_sched_hist ?st) = Inr h2"
    using hist_print_ok st(4,5) by blast
  ultimately obtain b4 where b4: "print_stats b3 = Inr b4" "lat_stats (ctx b4) = lat_stats (ctx b3)"
    by (simp add: print_stats_def sn Let_def)
  obtain k1 k2 where "hist_reset (irq_delay_hist ?st) = Inr k1" "hist_reset (irq_to_sched_hist ?st) = Inr k2"
    using hist_reset_ok [OF st(4)] hist_reset_ok [OF st(5)] by blast
  then show ?thesis
    using noload d b4 b1
    by (simp add: rt_latency_destroy_def Let_def b1_def [symmetric] b3_def [symmetric])
       (simp add: b3_def dump_keeps)
qed

definition ex_main :: main_ctx where
  "ex_main = \<lparr>started = False, rt_ctx = ex_bench 0, tc_taskHandles = replicate 8 None, tasks_count = 0,
     next_task = 5, live = [0, 4]\<rparr>"

lemma ex_main_fresh: "fresh_main ex_main"
  by (simp add: fresh_main_def ex_main_def)

lemma ex_main_runs:
  "\<exists>m1 m2. start_test_case gpt_counter_ops gpt_counter_ops (replicate 4 True) 2 ex_main = Inr (0, m1)
     \<and> destroy_test_case gpt_counter_ops gpt_counter_ops m1 = Inr m2"
proof -
  define b where "b = snd (rt_latency_init (set_load 2 (ex_bench 0)))"
  have n: "tasks_of b = 3"
    by (simp add: b_def tasks_of_def set_load_def rt_latency_init_def Let_def has_load_def
        rt_latency_get_tc_load_def load_masks)
  have "startable (set_load 2 (ex_bench 0))"
    using ex_startable
    by (simp add: startable_def set_load_def hists_def has_load_def rt_latency_get_tc_load_def load_masks)
  then obtain b' where b': "rt_latency_destroy gpt_counter_ops gpt_counter_ops b = Inr b'"
    using destroy_unused [of "set_load 2 (ex_bench 0)" "fst (rt_latency_init (set_load 2 (ex_bench 0)))" b]
    by (auto simp: b_def)
  have "start_test_case gpt_counter_ops gpt_counter_ops (replicate 4 True) 2 ex_main =
      Inr (0, ex_main\<lparr>rt_ctx := b, tasks_count := 3, next_task := 8, live := [0, 4, 5, 6, 7], started := True,
        tc_taskHandles := [Some 5, Some 6, Some 7, None, None, None, None, None]\<rparr>)"
    using start_ready [of ex_main 2 gpt_counter_ops gpt_counter_ops "replicate 4 True"] n
    by (simp add: ex_main_def b_def [symmetric] numeral_eq_Suc tc_create_task_def Let_def)
  moreover have "\<exists>m2. destroy_test_case gpt_counter_ops gpt_counter_ops (ex_main\<lparr>rt_ctx := b, tasks_count := 3,
        next_task := 8, live := [0, 4, 5, 6, 7], started := True,
        tc_taskHandles := [Some 5, Some 6, Some 7, None, None, None, None, None]\<rparr>) = Inr m2"
    using b' by (simp add: destroy_test_case_def numeral_eq_Suc)
  ultimately show ?thesis by blast
qed

lemma test_case_lifecycle_witness:
  "\<exists>m1 m2. start_test_case gpt_counter_ops gpt_counter_ops (replicate 4 True) 2 ex_main = Inr (0, m1)
     \<and> destroy_test_case gpt_counter_ops gpt_counter_ops m1 = Inr m2 \<and> started m1
     \<and> live m2 = [0, 4] \<and> \<not> started m2"
proof -
  obtain m1 m2 where m: "start_test_case gpt_counter_ops gpt_counter_ops (replicate 4 True) 2 ex_main = Inr (0, m1)"
      "destroy_test_case gpt_counter_ops gpt_counter_ops m1 = Inr m2"
    using ex_main_runs by blast
  have "started m1 \<and> fresh_main m2 \<and> live m2 = live ex_main"
    using test_case_lifecycle [OF ex_main_fresh _ _ m] by simp
  then show ?thesis using m by (auto simp: fresh_main_def ex_main_def)
qed

text \<open>
  A start that fails at a task after the first leaves the tasks created so far running and counted:
  the test case is not marked as started, so that the clean-up of the error path does nothing.
\<close>

theorem failed_start_leaks_tasks:
  assumes "fresh_main m" "1 \<le> i" "i \<le> 6"
  shows "\<exists>b. start_test_case ops lops [True, False] i m =
    Inr (- 1, m\<lparr>rt_ctx := b, tasks_count := 2, tc_taskHandles := (tc_taskHandles m)[0 := Some (next_task m)],
      next_task := next_task m + 1, live := live m @ [next_task m]\<rparr>)"
proof -
  have f: "\<not> started m" "tasks_count m = 0" "length (tc_taskHandles m) = 8"
    using assms(1) by (simp_all add: fresh_main_def)
  obtain b where b: "start_test_case ops lops [True, False] i m =
      and_then (tc_create_tasks (take (tasks_of b) [True, False]) (m\<lparr>rt_ctx := b\<rparr>)) (\<lambda>(all, m3).
         if all then Inr (0, m3\<lparr>started := True\<rparr>)
         else and_then (destroy_test_case ops lops m3) (\<lambda>m4. Inr (- 1, m4)))"
    using start_ready [OF f(1) assms(2,3)] by blast
  have "2 \<le> tasks_of b" by (simp add: tasks_of_def)
  then have "take (tasks_of b) [True, False] = [True, False]" by simp
  then show ?thesis
    using f by (intro exI [of _ b]) (simp add: b tc_create_task_def destroy_test_case_def Let_def)
qed

subsection \<open>The duration typed on the console\<close>

text \<open>
  The characters that arrive are a list; waiting for the next one is left out. \<open>console\<close> is the
  buffer when the loop ends; a list that ends before gives what was typed so far.
\<close>

definition is_newline :: "char \<Rightarrow> bool" where
  "is_newline c \<longleftrightarrow> ascii c = 13 \<or> ascii c = 10"

definition is_erase :: "char \<Rightarrow> bool" where
  "is_erase c \<longleftrightarrow> ascii c = 8 \<or> ascii c = 127"

definition is_unit :: "char \<Rightarrow> bool" where
  "is_unit c \<longleftrightarrow> ascii c = 104 \<or> ascii c = 100"

fun console :: "char list \<Rightarrow> char list \<Rightarrow> char list" where
  "console buf [] = buf"
| "console buf (c # cs) =
     (if 31 \<le> length buf then buf
      else if is_newline c then buf
      else if is_erase c then console (butlast buf) cs
      else if is_digit c \<or> (buf \<noteq> [] \<and> is_unit c) then console (buf @ [c]) cs
      else console buf cs)"

text \<open>\<open>atoi\<close> on a buffer without sign or blanks: the digits up to the first other character.\<close>

definition atoi :: "char list \<Rightarrow> int outcome" where
  "atoi cs =
     (let v = foldl (\<lambda>v c. 10 * v + digit_value c) 0 (takeWhile is_digit cs)
      in if in_i32 v then Inr v else Inl Overflow)"

definition i32 :: "int \<Rightarrow> int outcome" where
  "i32 x = (if in_i32 x then Inr x else Inl Overflow)"

definition duration_of :: "char list \<Rightarrow> int outcome" where
  "duration_of buf =
     (if buf = [] then Inr 0
      else if is_unit (last buf) then
        and_then (atoi (butlast buf)) (\<lambda>value.
        if ascii (last buf) = 104 then i32 (value * 3600) else i32 (value * 86400))
      else atoi buf)"

definition get_test_duration_from_console :: "char list \<Rightarrow> int outcome" where
  "get_test_duration_from_console cs = duration_of (console [] cs)"

lemma digit_kind:
  assumes "n < (10 :: nat)"
  shows "\<not> is_newline (char_of (48 + n))" "\<not> is_erase (char_of (48 + n))" "\<not> is_unit (char_of (48 + n))"
  using assms by (simp_all add: is_newline_def is_erase_def is_unit_def ascii_def)

lemma atoi_decimal: "n < 2 ^ 31 \<Longrightarrow> atoi (decimal n) = Inr (int n)"
proof -
  assume n: "n < 2 ^ 31"
  have "takeWhile is_digit (decimal n) = decimal n"
    using decimal_digits digit_char(1) by (metis takeWhile_eq_all_conv)
  then show ?thesis using n by (simp only: atoi_def decimal_value Let_def) (simp add: in_i32_def)
qed

lemma console_digits:
  assumes "\<forall>c \<in> set ds. \<exists>k < 10. c = char_of (48 + k :: nat)" "length buf + length ds \<le> 31"
  shows "console buf (ds @ cs) = console (buf @ ds) cs"
  using assms
proof (induction ds arbitrary: buf)
  case (Cons c ds)
  then have "is_digit c" "\<not> is_newline c" "\<not> is_erase c" using digit_char digit_kind by auto
  then show ?case using Cons by simp
qed simp

definition unit_factor :: "char list \<Rightarrow> nat" where
  "unit_factor u = (if u = ''h'' then 3600 else if u = ''d'' then 86400 else 1)"

text \<open>
  The console understands the durations it asks for: the decimal notation of n, followed by
  nothing, h or d and a carriage return, is read as n seconds, hours or days, for every n whose
  number of seconds fits \<open>int\<close>.
\<close>

theorem duration_roundtrip:
  assumes "u = [] \<or> u = ''h'' \<or> u = ''d''" "n * unit_factor u < 2 ^ 31"
  shows "get_test_duration_from_console (decimal n @ u @ [CHR 0x0D] @ cs) = Inr (int (n * unit_factor u))"
proof -
  have f: "0 < unit_factor u" by (simp add: unit_factor_def)
  then have n: "n < 2 ^ 31"
    using assms(2) by (metis le_less_trans mult.commute mult_le_mono1 nat_mult_1 Suc_leI One_nat_def)
  then have len: "length (decimal n) \<le> 10" by (intro decimal_length) simp_all
  have "console [] (decimal n @ u @ [CHR 0x0D] @ cs) = console (decimal n) (u @ [CHR 0x0D] @ cs)"
    using console_digits [of "decimal n" "[]"] decimal_digits len by simp
  also have "\<dots> = decimal n @ u"
    using assms(1) len decimal_nonempty [of n]
    by (auto simp: is_newline_def is_erase_def is_digit_def is_unit_def ascii_def)
  finally have c: "console [] (decimal n @ u @ [CHR 0x0D] @ cs) = decimal n @ u" .
  have last: "\<not> is_unit (last (decimal n))"
    using decimal_digits [of "last (decimal n)" n] decimal_nonempty [of n] digit_kind(3) by auto
  show ?thesis
    using assms c last atoi_decimal [OF n] decimal_nonempty [of n]
    unfolding get_test_duration_from_console_def
    by (auto simp: duration_of_def is_unit_def ascii_def i32_def in_i32_def unit_factor_def)
qed

lemma duration_roundtrip_witness:
  "get_test_duration_from_console (decimal 36 @ ''h'' @ [CHR 0x0D] @ []) = Inr 129600"
  using duration_roundtrip [of "''h''" 36 "[]"] by (simp add: unit_factor_def)

text \<open>A unit in the middle is accepted and what follows it ignored.\<close>

theorem inner_unit_accepted:
  "get_test_duration_from_console (''1h2'' @ [CHR 0x0D]) = Inr 1"
  by (simp add: get_test_duration_from_console_def is_newline_def is_erase_def is_digit_def is_unit_def ascii_def
      duration_of_def atoi_def digit_value_def in_i32_def Let_def)

end
