(* ===== verification/Latency_Menu.thy ===== *)
theory Latency_Menu
  imports Latency_App
begin


text \<open>
  The menu of the latency benchmark, \<open>src/apps/rt_latency/freertos/main.c\<close>: the choice of a test, its
  run for the duration typed, and the loop of the main task, over the life cycle and the duration of
  \<open>Latency_App\<close>.

  The characters typed are a list; a function that waits for more of them has no result. The time a
  test runs is what its tasks do in it: a list of rounds.
\<close>

section \<open>The tasks of a test\<close>

text \<open>
  A round of \<open>cpu_load_task\<close>, which exists only in the tests with that load, of \<open>log_task\<close>, and of
  \<open>benchmark_task\<close>, which a measurement that fails suspends.
\<close>

definition cpu_load_task :: "bench \<Rightarrow> bench outcome" where
  "cpu_load_task b = (if has_load RT_LATENCY_WITH_CPU_LOAD b then cpu_load b else Inr b)"

definition log_task :: "bench \<Rightarrow> bench outcome" where
  "log_task b = print_stats b"

definition benchmark_task ::
    "os_counter_ops \<Rightarrow> os_counter_ops \<Rightarrow> (alarm_run \<Rightarrow> os_counter \<Rightarrow> os_counter outcome) \<Rightarrow> int \<Rightarrow>
       attempt list \<Rightarrow> u32 list \<Rightarrow> bool \<times> bench \<Rightarrow> (bool \<times> bench) outcome" where
  "benchmark_task ops lops irq irq_rc as load sb =
     (if fst sb then Inr sb
      else and_then (rt_latency_test ops lops irq irq_rc as load (snd sb)) (\<lambda>(ret, b1). Inr (ret \<noteq> 0, b1)))"

datatype task_round = Benchmark int "attempt list" "u32 list" | Log | Load

fun run_tasks ::
    "os_counter_ops \<Rightarrow> os_counter_ops \<Rightarrow> (alarm_run \<Rightarrow> os_counter \<Rightarrow> os_counter outcome) \<Rightarrow>
       task_round list \<Rightarrow> bool \<Rightarrow> bench \<Rightarrow> bench outcome" where
  "run_tasks ops lops irq [] suspended b = Inr b"
| "run_tasks ops lops irq (Benchmark irq_rc as load # rs) suspended b =
     and_then (benchmark_task ops lops irq irq_rc as load (suspended, b)) (\<lambda>(suspended1, b1).
       run_tasks ops lops irq rs suspended1 b1)"
| "run_tasks ops lops irq (Log # rs) suspended b = and_then (log_task b) (run_tasks ops lops irq rs suspended)"
| "run_tasks ops lops irq (Load # rs) suspended b = and_then (cpu_load_task b) (run_tasks ops lops irq rs suspended)"

section \<open>Running a test\<close>

definition TEST_DURATION_FOREVER :: u32 where "TEST_DURATION_FOREVER = 0"
definition RT_LATENCY_TEST_CASE_MAX :: int where "RT_LATENCY_TEST_CASE_MAX = 8"
definition portMAX_DELAY :: u32 where "portMAX_DELAY = 0xFFFFFFFF"

text \<open>\<open>to_ticks\<close> is the conversion of milliseconds of FreeRTOS. The result of the start is ignored.\<close>

definition run_test_case ::
    "os_counter_ops \<Rightarrow> os_counter_ops \<Rightarrow> (alarm_run \<Rightarrow> os_counter \<Rightarrow> os_counter outcome) \<Rightarrow> (u64 \<Rightarrow> u32) \<Rightarrow>
       bool list \<Rightarrow> task_round list \<Rightarrow> int \<Rightarrow> u32 \<Rightarrow> main_ctx \<Rightarrow> (u32 \<times> main_ctx) outcome" where
  "run_test_case ops lops irq to_ticks oks rounds test_case_id duration_sec m =
     (let timeout = (if duration_sec = TEST_DURATION_FOREVER then portMAX_DELAY else to_ticks (ucast duration_sec * 1000))
      in and_then (start_test_case ops lops oks test_case_id m) (\<lambda>(_, m1).
         and_then (run_tasks ops lops irq rounds False (rt_ctx m1)) (\<lambda>b.
         and_then (destroy_test_case ops lops (m1\<lparr>rt_ctx := b\<rparr>)) (\<lambda>m2. Inr (timeout, m2)))))"

section \<open>The menu\<close>

text \<open>The first character that chooses a test or quits, and the characters after it.\<close>

definition is_quit :: "char \<Rightarrow> bool" where "is_quit c \<longleftrightarrow> ascii c = 113 \<or> ascii c = 81"

definition is_test :: "char \<Rightarrow> bool" where "is_test c \<longleftrightarrow> ascii c \<in> {49, 50, 51, 52, 53, 54}"

fun menu_choice :: "char list \<Rightarrow> (char \<times> char list) option" where
  "menu_choice [] = None"
| "menu_choice (c # cs) = (if is_quit c \<or> is_test c then Some (c, cs) else menu_choice cs)"

text \<open>The loop that reads a duration: what was typed and the characters after it, unless it waits for more.\<close>

fun console_end :: "char list \<Rightarrow> char list \<Rightarrow> (char list \<times> char list) option" where
  "console_end buf [] = (if 31 \<le> length buf then Some (buf, []) else None)"
| "console_end buf (c # cs) =
     (if 31 \<le> length buf then Some (buf, c # cs)
      else if is_newline c then Some (buf, cs)
      else if is_erase c then console_end (butlast buf) cs
      else if is_digit c \<or> (buf \<noteq> [] \<and> is_unit c) then console_end (buf @ [c]) cs
      else console_end buf cs)"

text \<open>
  What surrounds a command: the bytes in memory after the variable \<open>input\<close>, which \<open>atoi\<close> reads as well,
  the results of the creations of tasks, and the rounds of the tasks while the test runs.
\<close>

record menu_env =
  after_input :: "char list"
  task_oks :: "bool list"
  test_rounds :: "task_round list"

text \<open>The result is none while the handler waits; with it the test that ran, its duration and its delay.\<close>

definition command_handler ::
    "os_counter_ops \<Rightarrow> os_counter_ops \<Rightarrow> (alarm_run \<Rightarrow> os_counter \<Rightarrow> os_counter outcome) \<Rightarrow> (u64 \<Rightarrow> u32) \<Rightarrow>
       menu_env \<Rightarrow> char list \<Rightarrow> main_ctx \<Rightarrow>
       (int option \<times> (int \<times> u32 \<times> u32) list \<times> char list \<times> main_ctx) outcome" where
  "command_handler ops lops irq to_ticks env cs m =
     (case menu_choice cs of
        None \<Rightarrow> Inr (None, [], [], m)
      | Some (input, cs1) \<Rightarrow>
          if is_quit input then Inr (Some (- 1), [], cs1, m)
          else and_then (atoi (input # after_input env)) (\<lambda>cmd_id.
            if RT_LATENCY_TEST_CASE_MAX \<le> cmd_id then Inr (Some (- 2), [], cs1, m)
            else case console_end [] cs1 of
              None \<Rightarrow> Inr (None, [], [], m)
            | Some (buf, cs2) \<Rightarrow>
                and_then (duration_of buf) (\<lambda>sec.
                let duration = (if sec \<le> 0 then TEST_DURATION_FOREVER else word_of_int sec)
                in and_then (run_test_case ops lops irq to_ticks (task_oks env) (test_rounds env) cmd_id duration m)
                     (\<lambda>(timeout, m1). Inr (Some 0, [(cmd_id, duration, timeout)], cs2, m1)))))"

text \<open>
  The loop of \<open>main_task\<close>, a command for each surrounding; whether it was left. A test that is left
  started would make it spin.
\<close>

fun main_loop ::
    "os_counter_ops \<Rightarrow> os_counter_ops \<Rightarrow> (alarm_run \<Rightarrow> os_counter \<Rightarrow> os_counter outcome) \<Rightarrow> (u64 \<Rightarrow> u32) \<Rightarrow>
       menu_env list \<Rightarrow> char list \<Rightarrow> main_ctx \<Rightarrow> (bool \<times> (int \<times> u32 \<times> u32) list \<times> main_ctx) outcome" where
  "main_loop ops lops irq to_ticks [] cs m = Inr (False, [], m)"
| "main_loop ops lops irq to_ticks (env # envs) cs m =
     (if started m then Inl Diverges
      else and_then (command_handler ops lops irq to_ticks env cs m) (\<lambda>(ret, xs, cs1, m1).
        case ret of
          None \<Rightarrow> Inr (False, xs, m1)
        | Some r \<Rightarrow> if r = - 1 then Inr (True, xs, m1)
            else and_then (main_loop ops lops irq to_ticks envs cs1 m1) (\<lambda>(q, ys, m2). Inr (q, xs @ ys, m2))))"

definition main_task ::
    "os_counter_ops \<Rightarrow> os_counter_ops \<Rightarrow> (alarm_run \<Rightarrow> os_counter \<Rightarrow> os_counter outcome) \<Rightarrow> (u64 \<Rightarrow> u32) \<Rightarrow>
       menu_env list \<Rightarrow> char list \<Rightarrow> main_ctx \<Rightarrow> (bool \<times> (int \<times> u32 \<times> u32) list \<times> main_ctx) outcome" where
  "main_task ops lops irq to_ticks envs cs m = main_loop ops lops irq to_ticks envs cs (m\<lparr>started := False\<rparr>)"

section \<open>A command runs its test\<close>

lemma console_end_buffer: "console_end buf cs = Some (b, rest) \<Longrightarrow> console buf cs = b"
  by (induction buf cs rule: console_end.induct) (auto split: if_splits)

lemma console_end_digits:
  assumes "\<forall>c \<in> set ds. \<exists>k < 10. c = char_of (48 + k :: nat)" "length buf + length ds \<le> 31"
  shows "console_end buf (ds @ cs) = console_end (buf @ ds) cs"
  using assms
proof (induction ds arbitrary: buf)
  case (Cons c ds)
  then have "is_digit c" "\<not> is_newline c" "\<not> is_erase c" using digit_char digit_kind by auto
  then show ?case using Cons by simp
qed simp

lemma duration_read:
  assumes "u = [] \<or> u = ''h'' \<or> u = ''d''" "n * unit_factor u < 2 ^ 31"
  obtains buf where "console_end [] (decimal n @ u @ [CHR 0x0D] @ cs) = Some (buf, cs)"
    "duration_of buf = Inr (int (n * unit_factor u))"
proof -
  have f: "0 < unit_factor u" by (simp add: unit_factor_def)
  then have "n < 2 ^ 31"
    using assms(2) by (metis le_less_trans mult.commute mult_le_mono1 nat_mult_1 Suc_leI One_nat_def)
  then have len: "length (decimal n) \<le> 10" by (intro decimal_length) simp_all
  have "console_end [] (decimal n @ u @ [CHR 0x0D] @ cs) = console_end (decimal n) (u @ [CHR 0x0D] @ cs)"
    using console_end_digits [of "decimal n" "[]"] decimal_digits len by simp
  also have "\<dots> = Some (decimal n @ u, cs)"
    using assms(1) len decimal_nonempty [of n]
    by (auto simp: is_newline_def is_erase_def is_digit_def is_unit_def ascii_def)
  finally have c: "console_end [] (decimal n @ u @ [CHR 0x0D] @ cs) = Some (decimal n @ u, cs)" .
  have "get_test_duration_from_console (decimal n @ u @ [CHR 0x0D] @ cs) = Inr (int (n * unit_factor u))"
    by (rule duration_roundtrip [OF assms])
  then have "duration_of (decimal n @ u) = Inr (int (n * unit_factor u))"
    using console_end_buffer [OF c] by (simp add: get_test_duration_from_console_def)
  then show thesis using that c by blast
qed

text \<open>A test started from the initial state, whatever its tasks do, is destroyed with them.\<close>

lemma test_runs:
  assumes "fresh_main m" "1 \<le> i" "i \<le> 6"
    and "run_tasks ops lops irq rounds False (snd (rt_latency_init (set_load i (rt_ctx m)))) = Inr b1"
    and "rt_latency_destroy ops lops b1 = Inr b2"
  obtains m' where "run_test_case ops lops irq to_ticks (replicate 4 True) rounds i d m
      = Inr (if d = TEST_DURATION_FOREVER then portMAX_DELAY else to_ticks (ucast d * 1000), m')"
    "fresh_main m'" "live m' = live m" "rt_ctx m' = b2"
proof -
  have f: "\<not> started m" "tasks_count m = 0" "length (tc_taskHandles m) = 8" "\<forall>t \<in> set (live m). t < next_task m"
    using assms(1) by (simp_all add: fresh_main_def)
  define b where "b = snd (rt_latency_init (set_load i (rt_ctx m)))"
  define n where "n = tasks_of b"
  have n: "n \<le> 4" by (simp add: n_def tasks_of_def)
  have t: "take n (replicate 4 True) = replicate n True" using n by (simp add: min_def)
  obtain hs where hs: "tc_create_tasks (replicate n True) (m\<lparr>rt_ctx := b\<rparr>) =
      Inr (True, m\<lparr>rt_ctx := b, tasks_count := n, tc_taskHandles := hs, next_task := next_task m + n,
        live := live m @ [next_task m..<next_task m + n]\<rparr>)"
      "length hs = 8" "\<forall>i < n. hs ! i = Some (next_task m + i)"
    using create_all [of "m\<lparr>rt_ctx := b\<rparr>" n] f n by auto
  define m1 where "m1 = m\<lparr>rt_ctx := b1, tasks_count := n, tc_taskHandles := hs, next_task := next_task m + n,
    live := live m @ [next_task m..<next_task m + n], started := True\<rparr>"
  have s: "start_test_case ops lops (replicate 4 True) i m = Inr (0, m1\<lparr>rt_ctx := b\<rparr>)"
    using start_ready [OF f(1) assms(2,3), of ops lops "replicate 4 True"] t hs(1)
    by (simp add: b_def [symmetric] n_def [symmetric] m1_def)
  have "n \<le> length (tc_taskHandles m1)" "\<forall>i < n. tc_taskHandles m1 ! i = Some (next_task m + i)"
    using hs n by (simp_all add: m1_def)
  from delete_all [OF this] obtain hs' where hs': "delete_tasks n m1 = Inr (m1\<lparr>tc_taskHandles := hs',
      live := filter (\<lambda>t. t \<notin> {next_task m..<next_task m + n}) (live m1)\<rparr>)" "length hs' = 8"
    using hs(2) by (auto simp: m1_def)
  have "filter (\<lambda>t. t \<notin> {next_task m..<next_task m + n}) (live m) = live m"
    using f(4) by (intro filter_True) auto
  moreover have "filter (\<lambda>t. t \<notin> {next_task m..<next_task m + n}) [next_task m..<next_task m + n] = []"
    by (simp add: filter_empty_conv)
  ultimately have l: "filter (\<lambda>t. t \<notin> {next_task m..<next_task m + n}) (live m1) = live m" by (simp add: m1_def)
  define m' where "m' = m1\<lparr>tc_taskHandles := hs', live := live m, tasks_count := 0, rt_ctx := b2, started := False\<rparr>"
  have "destroy_test_case ops lops m1 = Inr m'"
    using hs'(1) assms(5) unfolding l by (simp add: destroy_test_case_def m1_def m'_def)
  moreover have "m1\<lparr>rt_ctx := b, rt_ctx := b1\<rparr> = m1" by (simp add: m1_def)
  ultimately have "run_test_case ops lops irq to_ticks (replicate 4 True) rounds i d m
      = Inr (if d = TEST_DURATION_FOREVER then portMAX_DELAY else to_ticks (ucast d * 1000), m')"
    using s assms(4) by (simp add: run_test_case_def b_def [symmetric])
  moreover have "\<forall>t \<in> set (live m). t < next_task m + n" using f(4) by auto
  then have "fresh_main m'" "live m' = live m" "rt_ctx m' = b2"
    using hs'(2) by (simp_all add: m'_def m1_def fresh_main_def)
  ultimately show thesis using that by blast
qed

lemma menu_choice_skips: "\<forall>c \<in> set junk. \<not> is_quit c \<and> \<not> is_test c \<Longrightarrow> menu_choice (junk @ cs) = menu_choice cs"
  by (induction junk) auto

lemma choice_char:
  assumes "1 \<le> i" "i \<le> (6 :: nat)"
  shows "is_test (char_of (48 + i))" "\<not> is_quit (char_of (48 + i))"
    "a = [] \<or> \<not> is_digit (hd a) \<Longrightarrow> atoi (char_of (48 + i) # a) = Inr (int i)"
proof -
  have i: "i = 1 \<or> i = 2 \<or> i = 3 \<or> i = 4 \<or> i = 5 \<or> i = 6" using assms by auto
  then show "is_test (char_of (48 + i))" "\<not> is_quit (char_of (48 + i))"
    by (auto simp: is_quit_def is_test_def ascii_def)
  assume "a = [] \<or> \<not> is_digit (hd a)"
  then have "takeWhile is_digit (char_of (48 + i) # a) = [char_of (48 + i)]"
    using assms(2) digit_char(1) [of i] by (cases a) auto
  then show "atoi (char_of (48 + i) # a) = Inr (int i)"
    using assms(2) digit_char(2) [of i] by (simp add: atoi_def in_i32_def)
qed

text \<open>
  A command: any characters that choose nothing, the digit of a test, a number with its unit and a
  carriage return. The memory after the digit must not begin with a digit.
\<close>

lemma menu_runs_what_is_typed:
  assumes "fresh_main m" "1 \<le> i" "i \<le> 6" "u = [] \<or> u = ''h'' \<or> u = ''d''" "n * unit_factor u < 2 ^ 31"
    and "\<forall>c \<in> set junk. \<not> is_quit c \<and> \<not> is_test c"
    and "after_input env = [] \<or> \<not> is_digit (hd (after_input env))" "task_oks env = replicate 4 True"
    and "run_tasks ops lops irq (test_rounds env) False (snd (rt_latency_init (set_load (int i) (rt_ctx m)))) = Inr b1"
    and "rt_latency_destroy ops lops b1 = Inr b2"
  shows "\<exists>m'. command_handler ops lops irq to_ticks env (junk @ char_of (48 + i) # decimal n @ u @ [CHR 0x0D] @ cs) m
      = Inr (Some 0, [(int i, of_nat (n * unit_factor u),
          if n = 0 then portMAX_DELAY else to_ticks (of_nat (n * unit_factor u) * 1000))], cs, m')
    \<and> fresh_main m' \<and> live m' = live m \<and> rt_ctx m' = b2"
proof -
  define k where "k = n * unit_factor u"
  have k: "k < 2 ^ 32" "k = 0 \<longleftrightarrow> n = 0" using assms(5) by (simp_all add: k_def unit_factor_def)
  obtain buf where d: "console_end [] (decimal n @ u @ [CHR 0x0D] @ cs) = Some (buf, cs)" "duration_of buf = Inr (int k)"
    using duration_read [OF assms(4,5)] unfolding k_def by blast
  have i: "1 \<le> int i" "int i \<le> 6" using assms(2,3) by simp_all
  obtain m' where r: "run_test_case ops lops irq to_ticks (replicate 4 True) (test_rounds env) (int i) (of_nat k) m
      = Inr (if (of_nat k :: u32) = TEST_DURATION_FOREVER then portMAX_DELAY else to_ticks (ucast (of_nat k :: u32) * 1000), m')"
    "fresh_main m'" "live m' = live m" "rt_ctx m' = b2"
    by (rule test_runs [OF assms(1) i assms(9,10)])
  have w: "unat (of_nat k :: u32) = k" using k(1) by (intro unat_of_nat_below) simp
  have z: "(of_nat k :: u32) = 0 \<longleftrightarrow> n = 0"
    using unat_eq_zero [of "of_nat k :: u32"] k(2) unfolding w by simp
  have c: "ucast (of_nat k :: u32) = (of_nat k :: u64)"
    using w by (metis of_nat_unat)
  have dur: "(if int k \<le> 0 then TEST_DURATION_FOREVER else word_of_int (int k)) = of_nat k"
    by (simp add: TEST_DURATION_FOREVER_def)
  have "menu_choice (junk @ char_of (48 + i) # decimal n @ u @ [CHR 0x0D] @ cs)
      = Some (char_of (48 + i), decimal n @ u @ [CHR 0x0D] @ cs)"
    using menu_choice_skips [OF assms(6)] choice_char(1) [OF assms(2,3)] by simp
  then show ?thesis
    unfolding k_def [symmetric]
    using d r choice_char(2,3) [OF assms(2,3)] assms(3,7,8) dur z c
    by (simp add: command_handler_def RT_LATENCY_TEST_CASE_MAX_def TEST_DURATION_FOREVER_def Let_def)
qed

text \<open>A session is a list of commands, with what surrounds each.\<close>

record command =
  c_env :: menu_env
  c_junk :: "char list"
  c_test :: nat
  c_number :: nat
  c_unit :: "char list"

definition typed :: "command \<Rightarrow> char list" where
  "typed c = c_junk c @ char_of (48 + c_test c) # decimal (c_number c) @ c_unit c @ [CHR 0x0D]"

definition seconds :: "command \<Rightarrow> nat" where "seconds c = c_number c * unit_factor (c_unit c)"

definition well_typed :: "command \<Rightarrow> bool" where
  "well_typed c \<longleftrightarrow> 1 \<le> c_test c \<and> c_test c \<le> 6 \<and> (c_unit c = [] \<or> c_unit c = ''h'' \<or> c_unit c = ''d'') \<and> seconds c < 2 ^ 31
     \<and> (\<forall>x \<in> set (c_junk c). \<not> is_quit x \<and> \<not> is_test x)
     \<and> (after_input (c_env c) = [] \<or> \<not> is_digit (hd (after_input (c_env c)))) \<and> task_oks (c_env c) = replicate 4 True"

text \<open>The rounds of the tasks and the removal of the timers do not fault, from a state of the benchmark on.\<close>

fun rounds_ok ::
    "os_counter_ops \<Rightarrow> os_counter_ops \<Rightarrow> (alarm_run \<Rightarrow> os_counter \<Rightarrow> os_counter outcome) \<Rightarrow> command list \<Rightarrow> bench \<Rightarrow> bool" where
  "rounds_ok ops lops irq [] b \<longleftrightarrow> True"
| "rounds_ok ops lops irq (c # cs) b \<longleftrightarrow>
     (case run_tasks ops lops irq (test_rounds (c_env c)) False (snd (rt_latency_init (set_load (int (c_test c)) b))) of
        Inl _ \<Rightarrow> False
      | Inr b1 \<Rightarrow> (case rt_latency_destroy ops lops b1 of Inl _ \<Rightarrow> False | Inr b2 \<Rightarrow> rounds_ok ops lops irq cs b2))"

definition ran :: "(u64 \<Rightarrow> u32) \<Rightarrow> command \<Rightarrow> int \<times> u32 \<times> u32" where
  "ran to_ticks c = (int (c_test c), of_nat (seconds c), if c_number c = 0 then portMAX_DELAY else to_ticks (of_nat (seconds c) * 1000))"

text \<open>
  C24: The menu runs what is typed, when nothing goes wrong underneath: for every list of
  commands, each the digit of a test from 1 to 6 and a number with its unit (none, h or d) of
  less than 2^31 seconds and a carriage return, after any characters that choose nothing,
  followed by a q, the main task runs these tests in order, each for the time typed, for ever if
  it is zero, and ends; then no task of a test is left and every other task is. The conditions
  underneath: the byte in memory behind the copied input is no digit (else the time is refused,
  \<open>digit_after_input_refused\<close>), every task of a test can be created
  (\<open>well_typed\<close>), and the rounds the tasks of a test make, and its removal, run
  without a fault (\<open>rounds_ok\<close>, which leaves out the semaphore load of test 4,
  whose task waits for ever, \<open>semaphore_load_deadlocks\<close>).
\<close>

theorem menu_runs_session:
  assumes "fresh_main m" "\<forall>c \<in> set cmds. well_typed c" "rounds_ok ops lops irq cmds (rt_ctx m)"
  shows "\<exists>m'. main_task ops lops irq to_ticks (map c_env cmds @ [e]) (concat (map typed cmds) @ CHR ''q'' # cs) m
      = Inr (True, map (ran to_ticks) cmds, m') \<and> fresh_main m' \<and> live m' = live m"
proof -
  have "\<exists>m'. main_loop ops lops irq to_ticks (map c_env cmds @ [e]) (concat (map typed cmds) @ CHR ''q'' # cs) m
      = Inr (True, map (ran to_ticks) cmds, m') \<and> fresh_main m' \<and> live m' = live m"
    using assms
  proof (induction cmds arbitrary: m)
    case Nil
    then show ?case by (simp add: fresh_main_def command_handler_def is_quit_def ascii_def)
  next
    case (Cons c cmds)
    have w: "1 \<le> c_test c" "c_test c \<le> 6" "c_unit c = [] \<or> c_unit c = ''h'' \<or> c_unit c = ''d''" "c_number c * unit_factor (c_unit c) < 2 ^ 31"
      "\<forall>x \<in> set (c_junk c). \<not> is_quit x \<and> \<not> is_test x" "after_input (c_env c) = [] \<or> \<not> is_digit (hd (after_input (c_env c)))"
      "task_oks (c_env c) = replicate 4 True"
      using Cons.prems(2) by (simp_all add: well_typed_def seconds_def)
    obtain b1 b2 where b: "run_tasks ops lops irq (test_rounds (c_env c)) False (snd (rt_latency_init (set_load (int (c_test c)) (rt_ctx m)))) = Inr b1"
      "rt_latency_destroy ops lops b1 = Inr b2" "rounds_ok ops lops irq cmds b2"
      using Cons.prems(3) by (auto split: sum.splits)
    let ?cs = "concat (map typed cmds) @ CHR ''q'' # cs"
    from menu_runs_what_is_typed [OF Cons.prems(1) w b(1,2), of to_ticks ?cs] obtain m1 where
      h: "command_handler ops lops irq to_ticks (c_env c) (typed c @ ?cs) m = Inr (Some 0, [ran to_ticks c], ?cs, m1)"
      "fresh_main m1" "live m1 = live m" "rt_ctx m1 = b2"
      unfolding typed_def ran_def seconds_def by auto
    obtain m2 where "main_loop ops lops irq to_ticks (map c_env cmds @ [e]) ?cs m1 = Inr (True, map (ran to_ticks) cmds, m2)"
      "fresh_main m2" "live m2 = live m1"
      using Cons.IH [OF h(2)] Cons.prems(2) b(3) h(4) by auto
    then show ?case using h Cons.prems(1) by (simp add: fresh_main_def)
  qed
  moreover have "m\<lparr>started := False\<rparr> = m" using assms(1) by (simp add: fresh_main_def)
  ultimately show ?thesis by (simp add: main_task_def)
qed

lemma menu_runs_session_witness:
  "\<exists>m'. main_task gpt_counter_ops gpt_counter_ops gpt_irq_handler (\<lambda>ms. ucast (ms div 5))
      [\<lparr>after_input = [CHR 0x00], task_oks = replicate 4 True, test_rounds = [Log]\<rparr>, \<lparr>after_input = [], task_oks = [], test_rounds = []\<rparr>]
      ((''x7'' @ char_of (50 :: nat) # decimal 1 @ ''h'' @ [CHR 0x0D]) @ ''q'') ex_main = Inr (True, [(2, 3600, 720000)], m')
    \<and> live m' = [0, 4]"
proof -
  let ?env = "\<lparr>after_input = [CHR 0x00], task_oks = replicate 4 True, test_rounds = [Log]\<rparr>"
  let ?c = "\<lparr>c_env = ?env, c_junk = ''x7'', c_test = 2, c_number = 1, c_unit = ''h''\<rparr>"
  define b where "b = snd (rt_latency_init (set_load 2 (ex_bench 0)))"
  have s: "startable (set_load 2 (ex_bench 0))"
    using ex_startable
    by (simp add: startable_def set_load_def hists_def has_load_def rt_latency_get_tc_load_def load_masks)
  then obtain b2 where b2: "rt_latency_destroy gpt_counter_ops gpt_counter_ops b = Inr b2"
    using destroy_unused [of "set_load 2 (ex_bench 0)" "fst (rt_latency_init (set_load 2 (ex_bench 0)))" b]
    by (auto simp: b_def)
  have "\<not> pending (stats_snapshot (ctx b))"
    using init_tracks [OF s, of _ b] by (auto simp: b_def tracks_def new_sampler_def Let_def prod_eq_iff)
  then have r: "rounds_ok gpt_counter_ops gpt_counter_ops gpt_irq_handler [?c] (rt_ctx ex_main)"
    using b2 by (simp add: b_def [symmetric] log_task_def print_stats_def ex_main_def Let_def)
  have w: "\<forall>c \<in> set [?c]. well_typed c"
    by (simp add: well_typed_def seconds_def unit_factor_def is_quit_def is_test_def is_digit_def ascii_def)
  show ?thesis
    using menu_runs_session [OF ex_main_fresh w r, of "\<lambda>ms. ucast (ms div 5)"
      "\<lparr>after_input = [], task_oks = [], test_rounds = []\<rparr>" "[]"]
    by (auto simp: typed_def ran_def seconds_def unit_factor_def ex_main_def)
qed

section \<open>What goes wrong\<close>

text \<open>
  \<open>atoi\<close> is given the address of one character: a digit in the memory after it makes another number of the choice.
\<close>

lemma digit_after_input_refused:
  assumes "1 \<le> i" "i \<le> (6 :: nat)" "k < (10 :: nat)" "after_input env = char_of (48 + k) # a" "a = [] \<or> \<not> is_digit (hd a)"
  shows "command_handler ops lops irq to_ticks env (char_of (48 + i) # cs) m = Inr (Some (- 2), [], cs, m)"
proof -
  have "takeWhile is_digit (char_of (48 + i) # after_input env) = [char_of (48 + i), char_of (48 + k)]"
    using assms digit_char(1) [of i] digit_char(1) [of k] by (cases a) auto
  then have v: "atoi (char_of (48 + i) # after_input env) = Inr (10 * int i + int k)"
    using assms(2,3) digit_char(2) [of i] digit_char(2) [of k] by (simp add: atoi_def in_i32_def)
  have "8 \<le> 10 * int i + int k" using assms(1) by simp
  then show ?thesis
    using choice_char(1,2) [OF assms(1,2)] v by (simp add: command_handler_def RT_LATENCY_TEST_CASE_MAX_def)
qed

text \<open>
  A test whose tasks cannot be created is taken for one that runs: the menu waits for its whole
  duration, and the tasks that were created stay.
\<close>

lemma failed_test_is_waited_for:
  assumes "fresh_main m" "1 \<le> i" "i \<le> 6" "d \<noteq> 0"
    and "\<And>b. run_tasks ops lops irq rounds False b = Inr b"
  shows "\<exists>m'. run_test_case ops lops irq to_ticks [True, False] rounds i d m = Inr (to_ticks (ucast d * 1000), m')
    \<and> live m' = live m @ [next_task m] \<and> tasks_count m' = 2"
proof -
  obtain b where "start_test_case ops lops [True, False] i m =
    Inr (- 1, m\<lparr>rt_ctx := b, tasks_count := 2, tc_taskHandles := (tc_taskHandles m)[0 := Some (next_task m)],
      next_task := next_task m + 1, live := live m @ [next_task m]\<rparr>)"
    using failed_start_leaks_tasks [OF assms(1-3)] by blast
  then show ?thesis
    using assms(1,4,5) by (simp add: run_test_case_def TEST_DURATION_FOREVER_def destroy_test_case_def fresh_main_def)
qed

text \<open>
  The count of tasks is not reset by a failed start: after four of them the fifth writes its handle behind the
  array of eight.
\<close>

lemma failed_start_counts:
  assumes "\<not> started m" "length (tc_taskHandles m) = 8" "tasks_count m \<le> 6" "1 \<le> i" "i \<le> 6"
  shows "\<exists>m'. start_test_case ops lops [True, False] i m = Inr (- 1, m')
    \<and> \<not> started m' \<and> length (tc_taskHandles m') = 8 \<and> tasks_count m' = tasks_count m + 2"
proof -
  obtain b where b: "start_test_case ops lops [True, False] i m =
      and_then (tc_create_tasks (take (tasks_of b) [True, False]) (m\<lparr>rt_ctx := b\<rparr>)) (\<lambda>(all, m3).
         if all then Inr (0, m3\<lparr>started := True\<rparr>)
         else and_then (destroy_test_case ops lops m3) (\<lambda>m4. Inr (- 1, m4)))"
    using start_ready [OF assms(1,4,5)] by blast
  have "2 \<le> tasks_of b" by (simp add: tasks_of_def)
  then have "take (tasks_of b) [True, False] = [True, False]" by simp
  then show ?thesis
    using assms(1-3) by (simp add: b tc_create_task_def destroy_test_case_def Let_def)
qed

fun failing_starts ::
    "nat \<Rightarrow> os_counter_ops \<Rightarrow> os_counter_ops \<Rightarrow> int \<Rightarrow> main_ctx \<Rightarrow> main_ctx outcome" where
  "failing_starts 0 ops lops i m = Inr m"
| "failing_starts (Suc n) ops lops i m =
     and_then (start_test_case ops lops [True, False] i m) (\<lambda>(_, m1). failing_starts n ops lops i m1)"

lemma failing_starts_count:
  "\<not> started m \<Longrightarrow> length (tc_taskHandles m) = 8 \<Longrightarrow> tasks_count m + 2 * n \<le> 8 \<Longrightarrow> 1 \<le> i \<Longrightarrow> i \<le> 6 \<Longrightarrow>
   \<exists>m'. failing_starts n ops lops i m = Inr m' \<and> \<not> started m' \<and> length (tc_taskHandles m') = 8
     \<and> tasks_count m' = tasks_count m + 2 * n"
proof (induction n arbitrary: m)
  case (Suc n)
  have "tasks_count m \<le> 6" using Suc.prems(3) by simp
  then obtain m1 where "start_test_case ops lops [True, False] i m = Inr (- 1, m1)" "\<not> started m1"
      "length (tc_taskHandles m1) = 8" "tasks_count m1 = tasks_count m + 2"
    using failed_start_counts [OF Suc.prems(1,2) _ Suc.prems(4,5)] by blast
  then show ?case using Suc.IH [of m1] Suc.prems(3-5) by simp
qed simp

lemma fifth_failed_start_overruns:
  assumes "fresh_main m" "1 \<le> i" "i \<le> 6"
  shows "failing_starts 5 ops lops i m = Inl Out_Of_Bounds"
proof -
  have f: "\<not> started m" "tasks_count m = 0" "length (tc_taskHandles m) = 8" using assms(1) by (simp_all add: fresh_main_def)
  have l: "failing_starts (n + k) ops lops i m0 = and_then (failing_starts n ops lops i m0) (failing_starts k ops lops i)" for n k m0
    by (induction n arbitrary: m0) (simp_all add: and_then_assoc case_prod_unfold)
  obtain m4 where m4: "failing_starts 4 ops lops i m = Inr m4" "\<not> started m4" "length (tc_taskHandles m4) = 8" "tasks_count m4 = 8"
    using failing_starts_count [OF f(1,3), of 4 i ops lops] f(2) assms(2,3) by auto
  obtain b where b: "start_test_case ops lops [True, False] i m4 =
      and_then (tc_create_tasks (take (tasks_of b) [True, False]) (m4\<lparr>rt_ctx := b\<rparr>)) (\<lambda>(all, m3).
         if all then Inr (0, m3\<lparr>started := True\<rparr>)
         else and_then (destroy_test_case ops lops m3) (\<lambda>m4. Inr (- 1, m4)))"
    using start_ready [OF m4(2) assms(2,3)] by blast
  have "2 \<le> tasks_of b" by (simp add: tasks_of_def)
  then have "take (tasks_of b) [True, False] = [True, False]" by simp
  then have "start_test_case ops lops [True, False] i m4 = Inl Out_Of_Bounds"
    using m4(3,4) by (simp add: b tc_create_task_def Let_def)
  then show ?thesis using l [of 4 1 m] m4(1) by simp
qed

end
