(* ===== verification/Rpmsg.thy ===== *)
theory Rpmsg
  imports Prelude
begin


text \<open>
  The RPMsg wrapper, \<open>src/libs/rpmsg/rpmsg.c\<close>: endpoints over the RPMsg-Lite library, the name
  service task of the master, and the set-up and removal of an instance.

  RPMsg-Lite is not part of the repository. Its functions are a record of parameters over a state
  of its own; \<open>rl_ok\<close> states, over the queues and endpoints that exist in that state, what their
  documentation promises. Endpoint objects of the wrapper are numbered as they are allocated; a freed
  object is no longer in the heap \<open>epts\<close>.
\<close>

subsection \<open>The library and the wrapper's state\<close>

type_synonym rl_queue = nat
type_synonym rl_endpoint = nat

definition RL_SUCCESS :: int where "RL_SUCCESS = 0"
definition RL_ADDR_ANY :: u32 where "RL_ADDR_ANY = 0xFFFFFFFF"
definition RL_NS_CREATE :: u32 where "RL_NS_CREATE = 0"
definition RL_NS_DESTROY :: u32 where "RL_NS_DESTROY = 1"

record 'w rl_ops =
  rpmsg_queue_create :: "'w \<Rightarrow> rl_queue option \<times> 'w"
  rpmsg_queue_destroy :: "rl_queue \<Rightarrow> 'w \<Rightarrow> 'w"
  rpmsg_queue_recv :: "rl_queue \<Rightarrow> nat \<Rightarrow> 'w \<Rightarrow> (int \<times> u32 \<times> u8 list) \<times> 'w"
  rpmsg_lite_create_ept :: "u32 \<Rightarrow> rl_queue \<Rightarrow> 'w \<Rightarrow> rl_endpoint option \<times> 'w"
  rpmsg_lite_destroy_ept :: "rl_endpoint \<Rightarrow> 'w \<Rightarrow> int \<times> 'w"
  rpmsg_lite_get_endpoint :: "u32 \<Rightarrow> 'w \<Rightarrow> rl_endpoint option"
  rpmsg_lite_send :: "rl_endpoint \<Rightarrow> u32 \<Rightarrow> u8 list \<Rightarrow> 'w \<Rightarrow> int \<times> 'w"
  rpmsg_ns_announce :: "rl_endpoint \<Rightarrow> string \<Rightarrow> u32 \<Rightarrow> 'w \<Rightarrow> int \<times> 'w"

record rpmsg_ept =
  sn :: string
  ept_q :: rl_queue
  rl_ept :: rl_endpoint
  remote_addr :: u32

record 'w rpmsg_instance =
  rl :: 'w
  mode :: bool
  rpmsg_src :: u32
  epts :: "nat \<Rightarrow> rpmsg_ept option"
  next_ept :: nat
  rfu :: "rl_endpoint \<Rightarrow> nat option"
  ns_mq :: "(u32 \<times> u32 \<times> string) list"

text \<open>A queue of this many messages is opened for the name service.\<close>

definition NS_MQ_SIZE :: nat where "NS_MQ_SIZE = 100"

definition rl_ept_to_ept :: "rl_endpoint option \<Rightarrow> 'w rpmsg_instance \<Rightarrow> nat option" where
  "rl_ept_to_ept e ri = (case e of None \<Rightarrow> None | Some r \<Rightarrow> rfu ri r)"

definition rpmsg_get_ept_addr :: "'w rpmsg_instance \<Rightarrow> u32 \<times> 'w rpmsg_instance" where
  "rpmsg_get_ept_addr ri = (rpmsg_src ri, ri\<lparr>rpmsg_src := rpmsg_src ri + 1\<rparr>)"

definition deref :: "nat \<Rightarrow> 'w rpmsg_instance \<Rightarrow> rpmsg_ept outcome" where
  "deref p ri = (case epts ri p of None \<Rightarrow> Inl Use_After_Free | Some e \<Rightarrow> Inr e)"

subsection \<open>Endpoints\<close>

text \<open>\<open>malloc_ok\<close> is the result of the allocation.\<close>

definition rpmsg_create_ept ::
    "'w rl_ops \<Rightarrow> bool \<Rightarrow> u32 \<Rightarrow> string \<Rightarrow> 'w rpmsg_instance \<Rightarrow> nat option \<times> 'w rpmsg_instance" where
  "rpmsg_create_ept ops malloc_ok ept_addr name ri =
     (if \<not> malloc_ok then (None, ri)
      else
        (let p = next_ept ri; (q, w1) = rpmsg_queue_create ops (rl ri);
             ri1 = ri\<lparr>next_ept := p + 1, rl := w1\<rparr>
         in case q of
              None \<Rightarrow> (None, ri1)
            | Some qh \<Rightarrow>
                (let (e, w2) = rpmsg_lite_create_ept ops ept_addr qh w1
                 in case e of
                      None \<Rightarrow> (None, ri1\<lparr>rl := rpmsg_queue_destroy ops qh w2\<rparr>)
                    | Some eh \<Rightarrow>
                        (let ri2 = ri1\<lparr>rl := w2, rfu := (rfu ri1)(eh \<mapsto> p),
                                  epts := (epts ri1)(p \<mapsto> \<lparr>sn = name, ept_q = qh, rl_ept = eh,
                                                         remote_addr = RL_ADDR_ANY\<rparr>)\<rparr>
                         in if mode ri2 then (Some p, ri2)
                            else
                              (let (ret, w3) = rpmsg_ns_announce ops eh name RL_NS_CREATE w2
                               in if ret = RL_SUCCESS then (Some p, ri2\<lparr>rl := w3\<rparr>)
                                  else
                                    (None, ri2\<lparr>rl := rpmsg_queue_destroy ops qh
                                                      (snd (rpmsg_lite_destroy_ept ops eh w3)),
                                              rfu := (rfu ri2)(eh := None),
                                              epts := (epts ri2)(p := None)\<rparr>))))))"

text \<open>The back pointer \<open>rfu\<close> is a field of the library's endpoint and goes with it.\<close>

definition rpmsg_destroy_ept ::
    "'w rl_ops \<Rightarrow> nat \<Rightarrow> 'w rpmsg_instance \<Rightarrow> (int \<times> 'w rpmsg_instance) outcome" where
  "rpmsg_destroy_ept ops p ri =
     and_then (deref p ri) (\<lambda>e.
     (let (ret, w1) = (if mode ri then (RL_SUCCESS, rl ri)
                       else rpmsg_ns_announce ops (rl_ept e) (sn e) RL_NS_DESTROY (rl ri));
          ri1 = ri\<lparr>rl := w1\<rparr>
      in if ret \<noteq> RL_SUCCESS then Inr (ret, ri1)
         else
           (let (ret, w2) = rpmsg_lite_destroy_ept ops (rl_ept e) w1
            in if ret = RL_SUCCESS then
                 Inr (ret, ri1\<lparr>rl := rpmsg_queue_destroy ops (ept_q e) w2,
                              rfu := (rfu ri1)(rl_ept e := None), epts := (epts ri1)(p := None)\<rparr>)
               else Inr (ret, ri1\<lparr>rl := w2\<rparr>))))"

definition rpmsg_send ::
    "'w rl_ops \<Rightarrow> nat \<Rightarrow> u8 list \<Rightarrow> 'w rpmsg_instance \<Rightarrow> (int \<times> 'w rpmsg_instance) outcome" where
  "rpmsg_send ops p data ri =
     and_then (deref p ri) (\<lambda>e.
     (let (ret, w) = rpmsg_lite_send ops (rl_ept e) (remote_addr e) data (rl ri)
      in Inr (ret, ri\<lparr>rl := w\<rparr>)))"

text \<open>The result, the contents of the caller's buffer (of \<open>len\<close> bytes), and the new state.\<close>

definition rpmsg_recv ::
    "'w rl_ops \<Rightarrow> nat \<Rightarrow> nat \<Rightarrow> 'w rpmsg_instance \<Rightarrow> (int \<times> u8 list \<times> 'w rpmsg_instance) outcome" where
  "rpmsg_recv ops p len ri =
     and_then (deref p ri) (\<lambda>e.
     (let ((ret, src, data), w) = rpmsg_queue_recv ops (ept_q e) len (rl ri); ri1 = ri\<lparr>rl := w\<rparr>
      in if ret \<noteq> RL_SUCCESS then Inr (ret, data, ri1)
         else if remote_addr e = RL_ADDR_ANY then
           Inr (ret, data, ri1\<lparr>epts := (epts ri1)(p \<mapsto> e\<lparr>remote_addr := src\<rparr>)\<rparr>)
         else if remote_addr e \<noteq> src then Inr (- 1, data, ri1)
         else Inr (ret, data, ri1)))"

subsection \<open>The name service\<close>

fun scan_dst ::
    "'w rl_ops \<Rightarrow> u32 \<Rightarrow> u32 list \<Rightarrow> 'w rpmsg_instance \<Rightarrow> nat option outcome" where
  "scan_dst ops addr [] ri = Inr None"
| "scan_dst ops addr (i # is) ri =
     (case rl_ept_to_ept (rpmsg_lite_get_endpoint ops i (rl ri)) ri of
        None \<Rightarrow> scan_dst ops addr is ri
      | Some p \<Rightarrow>
          and_then (deref p ri) (\<lambda>e.
          if remote_addr e = addr then Inr (Some p) else scan_dst ops addr is ri))"

definition rpmsg_get_endpoint_by_dst ::
    "'w rl_ops \<Rightarrow> 'w rpmsg_instance \<Rightarrow> u32 \<Rightarrow> nat option outcome" where
  "rpmsg_get_endpoint_by_dst ops ri addr =
     scan_dst ops addr (map of_nat [1..<unat (rpmsg_src ri)]) ri"

definition rpmsg_nameservice_isr_cb ::
    "u32 \<Rightarrow> string \<Rightarrow> u32 \<Rightarrow> 'w rpmsg_instance \<Rightarrow> 'w rpmsg_instance" where
  "rpmsg_nameservice_isr_cb dst name flags ri =
     (if length (ns_mq ri) < NS_MQ_SIZE then ri\<lparr>ns_mq := ns_mq ri @ [(dst, flags, name)]\<rparr> else ri)"

definition ns_handle_msg ::
    "'w rl_ops \<Rightarrow> bool \<Rightarrow> u32 \<times> u32 \<times> string \<Rightarrow> 'w rpmsg_instance \<Rightarrow> 'w rpmsg_instance outcome" where
  "ns_handle_msg ops malloc_ok msg ri =
     (case msg of (dst, flags, name) \<Rightarrow>
        if flags = RL_NS_CREATE then
          (let (src, ri1) = rpmsg_get_ept_addr ri;
               (p, ri2) = rpmsg_create_ept ops malloc_ok src name ri1
           in case p of
                None \<Rightarrow> Inr ri2
              | Some e \<Rightarrow> and_then (deref e ri2) (\<lambda>ep.
                  Inr (ri2\<lparr>epts := (epts ri2)(e \<mapsto> ep\<lparr>remote_addr := dst\<rparr>)\<rparr>)))
        else if flags = RL_NS_DESTROY then
          and_then (rpmsg_get_endpoint_by_dst ops ri dst) (\<lambda>p.
          (case p of
             None \<Rightarrow> Inr ri
           | Some e \<Rightarrow>
               and_then (rpmsg_destroy_ept ops e ri) (\<lambda>(ret, ri1).
               if ret \<noteq> 0 then Inr ri1 else and_then (deref e ri1) (\<lambda>_. Inr ri1))))
        else Inr ri)"

text \<open>One round of the task: the next message, if any.\<close>

definition rpmsg_nameservice_task ::
    "'w rl_ops \<Rightarrow> bool \<Rightarrow> 'w rpmsg_instance \<Rightarrow> 'w rpmsg_instance outcome" where
  "rpmsg_nameservice_task ops malloc_ok ri =
     (case ns_mq ri of
        [] \<Rightarrow> Inr ri
      | m # ms \<Rightarrow> ns_handle_msg ops malloc_ok m (ri\<lparr>ns_mq := ms\<rparr>))"

subsection \<open>What the library promises\<close>

text \<open>
  \<open>view\<close> reads the queues and the endpoints with their addresses off a state of the library. A
  function that fails changes nothing; addresses of endpoints are unique; destroying an endpoint that
  exists succeeds.
\<close>

record rl_view =
  queues :: "rl_queue set"
  eps :: "rl_endpoint \<Rightarrow> u32 option"

definition create_laws :: "'w rl_ops \<Rightarrow> ('w \<Rightarrow> rl_view) \<Rightarrow> bool" where
  "create_laws ops view \<longleftrightarrow>
     (\<forall>w. case rpmsg_queue_create ops w of
        (None, w') \<Rightarrow> view w' = view w
      | (Some q, w') \<Rightarrow> q \<notin> queues (view w) \<and> view w' = (view w)\<lparr>queues := insert q (queues (view w))\<rparr>)
   \<and> (\<forall>w a q. case rpmsg_lite_create_ept ops a q w of
        (None, w') \<Rightarrow> view w' = view w
      | (Some e, w') \<Rightarrow> eps (view w) e = None \<and> a \<notin> ran (eps (view w))
          \<and> view w' = (view w)\<lparr>eps := (eps (view w))(e \<mapsto> a)\<rparr>)"

definition destroy_laws :: "'w rl_ops \<Rightarrow> ('w \<Rightarrow> rl_view) \<Rightarrow> bool" where
  "destroy_laws ops view \<longleftrightarrow>
     (\<forall>w q. view (rpmsg_queue_destroy ops q w) = (view w)\<lparr>queues := queues (view w) - {q}\<rparr>)
   \<and> (\<forall>w e. eps (view w) e \<noteq> None \<longrightarrow>
        (\<exists>w'. rpmsg_lite_destroy_ept ops e w = (RL_SUCCESS, w')
           \<and> view w' = (view w)\<lparr>eps := (eps (view w))(e := None)\<rparr>))"

definition other_laws :: "'w rl_ops \<Rightarrow> ('w \<Rightarrow> rl_view) \<Rightarrow> bool" where
  "other_laws ops view \<longleftrightarrow>
     (\<forall>w e s f. view (snd (rpmsg_ns_announce ops e s f w)) = view w)
   \<and> (\<forall>w e d x. view (snd (rpmsg_lite_send ops e d x w)) = view w)
   \<and> (\<forall>w q n. view (snd (rpmsg_queue_recv ops q n w)) = view w)
   \<and> (\<forall>w a e. rpmsg_lite_get_endpoint ops a w = Some e \<longleftrightarrow> eps (view w) e = Some a)"

definition rl_ok :: "'w rl_ops \<Rightarrow> ('w \<Rightarrow> rl_view) \<Rightarrow> bool" where
  "rl_ok ops view \<longleftrightarrow> create_laws ops view \<and> destroy_laws ops view \<and> other_laws ops view"

text \<open>Every endpoint object owns a queue and an endpoint of the library that points back at it.\<close>

definition owned :: "('w \<Rightarrow> rl_view) \<Rightarrow> 'w rpmsg_instance \<Rightarrow> bool" where
  "owned view ri \<longleftrightarrow>
     (\<forall>p e. epts ri p = Some e \<longrightarrow> p < next_ept ri \<and> ept_q e \<in> queues (view (rl ri))
        \<and> eps (view (rl ri)) (rl_ept e) \<noteq> None \<and> rfu ri (rl_ept e) = Some p)
   \<and> (\<forall>r p. rfu ri r = Some p \<longrightarrow> (\<exists>e. epts ri p = Some e \<and> rl_ept e = r))
   \<and> (\<forall>p p' e e'. epts ri p = Some e \<longrightarrow> epts ri p' = Some e' \<longrightarrow> ept_q e = ept_q e' \<longrightarrow> p = p')"

lemma ownedD:
  assumes "owned view ri" "epts ri p = Some e"
  shows "p < next_ept ri" "ept_q e \<in> queues (view (rl ri))" "eps (view (rl ri)) (rl_ept e) \<noteq> None"
    "rfu ri (rl_ept e) = Some p"
  using assms by (auto simp: owned_def)

lemma owned_cong:
  "owned view ri \<Longrightarrow> view (rl ri') = view (rl ri) \<Longrightarrow> epts ri' = epts ri \<Longrightarrow> rfu ri' = rfu ri \<Longrightarrow>
   next_ept ri \<le> next_ept ri' \<Longrightarrow> owned view ri'"
  by (fastforce simp: owned_def)

lemma queue_create_cases:
  assumes "rl_ok ops view"
  obtains w' where "rpmsg_queue_create ops w = (None, w')" "view w' = view w"
  | q w' where "rpmsg_queue_create ops w = (Some q, w')" "q \<notin> queues (view w)"
      "view w' = (view w)\<lparr>queues := insert q (queues (view w))\<rparr>"
proof -
  have "\<forall>w. case rpmsg_queue_create ops w of
        (None, w') \<Rightarrow> view w' = view w
      | (Some q, w') \<Rightarrow> q \<notin> queues (view w) \<and> view w' = (view w)\<lparr>queues := insert q (queues (view w))\<rparr>"
    using assms unfolding rl_ok_def create_laws_def by (elim conjE)
  from spec [OF this, of w] show thesis using that by (auto split: prod.splits option.splits)
qed

lemma ept_create_cases:
  assumes "rl_ok ops view"
  obtains w' where "rpmsg_lite_create_ept ops a q w = (None, w')" "view w' = view w"
  | e w' where "rpmsg_lite_create_ept ops a q w = (Some e, w')" "eps (view w) e = None"
      "a \<notin> ran (eps (view w))" "view w' = (view w)\<lparr>eps := (eps (view w))(e \<mapsto> a)\<rparr>"
proof -
  have "\<forall>w a q. case rpmsg_lite_create_ept ops a q w of
        (None, w') \<Rightarrow> view w' = view w
      | (Some e, w') \<Rightarrow> eps (view w) e = None \<and> a \<notin> ran (eps (view w))
          \<and> view w' = (view w)\<lparr>eps := (eps (view w))(e \<mapsto> a)\<rparr>"
    using assms unfolding rl_ok_def create_laws_def by (elim conjE)
  from spec [OF spec [OF spec [OF this, of w], of a], of q] show thesis
    using that by (auto split: prod.splits option.splits)
qed

lemma destroy_succeeds:
  assumes "rl_ok ops view" "eps (view w) e \<noteq> None"
  shows "\<exists>w'. rpmsg_lite_destroy_ept ops e w = (RL_SUCCESS, w')
           \<and> view w' = (view w)\<lparr>eps := (eps (view w))(e := None)\<rparr>"
  using assms unfolding rl_ok_def destroy_laws_def by blast

lemma queue_destroy_view:
  "rl_ok ops view \<Longrightarrow> view (rpmsg_queue_destroy ops q w) = (view w)\<lparr>queues := queues (view w) - {q}\<rparr>"
  unfolding rl_ok_def destroy_laws_def by blast

lemma other_views:
  assumes "rl_ok ops view"
  shows "view (snd (rpmsg_ns_announce ops e s f w)) = view w"
    "view (snd (rpmsg_lite_send ops e d x w)) = view w"
    "view (snd (rpmsg_queue_recv ops q n w)) = view w"
    "rpmsg_lite_get_endpoint ops a w = Some e \<longleftrightarrow> eps (view w) e = Some a"
  using assms unfolding rl_ok_def other_laws_def by blast+

text \<open>
  What a creation leaves: all of it, or nothing that the library or the heap shows.
\<close>

definition created :: "('w \<Rightarrow> rl_view) \<Rightarrow> u32 \<Rightarrow> string \<Rightarrow> 'w rpmsg_instance \<Rightarrow> nat \<Rightarrow> 'w rpmsg_instance \<Rightarrow> bool" where
  "created view a name ri p ri' \<longleftrightarrow> p = next_ept ri \<and> next_ept ri' = p + 1
     \<and> rpmsg_src ri' = rpmsg_src ri \<and> mode ri' = mode ri \<and> ns_mq ri' = ns_mq ri
     \<and> (\<exists>q e. q \<notin> queues (view (rl ri)) \<and> eps (view (rl ri)) e = None
          \<and> a \<notin> ran (eps (view (rl ri)))
          \<and> view (rl ri') = \<lparr>queues = insert q (queues (view (rl ri))), eps = (eps (view (rl ri)))(e \<mapsto> a)\<rparr>
          \<and> epts ri' = (epts ri)(p \<mapsto> \<lparr>sn = name, ept_q = q, rl_ept = e, remote_addr = RL_ADDR_ANY\<rparr>)
          \<and> rfu ri' = (rfu ri)(e \<mapsto> p))"

definition not_created :: "('w \<Rightarrow> rl_view) \<Rightarrow> 'w rpmsg_instance \<Rightarrow> 'w rpmsg_instance \<Rightarrow> bool" where
  "not_created view ri ri' \<longleftrightarrow> view (rl ri') = view (rl ri) \<and> epts ri' = epts ri \<and> rfu ri' = rfu ri
     \<and> next_ept ri \<le> next_ept ri' \<and> rpmsg_src ri' = rpmsg_src ri \<and> mode ri' = mode ri \<and> ns_mq ri' = ns_mq ri"

lemma create_spec:
  assumes ok: "rl_ok ops view" and inv: "owned view ri"
    and c: "rpmsg_create_ept ops m a name ri = (res, ri')"
  shows "case res of None \<Rightarrow> not_created view ri ri' | Some p \<Rightarrow> created view a name ri p ri'"
proof (cases m)
  case False
  then show ?thesis using c by (auto simp: rpmsg_create_ept_def not_created_def)
next
  case m: True
  have fresh: "epts ri (next_ept ri) = None" using ownedD(1) [OF inv] by fastforce
  have norfu: "rfu ri e = None" if "eps (view (rl ri)) e = None" for e
  proof (rule ccontr)
    assume "rfu ri e \<noteq> None"
    then obtain p where "rfu ri e = Some p" by blast
    then obtain x where "epts ri p = Some x" "rl_ept x = e" using inv unfolding owned_def by blast
    then show False using ownedD(3) [OF inv, of p x] that by simp
  qed
  show ?thesis
  proof (rule queue_create_cases [OF ok, of "rl ri"])
    fix w1 assume "rpmsg_queue_create ops (rl ri) = (None, w1)" "view w1 = view (rl ri)"
    then show ?thesis using c m by (auto simp: rpmsg_create_ept_def Let_def not_created_def)
  next
    fix q w1
    assume q: "rpmsg_queue_create ops (rl ri) = (Some q, w1)" "q \<notin> queues (view (rl ri))"
      "view w1 = (view (rl ri))\<lparr>queues := insert q (queues (view (rl ri)))\<rparr>"
    show ?thesis
    proof (rule ept_create_cases [OF ok, of a q w1])
      fix w2 assume "rpmsg_lite_create_ept ops a q w1 = (None, w2)" "view w2 = view w1"
      then show ?thesis
        using c m q
        by (auto simp: rpmsg_create_ept_def Let_def not_created_def queue_destroy_view [OF ok])
    next
      fix e w2
      assume e: "rpmsg_lite_create_ept ops a q w1 = (Some e, w2)" "eps (view w1) e = None"
        "a \<notin> ran (eps (view w1))" "view w2 = (view w1)\<lparr>eps := (eps (view w1))(e \<mapsto> a)\<rparr>"
      obtain ret w3 where an: "rpmsg_ns_announce ops e name RL_NS_CREATE w2 = (ret, w3)"
        by (metis surj_pair)
      have w3: "view w3 = view w2" using other_views(1) [OF ok, of e name RL_NS_CREATE w2] an by simp
      obtain w4 where w4: "rpmsg_lite_destroy_ept ops e w3 = (RL_SUCCESS, w4)"
          "view w4 = (view w3)\<lparr>eps := (eps (view w3))(e := None)\<rparr>"
        using destroy_succeeds [OF ok, of w3 e] w3 e(4) by auto
      have ptr: "(view w4)\<lparr>queues := queues (view w4) - {q}\<rparr> = view (rl ri)"
        using w4(2) w3 e(2,4) q(2,3) by (intro rl_view.equality) (auto simp: fun_upd_idem)
      have v: "view w2 = \<lparr>queues = insert q (queues (view (rl ri))), eps = (eps (view (rl ri)))(e \<mapsto> a)\<rparr>"
        using e(4) q(3) by (intro rl_view.equality) simp_all
      have free: "eps (view (rl ri)) e = None" "a \<notin> ran (eps (view (rl ri)))" using e(2,3) q(3) by simp_all
      show ?thesis
      proof (cases "mode ri \<or> ret = RL_SUCCESS")
        case True
        then have "res = Some (next_ept ri)" "next_ept ri' = next_ept ri + 1" "view (rl ri') = view w2"
          "rpmsg_src ri' = rpmsg_src ri" "mode ri' = mode ri" "ns_mq ri' = ns_mq ri"
          "epts ri' = (epts ri)(next_ept ri \<mapsto> \<lparr>sn = name, ept_q = q, rl_ept = e, remote_addr = RL_ADDR_ANY\<rparr>)"
          "rfu ri' = (rfu ri)(e \<mapsto> next_ept ri)"
          using c m q(1) e(1) an w3 by (auto simp: rpmsg_create_ept_def Let_def split: if_splits)
        then show ?thesis using q(2) free v by (auto simp: created_def)
      next
        case False
        then show ?thesis
          using c m q(1) e(1) an w4(1) ptr fresh norfu [OF free(1)]
          by (auto simp: rpmsg_create_ept_def Let_def not_created_def queue_destroy_view [OF ok] fun_upd_idem
              split: if_splits)
      qed
    qed
  qed
qed

subsection \<open>Runs of an instance\<close>

lemma created_owned:
  assumes "owned view ri" "created view a name ri p ri'"
  shows "owned view ri'"
proof -
  obtain q e where c: "q \<notin> queues (view (rl ri))" "eps (view (rl ri)) e = None"
      "view (rl ri') = \<lparr>queues = insert q (queues (view (rl ri))), eps = (eps (view (rl ri)))(e \<mapsto> a)\<rparr>"
      "epts ri' = (epts ri)(p \<mapsto> \<lparr>sn = name, ept_q = q, rl_ept = e, remote_addr = RL_ADDR_ANY\<rparr>)"
      "rfu ri' = (rfu ri)(e \<mapsto> p)" "p = next_ept ri" "next_ept ri' = p + 1"
    using assms(2) by (auto simp: created_def)
  have old: "x < p \<and> ept_q y \<in> queues (view (rl ri)) \<and> ept_q y \<noteq> q \<and> rl_ept y \<noteq> e
      \<and> eps (view (rl ri)) (rl_ept y) \<noteq> None \<and> rfu ri (rl_ept y) = Some x"
    if "epts ri x = Some y" for x y
    using ownedD [OF assms(1) that] c(1,2,6) by auto
  have ptr: "\<exists>y. epts ri x = Some y \<and> rl_ept y = r" if "rfu ri r = Some x" for r x
    using assms(1) that unfolding owned_def by blast
  have uniq: "x = x'" if "epts ri x = Some y" "epts ri x' = Some y'" "ept_q y = ept_q y'" for x x' y y'
    using assms(1) that unfolding owned_def by blast
  show ?thesis
    unfolding owned_def c(3,4,5,7)
  proof (intro conjI allI impI, goal_cases)
    case (1 x y) then show ?case using old [of x y] by (auto split: if_splits)
  next
    case (2 x y) then show ?case using old [of x y] by (auto split: if_splits)
  next
    case (3 x y) then show ?case using old [of x y] by (auto split: if_splits)
  next
    case (4 x y) then show ?case using old [of x y] by (auto split: if_splits)
  next
    case (5 r x)
    then show ?case using ptr [of r x] old [of x] by (auto split: if_splits)
  next
    case (6 x x' y y')
    show ?case
    proof (cases "x = p \<or> x' = p")
      case True
      then show ?thesis using 6 old [of x y] old [of x' y'] by (cases "x = p"; cases "x' = p") auto
    next
      case False
      then show ?thesis using 6 uniq [of x y x' y'] by simp
    qed
  qed
qed

lemma not_created_owned: "owned view ri \<Longrightarrow> not_created view ri ri' \<Longrightarrow> owned view ri'"
  by (erule owned_cong) (auto simp: not_created_def)

lemma create_owned:
  assumes "rl_ok ops view" "owned view ri" "rpmsg_create_ept ops m a name ri = (res, ri')"
  shows "owned view ri'"
  using create_spec [OF assms] created_owned [OF assms(2)] not_created_owned [OF assms(2)]
  by (cases res) auto

lemma remote_owned:
  assumes "owned view ri" "epts ri p = Some e"
  shows "owned view (ri\<lparr>epts := (epts ri)(p \<mapsto> e\<lparr>remote_addr := a\<rparr>)\<rparr>)"
proof -
  have old: "x < next_ept ri \<and> ept_q y \<in> queues (view (rl ri)) \<and> eps (view (rl ri)) (rl_ept y) \<noteq> None
      \<and> rfu ri (rl_ept y) = Some x" if "epts ri x = Some y" for x y
    using ownedD [OF assms(1) that] by blast
  have ptr: "\<exists>y. epts ri x = Some y \<and> rl_ept y = r" if "rfu ri r = Some x" for r x
    using assms(1) that unfolding owned_def by blast
  have uniq: "x = x'" if "epts ri x = Some y" "epts ri x' = Some y'" "ept_q y = ept_q y'" for x x' y y'
    using assms(1) that unfolding owned_def by blast
  show ?thesis
    unfolding owned_def
  proof (intro conjI allI impI, goal_cases)
    case (1 x y) then show ?case using old [of x y] old [OF assms(2)] by (auto split: if_splits)
  next
    case (2 x y) then show ?case using old [of x y] old [OF assms(2)] by (auto split: if_splits)
  next
    case (3 x y) then show ?case using old [of x y] old [OF assms(2)] by (auto split: if_splits)
  next
    case (4 x y) then show ?case using old [of x y] old [OF assms(2)] by (auto split: if_splits)
  next
    case (5 r x)
    then show ?case using ptr [of r x] assms(2) by (auto split: if_splits)
  next
    case (6 x x' y y')
    have "\<exists>y0. epts ri x = Some y0 \<and> ept_q y0 = ept_q y" "\<exists>y0. epts ri x' = Some y0 \<and> ept_q y0 = ept_q y'"
      using 6(1,2) assms(2) by (auto split: if_splits)
    then show ?case using uniq 6(3) by metis
  qed
qed

text \<open>What destroying a live endpoint does when the name service can be told.\<close>

lemma destroy_spec:
  assumes ok: "rl_ok ops view" and inv: "owned view ri" and p: "epts ri p = Some e"
    and d: "rpmsg_destroy_ept ops p ri = Inr (ret, ri')"
  shows "if ret = RL_SUCCESS
     then view (rl ri') = \<lparr>queues = queues (view (rl ri)) - {ept_q e},
                           eps = (eps (view (rl ri)))(rl_ept e := None)\<rparr>
        \<and> epts ri' = (epts ri)(p := None) \<and> rfu ri' = (rfu ri)(rl_ept e := None)
        \<and> next_ept ri' = next_ept ri
     else \<not> mode ri \<and> not_created view ri ri'"
proof -
  obtain r w1 where an: "(if mode ri then (RL_SUCCESS, rl ri)
      else rpmsg_ns_announce ops (rl_ept e) (sn e) RL_NS_DESTROY (rl ri)) = (r, w1)"
    by (metis surj_pair)
  have w1: "view w1 = view (rl ri)"
    using an other_views(1) [OF ok, of "rl_ept e" "sn e" RL_NS_DESTROY "rl ri"] by (auto split: if_splits)
  obtain w2 where w2: "rpmsg_lite_destroy_ept ops (rl_ept e) w1 = (RL_SUCCESS, w2)"
      "view w2 = (view w1)\<lparr>eps := (eps (view w1))(rl_ept e := None)\<rparr>"
    using destroy_succeeds [OF ok, of w1 "rl_ept e"] ownedD(3) [OF inv p] w1 by auto
  have m: "mode ri \<Longrightarrow> r = RL_SUCCESS" using an by simp
  show ?thesis
    using d p w1 w2 m unfolding rpmsg_destroy_ept_def deref_def
    by (auto simp: an Let_def queue_destroy_view [OF ok] not_created_def split: if_splits)
qed

lemma destroy_owned:
  assumes ok: "rl_ok ops view" and inv: "owned view ri" and p: "epts ri p = Some e"
    and d: "rpmsg_destroy_ept ops p ri = Inr (ret, ri')"
  shows "owned view ri'"
proof (cases "ret = RL_SUCCESS")
  case False
  then show ?thesis using destroy_spec [OF assms] not_created_owned [OF inv] by simp
next
  case True
  then have s: "view (rl ri') = \<lparr>queues = queues (view (rl ri)) - {ept_q e},
                           eps = (eps (view (rl ri)))(rl_ept e := None)\<rparr>"
      "epts ri' = (epts ri)(p := None)" "rfu ri' = (rfu ri)(rl_ept e := None)"
      "next_ept ri' = next_ept ri"
    using destroy_spec [OF assms] by simp_all
  have old: "x < next_ept ri \<and> ept_q y \<in> queues (view (rl ri)) \<and> eps (view (rl ri)) (rl_ept y) \<noteq> None
      \<and> rfu ri (rl_ept y) = Some x" if "epts ri x = Some y" for x y
    using ownedD [OF inv that] by blast
  have ptr: "\<exists>y. epts ri x = Some y \<and> rl_ept y = r" if "rfu ri r = Some x" for r x
    using inv that unfolding owned_def by blast
  have uniq: "x = x'" if "epts ri x = Some y" "epts ri x' = Some y'" "ept_q y = ept_q y'" for x x' y y'
    using inv that unfolding owned_def by blast
  show ?thesis
    unfolding owned_def s
  proof (intro conjI allI impI, goal_cases)
    case (1 x y) then show ?case using old [of x y] by (auto split: if_splits)
  next
    case (2 x y) then show ?case using old [of x y] uniq [OF _ p, of x y] by (auto split: if_splits)
  next
    case (3 x y) then show ?case using old [of x y] old [OF p] by (auto split: if_splits)
  next
    case (4 x y) then show ?case using old [of x y] old [OF p] by (auto split: if_splits)
  next
    case (5 r x)
    then show ?case using ptr [of r x] p by (auto split: if_splits)
  next
    case (6 x x' y y')
    then show ?case using uniq [of x y x' y'] by (auto split: if_splits)
  qed
qed

lemma recv_owned:
  assumes "rl_ok ops view" "owned view ri" "rpmsg_recv ops p len ri = Inr (ret, data, ri')"
  shows "owned view ri'"
proof -
  obtain e where e: "epts ri p = Some e" using assms(3) by (auto simp: rpmsg_recv_def deref_def split: option.splits)
  obtain r src d w where q: "rpmsg_queue_recv ops (ept_q e) len (rl ri) = ((r, src, d), w)"
    by (metis surj_pair)
  have "view w = view (rl ri)" using other_views(3) [OF assms(1), of "ept_q e" len "rl ri"] q by simp
  then have o1: "owned view (ri\<lparr>rl := w\<rparr>)" by (intro owned_cong [OF assms(2)]) simp_all
  then show ?thesis
    using assms(3) e q remote_owned [OF o1, of p e src]
    by (auto simp: rpmsg_recv_def deref_def Let_def split: if_splits)
qed

lemma send_owned:
  assumes "rl_ok ops view" "owned view ri" "rpmsg_send ops p data ri = Inr (ret, ri')"
  shows "owned view ri'"
proof -
  obtain e where e: "epts ri p = Some e" using assms(3) by (auto simp: rpmsg_send_def deref_def split: option.splits)
  obtain r w where q: "rpmsg_lite_send ops (rl_ept e) (remote_addr e) data (rl ri) = (r, w)"
    by (metis surj_pair)
  have "view w = view (rl ri)"
    using other_views(2) [OF assms(1), of "rl_ept e" "remote_addr e" data "rl ri"] q by simp
  then show ?thesis
    using assms(3) e q by (auto simp: rpmsg_send_def deref_def intro!: owned_cong [OF assms(2)])
qed

lemma scan_ok:
  assumes "owned view ri"
  shows "\<exists>r. scan_dst ops addr is ri = Inr r \<and> (\<forall>p. r = Some p \<longrightarrow> (\<exists>e. epts ri p = Some e \<and> remote_addr e = addr))"
proof (induction "is")
  case (Cons i "is")
  show ?case
  proof (cases "rl_ept_to_ept (rpmsg_lite_get_endpoint ops i (rl ri)) ri")
    case (Some p)
    then obtain r where "rfu ri r = Some p" by (auto simp: rl_ept_to_ept_def split: option.splits)
    then obtain e where "epts ri p = Some e" using assms unfolding owned_def by blast
    then show ?thesis using Cons Some by (auto simp: deref_def)
  qed (use Cons in simp)
qed simp

inductive rpmsg_step :: "'w rl_ops \<Rightarrow> 'w rpmsg_instance \<Rightarrow> 'w rpmsg_instance \<Rightarrow> bool" for ops where
  Create: "rpmsg_create_ept ops m a name ri = (res, ri') \<Longrightarrow> rpmsg_step ops ri ri'"
| Destroy: "rpmsg_destroy_ept ops p ri = Inr (ret, ri') \<Longrightarrow> rpmsg_step ops ri ri'"
| Send: "rpmsg_send ops p data ri = Inr (ret, ri') \<Longrightarrow> rpmsg_step ops ri ri'"
| Recv: "rpmsg_recv ops p len ri = Inr (ret, data, ri') \<Longrightarrow> rpmsg_step ops ri ri'"
| Notice: "rpmsg_step ops ri (rpmsg_nameservice_isr_cb dst name flags ri)"
| Service: "rpmsg_nameservice_task ops m ri = Inr ri' \<Longrightarrow> rpmsg_step ops ri ri'"

inductive_cases rpmsg_stepE: "rpmsg_step ops ri ri'"

definition new_instance :: "'w rpmsg_instance \<Rightarrow> bool" where
  "new_instance ri \<longleftrightarrow> epts ri = Map.empty \<and> rfu ri = Map.empty \<and> ns_mq ri = [] \<and> rpmsg_src ri = 1"

lemma destroy_live: "rpmsg_destroy_ept ops p ri = Inr x \<Longrightarrow> \<exists>e. epts ri p = Some e"
  by (auto simp: rpmsg_destroy_ept_def deref_def split: option.splits)

lemma ns_owned:
  assumes ok: "rl_ok ops view" and inv: "owned view ri"
    and h: "ns_handle_msg ops m (dst, flags, name) ri = Inr ri'"
  shows "owned view ri'"
proof (cases "flags = RL_NS_CREATE")
  case True
  define ri1 where "ri1 = ri\<lparr>rpmsg_src := rpmsg_src ri + 1\<rparr>"
  have o1: "owned view ri1" by (rule owned_cong [OF inv]) (simp_all add: ri1_def)
  obtain res ri2 where c: "rpmsg_create_ept ops m (rpmsg_src ri) name ri1 = (res, ri2)"
    by (metis surj_pair)
  have o2: "owned view ri2" by (rule create_owned [OF ok o1 c])
  show ?thesis
    using h c o2 True
    by (auto simp: ns_handle_msg_def rpmsg_get_ept_addr_def ri1_def deref_def intro: remote_owned
        split: option.splits)
next
  case False
  show ?thesis
    using h False inv destroy_live destroy_owned [OF ok inv]
    by (fastforce simp: ns_handle_msg_def outcome_simps split: if_splits option.splits)
qed

lemma step_owned:
  assumes ok: "rl_ok ops view" and s: "rpmsg_step ops ri ri'" and inv: "owned view ri"
  shows "owned view ri'"
  using s
proof (cases rule: rpmsg_step.cases)
  case (Create m a name res)
  then show ?thesis using create_owned [OF ok inv] by blast
next
  case (Destroy p ret)
  then show ?thesis using destroy_owned [OF ok inv] destroy_live by blast
next
  case (Send p data ret)
  then show ?thesis using send_owned [OF ok inv] by blast
next
  case (Recv p len ret data)
  then show ?thesis using recv_owned [OF ok inv] by blast
next
  case (Notice dst name flags)
  then show ?thesis
    using inv by (auto simp: rpmsg_nameservice_isr_cb_def intro: owned_cong)
next
  case (Service m)
  have "owned view (ri\<lparr>ns_mq := ms\<rparr>)" for ms by (rule owned_cong [OF inv]) simp_all
  show ?thesis
  proof (cases "ns_mq ri")
    case (Cons x ms)
    obtain dst flags name where "x = (dst, flags, name)" by (cases x)
    then show ?thesis
      using Service Cons ns_owned [OF ok \<open>owned view (ri\<lparr>ns_mq := ms\<rparr>)\<close>, of m dst flags name ri']
      by (simp add: rpmsg_nameservice_task_def)
  qed (use Service inv in \<open>simp add: rpmsg_nameservice_task_def\<close>)
qed

lemma lookup_live:
  assumes "owned view ri" "rpmsg_get_endpoint_by_dst ops ri addr = Inr (Some p)"
  shows "\<exists>e. epts ri p = Some e \<and> remote_addr e = addr"
  using scan_ok [OF assms(1), of ops addr "map of_nat [1..<unat (rpmsg_src ri)]"] assms(2)
  by (auto simp: rpmsg_get_endpoint_by_dst_def)

text \<open>
  C17: Every endpoint object owns its resources, in every state an instance can reach by creating and
  destroying endpoints, sending, receiving and serving the name service: its queue and its endpoint of
  the library exist, no two objects share a queue, the endpoint of the library points back at the
  object, and no such pointer is left to an object that was freed; so that looking an endpoint up by
  its remote address never touches freed memory and finds only endpoints bound to that address.
\<close>

theorem endpoints_owned:
  assumes "rl_ok ops view" "new_instance ri" "(rpmsg_step ops)\<^sup>*\<^sup>* ri ri'"
  shows "owned view ri'
     \<and> (\<exists>r. rpmsg_get_endpoint_by_dst ops ri' addr = Inr r
          \<and> (\<forall>p. r = Some p \<longrightarrow> (\<exists>e. epts ri' p = Some e \<and> remote_addr e = addr)))"
proof -
  have "owned view ri'"
    using assms(3)
  proof (induction rule: rtranclp_induct)
    case base
    then show ?case using assms(2) by (simp add: new_instance_def owned_def)
  next
    case (step y z)
    then show ?case using step_owned [OF assms(1)] by blast
  qed
  then show ?thesis using scan_ok by (auto simp: rpmsg_get_endpoint_by_dst_def)
qed

text \<open>
  C18: An endpoint is created completely or not at all. When \<open>rpmsg_create_ept\<close> fails, at whatever
  call, the library has the queues and endpoints it had, and no object and no back pointer is left;
  when it succeeds there is one more queue and one more endpoint at the address asked for, owned by a
  new object that is not bound to a remote address; and destroying that object takes exactly these away
  again.
\<close>

theorem create_ept_atomic:
  assumes "rl_ok ops view" "owned view ri" "rpmsg_create_ept ops m a name ri = (res, ri')"
  shows "case res of
      None \<Rightarrow> view (rl ri') = view (rl ri) \<and> epts ri' = epts ri \<and> rfu ri' = rfu ri
    | Some p \<Rightarrow> created view a name ri p ri'
        \<and> (\<forall>ri''. rpmsg_destroy_ept ops p ri' = Inr (RL_SUCCESS, ri'') \<longrightarrow>
             view (rl ri'') = view (rl ri) \<and> epts ri'' = epts ri \<and> rfu ri'' = rfu ri)"
proof (cases res)
  case None
  then show ?thesis using create_spec [OF assms] by (simp add: not_created_def)
next
  case (Some p)
  have c: "created view a name ri p ri'" using create_spec [OF assms] Some by simp
  then obtain q e where qe: "q \<notin> queues (view (rl ri))" "eps (view (rl ri)) e = None"
      "view (rl ri') = \<lparr>queues = insert q (queues (view (rl ri))), eps = (eps (view (rl ri)))(e \<mapsto> a)\<rparr>"
      "epts ri' = (epts ri)(p \<mapsto> \<lparr>sn = name, ept_q = q, rl_ept = e, remote_addr = RL_ADDR_ANY\<rparr>)"
      "rfu ri' = (rfu ri)(e \<mapsto> p)" "p = next_ept ri"
    by (auto simp: created_def)
  have inv': "owned view ri'" by (rule created_owned [OF assms(2) c])
  have "epts ri p = None" using ownedD(1) [OF assms(2), of p] qe(6) by fastforce
  moreover have "rfu ri e = None"
  proof (rule ccontr)
    assume "rfu ri e \<noteq> None"
    then obtain x where "rfu ri e = Some x" by blast
    then obtain y where "epts ri x = Some y" "rl_ept y = e" using assms(2) unfolding owned_def by blast
    then show False using ownedD(3) [OF assms(2), of x y] qe(2) by simp
  qed
  moreover have "\<lparr>queues = insert q (queues (view (rl ri))) - {q}, eps = (eps (view (rl ri)))(e := None)\<rparr>
      = view (rl ri)"
    using qe(1,2) by (intro rl_view.equality) (auto simp: fun_upd_idem)
  moreover have "epts ri' p = Some \<lparr>sn = name, ept_q = q, rl_ept = e, remote_addr = RL_ADDR_ANY\<rparr>"
    by (simp add: qe(4))
  ultimately have "view (rl ri'') = view (rl ri) \<and> epts ri'' = epts ri \<and> rfu ri'' = rfu ri"
    if "rpmsg_destroy_ept ops p ri' = Inr (RL_SUCCESS, ri'')" for ri''
    using destroy_spec [OF assms(1) inv' _ that] qe by (simp add: fun_upd_idem)
  then show ?thesis using c Some by simp
qed

text \<open>
  A bound endpoint delivers only the messages of its peer: a reception that succeeds leaves the
  endpoint bound, to the address it was bound to before or, if it was not bound, to the source of this
  message; a message of any other source is reported as the error -1.
\<close>

theorem recv_binds_and_filters:
  assumes "rpmsg_recv ops p len ri = Inr (ret, data, ri')" "epts ri p = Some e"
    and "rpmsg_queue_recv ops (ept_q e) len (rl ri) = ((RL_SUCCESS, src, data0), w)"
  shows "\<exists>e'. epts ri' p = Some e' \<and> data = data0
     \<and> (ret = RL_SUCCESS \<longrightarrow> remote_addr e' = src \<and> (remote_addr e \<noteq> RL_ADDR_ANY \<longrightarrow> src = remote_addr e))
     \<and> (ret \<noteq> RL_SUCCESS \<longrightarrow> ret = - 1 \<and> remote_addr e' = remote_addr e \<and> src \<noteq> remote_addr e)"
  using assms by (auto simp: rpmsg_recv_def deref_def RL_SUCCESS_def Let_def split: if_splits)

lemma scan_finds:
  assumes "owned view ri" "i \<in> set is" "rl_ept_to_ept (rpmsg_lite_get_endpoint ops i (rl ri)) ri = Some p"
    and "epts ri p = Some e" "remote_addr e = addr"
  shows "\<exists>p'. scan_dst ops addr is ri = Inr (Some p')"
  using assms(2)
proof (induction "is")
  case (Cons j "is")
  show ?case
  proof (cases "rl_ept_to_ept (rpmsg_lite_get_endpoint ops j (rl ri)) ri")
    case None
    then show ?thesis using Cons assms(3) by auto
  next
    case (Some p1)
    then obtain r where "rfu ri r = Some p1" by (auto simp: rl_ept_to_ept_def split: option.splits)
    then obtain e1 where "epts ri p1 = Some e1" using assms(1) unfolding owned_def by blast
    then show ?thesis using Cons assms(3-5) Some by (auto simp: deref_def)
  qed
qed simp

text \<open>
  An announced channel can be found: when the master serves the announcement of a remote endpoint
  and the endpoint for it can be created, looking the remote address up afterwards finds an endpoint
  bound to that address.
\<close>

theorem announced_endpoint_found:
  assumes ok: "rl_ok ops view" and inv: "owned view ri"
    and src: "1 \<le> rpmsg_src ri" "rpmsg_src ri < 0xFFFFFFFF"
    and q: "ns_mq ri = (dst, RL_NS_CREATE, name) # ms"
    and t: "rpmsg_nameservice_task ops m ri = Inr ri'" "dom (epts ri') \<noteq> dom (epts ri)"
  shows "\<exists>p e. rpmsg_get_endpoint_by_dst ops ri' dst = Inr (Some p) \<and> epts ri' p = Some e
     \<and> remote_addr e = dst \<and> ns_mq ri' = ms"
proof -
  define ri1 where "ri1 = ri\<lparr>ns_mq := ms, rpmsg_src := rpmsg_src ri + 1\<rparr>"
  have o1: "owned view ri1" by (rule owned_cong [OF inv]) (simp_all add: ri1_def)
  obtain res ri2 where c: "rpmsg_create_ept ops m (rpmsg_src ri) name ri1 = (res, ri2)"
    by (metis surj_pair)
  have spec: "case res of None \<Rightarrow> not_created view ri1 ri2 | Some p \<Rightarrow> created view (rpmsg_src ri) name ri1 p ri2"
    by (rule create_spec [OF ok o1 c])
  have run: "rpmsg_nameservice_task ops m ri = (case res of None \<Rightarrow> Inr ri2
      | Some e \<Rightarrow> and_then (deref e ri2) (\<lambda>ep. Inr (ri2\<lparr>epts := (epts ri2)(e \<mapsto> ep\<lparr>remote_addr := dst\<rparr>)\<rparr>)))"
    using q c by (simp add: rpmsg_nameservice_task_def ns_handle_msg_def rpmsg_get_ept_addr_def ri1_def)
  obtain p where p: "res = Some p"
  proof (cases res)
    case None
    then have "dom (epts ri') = dom (epts ri)" using run t(1) spec by (simp add: not_created_def ri1_def)
    then show thesis using t(2) by simp
  qed
  have cr: "created view (rpmsg_src ri) name ri1 p ri2" using spec p by simp
  then obtain qh e where qe: "view (rl ri2) = \<lparr>queues = insert qh (queues (view (rl ri1))),
        eps = (eps (view (rl ri1)))(e \<mapsto> rpmsg_src ri)\<rparr>"
      "epts ri2 p = Some \<lparr>sn = name, ept_q = qh, rl_ept = e, remote_addr = RL_ADDR_ANY\<rparr>"
      "rfu ri2 e = Some p" "rpmsg_src ri2 = rpmsg_src ri + 1" "ns_mq ri2 = ms"
    by (auto simp: created_def ri1_def)
  define x where "x = \<lparr>sn = name, ept_q = qh, rl_ept = e, remote_addr = dst\<rparr>"
  have ri': "ri' = ri2\<lparr>epts := (epts ri2)(p \<mapsto> x)\<rparr>"
    using run t(1) p qe(2) by (simp add: deref_def x_def)
  have inv': "owned view ri'"
    using remote_owned [OF created_owned [OF o1 cr] qe(2), of dst] by (simp add: ri' x_def)
  have get: "rl_ept_to_ept (rpmsg_lite_get_endpoint ops (rpmsg_src ri) (rl ri')) ri' = Some p"
  proof -
    have "rpmsg_lite_get_endpoint ops (rpmsg_src ri) (rl ri') = Some e"
      using other_views(4) [OF ok] qe(1) by (simp add: ri')
    then show ?thesis using qe(3) by (simp add: rl_ept_to_ept_def ri')
  qed
  have "unat (rpmsg_src ri + 1) = Suc (unat (rpmsg_src ri))"
    using src(2) by (intro unat_Suc_lt) (simp add: word_less_nat_alt)
  moreover have "1 \<le> unat (rpmsg_src ri)" using src(1) by (simp add: word_le_nat_alt)
  ultimately have "rpmsg_src ri \<in> set (map of_nat [1..<unat (rpmsg_src ri')])"
    using qe(4) by (auto simp: ri' intro!: image_eqI [of _ _ "unat (rpmsg_src ri)"])
  from scan_finds [OF inv' this get, of x dst] obtain p' where
      "rpmsg_get_endpoint_by_dst ops ri' dst = Inr (Some p')"
    by (auto simp: ri' x_def rpmsg_get_endpoint_by_dst_def)
  moreover from this obtain e' where "epts ri' p' = Some e'" "remote_addr e' = dst"
    using lookup_live [OF inv'] by blast
  moreover have "ns_mq ri' = ms" using qe(5) by (simp add: ri')
  ultimately show ?thesis by blast
qed

text \<open>
  The withdrawal of a channel: the task destroys the endpoint, which frees the object, and then reads
  the object to log its address.
\<close>

theorem withdrawn_endpoint_read_after_free:
  assumes ok: "rl_ok ops view" and inv: "owned view ri" and m: "mode ri"
    and q: "ns_mq ri = (dst, RL_NS_DESTROY, name) # ms"
    and f: "rpmsg_get_endpoint_by_dst ops (ri\<lparr>ns_mq := ms\<rparr>) dst = Inr (Some p)"
  shows "rpmsg_nameservice_task ops malloc_ok ri = Inl Use_After_Free"
proof -
  define ri1 where "ri1 = ri\<lparr>ns_mq := ms\<rparr>"
  have o1: "owned view ri1" by (rule owned_cong [OF inv]) (simp_all add: ri1_def)
  obtain e where e: "epts ri1 p = Some e"
    using lookup_live [OF o1, of ops dst p] f unfolding ri1_def by auto
  obtain w2 where w2: "rpmsg_lite_destroy_ept ops (rl_ept e) (rl ri1) = (RL_SUCCESS, w2)"
    using destroy_succeeds [OF ok, of "rl ri1" "rl_ept e"] ownedD(3) [OF o1 e] by blast
  then obtain ri2 where "rpmsg_destroy_ept ops p ri1 = Inr (RL_SUCCESS, ri2)" "epts ri2 p = None"
    using e m by (simp add: rpmsg_destroy_ept_def deref_def ri1_def Let_def)
  then show ?thesis
    using q f by (simp add: rpmsg_nameservice_task_def ns_handle_msg_def ri1_def RL_NS_CREATE_def
        RL_NS_DESTROY_def RL_SUCCESS_def deref_def)
qed

subsection \<open>A library\<close>

text \<open>A small instance of the library, on which the contract holds, for the examples below.\<close>

record ex_w =
  ex_qs :: "nat list"
  ex_addrs :: "u32 list"

definition ex_view :: "ex_w \<Rightarrow> rl_view" where
  "ex_view w = \<lparr>queues = set (ex_qs w),
     eps = (\<lambda>e. if e < 2 ^ 32 \<and> of_nat e \<in> set (ex_addrs w) then Some (of_nat e) else None)\<rparr>"

definition ex_lib :: "ex_w rl_ops" where
  "ex_lib =
     \<lparr>rpmsg_queue_create = (\<lambda>w. let q = foldr max (ex_qs w) 0 + 1 in (Some q, w\<lparr>ex_qs := q # ex_qs w\<rparr>)),
      rpmsg_queue_destroy = (\<lambda>q w. w\<lparr>ex_qs := removeAll q (ex_qs w)\<rparr>),
      rpmsg_queue_recv = (\<lambda>q n w. ((0, 9, [5]), w)),
      rpmsg_lite_create_ept = (\<lambda>a q w. if a \<in> set (ex_addrs w) then (None, w)
         else (Some (unat a), w\<lparr>ex_addrs := a # ex_addrs w\<rparr>)),
      rpmsg_lite_destroy_ept = (\<lambda>e w. if e < 2 ^ 32 \<and> of_nat e \<in> set (ex_addrs w)
         then (0, w\<lparr>ex_addrs := removeAll (of_nat e) (ex_addrs w)\<rparr>) else (- 1, w)),
      rpmsg_lite_get_endpoint = (\<lambda>a w. if a \<in> set (ex_addrs w) then Some (unat a) else None),
      rpmsg_lite_send = (\<lambda>e d x w. (0, w)),
      rpmsg_ns_announce = (\<lambda>e s f w. (0, w))\<rparr>"

lemma foldr_max_fresh: "foldr max xs 0 + 1 \<notin> set (xs :: nat list)"
proof -
  have "x \<le> foldr max xs 0" if "x \<in> set xs" for x
    using that by (induction xs) auto
  then show ?thesis by fastforce
qed

lemma of_nat_u32_inj:
  assumes "e < 2 ^ 32"
  shows "(of_nat e = (a :: u32)) \<longleftrightarrow> e = unat a"
proof
  assume "of_nat e = a"
  then show "e = unat a" using assms unat_of_nat_below [of e] by simp
qed simp

lemma ex_eps_simp: "eps (ex_view w) e = Some a \<longleftrightarrow> e = unat a \<and> a \<in> set (ex_addrs w)"
  using u32_lt [of a] of_nat_u32_inj [of e a] by (auto simp: ex_view_def)

lemma ex_eps_None: "eps (ex_view w) (unat a) = None \<longleftrightarrow> a \<notin> set (ex_addrs w)"
  using u32_lt [of a] by (simp add: ex_view_def)

lemma ex_eps_eqI: "(\<And>e a. f e = Some a \<longleftrightarrow> g e = Some (a :: u32)) \<Longrightarrow> f = g"
  by (rule ext) (metis not_None_eq option.exhaust)

lemma unat_eq_iff: "unat a = unat b \<longleftrightarrow> a = (b :: u32)"
  by (metis unsigned_word_eqI)

lemma ex_ok: "rl_ok ex_lib ex_view"
proof -
  have add: "ex_view (w\<lparr>ex_addrs := a # ex_addrs w\<rparr>) = (ex_view w)\<lparr>eps := (eps (ex_view w))(unat a \<mapsto> a)\<rparr>"
    if "a \<notin> set (ex_addrs w)" for w a
    using that by (intro rl_view.equality ex_eps_eqI)
      (auto simp: ex_eps_simp unat_eq_iff, simp_all add: ex_view_def)
  have del: "ex_view (w\<lparr>ex_addrs := removeAll a (ex_addrs w)\<rparr>) =
      (ex_view w)\<lparr>eps := (eps (ex_view w))(unat a := None)\<rparr>" for w a
    by (intro rl_view.equality ex_eps_eqI)
      (auto simp: ex_eps_simp unat_eq_iff, simp_all add: ex_view_def)
  have notran: "a \<notin> ran (eps (ex_view w))" if "a \<notin> set (ex_addrs w)" for w a
    using that by (auto simp: ran_def ex_eps_simp)
  have "create_laws ex_lib ex_view"
    unfolding create_laws_def
    using foldr_max_fresh
    by (auto simp: ex_lib_def Let_def add notran ex_eps_None)
       (auto simp: ex_view_def)
  moreover have "destroy_laws ex_lib ex_view"
  proof -
    have has: "\<exists>a. e = unat a \<and> a \<in> set (ex_addrs w)" if "eps (ex_view w) e \<noteq> None" for w e
      using that ex_eps_simp by blast
    have gone: "\<exists>w'. rpmsg_lite_destroy_ept ex_lib e w = (RL_SUCCESS, w')
        \<and> ex_view w' = (ex_view w)\<lparr>eps := (eps (ex_view w))(e := None)\<rparr>" if ne: "eps (ex_view w) e \<noteq> None" for w e
    proof -
      obtain a where a: "e = unat a" "a \<in> set (ex_addrs w)"
        using ne has by blast
      then show ?thesis
        using u32_lt [of a] by (simp add: ex_lib_def del RL_SUCCESS_def)
    qed
    have "ex_view (rpmsg_queue_destroy ex_lib q w) = (ex_view w)\<lparr>queues := queues (ex_view w) - {q}\<rparr>" for w q
      by (simp add: ex_lib_def ex_view_def)
    then show ?thesis unfolding destroy_laws_def using gone by blast
  qed
  moreover have "other_laws ex_lib ex_view"
    unfolding other_laws_def by (auto simp: ex_lib_def ex_eps_simp)
  ultimately show ?thesis by (simp add: rl_ok_def)
qed

definition ex_ri :: "bool \<Rightarrow> ex_w rpmsg_instance" where
  "ex_ri m = \<lparr>rl = \<lparr>ex_qs = [4], ex_addrs = []\<rparr>, mode = m, rpmsg_src = 1, epts = Map.empty,
     next_ept = 0, rfu = Map.empty, ns_mq = []\<rparr>"

lemma ex_new: "new_instance (ex_ri m)" "owned ex_view (ex_ri m)"
  by (simp_all add: new_instance_def owned_def ex_ri_def)

lemma endpoints_owned_witness:
  "\<exists>ri'. (rpmsg_step ex_lib)\<^sup>*\<^sup>* (ex_ri True) ri' \<and> epts ri' 0 \<noteq> None \<and> owned ex_view ri'"
proof -
  define ri' where "ri' = snd (rpmsg_create_ept ex_lib True 30 ''a'' (ex_ri True))"
  have "rpmsg_step ex_lib (ex_ri True) ri'"
    unfolding ri'_def by (rule rpmsg_step.Create [where res = "fst (rpmsg_create_ept ex_lib True 30 ''a'' (ex_ri True))"]) simp
  then have "(rpmsg_step ex_lib)\<^sup>*\<^sup>* (ex_ri True) ri'" by blast
  moreover from endpoints_owned [OF ex_ok ex_new(1) this, of 30] have "owned ex_view ri'" by blast
  moreover have "epts ri' 0 \<noteq> None"
    by (simp add: ri'_def rpmsg_create_ept_def ex_ri_def ex_lib_def Let_def)
  ultimately show ?thesis by blast
qed

lemma create_ept_atomic_witness:
  "\<exists>ri' ri''. rpmsg_create_ept ex_lib True 30 ''a'' (ex_ri True) = (Some 0, ri')
     \<and> rpmsg_destroy_ept ex_lib 0 ri' = Inr (RL_SUCCESS, ri'') \<and> epts ri'' = Map.empty
     \<and> ex_view (rl ri'') = ex_view (rl (ex_ri True))"
proof -
  obtain ri' where c: "rpmsg_create_ept ex_lib True 30 ''a'' (ex_ri True) = (Some 0, ri')"
    by (simp add: rpmsg_create_ept_def ex_ri_def ex_lib_def Let_def)
  moreover from this obtain ri'' where d: "rpmsg_destroy_ept ex_lib 0 ri' = Inr (RL_SUCCESS, ri'')"
    by (auto simp: rpmsg_create_ept_def ex_ri_def ex_lib_def Let_def rpmsg_destroy_ept_def deref_def
        RL_SUCCESS_def)
  ultimately show ?thesis
    using create_ept_atomic [OF ex_ok ex_new(2) c] by (auto simp: ex_ri_def)
qed

lemma recv_binds_and_filters_witness:
  "\<exists>ri1 ri2 e. rpmsg_create_ept ex_lib True 30 ''a'' (ex_ri True) = (Some 0, ri1)
     \<and> rpmsg_recv ex_lib 0 8 ri1 = Inr (RL_SUCCESS, [5], ri2) \<and> epts ri2 0 = Some e \<and> remote_addr e = 9"
proof -
  define ri1 where "ri1 = snd (rpmsg_create_ept ex_lib True 30 ''a'' (ex_ri True))"
  define e where "e = \<lparr>sn = ''a'', ept_q = 5, rl_ept = 30, remote_addr = RL_ADDR_ANY\<rparr>"
  have c: "rpmsg_create_ept ex_lib True 30 ''a'' (ex_ri True) = (Some 0, ri1)" "epts ri1 0 = Some e"
    by (simp_all add: ri1_def e_def rpmsg_create_ept_def ex_ri_def ex_lib_def Let_def)
  have q: "rpmsg_queue_recv ex_lib (ept_q e) 8 (rl ri1) = ((RL_SUCCESS, 9, [5]), rl ri1)"
    by (simp add: ex_lib_def RL_SUCCESS_def)
  obtain ri2 where r: "rpmsg_recv ex_lib 0 8 ri1 = Inr (RL_SUCCESS, [5], ri2)"
    using c(2) q by (simp add: rpmsg_recv_def deref_def e_def Let_def)
  show ?thesis
    using recv_binds_and_filters [OF r c(2) q] c(1) r by auto
qed

lemma announced_endpoint_found_witness:
  "\<exists>ri' p e. rpmsg_nameservice_task ex_lib True (rpmsg_nameservice_isr_cb 77 ''x'' RL_NS_CREATE (ex_ri True)) = Inr ri'
     \<and> rpmsg_get_endpoint_by_dst ex_lib ri' 77 = Inr (Some p) \<and> epts ri' p = Some e \<and> remote_addr e = 77"
proof -
  define ri where "ri = rpmsg_nameservice_isr_cb 77 ''x'' RL_NS_CREATE (ex_ri True)"
  have "owned ex_view ri"
    by (rule owned_cong [OF ex_new(2) [of True]]) (simp_all add: ri_def rpmsg_nameservice_isr_cb_def)
  moreover have q: "ns_mq ri = (77, RL_NS_CREATE, ''x'') # []" "1 \<le> rpmsg_src ri" "rpmsg_src ri < 0xFFFFFFFF"
    by (simp_all add: ri_def rpmsg_nameservice_isr_cb_def ex_ri_def NS_MQ_SIZE_def)
  moreover have "\<exists>ri'. rpmsg_nameservice_task ex_lib True ri = Inr ri' \<and> dom (epts ri') \<noteq> dom (epts ri)"
    unfolding rpmsg_nameservice_task_def q(1)
    by (simp add: ri_def rpmsg_nameservice_isr_cb_def ex_ri_def NS_MQ_SIZE_def ns_handle_msg_def
        rpmsg_get_ept_addr_def rpmsg_create_ept_def ex_lib_def Let_def deref_def)
  ultimately show ?thesis
    using announced_endpoint_found [OF ex_ok, of ri 77 "''x''" "[]" True] unfolding ri_def [symmetric]
    by blast
qed

subsection \<open>Setting an instance up and removing it\<close>

text \<open>
  What an instance holds while it is set up. \<open>shared\<close> is the build with the software mailbox, where the
  memory is mapped. The results of the calls are a record: whether the allocation, the two mappings,
  the initialisation of the library, the queue, the task and the binding succeed.
\<close>

datatype resource =
    Instance_Mem | Shmem_Map | Vring_Map | Mailbox | Rl_Instance | Ns_Queue | Ns_Task | Ns_Binding

record init_results =
  r_malloc :: bool
  r_map_rpmsg :: bool
  r_map_vring :: bool
  r_rl_init :: bool
  r_mq_open :: bool
  r_task :: bool
  r_bind :: bool

definition rpmsg_init_pre :: "bool \<Rightarrow> init_results \<Rightarrow> resource set \<Rightarrow> bool \<times> resource set" where
  "rpmsg_init_pre shared r h =
     (if \<not> r_malloc r then (False, h)
      else
        (let h1 = insert Instance_Mem h
         in if shared then
              (if \<not> r_map_rpmsg r then (False, h1 - {Instance_Mem})
               else
                 (let h2 = insert Shmem_Map h1
                  in if \<not> r_map_vring r then (False, h2 - {Shmem_Map} - {Instance_Mem})
                     else (True, insert Mailbox (insert Vring_Map h2))))
            else (True, h1)))"

definition rpmsg_deinit_pre :: "bool \<Rightarrow> resource set \<Rightarrow> resource set" where
  "rpmsg_deinit_pre shared h =
     (if shared then h - {Vring_Map} - {Shmem_Map} - {Instance_Mem} else h - {Instance_Mem})"

definition rpmsg_master_init :: "init_results \<Rightarrow> resource set \<Rightarrow> int \<times> resource set" where
  "rpmsg_master_init r h =
     (if \<not> r_rl_init r then (- 1, h)
      else
        (let h1 = insert Rl_Instance h
         in if \<not> r_mq_open r then (- 2, h1 - {Rl_Instance})
            else
              (let h2 = insert Ns_Queue h1
               in if \<not> r_task r then (- 3, h2 - {Ns_Queue} - {Rl_Instance})
                  else
                    (let h3 = insert Ns_Task h2
                     in if \<not> r_bind r then (- 4, h3 - {Ns_Task} - {Ns_Queue} - {Rl_Instance})
                        else (0, insert Ns_Binding h3)))))"

definition rpmsg_master_deinit :: "resource set \<Rightarrow> resource set" where
  "rpmsg_master_deinit h = h - {Ns_Binding} - {Rl_Instance}"

definition rpmsg_remote_init :: "init_results \<Rightarrow> resource set \<Rightarrow> int \<times> resource set" where
  "rpmsg_remote_init r h = (if \<not> r_rl_init r then (- 1, h) else (0, insert Rl_Instance h))"

definition rpmsg_remote_deinit :: "resource set \<Rightarrow> resource set" where
  "rpmsg_remote_deinit h = h - {Rl_Instance}"

definition rpmsg_init :: "bool \<Rightarrow> bool option \<Rightarrow> init_results \<Rightarrow> resource set \<Rightarrow> bool \<times> resource set" where
  "rpmsg_init shared cfg r h =
     (case cfg of
        None \<Rightarrow> (False, h)
      | Some master \<Rightarrow>
          (let (ok, h1) = rpmsg_init_pre shared r h
           in if \<not> ok then (False, h1)
              else
                (let (ret, h2) = (if master then rpmsg_master_init r h1 else rpmsg_remote_init r h1)
                 in if ret \<noteq> 0 then (False, rpmsg_deinit_pre shared h2) else (True, h2))))"

definition rpmsg_deinit :: "bool \<Rightarrow> bool \<Rightarrow> resource set \<Rightarrow> resource set" where
  "rpmsg_deinit shared master h =
     rpmsg_deinit_pre shared (if master then rpmsg_master_deinit h else rpmsg_remote_deinit h)"

lemmas rpmsg_setup = rpmsg_init_def rpmsg_init_pre_def rpmsg_deinit_pre_def rpmsg_master_init_def
  rpmsg_master_deinit_def rpmsg_remote_init_def rpmsg_remote_deinit_def rpmsg_deinit_def

text \<open>
  Setting an instance up is undone when it fails: whatever call fails, in the master or the remote,
  \<open>rpmsg_init\<close> reports the failure holding nothing, but for the registration of the software mailbox;
  when no call fails it holds exactly what the instance needs.
\<close>

theorem rpmsg_init_unwinds:
  "rpmsg_init shared (Some master) r {} =
    (let mapped = (if shared then r_malloc r \<and> r_map_rpmsg r \<and> r_map_vring r else r_malloc r);
         up = (mapped \<and> r_rl_init r \<and> (if master then r_mq_open r \<and> r_task r \<and> r_bind r else True))
     in (up, if up then {Instance_Mem, Rl_Instance} \<union> (if shared then {Shmem_Map, Vring_Map, Mailbox} else {})
                         \<union> (if master then {Ns_Queue, Ns_Task, Ns_Binding} else {})
             else if shared \<and> mapped then {Mailbox} else {}))"
  by (auto simp: rpmsg_setup Let_def)

text \<open>
  Removing a master leaves the name service queue and its task, which goes on to use the freed
  instance.
\<close>

theorem rpmsg_deinit_leaks:
  assumes "rpmsg_init shared (Some True) r {} = (True, h)"
  shows "{Ns_Queue, Ns_Task} \<subseteq> rpmsg_deinit shared True h \<and> Instance_Mem \<notin> rpmsg_deinit shared True h"
  using assms by (auto simp: rpmsg_setup Let_def split: if_splits)

end
