(* ===== verification/Rpmsg_Apps.thy ===== *)
theory Rpmsg_Apps
  imports Rpmsg
begin


text \<open>
  The RPMsg applications of \<open>src/apps\<close> over the endpoints of \<open>Rpmsg\<close>: the string echo and the two
  sides of the ping-pong. The tasks are rounds of their loops; \<open>delivers\<close> states what the queues of
  RPMsg-Lite promise about messages.
\<close>

section \<open>Messages of the library\<close>

text \<open>
  \<open>pending\<close> reads the messages waiting in each queue, \<open>sent\<close> the messages that left. A reception takes
  the oldest message if it fits, a message of at most the payload size of a buffer is sent.
\<close>

definition RL_PAYLOAD :: nat where "RL_PAYLOAD = 496"

definition delivers ::
    "'w rl_ops \<Rightarrow> ('w \<Rightarrow> rl_queue \<Rightarrow> (u32 \<times> u8 list) list) \<Rightarrow>
       ('w \<Rightarrow> (rl_endpoint \<times> u32 \<times> u8 list) list) \<Rightarrow> bool" where
  "delivers ops pending sent \<longleftrightarrow>
     (\<forall>w q n src data ms. pending w q = (src, data) # ms \<longrightarrow> length data \<le> n \<longrightarrow>
        (\<exists>w'. rpmsg_queue_recv ops q n w = ((RL_SUCCESS, src, data), w')
           \<and> pending w' = (pending w)(q := ms) \<and> sent w' = sent w))
   \<and> (\<forall>w e d x. length x \<le> RL_PAYLOAD \<longrightarrow>
        (\<exists>w'. rpmsg_lite_send ops e d x w = (RL_SUCCESS, w')
           \<and> pending w' = pending w \<and> sent w' = sent w @ [(e, d, x)]))"

section \<open>String echo\<close>

text \<open>What a round prints: that a line ended, or the string up to its first zero, and its length.\<close>

datatype echo_print = New_Line | Message "u8 list" nat

definition echo_shows :: "u8 list \<Rightarrow> echo_print" where
  "echo_shows data =
     (if length data = 2 \<and> data ! 0 = 0xd \<and> data ! 1 = 0xa then New_Line
      else Message (takeWhile (\<lambda>c. c \<noteq> 0) data) (length data))"

text \<open>A round of \<open>rpmsg_ept_task\<close>. \<open>show\<close> and \<open>echo\<close> are \<open>RPMSG_PRINT_RECV\<close> and \<open>RPMSG_ECHO_BACK\<close> of the board.\<close>

definition echo_round ::
    "'w rl_ops \<Rightarrow> bool \<Rightarrow> bool \<Rightarrow> nat \<Rightarrow> nat \<Rightarrow> 'w rpmsg_instance \<Rightarrow>
       (echo_print list \<times> 'w rpmsg_instance) outcome" where
  "echo_round ops show echo buf_len p ri =
     and_then (rpmsg_recv ops p buf_len ri) (\<lambda>(result, data, ri1).
       os_assert (result = 0)
        (if buf_len \<le> length data then Inl Out_Of_Bounds
         else let shown = (if show then [echo_shows data] else [])
              in if echo then
                   and_then (rpmsg_send ops p data ri1) (\<lambda>(result, ri2). os_assert (result = 0) (Inr (shown, ri2)))
                 else Inr (shown, ri1)))"

fun echo_rounds ::
    "nat \<Rightarrow> 'w rl_ops \<Rightarrow> bool \<Rightarrow> bool \<Rightarrow> nat \<Rightarrow> nat \<Rightarrow> 'w rpmsg_instance \<Rightarrow>
       (echo_print list \<times> 'w rpmsg_instance) outcome" where
  "echo_rounds 0 ops show echo buf_len p ri = Inr ([], ri)"
| "echo_rounds (Suc n) ops show echo buf_len p ri =
     and_then (echo_round ops show echo buf_len p ri) (\<lambda>(xs, ri1).
     and_then (echo_rounds n ops show echo buf_len p ri1) (\<lambda>(ys, ri2). Inr (xs @ ys, ri2)))"

subsection \<open>Set-up\<close>

text \<open>
  \<open>rpmsg_init_task\<close>: for each address the endpoint and then its task, with the unwinding of what was made
  before. Each address comes with the results of the allocation and of the creation of the task; the
  tasks are the endpoints they serve. Made endpoints are kept last first, as the unwinding takes them.
\<close>

fun unwind_epts ::
    "'w rl_ops \<Rightarrow> nat list \<Rightarrow> 'w rpmsg_instance \<Rightarrow> nat set \<Rightarrow> ('w rpmsg_instance \<times> nat set) outcome" where
  "unwind_epts ops [] ri tasks = Inr (ri, tasks)"
| "unwind_epts ops (p # ps) ri tasks =
     and_then (rpmsg_destroy_ept ops p ri) (\<lambda>(_, ri1). unwind_epts ops ps ri1 (tasks - {p}))"

fun create_epts ::
    "'w rl_ops \<Rightarrow> string \<Rightarrow> (u32 \<times> bool \<times> bool) list \<Rightarrow> nat list \<Rightarrow> 'w rpmsg_instance \<Rightarrow> nat set \<Rightarrow>
       (bool \<times> 'w rpmsg_instance \<times> nat set) outcome" where
  "create_epts ops name [] made ri tasks = Inr (True, ri, tasks)"
| "create_epts ops name ((addr, malloc_ok, task_ok) # rest) made ri tasks =
     (case rpmsg_create_ept ops malloc_ok addr name ri of
        (None, ri1) \<Rightarrow> and_then (unwind_epts ops made ri1 tasks) (\<lambda>r. Inr (False, r))
      | (Some p, ri1) \<Rightarrow>
          if task_ok then create_epts ops name rest (p # made) ri1 (insert p tasks)
          else and_then (rpmsg_destroy_ept ops p ri1) (\<lambda>(_, ri2).
               and_then (unwind_epts ops made ri2 tasks) (\<lambda>r. Inr (False, r))))"

text \<open>
  The whole task: the instance, the endpoints, and then the task sleeps, or everything is taken back
  and the task stops in an assertion. The result says which, with what is held in the end.
\<close>

definition echo_init_task ::
    "'w rl_ops \<Rightarrow> bool \<Rightarrow> init_results \<Rightarrow> string \<Rightarrow> (u32 \<times> bool \<times> bool) list \<Rightarrow> 'w rpmsg_instance \<Rightarrow>
       (bool \<times> 'w rpmsg_instance \<times> nat set \<times> resource set) outcome" where
  "echo_init_task ops shared r name addrs ri =
     (let (up, h) = rpmsg_init shared (Some False) r {}
      in if \<not> up then Inr (False, ri, {}, h)
         else and_then (create_epts ops name addrs [] ri {}) (\<lambda>(ok, ri1, tasks).
           Inr (ok, ri1, tasks, if ok then h else rpmsg_deinit shared False h)))"

section \<open>The echo returns what it gets\<close>

lemma delivers_recv:
  assumes "delivers ops pending sent" "pending w q = (src, data) # ms" "length data \<le> n"
  obtains w' where "rpmsg_queue_recv ops q n w = ((RL_SUCCESS, src, data), w')"
    "pending w' = (pending w)(q := ms)" "sent w' = sent w"
  using assms unfolding delivers_def by blast

lemma delivers_send:
  assumes "delivers ops pending sent" "length x \<le> RL_PAYLOAD"
  obtains w' where "rpmsg_lite_send ops e d x w = (RL_SUCCESS, w')"
    "pending w' = pending w" "sent w' = sent w @ [(e, d, x)]"
  using assms unfolding delivers_def by blast

lemma recv_delivers:
  assumes "delivers ops pending sent" "epts ri p = Some e" "remote_addr e \<in> {RL_ADDR_ANY, src}"
    and "pending (rl ri) (ept_q e) = (src, data) # ms" "length data \<le> n"
  obtains ri' where "rpmsg_recv ops p n ri = Inr (RL_SUCCESS, data, ri')"
    "pending (rl ri') = (pending (rl ri))(ept_q e := ms)" "sent (rl ri') = sent (rl ri)"
    "epts ri' = (epts ri)(p \<mapsto> e\<lparr>remote_addr := src\<rparr>)"
proof -
  obtain w' where w: "rpmsg_queue_recv ops (ept_q e) n (rl ri) = ((RL_SUCCESS, src, data), w')"
    "pending w' = (pending (rl ri))(ept_q e := ms)" "sent w' = sent (rl ri)"
    by (rule delivers_recv [OF assms(1,4,5)])
  have "epts ri = (epts ri)(p \<mapsto> e\<lparr>remote_addr := src\<rparr>)" if "remote_addr e = src"
    using assms(2) that by (auto simp: fun_upd_idem)
  then show thesis
    using that w assms(2,3) by (cases "remote_addr e = RL_ADDR_ANY") (auto simp: rpmsg_recv_def deref_def)
qed

lemma send_delivers:
  assumes "delivers ops pending sent" "epts ri p = Some e" "length x \<le> RL_PAYLOAD"
  obtains ri' where "rpmsg_send ops p x ri = Inr (RL_SUCCESS, ri')" "pending (rl ri') = pending (rl ri)"
    "sent (rl ri') = sent (rl ri) @ [(rl_ept e, remote_addr e, x)]" "epts ri' = epts ri"
proof -
  obtain w' where "rpmsg_lite_send ops (rl_ept e) (remote_addr e) x (rl ri) = (RL_SUCCESS, w')"
    "pending w' = pending (rl ri)" "sent w' = sent (rl ri) @ [(rl_ept e, remote_addr e, x)]"
    by (rule delivers_send [OF assms(1,3)])
  then show thesis using that assms(2) by (simp add: rpmsg_send_def deref_def)
qed

lemma echo_round_returns:
  assumes "delivers ops pending sent" "epts ri p = Some e" "remote_addr e \<in> {RL_ADDR_ANY, src}"
    and "pending (rl ri) (ept_q e) = (src, data) # ms" "length data < buf_len" "length data \<le> RL_PAYLOAD"
  obtains ri' where "echo_round ops show True buf_len p ri = Inr (if show then [echo_shows data] else [], ri')"
    "pending (rl ri') = (pending (rl ri))(ept_q e := ms)"
    "sent (rl ri') = sent (rl ri) @ [(rl_ept e, src, data)]" "epts ri' p = Some (e\<lparr>remote_addr := src\<rparr>)"
proof -
  obtain ri1 where r: "rpmsg_recv ops p buf_len ri = Inr (RL_SUCCESS, data, ri1)"
    "pending (rl ri1) = (pending (rl ri))(ept_q e := ms)" "sent (rl ri1) = sent (rl ri)"
    "epts ri1 = (epts ri)(p \<mapsto> e\<lparr>remote_addr := src\<rparr>)"
    by (rule recv_delivers [OF assms(1-4) less_imp_le [OF assms(5)]])
  have e1: "epts ri1 p = Some (e\<lparr>remote_addr := src\<rparr>)" by (simp add: r(4))
  obtain ri2 where "rpmsg_send ops p data ri1 = Inr (RL_SUCCESS, ri2)" "pending (rl ri2) = pending (rl ri1)"
    "sent (rl ri2) = sent (rl ri1) @ [(rl_ept e, src, data)]" "epts ri2 = epts ri1"
    using send_delivers [OF assms(1) e1 assms(6)] by auto
  then show thesis using that [of ri2] r e1 assms(5) by (simp add: echo_round_def RL_SUCCESS_def Let_def)
qed

text \<open>A message of another source stops the task: the error of the reception is an assertion.\<close>

lemma stray_message_stops_echo:
  assumes "delivers ops pending sent" "epts ri p = Some e" "remote_addr e \<notin> {RL_ADDR_ANY, src}"
    and "pending (rl ri) (ept_q e) = (src, data) # ms" "length data \<le> buf_len"
  shows "echo_round ops show echo buf_len p ri = Inl Assert_Failed"
proof -
  obtain w' where "rpmsg_queue_recv ops (ept_q e) buf_len (rl ri) = ((RL_SUCCESS, src, data), w')"
    by (rule delivers_recv [OF assms(1,4,5)])
  then show ?thesis using assms(2,3) by (simp add: echo_round_def rpmsg_recv_def deref_def Let_def)
qed

lemma echo_rounds_more:
  "echo_rounds (m + n) ops show echo buf_len p ri =
     and_then (echo_rounds m ops show echo buf_len p ri) (\<lambda>(xs, ri1).
     and_then (echo_rounds n ops show echo buf_len p ri1) (\<lambda>(ys, ri2). Inr (xs @ ys, ri2)))"
proof (induction m arbitrary: ri)
  case 0
  show ?case by (cases "echo_rounds n ops show echo buf_len p ri") auto
next
  case (Suc m)
  show ?case
  proof (cases "echo_round ops show echo buf_len p ri")
    case (Inr x)
    then show ?thesis
      using Suc.IH [of "snd x"]
      by (cases x; cases "echo_rounds m ops show echo buf_len p (snd x)")
        (auto simp: case_prod_beta and_then_assoc)
  qed simp
qed

lemma echo_rounds_return:
  assumes "delivers ops pending sent" "epts ri p = Some e" "remote_addr e \<in> {RL_ADDR_ANY, src}"
    and "pending (rl ri) (ept_q e) = map (Pair src) msgs @ rest"
    and "\<forall>m \<in> set msgs. length m < buf_len \<and> length m \<le> RL_PAYLOAD"
  shows "\<exists>ri' e'. echo_rounds (length msgs) ops show True buf_len p ri
      = Inr (if show then map echo_shows msgs else [], ri')
    \<and> sent (rl ri') = sent (rl ri) @ map (\<lambda>m. (rl_ept e, src, m)) msgs
    \<and> pending (rl ri') = (pending (rl ri))(ept_q e := rest)
    \<and> epts ri' p = Some e' \<and> ept_q e' = ept_q e \<and> (msgs \<noteq> [] \<longrightarrow> remote_addr e' = src)
    \<and> (msgs = [] \<longrightarrow> e' = e)"
  using assms(2-5)
proof (induction msgs arbitrary: ri e)
  case Nil
  then show ?case by (auto simp: fun_upd_idem)
next
  case (Cons m msgs)
  have "pending (rl ri) (ept_q e) = (src, m) # (map (Pair src) msgs @ rest)" "length m < buf_len" "length m \<le> RL_PAYLOAD"
    using Cons.prems(3,4) by simp_all
  then obtain ri1 where r: "echo_round ops show True buf_len p ri = Inr (if show then [echo_shows m] else [], ri1)"
    "pending (rl ri1) = (pending (rl ri))(ept_q e := map (Pair src) msgs @ rest)"
    "sent (rl ri1) = sent (rl ri) @ [(rl_ept e, src, m)]" "epts ri1 p = Some (e\<lparr>remote_addr := src\<rparr>)"
    by (rule echo_round_returns [OF assms(1) Cons.prems(1,2)])
  obtain e' where e': "epts ri1 p = Some e'" "ept_q e' = ept_q e" "rl_ept e' = rl_ept e" "remote_addr e' = src"
    using r(4) by simp
  have "remote_addr e' \<in> {RL_ADDR_ANY, src}" "pending (rl ri1) (ept_q e') = map (Pair src) msgs @ rest"
    "\<forall>m \<in> set msgs. length m < buf_len \<and> length m \<le> RL_PAYLOAD"
    using e' r(2) Cons.prems(4) by simp_all
  from Cons.IH [OF e'(1) this, unfolded e'(2-4)]
  obtain ri2 e2 where "echo_rounds (length msgs) ops show True buf_len p ri1
      = Inr (if show then map echo_shows msgs else [], ri2)"
    "sent (rl ri2) = sent (rl ri1) @ map (\<lambda>m. (rl_ept e, src, m)) msgs"
    "pending (rl ri2) = (pending (rl ri1))(ept_q e := rest)"
    "epts ri2 p = Some e2" "ept_q e2 = ept_q e" "msgs \<noteq> [] \<longrightarrow> remote_addr e2 = src" "msgs = [] \<longrightarrow> e2 = e'"
    by blast
  then show ?case using r(1-3) e'(4) by (cases "msgs = []") (auto simp: fun_eq_iff)
qed

text \<open>
  C13: The echo returns messages to their sender, as long as they all come from one: with a
  library that delivers (a receive takes the first waiting message, a send succeeds), the
  messages waiting for an endpoint that is bound to their source or to nobody yet, each shorter
  than the buffer and no longer than the payload of RPMsg, are sent back to that source,
  unchanged and in order, each is shown once, and what waits behind them stays. The first
  message binds the endpoint: when the next one then comes from another source, the task stops
  in an assertion and returns nothing more.
\<close>

theorem echo_returns_messages:
  assumes "delivers ops pending sent" "epts ri p = Some e" "remote_addr e \<in> {RL_ADDR_ANY, src}"
    and "pending (rl ri) (ept_q e) = map (Pair src) msgs @ rest"
    and "\<forall>m \<in> set msgs. length m < buf_len \<and> length m \<le> RL_PAYLOAD"
  shows "\<exists>ri'. echo_rounds (length msgs) ops show True buf_len p ri
      = Inr (if show then map echo_shows msgs else [], ri')
    \<and> sent (rl ri') = sent (rl ri) @ map (\<lambda>m. (rl_ept e, src, m)) msgs
    \<and> pending (rl ri') = (pending (rl ri))(ept_q e := rest)
    \<and> (\<forall>other m ms. rest = (other, m) # ms \<and> other \<noteq> src \<and> length m \<le> buf_len \<and> msgs \<noteq> [] \<and> src \<noteq> RL_ADDR_ANY \<longrightarrow>
         echo_rounds (length msgs + 1) ops show True buf_len p ri = Inl Assert_Failed)"
proof -
  obtain ri' e' where r: "echo_rounds (length msgs) ops show True buf_len p ri
      = Inr (if show then map echo_shows msgs else [], ri')"
    "sent (rl ri') = sent (rl ri) @ map (\<lambda>m. (rl_ept e, src, m)) msgs"
    "pending (rl ri') = (pending (rl ri))(ept_q e := rest)"
    "epts ri' p = Some e'" "ept_q e' = ept_q e" "msgs \<noteq> [] \<longrightarrow> remote_addr e' = src"
    using echo_rounds_return [OF assms, of "show"] by blast
  have "echo_rounds (length msgs + 1) ops show True buf_len p ri = Inl Assert_Failed"
    if "rest = (other, m) # ms" "other \<noteq> src" "length m \<le> buf_len" "msgs \<noteq> []" "src \<noteq> RL_ADDR_ANY" for other m ms
  proof -
    have "echo_round ops show True buf_len p ri' = Inl Assert_Failed"
      by (rule stray_message_stops_echo [OF assms(1) r(4), of other m ms]) (use r that in auto)
    then have "echo_rounds 1 ops show True buf_len p ri' = Inl Assert_Failed" by (simp add: One_nat_def)
    then show ?thesis unfolding echo_rounds_more r(1) by simp
  qed
  then show ?thesis using r(1-3) by blast
qed

text \<open>A library that keeps messages as lists, for the examples.\<close>

type_synonym box = "(rl_queue \<Rightarrow> (u32 \<times> u8 list) list) \<times> (rl_endpoint \<times> u32 \<times> u8 list) list"

definition box_lib :: "box rl_ops" where
  "box_lib =
     \<lparr>rpmsg_queue_create = Pair (Some 1), rpmsg_queue_destroy = (\<lambda>q w. w),
      rpmsg_queue_recv = (\<lambda>q n w. case fst w q of
          [] \<Rightarrow> ((- 1, 0, []), w)
        | (src, data) # ms \<Rightarrow> if n < length data then ((- 2, src, []), w)
            else ((RL_SUCCESS, src, data), (fst w)(q := ms), snd w)),
      rpmsg_lite_create_ept = (\<lambda>a q. Pair (Some 1)), rpmsg_lite_destroy_ept = (\<lambda>e. Pair RL_SUCCESS),
      rpmsg_lite_get_endpoint = (\<lambda>a w. None),
      rpmsg_lite_send = (\<lambda>e d x w. if RL_PAYLOAD < length x then (- 1, w) else (RL_SUCCESS, fst w, snd w @ [(e, d, x)])),
      rpmsg_ns_announce = (\<lambda>e s f. Pair RL_SUCCESS)\<rparr>"

lemma box_delivers: "delivers box_lib fst snd"
  by (auto simp: delivers_def box_lib_def)

definition box_ri :: "u32 \<Rightarrow> (rl_queue \<Rightarrow> (u32 \<times> u8 list) list) \<Rightarrow> box rpmsg_instance" where
  "box_ri a qs = \<lparr>rl = (qs, []), mode = False, rpmsg_src = 1,
     epts = [0 \<mapsto> \<lparr>sn = ''e'', ept_q = 3, rl_ept = 30, remote_addr = a\<rparr>], next_ept = 1, rfu = [30 \<mapsto> 0], ns_mq = []\<rparr>"

lemma echo_returns_messages_witness:
  "\<exists>ri'. echo_rounds 2 box_lib True True 512 0 (box_ri RL_ADDR_ANY (\<lambda>q. if q = 3 then [(9, [104, 105]), (9, [0xd, 0xa])] else []))
      = Inr ([Message [104, 105] 2, New_Line], ri')
    \<and> snd (rl ri') = [(30, 9, [104, 105]), (30, 9, [0xd, 0xa])]"
proof -
  let ?qs = "\<lambda>q :: rl_queue. if q = 3 then [(9 :: u32, [104, 105 :: u8]), (9, [0xd, 0xa])] else []"
  let ?ri = "box_ri RL_ADDR_ANY ?qs" and ?ms = "[[104, 105], [0xd, 0xa]] :: u8 list list"
  define e where "e = \<lparr>sn = ''e'', ept_q = 3, rl_ept = 30, remote_addr = RL_ADDR_ANY\<rparr>"
  have p: "epts ?ri 0 = Some e" "remote_addr e \<in> {RL_ADDR_ANY, 9}"
    "fst (rl ?ri) (ept_q e) = map (Pair 9) ?ms @ []" "\<forall>m \<in> set ?ms. length m < 512 \<and> length m \<le> RL_PAYLOAD"
    by (simp_all add: e_def box_ri_def RL_PAYLOAD_def)
  have m: "map echo_shows ?ms = [Message [104, 105] 2, New_Line]" "length ?ms = 2"
    by (simp_all add: echo_shows_def)
  show ?thesis
    using echo_returns_messages [OF box_delivers p, of True, unfolded m] by (auto simp: e_def box_ri_def)
qed

text \<open>The terminating zero of a message that fills the buffer is written after its end.\<close>

lemma full_message_overruns:
  assumes "delivers ops pending sent" "epts ri p = Some e" "remote_addr e \<in> {RL_ADDR_ANY, src}"
    and "pending (rl ri) (ept_q e) = (src, data) # ms" "length data = buf_len"
  shows "echo_round ops show echo buf_len p ri = Inl Out_Of_Bounds"
proof -
  obtain ri1 where "rpmsg_recv ops p buf_len ri = Inr (RL_SUCCESS, data, ri1)"
    by (rule recv_delivers [OF assms(1-4), of buf_len]) (use assms(5) in simp)
  then show ?thesis using assms(5) by (simp add: echo_round_def RL_SUCCESS_def)
qed

section \<open>A failed set-up takes everything back\<close>

text \<open>
  What the task made so far, last first, over the instance it began with: unwinding it leads back.
\<close>

definition withdraws :: "'w rl_ops \<Rightarrow> bool" where
  "withdraws ops \<longleftrightarrow> (\<forall>e s w. fst (rpmsg_ns_announce ops e s RL_NS_DESTROY w) = RL_SUCCESS)"

fun made_from :: "('w \<Rightarrow> rl_view) \<Rightarrow> 'w rpmsg_instance \<Rightarrow> nat list \<Rightarrow> 'w rpmsg_instance \<Rightarrow> bool" where
  "made_from view ri0 [] ri \<longleftrightarrow> view (rl ri) = view (rl ri0) \<and> epts ri = epts ri0 \<and> rfu ri = rfu ri0"
| "made_from view ri0 (p # ps) ri \<longleftrightarrow>
     (\<exists>e. epts ri p = Some e \<and>
       (\<forall>ri'. view (rl ri') = \<lparr>queues = queues (view (rl ri)) - {ept_q e}, eps = (eps (view (rl ri)))(rl_ept e := None)\<rparr>
          \<longrightarrow> epts ri' = (epts ri)(p := None) \<longrightarrow> rfu ri' = (rfu ri)(rl_ept e := None) \<longrightarrow> made_from view ri0 ps ri'))"

lemma made_from_cong:
  "view (rl ri1) = view (rl ri) \<Longrightarrow> epts ri1 = epts ri \<Longrightarrow> rfu ri1 = rfu ri \<Longrightarrow>
   made_from view ri0 ps ri1 = made_from view ri0 ps ri"
  by (cases ps) simp_all

lemma destroy_withdraws:
  assumes "rl_ok ops view" "owned view ri" "withdraws ops" "epts ri p = Some e"
  obtains ri' where "rpmsg_destroy_ept ops p ri = Inr (RL_SUCCESS, ri')" "owned view ri'"
    "view (rl ri') = \<lparr>queues = queues (view (rl ri)) - {ept_q e}, eps = (eps (view (rl ri)))(rl_ept e := None)\<rparr>"
    "epts ri' = (epts ri)(p := None)" "rfu ri' = (rfu ri)(rl_ept e := None)"
proof -
  obtain w1 where an: "(if mode ri then (RL_SUCCESS, rl ri)
      else rpmsg_ns_announce ops (rl_ept e) (sn e) RL_NS_DESTROY (rl ri)) = (RL_SUCCESS, w1)"
    using assms(3) unfolding withdraws_def by (metis prod.collapse)
  have "view w1 = view (rl ri)"
    using an other_views(1) [OF assms(1), of "rl_ept e" "sn e" RL_NS_DESTROY "rl ri"] by (auto split: if_splits)
  then obtain w2 where "rpmsg_lite_destroy_ept ops (rl_ept e) w1 = (RL_SUCCESS, w2)"
    using destroy_succeeds [OF assms(1), of w1 "rl_ept e"] ownedD(3) [OF assms(2,4)] by auto
  then obtain ri' where d: "rpmsg_destroy_ept ops p ri = Inr (RL_SUCCESS, ri')"
    using assms(4) an by (simp add: rpmsg_destroy_ept_def deref_def)
  then show thesis
    using that [OF d destroy_owned [OF assms(1,2,4) d]] destroy_spec [OF assms(1,2,4) d] by simp
qed

lemma created_made:
  assumes "owned view ri" "created view a name ri p ri'" "made_from view ri0 ps ri"
  shows "made_from view ri0 (p # ps) ri'"
proof -
  obtain q e where c: "q \<notin> queues (view (rl ri))" "eps (view (rl ri)) e = None"
      "view (rl ri') = \<lparr>queues = insert q (queues (view (rl ri))), eps = (eps (view (rl ri)))(e \<mapsto> a)\<rparr>"
      "epts ri' = (epts ri)(p \<mapsto> \<lparr>sn = name, ept_q = q, rl_ept = e, remote_addr = RL_ADDR_ANY\<rparr>)"
      "rfu ri' = (rfu ri)(e \<mapsto> p)" "p = next_ept ri"
    using assms(2) by (auto simp: created_def)
  have fresh: "epts ri p = None" using ownedD(1) [OF assms(1), of p] c(6) by fastforce
  have "rfu ri e = None"
  proof (rule ccontr)
    assume "rfu ri e \<noteq> None"
    then obtain x y where "rfu ri e = Some x" "epts ri x = Some y" "rl_ept y = e"
      using assms(1) unfolding owned_def by blast
    then show False using ownedD(3) [OF assms(1), of x y] c(2) by simp
  qed
  moreover have "\<lparr>queues = insert q (queues (view (rl ri))) - {q}, eps = (eps (view (rl ri)))(e := None)\<rparr> = view (rl ri)"
    using c(1,2) by (intro rl_view.equality) (auto simp: fun_upd_idem)
  ultimately have "made_from view ri0 ps ri''"
    if "view (rl ri'') = \<lparr>queues = queues (view (rl ri')) - {q}, eps = (eps (view (rl ri')))(e := None)\<rparr>"
      "epts ri'' = (epts ri')(p := None)" "rfu ri'' = (rfu ri')(e := None)" for ri''
    using that assms(3) fresh c(3-5) made_from_cong [of view ri'' ri ri0 ps] by (simp add: fun_upd_idem)
  then show ?thesis by (simp add: c(4))
qed

lemma unwind_leads_back:
  assumes "rl_ok ops view" "withdraws ops" "owned view ri" "made_from view ri0 ps ri"
  shows "\<exists>ri'. unwind_epts ops ps ri tasks = Inr (ri', tasks - set ps) \<and> made_from view ri0 [] ri'"
  using assms(3,4)
proof (induction ps arbitrary: ri tasks)
  case (Cons p ps)
  then obtain e where e: "epts ri p = Some e"
    "\<And>ri'. view (rl ri') = \<lparr>queues = queues (view (rl ri)) - {ept_q e}, eps = (eps (view (rl ri)))(rl_ept e := None)\<rparr>
          \<Longrightarrow> epts ri' = (epts ri)(p := None) \<Longrightarrow> rfu ri' = (rfu ri)(rl_ept e := None) \<Longrightarrow> made_from view ri0 ps ri'"
    by auto
  obtain ri1 where d: "rpmsg_destroy_ept ops p ri = Inr (RL_SUCCESS, ri1)" "owned view ri1"
    "view (rl ri1) = \<lparr>queues = queues (view (rl ri)) - {ept_q e}, eps = (eps (view (rl ri)))(rl_ept e := None)\<rparr>"
    "epts ri1 = (epts ri)(p := None)" "rfu ri1 = (rfu ri)(rl_ept e := None)"
    by (rule destroy_withdraws [OF assms(1) Cons.prems(1) assms(2) e(1)])
  have "tasks - set (p # ps) = tasks - {p} - set ps" by auto
  then show ?case
    using Cons.IH [OF d(2) e(2) [OF d(3-5)], of "tasks - {p}"] d(1) by simp
qed simp

lemma created_grows:
  assumes "owned view ri" "created view a name ri p ri'"
  shows "epts ri \<subseteq>\<^sub>m epts ri'" "eps (view (rl ri)) \<subseteq>\<^sub>m eps (view (rl ri'))"
    "\<exists>e. epts ri' p = Some e \<and> eps (view (rl ri')) (rl_ept e) = Some a"
proof -
  have "epts ri p = None" using ownedD(1) [OF assms(1), of p] assms(2) by (fastforce simp: created_def)
  then show "epts ri \<subseteq>\<^sub>m epts ri'" "eps (view (rl ri)) \<subseteq>\<^sub>m eps (view (rl ri'))"
    "\<exists>e. epts ri' p = Some e \<and> eps (view (rl ri')) (rl_ept e) = Some a"
    using assms(2) by (auto simp: created_def map_le_def)
qed

lemma unwind_one:
  assumes "rl_ok ops view" "withdraws ops" "owned view ri" "made_from view ri0 (p # ps) ri"
  obtains ri1 where "rpmsg_destroy_ept ops p ri = Inr (RL_SUCCESS, ri1)" "owned view ri1" "made_from view ri0 ps ri1"
proof -
  obtain e where e: "epts ri p = Some e"
    "\<And>ri'. view (rl ri') = \<lparr>queues = queues (view (rl ri)) - {ept_q e}, eps = (eps (view (rl ri)))(rl_ept e := None)\<rparr>
          \<Longrightarrow> epts ri' = (epts ri)(p := None) \<Longrightarrow> rfu ri' = (rfu ri)(rl_ept e := None) \<Longrightarrow> made_from view ri0 ps ri'"
    using assms(4) by auto
  obtain ri1 where d: "rpmsg_destroy_ept ops p ri = Inr (RL_SUCCESS, ri1)" "owned view ri1"
    "view (rl ri1) = \<lparr>queues = queues (view (rl ri)) - {ept_q e}, eps = (eps (view (rl ri)))(rl_ept e := None)\<rparr>"
    "epts ri1 = (epts ri)(p := None)" "rfu ri1 = (rfu ri)(rl_ept e := None)"
    by (rule destroy_withdraws [OF assms(1,3,2) e(1)])
  show thesis by (rule that [OF d(1,2) e(2) [OF d(3-5)]])
qed

text \<open>All endpoints and their tasks are there, or what there was before.\<close>

definition all_served :: "('w \<Rightarrow> rl_view) \<Rightarrow> 'w rpmsg_instance \<Rightarrow> nat set \<Rightarrow> u32 list \<Rightarrow> bool" where
  "all_served view ri tasks addrs \<longleftrightarrow> owned view ri \<and>
     (\<forall>a \<in> set addrs. \<exists>p \<in> tasks. \<exists>e. epts ri p = Some e \<and> eps (view (rl ri)) (rl_ept e) = Some a)"

lemma create_all_or_nothing:
  assumes ok: "rl_ok ops view" and wd: "withdraws ops"
    and "owned view ri" "made_from view ri0 made ri" "tasks \<subseteq> set made"
  shows "\<exists>up ri' tasks'. create_epts ops name addrs made ri tasks = Inr (up, ri', tasks')
    \<and> (if up then epts ri \<subseteq>\<^sub>m epts ri' \<and> eps (view (rl ri)) \<subseteq>\<^sub>m eps (view (rl ri')) \<and> tasks \<subseteq> tasks'
           \<and> all_served view ri' tasks' (map fst addrs)
       else made_from view ri0 [] ri' \<and> tasks' = {})"
  using assms(3-5)
proof (induction addrs arbitrary: made ri tasks)
  case Nil
  then show ?case by (auto simp: all_served_def)
next
  case (Cons x addrs)
  have unwound: "\<exists>ri'. unwind_epts ops made ri2 tasks = Inr (ri', {}) \<and> made_from view ri0 [] ri'"
    if "owned view ri2" "made_from view ri0 made ri2" for ri2
  proof -
    have z: "tasks - set made = {}" using Cons.prems(3) by auto
    show ?thesis by (rule unwind_leads_back [OF ok wd that, of tasks, unfolded z])
  qed
  obtain addr m t where x: "x = (addr, m, t)" by (cases x)
  obtain res ri1 where c: "rpmsg_create_ept ops m addr name ri = (res, ri1)" by (metis surj_pair)
  show ?case
  proof (cases res)
    case None
    then have n: "not_created view ri ri1" using create_spec [OF ok Cons.prems(1) c] by simp
    have "made_from view ri0 made ri1"
      using n Cons.prems(2) made_from_cong [of view ri1 ri ri0 made] by (simp add: not_created_def)
    from unwound [OF not_created_owned [OF Cons.prems(1) n] this]
    show ?thesis using c None x by auto
  next
    case (Some p)
    then have n: "created view addr name ri p ri1" using create_spec [OF ok Cons.prems(1) c] by simp
    have o1: "owned view ri1" by (rule created_owned [OF Cons.prems(1) n])
    have made: "made_from view ri0 (p # made) ri1" by (rule created_made [OF Cons.prems(1) n Cons.prems(2)])
    show ?thesis
    proof (cases t)
      case False
      obtain ri2 where "rpmsg_destroy_ept ops p ri1 = Inr (RL_SUCCESS, ri2)" "owned view ri2" "made_from view ri0 made ri2"
        by (rule unwind_one [OF ok wd o1 made])
      then show ?thesis using unwound [of ri2] c Some x False by auto
    next
      case True
      have "insert p tasks \<subseteq> set (p # made)" using Cons.prems(3) by auto
      from Cons.IH [OF o1 made this] obtain up ri' tasks' where i:
        "create_epts ops name addrs (p # made) ri1 (insert p tasks) = Inr (up, ri', tasks')"
        "if up then epts ri1 \<subseteq>\<^sub>m epts ri' \<and> eps (view (rl ri1)) \<subseteq>\<^sub>m eps (view (rl ri')) \<and> insert p tasks \<subseteq> tasks'
           \<and> all_served view ri' tasks' (map fst addrs) else made_from view ri0 [] ri' \<and> tasks' = {}"
        by blast
      have e: "create_epts ops name (x # addrs) made ri tasks = Inr (up, ri', tasks')"
        using i(1) c Some x True by simp
      show ?thesis
      proof (cases up)
        case False
        then have "create_epts ops name (x # addrs) made ri tasks = Inr (False, ri', {}) \<and> made_from view ri0 [] ri'"
          using e i(2) by simp
        then show ?thesis by (intro exI [of _ False] exI [of _ ri'] exI [of _ "{}"]) simp
      next
        case up: True
        note g = created_grows [OF Cons.prems(1) n]
        have "\<exists>e. epts ri' p = Some e \<and> eps (view (rl ri')) (rl_ept e) = Some addr"
          using g(3) up i(2) by (auto simp: map_le_def dom_def)
        then have "all_served view ri' tasks' (map fst (x # addrs))"
          using i(2) up x by (auto simp: all_served_def)
        then show ?thesis using e i(2) up g(1,2) by (auto intro: map_le_trans)
      qed
    qed
  qed
qed

text \<open>
  C12: The set-up of the echo makes all its endpoints or none: whatever call fails, the task
  ends holding nothing -- the queues and endpoints of the library, the objects and the back pointers
  are those it began with, no task is left and of the instance only the registration of the software
  mailbox -- and when none fails every address has an endpoint with a task that serves it. The
  name service takes the withdrawals.
\<close>

theorem echo_setup_all_or_nothing:
  assumes "rl_ok ops view" "owned view ri" "withdraws ops"
  shows "\<exists>up ri' tasks h. echo_init_task ops shared r name addrs ri = Inr (up, ri', tasks, h)
    \<and> (if up then all_served view ri' tasks (map fst addrs) \<and> {Instance_Mem, Rl_Instance} \<subseteq> h
       else view (rl ri') = view (rl ri) \<and> epts ri' = epts ri \<and> rfu ri' = rfu ri \<and> tasks = {} \<and> h \<subseteq> {Mailbox})"
proof -
  obtain up h where i: "rpmsg_init shared (Some False) r {} = (up, h)" by (metis surj_pair)
  have h: "if up then {Instance_Mem, Rl_Instance} \<subseteq> h \<and> rpmsg_deinit shared False h \<subseteq> {Mailbox} else h \<subseteq> {Mailbox}"
    using i by (auto simp: rpmsg_setup Let_def split: if_splits)
  obtain up' ri' tasks where c: "create_epts ops name addrs [] ri {} = Inr (up', ri', tasks)"
    "if up' then all_served view ri' tasks (map fst addrs) else made_from view ri [] ri' \<and> tasks = {}"
    using create_all_or_nothing [OF assms(1,3,2), of ri "[]" "{}" name addrs] by (auto split: if_splits)
  show ?thesis using i h c by (auto simp: echo_init_task_def split: if_splits)
qed

lemma echo_setup_all_or_nothing_witness:
  "\<exists>ri' tasks h. echo_init_task ex_lib False \<lparr>r_malloc = True, r_map_rpmsg = True, r_map_vring = True, r_rl_init = True,
        r_mq_open = True, r_task = True, r_bind = True\<rparr> ''e'' [(6, True, True), (7, True, True), (7, True, True)] (ex_ri False)
      = Inr (False, ri', tasks, h) \<and> ex_view (rl ri') = ex_view (rl (ex_ri False)) \<and> tasks = {}"
proof -
  let ?r = "\<lparr>r_malloc = True, r_map_rpmsg = True, r_map_vring = True, r_rl_init = True,
        r_mq_open = True, r_task = True, r_bind = True\<rparr>"
  let ?as = "[(6, True, True), (7, True, True), (7, True, True)] :: (u32 \<times> bool \<times> bool) list"
  have w: "withdraws ex_lib" by (simp add: withdraws_def ex_lib_def RL_SUCCESS_def)
  obtain ri' tasks h where e: "echo_init_task ex_lib False ?r ''e'' ?as (ex_ri False) = Inr (False, ri', tasks, h)"
    by (simp add: echo_init_task_def rpmsg_setup Let_def rpmsg_create_ept_def ex_ri_def ex_lib_def RL_SUCCESS_def
        rpmsg_destroy_ept_def deref_def)
  then show ?thesis
    using echo_setup_all_or_nothing [OF ex_ok ex_new(2) [of False] w, of False ?r "''e''" ?as] by auto
qed

section \<open>Ping-pong\<close>

text \<open>
  The counter of the message is sent as its four bytes; a reception overwrites as many bytes of it as
  the message has.
\<close>

definition msg_in :: "u32 \<Rightarrow> u8 list \<Rightarrow> u32" where
  "msg_in m data = ucast (of_le_bytes (data @ drop (length data) (le_bytes 4 (ucast m))))"

text \<open>The master's loop body: it sends its counter, waits for the answer and adds one.\<close>

definition ping_send ::
    "'w rl_ops \<Rightarrow> nat \<Rightarrow> u32 \<Rightarrow> 'w rpmsg_instance \<Rightarrow> 'w rpmsg_instance outcome" where
  "ping_send ops p msg ri =
     and_then (rpmsg_send ops p (le_bytes 4 (ucast msg)) ri) (\<lambda>(ret, ri1). os_assert (ret = 0) (Inr ri1))"

definition ping_recv ::
    "'w rl_ops \<Rightarrow> nat \<Rightarrow> u32 \<Rightarrow> 'w rpmsg_instance \<Rightarrow> (u32 \<times> u32 \<times> 'w rpmsg_instance) outcome" where
  "ping_recv ops p msg ri =
     and_then (rpmsg_recv ops p 4 ri) (\<lambda>(ret, data, ri1).
       os_assert (ret = 0) (let pong = msg_in msg data in Inr (pong, pong + 1, ri1)))"

text \<open>The remote's: it waits for a message, adds one and sends it back with the length it came with.\<close>

definition pong_round ::
    "'w rl_ops \<Rightarrow> nat \<Rightarrow> u32 \<Rightarrow> 'w rpmsg_instance \<Rightarrow> (u32 \<times> 'w rpmsg_instance) outcome" where
  "pong_round ops p msg ri =
     and_then (rpmsg_recv ops p 4 ri) (\<lambda>(ret, data, ri1).
       os_assert (ret = 0)
        (let msg1 = msg_in msg data + 1
         in and_then (rpmsg_send ops p (take (length data) (le_bytes 4 (ucast msg1))) ri1) (\<lambda>(ret, ri2).
              os_assert (ret = 0) (Inr (msg1, ri2)))))"

text \<open>
  Both cores play over one state of the library, which holds the shared memory; each waits for the
  other. A core that waits for one that has left its loop waits for ever. The result has the pings and
  pongs the master prints.
\<close>

type_synonym 'w game = "u32 \<times> 'w rpmsg_instance \<times> u32 \<times> 'w rpmsg_instance"

definition exchange ::
    "'w rl_ops \<Rightarrow> 'w rl_ops \<Rightarrow> nat \<Rightarrow> nat \<Rightarrow> 'w game \<Rightarrow> ((u32 \<times> u32) \<times> 'w game) outcome" where
  "exchange opsM opsR pm pr = (\<lambda>(mm, mri, rm, rri).
     and_then (ping_send opsM pm mm mri) (\<lambda>mri1.
     if 100 < rm then Inl Deadlock
     else and_then (pong_round opsR pr rm (rri\<lparr>rl := rl mri1\<rparr>)) (\<lambda>(rm1, rri1).
     and_then (ping_recv opsM pm mm (mri1\<lparr>rl := rl rri1\<rparr>)) (\<lambda>(pong, mm1, mri2).
       Inr ((mm, pong), (mm1, mri2, rm1, rri1))))))"

fun play ::
    "nat \<Rightarrow> 'w rl_ops \<Rightarrow> 'w rl_ops \<Rightarrow> nat \<Rightarrow> nat \<Rightarrow> 'w game \<Rightarrow> ((u32 \<times> u32) list \<times> 'w game) outcome" where
  "play 0 opsM opsR pm pr g = Inl Diverges"
| "play (Suc n) opsM opsR pm pr g =
     (if 100 < fst g then Inr ([], g)
      else and_then (exchange opsM opsR pm pr g) (\<lambda>(x, g1).
        and_then (play n opsM opsR pm pr g1) (\<lambda>(xs, g2). Inr (x # xs, g2))))"

text \<open>From the start of both loops to their end; the remote clears its counter after its loop.\<close>

definition ping_pong ::
    "nat \<Rightarrow> 'w rl_ops \<Rightarrow> 'w rl_ops \<Rightarrow> nat \<Rightarrow> nat \<Rightarrow> 'w rpmsg_instance \<Rightarrow> 'w rpmsg_instance \<Rightarrow>
       ((u32 \<times> u32) list \<times> 'w game) outcome" where
  "ping_pong n opsM opsR pm pr mri rri =
     and_then (play n opsM opsR pm pr (0, mri, 0, rri)) (\<lambda>(xs, mm, mri1, rm, rri1).
       if rm \<le> 100 then Inl Deadlock else Inr (xs, mm, mri1, 0, rri1))"

text \<open>The start of the remote, \<open>rpmsg_init_task\<close> of \<open>main_remote.c\<close>.\<close>

definition pong_init_task ::
    "'w rl_ops \<Rightarrow> bool \<Rightarrow> init_results \<Rightarrow> string \<Rightarrow> u32 \<Rightarrow> bool \<Rightarrow> bool \<Rightarrow> 'w rpmsg_instance \<Rightarrow>
       (bool \<times> 'w rpmsg_instance \<times> nat set \<times> resource set) outcome" where
  "pong_init_task ops shared r name addr malloc_ok task_ok ri =
     (let (up, h) = rpmsg_init shared (Some False) r {}
      in if \<not> up then Inr (False, ri, {}, h)
         else case rpmsg_create_ept ops malloc_ok addr name ri of
           (None, ri1) \<Rightarrow> Inr (False, ri1, {}, rpmsg_deinit shared False h)
         | (Some p, ri1) \<Rightarrow>
             if task_ok then Inr (True, ri1, {p}, h)
             else and_then (rpmsg_destroy_ept ops p ri1) (\<lambda>(_, ri2). Inr (False, ri2, {}, rpmsg_deinit shared False h)))"

lemma pong_init_is_echo_init:
  "pong_init_task ops shared r name addr malloc_ok task_ok ri
     = echo_init_task ops shared r name [(addr, malloc_ok, task_ok)] ri"
  by (auto simp: pong_init_task_def echo_init_task_def and_then_assoc split: prod.split option.split and_then_splits)

section \<open>The game ends\<close>

text \<open>
  \<open>carries\<close>: what is sent from endpoint \<open>e\<close> to address \<open>d\<close> arrives in queue \<open>q\<close> with source \<open>src\<close>;
  \<open>yields\<close>: a reception takes the oldest message.
\<close>

definition carries ::
    "'w rl_ops \<Rightarrow> ('w \<Rightarrow> rl_queue \<Rightarrow> (u32 \<times> u8 list) list) \<Rightarrow> rl_endpoint \<Rightarrow> u32 \<Rightarrow> rl_queue \<Rightarrow> u32 \<Rightarrow> bool" where
  "carries ops pending e d q src \<longleftrightarrow>
     (\<forall>w x. length x \<le> RL_PAYLOAD \<longrightarrow>
        (\<exists>w'. rpmsg_lite_send ops e d x w = (RL_SUCCESS, w') \<and> pending w' = (pending w)(q := pending w q @ [(src, x)])))"

definition yields :: "'w rl_ops \<Rightarrow> ('w \<Rightarrow> rl_queue \<Rightarrow> (u32 \<times> u8 list) list) \<Rightarrow> rl_queue \<Rightarrow> bool" where
  "yields ops pending q \<longleftrightarrow>
     (\<forall>w n src x ms. pending w q = (src, x) # ms \<longrightarrow> length x \<le> n \<longrightarrow>
        (\<exists>w'. rpmsg_queue_recv ops q n w = ((RL_SUCCESS, src, x), w') \<and> pending w' = (pending w)(q := ms)))"

text \<open>An endpoint object with its queue, its endpoint and a peer it accepts.\<close>

definition at_end :: "'w rpmsg_instance \<Rightarrow> nat \<Rightarrow> rl_queue \<Rightarrow> rl_endpoint \<Rightarrow> u32 set \<Rightarrow> bool" where
  "at_end ri p q e peers \<longleftrightarrow> (\<exists>x. epts ri p = Some x \<and> ept_q x = q \<and> rl_ept x = e \<and> remote_addr x \<in> peers)"

lemma at_end_rl [simp]: "at_end (ri\<lparr>rl := w\<rparr>) p q e peers = at_end ri p q e peers"
  by (simp add: at_end_def)

lemma send_carries:
  assumes "carries ops pending e d q src" "at_end ri p q' e {d}" "length x \<le> RL_PAYLOAD"
  obtains ri' where "rpmsg_send ops p x ri = Inr (RL_SUCCESS, ri')" "at_end ri' p q' e {d}"
    "pending (rl ri') = (pending (rl ri))(q := pending (rl ri) q @ [(src, x)])"
proof -
  obtain w' where "rpmsg_lite_send ops e d x (rl ri) = (RL_SUCCESS, w')"
      "pending w' = (pending (rl ri))(q := pending (rl ri) q @ [(src, x)])"
    using assms(1,3) unfolding carries_def by blast
  then show thesis using that [of "ri\<lparr>rl := w'\<rparr>"] assms(2) by (auto simp: rpmsg_send_def deref_def at_end_def)
qed

lemma recv_yields:
  assumes "yields ops pending q" "at_end ri p q e {RL_ADDR_ANY, src}" "pending (rl ri) q = (src, data) # ms" "length data \<le> n"
  obtains ri' where "rpmsg_recv ops p n ri = Inr (RL_SUCCESS, data, ri')" "at_end ri' p q e {src}"
    "pending (rl ri') = (pending (rl ri))(q := ms)"
proof -
  obtain w' where "rpmsg_queue_recv ops q n (rl ri) = ((RL_SUCCESS, src, data), w')" "pending w' = (pending (rl ri))(q := ms)"
    using assms(1,3,4) unfolding yields_def by blast
  moreover obtain x where x: "epts ri p = Some x" "ept_q x = q" "rl_ept x = e" "remote_addr x \<in> {RL_ADDR_ANY, src}"
    using assms(2) by (auto simp: at_end_def)
  define ri' where "ri' = (if remote_addr x = RL_ADDR_ANY
    then ri\<lparr>rl := w', epts := (epts ri)(p \<mapsto> x\<lparr>remote_addr := src\<rparr>)\<rparr> else ri\<lparr>rl := w'\<rparr>)"
  ultimately have "rpmsg_recv ops p n ri = Inr (RL_SUCCESS, data, ri')" "at_end ri' p q e {src}"
    "pending (rl ri') = (pending (rl ri))(q := ms)"
    using x by (auto simp: rpmsg_recv_def deref_def at_end_def Let_def)
  then show thesis by (rule that)
qed

lemma msg_in_bytes [simp]: "msg_in m (le_bytes 4 (ucast n)) = n"
proof -
  have "msg_in m (le_bytes 4 (ucast n)) = ucast (take_bit 32 (ucast n :: u64))"
    by (simp add: msg_in_def of_le_bytes_le_bytes)
  also have "\<dots> = n" by (rule bit_word_eqI) (auto simp: bit_simps)
  finally show ?thesis .
qed

lemma peers_mono: "at_end ri p q e A \<Longrightarrow> A \<subseteq> B \<Longrightarrow> at_end ri p q e B"
  by (auto simp: at_end_def)

text \<open>One exchange: the remote answers the ping with its successor.\<close>

lemma exchange_counts:
  assumes link: "carries opsM pending em ar qr am" "carries opsR pending er am qm ar"
      "yields opsM pending qm" "yields opsR pending qr" "qm \<noteq> qr"
    and ends: "at_end mri pm qm em {ar}" "at_end rri pr qr er {RL_ADDR_ANY, am}"
    and empty: "pending (rl mri) qm = []" "pending (rl mri) qr = []" and rm: "rm \<le> 100"
  obtains mri' rri' where "exchange opsM opsR pm pr (mm, mri, rm, rri) = Inr ((mm, mm + 1), (mm + 2, mri', mm + 1, rri'))"
    "at_end mri' pm qm em {ar}" "at_end rri' pr qr er {RL_ADDR_ANY, am}"
    "pending (rl mri') qm = []" "pending (rl mri') qr = []"
proof -
  have l4: "length (le_bytes 4 (ucast (m :: u32))) \<le> RL_PAYLOAD" for m by (simp add: RL_PAYLOAD_def)
  obtain mri1 where s1: "rpmsg_send opsM pm (le_bytes 4 (ucast mm)) mri = Inr (RL_SUCCESS, mri1)" "at_end mri1 pm qm em {ar}"
      "pending (rl mri1) = (pending (rl mri))(qr := pending (rl mri) qr @ [(am, le_bytes 4 (ucast mm))])"
    by (rule send_carries [OF link(1) ends(1) l4])
  define r0 where "r0 = rri\<lparr>rl := rl mri1\<rparr>"
  have r0: "at_end r0 pr qr er {RL_ADDR_ANY, am}" "pending (rl r0) qr = (am, le_bytes 4 (ucast mm)) # []"
    using ends(2) s1(3) empty(2) by (simp_all add: r0_def)
  obtain r1 where v1: "rpmsg_recv opsR pr 4 r0 = Inr (RL_SUCCESS, le_bytes 4 (ucast mm), r1)" "at_end r1 pr qr er {am}"
      "pending (rl r1) = (pending (rl r0))(qr := [])"
    by (rule recv_yields [OF link(4) r0, of 4]) simp_all
  obtain r2 where s2: "rpmsg_send opsR pr (le_bytes 4 (ucast (mm + 1))) r1 = Inr (RL_SUCCESS, r2)" "at_end r2 pr qr er {am}"
      "pending (rl r2) = (pending (rl r1))(qm := pending (rl r1) qm @ [(ar, le_bytes 4 (ucast (mm + 1)))])"
    by (rule send_carries [OF link(2) v1(2) l4])
  define m0 where "m0 = mri1\<lparr>rl := rl r2\<rparr>"
  have m0: "at_end m0 pm qm em {RL_ADDR_ANY, ar}" "pending (rl m0) qm = (ar, le_bytes 4 (ucast (mm + 1))) # []"
    using peers_mono [OF s1(2), of "{RL_ADDR_ANY, ar}"] s1(3) s2(3) v1(3) empty(1) link(5)
    by (simp_all add: m0_def r0_def)
  obtain m1 where v2: "rpmsg_recv opsM pm 4 m0 = Inr (RL_SUCCESS, le_bytes 4 (ucast (mm + 1)), m1)" "at_end m1 pm qm em {ar}"
      "pending (rl m1) = (pending (rl m0))(qm := [])"
    by (rule recv_yields [OF link(3) m0, of 4]) simp_all
  have e: "exchange opsM opsR pm pr (mm, mri, rm, rri) = Inr ((mm, mm + 1), (mm + 2, m1, mm + 1, r2))"
    using s1(1) v1(1) s2(1) v2(1) rm
    by (simp add: exchange_def ping_send_def pong_round_def ping_recv_def RL_SUCCESS_def r0_def m0_def Let_def not_less)
  have "pending (rl m1) qm = []" "pending (rl m1) qr = []"
    using v2(3) s2(3) v1(3) link(5) by (simp_all add: m0_def)
  moreover have "at_end r2 pr qr er {RL_ADDR_ANY, am}" by (rule peers_mono [OF s2(2)]) simp
  ultimately show thesis using that [OF e v2(2)] by blast
qed

lemma play_step:
  "\<not> 100 < mm \<Longrightarrow> exchange opsM opsR pm pr (mm, mri, rm, rri) = Inr (x, g1) \<Longrightarrow>
   play n opsM opsR pm pr g1 = Inr (xs, g2) \<Longrightarrow> play (Suc n) opsM opsR pm pr (mm, mri, rm, rri) = Inr (x # xs, g2)"
  by simp

lemma play_counts:
  assumes link: "carries opsM pending em ar qr am" "carries opsR pending er am qm ar"
      "yields opsM pending qm" "yields opsR pending qr" "qm \<noteq> qr"
  shows "i + k = 51 \<Longrightarrow> at_end mri pm qm em {ar} \<Longrightarrow> at_end rri pr qr er {RL_ADDR_ANY, am} \<Longrightarrow>
    pending (rl mri) qm = [] \<Longrightarrow> pending (rl mri) qr = [] \<Longrightarrow>
    \<exists>mri' rri'. play (Suc k + extra) opsM opsR pm pr (of_nat (2 * i), mri, of_nat (2 * i - 1), rri)
      = Inr (map (\<lambda>j. (of_nat (2 * j), of_nat (2 * j + 1))) [i..<51], (102, mri', 101, rri'))
    \<and> pending (rl mri') qm = [] \<and> pending (rl mri') qr = []"
proof (induction k arbitrary: i mri rri)
  case 0
  then have "i = 51" by simp
  then show ?case using 0 by simp
next
  case (Suc k)
  let ?m = "of_nat (2 * i) :: u32"
  have i: "i < 51" "Suc i + k = 51" using Suc.prems(1) by simp_all
  have u: "unat ?m = 2 * i" "unat (of_nat (2 * i - 1) :: u32) = 2 * i - 1"
    using i(1) by (simp_all only: unat_of_nat_below)
  have r: "(of_nat (2 * i - 1) :: u32) \<le> 100" and m: "\<not> 100 < ?m"
    using u i(1) by (simp_all only: word_le_nat_alt word_less_nat_alt) simp_all
  obtain mri' rri' where e:
    "exchange opsM opsR pm pr (?m, mri, of_nat (2 * i - 1), rri) = Inr ((?m, ?m + 1), (?m + 2, mri', ?m + 1, rri'))"
    "at_end mri' pm qm em {ar}" "at_end rri' pr qr er {RL_ADDR_ANY, am}"
    "pending (rl mri') qm = []" "pending (rl mri') qr = []"
    by (rule exchange_counts [OF link Suc.prems(2-5) r, of ?m])
  have n: "?m + 2 = of_nat (2 * Suc i)" "?m + 1 = of_nat (2 * Suc i - 1)" "?m + 1 = of_nat (2 * i + 1)" by simp_all
  obtain mri'' rri'' where p: "play (Suc k + extra) opsM opsR pm pr (of_nat (2 * Suc i), mri', of_nat (2 * Suc i - 1), rri')
      = Inr (map (\<lambda>j. (of_nat (2 * j), of_nat (2 * j + 1))) [Suc i..<51], (102, mri'', 101, rri''))"
    "pending (rl mri'') qm = []" "pending (rl mri'') qr = []"
    using Suc.IH [OF i(2) e(2-5)] by blast
  from play_step [OF m e(1) [unfolded n(1,2)] p(1)]
  have "play (Suc (Suc k) + extra) opsM opsR pm pr (?m, mri, of_nat (2 * i - 1), rri)
      = Inr ((?m, of_nat (2 * i + 1)) # map (\<lambda>j. (of_nat (2 * j), of_nat (2 * j + 1))) [Suc i..<51], (102, mri'', 101, rri''))"
    unfolding add_Suc [of "Suc k"] n(2) [symmetric] n(3) .
  moreover have l: "[i..<51] = i # [Suc i..<51]" using i(1) by (rule upt_conv_Cons)
  ultimately show ?case using p(2,3) unfolding l list.map by blast
qed

text \<open>
  C11: The ping-pong ends on both cores. When the library carries the messages between the two
  endpoints, the loops are left after 51 exchanges, neither core waits for the other, and the
  exchanges are the pings 0, 2, .., 100, each answered by its successor; no message is left in a queue.
\<close>

theorem ping_pong_ends:
  assumes "carries opsM pending em ar qr am" "carries opsR pending er am qm ar"
      "yields opsM pending qm" "yields opsR pending qr" "qm \<noteq> qr"
    and "at_end mri pm qm em {ar}" "at_end rri pr qr er {RL_ADDR_ANY, am}"
    and "pending (rl mri) qm = []" "pending (rl mri) qr = []" "52 \<le> n"
  shows "\<exists>mri' rri'. ping_pong n opsM opsR pm pr mri rri
      = Inr (map (\<lambda>j. (of_nat (2 * j), of_nat (2 * j + 1))) [0..<51], (102, mri', 0, rri'))
    \<and> pending (rl mri') qm = [] \<and> pending (rl mri') qr = []"
proof -
  obtain extra where n: "n = Suc 51 + extra" using assms(10) le_Suc_ex by fastforce
  have z: "(0 :: nat) + 51 = 51" by simp
  obtain mri' rri' where "play (Suc 51 + extra) opsM opsR pm pr (of_nat (2 * 0), mri, of_nat (2 * 0 - 1), rri)
      = Inr (map (\<lambda>j. (of_nat (2 * j), of_nat (2 * j + 1))) [0..<51], (102, mri', 101, rri'))"
    "pending (rl mri') qm = []" "pending (rl mri') qr = []"
    using play_counts [OF assms(1-5) z assms(6-9), of extra] by blast
  then show ?thesis by (simp add: ping_pong_def n)
qed

text \<open>A shared memory with the queues of both sides, for the example.\<close>

definition wire_lib :: "u32 \<Rightarrow> rl_queue \<Rightarrow> box rl_ops" where
  "wire_lib src q = box_lib\<lparr>rpmsg_lite_send := (\<lambda>e d x w.
     if RL_PAYLOAD < length x then (- 1, w) else (RL_SUCCESS, (fst w)(q := fst w q @ [(src, x)]), snd w))\<rparr>"

lemma wire_laws: "carries (wire_lib src q) fst e d q src" "yields (wire_lib src q) fst q'"
  by (auto simp: carries_def yields_def wire_lib_def box_lib_def)

lemma ping_pong_ends_witness:
  "\<exists>xs mri' rri'. ping_pong 60 (wire_lib 1 4) (wire_lib 30 3) 0 0 (box_ri 30 (\<lambda>_. [])) ((box_ri RL_ADDR_ANY (\<lambda>_. []))\<lparr>epts :=
      [0 \<mapsto> \<lparr>sn = ''r'', ept_q = 4, rl_ept = 7, remote_addr = RL_ADDR_ANY\<rparr>]\<rparr>) = Inr (xs, (102, mri', 0, rri')) \<and> length xs = 51"
proof -
  let ?m = "box_ri 30 (\<lambda>_. [])"
  let ?r = "(box_ri RL_ADDR_ANY (\<lambda>_. []))\<lparr>epts := [0 \<mapsto> \<lparr>sn = ''r'', ept_q = 4, rl_ept = 7, remote_addr = RL_ADDR_ANY\<rparr>]\<rparr>"
  have e: "at_end ?m 0 3 30 {30}" "at_end ?r 0 4 7 {RL_ADDR_ANY, 1}" "fst (rl ?m) 3 = []" "fst (rl ?m) 4 = []"
    by (simp_all add: at_end_def box_ri_def)
  show ?thesis
    using ping_pong_ends [OF wire_laws(1) wire_laws(1) wire_laws(2) wire_laws(2) _ e, of 60] by auto
qed

section \<open>The master finds the remote\<close>

text \<open>
  The master's wait for the announcement: it polls, and between two polls the name service may serve a
  message. The list has the results of the allocations of these turns; without an endpoint at its end
  the master still waits.
\<close>

fun wait_endpoint ::
    "'w rl_ops \<Rightarrow> u32 \<Rightarrow> bool list \<Rightarrow> 'w rpmsg_instance \<Rightarrow> (nat option \<times> 'w rpmsg_instance) outcome" where
  "wait_endpoint ops dst [] ri = and_then (rpmsg_get_endpoint_by_dst ops ri dst) (\<lambda>p. Inr (p, ri))"
| "wait_endpoint ops dst (m # ms) ri =
     and_then (rpmsg_get_endpoint_by_dst ops ri dst) (\<lambda>p.
       if p = None then and_then (rpmsg_nameservice_task ops m ri) (wait_endpoint ops dst ms) else Inr (p, ri))"

lemma wait_finds_bound:
  assumes "rl_ok ops view" "owned view ri" "wait_endpoint ops dst ms ri = Inr (Some p, ri')"
  shows "owned view ri' \<and> (\<exists>e. epts ri' p = Some e \<and> remote_addr e = dst)"
  using assms(2,3)
proof (induction ms arbitrary: ri)
  case Nil
  then show ?case using lookup_live [OF Nil.prems(1)] by (auto simp: outcome_simps)
next
  case (Cons m ms)
  obtain q where q: "rpmsg_get_endpoint_by_dst ops ri dst = Inr q" using Cons.prems(2) by (auto simp: outcome_simps)
  show ?case
  proof (cases q)
    case None
    then obtain ri1 where "rpmsg_nameservice_task ops m ri = Inr ri1" "wait_endpoint ops dst ms ri1 = Inr (Some p, ri')"
      using Cons.prems(2) q by (auto simp: outcome_simps)
    then show ?thesis using Cons.IH step_owned [OF assms(1) rpmsg_step.Service Cons.prems(1)] by blast
  next
    case (Some x)
    then show ?thesis using Cons.prems q lookup_live [OF Cons.prems(1)] by auto
  qed
qed

end
