(* ===== verification/Rpmsg_Perf.thy ===== *)
theory Rpmsg_Perf
  imports Rpmsg_Apps
begin


text \<open>
  The RPMsg throughput test, \<open>src/apps/rpmsg_perf/freertos/main.c\<close>, over the endpoints of \<open>Rpmsg\<close>: the
  division of data into messages, the sending and the receiving task as rounds of their loops, and the
  protocol of headers by which the host starts and ends a test.

  The calls of RPMsg-Lite that hand out its buffers are parameters beside those of \<open>Rpmsg\<close>. The loops
  that wait for a buffer have fuel: how often they may be refused.
\<close>

section \<open>Headers\<close>

definition APP_BUFFER_PAYLOAD_SIZE :: nat where "APP_BUFFER_PAYLOAD_SIZE = 496"
definition SENDER_START :: u32 where "SENDER_START = 0xBECAACEA"
definition SENDER_END :: u32 where "SENDER_END = 0xBECAACEB"
definition SENDER_END_ACK :: u32 where "SENDER_END_ACK = 0xBECAACEC"
definition RECEIVER_START :: u32 where "RECEIVER_START = 0xBECAACED"
definition RECEIVER_END :: u32 where "RECEIVER_END = 0xBECAACEE"
definition RECEIVER_END_ACK :: u32 where "RECEIVER_END_ACK = 0xBECAACEF"

lemmas preambles = SENDER_START_def SENDER_END_def SENDER_END_ACK_def RECEIVER_START_def RECEIVER_END_def
  RECEIVER_END_ACK_def

record packet_header =
  preamble :: u32
  h_no_copy :: bool
  h_packet_size :: u32
  packet_cnt :: u32
  test_time :: u32

text \<open>The header in memory, with three bytes of padding after the flag, and its fields in a buffer.\<close>

definition put32 :: "u32 \<Rightarrow> u8 list" where "put32 x = le_bytes 4 (ucast x)"

definition get32 :: "nat \<Rightarrow> u8 list \<Rightarrow> u32" where "get32 i mem = ucast (of_le_bytes (take 4 (drop i mem)))"

definition header_bytes :: "packet_header \<Rightarrow> u8 list" where
  "header_bytes h = put32 (preamble h) @ [if h_no_copy h then 1 else 0, 0, 0, 0] @ put32 (h_packet_size h)
     @ put32 (packet_cnt h) @ put32 (test_time h)"

definition header_of :: "u8 list \<Rightarrow> packet_header" where
  "header_of mem = \<lparr>preamble = get32 0 mem, h_no_copy = mem ! 4 \<noteq> 0, h_packet_size = get32 8 mem,
     packet_cnt = get32 12 mem, test_time = get32 16 mem\<rparr>"

definition out_header :: "u32 \<Rightarrow> u32 \<Rightarrow> packet_header" where
  "out_header pre cnt = \<lparr>preamble = pre, h_no_copy = False, h_packet_size = 0, packet_cnt = cnt, test_time = 0\<rparr>"

section \<open>Sending\<close>

record 'w nc_ops =
  nc_base :: "'w rl_ops"
  rpmsg_lite_alloc_tx_buffer :: "'w \<Rightarrow> (nat \<times> nat) option \<times> 'w"
  nc_write :: "nat \<Rightarrow> u8 list \<Rightarrow> 'w \<Rightarrow> 'w"
  rpmsg_lite_send_nocopy :: "rl_endpoint \<Rightarrow> u32 \<Rightarrow> nat \<Rightarrow> nat \<Rightarrow> 'w \<Rightarrow> int \<times> 'w"
  rpmsg_queue_recv_nocopy :: "rl_queue \<Rightarrow> 'w \<Rightarrow> (int \<times> u32 \<times> nat \<times> u8 list \<times> nat) \<times> 'w"
  rpmsg_queue_nocopy_free :: "nat \<Rightarrow> 'w \<Rightarrow> int \<times> 'w"

fun wait_tx_buffer :: "nat \<Rightarrow> 'w nc_ops \<Rightarrow> 'w \<Rightarrow> ((nat \<times> nat) \<times> 'w) outcome" where
  "wait_tx_buffer 0 ops w = Inl Diverges"
| "wait_tx_buffer (Suc n) ops w =
     (case rpmsg_lite_alloc_tx_buffer ops w of
        (None, w1) \<Rightarrow> wait_tx_buffer n ops w1
      | (Some b, w1) \<Rightarrow> Inr (b, w1))"

fun retry_send :: "nat \<Rightarrow> 'w nc_ops \<Rightarrow> nat \<Rightarrow> u8 list \<Rightarrow> 'w rpmsg_instance \<Rightarrow> 'w rpmsg_instance outcome" where
  "retry_send 0 ops p data ri = Inl Diverges"
| "retry_send (Suc n) ops p data ri =
     and_then (rpmsg_send (nc_base ops) p data ri) (\<lambda>(result, ri1).
       if result = RL_SUCCESS then Inr ri1 else retry_send n ops p data ri1)"

text \<open>One round of \<open>APP_SendPacket\<close>: the size of the piece that was sent. \<open>mem\<close> is what \<open>p_buf\<close> points at.\<close>

definition send_piece ::
    "nat \<Rightarrow> 'w nc_ops \<Rightarrow> nat \<Rightarrow> u8 list \<Rightarrow> nat \<Rightarrow> bool \<Rightarrow> bool \<Rightarrow> 'w rpmsg_instance \<Rightarrow>
       (nat \<times> 'w rpmsg_instance) outcome" where
  "send_piece fuel ops p mem buf_size no_copy have_preamble ri =
     (if no_copy then
        and_then (wait_tx_buffer fuel ops (rl ri)) (\<lambda>((tx_buf, tmp_size), w1).
          let size = min buf_size tmp_size
          in if have_preamble \<and> length mem < size then Inl Out_Of_Bounds
             else let w2 = (if have_preamble then nc_write ops tx_buf (take size mem) w1 else w1)
             in and_then (deref p ri) (\<lambda>e.
                  let (result, w3) = rpmsg_lite_send_nocopy ops (rl_ept e) (remote_addr e) tx_buf size w2
                  in os_assert (result = RL_SUCCESS) (Inr (size, ri\<lparr>rl := w3\<rparr>))))
      else
        let size = min buf_size APP_BUFFER_PAYLOAD_SIZE
        in if length mem < size then Inl Out_Of_Bounds
           else and_then (retry_send fuel ops p (take size mem) ri) (\<lambda>ri1. Inr (size, ri1)))"

fun app_send ::
    "nat \<Rightarrow> nat \<Rightarrow> 'w nc_ops \<Rightarrow> nat \<Rightarrow> u8 list \<Rightarrow> nat \<Rightarrow> bool \<Rightarrow> bool \<Rightarrow> 'w rpmsg_instance \<Rightarrow>
       'w rpmsg_instance outcome" where
  "app_send 0 fuel ops p mem buf_size no_copy have_preamble ri = Inl Diverges"
| "app_send (Suc n) fuel ops p mem buf_size no_copy have_preamble ri =
     and_then (send_piece fuel ops p mem buf_size no_copy have_preamble ri) (\<lambda>(size, ri1).
       if size < buf_size then app_send n fuel ops p (drop size mem) (buf_size - size) no_copy have_preamble ri1
       else Inr ri1)"

definition APP_SendPacket ::
    "nat \<Rightarrow> 'w nc_ops \<Rightarrow> nat \<Rightarrow> u8 list \<Rightarrow> nat \<Rightarrow> bool \<Rightarrow> bool \<Rightarrow> 'w rpmsg_instance \<Rightarrow> 'w rpmsg_instance outcome" where
  "APP_SendPacket fuel ops p mem buf_size no_copy have_preamble ri =
     app_send (Suc buf_size) fuel ops p mem buf_size no_copy have_preamble ri"

record sender_args =
  a_packet_size :: u32
  a_no_copy :: bool
  end_ticks :: u32
  send_packet_cnt :: u32

definition sender_buffer :: "u8 list" where
  "sender_buffer = map (\<lambda>i. of_nat (65 + i mod 26)) [0..<APP_BUFFER_PAYLOAD_SIZE]"

text \<open>One packet of the sending task: a larger one is cut into pieces of the buffer's size.\<close>

fun send_chunks ::
    "nat \<Rightarrow> nat \<Rightarrow> 'w nc_ops \<Rightarrow> nat \<Rightarrow> nat \<Rightarrow> bool \<Rightarrow> 'w rpmsg_instance \<Rightarrow> 'w rpmsg_instance outcome" where
  "send_chunks 0 fuel ops p count no_copy ri = Inl Diverges"
| "send_chunks (Suc n) fuel ops p count no_copy ri =
     and_then (APP_SendPacket fuel ops p sender_buffer (min count APP_BUFFER_PAYLOAD_SIZE) no_copy False ri) (\<lambda>ri1.
       if APP_BUFFER_PAYLOAD_SIZE < count then send_chunks n fuel ops p (count - APP_BUFFER_PAYLOAD_SIZE) no_copy ri1
       else Inr ri1)"

definition send_packet ::
    "nat \<Rightarrow> 'w nc_ops \<Rightarrow> nat \<Rightarrow> sender_args \<Rightarrow> 'w rpmsg_instance \<Rightarrow> 'w rpmsg_instance outcome" where
  "send_packet fuel ops p args ri =
     (let count = unat (a_packet_size args)
      in if count < APP_BUFFER_PAYLOAD_SIZE then APP_SendPacket fuel ops p sender_buffer count (a_no_copy args) False ri
         else send_chunks (Suc count) fuel ops p count (a_no_copy args) ri)"

text \<open>
  A test of the sending task. The list has the tick count after each packet; at its end the test still
  runs. \<open>result\<close> is whether the test has ended.
\<close>

fun send_test ::
    "nat \<Rightarrow> 'w nc_ops \<Rightarrow> nat \<Rightarrow> u32 list \<Rightarrow> sender_args \<Rightarrow> 'w rpmsg_instance \<Rightarrow>
       (bool \<times> sender_args \<times> 'w rpmsg_instance) outcome" where
  "send_test fuel ops p [] args ri = Inr (False, args, ri)"
| "send_test fuel ops p (current_ticks # ticks) args ri =
     and_then (send_packet fuel ops p args ri) (\<lambda>ri1.
       let args1 = args\<lparr>send_packet_cnt := send_packet_cnt args + 1\<rparr>
       in if end_ticks args1 \<le> current_ticks
          then let out = header_bytes (out_header RECEIVER_END (send_packet_cnt args1))
               in and_then (APP_SendPacket fuel ops p out (length out) (a_no_copy args1) True ri1) (\<lambda>ri2.
                    Inr (True, args1, ri2))
          else send_test fuel ops p ticks args1 ri1)"

section \<open>Receiving\<close>

text \<open>What the receiving task prints about a test.\<close>

datatype perf_print = Received u32 | Sent_And_Received u32 u32 u32

text \<open>
  The state of the receiving task, with what it shares with the sending task: the arguments of a test
  and the semaphore that starts it. \<open>pf_buf\<close> is its buffer.
\<close>

record perf =
  no_copy_old :: bool
  pf_no_copy :: bool
  rx_len :: u32
  packet_size :: u32
  pf_buf :: "u8 list"
  pf_args :: sender_args
  send_packet_sig :: bool

text \<open>
  A reception: the memory of the message, its length, and the buffer of the library to release. In the
  mode without a copy the source is bound before the result is looked at.
\<close>

definition perf_recv ::
    "'w nc_ops \<Rightarrow> nat \<Rightarrow> perf \<Rightarrow> 'w rpmsg_instance \<Rightarrow>
       ((u8 list \<times> nat \<times> nat option) \<times> perf \<times> 'w rpmsg_instance) outcome" where
  "perf_recv ops p st ri =
     (if pf_no_copy st then
        and_then (deref p ri) (\<lambda>e.
          let ((result, src, rx_buf, mem, len), w) = rpmsg_queue_recv_nocopy ops (ept_q e) (rl ri); ri1 = ri\<lparr>rl := w\<rparr>
          in os_assert (remote_addr e = RL_ADDR_ANY \<or> remote_addr e = src)
            (os_assert (result = 0) (os_assert (len \<le> APP_BUFFER_PAYLOAD_SIZE)
              (Inr ((mem, len, Some rx_buf), st,
                    if remote_addr e = RL_ADDR_ANY then ri1\<lparr>epts := (epts ri1)(p \<mapsto> e\<lparr>remote_addr := src\<rparr>)\<rparr> else ri1)))))
      else
        and_then (rpmsg_recv (nc_base ops) p APP_BUFFER_PAYLOAD_SIZE ri) (\<lambda>(result, data, ri1).
          os_assert (result = 0) (os_assert (length data \<le> APP_BUFFER_PAYLOAD_SIZE)
            (let mem = data @ drop (length data) (pf_buf st)
             in Inr ((mem, length data, None), st\<lparr>pf_buf := mem\<rparr>, ri1)))))"

text \<open>
  The loss in percent. The source divides floating-point numbers and converts the result, which must
  fit 32 bits; here the quotient is exact.
\<close>

definition packet_loss_of :: "u32 \<Rightarrow> u32 \<Rightarrow> u32 outcome" where
  "packet_loss_of sent received =
     (if sent = 0 then Inr 0
      else let loss = unat (sent - received) * 100 div unat sent
           in if loss < 2 ^ 32 then Inr (of_nat loss) else Inl Overflow)"

text \<open>The cases of the \<open>switch\<close>. \<open>to_ticks\<close> is the conversion of seconds of FreeRTOS, \<open>now\<close> the tick count.\<close>

definition handle_packet ::
    "nat \<Rightarrow> 'w nc_ops \<Rightarrow> nat \<Rightarrow> (u32 \<Rightarrow> u32) \<Rightarrow> u32 \<Rightarrow> u8 list \<Rightarrow> nat \<Rightarrow> perf \<Rightarrow> 'w rpmsg_instance \<Rightarrow>
       (perf_print list \<times> perf \<times> 'w rpmsg_instance) outcome" where
  "handle_packet fuel ops p to_ticks now mem len st ri =
     (if length mem < 20 then Inl Out_Of_Bounds
      else let h = header_of mem
      in if preamble h = SENDER_START then
           Inr ([], st\<lparr>no_copy_old := pf_no_copy st, pf_no_copy := h_no_copy h, packet_size := h_packet_size h, rx_len := 0\<rparr>, ri)
         else if preamble h = SENDER_END then
           (if packet_size st = 0 then Inl Div_By_Zero
            else let cnt = rx_len st div packet_size st; out = header_bytes (out_header SENDER_END_ACK cnt)
            in and_then (APP_SendPacket fuel ops p out (length out) (pf_no_copy st) True ri) (\<lambda>ri1.
                 Inr ([Received cnt], st\<lparr>rx_len := 0, pf_no_copy := no_copy_old st\<rparr>, ri1)))
         else if preamble h = RECEIVER_START then
           os_assert (\<not> send_packet_sig st)
             (Inr ([], st\<lparr>pf_args := \<lparr>a_packet_size = h_packet_size h, a_no_copy = h_no_copy h,
                                    end_ticks = now + to_ticks (test_time h), send_packet_cnt = 0\<rparr>,
                          pf_no_copy := h_no_copy h, send_packet_sig := True\<rparr>, ri))
         else if preamble h = RECEIVER_END_ACK then
           and_then (packet_loss_of (send_packet_cnt (pf_args st)) (packet_cnt h)) (\<lambda>loss.
             Inr ([Sent_And_Received (send_packet_cnt (pf_args st)) (packet_cnt h) loss], st, ri))
         else Inr ([], st\<lparr>rx_len := rx_len st + of_nat len\<rparr>, ri))"

definition perf_round ::
    "nat \<Rightarrow> 'w nc_ops \<Rightarrow> nat \<Rightarrow> (u32 \<Rightarrow> u32) \<Rightarrow> u32 \<Rightarrow> perf \<Rightarrow> 'w rpmsg_instance \<Rightarrow>
       (perf_print list \<times> perf \<times> 'w rpmsg_instance) outcome" where
  "perf_round fuel ops p to_ticks now st ri =
     and_then (perf_recv ops p st ri) (\<lambda>((mem, len, rx_buf), st1, ri1).
     and_then (handle_packet fuel ops p to_ticks now mem len st1 ri1) (\<lambda>(prints, st2, ri2).
       case rx_buf of
         None \<Rightarrow> Inr (prints, st2, ri2)
       | Some b \<Rightarrow> (let (result, w) = rpmsg_queue_nocopy_free ops b (rl ri2)
                   in os_assert (result = RL_SUCCESS) (Inr (prints, st2, ri2\<lparr>rl := w\<rparr>)))))"

fun perf_rounds ::
    "nat \<Rightarrow> nat \<Rightarrow> 'w nc_ops \<Rightarrow> nat \<Rightarrow> (u32 \<Rightarrow> u32) \<Rightarrow> u32 \<Rightarrow> perf \<Rightarrow> 'w rpmsg_instance \<Rightarrow>
       (perf_print list \<times> perf \<times> 'w rpmsg_instance) outcome" where
  "perf_rounds 0 fuel ops p to_ticks now st ri = Inr ([], st, ri)"
| "perf_rounds (Suc n) fuel ops p to_ticks now st ri =
     and_then (perf_round fuel ops p to_ticks now st ri) (\<lambda>(xs, st1, ri1).
     and_then (perf_rounds n fuel ops p to_ticks now st1 ri1) (\<lambda>(ys, st2, ri2). Inr (xs @ ys, st2, ri2)))"

text \<open>The sending task between two tests: it waits for the semaphore and takes it.\<close>

definition take_test :: "perf \<Rightarrow> perf option" where
  "take_test st = (if send_packet_sig st then Some (st\<lparr>send_packet_sig := False\<rparr>) else None)"

section \<open>What the library promises\<close>

text \<open>
  Beside \<open>delivers\<close>: a reception without a copy hands out a buffer of the library with the message at
  its beginning, which can be released; a buffer to send is handed out at once, and sends what was
  written to it.
\<close>

definition nc_delivers ::
    "'w nc_ops \<Rightarrow> ('w \<Rightarrow> rl_queue \<Rightarrow> (u32 \<times> u8 list) list) \<Rightarrow>
       ('w \<Rightarrow> (rl_endpoint \<times> u32 \<times> u8 list) list) \<Rightarrow> bool" where
  "nc_delivers ops pending sent \<longleftrightarrow> delivers (nc_base ops) pending sent
   \<and> (\<forall>w q src data ms. pending w q = (src, data) # ms \<longrightarrow> length data \<le> RL_PAYLOAD \<longrightarrow>
        (\<exists>w' b rest. rpmsg_queue_recv_nocopy ops q w = ((RL_SUCCESS, src, b, data @ rest, length data), w')
           \<and> length (data @ rest) = RL_PAYLOAD \<and> pending w' = (pending w)(q := ms) \<and> sent w' = sent w))
   \<and> (\<forall>w b. \<exists>w'. rpmsg_queue_nocopy_free ops b w = (RL_SUCCESS, w') \<and> pending w' = pending w \<and> sent w' = sent w)
   \<and> (\<forall>w e d x. length x \<le> RL_PAYLOAD \<longrightarrow>
        (\<exists>b w1 w2. rpmsg_lite_alloc_tx_buffer ops w = (Some (b, RL_PAYLOAD), w1)
           \<and> rpmsg_lite_send_nocopy ops e d b (length x) (nc_write ops b x w1) = (RL_SUCCESS, w2)
           \<and> pending w2 = pending w \<and> sent w2 = sent w @ [(e, d, x)]))"

lemma put32_length [simp]: "length (put32 x) = 4"
  by (simp add: put32_def)

lemma get32_put32: "length xs = i \<Longrightarrow> get32 i (xs @ put32 x @ zs) = x"
proof -
  assume "length xs = i"
  then have "get32 i (xs @ put32 x @ zs) = ucast (take_bit 32 (ucast x :: u64))"
    by (simp add: get32_def put32_def of_le_bytes_le_bytes)
  also have "\<dots> = x" by (rule bit_word_eqI) (auto simp: bit_simps)
  finally show ?thesis .
qed

lemma header_fields: "length (header_bytes h) = 20 \<and> header_of (header_bytes h @ rest) = h"
proof -
  let ?f = "[if h_no_copy h then 1 else 0, 0, 0, 0] :: u8 list"
  let ?a = "put32 (preamble h)" and ?b = "put32 (h_packet_size h)" and ?c = "put32 (packet_cnt h)" and ?d = "put32 (test_time h)"
  have "get32 0 ([] @ ?a @ (?f @ ?b @ ?c @ ?d @ rest)) = preamble h"
    "get32 8 ((?a @ ?f) @ ?b @ (?c @ ?d @ rest)) = h_packet_size h"
    "get32 12 ((?a @ ?f @ ?b) @ ?c @ (?d @ rest)) = packet_cnt h"
    "get32 16 ((?a @ ?f @ ?b @ ?c) @ ?d @ rest) = test_time h"
    by (rule get32_put32, simp)+
  then show ?thesis by (simp add: header_bytes_def header_of_def nth_append)
qed

text \<open>
  A header is read as it was written: of the twenty bytes at the beginning of a message, whatever
  follows them, all fields come back.
\<close>

theorem header_roundtrip: "length (header_bytes h) = 20 \<and> header_of (header_bytes h @ rest) = h"
  by (rule header_fields)

section \<open>Data leave in pieces\<close>

function pieces :: "nat \<Rightarrow> 'a list \<Rightarrow> 'a list list" where
  "pieces n xs = (if length xs \<le> n \<or> n = 0 then [xs] else take n xs # pieces n (drop n xs))"
  by auto
termination by (relation "measure (length \<circ> snd)") auto

declare pieces.simps [simp del]

lemma pieces_parts: "0 < n \<Longrightarrow> concat (pieces n xs) = xs \<and> (\<forall>x \<in> set (pieces n xs). length x \<le> n)"
proof (induction n xs rule: pieces.induct)
  case (1 n xs)
  show ?case
  proof (cases "length xs \<le> n")
    case True
    then show ?thesis by (simp add: pieces.simps)
  next
    case False
    then show ?thesis using 1 by (simp add: pieces.simps [of n xs])
  qed
qed

lemma retry_succeeds:
  assumes "delivers (nc_base ops) pending sent" "epts ri p = Some e" "length x \<le> RL_PAYLOAD" "0 < fuel"
  obtains ri' where "retry_send fuel ops p x ri = Inr ri'" "pending (rl ri') = pending (rl ri)"
    "sent (rl ri') = sent (rl ri) @ [(rl_ept e, remote_addr e, x)]" "epts ri' = epts ri"
proof -
  obtain n where "fuel = Suc n" using assms(4) not0_implies_Suc by blast
  then show thesis using that by (auto intro: send_delivers [OF assms(1-3)])
qed

lemma piece_sent:
  assumes nc: "nc_delivers ops pending sent" and e: "epts ri p = Some e" and "0 < fuel" "no_copy \<longrightarrow> have_preamble"
    and "buf_size \<le> length mem" "sz = min buf_size RL_PAYLOAD"
  obtains ri' where "send_piece fuel ops p mem buf_size no_copy have_preamble ri = Inr (sz, ri')"
    "pending (rl ri') = pending (rl ri)" "epts ri' = epts ri"
    "sent (rl ri') = sent (rl ri) @ [(rl_ept e, remote_addr e, take sz mem)]"
proof (cases no_copy)
  case False
  have d: "delivers (nc_base ops) pending sent" using nc unfolding nc_delivers_def by blast
  have l: "length (take sz mem) \<le> RL_PAYLOAD" "sz \<le> length mem" using assms(5,6) by simp_all
  obtain ri' where "retry_send fuel ops p (take sz mem) ri = Inr ri'" "pending (rl ri') = pending (rl ri)"
    "sent (rl ri') = sent (rl ri) @ [(rl_ept e, remote_addr e, take sz mem)]" "epts ri' = epts ri"
    by (rule retry_succeeds [OF d e l(1) assms(3)])
  moreover have "sz = min buf_size APP_BUFFER_PAYLOAD_SIZE" using assms(6) by (simp add: APP_BUFFER_PAYLOAD_SIZE_def RL_PAYLOAD_def)
  then have "send_piece fuel ops p mem buf_size no_copy have_preamble ri
      = and_then (retry_send fuel ops p (take sz mem) ri) (\<lambda>ri1. Inr (sz, ri1))"
    using False l(2) by (auto simp: send_piece_def Let_def min_def split: if_splits)
  ultimately show thesis using that [of ri'] by simp
next
  case True
  have l: "length (take sz mem) \<le> RL_PAYLOAD" "length (take sz mem) = sz" using assms(5,6) by simp_all
  obtain n where n: "fuel = Suc n" using assms(3) not0_implies_Suc by blast
  obtain b w1 w2 where w: "rpmsg_lite_alloc_tx_buffer ops (rl ri) = (Some (b, RL_PAYLOAD), w1)"
    "rpmsg_lite_send_nocopy ops (rl_ept e) (remote_addr e) b (length (take sz mem)) (nc_write ops b (take sz mem) w1) = (RL_SUCCESS, w2)"
    "pending w2 = pending (rl ri)" "sent w2 = sent (rl ri) @ [(rl_ept e, remote_addr e, take sz mem)]"
    using nc l(1) unfolding nc_delivers_def by blast
  have "send_piece fuel ops p mem buf_size no_copy have_preamble ri = Inr (sz, ri\<lparr>rl := w2\<rparr>)"
    using True assms(4-6) n w(1) w(2) [unfolded l(2)] e by (simp add: send_piece_def deref_def Let_def)
  then show thesis using that w(3,4) by simp
qed

lemma app_sends_pieces:
  assumes nc: "nc_delivers ops pending sent" and "0 < fuel" "no_copy \<longrightarrow> have_preamble"
  shows "buf_size \<le> length mem \<Longrightarrow> buf_size < n \<Longrightarrow> epts ri p = Some e \<Longrightarrow>
    \<exists>ri'. app_send n fuel ops p mem buf_size no_copy have_preamble ri = Inr ri' \<and> pending (rl ri') = pending (rl ri)
      \<and> epts ri' = epts ri
      \<and> sent (rl ri') = sent (rl ri) @ map (\<lambda>x. (rl_ept e, remote_addr e, x)) (pieces RL_PAYLOAD (take buf_size mem))"
proof (induction n arbitrary: mem buf_size ri)
  case (Suc n)
  define sz where "sz = min buf_size RL_PAYLOAD"
  obtain ri1 where s: "send_piece fuel ops p mem buf_size no_copy have_preamble ri = Inr (sz, ri1)"
    "pending (rl ri1) = pending (rl ri)" "epts ri1 = epts ri"
    "sent (rl ri1) = sent (rl ri) @ [(rl_ept e, remote_addr e, take sz mem)]"
    by (rule piece_sent [OF nc Suc.prems(3) assms(2,3) Suc.prems(1) sz_def])
  show ?case
  proof (cases "RL_PAYLOAD < buf_size")
    case False
    then show ?thesis using s Suc.prems(1) by (simp add: sz_def pieces.simps)
  next
    case True
    have z: "sz = RL_PAYLOAD" "0 < RL_PAYLOAD" using True by (simp_all add: sz_def RL_PAYLOAD_def)
    have "buf_size - sz \<le> length (drop sz mem)" "buf_size - sz < n" "epts ri1 p = Some e"
      using Suc.prems s(3) True z by simp_all
    from Suc.IH [OF this] obtain ri2 where "app_send n fuel ops p (drop sz mem) (buf_size - sz) no_copy have_preamble ri1 = Inr ri2"
      "pending (rl ri2) = pending (rl ri1)" "epts ri2 = epts ri1"
      "sent (rl ri2) = sent (rl ri1) @ map (\<lambda>x. (rl_ept e, remote_addr e, x)) (pieces RL_PAYLOAD (take (buf_size - sz) (drop sz mem)))"
      by blast
    moreover have "pieces RL_PAYLOAD (take buf_size mem) = take sz mem # pieces RL_PAYLOAD (take (buf_size - sz) (drop sz mem))"
      using True z Suc.prems(1) by (simp add: pieces.simps [of RL_PAYLOAD "take buf_size mem"] min_def drop_take)
    ultimately show ?thesis using s True z by simp
  qed
qed simp

text \<open>
  Data are sent whole: when the library takes what it is given, \<open>APP_SendPacket\<close> returns and has sent
  the data in messages of at most the payload size, which put together are the data, in order; also in
  the mode without copies if the data are to be written to the library's buffers.
\<close>

theorem data_sent_whole:
  assumes "nc_delivers ops pending sent" "epts ri p = Some e" "0 < fuel" "no_copy \<longrightarrow> have_preamble" "buf_size \<le> length mem"
  shows "\<exists>ri' xs. APP_SendPacket fuel ops p mem buf_size no_copy have_preamble ri = Inr ri'
    \<and> sent (rl ri') = sent (rl ri) @ map (\<lambda>x. (rl_ept e, remote_addr e, x)) xs
    \<and> concat xs = take buf_size mem \<and> (\<forall>x \<in> set xs. length x \<le> RL_PAYLOAD)"
proof -
  have "0 < RL_PAYLOAD" by (simp add: RL_PAYLOAD_def)
  then show ?thesis
    using app_sends_pieces [OF assms(1,3,4,5) lessI assms(2)] pieces_parts [of RL_PAYLOAD "take buf_size mem"]
    unfolding APP_SendPacket_def by blast
qed

section \<open>A test with the host as sender\<close>

text \<open>What is known of a task between two messages: its endpoint accepts the host.\<close>

definition hears :: "'w rpmsg_instance \<Rightarrow> nat \<Rightarrow> rl_queue \<Rightarrow> rl_endpoint \<Rightarrow> u32 \<Rightarrow> bool" where
  "hears ri p q e host \<longleftrightarrow> at_end ri p q e {RL_ADDR_ANY, host}"

lemma recv_any_mode:
  assumes nc: "nc_delivers ops pending sent" and h: "hears ri p q e host" and buf: "length (pf_buf st) = RL_PAYLOAD"
    and m: "pending (rl ri) q = (host, data) # ms" "length data \<le> RL_PAYLOAD"
  obtains rest b buf' ri' where
    "perf_recv ops p st ri = Inr ((data @ rest, length data, b), st\<lparr>pf_buf := buf'\<rparr>, ri')"
    "length (data @ rest) = RL_PAYLOAD" "length buf' = RL_PAYLOAD" "at_end ri' p q e {host}"
    "pending (rl ri') = (pending (rl ri))(q := ms)" "sent (rl ri') = sent (rl ri)"
proof -
  have app: "APP_BUFFER_PAYLOAD_SIZE = RL_PAYLOAD" by (simp add: APP_BUFFER_PAYLOAD_SIZE_def RL_PAYLOAD_def)
  obtain x where x: "epts ri p = Some x" "ept_q x = q" "rl_ept x = e" "remote_addr x \<in> {RL_ADDR_ANY, host}"
    using h by (auto simp: hears_def at_end_def)
  show thesis
  proof (cases "pf_no_copy st")
    case True
    obtain w' b rest where w: "rpmsg_queue_recv_nocopy ops q (rl ri) = ((RL_SUCCESS, host, b, data @ rest, length data), w')"
      "length (data @ rest) = RL_PAYLOAD" "pending w' = (pending (rl ri))(q := ms)" "sent w' = sent (rl ri)"
      using nc m unfolding nc_delivers_def by blast
    define ri' where "ri' = (if remote_addr x = RL_ADDR_ANY
      then ri\<lparr>rl := w', epts := (epts ri)(p \<mapsto> x\<lparr>remote_addr := host\<rparr>)\<rparr> else ri\<lparr>rl := w'\<rparr>)"
    have "perf_recv ops p st ri = Inr ((data @ rest, length data, Some b), st\<lparr>pf_buf := pf_buf st\<rparr>, ri')"
      using True w(1) x m(2) by (auto simp: perf_recv_def deref_def ri'_def Let_def app RL_SUCCESS_def)
    moreover have "at_end ri' p q e {host}" "pending (rl ri') = (pending (rl ri))(q := ms)" "sent (rl ri') = sent (rl ri)"
      using x w(3,4) by (auto simp: ri'_def at_end_def)
    ultimately show thesis using that w(2) buf by blast
  next
    case False
    have d: "delivers (nc_base ops) pending sent" using nc unfolding nc_delivers_def by blast
    have "pending (rl ri) (ept_q x) = (host, data) # ms" using m(1) x(2) by simp
    then obtain ri' where r: "rpmsg_recv (nc_base ops) p RL_PAYLOAD ri = Inr (RL_SUCCESS, data, ri')"
      "pending (rl ri') = (pending (rl ri))(ept_q x := ms)" "sent (rl ri') = sent (rl ri)"
      "epts ri' = (epts ri)(p \<mapsto> x\<lparr>remote_addr := host\<rparr>)"
      by (rule recv_delivers [OF d x(1,4) _ m(2)])
    let ?mem = "data @ drop (length data) (pf_buf st)"
    have "perf_recv ops p st ri = Inr ((?mem, length data, None), st\<lparr>pf_buf := ?mem\<rparr>, ri')"
      using False r(1) m(2) by (simp add: perf_recv_def app RL_SUCCESS_def Let_def)
    moreover have "length ?mem = RL_PAYLOAD" using buf m(2) by simp
    ultimately show thesis using that [of "drop (length data) (pf_buf st)" None ?mem ri'] r x(2,3) by (simp add: at_end_def)
  qed
qed

text \<open>A round that neither faults in handling its message.\<close>

lemma round_handles:
  assumes nc: "nc_delivers ops pending sent" and h: "hears ri p q e host" and buf: "length (pf_buf st) = RL_PAYLOAD"
    and m: "pending (rl ri) q = (host, data) # ms" "length data \<le> RL_PAYLOAD"
    and ok: "\<And>rest buf' ri1. length (data @ rest) = RL_PAYLOAD \<Longrightarrow> at_end ri1 p q e {host} \<Longrightarrow>
      pending (rl ri1) = (pending (rl ri))(q := ms) \<Longrightarrow> sent (rl ri1) = sent (rl ri) \<Longrightarrow>
      \<exists>ri2. handle_packet fuel ops p to_ticks now (data @ rest) (length data) (st\<lparr>pf_buf := buf'\<rparr>) ri1
          = Inr (prints, st'\<lparr>pf_buf := buf'\<rparr>, ri2)
        \<and> pending (rl ri2) = pending (rl ri1) \<and> sent (rl ri2) = sent (rl ri1) @ out \<and> epts ri2 = epts ri1"
  obtains buf' ri' where "perf_round fuel ops p to_ticks now st ri = Inr (prints, st'\<lparr>pf_buf := buf'\<rparr>, ri')"
    "length buf' = RL_PAYLOAD" "hears ri' p q e host" "pending (rl ri') = (pending (rl ri))(q := ms)"
    "sent (rl ri') = sent (rl ri) @ out"
proof -
  obtain rest b buf' ri1 where r: "perf_recv ops p st ri = Inr ((data @ rest, length data, b), st\<lparr>pf_buf := buf'\<rparr>, ri1)"
    "length (data @ rest) = RL_PAYLOAD" "length buf' = RL_PAYLOAD" "at_end ri1 p q e {host}"
    "pending (rl ri1) = (pending (rl ri))(q := ms)" "sent (rl ri1) = sent (rl ri)"
    by (rule recv_any_mode [OF nc h buf m])
  obtain ri2 where h2: "handle_packet fuel ops p to_ticks now (data @ rest) (length data) (st\<lparr>pf_buf := buf'\<rparr>) ri1
          = Inr (prints, st'\<lparr>pf_buf := buf'\<rparr>, ri2)"
    "pending (rl ri2) = pending (rl ri1)" "sent (rl ri2) = sent (rl ri1) @ out" "epts ri2 = epts ri1"
    using ok [OF r(2,4,5,6)] by blast
  have a: "hears (ri2\<lparr>rl := w\<rparr>) p q e host" for w
    using r(4) h2(4) by (auto simp: hears_def at_end_def)
  show thesis
  proof (cases b)
    case None
    then have "perf_round fuel ops p to_ticks now st ri = Inr (prints, st'\<lparr>pf_buf := buf'\<rparr>, ri2)"
      using r(1) h2(1) by (simp add: perf_round_def)
    then show thesis using that r(3,5,6) h2(2,3) a [of "rl ri2"] by simp
  next
    case (Some x)
    obtain w where "rpmsg_queue_nocopy_free ops x (rl ri2) = (RL_SUCCESS, w)" "pending w = pending (rl ri2)" "sent w = sent (rl ri2)"
      using nc unfolding nc_delivers_def by blast
    moreover from this have "perf_round fuel ops p to_ticks now st ri = Inr (prints, st'\<lparr>pf_buf := buf'\<rparr>, ri2\<lparr>rl := w\<rparr>)"
      using r(1) h2(1) Some by (simp add: perf_round_def)
    ultimately show thesis using that r(3,5,6) h2(2,3) a [of w] by simp
  qed
qed

text \<open>A message of data: its first word is not one that the task takes for a header.\<close>

definition plain :: "u8 list \<Rightarrow> bool" where
  "plain data \<longleftrightarrow> 4 \<le> length data \<and> length data \<le> RL_PAYLOAD
     \<and> get32 0 data \<notin> {SENDER_START, SENDER_END, RECEIVER_START, RECEIVER_END_ACK}"

lemma first_word: "4 \<le> length data \<Longrightarrow> get32 0 (data @ rest) = get32 0 data"
  by (simp add: get32_def)

lemma plain_counted:
  assumes "plain data" "length (data @ rest) = RL_PAYLOAD"
  shows "handle_packet fuel ops p to_ticks now (data @ rest) (length data) st ri
    = Inr ([], st\<lparr>rx_len := rx_len st + of_nat (length data)\<rparr>, ri)"
proof -
  have "\<not> length (data @ rest) < 20" using assms(2) by (simp add: RL_PAYLOAD_def)
  moreover have "preamble (header_of (data @ rest)) = get32 0 data"
    using assms(1) by (simp add: header_of_def first_word plain_def)
  ultimately show ?thesis using assms(1) by (simp add: handle_packet_def plain_def Let_def)
qed

lemma data_rounds:
  assumes nc: "nc_delivers ops pending sent"
  shows "hears ri p q e host \<Longrightarrow> length (pf_buf st) = RL_PAYLOAD \<Longrightarrow>
    pending (rl ri) q = map (Pair host) ds @ ms \<Longrightarrow> \<forall>d \<in> set ds. plain d \<Longrightarrow>
    \<exists>buf' ri'. perf_rounds (length ds) fuel ops p to_ticks now st ri
        = Inr ([], st\<lparr>rx_len := rx_len st + of_nat (sum_list (map length ds)), pf_buf := buf'\<rparr>, ri')
      \<and> length buf' = RL_PAYLOAD \<and> hears ri' p q e host \<and> pending (rl ri') = (pending (rl ri))(q := ms)
      \<and> sent (rl ri') = sent (rl ri)"
proof (induction ds arbitrary: st ri)
  case Nil
  then show ?case by (auto intro!: exI [of _ "pf_buf st"] simp: fun_upd_idem)
next
  case (Cons d ds)
  have d: "plain d" "length d \<le> RL_PAYLOAD" "pending (rl ri) q = (host, d) # (map (Pair host) ds @ ms)"
    using Cons.prems(3,4) by (simp_all add: plain_def)
  obtain buf1 ri1 where r: "perf_round fuel ops p to_ticks now st ri
      = Inr ([], (st\<lparr>rx_len := rx_len st + of_nat (length d)\<rparr>)\<lparr>pf_buf := buf1\<rparr>, ri1)"
    "length buf1 = RL_PAYLOAD" "hears ri1 p q e host" "pending (rl ri1) = (pending (rl ri))(q := map (Pair host) ds @ ms)"
    "sent (rl ri1) = sent (rl ri) @ []"
  proof (rule round_handles [OF nc Cons.prems(1,2) d(3,2), of fuel to_ticks now "[]" "st\<lparr>rx_len := rx_len st + of_nat (length d)\<rparr>" "[]"],
      goal_cases)
    case (1 rest buf' ri0)
    show ?case by (rule exI [of _ ri0]) (simp add: plain_counted [OF d(1) 1(2)])
  qed blast
  define st1 where "st1 = st\<lparr>rx_len := rx_len st + of_nat (length d), pf_buf := buf1\<rparr>"
  have "length (pf_buf st1) = RL_PAYLOAD" "pending (rl ri1) q = map (Pair host) ds @ ms" "\<forall>d \<in> set ds. plain d"
    using r(2,4) Cons.prems(4) by (simp_all add: st1_def)
  from Cons.IH [OF r(3) this] obtain buf' ri' where i: "perf_rounds (length ds) fuel ops p to_ticks now st1 ri1
        = Inr ([], st1\<lparr>rx_len := rx_len st1 + of_nat (sum_list (map length ds)), pf_buf := buf'\<rparr>, ri')"
      "length buf' = RL_PAYLOAD" "hears ri' p q e host" "pending (rl ri') = (pending (rl ri1))(q := ms)"
      "sent (rl ri') = sent (rl ri1)"
    by blast
  have "perf_rounds (length (d # ds)) fuel ops p to_ticks now st ri
      = Inr ([], st\<lparr>rx_len := rx_len st + of_nat (sum_list (map length (d # ds))), pf_buf := buf'\<rparr>, ri')"
    using r(1) i(1) by (simp add: st1_def add.assoc)
  moreover have "pending (rl ri') = (pending (rl ri))(q := ms)" "sent (rl ri') = sent (rl ri)"
    using i(4,5) r(4,5) by simp_all
  ultimately show ?case using i(2,3) by blast
qed

text \<open>The messages of a test: the header that starts it, the data and the header that ends it.\<close>

definition test_messages :: "packet_header \<Rightarrow> u8 list list \<Rightarrow> packet_header \<Rightarrow> u8 list list" where
  "test_messages opening ds closing = header_bytes opening # ds @ [header_bytes closing]"

lemma header_len [simp]: "length (header_bytes h) = 20"
  by (simp add: header_bytes_def)

lemma header_back [simp]: "header_of (header_bytes h @ rest) = h"
  using header_fields [of h rest] by simp

lemma rounds_append:
  assumes "perf_rounds n fuel ops p to_ticks now s0 ri0 = Inr (xs, s1, ri1)"
    and "perf_rounds k fuel ops p to_ticks now s1 ri1 = Inr (ys, s2, ri2)"
  shows "perf_rounds (n + k) fuel ops p to_ticks now s0 ri0 = Inr (xs @ ys, s2, ri2)"
  using assms(1)
proof (induction n arbitrary: s0 ri0 xs)
  case 0
  then show ?case using assms(2) by simp
next
  case (Suc n)
  then obtain x st' ri' xs' where "perf_round fuel ops p to_ticks now s0 ri0 = Inr (x, st', ri')"
    "perf_rounds n fuel ops p to_ticks now st' ri' = Inr (xs', s1, ri1)" "xs = x @ xs'"
    by (auto simp: outcome_simps)
  then show ?case using Suc.IH by simp
qed

lemma whole_packets:
  assumes "(s :: u32) \<noteq> 0"
  shows "(\<forall>d \<in> set ds. length d = unat s) \<and> length ds * unat s < 2 ^ 32
    \<longrightarrow> of_nat (sum_list (map length ds)) div s = of_nat (length ds)"
proof (intro impI, elim conjE)
  assume d: "\<forall>d \<in> set ds. length d = unat s" "length ds * unat s < 2 ^ 32"
  have "map length ds = replicate (length ds) (unat s)" using d(1) by (induction ds) simp_all
  then have "sum_list (map length ds) = length ds * unat s" by (simp add: sum_list_replicate)
  moreover have "0 < unat s" using assms by (simp add: unat_gt_0)
  moreover from this have "length ds < 4294967296" using d(2) le_less_trans [of "length ds" "length ds * unat s" "2 ^ 32"] by simp
  moreover have "unat (of_nat (length ds * unat s) :: u32) = length ds * unat s"
    using d(2) by (intro unat_of_nat_below) simp
  ultimately have "unat (of_nat (sum_list (map length ds)) div s) = unat (of_nat (length ds) :: u32)"
    by (simp only: unat_div) (simp del: of_nat_mult)
  then show "of_nat (sum_list (map length ds)) div s = of_nat (length ds)" by (rule word_unat_eq_iff [THEN iffD2])
qed

text \<open>
  C10: The host learns how much arrived. With a library that delivers, in both modes of
  reception: after the header that starts a test, with a packet size that is not zero, and any
  messages of data, each of four bytes up to the payload of RPMsg whose first word is none of
  the four words the task takes for a header (\<open>plain\<close>), the header that ends the
  test is answered by exactly one message to the host, the acknowledgement with the number of
  whole packets among the bytes received, which is also printed; the task then is in the mode it
  was in before the test and its counter is zero. When every message is one packet and they hold
  less than 2^32 bytes, that number is the number of messages. Shorter data can be taken for a
  header (\<open>short_data_taken_for_header\<close>) and a packet size of zero divides by it
  (\<open>zero_packet_size_divides\<close>).
\<close>

theorem host_learns_what_arrived:
  assumes nc: "nc_delivers ops pending sent" and "hears ri p q e host" "length (pf_buf st) = RL_PAYLOAD" "0 < fuel"
    and hs: "preamble opening = SENDER_START" "h_packet_size opening \<noteq> 0" "preamble closing = SENDER_END"
    and ds: "\<forall>d \<in> set ds. plain d"
    and q: "pending (rl ri) q = map (Pair host) (test_messages opening ds closing) @ ms"
  shows "\<exists>cnt st' ri'. perf_rounds (length ds + 2) fuel ops p to_ticks now st ri = Inr ([Received cnt], st', ri')
    \<and> sent (rl ri') = sent (rl ri) @ [(e, host, header_bytes (out_header SENDER_END_ACK cnt))]
    \<and> pending (rl ri') = (pending (rl ri))(q := ms)
    \<and> pf_no_copy st' = pf_no_copy st \<and> rx_len st' = 0
    \<and> cnt = of_nat (sum_list (map length ds)) div h_packet_size opening
    \<and> ((\<forall>d \<in> set ds. length d = unat (h_packet_size opening)) \<and> length ds * unat (h_packet_size opening) < 2 ^ 32
        \<longrightarrow> cnt = of_nat (length ds))"
proof -
  let ?len = "\<lambda>xs. length (header_bytes xs) \<le> RL_PAYLOAD" and ?s = "h_packet_size opening"
  have l20: "length (header_bytes h) \<le> RL_PAYLOAD" for h by (simp add: RL_PAYLOAD_def)
  have big: "\<not> length (header_bytes h @ rest) < 20" for h rest by simp
  define stA where "stA = st\<lparr>no_copy_old := pf_no_copy st, pf_no_copy := h_no_copy opening, packet_size := ?s, rx_len := 0\<rparr>"
  have q1: "pending (rl ri) q = (host, header_bytes opening) # (map (Pair host) ds @ (host, header_bytes closing) # ms)"
    using q by (simp add: test_messages_def)
  obtain buf1 ri1 where r1: "perf_round fuel ops p to_ticks now st ri = Inr ([], stA\<lparr>pf_buf := buf1\<rparr>, ri1)"
    "length buf1 = RL_PAYLOAD" "hears ri1 p q e host"
    "pending (rl ri1) = (pending (rl ri))(q := map (Pair host) ds @ (host, header_bytes closing) # ms)" "sent (rl ri1) = sent (rl ri) @ []"
  proof (rule round_handles [OF nc assms(2,3) q1 l20, of fuel to_ticks now "[]" stA "[]"], goal_cases)
    case (1 rest buf' ri0)
    show ?case by (rule exI [of _ ri0]) (simp add: handle_packet_def Let_def stA_def hs(1))
  qed blast
  define stB where "stB = stA\<lparr>pf_buf := buf1\<rparr>"
  have "length (pf_buf stB) = RL_PAYLOAD" "pending (rl ri1) q = map (Pair host) ds @ (host, header_bytes closing) # ms"
    using r1(2,4) by (simp_all add: stB_def)
  from data_rounds [OF nc r1(3) this ds, of fuel to_ticks now] obtain buf2 ri2 where r2:
    "perf_rounds (length ds) fuel ops p to_ticks now stB ri1
      = Inr ([], stB\<lparr>rx_len := rx_len stB + of_nat (sum_list (map length ds)), pf_buf := buf2\<rparr>, ri2)"
    "length buf2 = RL_PAYLOAD" "hears ri2 p q e host" "pending (rl ri2) = (pending (rl ri1))(q := (host, header_bytes closing) # ms)"
    "sent (rl ri2) = sent (rl ri1)"
    by blast
  define cnt where "cnt = (of_nat (sum_list (map length ds)) :: u32) div ?s"
  define stC where "stC = stB\<lparr>rx_len := of_nat (sum_list (map length ds)), pf_buf := buf2\<rparr>"
  define stD where "stD = stC\<lparr>rx_len := 0, pf_no_copy := no_copy_old stC\<rparr>"
  have q3: "pending (rl ri2) q = (host, header_bytes closing) # ms" "length (pf_buf stC) = RL_PAYLOAD"
    using r2(2,4) by (simp_all add: stC_def)
  have ack: "\<exists>ri'. APP_SendPacket fuel ops p (header_bytes (out_header SENDER_END_ACK cnt)) 20 nc' True ri0 = Inr ri'
      \<and> pending (rl ri') = pending (rl ri0) \<and> sent (rl ri') = sent (rl ri0) @ [(e, host, header_bytes (out_header SENDER_END_ACK cnt))]
      \<and> epts ri' = epts ri0" if "at_end ri0 p q e {host}" for ri0 nc'
  proof -
    obtain x where x: "epts ri0 p = Some x" "rl_ept x = e" "remote_addr x = host" using \<open>at_end ri0 p q e {host}\<close> by (auto simp: at_end_def)
    let ?h = "header_bytes (out_header SENDER_END_ACK cnt)"
    have "nc' \<longrightarrow> True" "20 \<le> length ?h" "(20 :: nat) < Suc 20" by simp_all
    moreover have "pieces RL_PAYLOAD (take 20 ?h) = [?h]" by (simp add: pieces.simps RL_PAYLOAD_def)
    ultimately show ?thesis
      using app_sends_pieces [OF nc assms(4), of nc' True 20 ?h "Suc 20" ri0 p x] x by (auto simp: APP_SendPacket_def)
  qed
  obtain buf3 ri3 where r3: "perf_round fuel ops p to_ticks now stC ri2 = Inr ([Received cnt], stD\<lparr>pf_buf := buf3\<rparr>, ri3)"
    "length buf3 = RL_PAYLOAD" "hears ri3 p q e host" "pending (rl ri3) = (pending (rl ri2))(q := ms)"
    "sent (rl ri3) = sent (rl ri2) @ [(e, host, header_bytes (out_header SENDER_END_ACK cnt))]"
  proof (rule round_handles [OF nc r2(3) q3(2,1) l20, of fuel to_ticks now "[Received cnt]" stD
        "[(e, host, header_bytes (out_header SENDER_END_ACK cnt))]"], goal_cases)
    case (1 rest buf' ri0)
    have pre: "preamble (header_of (header_bytes closing @ rest)) = SENDER_END" using hs(3) by simp
    have c: "packet_size stC = ?s" "rx_len stC div ?s = cnt" by (simp_all add: stC_def stB_def stA_def cnt_def)
    have "SENDER_END \<noteq> SENDER_START" by (simp add: preambles)
    then show ?case
      using ack [OF 1(3), of "pf_no_copy stC"] hs(2) c big [of closing rest]
      by (auto simp: handle_packet_def Let_def hs(3) stD_def)
  qed blast
  have e3: "perf_rounds 1 fuel ops p to_ticks now stC ri2 = Inr ([Received cnt], stD\<lparr>pf_buf := buf3\<rparr>, ri3)"
    using r3(1) by (simp add: numeral_eq_Suc)
  have "perf_rounds (length ds) fuel ops p to_ticks now stB ri1 = Inr ([], stC, ri2)"
    using r2(1) by (simp add: stC_def stB_def stA_def)
  from rounds_append [OF this e3]
  have run: "perf_rounds (length ds + 2) fuel ops p to_ticks now st ri = Inr ([Received cnt], stD\<lparr>pf_buf := buf3\<rparr>, ri3)"
    using r1(1) by (simp add: stB_def)
  have out: "sent (rl ri3) = sent (rl ri) @ [(e, host, header_bytes (out_header SENDER_END_ACK cnt))]"
    "pending (rl ri3) = (pending (rl ri))(q := ms)"
    using r1(4,5) r2(4,5) r3(4,5) by simp_all
  have fin: "pf_no_copy (stD\<lparr>pf_buf := buf3\<rparr>) = pf_no_copy st" "rx_len (stD\<lparr>pf_buf := buf3\<rparr>) = 0"
    by (simp_all add: stD_def stC_def stB_def stA_def)
  show ?thesis
    using run out fin whole_packets [OF hs(2), of ds] unfolding cnt_def by blast
qed

section \<open>A test with the host as receiver\<close>

text \<open>The messages of one packet: the buffer of letters, as often as it fits, and what remains.\<close>

function packet_msgs :: "nat \<Rightarrow> u8 list list" where
  "packet_msgs n = (if n \<le> RL_PAYLOAD then [take n sender_buffer] else sender_buffer # packet_msgs (n - RL_PAYLOAD))"
  by auto
termination by (relation "measure id") (auto simp: RL_PAYLOAD_def)

declare packet_msgs.simps [simp del]

lemma sender_buffer_length: "length sender_buffer = RL_PAYLOAD"
  by (simp add: sender_buffer_def APP_BUFFER_PAYLOAD_SIZE_def RL_PAYLOAD_def)

lemma packet_msgs_length: "sum_list (map length (packet_msgs n)) = n"
proof (induction n rule: packet_msgs.induct)
  case (1 n)
  then show ?case by (simp add: packet_msgs.simps [of n] sender_buffer_length)
qed

lemma one_message:
  assumes nc: "nc_delivers ops pending sent" and e: "epts ri p = Some e" and f: "0 < fuel" "no_copy \<longrightarrow> have_preamble"
    and n: "n \<le> RL_PAYLOAD" "n \<le> length mem"
  obtains ri' where "APP_SendPacket fuel ops p mem n no_copy have_preamble ri = Inr ri'"
    "sent (rl ri') = sent (rl ri) @ [(rl_ept e, remote_addr e, take n mem)]" "epts ri' = epts ri"
proof -
  have "pieces RL_PAYLOAD (take n mem) = [take n mem]" using n by (simp add: pieces.simps)
  then show thesis
    using app_sends_pieces [OF nc f n(2) lessI e] that unfolding APP_SendPacket_def by auto
qed

lemma chunks_sent:
  assumes nc: "nc_delivers ops pending sent" and f: "0 < fuel"
  shows "count < n \<Longrightarrow> epts ri p = Some e \<Longrightarrow>
    \<exists>ri'. send_chunks n fuel ops p count False ri = Inr ri' \<and> epts ri' = epts ri
      \<and> sent (rl ri') = sent (rl ri) @ map (\<lambda>x. (rl_ept e, remote_addr e, x)) (packet_msgs count)"
proof (induction n arbitrary: count ri)
  case (Suc n)
  have app: "APP_BUFFER_PAYLOAD_SIZE = RL_PAYLOAD" by (simp add: APP_BUFFER_PAYLOAD_SIZE_def RL_PAYLOAD_def)
  have le: "min count RL_PAYLOAD \<le> RL_PAYLOAD" "min count RL_PAYLOAD \<le> length sender_buffer" by (simp_all add: sender_buffer_length)
  obtain ri1 where s: "APP_SendPacket fuel ops p sender_buffer (min count RL_PAYLOAD) False False ri = Inr ri1"
    "sent (rl ri1) = sent (rl ri) @ [(rl_ept e, remote_addr e, take (min count RL_PAYLOAD) sender_buffer)]" "epts ri1 = epts ri"
    using one_message [OF nc Suc.prems(2) f _ le, of False False] by auto
  show ?case
  proof (cases "RL_PAYLOAD < count")
    case False
    then show ?thesis using s by (simp add: app packet_msgs.simps [of count])
  next
    case True
    have "count - RL_PAYLOAD < n" "epts ri1 p = Some e" using True Suc.prems s(3) by (simp_all add: RL_PAYLOAD_def)
    from Suc.IH [OF this] obtain ri2 where "send_chunks n fuel ops p (count - RL_PAYLOAD) False ri1 = Inr ri2" "epts ri2 = epts ri1"
      "sent (rl ri2) = sent (rl ri1) @ map (\<lambda>x. (rl_ept e, remote_addr e, x)) (packet_msgs (count - RL_PAYLOAD))"
      by blast
    then show ?thesis using s True by (simp add: app packet_msgs.simps [of count] sender_buffer_length)
  qed
qed simp

lemma packet_sent:
  assumes nc: "nc_delivers ops pending sent" and e: "epts ri p = Some e" and f: "0 < fuel" "\<not> a_no_copy args"
  obtains ri' where "send_packet fuel ops p args ri = Inr ri'" "epts ri' = epts ri"
    "sent (rl ri') = sent (rl ri) @ map (\<lambda>x. (rl_ept e, remote_addr e, x)) (packet_msgs (unat (a_packet_size args)))"
proof (cases "unat (a_packet_size args) < RL_PAYLOAD")
  case True
  then obtain ri1 where "APP_SendPacket fuel ops p sender_buffer (unat (a_packet_size args)) False False ri = Inr ri1"
    "sent (rl ri1) = sent (rl ri) @ [(rl_ept e, remote_addr e, take (unat (a_packet_size args)) sender_buffer)]" "epts ri1 = epts ri"
    using one_message [OF nc e f(1), of False False "unat (a_packet_size args)" sender_buffer] by (auto simp: sender_buffer_length)
  then show thesis
    using that True f(2) by (simp add: send_packet_def APP_BUFFER_PAYLOAD_SIZE_def RL_PAYLOAD_def packet_msgs.simps)
next
  case False
  then show thesis
    using chunks_sent [OF nc f(1) lessI e, of "unat (a_packet_size args)"] that f(2)
    by (auto simp: send_packet_def APP_BUFFER_PAYLOAD_SIZE_def RL_PAYLOAD_def)
qed

text \<open>
  The host learns how much was sent: a test that copies its data sends one packet after another, each
  of the length asked for, until the time is up after a packet, and then one header with the number of
  packets it has sent.
\<close>

theorem host_learns_what_was_sent:
  assumes "nc_delivers ops pending sent" "epts ri p = Some e" "0 < fuel" "\<not> a_no_copy args"
    and "length (takeWhile (\<lambda>t. t < end_ticks args) ticks) = n" "n < length ticks"
  shows "\<exists>args' ri' packet. send_test fuel ops p ticks args ri = Inr (True, args', ri')
    \<and> sum_list (map length packet) = unat (a_packet_size args)
    \<and> send_packet_cnt args' = send_packet_cnt args + of_nat (n + 1)
    \<and> sent (rl ri') = sent (rl ri) @ map (\<lambda>x. (rl_ept e, remote_addr e, x))
        (concat (replicate (n + 1) packet) @ [header_bytes (out_header RECEIVER_END (send_packet_cnt args'))])"
proof -
  let ?m = "map (\<lambda>x. (rl_ept e, remote_addr e, x))" and ?ps = "packet_msgs (unat (a_packet_size args))"
  have "\<exists>ri'. send_test fuel ops p ticks a ri = Inr (True, a\<lparr>send_packet_cnt := send_packet_cnt a + of_nat (n + 1)\<rparr>, ri')
    \<and> sent (rl ri') = sent (rl ri) @ ?m (concat (replicate (n + 1) ?ps)
        @ [header_bytes (out_header RECEIVER_END (send_packet_cnt a + of_nat (n + 1)))])"
    if "a_packet_size a = a_packet_size args" "end_ticks a = end_ticks args" "\<not> a_no_copy a" "epts ri p = Some e"
      "length (takeWhile (\<lambda>t. t < end_ticks args) ticks) = n" "n < length ticks" for a ri n
    using that
  proof (induction ticks arbitrary: a ri n)
    case (Cons t ticks)
    obtain ri1 where s: "send_packet fuel ops p a ri = Inr ri1" "epts ri1 = epts ri" "sent (rl ri1) = sent (rl ri) @ ?m ?ps"
      using packet_sent [OF assms(1) Cons.prems(4) assms(3) Cons.prems(3)] Cons.prems(1) by auto
    define a1 where "a1 = a\<lparr>send_packet_cnt := send_packet_cnt a + 1\<rparr>"
    have a1: "a_packet_size a1 = a_packet_size args" "end_ticks a1 = end_ticks args" "\<not> a_no_copy a1" "epts ri1 p = Some e"
      using Cons.prems(1-4) s(2) by (simp_all add: a1_def)
    show ?case
    proof (cases "t < end_ticks args")
      case False
      let ?h = "header_bytes (out_header RECEIVER_END (send_packet_cnt a1))"
      have l: "length ?h \<le> RL_PAYLOAD" by (simp add: RL_PAYLOAD_def)
      obtain ri2 where "APP_SendPacket fuel ops p ?h (length ?h) False True ri1 = Inr ri2"
        "sent (rl ri2) = sent (rl ri1) @ [(rl_ept e, remote_addr e, take (length ?h) ?h)]"
        using one_message [OF assms(1) a1(4) assms(3) _ l order_refl, of False True] by auto
      then show ?thesis
        using False Cons.prems(2,3,5) s(1,3) by (auto simp: a1_def Let_def)
    next
      case True
      then obtain k where k: "n = Suc k" "length (takeWhile (\<lambda>t. t < end_ticks args) ticks) = k" "k < length ticks"
        using Cons.prems(5,6) by auto
      from Cons.IH [OF a1 k(2,3)] obtain ri2 where
        "send_test fuel ops p ticks a1 ri1 = Inr (True, a1\<lparr>send_packet_cnt := send_packet_cnt a1 + of_nat (k + 1)\<rparr>, ri2)"
        "sent (rl ri2) = sent (rl ri1) @ ?m (concat (replicate (k + 1) ?ps)
          @ [header_bytes (out_header RECEIVER_END (send_packet_cnt a1 + of_nat (k + 1)))])"
        by blast
      then show ?thesis using True s(1,3) k(1) Cons.prems(2) by (simp add: a1_def Let_def add.assoc not_le [symmetric])
    qed
  qed simp
  from this [of args ri n] assms(2,4-6) show ?thesis
    using packet_msgs_length [of "unat (a_packet_size args)"] by fastforce
qed

text \<open>
  The end of a test is a sum of tick counts, which can wrap: then the first packet ends the test,
  however long it was to run.
\<close>

lemma wrapped_end_stops_test:
  assumes "nc_delivers ops pending sent" "epts ri p = Some e" "0 < fuel" "\<not> a_no_copy args" "end_ticks args \<le> t"
  shows "\<exists>args' ri'. send_test fuel ops p (t # ticks) args ri = Inr (True, args', ri')
    \<and> send_packet_cnt args' = send_packet_cnt args + 1"
proof -
  obtain ri1 where s: "send_packet fuel ops p args ri = Inr ri1" "epts ri1 = epts ri"
    by (rule packet_sent [OF assms(1-4)])
  let ?h = "header_bytes (out_header RECEIVER_END (send_packet_cnt args + 1))"
  have l: "length ?h \<le> RL_PAYLOAD" by (simp add: RL_PAYLOAD_def)
  have e: "epts ri1 p = Some e" using s(2) assms(2) by simp
  obtain ri2 where "APP_SendPacket fuel ops p ?h (length ?h) False True ri1 = Inr ri2"
    using one_message [OF assms(1) e assms(3) _ l order_refl, of False True] by auto
  then show ?thesis using s(1) assms(4,5) by (simp add: Let_def)
qed

text \<open>A test of packets of size zero divides by it when it ends.\<close>

lemma zero_packet_size_divides:
  assumes "20 \<le> length mem" "preamble (header_of mem) = SENDER_END" "packet_size st = 0"
  shows "handle_packet fuel ops p to_ticks now mem len st ri = Inl Div_By_Zero"
  using assms by (simp add: handle_packet_def preambles)

text \<open>
  The first word of a message is read without looking at its length: one byte of data after a header
  in the same buffer is taken for the header that ends the test.
\<close>

lemma short_data_taken_for_header:
  assumes "buf = [0xEB] @ drop 1 (header_bytes h @ rest)" "preamble h = RECEIVER_END_ACK" "packet_size st = 1" "rx_len st = 0"
    and "nc_delivers ops pending sent" "at_end ri p q e {host}" "0 < fuel"
  shows "\<exists>st' ri'. handle_packet fuel ops p to_ticks now buf 1 st ri = Inr ([Received 0], st', ri')"
proof -
  have b: "buf = put32 SENDER_END @ drop 4 (header_bytes h @ rest)"
  proof -
    have "put32 RECEIVER_END_ACK = [0xEF, 0xAC, 0xCA, 0xBE]" "put32 SENDER_END = [0xEB, 0xAC, 0xCA, 0xBE]"
      by (simp_all add: put32_def le_bytes_24 preambles drop_bit_eq_div)
    then show ?thesis using assms(1,2) by (simp add: header_bytes_def)
  qed
  have pre: "preamble (header_of buf) = SENDER_END"
    using get32_put32 [of "[]" 0 SENDER_END "drop 4 (header_bytes h @ rest)"] by (simp add: b header_of_def)
  have l: "\<not> length buf < 20" by (simp add: b)
  obtain x where x: "epts ri p = Some x" using assms(6) by (auto simp: at_end_def)
  let ?h = "header_bytes (out_header SENDER_END_ACK 0)"
  have lh: "length ?h \<le> RL_PAYLOAD" by (simp add: RL_PAYLOAD_def)
  obtain ri' where "APP_SendPacket fuel ops p ?h (length ?h) (pf_no_copy st) True ri = Inr ri'"
    by (rule one_message [OF assms(5) x assms(7) _ lh order_refl, of "pf_no_copy st" True]) simp_all
  then show ?thesis using l pre assms(3,4) by (simp add: handle_packet_def Let_def preambles)
qed

section \<open>A library\<close>

text \<open>Messages as lists with one buffer to send, for the examples.\<close>

type_synonym tx_box = "box \<times> u8 list"

definition tx_base :: "tx_box rl_ops" where
  "tx_base =
     \<lparr>rpmsg_queue_create = Pair (Some 1), rpmsg_queue_destroy = (\<lambda>q w. w),
      rpmsg_queue_recv = (\<lambda>q n w. case rpmsg_queue_recv box_lib q n (fst w) of (r, b) \<Rightarrow> (r, b, snd w)),
      rpmsg_lite_create_ept = (\<lambda>a q. Pair (Some 1)), rpmsg_lite_destroy_ept = (\<lambda>e. Pair RL_SUCCESS),
      rpmsg_lite_get_endpoint = (\<lambda>a w. None),
      rpmsg_lite_send = (\<lambda>e d x w. case rpmsg_lite_send box_lib e d x (fst w) of (r, b) \<Rightarrow> (r, b, snd w)),
      rpmsg_ns_announce = (\<lambda>e s f. Pair RL_SUCCESS)\<rparr>"

definition tx_lib :: "tx_box nc_ops" where
  "tx_lib =
     \<lparr>nc_base = tx_base,
      rpmsg_lite_alloc_tx_buffer = Pair (Some (0, RL_PAYLOAD)),
      nc_write = (\<lambda>b x w. (fst w, x)),
      rpmsg_lite_send_nocopy = (\<lambda>e d b n w. (RL_SUCCESS, (fst (fst w), snd (fst w) @ [(e, d, take n (snd w))]), snd w)),
      rpmsg_queue_recv_nocopy = (\<lambda>q w. case fst (fst w) q of
          [] \<Rightarrow> ((- 1, 0, 0, [], 0), w)
        | (src, data) # ms \<Rightarrow> ((RL_SUCCESS, src, 0, data @ replicate (RL_PAYLOAD - length data) 0, length data),
            (((fst (fst w))(q := ms), snd (fst w)), snd w))),
      rpmsg_queue_nocopy_free = (\<lambda>b. Pair RL_SUCCESS)\<rparr>"

lemma tx_delivers: "nc_delivers tx_lib (\<lambda>w. fst (fst w)) (\<lambda>w. snd (fst w))"
proof -
  have "delivers tx_base (\<lambda>w. fst (fst w)) (\<lambda>w. snd (fst w))"
    by (auto simp: delivers_def tx_base_def box_lib_def)
  then show ?thesis by (auto simp: nc_delivers_def tx_lib_def)
qed

definition tx_ri :: "(u32 \<times> u8 list) list \<Rightarrow> tx_box rpmsg_instance" where
  "tx_ri ms = \<lparr>rl = (((\<lambda>_. [])(3 := ms), []), []), mode = False, rpmsg_src = 1,
     epts = [0 \<mapsto> \<lparr>sn = ''p'', ept_q = 3, rl_ept = 30, remote_addr = 9\<rparr>], next_ept = 1, rfu = [30 \<mapsto> 0], ns_mq = []\<rparr>"

definition ex_perf :: perf where
  "ex_perf = \<lparr>no_copy_old = True, pf_no_copy = True, rx_len = 0, packet_size = 1, pf_buf = replicate RL_PAYLOAD 0,
     pf_args = \<lparr>a_packet_size = 0, a_no_copy = False, end_ticks = 0, send_packet_cnt = 0\<rparr>, send_packet_sig = False\<rparr>"

lemma data_sent_whole_witness:
  "\<exists>ri' xs. APP_SendPacket 1 tx_lib 0 (replicate 1000 7) 1000 False False (tx_ri []) = Inr ri'
    \<and> snd (fst (rl ri')) = map (\<lambda>x. (30, 9, x)) xs \<and> concat xs = replicate 1000 7 \<and> (\<forall>x \<in> set xs. length x \<le> 496)"
proof -
  have e: "epts (tx_ri []) 0 = Some \<lparr>sn = ''p'', ept_q = 3, rl_ept = 30, remote_addr = 9\<rparr>" by (simp add: tx_ri_def)
  show ?thesis
    using data_sent_whole [OF tx_delivers e, of 1 False False 1000 "replicate 1000 7"]
    by (auto simp: tx_ri_def RL_PAYLOAD_def)
qed

lemma host_learns_what_arrived_witness:
  "\<exists>st' ri'. perf_rounds 4 1 tx_lib 0 id 0 ex_perf (tx_ri (map (Pair 9) (test_messages
        \<lparr>preamble = SENDER_START, h_no_copy = False, h_packet_size = 4, packet_cnt = 0, test_time = 0\<rparr>
        [[65, 66, 67, 68], [69, 70, 71, 72]]
        \<lparr>preamble = SENDER_END, h_no_copy = False, h_packet_size = 0, packet_cnt = 0, test_time = 0\<rparr>)))
      = Inr ([Received 2], st', ri')
    \<and> snd (fst (rl ri')) = [(30, 9, header_bytes (out_header SENDER_END_ACK 2))]"
proof -
  let ?a = "\<lparr>preamble = SENDER_START, h_no_copy = False, h_packet_size = 4, packet_cnt = 0, test_time = 0\<rparr>"
  let ?b = "\<lparr>preamble = SENDER_END, h_no_copy = False, h_packet_size = 0, packet_cnt = 0, test_time = 0\<rparr>"
  let ?ds = "[[65, 66, 67, 68], [69, 70, 71, 72]] :: u8 list list"
  let ?ri = "tx_ri (map (Pair 9) (test_messages ?a ?ds ?b))"
  have h: "hears ?ri 0 3 30 9" by (simp add: hears_def at_end_def tx_ri_def)
  have b: "length (pf_buf ex_perf) = RL_PAYLOAD" by (simp add: ex_perf_def)
  have d: "\<forall>d \<in> set ?ds. plain d"
    by (simp add: plain_def RL_PAYLOAD_def get32_def preambles)
  have q: "fst (fst (rl ?ri)) 3 = map (Pair 9) (test_messages ?a ?ds ?b) @ []" by (simp add: tx_ri_def)
  have p: "preamble ?a = SENDER_START" "h_packet_size ?a \<noteq> 0" "preamble ?b = SENDER_END" by simp_all
  have f: "0 < (1 :: nat)" by simp
  have n: "length ?ds + 2 = 4" and w: "(\<forall>d \<in> set ?ds. length d = unat (h_packet_size ?a)) \<and> length ?ds * unat (h_packet_size ?a) < 2 ^ 32"
    and l: "of_nat (length ?ds) = (2 :: u32)" by simp_all
  obtain cnt st' ri' where "perf_rounds (length ?ds + 2) 1 tx_lib 0 id 0 ex_perf ?ri = Inr ([Received cnt], st', ri')"
    "snd (fst (rl ri')) = snd (fst (rl ?ri)) @ [(30, 9, header_bytes (out_header SENDER_END_ACK cnt))]"
    "cnt = of_nat (length ?ds)"
    using host_learns_what_arrived [OF tx_delivers h b f p d q, of id 0] w by blast
  moreover have "snd (fst (rl ?ri)) = []" by (simp add: tx_ri_def)
  ultimately show ?thesis unfolding n l by simp
qed

lemma host_learns_what_was_sent_witness:
  "\<exists>args' ri'. send_test 1 tx_lib 0 [10, 20, 30, 40] \<lparr>a_packet_size = 600, a_no_copy = False, end_ticks = 25, send_packet_cnt = 0\<rparr>
      (tx_ri []) = Inr (True, args', ri') \<and> send_packet_cnt args' = 3"
proof -
  have e: "epts (tx_ri []) 0 = Some \<lparr>sn = ''p'', ept_q = 3, rl_ept = 30, remote_addr = 9\<rparr>" by (simp add: tx_ri_def)
  show ?thesis
    using host_learns_what_was_sent [OF tx_delivers e, of 1
      "\<lparr>a_packet_size = 600, a_no_copy = False, end_ticks = 25, send_packet_cnt = 0\<rparr>" "[10, 20, 30, 40]" 2]
    by (auto simp del: send_test.simps)
qed

section \<open>Set-up\<close>

text \<open>
  \<open>rpmsg_init_task\<close>: the semaphore, the instance, the endpoint and the two tasks, with the unwinding of
  what was made before. The results of the calls are arguments; a missing semaphore is an assertion,
  as is the end of a failed set-up, whose final state is the result.
\<close>

datatype perf_task = Recv_Task | Send_Task

definition perf_init_task ::
    "'w rl_ops \<Rightarrow> bool \<Rightarrow> init_results \<Rightarrow> string \<Rightarrow> u32 \<Rightarrow> bool \<Rightarrow> bool \<Rightarrow> bool \<Rightarrow> bool \<Rightarrow> 'w rpmsg_instance \<Rightarrow>
       (bool \<times> 'w rpmsg_instance \<times> perf_task set \<times> resource set) outcome" where
  "perf_init_task ops shared r name addr sem_ok malloc_ok recv_ok send_ok ri =
     os_assert sem_ok
      (let (up, h) = rpmsg_init shared (Some False) r {}
       in if \<not> up then Inr (False, ri, {}, h)
          else case rpmsg_create_ept ops malloc_ok addr name ri of
            (None, ri1) \<Rightarrow> Inr (False, ri1, {}, rpmsg_deinit shared False h)
          | (Some p, ri1) \<Rightarrow>
              if \<not> recv_ok then
                and_then (rpmsg_destroy_ept ops p ri1) (\<lambda>(_, ri2). Inr (False, ri2, {}, rpmsg_deinit shared False h))
              else if \<not> send_ok then
                and_then (rpmsg_destroy_ept ops p ri1) (\<lambda>(_, ri2).
                  Inr (False, ri2, {Recv_Task} - {Recv_Task}, rpmsg_deinit shared False h))
              else Inr (True, ri1, {Recv_Task, Send_Task}, h))"

lemma perf_setup_all_or_nothing:
  assumes "rl_ok ops view" "owned view ri" "withdraws ops"
  shows "\<exists>up ri' tasks h. perf_init_task ops shared r name addr True malloc_ok recv_ok send_ok ri = Inr (up, ri', tasks, h)
    \<and> (if up then tasks = {Recv_Task, Send_Task} \<and> owned view ri' \<and> addr \<in> ran (eps (view (rl ri')))
       else view (rl ri') = view (rl ri) \<and> epts ri' = epts ri \<and> rfu ri' = rfu ri \<and> tasks = {} \<and> h \<subseteq> {Mailbox})"
proof -
  obtain up h where i: "rpmsg_init shared (Some False) r {} = (up, h)" by (metis surj_pair)
  have h: "if up then rpmsg_deinit shared False h \<subseteq> {Mailbox} else h \<subseteq> {Mailbox}"
    using i by (auto simp: rpmsg_setup Let_def split: if_splits)
  obtain res ri1 where c: "rpmsg_create_ept ops malloc_ok addr name ri = (res, ri1)" by (metis surj_pair)
  show ?thesis
  proof (cases res)
    case None
    then have "not_created view ri ri1" using create_spec [OF assms(1,2) c] by simp
    then show ?thesis using i h c None by (auto simp: perf_init_task_def not_created_def)
  next
    case (Some p)
    then have n: "created view addr name ri p ri1" using create_spec [OF assms(1,2) c] by simp
    have o1: "owned view ri1" by (rule created_owned [OF assms(2) n])
    have "made_from view ri [p] ri1" by (rule created_made [OF assms(2) n]) simp
    then obtain ri2 where "rpmsg_destroy_ept ops p ri1 = Inr (RL_SUCCESS, ri2)" "made_from view ri [] ri2"
      by (rule unwind_one [OF assms(1,3) o1])
    moreover have "addr \<in> ran (eps (view (rl ri1)))" using n by (auto simp: created_def ran_def)
    ultimately show ?thesis using i h c Some o1 by (auto simp: perf_init_task_def)
  qed
qed

end
