(* ===== verification/Ram_Console.thy ===== *)
theory Ram_Console
  imports Prelude
begin


text \<open>
  The host tool that shows the console of a core, \<open>src/tools/ram_console/ram_console_dump.c\<close>. The
  console is a ring in shared memory with a counter of the characters ever written; the driver that
  writes it is not in the repository, so a look at the memory is an argument: the counter and the
  bytes. The mapping of the memory is what the system answers.
\<close>

section \<open>The tool\<close>

text \<open>What is printed: characters, the blinking mark and the three backspaces that remove it.\<close>

datatype term_out = Out u8 | Blink | Unblink

definition shown :: "u8 \<Rightarrow> u8" where
  "shown ch = (if 32 \<le> ch \<and> ch < 127 \<or> ch = 0xa \<or> ch = 0xd then ch else 46)"

text \<open>The loop of \<open>print_buf\<close> from \<open>i\<close> on over \<open>n\<close> characters.\<close>

fun print_from :: "nat \<Rightarrow> nat \<Rightarrow> u8 list \<Rightarrow> bool \<Rightarrow> term_out list outcome" where
  "print_from 0 i buf begin_dump = Inr []"
| "print_from (Suc n) i buf begin_dump =
     and_then (arr_get buf i) (\<lambda>ch.
       if \<not> begin_dump then print_from n (i + 1) buf (ch = 0xa \<or> ch = 0xd)
       else and_then (print_from n (i + 1) buf True) (\<lambda>os. Inr (Out (shown ch) # os)))"

definition print_buf :: "nat \<Rightarrow> nat \<Rightarrow> u8 list \<Rightarrow> bool \<Rightarrow> bool \<Rightarrow> term_out list outcome" where
  "print_buf start_pos end_pos buf print_blink new_line =
     and_then (print_from (end_pos - start_pos) start_pos buf (\<not> new_line)) (\<lambda>os.
       Inr (os @ (if print_blink then [Blink] else [])))"

definition print_two ::
    "nat \<Rightarrow> nat \<Rightarrow> bool \<Rightarrow> nat \<Rightarrow> u8 list \<Rightarrow> term_out list outcome" where
  "print_two a b new_line c buf =
     and_then (print_buf a b buf False new_line) (\<lambda>xs. and_then (print_buf 0 c buf True False) (\<lambda>ys. Inr (xs @ ys)))"

text \<open>The first dump. The size of the ring divides, so it must not be zero.\<close>

definition first_dump :: "nat \<Rightarrow> u32 \<Rightarrow> u8 list \<Rightarrow> term_out list outcome" where
  "first_dump len pos buf =
     (if len = 0 then Inl Div_By_Zero
      else let real_pos = unat pos mod len
      in if len < unat pos then print_two (real_pos + 1) len True real_pos buf
         else print_buf 0 real_pos buf True False)"

text \<open>A round of the refresh: what is printed and whether the memory is unmapped again.\<close>

definition refresh :: "nat \<Rightarrow> u32 \<Rightarrow> u32 \<Rightarrow> u8 list \<Rightarrow> (term_out list \<times> bool) outcome" where
  "refresh len last_pos pos buf =
     (if len = 0 then Inl Div_By_Zero
      else let real_pos = unat pos mod len; real_last_pos = unat last_pos mod len
      in if pos = last_pos then Inr ([], False)
      else and_then
        (if last_pos < pos \<and> unat (pos - last_pos) \<le> len
         then and_then
           (if real_last_pos < real_pos then print_buf real_last_pos real_pos buf True False
            else print_two real_last_pos len False real_pos buf) (\<lambda>os. Inr (Unblink # os))
         else print_two real_pos len True real_pos buf) (\<lambda>os. Inr (os, True)))"

text \<open>
  The rounds, one for each look at the memory: the result of the mapping, the counter and the
  bytes. The result is the exit code if the tool ends, what was printed and the mappings that
  are left.
\<close>

fun refresh_rounds ::
    "nat \<Rightarrow> u32 \<Rightarrow> (bool \<times> u32 \<times> u8 list) list \<Rightarrow> (int option \<times> term_out list \<times> nat) outcome" where
  "refresh_rounds len last_pos [] = Inr (None, [], 0)"
| "refresh_rounds len last_pos ((mapped, pos, buf) # looks) =
     (if \<not> mapped then Inr (Some 1, [], 0)
      else and_then (refresh len last_pos pos buf) (\<lambda>(os, unmapped).
        and_then (refresh_rounds len pos looks) (\<lambda>(r, os', left).
          Inr (r, os @ os', if unmapped then left else left + 1))))"

text \<open>\<open>main\<close> after the options: address and period, then the device, the header and the looks.\<close>

definition console_main ::
    "nat \<Rightarrow> int \<Rightarrow> bool \<Rightarrow> bool \<Rightarrow> bool \<Rightarrow> nat \<Rightarrow> bool \<times> u32 \<times> u8 list \<Rightarrow> (bool \<times> u32 \<times> u8 list) list \<Rightarrow>
       (int option \<times> term_out list \<times> nat) outcome" where
  "console_main phy_addr loop_time opened header_mapped flag_ok len look looks =
     (if phy_addr = 0 \<or> \<not> opened \<or> \<not> header_mapped \<or> \<not> flag_ok \<or> \<not> fst look then Inr (Some 1, [], 0)
      else and_then (first_dump len (fst (snd look)) (snd (snd look))) (\<lambda>os.
        if loop_time \<le> 0 then Inr (Some 0, os, 0)
        else and_then (refresh_rounds len (fst (snd look)) looks) (\<lambda>(r, os', left). Inr (r, os @ os', left))))"

section \<open>Every character is shown once\<close>

definition chars :: "term_out list \<Rightarrow> u8 list" where
  "chars os = concat (map (\<lambda>x. case x of Out c \<Rightarrow> [c] | _ \<Rightarrow> []) os)"

text \<open>The ring holds the last \<open>len\<close> of the characters written so far.\<close>

definition ring :: "nat \<Rightarrow> (nat \<Rightarrow> u8) \<Rightarrow> u32 \<Rightarrow> u8 list \<Rightarrow> bool" where
  "ring len written pos buf \<longleftrightarrow> length buf = len
     \<and> (\<forall>i < unat pos. unat pos \<le> i + len \<longrightarrow> buf ! (i mod len) = written i)"

lemma ring_upto:
  "ring len written pos buf \<longleftrightarrow> length buf = len
     \<and> list_all (\<lambda>i. unat pos \<le> i + len \<longrightarrow> buf ! (i mod len) = written i) [0..<unat pos]"
  by (auto simp: ring_def list_all_iff)

lemma chars_simps [simp]:
  "chars [] = []" "chars (Out c # os) = c # chars os" "chars (Blink # os) = chars os" "chars (Unblink # os) = chars os"
  "chars (xs @ ys) = chars xs @ chars ys"
  by (simp_all add: chars_def)

lemma print_from_all:
  "i + n \<le> length buf \<Longrightarrow> \<exists>os. print_from n i buf True = Inr os \<and> chars os = map shown (take n (drop i buf))"
proof (induction n arbitrary: i)
  case (Suc n)
  have "take (Suc n) (drop i buf) = buf ! i # take n (drop (Suc i) buf)"
    using Suc.prems by (simp add: Cons_nth_drop_Suc [symmetric])
  then show ?case using Suc.IH [of "Suc i"] Suc.prems by fastforce
qed simp

lemma print_buf_all:
  assumes "a \<le> b" "b \<le> length buf"
  shows "\<exists>os. print_buf a b buf blink False = Inr os \<and> chars os = map shown (take (b - a) (drop a buf))"
  using print_from_all [of a "b - a" buf] assms by (auto simp: print_buf_def)

text \<open>The characters of a stretch of the counter that does not wrap in the ring.\<close>

lemma ring_stretch:
  assumes "ring len written pos buf" "0 < len" "a + n \<le> unat pos" "unat pos \<le> a + len" "a mod len + n \<le> len"
  shows "take n (drop (a mod len) buf) = map written [a..<a + n]"
proof (rule nth_equalityI)
  show "length (take n (drop (a mod len) buf)) = length (map written [a..<a + n])"
    using assms by (simp add: ring_def)
next
  fix i assume "i < length (take n (drop (a mod len) buf))"
  then have i: "i < n" by simp
  have "(a + i) mod len = a mod len + i"
    using i assms(2,5) by (metis add.commute add_less_le_mono less_le_trans mod_add_left_eq mod_less nat_add_left_cancel_less)
  moreover have "a + i < unat pos" "unat pos \<le> (a + i) + len" using i assms(3,4) by simp_all
  then have "buf ! ((a + i) mod len) = written (a + i)" using assms(1) unfolding ring_def by blast
  ultimately have "buf ! (a mod len + i) = written (a + i)" by simp
  then show "take n (drop (a mod len) buf) ! i = map written [a..<a + n] ! i"
    using i assms(1,5) by (simp add: ring_def)
qed


lemma print_stretch:
  assumes "ring len written pos buf" "0 < len" "a + n \<le> unat pos" "unat pos \<le> a + len" "a mod len + n \<le> len"
  shows "\<exists>os. print_buf (a mod len) (a mod len + n) buf blink False = Inr os \<and> chars os = map (\<lambda>i. shown (written i)) [a..<a + n]"
proof -
  have "length buf = len" using assms(1) by (simp add: ring_def)
  then obtain os where "print_buf (a mod len) (a mod len + n) buf blink False = Inr os"
      "chars os = map shown (take n (drop (a mod len) buf))"
    using print_buf_all [of "a mod len" "a mod len + n" buf blink] assms(5) by auto
  then show ?thesis using ring_stretch [OF assms] by (simp add: o_def)
qed

lemma refresh_shows_new:
  assumes "ring len written pos buf" "0 < len" "last_pos < pos" "unat (pos - last_pos) \<le> len"
  shows "\<exists>os. refresh len last_pos pos buf = Inr (os, True)
    \<and> chars os = map (\<lambda>i. shown (written i)) [unat last_pos..<unat pos]"
proof -
  let ?a = "unat last_pos" and ?p = "unat pos"
  let ?f = "map (\<lambda>i. shown (written i))"
  have lt: "?a < ?p" using assms(3) by (simp add: word_less_nat_alt)
  have d: "unat (pos - last_pos) = ?p - ?a" using assms(3) by (simp add: unat_sub)
  have n: "?p - ?a \<le> len" using assms(4) d by simp
  define r where "r = len - ?a mod len"
  have r: "0 < r" "r \<le> len" using assms(2) mod_less_divisor [of len ?a] by (simp_all add: r_def)
  show ?thesis
  proof (cases "?p - ?a < r")
    case True
    have m: "?p mod len = ?a mod len + (?p - ?a)"
    proof -
      have "?a mod len + (?p - ?a) < len" using True by (simp add: r_def)
      then have "(?a + (?p - ?a)) mod len = ?a mod len + (?p - ?a)"
        by (metis mod_add_left_eq mod_less)
      then show ?thesis using lt by simp
    qed
    obtain os where os: "print_buf (?a mod len) (?p mod len) buf True False = Inr os" "chars os = ?f [?a..<?p]"
    proof -
      have "?a + (?p - ?a) \<le> ?p" "?p \<le> ?a + len" "?a mod len + (?p - ?a) \<le> len" using lt n True by (auto simp: r_def)
      then have "\<exists>os. print_buf (?a mod len) (?a mod len + (?p - ?a)) buf True False = Inr os \<and> chars os = ?f [?a..<?a + (?p - ?a)]"
        by (rule print_stretch [OF assms(1,2)])
      then show thesis using that m lt by (metis le_add_diff_inverse less_imp_le_nat)
    qed
    have "?a mod len < ?p mod len" using m lt by simp
    then show ?thesis using os assms(2-4) by (simp add: refresh_def Let_def less_imp_neq)
  next
    case False
    have e: "?a + r + (?p - ?a - r) = ?p" using False lt by simp
    have z: "(?a + r) mod len = 0"
    proof -
      have "?a + r = ?a div len * len + len"
        using r_def mod_less_divisor [OF assms(2), of ?a] by (metis add.assoc add_diff_inverse_nat div_mult_mod_eq less_imp_le_nat not_le)
      then show ?thesis by simp
    qed
    have m: "?p mod len = ?p - ?a - r"
    proof -
      have "?p - ?a - r < len" using n r(1) assms(2) by simp
      then have "(?a + r + (?p - ?a - r)) mod len = ?p - ?a - r" using z by (metis mod_add_left_eq add_0 mod_less)
      then show ?thesis using e by simp
    qed
    obtain xs where xs: "print_buf (?a mod len) len buf False False = Inr xs" "chars xs = ?f [?a..<?a + r]"
    proof -
      have w: "?a mod len + r = len" using mod_less_divisor [OF assms(2), of ?a] by (simp add: r_def)
      have "?a + r \<le> ?p" "?p \<le> ?a + len" "?a mod len + r \<le> len" using lt n False w by auto
      then have "\<exists>os. print_buf (?a mod len) (?a mod len + r) buf False False = Inr os \<and> chars os = ?f [?a..<?a + r]"
        by (rule print_stretch [OF assms(1,2)])
      then show thesis using that w by auto
    qed
    obtain ys where ys: "print_buf 0 (?p mod len) buf True False = Inr ys" "chars ys = ?f [?a + r..<?p]"
    proof -
      have "?a + r + (?p - ?a - r) \<le> ?p" "?p \<le> ?a + r + len" "(?a + r) mod len + (?p - ?a - r) \<le> len"
        using e n z by auto
      then have "\<exists>os. print_buf ((?a + r) mod len) ((?a + r) mod len + (?p - ?a - r)) buf True False = Inr os
          \<and> chars os = ?f [?a + r..<?a + r + (?p - ?a - r)]"
        by (rule print_stretch [OF assms(1,2)])
      then show thesis using that z e m by auto
    qed
    have "[?a..<?a + r] @ [?a + r..<?p] = [?a..<?p]" using False lt by (metis e upt_add_eq_append le_add1)
    then have c: "chars (xs @ ys) = ?f [?a..<?p]" using xs(2) ys(2) by (simp flip: map_append)
    have "\<not> ?a mod len < ?p mod len" using m n r_def by simp
    then show ?thesis using xs(1) ys(1) c assms(2-4) by (simp add: refresh_def print_two_def Let_def less_imp_neq)
  qed
qed


text \<open>The looks of a run: the ring is written on between them, by at most its size each time.\<close>

fun looks_ok :: "nat \<Rightarrow> (nat \<Rightarrow> u8) \<Rightarrow> u32 \<Rightarrow> (bool \<times> u32 \<times> u8 list) list \<Rightarrow> bool" where
  "looks_ok len written last_pos [] = True"
| "looks_ok len written last_pos ((mapped, pos, buf) # looks) \<longleftrightarrow>
     mapped \<and> ring len written pos buf \<and> last_pos \<le> pos \<and> unat (pos - last_pos) \<le> len \<and> looks_ok len written pos looks"

fun last_look :: "u32 \<Rightarrow> (bool \<times> u32 \<times> u8 list) list \<Rightarrow> u32" where
  "last_look p [] = p"
| "last_look p ((_, pos, _) # looks) = last_look pos looks"

lemma last_look_le: "looks_ok len written p looks \<Longrightarrow> p \<le> last_look p looks"
  by (induction len written p looks rule: looks_ok.induct) auto

lemma rounds_show_all:
  assumes "looks_ok len written last_pos looks" "0 < len"
  shows "\<exists>os left. refresh_rounds len last_pos looks = Inr (None, os, left)
    \<and> chars os = map (\<lambda>i. shown (written i)) [unat last_pos..<unat (last_look last_pos looks)]
    \<and> left = length (filter (\<lambda>(p, q). p = q) (zip (last_pos # map (\<lambda>l. fst (snd l)) looks) (map (\<lambda>l. fst (snd l)) looks)))"
  using assms
proof (induction len written last_pos looks rule: looks_ok.induct)
  case (2 len written last_pos mapped pos buf looks)
  have ok: "mapped" "ring len written pos buf" "last_pos \<le> pos" "unat (pos - last_pos) \<le> len" "looks_ok len written pos looks"
    using "2.prems" by simp_all
  obtain os' left' where r: "refresh_rounds len pos looks = Inr (None, os', left')"
      "chars os' = map (\<lambda>i. shown (written i)) [unat pos..<unat (last_look pos looks)]"
      "left' = length (filter (\<lambda>(p, q). p = q) (zip (pos # map (\<lambda>l. fst (snd l)) looks) (map (\<lambda>l. fst (snd l)) looks)))"
    using "2.IH" ok(5) "2.prems"(2) by blast
  show ?case
  proof (cases "pos = last_pos")
    case True
    then show ?thesis using r ok(1) "2.prems"(2) by (simp add: refresh_def)
  next
    case False
    then have lt: "last_pos < pos" using ok(3) by simp
    obtain os where os: "refresh len last_pos pos buf = Inr (os, True)" "chars os = map (\<lambda>i. shown (written i)) [unat last_pos..<unat pos]"
      using refresh_shows_new [OF ok(2) "2.prems"(2) lt ok(4)] by blast
    have "unat last_pos \<le> unat pos" "unat pos \<le> unat (last_look pos looks)"
      using ok(3) last_look_le [OF ok(5)] by (simp_all add: word_le_nat_alt)
    then have "[unat last_pos..<unat pos] @ [unat pos..<unat (last_look pos looks)] = [unat last_pos..<unat (last_look pos looks)]"
      by (metis le_add_diff_inverse upt_add_eq_append)
    then have "chars (os @ os') = map (\<lambda>i. shown (written i)) [unat last_pos..<unat (last_look pos looks)]"
      using os(2) r(2) by (simp flip: map_append)
    then show ?thesis using os(1) r(1,3) ok(1) False by simp
  qed
qed simp

text \<open>
  C40: The console is shown as it is written: when the ring is not overrun between two looks and its
  counter does not wrap, the tool prints every character written before the first look (at which the ring is not yet full) and
  until the last one, each once and in order, with unprintable ones as dots.
\<close>

theorem console_shown_in_order:
  assumes "0 < len" "ring len written pos buf" "unat pos < len" "looks_ok len written pos looks"
    and "phy_addr \<noteq> 0" "0 < loop_time"
  shows "\<exists>os left. console_main phy_addr loop_time True True True len (True, pos, buf) looks = Inr (None, os, left)
    \<and> chars os = map (\<lambda>i. shown (written i)) [0..<unat (last_look pos looks)]"
proof -
  obtain os where os: "first_dump len pos buf = Inr os" "chars os = map (\<lambda>i. shown (written i)) [0..<unat pos]"
  proof -
    have "0 + unat pos \<le> unat pos" "unat pos \<le> 0 + len" "0 mod len + unat pos \<le> len" using assms(3) by simp_all
    then have "\<exists>os. print_buf (0 mod len) (0 mod len + unat pos) buf True False = Inr os
        \<and> chars os = map (\<lambda>i. shown (written i)) [0..<0 + unat pos]"
      by (rule print_stretch [OF assms(2,1)])
    then show thesis using that assms(1,3) by (auto simp: first_dump_def Let_def)
  qed
  obtain os' left where r: "refresh_rounds len pos looks = Inr (None, os', left)"
      "chars os' = map (\<lambda>i. shown (written i)) [unat pos..<unat (last_look pos looks)]"
    using rounds_show_all [OF assms(4,1)] by blast
  have "unat pos \<le> unat (last_look pos looks)" using last_look_le [OF assms(4)] by (simp add: word_le_nat_alt)
  then have "[0..<unat pos] @ [unat pos..<unat (last_look pos looks)] = [0..<unat (last_look pos looks)]"
    by (metis add_0 le_add_diff_inverse upt_add_eq_append zero_le)
  then have "chars (os @ os') = map (\<lambda>i. shown (written i)) [0..<unat (last_look pos looks)]"
    using os(2) r(2) by (simp flip: map_append)
  then show ?thesis using os(1) r(1) assms(5,6) by (simp add: console_main_def)
qed

text \<open>Eight characters come through a ring of six: the second look finds the ring wrapped.\<close>

theorem console_shown_in_order_witness:
  "\<exists>os left. console_main 1 1 True True True 6 (True, 4, [65, 66, 67, 68, 0, 0])
      [(True, 4, [65, 66, 67, 68, 0, 0]), (True, 8, [71, 72, 67, 68, 69, 70])] = Inr (None, os, left)
    \<and> chars os = [65, 66, 67, 68, 69, 70, 71, 72]"
proof -
  let ?w = "\<lambda>i. word_of_nat (65 + i) :: u8"
  have r: "ring 6 ?w 4 [65, 66, 67, 68, 0, 0]" "ring 6 ?w 8 [71, 72, 67, 68, 69, 70]"
    by (simp_all add: ring_upto upt_rec)
  have l: "looks_ok 6 ?w 4 [(True, 4, [65, 66, 67, 68, 0, 0]), (True, 8, [71, 72, 67, 68, 69, 70])]"
    using r by simp
  have "map (\<lambda>i. shown (?w i)) [0..<8] = [65, 66, 67, 68, 69, 70, 71, 72]"
    by (simp add: upt_rec shown_def)
  then show ?thesis
    using console_shown_in_order [OF _ r(1) _ l, of 1 1] by simp
qed

text \<open>
  A ring that has just been filled is taken for an empty one: nothing of it is printed.
\<close>

lemma full_ring_not_shown:
  assumes "0 < len" "unat pos = len"
  shows "first_dump len pos buf = Inr [Blink]"
  using assms by (simp add: first_dump_def print_buf_def Let_def)

text \<open>
  A round that finds nothing new keeps its mapping of the memory: \<open>continue\<close> skips the unmapping,
  so an idle console is mapped once more each period.
\<close>

lemma idle_rounds_keep_mappings:
  assumes "0 < len"
  shows "refresh_rounds len pos (replicate n (True, pos, buf)) = Inr (None, [], n)"
  using assms by (induction n) (simp_all add: refresh_def)

text \<open>The size of the ring is read from the memory and divides unchecked.\<close>

lemma empty_ring_divides: "first_dump 0 pos buf = Inl Div_By_Zero"
  by (simp add: first_dump_def)

end
