(* ===== verification/Netc_Share.thy ===== *)
theory Netc_Share
  imports Prelude
begin


text \<open>
  The shared Ethernet controller, \<open>src/apps/netc_share/freertos\<close>: the core that owns the controller
  answers accesses of the other system to the configuration space, shows it a copy of that space
  in memory, forwards its I2C transfers and follows the links of the switch ports. The hardware
  and the drivers of the SDK are parameters.
\<close>

section \<open>Configuration space\<close>

text \<open>
  A device is its state and what a read and a write of \<open>n\<close> bytes at an address do to it; a read can
  change it. The copy is memory, one byte an address.
\<close>

record 'd pci_ops =
  pci_read :: "u32 \<Rightarrow> nat \<Rightarrow> 'd \<Rightarrow> u32 \<times> 'd"
  pci_write :: "u32 \<Rightarrow> nat \<Rightarrow> u32 \<Rightarrow> 'd \<Rightarrow> 'd"

type_synonym memory = "u32 \<Rightarrow> u8"

datatype srtm_status = SRTM_Status_Success | SRTM_Status_Error | SRTM_Status_TransferFailed

definition PCIE_CONFIG_SPACE_BASE :: u32 where "PCIE_CONFIG_SPACE_BASE = 0x4CA00000"
definition PCIE_CONFIG_SPACE_SIZE :: u32 where "PCIE_CONFIG_SPACE_SIZE = 0x100000"
definition PCIE_CONFIG_SHARED_ENETC_BASE :: u32 where "PCIE_CONFIG_SHARED_ENETC_BASE = 0x4CA00000"
definition PCIE_VIRTUAL_CONFIG_SPACE_BASE :: u32 where "PCIE_VIRTUAL_CONFIG_SPACE_BASE = 0x88224000"
definition REG_PCIE_DEV_CTRL :: u16 where "REG_PCIE_DEV_CTRL = 0x48"
definition PCIE_DEV_CTRL_INIT_FLR_MASK :: u16 where "PCIE_DEV_CTRL_INIT_FLR_MASK = 0x8000"

definition store :: "nat \<Rightarrow> u32 \<Rightarrow> u32 \<Rightarrow> memory \<Rightarrow> memory" where
  "store n a v m = (\<lambda>x. if unat (x - a) < n then le_bytes n (ucast v) ! unat (x - a) else m x)"

definition load :: "nat \<Rightarrow> u32 \<Rightarrow> memory \<Rightarrow> u32" where
  "load n a m = ucast (of_le_bytes (map (\<lambda>i. m (a + of_nat i)) [0..<n]))"

text \<open>Waiting for the reset of a function: \<open>fuel\<close> bounds the reads of the control register.\<close>

fun flr_wait :: "nat \<Rightarrow> 'd pci_ops \<Rightarrow> u32 \<Rightarrow> 'd \<Rightarrow> 'd outcome" where
  "flr_wait 0 ops addr d = Inl Diverges"
| "flr_wait (Suc fuel) ops addr d =
     (let (v, d) = pci_read ops addr 2 d
      in if v AND 0x8000 \<noteq> 0 then flr_wait fuel ops addr d else Inr d)"

text \<open>A write of \<open>n\<close> bytes to the device and of what the device reads back to the copy.\<close>

definition write_through ::
    "'d pci_ops \<Rightarrow> nat \<Rightarrow> u32 \<Rightarrow> u32 \<Rightarrow> u32 \<Rightarrow> 'd \<times> memory \<Rightarrow> 'd \<times> memory" where
  "write_through ops n addr vaddr v s =
     (let (r, d) = pci_read ops addr n (pci_write ops addr n v (fst s)) in (d, store n vaddr r (snd s)))"

definition config_rid :: "u8 \<Rightarrow> u8 \<Rightarrow> u16" where
  "config_rid bus devFn = push_bit 8 (ucast bus) OR ucast devFn"

definition config_offset :: "u8 \<Rightarrow> u8 \<Rightarrow> u16 \<Rightarrow> u32" where
  "config_offset bus devFn reg = ucast (config_rid bus devFn) * 4 * 1024 + ucast reg"

definition APP_SRTM_NETC_WritePCIConfig ::
    "nat \<Rightarrow> 'd pci_ops \<Rightarrow> u8 \<Rightarrow> u8 \<Rightarrow> u16 \<Rightarrow> u32 \<Rightarrow> u8 \<Rightarrow> 'd \<times> memory \<Rightarrow> (srtm_status \<times> 'd \<times> memory) outcome" where
  "APP_SRTM_NETC_WritePCIConfig fuel ops bus devFn reg val width s =
     (let addr = PCIE_CONFIG_SPACE_BASE + config_offset bus devFn reg;
          vaddr = PCIE_VIRTUAL_CONFIG_SPACE_BASE + config_offset bus devFn reg
      in if PCIE_CONFIG_SPACE_BASE + PCIE_CONFIG_SPACE_SIZE \<le> addr then Inr (SRTM_Status_Error, s)
      else if PCIE_CONFIG_SHARED_ENETC_BASE \<le> addr \<and> addr < PCIE_CONFIG_SHARED_ENETC_BASE + 0x150
        then Inr (SRTM_Status_Success, s)
      else if width \<noteq> 1 \<and> width \<noteq> 2 \<and> width \<noteq> 4 then Inr (SRTM_Status_Error, s)
      else
        let v = (if width = 1 then val AND 0xff else if width = 2 then val AND 0xffff else val);
            s = write_through ops (unat width) addr vaddr v s
        in if reg = REG_PCIE_DEV_CTRL \<and> ucast val = PCIE_DEV_CTRL_INIT_FLR_MASK
           then and_then (flr_wait fuel ops addr (fst s)) (\<lambda>d.
             let (r, d) = pci_read ops addr 2 d in Inr (SRTM_Status_Success, d, store 2 vaddr r (snd s)))
           else Inr (SRTM_Status_Success, s))"

text \<open>
  The copy at the start: the bytes \<open>config\<close> of the space, and the first register of four functions
  overwritten.
\<close>

definition copy_space :: "u32 \<Rightarrow> u32 \<Rightarrow> u32 \<Rightarrow> memory \<Rightarrow> memory \<Rightarrow> memory" where
  "copy_space dst src n from m = (\<lambda>x. if x - dst < n then from (src + (x - dst)) else m x)"

definition APP_SRTM_NETC_VirtualizePCIConfig :: "memory \<Rightarrow> memory \<Rightarrow> memory" where
  "APP_SRTM_NETC_VirtualizePCIConfig config m =
     (let m = (\<lambda>x. if x - PCIE_VIRTUAL_CONFIG_SPACE_BASE < PCIE_CONFIG_SPACE_SIZE then 0 else m x);
          m = copy_space PCIE_VIRTUAL_CONFIG_SPACE_BASE PCIE_CONFIG_SPACE_BASE PCIE_CONFIG_SPACE_SIZE config m;
          m = store 4 PCIE_VIRTUAL_CONFIG_SPACE_BASE 0x080B1131 m;
          m = store 4 (PCIE_VIRTUAL_CONFIG_SPACE_BASE + 0x1000) 0x0000ffff m;
          m = store 4 (PCIE_VIRTUAL_CONFIG_SPACE_BASE + 0x2000) 0x0000ffff m
      in store 4 (PCIE_VIRTUAL_CONFIG_SPACE_BASE + 0x8000) 0x0000ffff m)"

lemmas config_space_defs =
  PCIE_CONFIG_SPACE_BASE_def PCIE_CONFIG_SPACE_SIZE_def PCIE_CONFIG_SHARED_ENETC_BASE_def
  PCIE_VIRTUAL_CONFIG_SPACE_BASE_def REG_PCIE_DEV_CTRL_def PCIE_DEV_CTRL_INIT_FLR_MASK_def

subsection \<open>Addresses\<close>

lemma config_offset_unat: "unat (config_offset bus devFn reg) = (256 * unat bus + unat devFn) * 4096 + unat reg"
proof -
  have "push_bit 8 (ucast bus :: u16) OR ucast devFn = push_bit 8 (ucast bus) + ucast devFn"
    by (rule disjunctive_add [symmetric]) (auto simp: bit_simps dest: bit_imp_le_length)
  moreover have "unat (push_bit 8 (ucast bus) :: u16) = 256 * unat bus"
    using u8_lt [of bus] by (simp add: push_bit_eq_mult unat_word_ariths(2) unat_ucast_up)
  ultimately have rid: "unat (config_rid bus devFn) = 256 * unat bus + unat devFn"
    using u8_lt [of bus] u8_lt [of devFn] by (simp add: config_rid_def unat_add_lt unat_ucast_up)
  have "unat (ucast (config_rid bus devFn) * 4 * 1024 :: u32) = unat (config_rid bus devFn) * 4096"
  proof -
    have "ucast (config_rid bus devFn) * 4 * 1024 = (ucast (config_rid bus devFn) * 4096 :: u32)" by simp
    then show ?thesis using u16_lt [of "config_rid bus devFn"] by (simp only: unat_word_ariths(2) unat_ucast_16_32) simp
  qed
  then show ?thesis
    using u8_lt [of bus] u8_lt [of devFn] u16_lt [of reg] by (simp add: config_offset_def unat_add_lt rid)
qed


lemma config_addr:
  fixes bus devFn reg
  defines "off \<equiv> config_offset bus devFn reg"
  shows "unat (PCIE_CONFIG_SPACE_BASE + off) = 0x4CA00000 + unat off"
    "unat (PCIE_VIRTUAL_CONFIG_SPACE_BASE + off) = 0x88224000 + unat off"
    "unat off < 0x10010000"
proof -
  show b: "unat off < 0x10010000"
    using u8_lt [of bus] u8_lt [of devFn] u16_lt [of reg] by (simp add: off_def config_offset_unat)
  show "unat (PCIE_CONFIG_SPACE_BASE + off) = 0x4CA00000 + unat off"
    "unat (PCIE_VIRTUAL_CONFIG_SPACE_BASE + off) = 0x88224000 + unat off"
    using b by (simp_all add: config_space_defs unat_add_lt)
qed

lemma config_checks:
  fixes bus devFn reg
  defines "off \<equiv> config_offset bus devFn reg"
  shows "PCIE_CONFIG_SPACE_BASE + PCIE_CONFIG_SPACE_SIZE \<le> PCIE_CONFIG_SPACE_BASE + off \<longleftrightarrow> 0x100000 \<le> unat off"
    "PCIE_CONFIG_SHARED_ENETC_BASE \<le> PCIE_CONFIG_SPACE_BASE + off \<and>
       PCIE_CONFIG_SPACE_BASE + off < PCIE_CONFIG_SHARED_ENETC_BASE + 0x150 \<longleftrightarrow> unat off < 0x150"
proof -
  have e: "unat (PCIE_CONFIG_SPACE_BASE + PCIE_CONFIG_SPACE_SIZE) = 0x4CB00000"
    "unat PCIE_CONFIG_SHARED_ENETC_BASE = 0x4CA00000" "unat (PCIE_CONFIG_SHARED_ENETC_BASE + 0x150) = 0x4CA00150"
    by (simp_all add: config_space_defs)
  show "PCIE_CONFIG_SPACE_BASE + PCIE_CONFIG_SPACE_SIZE \<le> PCIE_CONFIG_SPACE_BASE + off \<longleftrightarrow> 0x100000 \<le> unat off"
    unfolding word_le_nat_alt e using config_addr(1) [of bus devFn reg] by (simp add: off_def)
  show "PCIE_CONFIG_SHARED_ENETC_BASE \<le> PCIE_CONFIG_SPACE_BASE + off \<and>
       PCIE_CONFIG_SPACE_BASE + off < PCIE_CONFIG_SHARED_ENETC_BASE + 0x150 \<longleftrightarrow> unat off < 0x150"
    unfolding word_le_nat_alt word_less_nat_alt e using config_addr(1) [of bus devFn reg] by (simp add: off_def)
qed

text \<open>What a write does, by the offset of the register.\<close>

lemma write_cases:
  fixes bus devFn reg
  defines "off \<equiv> config_offset bus devFn reg"
  shows "0x100000 \<le> unat off \<Longrightarrow>
      APP_SRTM_NETC_WritePCIConfig fuel ops bus devFn reg val width s = Inr (SRTM_Status_Error, s)"
    "unat off < 0x150 \<Longrightarrow>
      APP_SRTM_NETC_WritePCIConfig fuel ops bus devFn reg val width s = Inr (SRTM_Status_Success, s)"
    "unat off < 0x100000 \<Longrightarrow> 0x150 \<le> unat off \<Longrightarrow> width \<notin> {1, 2, 4} \<Longrightarrow>
      APP_SRTM_NETC_WritePCIConfig fuel ops bus devFn reg val width s = Inr (SRTM_Status_Error, s)"
    "unat off < 0x100000 \<Longrightarrow> 0x150 \<le> unat off \<Longrightarrow> width \<in> {1, 2, 4} \<Longrightarrow>
      APP_SRTM_NETC_WritePCIConfig fuel ops bus devFn reg val width s =
        (let s = write_through ops (unat width) (PCIE_CONFIG_SPACE_BASE + off) (PCIE_VIRTUAL_CONFIG_SPACE_BASE + off)
                   (take_bit (8 * unat width) val) s
         in if reg = REG_PCIE_DEV_CTRL \<and> ucast val = PCIE_DEV_CTRL_INIT_FLR_MASK
            then and_then (flr_wait fuel ops (PCIE_CONFIG_SPACE_BASE + off) (fst s)) (\<lambda>d.
              let (r, d) = pci_read ops (PCIE_CONFIG_SPACE_BASE + off) 2 d
              in Inr (SRTM_Status_Success, d, store 2 (PCIE_VIRTUAL_CONFIG_SPACE_BASE + off) r (snd s)))
            else Inr (SRTM_Status_Success, s))"
proof -
  have m: "(if width = 1 then val AND 0xff else if width = 2 then val AND 0xffff else val) = take_bit (8 * unat width) val"
    if "width \<in> {1, 2, 4}"
    using that take_bit_word_eq_self [of 32 val] by (auto simp: take_bit_eq_mask [of 8] take_bit_eq_mask [of 16] mask_eq_exp_minus_1)
  note c = config_checks [of bus devFn reg, folded off_def]
  note simps = APP_SRTM_NETC_WritePCIConfig_def Let_def off_def [symmetric] c
  show "0x100000 \<le> unat off \<Longrightarrow>
      APP_SRTM_NETC_WritePCIConfig fuel ops bus devFn reg val width s = Inr (SRTM_Status_Error, s)"
    by (simp add: simps)
  show "unat off < 0x150 \<Longrightarrow>
      APP_SRTM_NETC_WritePCIConfig fuel ops bus devFn reg val width s = Inr (SRTM_Status_Success, s)"
    by (simp add: simps)
  show "unat off < 0x100000 \<Longrightarrow> 0x150 \<le> unat off \<Longrightarrow> width \<notin> {1, 2, 4} \<Longrightarrow>
      APP_SRTM_NETC_WritePCIConfig fuel ops bus devFn reg val width s = Inr (SRTM_Status_Error, s)"
    by (simp add: simps)
  assume o: "unat off < 0x100000" "0x150 \<le> unat off" and w: "width \<in> {1, 2, 4}"
  have "\<not> (width \<noteq> 1 \<and> width \<noteq> 2 \<and> width \<noteq> 4)" using w by auto
  then show "APP_SRTM_NETC_WritePCIConfig fuel ops bus devFn reg val width s =
        (let s = write_through ops (unat width) (PCIE_CONFIG_SPACE_BASE + off) (PCIE_VIRTUAL_CONFIG_SPACE_BASE + off)
                   (take_bit (8 * unat width) val) s
         in if reg = REG_PCIE_DEV_CTRL \<and> ucast val = PCIE_DEV_CTRL_INIT_FLR_MASK
            then and_then (flr_wait fuel ops (PCIE_CONFIG_SPACE_BASE + off) (fst s)) (\<lambda>d.
              let (r, d) = pci_read ops (PCIE_CONFIG_SPACE_BASE + off) 2 d
              in Inr (SRTM_Status_Success, d, store 2 (PCIE_VIRTUAL_CONFIG_SPACE_BASE + off) r (snd s)))
            else Inr (SRTM_Status_Success, s))"
    using o by (simp only: simps m [OF w]) simp
qed

subsection \<open>Requests of the other system\<close>

type_synonym config_request = "u8 \<times> u8 \<times> u16 \<times> u32 \<times> u8"

fun pci_requests ::
    "nat \<Rightarrow> 'd pci_ops \<Rightarrow> config_request list \<Rightarrow> 'd \<times> memory \<Rightarrow> (srtm_status list \<times> 'd \<times> memory) outcome" where
  "pci_requests fuel ops [] s = Inr ([], s)"
| "pci_requests fuel ops ((bus, devFn, reg, val, width) # rs) s =
     and_then (APP_SRTM_NETC_WritePCIConfig fuel ops bus devFn reg val width s) (\<lambda>(st, s).
       and_then (pci_requests fuel ops rs s) (\<lambda>(sts, s). Inr (st # sts, s)))"

text \<open>A device that keeps a log of the accesses made to it.\<close>

definition logged :: "'d pci_ops \<Rightarrow> ('d \<times> (u32 \<times> nat) list) pci_ops" where
  "logged ops = \<lparr>pci_read = (\<lambda>a n (d, l). let (v, d) = pci_read ops a n d in (v, d, (a, n) # l)),
                 pci_write = (\<lambda>a n v (d, l). (pci_write ops a n v d, (a, n) # l))\<rparr>"

text \<open>
  An access of 1, 2 or 4 bytes that begins in the configuration space, behind the header of the shared
  controller. Aligned, it ends in the space; an unaligned one ends at most three bytes behind it.
\<close>

definition access_ok :: "u32 \<times> nat \<Rightarrow> bool" where
  "access_ok = (\<lambda>(a, n). 0x4CA00150 \<le> unat a \<and> unat a < 0x4CB00000 \<and> n \<in> {1, 2, 4}
     \<and> unat a + n \<le> 0x4CB00003 \<and> (n dvd unat a \<longrightarrow> unat a + n \<le> 0x4CB00000))"

lemma access_okI:
  assumes "0x4CA00150 \<le> unat a" "unat a < 0x4CB00000" "n \<in> {1, 2, 4}"
  shows "access_ok (a, n)"
proof -
  have "unat a + n \<le> 0x4CB00000" if d: "n dvd unat a"
  proof -
    have "n dvd 0x4CB00000 - unat a" using assms(3) d by (intro dvd_diff_nat) auto
    then have "n \<le> 0x4CB00000 - unat a" using assms(2) by (intro dvd_imp_le) auto
    then show ?thesis using assms(2) by simp
  qed
  moreover have "unat a + n \<le> 0x4CB00003" using assms(2,3) by auto
  ultimately show ?thesis using assms by (simp add: access_ok_def)
qed

definition in_copy :: "u32 \<Rightarrow> bool" where
  "in_copy x \<longleftrightarrow> 0x150 \<le> unat (x - PCIE_VIRTUAL_CONFIG_SPACE_BASE)
     \<and> unat (x - PCIE_VIRTUAL_CONFIG_SPACE_BASE) < 0x100003"

lemma store_elsewhere: "n \<le> unat (x - a) \<Longrightarrow> store n a v m x = m x"
  by (simp add: store_def)

lemma store_at: "i < n \<Longrightarrow> n \<le> 8 \<Longrightarrow> store n a v m (a + of_nat i) = le_bytes n (ucast v) ! i"
  by (simp add: store_def)

lemma load_store: "n \<le> 4 \<Longrightarrow> load n a (store n a v m) = take_bit (8 * n) v"
proof -
  assume n: "n \<le> 4"
  have "map (\<lambda>i. store n a v m (a + of_nat i)) [0..<n] = le_bytes n (ucast v)"
    using n by (intro nth_equalityI) (auto simp: store_at)
  then have "load n a (store n a v m) = ucast (take_bit (8 * n) (ucast v :: u64))"
    by (simp add: load_def of_le_bytes_le_bytes)
  also have "\<dots> = take_bit (8 * n) v" by (rule bit_word_eqI) (auto simp: bit_simps)
  finally show ?thesis .
qed

lemma store_in_copy:
  assumes "0x150 \<le> unat off" "unat off < 0x100000" "n \<in> {1, 2, 4}" "\<not> in_copy x"
  shows "store n (PCIE_VIRTUAL_CONFIG_SPACE_BASE + off) v m x = m x"
proof (rule store_elsewhere, rule ccontr)
  let ?y = "x - PCIE_VIRTUAL_CONFIG_SPACE_BASE"
  assume "\<not> n \<le> unat (x - (PCIE_VIRTUAL_CONFIG_SPACE_BASE + off))"
  then have k: "unat (?y - off) < 4" using assms(3) by (auto simp: diff_diff_eq)
  have e: "off + (?y - off) = ?y" by simp
  have "unat ?y = unat off + unat (?y - off)"
    using unat_add_lt [of off "?y - off"] assms(2) k unfolding e by simp
  then show False using assms(1,2,4) k by (auto simp: in_copy_def)
qed


text \<open>Every access of a request is inside the space and outside the header of the shared controller.\<close>

definition request_ok :: "'d \<times> memory \<Rightarrow> ('d \<times> (u32 \<times> nat) list) \<times> memory \<Rightarrow> bool" where
  "request_ok s s' \<longleftrightarrow> list_all access_ok (snd (fst s')) \<and> (\<forall>x. \<not> in_copy x \<longrightarrow> snd s' x = snd s x)"

lemma logged_simps [simp]:
  "pci_read (logged ops) a n (d, l) = (fst (pci_read ops a n d), snd (pci_read ops a n d), (a, n) # l)"
  "pci_write (logged ops) a n v (d, l) = (pci_write ops a n v d, (a, n) # l)"
  by (simp_all add: logged_def split: prod.splits)

lemma flr_wait_log:
  assumes "flr_wait fuel (logged ops) a d = Inr d'" "access_ok (a, 2)" "list_all access_ok (snd d)"
  shows "list_all access_ok (snd d')"
  using assms
proof (induction fuel arbitrary: d)
  case (Suc fuel)
  then show ?case by (cases d) (auto split: if_splits)
qed simp

text \<open>A request that is answered changed nothing, or wrote one register, perhaps with a reset to wait for.\<close>

lemma write_elim:
  fixes bus devFn reg
  defines "off \<equiv> config_offset bus devFn reg"
  assumes "APP_SRTM_NETC_WritePCIConfig fuel ops bus devFn reg val width (d, m) = Inr (st, d', m')"
  obtains (Nothing) "d' = d" "m' = m"
  | (Written) d1 m1 where "0x150 \<le> unat off" "unat off < 0x100000" "unat width \<in> {1, 2, 4}"
      "write_through ops (unat width) (PCIE_CONFIG_SPACE_BASE + off) (PCIE_VIRTUAL_CONFIG_SPACE_BASE + off)
        (take_bit (8 * unat width) val) (d, m) = (d1, m1)"
      "d' = d1 \<and> m' = m1 \<or> (\<exists>d2. flr_wait fuel ops (PCIE_CONFIG_SPACE_BASE + off) d1 = Inr d2
        \<and> d' = snd (pci_read ops (PCIE_CONFIG_SPACE_BASE + off) 2 d2)
        \<and> m' = store 2 (PCIE_VIRTUAL_CONFIG_SPACE_BASE + off) (fst (pci_read ops (PCIE_CONFIG_SPACE_BASE + off) 2 d2)) m1)"
proof -
  note w = write_cases [of bus devFn reg, folded off_def]
  consider (Error) "0x100000 \<le> unat off" | (Shared) "unat off < 0x150"
    | (Width) "unat off < 0x100000" "0x150 \<le> unat off" "width \<notin> {1, 2, 4}"
    | (Wr) "unat off < 0x100000" "0x150 \<le> unat off" "width \<in> {1, 2, 4}" by linarith
  then show thesis
  proof cases
    case Wr
    obtain d1 m1 where s1: "write_through ops (unat width) (PCIE_CONFIG_SPACE_BASE + off) (PCIE_VIRTUAL_CONFIG_SPACE_BASE + off)
        (take_bit (8 * unat width) val) (d, m) = (d1, m1)" by fastforce
    have n: "unat width \<in> {1, 2, 4}" using Wr(3) by auto
    show thesis
      by (rule Written [OF Wr(2,1) n s1], use assms(2) in
        \<open>simp only: w(4) [OF Wr] s1 Let_def, auto simp: and_then_Inr case_prod_beta split: if_splits\<close>)
  next
    case Error
    then show thesis using assms(2) w(1) [OF Error, where ops = ops and s = "(d, m)"] by (intro Nothing) simp_all
  next
    case Shared
    then show thesis using assms(2) w(2) [OF Shared, where ops = ops and s = "(d, m)"] by (intro Nothing) simp_all
  next
    case Width
    then show thesis using assms(2) w(3) [OF Width, where ops = ops and s = "(d, m)"] by (intro Nothing) simp_all
  qed
qed

lemma write_keeps:
  assumes "APP_SRTM_NETC_WritePCIConfig fuel ops bus devFn reg val width (d, m) = Inr (st, d', m')" "\<not> in_copy x"
  shows "m' x = m x"
  using assms(1)
proof (cases rule: write_elim)
  case (Written d1 m1)
  have "m1 x = m x"
    using Written(1-4) assms(2) by (auto simp: write_through_def store_in_copy split: prod.splits)
  then show ?thesis using Written(1,2,5) assms(2) store_in_copy [of "config_offset bus devFn reg" 2 x] by auto
qed simp

lemma write_confined:
  assumes "APP_SRTM_NETC_WritePCIConfig fuel (logged ops) bus devFn reg val width ((d, l), m) = Inr (st, (d', l'), m')"
    and "list_all access_ok l"
  shows "list_all access_ok l'"
  using assms(1)
proof (cases rule: write_elim)
  case (Written d1 m1)
  let ?a = "PCIE_CONFIG_SPACE_BASE + config_offset bus devFn reg"
  have ok: "access_ok (?a, n)" if "n \<in> {1, 2, 4}" for n
    using Written(1,2) that config_addr(1) [of bus devFn reg] by (intro access_okI) simp_all
  have l1: "list_all access_ok (snd d1)"
    using Written(4) ok [OF Written(3)] assms(2) by (auto simp: write_through_def)
  from Written(5) show ?thesis
  proof (elim disjE exE conjE)
    fix d2 assume "flr_wait fuel (logged ops) ?a d1 = Inr d2" and d': "(d', l') = snd (pci_read (logged ops) ?a 2 d2)"
    then have "list_all access_ok (snd d2)" using flr_wait_log l1 ok [of 2] by blast
    then show ?thesis using d' ok [of 2] by (cases d2) simp
  qed (use l1 in auto)
qed (use assms(2) in auto)

lemma requests_confined:
  assumes "pci_requests fuel (logged ops) rs ((d, l), m) = Inr (sts, (d', l'), m')"
    and "list_all access_ok l"
  shows "list_all access_ok l' \<and> (\<forall>x. \<not> in_copy x \<longrightarrow> m' x = m x)"
  using assms
proof (induction rs arbitrary: d l m sts)
  case (Cons r rs)
  obtain bus devFn reg val width where r: "r = (bus, devFn, reg, val, width)" by (rule prod_cases5)
  obtain st d1 l1 m1 sts1 where w: "APP_SRTM_NETC_WritePCIConfig fuel (logged ops) bus devFn reg val width ((d, l), m)
        = Inr (st, (d1, l1), m1)"
      and rs: "pci_requests fuel (logged ops) rs ((d1, l1), m1) = Inr (sts1, (d', l'), m')"
    using Cons.prems(1) by (auto simp: r and_then_Inr)
  show ?case using write_confined [OF w Cons.prems(2)] write_keeps [OF w] Cons.IH [OF rs] by simp
qed simp

text \<open>
  C35: The other system touches what is its own and at most three bytes behind it. Whatever it
  asks for, in any order, in every run of requests that are all answered (a reset that hangs is
  waited for without end): each access of the device is of 1, 2 or 4 bytes and begins in the
  configuration space, behind the header of the shared controller; an aligned one lies in the
  space as a whole, and an unaligned one at the end of the space ends at most three bytes behind
  it, since the code checks the first byte only (\<open>last_register_overruns\<close>). The
  only bytes of memory that change are those of the copy, without the header of the shared
  controller, and three bytes behind the copy.
\<close>

theorem peer_writes_confined:
  assumes "pci_requests fuel (logged ops) rs ((d, []), m) = Inr (sts, (d', log), m')"
  shows "list_all access_ok log \<and> (\<forall>x. \<not> in_copy x \<longrightarrow> m' x = m x)"
  using requests_confined [OF assms] by simp

text \<open>A device of plain registers: a read gives what was written, four functions can be told apart.\<close>

definition plain_device :: "memory pci_ops" where
  "plain_device = \<lparr>pci_read = (\<lambda>a n d. (load n a d, d)), pci_write = (\<lambda>a n. store n a)\<rparr>"

lemma requests_nothing: "unat (config_offset bus devFn reg) < 0x150 \<Longrightarrow>
    pci_requests fuel ops [(bus, devFn, reg, val, width)] s = Inr ([SRTM_Status_Success], s)"
  by (cases s) (simp add: write_cases(2))

theorem peer_writes_confined_witness:
  "\<exists>d' log m'. pci_requests 0 (logged plain_device) [(0, 1, 4, 0x12345678, 2), (0, 0, 4, 7, 2)] ((\<lambda>x. 0, []), \<lambda>x. 0)
      = Inr ([SRTM_Status_Success, SRTM_Status_Success], (d', log), m')
    \<and> length log = 2 \<and> list_all access_ok log \<and> (\<forall>x. \<not> in_copy x \<longrightarrow> m' x = 0)"
proof -
  have o: "unat (config_offset 0 1 4) = 4100" "unat (config_offset 0 0 4) = 4" by (simp_all add: config_offset_unat)
  let ?a = "PCIE_CONFIG_SPACE_BASE + config_offset 0 1 4"
  have "\<exists>d' m'. pci_requests 0 (logged plain_device) [(0, 1, 4, 0x12345678, 2), (0, 0, 4, 7, 2)] ((\<lambda>x. 0, []), \<lambda>x. 0)
      = Inr ([SRTM_Status_Success, SRTM_Status_Success], (d', [(?a, 2), (?a, 2)]), m')"
    by (simp add: write_cases(2,4) o REG_PCIE_DEV_CTRL_def write_through_def)
  then obtain d' m' where r: "pci_requests 0 (logged plain_device) [(0, 1, 4, 0x12345678, 2), (0, 0, 4, 7, 2)] ((\<lambda>x. 0, []), \<lambda>x. 0)
      = Inr ([SRTM_Status_Success, SRTM_Status_Success], (d', [(?a, 2), (?a, 2)]), m')" by blast
  show ?thesis using r peer_writes_confined [OF r] by (intro exI conjI) (rule r, simp_all)
qed

subsection \<open>The copy\<close>

lemma load_store_other:
  assumes "4 \<le> unat (a - b)" "4 \<le> unat (a + 1 - b)" "4 \<le> unat (a + 2 - b)" "4 \<le> unat (a + 3 - b)"
  shows "load 4 a (store 4 b v m) = load 4 a m"
proof -
  have "[0..<4] = [0, 1, 2, 3 :: nat]" by (simp add: upt_rec)
  then show ?thesis using assms by (simp add: load_def store_elsewhere)
qed

lemma virtual_vendor:
  "load 4 PCIE_VIRTUAL_CONFIG_SPACE_BASE (APP_SRTM_NETC_VirtualizePCIConfig config m) = 0x080B1131"
  "off \<in> {0x1000, 0x2000, 0x8000} \<Longrightarrow>
    load 4 (PCIE_VIRTUAL_CONFIG_SPACE_BASE + off) (APP_SRTM_NETC_VirtualizePCIConfig config m) = 0xffff"
proof -
  note simps = APP_SRTM_NETC_VirtualizePCIConfig_def Let_def load_store_other load_store
  show "load 4 PCIE_VIRTUAL_CONFIG_SPACE_BASE (APP_SRTM_NETC_VirtualizePCIConfig config m) = 0x080B1131"
    by (simp add: simps)
  show "off \<in> {0x1000, 0x2000, 0x8000} \<Longrightarrow>
    load 4 (PCIE_VIRTUAL_CONFIG_SPACE_BASE + off) (APP_SRTM_NETC_VirtualizePCIConfig config m) = 0xffff"
    by (elim insertE) (simp_all add: simps)
qed

text \<open>
  Besides the first registers of the four functions, the copy is the space as it was read, and
  no other memory changes.
\<close>

lemma virtual_rest:
  assumes "\<And>off. off \<in> {0, 0x1000, 0x2000, 0x8000} \<Longrightarrow> 4 \<le> unat (i - off)"
  shows "APP_SRTM_NETC_VirtualizePCIConfig config m (PCIE_VIRTUAL_CONFIG_SPACE_BASE + i) =
    (if i < PCIE_CONFIG_SPACE_SIZE then config (PCIE_CONFIG_SPACE_BASE + i) else m (PCIE_VIRTUAL_CONFIG_SPACE_BASE + i))"
  using assms [of 0] assms [of "0x1000"] assms [of "0x2000"] assms [of "0x8000"]
  by (simp add: APP_SRTM_NETC_VirtualizePCIConfig_def copy_space_def store_def Let_def)

lemma shared_header_outside: "unat off < 0x150 \<Longrightarrow> \<not> in_copy (PCIE_VIRTUAL_CONFIG_SPACE_BASE + off)"
  by (simp add: in_copy_def)

lemma requests_keep_shared:
  "pci_requests fuel ops rs (d, m) = Inr (sts, d', m') \<Longrightarrow> \<not> in_copy x \<Longrightarrow> m' x = m x"
proof (induction rs arbitrary: d m sts)
  case (Cons r rs)
  obtain bus devFn reg val width where r: "r = (bus, devFn, reg, val, width)" by (rule prod_cases5)
  obtain st d1 m1 sts1 where w: "APP_SRTM_NETC_WritePCIConfig fuel ops bus devFn reg val width (d, m) = Inr (st, d1, m1)"
      and rs: "pci_requests fuel ops rs (d1, m1) = Inr (sts1, d', m')"
    using Cons.prems(1) by (auto simp: r and_then_Inr)
  show ?case using write_keeps [OF w Cons.prems(2)] Cons.IH [OF rs Cons.prems(2)] by simp
qed simp

text \<open>
  C38: whatever the other system writes, the shared controller is shown to it with the virtual
  identity, and the rest of its header as it was when the copy was made.
\<close>

theorem shared_controller_kept:
  assumes "pci_requests fuel ops rs (d, APP_SRTM_NETC_VirtualizePCIConfig config m) = Inr (sts, d', m')"
  shows "load 4 PCIE_VIRTUAL_CONFIG_SPACE_BASE m' = 0x080B1131
    \<and> (\<forall>off. 4 \<le> unat off \<longrightarrow> unat off < 0x150 \<longrightarrow>
        m' (PCIE_VIRTUAL_CONFIG_SPACE_BASE + off) = config (PCIE_CONFIG_SPACE_BASE + off))"
proof -
  let ?m = "APP_SRTM_NETC_VirtualizePCIConfig config m"
  have k: "m' (PCIE_VIRTUAL_CONFIG_SPACE_BASE + off) = ?m (PCIE_VIRTUAL_CONFIG_SPACE_BASE + off)" if "unat off < 0x150" for off
    by (rule requests_keep_shared [OF assms shared_header_outside [OF that]])
  have "load 4 PCIE_VIRTUAL_CONFIG_SPACE_BASE m' = load 4 PCIE_VIRTUAL_CONFIG_SPACE_BASE ?m"
  proof -
    have "map (\<lambda>i. m' (PCIE_VIRTUAL_CONFIG_SPACE_BASE + of_nat i)) [0..<4] = map (\<lambda>i. ?m (PCIE_VIRTUAL_CONFIG_SPACE_BASE + of_nat i)) [0..<4]"
      using k by simp
    then show ?thesis by (simp only: load_def)
  qed
  moreover have "?m (PCIE_VIRTUAL_CONFIG_SPACE_BASE + off) = config (PCIE_CONFIG_SPACE_BASE + off)"
    if off: "4 \<le> unat off" "unat off < 0x150" for off
  proof -
    have "4 \<le> unat (off - b)" if "b \<in> {0, 0x1000, 0x2000, 0x8000}" for b
    proof (cases "b = 0")
      case False
      have "unat (off - b) = unat off + 2 ^ 32 - unat b"
        using False that off by (auto simp: unat_sub_if_size word_size)
      then show ?thesis using that off by auto
    qed (use off in simp)
    then have "?m (PCIE_VIRTUAL_CONFIG_SPACE_BASE + off)
        = (if off < PCIE_CONFIG_SPACE_SIZE then config (PCIE_CONFIG_SPACE_BASE + off) else m (PCIE_VIRTUAL_CONFIG_SPACE_BASE + off))"
      by (rule virtual_rest)
    then show ?thesis using off by (simp add: word_less_nat_alt PCIE_CONFIG_SPACE_SIZE_def)
  qed
  ultimately show ?thesis using k virtual_vendor(1) by simp
qed

theorem shared_controller_kept_witness:
  "\<exists>m'. pci_requests 0 plain_device [(0, 0, 0, 0x12345678, 4)] ((\<lambda>x. 1), APP_SRTM_NETC_VirtualizePCIConfig (\<lambda>x. 1) (\<lambda>x. 2))
      = Inr ([SRTM_Status_Success], (\<lambda>x. 1), m') \<and> load 4 PCIE_VIRTUAL_CONFIG_SPACE_BASE m' = 0x080B1131"
proof -
  have "unat (config_offset 0 0 0) < 0x150" by (simp add: config_offset_unat)
  note r = requests_nothing [OF this, where fuel = 0 and ops = plain_device and val = "0x12345678" and width = 4 and s = "(\<lambda>x. 1, APP_SRTM_NETC_VirtualizePCIConfig (\<lambda>x. 1) (\<lambda>x. 2))"]
  show ?thesis using r shared_controller_kept [OF r] by blast
qed

text \<open>
  a register that may be written is written with the low bytes of the value, and the copy then
  holds what the device reads back; the answer is a success.
\<close>

theorem config_write_mirrors:
  fixes bus devFn reg
  defines "off \<equiv> config_offset bus devFn reg"
  assumes "0x150 \<le> unat off" "unat off < 0x100000" "width \<in> {1, 2, 4}"
    and "reg \<noteq> REG_PCIE_DEV_CTRL \<or> ucast val \<noteq> PCIE_DEV_CTRL_INIT_FLR_MASK"
  shows "\<exists>r d' m'. pci_read ops (PCIE_CONFIG_SPACE_BASE + off) (unat width)
        (pci_write ops (PCIE_CONFIG_SPACE_BASE + off) (unat width) (take_bit (8 * unat width) val) d) = (r, d')
    \<and> APP_SRTM_NETC_WritePCIConfig fuel ops bus devFn reg val width (d, m) = Inr (SRTM_Status_Success, d', m')
    \<and> load (unat width) (PCIE_VIRTUAL_CONFIG_SPACE_BASE + off) m' = take_bit (8 * unat width) r"
proof -
  obtain r d' where r: "pci_read ops (PCIE_CONFIG_SPACE_BASE + off) (unat width)
        (pci_write ops (PCIE_CONFIG_SPACE_BASE + off) (unat width) (take_bit (8 * unat width) val) d) = (r, d')"
    by fastforce
  have "unat width \<le> 4" using assms(4) by auto
  then show ?thesis
    using write_cases(4) [where bus = bus and devFn = devFn and reg = reg and width = width and val = val and ops = ops
        and s = "(d, m)", folded off_def, OF assms(3,2,4)] assms(5) r
    by (auto simp: write_through_def load_store)
qed

theorem config_write_mirrors_witness:
  "\<exists>r d' m'. pci_read plain_device (PCIE_CONFIG_SPACE_BASE + config_offset 0 1 4) 2
        (pci_write plain_device (PCIE_CONFIG_SPACE_BASE + config_offset 0 1 4) 2 0x5678 (\<lambda>x. 0)) = (r, d')
    \<and> APP_SRTM_NETC_WritePCIConfig 0 plain_device 0 1 4 0x12345678 2 ((\<lambda>x. 0), \<lambda>x. 0) = Inr (SRTM_Status_Success, d', m')
    \<and> load 2 (PCIE_VIRTUAL_CONFIG_SPACE_BASE + config_offset 0 1 4) m' = take_bit 16 r"
proof -
  have "unat (config_offset 0 1 4) = 4100" by (simp add: config_offset_unat)
  moreover have "take_bit 16 (0x12345678 :: u32) = 0x5678" by (simp add: take_bit_eq_mod)
  ultimately show ?thesis
    using config_write_mirrors [of 0 1 4 2 "0x12345678" plain_device "\<lambda>x. 0" 0 "\<lambda>x. 0"]
    by (simp add: REG_PCIE_DEV_CTRL_def)
qed

text \<open>
  A reset of a function is waited for as long as the device needs: \<open>n\<close> reads find the bit set, the next
  one finds it clear.
\<close>

fun busy :: "'d pci_ops \<Rightarrow> u32 \<Rightarrow> nat \<Rightarrow> 'd \<Rightarrow> bool" where
  "busy ops a 0 d \<longleftrightarrow> fst (pci_read ops a 2 d) AND 0x8000 = 0"
| "busy ops a (Suc n) d \<longleftrightarrow> fst (pci_read ops a 2 d) AND 0x8000 \<noteq> 0 \<and> busy ops a n (snd (pci_read ops a 2 d))"

lemma flr_wait_busy: "busy ops a n d \<Longrightarrow> n < fuel \<Longrightarrow> \<exists>d'. flr_wait fuel ops a d = Inr d'"
  by (induction fuel arbitrary: n d) (auto simp: case_prod_beta less_Suc_eq_0_disj split: if_splits; force)+

lemma flr_wait_never: "\<forall>n < fuel. \<not> busy ops a n d \<Longrightarrow> flr_wait fuel ops a d = Inl Diverges"
proof (induction fuel arbitrary: d)
  case (Suc fuel)
  have "fst (pci_read ops a 2 d) AND 0x8000 \<noteq> 0" using Suc.prems by (auto dest: spec [where x = 0])
  moreover have "\<forall>n < fuel. \<not> busy ops a n (snd (pci_read ops a 2 d))"
    using Suc.prems calculation by (metis Suc_less_eq busy.simps(2))
  ultimately show ?case using Suc.IH by (simp add: case_prod_beta)
qed simp

text \<open>
  The reset is waited for only if no other bit of the lower half is written with it. With
  any other bit, and through a byte write of the upper half of the register, the request is
  answered while the function still resets.
\<close>

lemma reset_with_other_bits_not_awaited:
  assumes "ucast val \<noteq> PCIE_DEV_CTRL_INIT_FLR_MASK \<or> reg = REG_PCIE_DEV_CTRL + 1"
  shows "\<exists>st s'. APP_SRTM_NETC_WritePCIConfig 0 ops bus devFn reg val width s = Inr (st, s')"
proof -
  have "reg \<noteq> REG_PCIE_DEV_CTRL \<or> ucast val \<noteq> PCIE_DEV_CTRL_INIT_FLR_MASK"
    using assms by (auto simp: REG_PCIE_DEV_CTRL_def)
  then show ?thesis by (auto simp: APP_SRTM_NETC_WritePCIConfig_def Let_def)
qed

text \<open>
  A function hidden in the copy shows again as soon as the other system writes its first register:
  the copy takes what the device reads back.
\<close>

lemma hidden_function_unhidden:
  fixes bus devFn
  defines "off \<equiv> config_offset bus devFn 0"
  assumes "unat off \<in> {0x1000, 0x2000, 0x8000}" "\<And>d. pci_read ops (PCIE_CONFIG_SPACE_BASE + off) 4 d = (device_id, d)"
  shows "\<exists>d' m'. APP_SRTM_NETC_WritePCIConfig fuel ops bus devFn 0 val 4 (d, APP_SRTM_NETC_VirtualizePCIConfig config m)
      = Inr (SRTM_Status_Success, d', m')
    \<and> load 4 (PCIE_VIRTUAL_CONFIG_SPACE_BASE + off) (APP_SRTM_NETC_VirtualizePCIConfig config m) = 0xffff
    \<and> load 4 (PCIE_VIRTUAL_CONFIG_SPACE_BASE + off) m' = device_id"
proof -
  have "off \<in> {0x1000, 0x2000, 0x8000}" using assms(2) by (auto simp: word_unat_eq_iff)
  then have "load 4 (PCIE_VIRTUAL_CONFIG_SPACE_BASE + off) (APP_SRTM_NETC_VirtualizePCIConfig config m) = 0xffff"
    by (rule virtual_vendor(2))
  moreover have "0x150 \<le> unat off" "unat off < 0x100000" using assms(2) by auto
  ultimately show ?thesis
    using write_cases(4) [where bus = bus and devFn = devFn and reg = 0 and width = 4 and val = val and ops = ops, folded off_def]
      assms(3)
    by (simp add: write_through_def REG_PCIE_DEV_CTRL_def load_store take_bit_word_eq_self)
qed

text \<open>A write that begins in the last bytes of the space goes on behind it, on the device and in the copy.\<close>

lemma last_register_overruns:
  "\<exists>d m. APP_SRTM_NETC_WritePCIConfig fuel (logged plain_device) 0 0xff 0xfff 0xffffffff 4 ((\<lambda>x. 0, []), \<lambda>x. 0)
      = Inr (SRTM_Status_Success, (d, [(0x4CAFFFFF, 4), (0x4CAFFFFF, 4)]), m)
    \<and> m (PCIE_VIRTUAL_CONFIG_SPACE_BASE + PCIE_CONFIG_SPACE_SIZE) = 0xff"
proof -
  have u: "unat (config_offset 0 0xff 0xfff) = 0xfffff" by (simp add: config_offset_unat)
  have o: "config_offset 0 0xff 0xfff = 0xfffff" by (rule word_unat_eq_iff [THEN iffD2]) (simp add: u)
  have t: "take_bit 32 (0xffffffff :: u32) = 0xffffffff" by (simp add: take_bit_word_eq_self)
  have l: "load 4 0x4CAFFFFF (store 4 0x4CAFFFFF 0xffffffff (\<lambda>x. 0)) = 0xffffffff" by (simp add: load_store t)
  have b: "store 4 0x88323FFF 0xffffffff m 0x88324000 = 0xff" for m
    by (simp add: store_def le_bytes_24 drop_bit_eq_div)
  show ?thesis
    using write_cases(4) [where bus = 0 and devFn = "0xff" and reg = "0xfff" and width = 4 and val = "0xffffffff" and ops = "logged plain_device"]
    by (simp add: u o t write_through_def REG_PCIE_DEV_CTRL_def plain_device_def config_space_defs l b)
qed

section \<open>I2C transfers of the other system\<close>

text \<open>
  A transfer of the driver and the driver itself, a parameter with the flags of its interface. A
  transfer answers whether it succeeded and, for a read, with the bytes it read.
\<close>

datatype i2c_direction = kLPI2C_Write | kLPI2C_Read

record i2c_transfer =
  flags :: u32
  slaveAddress :: u16
  direction :: i2c_direction
  subaddress :: u32
  subaddressSize :: nat
  data :: "u8 list"
  dataSize :: nat

record 'd i2c_driver =
  need_stop :: u16
  default_flag :: u32
  no_stop_flag :: u32
  transfer_blocking :: "u32 \<Rightarrow> i2c_transfer \<Rightarrow> 'd \<Rightarrow> bool \<times> u8 list \<times> 'd"

datatype srtm_i2c_type = SRTM_I2C_TYPE_LPI2C | SRTM_I2C_TYPE_OTHER

definition BOARD_LPI2C_Send ::
    "'d i2c_driver \<Rightarrow> u32 \<Rightarrow> u8 \<Rightarrow> u32 \<Rightarrow> u8 \<Rightarrow> u8 list \<Rightarrow> u8 \<Rightarrow> u32 \<Rightarrow> 'd \<Rightarrow> bool \<times> u8 list \<times> 'd" where
  "BOARD_LPI2C_Send ops base deviceAddress subAddress subAddressSize txBuff txBuffSize fl =
     transfer_blocking ops base \<lparr>flags = fl, slaveAddress = ucast deviceAddress, direction = kLPI2C_Write,
       subaddress = subAddress, subaddressSize = unat subAddressSize, data = txBuff, dataSize = unat txBuffSize\<rparr>"

definition BOARD_LPI2C_Receive ::
    "'d i2c_driver \<Rightarrow> u32 \<Rightarrow> u8 \<Rightarrow> u32 \<Rightarrow> u8 \<Rightarrow> u8 list \<Rightarrow> u8 \<Rightarrow> u32 \<Rightarrow> 'd \<Rightarrow> bool \<times> u8 list \<times> 'd" where
  "BOARD_LPI2C_Receive ops base deviceAddress subAddress subAddressSize rxBuff rxBuffSize fl =
     transfer_blocking ops base \<lparr>flags = fl, slaveAddress = ucast deviceAddress, direction = kLPI2C_Read,
       subaddress = subAddress, subaddressSize = unat subAddressSize, data = rxBuff, dataSize = unat rxBuffSize\<rparr>"

definition stop_flag :: "'d i2c_driver \<Rightarrow> u16 \<Rightarrow> u32" where
  "stop_flag ops fl = (if fl AND need_stop ops \<noteq> 0 then default_flag ops else no_stop_flag ops)"

definition APP_SRTM_I2C_Write ::
    "'d i2c_driver \<Rightarrow> u32 \<Rightarrow> srtm_i2c_type \<Rightarrow> u16 \<Rightarrow> u8 list \<Rightarrow> u16 \<Rightarrow> u16 \<Rightarrow> 'd \<Rightarrow> srtm_status \<times> 'd" where
  "APP_SRTM_I2C_Write ops base_addr type slaveAddr buf len fl d =
     (let (ok, _, d) = (case type of
         SRTM_I2C_TYPE_LPI2C \<Rightarrow> BOARD_LPI2C_Send ops base_addr (ucast slaveAddr) 0 0 buf (ucast len) (stop_flag ops fl) d
       | _ \<Rightarrow> (False, [], d))
      in (if ok then SRTM_Status_Success else SRTM_Status_TransferFailed, d))"

text \<open>The bytes that were read replace the first bytes of the buffer.\<close>

definition APP_SRTM_I2C_Read ::
    "'d i2c_driver \<Rightarrow> u32 \<Rightarrow> srtm_i2c_type \<Rightarrow> u16 \<Rightarrow> u8 list \<Rightarrow> u16 \<Rightarrow> u16 \<Rightarrow> 'd \<Rightarrow> srtm_status \<times> u8 list \<times> 'd" where
  "APP_SRTM_I2C_Read ops base_addr type slaveAddr buf len fl d =
     (let (ok, bs, d) = (case type of
         SRTM_I2C_TYPE_LPI2C \<Rightarrow> BOARD_LPI2C_Receive ops base_addr (ucast slaveAddr) 0 0 buf (ucast len) (stop_flag ops fl) d
       | _ \<Rightarrow> (False, [], d))
      in (if ok then SRTM_Status_Success else SRTM_Status_TransferFailed, bs @ drop (length bs) buf, d))"

text \<open>The channel of a switch is one bit of a byte; \<open>unspecified\<close> is the value no channel has.\<close>

definition APP_SRTM_I2C_SwitchChannel ::
    "'d i2c_driver \<Rightarrow> nat \<Rightarrow> u32 \<Rightarrow> srtm_i2c_type \<Rightarrow> u16 \<Rightarrow> nat \<Rightarrow> 'd \<Rightarrow> (srtm_status \<times> 'd) outcome" where
  "APP_SRTM_I2C_SwitchChannel ops unspecified base_addr type slaveAddr channel d =
     os_assert (channel < unspecified)
       (Inr (APP_SRTM_I2C_Write ops base_addr type slaveAddr [push_bit channel 1] 1 (need_stop ops) d))"

text \<open>
  A driver that remembers what it put on the bus: the address, the bytes and whether it ended with a stop.
\<close>

definition wire :: "(u16 \<times> u8 list \<times> bool) list i2c_driver" where
  "wire = \<lparr>need_stop = 0x200, default_flag = 0, no_stop_flag = 4,
     transfer_blocking = (\<lambda>base x d.
       (True, replicate (if direction x = kLPI2C_Read then dataSize x else 0) 0,
        d @ [(slaveAddress x, take (dataSize x) (data x), flags x = 0)]))\<rparr>"

lemma ucast_8_16: "unat (ucast (x :: u16) :: u8) = unat x mod 256"
  by (simp add: unsigned_ucast_eq take_bit_eq_mod)

lemma i2c_write_whole:
  assumes "slaveAddr < 256" "unat len = length buf" "length buf < 256"
  shows "APP_SRTM_I2C_Write ops base_addr SRTM_I2C_TYPE_LPI2C slaveAddr buf len fl d =
    (let (ok, _, d) = transfer_blocking ops base_addr \<lparr>flags = stop_flag ops fl, slaveAddress = slaveAddr,
           direction = kLPI2C_Write, subaddress = 0, subaddressSize = 0, data = buf, dataSize = length buf\<rparr> d
     in (if ok then SRTM_Status_Success else SRTM_Status_TransferFailed, d))"
proof -
  have "unat (ucast (ucast slaveAddr :: u8) :: u16) = unat slaveAddr"
    using assms(1) by (simp add: unat_ucast_up ucast_8_16 word_less_nat_alt)
  then have "ucast (ucast slaveAddr :: u8) = slaveAddr" by (simp add: word_unat_eq_iff)
  then show ?thesis
    using assms(2,3) by (simp add: APP_SRTM_I2C_Write_def BOARD_LPI2C_Send_def ucast_8_16)
qed

text \<open>
  The length has 16 bits in the service and 8 in the board support: of a longer message only the
  first bytes reach the slave, of one of 256 bytes none, and the answer is a success.
\<close>

lemma long_i2c_message_cut:
  "unat len = length buf \<Longrightarrow> \<exists>a s. APP_SRTM_I2C_Write wire base_addr SRTM_I2C_TYPE_LPI2C slaveAddr buf len fl d
    = (SRTM_Status_Success, d @ [(a, take (length buf mod 256) buf, s)])"
  by (simp add: APP_SRTM_I2C_Write_def BOARD_LPI2C_Send_def wire_def ucast_8_16)

lemma i2c_read_keeps_rest:
  assumes "unat len \<le> length buf" "APP_SRTM_I2C_Read wire base_addr type slaveAddr buf len fl d = (st, buf', d')"
  shows "length buf' = length buf \<and> drop (unat len) buf' = drop (unat len) buf"
proof -
  have "unat len mod 256 \<le> unat len" by simp
  then show ?thesis using assms
    by (auto simp: APP_SRTM_I2C_Read_def BOARD_LPI2C_Receive_def wire_def ucast_8_16 split: srtm_i2c_type.splits)
qed

lemma switch_channel_bit:
  assumes "channel < unspecified" "unspecified \<le> 8"
  shows "APP_SRTM_I2C_SwitchChannel wire unspecified base_addr SRTM_I2C_TYPE_LPI2C slaveAddr channel d
    = Inr (SRTM_Status_Success, d @ [(ucast (ucast slaveAddr :: u8), [push_bit channel 1], True)])"
  using assms by (simp add: APP_SRTM_I2C_SwitchChannel_def APP_SRTM_I2C_Write_def BOARD_LPI2C_Send_def wire_def stop_flag_def)

section \<open>Links of the switch ports\<close>

text \<open>What a transceiver and the switch answer to one poll of a port: \<open>None\<close> is a failed read.\<close>

record port_answer =
  pa_link :: "bool option"
  pa_mode :: "(nat \<times> nat) option"
  pa_set :: bool

record swt_port =
  phy_link :: bool
  phy_speed :: nat
  phy_duplex :: nat

datatype link_event = Link_Down | Set_MII nat nat bool | Link_Up

definition poll_port :: "port_answer \<Rightarrow> swt_port \<Rightarrow> swt_port \<times> link_event list" where
  "poll_port a p = (case pa_link a of
       None \<Rightarrow> (p, [])
     | Some False \<Rightarrow> if phy_link p then (p\<lparr>phy_link := False\<rparr>, [Link_Down]) else (p, [])
     | Some True \<Rightarrow> (case pa_mode a of
           None \<Rightarrow> (p, [])
         | Some (speed, duplex) \<Rightarrow>
             if \<not> phy_link p \<or> phy_speed p \<noteq> speed \<or> phy_duplex p \<noteq> duplex
             then if pa_set a then (\<lparr>phy_link = True, phy_speed = speed, phy_duplex = duplex\<rparr>, [Set_MII speed duplex True, Link_Up])
                  else (p, [Set_MII speed duplex False])
             else (p, [])))"

text \<open>A round of the task over the ports, from the first on; rounds follow each other.\<close>

fun SWT_PollLink_round :: "port_answer list \<Rightarrow> swt_port list \<Rightarrow> swt_port list \<times> link_event list list" where
  "SWT_PollLink_round (a # ans) (p # ps) =
     (let (p, e) = poll_port a p; (ps, es) = SWT_PollLink_round ans ps in (p # ps, e # es))"
| "SWT_PollLink_round ans ps = (ps, map (\<lambda>_. []) ps)"

fun poll_rounds :: "port_answer list list \<Rightarrow> swt_port list \<Rightarrow> swt_port list \<times> link_event list list" where
  "poll_rounds [] ps = (ps, map (\<lambda>_. []) ps)"
| "poll_rounds (r # rs) ps =
     (let (ps, es) = SWT_PollLink_round r ps; (ps, es') = poll_rounds rs ps in (ps, map2 (@) es es'))"

text \<open>
  \<open>SWT_PHY_Init\<close>: the transceivers in turn until one fails; the kinds of speed and duplex of the
  start are arguments. The result is the success and the ports.
\<close>

fun SWT_PHY_Init :: "nat \<Rightarrow> nat \<Rightarrow> bool list \<Rightarrow> swt_port list \<Rightarrow> bool \<times> swt_port list" where
  "SWT_PHY_Init speed duplex (ok # oks) (p # ps) =
     (if \<not> ok then (False, p # ps)
      else let (r, ps) = SWT_PHY_Init speed duplex oks ps
           in (r, \<lparr>phy_link = False, phy_speed = speed, phy_duplex = duplex\<rparr> # ps))"
| "SWT_PHY_Init speed duplex oks ps = (True, ps)"

text \<open>The mode the switch has for a port after some events: of the last setting that succeeded.\<close>

fun mode_after :: "(nat \<times> nat) option \<Rightarrow> link_event list \<Rightarrow> (nat \<times> nat) option" where
  "mode_after m [] = m"
| "mode_after m (Set_MII s d True # es) = mode_after (Some (s, d)) es"
| "mode_after m (e # es) = mode_after m es"


lemma mode_after_append [simp]: "mode_after m (es @ es') = mode_after (mode_after m es) es'"
  by (induction m es rule: mode_after.induct) auto

text \<open>A port that is up has the mode the switch was given.\<close>

definition in_step :: "swt_port \<Rightarrow> (nat \<times> nat) option \<Rightarrow> bool" where
  "in_step p m \<longleftrightarrow> (phy_link p \<longrightarrow> m = Some (phy_speed p, phy_duplex p))"

lemma poll_port_in_step:
  "poll_port a p = (p', es) \<Longrightarrow> in_step p m \<Longrightarrow> in_step p' (mode_after m es)"
  by (auto simp: poll_port_def in_step_def split: option.splits bool.splits if_splits)

lemma poll_port_good:
  "poll_port a p = (q, e) \<Longrightarrow> pa_link a = Some True \<Longrightarrow> pa_mode a = Some r \<Longrightarrow> pa_set a \<Longrightarrow> in_step p m \<Longrightarrow>
    phy_link q \<and> mode_after m e = Some r"
  by (cases r) (auto simp: poll_port_def in_step_def split: if_splits)

lemma round_nth:
  assumes "SWT_PollLink_round ans ps = (ps', es)"
  shows "length ps' = length ps \<and> length es = length ps \<and> (\<forall>i < length ps. (ps' ! i, es ! i) =
    (if i < length ans then poll_port (ans ! i) (ps ! i) else (ps ! i, [])))"
  using assms
proof (induction ans ps arbitrary: ps' es rule: SWT_PollLink_round.induct)
  case (1 a ans p ps)
  obtain q e where q: "poll_port a p = (q, e)" by fastforce
  obtain qs fs where r: "SWT_PollLink_round ans ps = (qs, fs)" by fastforce
  have ih: "length qs = length ps \<and> length fs = length ps \<and> (\<forall>i < length ps. (qs ! i, fs ! i) =
      (if i < length ans then poll_port (ans ! i) (ps ! i) else (ps ! i, [])))"
    using 1(1) q r by metis
  have "ps' = q # qs" "es = e # fs" using 1(2) q r by simp_all
  moreover have "(ps' ! i, es ! i) = (if i < length (a # ans) then poll_port ((a # ans) ! i) ((p # ps) ! i) else ((p # ps) ! i, []))"
    if "i < length (p # ps)" for i
    using that calculation q r ih by (cases i) auto
  ultimately show ?case using ih r by auto
qed auto

text \<open>The polls of one port in a sequence of rounds.\<close>

fun poll_answers :: "port_answer option list \<Rightarrow> swt_port \<Rightarrow> swt_port \<times> link_event list" where
  "poll_answers [] p = (p, [])"
| "poll_answers (a # ans) p =
     (let (p, e) = (case a of None \<Rightarrow> (p, []) | Some x \<Rightarrow> poll_port x p); (p, es) = poll_answers ans p in (p, e @ es))"

lemma rounds_nth:
  assumes "poll_rounds rs ps = (ps', es)"
  shows "length ps' = length ps \<and> length es = length ps \<and> (\<forall>i < length ps.
    (ps' ! i, es ! i) = poll_answers (map (\<lambda>r. if i < length r then Some (r ! i) else None) rs) (ps ! i))"
  using assms
proof (induction rs arbitrary: ps ps' es)
  case (Cons r rs)
  obtain qs fs where r: "SWT_PollLink_round r ps = (qs, fs)" by fastforce
  obtain gs where rs: "poll_rounds rs qs = (ps', gs)" and es: "es = map2 (@) fs gs"
    using Cons.prems r by (auto split: prod.splits)
  note n = round_nth [OF r] and ih = Cons.IH [OF rs]
  have "(ps' ! i, es ! i) = poll_answers (map (\<lambda>r. if i < length r then Some (r ! i) else None) (r # rs)) (ps ! i)"
    if i: "i < length ps" for i
  proof -
    have a: "(qs ! i, fs ! i) = (if i < length r then poll_port (r ! i) (ps ! i) else (ps ! i, []))"
      using n i by blast
    have b: "(ps' ! i, gs ! i) = poll_answers (map (\<lambda>r. if i < length r then Some (r ! i) else None) rs) (qs ! i)"
    proof -
      have "i < length qs" using n i by simp
      then show ?thesis using ih by blast
    qed
    have e: "es ! i = fs ! i @ gs ! i" using n ih i es by simp
    show ?thesis
    proof (cases "i < length r")
      case True
      then have "poll_port (r ! i) (ps ! i) = (qs ! i, fs ! i)" using a by simp
      then show ?thesis using True e by (simp add: b [symmetric])
    next
      case False
      then have "qs ! i = ps ! i" "fs ! i = []" using a by simp_all
      then show ?thesis using False e b by (simp add: b [symmetric])
    qed
  qed
  then show ?case using n ih es by simp
qed simp

lemma poll_answers_in_step:
  "poll_answers ans p = (p', es) \<Longrightarrow> in_step p m \<Longrightarrow> in_step p' (mode_after m es)"
proof (induction ans arbitrary: p m es)
  case (Cons a ans)
  then show ?case
    by (auto split: option.splits prod.splits dest: poll_port_in_step)
qed simp

text \<open>
  C39: the switch follows the transceivers. After any rounds of the polling task, from ports that
  are down, a port that counts as up has in the switch the speed and duplex it counts with;
  and a poll that reads an up link with its mode, and whose setting succeeds, leaves the
  port up with that mode in the switch, whatever went wrong before.
\<close>

theorem switch_follows_links:
  assumes "\<forall>p \<in> set ps. \<not> phy_link p" "poll_rounds rs ps = (ps', es)" "i < length ps"
  shows "(phy_link (ps' ! i) \<longrightarrow> mode_after m (es ! i) = Some (phy_speed (ps' ! i), phy_duplex (ps' ! i)))
    \<and> (\<forall>a r q e. poll_port a (ps' ! i) = (q, e) \<longrightarrow> pa_link a = Some True \<longrightarrow> pa_mode a = Some r \<longrightarrow> pa_set a \<longrightarrow>
         phy_link q \<and> mode_after (mode_after m (es ! i)) e = Some r)"
proof -
  have "in_step (ps ! i) m" using assms(1,3) by (simp add: in_step_def)
  moreover have "poll_answers (map (\<lambda>r. if i < length r then Some (r ! i) else None) rs) (ps ! i) = (ps' ! i, es ! i)"
    using rounds_nth [OF assms(2)] assms(3) by simp
  ultimately have s: "in_step (ps' ! i) (mode_after m (es ! i))" by (rule poll_answers_in_step [rotated])
  then have "phy_link (ps' ! i) \<longrightarrow> mode_after m (es ! i) = Some (phy_speed (ps' ! i), phy_duplex (ps' ! i))"
    by (simp add: in_step_def)
  then show ?thesis by (rule conjI) (intro allI impI, rule poll_port_good [OF _ _ _ _ s])
qed

theorem switch_follows_links_witness:
  "fst (poll_rounds [[\<lparr>pa_link = Some True, pa_mode = Some (2, 1), pa_set = True\<rparr>]]
      [\<lparr>phy_link = False, phy_speed = 3, phy_duplex = 1\<rparr>]) ! 0 = \<lparr>phy_link = True, phy_speed = 2, phy_duplex = 1\<rparr>
   \<and> mode_after None [Set_MII 2 1 True, Link_Up] = Some (2, 1)"
  using switch_follows_links [of "[\<lparr>phy_link = False, phy_speed = 3, phy_duplex = 1\<rparr>]"
      "[[\<lparr>pa_link = Some True, pa_mode = Some (2, 1), pa_set = True\<rparr>]]"
      "[\<lparr>phy_link = True, phy_speed = 2, phy_duplex = 1\<rparr>]" "[[Set_MII 2 1 True, Link_Up]]" 0 None]
  by (simp add: poll_port_def)

text \<open>A round without news asks nothing of the switch.\<close>

lemma steady_link_no_calls:
  assumes "phy_link p" "pa_link a = Some True" "pa_mode a = Some (phy_speed p, phy_duplex p)"
  shows "poll_port a p = (p, [])"
  using assms by (simp add: poll_port_def)

section \<open>Virtual interfaces of the shared controller\<close>

text \<open>
  The calls that prepare the three virtual station interfaces. Those that set the number of
  interrupts and configure an interface can fail; \<open>answers\<close> are their results in the order of the calls.
\<close>

datatype vsi_call =
    Set_Rss_Key "u32 list"
  | Set_Mac nat "u8 list"
  | Set_Msix nat nat
  | Configure_SI nat
  | Enable_SI nat
  | Vlan_Filter nat

definition vsi_mac :: "nat \<Rightarrow> u8 list" where
  "vsi_mac k = [0x00, 0x00, 0xfa, 0xfa, 0xdd, 0xa0 + of_nat k]"

fun preinit_from :: "nat \<Rightarrow> nat list \<Rightarrow> (bool \<times> bool) list \<Rightarrow> bool \<times> vsi_call list" where
  "preinit_from k (si # sis) ((msix_ok, conf_ok) # answers) =
     (if \<not> msix_ok then (False, [Set_Mac si (vsi_mac k), Set_Msix si 5])
      else if \<not> conf_ok then (False, [Set_Mac si (vsi_mac k), Set_Msix si 5, Configure_SI si])
      else let (r, cs) = preinit_from (k + 1) sis answers
           in (r, [Set_Mac si (vsi_mac k), Set_Msix si 5, Configure_SI si, Enable_SI si] @ cs))"
| "preinit_from k sis answers = (True, [])"

text \<open>\<open>psi\<close> is the physical interface if it is the one of the shared controller; \<open>si_num\<close> numbers interfaces.\<close>

definition APP_NETC_PreinitVsi ::
    "nat option \<Rightarrow> nat \<Rightarrow> nat \<Rightarrow> nat \<Rightarrow> (bool \<times> bool) \<Rightarrow> (bool \<times> bool) \<Rightarrow> (bool \<times> bool) \<Rightarrow> (bool \<times> vsi_call list) outcome" where
  "APP_NETC_PreinitVsi psi vsi0 vsi1 vsi2 a0 a1 a2 = (case psi of
       None \<Rightarrow> Inl Assert_Failed
     | Some si_num \<Rightarrow>
         let (r, cs) = preinit_from 0 [vsi0, vsi1, vsi2] [a0, a1, a2];
             key = Set_Rss_Key [0x995770ea, 0x7e8cbbe3, 0x9ac8285b, 0xce20c189, 0xb7ece3eb,
                                0xf8bc2513, 0x62613353, 0x4c84ae76, 0x72c890f1, 0xd7a8144b]
         in Inr (r, key # cs @ (if r then [Vlan_Filter si_num] else [])))"

text \<open>An interface is enabled only after all that goes before.\<close>

definition set_up_before :: "vsi_call list \<Rightarrow> nat \<Rightarrow> bool" where
  "set_up_before cs si \<longleftrightarrow> Configure_SI si \<in> set cs \<and> (\<exists>n. Set_Msix si n \<in> set cs) \<and> (\<exists>m. Set_Mac si m \<in> set cs)"

fun enabled_after_set_up :: "vsi_call list \<Rightarrow> vsi_call list \<Rightarrow> bool" where
  "enabled_after_set_up done [] \<longleftrightarrow> True"
| "enabled_after_set_up done (c # cs) \<longleftrightarrow>
     (\<forall>si. c = Enable_SI si \<longrightarrow> set_up_before done si) \<and> enabled_after_set_up (done @ [c]) cs"

lemma preinit_enabled_after: "enabled_after_set_up done (snd (preinit_from k sis answers) @ rest)
    \<longleftrightarrow> enabled_after_set_up (done @ snd (preinit_from k sis answers)) rest"
  by (induction k sis answers arbitrary: "done" rule: preinit_from.induct)
    (auto simp: set_up_before_def split: prod.splits)

text \<open>
  the controller is shared in order: no interface is enabled before it has its address, its
  interrupts and its configuration. The preparation succeeds exactly if every call does, and then
  the three interfaces are enabled with three different addresses; otherwise the interfaces
  before the failed call stay enabled and those from it on are not.
\<close>

theorem interfaces_enabled_in_order:
  assumes "APP_NETC_PreinitVsi psi vsi0 vsi1 vsi2 a0 a1 a2 = Inr (r, cs)"
  shows "enabled_after_set_up [] cs
    \<and> (r \<longleftrightarrow> list_all (\<lambda>a. fst a \<and> snd a) [a0, a1, a2])
    \<and> filter (\<lambda>c. case c of Enable_SI _ \<Rightarrow> True | _ \<Rightarrow> False) cs =
        map Enable_SI (take (length (takeWhile (\<lambda>a. fst a \<and> snd a) [a0, a1, a2])) [vsi0, vsi1, vsi2])
    \<and> (r \<longrightarrow> {Set_Mac vsi0 (vsi_mac 0), Set_Mac vsi1 (vsi_mac 1), Set_Mac vsi2 (vsi_mac 2)} \<subseteq> set cs)
    \<and> distinct [vsi_mac 0, vsi_mac 1, vsi_mac 2]"
proof -
  obtain si_num where p: "psi = Some si_num" using assms by (cases psi) (auto simp: APP_NETC_PreinitVsi_def)
  obtain m0 c0 m1 c1 m2 c2 where a: "a0 = (m0, c0)" "a1 = (m1, c1)" "a2 = (m2, c2)"
    by (metis surj_pair)
  obtain r' ds where d: "preinit_from 0 [vsi0, vsi1, vsi2] [a0, a1, a2] = (r', ds)" by fastforce
  have "enabled_after_set_up [] cs"
    using assms p d preinit_enabled_after [of "[Set_Rss_Key k]" 0 "[vsi0, vsi1, vsi2]" "[a0, a1, a2]" rest for k rest]
      preinit_enabled_after [of "[Set_Rss_Key k]" 0 "[vsi0, vsi1, vsi2]" "[a0, a1, a2]" "[]" for k]
    by (auto simp: APP_NETC_PreinitVsi_def Let_def)
  then show ?thesis
    using assms by (auto simp: APP_NETC_PreinitVsi_def p a vsi_mac_def split: if_splits)
qed

theorem interfaces_enabled_in_order_witness:
  "\<exists>cs. APP_NETC_PreinitVsi (Some 0) 1 2 3 (True, True) (True, False) (True, True) = Inr (False, cs) \<and> enabled_after_set_up [] cs"
proof -
  have "\<exists>cs. APP_NETC_PreinitVsi (Some 0) 1 2 3 (True, True) (True, False) (True, True) = Inr (False, cs)"
    by (simp add: APP_NETC_PreinitVsi_def)
  then show ?thesis using interfaces_enabled_in_order by blast
qed

section \<open>State of the address\<close>

text \<open>
  A round of \<open>print_dhcp_state\<close>: the state of the client, if there is one, against the last one. What is printed
  is the state and whether the address with it; a state that is not known fails an assertion.
\<close>

definition dhcp_round ::
    "nat \<Rightarrow> nat \<Rightarrow> nat set \<Rightarrow> nat \<Rightarrow> nat option \<Rightarrow> (nat \<times> (nat \<times> bool) list) outcome" where
  "dhcp_round off bound known last_state dhcp = (case dhcp of
       None \<Rightarrow> Inr (off, [])
     | Some s \<Rightarrow> if last_state = s then Inr (last_state, [])
         else os_assert (s \<in> known) (Inr (s, [(s, s = bound)])))"

fun print_dhcp_state ::
    "nat \<Rightarrow> nat \<Rightarrow> nat set \<Rightarrow> nat \<Rightarrow> nat option list \<Rightarrow> (nat \<times> bool) list outcome" where
  "print_dhcp_state off bound known last_state [] = Inr []"
| "print_dhcp_state off bound known last_state (x # xs) =
     and_then (dhcp_round off bound known last_state x) (\<lambda>(s, out).
       and_then (print_dhcp_state off bound known s xs) (\<lambda>out'. Inr (out @ out')))"

text \<open>With one client throughout, the output is the sequence of its states without repetitions.\<close>

lemma dhcp_states_once:
  assumes "list_all (\<lambda>s. s \<in> known) ss"
  shows "print_dhcp_state off bound known last_state (map Some ss)
    = Inr (map (\<lambda>s. (s, s = bound)) (tl (remdups_adj (last_state # ss))))"
proof -
  have "f a # map f (tl (remdups_adj (a # xs))) = map f (remdups_adj (a # xs))" for f :: "nat \<Rightarrow> nat \<times> bool" and a xs
    by (metis list.simps(9) remdups_adj_Cons_alt)
  then show ?thesis
    using assms by (induction ss arbitrary: last_state) (auto simp: dhcp_round_def os_assert_def)
qed

end
