(* ===== verification/Srtm.thy ===== *)
theory Srtm
  imports Prelude
begin


text \<open>
  The life of the connection of the shared Ethernet controller to the other system,
  \<open>src/apps/netc_share/freertos/boards/imx943evk/cm33_core1/app_srtm.c\<close>: a monitor task that sets
  the connection up and follows resets of the other side, a timer that polls for the link and
  procedures that run in the task of the message dispatcher. The dispatcher, the messages and
  RPMsg-Lite are libraries: what the code asks of them is a sequence of calls, what they answer is
  part of the event. The I2C service is a choice of the build, \<open>i2c_used\<close>; the audio service is not used.
\<close>

section \<open>State\<close>

datatype app_srtm_state_t = APP_SRTM_StateRun | APP_SRTM_StateLinkedUp | APP_SRTM_StateReboot | APP_SRTM_StateShutdown

datatype srtm_channel = I2C_Channel | NETC_Channel

text \<open>Instances, peer cores and channels are numbered as they are created.\<close>

datatype srtm_call =
    Register_Service srtm_channel
  | Dispatcher_Start
  | Dispatcher_Stop
  | MU_Init
  | Copy_Resource_Table
  | Rpmsg_Init nat
  | Rpmsg_Deinit nat
  | Notify "nat option" bool
  | Peer_Create nat
  | Peer_Set_State nat bool
  | Endpoint_Create "nat option" srtm_channel
  | Add_Channel nat srtm_channel
  | Add_Peer nat
  | Remove_Peer nat
  | Peer_Destroy nat

text \<open>
  \<open>posted\<close> counts the procedures in the queue of the dispatcher; \<open>state\<close> is the local variable of the
  monitor task; \<open>mon_sig\<close> is a binary semaphore.
\<close>

record srtm =
  srtmState :: app_srtm_state_t
  mon_sig :: bool
  core :: "nat option"
  rpmsgHandle :: "nat option"
  rpmsgMonitor :: bool
  i2c_used :: bool
  linkupTimer :: bool
  posted :: nat
  state :: app_srtm_state_t
  created :: nat
  calls :: "srtm_call list"

definition call :: "srtm_call list \<Rightarrow> srtm \<Rightarrow> srtm" where
  "call cs s = s\<lparr>calls := calls s @ cs\<rparr>"

definition used_channels :: "srtm \<Rightarrow> srtm_channel list" where
  "used_channels s = (if i2c_used s then [I2C_Channel, NETC_Channel] else [NETC_Channel])"

section \<open>Operations\<close>

definition APP_SRTM_SetRpmsgMonitor :: "bool \<Rightarrow> srtm \<Rightarrow> srtm" where
  "APP_SRTM_SetRpmsgMonitor monitor s = s\<lparr>rpmsgMonitor := monitor\<rparr>"

definition APP_SRTM_OtherSideResetHandler :: "srtm \<Rightarrow> srtm" where
  "APP_SRTM_OtherSideResetHandler s = s\<lparr>srtmState := APP_SRTM_StateReboot, mon_sig := True\<rparr>"

datatype power_state = SCMI_SYS_STATE_SUSPEND | SCMI_SYS_STATE_WARM_RESET | SCMI_SYS_STATE_OTHER

text \<open>\<open>a55\<close>: the notification is about the other system.\<close>

definition APP_SRTM_HandleLmmPowerChange :: "bool \<Rightarrow> power_state \<Rightarrow> srtm \<Rightarrow> srtm" where
  "APP_SRTM_HandleLmmPowerChange a55 fl s =
     (if a55 \<and> fl = SCMI_SYS_STATE_WARM_RESET
      then APP_SRTM_OtherSideResetHandler (case core s of None \<Rightarrow> s | Some c \<Rightarrow> call [Peer_Set_State c False] s)
      else s)"

text \<open>
  The procedure in the dispatcher: \<open>up\<close> is the link, \<open>irq\<close> says that a reset is reported between
  the test of the state and the assignment.
\<close>

definition APP_SRTM_PollLinkup :: "bool \<Rightarrow> bool \<Rightarrow> srtm \<Rightarrow> srtm" where
  "APP_SRTM_PollLinkup up irq s =
     (if srtmState s = APP_SRTM_StateRun
      then if up
           then (if irq then APP_SRTM_HandleLmmPowerChange True SCMI_SYS_STATE_WARM_RESET s else s)
                  \<lparr>srtmState := APP_SRTM_StateLinkedUp, mon_sig := True\<rparr>
           else s\<lparr>linkupTimer := True\<rparr>
      else s)"

text \<open>The timer runs once; a procedure is posted if it can be created.\<close>

definition APP_LinkupTimerCallback :: "bool \<Rightarrow> srtm \<Rightarrow> srtm" where
  "APP_LinkupTimerCallback proc s = (if proc then s\<lparr>posted := posted s + 1\<rparr> else s)"

definition APP_SRTM_NotifyPeerCoreReady :: "bool \<Rightarrow> srtm \<Rightarrow> srtm" where
  "APP_SRTM_NotifyPeerCoreReady ready s =
     (if rpmsgMonitor s \<and> srtmState s = APP_SRTM_StateReboot then call [Notify (rpmsgHandle s) ready] s else s)"

definition APP_SRTM_Linkup :: "srtm \<Rightarrow> srtm" where
  "APP_SRTM_Linkup s =
     (let c = created s in call
        ([Peer_Create c, Peer_Set_State c True]
         @ concat (map (\<lambda>ch. [Endpoint_Create (rpmsgHandle s) ch, Add_Channel c ch]) (used_channels s))
         @ [Add_Peer c])
        (s\<lparr>core := Some c, created := c + 1\<rparr>))"

definition APP_SRTM_InitPeerCore :: "bool \<Rightarrow> bool \<Rightarrow> srtm \<Rightarrow> srtm outcome" where
  "APP_SRTM_InitPeerCore ok up s =
     (let h = created s;
          s = call [Copy_Resource_Table] s;
          s = (if ok then call [Rpmsg_Init h] (s\<lparr>rpmsgHandle := Some h, created := h + 1\<rparr>) else s\<lparr>rpmsgHandle := None\<rparr>)
      in os_assert (rpmsgHandle s \<noteq> None)
        (let s = APP_SRTM_NotifyPeerCoreReady True s
         in Inr (if up then APP_SRTM_Linkup s else s\<lparr>linkupTimer := True\<rparr>)))"

definition APP_SRTM_DeinitPeerCore :: "srtm \<Rightarrow> srtm" where
  "APP_SRTM_DeinitPeerCore s =
     (let s = APP_SRTM_NotifyPeerCoreReady False (s\<lparr>linkupTimer := False\<rparr>);
          s = (case core s of None \<Rightarrow> s | Some c \<Rightarrow> call [Remove_Peer c, Peer_Destroy c] (s\<lparr>core := None\<rparr>))
      in case rpmsgHandle s of None \<Rightarrow> s | Some h \<Rightarrow> call [Rpmsg_Deinit h] (s\<lparr>rpmsgHandle := None\<rparr>))"

text \<open>Stopping the dispatcher may or may not keep the procedures in its queue; that is \<open>keeps\<close>.\<close>

definition dispatcher_stop :: "bool \<Rightarrow> srtm \<Rightarrow> srtm" where
  "dispatcher_stop keeps s = call [Dispatcher_Stop] (s\<lparr>posted := if keeps then posted s else 0\<rparr>)"

text \<open>
  A round of the monitor task: \<open>ok\<close> and \<open>up\<close> answer the initialisation and the query of the link, \<open>irq\<close>
  says that a reset is reported before the state is restored after a reset.
\<close>

definition monitor_round :: "bool \<Rightarrow> bool \<Rightarrow> bool \<Rightarrow> bool \<Rightarrow> srtm \<Rightarrow> srtm outcome" where
  "monitor_round keeps ok up irq s =
     (if \<not> mon_sig s then Inr s
      else let s = s\<lparr>mon_sig := False\<rparr>
      in if state s = srtmState s then Inr s
      else (case srtmState s of
          APP_SRTM_StateRun \<Rightarrow>
            os_assert (state s = APP_SRTM_StateShutdown)
              (and_then (APP_SRTM_InitPeerCore ok up (dispatcher_stop keeps s)) (\<lambda>s.
                Inr ((call [Dispatcher_Start] s)\<lparr>state := APP_SRTM_StateRun\<rparr>)))
        | APP_SRTM_StateLinkedUp \<Rightarrow>
            Inr (if state s = APP_SRTM_StateRun
                 then call [Dispatcher_Start] (APP_SRTM_Linkup (dispatcher_stop keeps s)) else s)
        | APP_SRTM_StateReboot \<Rightarrow>
            os_assert (state s = APP_SRTM_StateRun)
              (and_then (APP_SRTM_InitPeerCore ok up
                  (call [MU_Init] (APP_SRTM_DeinitPeerCore (dispatcher_stop keeps s)))) (\<lambda>s.
                let s = (if irq then APP_SRTM_HandleLmmPowerChange True SCMI_SYS_STATE_WARM_RESET s else s)
                in Inr (call [Dispatcher_Start] (s\<lparr>srtmState := APP_SRTM_StateRun\<rparr>))))
        | APP_SRTM_StateShutdown \<Rightarrow> Inl Assert_Failed))"

text \<open>
  \<open>APP_SRTM_Init\<close> and the start of the monitor task; the arguments say whether the semaphore and the timer
  are created. A static variable begins with zero, which is the state of a running connection.
\<close>

definition APP_SRTM_Init :: "bool \<Rightarrow> bool \<Rightarrow> bool \<Rightarrow> bool \<Rightarrow> srtm outcome" where
  "APP_SRTM_Init sem timer monitor i2c =
     os_assert sem (os_assert timer (Inr
       \<lparr>srtmState = APP_SRTM_StateRun, mon_sig = False, core = None, rpmsgHandle = None, rpmsgMonitor = monitor, i2c_used = i2c,
        linkupTimer = False, posted = 0, state = APP_SRTM_StateShutdown, created = 0, calls = [MU_Init]\<rparr>))"

definition APP_SRTM_InitServices :: "srtm \<Rightarrow> srtm" where
  "APP_SRTM_InitServices s = call (map Register_Service (used_channels s)) s"

definition monitor_start :: "srtm \<Rightarrow> srtm" where
  "monitor_start s = call [Dispatcher_Start] (APP_SRTM_InitServices s)"

definition APP_SRTM_StartCommunication :: "srtm \<Rightarrow> srtm" where
  "APP_SRTM_StartCommunication s = s\<lparr>srtmState := APP_SRTM_StateRun, mon_sig := True\<rparr>"

section \<open>Events\<close>

datatype srtm_event =
    Power bool power_state
  | Timer bool
  | Dispatch bool bool
  | Monitor bool bool bool

fun srtm_step :: "bool \<Rightarrow> srtm_event \<Rightarrow> srtm \<Rightarrow> srtm outcome" where
  "srtm_step keeps (Power a55 fl) s = Inr (APP_SRTM_HandleLmmPowerChange a55 fl s)"
| "srtm_step keeps (Timer proc) s =
     Inr (if linkupTimer s then APP_LinkupTimerCallback proc (s\<lparr>linkupTimer := False\<rparr>) else s)"
| "srtm_step keeps (Dispatch up irq) s =
     Inr (if 0 < posted s then APP_SRTM_PollLinkup up irq (s\<lparr>posted := posted s - 1\<rparr>) else s)"
| "srtm_step keeps (Monitor ok up irq) s = monitor_round keeps ok up irq s"

fun srtm_run :: "bool \<Rightarrow> srtm_event list \<Rightarrow> srtm \<Rightarrow> srtm outcome" where
  "srtm_run keeps [] s = Inr s"
| "srtm_run keeps (e # es) s = and_then (srtm_step keeps e s) (srtm_run keeps es)"

text \<open>The start: both objects are created, communication starts, the monitor sets the connection up.\<close>

definition srtm_boot :: "bool \<Rightarrow> bool \<Rightarrow> srtm outcome" where
  "srtm_boot monitor i2c = and_then (APP_SRTM_Init True True monitor i2c) (\<lambda>s. Inr (monitor_start (APP_SRTM_StartCommunication s)))"

definition srtm_started :: "bool \<Rightarrow> bool \<Rightarrow> bool \<Rightarrow> bool \<Rightarrow> srtm outcome" where
  "srtm_started keeps monitor i2c up = and_then (srtm_boot monitor i2c) (srtm_step keeps (Monitor True up False))"

text \<open>
  The condition on a dispatcher that keeps its queue when it is stopped: whenever the monitor
  handles a reset, nothing is left in the queue. A dispatcher that drops its queue meets it always.
\<close>

definition queue_clear :: "bool \<Rightarrow> srtm_event \<Rightarrow> srtm \<Rightarrow> bool" where
  "queue_clear keeps e s \<longleftrightarrow>
     (case e of Monitor _ _ _ \<Rightarrow> mon_sig s \<and> srtmState s = APP_SRTM_StateReboot \<longrightarrow> \<not> keeps \<or> posted s = 0 | _ \<Rightarrow> True)"

fun run_clear :: "bool \<Rightarrow> srtm_event list \<Rightarrow> srtm \<Rightarrow> bool" where
  "run_clear keeps [] s \<longleftrightarrow> True"
| "run_clear keeps (e # es) s \<longleftrightarrow> queue_clear keeps e s
     \<and> (case srtm_step keeps e s of Inl _ \<Rightarrow> True | Inr s' \<Rightarrow> run_clear keeps es s')"

definition clear_from_start :: "bool \<Rightarrow> bool \<Rightarrow> bool \<Rightarrow> bool \<Rightarrow> srtm_event list \<Rightarrow> bool" where
  "clear_from_start keeps monitor i2c up es \<longleftrightarrow>
     (case srtm_started keeps monitor i2c up of Inl _ \<Rightarrow> True | Inr s \<Rightarrow> run_clear keeps es s)"

lemma run_clear_dropped: "run_clear False es s"
  by (induction es arbitrary: s) (auto simp: queue_clear_def split: srtm_event.splits sum.splits)

lemma dropped_queue_clear: "clear_from_start False monitor i2c up es"
  by (simp add: clear_from_start_def run_clear_dropped split: sum.splits)

section \<open>The protocol of the libraries\<close>

text \<open>
  How the libraries may be called: instances, peer cores and their channels change only while the
  dispatcher is stopped; there is one instance and one peer core at a time; what is used exists and
  what is given up was taken out before. The state is whether the dispatcher runs, the instance,
  and the peer core with whether the dispatcher has it.
\<close>

type_synonym protocol = "bool \<times> nat option \<times> (nat \<times> bool) option"

fun protocol_step :: "srtm_call \<Rightarrow> protocol \<Rightarrow> protocol option" where
  "protocol_step Dispatcher_Start (r, h, p) = (if r then None else Some (True, h, p))"
| "protocol_step Dispatcher_Stop (r, h, p) = (if r then Some (False, h, p) else None)"
| "protocol_step (Rpmsg_Init i) (r, h, p) = (if r \<or> h \<noteq> None then None else Some (r, Some i, p))"
| "protocol_step (Rpmsg_Deinit i) (r, h, p) = (if r \<or> h \<noteq> Some i \<or> p \<noteq> None then None else Some (r, None, p))"
| "protocol_step (Notify i _) (r, h, p) = (if r \<or> i = None \<or> i \<noteq> h then None else Some (r, h, p))"
| "protocol_step (Peer_Create c) (r, h, p) = (if r \<or> h = None \<or> p \<noteq> None then None else Some (r, h, Some (c, False)))"
| "protocol_step (Peer_Set_State c _) (r, h, p) = (if map_option fst p = Some c then Some (r, h, p) else None)"
| "protocol_step (Endpoint_Create i _) (r, h, p) = (if r \<or> i = None \<or> i \<noteq> h then None else Some (r, h, p))"
| "protocol_step (Add_Channel c _) (r, h, p) = (if r \<or> p \<noteq> Some (c, False) then None else Some (r, h, p))"
| "protocol_step (Add_Peer c) (r, h, p) = (if r \<or> p \<noteq> Some (c, False) then None else Some (r, h, Some (c, True)))"
| "protocol_step (Remove_Peer c) (r, h, p) = (if r \<or> p \<noteq> Some (c, True) then None else Some (r, h, Some (c, False)))"
| "protocol_step (Peer_Destroy c) (r, h, p) = (if r \<or> p \<noteq> Some (c, False) then None else Some (r, h, None))"
| "protocol_step (Register_Service _) (r, h, p) = (if r then None else Some (r, h, p))"
| "protocol_step MU_Init st = Some st"
| "protocol_step Copy_Resource_Table st = Some st"

fun protocol_run :: "srtm_call list \<Rightarrow> protocol \<Rightarrow> protocol option" where
  "protocol_run [] st = Some st"
| "protocol_run (c # cs) st = (case protocol_step c st of None \<Rightarrow> None | Some st \<Rightarrow> protocol_run cs st)"

lemma protocol_run_append [simp]:
  "protocol_run (cs @ ds) st = (case protocol_run cs st of None \<Rightarrow> None | Some st \<Rightarrow> protocol_run ds st)"
  by (induction cs arbitrary: st) (auto split: option.splits)

text \<open>The protocol after the calls of a state.\<close>

definition after_calls :: "srtm \<Rightarrow> protocol option" where
  "after_calls s = protocol_run (calls s) (False, None, None)"

lemma after_call [simp]: "after_calls (call cs s) = (case after_calls s of None \<Rightarrow> None | Some st \<Rightarrow> protocol_run cs st)"
  by (simp add: after_calls_def call_def)

lemma after_calls_fields [simp]:
  "after_calls (s\<lparr>srtmState := a\<rparr>) = after_calls s"
  "after_calls (s\<lparr>mon_sig := b\<rparr>) = after_calls s"
  "after_calls (s\<lparr>core := c\<rparr>) = after_calls s"
  "after_calls (s\<lparr>rpmsgHandle := h\<rparr>) = after_calls s"
  "after_calls (s\<lparr>linkupTimer := b\<rparr>) = after_calls s"
  "after_calls (s\<lparr>posted := n\<rparr>) = after_calls s"
  "after_calls (s\<lparr>state := a\<rparr>) = after_calls s"
  "after_calls (s\<lparr>created := n\<rparr>) = after_calls s"
  by (simp_all add: after_calls_def)

lemma call_fields [simp]:
  "srtmState (call cs s) = srtmState s" "mon_sig (call cs s) = mon_sig s" "core (call cs s) = core s"
  "rpmsgHandle (call cs s) = rpmsgHandle s" "rpmsgMonitor (call cs s) = rpmsgMonitor s" "i2c_used (call cs s) = i2c_used s"
  "linkupTimer (call cs s) = linkupTimer s" "posted (call cs s) = posted s" "state (call cs s) = state s"
  "created (call cs s) = created s"
  by (simp_all add: call_def)

lemma call_updates [simp]:
  "(call cs s)\<lparr>srtmState := a\<rparr> = call cs (s\<lparr>srtmState := a\<rparr>)"
  "(call cs s)\<lparr>mon_sig := b\<rparr> = call cs (s\<lparr>mon_sig := b\<rparr>)"
  "(call cs s)\<lparr>core := c\<rparr> = call cs (s\<lparr>core := c\<rparr>)"
  "(call cs s)\<lparr>rpmsgHandle := h\<rparr> = call cs (s\<lparr>rpmsgHandle := h\<rparr>)"
  "(call cs s)\<lparr>linkupTimer := b\<rparr> = call cs (s\<lparr>linkupTimer := b\<rparr>)"
  "(call cs s)\<lparr>state := a\<rparr> = call cs (s\<lparr>state := a\<rparr>)"
  by (simp_all add: call_def)

definition consistent :: "bool \<Rightarrow> srtm \<Rightarrow> bool" where
  "consistent r s \<longleftrightarrow> after_calls s = Some (r, rpmsgHandle s, map_option (\<lambda>c. (c, True)) (core s))"

lemma Linkup_consistent:
  "consistent False s \<Longrightarrow> core s = None \<Longrightarrow> rpmsgHandle s \<noteq> None \<Longrightarrow> consistent False (APP_SRTM_Linkup s)"
  by (auto simp: consistent_def APP_SRTM_Linkup_def Let_def used_channels_def)

lemma Linkup_fields [simp]:
  "srtmState (APP_SRTM_Linkup s) = srtmState s" "mon_sig (APP_SRTM_Linkup s) = mon_sig s"
  "core (APP_SRTM_Linkup s) = Some (created s)" "rpmsgHandle (APP_SRTM_Linkup s) = rpmsgHandle s"
  "linkupTimer (APP_SRTM_Linkup s) = linkupTimer s" "posted (APP_SRTM_Linkup s) = posted s" "state (APP_SRTM_Linkup s) = state s"
  by (simp_all add: APP_SRTM_Linkup_def Let_def)

lemma Notify_consistent:
  "consistent False s \<Longrightarrow> rpmsgHandle s \<noteq> None \<Longrightarrow> consistent False (APP_SRTM_NotifyPeerCoreReady b s)"
  by (auto simp: consistent_def APP_SRTM_NotifyPeerCoreReady_def)

lemma Notify_fields [simp]:
  "srtmState (APP_SRTM_NotifyPeerCoreReady b s) = srtmState s" "mon_sig (APP_SRTM_NotifyPeerCoreReady b s) = mon_sig s"
  "core (APP_SRTM_NotifyPeerCoreReady b s) = core s" "rpmsgHandle (APP_SRTM_NotifyPeerCoreReady b s) = rpmsgHandle s"
  "linkupTimer (APP_SRTM_NotifyPeerCoreReady b s) = linkupTimer s" "posted (APP_SRTM_NotifyPeerCoreReady b s) = posted s"
  "state (APP_SRTM_NotifyPeerCoreReady b s) = state s"
  by (simp_all add: APP_SRTM_NotifyPeerCoreReady_def)

lemma InitPeerCore_result:
  assumes "consistent False s" "core s = None" "rpmsgHandle s = None"
  shows "\<exists>s'. APP_SRTM_InitPeerCore True up s = Inr s' \<and> consistent False s' \<and> rpmsgHandle s' \<noteq> None
    \<and> srtmState s' = srtmState s \<and> mon_sig s' = mon_sig s \<and> posted s' = posted s \<and> state s' = state s
    \<and> (core s' \<noteq> None \<longleftrightarrow> up) \<and> linkupTimer s' = (if up then linkupTimer s else True)"
proof -
  define s1 where "s1 = call [Rpmsg_Init (created s)] (call [Copy_Resource_Table] s\<lparr>rpmsgHandle := Some (created s), created := created s + 1\<rparr>)"
  have c: "consistent False s1" using assms by (simp add: consistent_def s1_def call_def after_calls_def)
  have f: "core s1 = None" "rpmsgHandle s1 = Some (created s)" "srtmState s1 = srtmState s" "mon_sig s1 = mon_sig s"
    "posted s1 = posted s" "state s1 = state s" "linkupTimer s1 = linkupTimer s"
    using assms by (simp_all add: s1_def)
  define s2 where "s2 = APP_SRTM_NotifyPeerCoreReady True s1"
  have "consistent False s2" using c f by (simp add: s2_def Notify_consistent)
  then have "consistent False (APP_SRTM_Linkup s2)" "consistent False (s2\<lparr>linkupTimer := True\<rparr>)"
    using f by (simp_all add: s2_def Linkup_consistent) (simp add: consistent_def)
  moreover have "APP_SRTM_InitPeerCore True up s = Inr (if up then APP_SRTM_Linkup s2 else s2\<lparr>linkupTimer := True\<rparr>)"
    by (simp add: APP_SRTM_InitPeerCore_def Let_def s1_def s2_def)
  ultimately show ?thesis using f by (cases up) (simp_all add: s2_def)
qed

lemma DeinitPeerCore_result:
  assumes "consistent False s" "rpmsgHandle s \<noteq> None"
  defines "s' \<equiv> APP_SRTM_DeinitPeerCore s"
  shows "consistent False s'" "core s' = None" "rpmsgHandle s' = None" "linkupTimer s' = False"
    "srtmState s' = srtmState s" "mon_sig s' = mon_sig s" "posted s' = posted s" "state s' = state s"
proof -
  define s1 where "s1 = APP_SRTM_NotifyPeerCoreReady False (s\<lparr>linkupTimer := False\<rparr>)"
  have "consistent False (s\<lparr>linkupTimer := False\<rparr>)" using assms(1) by (simp add: consistent_def)
  then have c: "consistent False s1" using assms(2) unfolding s1_def by (intro Notify_consistent) simp_all
  have e: "s' = (let s = (case core s1 of None \<Rightarrow> s1 | Some c \<Rightarrow> call [Remove_Peer c, Peer_Destroy c] (s1\<lparr>core := None\<rparr>))
      in case rpmsgHandle s of None \<Rightarrow> s | Some h \<Rightarrow> call [Rpmsg_Deinit h] (s\<lparr>rpmsgHandle := None\<rparr>))"
    by (simp only: s'_def APP_SRTM_DeinitPeerCore_def s1_def Let_def)
  have h: "rpmsgHandle s1 = rpmsgHandle s" by (simp add: s1_def)
  show "consistent False s'" "core s' = None" "rpmsgHandle s' = None" "linkupTimer s' = False"
    "srtmState s' = srtmState s" "mon_sig s' = mon_sig s" "posted s' = posted s" "state s' = state s"
    using c h assms(2) unfolding e by (auto simp: consistent_def s1_def Let_def split: option.splits)
qed

section \<open>Runs without interference\<close>

text \<open>
  What holds between events: the calls made so far are allowed by the protocol and leave it where
  the variables say, and there is always something that leads to the next step: a link that is not
  up is polled by the timer or by one posted procedure, and a change of the state is signalled.
\<close>

definition alive :: "srtm \<Rightarrow> bool" where
  "alive s \<longleftrightarrow> consistent True s \<and> state s = APP_SRTM_StateRun \<and> rpmsgHandle s \<noteq> None
    \<and> srtmState s \<noteq> APP_SRTM_StateShutdown
    \<and> (srtmState s = APP_SRTM_StateReboot \<longrightarrow> mon_sig s)
    \<and> (core s \<noteq> None \<longrightarrow> \<not> linkupTimer s \<and> posted s = 0)
    \<and> (core s \<noteq> None \<and> srtmState s = APP_SRTM_StateLinkedUp \<longrightarrow> \<not> mon_sig s)
    \<and> (core s = None \<and> srtmState s = APP_SRTM_StateLinkedUp \<longrightarrow> mon_sig s \<and> \<not> linkupTimer s \<and> posted s = 0)
    \<and> (core s = None \<and> srtmState s = APP_SRTM_StateRun \<longrightarrow> posted s = (if linkupTimer s then 0 else 1))"

fun orderly :: "srtm_event \<Rightarrow> bool" where
  "orderly (Power a55 fl) \<longleftrightarrow> True"
| "orderly (Timer proc) \<longleftrightarrow> proc"
| "orderly (Dispatch up irq) \<longleftrightarrow> \<not> irq"
| "orderly (Monitor ok up irq) \<longleftrightarrow> ok \<and> \<not> irq"

lemma reset_result:
  assumes "consistent r s"
  defines "s' \<equiv> APP_SRTM_HandleLmmPowerChange True SCMI_SYS_STATE_WARM_RESET s"
  shows "consistent r s'" "srtmState s' = APP_SRTM_StateReboot" "mon_sig s'" "core s' = core s" "rpmsgHandle s' = rpmsgHandle s"
    "linkupTimer s' = linkupTimer s" "posted s' = posted s" "state s' = state s"
  using assms by (auto simp: s'_def APP_SRTM_HandleLmmPowerChange_def APP_SRTM_OtherSideResetHandler_def consistent_def
    split: option.splits)

lemma alive_power: "alive s \<Longrightarrow> alive (APP_SRTM_HandleLmmPowerChange a55 fl s)"
proof (cases "a55 \<and> fl = SCMI_SYS_STATE_WARM_RESET")
  case True
  moreover assume "alive s"
  ultimately show ?thesis using reset_result [of True s] by (simp add: alive_def)
qed (auto simp: APP_SRTM_HandleLmmPowerChange_def)

lemma consistent_fields [simp]:
  "consistent r (s\<lparr>srtmState := a\<rparr>) = consistent r s" "consistent r (s\<lparr>mon_sig := b\<rparr>) = consistent r s"
  "consistent r (s\<lparr>linkupTimer := b\<rparr>) = consistent r s" "consistent r (s\<lparr>posted := n\<rparr>) = consistent r s"
  "consistent r (s\<lparr>state := a\<rparr>) = consistent r s"
  by (simp_all add: consistent_def)

lemma alive_poll: "alive s \<Longrightarrow> 0 < posted s \<Longrightarrow> alive (APP_SRTM_PollLinkup up False (s\<lparr>posted := posted s - 1\<rparr>))"
  by (cases "srtmState s") (auto simp: alive_def APP_SRTM_PollLinkup_def split: if_splits)

lemma alive_timer: "alive s \<Longrightarrow> linkupTimer s \<Longrightarrow> alive (APP_LinkupTimerCallback True (s\<lparr>linkupTimer := False\<rparr>))"
  by (cases "srtmState s") (auto simp: alive_def APP_LinkupTimerCallback_def)

lemma consistent_stop: "consistent True s \<Longrightarrow> consistent False (dispatcher_stop keeps s)"
  by (simp add: consistent_def dispatcher_stop_def)

lemma consistent_start: "consistent False s \<Longrightarrow> consistent True (call [Dispatcher_Start] s)"
  by (simp add: consistent_def)

lemma stop_fields [simp]:
  "srtmState (dispatcher_stop keeps s) = srtmState s" "mon_sig (dispatcher_stop keeps s) = mon_sig s"
  "core (dispatcher_stop keeps s) = core s" "rpmsgHandle (dispatcher_stop keeps s) = rpmsgHandle s"
  "linkupTimer (dispatcher_stop keeps s) = linkupTimer s" "state (dispatcher_stop keeps s) = state s"
  "posted (dispatcher_stop keeps s) = (if keeps then posted s else 0)"
  by (simp_all add: dispatcher_stop_def)

text \<open>A reset: the old connection is given up and a new one is set up or waited for.\<close>

lemma reboot_init:
  assumes "consistent True s" "rpmsgHandle s \<noteq> None" "\<not> keeps \<or> posted s = 0"
  shows "\<exists>s2. APP_SRTM_InitPeerCore True up
        (call [MU_Init] (APP_SRTM_DeinitPeerCore (dispatcher_stop keeps (s\<lparr>mon_sig := False\<rparr>)))) = Inr s2
    \<and> consistent False s2 \<and> rpmsgHandle s2 \<noteq> None \<and> \<not> mon_sig s2 \<and> posted s2 = 0 \<and> state s2 = state s
    \<and> (core s2 \<noteq> None \<longleftrightarrow> up) \<and> (linkupTimer s2 \<longleftrightarrow> \<not> up)"
proof -
  define s1 where "s1 = dispatcher_stop keeps (s\<lparr>mon_sig := False\<rparr>)"
  have "consistent False s1" unfolding s1_def using assms(1) by (intro consistent_stop) simp
  moreover have "rpmsgHandle s1 \<noteq> None" using assms(2) by (simp add: s1_def)
  ultimately have d: "consistent False (APP_SRTM_DeinitPeerCore s1)" "core (APP_SRTM_DeinitPeerCore s1) = None"
    "rpmsgHandle (APP_SRTM_DeinitPeerCore s1) = None" "linkupTimer (APP_SRTM_DeinitPeerCore s1) = False"
    "\<not> mon_sig (APP_SRTM_DeinitPeerCore s1)" "posted (APP_SRTM_DeinitPeerCore s1) = 0"
    "state (APP_SRTM_DeinitPeerCore s1) = state s"
    using DeinitPeerCore_result [of s1] assms(3) by (auto simp: s1_def)
  then have "consistent False (call [MU_Init] (APP_SRTM_DeinitPeerCore s1))" by (simp add: consistent_def)
  then show ?thesis
    using InitPeerCore_result [of "call [MU_Init] (APP_SRTM_DeinitPeerCore s1)" up] d unfolding s1_def by auto
qed

lemma reboot_result:
  assumes "consistent True s" "rpmsgHandle s \<noteq> None" "state s = APP_SRTM_StateRun" "srtmState s = APP_SRTM_StateReboot" "mon_sig s"
    "\<not> keeps \<or> posted s = 0"
  shows "\<exists>s'. monitor_round keeps True up False s = Inr s' \<and> consistent True s' \<and> rpmsgHandle s' \<noteq> None
    \<and> srtmState s' = APP_SRTM_StateRun \<and> \<not> mon_sig s' \<and> posted s' = 0 \<and> state s' = APP_SRTM_StateRun
    \<and> (core s' \<noteq> None \<longleftrightarrow> up) \<and> (linkupTimer s' \<longleftrightarrow> \<not> up)"
proof -
  obtain s2 where s2: "APP_SRTM_InitPeerCore True up
        (call [MU_Init] (APP_SRTM_DeinitPeerCore (dispatcher_stop keeps (s\<lparr>mon_sig := False\<rparr>)))) = Inr s2"
    "consistent False s2" "rpmsgHandle s2 \<noteq> None" "\<not> mon_sig s2" "posted s2 = 0" "state s2 = state s" "core s2 \<noteq> None \<longleftrightarrow> up"
    "linkupTimer s2 \<longleftrightarrow> \<not> up"
    using reboot_init [OF assms(1,2,6), of up] by blast
  have "consistent True (call [Dispatcher_Start] (s2\<lparr>srtmState := APP_SRTM_StateRun\<rparr>))"
    using s2(2) by (intro consistent_start) simp
  then show ?thesis using assms(3-5) s2 by (simp add: monitor_round_def)
qed

lemma alive_monitor:
  assumes "alive s" "mon_sig s \<and> srtmState s = APP_SRTM_StateReboot \<longrightarrow> \<not> keeps \<or> posted s = 0"
  shows "\<exists>s'. monitor_round keeps True up False s = Inr s' \<and> alive s'"
proof (cases "mon_sig s")
  case True
  show ?thesis
  proof (cases "srtmState s")
    case APP_SRTM_StateRun
    then show ?thesis using assms(1) True by (auto simp: monitor_round_def alive_def)
  next
    case APP_SRTM_StateLinkedUp
    then have c: "core s = None" "\<not> linkupTimer s" "posted s = 0" using assms True by (auto simp: alive_def)
    have "consistent False (dispatcher_stop keeps (s\<lparr>mon_sig := False\<rparr>))"
      using assms by (intro consistent_stop) (simp add: alive_def)
    then have "consistent True (call [Dispatcher_Start] (APP_SRTM_Linkup (dispatcher_stop keeps (s\<lparr>mon_sig := False\<rparr>))))"
      using assms c by (intro consistent_start Linkup_consistent) (simp_all add: alive_def)
    then show ?thesis
      using assms True APP_SRTM_StateLinkedUp c by (simp add: monitor_round_def alive_def)
  next
    case APP_SRTM_StateReboot
    have "consistent True s" "rpmsgHandle s \<noteq> None" "state s = APP_SRTM_StateRun" using assms by (simp_all add: alive_def)
    moreover have "\<not> keeps \<or> posted s = 0" using assms(2) True APP_SRTM_StateReboot by simp
    ultimately
    obtain s' where "monitor_round keeps True up False s = Inr s'" "consistent True s'" "rpmsgHandle s' \<noteq> None"
      "srtmState s' = APP_SRTM_StateRun" "\<not> mon_sig s'" "posted s' = 0" "state s' = APP_SRTM_StateRun"
      "core s' \<noteq> None \<longleftrightarrow> up" "linkupTimer s' \<longleftrightarrow> \<not> up" using reboot_result [OF _ _ _ APP_SRTM_StateReboot True, of keeps up] by blast
    then show ?thesis by (simp add: alive_def)
  next
    case APP_SRTM_StateShutdown
    then show ?thesis using assms by (simp add: alive_def)
  qed
qed (use assms in \<open>auto simp: monitor_round_def\<close>)

lemma alive_step: "alive s \<Longrightarrow> orderly e \<Longrightarrow> queue_clear keeps e s \<Longrightarrow> \<exists>s'. srtm_step keeps e s = Inr s' \<and> alive s'"
  by (cases e) (auto simp: alive_power alive_poll [simplified] alive_timer alive_monitor queue_clear_def)

lemma alive_run: "alive s \<Longrightarrow> list_all orderly es \<Longrightarrow> run_clear keeps es s \<Longrightarrow> \<exists>s'. srtm_run keeps es s = Inr s' \<and> alive s'"
proof (induction es arbitrary: s)
  case (Cons e es)
  then obtain s1 where "srtm_step keeps e s = Inr s1" "alive s1" using alive_step [of s e keeps] by auto
  then show ?case using Cons by simp
qed simp

lemma alive_started: "\<exists>s. srtm_started keeps monitor i2c up = Inr s \<and> alive s"
proof -
  define s where "s = monitor_start (APP_SRTM_StartCommunication
    \<lparr>srtmState = APP_SRTM_StateRun, mon_sig = False, core = None, rpmsgHandle = None, rpmsgMonitor = monitor, i2c_used = i2c,
     linkupTimer = False, posted = 0, state = APP_SRTM_StateShutdown, created = 0, calls = [MU_Init]\<rparr>)"
  have f: "srtmState s = APP_SRTM_StateRun" "mon_sig s" "core s = None" "rpmsgHandle s = None" "\<not> linkupTimer s" "posted s = 0"
    "state s = APP_SRTM_StateShutdown"
    by (simp_all add: s_def monitor_start_def APP_SRTM_InitServices_def APP_SRTM_StartCommunication_def)
  have "consistent True s"
    by (simp add: s_def monitor_start_def APP_SRTM_InitServices_def APP_SRTM_StartCommunication_def consistent_def
        used_channels_def) (simp add: after_calls_def)
  then have "consistent False (dispatcher_stop keeps (s\<lparr>mon_sig := False\<rparr>))" by (intro consistent_stop) simp
  then obtain s2 where s2: "APP_SRTM_InitPeerCore True up (dispatcher_stop keeps (s\<lparr>mon_sig := False\<rparr>)) = Inr s2"
    "consistent False s2" "rpmsgHandle s2 \<noteq> None" "srtmState s2 = APP_SRTM_StateRun" "\<not> mon_sig s2" "posted s2 = 0"
    "core s2 \<noteq> None \<longleftrightarrow> up" "linkupTimer s2 \<longleftrightarrow> \<not> up"
    using InitPeerCore_result [of "dispatcher_stop keeps (s\<lparr>mon_sig := False\<rparr>)" up] f by auto
  have "srtm_started keeps monitor i2c up = monitor_round keeps True up False s"
    by (simp add: srtm_started_def srtm_boot_def APP_SRTM_Init_def s_def)
  moreover have "monitor_round keeps True up False s = Inr ((call [Dispatcher_Start] s2)\<lparr>state := APP_SRTM_StateRun\<rparr>)"
    using f s2(1) by (simp add: monitor_round_def)
  moreover have "alive ((call [Dispatcher_Start] s2)\<lparr>state := APP_SRTM_StateRun\<rparr>)"
    using s2 consistent_start [OF s2(2)] by (simp add: alive_def) (simp add: consistent_def)
  ultimately show ?thesis by simp
qed

text \<open>
  C29: After the monitor's first round the connection follows the protocol of the libraries and
  never waits for nothing. Whatever the order of resets of the other side, timer, polls and
  rounds of the monitor: no assertion fails, every call made was allowed, and there is a peer
  core or something is under way that leads to one. The conditions: a reset is not reported in
  the middle of a poll or of a round (\<open>orderly\<close>; it would be lost), initialisation
  succeeds and a procedure can be created each time; and no poll is waiting in the dispatcher
  when a reset is handled (\<open>clear_from_start\<close>), which is always so if stopping the
  dispatcher drops its queue (\<open>dropped_queue_clear\<close>) and is needed if it does not
  (\<open>kept_poll_breaks_protocol\<close>). A reset before the first round fails an assertion
  (\<open>reset_before_start_asserts\<close>).
\<close>

theorem connection_follows_protocol:
  assumes "list_all orderly es" "clear_from_start keeps monitor i2c up es"
  shows "\<exists>s. and_then (srtm_started keeps monitor i2c up) (srtm_run keeps es) = Inr s
    \<and> protocol_run (calls s) (False, None, None) = Some (True, rpmsgHandle s, map_option (\<lambda>c. (c, True)) (core s))
    \<and> (core s \<noteq> None \<or> linkupTimer s \<or> 0 < posted s \<or> mon_sig s)"
proof -
  obtain s0 where s0: "srtm_started keeps monitor i2c up = Inr s0" "alive s0" using alive_started by blast
  have "run_clear keeps es s0" using assms(2) s0(1) by (simp add: clear_from_start_def)
  then obtain s where s: "srtm_run keeps es s0 = Inr s" "alive s" using alive_run [OF s0(2) assms(1)] by blast
  moreover have "core s \<noteq> None \<or> linkupTimer s \<or> 0 < posted s \<or> mon_sig s"
    using s(2) by (cases "srtmState s") (auto simp: alive_def split: if_splits)
  ultimately show ?thesis
    using s0(1) by (simp add: alive_def consistent_def after_calls_def)
qed

lemmas srtm_evaluate = srtm_started_def srtm_boot_def APP_SRTM_Init_def monitor_start_def APP_SRTM_InitServices_def
  APP_SRTM_StartCommunication_def APP_SRTM_HandleLmmPowerChange_def APP_SRTM_OtherSideResetHandler_def monitor_round_def
  APP_SRTM_InitPeerCore_def APP_SRTM_NotifyPeerCoreReady_def APP_SRTM_Linkup_def APP_SRTM_DeinitPeerCore_def
  dispatcher_stop_def APP_LinkupTimerCallback_def APP_SRTM_PollLinkup_def call_def used_channels_def

theorem connection_follows_protocol_witness:
  "\<exists>s. and_then (srtm_started True True True False)
      (srtm_run True [Timer True, Power True SCMI_SYS_STATE_WARM_RESET, Dispatch True False, Monitor True True False]) = Inr s
    \<and> protocol_run (calls s) (False, None, None) = Some (True, rpmsgHandle s, map_option (\<lambda>c. (c, True)) (core s))
    \<and> (core s \<noteq> None \<or> linkupTimer s \<or> 0 < posted s \<or> mon_sig s)"
  by (rule connection_follows_protocol) (simp_all add: clear_from_start_def queue_clear_def srtm_evaluate)

lemma alive_cases:
  assumes "alive s"
  obtains (Reboot) "srtmState s = APP_SRTM_StateReboot" "mon_sig s"
  | (Linking) "srtmState s = APP_SRTM_StateLinkedUp" "core s = None" "mon_sig s"
  | (Polling) "srtmState s = APP_SRTM_StateRun" "core s = None" "posted s = (if linkupTimer s then 0 else 1)"
  | (Up) "srtmState s \<noteq> APP_SRTM_StateReboot" "core s \<noteq> None" "\<not> linkupTimer s" "posted s = 0"
      "srtmState s = APP_SRTM_StateLinkedUp \<longrightarrow> \<not> mon_sig s"
  using assms by (cases "srtmState s"; cases "core s") (auto simp: alive_def)

definition is_up :: "srtm \<Rightarrow> bool" where
  "is_up s \<longleftrightarrow> core s \<noteq> None \<and> srtmState s \<noteq> APP_SRTM_StateReboot"

lemma up_stays:
  assumes "alive s" "is_up s"
  shows "\<exists>s'. monitor_round keeps True True False s = Inr s' \<and> alive s' \<and> is_up s'"
    and "is_up (if linkupTimer s then APP_LinkupTimerCallback True (s\<lparr>linkupTimer := False\<rparr>) else s)"
    and "is_up (if 0 < posted s then APP_SRTM_PollLinkup True False (s\<lparr>posted := posted s - 1\<rparr>) else s)"
proof -
  have f: "state s = APP_SRTM_StateRun" "\<not> linkupTimer s" "posted s = 0" "core s \<noteq> None"
    "srtmState s = APP_SRTM_StateRun \<or> srtmState s = APP_SRTM_StateLinkedUp \<and> \<not> mon_sig s"
    using assms by (cases "srtmState s"; auto simp: alive_def is_up_def)+
  then have "monitor_round keeps True True False s = Inr (s\<lparr>mon_sig := False\<rparr>) \<or> monitor_round keeps True True False s = Inr s"
    by (auto simp: monitor_round_def)
  moreover have "alive (s\<lparr>mon_sig := False\<rparr>)" if "srtmState s = APP_SRTM_StateRun" using that assms(1) by (simp add: alive_def)
  ultimately show "\<exists>s'. monitor_round keeps True True False s = Inr s' \<and> alive s' \<and> is_up s'"
    using assms f by (auto simp: is_up_def monitor_round_def)
  show "is_up (if linkupTimer s then APP_LinkupTimerCallback True (s\<lparr>linkupTimer := False\<rparr>) else s)"
    "is_up (if 0 < posted s then APP_SRTM_PollLinkup True False (s\<lparr>posted := posted s - 1\<rparr>) else s)"
    using f assms(2) by simp_all
qed

lemma monitor_links:
  assumes "alive s" "srtmState s \<noteq> APP_SRTM_StateRun" "queue_clear keeps (Monitor True True False) s"
  shows "\<exists>s'. monitor_round keeps True True False s = Inr s' \<and> alive s' \<and> is_up s'"
  using assms(1)
proof (cases rule: alive_cases)
  case Reboot
  have "consistent True s" "rpmsgHandle s \<noteq> None" "state s = APP_SRTM_StateRun" using assms by (simp_all add: alive_def)
  moreover have "\<not> keeps \<or> posted s = 0" using assms(3) Reboot by (simp add: queue_clear_def)
  ultimately show ?thesis
    using reboot_result [OF _ _ _ Reboot, of keeps True] alive_monitor [OF assms(1), of keeps True] by (fastforce simp: is_up_def)
next
  case Linking
  have "state s = APP_SRTM_StateRun" using assms by (simp add: alive_def)
  then show ?thesis
    using Linking alive_monitor [OF assms(1), of keeps True] by (auto simp: monitor_round_def is_up_def)
next
  case Polling
  then show ?thesis using assms(2) by simp
next
  case Up
  then show ?thesis using up_stays(1) [OF assms(1)] by (simp add: is_up_def)
qed

lemma srtm_run_append: "srtm_run keeps (es @ fs) s = and_then (srtm_run keeps es s) (srtm_run keeps fs)"
  by (induction es arbitrary: s) (auto simp: and_then_assoc intro: and_then_cong)

abbreviation link_turn :: "srtm_event list" where
  "link_turn \<equiv> [Monitor True True False, Timer True, Dispatch True False, Monitor True True False]"

lemma poll_finds_link:
  assumes "alive s" "core s = None" "srtmState s = APP_SRTM_StateRun"
  shows "\<exists>s'. srtm_run keeps [Timer True, Dispatch True False, Monitor True True False] s = Inr s' \<and> alive s' \<and> is_up s'"
proof -
  obtain s2 where s2: "srtm_step keeps (Timer True) s = Inr s2" "alive s2"
    using alive_step [OF assms(1), of "Timer True" keeps] by (auto simp: queue_clear_def)
  have r2: "srtmState s2 = APP_SRTM_StateRun" "posted s2 = 1"
    using assms s2(1) by (auto simp: alive_def APP_LinkupTimerCallback_def)
  obtain s3 where s3: "srtm_step keeps (Dispatch True False) s2 = Inr s3" "alive s3"
    using alive_step [OF s2(2), of "Dispatch True False" keeps] by (auto simp: queue_clear_def)
  have r3: "srtmState s3 = APP_SRTM_StateLinkedUp" using r2 s3(1) by (auto simp: APP_SRTM_PollLinkup_def)
  obtain s4 where "srtm_step keeps (Monitor True True False) s3 = Inr s4" "alive s4" "is_up s4"
    using monitor_links [OF s3(2), of keeps] r3 by (auto simp: queue_clear_def)
  then show ?thesis using s2(1) s3(1) by simp
qed

lemma up_lasts:
  assumes "alive s" "is_up s"
  shows "\<exists>s'. srtm_run keeps [Timer True, Dispatch True False, Monitor True True False] s = Inr s' \<and> alive s' \<and> is_up s'"
proof -
  obtain s2 where s2: "srtm_step keeps (Timer True) s = Inr s2" "alive s2" "is_up s2"
    using alive_step [OF assms(1), of "Timer True" keeps] up_stays(2) [OF assms] by (auto simp: queue_clear_def)
  obtain s3 where s3: "srtm_step keeps (Dispatch True False) s2 = Inr s3" "alive s3" "is_up s3"
    using alive_step [OF s2(2), of "Dispatch True False" keeps] up_stays(3) [OF s2(2,3)] by (auto simp: queue_clear_def)
  obtain s4 where "srtm_step keeps (Monitor True True False) s3 = Inr s4" "alive s4" "is_up s4"
    using up_stays(1) [OF s3(2,3), of keeps] by auto
  then show ?thesis using s2(1) s3(1) by simp
qed

lemma turn_links:
  assumes "alive s" "queue_clear keeps (Monitor True True False) s"
  shows "\<exists>s'. srtm_run keeps link_turn s = Inr s' \<and> alive s' \<and> is_up s'"
proof -
  obtain s1 where s1: "srtm_step keeps (Monitor True True False) s = Inr s1" "alive s1"
    using alive_step [OF assms(1) _ assms(2)] by auto
  show ?thesis
  proof (cases "is_up s1")
    case True
    then show ?thesis using up_lasts [OF s1(2), of keeps] s1(1) by simp
  next
    case False
    have r: "srtmState s = APP_SRTM_StateRun"
      using monitor_links [OF assms(1) _ assms(2)] False s1(1) by (cases "srtmState s = APP_SRTM_StateRun") auto
    then have "srtmState s1 = APP_SRTM_StateRun"
      using assms(1) s1(1) by (auto simp: monitor_round_def alive_def split: if_splits)
    moreover from this False have "core s1 = None" by (simp add: is_up_def)
    ultimately show ?thesis using poll_finds_link [OF s1(2)] s1(1) by simp
  qed
qed

lemma run_clear_append:
  "run_clear keeps (es @ fs) s \<longleftrightarrow> run_clear keeps es s
     \<and> (case srtm_run keeps es s of Inl _ \<Rightarrow> True | Inr s' \<Rightarrow> run_clear keeps fs s')"
  by (induction es arbitrary: s) (auto split: sum.splits)

text \<open>
  C25: a link that is up is used. After the monitor's first round and from whatever point
  an orderly run has reached, a turn of the monitor, the timer, the dispatcher and the monitor
  again, with the link up, ends with a peer core the dispatcher knows, over the instance that is
  current. As before, no reset is reported in the middle of a poll or of a round, initialisation
  succeeds and procedures are created (\<open>orderly\<close>: without the procedure nothing
  polls again, \<open>lost_poll_never_links\<close>); and no poll is waiting in the dispatcher
  when a reset is handled (\<open>clear_from_start\<close>), which holds for every run if
  stopping the dispatcher drops its queue (\<open>dropped_queue_clear\<close>) and is needed if
  it keeps it (\<open>kept_poll_breaks_protocol\<close>).
\<close>

theorem connection_comes_up:
  assumes "list_all orderly es" "clear_from_start keeps monitor i2c up (es @ link_turn)"
  shows "\<exists>s c h. and_then (srtm_started keeps monitor i2c up)
      (srtm_run keeps (es @ link_turn)) = Inr s
    \<and> protocol_run (calls s) (False, None, None) = Some (True, Some h, Some (c, True)) \<and> srtmState s \<noteq> APP_SRTM_StateReboot"
proof -
  obtain s0 where s0: "srtm_started keeps monitor i2c up = Inr s0" "alive s0" using alive_started by blast
  have q: "run_clear keeps (es @ link_turn) s0" using assms(2) s0(1) by (simp add: clear_from_start_def del: run_clear.simps)
  then obtain s1 where s1: "srtm_run keeps es s0 = Inr s1" "alive s1"
    using alive_run [OF s0(2) assms(1)] unfolding run_clear_append by blast
  have "queue_clear keeps (Monitor True True False) s1" using q s1(1) by (simp add: run_clear_append)
  from turn_links [OF s1(2) this]
  obtain s where s: "srtm_run keeps link_turn s1 = Inr s" "alive s" "is_up s" by blast
  obtain c h where "core s = Some c" "rpmsgHandle s = Some h" using s(2,3) by (auto simp: is_up_def alive_def)
  then show ?thesis
    using s0(1) s1(1) s by (auto simp: srtm_run_append alive_def consistent_def after_calls_def is_up_def simp del: srtm_run.simps)
qed

theorem connection_comes_up_witness:
  "\<exists>s c h. and_then (srtm_started True True False False)
      (srtm_run True ([Timer True, Dispatch False False, Power True SCMI_SYS_STATE_WARM_RESET] @ link_turn)) = Inr s
    \<and> protocol_run (calls s) (False, None, None) = Some (True, Some h, Some (c, True)) \<and> srtmState s \<noteq> APP_SRTM_StateReboot"
  by (rule connection_comes_up) (simp_all add: clear_from_start_def queue_clear_def srtm_evaluate)

section \<open>Runs with interference\<close>

text \<open>A reset that is reported before the connection was ever set up fails an assertion of the monitor.\<close>

lemma reset_before_start_asserts:
  "and_then (srtm_boot monitor i2c) (srtm_run keeps [Power True SCMI_SYS_STATE_WARM_RESET, Monitor ok up irq])
    = Inl Assert_Failed"
  by (simp add: srtm_boot_def APP_SRTM_Init_def monitor_start_def APP_SRTM_InitServices_def APP_SRTM_StartCommunication_def
      APP_SRTM_HandleLmmPowerChange_def APP_SRTM_OtherSideResetHandler_def monitor_round_def)

text \<open>
  A second reset that is reported while the monitor still handles the first one is lost. The
  state is set back over it, and the next round of the monitor, though signalled, does nothing:
  the connection set up before the second reset is kept.
\<close>

lemma reset_during_restore_lost:
  assumes "alive s" "srtmState s = APP_SRTM_StateReboot" "\<not> keeps \<or> posted s = 0"
  shows "\<exists>s'. monitor_round keeps True up True s = Inr s' \<and> mon_sig s' \<and> srtmState s' = APP_SRTM_StateRun
    \<and> monitor_round keeps True up' False s' = Inr (s'\<lparr>mon_sig := False\<rparr>)"
proof -
  have a: "consistent True s" "rpmsgHandle s \<noteq> None" "state s = APP_SRTM_StateRun" "mon_sig s"
    using assms by (simp_all add: alive_def)
  obtain s2 where s2: "APP_SRTM_InitPeerCore True up
        (call [MU_Init] (APP_SRTM_DeinitPeerCore (dispatcher_stop keeps (s\<lparr>mon_sig := False\<rparr>)))) = Inr s2"
    "consistent False s2" "state s2 = state s"
    using reboot_init [OF a(1,2) assms(3), of up] by blast
  note r = reset_result [OF s2(2)]
  have m: "monitor_round keeps True up True s = Inr (call [Dispatcher_Start]
      ((APP_SRTM_HandleLmmPowerChange True SCMI_SYS_STATE_WARM_RESET s2)\<lparr>srtmState := APP_SRTM_StateRun\<rparr>))"
    using a assms(2) s2(1) by (simp add: monitor_round_def)
  show ?thesis
    by (rule exI, rule conjI [OF m]) (use a(3) s2(3) r in \<open>simp add: monitor_round_def Let_def\<close>)
qed

text \<open>A poll that finds the link overwrites a reset that is reported in the middle of it: the link of before is set up.\<close>

lemma reset_during_poll_lost:
  assumes "srtmState s = APP_SRTM_StateRun" "consistent True s"
  shows "srtmState (APP_SRTM_PollLinkup True True s) = APP_SRTM_StateLinkedUp
    \<and> rpmsgHandle (APP_SRTM_PollLinkup True True s) = rpmsgHandle s"
  using assms reset_result(5) [OF assms(2)] by (simp add: APP_SRTM_PollLinkup_def)

text \<open>
  If the procedure cannot be created when the timer runs out, nothing polls for the link any more:
  without a reset of the other side there is never a peer core, however often the link is up.
\<close>

definition stuck :: "srtm \<Rightarrow> bool" where
  "stuck s \<longleftrightarrow> core s = None \<and> \<not> linkupTimer s \<and> posted s = 0 \<and> srtmState s = APP_SRTM_StateRun \<and> state s = APP_SRTM_StateRun"

fun no_reset :: "srtm_event \<Rightarrow> bool" where
  "no_reset (Power a55 fl) \<longleftrightarrow> \<not> (a55 \<and> fl = SCMI_SYS_STATE_WARM_RESET)"
| "no_reset e \<longleftrightarrow> True"

lemma stuck_step: "stuck s \<Longrightarrow> no_reset e \<Longrightarrow> \<exists>s'. srtm_step keeps e s = Inr s' \<and> stuck s'"
  by (cases e) (auto simp: stuck_def monitor_round_def APP_SRTM_HandleLmmPowerChange_def)

lemma stuck_run: "stuck s \<Longrightarrow> list_all no_reset es \<Longrightarrow> \<exists>s'. srtm_run keeps es s = Inr s' \<and> stuck s'"
proof (induction es arbitrary: s)
  case (Cons e es)
  then obtain s1 where "srtm_step keeps e s = Inr s1" "stuck s1" using stuck_step [of s e keeps] by auto
  then show ?case using Cons by simp
qed simp

lemma lost_poll_never_links:
  assumes "alive s" "linkupTimer s" "srtmState s = APP_SRTM_StateRun" "list_all no_reset es"
  shows "\<exists>s'. srtm_run keeps (Timer False # es) s = Inr s' \<and> core s' = None"
proof -
  have "stuck (s\<lparr>linkupTimer := False\<rparr>)" using assms by (auto simp: alive_def stuck_def)
  from stuck_run [OF this assms(4)] show ?thesis
    using assms(2) by (auto simp: APP_LinkupTimerCallback_def stuck_def)
qed

text \<open>
  If stopping the dispatcher keeps what is in its queue, a poll from before a reset is run after
  it, and a second peer core is made while the first is there: the calls leave the protocol.
\<close>

lemma kept_poll_breaks_protocol:
  "\<exists>s. and_then (srtm_started True False i2c False)
      (srtm_run True [Timer True, Power True SCMI_SYS_STATE_WARM_RESET, Monitor True True False,
                      Dispatch True False, Monitor True True False]) = Inr s
    \<and> protocol_run (calls s) (False, None, None) = None"
  by (cases i2c) (simp_all add: srtm_evaluate)

end
