(* ===== verification/Zephyr_Echo.thy ===== *)
theory Zephyr_Echo
  imports Prelude "HOL-Library.Multiset"
begin


text \<open>
  The string echo on Zephyr, \<open>src/apps/rpmsg_str_echo/zephyr/main.c\<close>. The library hands a message to a callback
  of its endpoint, which keeps the buffer, notes it in the one slot of the endpoint and wakes the
  task of the endpoint; the task sends the message back and releases the buffer. Interrupts of the
  mailbox wake a task that tells the library which ring changed. The libraries (OpenAMP, libmetal,
  the mailbox driver) are what they are asked, in order, and what they answer.
\<close>

section \<open>Messages\<close>

text \<open>A buffer is a number; \<open>content\<close> is what the library wrote to it.\<close>

record zept =
  msg_addr :: "nat option"
  msg_len :: nat
  data_sem :: bool

record zecho =
  epts :: "zept list"
  held :: "nat list"
  sent :: "(nat \<times> u8 list) list"
  notify_sem :: bool
  notify_msg :: u32
  notified :: "u32 list"

definition zept_new :: zept where
  "zept_new = \<lparr>msg_addr = None, msg_len = 0, data_sem = False\<rparr>"

definition rpmsg_ept_priv_setup :: "nat \<Rightarrow> zecho" where
  "rpmsg_ept_priv_setup n =
     \<lparr>epts = replicate n zept_new, held = [], sent = [], notify_sem = False, notify_msg = 0, notified = []\<rparr>"

definition rpmsg_ept_recv_callback :: "nat \<Rightarrow> nat \<Rightarrow> nat \<Rightarrow> zecho \<Rightarrow> zecho outcome" where
  "rpmsg_ept_recv_callback i buf len s =
     and_then (arr_set (epts s) i \<lparr>msg_addr = Some buf, msg_len = len, data_sem = True\<rparr>) (\<lambda>es.
       Inr (s\<lparr>epts := es, held := held s @ [buf]\<rparr>))"

text \<open>
  A round of the task of endpoint \<open>i\<close>, which waits unless it was woken. The message is copied to 512 bytes and
  ended with a zero; \<open>content\<close> has at least as many bytes as the library said.
\<close>

definition zephyr_ept_round :: "(nat \<Rightarrow> u8 list) \<Rightarrow> nat \<Rightarrow> zecho \<Rightarrow> zecho outcome" where
  "zephyr_ept_round content i s =
     and_then (arr_get (epts s) i) (\<lambda>e.
     if \<not> data_sem e then Inr s
     else
       let s1 = s\<lparr>epts := (epts s)[i := zept_new]\<rparr>
       in if msg_len e = 0 then Inr s1
          else case msg_addr e of
            None \<Rightarrow> Inl Null_Deref
          | Some buf \<Rightarrow>
              if length (content buf) < msg_len e \<or> 512 \<le> msg_len e then Inl Out_Of_Bounds
              else Inr (s1\<lparr>sent := sent s @ [(i, take (msg_len e) (content buf))], held := remove1 buf (held s)\<rparr>))"

text \<open>The interrupt of the mailbox, with its word if it has one, and a round of the task behind it.\<close>

definition ipm_callback :: "u32 option \<Rightarrow> zecho \<Rightarrow> zecho" where
  "ipm_callback data s = (case data of None \<Rightarrow> s | Some w \<Rightarrow> s\<lparr>notify_msg := w\<rparr>)\<lparr>notify_sem := True\<rparr>"

definition rpmsg_notify_round :: "zecho \<Rightarrow> zecho" where
  "rpmsg_notify_round s =
     (if notify_sem s then s\<lparr>notify_sem := False, notified := notified s @ [drop_bit 16 (notify_msg s)]\<rparr> else s)"

definition rpmsg_notify_callback :: "u32 \<Rightarrow> u32" where
  "rpmsg_notify_callback vring = push_bit 16 vring"

section \<open>One message at a time\<close>

datatype echo_event = Recv nat nat nat | Task nat

fun echo_run :: "(nat \<Rightarrow> u8 list) \<Rightarrow> echo_event list \<Rightarrow> zecho \<Rightarrow> zecho outcome" where
  "echo_run content [] s = Inr s"
| "echo_run content (Recv i buf len # es) s = and_then (rpmsg_ept_recv_callback i buf len s) (echo_run content es)"
| "echo_run content (Task i # es) s = and_then (zephyr_ept_round content i s) (echo_run content es)"

text \<open>
  No message comes to an endpoint whose last one still waits; \<open>pend\<close> says which wait. Messages fit
  into the copy and have the bytes they claim.
\<close>

fun paced :: "(nat \<Rightarrow> u8 list) \<Rightarrow> nat \<Rightarrow> (nat \<Rightarrow> (nat \<times> nat) option) \<Rightarrow> echo_event list \<Rightarrow> bool" where
  "paced content n pend [] \<longleftrightarrow> True"
| "paced content n pend (Recv i buf len # es) \<longleftrightarrow>
     i < n \<and> pend i = None \<and> 0 < len \<and> len < 512 \<and> len \<le> length (content buf)
     \<and> paced content n (pend(i \<mapsto> (buf, len))) es"
| "paced content n pend (Task i # es) \<longleftrightarrow> i < n \<and> paced content n (pend(i := None)) es"

text \<open>The messages an endpoint is handed and what it sends back.\<close>

definition messages_for :: "(nat \<Rightarrow> u8 list) \<Rightarrow> nat \<Rightarrow> echo_event list \<Rightarrow> u8 list list" where
  "messages_for content i es = concat (map (\<lambda>e. case e of Recv j buf len \<Rightarrow> if j = i then [take len (content buf)] else [] | Task j \<Rightarrow> []) es)"

definition echoed :: "nat \<Rightarrow> zecho \<Rightarrow> u8 list list" where
  "echoed i s = map snd (filter (\<lambda>x. fst x = i) (sent s))"

definition waiting :: "(nat \<Rightarrow> u8 list) \<Rightarrow> nat \<Rightarrow> zecho \<Rightarrow> u8 list list" where
  "waiting content i s = (case epts s ! i of e \<Rightarrow>
     if data_sem e then case msg_addr e of Some b \<Rightarrow> [take (msg_len e) (content b)] | None \<Rightarrow> [] else [])"

definition pending_of :: "zecho \<Rightarrow> nat \<Rightarrow> (nat \<times> nat) option" where
  "pending_of s i = (if i < length (epts s) \<and> data_sem (epts s ! i)
     then map_option (\<lambda>b. (b, msg_len (epts s ! i))) (msg_addr (epts s ! i)) else None)"

text \<open>The buffers that are held are those of the messages that wait.\<close>

definition held_ok :: "zecho \<Rightarrow> bool" where
  "held_ok s \<longleftrightarrow> mset (held s) = mset (concat (map (\<lambda>e. if data_sem e then (case msg_addr e of Some b \<Rightarrow> [b] | None \<Rightarrow> []) else []) (epts s)))"

definition slots_ok :: "(nat \<Rightarrow> u8 list) \<Rightarrow> zecho \<Rightarrow> bool" where
  "slots_ok content s \<longleftrightarrow> list_all (\<lambda>e. data_sem e \<longrightarrow>
     (\<exists>b. msg_addr e = Some b \<and> 0 < msg_len e \<and> msg_len e < 512 \<and> msg_len e \<le> length (content b))) (epts s)"

lemma concat_update_mset:
  "i < length xs \<Longrightarrow> mset (concat (map f (xs[i := y]))) + mset (f (xs ! i)) = mset (concat (map f xs)) + mset (f y)"
  by (induction xs arbitrary: i) (auto split: nat.splits)

abbreviation slot_buffers :: "zept \<Rightarrow> nat list" where
  "slot_buffers e \<equiv> (if data_sem e then case msg_addr e of Some b \<Rightarrow> [b] | None \<Rightarrow> [] else [])"

text \<open>What a step says about one endpoint and leaves alone at the others.\<close>

lemma slots_nth: "slots_ok content s \<Longrightarrow> i < length (epts s) \<Longrightarrow> data_sem (epts s ! i) \<Longrightarrow>
    \<exists>b. msg_addr (epts s ! i) = Some b \<and> 0 < msg_len (epts s ! i) \<and> msg_len (epts s ! i) < 512
      \<and> msg_len (epts s ! i) \<le> length (content b)"
  by (simp add: slots_ok_def list_all_length)

lemma slots_update:
  "slots_ok content s \<Longrightarrow> data_sem e \<longrightarrow> (\<exists>b. msg_addr e = Some b \<and> 0 < msg_len e \<and> msg_len e < 512 \<and> msg_len e \<le> length (content b))
    \<Longrightarrow> slots_ok content (s\<lparr>epts := (epts s)[i := e]\<rparr>)"
  by (auto simp: slots_ok_def list_all_iff dest!: set_update_subset_insert [THEN subsetD])

lemma recv_step:
  assumes "slots_ok content s" "held_ok s" "i < length (epts s)" "pending_of s i = None"
    and "0 < len" "len < 512" "len \<le> length (content buf)"
  defines "s' \<equiv> s\<lparr>epts := (epts s)[i := \<lparr>msg_addr = Some buf, msg_len = len, data_sem = True\<rparr>], held := held s @ [buf]\<rparr>"
  shows "rpmsg_ept_recv_callback i buf len s = Inr s'" "slots_ok content s'" "held_ok s'"
    "pending_of s' = (pending_of s)(i \<mapsto> (buf, len))"
    "j < length (epts s) \<Longrightarrow> echoed j s' @ waiting content j s' = echoed j s @ waiting content j s
       @ (if j = i then [take len (content buf)] else [])"
proof -
  have free: "\<not> data_sem (epts s ! i)"
    using slots_nth [OF assms(1,3)] assms(3,4) by (auto simp: pending_of_def)
  show "rpmsg_ept_recv_callback i buf len s = Inr s'"
    using assms(3) by (simp add: rpmsg_ept_recv_callback_def s'_def)
  have "slots_ok content (s\<lparr>epts := (epts s)[i := \<lparr>msg_addr = Some buf, msg_len = len, data_sem = True\<rparr>]\<rparr>)"
    by (rule slots_update [OF assms(1)]) (use assms(5-7) in simp)
  then show "slots_ok content s'" by (simp add: slots_ok_def s'_def)
  show "held_ok s'"
    using assms(2) free concat_update_mset [OF assms(3), of slot_buffers "\<lparr>msg_addr = Some buf, msg_len = len, data_sem = True\<rparr>"]
    by (simp add: held_ok_def s'_def)
  show "pending_of s' = (pending_of s)(i \<mapsto> (buf, len))"
    using assms(3) by (auto simp: pending_of_def s'_def nth_list_update)
  show "echoed j s' @ waiting content j s' = echoed j s @ waiting content j s
       @ (if j = i then [take len (content buf)] else [])" if "j < length (epts s)"
    using that free by (auto simp: echoed_def waiting_def s'_def nth_list_update split: option.splits)
qed

lemma task_step:
  assumes "slots_ok content s" "held_ok s" "i < length (epts s)"
  shows "\<exists>s'. zephyr_ept_round content i s = Inr s' \<and> slots_ok content s' \<and> held_ok s' \<and> length (epts s') = length (epts s)
    \<and> pending_of s' = (pending_of s)(i := None)
    \<and> (\<forall>j < length (epts s). echoed j s' @ waiting content j s' = echoed j s @ waiting content j s)"
proof (cases "data_sem (epts s ! i)")
  case False
  then have "zephyr_ept_round content i s = Inr s" using assms(3) by (simp add: zephyr_ept_round_def)
  moreover have "pending_of s = (pending_of s)(i := None)" using False by (auto simp: pending_of_def)
  ultimately show ?thesis using assms by metis
next
  case True
  obtain b where b: "msg_addr (epts s ! i) = Some b" "0 < msg_len (epts s ! i)" "msg_len (epts s ! i) < 512"
    "msg_len (epts s ! i) \<le> length (content b)"
    using slots_nth [OF assms(1,3) True] by blast
  define s' where "s' = s\<lparr>epts := (epts s)[i := zept_new], sent := sent s @ [(i, take (msg_len (epts s ! i)) (content b))],
    held := remove1 b (held s)\<rparr>"
  have "zephyr_ept_round content i s = Inr s'"
    using assms(3) True b by (simp add: zephyr_ept_round_def s'_def)
  moreover have "slots_ok content s'"
  proof -
    have "slots_ok content (s\<lparr>epts := (epts s)[i := zept_new]\<rparr>)"
      by (rule slots_update [OF assms(1)]) (simp add: zept_new_def)
    then show ?thesis by (simp add: slots_ok_def s'_def)
  qed
  moreover have "held_ok s'"
  proof -
    have "mset (concat (map slot_buffers (epts s'))) + {#b#} = mset (concat (map slot_buffers (epts s)))"
      using concat_update_mset [OF assms(3), of slot_buffers zept_new] True b by (simp add: s'_def zept_new_def)
    then have "mset (held s) - {#b#} = mset (concat (map slot_buffers (epts s')))"
      using assms(2) unfolding held_ok_def by (metis add_diff_cancel_right')
    then show ?thesis by (simp add: held_ok_def s'_def)
  qed
  moreover have "pending_of s' = (pending_of s)(i := None)"
    by (rule ext) (auto simp: pending_of_def s'_def nth_list_update zept_new_def)
  moreover have "echoed j s' @ waiting content j s' = echoed j s @ waiting content j s" if "j < length (epts s)" for j
    using that True b by (auto simp: echoed_def waiting_def s'_def nth_list_update zept_new_def split: option.splits)
  ultimately show ?thesis by (intro exI [of _ s']) (simp add: s'_def)
qed

lemma messages_for_Cons [simp]:
  "messages_for content i (Recv j buf len # es) = (if j = i then [take len (content buf)] else []) @ messages_for content i es"
  "messages_for content i (Task j # es) = messages_for content i es"
  "messages_for content i [] = []"
  by (simp_all add: messages_for_def)

lemma paced_run:
  assumes "slots_ok content s" "held_ok s" "paced content (length (epts s)) (pending_of s) es"
  shows "\<exists>s'. echo_run content es s = Inr s' \<and> slots_ok content s' \<and> held_ok s' \<and> length (epts s') = length (epts s)
    \<and> (\<forall>i < length (epts s). echoed i s' @ waiting content i s' = echoed i s @ waiting content i s @ messages_for content i es)"
  using assms
proof (induction es arbitrary: s)
  case (Cons e es)
  show ?case
  proof (cases e)
    case (Recv i buf len)
    have r: "i < length (epts s)" "pending_of s i = None" "0 < len" "len < 512" "len \<le> length (content buf)"
      "paced content (length (epts s)) ((pending_of s)(i \<mapsto> (buf, len))) es"
      using Cons.prems(3) Recv by simp_all
    note st = recv_step [OF Cons.prems(1,2) r(1-5)]
    let ?s = "s\<lparr>epts := (epts s)[i := \<lparr>msg_addr = Some buf, msg_len = len, data_sem = True\<rparr>], held := held s @ [buf]\<rparr>"
    have l: "length (epts ?s) = length (epts s)" by simp
    obtain s' where s': "echo_run content es ?s = Inr s'" "slots_ok content s'" "held_ok s'" "length (epts s') = length (epts s)"
      "\<forall>j < length (epts s). echoed j s' @ waiting content j s' = echoed j ?s @ waiting content j ?s @ messages_for content j es"
      using Cons.IH [OF st(2,3)] r(6) st(4) l by (metis (no_types, lifting))
    have "echoed j s' @ waiting content j s' = echoed j s @ waiting content j s @ messages_for content j (e # es)"
      if "j < length (epts s)" for j
      using s'(5) that st(5) [OF that] Recv by (simp del: append_assoc add: append_assoc [symmetric])
    then show ?thesis using s' st(1) Recv by simp
  next
    case (Task i)
    obtain s1 where s1: "zephyr_ept_round content i s = Inr s1" "slots_ok content s1" "held_ok s1" "length (epts s1) = length (epts s)"
      "pending_of s1 = (pending_of s)(i := None)"
      "\<forall>j < length (epts s). echoed j s1 @ waiting content j s1 = echoed j s @ waiting content j s"
      using task_step [OF Cons.prems(1,2)] Cons.prems(3) Task by auto
    have "paced content (length (epts s1)) (pending_of s1) es" using Cons.prems(3) Task s1(4,5) by simp
    from Cons.IH [OF s1(2,3) this] obtain s' where s': "echo_run content es s1 = Inr s'" "slots_ok content s'" "held_ok s'"
      "length (epts s') = length (epts s1)"
      "\<forall>j < length (epts s1). echoed j s' @ waiting content j s' = echoed j s1 @ waiting content j s1 @ messages_for content j es"
      by blast
    have "echoed j s' @ waiting content j s' = echoed j s @ waiting content j s @ messages_for content j (e # es)"
      if "j < length (epts s)" for j
    proof -
      have "echoed j s' @ waiting content j s' = (echoed j s1 @ waiting content j s1) @ messages_for content j es"
        using s'(5) that s1(4) by simp
      then show ?thesis using s1(6) that Task by simp
    qed
    then show ?thesis using s' s1(1,4) Task by simp
  qed
qed simp

text \<open>
  paced messages are echoed. If no message comes to an endpoint before its task has taken the
  last one, nothing faults, each endpoint has sent back the messages it was handed, in order and
  unchanged, but for one that may still wait, and the library is owed exactly the buffers of the
  messages that wait.
\<close>

theorem paced_messages_echoed:
  assumes "paced content n (\<lambda>i. None) es"
  shows "\<exists>s. echo_run content es (rpmsg_ept_priv_setup n) = Inr s
    \<and> (\<forall>i < n. echoed i s @ waiting content i s = messages_for content i es)
    \<and> mset (held s) = mset (concat (map slot_buffers (epts s)))"
proof -
  let ?s = "rpmsg_ept_priv_setup n"
  have l: "length (epts ?s) = n" by (simp add: rpmsg_ept_priv_setup_def)
  have ok: "slots_ok content ?s" by (simp add: slots_ok_def list_all_iff rpmsg_ept_priv_setup_def zept_new_def)
  have h: "held_ok ?s" by (simp add: held_ok_def rpmsg_ept_priv_setup_def zept_new_def)
  have "pending_of ?s = (\<lambda>i. None)" by (auto simp: pending_of_def rpmsg_ept_priv_setup_def zept_new_def)
  then have "paced content (length (epts ?s)) (pending_of ?s) es" using assms l by simp
  moreover have "echoed i ?s = []" "waiting content i ?s = []" if "i < n" for i
    using that by (simp_all add: echoed_def waiting_def rpmsg_ept_priv_setup_def zept_new_def)
  ultimately show ?thesis using paced_run [OF ok h, of es] l unfolding held_ok_def by auto
qed

theorem paced_messages_echoed_witness:
  "\<exists>s. echo_run (\<lambda>b. [1, 2, of_nat b]) [Recv 0 7 3, Recv 1 8 2, Task 0, Recv 0 9 1] (rpmsg_ept_priv_setup 2) = Inr s
    \<and> echoed 0 s @ waiting (\<lambda>b. [1, 2, of_nat b]) 0 s = [[1, 2, 7], [1]]
    \<and> mset (held s) = mset (concat (map slot_buffers (epts s)))"
  using paced_messages_echoed [of "\<lambda>b. [1, 2, of_nat b]" 2 "[Recv 0 7 3, Recv 1 8 2, Task 0, Recv 0 9 1]"]
  by auto

section \<open>Bursts\<close>

text \<open>
  The endpoint has one slot. A message that comes before the last one is taken replaces it: the
  first is never echoed and its buffer never goes back to the library.
\<close>

lemma burst_loses_message:
  assumes "i < length (epts s)" "b1 \<noteq> b2" "b1 \<notin> set (held s)" "b2 \<notin> set (held s)"
    and "0 < len2" "len2 < 512" "len2 \<le> length (content b2)"
  shows "\<exists>s'. echo_run content [Recv i b1 len1, Recv i b2 len2, Task i, Task i] s = Inr s'
    \<and> sent s' = sent s @ [(i, take len2 (content b2))] \<and> b1 \<in> set (held s') \<and> \<not> data_sem (epts s' ! i)"
  using assms by (simp add: rpmsg_ept_recv_callback_def zephyr_ept_round_def zept_new_def remove1_append)

text \<open>An empty message wakes the task, which does not release its buffer.\<close>

lemma empty_message_keeps_buffer:
  assumes "i < length (epts s)"
  shows "\<exists>s'. echo_run content [Recv i b 0, Task i] s = Inr s' \<and> sent s' = sent s \<and> held s' = held s @ [b]"
  using assms by (simp add: rpmsg_ept_recv_callback_def zephyr_ept_round_def)

text \<open>The word of the mailbox names the ring in its upper half, as the other side writes it.\<close>

lemma notified_ring:
  assumes "vring < 0x10000"
  shows "notified (rpmsg_notify_round (ipm_callback (Some (rpmsg_notify_callback vring)) s)) = notified s @ [vring]"
proof -
  have "drop_bit 16 (push_bit 16 vring) = vring"
  proof (rule bit_word_eqI)
    fix n assume "n < LENGTH(32)"
    have "\<not> bit vring n" if "16 \<le> n"
    proof -
      have "take_bit 16 vring = vring" using assms by (simp add: word_unat_eq_iff unsigned_take_bit_eq take_bit_nat_eq_self word_less_nat_alt)
      then show ?thesis using that by (metis bit_take_bit_iff not_le)
    qed
    then show "bit (drop_bit 16 (push_bit 16 vring)) n = bit vring n"
      using \<open>n < LENGTH(32)\<close> by (cases "n < 16") (auto simp: bit_simps)
  qed
  then show ?thesis by (simp add: rpmsg_notify_round_def ipm_callback_def rpmsg_notify_callback_def)
qed

text \<open>Two interrupts before the task runs are one: of two rings only the second is looked at.\<close>

lemma notification_lost:
  "let s' = rpmsg_notify_round (rpmsg_notify_round (ipm_callback (Some v2) (ipm_callback (Some v1) s)))
   in notified s' = notified s @ [drop_bit 16 v2] \<and> \<not> notify_sem s'"
  by (simp add: rpmsg_notify_round_def ipm_callback_def)

section \<open>Set-up\<close>

text \<open>What the libraries are asked during the set-up, and what they answer.\<close>

datatype zsetup_call =
    Metal_Init | Ipm_Register | Ipm_Enable bool | Create_Vdev | Wait_Remote | Init_Vring nat | Init_Vdev | Remove_Vdev
  | Create_Ept nat | Create_Ept_Thread nat | Create_Notify_Thread | Deinit_Vdev | Metal_Finish

record zanswers =
  za_metal :: bool
  za_ready :: bool
  za_enabled :: bool
  za_vdev :: bool
  za_vring0 :: bool
  za_vring1 :: bool
  za_rpmsg :: bool
  za_epts :: "bool list"

definition platform_init :: "zanswers \<Rightarrow> bool \<times> zsetup_call list" where
  "platform_init a =
     (if \<not> za_metal a then (False, [Metal_Init])
      else if \<not> za_ready a then (False, [Metal_Init])
      else (za_enabled a, [Metal_Init, Ipm_Register, Ipm_Enable True]))"

definition platform_create_rpmsg_vdev :: "zanswers \<Rightarrow> bool \<times> zsetup_call list" where
  "platform_create_rpmsg_vdev a =
     (if \<not> za_vdev a then (False, [Create_Vdev])
      else if \<not> za_vring0 a then (False, [Create_Vdev, Wait_Remote, Init_Vring 0, Remove_Vdev])
      else if \<not> za_vring1 a then (False, [Create_Vdev, Wait_Remote, Init_Vring 0, Init_Vring 1, Remove_Vdev])
      else if \<not> za_rpmsg a then (False, [Create_Vdev, Wait_Remote, Init_Vring 0, Init_Vring 1, Init_Vdev, Remove_Vdev])
      else (True, [Create_Vdev, Wait_Remote, Init_Vring 0, Init_Vring 1, Init_Vdev]))"

definition rpmsg_deinit_calls :: "zsetup_call list" where
  "rpmsg_deinit_calls = [Ipm_Enable False, Deinit_Vdev, Metal_Finish]"

fun create_endpoints :: "nat \<Rightarrow> bool list \<Rightarrow> bool \<times> zsetup_call list" where
  "create_endpoints i [] = (True, [])"
| "create_endpoints i (ok # oks) =
     (if \<not> ok then (False, [Create_Ept i])
      else let (r, cs) = create_endpoints (i + 1) oks in (r, [Create_Ept i, Create_Ept_Thread i] @ cs))"

definition zephyr_init_task :: "zanswers \<Rightarrow> bool \<times> zsetup_call list" where
  "zephyr_init_task a =
     (let (r1, c1) = platform_init a in if \<not> r1 then (False, c1 @ rpmsg_deinit_calls)
      else let (r2, c2) = platform_create_rpmsg_vdev a in if \<not> r2 then (False, c1 @ c2 @ rpmsg_deinit_calls)
      else let (r3, c3) = create_endpoints 0 (za_epts a) in if \<not> r3 then (False, c1 @ c2 @ c3 @ rpmsg_deinit_calls)
      else (True, c1 @ c2 @ c3 @ [Create_Notify_Thread]))"

lemma create_endpoints_calls:
  "create_endpoints i oks = (list_all id oks,
     concat (map (\<lambda>k. [Create_Ept k, Create_Ept_Thread k]) [i..<i + length (takeWhile id oks)])
     @ (if list_all id oks then [] else [Create_Ept (i + length (takeWhile id oks))]))"
  by (induction oks arbitrary: i) (auto simp: upt_conv_Cons simp del: upt_Suc)

lemma setup_succeeds_iff:
  "fst (zephyr_init_task a) \<longleftrightarrow> za_metal a \<and> za_ready a \<and> za_enabled a \<and> za_vdev a \<and> za_vring0 a \<and> za_vring1 a \<and> za_rpmsg a
     \<and> list_all id (za_epts a)"
  by (simp add: zephyr_init_task_def platform_init_def platform_create_rpmsg_vdev_def create_endpoints_calls)

text \<open>A ring that cannot be set up removes the device, and the device is then taken down once more, though it was never initialised.\<close>

lemma failed_vring_deinits_twice:
  assumes "za_metal a" "za_ready a" "za_enabled a" "za_vdev a" "\<not> za_vring0 a"
  shows "zephyr_init_task a = (False, [Metal_Init, Ipm_Register, Ipm_Enable True, Create_Vdev, Wait_Remote, Init_Vring 0, Remove_Vdev,
      Ipm_Enable False, Deinit_Vdev, Metal_Finish])"
  using assms by (simp add: zephyr_init_task_def platform_init_def platform_create_rpmsg_vdev_def rpmsg_deinit_calls_def)

text \<open>An endpoint that cannot be created takes the device down under the tasks of the endpoints before it.\<close>

lemma failed_endpoint_leaves_tasks:
  assumes "za_metal a" "za_ready a" "za_enabled a" "za_vdev a" "za_vring0 a" "za_vring1 a" "za_rpmsg a" "za_epts a = [True, False]"
  shows "\<exists>cs. zephyr_init_task a = (False, cs) \<and> Create_Ept_Thread 0 \<in> set cs \<and> Deinit_Vdev \<in> set cs"
  using assms by (simp add: zephyr_init_task_def platform_init_def platform_create_rpmsg_vdev_def rpmsg_deinit_calls_def)

end
