(* ===== verification/Small_Apps.thy ===== *)
theory Small_Apps
  imports Prelude
begin


text \<open>
  Two small programs: the host side of the throughput test, \<open>src/tools/rpmsg_perf/rpmsg_perf.c\<close>, and the control
  task of the EtherCAT digital I/O application, \<open>src/apps/soem_digital_io/freertos/main.c\<close>. The driver of the
  host and the EtherCAT library are parameters; the programs are what they ask of them.
\<close>

section \<open>The host of a throughput test\<close>

text \<open>The fields of the header that are set; the driver fills in the others.\<close>

record host_header =
  hh_no_copy :: bool
  hh_packet_size :: u32
  hh_test_time :: u32

datatype host_call = Open_Dev | As_Sender host_header | As_Receiver host_header | Usleep u32 | Receiver_End_Ack host_header | Get_Status | Close_Dev

text \<open>The status is asked for until it is idle; \<open>busy\<close> are the answers, none left is a loop that goes on.\<close>

fun wait_idle :: "bool list \<Rightarrow> host_call list outcome" where
  "wait_idle [] = Inl Diverges"
| "wait_idle (busy # bs) =
     (if busy then and_then (wait_idle bs) (\<lambda>cs. Inr (Get_Status # Usleep 100000 # cs)) else Inr [Get_Status])"

text \<open>
  \<open>main\<close>: the number of arguments, whether the device opens, the switches, and what \<open>atoi\<close> makes of size and
  time. Errors of the driver are only printed.
\<close>

definition perf_host_main ::
    "nat \<Rightarrow> bool \<Rightarrow> bool \<Rightarrow> bool \<Rightarrow> int \<Rightarrow> int \<Rightarrow> bool list \<Rightarrow> (int \<times> host_call list) outcome" where
  "perf_host_main argc opened as_sender no_copy size_arg time_arg busy =
     (if argc \<noteq> 6 then Inr (1, [])
      else if \<not> opened then Inr (1, [Open_Dev])
      else
        let packet_size = (word_of_int size_arg :: u32); time = (word_of_int time_arg :: u32);
            time = (if time \<le> 0 then 60 else time);
            hdr = \<lparr>hh_no_copy = no_copy, hh_packet_size = packet_size, hh_test_time = time\<rparr>
        in if 496 < packet_size \<or> packet_size \<le> 0 then Inr (1, [Open_Dev])
           else and_then (wait_idle busy) (\<lambda>cs.
             Inr (0, [Open_Dev]
               @ (if as_sender then [As_Sender hdr] else [As_Receiver hdr, Usleep (time * 1000 * 1000), Receiver_End_Ack hdr])
               @ cs @ [Close_Dev])))"

lemma wait_idle_ends: "False \<in> set busy \<Longrightarrow> \<exists>cs. wait_idle busy = Inr cs"
  by (induction busy) auto

text \<open>A receiver of less than 4295 seconds is ended after the time that was asked for.\<close>

lemma unat_word_of_int_below: "0 \<le> x \<Longrightarrow> x < 2 ^ 32 \<Longrightarrow> unat (word_of_int x :: u32) = nat x"
proof -
  assume x: "0 \<le> x" "x < 2 ^ 32"
  have "word_of_int x = (of_nat (nat x) :: u32)" using x(1) by (simp add: of_nat_nat)
  moreover have "nat x < 4294967296" using x by simp
  ultimately show ?thesis by simp
qed

lemma receiver_ends_in_time:
  fixes no_copy size_arg time_arg
  defines "hdr \<equiv> \<lparr>hh_no_copy = no_copy, hh_packet_size = word_of_int size_arg, hh_test_time = word_of_int time_arg\<rparr>"
  assumes "0 < size_arg" "size_arg \<le> 496" "0 < time_arg" "time_arg < 4295" "False \<in> set busy"
  shows "\<exists>t cs. perf_host_main 6 True False no_copy size_arg time_arg busy
      = Inr (0, [Open_Dev, As_Receiver hdr, Usleep t, Receiver_End_Ack hdr] @ cs @ [Close_Dev])
    \<and> unat t = nat time_arg * 1000000"
proof -
  have u: "unat (word_of_int size_arg :: u32) = nat size_arg" "unat (word_of_int time_arg :: u32) = nat time_arg"
    using assms by (simp_all add: unat_word_of_int_below)
  obtain cs where cs: "wait_idle busy = Inr cs" using wait_idle_ends [OF assms(6)] by blast
  have "unat (word_of_int time_arg * 1000000 :: u32) = nat time_arg * 1000000"
    using assms(4,5) by (simp add: unat_word_ariths(2) u nat_less_iff)
  moreover have "(word_of_int time_arg * 1000 * 1000 :: u32) = word_of_int time_arg * 1000000" by simp
  moreover have "\<not> (word_of_int time_arg :: u32) \<le> 0" "\<not> (496 :: u32) < word_of_int size_arg" "\<not> (word_of_int size_arg :: u32) \<le> 0"
    using assms(2-5) u by (auto simp: word_less_nat_alt word_le_nat_alt)
  ultimately show ?thesis using cs by (simp add: perf_host_main_def hdr_def Let_def mult.commute)
qed

text \<open>
  The time in microseconds has 32 bits: a receiver of 4295 seconds is ended after
  33 milliseconds. A negative time is a very long one, not the default.
\<close>

lemma long_receiver_ends_at_once:
  "perf_host_main 6 True False no_copy 64 4295 [False] =
    (let hdr = \<lparr>hh_no_copy = no_copy, hh_packet_size = 64, hh_test_time = 4295\<rparr>
     in Inr (0, [Open_Dev, As_Receiver hdr, Usleep 32704, Receiver_End_Ack hdr, Get_Status, Close_Dev]))"
  by (simp add: perf_host_main_def Let_def)

lemma negative_time_not_default:
  "perf_host_main 6 True True no_copy 64 (- 1) [False] =
    Inr (0, [Open_Dev, As_Sender \<lparr>hh_no_copy = no_copy, hh_packet_size = 64, hh_test_time = 0xffffffff\<rparr>, Get_Status, Close_Dev])"
  by (simp add: perf_host_main_def Let_def)

section \<open>Digital inputs and outputs\<close>

datatype dio_call = Dio_Config_Map | Dio_Configdc | Dio_Wait_Safe | Dio_Send | Dio_Receive | Dio_Request_Op | Dio_Check | Dio_Take

text \<open>At most \<open>n\<close> further polls after the first; the loop is left when the slaves are operational.\<close>

fun dio_wait :: "(nat \<Rightarrow> bool) \<Rightarrow> nat \<Rightarrow> nat \<Rightarrow> bool \<times> dio_call list" where
  "dio_wait op k 0 = (op k, [Dio_Send, Dio_Receive, Dio_Check])"
| "dio_wait op k (Suc n) =
     (if op k then (True, [Dio_Send, Dio_Receive, Dio_Check])
      else let (r, cs) = dio_wait op (k + 1) n in (r, [Dio_Send, Dio_Receive, Dio_Check] @ cs))"

text \<open>The start, up to the cyclic loop: whether it is entered and whether the slaves are then operational.\<close>

definition dio_start :: "bool \<Rightarrow> int \<Rightarrow> (nat \<Rightarrow> bool) \<Rightarrow> bool \<times> bool \<times> dio_call list" where
  "dio_start init_ok config op =
     (if \<not> init_ok \<or> config \<le> 0 then (False, False, [])
      else let (r, cs) = dio_wait op 0 40
           in (True, r, [Dio_Config_Map, Dio_Configdc, Dio_Wait_Safe, Dio_Send, Dio_Receive, Dio_Request_Op] @ cs @ [Dio_Take, Dio_Send]))"

definition dio_cycle :: "nat \<Rightarrow> dio_call list" where
  "dio_cycle n = concat (replicate n [Dio_Receive, Dio_Send, Dio_Take])"

definition dio_control_task :: "bool \<Rightarrow> int \<Rightarrow> (nat \<Rightarrow> bool) \<Rightarrow> nat \<Rightarrow> dio_call list" where
  "dio_control_task init_ok config op n =
     (let (entered, _, cs) = dio_start init_ok config op in cs @ (if entered then dio_cycle n else []))"

lemma dio_wait_iff: "fst (dio_wait op k n) \<longleftrightarrow> (\<exists>j \<le> n. op (k + j))"
proof (induction n arbitrary: k)
  case (Suc n)
  have "(\<exists>j \<le> Suc n. op (k + j)) \<longleftrightarrow> op k \<or> (\<exists>j \<le> n. op (Suc k + j))"
    by (metis Suc_le_mono add_0_right add_Suc_shift not0_implies_Suc zero_le)
  then show ?case using Suc [of "Suc k"] by (simp add: split_beta Let_def)
qed simp

text \<open>The cyclic exchange begins whether or not the slaves became operational within 41 polls.\<close>

lemma exchange_begins_anyway:
  assumes "init_ok" "0 < config"
  shows "\<exists>cs. dio_start init_ok config op = (True, \<exists>j \<le> 40. op j, cs)"
  using assms dio_wait_iff [of op 0 40] by (auto simp: dio_start_def split: prod.splits)

text \<open>Every frame that is sent is received before the next one.\<close>

fun alternating :: "bool \<Rightarrow> dio_call list \<Rightarrow> bool" where
  "alternating out [] \<longleftrightarrow> True"
| "alternating out (Dio_Send # cs) \<longleftrightarrow> \<not> out \<and> alternating True cs"
| "alternating out (Dio_Receive # cs) \<longleftrightarrow> out \<and> alternating False cs"
| "alternating out (c # cs) \<longleftrightarrow> alternating out cs"

lemma alternating_wait: "alternating False (snd (dio_wait op k n) @ cs) \<longleftrightarrow> alternating False cs"
  by (induction n arbitrary: k) (simp_all add: split_beta Let_def)

lemma alternating_cycle: "alternating True (dio_cycle n)"
  by (induction n) (simp_all add: dio_cycle_def)

lemma frames_alternate: "alternating False (dio_control_task init_ok config op n)"
proof -
  obtain r cs where w: "dio_wait op 0 40 = (r, cs)" by fastforce
  have "alternating False (cs @ Dio_Take # Dio_Send # dio_cycle n)"
    using alternating_wait [of op 0 40 "Dio_Take # Dio_Send # dio_cycle n"] w alternating_cycle by simp
  then show ?thesis by (simp add: dio_control_task_def dio_start_def w)
qed

end
