(* ===== verification/Spec2Isabelle.thy ===== *)
theory Spec2Isabelle
  imports Virtio_Trans Virtio_Net Ptp_Init Port_Enet Irq Virtio_Mailbox Stats Os_Counter Traj_Text Latency_Menu Rpmsg_Perf Ram_Console Netc_Share Srtm Zephyr_Echo Small_Apps
begin

text \<open>
  Verification of the real-time side of the heterogeneous multicore software: the services that run
  under FreeRTOS on one core of a processor and talk to an operating system on other cores.

  \<^bold>\<open>The program.\<close> A driver in the other system sees virtio devices. Their registers and queues lie
  in shared memory; an access to a register is a message of a software mailbox, which ends in the
  register callback of the transport. The device behind the transport is a transfer test device or a
  network device. The network device is a port of a virtual switch, which copies packets between its
  ports: the network device, ports of applications and a port for physical Ethernet or for the
  switch core of a TSN bridge (the PTP stack). Beside them stand RPMsg endpoints, a benchmark of
  interrupt latency over hardware timers, an EtherCAT servo application and the interrupt table of
  the Cortex-A ports.

  \<^bold>\<open>Theories and sources\<close> (below \<open>src/\<close>):
  \<^item> \<open>Prelude\<close>: outcomes (a value or a \<open>fault\<close>: assertion, null pointer, out of bounds, use after free,
    overflow, deadlock, divergence), array access, widths of C integers, shared lists and hints.
  \<^item> \<open>Virtio_Ring\<close>: \<open>virtio/devices/core.c\<close>, \<open>include/virtio/uapi/virtio_ring.h\<close>, \<open>include/common/iovec.h\<close>.
    Shared memory is one map per kind of object in it. The walk over a chain and the used ring are
    stated against the abstract chain and the list of used elements.
  \<^item> \<open>Virtio_Mmio\<close>: \<open>virtio/devices/mmio.c\<close>, the register callback, over any device: the operations of a
    device are a record of functions, the contract of a device with queues is the locale of the theory.
  \<^item> \<open>Virtio_Trans\<close>, \<open>Virtio_Net\<close>: \<open>virtio/devices/trans.c\<close> and \<open>network.c\<close>; their tasks are rounds of the
    task loops, the interpretation of the transport's locale is the device.
  \<^item> \<open>Data_Pkt\<close>, \<open>Net_Switch\<close>, \<open>Switch_Spec\<close>: \<open>net/data_pkt.c\<close>, \<open>net/net_switch.c\<close>. Packets are buffers on a
    heap; the specification of the switch is one function from a frame to the set of ports that get it.
  \<^item> \<open>Soft_Vport\<close>: \<open>net/port_software.c\<close>, ports of applications.
  \<^item> \<open>Static_Pkt\<close>, \<open>Port_Enet\<close>: \<open>net/port_enet.c\<close>, the port of an Ethernet controller; what the drivers of
    the SDK answer is a parameter. Its receive buffers are static packets, and \<open>Static_Pkt\<close> carries the
    properties of the switch over to them by a simulation.
  \<^item> \<open>Dsa_Tag\<close>, \<open>Ptp_Stack\<close>, \<open>Ptp_Init\<close>: \<open>net/ptp_stack/ptp_multisoc_stack.c\<close>: tags in frames, both
    directions and time stamps, initialisation. The sockets of the GenAVB library are a parameter:
    what it answers to each call.
  \<^item> \<open>Gen_Sw_Mbox\<close>, \<open>Virtio_Mailbox\<close>: \<open>libs/gen_sw_mbox/gen_sw_mbox.c\<close> and the two virtio mailboxes of
    \<open>virtio/mailbox/\<close>. Both sides of the shared page are modelled, the peer as the same code.
  \<^item> \<open>Rpmsg\<close>: \<open>libs/rpmsg/rpmsg.c\<close> over RPMsg-Lite, which is not in the repository: its functions are a
    record, their documented contract is a predicate on it, shown to hold for a concrete library.
  \<^item> \<open>Rpmsg_Apps\<close>, \<open>Rpmsg_Perf\<close>: the string echo, the ping-pong and the throughput test of \<open>apps/rpmsg_*/freertos\<close>
    over these endpoints; the ping-pong is played by both cores over one state of the library.
  \<^item> \<open>Stats\<close>, \<open>Os_Counter\<close>, \<open>Rt_Latency\<close>, \<open>Latency_App\<close>, \<open>Latency_Menu\<close>: \<open>libs/stats/stats.c\<close>, \<open>os/freertos/os/counter*.c\<close>,
    \<open>apps/rt_latency/common/rt_latency.c\<close> and \<open>apps/rt_latency/freertos/main.c\<close>.
  \<^item> \<open>Ram_Console\<close>: \<open>tools/ram_console/ram_console_dump.c\<close>, the host tool that shows the console of a core.
  \<^item> \<open>Netc_Share\<close>, \<open>Srtm\<close>: \<open>apps/netc_share/freertos\<close>, the owner of a shared Ethernet controller: requests of
    the other system for its configuration space, the links of its ports, and the connection to the
    other system, as events over a state; the calls of its libraries are checked against a protocol.
  \<^item> \<open>Zephyr_Echo\<close>, \<open>Small_Apps\<close>: \<open>apps/rpmsg_str_echo/zephyr/main.c\<close>, the echo over a library that hands messages to
    callbacks; \<open>tools/rpmsg_perf/rpmsg_perf.c\<close> and the control task of \<open>apps/soem_digital_io/freertos/main.c\<close>.
  \<^item> \<open>Irq\<close>: \<open>os/freertos/Core_AArch64/irq.c\<close> and \<open>cpu_load.c\<close>.
  \<^item> \<open>Servo\<close>: \<open>apps/soem_servo/freertos/\<close>. Floating-point numbers are real numbers; conversions to
    integers that C leaves undefined are faults. \<open>Traj_Text\<close> adds the parser of the text that describes the
    moves and the start of the application; \<open>Decimal_Text\<close> holds what its numbers share with those of
    \<open>Latency_App\<close>.

  \<^bold>\<open>What is shown.\<close> Refinement: the switch delivers each frame to exactly the ports of the
  specification, in order and without losing or leaking a packet; the mailbox registry and the
  interrupt table are maps; the benchmark is an abstract sampler whose reports are those of the
  samples taken; a receive buffer of the Ethernet port is never in two places; the other system writes
  what is its own and at most three bytes behind it, and a reset of it is recovered from; frames of physical ports reach the host with their tags. Function: what the queue
  walk, the transmit and receive paths of the network device, the statistics, the trajectory planner
  and the processor load compute. Round trips: the used ring reads back, trajectory texts, time stamps and durations
  reach the reader. Ordering and liveness: a kick reaches the handler, moves run to their end, a
  conforming drive reaches operation, an announced endpoint is found, the ping-pong ends on both cores, the host
  of a throughput test learns what arrived. Errors: creation is all or nothing, failed initialisation
  gives back what it took. Theorems about faults state the inputs on which the code reads or writes out of bounds, loses memory or deadlocks.

  \<^bold>\<open>Conditions.\<close> A theorem about traffic says what it needs, in its statement and in the text before it. The
  switch, the network device and the PTP stack keep their invariants, and their tasks return, whatever the
  allocator answers; which frames arrive is stated for a port that is on and an allocator that has memory.
  The benchmark follows its counter across a wrap; only a delay of \<open>2^31\<close> ticks or more, and sums that overflow
  64 bits, are left out. A registration of a mailbox is stated in every case. A drive may take up to \<open>T\<close>
  cycles for each transition. A stopped dispatcher of \<open>Srtm\<close> may keep or drop its queue. Where a condition
  is needed, a lemma beside the theorem shows what the code does without it.

  \<^bold>\<open>Bounds and fuel.\<close> The walk over a descriptor chain has as much fuel as the caller's array has
  entries, plus one: a longer chain overruns the array first. The copying loop of the receive
  callback takes fuel because a zero-length buffer makes no progress; its theorem gives the fuel that
  is enough. Loops of tasks are modelled one round at a time. Words have the widths of C; \<open>size_t\<close>
  and pointers have 64 bits.

  \<^bold>\<open>Not modelled.\<close> Printing and logging; creation of tasks beyond its success; time in \<open>vTaskDelay\<close>;
  caches and barriers (memory is sequentially consistent); board support, clock and pin tables, the
  FreeRTOS and Zephyr ports, SDK driver examples, the other host tools; the applications that only start the
  modelled services. The other copies of the servo application are near copies of the one modelled.
\<close>

end
